(* ===== verification/Gandr_Prelude.thy ===== *)
theory Gandr_Prelude
  imports Main "HOL-Library.Word" "HOL-Library.AList"
begin

text \<open>
  Shared vocabulary of the development: the Go types and standard-library functions the
  \<^verbatim>\<open>gandr\<close> packages use (byte slices, fixed arrays, \<^verbatim>\<open>encoding/binary\<close>, \<^verbatim>\<open>encoding/hex\<close>,
  \<^verbatim>\<open>unicode/utf8\<close>, \<^verbatim>\<open>time\<close>), generic lemmas about them, and the locales that several
  components implement (codecs and step invariants).

  A Go slice or string is a list of bytes, a fixed array \<^verbatim>\<open>[n]byte\<close> a list of length n, a
  \<^verbatim>\<open>time.Time\<close> the number of nanoseconds since the Unix epoch and a \<^verbatim>\<open>time.Duration\<close> a number of
  nanoseconds in the int64 range.
\<close>

named_theorems wire_simps \<open>lengths and layouts of encoded values\<close>
named_theorems go_defs \<open>definitions of modelled Go library functions\<close>

section \<open>Sequencing of fallible checks\<close>

text \<open>\<^verbatim>\<open>if err := a; err != nil { return err }\<close> followed by the rest of the function.\<close>

definition and_then :: "'e + unit \<Rightarrow> 'e + 'a \<Rightarrow> 'e + 'a" where
  "and_then a b = (case a of Inl e \<Rightarrow> Inl e | Inr _ \<Rightarrow> b)"

text \<open>\<^verbatim>\<open>for _, x := range xs { if err := f(x); err != nil { return err } }\<close>\<close>

fun for_each :: "('a \<Rightarrow> 'e + unit) \<Rightarrow> 'a list \<Rightarrow> 'e + unit" where
  "for_each f [] = Inr ()"
| "for_each f (x # xs) = and_then (f x) (for_each f xs)"

lemma and_then_Inr_iff [simp]: "and_then a b = Inr r \<longleftrightarrow> a = Inr () \<and> b = Inr r"
  by (cases a) (auto simp: and_then_def)

lemma for_each_Inr_iff [simp]: "for_each f xs = Inr () \<longleftrightarrow> (\<forall>x \<in> set xs. f x = Inr ())"
  by (induction xs) auto

text \<open>The value of a call that succeeded.\<close>

definition some_of :: "'e + 'a \<Rightarrow> 'a option" where
  "some_of r = (case r of Inl _ \<Rightarrow> None | Inr a \<Rightarrow> Some a)"

lemma some_of_simps [simp]: "some_of (Inl e) = None" "some_of (Inr a) = Some a"
  by (simp_all add: some_of_def)

section \<open>Byte slices, arrays and strings\<close>

type_synonym byte = "8 word"
type_synonym bytes = "byte list"
type_synonym gostring = "byte list"
type_synonym instant = int
type_synonym duration = int

text \<open>A string literal of the source.\<close>

definition str :: "string \<Rightarrow> gostring" where
  "str s = map of_char s"

text \<open>\<^verbatim>\<open>var a [n]byte; copy(a[:], b)\<close>: the first n bytes of b, zero-filled.\<close>

definition to_array :: "nat \<Rightarrow> bytes \<Rightarrow> bytes" where
  "to_array n b = take n b @ replicate (n - length b) 0"

text \<open>\<^verbatim>\<open>xs[lo:hi]\<close>, \<^const>\<open>None\<close> where Go panics (taking the capacity to be the length).\<close>

definition go_slice :: "'a list \<Rightarrow> nat \<Rightarrow> nat \<Rightarrow> 'a list option" where
  "go_slice xs lo hi = (if lo \<le> hi \<and> hi \<le> length xs then Some (take (hi - lo) (drop lo xs)) else None)"

text \<open>\<^verbatim>\<open>xs[i]\<close>, \<^const>\<open>None\<close> where Go panics.\<close>

definition go_index :: "'a list \<Rightarrow> nat \<Rightarrow> 'a option" where
  "go_index xs i = (if i < length xs then Some (xs ! i) else None)"

lemma length_to_array [simp, wire_simps]: "length (to_array n b) = n"
  by (simp add: to_array_def)

lemma to_array_id [simp]: "length b = n \<Longrightarrow> to_array n b = b"
  by (simp add: to_array_def)

lemma length_str [simp, wire_simps]: "length (str s) = length s"
  by (simp add: str_def)

lemma go_slice_Some [simp]:
  "lo \<le> hi \<Longrightarrow> hi \<le> length xs \<Longrightarrow> go_slice xs lo hi = Some (take (hi - lo) (drop lo xs))"
  by (simp add: go_slice_def)

lemma go_slice_eq_Some_iff:
  "go_slice xs lo hi = Some ys \<longleftrightarrow> lo \<le> hi \<and> hi \<le> length xs \<and> ys = take (hi - lo) (drop lo xs)"
  by (auto simp: go_slice_def)

lemma go_index_Some [simp]: "i < length xs \<Longrightarrow> go_index xs i = Some (xs ! i)"
  by (simp add: go_index_def)

text \<open>A list of known length splits at a boundary.\<close>

lemma append_eq_append_length:
  "length a = length c \<Longrightarrow> a @ b = c @ d \<longleftrightarrow> a = c \<and> b = d"
  by simp

lemma take_drop_split: "n \<le> m \<Longrightarrow> take n xs @ take (m - n) (drop n xs) = take m xs"
  by (metis le_add_diff_inverse take_add)

section \<open>encoding/binary, big-endian\<close>

fun be_bytes :: "nat \<Rightarrow> nat \<Rightarrow> bytes" where
  "be_bytes 0 n = []"
| "be_bytes (Suc k) n = be_bytes k (n div 256) @ [of_nat n]"

definition be_nat :: "bytes \<Rightarrow> nat" where
  "be_nat bs = foldl (\<lambda>acc b. acc * 256 + unat b) 0 bs"

lemma length_be_bytes [simp, wire_simps]: "length (be_bytes k n) = k"
  by (induction k arbitrary: n) auto

lemma be_nat_Nil [simp]: "be_nat [] = 0"
  by (simp add: be_nat_def)

lemma be_nat_snoc [simp]: "be_nat (bs @ [b]) = be_nat bs * 256 + unat b"
  by (simp add: be_nat_def)

lemma unat_of_nat_byte [simp]: "unat (of_nat n :: byte) = n mod 256"
  by (simp add: unat_of_nat)

lemma word_unat_eqI: "unat v = unat w \<Longrightarrow> v = w"
  by (rule unsigned_word_eqI)

lemma be_nat_be_bytes [simp]: "be_nat (be_bytes k n) = n mod 256 ^ k"
proof (induction k arbitrary: n)
  case 0
  then show ?case by simp
next
  case (Suc k)
  have "n mod (256 * 256 ^ k) = 256 * (n div 256 mod 256 ^ k) + n mod 256"
    by (rule mod_mult2_eq)
  then show ?case by (simp add: Suc.IH mult.commute)
qed

lemma be_nat_bound: "be_nat bs < 256 ^ length bs"
proof (induction bs rule: rev_induct)
  case Nil
  then show ?case by simp
next
  case (snoc b bs)
  have "unat b < 256" using unsigned_less [of b, where ?'a = nat] by simp
  with snoc show ?case by simp
qed

lemma be_bytes_be_nat [simp]: "be_bytes (length bs) (be_nat bs) = bs"
proof (induction bs rule: rev_induct)
  case Nil
  then show ?case by simp
next
  case (snoc b bs)
  have b: "unat b < 256" using unsigned_less [of b, where ?'a = nat] by simp
  have "(be_nat bs * 256 + unat b) div 256 = be_nat bs" using b by simp
  moreover have "(of_nat (be_nat bs * 256 + unat b) :: byte) = b"
    using b by (intro word_unat_eqI) (simp del: of_nat_add of_nat_mult)
  ultimately show ?case using snoc by simp
qed

definition PutUint64 :: "64 word \<Rightarrow> bytes" where
  "PutUint64 w = be_bytes 8 (unat w)"

definition Uint64 :: "bytes \<Rightarrow> 64 word" where
  "Uint64 bs = of_nat (be_nat (take 8 bs))"

definition PutUint32 :: "32 word \<Rightarrow> bytes" where
  "PutUint32 w = be_bytes 4 (unat w)"

definition Uint32 :: "bytes \<Rightarrow> 32 word" where
  "Uint32 bs = of_nat (be_nat (take 4 bs))"

lemma length_PutUint64 [simp, wire_simps]: "length (PutUint64 w) = 8"
  by (simp add: PutUint64_def)

lemma length_PutUint32 [simp, wire_simps]: "length (PutUint32 w) = 4"
  by (simp add: PutUint32_def)

lemma Uint64_PutUint64 [simp]: "Uint64 (PutUint64 w @ r) = w"
proof -
  have "unat w mod 256 ^ 8 = unat w" using unsigned_less [of w, where ?'a = nat] by simp
  then show ?thesis by (simp add: Uint64_def PutUint64_def)
qed

lemma Uint32_PutUint32 [simp]: "Uint32 (PutUint32 w @ r) = w"
proof -
  have "unat w mod 256 ^ 4 = unat w" using unsigned_less [of w, where ?'a = nat] by simp
  then show ?thesis by (simp add: Uint32_def PutUint32_def)
qed

lemma PutUint64_Uint64: "length bs = 8 \<Longrightarrow> PutUint64 (Uint64 bs) = bs"
  using be_nat_bound [of bs] be_bytes_be_nat [of bs]
  by (simp add: PutUint64_def Uint64_def unat_of_nat)

lemma PutUint32_Uint32: "length bs = 4 \<Longrightarrow> PutUint32 (Uint32 bs) = bs"
  using be_nat_bound [of bs] be_bytes_be_nat [of bs]
  by (simp add: PutUint32_def Uint32_def unat_of_nat)

lemma Uint64_PutUint64' [simp]: "Uint64 (PutUint64 w) = w"
  using Uint64_PutUint64 [of w "[]"] by simp

lemma Uint32_PutUint32' [simp]: "Uint32 (PutUint32 w) = w"
  using Uint32_PutUint32 [of w "[]"] by simp


section \<open>encoding/hex\<close>

definition hex_digit :: "nat \<Rightarrow> byte" where
  "hex_digit n = (if n < 10 then of_nat (48 + n) else of_nat (87 + n))"

text \<open>\<^verbatim>\<open>hex.EncodeToString\<close>: lower-case digits.\<close>

definition EncodeToString :: "bytes \<Rightarrow> gostring" where
  "EncodeToString bs = concat (map (\<lambda>b. [hex_digit (unat b div 16), hex_digit (unat b mod 16)]) bs)"

definition from_hex :: "byte \<Rightarrow> nat option" where
  "from_hex c =
     (let n = unat c in
      if 48 \<le> n \<and> n \<le> 57 then Some (n - 48)
      else if 97 \<le> n \<and> n \<le> 102 then Some (n - 87)
      else if 65 \<le> n \<and> n \<le> 70 then Some (n - 55)
      else None)"

text \<open>\<^verbatim>\<open>hex.DecodeString\<close>: both cases accepted, \<^const>\<open>None\<close> for the error.\<close>

fun DecodeString :: "gostring \<Rightarrow> bytes option" where
  "DecodeString [] = Some []"
| "DecodeString [_] = None"
| "DecodeString (x # y # r) =
     (case (from_hex x, from_hex y, DecodeString r) of
        (Some h, Some l, Some bs) \<Rightarrow> Some (of_nat (16 * h + l) # bs)
      | _ \<Rightarrow> None)"

lemma EncodeToString_Nil [simp]: "EncodeToString [] = []"
  by (simp add: EncodeToString_def)

lemma EncodeToString_Cons [simp]:
  "EncodeToString (b # bs) =
     hex_digit (unat b div 16) # hex_digit (unat b mod 16) # EncodeToString bs"
  by (simp add: EncodeToString_def)

lemma length_EncodeToString [simp, wire_simps]: "length (EncodeToString bs) = 2 * length bs"
  by (induction bs) auto

lemma from_hex_hex_digit [simp]: "n < 16 \<Longrightarrow> from_hex (hex_digit n) = Some n"
  by (auto simp: from_hex_def hex_digit_def Let_def simp del: of_nat_add)

lemma DecodeString_EncodeToString [simp]: "DecodeString (EncodeToString bs) = Some bs"
proof (induction bs)
  case Nil
  then show ?case by simp
next
  case (Cons b bs)
  have b: "unat b < 256" using unsigned_less [of b, where ?'a = nat] by simp
  then have "unat b div 16 < 16" by simp
  moreover have "(of_nat (16 * (unat b div 16) + unat b mod 16) :: byte) = b" by simp
  ultimately show ?case using Cons by simp
qed

lemma DecodeString_length: "DecodeString s = Some bs \<Longrightarrow> length s = 2 * length bs"
  by (induction s arbitrary: bs rule: DecodeString.induct) (auto split: option.splits)

section \<open>unicode/utf8\<close>

text \<open>
  The number of bytes of the rune at the front of a non-empty string, \<^const>\<open>None\<close> where the
  front is not a valid encoding (Go then decodes \<^verbatim>\<open>RuneError\<close> with width 1). The accept ranges
  are those of \<^verbatim>\<open>unicode/utf8\<close>.
\<close>

definition cont :: "nat \<Rightarrow> nat \<Rightarrow> byte \<Rightarrow> bool" where
  "cont lo hi b \<longleftrightarrow> lo \<le> unat b \<and> unat b \<le> hi"

definition rune_width :: "bytes \<Rightarrow> nat option" where
  "rune_width s =
     (case s of
        [] \<Rightarrow> None
      | b # r \<Rightarrow>
          (let c = unat b;
               lo = (if c = 224 then 160 else if c = 240 then 144 else 128);
               hi = (if c = 237 then 159 else if c = 244 then 143 else 191)
           in
           if c < 128 then Some 1
           else if 194 \<le> c \<and> c \<le> 223 then
             (case r of b1 # _ \<Rightarrow> if cont lo hi b1 then Some 2 else None | _ \<Rightarrow> None)
           else if 224 \<le> c \<and> c \<le> 239 then
             (case r of b1 # b2 # _ \<Rightarrow>
                if cont lo hi b1 \<and> cont 128 191 b2 then Some 3 else None | _ \<Rightarrow> None)
           else if 240 \<le> c \<and> c \<le> 244 then
             (case r of b1 # b2 # b3 # _ \<Rightarrow>
                if cont lo hi b1 \<and> cont 128 191 b2 \<and> cont 128 191 b3 then Some 4 else None
              | _ \<Rightarrow> None)
           else None))"

lemma rune_width_pos: "rune_width s = Some n \<Longrightarrow> 0 < n"
  by (auto simp: rune_width_def Let_def split: list.splits if_splits)

function ValidString :: "gostring \<Rightarrow> bool" where
  "ValidString s =
     (if s = [] then True
      else case rune_width s of None \<Rightarrow> False | Some n \<Rightarrow> ValidString (drop n s))"
  by pat_completeness auto
termination
  by (relation "measure length") (auto dest: rune_width_pos)

function RuneCountInString :: "gostring \<Rightarrow> nat" where
  "RuneCountInString s =
     (if s = [] then 0
      else case rune_width s of
        None \<Rightarrow> Suc (RuneCountInString (drop 1 s))
      | Some n \<Rightarrow> Suc (RuneCountInString (drop n s)))"
  by pat_completeness auto
termination
  by (relation "measure length") (auto dest: rune_width_pos)

declare ValidString.simps [simp del] RuneCountInString.simps [simp del]

lemma ValidString_Nil [simp]: "ValidString []"
  by (simp add: ValidString.simps)

lemma RuneCountInString_Nil [simp]: "RuneCountInString [] = 0"
  by (simp add: RuneCountInString.simps)

lemma rune_width_ascii: "unat b < 128 \<Longrightarrow> rune_width (b # r) = Some 1"
  by (simp add: rune_width_def Let_def)

lemma ValidString_ascii: "\<forall>b \<in> set s. unat b < 128 \<Longrightarrow> ValidString s"
proof (induction s)
  case Nil
  then show ?case by simp
next
  case (Cons b s)
  then show ?case by (simp add: ValidString.simps [of "b # s"] rune_width_ascii)
qed

lemma RuneCountInString_ascii:
  "\<forall>b \<in> set s. unat b < 128 \<Longrightarrow> RuneCountInString s = length s"
proof (induction s)
  case Nil
  then show ?case by simp
next
  case (Cons b s)
  then show ?case by (simp add: RuneCountInString.simps [of "b # s"] rune_width_ascii)
qed

lemma RuneCountInString_le: "RuneCountInString s \<le> length s"
proof (induction s rule: RuneCountInString.induct)
  case (1 s)
  show ?case
  proof (cases "s = []")
    case True
    then show ?thesis by simp
  next
    case False
    show ?thesis
    proof (cases "rune_width s")
      case None
      with False 1(1) have "RuneCountInString (drop 1 s) \<le> length (drop 1 s)" by simp
      with False None show ?thesis
        by (simp add: RuneCountInString.simps [of s] Suc_le_eq)
          (metis Suc_pred le_imp_less_Suc length_greater_0_conv)
    next
      case (Some n)
      with False 1(2) have "RuneCountInString (drop n s) \<le> length (drop n s)" by simp
      moreover have "0 < n" using Some by (rule rune_width_pos)
      ultimately have "Suc (RuneCountInString (drop n s)) \<le> length s"
        using False by (cases s) auto
      with False Some show ?thesis by (simp add: RuneCountInString.simps [of s])
    qed
  qed
qed

section \<open>time\<close>

definition min_duration :: duration where "min_duration = - (2 ^ 63)"
definition max_duration :: duration where "max_duration = 2 ^ 63 - 1"

text \<open>\<^verbatim>\<open>t.Sub(u)\<close> saturates at the int64 range.\<close>

definition time_sub :: "instant \<Rightarrow> instant \<Rightarrow> duration" where
  "time_sub t u = max min_duration (min max_duration (t - u))"

abbreviation (input) Millisecond :: duration where "Millisecond \<equiv> 1000000"
abbreviation (input) Second :: duration where "Second \<equiv> 1000000000"
abbreviation (input) Minute :: duration where "Minute \<equiv> 60000000000"
abbreviation (input) Hour :: duration where "Hour \<equiv> 3600000000000"

text \<open>\<^verbatim>\<open>time.Unix(0, ns)\<close> for an int64 \<^verbatim>\<open>ns\<close>.\<close>

definition unix_nano :: "64 word \<Rightarrow> instant" where
  "unix_nano w = sint w"

lemma time_sub_gt_iff:
  "min_duration \<le> d \<Longrightarrow> d < max_duration \<Longrightarrow> d < time_sub t u \<longleftrightarrow> d < t - u"
  by (auto simp: time_sub_def)

lemmas time_defs = time_sub_def min_duration_def max_duration_def unix_nano_def

section \<open>Interfaces\<close>

text \<open>
  An encoder with its decoder. The first locale is what a reader of one's own output needs, the
  second adds that the decoder accepts nothing but encodings, so that every value has one
  representation.
\<close>

locale encoder =
  fixes enc :: "'a \<Rightarrow> bytes"
    and dec :: "bytes \<Rightarrow> 'a option"
    and wf :: "'a \<Rightarrow> bool"
  assumes dec_enc: "wf a \<Longrightarrow> dec (enc a) = Some a"
begin

lemma enc_inj: "wf a \<Longrightarrow> wf b \<Longrightarrow> enc a = enc b \<Longrightarrow> a = b"
  by (metis dec_enc option.inject)

end

locale canonical_codec = encoder +
  assumes dec_canonical: "dec b = Some a \<Longrightarrow> wf a \<and> enc a = b"
begin

lemma dec_iff: "dec b = Some a \<longleftrightarrow> wf a \<and> b = enc a"
  using dec_canonical dec_enc by blast

lemma dec_inj: "dec b = Some a \<Longrightarrow> dec c = Some a \<Longrightarrow> b = c"
  by (simp add: dec_iff)

end

interpretation hexc: encoder EncodeToString DecodeString "\<lambda>_. True"
  by unfold_locales simp

definition dec_uint64 :: "bytes \<Rightarrow> 64 word option" where
  "dec_uint64 b = (if length b = 8 then Some (Uint64 b) else None)"

definition dec_uint32 :: "bytes \<Rightarrow> 32 word option" where
  "dec_uint32 b = (if length b = 4 then Some (Uint32 b) else None)"

interpretation u64: canonical_codec PutUint64 dec_uint64 "\<lambda>_. True"
  by unfold_locales (auto simp: dec_uint64_def PutUint64_Uint64 split: if_splits)

interpretation u32: canonical_codec PutUint32 dec_uint32 "\<lambda>_. True"
  by unfold_locales (auto simp: dec_uint32_def PutUint32_Uint32 split: if_splits)

text \<open>
  A component driven by a sequence of events: what one step keeps, a whole run keeps; a
  reflexive and transitive relation that one step establishes holds across a run.
\<close>

locale run_invariant =
  fixes step :: "'s \<Rightarrow> 'e \<Rightarrow> 's" and inv :: "'s \<Rightarrow> bool"
  assumes step_inv: "inv s \<Longrightarrow> inv (step s e)"
begin

lemma run_inv: "inv s \<Longrightarrow> inv (foldl step s es)"
  by (induction es arbitrary: s) (auto intro: step_inv)

end

locale run_relation = run_invariant +
  fixes rel :: "'s \<Rightarrow> 's \<Rightarrow> bool"
  assumes rel_refl: "rel s s"
    and rel_trans: "rel s t \<Longrightarrow> rel t u \<Longrightarrow> rel s u"
    and step_rel: "inv s \<Longrightarrow> rel s (step s e)"
begin

lemma run_rel: "inv s \<Longrightarrow> rel s (foldl step s es)"
proof (induction es arbitrary: s)
  case Nil
  then show ?case by (simp add: rel_refl)
next
  case (Cons e es)
  then have "rel (step s e) (foldl step (step s e) es)" by (blast intro: step_inv)
  with Cons.prems show ?case by (auto intro: rel_trans step_rel)
qed

end

end
