(* ===== verification/Gandr_Crypto.thy ===== *)
theory Gandr_Crypto
  imports Gandr_Prelude
begin

unbundle bit_operations_syntax

text \<open>
  Package \<^verbatim>\<open>pkg/crypto\<close> without \<^verbatim>\<open>sealed.go\<close>: signing, content digests, key conversion and agreement,
  authenticated encryption, group messages and keyfiles.

  The primitives themselves (SHA-2, Ed25519, X25519, HKDF, XChaCha20-Poly1305, Argon2id) are the
  fields of the record \<open>prims\<close>, an argument of every operation that uses them; what the code relies
  on is stated by the predicates \<open>sizes_ok\<close>, \<open>sign_ok\<close>, \<open>aead_ok\<close>, \<open>dh_ok\<close> and \<open>conv_ok\<close>. Random
  bytes (\<^verbatim>\<open>RandomBytes\<close>, \<^verbatim>\<open>rand.Read\<close>) are explicit arguments.
\<close>

section \<open>Primitives\<close>

record prims =
  sha256 :: "bytes \<Rightarrow> bytes"
  sha512 :: "bytes \<Rightarrow> bytes"
  ed25519_pub :: "bytes \<Rightarrow> bytes"
  ed25519_sign :: "bytes \<Rightarrow> bytes \<Rightarrow> bytes"
  ed25519_verify :: "bytes \<Rightarrow> bytes \<Rightarrow> bytes \<Rightarrow> bool"
  ed25519_montgomery :: "bytes \<Rightarrow> bytes option"
  x25519 :: "bytes \<Rightarrow> bytes \<Rightarrow> bytes option"
  x25519_base :: bytes
  hkdf_sha256 :: "bytes \<Rightarrow> bytes \<Rightarrow> bytes"
  aead_seal :: "bytes \<Rightarrow> bytes \<Rightarrow> bytes \<Rightarrow> bytes \<Rightarrow> bytes"
  aead_open :: "bytes \<Rightarrow> bytes \<Rightarrow> bytes \<Rightarrow> bytes \<Rightarrow> bytes option"
  argon2id :: "bytes \<Rightarrow> bytes \<Rightarrow> bytes"

text \<open>
  The fields are, in order: SHA-256; SHA-512; the Ed25519 public key of a seed; Ed25519 signing with
  a private key; verification of public key, message and signature; the Montgomery form of an
  Edwards point (\<^const>\<open>None\<close> for an invalid encoding); X25519 of scalar and point (\<^const>\<open>None\<close> for a
  low-order result) and its base point; 32 bytes of HKDF-SHA256 output for secret and info; AEAD
  sealing of key, nonce, plaintext and associated data; AEAD opening of key, nonce, ciphertext and
  associated data; Argon2id of password and salt.
\<close>

definition sizes_ok :: "prims \<Rightarrow> bool" where
  "sizes_ok P \<longleftrightarrow>
     (\<forall>m. length (sha256 P m) = 32) \<and> (\<forall>m. length (sha512 P m) = 64) \<and>
     (\<forall>s. length (ed25519_pub P s) = 32) \<and> (\<forall>k m. length (ed25519_sign P k m) = 64) \<and>
     (\<forall>a p s. x25519 P a p = Some s \<longrightarrow> length s = 32) \<and>
     (\<forall>p s. ed25519_montgomery P p = Some s \<longrightarrow> length s = 32) \<and>
     (\<forall>s i. length (hkdf_sha256 P s i) = 32) \<and> (\<forall>p s. length (argon2id P p s) = 32) \<and>
     (\<forall>k n p a. length (aead_seal P k n p a) = length p + 16)"

definition sign_ok :: "prims \<Rightarrow> bool" where
  "sign_ok P \<longleftrightarrow>
     (\<forall>seed m. length seed = 32 \<longrightarrow>
        ed25519_verify P (ed25519_pub P seed) m (ed25519_sign P (seed @ ed25519_pub P seed) m))"

definition aead_ok :: "prims \<Rightarrow> bool" where
  "aead_ok P \<longleftrightarrow> (\<forall>k n p a. aead_open P k n (aead_seal P k n p a) a = Some p)"

definition dh_ok :: "prims \<Rightarrow> bool" where
  "dh_ok P \<longleftrightarrow>
     (\<forall>a b pa pb. x25519 P a (x25519_base P) = Some pa \<longrightarrow> x25519 P b (x25519_base P) = Some pb \<longrightarrow>
        x25519 P a pb = x25519 P b pa)"

lemma sizes_okD:
  assumes "sizes_ok P"
  shows "length (sha256 P m) = 32" "length (sha512 P m) = 64" "length (ed25519_pub P s) = 32"
    "length (ed25519_sign P k m) = 64" "length (hkdf_sha256 P s i) = 32"
    "length (argon2id P p s) = 32" "length (aead_seal P k n p a) = length p + 16"
    "x25519 P x y = Some z \<Longrightarrow> length z = 32" "ed25519_montgomery P y = Some z \<Longrightarrow> length z = 32"
  using assms by (auto simp: sizes_ok_def)

lemma dh_okD:
  "dh_ok P \<Longrightarrow> x25519 P a (x25519_base P) = Some pa \<Longrightarrow> x25519 P b (x25519_base P) = Some pb \<Longrightarrow>
     x25519 P a pb = x25519 P b pa"
  unfolding dh_ok_def by blast

section \<open>Identity keys, signatures and digests\<close>

datatype crypto_error =
    ErrPrivateKeyLength nat
  | ErrPublicKeyLength nat
  | ErrInvalidPoint
  | ErrKeyAgreement
  | ErrDecrypt
  | ErrSealedTooLarge nat
  | ErrNilBox
  | ErrSealedCorrupt
  | ErrSealedSignature
  | ErrGroupPasswordEmpty
  | ErrGroupTooShort
  | ErrKeyfileTooShort
  | ErrKeyfileDecrypt
  | CryptoPanic

abbreviation (input) KeySize :: nat where "KeySize \<equiv> 32"
abbreviation (input) NonceSize :: nat where "NonceSize \<equiv> 24"
abbreviation (input) Overhead :: nat where "Overhead \<equiv> 16"
abbreviation (input) SignatureSize :: nat where "SignatureSize \<equiv> 64"
abbreviation (input) PrivateKeySize :: nat where "PrivateKeySize \<equiv> 64"
abbreviation (input) SeedSize :: nat where "SeedSize \<equiv> 32"

text \<open>
  \<^verbatim>\<open>ed25519.PrivateKey\<close> is the seed followed by the public key; \<^verbatim>\<open>NewKeyFromSeed\<close>, \<^verbatim>\<open>Public\<close> and
  \<^verbatim>\<open>Seed\<close> only build and split it.
\<close>

definition NewKeyFromSeed :: "prims \<Rightarrow> bytes \<Rightarrow> bytes" where
  "NewKeyFromSeed P seed = seed @ ed25519_pub P seed"

definition Public :: "bytes \<Rightarrow> bytes" where
  "Public priv = drop 32 priv"

definition Seed :: "bytes \<Rightarrow> bytes" where
  "Seed priv = take 32 priv"

definition wf_priv :: "prims \<Rightarrow> bytes \<Rightarrow> bool" where
  "wf_priv P priv \<longleftrightarrow> length priv = PrivateKeySize \<and> priv = NewKeyFromSeed P (Seed priv)"

definition GenerateIdentity :: "prims \<Rightarrow> bytes \<Rightarrow> bytes \<times> bytes" where
  "GenerateIdentity P rnd = (let priv = NewKeyFromSeed P (to_array SeedSize rnd) in (Public priv, priv))"

definition Sign :: "prims \<Rightarrow> bytes \<Rightarrow> bytes \<Rightarrow> crypto_error + bytes" where
  "Sign P priv digest =
     (if length priv \<noteq> PrivateKeySize then Inl (ErrPrivateKeyLength (length priv))
      else Inr (ed25519_sign P priv digest))"

definition Verify :: "prims \<Rightarrow> bytes \<Rightarrow> bytes \<Rightarrow> bytes \<Rightarrow> bool" where
  "Verify P pub digest sig \<longleftrightarrow>
     length pub = 32 \<and> length sig = SignatureSize \<and> ed25519_verify P pub digest sig"

definition Digest :: "prims \<Rightarrow> bytes list \<Rightarrow> bytes" where
  "Digest P parts = to_array 32 (sha256 P (concat parts))"

lemma length_Digest [simp, wire_simps]: "length (Digest P parts) = 32"
  by (simp add: Digest_def)

lemma Public_NewKeyFromSeed [simp]: "length seed = 32 \<Longrightarrow> Public (NewKeyFromSeed P seed) = ed25519_pub P seed"
  by (simp add: Public_def NewKeyFromSeed_def)

lemma Seed_NewKeyFromSeed [simp]: "length seed = 32 \<Longrightarrow> Seed (NewKeyFromSeed P seed) = seed"
  by (simp add: Seed_def NewKeyFromSeed_def)

lemma length_Seed [simp]: "length priv = 64 \<Longrightarrow> length (Seed priv) = 32"
  by (simp add: Seed_def)

lemma length_Public [simp]: "length priv = 64 \<Longrightarrow> length (Public priv) = 32"
  by (simp add: Public_def)

lemma wf_priv_NewKeyFromSeed: "sizes_ok P \<Longrightarrow> length seed = 32 \<Longrightarrow> wf_priv P (NewKeyFromSeed P seed)"
  by (simp add: wf_priv_def sizes_okD) (simp add: NewKeyFromSeed_def sizes_okD)

lemma wf_priv_length: "wf_priv P priv \<Longrightarrow> length priv = 64"
  by (simp add: wf_priv_def)

lemma wf_priv_Public: "wf_priv P priv \<Longrightarrow> Public priv = ed25519_pub P (Seed priv)"
  by (metis length_Seed wf_priv_def Public_NewKeyFromSeed)

text \<open>A signature made with a well-formed private key verifies under its public key.\<close>

lemma Verify_sign:
  assumes "sizes_ok P" "sign_ok P" "wf_priv P priv"
  shows "Verify P (Public priv) d (ed25519_sign P priv d)"
proof -
  have "priv = Seed priv @ ed25519_pub P (Seed priv)"
    using assms(3) by (simp add: wf_priv_def NewKeyFromSeed_def)
  then have "ed25519_verify P (ed25519_pub P (Seed priv)) d (ed25519_sign P priv d)"
    using assms(2,3) by (metis length_Seed sign_ok_def wf_priv_length)
  then show ?thesis
    using assms by (simp add: Verify_def wf_priv_Public sizes_okD)
qed

section \<open>Key conversion and agreement\<close>

definition PublicKeyToX25519 :: "prims \<Rightarrow> bytes \<Rightarrow> crypto_error + bytes" where
  "PublicKeyToX25519 P pub =
     (if length pub \<noteq> 32 then Inl (ErrPublicKeyLength (length pub))
      else case ed25519_montgomery P pub of
        None \<Rightarrow> Inl ErrInvalidPoint
      | Some m \<Rightarrow> Inr (to_array KeySize m))"

definition PrivateKeyToX25519 :: "prims \<Rightarrow> bytes \<Rightarrow> crypto_error + bytes" where
  "PrivateKeyToX25519 P priv =
     (if length priv \<noteq> PrivateKeySize then Inl (ErrPrivateKeyLength (length priv))
      else
        let h = sha512 P (Seed priv);
            out = to_array KeySize (take KeySize h);
            out = out[0 := (out ! 0) AND 248];
            out = out[31 := (out ! 31) AND 127];
            out = out[31 := (out ! 31) OR 64]
        in Inr out)"

text \<open>\<^verbatim>\<open>GenerateX25519\<close> returns the public and the private key.\<close>

definition GenerateX25519 :: "prims \<Rightarrow> bytes \<Rightarrow> crypto_error + (bytes \<times> bytes)" where
  "GenerateX25519 P rnd =
     (let priv = to_array KeySize rnd in
      case x25519 P priv (x25519_base P) of
        None \<Rightarrow> Inl ErrKeyAgreement
      | Some p \<Rightarrow> Inr (to_array KeySize p, priv))"

definition DeriveSharedKey :: "prims \<Rightarrow> bytes \<Rightarrow> bytes \<Rightarrow> gostring \<Rightarrow> crypto_error + bytes" where
  "DeriveSharedKey P priv pub info =
     (case x25519 P priv pub of
        None \<Rightarrow> Inl ErrKeyAgreement
      | Some shared \<Rightarrow> Inr (to_array KeySize (hkdf_sha256 P shared info)))"

text \<open>
  The conversions agree: the Montgomery form of an identity's public key is the X25519 public key of
  its converted private key.
\<close>

definition conv_ok :: "prims \<Rightarrow> bool" where
  "conv_ok P \<longleftrightarrow>
     (\<forall>priv x. wf_priv P priv \<longrightarrow> PrivateKeyToX25519 P priv = Inr x \<longrightarrow>
        ed25519_montgomery P (Public priv) = x25519 P x (x25519_base P) \<and>
        x25519 P x (x25519_base P) \<noteq> None)"

lemma length_PrivateKeyToX25519: "PrivateKeyToX25519 P priv = Inr x \<Longrightarrow> length x = 32"
  by (auto simp: PrivateKeyToX25519_def Let_def split: if_splits)

lemma length_DeriveSharedKey: "DeriveSharedKey P priv pub i = Inr k \<Longrightarrow> length k = 32"
  by (auto simp: DeriveSharedKey_def split: option.splits)

text \<open>Two ephemeral keys agree on a session key, whichever side computes it.\<close>

lemma DeriveSharedKey_agree:
  assumes "sizes_ok P" "dh_ok P"
    and "GenerateX25519 P r1 = Inr (pub1, priv1)" and "GenerateX25519 P r2 = Inr (pub2, priv2)"
  shows "DeriveSharedKey P priv1 pub2 i = DeriveSharedKey P priv2 pub1 i"
proof -
  obtain p1 p2 where "x25519 P priv1 (x25519_base P) = Some p1" "pub1 = to_array 32 p1"
    and "x25519 P priv2 (x25519_base P) = Some p2" "pub2 = to_array 32 p2"
    using assms(3,4) by (auto simp: GenerateX25519_def Let_def split: option.splits)
  moreover from this assms(1) have "pub1 = p1" "pub2 = p2" by (auto simp: sizes_okD)
  ultimately have "x25519 P priv1 pub2 = x25519 P priv2 pub1"
    using dh_okD [OF assms(2)] by metis
  then show ?thesis by (simp add: DeriveSharedKey_def)
qed

text \<open>The same for an ephemeral key against a converted identity key, as sealed messages use it.\<close>

lemma DeriveSharedKey_convert:
  assumes "sizes_ok P" "dh_ok P" "conv_ok P" "wf_priv P rpriv"
    and "GenerateX25519 P r = Inr (epub, epriv)"
    and "PublicKeyToX25519 P (Public rpriv) = Inr rx" and "PrivateKeyToX25519 P rpriv = Inr sx"
  shows "DeriveSharedKey P epriv rx i = DeriveSharedKey P sx epub i"
proof -
  obtain m where m: "ed25519_montgomery P (Public rpriv) = Some m" "rx = to_array 32 m"
    using assms(6) by (auto simp: PublicKeyToX25519_def split: if_splits option.splits)
  then have "rx = m" using assms(1) by (simp add: sizes_okD)
  moreover obtain p where "x25519 P epriv (x25519_base P) = Some p" "epub = to_array 32 p"
    using assms(5) by (auto simp: GenerateX25519_def Let_def split: option.splits)
  moreover have "epub = p" using calculation assms(1) by (simp add: sizes_okD)
  moreover have "x25519 P sx (x25519_base P) = Some m"
    using assms(3,4,7) m by (auto simp: conv_ok_def)
  ultimately have "x25519 P epriv rx = x25519 P sx epub"
    using dh_okD [OF assms(2)] by metis
  then show ?thesis by (simp add: DeriveSharedKey_def)
qed

section \<open>Authenticated encryption\<close>

definition Encrypt :: "prims \<Rightarrow> bytes \<Rightarrow> bytes \<Rightarrow> bytes \<Rightarrow> bytes \<Rightarrow> bytes \<times> bytes" where
  "Encrypt P rnd key plaintext aad =
     (let nonce = to_array NonceSize rnd in (nonce, aead_seal P key nonce plaintext aad))"

definition Decrypt :: "prims \<Rightarrow> bytes \<Rightarrow> bytes \<Rightarrow> bytes \<Rightarrow> bytes \<Rightarrow> crypto_error + bytes" where
  "Decrypt P key nonce ciphertext aad =
     (case aead_open P key nonce ciphertext aad of None \<Rightarrow> Inl ErrDecrypt | Some p \<Rightarrow> Inr p)"

lemma Decrypt_Encrypt:
  "aead_ok P \<Longrightarrow> Encrypt P rnd key p aad = (nonce, ct) \<Longrightarrow> Decrypt P key nonce ct aad = Inr p"
  by (auto simp: Encrypt_def Decrypt_def aead_ok_def Let_def)

lemma length_Encrypt:
  "sizes_ok P \<Longrightarrow> Encrypt P rnd key p aad = (nonce, ct) \<Longrightarrow> length nonce = 24 \<and> length ct = length p + 16"
  by (auto simp: Encrypt_def Let_def sizes_okD)

lemma Decrypt_not_panic [simp]: "Decrypt P k n c a \<noteq> Inl CryptoPanic"
  by (simp add: Decrypt_def split: option.splits)

lemma DeriveSharedKey_not_panic [simp]: "DeriveSharedKey P k n c \<noteq> Inl CryptoPanic"
  by (simp add: DeriveSharedKey_def split: option.splits)

lemma PrivateKeyToX25519_not_panic [simp]: "PrivateKeyToX25519 P k \<noteq> Inl CryptoPanic"
  by (simp add: PrivateKeyToX25519_def Let_def)

section \<open>Group messages and keyfiles\<close>

definition DeriveGroupKey :: "prims \<Rightarrow> bytes \<Rightarrow> bytes \<Rightarrow> crypto_error + bytes" where
  "DeriveGroupKey P password groupID =
     (if length password = 0 then Inl ErrGroupPasswordEmpty
      else Inr (to_array KeySize (argon2id P password groupID)))"

definition EncryptGroup :: "prims \<Rightarrow> bytes \<Rightarrow> bytes \<Rightarrow> bytes \<Rightarrow> bytes \<Rightarrow> bytes" where
  "EncryptGroup P rnd groupKey groupID plaintext =
     (let (nonce, ciphertext) = Encrypt P rnd groupKey plaintext groupID in nonce @ ciphertext)"

definition DecryptGroup :: "prims \<Rightarrow> bytes \<Rightarrow> bytes \<Rightarrow> bytes \<Rightarrow> crypto_error + bytes" where
  "DecryptGroup P groupKey groupID blob =
     (if length blob < NonceSize + Overhead then Inl ErrGroupTooShort
      else Decrypt P groupKey (to_array NonceSize (take NonceSize blob)) (drop NonceSize blob) groupID)"

abbreviation (input) keyfileSaltSize :: nat where "keyfileSaltSize \<equiv> 32"

definition keyfileKey :: "prims \<Rightarrow> bytes \<Rightarrow> bytes \<Rightarrow> bytes" where
  "keyfileKey P passphrase salt = to_array KeySize (argon2id P passphrase salt)"

definition EncryptKeyfile :: "prims \<Rightarrow> bytes \<Rightarrow> bytes \<Rightarrow> bytes \<Rightarrow> bytes \<Rightarrow> bytes" where
  "EncryptKeyfile P saltRnd nonceRnd passphrase plaintext =
     (let salt = to_array keyfileSaltSize saltRnd;
          (nonce, ct) = Encrypt P nonceRnd (keyfileKey P passphrase salt) plaintext []
      in salt @ nonce @ ct)"

definition DecryptKeyfile :: "prims \<Rightarrow> bytes \<Rightarrow> bytes \<Rightarrow> crypto_error + bytes" where
  "DecryptKeyfile P passphrase data =
     (if length data < keyfileSaltSize + NonceSize + Overhead then Inl ErrKeyfileTooShort
      else
        let salt = take keyfileSaltSize data;
            nonce = to_array NonceSize (take NonceSize (drop keyfileSaltSize data));
            ct = drop (keyfileSaltSize + NonceSize) data
        in case Decrypt P (keyfileKey P passphrase salt) nonce ct [] of
             Inl _ \<Rightarrow> Inl ErrKeyfileDecrypt
           | Inr plain \<Rightarrow> Inr plain)"

text \<open>Both containers are a nonce-prefixed AEAD: what went in comes out under the same secret.\<close>

lemma DecryptGroup_EncryptGroup:
  assumes "sizes_ok P" "aead_ok P"
  shows "DecryptGroup P key gid (EncryptGroup P rnd key gid p) = Inr p"
proof -
  obtain nonce ct where e: "Encrypt P rnd key p gid = (nonce, ct)" by (cases "Encrypt P rnd key p gid")
  then have "length nonce = 24 \<and> length ct = length p + 16" using assms(1) by (rule length_Encrypt [rotated])
  then show ?thesis
    using Decrypt_Encrypt [OF assms(2) e] by (simp add: DecryptGroup_def EncryptGroup_def e)
qed

lemma DecryptKeyfile_EncryptKeyfile:
  assumes "sizes_ok P" "aead_ok P"
  shows "DecryptKeyfile P pass (EncryptKeyfile P r1 r2 pass p) = Inr p"
proof -
  define salt where "salt = to_array 32 r1"
  obtain nonce ct where e: "Encrypt P r2 (keyfileKey P pass salt) p [] = (nonce, ct)"
    by (cases "Encrypt P r2 (keyfileKey P pass salt) p []")
  then have l: "length nonce = 24 \<and> length ct = length p + 16" using assms(1) by (rule length_Encrypt [rotated])
  have f: "EncryptKeyfile P r1 r2 pass p = salt @ nonce @ ct"
    using e by (simp add: EncryptKeyfile_def salt_def Let_def)
  have "length salt = 32" by (simp add: salt_def)
  then show ?thesis
    using Decrypt_Encrypt [OF assms(2) e] l
    by (simp add: DecryptKeyfile_def f)
qed

text \<open>A password keys nothing when it is empty, and only then.\<close>

lemma DeriveGroupKey_iff: "(\<exists>k. DeriveGroupKey P pw gid = Inr k) \<longleftrightarrow> pw \<noteq> []"
  by (simp add: DeriveGroupKey_def)

section \<open>A concrete instance of the hypotheses\<close>

text \<open>
  Small computable primitives that satisfy every predicate above, so that statements resting on them
  can be exercised at concrete inputs. They are no cryptography.
\<close>

definition demo_clamp :: "bytes \<Rightarrow> bytes" where
  "demo_clamp b =
     (let out = to_array 32 b;
          out = out[0 := (out ! 0) AND 248];
          out = out[31 := (out ! 31) AND 127]
      in out[31 := (out ! 31) OR 64])"

definition demo_tag :: "bytes \<Rightarrow> bytes \<Rightarrow> bytes \<Rightarrow> bytes" where
  "demo_tag k n a = to_array 16 (take 6 k @ take 4 n @ rev a)"

definition demo_prims :: prims where
  "demo_prims =
     \<lparr>sha256 = to_array 32, sha512 = to_array 64, ed25519_pub = to_array 32,
      ed25519_sign = (\<lambda>k m. to_array 64 (to_array 32 k @ to_array 32 m)),
      ed25519_verify = (\<lambda>p m s. s = to_array 64 (to_array 32 p @ to_array 32 m)),
      ed25519_montgomery = (\<lambda>p. Some (demo_clamp p)),
      x25519 = (\<lambda>a p. Some (map2 (XOR) (to_array 32 a) (to_array 32 p))),
      x25519_base = replicate 32 0,
      hkdf_sha256 = (\<lambda>s i. to_array 32 s),
      aead_seal = (\<lambda>k n p a. p @ demo_tag k n a),
      aead_open = (\<lambda>k n c a.
        if length c \<ge> 16 \<and> drop (length c - 16) c = demo_tag k n a then Some (take (length c - 16) c) else None),
      argon2id = (\<lambda>p s. to_array 32 (p @ s))\<rparr>"

lemma length_demo_clamp [simp]: "length (demo_clamp b) = 32"
  by (simp add: demo_clamp_def Let_def)

lemma length_demo_tag [simp]: "length (demo_tag k n a) = 16"
  by (simp add: demo_tag_def)

lemma map2_XOR_zero: "map2 (XOR) b (replicate (length b) 0) = (b :: bytes)"
  by (induction b) auto

lemma map2_XOR_commute: "length a = length b \<Longrightarrow> map2 (XOR) a b = map2 (XOR) b (a :: bytes)"
  by (induction a b rule: list_induct2) (auto simp: xor.commute)

lemma demo_sizes_ok: "sizes_ok demo_prims"
  by (simp add: sizes_ok_def demo_prims_def)

lemma demo_sign_ok: "sign_ok demo_prims"
  by (simp add: sign_ok_def demo_prims_def to_array_def)

lemma demo_aead_ok: "aead_ok demo_prims"
  by (simp add: aead_ok_def demo_prims_def)

lemma demo_x25519_base: "x25519 demo_prims a (x25519_base demo_prims) = Some (to_array 32 a)"
  using map2_XOR_zero [of "to_array 32 a"] by (simp add: demo_prims_def)

lemma demo_dh_ok: "dh_ok demo_prims"
proof -
  have "x25519 demo_prims a (to_array 32 b) = x25519 demo_prims b (to_array 32 a)" for a b
    by (simp add: demo_prims_def map2_XOR_commute)
  then show ?thesis unfolding dh_ok_def demo_x25519_base by simp
qed

lemma demo_conv_ok: "conv_ok demo_prims"
proof -
  have "x = demo_clamp (Public priv)"
    if "wf_priv demo_prims priv" "PrivateKeyToX25519 demo_prims priv = Inr x" for priv x
  proof -
    have "length priv = 64" "Public priv = Seed priv"
      using that(1) wf_priv_Public [OF that(1)] by (auto simp: wf_priv_def demo_prims_def)
    then show ?thesis using that(2)
      by (simp add: PrivateKeyToX25519_def demo_clamp_def demo_prims_def Let_def to_array_def)
  qed
  moreover have "ed25519_montgomery demo_prims p = Some (demo_clamp p)" for p
    by (simp add: demo_prims_def)
  ultimately show ?thesis
    unfolding conv_ok_def demo_x25519_base by (metis length_demo_clamp option.discI to_array_id)
qed

lemmas demo_ok = demo_sizes_ok demo_sign_ok demo_aead_ok demo_dh_ok demo_conv_ok

text \<open>A concrete identity: the key pair of the seed of thirty-two bytes equal to b.\<close>

definition demo_key :: "byte \<Rightarrow> bytes" where
  "demo_key b = NewKeyFromSeed demo_prims (replicate 32 b)"

lemma demo_key_wf: "wf_priv demo_prims (demo_key b)"
  by (simp add: demo_key_def wf_priv_NewKeyFromSeed demo_sizes_ok)

end
