(* ===== verification/Gandr_Sealed.thy ===== *)
theory Gandr_Sealed
  imports Gandr_Crypto
begin

text \<open>
  \<^verbatim>\<open>pkg/crypto/sealed.go\<close>: messages encrypted to an identity key with an ephemeral key exchange,
  padded to blocks, optionally signed inside. The section on the layout shows that the buffer writes
  of \<^verbatim>\<open>Seal\<close> produce the documented layout; the properties are that \<^verbatim>\<open>Open\<close> inverts \<^verbatim>\<open>Seal\<close>, that it
  never reads out of range whatever was decrypted, and what the ciphertext length reveals.
\<close>

section \<open>Sealed messages\<close>

abbreviation (input) SealedBlockSize :: nat where "SealedBlockSize \<equiv> 1024"
abbreviation (input) sealedHeaderMin :: nat where "sealedHeaderMin \<equiv> 37"
abbreviation (input) sealedHeaderMax :: nat where "sealedHeaderMax \<equiv> 101"

definition MaxSealedContent :: nat where
  "MaxSealedContent = 63 * SealedBlockSize"

record SealedBox =
  EphemeralPubkey :: bytes
  Nonce :: bytes
  Deniable :: bool
  Ciphertext :: bytes

record SealedContent =
  SenderPubkey :: bytes
  MessageType :: byte
  Content :: bytes
  ContentDeniable :: bool

definition sealedKeyInfo :: gostring where
  "sealedKeyInfo = str ''gandr-sealed-v1''"

definition sealedInnerContext :: gostring where
  "sealedInnerContext = str ''gandr-sealed-inner-v1''"

definition sealedInnerDigest :: "prims \<Rightarrow> bytes \<Rightarrow> byte \<Rightarrow> bytes \<Rightarrow> bytes" where
  "sealedInnerDigest P recipientPub msgType content =
     Digest P [sealedInnerContext, recipientPub, [msgType], content]"

definition paddedLen :: "nat \<Rightarrow> nat" where
  "paddedLen n =
     (if n = 0 then SealedBlockSize
      else ((n + SealedBlockSize - 1) div SealedBlockSize) * SealedBlockSize)"

text \<open>\<^verbatim>\<open>copy(dst[off:], src)\<close> as an update of \<^verbatim>\<open>dst\<close>.\<close>

definition copy_at :: "nat \<Rightarrow> bytes \<Rightarrow> bytes \<Rightarrow> bytes" where
  "copy_at off src dst =
     take off dst @ take (length dst - off) src @ drop (off + length src) dst"

text \<open>
  The inner plaintext \<^verbatim>\<open>Seal\<close> assembles: sender key, optional signature, type, length, content, zero
  padding. \<^const>\<open>None\<close> where an index would be out of range.
\<close>

definition sealedPlain :: "bytes \<Rightarrow> bytes option \<Rightarrow> byte \<Rightarrow> bytes \<Rightarrow> nat \<Rightarrow> bytes option" where
  "sealedPlain senderPub sig msgType content padded =
     (let plain = replicate padded 0;
          plain = copy_at 0 senderPub plain;
          off = min padded (length senderPub);
          (plain, off) =
            (case sig of
               None \<Rightarrow> (plain, off)
             | Some s \<Rightarrow> (copy_at off s plain, off + min (padded - off) (length s)))
      in if padded < off + 5 then None
         else
           let plain = plain[off := msgType];
               plain = copy_at (off + 1) (PutUint32 (of_nat (length content))) plain
           in Some (copy_at (off + 5) content plain))"

definition Seal ::
  "prims \<Rightarrow> bytes \<Rightarrow> bytes \<Rightarrow> bytes \<Rightarrow> bytes \<Rightarrow> byte \<Rightarrow> bytes \<Rightarrow> bool \<Rightarrow> crypto_error + SealedBox" where
  "Seal P ephRnd nonceRnd senderPriv recipientPub msgType content deniable =
     (if length senderPriv \<noteq> PrivateKeySize then Inl (ErrPrivateKeyLength (length senderPriv))
      else if length content > MaxSealedContent then Inl (ErrSealedTooLarge (length content))
      else case PublicKeyToX25519 P recipientPub of
        Inl e \<Rightarrow> Inl e
      | Inr recipientX \<Rightarrow>
      (case GenerateX25519 P ephRnd of
        Inl e \<Rightarrow> Inl e
      | Inr (ephPub, ephPriv) \<Rightarrow>
      (case DeriveSharedKey P ephPriv recipientX sealedKeyInfo of
        Inl e \<Rightarrow> Inl e
      | Inr key \<Rightarrow>
          let headerLen = (if deniable then sealedHeaderMin else sealedHeaderMax);
              padded = paddedLen (headerLen + length content);
              sig = (if deniable then None
                     else Some (ed25519_sign P senderPriv (sealedInnerDigest P recipientPub msgType content)))
          in case sealedPlain (Public senderPriv) sig msgType content padded of
               None \<Rightarrow> Inl CryptoPanic
             | Some plain \<Rightarrow>
                 let (nonce, ct) = Encrypt P nonceRnd key plain []
                 in Inr \<lparr>EphemeralPubkey = ephPub, Nonce = nonce, Deniable = deniable, Ciphertext = ct\<rparr>)))"

text \<open>
  \<^verbatim>\<open>Open\<close>. Its reads of the decrypted plaintext go through \<^const>\<open>go_slice\<close> and \<^const>\<open>go_index\<close>, with
  \<^const>\<open>CryptoPanic\<close> for the run-time panic of an out-of-range access.
\<close>

definition openPlain :: "prims \<Rightarrow> bytes \<Rightarrow> bool \<Rightarrow> bytes \<Rightarrow> crypto_error + SealedContent" where
  "openPlain P recipientPriv deniable plain =
     (if length plain mod SealedBlockSize \<noteq> 0 then Inl ErrSealedCorrupt
      else if length plain < (if deniable then sealedHeaderMin else sealedHeaderMax) then Inl ErrSealedCorrupt
      else case go_slice plain 0 KeySize of
        None \<Rightarrow> Inl CryptoPanic
      | Some sender \<Rightarrow>
      (case (if deniable then Some ([], KeySize)
             else map_option (\<lambda>s. (s, KeySize + SignatureSize)) (go_slice plain KeySize (KeySize + SignatureSize))) of
        None \<Rightarrow> Inl CryptoPanic
      | Some (innerSig, off) \<Rightarrow>
      (case go_index plain off of
        None \<Rightarrow> Inl CryptoPanic
      | Some msgType \<Rightarrow>
      (case go_slice plain (off + 1) (off + 5) of
        None \<Rightarrow> Inl CryptoPanic
      | Some lenBytes \<Rightarrow>
          let contentLen = unat (Uint32 lenBytes); off = off + 5 in
          if int contentLen > int (length plain) - int off then Inl ErrSealedCorrupt
          else case go_slice plain off (off + contentLen) of
            None \<Rightarrow> Inl CryptoPanic
          | Some content \<Rightarrow>
          (case go_slice plain (off + contentLen) (length plain) of
            None \<Rightarrow> Inl CryptoPanic
          | Some padding \<Rightarrow>
              if \<not> list_all (\<lambda>b. b = 0) padding then Inl ErrSealedCorrupt
              else if \<not> deniable \<and>
                \<not> Verify P (to_array KeySize sender)
                    (sealedInnerDigest P (Public recipientPriv) msgType content) innerSig
              then Inl ErrSealedSignature
              else Inr \<lparr>SenderPubkey = to_array KeySize sender, MessageType = msgType,
                        Content = content, ContentDeniable = deniable\<rparr>)))))"

definition Open :: "prims \<Rightarrow> bytes \<Rightarrow> SealedBox option \<Rightarrow> crypto_error + SealedContent" where
  "Open P recipientPriv obox =
     (case obox of
        None \<Rightarrow> Inl ErrNilBox
      | Some box \<Rightarrow>
      (case PrivateKeyToX25519 P recipientPriv of
        Inl e \<Rightarrow> Inl e
      | Inr recipientX \<Rightarrow>
      (case DeriveSharedKey P recipientX (EphemeralPubkey box) sealedKeyInfo of
        Inl e \<Rightarrow> Inl e
      | Inr key \<Rightarrow>
      (case Decrypt P key (Nonce box) (Ciphertext box) [] of
        Inl e \<Rightarrow> Inl e
      | Inr plain \<Rightarrow> openPlain P recipientPriv (Deniable box) plain))))"

section \<open>Padding\<close>

lemma paddedLen_alt: "0 < n \<Longrightarrow> paddedLen n = (n + 1023) - (n + 1023) mod 1024"
  by (simp add: paddedLen_def minus_mod_eq_div_mult)

lemma paddedLen_bounds: "0 < n \<Longrightarrow> n \<le> paddedLen n \<and> paddedLen n < n + 1024"
proof -
  assume "0 < n"
  moreover have "(n + 1023) mod 1024 < 1024" by simp
  ultimately show ?thesis unfolding paddedLen_alt [OF \<open>0 < n\<close>] by linarith
qed

lemma paddedLen_block: "paddedLen n mod 1024 = 0"
  by (simp add: paddedLen_def)

lemma paddedLen_pos: "1024 \<le> paddedLen n"
proof (cases "n = 0")
  case True
  then show ?thesis by (simp add: paddedLen_def)
next
  case False
  then have "0 < paddedLen n" using paddedLen_bounds [of n] by simp
  then show ?thesis by (auto simp: paddedLen_def)
qed

lemma length_copy_at: "off + length src \<le> length dst \<Longrightarrow> length (copy_at off src dst) = length dst"
  by (simp add: copy_at_def)

text \<open>Filling a zeroed buffer from the front: one lemma per field kind.\<close>

lemma copy_at_fill:
  "length pre = off \<Longrightarrow> length src \<le> n \<Longrightarrow>
     copy_at off src (pre @ replicate n 0) = pre @ src @ replicate (n - length src) 0"
  by (simp add: copy_at_def)

lemma update_fill: "length pre = off \<Longrightarrow> (pre @ replicate (Suc n) 0)[off := b] = pre @ b # replicate n 0"
  by (simp add: list_update_append)

text \<open>The assembled plaintext is the documented layout.\<close>

lemma sealedPlain_eq:
  fixes sig :: "bytes option" and content :: bytes
  defines "sigb \<equiv> (case sig of None \<Rightarrow> [] | Some s \<Rightarrow> s)"
  defines "lenb \<equiv> PutUint32 (of_nat (length content))"
  assumes sp: "length senderPub = 32" and fits: "32 + length sigb + 5 + length content \<le> padded"
  shows "sealedPlain senderPub sig t content padded =
     Some (senderPub @ sigb @ t # lenb @ content @
           replicate (padded - (32 + length sigb + 5 + length content)) 0)"
proof -
  define k where "k = padded - (32 + length sigb + 5 + length content)"
  obtain n1 n2 n3 where n1: "padded = 32 + n1" and n2: "n1 = length sigb + Suc n2"
    and n3: "n2 = 4 + n3" and n4: "n3 = length content + k"
    using fits by (simp add: k_def)
  have 1: "copy_at 0 senderPub (replicate padded 0) = senderPub @ replicate n1 0"
    using copy_at_fill [of "[]" 0 senderPub padded] sp n1 by simp
  have 2: "copy_at 32 sigb (senderPub @ replicate n1 0) = (senderPub @ sigb) @ replicate (Suc n2) 0"
    using copy_at_fill [of senderPub 32 sigb n1] sp n2 by simp
  have 3: "((senderPub @ sigb) @ replicate (Suc n2) 0)[32 + length sigb := t] =
      (senderPub @ sigb @ [t]) @ replicate n2 0"
    using update_fill [of "senderPub @ sigb" "32 + length sigb" n2 t] sp by simp
  have 4: "copy_at (32 + length sigb + 1) lenb ((senderPub @ sigb @ [t]) @ replicate n2 0) =
      (senderPub @ sigb @ t # lenb) @ replicate n3 0"
    using copy_at_fill [of "senderPub @ sigb @ [t]" "32 + length sigb + 1" lenb n2] sp n3
    by (simp add: lenb_def)
  have 5: "copy_at (32 + length sigb + 5) content ((senderPub @ sigb @ t # lenb) @ replicate n3 0) =
      senderPub @ sigb @ t # lenb @ content @ replicate k 0"
    using copy_at_fill [of "senderPub @ sigb @ t # lenb" "32 + length sigb + 5" content n3] sp n4
    by (simp add: lenb_def)
  have m: "min padded (length senderPub) = 32" "min (padded - 32) (length sigb) = length sigb"
    "\<not> padded < 32 + length sigb + 5"
    using sp fits by auto
  have step: "sealedPlain senderPub sig t content padded =
    (if padded < 32 + length sigb + 5 then None
     else Some (copy_at (32 + length sigb + 5) content
       (copy_at (32 + length sigb + 1) lenb (((senderPub @ sigb) @ replicate (Suc n2) 0)[32 + length sigb := t]))))"
  proof (cases sig)
    case None
    then have "sigb = []" by (simp add: sigb_def)
    then have "n1 = Suc n2" using n2 by simp
    with 1 m \<open>sigb = []\<close> show ?thesis
      by (simp only: sealedPlain_def None Let_def lenb_def option.case prod.case append_Nil2 list.size add_0_right)
  next
    case (Some s)
    then have "s = sigb" by (simp add: sigb_def)
    with 1 2 m show ?thesis
      by (simp only: sealedPlain_def Some Let_def lenb_def option.case prod.case)
  qed
  show ?thesis unfolding step 3 4 5 using m(3) by (simp only: if_False k_def)
qed

section \<open>Opening what was sealed\<close>

lemma openPlain_layout:
  fixes sig :: bytes
  assumes sp: "length senderPub = 32" and c: "length content < 2 ^ 32"
    and sg: "length sig = (if deniable then 0 else 64)"
    and block: "(32 + length sig + 5 + length content + k) mod 1024 = 0"
    and ver: "\<not> deniable \<Longrightarrow> Verify P senderPub (sealedInnerDigest P (Public rpriv) t content) sig"
  shows "openPlain P rpriv deniable
      (senderPub @ sig @ t # PutUint32 (of_nat (length content)) @ content @ replicate k 0) =
    Inr \<lparr>SenderPubkey = senderPub, MessageType = t, Content = content, ContentDeniable = deniable\<rparr>"
proof -
  define plain where "plain = senderPub @ sig @ t # PutUint32 (of_nat (length content)) @ content @ replicate k 0"
  define off where "off = 32 + length sig"
  have len: "length plain = off + 5 + length content + k" using sp by (simp add: off_def plain_def)
  have u: "unat (of_nat (length content) :: 32 word) = length content" using c by (simp add: unat_of_nat)
  have 0: "go_slice plain 0 32 = Some senderPub" using sp by (simp add: go_slice_def plain_def)
  have 1: "\<not> deniable \<Longrightarrow> go_slice plain 32 (32 + 64) = Some sig"
    using sp sg by (simp add: go_slice_def plain_def)
  have 2: "go_index plain off = Some t" using sp by (simp add: go_index_def off_def plain_def nth_append)
  have 3: "go_slice plain (off + 1) (off + 5) = Some (PutUint32 (of_nat (length content)))"
    using sp by (simp add: go_slice_def off_def plain_def)
  have 4: "go_slice plain (off + 5) (off + 5 + length content) = Some content"
    using sp by (simp add: go_slice_def off_def plain_def)
  have pre: "plain = (senderPub @ sig @ t # PutUint32 (of_nat (length content)) @ content) @ replicate k 0"
    by (simp add: plain_def)
  have 5: "go_slice plain (off + 5 + length content) (length plain) = Some (replicate k 0)"
    unfolding go_slice_def pre using sp by (simp add: off_def del: append_assoc append_Cons)
  have off: "off = (if deniable then 32 else 96)" using sg by (simp add: off_def)
  have blk: "length plain mod 1024 = 0" using block by (simp only: len off_def)
  have head: "\<not> length plain < (if deniable then 37 else 101)" unfolding len using off by simp
  have hdr: "(if deniable then Some ([], 32)
      else map_option (\<lambda>s. (s, 32 + 64)) (go_slice plain 32 (32 + 64))) = Some (sig, off)"
    using 1 off sg by auto
  have fits: "\<not> int (length content) > int (length plain) - int (off + 5)" unfolding len by simp
  have pad: "list_all (\<lambda>b. b = 0) (replicate k (0 :: byte))" by (simp add: list_all_iff)
  show ?thesis
    unfolding plain_def [symmetric] openPlain_def 0 option.case hdr prod.case 2 3 Let_def
      Uint32_PutUint32' u 4 5
    using blk head fits pad ver sp by (simp only: if_False if_True not_True_eq_False simp_thms to_array_id)
      (auto simp: sp)
qed

text \<open>The inner plaintext \<^verbatim>\<open>Seal\<close> encrypts, with its length a positive number of blocks.\<close>

definition sealed_header :: "bool \<Rightarrow> nat" where
  "sealed_header deniable = (if deniable then sealedHeaderMin else sealedHeaderMax)"

lemma Seal_Inr:
  assumes "sizes_ok P" and "Seal P r1 r2 spriv rpub t content deniable = Inr box"
  obtains rx ephPriv key plain sigb where
    "PublicKeyToX25519 P rpub = Inr rx" "GenerateX25519 P r1 = Inr (EphemeralPubkey box, ephPriv)"
    "DeriveSharedKey P ephPriv rx sealedKeyInfo = Inr key"
    "Encrypt P r2 key plain [] = (Nonce box, Ciphertext box)" "Deniable box = deniable"
    "sigb = (if deniable then [] else ed25519_sign P spriv (sealedInnerDigest P rpub t content))"
    "plain = Public spriv @ sigb @ t # PutUint32 (of_nat (length content)) @ content @
       replicate (paddedLen (sealed_header deniable + length content) - (sealed_header deniable + length content)) 0"
    "length (Public spriv) = 32" "length content \<le> MaxSealedContent"
proof -
  have l: "length spriv = 64" "length content \<le> MaxSealedContent"
    using assms(2) by (auto simp: Seal_def split: if_splits)
  define sg where "sg = (if deniable then None
    else Some (ed25519_sign P spriv (sealedInnerDigest P rpub t content)))"
  define sigb where "sigb = (case sg of None \<Rightarrow> [] | Some s \<Rightarrow> s)"
  have sb: "32 + length sigb + 5 = sealed_header deniable"
    using assms(1) by (simp add: sigb_def sg_def sealed_header_def sizes_okD)
  have "0 < sealed_header deniable" by (simp add: sealed_header_def)
  then have "sealed_header deniable + length content \<le> paddedLen (sealed_header deniable + length content)"
    using paddedLen_bounds by simp
  then have pl: "sealedPlain (Public spriv) sg t content (paddedLen (sealed_header deniable + length content)) =
      Some (Public spriv @ sigb @ t # PutUint32 (of_nat (length content)) @ content @
        replicate (paddedLen (sealed_header deniable + length content) - (sealed_header deniable + length content)) 0)"
    using sealedPlain_eq [of "Public spriv" sg content] l sb by (simp add: sigb_def)
  note seal = assms(2) [unfolded Seal_def Let_def, folded sealed_header_def sg_def, unfolded pl option.case]
  have "sigb = (if deniable then [] else ed25519_sign P spriv (sealedInnerDigest P rpub t content))"
    by (simp add: sigb_def sg_def)
  with seal l show ?thesis
    by (auto split: if_splits sum.splits prod.splits intro: that)
qed

text \<open>With keys the primitives accept, sealing succeeds for every content within the limit.\<close>

lemma Seal_total:
  assumes "sizes_ok P" "length spriv = 64" "length content \<le> MaxSealedContent"
    and "PublicKeyToX25519 P rpub = Inr rx" "GenerateX25519 P r1 = Inr (ephPub, ephPriv)"
    and "DeriveSharedKey P ephPriv rx sealedKeyInfo = Inr key"
  shows "\<exists>box. Seal P r1 r2 spriv rpub t content deniable = Inr box"
proof -
  define sg where "sg = (if deniable then None
    else Some (ed25519_sign P spriv (sealedInnerDigest P rpub t content)))"
  have "0 < sealed_header deniable" by (simp add: sealed_header_def)
  then have "sealed_header deniable + length content \<le> paddedLen (sealed_header deniable + length content)"
    using paddedLen_bounds by simp
  moreover have "32 + length (case sg of None \<Rightarrow> [] | Some s \<Rightarrow> s) + 5 = sealed_header deniable"
    using assms(1) by (simp add: sg_def sealed_header_def sizes_okD)
  ultimately obtain plain where
    pl: "sealedPlain (Public spriv) sg t content (paddedLen (sealed_header deniable + length content)) = Some plain"
    using sealedPlain_eq [of "Public spriv" sg content] assms(2) by simp
  have "\<exists>box. (if length spriv \<noteq> 64 then Inl (ErrPrivateKeyLength (length spriv))
      else if length content > MaxSealedContent then Inl (ErrSealedTooLarge (length content))
      else let (nonce, ct) = Encrypt P r2 key plain []
           in Inr \<lparr>EphemeralPubkey = ephPub, Nonce = nonce, Deniable = deniable, Ciphertext = ct\<rparr>) = Inr box"
    using assms(2,3) by (auto split: prod.splits)
  then show ?thesis
    unfolding Seal_def Let_def assms(4,5,6) sum.case prod.case sealed_header_def [symmetric] sg_def [symmetric] pl
      option.case by simp
qed

lemma demo_Seal_total:
  "length content \<le> MaxSealedContent \<Longrightarrow>
     \<exists>box. Seal demo_prims r1 r2 (demo_key a) (Public (demo_key b)) t content deniable = Inr box"
  by (rule Seal_total [OF demo_sizes_ok wf_priv_length [OF demo_key_wf]])
    (auto simp: PublicKeyToX25519_def GenerateX25519_def DeriveSharedKey_def demo_x25519_base
      wf_priv_length [OF demo_key_wf] Let_def, simp_all add: demo_prims_def)

text \<open>Every read of the decrypted plaintext is in range: the panic-free form of the parser.\<close>

lemma openPlain_eq:
  fixes plain :: bytes and deniable :: bool
  defines "off \<equiv> (if deniable then 32 else 96)"
  defines "n \<equiv> unat (Uint32 (take 4 (drop (off + 1) plain)))"
  assumes "\<not> length plain < sealed_header deniable"
  shows "openPlain P rpriv deniable plain =
    (if length plain mod 1024 \<noteq> 0 \<or> length plain < off + 5 + n \<or>
        \<not> list_all (\<lambda>b. b = 0) (drop (off + 5 + n) plain) then Inl ErrSealedCorrupt
     else if \<not> deniable \<and>
       \<not> Verify P (take 32 plain)
           (sealedInnerDigest P (Public rpriv) (plain ! off) (take n (drop (off + 5) plain))) (take 64 (drop 32 plain))
     then Inl ErrSealedSignature
     else Inr \<lparr>SenderPubkey = take 32 plain, MessageType = plain ! off,
               Content = take n (drop (off + 5) plain), ContentDeniable = deniable\<rparr>)"
proof -
  have len: "off + 5 \<le> length plain" "32 \<le> off" using assms(3) by (auto simp: sealed_header_def off_def split: if_splits)
  have hd: "\<not> length plain < (if deniable then 37 else 101)" using assms(3) by (simp add: sealed_header_def)
  have 0: "go_slice plain 0 32 = Some (take 32 plain)" using len by simp
  have h: "(if deniable then Some ([], 32)
      else map_option (\<lambda>s. (s, 32 + 64)) (go_slice plain 32 (32 + 64))) =
      Some (if deniable then [] else take 64 (drop 32 plain), off)"
    using len by (cases deniable) (simp_all add: off_def go_slice_def)
  have 2: "go_index plain off = Some (plain ! off)" using len by simp
  have 3: "go_slice plain (off + 1) (off + 5) = Some (take 4 (drop (off + 1) plain))" using len by simp
  have big: "int n > int (length plain) - int (off + 5) \<longleftrightarrow> length plain < off + 5 + n" by auto
  have to: "to_array 32 (take 32 plain) = take 32 plain" using len by simp
  show ?thesis
    unfolding openPlain_def 0 option.case h prod.case 2 3 Let_def n_def [symmetric] big to
    using hd by (cases "length plain < off + 5 + n") (auto simp: go_slice_def)
qed

lemma openPlain_not_panic: "openPlain P rpriv deniable plain \<noteq> Inl CryptoPanic"
proof (cases "length plain < sealed_header deniable")
  case True
  then show ?thesis unfolding openPlain_def sealed_header_def by simp
next
  case False
  then show ?thesis unfolding openPlain_eq [OF False] by simp
qed

lemma Open_Some_iff:
  "Open P rpriv (Some box) = Inr c \<longleftrightarrow>
     (\<exists>x key plain. PrivateKeyToX25519 P rpriv = Inr x \<and>
        DeriveSharedKey P x (EphemeralPubkey box) sealedKeyInfo = Inr key \<and>
        Decrypt P key (Nonce box) (Ciphertext box) [] = Inr plain \<and>
        openPlain P rpriv (Deniable box) plain = Inr c)"
  by (auto simp: Open_def split: sum.splits)

lemma Open_opens:
  assumes P: "sizes_ok P" "sign_ok P" "aead_ok P" "dh_ok P" "conv_ok P"
    and keys: "wf_priv P spriv" "wf_priv P rpriv"
    and seal: "Seal P r1 r2 spriv (Public rpriv) t content deniable = Inr box"
  shows "Open P rpriv (Some box) =
    Inr \<lparr>SenderPubkey = Public spriv, MessageType = t, Content = content, ContentDeniable = deniable\<rparr>"
proof -
  obtain rx ephPriv key plain sigb where
    s: "PublicKeyToX25519 P (Public rpriv) = Inr rx" "GenerateX25519 P r1 = Inr (EphemeralPubkey box, ephPriv)"
      "DeriveSharedKey P ephPriv rx sealedKeyInfo = Inr key"
      "Encrypt P r2 key plain [] = (Nonce box, Ciphertext box)" "Deniable box = deniable"
    and sg: "sigb = (if deniable then [] else ed25519_sign P spriv (sealedInnerDigest P (Public rpriv) t content))"
    and plain: "plain = Public spriv @ sigb @ t # PutUint32 (of_nat (length content)) @ content @
       replicate (paddedLen (sealed_header deniable + length content) - (sealed_header deniable + length content)) 0"
    and l: "length (Public spriv) = 32" "length content \<le> MaxSealedContent"
    using Seal_Inr [OF P(1) seal] by blast
  obtain sx where sx: "PrivateKeyToX25519 P rpriv = Inr sx"
    using wf_priv_length [OF keys(2)] by (simp add: PrivateKeyToX25519_def Let_def)
  have key: "DeriveSharedKey P sx (EphemeralPubkey box) sealedKeyInfo = Inr key"
    using DeriveSharedKey_convert [OF P(1,4,5) keys(2) s(2,1) sx] s(3) by simp
  have dec: "Decrypt P key (Nonce box) (Ciphertext box) [] = Inr plain"
    using Decrypt_Encrypt [OF P(3) s(4)] .
  have hd: "32 + length sigb + 5 = sealed_header deniable" "length sigb = (if deniable then 0 else 64)"
    using sg P(1) by (auto simp: sealed_header_def sizes_okD)
  have blk: "(32 + length sigb + 5 + length content +
      (paddedLen (sealed_header deniable + length content) - (sealed_header deniable + length content))) mod 1024 = 0"
    unfolding hd(1) using paddedLen_bounds [of "sealed_header deniable + length content"] paddedLen_block
    by (simp add: sealed_header_def)
  have "openPlain P rpriv deniable plain = Inr \<lparr>SenderPubkey = Public spriv, MessageType = t,
      Content = content, ContentDeniable = deniable\<rparr>"
    unfolding plain
    using l hd blk Verify_sign [OF P(1,2) keys(1)]
    by (intro openPlain_layout) (auto simp: MaxSealedContent_def sg)
  then show ?thesis using s sx key dec by (simp add: Open_def)
qed

text \<open>
  C14. Sealed-message round trip: whatever \<^verbatim>\<open>Seal\<close> produced for a recipient's identity key, \<^verbatim>\<open>Open\<close>
  with the recipient's private key returns the sender's public key, the message type, the content and
  the deniability flag, for both the signed and the deniable form and every content \<^verbatim>\<open>Seal\<close> accepts.
\<close>

theorem Open_Seal:
  assumes P: "sizes_ok P" "sign_ok P" "aead_ok P" "dh_ok P" "conv_ok P"
    and keys: "wf_priv P spriv" "wf_priv P rpriv"
    and seal: "Seal P r1 r2 spriv (Public rpriv) t content deniable = Inr box"
  shows "Open P rpriv (Some box) =
    Inr \<lparr>SenderPubkey = Public spriv, MessageType = t, Content = content, ContentDeniable = deniable\<rparr>"
  using assms by (rule Open_opens)

theorem Open_Seal_witness:
  "\<exists>box. Seal demo_prims [1] [2] (demo_key 3) (Public (demo_key 4)) 1 (str ''hej'') False = Inr box \<and>
     Open demo_prims (demo_key 4) (Some box) =
       Inr \<lparr>SenderPubkey = Public (demo_key 3), MessageType = 1, Content = str ''hej'', ContentDeniable = False\<rparr>"
proof -
  obtain box where box:
    "Seal demo_prims [1] [2] (demo_key 3) (Public (demo_key 4)) 1 (str ''hej'') False = Inr box"
    using demo_Seal_total [of "str ''hej''" "[1]" "[2]" 3 4 1 False] by (auto simp: MaxSealedContent_def)
  show ?thesis using Open_Seal [OF demo_ok demo_key_wf demo_key_wf box] box by blast
qed

text \<open>
  Opening is safe on hostile input: for every key, box and primitive, \<^verbatim>\<open>Open\<close> returns an error or a
  content and never reaches an out-of-range index or slice.
\<close>

theorem Open_not_panic: "Open P rpriv obox \<noteq> Inl CryptoPanic"
proof (cases obox)
  case None
  then show ?thesis by (simp add: Open_def)
next
  case (Some box)
  have "PrivateKeyToX25519 P rpriv \<noteq> Inl CryptoPanic"
    "DeriveSharedKey P x y i \<noteq> Inl CryptoPanic" "Decrypt P k n ct a \<noteq> Inl CryptoPanic" for x y i k n ct a
    by simp_all
  then show ?thesis by (auto simp: Open_def Some openPlain_not_panic split: sum.splits)
qed

text \<open>
  C15. Authenticity of a signed sealed message: when \<^verbatim>\<open>Open\<close> returns a content from a box that is not
  deniable, the decrypted plaintext carries, in its bytes 32 to 95, a signature of the claimed sender
  over exactly the returned type and content bound to this recipient's key.
\<close>

theorem Open_authentic:
  assumes "Open P rpriv (Some box) = Inr c" and "\<not> Deniable box"
  shows "\<exists>x key plain. PrivateKeyToX25519 P rpriv = Inr x \<and>
     DeriveSharedKey P x (EphemeralPubkey box) sealedKeyInfo = Inr key \<and>
     Decrypt P key (Nonce box) (Ciphertext box) [] = Inr plain \<and>
     SenderPubkey c = take 32 plain \<and> \<not> ContentDeniable c \<and>
     Verify P (SenderPubkey c) (sealedInnerDigest P (Public rpriv) (MessageType c) (Content c))
       (take 64 (drop 32 plain))"
proof -
  obtain x key plain where o: "PrivateKeyToX25519 P rpriv = Inr x"
    "DeriveSharedKey P x (EphemeralPubkey box) sealedKeyInfo = Inr key"
    "Decrypt P key (Nonce box) (Ciphertext box) [] = Inr plain" "openPlain P rpriv False plain = Inr c"
    using assms by (auto simp: Open_Some_iff)
  have "\<not> length plain < sealed_header False"
    using o(4) by (auto simp: openPlain_def sealed_header_def split: if_splits)
  from o(4) [unfolded openPlain_eq [OF this]] have "SenderPubkey c = take 32 plain \<and> \<not> ContentDeniable c \<and>
     Verify P (SenderPubkey c) (sealedInnerDigest P (Public rpriv) (MessageType c) (Content c))
       (take 64 (drop 32 plain))"
    by (auto split: if_splits)
  with o show ?thesis by blast
qed

theorem Open_authentic_witness:
  "\<exists>box plain key x. Seal demo_prims [1] [2] (demo_key 3) (Public (demo_key 4)) 1 (str ''hej'') False = Inr box \<and>
     PrivateKeyToX25519 demo_prims (demo_key 4) = Inr x \<and>
     DeriveSharedKey demo_prims x (EphemeralPubkey box) sealedKeyInfo = Inr key \<and>
     Decrypt demo_prims key (Nonce box) (Ciphertext box) [] = Inr plain \<and>
     Verify demo_prims (Public (demo_key 3))
       (sealedInnerDigest demo_prims (Public (demo_key 4)) 1 (str ''hej'')) (take 64 (drop 32 plain))"
proof -
  obtain box where box:
    "Seal demo_prims [1] [2] (demo_key 3) (Public (demo_key 4)) 1 (str ''hej'') False = Inr box"
    using demo_Seal_total [of "str ''hej''" "[1]" "[2]" 3 4 1 False] by (auto simp: MaxSealedContent_def)
  have "\<not> Deniable box" by (rule Seal_Inr [OF demo_sizes_ok box]) simp
  from Open_authentic [OF Open_opens [OF demo_ok demo_key_wf demo_key_wf box] this] box
  show ?thesis by fastforce
qed

lemma Seal_length:
  assumes "sizes_ok P" and "Seal P r1 r2 spriv rpub t content deniable = Inr box"
  shows "length (Ciphertext box) = paddedLen ((if deniable then 37 else 101) + length content) + 16 \<and>
         length (Nonce box) = 24"
proof -
  obtain plain key where e: "Encrypt P r2 key plain [] = (Nonce box, Ciphertext box)"
    and "length plain = paddedLen (sealed_header deniable + length content)"
  proof (rule Seal_Inr [OF assms])
    fix key plain sigb
    assume a: "Encrypt P r2 key plain [] = (Nonce box, Ciphertext box)"
      "sigb = (if deniable then [] else ed25519_sign P spriv (sealedInnerDigest P rpub t content))"
      "plain = Public spriv @ sigb @ t # PutUint32 (of_nat (length content)) @ content @
        replicate (paddedLen (sealed_header deniable + length content) - (sealed_header deniable + length content)) 0"
      "length (Public spriv) = 32"
    have "32 + length sigb + 5 = sealed_header deniable"
      using a(2) assms(1) by (simp add: sealed_header_def sizes_okD)
    moreover have "0 < sealed_header deniable" by (simp add: sealed_header_def)
    ultimately have "length plain = paddedLen (sealed_header deniable + length content)"
      using paddedLen_bounds [of "sealed_header deniable + length content"] a(3,4) by simp linarith
    with a(1) show thesis by (rule that)
  qed
  then show ?thesis using length_Encrypt [OF assms(1) e] by (simp add: sealed_header_def)
qed

text \<open>
  What the length of a sealed message reveals: the ciphertext is the block-padded length of header
  and content plus the AEAD tag, so it is a positive number of blocks plus sixteen bytes and tells an
  observer the number of blocks and nothing finer.
\<close>

theorem Seal_ciphertext_length:
  assumes "sizes_ok P" and "Seal P r1 r2 spriv rpub t content deniable = Inr box"
  shows "length (Ciphertext box) = paddedLen ((if deniable then 37 else 101) + length content) + 16 \<and>
         length (Nonce box) = 24"
  using assms by (rule Seal_length)

theorem Seal_ciphertext_length_witness:
  "\<exists>box. Seal demo_prims [1] [2] (demo_key 3) (Public (demo_key 4)) 1 (str ''hej'') False = Inr box \<and>
     length (Ciphertext box) = 1040"
proof -
  obtain box where box:
    "Seal demo_prims [1] [2] (demo_key 3) (Public (demo_key 4)) 1 (str ''hej'') False = Inr box"
    using demo_Seal_total [of "str ''hej''" "[1]" "[2]" 3 4 1 False] by (auto simp: MaxSealedContent_def)
  then show ?thesis using Seal_ciphertext_length [OF demo_sizes_ok box] by (simp add: paddedLen_def)
qed

end
