(* ===== verification/Gandr_Proto.thy ===== *)
theory Gandr_Proto
  imports Gandr_Sealed
begin

text \<open>
  Package \<^verbatim>\<open>pkg/proto\<close>, the envelope layer (\<^verbatim>\<open>types.go\<close>, \<^verbatim>\<open>envelope.go\<close>): message types, the signed
  binary envelope, its decoder, content addressing and the timestamp window. The decoder returns an
  error value for every early return of the source and \<open>ProtoPanic\<close> where an index or slice would be
  out of range.
\<close>

section \<open>Constants of the wire format\<close>

abbreviation (input) ProtoVersion :: byte where "ProtoVersion \<equiv> 1"

abbreviation (input) MsgChat :: byte where "MsgChat \<equiv> 0x01"
abbreviation (input) MsgPost :: byte where "MsgPost \<equiv> 0x02"
abbreviation (input) MsgThread :: byte where "MsgThread \<equiv> 0x03"
abbreviation (input) MsgReply :: byte where "MsgReply \<equiv> 0x04"
abbreviation (input) MsgPeerHello :: byte where "MsgPeerHello \<equiv> 0x05"
abbreviation (input) MsgPeerAck :: byte where "MsgPeerAck \<equiv> 0x06"
abbreviation (input) MsgPeerComplete :: byte where "MsgPeerComplete \<equiv> 0x07"
abbreviation (input) MsgPeerPolicy :: byte where "MsgPeerPolicy \<equiv> 0x08"
abbreviation (input) MsgProfile :: byte where "MsgProfile \<equiv> 0x09"
abbreviation (input) MsgGuestbook :: byte where "MsgGuestbook \<equiv> 0x0A"
abbreviation (input) MsgPeerIntro :: byte where "MsgPeerIntro \<equiv> 0x0B"
abbreviation (input) MsgAck :: byte where "MsgAck \<equiv> 0x0C"
abbreviation (input) MsgStatus :: byte where "MsgStatus \<equiv> 0x0D"
abbreviation (input) MsgBlock :: byte where "MsgBlock \<equiv> 0x0E"
abbreviation (input) MsgNickname :: byte where "MsgNickname \<equiv> 0x0F"
abbreviation (input) MsgSealed :: byte where "MsgSealed \<equiv> 0x10"
abbreviation (input) MsgSealedAck :: byte where "MsgSealedAck \<equiv> 0x11"
abbreviation (input) MsgDelete :: byte where "MsgDelete \<equiv> 0x12"
abbreviation (input) maxMsgType :: byte where "maxMsgType \<equiv> MsgDelete"

abbreviation (input) TrustUntrusted :: byte where "TrustUntrusted \<equiv> 0"
abbreviation (input) TrustNeutral :: byte where "TrustNeutral \<equiv> 1"
abbreviation (input) TrustTrusted :: byte where "TrustTrusted \<equiv> 2"
abbreviation (input) TrustVouched :: byte where "TrustVouched \<equiv> 3"

definition LocalOnly :: "byte \<Rightarrow> bool" where
  "LocalOnly msgType \<longleftrightarrow> msgType = MsgBlock \<or> msgType = MsgNickname"

abbreviation (input) HeaderSize :: nat where "HeaderSize \<equiv> 78"
abbreviation (input) MaxPayloadSize :: nat where "MaxPayloadSize \<equiv> 65535"
abbreviation (input) MinMessageSize :: nat where "MinMessageSize \<equiv> 142"
abbreviation (input) MaxMessageSize :: nat where "MaxMessageSize \<equiv> 65677"
abbreviation (input) MaxMessageAge :: duration where "MaxMessageAge \<equiv> 5 * Minute"
abbreviation (input) MaxClockSkew :: duration where "MaxClockSkew \<equiv> 10 * Second"

definition Broadcast :: bytes where
  "Broadcast = replicate 32 0"

datatype proto_error =
    ErrTooShort
  | ErrTooLong
  | ErrBadVersion
  | ErrBadType
  | ErrLocalOnlyType
  | ErrBadLength
  | ErrBadSignature
  | ErrTimestampOld
  | ErrTimestampFuture
  | ErrPayloadTooLarge
  | ErrSenderKeyLength nat
  | ErrSign crypto_error
  | ProtoPanic

section \<open>Envelopes\<close>

record Envelope =
  Version :: byte
  Type :: byte
  Timestamp :: "64 word"
  Sender :: bytes
  Recipient :: bytes
  Payload :: bytes
  Signature :: bytes

definition signedBytes :: "Envelope \<Rightarrow> bytes" where
  "signedBytes e =
     [Version e, Type e] @ PutUint64 (Timestamp e) @ to_array 32 (Sender e) @
     to_array 32 (Recipient e) @ PutUint32 (of_nat (length (Payload e))) @ Payload e"

definition SigningDigest :: "prims \<Rightarrow> Envelope \<Rightarrow> bytes" where
  "SigningDigest P e = Digest P [signedBytes e]"

definition ContentID :: "prims \<Rightarrow> Envelope \<Rightarrow> bytes" where
  "ContentID P e =
     Digest P [[Version e, Type e], PutUint64 (Timestamp e), Sender e, Payload e]"

text \<open>\<open>nowNano\<close> is \<^verbatim>\<open>time.Now().UnixNano()\<close>.\<close>

definition NewEnvelope ::
  "prims \<Rightarrow> 64 word \<Rightarrow> bytes \<Rightarrow> byte \<Rightarrow> bytes \<Rightarrow> bytes \<Rightarrow> proto_error + Envelope" where
  "NewEnvelope P nowNano senderPriv msgType recipient payload =
     (if length senderPriv \<noteq> PrivateKeySize then Inl (ErrSenderKeyLength (length senderPriv))
      else if length payload > MaxPayloadSize then Inl ErrPayloadTooLarge
      else if msgType = 0 \<or> msgType > maxMsgType then Inl ErrBadType
      else if LocalOnly msgType then Inl ErrLocalOnlyType
      else
        let e = \<lparr>Version = ProtoVersion, Type = msgType, Timestamp = nowNano,
                 Sender = to_array 32 (Public senderPriv), Recipient = recipient,
                 Payload = payload, Signature = replicate 64 0\<rparr>
        in case Sign P senderPriv (SigningDigest P e) of
             Inl err \<Rightarrow> Inl (ErrSign err)
           | Inr sig \<Rightarrow> Inr (e\<lparr>Signature := to_array 64 sig\<rparr>))"

definition Encode :: "Envelope \<Rightarrow> bytes" where
  "Encode e = signedBytes e @ to_array 64 (Signature e)"

definition Decode :: "prims \<Rightarrow> bytes \<Rightarrow> proto_error + Envelope" where
  "Decode P data =
     (if length data < MinMessageSize then Inl ErrTooShort
      else if length data > MaxMessageSize then Inl ErrTooLong
      else case (go_index data 0, go_index data 1, go_slice data 2 10, go_slice data 10 42,
                 go_slice data 42 74, go_slice data 74 78) of
        (Some v, Some t, Some ts, Some sdr, Some rcp, Some len) \<Rightarrow>
          (let payloadLen = Uint32 len in
           if v \<noteq> ProtoVersion then Inl ErrBadVersion
           else if t = 0 \<or> t > maxMsgType then Inl ErrBadType
           else if LocalOnly t then Inl ErrLocalOnlyType
           else if unat payloadLen > MaxPayloadSize then Inl ErrPayloadTooLarge
           else if length data \<noteq> HeaderSize + unat payloadLen + SignatureSize then Inl ErrBadLength
           else (case (go_slice data HeaderSize (unat (of_nat HeaderSize + payloadLen)),
                       go_slice data (unat (of_nat HeaderSize + payloadLen)) (length data)) of
             (Some pl, Some sg) \<Rightarrow>
               (let e = \<lparr>Version = v, Type = t, Timestamp = Uint64 ts, Sender = to_array 32 sdr,
                         Recipient = to_array 32 rcp, Payload = to_array (unat payloadLen) pl,
                         Signature = to_array 64 sg\<rparr>
                in if \<not> Verify P (Sender e) (SigningDigest P e) (Signature e) then Inl ErrBadSignature
                   else Inr e)
           | _ \<Rightarrow> Inl ProtoPanic))
      | _ \<Rightarrow> Inl ProtoPanic)"

definition ValidateTimestamp :: "64 word \<Rightarrow> instant \<Rightarrow> proto_error + unit" where
  "ValidateTimestamp tsNanos now =
     (let ts = unix_nano tsNanos in
      if time_sub now ts > MaxMessageAge then Inl ErrTimestampOld
      else if time_sub ts now > MaxClockSkew then Inl ErrTimestampFuture
      else Inr ())"

section \<open>What the decoder accepts\<close>

text \<open>The array fields have their sizes.\<close>

definition wf_envelope :: "Envelope \<Rightarrow> bool" where
  "wf_envelope e \<longleftrightarrow> length (Sender e) = 32 \<and> length (Recipient e) = 32 \<and> length (Signature e) = 64"

definition wire_type :: "byte \<Rightarrow> bool" where
  "wire_type t \<longleftrightarrow> t \<noteq> 0 \<and> t \<le> maxMsgType \<and> \<not> LocalOnly t"

text \<open>The specification of an acceptable envelope: current version, transmittable type, payload
  within the protocol limit, and a signature of the sender over everything else.\<close>

definition acceptable :: "prims \<Rightarrow> Envelope \<Rightarrow> bool" where
  "acceptable P e \<longleftrightarrow>
     wf_envelope e \<and> Version e = ProtoVersion \<and> wire_type (Type e) \<and>
     length (Payload e) \<le> MaxPayloadSize \<and> Verify P (Sender e) (SigningDigest P e) (Signature e)"

text \<open>The bytes of a well-formed envelope, field by field.\<close>

lemma Encode_layout:
  assumes "wf_envelope e"
  shows "Encode e = Version e # Type e # PutUint64 (Timestamp e) @ Sender e @ Recipient e @
           PutUint32 (of_nat (length (Payload e))) @ Payload e @ Signature e"
  using assms by (simp add: Encode_def signedBytes_def wf_envelope_def)

lemma length_signedBytes [wire_simps]: "length (signedBytes e) = 78 + length (Payload e)"
  by (simp add: signedBytes_def)

lemma length_Encode [wire_simps]: "length (Encode e) = 142 + length (Payload e)"
  by (simp add: Encode_def length_signedBytes)

lemma Uint32_length: "n \<le> 65535 \<Longrightarrow> unat (of_nat n :: 32 word) = n"
  by (simp add: unat_of_nat)

lemma header_offset:
  assumes "unat (w :: 32 word) \<le> 65535"
  shows "unat (of_nat 78 + w) = 78 + unat w"
  using assms by (simp add: unat_word_ariths)

text \<open>A buffer that holds a header splits into the fixed fields.\<close>

lemma header_split:
  assumes "78 \<le> length (data :: bytes)"
  shows "data = data ! 0 # data ! 1 # take 8 (drop 2 data) @ take 32 (drop 10 data) @
           take 32 (drop 42 data) @ take 4 (drop 74 data) @ drop 78 data"
proof -
  have "data = take 2 data @ take 8 (drop 2 data) @ take 32 (drop 10 data) @
           take 32 (drop 42 data) @ take 4 (drop 74 data) @ drop 78 data"
    using append_take_drop_id [of 2 data] append_take_drop_id [of 8 "drop 2 data"]
      append_take_drop_id [of 32 "drop 10 data"] append_take_drop_id [of 32 "drop 42 data"]
      append_take_drop_id [of 4 "drop 74 data"]
    by simp
  moreover have "take 2 data = [data ! 0, data ! 1]"
    using assms by (cases data; cases "tl data") (auto simp: numeral_2_eq_2)
  ultimately show ?thesis by simp
qed

lemma Decode_Encode_acceptable:
  assumes "acceptable P e"
  shows "Decode P (Encode e) = Inr e"
proof -
  define n where "n = length (Payload e)"
  have wf: "wf_envelope e" and n: "n \<le> 65535" and ver: "Version e = 1"
    and ty: "wire_type (Type e)" and sig: "Verify P (Sender e) (SigningDigest P e) (Signature e)"
    using assms by (auto simp: acceptable_def n_def)
  have fields: "length (Sender e) = 32" "length (Recipient e) = 32" "length (Signature e) = 64"
    using wf by (auto simp: wf_envelope_def)
  have len: "length (Encode e) = 142 + n" by (simp add: length_Encode n_def)
  have u: "unat (of_nat n :: 32 word) = n" using n by (rule Uint32_length)
  have off: "unat (of_nat 78 + of_nat n :: 32 word) = 78 + n" using header_offset u n by metis
  note lay = Encode_layout [OF wf]
  have i0: "go_index (Encode e) 0 = Some (Version e)" and i1: "go_index (Encode e) 1 = Some (Type e)"
    using len by (auto simp: lay)
  have s: "go_slice (Encode e) 2 10 = Some (PutUint64 (Timestamp e))"
    "go_slice (Encode e) 10 42 = Some (Sender e)" "go_slice (Encode e) 42 74 = Some (Recipient e)"
    "go_slice (Encode e) 74 78 = Some (PutUint32 (of_nat n))"
    "go_slice (Encode e) 78 (78 + n) = Some (Payload e)"
    using len fields by (auto simp: go_slice_def lay n_def)
  have sg: "go_slice (Encode e) (78 + n) (142 + n) = Some (Signature e)"
    using len fields by (simp add: go_slice_def) (simp add: Encode_def length_signedBytes n_def)
  have ok: "\<not> (Type e = 0 \<or> Type e > 0x12)" "\<not> LocalOnly (Type e)"
    using ty by (auto simp: wire_type_def)
  have e: "\<lparr>Version = 1, Type = Type e, Timestamp = Timestamp e, Sender = Sender e,
      Recipient = Recipient e, Payload = Payload e, Signature = Signature e\<rparr> = e"
    using ver by simp
  show ?thesis
    unfolding Decode_def len i0 i1 s
    using n ver ok sig by (simp add: u off s sg fields Let_def e n_def [symmetric] del: of_nat_numeral)
qed

lemma Decode_Inr:
  assumes "Decode P data = Inr e"
  shows "acceptable P e \<and> data = Encode e"
proof -
  define w where "w = Uint32 (take 4 (drop 74 data))"
  have len: "142 \<le> length data" "length data \<le> 65677"
    using assms by (auto simp: Decode_def split: if_splits)
  then have sl: "go_index data 0 = Some (data ! 0)" "go_index data 1 = Some (data ! 1)"
    "go_slice data 2 10 = Some (take 8 (drop 2 data))"
    "go_slice data 10 42 = Some (take 32 (drop 10 data))"
    "go_slice data 42 74 = Some (take 32 (drop 42 data))"
    "go_slice data 74 78 = Some (take 4 (drop 74 data))"
    by (auto simp: go_slice_def go_index_def)
  have chk: "data ! 0 = 1" "wire_type (data ! 1)" "unat w \<le> 65535" "length data = 78 + unat w + 64"
    using assms len
    by (auto simp: Decode_def sl w_def [symmetric] wire_type_def Let_def split: if_splits)
  have off: "unat (of_nat 78 + w) = 78 + unat w" using chk(3) by (rule header_offset)
  define f where "f = \<lparr>Version = data ! 0, Type = data ! 1, Timestamp = Uint64 (take 8 (drop 2 data)),
    Sender = take 32 (drop 10 data), Recipient = take 32 (drop 42 data),
    Payload = take (unat w) (drop 78 data), Signature = drop (78 + unat w) data\<rparr>"
  have f: "Verify P (Sender f) (SigningDigest P f) (Signature f)" "e = f"
    using assms len chk
    by (auto simp: Decode_def sl w_def [symmetric] wire_type_def Let_def off f_def
        simp del: of_nat_numeral split: if_splits)
  have wf: "wf_envelope f" "length (Payload f) = unat w"
    using chk by (auto simp: wf_envelope_def f_def)
  have w: "PutUint32 w = take 4 (drop 74 data)"
    unfolding w_def using len by (intro PutUint32_Uint32) simp
  have t: "PutUint64 (Timestamp f) = take 8 (drop 2 data)"
    unfolding f_def using len by (simp add: PutUint64_Uint64)
  have "drop 78 data = Payload f @ Signature f"
    using append_take_drop_id [of "unat w" "drop 78 data"] by (simp add: f_def add.commute)
  then have "data = Encode f"
    using header_split [of data] len
    by (simp add: Encode_layout [OF wf(1)] wf(2) w t) (simp add: f_def)
  then show ?thesis using f chk wf by (auto simp: acceptable_def f_def)
qed

text \<open>The decoder as a codec: it accepts exactly the encodings of acceptable envelopes.\<close>

definition decode_opt :: "prims \<Rightarrow> bytes \<Rightarrow> Envelope option" where
  "decode_opt P data = (case Decode P data of Inl _ \<Rightarrow> None | Inr e \<Rightarrow> Some e)"

interpretation env: canonical_codec Encode "decode_opt P" "acceptable P" for P
  by unfold_locales
    (auto simp: decode_opt_def Decode_Encode_acceptable dest!: Decode_Inr split: sum.splits)

section \<open>Properties of the envelope layer\<close>

lemma NewEnvelope_Inr:
  assumes "NewEnvelope P now priv t rcp pl = Inr e"
  shows "length priv = 64" "length pl \<le> 65535" "wire_type t"
    "e = \<lparr>Version = 1, Type = t, Timestamp = now, Sender = Public priv, Recipient = rcp, Payload = pl,
          Signature = to_array 64 (ed25519_sign P priv (SigningDigest P e))\<rparr>"
proof -
  show l: "length priv = 64" and "length pl \<le> 65535" and "wire_type t"
    using assms by (auto simp: NewEnvelope_def wire_type_def split: if_splits)
  have "SigningDigest P (e'\<lparr>Signature := sg\<rparr>) = SigningDigest P e'" for e' sg
    by (simp add: SigningDigest_def signedBytes_def)
  then show "e = \<lparr>Version = 1, Type = t, Timestamp = now, Sender = Public priv, Recipient = rcp, Payload = pl,
          Signature = to_array 64 (ed25519_sign P priv (SigningDigest P e))\<rparr>"
    using assms l by (auto simp: NewEnvelope_def Sign_def Let_def SigningDigest_def signedBytes_def
        split: if_splits)
qed

lemma NewEnvelope_acceptable:
  assumes "sizes_ok P" "sign_ok P" "wf_priv P priv" "length rcp = 32"
    and "NewEnvelope P now priv t rcp pl = Inr e"
  shows "acceptable P e"
proof -
  note e = NewEnvelope_Inr [OF assms(5)]
  have "Signature e = ed25519_sign P priv (SigningDigest P e)"
    by (subst e(4)) (simp add: sizes_okD assms(1))
  moreover have "Sender e = Public priv" by (subst e(4)) simp
  moreover have "Version e = 1" "Type e = t" "Recipient e = rcp" "Payload e = pl"
    by (subst e(4), simp)+
  ultimately show ?thesis
    using Verify_sign [OF assms(1-3)] e(1-3) assms(4)
    by (simp add: acceptable_def wf_envelope_def sizes_okD assms(1))
qed

text \<open>
  Every envelope a node builds with its identity key is accepted by every decoder, and decodes to
  exactly the envelope that was built: type, timestamp, sender, recipient, payload and signature.
\<close>

theorem Decode_NewEnvelope:
  assumes "sizes_ok P" "sign_ok P" "wf_priv P priv" "length rcp = 32"
    and "NewEnvelope P now priv t rcp pl = Inr e"
  shows "Decode P (Encode e) = Inr e \<and> Sender e = Public priv \<and> Payload e = pl \<and> Type e = t"
proof -
  have "Decode P (Encode e) = Inr e"
    using NewEnvelope_acceptable [OF assms] by (rule Decode_Encode_acceptable)
  moreover have "Sender e = Public priv \<and> Payload e = pl \<and> Type e = t"
    by (subst (1 2 3) NewEnvelope_Inr(4) [OF assms(5)]) simp
  ultimately show ?thesis ..
qed

theorem Decode_NewEnvelope_witness:
  "\<exists>e. NewEnvelope demo_prims 7 (demo_key 3) MsgChat Broadcast [1, 2, 3] = Inr e \<and>
       Decode demo_prims (Encode e) = Inr e \<and> Payload e = [1, 2, 3]"
proof -
  obtain e where e: "NewEnvelope demo_prims 7 (demo_key 3) MsgChat Broadcast [1, 2, 3] = Inr e"
    using wf_priv_length [OF demo_key_wf]
    by (simp add: NewEnvelope_def LocalOnly_def Sign_def Let_def)
  have "length Broadcast = 32" by (simp add: Broadcast_def)
  from Decode_NewEnvelope [OF demo_sizes_ok demo_sign_ok demo_key_wf this e] e show ?thesis by blast
qed

text \<open>
  C13. The decoder is exact: it accepts a byte string if and only if the string is the encoding of an
  acceptable envelope, and returns that envelope. Hence there is one wire form per envelope, nothing
  trailing is ignored, and no local-only type, foreign version, oversized payload or bad signature
  gets through.
\<close>

theorem Decode_iff: "Decode P data = Inr e \<longleftrightarrow> acceptable P e \<and> data = Encode e"
  using env.dec_iff [of P data e] by (auto simp: decode_opt_def split: sum.splits)

text \<open>
  The decoder never reaches an out-of-range index or slice, whatever bytes arrive.
\<close>

theorem Decode_not_panic: "Decode P data \<noteq> Inl ProtoPanic"
proof (cases "length data < 142")
  case True
  then show ?thesis by (simp add: Decode_def)
next
  case False
  define w where "w = Uint32 (take 4 (drop 74 data))"
  have sl: "go_index data 0 = Some (data ! 0)" "go_index data 1 = Some (data ! 1)"
    "go_slice data 2 10 = Some (take 8 (drop 2 data))"
    "go_slice data 10 42 = Some (take 32 (drop 10 data))"
    "go_slice data 42 74 = Some (take 32 (drop 42 data))"
    "go_slice data 74 78 = Some (take 4 (drop 74 data))"
    using False by (auto simp: go_slice_def go_index_def)
  show ?thesis
    using header_offset [of w]
    unfolding Decode_def sl option.case prod.case w_def [symmetric] Let_def
    by (auto simp: go_slice_def simp del: of_nat_numeral)
qed

text \<open>The bytes a content identifier is the hash of.\<close>

definition content_bytes :: "Envelope \<Rightarrow> bytes" where
  "content_bytes e = [Version e, Type e] @ PutUint64 (Timestamp e) @ Sender e @ Payload e"

lemma ContentID_content_bytes: "sizes_ok P \<Longrightarrow> ContentID P e = sha256 P (content_bytes e)"
  by (simp add: ContentID_def content_bytes_def Digest_def sizes_okD)

lemma content_bytes_eq:
  assumes "length (Sender a) = 32" "length (Sender b) = 32"
  shows "content_bytes a = content_bytes b \<longleftrightarrow>
    Version a = Version b \<and> Type a = Type b \<and> Timestamp a = Timestamp b \<and>
    Sender a = Sender b \<and> Payload a = Payload b"
proof -
  have "PutUint64 (Timestamp a) = PutUint64 (Timestamp b) \<longleftrightarrow> Timestamp a = Timestamp b"
    using u64.enc_inj [of "Timestamp a" "Timestamp b"] by auto
  then show ?thesis using assms by (simp add: content_bytes_def append_eq_append_length)
qed

text \<open>
  Content addresses identify content: for two envelopes on whose hashed bytes the hash function does
  not collide, the content identifiers are equal exactly when version, type, timestamp, sender and
  payload are (recipient and signature are excluded by design): no two different contents share their
  hashed bytes.
\<close>

theorem ContentID_binds:
  assumes "sizes_ok P" and "length (Sender a) = 32" "length (Sender b) = 32"
    and "inj_on (sha256 P) {content_bytes a, content_bytes b}"
  shows "ContentID P a = ContentID P b \<longleftrightarrow>
    Version a = Version b \<and> Type a = Type b \<and> Timestamp a = Timestamp b \<and>
    Sender a = Sender b \<and> Payload a = Payload b"
proof -
  have "ContentID P a = ContentID P b \<longleftrightarrow> content_bytes a = content_bytes b"
    using inj_on_eq_iff [OF assms(4), of "content_bytes a" "content_bytes b"]
    by (simp only: ContentID_content_bytes [OF assms(1)] insert_iff simp_thms)
  then show ?thesis using content_bytes_eq [OF assms(2,3)] by simp
qed

theorem ContentID_binds_witness:
  "\<exists>a. Type a = 1 \<and> ContentID demo_prims a \<noteq> ContentID demo_prims (a\<lparr>Type := 2\<rparr>) \<and>
      ContentID demo_prims a = ContentID demo_prims (a\<lparr>Recipient := replicate 32 1\<rparr>)"
proof -
  define a where "a = \<lparr>Version = 1, Type = 1, Timestamp = 5, Sender = replicate 32 9, Recipient = Broadcast,
            Payload = [4], Signature = replicate 64 0\<rparr>"
  have t: "Type a = 1" "length (Sender a) = 32" by (simp_all add: a_def)
  then have l: "length (Sender (a\<lparr>Type := 2\<rparr>)) = 32" "length (Sender (a\<lparr>Recipient := replicate 32 1\<rparr>)) = 32"
    by simp_all
  have nth: "to_array 32 (x # y # ys) ! 1 = y" for x y :: byte and ys
    by (simp add: to_array_def)
  have "to_array 32 (content_bytes e) ! 1 = Type e" for e
    unfolding content_bytes_def append_Cons by (rule nth)
  from this [of a] this [of "a\<lparr>Type := 2\<rparr>"] have "to_array 32 (content_bytes a) \<noteq> to_array 32 (content_bytes (a\<lparr>Type := 2\<rparr>))"
    using t(1) by auto
  moreover have "sha256 demo_prims = to_array 32" by (simp add: demo_prims_def)
  ultimately have i: "inj_on (sha256 demo_prims) {content_bytes a, content_bytes (a\<lparr>Type := 2\<rparr>)}"
    by (auto simp: inj_on_def)
  have j: "inj_on (sha256 demo_prims) {content_bytes a, content_bytes (a\<lparr>Recipient := replicate 32 1\<rparr>)}"
    by (simp add: content_bytes_def)
  show ?thesis
    using ContentID_binds [OF demo_sizes_ok t(2) l(1) i] ContentID_binds [OF demo_sizes_ok t(2) l(2) j] t(1)
    by (intro exI [of _ a]) simp
qed

lemma ValidateTimestamp_window:
  "ValidateTimestamp ts now = Inr () \<longleftrightarrow>
     now - 5 * Minute \<le> unix_nano ts \<and> unix_nano ts \<le> now + 10 * Second"
proof -
  have "5 * Minute < time_sub now (unix_nano ts) \<longleftrightarrow> 5 * Minute < now - unix_nano ts"
    "10 * Second < time_sub (unix_nano ts) now \<longleftrightarrow> 10 * Second < unix_nano ts - now"
    by (rule time_sub_gt_iff; simp add: time_defs)+
  then show ?thesis by (auto simp: ValidateTimestamp_def Let_def)
qed

text \<open>
  The replay window, for every int64 timestamp and every clock: a timestamp is accepted exactly
  when it is at most five minutes old and at most ten seconds ahead, saturation of the subtraction
  included.
\<close>

theorem ValidateTimestamp_iff:
  "ValidateTimestamp ts now = Inr () \<longleftrightarrow>
     now - 5 * Minute \<le> unix_nano ts \<and> unix_nano ts \<le> now + 10 * Second"
  by (rule ValidateTimestamp_window)

end
