(* ===== verification/Gandr_Mux.thy ===== *)
theory Gandr_Mux
  imports Gandr_Proto
begin

text \<open>
  \<^verbatim>\<open>pkg/network/mux.go\<close>, the per-peer connection: the duplicate filter, reassembly of fragments, delivery
  and acknowledgement, fragmentation, the frame header and the retransmission loop. A connection is the
  record \<open>muxConn\<close>; the clock and the outcomes of waiting and writing are arguments. Frames written are
  returned as a list. The multiplexer above it is in the theory \<open>Gandr_Transport\<close>.
\<close>

abbreviation (input) frameMagic :: byte where "frameMagic \<equiv> 0x47"
abbreviation (input) frameHeaderSize :: nat where "frameHeaderSize \<equiv> 13"
abbreviation (input) frameData :: byte where "frameData \<equiv> 1"
abbreviation (input) frameAck :: byte where "frameAck \<equiv> 2"
abbreviation (input) framePing :: byte where "framePing \<equiv> 3"
abbreviation (input) framePong :: byte where "framePong \<equiv> 4"
abbreviation (input) maxFragments :: nat where "maxFragments \<equiv> 4"
abbreviation (input) reassemblyTimeout :: duration where "reassemblyTimeout \<equiv> 30 * Second"
abbreviation (input) maxReassemblies :: nat where "maxReassemblies \<equiv> 64"
abbreviation (input) dedupeWindow :: nat where "dedupeWindow \<equiv> 1024"
abbreviation (input) inboxSize :: nat where "inboxSize \<equiv> 128"
abbreviation (input) acceptBacklog :: nat where "acceptBacklog \<equiv> 64"
abbreviation (input) sendAttempts :: nat where "sendAttempts \<equiv> 5"
abbreviation (input) sendBaseDelay :: duration where "sendBaseDelay \<equiv> 250 * Millisecond"

datatype net_error = ErrClosed | ErrTooLarge | ErrSendTimeout | ErrUnreachable | ErrCtx | ErrWriteTo

section \<open>The duplicate filter\<close>

record dedupe =
  ids :: "64 word set"
  order :: "64 word list"
  next_slot :: nat

definition newDedupe :: "nat \<Rightarrow> dedupe" where
  "newDedupe sz = \<lparr>ids = {}, order = replicate sz 0, next_slot = 0\<rparr>"

definition dedupe_has :: "dedupe \<Rightarrow> 64 word \<Rightarrow> bool" where
  "dedupe_has d i \<longleftrightarrow> i \<in> ids d"

definition dedupe_add :: "dedupe \<Rightarrow> 64 word \<Rightarrow> dedupe" where
  "dedupe_add d i =
     (if dedupe_has d i then d
      else
        let old = order d ! next_slot d;
            kept = (if old \<noteq> 0 then ids d - {old} else ids d)
        in d\<lparr>ids := insert i kept, order := (order d)[next_slot d := i],
             next_slot := (next_slot d + 1) mod length (order d)\<rparr>)"

section \<open>Connections\<close>

text \<open>A nil fragment is \<^const>\<open>None\<close>.\<close>

record reassembly =
  frags :: "bytes option list"
  have_cnt :: nat
  created :: instant

record PeerAddr =
  YggKey :: bytes
  IPPort :: gostring

definition mapKey :: "PeerAddr \<Rightarrow> gostring" where
  "mapKey a = (if length (YggKey a) > 0 then YggKey a else IPPort a)"

definition addr_String :: "PeerAddr \<Rightarrow> gostring" where
  "addr_String a =
     (if length (YggKey a) > 0 then str ''ygg:'' @ EncodeToString (YggKey a) else IPPort a)"

text \<open>
  \<open>pending\<close> maps the id of an outstanding send or ping to whether its one-slot signal channel is full.
\<close>

record muxConn =
  peer :: PeerAddr
  inbox :: "bytes list"
  remoteEpoch :: byte
  pending :: "(64 word \<times> bool) list"
  reasm :: "(64 word \<times> reassembly) list"
  seen :: dedupe
  conn_closed :: bool

definition new_conn :: "PeerAddr \<Rightarrow> muxConn" where
  "new_conn addr = \<lparr>peer = addr, inbox = [], remoteEpoch = 0, pending = [], reasm = [],
     seen = newDedupe dedupeWindow, conn_closed = False\<rparr>"

definition frame_bytes :: "byte \<Rightarrow> byte \<Rightarrow> 64 word \<Rightarrow> byte \<Rightarrow> byte \<Rightarrow> bytes \<Rightarrow> bytes" where
  "frame_bytes ep frameType msgID fragIndex fragCount body =
     [frameMagic, frameType] @ PutUint64 msgID @ [fragIndex, fragCount, ep] @ body"

section \<open>Reassembly\<close>

text \<open>
  The eviction of the oldest entry follows the order in which the map is ranged over, here the order of
  the association list; among entries created at the same instant the first one visited goes.
\<close>

fun oldest_entry :: "(64 word \<times> reassembly) list \<Rightarrow> (64 word \<times> instant) option \<Rightarrow> (64 word \<times> instant) option" where
  "oldest_entry [] acc = acc"
| "oldest_entry ((i, r) # rest) acc =
     oldest_entry rest
       (case acc of
          None \<Rightarrow> Some (i, created r)
        | Some (j, t) \<Rightarrow> if created r < t then Some (i, created r) else acc)"

definition gcReassemblies :: "instant \<Rightarrow> muxConn \<Rightarrow> muxConn" where
  "gcReassemblies now c =
     (let live = filter (\<lambda>(i, r). \<not> time_sub now (created r) > reassemblyTimeout) (reasm c) in
      if length live < maxReassemblies then c\<lparr>reasm := live\<rparr>
      else c\<lparr>reasm := AList.delete (case oldest_entry live None of None \<Rightarrow> 0 | Some (i, _) \<Rightarrow> i) live\<rparr>)"

text \<open>\<^verbatim>\<open>append([]byte(nil), body...)\<close> is nil for an empty body.\<close>

definition nil_copy :: "bytes \<Rightarrow> bytes option" where
  "nil_copy body = (if body = [] then None else Some body)"

definition frag_bytes :: "bytes option \<Rightarrow> bytes" where
  "frag_bytes f = (case f of None \<Rightarrow> [] | Some b \<Rightarrow> b)"

definition record_frag :: "nat \<Rightarrow> bytes \<Rightarrow> reassembly \<Rightarrow> reassembly" where
  "record_frag i body r =
     (if frags r ! i = None then r\<lparr>frags := (frags r)[i := nil_copy body], have_cnt := have_cnt r + 1\<rparr> else r)"

text \<open>The result is the whole message once complete.\<close>

definition reassemble :: "instant \<Rightarrow> 64 word \<Rightarrow> byte \<Rightarrow> byte \<Rightarrow> bytes \<Rightarrow> muxConn \<Rightarrow> muxConn \<times> bytes option" where
  "reassemble now msgID fragIndex fragCount body c =
     (let (c, r) =
        (case map_of (reasm c) msgID of
           Some r \<Rightarrow> (c, r)
         | None \<Rightarrow>
             let c = gcReassemblies now c;
                 r = \<lparr>frags = replicate (unat fragCount) None, have_cnt = 0, created = now\<rparr>
             in (c\<lparr>reasm := AList.update msgID r (reasm c)\<rparr>, r))
      in
      if unat fragCount \<noteq> length (frags r) then (c\<lparr>reasm := AList.delete msgID (reasm c)\<rparr>, None)
      else
        let r = record_frag (unat fragIndex) body r;
            c = c\<lparr>reasm := AList.update msgID r (reasm c)\<rparr>
        in if have_cnt r < length (frags r) then (c, None)
           else (c, Some (concat (map frag_bytes (frags r)))))"

text \<open>\<^verbatim>\<open>handleData\<close>: the connection afterwards and whether an acknowledgement is written.\<close>

definition handleData :: "instant \<Rightarrow> 64 word \<Rightarrow> byte \<Rightarrow> byte \<Rightarrow> bytes \<Rightarrow> muxConn \<Rightarrow> muxConn \<times> bool" where
  "handleData now msgID fragIndex fragCount body c =
     (if fragCount = 0 \<or> unat fragCount > maxFragments \<or> fragIndex \<ge> fragCount then (c, False)
      else if dedupe_has (seen c) msgID then (c, True)
      else
        let (c, res) = reassemble now msgID fragIndex fragCount body c in
        case res of
          None \<Rightarrow> (c, False)
        | Some msg \<Rightarrow>
            if length msg > MaxMessageSize then (c\<lparr>reasm := AList.delete msgID (reasm c)\<rparr>, False)
            else if length (inbox c) < inboxSize then
              (c\<lparr>inbox := inbox c @ [msg], seen := dedupe_add (seen c) msgID,
                 reasm := AList.delete msgID (reasm c)\<rparr>, True)
            else (c, False))"

definition handleSignal :: "64 word \<Rightarrow> muxConn \<Rightarrow> muxConn" where
  "handleSignal msgID c =
     (case map_of (pending c) msgID of
        None \<Rightarrow> c
      | Some _ \<Rightarrow> c\<lparr>pending := AList.update msgID True (pending c)\<rparr>)"

section \<open>Sending\<close>

text \<open>
  The fragments \<^verbatim>\<open>Send\<close> writes for a message, with index and count, or the size error. \<open>mtu\<close> exceeds the
  header size for every transport the code sets up; Go would panic on a division by zero otherwise.
\<close>

definition fragment :: "nat \<Rightarrow> bytes \<Rightarrow> net_error + (byte \<times> byte \<times> bytes) list" where
  "fragment mtu msg =
     (if length msg > MaxMessageSize then Inl ErrTooLarge
      else
        let fragSize = mtu - frameHeaderSize;
            fragCount = (length msg + fragSize - 1) div fragSize;
            fragCount = (if fragCount = 0 then 1 else fragCount)
        in if fragCount > maxFragments then Inl ErrTooLarge
           else Inr (map (\<lambda>i. let start = i * fragSize; end_pos = min (start + fragSize) (length msg)
                              in (of_nat i, of_nat fragCount, take (end_pos - start) (drop start msg)))
                      [0..<fragCount]))"

text \<open>What ends the wait of one attempt.\<close>

datatype wait_result = Signalled | TimerFired | ConnClosed | CtxDone

text \<open>
  One round of writes: the frames are written in order until a write fails; \<open>ok i\<close> says whether writing
  the i-th one succeeds.
\<close>

fun write_all :: "(nat \<Rightarrow> bool) \<Rightarrow> nat \<Rightarrow> bytes list \<Rightarrow> bytes list \<times> (net_error + unit)" where
  "write_all ok i [] = ([], Inr ())"
| "write_all ok i (f # fs) =
     (if ok i then (let (ws, res) = write_all ok (Suc i) fs in (f # ws, res)) else ([], Inl ErrWriteTo))"

text \<open>
  The retransmission loop from attempt \<open>k\<close> on: \<open>frames\<close> are written in every attempt, \<open>ok k i\<close> says
  whether a write succeeds, \<open>wait k\<close> what ends the wait. Returned are the frames written, the delays of
  the waits started and the result.
\<close>

function transmit_loop ::
  "nat \<Rightarrow> duration \<Rightarrow> bytes list \<Rightarrow> (nat \<Rightarrow> nat \<Rightarrow> bool) \<Rightarrow> (nat \<Rightarrow> wait_result) \<Rightarrow> net_error \<Rightarrow>
     bytes list \<times> duration list \<times> (net_error + unit)" where
  "transmit_loop k delay frames ok wait timeoutErr =
     (if k < sendAttempts then
        (case write_all (ok k) 0 frames of
           (ws, Inl e) \<Rightarrow> (ws, [], Inl e)
         | (ws, Inr _) \<Rightarrow>
             (case wait k of
                Signalled \<Rightarrow> (ws, [delay], Inr ())
              | ConnClosed \<Rightarrow> (ws, [delay], Inl ErrClosed)
              | CtxDone \<Rightarrow> (ws, [delay], Inl ErrCtx)
              | TimerFired \<Rightarrow>
                  (let (ws', ds, res) = transmit_loop (Suc k) (delay * 2) frames ok wait timeoutErr
                   in (ws @ ws', delay # ds, res))))
      else ([], [], Inl timeoutErr))"
  by pat_completeness auto
termination
  by (relation "measure (\<lambda>(k, _). 5 - k)") auto

declare transmit_loop.simps [simp del]

text \<open>
  \<^verbatim>\<open>transmit\<close> registers the signal for the time of the loop and removes it on every return; \<open>during\<close> is
  what the other goroutines make of the connection meanwhile.
\<close>

definition transmit ::
  "64 word \<Rightarrow> bytes list \<Rightarrow> (nat \<Rightarrow> nat \<Rightarrow> bool) \<Rightarrow> (nat \<Rightarrow> wait_result) \<Rightarrow> net_error \<Rightarrow>
     (muxConn \<Rightarrow> muxConn) \<Rightarrow> muxConn \<Rightarrow> muxConn \<times> bytes list \<times> duration list \<times> (net_error + unit)" where
  "transmit msgID frames ok wait timeoutErr during c =
     (let c = during (c\<lparr>pending := AList.update msgID False (pending c)\<rparr>);
          (ws, ds, res) = transmit_loop 0 sendBaseDelay frames ok wait timeoutErr
      in (c\<lparr>pending := AList.delete msgID (pending c)\<rparr>, ws, ds, res))"

definition Send ::
  "nat \<Rightarrow> byte \<Rightarrow> 64 word \<Rightarrow> bytes \<Rightarrow> (nat \<Rightarrow> nat \<Rightarrow> bool) \<Rightarrow> (nat \<Rightarrow> wait_result) \<Rightarrow>
     (muxConn \<Rightarrow> muxConn) \<Rightarrow> muxConn \<Rightarrow> muxConn \<times> bytes list \<times> duration list \<times> (net_error + unit)" where
  "Send mtu ep msgID msg ok wait during c =
     (case fragment mtu msg of
        Inl e \<Rightarrow> (c, [], [], Inl e)
      | Inr fs \<Rightarrow>
          transmit msgID (map (\<lambda>(i, n, b). frame_bytes ep frameData msgID i n b) fs) ok wait
            ErrSendTimeout during c)"

definition ping ::
  "byte \<Rightarrow> 64 word \<Rightarrow> (nat \<Rightarrow> nat \<Rightarrow> bool) \<Rightarrow> (nat \<Rightarrow> wait_result) \<Rightarrow>
     (muxConn \<Rightarrow> muxConn) \<Rightarrow> muxConn \<Rightarrow> muxConn \<times> bytes list \<times> duration list \<times> (net_error + unit)" where
  "ping ep msgID ok wait during c =
     transmit msgID [frame_bytes ep framePing msgID 0 1 []] ok wait ErrUnreachable during c"

text \<open>\<^verbatim>\<open>Recv\<close>: with a message queued and the connection open, the message; \<open>ctxDone\<close> and a closed connection
  end a wait on an empty inbox. (With several cases ready Go picks one at random; \<open>pick\<close> says whether the
  message case is taken when another is ready too.)\<close>

definition Recv :: "bool \<Rightarrow> bool \<Rightarrow> muxConn \<Rightarrow> (muxConn \<times> (net_error + bytes)) option" where
  "Recv ctxDone pick c =
     (case inbox c of
        m # rest \<Rightarrow>
          if pick \<or> \<not> (ctxDone \<or> conn_closed c) then Some (c\<lparr>inbox := rest\<rparr>, Inr m)
          else Some (c, Inl (if conn_closed c then ErrClosed else ErrCtx))
      | [] \<Rightarrow> if conn_closed c then Some (c, Inl ErrClosed)
              else if ctxDone then Some (c, Inl ErrCtx) else None)"

section \<open>The duplicate filter remembers a window\<close>

text \<open>The specification: the ids added last, oldest first, at most \<open>cap\<close> of them.\<close>

definition window_add :: "nat \<Rightarrow> 'a list \<Rightarrow> 'a \<Rightarrow> 'a list" where
  "window_add cap w x = (if x \<in> set w then w else drop (Suc (length w) - cap) (w @ [x]))"

text \<open>What message delivery relies on: a filter that behaves like such a window.\<close>

locale duplicate_filter =
  fixes has :: "'d \<Rightarrow> 'a \<Rightarrow> bool"
    and add :: "'d \<Rightarrow> 'a \<Rightarrow> 'd"
    and inv :: "'d \<Rightarrow> bool"
    and window :: "'d \<Rightarrow> 'a list"
    and cap :: nat
    and ok :: "'a \<Rightarrow> bool"
  assumes cap_pos: "0 < cap"
    and inv_add: "inv d \<Longrightarrow> ok x \<Longrightarrow> inv (add d x)"
    and has_iff: "inv d \<Longrightarrow> ok x \<Longrightarrow> has d x \<longleftrightarrow> x \<in> set (window d)"
    and window_step: "inv d \<Longrightarrow> ok x \<Longrightarrow> window (add d x) = window_add cap (window d) x"
begin

lemma run_window:
  "inv d \<Longrightarrow> list_all ok xs \<Longrightarrow>
     inv (foldl add d xs) \<and> window (foldl add d xs) = foldl (window_add cap) (window d) xs"
  by (induction xs arbitrary: d) (auto simp: inv_add window_step)

lemma window_rank:
  assumes "w = a @ x # b" "length b + length ys < cap"
  shows "\<exists>a' b'. foldl (window_add cap) w ys = a' @ x # b'"
  using assms
proof (induction ys arbitrary: w a b)
  case Nil
  then show ?case by auto
next
  case (Cons y ys)
  have "\<exists>a' b'. window_add cap w y = a' @ x # b' \<and> length b' \<le> Suc (length b)"
  proof (cases "y \<in> set w")
    case True
    then have "window_add cap w y = a @ x # b" using Cons.prems by (simp add: window_add_def)
    then show ?thesis by (intro exI [of _ a] exI [of _ b]) simp
  next
    case False
    have "window_add cap w y = drop (Suc (length w) - cap) a @ x # b @ [y]"
      using False Cons.prems by (simp add: window_add_def)
    then show ?thesis by (metis length_append_singleton order_refl)
  qed
  then show ?case using Cons.IH Cons.prems by fastforce
qed

text \<open>An id stays known for the next \<open>cap - 1\<close> additions, whatever they are.\<close>

lemma remembered:
  assumes "inv d" "ok x" "list_all ok ys" "length ys < cap"
    and fresh: "\<not> has d x"
  shows "has (foldl add (add d x) ys) x"
proof -
  have w: "window (add d x) = drop (Suc (length (window d)) - cap) (window d) @ x # []"
    using assms cap_pos by (simp add: window_step window_add_def has_iff)
  have i: "inv (add d x)" using assms by (simp add: inv_add)
  have "\<exists>a' b'. window (foldl add (add d x) ys) = a' @ x # b'"
    using window_rank [OF w] assms(4) run_window [OF i assms(3)] by simp
  then show ?thesis using run_window [OF i assms(3)] has_iff assms(2) by auto
qed

end

definition ring :: "dedupe \<Rightarrow> 64 word list" where
  "ring d = drop (next_slot d) (order d) @ take (next_slot d) (order d)"

definition dedupe_window :: "dedupe \<Rightarrow> 64 word list" where
  "dedupe_window d = filter (\<lambda>i. i \<noteq> 0) (ring d)"

definition dedupe_inv :: "nat \<Rightarrow> dedupe \<Rightarrow> bool" where
  "dedupe_inv cap d \<longleftrightarrow>
     0 < cap \<and> length (order d) = cap \<and> next_slot d < cap \<and>
     (\<exists>k w. ring d = replicate k 0 @ w \<and> 0 \<notin> set w \<and> distinct w \<and> ids d = set w)"

lemma ring_step:
  "n < length xs \<Longrightarrow>
     drop ((n + 1) mod length xs) (xs[n := x]) @ take ((n + 1) mod length xs) (xs[n := x]) =
     tl (drop n xs @ take n xs) @ [x]"
proof (cases "n + 1 = length xs")
  case True
  then have "drop n xs = [last xs]" by (metis Suc_eq_plus1 append_butlast_last_id append_eq_conv_conj
      length_butlast diff_Suc_1 list.size(3) nat.distinct(1))
  with True show ?thesis by (simp add: list_update_append1 upd_conv_take_nth_drop)
next
  case False
  assume "n < length xs"
  with False have "Suc n < length xs" by simp
  moreover have "tl (drop n xs @ take n xs) = drop (Suc n) xs @ take n xs"
    using Cons_nth_drop_Suc [OF \<open>n < length xs\<close>, symmetric] by simp
  ultimately show ?thesis by (simp add: take_update_swap upd_conv_take_nth_drop take_Suc_conv_app_nth)
qed

lemma ring_add:
  assumes "next_slot d < length (order d)" "\<not> dedupe_has d i"
  shows "ring (dedupe_add d i) = tl (ring d) @ [i]"
  using ring_step [OF assms(1), of i] assms(2) by (simp add: ring_def dedupe_add_def Let_def)

lemma hd_ring: "next_slot d < length (order d) \<Longrightarrow> hd (ring d) = order d ! next_slot d"
  by (simp add: ring_def hd_append hd_drop_conv_nth)

lemma dedupe_inv_window:
  assumes "dedupe_inv cap d" "ring d = replicate k 0 @ w" "0 \<notin> set w"
  shows "dedupe_window d = w" "ids d = set w" "distinct w" "k + length w = cap"
proof -
  have f: "filter (\<lambda>i. i \<noteq> 0) (replicate j (0 :: 64 word) @ v) = v" if "0 \<notin> set v" for j v
    using that by (auto simp: filter_id_conv)
  show "dedupe_window d = w" using assms f by (simp add: dedupe_window_def)
  obtain k' w' where 1: "ring d = replicate k' 0 @ w'" "0 \<notin> set w'" "distinct w'" "ids d = set w'"
    using assms(1) by (auto simp: dedupe_inv_def)
  have "w = w'" using f [of w k] f [of w' k'] assms(2,3) 1 by metis
  with 1 show "ids d = set w" "distinct w" by auto
  have "length (ring d) = cap" using assms(1) by (simp add: dedupe_inv_def ring_def)
  then show "k + length w = cap" using assms(2) by simp
qed

lemma dedupe_add_window:
  assumes inv: "dedupe_inv cap d" and i: "i \<noteq> 0"
  shows "dedupe_inv cap (dedupe_add d i) \<and> dedupe_window (dedupe_add d i) = window_add cap (dedupe_window d) i"
proof (cases "dedupe_has d i")
  case True
  then have "dedupe_add d i = d" by (simp add: dedupe_add_def)
  moreover obtain k w where "ring d = replicate k 0 @ w" "0 \<notin> set w" using inv by (auto simp: dedupe_inv_def)
  ultimately show ?thesis using True inv dedupe_inv_window [OF inv] by (simp add: window_add_def dedupe_has_def)
next
  case False
  obtain k w where r: "ring d = replicate k 0 @ w" "0 \<notin> set w" using inv by (auto simp: dedupe_inv_def)
  note w = dedupe_inv_window [OF inv r]
  have b: "next_slot d < length (order d)" "length (order d) = cap" "0 < cap" using inv by (auto simp: dedupe_inv_def)
  define w' where "w' = (if k = 0 then tl w else w) @ [i]"
  have ring': "ring (dedupe_add d i) = replicate (k - 1) 0 @ w'"
    using ring_add [OF b(1) False] r by (cases k) (auto simp: w'_def w(4) b)
  have hd: "hd (ring d) = order d ! next_slot d" using hd_ring [OF b(1)] .
  have ne: "k = 0 \<Longrightarrow> w \<noteq> []" using w(4) b by auto
  have old: "order d ! next_slot d = (if k = 0 then hd w else 0)"
    using hd r ne by (cases k) auto
  have ids': "ids (dedupe_add d i) = set w'"
  proof (cases k)
    case 0
    then obtain x v where v: "w = x # v" using ne by (cases w) auto
    then have "order d ! next_slot d = x" "x \<noteq> 0" "x \<notin> set v" using old 0 r w(3) by auto
    then show ?thesis using False 0 v w(2) by (auto simp: dedupe_add_def Let_def w'_def)
  next
    case (Suc n)
    then show ?thesis using False old w(2) by (auto simp: dedupe_add_def Let_def w'_def)
  qed
  have "i \<notin> set w" using False w(2) by (simp add: dedupe_has_def)
  then have d': "0 \<notin> set w'" "distinct w'"
    using r w(3) i ne by (auto simp: w'_def distinct_tl dest: list.set_sel(2) split: if_splits)
  have inv': "dedupe_inv cap (dedupe_add d i)"
    unfolding dedupe_inv_def using ring' d' ids' b False
    by (auto simp: dedupe_add_def Let_def)
  have "window_add cap w i = w'"
    using \<open>i \<notin> set w\<close> w(4) ne by (cases k; cases w) (auto simp: window_add_def w'_def)
  then show ?thesis using inv' dedupe_inv_window(1) [OF inv' ring' d'(1)] w(1) by simp
qed

lemma newDedupe_inv: "0 < cap \<Longrightarrow> dedupe_inv cap (newDedupe cap) \<and> dedupe_window (newDedupe cap) = []"
  by (auto simp: dedupe_inv_def dedupe_window_def newDedupe_def ring_def)

interpretation dd: duplicate_filter dedupe_has dedupe_add "dedupe_inv 1024" dedupe_window 1024 "\<lambda>i. i \<noteq> 0"
proof unfold_locales
  fix d :: dedupe and i :: "64 word"
  assume inv: "dedupe_inv 1024 d" and i: "i \<noteq> 0"
  then show "dedupe_inv 1024 (dedupe_add d i)" "dedupe_window (dedupe_add d i) = window_add 1024 (dedupe_window d) i"
    using dedupe_add_window by blast+
  obtain k w where "ring d = replicate k 0 @ w" "0 \<notin> set w" using inv by (auto simp: dedupe_inv_def)
  then show "dedupe_has d i \<longleftrightarrow> i \<in> set (dedupe_window d)"
    using dedupe_inv_window [OF inv] by (simp add: dedupe_has_def)
qed simp

section \<open>Reassembly in any order\<close>

lemma frag_bytes_nil_copy [simp]: "frag_bytes (nil_copy b) = b"
  by (simp add: frag_bytes_def nil_copy_def)

lemma gcReassemblies_frame [simp]:
  "inbox (gcReassemblies now c) = inbox c" "seen (gcReassemblies now c) = seen c"
  "pending (gcReassemblies now c) = pending c" "peer (gcReassemblies now c) = peer c"
  "remoteEpoch (gcReassemblies now c) = remoteEpoch c" "conn_closed (gcReassemblies now c) = conn_closed c"
  by (simp_all add: gcReassemblies_def Let_def)

definition fresh_reasm :: "nat \<Rightarrow> instant \<Rightarrow> reassembly" where
  "fresh_reasm n now = \<lparr>frags = replicate n None, have_cnt = 0, created = now\<rparr>"

definition entry :: "nat \<Rightarrow> instant \<Rightarrow> 64 word \<Rightarrow> muxConn \<Rightarrow> reassembly" where
  "entry n now i c = (case map_of (reasm c) i of Some r \<Rightarrow> r | None \<Rightarrow> fresh_reasm n now)"

lemma reassemble_consistent:
  fixes n k :: byte and body :: bytes and c :: muxConn
  assumes "length (frags (entry (unat n) now i c)) = unat n"
  defines "r \<equiv> record_frag (unat k) body (entry (unat n) now i c)"
  obtains c' where "reassemble now i k n body c =
      (c', if have_cnt r < unat n then None else Some (concat (map frag_bytes (frags r))))"
    "map_of (reasm c') i = Some r" "inbox c' = inbox c" "seen c' = seen c"
proof -
  have l: "length (frags r) = unat n" using assms(1) by (simp add: r_def record_frag_def)
  show ?thesis
  proof (cases "map_of (reasm c) i")
    case None
    with l show ?thesis
      by (intro that [of "let d = gcReassemblies now c in
            d\<lparr>reasm := AList.update i r (AList.update i (fresh_reasm (unat n) now) (reasm d))\<rparr>"])
        (simp_all add: reassemble_def Let_def entry_def fresh_reasm_def r_def update_conv)
  next
    case (Some r0)
    with l assms(1) show ?thesis
      by (intro that [of "c\<lparr>reasm := AList.update i r (reasm c)\<rparr>"])
        (simp_all add: reassemble_def Let_def entry_def r_def update_conv)
  qed
qed

text \<open>The entry of a message of which the fragments in \<open>S\<close> have arrived.\<close>

definition holds_frags :: "bytes list \<Rightarrow> nat set \<Rightarrow> reassembly \<Rightarrow> bool" where
  "holds_frags bodies S r \<longleftrightarrow>
     length (frags r) = length bodies \<and> have_cnt r = card S \<and>
     (\<forall>j < length bodies. frags r ! j = (if j \<in> S then nil_copy (bodies ! j) else None))"

lemma holds_frags_record:
  assumes "holds_frags bodies S r" "S \<subseteq> {..<length bodies}" "i < length bodies"
    and "i \<in> S \<Longrightarrow> bodies ! i \<noteq> []"
  shows "holds_frags bodies (insert i S) (record_frag i (bodies ! i) r)"
proof (cases "i \<in> S")
  case True
  then show ?thesis using assms by (auto simp: holds_frags_def record_frag_def nil_copy_def insert_absorb)
next
  case False
  have "finite S" using assms(2) finite_subset by blast
  with False assms show ?thesis
    by (auto simp: holds_frags_def record_frag_def nth_list_update)
qed

lemma holds_frags_full:
  assumes "holds_frags bodies {..<length bodies} r"
  shows "concat (map frag_bytes (frags r)) = concat bodies"
proof -
  have "map frag_bytes (frags r) = bodies"
    using assms by (intro nth_equalityI) (auto simp: holds_frags_def)
  then show ?thesis by simp
qed

lemma holds_frags_fresh: "holds_frags bodies {} (fresh_reasm (length bodies) now)"
  by (simp add: holds_frags_def fresh_reasm_def)

text \<open>A message in flight: its fragments, one to four of them, none empty unless there is only one.\<close>

definition fragments_ok :: "bytes list \<Rightarrow> bool" where
  "fragments_ok bodies \<longleftrightarrow>
     0 < length bodies \<and> length bodies \<le> maxFragments \<and>
     (length bodies = 1 \<or> [] \<notin> set bodies) \<and> length (concat bodies) \<le> MaxMessageSize"

definition deliver :: "64 word \<Rightarrow> bytes list \<Rightarrow> muxConn \<Rightarrow> instant \<times> nat \<Rightarrow> muxConn" where
  "deliver msgID bodies c ev =
     (case ev of (now, i) \<Rightarrow>
        fst (handleData now msgID (of_nat i) (of_nat (length bodies)) (bodies ! i) c))"

text \<open>The connection after the fragments in \<open>S\<close>, relative to the one before the first.\<close>

definition in_flight :: "64 word \<Rightarrow> bytes list \<Rightarrow> muxConn \<Rightarrow> nat set \<Rightarrow> muxConn \<Rightarrow> bool" where
  "in_flight msgID bodies c0 S c \<longleftrightarrow>
     (if S = {..<length bodies} then
        inbox c = inbox c0 @ [concat bodies] \<and> dedupe_has (seen c) msgID
      else
        inbox c = inbox c0 \<and> seen c = seen c0 \<and> (\<forall>now. holds_frags bodies S (entry (length bodies) now msgID c)))"

lemma dedupe_has_add [simp]: "dedupe_has (dedupe_add d i) i"
  by (simp add: dedupe_add_def dedupe_has_def Let_def)

lemma deliver_step:
  assumes ok: "fragments_ok bodies" and c0: "\<not> dedupe_has (seen c0) msgID" "length (inbox c0) < 128"
    and fl: "in_flight msgID bodies c0 S c" "S \<subseteq> {..<length bodies}" and i: "i < length bodies"
  shows "in_flight msgID bodies c0 (insert i S) (deliver msgID bodies c (now, i))"
proof -
  let ?n = "length bodies"
  have n4: "0 < ?n" "?n \<le> 4" using ok by (auto simp: fragments_ok_def)
  have u: "unat (of_nat ?n :: byte) = ?n" "unat (of_nat i :: byte) = i" using n4 i by auto
  have pre: "\<not> (of_nat ?n = (0 :: byte) \<or> unat (of_nat ?n :: byte) > 4 \<or> (of_nat i :: byte) \<ge> of_nat ?n)"
  proof -
    have "(of_nat ?n :: byte) \<noteq> 0" using u(1) n4(1) by (metis unsigned_0 less_numeral_extra(3))
    then show ?thesis using u n4 i by (simp add: word_le_nat_alt)
  qed
  show ?thesis
  proof (cases "S = {..<?n}")
    case True
    then have "handleData now msgID (of_nat i) (of_nat ?n) (bodies ! i) c = (c, True)"
      using pre fl(1) by (simp add: handleData_def in_flight_def)
    with True fl(1) i show ?thesis by (simp add: deliver_def insert_absorb)
  next
    case False
    then have c: "inbox c = inbox c0" "seen c = seen c0" "holds_frags bodies S (entry ?n now msgID c)"
      using fl(1) by (auto simp: in_flight_def)
    define r where "r = record_frag i (bodies ! i) (entry ?n now msgID c)"
    have "bodies ! i \<noteq> []" if "i \<in> S"
    proof -
      have "?n \<noteq> 1" using that False fl(2) i by auto
      then have "[] \<notin> set bodies" using ok by (simp add: fragments_ok_def)
      then show ?thesis using nth_mem [OF i] by metis
    qed
    then have r: "holds_frags bodies (insert i S) r"
      unfolding r_def using holds_frags_record c(3) fl(2) i by blast
    have "length (frags (entry (unat (of_nat ?n :: byte)) now msgID c)) = unat (of_nat ?n :: byte)"
      using c(3) u by (simp add: holds_frags_def)
    then obtain c' where c': "reassemble now msgID (of_nat i) (of_nat ?n) (bodies ! i) c =
        (c', if have_cnt r < ?n then None else Some (concat (map frag_bytes (frags r))))"
      "map_of (reasm c') msgID = Some r" "inbox c' = inbox c" "seen c' = seen c"
      using reassemble_consistent [of "of_nat ?n" now msgID c "of_nat i" "bodies ! i"] u
      unfolding r_def by metis
    have have_r: "have_cnt r = card (insert i S)" using r by (simp add: holds_frags_def)
    have sub: "insert i S \<subseteq> {..<?n}" using fl(2) i by auto
    show ?thesis
    proof (cases "insert i S = {..<?n}")
      case True
      then have m: "concat (map frag_bytes (frags r)) = concat bodies" "\<not> have_cnt r < ?n"
        using r holds_frags_full have_r by auto
      show ?thesis
        using pre c c0 c' m ok unfolding True
        by (simp add: deliver_def handleData_def in_flight_def fragments_ok_def)
    next
      case notall: False
      then have "have_cnt r < ?n" using have_r sub by (metis psubset_card_mono psubsetI finite_lessThan card_lessThan)
      then have "handleData now msgID (of_nat i) (of_nat ?n) (bodies ! i) c = (c', False)"
        using pre c c0 c' by (simp add: handleData_def)
      then show ?thesis using notall c c' r by (simp add: deliver_def in_flight_def entry_def)
    qed
  qed
qed

lemma deliver_run:
  assumes ok: "fragments_ok bodies" and c0: "\<not> dedupe_has (seen c0) msgID" "length (inbox c0) < 128"
    and evs: "snd ` set evs \<subseteq> {..<length bodies}"
    and fl: "in_flight msgID bodies c0 S c" "S \<subseteq> {..<length bodies}"
  shows "in_flight msgID bodies c0 (S \<union> snd ` set evs) (foldl (deliver msgID bodies) c evs)"
  using evs fl
proof (induction evs arbitrary: S c)
  case Nil
  then show ?case by simp
next
  case (Cons ev evs)
  obtain now i where ev: "ev = (now, i)" by (cases ev)
  have "in_flight msgID bodies c0 (insert i S) (deliver msgID bodies c ev)"
    using deliver_step [OF ok c0 Cons.prems(2,3)] Cons.prems(1) by (simp add: ev)
  moreover have "insert i S \<subseteq> {..<length bodies}" using Cons.prems(1,3) by (auto simp: ev)
  ultimately have "in_flight msgID bodies c0 (insert i S \<union> snd ` set evs)
      (foldl (deliver msgID bodies) (deliver msgID bodies c ev) evs)"
    using Cons.IH [of "insert i S" "deliver msgID bodies c ev"] Cons.prems(1) by simp
  then show ?case by (simp add: ev)
qed

section \<open>Fragmentation\<close>

lemma chunks_concat:
  assumes "0 < k"
  shows "concat (map (\<lambda>i. take (min (i * k + k) (length m) - i * k) (drop (i * k) m)) [0..<n]) = take (n * k) m"
proof (induction n)
  case 0
  then show ?case by simp
next
  case (Suc n)
  have "take (min (n * k + k) (length m) - n * k) (drop (n * k) m) = take k (drop (n * k) m)"
    by (cases "length m \<le> n * k + k") (simp_all add: min_def)
  moreover have "take (Suc n * k) m = take (n * k) m @ take k (drop (n * k) m)"
    by (simp add: take_add [symmetric] add.commute)
  ultimately show ?case using Suc by simp
qed

lemma fragment_Inr:
  assumes mtu: "13 < mtu" and f: "fragment mtu msg = Inr fs"
  obtains bodies where "fragments_ok bodies" "concat bodies = msg"
    "fs = map (\<lambda>i. (of_nat i, of_nat (length bodies), bodies ! i)) [0..<length bodies]"
proof -
  define k where "k = mtu - 13"
  define n0 where "n0 = (length msg + k - 1) div k"
  define n where "n = (if n0 = 0 then 1 else n0)"
  define bodies where "bodies = map (\<lambda>i. take (min (i * k + k) (length msg) - i * k) (drop (i * k) msg)) [0..<n]"
  have k: "0 < k" using mtu by (simp add: k_def)
  have fs: "fs = map (\<lambda>i. (of_nat i, of_nat n, take (min (i * k + k) (length msg) - i * k) (drop (i * k) msg))) [0..<n]"
    and n4: "n \<le> 4" and len: "length msg \<le> 65677"
    using f by (auto simp: fragment_def Let_def k_def n_def n0_def split: if_splits)
  have "length msg \<le> n * k"
  proof (cases "msg = []")
    case False
    then have "length msg + k - 1 = n0 * k + (length msg + k - 1) mod k" by (simp add: n0_def)
    moreover have "(length msg + k - 1) mod k \<le> k - 1" using k by (simp add: less_Suc_eq_le [symmetric])
    ultimately have "length msg \<le> n0 * k" using k by linarith
    then show ?thesis by (cases "n0 = 0") (simp_all add: n_def)
  qed simp
  then have cat: "concat bodies = msg" using chunks_concat [OF k, of msg n] by (simp add: bodies_def)
  have ne: "n = 1 \<or> [] \<notin> set bodies"
  proof -
    have "i * k < length msg" if "i < n" "n \<noteq> 1" for i
    proof -
      have "n = n0" using that(2) by (simp add: n_def split: if_splits)
      moreover have "n0 * k \<le> length msg + k - 1" by (simp add: n0_def)
      moreover have "i * k + k \<le> n * k" using that(1) mult_le_mono1 [of "Suc i" n k] by simp
      ultimately have "i * k + k \<le> length msg + k - 1" by simp
      then show ?thesis using k by linarith
    qed
    then have "n \<noteq> 1 \<Longrightarrow> i < n \<Longrightarrow>
        take (min (i * k + k) (length msg) - i * k) (drop (i * k) msg) \<noteq> []" for i
      using k by (simp add: not_le)
    then show ?thesis by (force simp: bodies_def)
  qed
  show ?thesis
  proof (rule that)
    show "fragments_ok bodies"
      using ne n4 cat len by (simp add: fragments_ok_def bodies_def n_def)
    show "concat bodies = msg" by (rule cat)
    show "fs = map (\<lambda>i. (of_nat i, of_nat (length bodies), bodies ! i)) [0..<length bodies]"
      unfolding fs by (auto simp: bodies_def)
  qed
qed

text \<open>
  C9. Reliable, exactly-once delivery over an unreliable network: whatever frames of a message arrive, in
  any order, at any times and any number of times each, the receiver's inbox gains the sent message
  exactly once as soon as every fragment has arrived at least once, and gains nothing before; from then
  on its id is known as delivered.
\<close>

theorem delivered_exactly_once:
  assumes "13 < mtu" "fragment mtu msg = Inr fs"
    and "\<not> dedupe_has (seen c) msgID" "length (inbox c) < 128" "map_of (reasm c) msgID = None"
    and "\<forall>f \<in> snd ` set evs. f < length fs"
  shows "let c' = foldl (\<lambda>c (now, f). case fs ! f of (i, n, body) \<Rightarrow> fst (handleData now msgID i n body c)) c evs in
    inbox c' = inbox c @ (if {..<length fs} \<subseteq> snd ` set evs then [msg] else []) \<and>
    ({..<length fs} \<subseteq> snd ` set evs \<longrightarrow> dedupe_has (seen c') msgID)"
proof -
  obtain bodies where ok: "fragments_ok bodies" and cat: "concat bodies = msg"
    and fs: "fs = map (\<lambda>i. (of_nat i, of_nat (length bodies), bodies ! i)) [0..<length bodies]"
    using fragment_Inr [OF assms(1,2)] by blast
  have ne: "{} \<noteq> {..<length bodies}" using ok by (auto simp: fragments_ok_def)
  have evs: "snd ` set evs \<subseteq> {..<length bodies}" using assms(6) by (auto simp: fs)
  have fl: "in_flight msgID bodies c {} c"
    using ne assms(5) by (simp add: in_flight_def entry_def holds_frags_fresh)
  have "foldl (\<lambda>c (now, f). case fs ! f of (i, n, body) \<Rightarrow> fst (handleData now msgID i n body c)) c evs =
      foldl (deliver msgID bodies) c evs"
    using evs by (intro foldl_cong) (auto simp: fs deliver_def)
  moreover have "in_flight msgID bodies c (snd ` set evs) (foldl (deliver msgID bodies) c evs)"
    using deliver_run [OF ok assms(3,4) evs fl] by simp
  moreover have "{..<length fs} \<subseteq> snd ` set evs \<longleftrightarrow> snd ` set evs = {..<length bodies}"
    using evs by (auto simp: fs)
  ultimately show ?thesis using cat by (auto simp: in_flight_def Let_def)
qed

theorem delivered_exactly_once_witness:
  "let c' = foldl (\<lambda>c (now, f). case [(0, 2, [1, 2, 3]), (1, 2, [4, 5])] ! f of
      (i, n, body) \<Rightarrow> fst (handleData now 7 i n body c)) (new_conn \<lparr>YggKey = [1], IPPort = []\<rparr>) [(0, 1), (3, 1), (5, 0), (9, 0)] in
   inbox c' = [[1, 2, 3, 4, 5]]"
proof -
  have "[0..<2] = [0, 1]" by (simp add: upt_rec)
  then have f: "fragment 16 [1, 2, 3, 4, 5] = Inr [(0, 2, [1, 2, 3]), (1, 2, [4, 5])]"
    by (simp add: fragment_def Let_def)
  have "\<not> dedupe_has (seen (new_conn \<lparr>YggKey = [1], IPPort = []\<rparr>)) 7"
    "length (inbox (new_conn \<lparr>YggKey = [1], IPPort = []\<rparr>)) < 128"
    "map_of (reasm (new_conn \<lparr>YggKey = [1], IPPort = []\<rparr>)) 7 = None"
    by (simp_all add: new_conn_def dedupe_has_def newDedupe_def)
  then have "let c' = foldl (\<lambda>c (now, f). case [(0, 2, [1, 2, 3]), (1, 2, [4, 5])] ! f of
      (i, n, body) \<Rightarrow> fst (handleData now 7 i n body c)) (new_conn \<lparr>YggKey = [1], IPPort = []\<rparr>) [(0, 1), (3, 1), (5, 0), (9, 0)] in
    inbox c' = inbox (new_conn \<lparr>YggKey = [1], IPPort = []\<rparr>) @ [[1, 2, 3, 4, 5]]"
    using delivered_exactly_once [OF _ f, of "new_conn \<lparr>YggKey = [1], IPPort = []\<rparr>" 7 "[(0, 1), (3, 1), (5, 0), (9, 0)]"]
    by (auto simp: Let_def simp del: foldl.simps foldl_Cons)
  then show ?thesis by (simp add: Let_def new_conn_def del: foldl.simps foldl_Cons)
qed

text \<open>
  Acknowledgements are truthful: \<^verbatim>\<open>handleData\<close> acknowledges a fragment only when the message has been
  put into the inbox now or was recorded as delivered before; in every other case, a full inbox included,
  nothing is acknowledged and nothing is delivered.
\<close>

theorem handleData_ack:
  "case handleData now msgID fragIndex fragCount body c of
     (c', ack) \<Rightarrow>
       (ack \<and> dedupe_has (seen c') msgID \<and>
         (inbox c' = inbox c \<and> dedupe_has (seen c) msgID \<or>
          (\<exists>msg. inbox c' = inbox c @ [msg] \<and> length msg \<le> MaxMessageSize \<and> \<not> dedupe_has (seen c) msgID))) \<or>
       (\<not> ack \<and> inbox c' = inbox c \<and> seen c' = seen c)"
proof -
  have "inbox (fst (reassemble now msgID fragIndex fragCount body c)) = inbox c \<and>
        seen (fst (reassemble now msgID fragIndex fragCount body c)) = seen c"
    by (simp add: reassemble_def Let_def split: option.splits prod.splits)
  then show ?thesis
    by (auto simp: handleData_def Let_def split: option.splits prod.splits)
qed

text \<open>
  Duplicate suppression: once a message with a nonzero id has been recorded, it is recognised for at
  least the next 1023 messages delivered on the connection, so no retransmission in that window is
  delivered twice.
\<close>

theorem dedupe_remembers:
  assumes "dedupe_inv 1024 d" "i \<noteq> 0" "\<not> dedupe_has d i" "list_all (\<lambda>j. j \<noteq> 0) js" "length js < 1024"
  shows "dedupe_has (foldl dedupe_add (dedupe_add d i) js) i"
  using assms(1,2,4,5,3) by (rule dd.remembered)

theorem dedupe_remembers_witness:
  "dedupe_has (foldl dedupe_add (dedupe_add (newDedupe 1024) 5) [6, 7, 5, 8]) 5"
  using dedupe_remembers [of "newDedupe 1024" 5 "[6, 7, 5, 8]"] newDedupe_inv [of 1024]
  by (simp add: dedupe_has_def newDedupe_def del: foldl.simps foldl_Cons)

section \<open>Resource bounds\<close>

text \<open>What the reader goroutine and the receiver do to a connection.\<close>

datatype conn_event =
    EvData instant "64 word" byte byte bytes
  | EvSignal "64 word"
  | EvRecv bool bool

fun conn_step :: "muxConn \<Rightarrow> conn_event \<Rightarrow> muxConn" where
  "conn_step c (EvData now i k n body) = fst (handleData now i k n body c)"
| "conn_step c (EvSignal i) = handleSignal i c"
| "conn_step c (EvRecv ctxDone pick) = (case Recv ctxDone pick c of None \<Rightarrow> c | Some (c', _) \<Rightarrow> c')"

definition bounded :: "muxConn \<Rightarrow> bool" where
  "bounded c \<longleftrightarrow>
     length (inbox c) \<le> inboxSize \<and> length (reasm c) \<le> maxReassemblies \<and>
     length (order (seen c)) = dedupeWindow \<and> next_slot (seen c) < dedupeWindow \<and> ids (seen c) \<subseteq> insert 0 (set (order (seen c)))"

lemma oldest_entry_Some: "\<exists>p. oldest_entry xs (Some a) = Some p \<and> (p = a \<or> fst p \<in> fst ` set xs)"
proof (induction xs arbitrary: a)
  case Nil
  then show ?case by simp
next
  case (Cons x xs)
  obtain i r where x: "x = (i, r)" by (cases x)
  obtain j t where a: "a = (j, t)" by (cases a)
  show ?case using Cons.IH [of "(i, created r)"] Cons.IH [of a] by (auto simp: x a)
qed

lemma oldest_entry_key: "xs \<noteq> [] \<Longrightarrow> \<exists>i t. oldest_entry xs None = Some (i, t) \<and> i \<in> fst ` set xs"
proof (cases xs)
  case (Cons x ys)
  obtain i r where x: "x = (i, r)" by (cases x)
  show ?thesis using oldest_entry_Some [of ys "(i, created r)"] by (auto simp: Cons x)
qed simp

lemma length_AList_delete: "k \<in> fst ` set xs \<Longrightarrow> length (AList.delete k xs) < length xs"
proof (induction xs)
  case (Cons x xs)
  have "length (AList.delete k xs) \<le> length xs" by (simp add: AList.delete_eq)
  with Cons show ?case by (cases "fst x = k") auto
qed simp

lemma length_AList_update: "length (AList.update k v xs) \<le> Suc (length xs)"
  by (induction xs) auto

lemma length_AList_update_mem: "map_of xs k = Some w \<Longrightarrow> length (AList.update k v xs) = length xs"
  by (induction xs) (auto split: if_splits)

text \<open>The collector makes room for one more entry.\<close>

lemma gcReassemblies_room:
  assumes "length (reasm c) \<le> 64"
  shows "length (reasm (gcReassemblies now c)) < 64"
proof -
  define live where "live = filter (\<lambda>(i, r). \<not> time_sub now (created r) > 30 * Second) (reasm c)"
  have l: "length live \<le> 64" using assms by (auto simp: live_def intro: order.trans [OF length_filter_le])
  show ?thesis
  proof (cases "length live < 64")
    case True
    then show ?thesis by (simp add: gcReassemblies_def Let_def live_def)
  next
    case False
    then have "live \<noteq> []" by auto
    then obtain i t where "oldest_entry live None = Some (i, t)" "i \<in> fst ` set live"
      using oldest_entry_key by blast
    then show ?thesis using False l length_AList_delete [of i live]
      by (simp add: gcReassemblies_def Let_def live_def)
  qed
qed

lemma reassemble_room:
  assumes "length (reasm c) \<le> 64"
  shows "length (reasm (fst (reassemble now i k n body c))) \<le> 64"
proof -
  have del: "length xs \<le> 64 \<Longrightarrow> length (AList.delete i xs) \<le> 64" for xs :: "(64 word \<times> reassembly) list"
    by (auto simp: AList.delete_eq intro: order.trans [OF length_filter_le])
  show ?thesis
  proof (cases "map_of (reasm c) i")
    case None
    let ?xs = "AList.update i (fresh_reasm (unat n) now) (reasm (gcReassemblies now c))"
    have x: "length ?xs \<le> 64"
      using gcReassemblies_room [OF assms, of now] length_AList_update [of i "fresh_reasm (unat n) now" "reasm (gcReassemblies now c)"]
      by simp
    have "map_of ?xs i = Some (fresh_reasm (unat n) now)" by (simp add: update_conv)
    then have "length (AList.update i r ?xs) \<le> 64" for r using x length_AList_update_mem by metis
    then show ?thesis using None x del by (simp add: reassemble_def Let_def fresh_reasm_def [symmetric])
  next
    case (Some r0)
    then show ?thesis
      using assms del length_AList_update_mem [OF Some] by (simp add: reassemble_def Let_def)
  qed
qed

lemma dedupe_add_bounded:
  assumes "next_slot d < length (order d)" "ids d \<subseteq> insert 0 (set (order d))"
  shows "ids (dedupe_add d i) \<subseteq> insert 0 (set (order (dedupe_add d i)))"
proof (cases "dedupe_has d i")
  case True
  then show ?thesis using assms by (simp add: dedupe_add_def)
next
  case False
  let ?o = "(order d)[next_slot d := i]"
  have new: "i \<in> set ?o" using assms(1) by (rule set_update_memI)
  have kept: "j \<in> set ?o" if j: "j \<in> set (order d)" "j \<noteq> order d ! next_slot d" for j
  proof -
    obtain m where m: "m < length (order d)" "order d ! m = j"
      using j(1) unfolding in_set_conv_nth by blast
    then have "next_slot d \<noteq> m" using j(2) by blast
    then have "?o ! m = j" using m(2) by (simp add: nth_list_update_neq)
    moreover have "?o ! m \<in> set ?o" using m(1) by (intro nth_mem) simp
    ultimately show ?thesis by simp
  qed
  have "j \<in> insert 0 (set ?o)" if j: "j \<in> ids (dedupe_add d i)" for j
  proof (cases "j = i")
    case True
    then show ?thesis using new by simp
  next
    case neq: False
    then have "j \<in> ids d" "j = order d ! next_slot d \<Longrightarrow> j = 0"
      using j False by (auto simp: dedupe_add_def Let_def split: if_splits)
    then show ?thesis using kept [of j] assms(2) by blast
  qed
  moreover have "order (dedupe_add d i) = ?o" using False by (simp add: dedupe_add_def Let_def)
  ultimately show ?thesis by (metis subsetI)
qed

lemma dedupe_add_sizes:
  "next_slot d < length (order d) \<Longrightarrow>
     length (order (dedupe_add d i)) = length (order d) \<and> next_slot (dedupe_add d i) < length (order d)"
  by (auto simp: dedupe_add_def Let_def intro: mod_less_divisor)

lemma handleData_bounded:
  assumes "bounded c"
  shows "bounded (fst (handleData now i k n body c))"
proof -
  obtain c' res where r: "reassemble now i k n body c = (c', res)" by (cases "reassemble now i k n body c")
  have room: "length (reasm c') \<le> 64" using reassemble_room [of c now i k n body] assms r by (simp add: bounded_def)
  have frame: "inbox c' = inbox c" "seen c' = seen c"
    using r by (auto simp: reassemble_def Let_def split: option.splits if_splits)
  have del: "length (AList.delete i (reasm c')) \<le> 64"
    using room by (auto simp: AList.delete_eq intro: order.trans [OF length_filter_le])
  have "ids (dedupe_add (seen c) i) \<subseteq> insert 0 (set (order (dedupe_add (seen c) i)))"
    "length (order (dedupe_add (seen c) i)) = 1024" "next_slot (dedupe_add (seen c) i) < 1024"
    using assms dedupe_add_bounded [of "seen c" i] dedupe_add_sizes [of "seen c" i] by (auto simp: bounded_def)
  then show ?thesis
    using assms room frame del by (auto simp: handleData_def r bounded_def split: option.splits)
qed

lemma new_conn_bounded: "bounded (new_conn a)"
  by (simp add: bounded_def new_conn_def newDedupe_def)

lemma conn_step_bounded:
  assumes "bounded c"
  shows "bounded (conn_step c ev)"
proof (cases ev)
  case (EvData now i k n body)
  then show ?thesis using handleData_bounded [OF assms] by simp
next
  case (EvSignal i)
  then show ?thesis using assms by (simp add: handleSignal_def bounded_def split: option.splits)
next
  case (EvRecv ctxDone pick)
  then show ?thesis using assms by (auto simp: Recv_def bounded_def split: list.splits)
qed

interpretation connrun: run_invariant conn_step bounded
  by unfold_locales (rule conn_step_bounded)

text \<open>
  C38. A hostile peer cannot exhaust memory through a connection: after any sequence of received
  fragments, signals and reads, the inbox holds at most 128 messages, at most 64 partial messages exist,
  and at most 1025 ids are remembered (1024, plus the id zero, which the ring never evicts).
\<close>

theorem connection_bounds:
  "let c = foldl conn_step (new_conn addr) evs in
   length (inbox c) \<le> 128 \<and> length (reasm c) \<le> 64 \<and> card (ids (seen c)) \<le> 1025"
proof -
  let ?c = "foldl conn_step (new_conn addr) evs"
  have b: "bounded ?c" by (rule connrun.run_inv [OF new_conn_bounded])
  then have "card (ids (seen ?c)) \<le> card (insert 0 (set (order (seen ?c))))"
    by (intro card_mono) (auto simp: bounded_def)
  also have "\<dots> \<le> Suc (card (set (order (seen ?c))))" by (rule card_insert_le_m1) simp_all
  also have "card (set (order (seen ?c))) \<le> 1024"
    using b card_length [of "order (seen ?c)"] by (simp add: bounded_def)
  finally show ?thesis using b by (simp add: bounded_def Let_def)
qed

section \<open>Eviction and retransmission\<close>

lemma oldest_entry_min:
  "oldest_entry xs acc = Some (i, t) \<Longrightarrow>
     (\<forall>(j, r) \<in> set xs. t \<le> created r) \<and> (\<forall>j u. acc = Some (j, u) \<longrightarrow> t \<le> u)"
proof (induction xs arbitrary: acc)
  case Nil
  then show ?case by simp
next
  case (Cons x xs)
  obtain j r where x: "x = (j, r)" by (cases x)
  show ?case
  proof (cases acc)
    case None
    then show ?thesis using Cons.IH [of "Some (j, created r)"] Cons.prems by (auto simp: x)
  next
    case (Some a)
    obtain k u where a: "a = (k, u)" by (cases a)
    show ?thesis
    proof (cases "created r < u")
      case True
      then show ?thesis using Cons.IH [of "Some (j, created r)"] Cons.prems by (auto simp: x Some a)
    next
      case False
      then show ?thesis using Cons.IH [of "Some (k, u)"] Cons.prems by (force simp: x Some a)
    qed
  qed
qed

text \<open>The schedule from attempt \<open>k\<close> on, for the delays as they double.\<close>

lemma write_all_Inr: "write_all ok i fs = (ws, Inr ()) \<Longrightarrow> ws = fs"
  by (induction fs arbitrary: i ws) (auto split: if_splits prod.splits)

lemma transmit_loop_run:
  assumes "transmit_loop k d frames ok wait tmo = (ws, ds, res)" "k \<le> 5"
  shows "ds = map (\<lambda>j. d * 2 ^ j) [0..<length ds] \<and> k + length ds \<le> 5 \<and>
    (res = Inr () \<longrightarrow> (\<exists>n. length ds = Suc n \<and> wait (k + n) = Signalled \<and> (\<forall>j < n. wait (k + j) = TimerFired) \<and>
       ws = concat (replicate (length ds) frames))) \<and>
    ((\<forall>j. k \<le> j \<and> j < 5 \<longrightarrow> wait j = TimerFired) \<and> k + length ds = 5 \<longrightarrow> res = Inl tmo)"
  using assms
proof (induction k d frames ok wait tmo arbitrary: ws ds res rule: transmit_loop.induct)
  case (1 k d frames ok wait tmo)
  show ?case
  proof (cases "k < 5")
    case False
    then have "ws = [] \<and> ds = [] \<and> res = Inl tmo"
      using 1(2) by (simp add: transmit_loop.simps [of k])
    then show ?thesis using 1(3) by simp
  next
    case True
    obtain vs r where w: "write_all (ok k) 0 frames = (vs, r)" by (cases "write_all (ok k) 0 frames")
    show ?thesis
    proof (cases r)
      case (Inl e)
      then show ?thesis using 1(2,3) True w by (auto simp: transmit_loop.simps [of k])
    next
      case (Inr u)
      then have vs: "vs = frames" using w write_all_Inr by auto
      show ?thesis
      proof (cases "wait k = TimerFired")
        case False
        then have "ds = [d] \<and> ws = frames \<and> (res = Inr () \<longrightarrow> wait k = Signalled)"
          using 1(2) True w Inr vs by (cases "wait k") (auto simp: transmit_loop.simps [of k])
        then show ?thesis using True False by auto
      next
        case t: True
        obtain ws' ds' where rec: "transmit_loop (Suc k) (d * 2) frames ok wait tmo = (ws', ds', res)"
          "ws = frames @ ws'" "ds = d # ds'"
          using 1(2) True w Inr vs t by (auto simp: transmit_loop.simps [of k] split: prod.splits)
        have IH: "ds' = map (\<lambda>j. d * 2 * 2 ^ j) [0..<length ds'] \<and> Suc k + length ds' \<le> 5 \<and>
          (res = Inr () \<longrightarrow> (\<exists>n. length ds' = Suc n \<and> wait (Suc k + n) = Signalled \<and>
             (\<forall>j < n. wait (Suc k + j) = TimerFired) \<and> ws' = concat (replicate (length ds') frames))) \<and>
          ((\<forall>j. Suc k \<le> j \<and> j < 5 \<longrightarrow> wait j = TimerFired) \<and> Suc k + length ds' = 5 \<longrightarrow> res = Inl tmo)"
          using 1(1) [OF True w [symmetric] Inr t rec(1)] True by simp
        have "ds = map (\<lambda>j. d * 2 ^ j) [0..<length ds]"
        proof -
          have "map (\<lambda>j. d * 2 ^ j) [0..<length ds] = d # map (\<lambda>j. d * 2 ^ Suc j) [0..<length ds']"
            by (simp add: rec(3) upt_conv_Cons map_Suc_upt [symmetric] del: upt_Suc)
          also have "\<dots> = d # ds'" using IH by (simp add: mult.assoc)
          finally show ?thesis using rec(3) by simp
        qed
        moreover have "\<exists>n. length ds = Suc n \<and> wait (k + n) = Signalled \<and> (\<forall>j < n. wait (k + j) = TimerFired) \<and>
            ws = concat (replicate (length ds) frames)" if res: "res = Inr ()"
        proof -
          obtain n where n: "length ds' = Suc n" "wait (Suc k + n) = Signalled"
            "\<forall>j < n. wait (Suc k + j) = TimerFired" "ws' = concat (replicate (length ds') frames)"
            using IH res by blast
          have "wait (k + j) = TimerFired" if "j < Suc n" for j
            using n(3) t that by (cases j) auto
          then show ?thesis using n rec by (intro exI [of _ "Suc n"]) auto
        qed
        ultimately show ?thesis using IH rec(3) by auto
      qed
    qed
  qed
qed

text \<open>
  The retransmission schedule: a send or ping waits at most five times, the waits are 250 ms, 500 ms,
  1 s, 2 s and 4 s in this order, success means that a wait was ended by the acknowledgement after every
  earlier one ran out and that all frames were written in every attempt, and when all five waits ran out
  the result is the timeout error.
\<close>

theorem transmit_schedule:
  assumes "transmit msgID frames ok wait timeoutErr during c = (c', ws, ds, res)"
  shows "ds = map (\<lambda>j. 250 * Millisecond * 2 ^ j) [0..<length ds] \<and> length ds \<le> 5 \<and>
    (res = Inr () \<longrightarrow> (\<exists>n. length ds = Suc n \<and> wait n = Signalled \<and> (\<forall>j < n. wait j = TimerFired) \<and>
       ws = concat (replicate (length ds) frames))) \<and>
    ((\<forall>j < 5. wait j = TimerFired) \<and> length ds = 5 \<longrightarrow> res = Inl timeoutErr)"
proof -
  have "transmit_loop 0 (250 * Millisecond) frames ok wait timeoutErr = (ws, ds, res)"
    using assms by (auto simp: transmit_def Let_def split: prod.splits)
  from transmit_loop_run [OF this] show ?thesis by simp
qed

theorem transmit_schedule_witness:
  "case transmit 9 [[1]] (\<lambda>_ _. True) (\<lambda>k. if k = 2 then Signalled else TimerFired) ErrSendTimeout (\<lambda>c. c)
      (new_conn \<lparr>YggKey = [1], IPPort = []\<rparr>) of
     (c', ws, ds, res) \<Rightarrow> res = Inr () \<and> ds = map (\<lambda>j. 250 * Millisecond * 2 ^ j) [0..<length ds] \<and> length ds \<le> 5"
proof -
  obtain c' ws ds res where t: "transmit 9 [[1]] (\<lambda>_ _. True) (\<lambda>k. if k = 2 then Signalled else TimerFired)
      ErrSendTimeout (\<lambda>c. c) (new_conn \<lparr>YggKey = [1], IPPort = []\<rparr>) = (c', ws, ds, res)"
    by (metis prod_cases4)
  moreover from this have "res = Inr ()"
    by (auto simp: transmit_def transmit_loop.simps Let_def)
  ultimately show ?thesis using transmit_schedule [OF t] by simp
qed

text \<open>
  An empty fragment is not recognised as received: \<^verbatim>\<open>append([]byte(nil), body...)\<close> of an empty body is
  nil, so the same empty fragment sent twice is counted twice, and a two-fragment message of which
  only fragment 0 ever arrived is delivered as complete.
\<close>

theorem empty_fragment_counted_twice:
  assumes "\<not> dedupe_has (seen c) msgID" "length (inbox c) < 128" "map_of (reasm c) msgID = None"
  shows "inbox (fst (handleData t2 msgID 0 2 [] (fst (handleData t1 msgID 0 2 [] c)))) = inbox c @ [[]]"
proof -
  have l: "length (frags (entry (unat (2 :: byte)) t1 msgID c)) = unat (2 :: byte)"
    using assms(3) by (simp add: entry_def fresh_reasm_def)
  have two: "replicate 2 None = [None, None :: bytes option]" by (simp add: numeral_2_eq_2)
  have r1: "record_frag (unat (0 :: byte)) [] (entry (unat (2 :: byte)) t1 msgID c) =
      \<lparr>frags = [None, None], have_cnt = 1, created = t1\<rparr>"
    using assms(3) by (simp add: entry_def fresh_reasm_def record_frag_def nil_copy_def two)
  obtain c1 where c1: "reassemble t1 msgID 0 2 [] c = (c1, None)"
    "map_of (reasm c1) msgID = Some \<lparr>frags = [None, None], have_cnt = 1, created = t1\<rparr>"
    "inbox c1 = inbox c" "seen c1 = seen c"
    using reassemble_consistent [OF l, of 0 "[]"] unfolding r1 by simp blast
  have l': "length (frags (entry (unat (2 :: byte)) t2 msgID c1)) = unat (2 :: byte)"
    using c1(2) by (simp add: entry_def)
  have r2: "record_frag (unat (0 :: byte)) [] (entry (unat (2 :: byte)) t2 msgID c1) =
      \<lparr>frags = [None, None], have_cnt = 2, created = t1\<rparr>"
    using c1(2) by (simp add: entry_def record_frag_def nil_copy_def)
  obtain c2 where c2: "reassemble t2 msgID 0 2 [] c1 = (c2, Some [])" "inbox c2 = inbox c"
    using reassemble_consistent [OF l', of 0 "[]"] c1(3) unfolding r2 by (simp add: frag_bytes_def) metis
  have "handleData t1 msgID 0 2 [] c = (c1, False)"
    using assms(1) c1 by (simp add: handleData_def word_less_nat_alt)
  moreover have "inbox (fst (handleData t2 msgID 0 2 [] c1)) = inbox c @ [[]]"
    using assms c1 c2 by (simp add: handleData_def)
  ultimately show ?thesis by simp
qed

theorem empty_fragment_counted_twice_witness:
  "inbox (fst (handleData 1 7 0 2 [] (fst (handleData 0 7 0 2 [] (new_conn \<lparr>YggKey = [1], IPPort = []\<rparr>))))) = [[]]"
  using empty_fragment_counted_twice [of "new_conn \<lparr>YggKey = [1], IPPort = []\<rparr>" 7 1 0]
  by (simp add: new_conn_def newDedupe_def dedupe_has_def)

end
