(* ===== verification/Gandr_Transport.thy ===== *)
theory Gandr_Transport
  imports Gandr_Mux
begin

text \<open>
  \<^verbatim>\<open>pkg/network/mux.go\<close>, the multiplexer: the table of peer connections, the frame reader with peer
  restart detection, dialling, accepting and closing. Connections are shared by pointer in the source,
  so the state holds a heap of connections and pointers are positions in it; the datagrams written are
  kept in order in \<open>sent\<close>. The conversion between packet-layer addresses and peer addresses belongs to
  the Yggdrasil library and is a parameter.
\<close>

record addrCodec =
  toPeer :: "bytes \<Rightarrow> PeerAddr option"
  toNet :: "PeerAddr \<Rightarrow> bytes"

record mux =
  mtu :: nat
  local_addr :: PeerAddr
  epoch :: byte
  accepts :: "nat list"
  peers :: "(gostring \<times> nat) list"
  heap :: "muxConn list"
  mux_closed :: bool
  sent :: "(bytes \<times> bytes) list"

text \<open>\<^verbatim>\<open>randomEpoch\<close> draws until a nonzero byte comes; \<open>draws\<close> is what the generator returns.\<close>

fun randomEpoch :: "byte list \<Rightarrow> byte option" where
  "randomEpoch [] = None"
| "randomEpoch (b # draws) = (if b \<noteq> 0 then Some b else randomEpoch draws)"

fun randomID :: "bytes list \<Rightarrow> 64 word option" where
  "randomID [] = None"
| "randomID (b # draws) = (let i = Uint64 b in if i \<noteq> 0 then Some i else randomID draws)"

definition newMux :: "nat \<Rightarrow> PeerAddr \<Rightarrow> byte \<Rightarrow> mux" where
  "newMux msize addr ep = \<lparr>mtu = msize, local_addr = addr, epoch = ep, accepts = [], peers = [],
     heap = [], mux_closed = False, sent = []\<rparr>"

definition conn_at :: "mux \<Rightarrow> nat \<Rightarrow> muxConn" where
  "conn_at m p = heap m ! p"

definition upd_conn :: "nat \<Rightarrow> (muxConn \<Rightarrow> muxConn) \<Rightarrow> mux \<Rightarrow> mux" where
  "upd_conn p f m = m\<lparr>heap := (heap m)[p := f (heap m ! p)]\<rparr>"

definition writeFrame ::
  "addrCodec \<Rightarrow> nat \<Rightarrow> byte \<Rightarrow> 64 word \<Rightarrow> byte \<Rightarrow> byte \<Rightarrow> bytes \<Rightarrow> mux \<Rightarrow> mux" where
  "writeFrame cd p frameType msgID fragIndex fragCount body m =
     m\<lparr>sent := sent m @ [(toNet cd (peer (conn_at m p)),
        frame_bytes (epoch m) frameType msgID fragIndex fragCount body)]\<rparr>"

text \<open>\<^verbatim>\<open>conn\<close>: the state, the connection and whether it is new.\<close>

definition mux_conn :: "PeerAddr \<Rightarrow> mux \<Rightarrow> net_error + (mux \<times> nat \<times> bool)" where
  "mux_conn addr m =
     (if mux_closed m then Inl ErrClosed
      else case map_of (peers m) (mapKey addr) of
        Some p \<Rightarrow> Inr (m, p, False)
      | None \<Rightarrow>
          let p = length (heap m) in
          Inr (m\<lparr>heap := heap m @ [new_conn addr], peers := AList.update (mapKey addr) p (peers m)\<rparr>, p, True))"

definition removeConn :: "nat \<Rightarrow> mux \<Rightarrow> mux" where
  "removeConn p m =
     (let key = mapKey (peer (conn_at m p)) in
      if map_of (peers m) key = Some p then m\<lparr>peers := AList.delete key (peers m)\<rparr> else m)"

definition conn_Close :: "nat \<Rightarrow> mux \<Rightarrow> mux" where
  "conn_Close p m =
     (if conn_closed (conn_at m p) then m
      else removeConn p (upd_conn p (\<lambda>c. c\<lparr>conn_closed := True\<rparr>) m))"

definition mux_Close :: "mux \<Rightarrow> mux" where
  "mux_Close m =
     (if mux_closed m then m
      else fold conn_Close (map snd (peers m)) (m\<lparr>mux_closed := True\<rparr>))"

definition Dial ::
  "addrCodec \<Rightarrow> PeerAddr \<Rightarrow> 64 word \<Rightarrow> (nat \<Rightarrow> nat \<Rightarrow> bool) \<Rightarrow> (nat \<Rightarrow> wait_result) \<Rightarrow> (muxConn \<Rightarrow> muxConn) \<Rightarrow>
     mux \<Rightarrow> mux \<times> (net_error + nat)" where
  "Dial cd addr msgID ok wait during m =
     (case mux_conn addr m of
        Inl e \<Rightarrow> (m, Inl e)
      | Inr (m, p, _) \<Rightarrow>
          (let (c, ws, ds, res) = ping (epoch m) msgID ok wait during (conn_at m p);
               m = m\<lparr>heap := (heap m)[p := c], sent := sent m @ map (\<lambda>w. (toNet cd addr, w)) ws\<rparr>
           in case res of Inl e \<Rightarrow> (m, Inl e) | Inr _ \<Rightarrow> (m, Inr p)))"

definition Accept :: "bool \<Rightarrow> bool \<Rightarrow> mux \<Rightarrow> (mux \<times> (net_error + nat)) option" where
  "Accept ctxDone pick m =
     (case accepts m of
        p # rest \<Rightarrow>
          if pick \<or> \<not> (ctxDone \<or> mux_closed m) then Some (m\<lparr>accepts := rest\<rparr>, Inr p)
          else Some (m, Inl (if mux_closed m then ErrClosed else ErrCtx))
      | [] \<Rightarrow> if mux_closed m then Some (m, Inl ErrClosed)
              else if ctxDone then Some (m, Inl ErrCtx) else None)"

section \<open>The frame reader\<close>

text \<open>The header fields of a datagram: type, id, index, count, epoch and body.\<close>

definition parse_frame :: "bytes \<Rightarrow> (byte \<times> 64 word \<times> byte \<times> byte \<times> byte \<times> bytes) option" where
  "parse_frame buf =
     (if length buf < frameHeaderSize \<or> buf ! 0 \<noteq> frameMagic then None
      else Some (buf ! 1, Uint64 (take 8 (drop 2 buf)), buf ! 10, buf ! 11, buf ! 12, drop frameHeaderSize buf))"

definition dispatch_frame ::
  "addrCodec \<Rightarrow> instant \<Rightarrow> nat \<Rightarrow> byte \<Rightarrow> 64 word \<Rightarrow> byte \<Rightarrow> byte \<Rightarrow> bytes \<Rightarrow> mux \<Rightarrow> mux" where
  "dispatch_frame cd now p frameType msgID fragIndex fragCount body m =
     (if frameType = frameData then
        (let (c, ack) = handleData now msgID fragIndex fragCount body (conn_at m p);
             m = m\<lparr>heap := (heap m)[p := c]\<rparr>
         in if ack then writeFrame cd p frameAck msgID 0 1 [] m else m)
      else if frameType = frameAck then upd_conn p (handleSignal msgID) m
      else if frameType = framePing then writeFrame cd p framePong msgID 0 1 [] m
      else if frameType = framePong then upd_conn p (handleSignal msgID) m
      else m)"

text \<open>
  The connection a frame belongs to. A known connection established under another nonzero epoch is
  closed and replaced: the peer restarted. A new connection is surfaced to \<^verbatim>\<open>Accept\<close> if the backlog has
  room. \<^const>\<open>None\<close> ends the reader (the multiplexer is closed).
\<close>

definition reset_conn :: "PeerAddr \<Rightarrow> byte \<Rightarrow> mux \<Rightarrow> nat \<Rightarrow> bool \<Rightarrow> net_error + (mux \<times> nat \<times> bool)" where
  "reset_conn addr ep m p isNew =
     (let e = remoteEpoch (conn_at m p) in
      if \<not> isNew \<and> ep \<noteq> 0 \<and> e \<noteq> 0 \<and> e \<noteq> ep then mux_conn addr (conn_Close p m) else Inr (m, p, isNew))"

definition surface_conn :: "byte \<Rightarrow> nat \<Rightarrow> bool \<Rightarrow> mux \<Rightarrow> mux" where
  "surface_conn ep p isNew m =
     (let m = (if remoteEpoch (conn_at m p) = 0 then upd_conn p (\<lambda>c. c\<lparr>remoteEpoch := ep\<rparr>) m else m)
      in if isNew \<and> length (accepts m) < acceptBacklog then m\<lparr>accepts := accepts m @ [p]\<rparr> else m)"

definition frame_conn :: "PeerAddr \<Rightarrow> byte \<Rightarrow> mux \<Rightarrow> mux \<times> nat option" where
  "frame_conn addr ep m =
     (case mux_conn addr m of
        Inl _ \<Rightarrow> (m, None)
      | Inr (m, p, isNew) \<Rightarrow>
          (case reset_conn addr ep m p isNew of
             Inl _ \<Rightarrow> (conn_Close p m, None)
           | Inr (m, p, isNew) \<Rightarrow> (surface_conn ep p isNew m, Some p)))"

text \<open>
  One iteration of \<^verbatim>\<open>readLoop\<close> on a datagram (contents and source), \<^const>\<open>None\<close> for a read error; the
  Boolean says whether the loop goes on.
\<close>

definition readLoop_step :: "addrCodec \<Rightarrow> instant \<Rightarrow> (bytes \<times> bytes) option \<Rightarrow> mux \<Rightarrow> mux \<times> bool" where
  "readLoop_step cd now dg m =
     (case dg of
        None \<Rightarrow> (if mux_closed m then m else mux_Close m, False)
      | Some (data, src) \<Rightarrow>
          (case parse_frame (take (mtu m + frameHeaderSize) data) of
             None \<Rightarrow> (m, True)
           | Some (frameType, msgID, fragIndex, fragCount, ep, body) \<Rightarrow>
          (case toPeer cd src of
             None \<Rightarrow> (m, True)
           | Some addr \<Rightarrow>
          (case frame_conn addr ep m of
             (m, None) \<Rightarrow> (m, False)
           | (m, Some p) \<Rightarrow> (dispatch_frame cd now p frameType msgID fragIndex fragCount body m, True)))))"

section \<open>The connection table\<close>

text \<open>
  Well-formedness: the table is a function on peer keys, its entries are open connections filed under
  their own key, every open connection is in the table, and the accept queue is bounded and points
  into the heap.
\<close>

definition wf_mux :: "mux \<Rightarrow> bool" where
  "wf_mux m \<longleftrightarrow>
     distinct (map fst (peers m)) \<and>
     (\<forall>k p. map_of (peers m) k = Some p \<longrightarrow>
        p < length (heap m) \<and> mapKey (peer (heap m ! p)) = k \<and> \<not> conn_closed (heap m ! p)) \<and>
     (\<forall>p < length (heap m). \<not> conn_closed (heap m ! p) \<longrightarrow>
        map_of (peers m) (mapKey (peer (heap m ! p))) = Some p) \<and>
     set (accepts m) \<subseteq> {..<length (heap m)} \<and> length (accepts m) \<le> acceptBacklog"

lemma wf_muxD:
  assumes "wf_mux m"
  shows "distinct (map fst (peers m))"
    and "map_of (peers m) k = Some p \<Longrightarrow>
      p < length (heap m) \<and> mapKey (peer (heap m ! p)) = k \<and> \<not> conn_closed (heap m ! p)"
    and "p < length (heap m) \<Longrightarrow> \<not> conn_closed (heap m ! p) \<Longrightarrow>
      map_of (peers m) (mapKey (peer (heap m ! p))) = Some p"
    and "set (accepts m) \<subseteq> {..<length (heap m)}" "length (accepts m) \<le> 64"
  using assms by (auto simp: wf_mux_def)

lemma wf_newMux: "wf_mux (newMux n a e)"
  by (simp add: wf_mux_def newMux_def)

text \<open>Updates that keep a connection's address and its closed flag.\<close>

lemma wf_heap_update:
  assumes "wf_mux m" "peer c = peer (heap m ! p)" "conn_closed c = conn_closed (heap m ! p)"
  shows "wf_mux (m\<lparr>heap := (heap m)[p := c]\<rparr>)"
proof -
  have n: "mapKey (peer ((heap m)[p := c] ! q)) = mapKey (peer (heap m ! q))"
    "conn_closed ((heap m)[p := c] ! q) = conn_closed (heap m ! q)" if "q < length (heap m)" for q
    using that assms(2,3) by (cases "q = p"; simp)+
  show ?thesis using assms(1) unfolding wf_mux_def by (simp add: n cong: conj_cong imp_cong)
qed

lemma wf_upd_conn:
  "wf_mux m \<Longrightarrow> peer (f (heap m ! p)) = peer (heap m ! p) \<Longrightarrow>
     conn_closed (f (heap m ! p)) = conn_closed (heap m ! p) \<Longrightarrow> wf_mux (upd_conn p f m)"
  by (simp add: upd_conn_def wf_heap_update)

lemma wf_sent: "wf_mux (m\<lparr>sent := x\<rparr>) = wf_mux m"
  by (simp add: wf_mux_def)

lemma wf_writeFrame: "wf_mux m \<Longrightarrow> wf_mux (writeFrame cd p t i k n b m)"
  by (simp add: writeFrame_def wf_sent)

lemma wf_mux_conn:
  assumes wf: "wf_mux m" and r: "mux_conn addr m = Inr (m', p, new)"
  shows "wf_mux m' \<and> p < length (heap m') \<and> mapKey (peer (heap m' ! p)) = mapKey addr \<and>
    \<not> conn_closed (heap m' ! p) \<and> map_of (peers m') (mapKey addr) = Some p"
proof (cases "map_of (peers m) (mapKey addr)")
  case None
  have m': "m' = m\<lparr>heap := heap m @ [new_conn addr], peers := AList.update (mapKey addr) (length (heap m)) (peers m)\<rparr>"
    and p: "p = length (heap m)"
    using r None by (auto simp: mux_conn_def Let_def split: if_splits)
  have d: "distinct (map fst (peers m'))" using wf_muxD(1) [OF wf] by (simp add: m' distinct_update)
  have l: "map_of (peers m') k = (if k = mapKey addr then Some (length (heap m)) else map_of (peers m) k)" for k
    by (simp add: m' update_conv)
  have h: "heap m' ! q = (if q = length (heap m) then new_conn addr else heap m ! q)" if "q \<le> length (heap m)" for q
    using that by (simp add: m' nth_append)
  have len: "length (heap m') = Suc (length (heap m))" by (simp add: m')
  have B: "q < length (heap m') \<and> mapKey (peer (heap m' ! q)) = k \<and> \<not> conn_closed (heap m' ! q)"
    if "map_of (peers m') k = Some q" for k q
    using that wf_muxD(2) [OF wf, of k q] by (auto simp: l len h new_conn_def split: if_splits)
  have C: "map_of (peers m') (mapKey (peer (heap m' ! q))) = Some q"
    if "q < length (heap m')" "\<not> conn_closed (heap m' ! q)" for q
    using that wf_muxD(3) [OF wf, of q] None by (auto simp: l len h new_conn_def less_Suc_eq)
  have "wf_mux m'"
    unfolding wf_mux_def using d B C wf_muxD(4,5) [OF wf] by (auto simp: m' less_Suc_eq)
  then show ?thesis using B [of "mapKey addr" p] by (simp add: l p)
next
  case (Some q)
  then have "m' = m \<and> p = q" using r by (auto simp: mux_conn_def split: if_splits)
  then show ?thesis using wf wf_muxD(2) [OF wf Some] Some by auto
qed

lemma wf_conn_Close:
  assumes wf: "wf_mux m"
  shows "wf_mux (conn_Close p m)"
proof (cases "p < length (heap m) \<and> \<not> conn_closed (heap m ! p)")
  case True
  define key where "key = mapKey (peer (heap m ! p))"
  have reg: "map_of (peers m) key = Some p" using True wf_muxD(3) [OF wf] by (simp add: key_def)
  have m': "conn_Close p m = m\<lparr>heap := (heap m)[p := (heap m ! p)\<lparr>conn_closed := True\<rparr>], peers := AList.delete key (peers m)\<rparr>"
    using True reg by (simp add: conn_Close_def conn_at_def removeConn_def upd_conn_def key_def Let_def)
  have l: "map_of (AList.delete key (peers m)) k = (if k = key then None else map_of (peers m) k)" for k
    by (simp add: delete_conv)
  have h: "peer ((heap m)[p := (heap m ! p)\<lparr>conn_closed := True\<rparr>] ! q) = peer (heap m ! q)"
    "conn_closed ((heap m)[p := (heap m ! p)\<lparr>conn_closed := True\<rparr>] ! q) = (q = p \<or> conn_closed (heap m ! q))"
    if "q < length (heap m)" for q
    using that by (cases "q = p"; simp)+
  have B: "q < length (heap m) \<and> mapKey (peer (heap m ! q)) = k \<and> q \<noteq> p \<and> \<not> conn_closed (heap m ! q)"
    if "k \<noteq> key" "map_of (peers m) k = Some q" for k q
    using that wf_muxD(2) [OF wf that(2)] by (auto simp: key_def)
  have C: "mapKey (peer (heap m ! q)) \<noteq> key \<and> map_of (peers m) (mapKey (peer (heap m ! q))) = Some q"
    if "q < length (heap m)" "q \<noteq> p" "\<not> conn_closed (heap m ! q)" for q
    using that wf_muxD(3) [OF wf that(1,3)] reg by auto
  show ?thesis
    unfolding m' wf_mux_def using wf_muxD(1,4,5) [OF wf] B C h
    by (auto simp: l distinct_delete split: if_splits)
next
  case False
  show ?thesis
  proof (cases "conn_closed (heap m ! p)")
    case True
    then show ?thesis using wf by (simp add: conn_Close_def conn_at_def)
  next
    case open_conn: False
    then have "length (heap m) \<le> p" using False by auto
    then have "map_of (peers m) k \<noteq> Some p" for k using wf_muxD(2) [OF wf, of k p] by auto
    with \<open>length (heap m) \<le> p\<close> open_conn wf show ?thesis
      by (simp add: conn_Close_def conn_at_def removeConn_def upd_conn_def Let_def list_update_beyond)
  qed
qed

interpretation closerun: run_invariant "\<lambda>m p. conn_Close p m" wf_mux
  by unfold_locales (rule wf_conn_Close)

lemma wf_mux_Close:
  assumes "wf_mux m"
  shows "wf_mux (mux_Close m)"
proof -
  have "wf_mux (m\<lparr>mux_closed := True\<rparr>)" using assms by (simp add: wf_mux_def)
  then show ?thesis using assms closerun.run_inv by (simp add: mux_Close_def foldl_conv_fold)
qed

lemma handleData_peer: "peer (fst (handleData now i k n b c)) = peer c \<and> conn_closed (fst (handleData now i k n b c)) = conn_closed c"
proof -
  have "peer (fst (reassemble now i k n b c)) = peer c" "conn_closed (fst (reassemble now i k n b c)) = conn_closed c"
    by (simp_all add: reassemble_def Let_def split: option.splits)
  then show ?thesis by (auto simp: handleData_def Let_def split: option.splits prod.splits)
qed

lemma handleSignal_peer: "peer (handleSignal i c) = peer c \<and> conn_closed (handleSignal i c) = conn_closed c"
  by (simp add: handleSignal_def split: option.splits)

lemma wf_dispatch: "wf_mux m \<Longrightarrow> wf_mux (dispatch_frame cd now p t i k n b m)"
proof -
  assume wf: "wf_mux m"
  obtain c ack where h: "handleData now i k n b (heap m ! p) = (c, ack)" by (cases "handleData now i k n b (heap m ! p)")
  then have "wf_mux (m\<lparr>heap := (heap m)[p := c]\<rparr>)"
    using handleData_peer [of now i k n b "heap m ! p"] wf by (intro wf_heap_update) auto
  then show ?thesis
    using wf h by (auto simp: dispatch_frame_def conn_at_def Let_def handleSignal_peer intro!: wf_writeFrame wf_upd_conn)
qed

lemma wf_surface:
  assumes "wf_mux m" "p < length (heap m)"
  shows "wf_mux (surface_conn ep p new m)"
proof -
  define m1 where "m1 = (if remoteEpoch (conn_at m p) = 0 then upd_conn p (\<lambda>c. c\<lparr>remoteEpoch := ep\<rparr>) m else m)"
  have "wf_mux m1" using assms(1) by (auto simp: m1_def intro!: wf_upd_conn)
  moreover have "length (heap m1) = length (heap m)" by (simp add: m1_def upd_conn_def)
  ultimately have "wf_mux (if new \<and> length (accepts m1) < 64 then m1\<lparr>accepts := accepts m1 @ [p]\<rparr> else m1)"
    using assms(2) by (auto simp: wf_mux_def)
  then show ?thesis by (simp only: surface_conn_def m1_def Let_def)
qed

lemma wf_reset:
  assumes "wf_mux m" "p < length (heap m)" "reset_conn addr ep m p new = Inr (m', q, new')"
  shows "wf_mux m' \<and> q < length (heap m')"
  using assms wf_mux_conn [OF wf_conn_Close [OF assms(1)], of addr p m' q new']
  by (auto simp: reset_conn_def Let_def split: if_splits)

lemma wf_frame_conn:
  assumes "wf_mux m"
  shows "wf_mux (fst (frame_conn addr ep m))"
proof (cases "mux_conn addr m")
  case (Inl e)
  then show ?thesis using assms by (simp add: frame_conn_def)
next
  case (Inr r)
  obtain m1 p new where r: "r = (m1, p, new)" by (metis prod_cases3)
  note m1 = wf_mux_conn [OF assms Inr [unfolded r]]
  show ?thesis
  proof (cases "reset_conn addr ep m1 p new")
    case rl: (Inl e)
    then show ?thesis using Inr r m1 wf_conn_Close by (simp add: frame_conn_def)
  next
    case rr: (Inr r2)
    obtain m2 q new2 where r2: "r2 = (m2, q, new2)" by (metis prod_cases3)
    have "wf_mux m2 \<and> q < length (heap m2)" using wf_reset [of m1 p addr ep new m2 q new2] m1 rr r2 by simp
    then show ?thesis using Inr r rr r2 wf_surface by (simp add: frame_conn_def)
  qed
qed

lemma wf_readLoop_step:
  assumes "wf_mux m"
  shows "wf_mux (fst (readLoop_step cd now dg m))"
proof -
  have d: "wf_mux (fst (case frame_conn addr ep m of (m, None) \<Rightarrow> (m, False)
      | (m, Some p) \<Rightarrow> (dispatch_frame cd now p t i k n b m, True)))" for addr ep t i k n b
    using wf_frame_conn [OF assms, of addr ep] wf_dispatch
    by (cases "frame_conn addr ep m"; cases "snd (frame_conn addr ep m)") auto
  show ?thesis
    using assms d wf_mux_Close [OF assms]
    by (simp add: readLoop_step_def split_beta split: option.split)
qed

section \<open>Reachable states\<close>

text \<open>
  What can happen to a multiplexer: a datagram or read error, a local dial, a close of a connection or
  of the whole, an accept, a receive, and the bookkeeping of a send (the pending entry set and removed).
\<close>

inductive mux_step :: "addrCodec \<Rightarrow> mux \<Rightarrow> mux \<Rightarrow> bool" for cd where
  read: "mux_step cd m (fst (readLoop_step cd now dg m))"
| dial: "mux_conn addr m = Inr (m', p, new) \<Longrightarrow> mux_step cd m m'"
| close_conn: "mux_step cd m (conn_Close p m)"
| close_all: "mux_step cd m (mux_Close m)"
| accept: "Accept ctxDone pick m = Some (m', r) \<Longrightarrow> mux_step cd m m'"
| recv: "Recv ctxDone pick (heap m ! p) = Some (c, r) \<Longrightarrow> mux_step cd m (m\<lparr>heap := (heap m)[p := c]\<rparr>)"
| register: "mux_step cd m (upd_conn p (\<lambda>c. c\<lparr>pending := AList.update i False (pending c)\<rparr>) m)"
| unregister: "mux_step cd m (upd_conn p (\<lambda>c. c\<lparr>pending := AList.delete i (pending c)\<rparr>) m)"
| emit: "mux_step cd m (writeFrame cd p t i k n b m)"

inductive mux_reachable :: "addrCodec \<Rightarrow> mux \<Rightarrow> bool" for cd where
  start: "mux_reachable cd (newMux n a e)"
| step: "mux_reachable cd m \<Longrightarrow> mux_step cd m m' \<Longrightarrow> mux_reachable cd m'"

lemma wf_accept: "wf_mux m \<Longrightarrow> Accept ctxDone pick m = Some (m', r) \<Longrightarrow> wf_mux m'"
  by (auto simp: Accept_def wf_mux_def split: list.splits if_splits)

lemma wf_recv: "wf_mux m \<Longrightarrow> Recv ctxDone pick (heap m ! p) = Some (c, r) \<Longrightarrow> wf_mux (m\<lparr>heap := (heap m)[p := c]\<rparr>)"
  by (rule wf_heap_update) (auto simp: Recv_def split: list.splits if_splits)

lemma mux_step_wf: "mux_step cd m m' \<Longrightarrow> wf_mux m \<Longrightarrow> wf_mux m'"
proof (induction rule: mux_step.induct)
  case (dial addr m m' p new)
  then show ?case using wf_mux_conn by blast
qed (auto intro: wf_readLoop_step wf_conn_Close wf_mux_Close wf_accept wf_recv wf_writeFrame intro!: wf_upd_conn)

lemma mux_reachable_wf: "mux_reachable cd m \<Longrightarrow> wf_mux m"
  by (induction rule: mux_reachable.induct) (auto simp: wf_newMux mux_step_wf)

text \<open>
  C36. One live connection per peer: in every reachable state of the multiplexer, whatever datagrams, dials,
  closes and restarts led there, two open connections to the same peer are the same connection, it is
  the one the table routes that peer's frames to, and the accept queue never exceeds its backlog.
\<close>

theorem one_connection_per_peer:
  assumes "mux_reachable cd m" and "p < length (heap m)" "\<not> conn_closed (heap m ! p)"
  shows "map_of (peers m) (mapKey (peer (heap m ! p))) = Some p \<and> length (accepts m) \<le> 64 \<and>
    (\<forall>q < length (heap m). \<not> conn_closed (heap m ! q) \<longrightarrow>
       mapKey (peer (heap m ! q)) = mapKey (peer (heap m ! p)) \<longrightarrow> q = p)"
proof -
  note wf = mux_reachable_wf [OF assms(1)]
  show ?thesis using wf_muxD(3) [OF wf] wf_muxD(5) [OF wf] assms(2,3) by (metis option.inject)
qed

theorem one_connection_per_peer_witness:
  "\<exists>m. mux_reachable \<lparr>toPeer = (\<lambda>_. None), toNet = YggKey\<rparr> m \<and> length (heap m) = 1 \<and>
     map_of (peers m) [5] = Some 0"
proof -
  define cd where "cd = \<lparr>toPeer = (\<lambda>_. None), toNet = YggKey\<rparr>"
  define a where "a = \<lparr>YggKey = [5], IPPort = []\<rparr>"
  define m where "m = (newMux 100 a 1)\<lparr>heap := [new_conn a], peers := [([5], 0)]\<rparr>"
  have "mux_conn a (newMux 100 a 1) = Inr (m, 0, True)"
    by (simp add: mux_conn_def newMux_def mapKey_def m_def a_def)
  then have r: "mux_reachable cd m" by (meson mux_reachable.intros mux_step.dial)
  have "0 < length (heap m)" "\<not> conn_closed (heap m ! 0)" by (simp_all add: new_conn_def m_def)
  from one_connection_per_peer [OF r this] r show ?thesis
    unfolding cd_def by (intro exI [of _ m]) (simp add: new_conn_def mapKey_def m_def a_def)
qed

section \<open>Frames\<close>

definition enc_frame :: "byte \<times> 64 word \<times> byte \<times> byte \<times> byte \<times> bytes \<Rightarrow> bytes" where
  "enc_frame fr = (case fr of (t, i, k, n, ep, b) \<Rightarrow> frame_bytes ep t i k n b)"

lemma frame_header_split:
  assumes "13 \<le> length (buf :: bytes)"
  shows "buf = [buf ! 0, buf ! 1] @ take 8 (drop 2 buf) @ [buf ! 10, buf ! 11, buf ! 12] @ drop 13 buf"
proof -
  have d: "k < length buf \<Longrightarrow> drop k buf = buf ! k # drop (Suc k) buf" for k
    by (simp add: Cons_nth_drop_Suc)
  have "buf = buf ! 0 # buf ! 1 # drop 2 buf"
    using assms by (cases buf; cases "tl buf") (auto simp: numeral_2_eq_2)
  moreover have "drop 2 buf = take 8 (drop 2 buf) @ drop 10 buf"
    using append_take_drop_id [of 8 "drop 2 buf"] by simp
  moreover have "drop 10 buf = buf ! 10 # buf ! 11 # buf ! 12 # drop 13 buf"
    using d [of 10] d [of 11] d [of 12] assms by simp
  ultimately show ?thesis by simp
qed

lemma parse_frame_bytes: "parse_frame (frame_bytes ep t i k n b) = Some (t, i, k, n, ep, b)"
  by (simp add: parse_frame_def frame_bytes_def nth_append)

interpretation frm: canonical_codec enc_frame parse_frame "\<lambda>_. True"
proof unfold_locales
  fix b :: bytes and a
  assume p: "parse_frame b = Some a"
  then have "13 \<le> length b" "b ! 0 = 0x47" by (auto simp: parse_frame_def split: if_splits)
  then show "True \<and> enc_frame a = b"
    using p frame_header_split [of b] PutUint64_Uint64 [of "take 8 (drop 2 b)"]
    by (auto simp: parse_frame_def enc_frame_def frame_bytes_def split: if_splits)
qed (auto simp: enc_frame_def parse_frame_bytes split: prod.splits)

text \<open>
  The frame header is read as it was written: the reader's parse of what \<^verbatim>\<open>writeFrame\<close> put on the wire
  gives back every field, and a datagram parses only if it is exactly such a frame.
\<close>

theorem frame_codec:
  "parse_frame buf = Some (t, i, k, n, ep, b) \<longleftrightarrow> buf = frame_bytes ep t i k n b"
  using frm.dec_iff [of buf "(t, i, k, n, ep, b)"] by (simp add: enc_frame_def)

section \<open>Peer restarts\<close>

text \<open>
  Peer restart: when a frame arrives under a nonzero epoch that differs from the one a peer's open
  connection was established with, that connection is closed with its inbox untouched, the table routes
  the peer to a fresh connection bound to the new epoch, and the fresh connection is surfaced to
  \<^verbatim>\<open>Accept\<close> whenever the backlog has room.
\<close>

theorem restart_replaces_connection:
  assumes wf: "wf_mux m" and op: "\<not> mux_closed m"
    and known: "map_of (peers m) (mapKey addr) = Some p"
    and ep: "ep \<noteq> 0" "remoteEpoch (heap m ! p) \<noteq> 0" "remoteEpoch (heap m ! p) \<noteq> ep"
  shows "\<exists>m'. frame_conn addr ep m = (m', Some (length (heap m))) \<and>
    conn_closed (heap m' ! p) \<and> inbox (heap m' ! p) = inbox (heap m ! p) \<and>
    map_of (peers m') (mapKey addr) = Some (length (heap m)) \<and>
    heap m' ! length (heap m) = (new_conn addr)\<lparr>remoteEpoch := ep\<rparr> \<and>
    accepts m' = accepts m @ (if length (accepts m) < 64 then [length (heap m)] else [])"
proof -
  note k = wf_muxD(2) [OF wf known]
  define m1 where "m1 = conn_Close p m"
  have m1: "m1 = m\<lparr>heap := (heap m)[p := (heap m ! p)\<lparr>conn_closed := True\<rparr>], peers := AList.delete (mapKey addr) (peers m)\<rparr>"
    using k known by (simp add: m1_def conn_Close_def conn_at_def removeConn_def upd_conn_def Let_def)
  define q where "q = length (heap m)"
  define m2 where "m2 = m1\<lparr>heap := heap m1 @ [new_conn addr], peers := AList.update (mapKey addr) q (peers m1)\<rparr>"
  have c2: "mux_conn addr m1 = Inr (m2, q, True)"
    using op by (simp add: mux_conn_def m2_def m1 q_def delete_conv Let_def)
  have c1: "mux_conn addr m = Inr (m, p, False)" using op known by (simp add: mux_conn_def)
  have "reset_conn addr ep m p False = Inr (m2, q, True)"
    using ep c2 by (simp add: reset_conn_def conn_at_def m1_def)
  then have f: "frame_conn addr ep m = (surface_conn ep q True m2, Some q)"
    by (simp add: frame_conn_def c1)
  have h: "heap m2 ! q = new_conn addr" "length (heap m2) = Suc q" "p < q"
    "heap m2 ! p = (heap m ! p)\<lparr>conn_closed := True\<rparr>"
    using k by (auto simp: m2_def m1 q_def nth_append)
  have "remoteEpoch (new_conn addr) = 0" by (simp add: new_conn_def)
  then have s: "surface_conn ep q True m2 =
      (let m3 = m2\<lparr>heap := (heap m2)[q := (new_conn addr)\<lparr>remoteEpoch := ep\<rparr>]\<rparr> in
       if length (accepts m2) < 64 then m3\<lparr>accepts := accepts m2 @ [q]\<rparr> else m3)"
    by (simp add: surface_conn_def conn_at_def upd_conn_def h Let_def)
  have acc: "accepts m2 = accepts m" "map_of (peers m2) (mapKey addr) = Some q"
    by (simp_all add: m2_def m1 update_conv)
  show ?thesis
    unfolding f s q_def [symmetric] Let_def using h acc by (auto simp: nth_list_update)
qed

theorem restart_replaces_connection_witness:
  "\<exists>m m'. wf_mux m \<and> frame_conn \<lparr>YggKey = [5], IPPort = []\<rparr> 9 m = (m', Some 1) \<and> conn_closed (heap m' ! 0)"
proof -
  define a where "a = \<lparr>YggKey = [5], IPPort = []\<rparr>"
  define m where "m = (newMux 100 a 1)\<lparr>heap := [(new_conn a)\<lparr>remoteEpoch := 7\<rparr>], peers := [([5], 0)]\<rparr>"
  have wf: "wf_mux m" by (auto simp: wf_mux_def m_def newMux_def new_conn_def mapKey_def a_def)
  have "\<not> mux_closed m" "map_of (peers m) (mapKey a) = Some 0" "(9 :: byte) \<noteq> 0"
    "remoteEpoch (heap m ! 0) \<noteq> 0" "remoteEpoch (heap m ! 0) \<noteq> 9"
    by (simp_all add: m_def newMux_def mapKey_def a_def)
  from restart_replaces_connection [OF wf this] wf show ?thesis
    unfolding a_def by (auto simp: m_def)
qed

section \<open>Shutdown\<close>

lemma conn_Close_closed:
  "q < length (heap m) \<Longrightarrow>
     length (heap (conn_Close p m)) = length (heap m) \<and> mux_closed (conn_Close p m) = mux_closed m \<and>
     (conn_closed (heap (conn_Close p m) ! q) \<longleftrightarrow> conn_closed (heap m ! q) \<or> q = p)"
  by (cases "q = p") (auto simp: conn_Close_def conn_at_def removeConn_def upd_conn_def Let_def)

lemma close_all_closed:
  "q < length (heap m) \<Longrightarrow>
     length (heap (fold conn_Close ps m)) = length (heap m) \<and> mux_closed (fold conn_Close ps m) = mux_closed m \<and>
     (conn_closed (heap (fold conn_Close ps m) ! q) \<longleftrightarrow> conn_closed (heap m ! q) \<or> q \<in> set ps)"
proof (induction ps arbitrary: m)
  case (Cons p ps)
  then show ?case using conn_Close_closed [OF Cons.prems, of p] by auto
qed simp

text \<open>
  Closing the multiplexer closes everything: afterwards every connection it ever handed out is closed,
  the table is empty, and no new connection can be made.
\<close>

theorem mux_Close_closes_all:
  assumes "wf_mux m" "\<not> mux_closed m" "heap m \<noteq> []"
  shows "peers (mux_Close m) = [] \<and> (\<forall>p < length (heap m). conn_closed (heap (mux_Close m) ! p)) \<and>
    mux_conn addr (mux_Close m) = Inl ErrClosed"
proof -
  let ?m0 = "m\<lparr>mux_closed := True\<rparr>"
  have m': "mux_Close m = fold conn_Close (map snd (peers m)) ?m0" using assms(2) by (simp add: mux_Close_def)
  note cl = close_all_closed [where m = ?m0 and ps = "map snd (peers m)", folded m']
  have all: "conn_closed (heap (mux_Close m) ! p)" if "p < length (heap m)" for p
  proof (cases "conn_closed (heap m ! p)")
    case False
    then have "map_of (peers m) (mapKey (peer (heap m ! p))) = Some p"
      using wf_muxD(3) [OF assms(1) that] by simp
    then have "p \<in> snd ` set (peers m)" by (metis map_of_SomeD image_eqI snd_conv)
    then show ?thesis using cl [of p] that by simp
  qed (use cl that in simp)
  have len: "length (heap (mux_Close m)) = length (heap m)" "mux_closed (mux_Close m)"
    using cl [of 0] assms(3) by auto
  have "map_of (peers (mux_Close m)) k = None" for k
    using wf_muxD(2) [OF wf_mux_Close [OF assms(1)], of k] all len by (cases "map_of (peers (mux_Close m)) k") auto
  then have "peers (mux_Close m) = []" by (metis list.exhaust map_of_Cons_code(2) option.discI surj_pair)
  then show ?thesis using all len by (simp add: mux_conn_def)
qed

theorem mux_Close_closes_all_witness:
  "conn_closed (heap (mux_Close ((newMux 100 \<lparr>YggKey = [5], IPPort = []\<rparr> 1)\<lparr>
      heap := [new_conn \<lparr>YggKey = [5], IPPort = []\<rparr>], peers := [([5], 0)]\<rparr>)) ! 0)"
proof -
  define a where "a = \<lparr>YggKey = [5], IPPort = []\<rparr>"
  define m where "m = (newMux 100 a 1)\<lparr>heap := [new_conn a], peers := [([5], 0)]\<rparr>"
  have "wf_mux m" "\<not> mux_closed m" "heap m \<noteq> []"
    by (auto simp: wf_mux_def m_def newMux_def new_conn_def mapKey_def a_def)
  from mux_Close_closes_all [OF this] have "conn_closed (heap (mux_Close m) ! 0)" by (simp add: m_def)
  then show ?thesis by (simp add: m_def a_def)
qed

end
