(* ===== verification/Gandr_Payloads.thy ===== *)
theory Gandr_Payloads
  imports Gandr_Proto
begin

text \<open>
  \<^verbatim>\<open>pkg/proto/payloads.go\<close>: the payload schemas, their validation and the payload codec. The
  \<^verbatim>\<open>Payload\<close> interface with its implementations is one datatype with a constructor per schema, its
  arguments in the order of the struct's fields. MessagePack is a third-party package: \<open>Marshal\<close> and
  \<open>Unmarshal\<close> are fields of the parameter record \<open>msgpack\<close>, and \<open>Unmarshal\<close> may return an error or
  panic as the source's comment says.
\<close>

record ProfileTheme =
  BgColor :: gostring
  FgColor :: gostring
  AccentColor :: gostring
  Font :: gostring
  Layout :: gostring

record ProfileLink =
  Label :: gostring
  URL :: gostring

record ProfileBody =
  DisplayName :: gostring
  Bio :: gostring
  Theme :: ProfileTheme
  Links :: "ProfileLink list"
  PinnedHashes :: "gostring list"
  Status :: gostring
  Mood :: gostring
  NowPlaying :: gostring
  UpdatedAt :: "64 word"

text \<open>
  Fields: chat (channel, content, reply-to); post (content, reply-to, tags); thread (title, content,
  category, tags); reply (parent, content); hello (capabilities, nonce, user agent); hello-ack
  (capabilities, nonce, echo, session key, user agent); complete (echo, session key); policy (maximum
  age in seconds, maximum payload, rate, trust); profile; guestbook (target key, message); peer intro
  (key, address, voucher signature, timestamp); ack (target hash); status (status, mood, now playing);
  sealed (ephemeral key, nonce, deniable, ciphertext); sealed ack (message hash); delete (target hash,
  reason).
\<close>

datatype Payload =
    ChatPayload bytes gostring gostring
  | PostPayload gostring gostring "gostring list"
  | ThreadPayload gostring gostring gostring "gostring list"
  | ReplyPayload gostring gostring
  | HelloPayload "32 word" bytes gostring
  | HelloAckPayload "32 word" bytes bytes bytes gostring
  | HelloCompletePayload bytes bytes
  | PeerPolicyPayload "32 word" "32 word" "16 word" byte
  | ProfilePayload ProfileBody
  | GuestbookPayload bytes gostring
  | PeerIntroPayload bytes bytes bytes "64 word"
  | AckPayload gostring
  | StatusPayload gostring gostring gostring
  | SealedPayload bytes bytes bool bytes
  | SealedAckPayload bytes
  | DeletePayload gostring gostring

datatype payload_error =
    ErrNotUTF8 string
  | ErrTooManyChars string nat
  | ErrHashRequired string
  | ErrHashLength string
  | ErrHashHex string
  | ErrTooManyTags
  | ErrUnknownTrust byte
  | ErrBadColor string
  | ErrUnknownFont gostring
  | ErrUnknownLayout gostring
  | ErrTooManyLinks
  | ErrTooManyPinned
  | ErrSealedShort
  | ErrSealedUnaligned
  | ErrMarshal
  | ErrUnmarshal
  | ErrDecodePanic
  | ErrPayloadSize
  | ErrUnknownPayloadType

section \<open>Field validation\<close>

definition validateString :: "string \<Rightarrow> gostring \<Rightarrow> nat \<Rightarrow> payload_error + unit" where
  "validateString field s maxRunes =
     (if \<not> ValidString s then Inl (ErrNotUTF8 field)
      else if RuneCountInString s > maxRunes then Inl (ErrTooManyChars field maxRunes)
      else Inr ())"

definition validateHash :: "string \<Rightarrow> gostring \<Rightarrow> bool \<Rightarrow> payload_error + unit" where
  "validateHash field s optional =
     (if s = [] then (if optional then Inr () else Inl (ErrHashRequired field))
      else if length s \<noteq> 64 then Inl (ErrHashLength field)
      else case DecodeString s of None \<Rightarrow> Inl (ErrHashHex field) | Some _ \<Rightarrow> Inr ())"

abbreviation (input) maxTags :: nat where "maxTags \<equiv> 16"

definition validateTags :: "gostring list \<Rightarrow> payload_error + unit" where
  "validateTags tags =
     (if length tags > maxTags then Inl ErrTooManyTags
      else for_each (\<lambda>t. validateString ''tag'' t 50) tags)"

text \<open>The slice \<^verbatim>\<open>s[1:]\<close> follows the length check, so \<^verbatim>\<open>s[0]\<close> is in range.\<close>

definition validateHexColor :: "string \<Rightarrow> gostring \<Rightarrow> payload_error + unit" where
  "validateHexColor field s =
     (if s = [] then Inr ()
      else if length s \<noteq> 7 \<or> s ! 0 \<noteq> 35 then Inl (ErrBadColor field)
      else case DecodeString (drop 1 s) of None \<Rightarrow> Inl (ErrBadColor field) | Some _ \<Rightarrow> Inr ())"

definition validateTheme :: "ProfileTheme \<Rightarrow> payload_error + unit" where
  "validateTheme t =
     and_then (validateHexColor ''theme bg'' (BgColor t))
    (and_then (validateHexColor ''theme fg'' (FgColor t))
    (and_then (validateHexColor ''theme accent'' (AccentColor t))
      (if Font t \<notin> {[], str ''mono'', str ''sans'', str ''serif'', str ''pixel''}
       then Inl (ErrUnknownFont (Font t))
       else if Layout t \<notin> {[], str ''centered'', str ''left'', str ''terminal''}
       then Inl (ErrUnknownLayout (Layout t))
       else Inr ())))"

abbreviation (input) maxProfileLinks :: nat where "maxProfileLinks \<equiv> 10"
abbreviation (input) maxPinnedHashes :: nat where "maxPinnedHashes \<equiv> 10"

definition validateLink :: "ProfileLink \<Rightarrow> payload_error + unit" where
  "validateLink l =
     and_then (validateString ''link label'' (Label l) 50) (validateString ''link url'' (URL l) 200)"

definition validateProfile :: "ProfileBody \<Rightarrow> payload_error + unit" where
  "validateProfile p =
     and_then (validateString ''profile display_name'' (DisplayName p) 64)
    (and_then (validateString ''profile bio'' (Bio p) 500)
    (and_then (validateTheme (Theme p))
    (if length (Links p) > maxProfileLinks then Inl ErrTooManyLinks else
     and_then (for_each validateLink (Links p))
    (if length (PinnedHashes p) > maxPinnedHashes then Inl ErrTooManyPinned else
     and_then (for_each (\<lambda>h. validateHash ''pinned hash'' h False) (PinnedHashes p))
    (and_then (validateString ''profile status'' (Status p) 100)
    (and_then (validateString ''profile mood'' (Mood p) 50)
      (validateString ''profile now_playing'' (NowPlaying p) 100)))))))"

definition validateSealed :: "bytes \<Rightarrow> payload_error + unit" where
  "validateSealed ciphertext =
     (let inner = int (length ciphertext) - int Overhead in
      if inner < int SealedBlockSize then Inl ErrSealedShort
      else if inner mod int SealedBlockSize \<noteq> 0 then Inl ErrSealedUnaligned
      else Inr ())"

fun Validate :: "Payload \<Rightarrow> payload_error + unit" where
  "Validate (ChatPayload channelID content replyTo) =
     and_then (validateString ''chat content'' content 2000) (validateHash ''chat reply_to'' replyTo True)"
| "Validate (PostPayload content replyTo tags) =
     and_then (validateString ''post content'' content 2000)
    (and_then (validateHash ''post reply_to'' replyTo True) (validateTags tags))"
| "Validate (ThreadPayload title content category tags) =
     and_then (validateString ''thread title'' title 200)
    (and_then (validateString ''thread content'' content 10000)
    (and_then (validateString ''thread category'' category 50) (validateTags tags)))"
| "Validate (ReplyPayload parentHash content) =
     and_then (validateHash ''reply parent'' parentHash False)
       (validateString ''reply content'' content 2000)"
| "Validate (HelloPayload capabilities nonce userAgent) =
     validateString ''hello user_agent'' userAgent 64"
| "Validate (HelloAckPayload capabilities nonce echoNonce sessionPubkey userAgent) =
     validateString ''hello_ack user_agent'' userAgent 64"
| "Validate (HelloCompletePayload echoNonce sessionPubkey) = Inr ()"
| "Validate (PeerPolicyPayload maxAge maxSize rpm trust) =
     (if trust > TrustVouched then Inl (ErrUnknownTrust trust) else Inr ())"
| "Validate (ProfilePayload p) = validateProfile p"
| "Validate (GuestbookPayload target message) = validateString ''guestbook message'' message 280"
| "Validate (PeerIntroPayload pubkey addr sig ts) = Inr ()"
| "Validate (AckPayload target) = validateHash ''ack target'' target False"
| "Validate (StatusPayload status mood nowPlaying) =
     and_then (validateString ''status'' status 100)
    (and_then (validateString ''mood'' mood 50) (validateString ''now_playing'' nowPlaying 100))"
| "Validate (SealedPayload ephemeral nonce deniable ciphertext) = validateSealed ciphertext"
| "Validate (SealedAckPayload h) = Inr ()"
| "Validate (DeletePayload target reason) =
     and_then (validateHash ''delete target'' target False) (validateString ''delete reason'' reason 100)"

section \<open>The payload codec\<close>

definition zero_array :: "nat \<Rightarrow> bytes" where
  "zero_array n = replicate n 0"

definition empty_theme :: ProfileTheme where
  "empty_theme = \<lparr>BgColor = [], FgColor = [], AccentColor = [], Font = [], Layout = []\<rparr>"

definition empty_profile :: ProfileBody where
  "empty_profile = \<lparr>DisplayName = [], Bio = [], Theme = empty_theme, Links = [], PinnedHashes = [],
     Status = [], Mood = [], NowPlaying = [], UpdatedAt = 0\<rparr>"

definition NewPayload :: "byte \<Rightarrow> payload_error + Payload" where
  "NewPayload msgType =
     (if msgType = MsgChat then Inr (ChatPayload (zero_array 32) [] [])
      else if msgType = MsgPost then Inr (PostPayload [] [] [])
      else if msgType = MsgThread then Inr (ThreadPayload [] [] [] [])
      else if msgType = MsgReply then Inr (ReplyPayload [] [])
      else if msgType = MsgPeerHello then Inr (HelloPayload 0 (zero_array 32) [])
      else if msgType = MsgPeerAck then
        Inr (HelloAckPayload 0 (zero_array 32) (zero_array 32) (zero_array 32) [])
      else if msgType = MsgPeerComplete then Inr (HelloCompletePayload (zero_array 32) (zero_array 32))
      else if msgType = MsgPeerPolicy then Inr (PeerPolicyPayload 0 0 0 0)
      else if msgType = MsgProfile then Inr (ProfilePayload empty_profile)
      else if msgType = MsgGuestbook then Inr (GuestbookPayload (zero_array 32) [])
      else if msgType = MsgPeerIntro then
        Inr (PeerIntroPayload (zero_array 32) (zero_array 16) (zero_array 64) 0)
      else if msgType = MsgAck then Inr (AckPayload [])
      else if msgType = MsgStatus then Inr (StatusPayload [] [] [])
      else if msgType = MsgSealed then Inr (SealedPayload (zero_array 32) (zero_array 24) False [])
      else if msgType = MsgSealedAck then Inr (SealedAckPayload (zero_array 32))
      else if msgType = MsgDelete then Inr (DeletePayload [] [])
      else Inl ErrUnknownPayloadType)"

datatype unmarshal_result = UnmarshalErr | UnmarshalPanic | UnmarshalOk Payload

record msgpack =
  Marshal :: "Payload \<Rightarrow> bytes option"
  Unmarshal :: "bytes \<Rightarrow> Payload \<Rightarrow> unmarshal_result"

definition EncodePayload :: "msgpack \<Rightarrow> Payload \<Rightarrow> payload_error + bytes" where
  "EncodePayload M p =
     (case Validate p of
        Inl e \<Rightarrow> Inl e
      | Inr _ \<Rightarrow>
          (case Marshal M p of
             None \<Rightarrow> Inl ErrMarshal
           | Some b \<Rightarrow> if length b > MaxPayloadSize then Inl ErrPayloadSize else Inr b))"

text \<open>
  \<^verbatim>\<open>DecodePayload\<close> fills the struct it is given; the deferred \<^verbatim>\<open>recover\<close> turns a panic into an error.
\<close>

definition DecodePayload :: "msgpack \<Rightarrow> bytes \<Rightarrow> Payload \<Rightarrow> payload_error + Payload" where
  "DecodePayload M data p =
     (if length data > MaxPayloadSize then Inl ErrPayloadSize
      else case Unmarshal M data p of
        UnmarshalErr \<Rightarrow> Inl ErrUnmarshal
      | UnmarshalPanic \<Rightarrow> Inl ErrDecodePanic
      | UnmarshalOk q \<Rightarrow> and_then (Validate q) (Inr q))"

section \<open>What validation admits\<close>

definition text_ok :: "gostring \<Rightarrow> nat \<Rightarrow> bool" where
  "text_ok s n \<longleftrightarrow> ValidString s \<and> RuneCountInString s \<le> n"

text \<open>A reference to content: the hexadecimal form, in either case, of thirty-two bytes.\<close>

definition hash_ref :: "gostring \<Rightarrow> bool" where
  "hash_ref s \<longleftrightarrow> (\<exists>h. DecodeString s = Some h \<and> length h = 32)"

definition color_ok :: "gostring \<Rightarrow> bool" where
  "color_ok s \<longleftrightarrow> s = [] \<or> (\<exists>h. s = 35 # h \<and> length h = 6 \<and> DecodeString h \<noteq> None)"

definition tags_ok :: "gostring list \<Rightarrow> bool" where
  "tags_ok ts \<longleftrightarrow> length ts \<le> 16 \<and> (\<forall>t \<in> set ts. text_ok t 50)"

definition theme_ok :: "ProfileTheme \<Rightarrow> bool" where
  "theme_ok t \<longleftrightarrow> color_ok (BgColor t) \<and> color_ok (FgColor t) \<and> color_ok (AccentColor t) \<and>
     Font t \<in> {[], str ''mono'', str ''sans'', str ''serif'', str ''pixel''} \<and>
     Layout t \<in> {[], str ''centered'', str ''left'', str ''terminal''}"

definition profile_ok :: "ProfileBody \<Rightarrow> bool" where
  "profile_ok p \<longleftrightarrow> text_ok (DisplayName p) 64 \<and> text_ok (Bio p) 500 \<and> theme_ok (Theme p) \<and>
     length (Links p) \<le> 10 \<and> (\<forall>l \<in> set (Links p). text_ok (Label l) 50 \<and> text_ok (URL l) 200) \<and>
     length (PinnedHashes p) \<le> 10 \<and> (\<forall>h \<in> set (PinnedHashes p). hash_ref h) \<and>
     text_ok (Status p) 100 \<and> text_ok (Mood p) 50 \<and> text_ok (NowPlaying p) 100"

text \<open>The limits of the protocol, schema by schema.\<close>

fun within_limits :: "Payload \<Rightarrow> bool" where
  "within_limits (ChatPayload ch c r) \<longleftrightarrow> text_ok c 2000 \<and> (r = [] \<or> hash_ref r)"
| "within_limits (PostPayload c r ts) \<longleftrightarrow> text_ok c 2000 \<and> (r = [] \<or> hash_ref r) \<and> tags_ok ts"
| "within_limits (ThreadPayload t c g ts) \<longleftrightarrow>
     text_ok t 200 \<and> text_ok c 10000 \<and> text_ok g 50 \<and> tags_ok ts"
| "within_limits (ReplyPayload p c) \<longleftrightarrow> hash_ref p \<and> text_ok c 2000"
| "within_limits (HelloPayload c n u) \<longleftrightarrow> text_ok u 64"
| "within_limits (HelloAckPayload c n e s u) \<longleftrightarrow> text_ok u 64"
| "within_limits (HelloCompletePayload e s) \<longleftrightarrow> True"
| "within_limits (PeerPolicyPayload a z r t) \<longleftrightarrow> t \<le> TrustVouched"
| "within_limits (ProfilePayload p) \<longleftrightarrow> profile_ok p"
| "within_limits (GuestbookPayload t m) \<longleftrightarrow> text_ok m 280"
| "within_limits (PeerIntroPayload k a s t) \<longleftrightarrow> True"
| "within_limits (AckPayload h) \<longleftrightarrow> hash_ref h"
| "within_limits (StatusPayload s m n) \<longleftrightarrow> text_ok s 100 \<and> text_ok m 50 \<and> text_ok n 100"
| "within_limits (SealedPayload e n d c) \<longleftrightarrow> (\<exists>k \<ge> 1. length c = k * 1024 + 16)"
| "within_limits (SealedAckPayload h) \<longleftrightarrow> True"
| "within_limits (DeletePayload h r) \<longleftrightarrow> hash_ref h \<and> text_ok r 100"

lemma validateString_iff [simp]: "validateString f s n = Inr () \<longleftrightarrow> text_ok s n"
  by (auto simp: validateString_def text_ok_def)

lemma hash_ref_length: "hash_ref s \<Longrightarrow> length s = 64"
  by (auto simp: hash_ref_def dest: DecodeString_length)

lemma validateHash_iff [simp]: "validateHash f s opt = Inr () \<longleftrightarrow> (opt \<and> s = []) \<or> hash_ref s"
  by (auto simp: validateHash_def hash_ref_def dest: DecodeString_length split: option.splits)

lemma validateTags_iff [simp]: "validateTags ts = Inr () \<longleftrightarrow> tags_ok ts"
  by (auto simp: validateTags_def tags_ok_def)

lemma validateHexColor_iff [simp]: "validateHexColor f s = Inr () \<longleftrightarrow> color_ok s"
  by (cases s) (auto simp: validateHexColor_def color_ok_def split: option.splits)

lemma validateTheme_iff [simp]: "validateTheme t = Inr () \<longleftrightarrow> theme_ok t"
  by (simp add: validateTheme_def theme_ok_def)

lemma validateLink_iff [simp]: "validateLink l = Inr () \<longleftrightarrow> text_ok (Label l) 50 \<and> text_ok (URL l) 200"
  by (simp add: validateLink_def)

lemma validateProfile_iff [simp]: "validateProfile p = Inr () \<longleftrightarrow> profile_ok p"
  by (auto simp: validateProfile_def profile_ok_def)

lemma validateSealed_iff [simp]: "validateSealed c = Inr () \<longleftrightarrow> (\<exists>k \<ge> 1. length c = k * 1024 + 16)"
proof
  assume "validateSealed c = Inr ()"
  then have *: "1024 \<le> int (length c) - 16" "(int (length c) - 16) mod 1024 = 0"
    by (auto simp: validateSealed_def Let_def split: if_splits)
  then obtain k where k: "int (length c) - 16 = 1024 * k" by (metis dvdE mod_0_imp_dvd)
  with * have "1 \<le> k" by linarith
  then have "1 \<le> nat k \<and> length c = nat k * 1024 + 16" using k by linarith
  then show "\<exists>k \<ge> 1. length c = k * 1024 + 16" by blast
qed (auto simp: validateSealed_def Let_def)

lemma Validate_limits: "Validate p = Inr () \<longleftrightarrow> within_limits p"
  by (cases p) auto

text \<open>
  Validation enforces exactly the protocol's limits: for each of the sixteen schemas, \<^verbatim>\<open>Validate\<close>
  returns no error if and only if every text field is valid UTF-8 within its rune limit, every content
  reference decodes to thirty-two bytes, lists are within their bounds, colours, fonts and layouts are
  the known ones, the trust level exists and sealed ciphertexts are whole blocks plus a tag.
\<close>

theorem Validate_iff: "Validate p = Inr () \<longleftrightarrow> within_limits p"
  by (rule Validate_limits)

section \<open>Schemas and the codec\<close>

fun payload_type :: "Payload \<Rightarrow> byte" where
  "payload_type (ChatPayload _ _ _) = MsgChat"
| "payload_type (PostPayload _ _ _) = MsgPost"
| "payload_type (ThreadPayload _ _ _ _) = MsgThread"
| "payload_type (ReplyPayload _ _) = MsgReply"
| "payload_type (HelloPayload _ _ _) = MsgPeerHello"
| "payload_type (HelloAckPayload _ _ _ _ _) = MsgPeerAck"
| "payload_type (HelloCompletePayload _ _) = MsgPeerComplete"
| "payload_type (PeerPolicyPayload _ _ _ _) = MsgPeerPolicy"
| "payload_type (ProfilePayload _) = MsgProfile"
| "payload_type (GuestbookPayload _ _) = MsgGuestbook"
| "payload_type (PeerIntroPayload _ _ _ _) = MsgPeerIntro"
| "payload_type (AckPayload _) = MsgAck"
| "payload_type (StatusPayload _ _ _) = MsgStatus"
| "payload_type (SealedPayload _ _ _ _) = MsgSealed"
| "payload_type (SealedAckPayload _) = MsgSealedAck"
| "payload_type (DeletePayload _ _) = MsgDelete"

text \<open>
  What the code relies on of MessagePack: a marshalled struct unmarshals, into an empty struct of its
  schema, to an equal struct, and unmarshalling fills the struct it is given without changing its
  schema.
\<close>

definition msgpack_ok :: "msgpack \<Rightarrow> bool" where
  "msgpack_ok M \<longleftrightarrow>
     (\<forall>p b q. Marshal M p = Some b \<longrightarrow> NewPayload (payload_type p) = Inr q \<longrightarrow>
        Unmarshal M b q = UnmarshalOk p) \<and>
     (\<forall>b p q. Unmarshal M b p = UnmarshalOk q \<longrightarrow> payload_type q = payload_type p)"

text \<open>A concrete instance that can carry one payload.\<close>

definition demo_msgpack :: "Payload \<Rightarrow> bytes \<Rightarrow> msgpack" where
  "demo_msgpack p0 b0 =
     \<lparr>Marshal = (\<lambda>p. if p = p0 then Some b0 else None),
      Unmarshal = (\<lambda>b p. if b = b0 \<and> payload_type p = payload_type p0 then UnmarshalOk p0 else UnmarshalErr)\<rparr>"

lemma payload_type_wire: "wire_type (payload_type p)"
  by (cases p) (simp_all add: wire_type_def LocalOnly_def)

lemma NewPayload_payload_type: "\<exists>q. NewPayload (payload_type p) = Inr q \<and> payload_type q = payload_type p"
  by (cases p) (simp_all add: NewPayload_def)

lemma NewPayload_Inr: "NewPayload t = Inr q \<Longrightarrow> payload_type q = t"
  by (auto simp: NewPayload_def split: if_splits)

lemma demo_msgpack_ok: "msgpack_ok (demo_msgpack p0 b0)"
  by (auto simp: msgpack_ok_def demo_msgpack_def NewPayload_Inr split: if_splits)

text \<open>An instance that can carry the payloads of a table.\<close>

definition demo_pack :: "(Payload \<times> bytes) list \<Rightarrow> msgpack" where
  "demo_pack tbl =
     \<lparr>Marshal = map_of tbl,
      Unmarshal = (\<lambda>b z. case map_of (map (\<lambda>(p, d). (d, p)) tbl) b of
                           Some p \<Rightarrow> if payload_type p = payload_type z then UnmarshalOk p else UnmarshalErr
                         | None \<Rightarrow> UnmarshalErr)\<rparr>"

lemma demo_pack_ok:
  assumes "distinct (map snd tbl)"
  shows "msgpack_ok (demo_pack tbl)"
proof -
  have d: "distinct (map fst (map (\<lambda>(p, d). (d, p)) tbl))" using assms by (simp add: comp_def case_prod_unfold)
  have "map_of (map (\<lambda>(p, d). (d, p)) tbl) b = Some p" if "map_of tbl p = Some b" for p b
    using map_of_SomeD [OF that] by (intro map_of_is_SomeI [OF d]) auto
  then show ?thesis
    by (auto simp: msgpack_ok_def demo_pack_def NewPayload_Inr split: option.splits if_splits)
qed

lemma byte_le_18:
  assumes "t \<le> (18 :: byte)"
  shows "t \<in> {0, 1, 2, 3, 4, 5, 6, 7, 8, 9, 10, 11, 12, 13, 14, 15, 16, 17, 18}"
proof -
  have "unat t \<le> 18" using assms by (simp add: word_le_nat_alt)
  moreover have "t = of_nat (unat t)" by simp
  moreover have "n \<le> 18 \<Longrightarrow> (of_nat n :: byte) \<in> {0, 1, 2, 3, 4, 5, 6, 7, 8, 9, 10, 11, 12, 13, 14, 15, 16, 17, 18}" for n
    by (auto simp: numeral_eq_Suc le_Suc_eq)
  ultimately show ?thesis by metis
qed

text \<open>
  The schema table and the envelope decoder agree: a message type has a payload schema exactly when
  the decoder lets it through, and the struct \<^verbatim>\<open>NewPayload\<close> returns is the schema of that type.
\<close>

theorem NewPayload_iff_wire_type:
  "(\<exists>q. NewPayload t = Inr q \<and> payload_type q = t) \<longleftrightarrow> wire_type t"
proof
  assume "wire_type t"
  then have "t \<in> {0, 1, 2, 3, 4, 5, 6, 7, 8, 9, 10, 11, 12, 13, 14, 15, 16, 17, 18}" "t \<noteq> 0" "\<not> LocalOnly t"
    using byte_le_18 by (auto simp: wire_type_def)
  then show "\<exists>q. NewPayload t = Inr q \<and> payload_type q = t"
    by (auto simp: NewPayload_def LocalOnly_def)
qed (use payload_type_wire in auto)

text \<open>
  Payload round trip: what \<^verbatim>\<open>EncodePayload\<close> emits fits an envelope and \<^verbatim>\<open>DecodePayload\<close>, given the
  empty struct of the message type, returns the same payload.
\<close>

theorem DecodePayload_EncodePayload:
  assumes "msgpack_ok M" and "EncodePayload M p = Inr b"
  shows "length b \<le> 65535 \<and>
    (\<exists>q. NewPayload (payload_type p) = Inr q \<and> DecodePayload M b q = Inr p)"
proof -
  have e: "Validate p = Inr ()" "Marshal M p = Some b" "length b \<le> 65535"
    using assms(2) by (auto simp: EncodePayload_def split: sum.splits option.splits if_splits)
  obtain q where q: "NewPayload (payload_type p) = Inr q" using NewPayload_payload_type by blast
  then have "Unmarshal M b q = UnmarshalOk p" using assms(1) e unfolding msgpack_ok_def by blast
  with e q show ?thesis by (simp add: DecodePayload_def)
qed

theorem DecodePayload_EncodePayload_witness:
  "let p = ReplyPayload (EncodeToString (replicate 32 7)) (str ''svar''); M = demo_msgpack p [1, 2] in
   EncodePayload M p = Inr [1, 2] \<and> (\<exists>q. NewPayload MsgReply = Inr q \<and> DecodePayload M [1, 2] q = Inr p)"
proof -
  let ?p = "ReplyPayload (EncodeToString (replicate 32 7)) (str ''svar'')"
  let ?M = "demo_msgpack ?p [1, 2]"
  have "text_ok (str ''svar'') 2000"
    unfolding text_ok_def by (simp add: ValidString_ascii RuneCountInString_ascii str_def)
  then have "Validate ?p = Inr ()" unfolding Validate_limits by (simp add: hash_ref_def)
  then have e: "EncodePayload ?M ?p = Inr [1, 2]"
    by (simp add: EncodePayload_def demo_msgpack_def del: Validate.simps)
  from DecodePayload_EncodePayload [OF demo_msgpack_ok e] e show ?thesis
    unfolding Let_def by simp
qed

text \<open>
  Sealed payloads and the payload limit: a box \<^verbatim>\<open>Seal\<close> returns always passes the validation a relaying
  node applies, but the limit \<^verbatim>\<open>MaxSealedContent\<close> does not keep it below \<^verbatim>\<open>MaxPayloadSize\<close>: signed content of
  64412 bytes or more, which \<^verbatim>\<open>Seal\<close> accepts up to 64512, pads to sixty-four blocks and can never be
  encoded.
\<close>

theorem sealed_payload_limit:
  assumes "sizes_ok P"
    and "\<And>e n d c b. Marshal M (SealedPayload e n d c) = Some b \<Longrightarrow> length c \<le> length b"
    and "Seal P r1 r2 spriv rpub t content False = Inr box"
  shows "Validate (SealedPayload (EphemeralPubkey box) (Nonce box) (Deniable box) (Ciphertext box)) = Inr () \<and>
    (64412 \<le> length content \<longrightarrow>
      EncodePayload M (SealedPayload (EphemeralPubkey box) (Nonce box) (Deniable box) (Ciphertext box))
        \<in> {Inl ErrMarshal, Inl ErrPayloadSize})"
proof -
  let ?n = "101 + length content"
  have len: "length (Ciphertext box) = paddedLen ?n + 16"
    using Seal_length [OF assms(1,3)] by simp
  obtain k where k: "paddedLen ?n = k * 1024" using paddedLen_block by (metis dvdE mod_0_imp_dvd mult.commute)
  moreover from this have "1 \<le> k" using paddedLen_pos [of ?n] by simp
  ultimately have v: "Validate (SealedPayload (EphemeralPubkey box) (Nonce box) (Deniable box) (Ciphertext box)) = Inr ()"
    unfolding Validate_limits using len by auto
  moreover have "65535 < length (Ciphertext box)" if "64412 \<le> length content"
  proof -
    have "64513 \<le> paddedLen ?n" using paddedLen_bounds [of ?n] that by simp
    then have "63 < k" unfolding k by linarith
    then show ?thesis unfolding len k by linarith
  qed
  moreover have "length (Ciphertext box) \<le> length b"
    if "Marshal M (SealedPayload (EphemeralPubkey box) (Nonce box) (Deniable box) (Ciphertext box)) = Some b" for b
    using assms(2) that .
  ultimately show ?thesis
    by (cases "Marshal M (SealedPayload (EphemeralPubkey box) (Nonce box) (Deniable box) (Ciphertext box))")
      (auto simp: EncodePayload_def simp del: Validate.simps dest: order.strict_trans2)
qed

theorem sealed_payload_limit_witness:
  "\<exists>content box. length content = 64412 \<and>
     Seal demo_prims [1] [2] (demo_key 3) (Public (demo_key 4)) 1 content False = Inr box \<and>
     EncodePayload (demo_msgpack (SealedPayload [] [] False []) [])
       (SealedPayload (EphemeralPubkey box) (Nonce box) (Deniable box) (Ciphertext box))
       \<in> {Inl ErrMarshal, Inl ErrPayloadSize}"
proof -
  obtain content :: bytes where c: "length content = 64412" by (metis Ex_list_of_length)
  then obtain box where box:
    "Seal demo_prims [1] [2] (demo_key 3) (Public (demo_key 4)) 1 content False = Inr box"
    using demo_Seal_total [of content "[1]" "[2]" 3 4 1 False] by (auto simp: MaxSealedContent_def)
  have "length c \<le> length b"
    if "Marshal (demo_msgpack (SealedPayload [] [] False []) []) (SealedPayload e n d c) = Some b" for e n d c b
    using that by (simp add: demo_msgpack_def split: if_splits)
  from sealed_payload_limit [OF demo_sizes_ok this box] c box show ?thesis by auto
qed

end
