(* ===== verification/Gandr_Federation.thy ===== *)
theory Gandr_Federation
  imports Gandr_Payloads Gandr_Mux
begin

text \<open>
  \<^verbatim>\<open>pkg/federation/handshake.go\<close> and \<^verbatim>\<open>session.go\<close>: the four-step signed handshake and the encrypted session
  it establishes. A role runs against a connection given as the messages it will receive, the messages
  it has sent and which sends fail. Clock readings and random bytes are arguments: \<open>clk i\<close> is the i-th
  reading in the order of the calls in the source.
\<close>

record net_conn =
  incoming :: "bytes list"
  outgoing :: "bytes list"
  send_fails :: "nat \<Rightarrow> bool"
  remote :: PeerAddr

datatype fed_error =
    ErrHandshakeProto proto_error
  | ErrHandshakePayload payload_error
  | ErrHandshakeCrypto crypto_error
  | ErrHandshakeNet
  | ErrHandshakeType byte
  | ErrHandshakeNonce
  | ErrHandshakeIdentity

definition net_Send :: "bytes \<Rightarrow> net_conn \<Rightarrow> net_conn \<times> (fed_error + unit)" where
  "net_Send b c =
     (if send_fails c (length (outgoing c)) then (c, Inl ErrHandshakeNet)
      else (c\<lparr>outgoing := outgoing c @ [b]\<rparr>, Inr ()))"

definition net_Recv :: "net_conn \<Rightarrow> net_conn \<times> (fed_error + bytes)" where
  "net_Recv c =
     (case incoming c of [] \<Rightarrow> (c, Inl ErrHandshakeNet) | m # rest \<Rightarrow> (c\<lparr>incoming := rest\<rparr>, Inr m))"

text \<open>The next statement after a call that may fail.\<close>

definition on_ok :: "'s \<times> ('e + 'a) \<Rightarrow> ('a \<Rightarrow> 's \<Rightarrow> 's \<times> ('e + 'b)) \<Rightarrow> 's \<times> ('e + 'b)" where
  "on_ok r k = (case r of (c, Inl e) \<Rightarrow> (c, Inl e) | (c, Inr a) \<Rightarrow> k a c)"

lemma on_ok_simps [simp]: "on_ok (c, Inl e) k = (c, Inl e)" "on_ok (c, Inr a) k = k a c"
  by (simp_all add: on_ok_def)

lemma on_ok_Inr: "on_ok r k = (c', Inr b) \<longleftrightarrow> (\<exists>a c. r = (c, Inr a) \<and> k a c = (c', Inr b))"
  by (auto simp: on_ok_def split: prod.splits sum.splits)

section \<open>Sessions\<close>

definition sessionKeyInfo :: gostring where "sessionKeyInfo = str ''gandr-session-v1''"
definition aadInitiatorToResponder :: bytes where "aadInitiatorToResponder = str ''gandr-i2r-v1''"
definition aadResponderToInitiator :: bytes where "aadResponderToInitiator = str ''gandr-r2i-v1''"

record Session =
  skey :: bytes
  sendAAD :: bytes
  recvAAD :: bytes
  PeerIdentity :: bytes
  SCapabilities :: "32 word"
  SUserAgent :: gostring
  SPolicy :: Payload

definition zero_policy :: Payload where "zero_policy = PeerPolicyPayload 0 0 0 0"

definition deriveSession :: "prims \<Rightarrow> bytes \<Rightarrow> bytes \<Rightarrow> bool \<Rightarrow> fed_error + Session" where
  "deriveSession P ephPriv peerSessionPub initiator =
     (case DeriveSharedKey P ephPriv peerSessionPub sessionKeyInfo of
        Inl e \<Rightarrow> Inl (ErrHandshakeCrypto e)
      | Inr key \<Rightarrow>
          Inr \<lparr>skey = key,
               sendAAD = (if initiator then aadInitiatorToResponder else aadResponderToInitiator),
               recvAAD = (if initiator then aadResponderToInitiator else aadInitiatorToResponder),
               PeerIdentity = zero_array 32, SCapabilities = 0, SUserAgent = [], SPolicy = zero_policy\<rparr>)"

definition session_frame :: "prims \<Rightarrow> bytes \<Rightarrow> Session \<Rightarrow> Envelope \<Rightarrow> bytes" where
  "session_frame P rnd s env =
     (let (nonce, ct) = Encrypt P rnd (skey s) (Encode env) (sendAAD s) in nonce @ ct)"

definition session_Send :: "prims \<Rightarrow> bytes \<Rightarrow> Session \<Rightarrow> Envelope \<Rightarrow> net_conn \<Rightarrow> net_conn \<times> (fed_error + unit)" where
  "session_Send P rnd s env c = net_Send (session_frame P rnd s env) c"

definition session_open :: "prims \<Rightarrow> Session \<Rightarrow> bytes \<Rightarrow> Envelope option" where
  "session_open P s frame =
     (if length frame < NonceSize + Overhead then None
      else case Decrypt P (skey s) (to_array NonceSize (take NonceSize frame)) (drop NonceSize frame) (recvAAD s) of
        Inl _ \<Rightarrow> None
      | Inr plain \<Rightarrow> (case Decode P plain of Inl _ \<Rightarrow> None | Inr env \<Rightarrow> Some env))"

text \<open>\<^verbatim>\<open>Recv\<close> drops invalid frames and keeps waiting; the loop consumes the incoming messages.\<close>

fun recv_frames :: "prims \<Rightarrow> Session \<Rightarrow> bytes list \<Rightarrow> bytes list \<times> Envelope option" where
  "recv_frames P s [] = ([], None)"
| "recv_frames P s (f # fs) =
     (case session_open P s f of Some env \<Rightarrow> (fs, Some env) | None \<Rightarrow> recv_frames P s fs)"

definition session_Recv :: "prims \<Rightarrow> Session \<Rightarrow> net_conn \<Rightarrow> net_conn \<times> (fed_error + Envelope)" where
  "session_Recv P s c =
     (case recv_frames P s (incoming c) of
        (rest, None) \<Rightarrow> (c\<lparr>incoming := rest\<rparr>, Inl ErrHandshakeNet)
      | (rest, Some env) \<Rightarrow> (c\<lparr>incoming := rest\<rparr>, Inr env))"

section \<open>Handshake\<close>

record Config =
  Identity :: bytes
  Capabilities :: "32 word"
  UserAgent :: gostring
  Policy :: Payload

record hs_random =
  rnd_nonce :: bytes
  rnd_eph :: bytes
  rnd_aead :: bytes

definition nano :: "instant \<Rightarrow> 64 word" where "nano t = of_int t"

definition sendSigned ::
  "prims \<Rightarrow> msgpack \<Rightarrow> instant \<Rightarrow> bytes \<Rightarrow> byte \<Rightarrow> bytes \<Rightarrow> Payload \<Rightarrow> net_conn \<Rightarrow> net_conn \<times> (fed_error + unit)" where
  "sendSigned P M now identity msgType recipient payload c =
     (case EncodePayload M payload of
        Inl e \<Rightarrow> (c, Inl (ErrHandshakePayload e))
      | Inr data \<Rightarrow>
          (case NewEnvelope P (nano now) identity msgType recipient data of
             Inl e \<Rightarrow> (c, Inl (ErrHandshakeProto e))
           | Inr env \<Rightarrow> net_Send (Encode env) c))"

definition recvHandshake :: "prims \<Rightarrow> instant \<Rightarrow> byte \<Rightarrow> net_conn \<Rightarrow> net_conn \<times> (fed_error + Envelope)" where
  "recvHandshake P now wantType c =
     on_ok (net_Recv c) (\<lambda>data c.
       case Decode P data of
         Inl e \<Rightarrow> (c, Inl (ErrHandshakeProto e))
       | Inr env \<Rightarrow>
           if Type env \<noteq> wantType then (c, Inl (ErrHandshakeType (Type env)))
           else (case ValidateTimestamp (Timestamp env) now of
                   Inl e \<Rightarrow> (c, Inl (ErrHandshakeProto e))
                 | Inr _ \<Rightarrow> (c, Inr env)))"

definition sendPolicy ::
  "prims \<Rightarrow> msgpack \<Rightarrow> instant \<Rightarrow> bytes \<Rightarrow> Session \<Rightarrow> Config \<Rightarrow> net_conn \<Rightarrow> net_conn \<times> (fed_error + unit)" where
  "sendPolicy P M now rnd s cfg c =
     (case EncodePayload M (Policy cfg) of
        Inl e \<Rightarrow> (c, Inl (ErrHandshakePayload e))
      | Inr data \<Rightarrow>
          (case NewEnvelope P (nano now) (Identity cfg) MsgPeerPolicy (PeerIdentity s) data of
             Inl e \<Rightarrow> (c, Inl (ErrHandshakeProto e))
           | Inr env \<Rightarrow> session_Send P rnd s env c))"

definition recvPolicy ::
  "prims \<Rightarrow> msgpack \<Rightarrow> instant \<Rightarrow> Session \<Rightarrow> net_conn \<Rightarrow> net_conn \<times> (fed_error + Session)" where
  "recvPolicy P M now s c =
     on_ok (session_Recv P s c) (\<lambda>env c.
       if Type env \<noteq> MsgPeerPolicy then (c, Inl (ErrHandshakeType (Type env)))
       else if Sender env \<noteq> PeerIdentity s then (c, Inl ErrHandshakeIdentity)
       else case ValidateTimestamp (Timestamp env) now of
         Inl e \<Rightarrow> (c, Inl (ErrHandshakeProto e))
       | Inr _ \<Rightarrow>
           (case DecodePayload M (Payload env) zero_policy of
              Inl e \<Rightarrow> (c, Inl (ErrHandshakePayload e))
            | Inr policy \<Rightarrow> (c, Inr (s\<lparr>SPolicy := policy\<rparr>))))"

text \<open>
  Go decodes into a struct of one schema, whose fields the code then reads. The projections give those
  fields; a payload of another schema, which Go's types exclude, is an error.
\<close>

definition as_hello :: "payload_error + Payload \<Rightarrow> fed_error + (32 word \<times> bytes \<times> gostring)" where
  "as_hello r =
     (case r of
        Inl e \<Rightarrow> Inl (ErrHandshakePayload e)
      | Inr (HelloPayload caps nonce ua) \<Rightarrow> Inr (caps, nonce, ua)
      | Inr _ \<Rightarrow> Inl (ErrHandshakePayload ErrUnmarshal))"

definition as_hello_ack :: "payload_error + Payload \<Rightarrow> fed_error + (32 word \<times> bytes \<times> bytes \<times> bytes \<times> gostring)" where
  "as_hello_ack r =
     (case r of
        Inl e \<Rightarrow> Inl (ErrHandshakePayload e)
      | Inr (HelloAckPayload caps nonce echo pub ua) \<Rightarrow> Inr (caps, nonce, echo, pub, ua)
      | Inr _ \<Rightarrow> Inl (ErrHandshakePayload ErrUnmarshal))"

definition as_complete :: "payload_error + Payload \<Rightarrow> fed_error + (bytes \<times> bytes)" where
  "as_complete r =
     (case r of
        Inl e \<Rightarrow> Inl (ErrHandshakePayload e)
      | Inr (HelloCompletePayload echo pub) \<Rightarrow> Inr (echo, pub)
      | Inr _ \<Rightarrow> Inl (ErrHandshakePayload ErrUnmarshal))"

lemma as_hello_Inr: "as_hello r = Inr (caps, nonce, ua) \<longleftrightarrow> r = Inr (HelloPayload caps nonce ua)"
  by (auto simp: as_hello_def split: sum.splits Payload.splits)

lemma as_hello_ack_Inr:
  "as_hello_ack r = Inr (caps, nonce, echo, pub, ua) \<longleftrightarrow> r = Inr (HelloAckPayload caps nonce echo pub ua)"
  by (auto simp: as_hello_ack_def split: sum.splits Payload.splits)

lemma as_complete_Inr: "as_complete r = Inr (echo, pub) \<longleftrightarrow> r = Inr (HelloCompletePayload echo pub)"
  by (auto simp: as_complete_def split: sum.splits Payload.splits)

definition lift_res :: "'s \<Rightarrow> 'e + 'a \<Rightarrow> 's \<times> ('e + 'a)" where
  "lift_res c r = (c, r)"

definition Initiate ::
  "prims \<Rightarrow> msgpack \<Rightarrow> (nat \<Rightarrow> instant) \<Rightarrow> hs_random \<Rightarrow> Config \<Rightarrow> net_conn \<Rightarrow> net_conn \<times> (fed_error + Session)" where
  "Initiate P M clk rnd cfg c =
     (let nonceA = to_array 32 (rnd_nonce rnd) in
      on_ok (sendSigned P M (clk 0) (Identity cfg) MsgPeerHello Broadcast
               (HelloPayload (Capabilities cfg) nonceA (UserAgent cfg)) c) (\<lambda>_ c.
      on_ok (recvHandshake P (clk 1) MsgPeerAck c) (\<lambda>ackEnv c.
      on_ok (lift_res c (as_hello_ack (DecodePayload M (Payload ackEnv)
             (HelloAckPayload 0 (zero_array 32) (zero_array 32) (zero_array 32) []))))
        (\<lambda>(caps, nonceB, echo, sessPub, ua) c.
      if echo \<noteq> nonceA then (c, Inl ErrHandshakeNonce)
      else (case GenerateX25519 P (rnd_eph rnd) of
         Inl e \<Rightarrow> (c, Inl (ErrHandshakeCrypto e))
       | Inr (ephPub, ephPriv) \<Rightarrow>
           on_ok (sendSigned P M (clk 2) (Identity cfg) MsgPeerComplete (Sender ackEnv)
                    (HelloCompletePayload nonceB ephPub) c) (\<lambda>_ c.
           on_ok (lift_res c (deriveSession P ephPriv sessPub True)) (\<lambda>s c.
           let s = s\<lparr>PeerIdentity := Sender ackEnv, SCapabilities := caps, SUserAgent := ua\<rparr> in
           on_ok (sendPolicy P M (clk 3) (rnd_aead rnd) s cfg c) (\<lambda>_ c.
           recvPolicy P M (clk 4) s c))))))))"

definition Respond ::
  "prims \<Rightarrow> msgpack \<Rightarrow> (nat \<Rightarrow> instant) \<Rightarrow> hs_random \<Rightarrow> Config \<Rightarrow> net_conn \<Rightarrow> net_conn \<times> (fed_error + Session)" where
  "Respond P M clk rnd cfg c =
      on_ok (recvHandshake P (clk 0) MsgPeerHello c) (\<lambda>helloEnv c.
      on_ok (lift_res c (as_hello (DecodePayload M (Payload helloEnv) (HelloPayload 0 (zero_array 32) []))))
        (\<lambda>(caps, nonceA, ua) c.
      case GenerateX25519 P (rnd_eph rnd) of
         Inl e \<Rightarrow> (c, Inl (ErrHandshakeCrypto e))
       | Inr (ephPub, ephPriv) \<Rightarrow>
           let nonceB = to_array 32 (rnd_nonce rnd) in
           on_ok (sendSigned P M (clk 1) (Identity cfg) MsgPeerAck (Sender helloEnv)
                    (HelloAckPayload (Capabilities cfg) nonceB nonceA ephPub (UserAgent cfg)) c) (\<lambda>_ c.
           on_ok (recvHandshake P (clk 2) MsgPeerComplete c) (\<lambda>completeEnv c.
           if Sender completeEnv \<noteq> Sender helloEnv then (c, Inl ErrHandshakeIdentity)
           else
             on_ok (lift_res c (as_complete (DecodePayload M (Payload completeEnv)
                      (HelloCompletePayload (zero_array 32) (zero_array 32))))) (\<lambda>(echo, sessPub) c.
             if echo \<noteq> nonceB then (c, Inl ErrHandshakeNonce)
             else
               on_ok (lift_res c (deriveSession P ephPriv sessPub False)) (\<lambda>s c.
               let s = s\<lparr>PeerIdentity := Sender helloEnv, SCapabilities := caps, SUserAgent := ua\<rparr> in
               on_ok (recvPolicy P M (clk 3) s c) (\<lambda>s c.
               on_ok (sendPolicy P M (clk 4) (rnd_aead rnd) s cfg c) (\<lambda>_ c.
               (c, Inr s)))))))))"

section \<open>Session frames\<close>

lemma session_open_frame:
  assumes "sizes_ok P" "aead_ok P" "acceptable P env" "skey r = skey s" "recvAAD r = sendAAD s"
  shows "session_open P r (session_frame P rnd s env) = Some env"
proof -
  obtain nonce ct where e: "Encrypt P rnd (skey s) (Encode env) (sendAAD s) = (nonce, ct)"
    by (cases "Encrypt P rnd (skey s) (Encode env) (sendAAD s)")
  have "length nonce = 24 \<and> length ct = length (Encode env) + 16" using assms(1) e by (rule length_Encrypt)
  moreover have "Decrypt P (skey s) nonce ct (sendAAD s) = Inr (Encode env)" using assms(2) e by (rule Decrypt_Encrypt)
  ultimately show ?thesis
    using assms(3-5) by (simp add: session_open_def session_frame_def e Decode_Encode_acceptable)
qed

text \<open>The AEAD rejects a frame opened under the other direction's tag.\<close>

definition reflect_ok :: "prims \<Rightarrow> bool" where
  "reflect_ok P \<longleftrightarrow>
     (\<forall>k n p. aead_open P k n (aead_seal P k n p aadInitiatorToResponder) aadResponderToInitiator = None \<and>
              aead_open P k n (aead_seal P k n p aadResponderToInitiator) aadInitiatorToResponder = None)"

lemma demo_tag_directions: "demo_tag k n aadInitiatorToResponder \<noteq> demo_tag k n aadResponderToInitiator"
proof -
  define x where "x = take 6 k @ take 4 n"
  have x: "length x + 3 < 16" by (simp add: x_def)
  have nth: "demo_tag k n a ! (length x + 3) = rev a ! 3" if "3 < length a" for a
  proof -
    have "3 < 16 - length x" using x by simp
    then show ?thesis
      using that by (simp add: demo_tag_def to_array_def x_def [symmetric] append_assoc [symmetric] nth_append
          del: append_assoc)
  qed
  have "rev aadInitiatorToResponder ! 3 \<noteq> rev aadResponderToInitiator ! 3"
    "3 < length aadInitiatorToResponder" "3 < length aadResponderToInitiator"
    by (simp_all add: aadInitiatorToResponder_def aadResponderToInitiator_def str_def)
  then show ?thesis using nth by metis
qed

lemma demo_reflect_ok: "reflect_ok demo_prims"
  using demo_tag_directions by (simp add: reflect_ok_def demo_prims_def) metis

lemma deriveSession_Inr:
  "deriveSession P priv pub ini = Inr s \<Longrightarrow>
     DeriveSharedKey P priv pub sessionKeyInfo = Inr (skey s) \<and>
     sendAAD s = (if ini then aadInitiatorToResponder else aadResponderToInitiator) \<and>
     recvAAD s = (if ini then aadResponderToInitiator else aadInitiatorToResponder)"
  by (auto simp: deriveSession_def split: sum.splits)

section \<open>The steps of an undisturbed handshake\<close>

lemma decode_encoded:
  assumes "msgpack_ok M" "EncodePayload M p = Inr d" "NewPayload (payload_type p) = Inr z"
  shows "DecodePayload M d z = Inr p"
proof -
  have e: "Validate p = Inr ()" "Marshal M p = Some d" "length d \<le> 65535"
    using assms(2) by (auto simp: EncodePayload_def split: sum.splits option.splits if_splits)
  then have "Unmarshal M d z = UnmarshalOk p" using assms(1,3) unfolding msgpack_ok_def by blast
  with e show ?thesis by (simp add: DecodePayload_def)
qed

lemma EncodePayload_length: "EncodePayload M p = Inr d \<Longrightarrow> length d \<le> 65535"
  by (auto simp: EncodePayload_def split: sum.splits option.splits if_splits)

text \<open>The envelope a node builds, as a function.\<close>

definition built :: "prims \<Rightarrow> instant \<Rightarrow> bytes \<Rightarrow> byte \<Rightarrow> bytes \<Rightarrow> bytes \<Rightarrow> Envelope" where
  "built P now priv t rcp d =
     (case NewEnvelope P (nano now) priv t rcp d of Inr e \<Rightarrow> e | Inl _ \<Rightarrow>
        \<lparr>Version = 0, Type = 0, Timestamp = 0, Sender = [], Recipient = [], Payload = [], Signature = []\<rparr>)"

lemma built_ok:
  assumes "sizes_ok P" "sign_ok P" "wf_priv P priv" "length rcp = 32" "wire_type t" "length d \<le> 65535"
  shows "NewEnvelope P (nano now) priv t rcp d = Inr (built P now priv t rcp d)"
    and "acceptable P (built P now priv t rcp d)" "Type (built P now priv t rcp d) = t"
    and "Timestamp (built P now priv t rcp d) = nano now" "Sender (built P now priv t rcp d) = Public priv"
    and "Payload (built P now priv t rcp d) = d"
proof -
  have "\<exists>e. NewEnvelope P (nano now) priv t rcp d = Inr e"
    using assms(5,6) wf_priv_length [OF assms(3)]
    by (auto simp: NewEnvelope_def wire_type_def Sign_def Let_def)
  then show n: "NewEnvelope P (nano now) priv t rcp d = Inr (built P now priv t rcp d)"
    by (auto simp: built_def)
  show "acceptable P (built P now priv t rcp d)" using NewEnvelope_acceptable [OF assms(1-4) n] .
  show "Type (built P now priv t rcp d) = t" "Timestamp (built P now priv t rcp d) = nano now"
    "Sender (built P now priv t rcp d) = Public priv" "Payload (built P now priv t rcp d) = d"
    by (subst NewEnvelope_Inr(4) [OF n], simp)+
qed

lemma sendSigned_ok:
  assumes "sizes_ok P" "sign_ok P" "wf_priv P priv" "length rcp = 32" "wire_type t" "EncodePayload M p = Inr d"
    and "\<not> send_fails c (length (outgoing c))"
  shows "sendSigned P M now priv t rcp p c = (c\<lparr>outgoing := outgoing c @ [Encode (built P now priv t rcp d)]\<rparr>, Inr ())"
  using built_ok(1) [OF assms(1-5) EncodePayload_length [OF assms(6)]] assms(6,7)
  by (simp add: sendSigned_def net_Send_def)

lemma recvHandshake_ok:
  assumes "incoming c = Encode e # rest" "acceptable P e" "Type e = t" "ValidateTimestamp (Timestamp e) now = Inr ()"
  shows "recvHandshake P now t c = (c\<lparr>incoming := rest\<rparr>, Inr e)"
  using assms Decode_Encode_acceptable [OF assms(2)] by (simp add: recvHandshake_def net_Recv_def)

lemma sendPolicy_ok:
  assumes "sizes_ok P" "sign_ok P" "wf_priv P (Identity cfg)" "length (PeerIdentity s) = 32"
    and "EncodePayload M (Policy cfg) = Inr d" "\<not> send_fails c (length (outgoing c))"
  shows "sendPolicy P M now rnd s cfg c =
    (c\<lparr>outgoing := outgoing c @ [session_frame P rnd s (built P now (Identity cfg) MsgPeerPolicy (PeerIdentity s) d)]\<rparr>, Inr ())"
proof -
  have "wire_type MsgPeerPolicy" by (simp add: wire_type_def LocalOnly_def)
  from built_ok(1) [OF assms(1-4) this EncodePayload_length [OF assms(5)]] assms(5,6)
  show ?thesis by (simp add: sendPolicy_def session_Send_def net_Send_def)
qed

lemma recvPolicy_ok:
  assumes "sizes_ok P" "aead_ok P" "msgpack_ok M" "incoming c = session_frame P rnd s' e # rest"
    and "acceptable P e" "skey s = skey s'" "recvAAD s = sendAAD s'"
    and "Type e = MsgPeerPolicy" "Sender e = PeerIdentity s" "ValidateTimestamp (Timestamp e) now = Inr ()"
    and "EncodePayload M pol = Inr (Payload e)" "payload_type pol = MsgPeerPolicy"
  shows "recvPolicy P M now s c = (c\<lparr>incoming := rest\<rparr>, Inr (s\<lparr>SPolicy := pol\<rparr>))"
proof -
  have "DecodePayload M (Payload e) zero_policy = Inr pol"
    using assms(3,11) by (rule decode_encoded) (simp add: assms(12) NewPayload_def zero_policy_def)
  then show ?thesis
    using assms session_open_frame [OF assms(1,2,5-7), of rnd] by (simp add: recvPolicy_def session_Recv_def)
qed

section \<open>The undisturbed handshake\<close>

text \<open>
  A connection on which sends succeed, with the given messages to arrive.
\<close>

definition fresh_conn :: "PeerAddr \<Rightarrow> bytes list \<Rightarrow> net_conn" where
  "fresh_conn a ms = \<lparr>incoming = ms, outgoing = [], send_fails = (\<lambda>_. False), remote = a\<rparr>"

record party =
  p_cfg :: Config
  p_clk :: "nat \<Rightarrow> instant"
  p_rnd :: hs_random

definition enc :: "msgpack \<Rightarrow> Payload \<Rightarrow> bytes" where
  "enc M p = (case EncodePayload M p of Inl _ \<Rightarrow> [] | Inr d \<Rightarrow> d)"

abbreviation (input) p_id :: "party \<Rightarrow> bytes" where "p_id a \<equiv> Identity (p_cfg a)"
abbreviation (input) p_key :: "party \<Rightarrow> bytes" where "p_key a \<equiv> Public (Identity (p_cfg a))"
abbreviation (input) p_nonce :: "party \<Rightarrow> bytes" where "p_nonce a \<equiv> to_array 32 (rnd_nonce (p_rnd a))"

definition eph :: "prims \<Rightarrow> party \<Rightarrow> bytes \<times> bytes" where
  "eph P a = (case GenerateX25519 P (rnd_eph (p_rnd a)) of Inl _ \<Rightarrow> ([], []) | Inr k \<Rightarrow> k)"

text \<open>The payloads, envelopes and sessions of the two parties.\<close>

definition hello_pl :: "party \<Rightarrow> Payload" where
  "hello_pl a = HelloPayload (Capabilities (p_cfg a)) (p_nonce a) (UserAgent (p_cfg a))"

definition ack_pl :: "prims \<Rightarrow> party \<Rightarrow> party \<Rightarrow> Payload" where
  "ack_pl P a b = HelloAckPayload (Capabilities (p_cfg b)) (p_nonce b) (p_nonce a) (fst (eph P b)) (UserAgent (p_cfg b))"

definition complete_pl :: "prims \<Rightarrow> party \<Rightarrow> party \<Rightarrow> Payload" where
  "complete_pl P a b = HelloCompletePayload (p_nonce b) (fst (eph P a))"

definition hello_env :: "prims \<Rightarrow> msgpack \<Rightarrow> party \<Rightarrow> Envelope" where
  "hello_env P M a = built P (p_clk a 0) (p_id a) MsgPeerHello Broadcast (enc M (hello_pl a))"

definition ack_env :: "prims \<Rightarrow> msgpack \<Rightarrow> party \<Rightarrow> party \<Rightarrow> Envelope" where
  "ack_env P M a b = built P (p_clk b 1) (p_id b) MsgPeerAck (p_key a) (enc M (ack_pl P a b))"

definition complete_env :: "prims \<Rightarrow> msgpack \<Rightarrow> party \<Rightarrow> party \<Rightarrow> Envelope" where
  "complete_env P M a b = built P (p_clk a 2) (p_id a) MsgPeerComplete (p_key b) (enc M (complete_pl P a b))"

definition policy_env :: "prims \<Rightarrow> msgpack \<Rightarrow> nat \<Rightarrow> party \<Rightarrow> party \<Rightarrow> Envelope" where
  "policy_env P M i a b = built P (p_clk a i) (p_id a) MsgPeerPolicy (p_key b) (enc M (Policy (p_cfg a)))"

definition party_session :: "bytes \<Rightarrow> bool \<Rightarrow> party \<Rightarrow> Session" where
  "party_session key initiator b =
     \<lparr>skey = key,
      sendAAD = (if initiator then aadInitiatorToResponder else aadResponderToInitiator),
      recvAAD = (if initiator then aadResponderToInitiator else aadInitiatorToResponder),
      PeerIdentity = p_key b, SCapabilities = Capabilities (p_cfg b),
      SUserAgent = UserAgent (p_cfg b), SPolicy = Policy (p_cfg b)\<rparr>"

definition policy_frame :: "prims \<Rightarrow> msgpack \<Rightarrow> bytes \<Rightarrow> nat \<Rightarrow> bool \<Rightarrow> party \<Rightarrow> party \<Rightarrow> bytes" where
  "policy_frame P M key i initiator a b =
     session_frame P (rnd_aead (p_rnd a)) (party_session key initiator b) (policy_env P M i a b)"

text \<open>
  What two honest parties bring: well-formed identities, payloads that can be encoded, clocks that agree
  within the protocol's window, and ephemeral keys the primitives accept.
\<close>

definition encodable :: "msgpack \<Rightarrow> Payload \<Rightarrow> bool" where
  "encodable M p \<longleftrightarrow> EncodePayload M p = Inr (enc M p)"

definition honest :: "prims \<Rightarrow> msgpack \<Rightarrow> bytes \<Rightarrow> party \<Rightarrow> party \<Rightarrow> bool" where
  "honest P M key a b \<longleftrightarrow>
     wf_priv P (p_id a) \<and> wf_priv P (p_id b) \<and>
     payload_type (Policy (p_cfg a)) = MsgPeerPolicy \<and> payload_type (Policy (p_cfg b)) = MsgPeerPolicy \<and>
     (\<forall>i j. ValidateTimestamp (nano (p_clk a i)) (p_clk b j) = Inr ()) \<and>
     (\<forall>i j. ValidateTimestamp (nano (p_clk b i)) (p_clk a j) = Inr ()) \<and>
     GenerateX25519 P (rnd_eph (p_rnd a)) = Inr (eph P a) \<and> GenerateX25519 P (rnd_eph (p_rnd b)) = Inr (eph P b) \<and>
     DeriveSharedKey P (snd (eph P a)) (fst (eph P b)) sessionKeyInfo = Inr key \<and>
     encodable M (hello_pl a) \<and> encodable M (ack_pl P a b) \<and> encodable M (complete_pl P a b) \<and>
     encodable M (Policy (p_cfg a)) \<and> encodable M (Policy (p_cfg b))"

lemma handshake_wire_types:
  "wire_type MsgPeerHello" "wire_type MsgPeerAck" "wire_type MsgPeerComplete" "wire_type MsgPeerPolicy"
  by (simp_all add: wire_type_def LocalOnly_def)

lemma length_Broadcast: "length Broadcast = 32"
  by (simp add: Broadcast_def)

text \<open>Every envelope of the run is acceptable and says what it should.\<close>

lemma built_enc:
  assumes "sizes_ok P" "sign_ok P" "wf_priv P priv" "length rcp = 32" "wire_type t" "encodable M p"
  shows "acceptable P (built P now priv t rcp (enc M p))" "Type (built P now priv t rcp (enc M p)) = t"
    "Timestamp (built P now priv t rcp (enc M p)) = nano now" "Sender (built P now priv t rcp (enc M p)) = Public priv"
    "Payload (built P now priv t rcp (enc M p)) = enc M p"
  using built_ok [OF assms(1-5)] EncodePayload_length assms(6) by (auto simp: encodable_def)

lemma envelopes_ok:
  assumes "sizes_ok P" "sign_ok P" "honest P M key a b"
  shows "acceptable P (hello_env P M a)" "Type (hello_env P M a) = MsgPeerHello" "Timestamp (hello_env P M a) = nano (p_clk a 0)"
      "Sender (hello_env P M a) = p_key a" "Payload (hello_env P M a) = enc M (hello_pl a)"
    and "acceptable P (ack_env P M a b)" "Type (ack_env P M a b) = MsgPeerAck" "Timestamp (ack_env P M a b) = nano (p_clk b 1)"
      "Sender (ack_env P M a b) = p_key b" "Payload (ack_env P M a b) = enc M (ack_pl P a b)"
    and "acceptable P (complete_env P M a b)" "Type (complete_env P M a b) = MsgPeerComplete"
      "Timestamp (complete_env P M a b) = nano (p_clk a 2)"
      "Sender (complete_env P M a b) = p_key a" "Payload (complete_env P M a b) = enc M (complete_pl P a b)"
    and "acceptable P (policy_env P M i a b)" "Type (policy_env P M i a b) = MsgPeerPolicy"
      "Timestamp (policy_env P M i a b) = nano (p_clk a i)"
      "Sender (policy_env P M i a b) = p_key a" "Payload (policy_env P M i a b) = enc M (Policy (p_cfg a))"
    and "acceptable P (policy_env P M i b a)" "Type (policy_env P M i b a) = MsgPeerPolicy"
      "Timestamp (policy_env P M i b a) = nano (p_clk b i)"
      "Sender (policy_env P M i b a) = p_key b" "Payload (policy_env P M i b a) = enc M (Policy (p_cfg b))"
proof -
  have h: "wf_priv P (p_id a)" "wf_priv P (p_id b)" "length (p_key a) = 32" "length (p_key b) = 32"
    "encodable M (hello_pl a)" "encodable M (ack_pl P a b)" "encodable M (complete_pl P a b)"
    "encodable M (Policy (p_cfg a))" "encodable M (Policy (p_cfg b))"
    using assms(3) by (auto simp: honest_def wf_priv_length)
  note b = built_enc [OF assms(1,2)] and ty = handshake_wire_types
  note defs = hello_env_def ack_env_def complete_env_def policy_env_def
  show "acceptable P (hello_env P M a)" "Type (hello_env P M a) = MsgPeerHello" "Timestamp (hello_env P M a) = nano (p_clk a 0)"
      "Sender (hello_env P M a) = p_key a" "Payload (hello_env P M a) = enc M (hello_pl a)"
    using b [OF h(1) length_Broadcast ty(1) h(5)] by (simp_all add: defs)
  show "acceptable P (ack_env P M a b)" "Type (ack_env P M a b) = MsgPeerAck" "Timestamp (ack_env P M a b) = nano (p_clk b 1)"
      "Sender (ack_env P M a b) = p_key b" "Payload (ack_env P M a b) = enc M (ack_pl P a b)"
    using b [OF h(2,3) ty(2) h(6)] by (simp_all add: defs)
  show "acceptable P (complete_env P M a b)" "Type (complete_env P M a b) = MsgPeerComplete"
      "Timestamp (complete_env P M a b) = nano (p_clk a 2)"
      "Sender (complete_env P M a b) = p_key a" "Payload (complete_env P M a b) = enc M (complete_pl P a b)"
    using b [OF h(1,4) ty(3) h(7)] by (simp_all add: defs)
  show "acceptable P (policy_env P M i a b)" "Type (policy_env P M i a b) = MsgPeerPolicy"
      "Timestamp (policy_env P M i a b) = nano (p_clk a i)"
      "Sender (policy_env P M i a b) = p_key a" "Payload (policy_env P M i a b) = enc M (Policy (p_cfg a))"
    using b [OF h(1,4) ty(4) h(8)] by (simp_all add: defs)
  show "acceptable P (policy_env P M i b a)" "Type (policy_env P M i b a) = MsgPeerPolicy"
      "Timestamp (policy_env P M i b a) = nano (p_clk b i)"
      "Sender (policy_env P M i b a) = p_key b" "Payload (policy_env P M i b a) = enc M (Policy (p_cfg b))"
    using b [OF h(2,3) ty(4) h(9)] by (simp_all add: defs)
qed

text \<open>A role succeeds exactly when each of its steps does.\<close>

lemma Initiate_Inr:
  "Initiate P M clk rnd cfg c0 = (c5, Inr s) \<longleftrightarrow>
     (\<exists>c1 c2 c3 c4 ack caps nonceB sessPub ua ephPub ephPriv s0 s1.
        sendSigned P M (clk 0) (Identity cfg) MsgPeerHello Broadcast
          (HelloPayload (Capabilities cfg) (to_array 32 (rnd_nonce rnd)) (UserAgent cfg)) c0 = (c1, Inr ()) \<and>
        recvHandshake P (clk 1) MsgPeerAck c1 = (c2, Inr ack) \<and>
        DecodePayload M (Payload ack) (HelloAckPayload 0 (zero_array 32) (zero_array 32) (zero_array 32) []) =
          Inr (HelloAckPayload caps nonceB (to_array 32 (rnd_nonce rnd)) sessPub ua) \<and>
        GenerateX25519 P (rnd_eph rnd) = Inr (ephPub, ephPriv) \<and>
        sendSigned P M (clk 2) (Identity cfg) MsgPeerComplete (Sender ack)
          (HelloCompletePayload nonceB ephPub) c2 = (c3, Inr ()) \<and>
        deriveSession P ephPriv sessPub True = Inr s0 \<and>
        s1 = s0\<lparr>PeerIdentity := Sender ack, SCapabilities := caps, SUserAgent := ua\<rparr> \<and>
        sendPolicy P M (clk 3) (rnd_aead rnd) s1 cfg c3 = (c4, Inr ()) \<and>
        recvPolicy P M (clk 4) s1 c4 = (c5, Inr s))" (is "?l = ?r")
proof
  assume ?l
  then show ?r
    by (cases "GenerateX25519 P (rnd_eph rnd)")
      (fastforce simp: Initiate_def Let_def on_ok_Inr lift_res_def as_hello_ack_Inr split: if_splits)+
next
  assume ?r
  then show ?l
    by (elim exE conjE) (simp add: Initiate_def lift_res_def as_hello_ack_def)
qed

lemma Respond_Inr:
  "Respond P M clk rnd cfg c0 = (c5, Inr s) \<longleftrightarrow>
     (\<exists>c1 c2 c3 c4 hello caps nonceA ua ephPub ephPriv compl sessPub s0 s1.
        recvHandshake P (clk 0) MsgPeerHello c0 = (c1, Inr hello) \<and>
        DecodePayload M (Payload hello) (HelloPayload 0 (zero_array 32) []) = Inr (HelloPayload caps nonceA ua) \<and>
        GenerateX25519 P (rnd_eph rnd) = Inr (ephPub, ephPriv) \<and>
        sendSigned P M (clk 1) (Identity cfg) MsgPeerAck (Sender hello)
          (HelloAckPayload (Capabilities cfg) (to_array 32 (rnd_nonce rnd)) nonceA ephPub (UserAgent cfg)) c1 = (c2, Inr ()) \<and>
        recvHandshake P (clk 2) MsgPeerComplete c2 = (c3, Inr compl) \<and>
        Sender compl = Sender hello \<and>
        DecodePayload M (Payload compl) (HelloCompletePayload (zero_array 32) (zero_array 32)) =
          Inr (HelloCompletePayload (to_array 32 (rnd_nonce rnd)) sessPub) \<and>
        deriveSession P ephPriv sessPub False = Inr s0 \<and>
        s1 = s0\<lparr>PeerIdentity := Sender hello, SCapabilities := caps, SUserAgent := ua\<rparr> \<and>
        recvPolicy P M (clk 3) s1 c3 = (c4, Inr s) \<and>
        sendPolicy P M (clk 4) (rnd_aead rnd) s cfg c4 = (c5, Inr ()))" (is "?l = ?r")
proof
  assume ?l
  then show ?r
    by (cases "GenerateX25519 P (rnd_eph rnd)")
      (fastforce simp: Respond_def Let_def on_ok_Inr lift_res_def as_hello_Inr as_complete_Inr split: if_splits)+
next
  assume ?r
  then show ?l
    by (elim exE conjE) (simp add: Respond_def lift_res_def as_hello_def as_complete_def)
qed

text \<open>The initiator's run against the responder's messages, and the converse.\<close>

lemma decode_enc: "msgpack_ok M \<Longrightarrow> encodable M p \<Longrightarrow> NewPayload (payload_type p) = Inr z \<Longrightarrow> DecodePayload M (enc M p) z = Inr p"
  by (rule decode_encoded) (simp_all add: encodable_def)

lemma Initiate_completes:
  assumes P: "sizes_ok P" "sign_ok P" "aead_ok P" and M: "msgpack_ok M" and h: "honest P M key a b"
  shows "Initiate P M (p_clk a) (p_rnd a) (p_cfg a)
      (fresh_conn adr [Encode (ack_env P M a b), policy_frame P M key 4 False b a]) =
    ((fresh_conn adr [])\<lparr>outgoing := [Encode (hello_env P M a), Encode (complete_env P M a b), policy_frame P M key 3 True a b]\<rparr>,
     Inr (party_session key True b))"
proof -
  have w: "wf_priv P (p_id a)" "length (p_key b) = 32" and t: "\<And>i j. ValidateTimestamp (nano (p_clk b i)) (p_clk a j) = Inr ()"
    and g: "GenerateX25519 P (rnd_eph (p_rnd a)) = Inr (fst (eph P a), snd (eph P a))"
    and k: "DeriveSharedKey P (snd (eph P a)) (fst (eph P b)) sessionKeyInfo = Inr key"
    and d: "EncodePayload M (hello_pl a) = Inr (enc M (hello_pl a))" "EncodePayload M (complete_pl P a b) = Inr (enc M (complete_pl P a b))"
      "EncodePayload M (Policy (p_cfg a)) = Inr (enc M (Policy (p_cfg a)))" "EncodePayload M (Policy (p_cfg b)) = Inr (enc M (Policy (p_cfg b)))"
    and d': "encodable M (ack_pl P a b)" and pt: "payload_type (Policy (p_cfg b)) = MsgPeerPolicy"
    using h by (auto simp: honest_def encodable_def wf_priv_length)
  note e = envelopes_ok [OF P(1,2) h]
  let ?c = "fresh_conn adr [Encode (ack_env P M a b), policy_frame P M key 4 False b a]"
  let ?c1 = "?c\<lparr>outgoing := [Encode (hello_env P M a)]\<rparr>"
  let ?c2 = "?c1\<lparr>incoming := [policy_frame P M key 4 False b a]\<rparr>"
  let ?c3 = "?c2\<lparr>outgoing := [Encode (hello_env P M a), Encode (complete_env P M a b)]\<rparr>"
  let ?c4 = "?c3\<lparr>outgoing := [Encode (hello_env P M a), Encode (complete_env P M a b), policy_frame P M key 3 True a b]\<rparr>"
  let ?s = "(party_session key True b)\<lparr>SPolicy := zero_policy\<rparr>"
  have 1: "sendSigned P M (p_clk a 0) (p_id a) MsgPeerHello Broadcast (hello_pl a) ?c = (?c1, Inr ())"
    using sendSigned_ok [OF P(1,2) w(1) length_Broadcast handshake_wire_types(1) d(1)]
    by (simp add: fresh_conn_def hello_env_def)
  have 2: "recvHandshake P (p_clk a 1) MsgPeerAck ?c1 = (?c2, Inr (ack_env P M a b))"
    using recvHandshake_ok [OF _ e(6,7)] e(8) t by (simp add: fresh_conn_def)
  have dec: "DecodePayload M (Payload (ack_env P M a b)) (HelloAckPayload 0 (zero_array 32) (zero_array 32) (zero_array 32) []) =
      Inr (ack_pl P a b)"
    unfolding e(10) by (rule decode_enc [OF M d']) (simp add: ack_pl_def NewPayload_def)
  have 3: "sendSigned P M (p_clk a 2) (p_id a) MsgPeerComplete (Sender (ack_env P M a b)) (complete_pl P a b) ?c2 = (?c3, Inr ())"
    unfolding e(9) using sendSigned_ok [OF P(1,2) w handshake_wire_types(3) d(2)]
    by (simp add: fresh_conn_def complete_env_def)
  have ds: "deriveSession P (snd (eph P a)) (fst (eph P b)) True = Inr (?s\<lparr>PeerIdentity := zero_array 32, SCapabilities := 0, SUserAgent := []\<rparr>)"
    using k by (simp add: deriveSession_def party_session_def)
  have 4: "sendPolicy P M (p_clk a 3) (rnd_aead (p_rnd a)) ?s (p_cfg a) ?c3 = (?c4, Inr ())"
    using sendPolicy_ok [OF P(1,2) w(1) _ d(3), of ?s ?c3] w(2)
    by (simp add: fresh_conn_def policy_frame_def policy_env_def party_session_def session_frame_def)
  have 5: "recvPolicy P M (p_clk a 4) ?s ?c4 = (?c4\<lparr>incoming := []\<rparr>, Inr (?s\<lparr>SPolicy := Policy (p_cfg b)\<rparr>))"
    using d(4) e(21-25) t pt
    by (intro recvPolicy_ok [OF P(1,3) M, where e = "policy_env P M 4 b a" and rnd = "rnd_aead (p_rnd b)" and s' = "party_session key False a"])
      (simp_all add: fresh_conn_def policy_frame_def party_session_def)
  have s: "?s = ?s\<lparr>PeerIdentity := zero_array 32, SCapabilities := 0, SUserAgent := []\<rparr>
      \<lparr>PeerIdentity := Sender (ack_env P M a b), SCapabilities := Capabilities (p_cfg b), SUserAgent := UserAgent (p_cfg b)\<rparr>"
    using e(9) by (simp add: party_session_def)
  have "Initiate P M (p_clk a) (p_rnd a) (p_cfg a) ?c = (?c4\<lparr>incoming := []\<rparr>, Inr (?s\<lparr>SPolicy := Policy (p_cfg b)\<rparr>))"
    unfolding Initiate_Inr
    using 1 2 dec g 3 ds s 4 5 unfolding hello_pl_def ack_pl_def complete_pl_def by blast
  then show ?thesis by (simp add: fresh_conn_def party_session_def)
qed

lemma Respond_completes:
  assumes P: "sizes_ok P" "sign_ok P" "aead_ok P" "dh_ok P" and M: "msgpack_ok M" and h: "honest P M key a b"
  shows "Respond P M (p_clk b) (p_rnd b) (p_cfg b)
      (fresh_conn adr [Encode (hello_env P M a), Encode (complete_env P M a b), policy_frame P M key 3 True a b]) =
    ((fresh_conn adr [])\<lparr>outgoing := [Encode (ack_env P M a b), policy_frame P M key 4 False b a]\<rparr>,
     Inr (party_session key False a))"
proof -
  have w: "wf_priv P (p_id b)" "length (p_key a) = 32" and t: "\<And>i j. ValidateTimestamp (nano (p_clk a i)) (p_clk b j) = Inr ()"
    and g: "GenerateX25519 P (rnd_eph (p_rnd a)) = Inr (fst (eph P a), snd (eph P a))"
      "GenerateX25519 P (rnd_eph (p_rnd b)) = Inr (fst (eph P b), snd (eph P b))"
    and k: "DeriveSharedKey P (snd (eph P a)) (fst (eph P b)) sessionKeyInfo = Inr key"
    and d: "EncodePayload M (ack_pl P a b) = Inr (enc M (ack_pl P a b))"
      "EncodePayload M (Policy (p_cfg a)) = Inr (enc M (Policy (p_cfg a)))" "EncodePayload M (Policy (p_cfg b)) = Inr (enc M (Policy (p_cfg b)))"
    and d': "encodable M (hello_pl a)" "encodable M (complete_pl P a b)" and pt: "payload_type (Policy (p_cfg a)) = MsgPeerPolicy"
    using h by (auto simp: honest_def encodable_def wf_priv_length)
  have k': "DeriveSharedKey P (snd (eph P b)) (fst (eph P a)) sessionKeyInfo = Inr key"
    using DeriveSharedKey_agree [OF P(1,4) g] k by simp
  note e = envelopes_ok [OF P(1,2) h]
  let ?c = "fresh_conn adr [Encode (hello_env P M a), Encode (complete_env P M a b), policy_frame P M key 3 True a b]"
  let ?c1 = "?c\<lparr>incoming := [Encode (complete_env P M a b), policy_frame P M key 3 True a b]\<rparr>"
  let ?c2 = "?c1\<lparr>outgoing := [Encode (ack_env P M a b)]\<rparr>"
  let ?c3 = "?c2\<lparr>incoming := [policy_frame P M key 3 True a b]\<rparr>"
  let ?c4 = "?c3\<lparr>incoming := []\<rparr>"
  let ?s = "(party_session key False a)\<lparr>SPolicy := zero_policy\<rparr>"
  have 1: "recvHandshake P (p_clk b 0) MsgPeerHello ?c = (?c1, Inr (hello_env P M a))"
    using recvHandshake_ok [OF _ e(1,2)] e(3) t by (simp add: fresh_conn_def)
  have dec1: "DecodePayload M (Payload (hello_env P M a)) (HelloPayload 0 (zero_array 32) []) = Inr (hello_pl a)"
    unfolding e(5) by (rule decode_enc [OF M d'(1)]) (simp add: hello_pl_def NewPayload_def)
  have 2: "sendSigned P M (p_clk b 1) (p_id b) MsgPeerAck (Sender (hello_env P M a)) (ack_pl P a b) ?c1 = (?c2, Inr ())"
    unfolding e(4) using sendSigned_ok [OF P(1,2) w handshake_wire_types(2) d(1)]
    by (simp add: fresh_conn_def ack_env_def)
  have 3: "recvHandshake P (p_clk b 2) MsgPeerComplete ?c2 = (?c3, Inr (complete_env P M a b))"
    using recvHandshake_ok [OF _ e(11,12)] e(13) t by (simp add: fresh_conn_def)
  have dec2: "DecodePayload M (Payload (complete_env P M a b)) (HelloCompletePayload (zero_array 32) (zero_array 32)) = Inr (complete_pl P a b)"
    unfolding e(15) by (rule decode_enc [OF M d'(2)]) (simp add: complete_pl_def NewPayload_def)
  have ds: "deriveSession P (snd (eph P b)) (fst (eph P a)) False = Inr (?s\<lparr>PeerIdentity := zero_array 32, SCapabilities := 0, SUserAgent := []\<rparr>)"
    using k' by (simp add: deriveSession_def party_session_def)
  have s: "?s = ?s\<lparr>PeerIdentity := zero_array 32, SCapabilities := 0, SUserAgent := []\<rparr>
      \<lparr>PeerIdentity := Sender (hello_env P M a), SCapabilities := Capabilities (p_cfg a), SUserAgent := UserAgent (p_cfg a)\<rparr>"
    using e(4) by (simp add: party_session_def)
  have 4: "recvPolicy P M (p_clk b 3) ?s ?c3 = (?c4, Inr (?s\<lparr>SPolicy := Policy (p_cfg a)\<rparr>))"
    using d(2) e(16-20) t pt
    by (intro recvPolicy_ok [OF P(1,3) M, where e = "policy_env P M 3 a b" and rnd = "rnd_aead (p_rnd a)" and s' = "party_session key True b"])
      (simp_all add: fresh_conn_def policy_frame_def party_session_def)
  have 5: "sendPolicy P M (p_clk b 4) (rnd_aead (p_rnd b)) (?s\<lparr>SPolicy := Policy (p_cfg a)\<rparr>) (p_cfg b) ?c4 =
      (?c4\<lparr>outgoing := [Encode (ack_env P M a b), policy_frame P M key 4 False b a]\<rparr>, Inr ())"
    using sendPolicy_ok [OF P(1,2) w(1) _ d(3), of "?s\<lparr>SPolicy := Policy (p_cfg a)\<rparr>" ?c4] w(2)
    by (simp add: fresh_conn_def policy_frame_def policy_env_def party_session_def)
  have id: "Sender (complete_env P M a b) = Sender (hello_env P M a)" using e(4,14) by simp
  have "Respond P M (p_clk b) (p_rnd b) (p_cfg b) ?c =
      (?c4\<lparr>outgoing := [Encode (ack_env P M a b), policy_frame P M key 4 False b a]\<rparr>, Inr (?s\<lparr>SPolicy := Policy (p_cfg a)\<rparr>))"
    unfolding Respond_Inr
    using 1 dec1 g(2) 2 3 id dec2 ds s 4 5 unfolding hello_pl_def ack_pl_def complete_pl_def by blast
  then show ?thesis by (simp add: fresh_conn_def party_session_def)
qed

text \<open>
  C6. Handshake between honest nodes: when each receives what the other sends, both roles succeed, and they
  end with the same session key, mirrored direction tags, each other's identity key, capabilities, user
  agent and policy, after exactly three messages one way and two the other.
\<close>

theorem handshake_agreement:
  assumes "sizes_ok P" "sign_ok P" "aead_ok P" "dh_ok P" "msgpack_ok M" "honest P M key a b"
  shows "\<exists>m1 m2 m3 m4 m5 ca cb.
    Initiate P M (p_clk a) (p_rnd a) (p_cfg a) (fresh_conn ab [m2, m5]) = (ca, Inr (party_session key True b)) \<and>
    outgoing ca = [m1, m3, m4] \<and>
    Respond P M (p_clk b) (p_rnd b) (p_cfg b) (fresh_conn aa [m1, m3, m4]) = (cb, Inr (party_session key False a)) \<and>
    outgoing cb = [m2, m5]"
  using Initiate_completes [OF assms(1-3,5,6), of ab] Respond_completes [OF assms, of aa]
  by (intro exI conjI) (assumption | simp)+

text \<open>Two concrete parties, and a codec for the five payloads they exchange.\<close>

definition demo_party :: "byte \<Rightarrow> party" where
  "demo_party i =
     \<lparr>p_cfg = \<lparr>Identity = demo_key i, Capabilities = 1, UserAgent = str ''gandrd'', Policy = PeerPolicyPayload 3600 65535 60 i\<rparr>,
      p_clk = (\<lambda>_. 1000), p_rnd = \<lparr>rnd_nonce = [i, 1], rnd_eph = [i, 2], rnd_aead = [i, 3]\<rparr>\<rparr>"

definition demo_hs_pack :: msgpack where
  "demo_hs_pack =
     demo_pack [(hello_pl (demo_party 1), [1]), (ack_pl demo_prims (demo_party 1) (demo_party 2), [2]),
       (complete_pl demo_prims (demo_party 1) (demo_party 2), [3]),
       (Policy (p_cfg (demo_party 1)), [4]), (Policy (p_cfg (demo_party 2)), [5])]"

lemma demo_hs_pack_ok: "msgpack_ok demo_hs_pack"
  unfolding demo_hs_pack_def by (rule demo_pack_ok) simp

lemma demo_agent: "text_ok (str ''gandrd'') 64"
  unfolding text_ok_def by (simp add: ValidString_ascii RuneCountInString_ascii str_def)

lemma encodable_pack:
  assumes "within_limits p" "map_of tbl p = Some d" "length d \<le> 65535"
  shows "encodable (demo_pack tbl) p"
proof -
  have "Validate p = Inr ()" using assms(1) by (simp only: Validate_limits)
  then have "EncodePayload (demo_pack tbl) p = Inr d"
    using assms(2,3) by (simp add: EncodePayload_def demo_pack_def)
  then show ?thesis by (simp add: encodable_def enc_def)
qed

lemma demo_encodable:
  "encodable demo_hs_pack (hello_pl (demo_party 1)) \<and>
   encodable demo_hs_pack (ack_pl demo_prims (demo_party 1) (demo_party 2)) \<and>
   encodable demo_hs_pack (complete_pl demo_prims (demo_party 1) (demo_party 2)) \<and>
   encodable demo_hs_pack (Policy (p_cfg (demo_party 1))) \<and>
   encodable demo_hs_pack (Policy (p_cfg (demo_party 2)))"
  unfolding demo_hs_pack_def
proof (intro conjI)
  note d = demo_agent hello_pl_def ack_pl_def complete_pl_def demo_party_def
  show "encodable (demo_pack [(hello_pl (demo_party 1), [1]), (ack_pl demo_prims (demo_party 1) (demo_party 2), [2]),
       (complete_pl demo_prims (demo_party 1) (demo_party 2), [3]),
       (Policy (p_cfg (demo_party 1)), [4]), (Policy (p_cfg (demo_party 2)), [5])]) (hello_pl (demo_party 1))"
    by (rule encodable_pack [where d = "[1]"]; simp add: d)
  show "encodable (demo_pack [(hello_pl (demo_party 1), [1]), (ack_pl demo_prims (demo_party 1) (demo_party 2), [2]),
       (complete_pl demo_prims (demo_party 1) (demo_party 2), [3]),
       (Policy (p_cfg (demo_party 1)), [4]), (Policy (p_cfg (demo_party 2)), [5])]) (ack_pl demo_prims (demo_party 1) (demo_party 2))"
    by (rule encodable_pack [where d = "[2]"]; simp add: d)
qed (rule encodable_pack [where d = "[3]"] encodable_pack [where d = "[4]"] encodable_pack [where d = "[5]"];
     simp add: hello_pl_def ack_pl_def complete_pl_def demo_party_def; fail)+

lemma demo_timestamp: "ValidateTimestamp (nano 1000) 1000 = Inr ()"
  by (simp add: ValidateTimestamp_window unix_nano_def nano_def)

lemma demo_honest: "\<exists>key. honest demo_prims demo_hs_pack key (demo_party 1) (demo_party 2)"
proof -
  have e: "GenerateX25519 demo_prims (rnd_eph (p_rnd (demo_party i))) = Inr (eph demo_prims (demo_party i))" for i
    by (simp add: eph_def GenerateX25519_def demo_x25519_base Let_def)
  have k: "\<exists>key. DeriveSharedKey demo_prims x y sessionKeyInfo = Inr key" for x y
    by (simp add: DeriveSharedKey_def demo_prims_def)
  have "wf_priv demo_prims (p_id (demo_party i))" "p_clk (demo_party i) j = 1000"
    "payload_type (Policy (p_cfg (demo_party i))) = MsgPeerPolicy" for i j
    by (simp_all add: demo_party_def demo_key_wf)
  then show ?thesis
    using k [of "snd (eph demo_prims (demo_party 1))" "fst (eph demo_prims (demo_party 2))"] e demo_encodable demo_timestamp
    unfolding honest_def by auto
qed

theorem handshake_agreement_witness:
  "\<exists>key m1 m2 m3 m4 m5 ca cb.
    Initiate demo_prims demo_hs_pack (p_clk (demo_party 1)) (p_rnd (demo_party 1)) (p_cfg (demo_party 1))
      (fresh_conn \<lparr>YggKey = [2], IPPort = []\<rparr> [m2, m5]) = (ca, Inr (party_session key True (demo_party 2))) \<and>
    outgoing ca = [m1, m3, m4] \<and>
    Respond demo_prims demo_hs_pack (p_clk (demo_party 2)) (p_rnd (demo_party 2)) (p_cfg (demo_party 2))
      (fresh_conn \<lparr>YggKey = [1], IPPort = []\<rparr> [m1, m3, m4]) = (cb, Inr (party_session key False (demo_party 1))) \<and>
    outgoing cb = [m2, m5]"
proof -
  obtain key where h: "honest demo_prims demo_hs_pack key (demo_party 1) (demo_party 2)" using demo_honest by blast
  from handshake_agreement [OF demo_sizes_ok demo_sign_ok demo_aead_ok demo_dh_ok demo_hs_pack_ok h]
  show ?thesis by blast
qed

section \<open>What a completed handshake proves\<close>

lemma recvHandshake_Inr:
  assumes "recvHandshake P now t c = (c', Inr e)"
  shows "acceptable P e \<and> Type e = t \<and> ValidateTimestamp (Timestamp e) now = Inr () \<and>
    incoming c = Encode e # incoming c' \<and> outgoing c' = outgoing c"
  using assms
  by (auto simp: recvHandshake_def net_Recv_def on_ok_Inr dest!: Decode_Inr split: list.splits sum.splits if_splits)

lemma recv_frames_Some:
  "recv_frames P s fs = (rest, Some e) \<Longrightarrow> \<exists>f \<in> set fs. session_open P s f = Some e"
  by (induction fs) (auto split: option.splits)

lemma session_open_Some:
  assumes "session_open P s f = Some e"
  shows "acceptable P e \<and> Decrypt P (skey s) (take 24 f) (drop 24 f) (recvAAD s) = Inr (Encode e)"
proof -
  have l: "24 \<le> length f" using assms by (auto simp: session_open_def split: if_splits)
  then obtain plain where "Decrypt P (skey s) (take 24 f) (drop 24 f) (recvAAD s) = Inr plain" "Decode P plain = Inr e"
    using assms by (auto simp: session_open_def split: if_splits sum.splits)
  then show ?thesis using Decode_Inr by blast
qed

lemma recvPolicy_Inr:
  assumes "recvPolicy P M now s c = (c', Inr s')"
  shows "\<exists>f \<in> set (incoming c). \<exists>e. acceptable P e \<and> Sender e = PeerIdentity s \<and> Type e = MsgPeerPolicy \<and>
    Decrypt P (skey s) (take 24 f) (drop 24 f) (recvAAD s) = Inr (Encode e) \<and>
    DecodePayload M (Payload e) zero_policy = Inr (SPolicy s')"
    and "skey s' = skey s \<and> PeerIdentity s' = PeerIdentity s \<and> recvAAD s' = recvAAD s \<and> sendAAD s' = sendAAD s"
proof -
  obtain rest e where r: "recv_frames P s (incoming c) = (rest, Some e)" and e: "Type e = MsgPeerPolicy" "Sender e = PeerIdentity s"
    "DecodePayload M (Payload e) zero_policy = Inr (SPolicy s')" "s' = s\<lparr>SPolicy := SPolicy s'\<rparr>"
    using assms by (auto simp: recvPolicy_def on_ok_Inr session_Recv_def split: prod.splits option.splits sum.splits if_splits)
  then obtain f where "f \<in> set (incoming c)" "session_open P s f = Some e" using recv_frames_Some by blast
  with session_open_Some e(1-3) show "\<exists>f \<in> set (incoming c). \<exists>e. acceptable P e \<and> Sender e = PeerIdentity s \<and> Type e = MsgPeerPolicy \<and>
    Decrypt P (skey s) (take 24 f) (drop 24 f) (recvAAD s) = Inr (Encode e) \<and>
    DecodePayload M (Payload e) zero_policy = Inr (SPolicy s')" by blast
  show "skey s' = skey s \<and> PeerIdentity s' = PeerIdentity s \<and> recvAAD s' = recvAAD s \<and> sendAAD s' = sendAAD s"
    by (subst (1 2 3 4) e(4)) simp
qed

lemma sendSigned_incoming: "sendSigned P M now i t r p c = (c', x) \<Longrightarrow> incoming c' = incoming c"
  by (auto simp: sendSigned_def net_Send_def split: sum.splits if_splits)

lemma sendPolicy_incoming: "sendPolicy P M now rnd s cfg c = (c', x) \<Longrightarrow> incoming c' = incoming c"
  by (auto simp: sendPolicy_def session_Send_def net_Send_def split: sum.splits if_splits)

text \<open>
  C7. What the initiator knows after a handshake, whatever the network and the other side did: the peer
  identity of the session signed a fresh acknowledgement echoing this run's random nonce, the session
  key was derived from this run's ephemeral key and the ephemeral key in that acknowledgement, and the
  same identity signed a policy that arrived encrypted under that session key in the right direction.
\<close>

theorem Initiate_authentic:
  assumes "Initiate P M clk rnd cfg c = (c', Inr s)"
  shows "\<exists>ack caps nonceB sessPub ua ephPub ephPriv.
    Encode ack \<in> set (incoming c) \<and> acceptable P ack \<and> Type ack = MsgPeerAck \<and> Sender ack = PeerIdentity s \<and>
    ValidateTimestamp (Timestamp ack) (clk 1) = Inr () \<and>
    DecodePayload M (Payload ack) (HelloAckPayload 0 (zero_array 32) (zero_array 32) (zero_array 32) []) =
      Inr (HelloAckPayload caps nonceB (to_array 32 (rnd_nonce rnd)) sessPub ua) \<and>
    GenerateX25519 P (rnd_eph rnd) = Inr (ephPub, ephPriv) \<and>
    DeriveSharedKey P ephPriv sessPub sessionKeyInfo = Inr (skey s) \<and>
    (\<exists>f \<in> set (incoming c). \<exists>pol. acceptable P pol \<and> Sender pol = PeerIdentity s \<and> Type pol = MsgPeerPolicy \<and>
       Decrypt P (skey s) (take 24 f) (drop 24 f) aadResponderToInitiator = Inr (Encode pol) \<and>
       DecodePayload M (Payload pol) zero_policy = Inr (SPolicy s))"
proof -
  obtain c1 c2 c3 c4 ack caps nonceB sessPub ua ephPub ephPriv s0 s1 where
    i: "sendSigned P M (clk 0) (Identity cfg) MsgPeerHello Broadcast
          (HelloPayload (Capabilities cfg) (to_array 32 (rnd_nonce rnd)) (UserAgent cfg)) c = (c1, Inr ())"
      "recvHandshake P (clk 1) MsgPeerAck c1 = (c2, Inr ack)"
      "DecodePayload M (Payload ack) (HelloAckPayload 0 (zero_array 32) (zero_array 32) (zero_array 32) []) =
         Inr (HelloAckPayload caps nonceB (to_array 32 (rnd_nonce rnd)) sessPub ua)"
      "GenerateX25519 P (rnd_eph rnd) = Inr (ephPub, ephPriv)"
      "sendSigned P M (clk 2) (Identity cfg) MsgPeerComplete (Sender ack) (HelloCompletePayload nonceB ephPub) c2 = (c3, Inr ())"
      "deriveSession P ephPriv sessPub True = Inr s0"
      "s1 = s0\<lparr>PeerIdentity := Sender ack, SCapabilities := caps, SUserAgent := ua\<rparr>"
      "sendPolicy P M (clk 3) (rnd_aead rnd) s1 cfg c3 = (c4, Inr ())" "recvPolicy P M (clk 4) s1 c4 = (c', Inr s)"
    using assms unfolding Initiate_Inr by blast
  note a = recvHandshake_Inr [OF i(2)] and p = recvPolicy_Inr [OF i(9)] and k = deriveSession_Inr [OF i(6)]
  have inc: "incoming c = Encode ack # incoming c4"
    using a sendSigned_incoming [OF i(1)] sendSigned_incoming [OF i(5)] sendPolicy_incoming [OF i(8)] by simp
  have s: "skey s = skey s0" "PeerIdentity s = Sender ack" using p(2) i(7) by auto
  have "\<exists>f \<in> set (incoming c). \<exists>pol. acceptable P pol \<and> Sender pol = PeerIdentity s \<and> Type pol = MsgPeerPolicy \<and>
       Decrypt P (skey s) (take 24 f) (drop 24 f) aadResponderToInitiator = Inr (Encode pol) \<and>
       DecodePayload M (Payload pol) zero_policy = Inr (SPolicy s)"
    using p i(7) k inc by auto
  then show ?thesis using a i(3,4) k s inc by auto
qed

theorem Initiate_authentic_witness:
  "\<exists>c c' s. Initiate demo_prims demo_hs_pack (p_clk (demo_party 1)) (p_rnd (demo_party 1)) (p_cfg (demo_party 1)) c = (c', Inr s) \<and>
     (\<exists>ack. Encode ack \<in> set (incoming c) \<and> acceptable demo_prims ack \<and> Sender ack = PeerIdentity s)"
proof -
  obtain key where h: "honest demo_prims demo_hs_pack key (demo_party 1) (demo_party 2)" using demo_honest by blast
  note i = Initiate_completes [OF demo_sizes_ok demo_sign_ok demo_aead_ok demo_hs_pack_ok h]
  from Initiate_authentic [OF i] i show ?thesis by blast
qed

text \<open>
  C8. What the responder knows: one identity signed both the hello and a fresh completion echoing this
  run's random nonce, the session key comes from this run's ephemeral key and the one in the
  completion, and the same identity signed a policy that arrived encrypted under that session key.
\<close>

theorem Respond_authentic:
  assumes "Respond P M clk rnd cfg c = (c', Inr s)"
  shows "\<exists>hello compl sessPub ephPub ephPriv.
    acceptable P hello \<and> Type hello = MsgPeerHello \<and> Sender hello = PeerIdentity s \<and>
    acceptable P compl \<and> Type compl = MsgPeerComplete \<and> Sender compl = PeerIdentity s \<and>
    ValidateTimestamp (Timestamp compl) (clk 2) = Inr () \<and> Encode compl \<in> set (incoming c) \<and>
    DecodePayload M (Payload compl) (HelloCompletePayload (zero_array 32) (zero_array 32)) =
      Inr (HelloCompletePayload (to_array 32 (rnd_nonce rnd)) sessPub) \<and>
    GenerateX25519 P (rnd_eph rnd) = Inr (ephPub, ephPriv) \<and>
    DeriveSharedKey P ephPriv sessPub sessionKeyInfo = Inr (skey s) \<and>
    (\<exists>f \<in> set (incoming c). \<exists>pol. acceptable P pol \<and> Sender pol = PeerIdentity s \<and> Type pol = MsgPeerPolicy \<and>
       Decrypt P (skey s) (take 24 f) (drop 24 f) aadInitiatorToResponder = Inr (Encode pol))"
proof -
  obtain c1 c2 c3 c4 hello caps nonceA ua ephPub ephPriv compl sessPub s0 s1 where
    i: "recvHandshake P (clk 0) MsgPeerHello c = (c1, Inr hello)"
      "GenerateX25519 P (rnd_eph rnd) = Inr (ephPub, ephPriv)"
      "sendSigned P M (clk 1) (Identity cfg) MsgPeerAck (Sender hello)
         (HelloAckPayload (Capabilities cfg) (to_array 32 (rnd_nonce rnd)) nonceA ephPub (UserAgent cfg)) c1 = (c2, Inr ())"
      "recvHandshake P (clk 2) MsgPeerComplete c2 = (c3, Inr compl)" "Sender compl = Sender hello"
      "DecodePayload M (Payload compl) (HelloCompletePayload (zero_array 32) (zero_array 32)) =
         Inr (HelloCompletePayload (to_array 32 (rnd_nonce rnd)) sessPub)"
      "deriveSession P ephPriv sessPub False = Inr s0"
      "s1 = s0\<lparr>PeerIdentity := Sender hello, SCapabilities := caps, SUserAgent := ua\<rparr>"
      "recvPolicy P M (clk 3) s1 c3 = (c4, Inr s)"
    using assms unfolding Respond_Inr by blast
  note a = recvHandshake_Inr [OF i(1)] and b = recvHandshake_Inr [OF i(4)] and p = recvPolicy_Inr [OF i(9)]
    and k = deriveSession_Inr [OF i(7)]
  have inc: "incoming c = Encode hello # Encode compl # incoming c3"
    using a b sendSigned_incoming [OF i(3)] by simp
  have s: "skey s = skey s0" "PeerIdentity s = Sender hello" using p(2) i(8) by auto
  have "\<exists>f \<in> set (incoming c). \<exists>pol. acceptable P pol \<and> Sender pol = PeerIdentity s \<and> Type pol = MsgPeerPolicy \<and>
       Decrypt P (skey s) (take 24 f) (drop 24 f) aadInitiatorToResponder = Inr (Encode pol)"
    using p i(8) k inc by auto
  moreover have "Encode compl \<in> set (incoming c)" using inc by simp
  ultimately show ?thesis
    using a b i(2,5,6) k s
    by (intro exI [of _ hello] exI [of _ compl] exI [of _ sessPub] exI [of _ ephPub] exI [of _ ephPriv]) simp
qed

theorem Respond_authentic_witness:
  "\<exists>c c' s. Respond demo_prims demo_hs_pack (p_clk (demo_party 2)) (p_rnd (demo_party 2)) (p_cfg (demo_party 2)) c = (c', Inr s) \<and>
     (\<exists>compl. Encode compl \<in> set (incoming c) \<and> acceptable demo_prims compl \<and> Sender compl = PeerIdentity s)"
proof -
  obtain key where h: "honest demo_prims demo_hs_pack key (demo_party 1) (demo_party 2)" using demo_honest by blast
  note i = Respond_completes [OF demo_sizes_ok demo_sign_ok demo_aead_ok demo_dh_ok demo_hs_pack_ok h]
  from Respond_authentic [OF i] i show ?thesis by blast
qed

text \<open>
  No reflection: a frame a node sent over its session is rejected when it is played back to it, and is
  accepted unchanged by the other end, which holds the same key and the mirrored direction tags.
\<close>

theorem session_direction:
  assumes "sizes_ok P" "aead_ok P" "reflect_ok P" "acceptable P env"
    and "deriveSession P privA pubB ini = Inr s" "deriveSession P privB pubA (\<not> ini) = Inr r"
    and "DeriveSharedKey P privA pubB sessionKeyInfo = DeriveSharedKey P privB pubA sessionKeyInfo"
  shows "session_open P r (session_frame P rnd s env) = Some env \<and>
    session_open P s (session_frame P rnd s env) = None"
proof -
  note s = deriveSession_Inr [OF assms(5)] and r = deriveSession_Inr [OF assms(6)]
  have "session_open P r (session_frame P rnd s env) = Some env"
    using s r assms(7) by (intro session_open_frame assms(1,2,4)) auto
  moreover have "session_open P s (session_frame P rnd s env) = None"
  proof -
    obtain nonce ct where e: "Encrypt P rnd (skey s) (Encode env) (sendAAD s) = (nonce, ct)"
      by (cases "Encrypt P rnd (skey s) (Encode env) (sendAAD s)")
    have "length nonce = 24" using length_Encrypt [OF assms(1) e] by simp
    moreover have "aead_open P (skey s) nonce ct (recvAAD s) = None"
      using e s assms(3) by (auto simp: Encrypt_def Let_def reflect_ok_def)
    ultimately show ?thesis by (simp add: session_open_def session_frame_def e Decrypt_def)
  qed
  ultimately show ?thesis ..
qed

theorem session_direction_witness:
  "\<exists>env s. acceptable demo_prims env \<and> session_open demo_prims s (session_frame demo_prims [9] s env) = None"
proof -
  obtain e where e: "NewEnvelope demo_prims 7 (demo_key 3) MsgChat Broadcast [1, 2, 3] = Inr e"
    using wf_priv_length [OF demo_key_wf] by (simp add: NewEnvelope_def LocalOnly_def Sign_def Let_def)
  have a: "acceptable demo_prims e"
    by (rule NewEnvelope_acceptable [OF demo_sizes_ok demo_sign_ok demo_key_wf length_Broadcast e])
  define z where "z = replicate 32 (0 :: byte)"
  obtain s where s: "deriveSession demo_prims z z True = Inr s" by (simp add: deriveSession_def DeriveSharedKey_def demo_prims_def)
  obtain r where r: "deriveSession demo_prims z z (\<not> True) = Inr r" by (simp add: deriveSession_def DeriveSharedKey_def demo_prims_def)
  from session_direction [OF demo_sizes_ok demo_aead_ok demo_reflect_ok a s r refl] a show ?thesis by blast
qed

end
