(* ===== verification/Gandr_Peers.thy ===== *)
theory Gandr_Peers
  imports Gandr_Federation
begin

text \<open>
  \<^verbatim>\<open>pkg/federation/peers.go\<close>: the peer table. Sessions are shared by pointer with the goroutines that pump
  them, so a peer holds the pointer (a number) of its session, and operations that close sessions return
  the pointers they close.
\<close>

datatype table_error = ErrTableFull | ErrUnknownPeer | ErrBadTrust

record Peer =
  PIdentity :: bytes
  Addr :: PeerAddr
  Trust :: byte
  PCapabilities :: "32 word"
  PUserAgent :: gostring
  PPolicy :: Payload
  ConnectedAt :: instant
  LastSeen :: instant
  PSession :: "nat option"

definition Vouched :: "Peer \<Rightarrow> bool" where
  "Vouched p \<longleftrightarrow> Trust p \<ge> TrustVouched"

record Table =
  tpeers :: "(bytes \<times> Peer) list"
  maxPeers :: int
  defaultTrust :: byte

definition NewTable :: "int \<Rightarrow> byte \<Rightarrow> table_error + Table" where
  "NewTable limit trust =
     (if trust > TrustVouched then Inl ErrBadTrust
      else Inr \<lparr>tpeers = [], maxPeers = limit, defaultTrust = trust\<rparr>)"

text \<open>\<^verbatim>\<open>Add\<close> of the session with pointer \<open>sid\<close>: the table, the sessions closed and the peer.\<close>

definition Add :: "instant \<Rightarrow> nat \<Rightarrow> Session \<Rightarrow> PeerAddr \<Rightarrow> Table \<Rightarrow> Table \<times> nat list \<times> (table_error + Peer)" where
  "Add now sid sess adr t =
     (case map_of (tpeers t) (PeerIdentity sess) of
        Some existing \<Rightarrow>
          let closes = (case PSession existing of
                          Some old \<Rightarrow> if old \<noteq> sid then [old] else []
                        | None \<Rightarrow> []);
              p = existing\<lparr>PSession := Some sid, Addr := adr, PCapabilities := SCapabilities sess,
                           PUserAgent := SUserAgent sess, PPolicy := SPolicy sess,
                           ConnectedAt := now, LastSeen := now\<rparr>
          in (t\<lparr>tpeers := AList.update (PeerIdentity sess) p (tpeers t)\<rparr>, closes, Inr p)
      | None \<Rightarrow>
          if int (length (tpeers t)) \<ge> maxPeers t then (t, [], Inl ErrTableFull)
          else
            let p = \<lparr>PIdentity = PeerIdentity sess, Addr = adr, Trust = defaultTrust t,
                     PCapabilities = SCapabilities sess, PUserAgent = SUserAgent sess,
                     PPolicy = SPolicy sess, ConnectedAt = now, LastSeen = now, PSession = Some sid\<rparr>
            in (t\<lparr>tpeers := AList.update (PeerIdentity sess) p (tpeers t)\<rparr>, [], Inr p))"

definition table_Get :: "bytes \<Rightarrow> Table \<Rightarrow> Peer option" where
  "table_Get identity t = map_of (tpeers t) identity"

definition RemoveSession :: "bytes \<Rightarrow> nat \<Rightarrow> Table \<Rightarrow> Table \<times> nat list" where
  "RemoveSession identity sid t =
     (case map_of (tpeers t) identity of
        None \<Rightarrow> (t, [])
      | Some p \<Rightarrow>
          if PSession p \<noteq> Some sid then (t, [])
          else (t\<lparr>tpeers := AList.delete identity (tpeers t)\<rparr>, [sid]))"

definition Remove :: "bytes \<Rightarrow> Table \<Rightarrow> Table \<times> nat list" where
  "Remove identity t =
     (t\<lparr>tpeers := AList.delete identity (tpeers t)\<rparr>,
      case map_of (tpeers t) identity of
        Some p \<Rightarrow> (case PSession p of Some sid \<Rightarrow> [sid] | None \<Rightarrow> [])
      | None \<Rightarrow> [])"

definition SetTrust :: "bytes \<Rightarrow> byte \<Rightarrow> Table \<Rightarrow> Table \<times> (table_error + unit)" where
  "SetTrust identity trust t =
     (if trust > TrustVouched then (t, Inl ErrBadTrust)
      else case map_of (tpeers t) identity of
        None \<Rightarrow> (t, Inl ErrUnknownPeer)
      | Some p \<Rightarrow> (t\<lparr>tpeers := AList.update identity (p\<lparr>Trust := trust\<rparr>) (tpeers t)\<rparr>, Inr ()))"

definition Touch :: "instant \<Rightarrow> bytes \<Rightarrow> Table \<Rightarrow> Table" where
  "Touch now identity t =
     (case map_of (tpeers t) identity of
        None \<Rightarrow> t
      | Some p \<Rightarrow> t\<lparr>tpeers := AList.update identity (p\<lparr>LastSeen := now\<rparr>) (tpeers t)\<rparr>)"

definition table_List :: "Table \<Rightarrow> Peer list" where
  "table_List t = map snd (tpeers t)"

definition table_Count :: "Table \<Rightarrow> nat" where
  "table_Count t = length (tpeers t)"

section \<open>The table invariant\<close>

datatype table_op =
    OpAdd instant nat Session PeerAddr
  | OpRemoveSession bytes nat
  | OpRemove bytes
  | OpSetTrust bytes byte
  | OpTouch instant bytes

fun table_step :: "Table \<Rightarrow> table_op \<Rightarrow> Table" where
  "table_step t (OpAdd now sid sess adr) = fst (Add now sid sess adr t)"
| "table_step t (OpRemoveSession i sid) = fst (RemoveSession i sid t)"
| "table_step t (OpRemove i) = fst (Remove i t)"
| "table_step t (OpSetTrust i trust) = fst (SetTrust i trust t)"
| "table_step t (OpTouch now i) = Touch now i t"

definition table_inv :: "Table \<Rightarrow> bool" where
  "table_inv t \<longleftrightarrow>
     distinct (map fst (tpeers t)) \<and> int (length (tpeers t)) \<le> max 0 (maxPeers t) \<and>
     defaultTrust t \<le> TrustVouched \<and>
     (\<forall>(i, p) \<in> set (tpeers t). PIdentity p = i \<and> Trust p \<le> TrustVouched)"

lemma set_AList_update: "set (AList.update k v xs) \<subseteq> insert (k, v) (set xs)"
  by (induction xs) auto

lemma length_update_known: "map_of xs k = Some w \<Longrightarrow> length (AList.update k v xs) = length xs"
  by (induction xs) (auto split: if_splits)

lemma length_update_new: "map_of xs k = None \<Longrightarrow> length (AList.update k v xs) = Suc (length xs)"
  by (induction xs) (auto split: if_splits)

lemma length_delete_le: "length (AList.delete k xs) \<le> length xs"
  by (simp add: AList.delete_eq)

lemma table_inv_update:
  assumes "table_inv t" "map_of (tpeers t) i = Some old" "PIdentity p = i" "Trust p \<le> TrustVouched"
  shows "table_inv (t\<lparr>tpeers := AList.update i p (tpeers t)\<rparr>)"
  using assms set_AList_update [of i p "tpeers t"] length_update_known [OF assms(2), of p]
  by (auto simp: table_inv_def distinct_update)

lemma table_inv_known:
  "table_inv t \<Longrightarrow> map_of (tpeers t) i = Some p \<Longrightarrow> PIdentity p = i \<and> Trust p \<le> TrustVouched"
  by (auto simp: table_inv_def dest: map_of_SomeD)

lemma table_inv_delete:
  assumes "table_inv t"
  shows "table_inv (t\<lparr>tpeers := AList.delete i (tpeers t)\<rparr>)"
proof -
  have "set (AList.delete i (tpeers t)) \<subseteq> set (tpeers t)" by (auto simp: AList.delete_eq)
  moreover have "int (length (AList.delete i (tpeers t))) \<le> int (length (tpeers t))"
    using length_delete_le [of i "tpeers t"] by simp
  ultimately show ?thesis using assms unfolding table_inv_def by (auto simp: distinct_delete)
qed

lemma Add_inv:
  assumes inv: "table_inv t"
  shows "table_inv (fst (Add now sid sess adr t))"
proof (cases "map_of (tpeers t) (PeerIdentity sess)")
  case None
  show ?thesis
  proof (cases "int (length (tpeers t)) \<ge> maxPeers t")
    case True
    then show ?thesis using None inv by (simp add: Add_def)
  next
    case False
    then show ?thesis
      using None inv set_AList_update length_update_new [OF None]
      by (fastforce simp: Add_def table_inv_def distinct_update Let_def)
  qed
next
  case (Some p)
  then show ?thesis
    using table_inv_known [OF inv Some] by (simp add: Add_def Let_def table_inv_update [OF inv Some])
qed

lemma table_step_inv: "table_inv t \<Longrightarrow> table_inv (table_step t op)"
proof (cases op)
  case (OpAdd now sid sess adr)
  assume "table_inv t"
  then show ?thesis by (simp add: OpAdd Add_inv)
next
  case (OpRemoveSession i sid)
  assume "table_inv t"
  then show ?thesis by (simp add: OpRemoveSession RemoveSession_def table_inv_delete split: option.splits)
next
  case (OpRemove i)
  assume "table_inv t"
  then show ?thesis by (simp add: OpRemove Remove_def table_inv_delete)
next
  case (OpSetTrust i trust)
  assume "table_inv t"
  then show ?thesis
    using table_inv_known table_inv_update by (auto simp: OpSetTrust SetTrust_def split: option.splits)
next
  case (OpTouch now i)
  assume "table_inv t"
  then show ?thesis
    using table_inv_known table_inv_update by (auto simp: OpTouch Touch_def split: option.splits)
qed

interpretation tablerun: run_invariant table_step table_inv
  by unfold_locales (rule table_step_inv)

text \<open>
  The peer table stays within its limits: after any sequence of connects, disconnects, trust changes
  and touches, a table created for n peers holds at most n, each under its own identity key once, and no
  peer has a trust level above the highest one.
\<close>

theorem table_limits:
  assumes "NewTable n trust = Inr t0"
  shows "let t = foldl table_step t0 ops in
    int (table_Count t) \<le> max 0 n \<and> distinct (map PIdentity (table_List t)) \<and>
    (\<forall>p \<in> set (table_List t). Trust p \<le> TrustVouched \<and> table_Get (PIdentity p) t = Some p)"
proof -
  let ?t = "foldl table_step t0 ops"
  have "table_inv t0" using assms by (auto simp: NewTable_def table_inv_def split: if_splits)
  then have inv: "table_inv ?t" by (rule tablerun.run_inv)
  have "maxPeers (table_step t op) = maxPeers t" for t op
    by (cases op) (auto simp: Add_def RemoveSession_def Remove_def SetTrust_def Touch_def Let_def split: option.splits)
  then have "maxPeers (foldl table_step t ops) = maxPeers t" for t
    by (induction ops arbitrary: t) auto
  moreover have "maxPeers t0 = n" using assms by (auto simp: NewTable_def split: if_splits)
  moreover have "map PIdentity (table_List ?t) = map fst (tpeers ?t)"
    using inv by (auto simp: table_inv_def table_List_def)
  moreover have "Trust p \<le> TrustVouched \<and> table_Get (PIdentity p) ?t = Some p" if p: "p \<in> set (table_List ?t)" for p
  proof -
    obtain i where "(i, p) \<in> set (tpeers ?t)" using p by (auto simp: table_List_def)
    then show ?thesis using inv by (auto simp: table_inv_def table_Get_def)
  qed
  ultimately show ?thesis using inv by (simp add: table_inv_def Let_def table_Count_def)
qed

theorem table_limits_witness:
  "\<exists>t0. NewTable 2 TrustNeutral = Inr t0 \<and>
     int (table_Count (foldl table_step t0 [OpSetTrust [1] 3, OpTouch 5 [1], OpRemove [1]])) \<le> 2"
proof -
  obtain t0 where t: "NewTable 2 TrustNeutral = Inr t0" by (simp add: NewTable_def)
  from table_limits [OF t, of "[OpSetTrust [1] 3, OpTouch 5 [1], OpRemove [1]]"] t show ?thesis
    by (auto simp: Let_def simp del: foldl.simps table_step.simps)
qed

text \<open>
  Reconnecting keeps what was earned and closes what it replaces: adding a session for an identity
  already in the table replaces its session, address and announced data, keeps its trust level, closes
  exactly the old session (and nothing when it is the same one), and leaves every other peer alone; the
  late cleanup of the old session then removes nothing.
\<close>

theorem reconnect_keeps_trust:
  assumes "table_Get (PeerIdentity sess) t = Some old" "PSession old = Some oldSid" "oldSid \<noteq> sid"
  shows "\<exists>t' p. Add now sid sess adr t = (t', [oldSid], Inr p) \<and>
    Trust p = Trust old \<and> PSession p = Some sid \<and> table_Get (PeerIdentity sess) t' = Some p \<and>
    (\<forall>i. i \<noteq> PeerIdentity sess \<longrightarrow> table_Get i t' = table_Get i t) \<and>
    RemoveSession (PeerIdentity sess) oldSid t' = (t', [])"
  using assms by (auto simp: Add_def table_Get_def RemoveSession_def Let_def update_conv)

theorem reconnect_keeps_trust_witness:
  "\<exists>t' p. Add 9 2 \<lparr>skey = [], sendAAD = [], recvAAD = [], PeerIdentity = [7], SCapabilities = 0, SUserAgent = [], SPolicy = zero_policy\<rparr>
      \<lparr>YggKey = [], IPPort = []\<rparr>
      \<lparr>tpeers = [([7], \<lparr>PIdentity = [7], Addr = \<lparr>YggKey = [], IPPort = []\<rparr>, Trust = 3, PCapabilities = 0, PUserAgent = [],
         PPolicy = zero_policy, ConnectedAt = 0, LastSeen = 0, PSession = Some 1\<rparr>)], maxPeers = 1, defaultTrust = 1\<rparr> =
      (t', [1], Inr p) \<and> Trust p = 3"
  using reconnect_keeps_trust [of
    "\<lparr>skey = [], sendAAD = [], recvAAD = [], PeerIdentity = [7], SCapabilities = 0, SUserAgent = [], SPolicy = zero_policy\<rparr>"
    "\<lparr>tpeers = [([7], \<lparr>PIdentity = [7], Addr = \<lparr>YggKey = [], IPPort = []\<rparr>, Trust = 3, PCapabilities = 0, PUserAgent = [],
         PPolicy = zero_policy, ConnectedAt = 0, LastSeen = 0, PSession = Some 1\<rparr>)], maxPeers = 1, defaultTrust = 1\<rparr>"
    "\<lparr>PIdentity = [7], Addr = \<lparr>YggKey = [], IPPort = []\<rparr>, Trust = 3, PCapabilities = 0, PUserAgent = [],
         PPolicy = zero_policy, ConnectedAt = 0, LastSeen = 0, PSession = Some 1\<rparr>" 1 2 9 "\<lparr>YggKey = [], IPPort = []\<rparr>"]
  by (auto simp: table_Get_def)

end
