(* ===== verification/Gandr_Store.thy ===== *)
theory Gandr_Store
  imports Gandr_Payloads
begin

text \<open>
  \<^verbatim>\<open>pkg/store/store.go\<close>: the content-addressed object store. The files under the object directory are an
  association list from path to contents, in the order a directory walk visits them; the operations are
  functions on it, with an argument for the I/O faults of the calls they make. \<^verbatim>\<open>Put\<close> also yields the
  list of states the disk passes through, so that a crash between two system calls, or in the middle of
  the write, is one of them. The locale \<open>content_store\<close> is what the daemon relies on; the file system
  implements it.
\<close>

type_synonym fs = "(gostring \<times> bytes) list"

datatype store_error =
    ErrNotFound
  | ErrBadHash
  | ErrStoreMkdir
  | ErrStoreCreate
  | ErrStoreChmod
  | ErrStoreWrite
  | ErrStoreClose
  | ErrStoreRename
  | ErrStoreRead
  | ErrStoreDelete
  | ErrStoreWalk

record Store =
  objects :: gostring

definition slash :: byte where "slash = 47"

definition Join :: "gostring \<Rightarrow> gostring \<Rightarrow> gostring" where
  "Join a b = a @ slash # b"

definition StoreOpen :: "gostring \<Rightarrow> bool \<Rightarrow> store_error + Store" where
  "StoreOpen root mkdirOk =
     (let objs = Join root (str ''objects'') in
      if \<not> mkdirOk then Inl ErrStoreMkdir else Inr \<lparr>objects = objs\<rparr>)"

definition path :: "Store \<Rightarrow> bytes \<Rightarrow> gostring \<times> gostring" where
  "path s hash =
     (let h = EncodeToString hash; dir = Join (objects s) (take 2 h) in (dir, Join dir h))"

definition Stat :: "fs \<Rightarrow> gostring \<Rightarrow> bool" where
  "Stat disk f \<longleftrightarrow> map_of disk f \<noteq> None"

section \<open>Operations\<close>

text \<open>
  The system call of \<^verbatim>\<open>Put\<close> that fails, if any; a failing write leaves the given number of bytes.
\<close>

datatype put_fault =
    PutOk
  | FailMkdir
  | FailCreate
  | FailChmod
  | FailWrite nat
  | FailClose
  | FailRename

text \<open>
  \<^verbatim>\<open>Put\<close> as the sequence of disk states it passes through, the hash and the result. \<open>tmp\<close> is the random
  part of the temporary file's name. The deferred \<^verbatim>\<open>os.Remove\<close> is the last state of every path after
  the file was created; while the contents are being written any prefix may be on disk.
\<close>

definition Put_run ::
  "prims \<Rightarrow> Store \<Rightarrow> gostring \<Rightarrow> put_fault \<Rightarrow> Envelope \<Rightarrow> fs \<Rightarrow> fs list \<times> bytes \<times> (store_error + bool)" where
  "Put_run P s tmp flt env disk =
     (let hash = ContentID P env; (dir, file) = path s hash in
      if Stat disk file then ([disk], hash, Inr True)
      else if flt = FailMkdir then ([disk], hash, Inl ErrStoreMkdir)
      else if flt = FailCreate then ([disk], hash, Inl ErrStoreCreate)
      else
        let t = Join dir (str ''.tmp-'' @ tmp);
            data = Encode env;
            created = [disk, AList.update t [] disk];
            writing = map (\<lambda>k. AList.update t (take k data) disk) [0..<Suc (length data)];
            written = AList.update t data disk;
            renamed = AList.update file data (AList.delete t written)
        in case flt of
             FailChmod \<Rightarrow> (created @ [AList.delete t (AList.update t [] disk)], hash, Inl ErrStoreChmod)
           | FailWrite n \<Rightarrow>
               (created @ writing @ [AList.delete t (AList.update t (take n data) disk)], hash, Inl ErrStoreWrite)
           | FailClose \<Rightarrow> (created @ writing @ [AList.delete t written], hash, Inl ErrStoreClose)
           | FailRename \<Rightarrow> (created @ writing @ [AList.delete t written], hash, Inl ErrStoreRename)
           | _ \<Rightarrow> (created @ writing @ [renamed, AList.delete t renamed], hash, Inr False))"

definition Put ::
  "prims \<Rightarrow> Store \<Rightarrow> gostring \<Rightarrow> put_fault \<Rightarrow> Envelope \<Rightarrow> fs \<Rightarrow> fs \<times> bytes \<times> (store_error + bool)" where
  "Put P s tmp flt env disk =
     (case Put_run P s tmp flt env disk of (states, hash, res) \<Rightarrow> (last states, hash, res))"

text \<open>\<open>readErr\<close>: reading fails for another reason than absence.\<close>

definition Get :: "prims \<Rightarrow> Store \<Rightarrow> bool \<Rightarrow> bytes \<Rightarrow> fs \<Rightarrow> fs \<times> (store_error + Envelope)" where
  "Get P s readErr hash disk =
     (let (_, file) = path s hash in
      case map_of disk file of
        None \<Rightarrow> (disk, Inl ErrNotFound)
      | Some data \<Rightarrow>
          if readErr then (disk, Inl ErrStoreRead)
          else (case Decode P data of
                  Inl _ \<Rightarrow> (AList.delete file disk, Inl ErrNotFound)
                | Inr env \<Rightarrow>
                    if ContentID P env \<noteq> hash then (AList.delete file disk, Inl ErrNotFound)
                    else (disk, Inr env)))"

definition Has :: "Store \<Rightarrow> bytes \<Rightarrow> fs \<Rightarrow> bool" where
  "Has s hash disk = (let (_, file) = path s hash in Stat disk file)"

definition Delete :: "Store \<Rightarrow> bool \<Rightarrow> bytes \<Rightarrow> fs \<Rightarrow> fs \<times> (store_error + unit)" where
  "Delete s rmErr hash disk =
     (let (_, file) = path s hash in
      if \<not> Stat disk file then (disk, Inr ())
      else if rmErr then (disk, Inl ErrStoreDelete)
      else (AList.delete file disk, Inr ()))"

definition ParseHash :: "gostring \<Rightarrow> store_error + bytes" where
  "ParseHash s =
     (if length s \<noteq> 64 then Inl ErrBadHash
      else case DecodeString s of None \<Rightarrow> Inl ErrBadHash | Some b \<Rightarrow> Inr (to_array 32 b))"

abbreviation (input) statusMaxAge :: duration where "statusMaxAge \<equiv> 24 * Hour"

text \<open>What goes wrong at a visited path: the walk itself, reading the file, or removing it.\<close>

datatype walk_fault = WalkOk | WalkFails | ReadFails | RemoveFails

definition prune_limit :: "duration \<Rightarrow> Envelope \<Rightarrow> duration" where
  "prune_limit maxAge env =
     (if Type env = MsgStatus \<and> statusMaxAge < maxAge then statusMaxAge else maxAge)"

fun prune_walk ::
  "prims \<Rightarrow> (gostring \<Rightarrow> walk_fault) \<Rightarrow> duration \<Rightarrow> instant \<Rightarrow> (gostring \<times> bytes) list \<Rightarrow> fs \<times> nat \<Rightarrow>
     (fs \<times> nat) \<times> (store_error + unit)" where
  "prune_walk P flt maxAge now [] st = (st, Inr ())"
| "prune_walk P flt maxAge now ((f, data) # rest) (disk, removed) =
     (case flt f of
        WalkFails \<Rightarrow> ((disk, removed), Inl ErrStoreWalk)
      | ReadFails \<Rightarrow> prune_walk P flt maxAge now rest (disk, removed)
      | fl \<Rightarrow>
          prune_walk P flt maxAge now rest
            (case Decode P data of
               Inl _ \<Rightarrow> (if fl = RemoveFails then disk else AList.delete f disk, Suc removed)
             | Inr env \<Rightarrow>
                 if time_sub now (unix_nano (Timestamp env)) > prune_limit maxAge env \<and> fl \<noteq> RemoveFails
                 then (AList.delete f disk, Suc removed)
                 else (disk, removed)))"

definition Prune ::
  "prims \<Rightarrow> (gostring \<Rightarrow> walk_fault) \<Rightarrow> duration \<Rightarrow> instant \<Rightarrow> fs \<Rightarrow> (fs \<times> nat) \<times> (store_error + unit)" where
  "Prune P flt maxAge now disk = prune_walk P flt maxAge now disk (disk, 0)"

text \<open>\<open>walkErr\<close>: the walk reports an error after the given number of entries.\<close>

definition Count :: "nat option \<Rightarrow> fs \<Rightarrow> nat \<times> (store_error + unit)" where
  "Count walkErr disk =
     (case walkErr of
        Some k \<Rightarrow> (min k (length disk), Inl ErrStoreWalk)
      | None \<Rightarrow> (length disk, Inr ()))"

section \<open>Paths\<close>

definition file_of :: "Store \<Rightarrow> bytes \<Rightarrow> gostring" where
  "file_of s hash = snd (path s hash)"

definition tmp_of :: "Store \<Rightarrow> bytes \<Rightarrow> gostring \<Rightarrow> gostring" where
  "tmp_of s hash tmp = Join (fst (path s hash)) (str ''.tmp-'' @ tmp)"

lemma EncodeToString_inj: "EncodeToString a = EncodeToString b \<Longrightarrow> a = b"
  using hexc.enc_inj [of a b] by simp

lemma file_of_inj: "length a = 32 \<Longrightarrow> length b = 32 \<Longrightarrow> file_of s a = file_of s b \<Longrightarrow> a = b"
  by (rule EncodeToString_inj) (simp add: file_of_def path_def Join_def Let_def)

lemma hex_digit_not_dot: "n < 16 \<Longrightarrow> hex_digit n \<noteq> 46"
proof
  assume "n < 16" "hex_digit n = 46"
  then have "from_hex (46 :: byte) = Some n" using from_hex_hex_digit [of n] by simp
  then show False by (simp add: from_hex_def Let_def)
qed

lemma tmp_of_not_file: "length a = 32 \<Longrightarrow> length b = 32 \<Longrightarrow> tmp_of s a tmp \<noteq> file_of s b"
proof
  assume l: "length a = 32" "length b = 32" and "tmp_of s a tmp = file_of s b"
  then have "str ''.tmp-'' @ tmp = EncodeToString b"
    by (simp add: tmp_of_def file_of_def path_def Join_def Let_def)
  moreover obtain x xs where "b = x # xs" using l(2) by (cases b) auto
  ultimately have "hex_digit (unat x div 16) = 46" by (auto simp: str_def)
  moreover have "unat x div 16 < 16" using unsigned_less [of x, where ?'a = nat] by simp
  ultimately show False using hex_digit_not_dot by blast
qed

lemmas path_unfold = Let_def case_prod_unfold file_of_def [symmetric]

section \<open>Soundness of the files on disk\<close>

text \<open>Every file with the name of a hash holds an acceptable envelope with that content id.\<close>

definition sound :: "prims \<Rightarrow> Store \<Rightarrow> fs \<Rightarrow> bool" where
  "sound P s disk \<longleftrightarrow>
     (\<forall>h data. length h = 32 \<longrightarrow> map_of disk (file_of s h) = Some data \<longrightarrow>
        (\<exists>e. acceptable P e \<and> data = Encode e \<and> ContentID P e = h))"

lemma length_ContentID [simp]: "length (ContentID P e) = 32"
  by (simp add: ContentID_def)

lemma sound_update_tmp: "sound P s disk \<Longrightarrow> length a = 32 \<Longrightarrow> sound P s (AList.update (tmp_of s a tmp) d disk)"
  by (auto simp: sound_def update_conv dest: tmp_of_not_file [of a _ s tmp])

lemma sound_delete: "sound P s disk \<Longrightarrow> sound P s (AList.delete f disk)"
  by (auto simp: sound_def delete_conv split: if_splits)

lemma sound_update_file:
  assumes "sound P s disk" "acceptable P e"
  shows "sound P s (AList.update (file_of s (ContentID P e)) (Encode e) disk)"
  using assms file_of_inj [of "ContentID P e" _ s] by (fastforce simp: sound_def update_conv split: if_splits)

lemmas sound_intros = sound_update_tmp sound_delete sound_update_file

text \<open>The states of \<^verbatim>\<open>Put\<close>, with the paths named.\<close>

lemma Put_run_eq:
  "Put_run P s tmp flt env disk =
     (let hash = ContentID P env; file = file_of s hash; t = tmp_of s hash tmp; data = Encode env;
          created = [disk, AList.update t [] disk];
          writing = map (\<lambda>k. AList.update t (take k data) disk) [0..<Suc (length data)];
          written = AList.update t data disk;
          renamed = AList.update file data (AList.delete t written)
      in if Stat disk file then ([disk], hash, Inr True)
         else case flt of
             FailMkdir \<Rightarrow> ([disk], hash, Inl ErrStoreMkdir)
           | FailCreate \<Rightarrow> ([disk], hash, Inl ErrStoreCreate)
           | FailChmod \<Rightarrow> (created @ [AList.delete t (AList.update t [] disk)], hash, Inl ErrStoreChmod)
           | FailWrite n \<Rightarrow>
               (created @ writing @ [AList.delete t (AList.update t (take n data) disk)], hash, Inl ErrStoreWrite)
           | FailClose \<Rightarrow> (created @ writing @ [AList.delete t written], hash, Inl ErrStoreClose)
           | FailRename \<Rightarrow> (created @ writing @ [AList.delete t written], hash, Inl ErrStoreRename)
           | PutOk \<Rightarrow> (created @ writing @ [renamed, AList.delete t renamed], hash, Inr False))"
  by (cases flt) (simp_all add: Put_run_def path_unfold tmp_of_def del: upt_Suc)

lemma Put_run_states_sound:
  assumes "sound P s disk" "acceptable P env" "d \<in> set (fst (Put_run P s tmp flt env disk))"
  shows "sound P s d"
proof -
  have "length (ContentID P env) = 32" by simp
  then show ?thesis
    using assms unfolding Put_run_eq Let_def
    by (auto split: if_splits put_fault.splits intro!: sound_intros simp del: upt_Suc)
qed

lemma Put_disk:
  "fst (Put P s tmp flt env disk) =
     (let hash = ContentID P env; file = file_of s hash; t = tmp_of s hash tmp in
      if Stat disk file \<or> flt = FailMkdir \<or> flt = FailCreate then disk
      else if flt = PutOk then AList.delete t (AList.update file (Encode env) (AList.delete t (AList.update t (Encode env) disk)))
      else AList.delete t (AList.update t (case flt of FailChmod \<Rightarrow> [] | FailWrite n \<Rightarrow> take n (Encode env) | _ \<Rightarrow> Encode env) disk))"
  by (cases flt) (simp_all add: Put_def Put_run_eq Let_def del: upt_Suc)

lemma Put_result:
  "snd (Put P s tmp flt env disk) =
     (ContentID P env,
      if Stat disk (file_of s (ContentID P env)) then Inr True
      else case flt of
          PutOk \<Rightarrow> Inr False
        | FailMkdir \<Rightarrow> Inl ErrStoreMkdir
        | FailCreate \<Rightarrow> Inl ErrStoreCreate
        | FailChmod \<Rightarrow> Inl ErrStoreChmod
        | FailWrite n \<Rightarrow> Inl ErrStoreWrite
        | FailClose \<Rightarrow> Inl ErrStoreClose
        | FailRename \<Rightarrow> Inl ErrStoreRename)"
  by (cases flt) (simp_all add: Put_def Put_run_eq Let_def del: upt_Suc)

lemma Put_sound: "sound P s disk \<Longrightarrow> acceptable P env \<Longrightarrow> sound P s (fst (Put P s tmp flt env disk))"
  by (auto simp: Put_disk Let_def intro!: sound_intros)

lemma Get_sound: "sound P s disk \<Longrightarrow> sound P s (fst (Get P s rd h disk))"
  by (auto simp: Get_def path_unfold intro: sound_delete split: option.splits sum.splits)

lemma Delete_sound: "sound P s disk \<Longrightarrow> sound P s (fst (Delete s rm h disk))"
  by (auto simp: Delete_def path_unfold intro: sound_delete)

lemma prune_walk_sound: "sound P s disk \<Longrightarrow> sound P s (fst (fst (prune_walk P flt m now fs (disk, n))))"
  by (induction fs arbitrary: disk n)
    (auto simp: sound_delete split: walk_fault.splits sum.splits)

section \<open>The interface of a content store\<close>

text \<open>What a client sees of the store under a hash: the envelope \<^verbatim>\<open>Get\<close> returns.\<close>

definition lookup :: "prims \<Rightarrow> Store \<Rightarrow> fs \<Rightarrow> bytes \<Rightarrow> Envelope option" where
  "lookup P s disk h = (case snd (Get P s False h disk) of Inl _ \<Rightarrow> None | Inr e \<Rightarrow> Some e)"

datatype store_op = OpPut Envelope | OpDelete bytes

text \<open>The specification: a partial map from content id to envelope; the first writer wins.\<close>

fun spec_step :: "(Envelope \<Rightarrow> bytes) \<Rightarrow> (bytes \<Rightarrow> Envelope option) \<Rightarrow> store_op \<Rightarrow> bytes \<Rightarrow> Envelope option" where
  "spec_step cid m (OpPut e) = (case m (cid e) of None \<Rightarrow> m(cid e := Some e) | Some _ \<Rightarrow> m)"
| "spec_step cid m (OpDelete h) = m(h := None)"

fun op_step :: "(Envelope \<Rightarrow> 's \<Rightarrow> 's) \<Rightarrow> (bytes \<Rightarrow> 's \<Rightarrow> 's) \<Rightarrow> 's \<Rightarrow> store_op \<Rightarrow> 's" where
  "op_step put del s (OpPut e) = put e s"
| "op_step put del s (OpDelete h) = del h s"

fun op_ok :: "(Envelope \<Rightarrow> bool) \<Rightarrow> (bytes \<Rightarrow> bool) \<Rightarrow> store_op \<Rightarrow> bool" where
  "op_ok ok key (OpPut e) \<longleftrightarrow> ok e"
| "op_ok ok key (OpDelete h) \<longleftrightarrow> key h"

locale content_store =
  fixes inv :: "'s \<Rightarrow> bool"
    and look :: "'s \<Rightarrow> bytes \<Rightarrow> Envelope option"
    and put :: "Envelope \<Rightarrow> 's \<Rightarrow> 's"
    and del :: "bytes \<Rightarrow> 's \<Rightarrow> 's"
    and cid :: "Envelope \<Rightarrow> bytes"
    and ok :: "Envelope \<Rightarrow> bool"
    and key :: "bytes \<Rightarrow> bool"
  assumes key_cid: "key (cid e)"
    and inv_put: "inv s \<Longrightarrow> ok e \<Longrightarrow> inv (put e s)"
    and inv_del: "inv s \<Longrightarrow> inv (del h s)"
    and look_put: "inv s \<Longrightarrow> ok e \<Longrightarrow> key h \<Longrightarrow>
      look (put e s) h = (if h = cid e \<and> look s h = None then Some e else look s h)"
    and look_del: "inv s \<Longrightarrow> key h \<Longrightarrow> key h' \<Longrightarrow> look (del h s) h' = (if h' = h then None else look s h')"
    and look_cid: "inv s \<Longrightarrow> key h \<Longrightarrow> look s h = Some e \<Longrightarrow> ok e \<and> cid e = h"
begin

lemma op_step_inv: "inv s \<Longrightarrow> op_ok ok key op \<Longrightarrow> inv (op_step put del s op)"
  by (cases op) (auto simp: inv_put inv_del)

lemma op_step_look:
  "inv s \<Longrightarrow> op_ok ok key op \<Longrightarrow> (\<And>h. key h \<Longrightarrow> look s h = m h) \<Longrightarrow> key h \<Longrightarrow>
     look (op_step put del s op) h = spec_step cid m op h"
  by (cases op) (auto simp: look_put look_del key_cid split: option.splits)

text \<open>Any sequence of stores and deletions behaves like the map.\<close>

lemma run_refines:
  assumes "inv s" "list_all (op_ok ok key) ops" "\<And>h. key h \<Longrightarrow> look s h = m h" "key h"
  shows "look (foldl (op_step put del) s ops) h = foldl (spec_step cid) m ops h"
  using assms
proof (induction ops arbitrary: s m)
  case Nil
  then show ?case by simp
next
  case (Cons op ops)
  then show ?case using op_step_inv op_step_look [of s op m] by simp
qed

lemma put_idem: "inv s \<Longrightarrow> ok e \<Longrightarrow> key h \<Longrightarrow> look (put e (put e s)) h = look (put e s) h"
  by (auto simp: look_put inv_put key_cid)

end

lemma sound_Get:
  assumes "sound P s disk" "length h = 32"
  shows "Get P s False h disk =
    (disk, case map_of disk (file_of s h) of
             None \<Rightarrow> Inl ErrNotFound
           | Some data \<Rightarrow> Inr (THE e. acceptable P e \<and> data = Encode e))"
proof (cases "map_of disk (file_of s h)")
  case None
  then show ?thesis by (simp add: Get_def path_unfold)
next
  case (Some data)
  then obtain e where e: "acceptable P e" "data = Encode e" "ContentID P e = h"
    using assms by (auto simp: sound_def)
  moreover have "(THE e. acceptable P e \<and> data = Encode e) = e"
    using e env.enc_inj by blast
  ultimately show ?thesis
    using Some Decode_Encode_acceptable by (simp add: Get_def path_unfold)
qed

lemma lookup_eq:
  assumes "sound P s disk" "length h = 32"
  shows "lookup P s disk h = map_option (\<lambda>data. THE e. acceptable P e \<and> data = Encode e) (map_of disk (file_of s h))"
  using sound_Get [OF assms] by (simp add: lookup_def split: option.splits)

lemma lookup_Encode:
  assumes "sound P s disk" "length h = 32" "map_of disk (file_of s h) = Some (Encode e)" "acceptable P e"
  shows "lookup P s disk h = Some e"
proof -
  have "(THE e'. acceptable P e' \<and> Encode e = Encode e') = e"
    using assms(4) env.enc_inj by blast
  with assms show ?thesis by (simp add: lookup_eq)
qed

lemma lookup_None_iff:
  "sound P s disk \<Longrightarrow> length h = 32 \<Longrightarrow> lookup P s disk h = None \<longleftrightarrow> \<not> Stat disk (file_of s h)"
  by (simp add: lookup_eq Stat_def)

lemma lookup_cong:
  "sound P s d \<Longrightarrow> sound P s d' \<Longrightarrow> length h = 32 \<Longrightarrow>
     map_of d (file_of s h) = map_of d' (file_of s h) \<Longrightarrow> lookup P s d h = lookup P s d' h"
  by (simp add: lookup_eq)

lemma lookup_Some:
  assumes "sound P s disk" "length h = 32" "lookup P s disk h = Some e"
  shows "acceptable P e \<and> ContentID P e = h \<and> map_of disk (file_of s h) = Some (Encode e)"
proof -
  obtain data where d: "map_of disk (file_of s h) = Some data"
    using assms by (auto simp: lookup_eq)
  then obtain e' where "acceptable P e'" "data = Encode e'" "ContentID P e' = h"
    using assms by (auto simp: sound_def)
  with lookup_Encode [OF assms(1,2)] d assms(3) show ?thesis by auto
qed

text \<open>What a path update outside the written object leaves untouched.\<close>

lemma map_of_tmp: "length a = 32 \<Longrightarrow> length h = 32 \<Longrightarrow>
    map_of (AList.update (tmp_of s a tmp) d disk) (file_of s h) = map_of disk (file_of s h)"
  using tmp_of_not_file [of a h s tmp] by (auto simp: update_conv)

lemma map_of_delete_tmp: "length a = 32 \<Longrightarrow> length h = 32 \<Longrightarrow>
    map_of (AList.delete (tmp_of s a tmp) disk) (file_of s h) = map_of disk (file_of s h)"
  using tmp_of_not_file [of a h s tmp] by (auto simp: delete_conv)

lemma map_of_put_file: "length a = 32 \<Longrightarrow> length h = 32 \<Longrightarrow>
    map_of (AList.update (file_of s a) d disk) (file_of s h) =
      (if h = a then Some d else map_of disk (file_of s h))"
  using file_of_inj [of a h s] by (auto simp: update_conv)

lemmas map_of_paths = map_of_tmp map_of_delete_tmp map_of_put_file

lemma lookup_Put:
  assumes "sound P s disk" "acceptable P e" "length h = 32"
  shows "lookup P s (fst (Put P s tmp PutOk e disk)) h =
    (if h = ContentID P e \<and> lookup P s disk h = None then Some e else lookup P s disk h)"
proof (cases "Stat disk (file_of s (ContentID P e))")
  case True
  then have "lookup P s disk (ContentID P e) \<noteq> None" using assms by (simp add: lookup_None_iff)
  with True show ?thesis by (auto simp: Put_disk)
next
  case False
  then have n: "lookup P s disk (ContentID P e) = None" using assms by (simp add: lookup_None_iff)
  let ?d = "fst (Put P s tmp PutOk e disk)"
  have snd: "sound P s ?d" using Put_sound assms by blast
  have m: "map_of ?d (file_of s h) = (if h = ContentID P e then Some (Encode e) else map_of disk (file_of s h))"
    using False assms(3) by (simp add: Put_disk Let_def map_of_paths)
  show ?thesis
  proof (cases "h = ContentID P e")
    case True
    then show ?thesis using lookup_Encode [OF snd assms(3) _ assms(2)] m n by simp
  next
    case False
    then show ?thesis using lookup_cong [OF snd assms(1,3)] m by simp
  qed
qed

lemma lookup_Delete:
  assumes "sound P s disk" "length h = 32" "length h' = 32"
  shows "lookup P s (fst (Delete s False h disk)) h' = (if h' = h then None else lookup P s disk h')"
proof -
  have snd: "sound P s (fst (Delete s False h disk))" using assms(1) by (rule Delete_sound)
  have "map_of (fst (Delete s False h disk)) (file_of s h') = (if h' = h then None else map_of disk (file_of s h'))"
    using file_of_inj [OF assms(2,3), of s] by (auto simp: Delete_def path_unfold Stat_def delete_conv)
  then show ?thesis using lookup_eq [OF snd assms(3)] lookup_eq [OF assms(1,3)] by simp
qed

interpretation disk: content_store "sound P s" "lookup P s" "\<lambda>e d. fst (Put P s tmp PutOk e d)"
    "\<lambda>h d. fst (Delete s False h d)" "ContentID P" "acceptable P" "\<lambda>h. length h = 32" for P s tmp
  by unfold_locales
    (auto simp: Put_sound Delete_sound lookup_Put lookup_Delete dest: lookup_Some)

section \<open>Properties of the store\<close>

lemma demo_sound_Nil: "sound P s []"
  by (simp add: sound_def)

lemma demo_envelope:
  obtains e where "NewEnvelope demo_prims 7 (demo_key 3) MsgChat Broadcast [1, 2, 3] = Inr e"
    and "acceptable demo_prims e"
proof -
  obtain e where e: "NewEnvelope demo_prims 7 (demo_key 3) MsgChat Broadcast [1, 2, 3] = Inr e"
    using wf_priv_length [OF demo_key_wf]
    by (simp add: NewEnvelope_def LocalOnly_def Sign_def Let_def)
  moreover have "acceptable demo_prims e"
    by (rule NewEnvelope_acceptable [OF demo_sizes_ok demo_sign_ok demo_key_wf _ e]) (simp add: Broadcast_def)
  ultimately show thesis by (rule that)
qed

text \<open>
  C10. Crash atomicity of \<^verbatim>\<open>Put\<close>: whichever system call fails, and at whichever intermediate disk state the
  node stops (including a partially written temporary file), every file named by a hash still holds a
  complete valid envelope with that content id, and every other object reads as before; the object being
  stored reads as before or as the new envelope, never as a torn one.
\<close>

theorem Put_crash_atomic:
  assumes "sound P s disk" "acceptable P env" "d \<in> set (fst (Put_run P s tmp flt env disk))" "length h = 32"
  shows "sound P s d \<and>
    (lookup P s d h = lookup P s disk h \<or> h = ContentID P env \<and> lookup P s d h = Some env)"
proof -
  have snd: "sound P s d" using assms(1-3) by (rule Put_run_states_sound)
  have "map_of d (file_of s h) = map_of disk (file_of s h) \<or>
      h = ContentID P env \<and> map_of d (file_of s h) = Some (Encode env)"
    using assms(3,4) unfolding Put_run_eq Let_def
    by (auto simp: map_of_paths split: if_splits put_fault.splits simp del: upt_Suc)
  then show ?thesis
    using snd lookup_cong [OF snd assms(1,4)] lookup_Encode [OF snd assms(4) _ assms(2)] by blast
qed

theorem Put_crash_atomic_witness:
  "\<exists>e. acceptable demo_prims e \<and>
     (\<forall>d \<in> set (fst (Put_run demo_prims \<lparr>objects = str ''o''\<rparr> (str ''1'') (FailWrite 3) e [])).
        sound demo_prims \<lparr>objects = str ''o''\<rparr> d)"
proof -
  obtain e where e: "acceptable demo_prims e" by (rule demo_envelope)
  have "length (replicate 32 (0 :: byte)) = 32" by simp
  then show ?thesis using Put_crash_atomic [OF demo_sound_Nil e] e by blast
qed

text \<open>
  C11. The store is the map it claims to be: after any sequence of \<^verbatim>\<open>Put\<close> and \<^verbatim>\<open>Delete\<close> calls on a sound
  disk, \<^verbatim>\<open>Get\<close> of every hash returns what the specification map holds (the first envelope stored under
  its content id since the last deletion), and nothing else.
\<close>

theorem store_refines_map:
  assumes "sound P s disk" "list_all (op_ok (acceptable P) (\<lambda>h. length h = 32)) ops" "length h = 32"
  shows "lookup P s
      (foldl (op_step (\<lambda>e d. fst (Put P s tmp PutOk e d)) (\<lambda>h d. fst (Delete s False h d))) disk ops) h =
    foldl (spec_step (ContentID P)) (lookup P s disk) ops h"
  using disk.run_refines [OF assms(1,2) _ assms(3)] by simp

theorem store_refines_map_witness:
  "\<exists>e. acceptable demo_prims e \<and>
     lookup demo_prims \<lparr>objects = str ''o''\<rparr>
       (foldl (op_step (\<lambda>e d. fst (Put demo_prims \<lparr>objects = str ''o''\<rparr> [] PutOk e d))
                       (\<lambda>h d. fst (Delete \<lparr>objects = str ''o''\<rparr> False h d))) [] [OpPut e, OpPut e])
       (ContentID demo_prims e) = Some e"
proof -
  obtain e where e: "acceptable demo_prims e" by (rule demo_envelope)
  let ?s = "\<lparr>objects = str ''o''\<rparr>"
  have "lookup demo_prims ?s [] (ContentID demo_prims e) = None"
    by (simp add: lookup_def Get_def path_unfold)
  with e show ?thesis
    using store_refines_map [OF demo_sound_Nil, of demo_prims "[OpPut e, OpPut e]" "ContentID demo_prims e" ?s "[]"]
    by (auto simp del: foldl.simps(2) op_step.simps)
      (simp add: option.case_eq_if, blast)
qed

text \<open>
  \<^verbatim>\<open>Get\<close> never returns a wrong object, sound disk or not: a returned envelope is acceptable and has the
  requested content id, and an object that fails either test is removed and reported as not found.
\<close>

theorem Get_verified:
  "case Get P s False h disk of
     (disk', Inr e) \<Rightarrow> disk' = disk \<and> acceptable P e \<and> ContentID P e = h
   | (disk', Inl err) \<Rightarrow> err = ErrNotFound \<and> disk' = AList.delete (file_of s h) disk"
proof (cases "map_of disk (file_of s h)")
  case None
  then have "AList.delete (file_of s h) disk = disk"
    by (simp add: map_of_eq_None_iff delete_id)
  with None show ?thesis by (simp add: Get_def path_unfold)
next
  case (Some data)
  then show ?thesis
    by (auto simp: Get_def path_unfold split: sum.splits prod.splits if_splits dest!: Decode_Inr)
qed

text \<open>The object survives a pruning pass at time \<open>now\<close>.\<close>

definition keeps :: "prims \<Rightarrow> duration \<Rightarrow> instant \<Rightarrow> gostring \<times> bytes \<Rightarrow> bool" where
  "keeps P maxAge now ent \<longleftrightarrow>
     (case Decode P (snd ent) of
        Inl _ \<Rightarrow> False
      | Inr e \<Rightarrow> time_sub now (unix_nano (Timestamp e)) \<le>
          (if Type e = MsgStatus then min maxAge (24 * Hour) else maxAge))"

lemma prune_walk_ok:
  "prune_walk P (\<lambda>_. WalkOk) m now ents (disk, n) =
     ((filter (\<lambda>x. fst x \<notin> fst ` set (filter (Not \<circ> keeps P m now) ents)) disk,
       n + length (filter (Not \<circ> keeps P m now) ents)), Inr ())"
proof (induction ents arbitrary: disk n)
  case Nil
  then show ?case by simp
next
  case (Cons a ents)
  obtain f data where a: "a = (f, data)" by (cases a)
  show ?case
  proof (cases "keeps P m now a")
    case True
    then obtain e where "Decode P data = Inr e" "\<not> time_sub now (unix_nano (Timestamp e)) > prune_limit m e"
      by (auto simp: keeps_def a prune_limit_def split: sum.splits if_splits)
    with Cons True show ?thesis by (simp add: a)
  next
    case False
    then have "(case Decode P data of Inl _ \<Rightarrow> True | Inr e \<Rightarrow> time_sub now (unix_nano (Timestamp e)) > prune_limit m e)"
      by (auto simp: keeps_def a prune_limit_def split: sum.splits if_splits)
    with Cons False show ?thesis
      by (auto simp: a AList.delete_eq filter_filter intro!: filter_cong split: sum.splits)
  qed
qed

text \<open>
  Pruning removes exactly the expired and the undecodable objects: without I/O faults the disk
  afterwards is the disk before restricted to the objects whose age is within the limit (twenty-four
  hours for status messages, whatever the configured age), in the same order, and the returned number is
  the number of objects removed.
\<close>

theorem Prune_exact:
  assumes "distinct (map fst disk)"
  shows "Prune P (\<lambda>_. WalkOk) maxAge now disk =
    ((filter (keeps P maxAge now) disk, length disk - length (filter (keeps P maxAge now) disk)), Inr ())"
proof -
  have "fst x \<notin> fst ` set (filter (Not \<circ> keeps P maxAge now) disk) \<longleftrightarrow> keeps P maxAge now x"
    if "x \<in> set disk" for x
    using assms that by (force simp: distinct_map inj_on_def)
  then have "filter (\<lambda>x. fst x \<notin> fst ` set (filter (Not \<circ> keeps P maxAge now) disk)) disk =
      filter (keeps P maxAge now) disk"
    by (rule filter_cong [OF refl])
  moreover have "length (filter (Not \<circ> keeps P maxAge now) disk) =
      length disk - length (filter (keeps P maxAge now) disk)"
    using sum_length_filter_compl [of "keeps P maxAge now" disk] by (simp add: comp_def)
  ultimately show ?thesis unfolding Prune_def prune_walk_ok by simp
qed

theorem Prune_exact_witness:
  "Prune demo_prims (\<lambda>_. WalkOk) 5 9 [(str ''a'', [1]), (str ''b'', [])] = (([], 2), Inr ())"
proof -
  have "Decode demo_prims [1] = Inl ErrTooShort" "Decode demo_prims [] = Inl ErrTooShort"
    by (simp_all add: Decode_def)
  then have "filter (keeps demo_prims 5 9) [(str ''a'', [1]), (str ''b'', [])] = []"
    by (simp add: keeps_def)
  moreover have "distinct (map fst [(str ''a'', [1 :: byte]), (str ''b'', [])])" by (simp add: str_def)
  ultimately show ?thesis
    using Prune_exact [of "[(str ''a'', [1]), (str ''b'', [])]" demo_prims 5 9] by simp
qed

text \<open>
  References resolve: a string is accepted by payload validation as a content reference exactly when
  \<^verbatim>\<open>ParseHash\<close> turns it into a hash, and the printed form of every hash parses back to it.
\<close>

theorem ParseHash_references:
  "(validateHash f s False = Inr () \<longleftrightarrow> (\<exists>h. ParseHash s = Inr h)) \<and>
   (\<forall>h. ParseHash (EncodeToString (to_array 32 h)) = Inr (to_array 32 h))"
  by (auto simp: ParseHash_def hash_ref_def dest: DecodeString_length split: option.splits)

end
