(* ===== verification/Gandr_Ipc.thy ===== *)
theory Gandr_Ipc
  imports Gandr_Store
begin

text \<open>
  \<^verbatim>\<open>pkg/ipc\<close>: the local protocol between the daemon and its clients (\<^verbatim>\<open>ipc.go\<close>, \<^verbatim>\<open>server.go\<close>,
  \<^verbatim>\<open>client.go\<close>). A socket is the list of bytes written to it and the number of bytes it still takes
  before it breaks; what arrives on it is a list of bytes that ends where the peer closed. The daemon is
  a parameter of the server through the record \<open>Handler\<close>; a handler also returns the calls it makes on
  its event sink, which the server performs before it replies. MessagePack is the parameter \<open>ipc_pack\<close>.
\<close>

abbreviation (input) IPCSend :: byte where "IPCSend \<equiv> 0x01"
abbreviation (input) IPCSubscribe :: byte where "IPCSubscribe \<equiv> 0x02"
abbreviation (input) IPCUnsubscribe :: byte where "IPCUnsubscribe \<equiv> 0x03"
abbreviation (input) IPCFetch :: byte where "IPCFetch \<equiv> 0x04"
abbreviation (input) IPCPeerList :: byte where "IPCPeerList \<equiv> 0x05"
abbreviation (input) IPCProfile :: byte where "IPCProfile \<equiv> 0x06"
abbreviation (input) IPCTrust :: byte where "IPCTrust \<equiv> 0x07"
abbreviation (input) IPCConnect :: byte where "IPCConnect \<equiv> 0x08"
abbreviation (input) IPCIncoming :: byte where "IPCIncoming \<equiv> 0x80"
abbreviation (input) IPCDelivered :: byte where "IPCDelivered \<equiv> 0x81"
abbreviation (input) IPCPeerUpdate :: byte where "IPCPeerUpdate \<equiv> 0x82"
abbreviation (input) IPCError :: byte where "IPCError \<equiv> 0xFF"

abbreviation (input) ipc_frameMagic :: byte where "ipc_frameMagic \<equiv> 0x49"
abbreviation (input) ipc_frameHeaderSize :: nat where "ipc_frameHeaderSize \<equiv> 10"
abbreviation (input) maxFramePayload :: nat where "maxFramePayload \<equiv> 1048576"

datatype ipc_error =
    ErrBadFrame
  | ErrFrameTooBig
  | ErrClosed
  | ErrHeaderWrite
  | ErrPayloadWrite
  | ErrEOF
  | ErrPayloadRead
  | ErrDaemonUndecodable
  | ErrDaemon gostring
  | ErrContext
  | ErrPeerListDecode
  | ErrReplyDecode proto_error
  | ErrSocketRemove
  | ErrSocketListen
  | ErrSocketChmod

section \<open>Frames\<close>

record Frame =
  FType :: byte
  RequestID :: "32 word"
  FPayload :: bytes

text \<open>An \<^verbatim>\<open>io.Writer\<close> on a socket: \<open>room\<close> is \<^const>\<open>None\<close> while nothing limits it.\<close>

record writer =
  sent :: bytes
  room :: "nat option"

definition io_Write :: "bytes \<Rightarrow> writer \<Rightarrow> writer \<times> bool" where
  "io_Write data w =
     (case room w of
        None \<Rightarrow> (w\<lparr>sent := sent w @ data\<rparr>, True)
      | Some k \<Rightarrow>
          if length data \<le> k then (w\<lparr>sent := sent w @ data, room := Some (k - length data)\<rparr>, True)
          else (w\<lparr>sent := sent w @ take k data, room := Some 0\<rparr>, False))"

definition conn_shut :: "writer \<Rightarrow> writer" where
  "conn_shut w = w\<lparr>room := Some 0\<rparr>"

definition frame_header :: "Frame \<Rightarrow> bytes" where
  "frame_header f =
     [ipc_frameMagic, FType f] @ PutUint32 (RequestID f) @ PutUint32 (of_nat (length (FPayload f)))"

definition WriteFrame :: "Frame \<Rightarrow> writer \<Rightarrow> writer \<times> (ipc_error + unit)" where
  "WriteFrame f w =
     (if length (FPayload f) > maxFramePayload then (w, Inl ErrFrameTooBig)
      else case io_Write (frame_header f) w of
        (w1, ok1) \<Rightarrow>
          if \<not> ok1 then (w1, Inl ErrHeaderWrite)
          else if FPayload f \<noteq> [] then
            (case io_Write (FPayload f) w1 of
               (w2, ok2) \<Rightarrow> if \<not> ok2 then (w2, Inl ErrPayloadWrite) else (w2, Inr ()))
          else (w1, Inr ()))"

text \<open>\<^verbatim>\<open>ReadFrame\<close> on the bytes still to arrive: what is left of them, and the frame.\<close>

definition ReadFrame :: "bytes \<Rightarrow> bytes \<times> (ipc_error + Frame)" where
  "ReadFrame r =
     (if length r < ipc_frameHeaderSize then ([], Inl ErrEOF)
      else
        let hdr = take ipc_frameHeaderSize r; rest = drop ipc_frameHeaderSize r in
        if hdr ! 0 \<noteq> ipc_frameMagic then (rest, Inl ErrBadFrame)
        else
          let n = unat (Uint32 (take 4 (drop 6 hdr))) in
          if n > maxFramePayload then (rest, Inl ErrFrameTooBig)
          else if n > 0 \<and> length rest < n then ([], Inl ErrPayloadRead)
          else (drop n rest,
                Inr \<lparr>FType = hdr ! 1, RequestID = Uint32 (take 4 (drop 2 hdr)), FPayload = take n rest\<rparr>))"

record PeerInfo =
  IIdentity :: bytes
  ITrust :: byte
  ICapabilities :: "32 word"
  IUserAgent :: gostring
  IConnectedAt :: "64 word"
  ILastSeen :: "64 word"
  IAddr :: gostring

record ipc_pack =
  MarshalPeers :: "PeerInfo list \<Rightarrow> bytes option"
  UnmarshalPeers :: "bytes \<Rightarrow> PeerInfo list option"
  MarshalError :: "gostring \<Rightarrow> bytes option"
  UnmarshalError :: "bytes \<Rightarrow> gostring option"

definition ipc_pack_ok :: "ipc_pack \<Rightarrow> bool" where
  "ipc_pack_ok K \<longleftrightarrow>
     (\<forall>ps b. MarshalPeers K ps = Some b \<longrightarrow> UnmarshalPeers K b = Some ps) \<and>
     (\<forall>m b. MarshalError K m = Some b \<longrightarrow> UnmarshalError K b = Some m)"

text \<open>A concrete instance: the error text itself, and only the empty peer list.\<close>

definition demo_ipc_pack :: ipc_pack where
  "demo_ipc_pack =
     \<lparr>MarshalPeers = (\<lambda>ps. if ps = [] then Some [0x90] else None),
      UnmarshalPeers = (\<lambda>b. if b = [0x90] then Some [] else None),
      MarshalError = Some, UnmarshalError = Some\<rparr>"

lemma demo_ipc_pack_ok: "ipc_pack_ok demo_ipc_pack"
  by (simp add: ipc_pack_ok_def demo_ipc_pack_def)

section \<open>The server\<close>

datatype sink_call =
    SinkPush Envelope
  | SinkDelivered Envelope
  | SinkPeerUpdate "PeerInfo list"

record 's Handler =
  HSend :: "Envelope \<Rightarrow> 's \<Rightarrow> 's \<times> sink_call list \<times> (gostring + unit)"
  HFetch :: "bytes \<Rightarrow> 's \<Rightarrow> 's \<times> sink_call list \<times> (gostring + Envelope)"
  HPeerList :: "'s \<Rightarrow> PeerInfo list"
  HProfile :: "bytes \<Rightarrow> 's \<Rightarrow> 's \<times> sink_call list \<times> (gostring + Envelope)"
  HTrust :: "bytes \<Rightarrow> byte \<Rightarrow> 's \<Rightarrow> 's \<times> sink_call list \<times> (gostring + unit)"
  HConnect :: "bytes \<Rightarrow> 's \<Rightarrow> 's \<times> sink_call list \<times> (gostring + unit)"

record serverConn =
  sc_conn :: writer
  subs :: "bytes list"

record Server =
  sconns :: "(nat \<times> serverConn) list"
  srv_done :: bool

datatype rm_result = RmOk | RmNotExist | RmFails

definition Listen :: "rm_result \<Rightarrow> bool \<Rightarrow> bool \<Rightarrow> ipc_error + Server" where
  "Listen rm listenOk chmodOk =
     (if rm = RmFails then Inl ErrSocketRemove
      else if \<not> listenOk then Inl ErrSocketListen
      else if \<not> chmodOk then Inl ErrSocketChmod
      else Inr \<lparr>sconns = [], srv_done = False\<rparr>)"

text \<open>One accepted connection, with a fresh pointer; the flag says whether the loop goes on.\<close>

definition server_accept :: "nat \<Rightarrow> Server \<Rightarrow> Server \<times> bool" where
  "server_accept sc s =
     (if srv_done s then (s, False)
      else (s\<lparr>sconns := AList.update sc \<lparr>sc_conn = \<lparr>sent = [], room = None\<rparr>, subs = []\<rparr> (sconns s)\<rparr>, True))"

definition sc_reply :: "Frame \<Rightarrow> serverConn \<Rightarrow> serverConn" where
  "sc_reply f sc = sc\<lparr>sc_conn := fst (WriteFrame f (sc_conn sc))\<rparr>"

definition sc_sendError :: "ipc_pack \<Rightarrow> 32 word \<Rightarrow> gostring \<Rightarrow> serverConn \<Rightarrow> serverConn" where
  "sc_sendError K reqID msg sc =
     (case MarshalError K msg of
        None \<Rightarrow> sc
      | Some data \<Rightarrow> sc_reply \<lparr>FType = IPCError, RequestID = reqID, FPayload = data\<rparr> sc)"

definition chat_channel :: "payload_error + Payload \<Rightarrow> bytes option" where
  "chat_channel r = (case r of Inr (ChatPayload ch c rp) \<Rightarrow> Some ch | _ \<Rightarrow> None)"

definition wants :: "msgpack \<Rightarrow> Envelope \<Rightarrow> serverConn \<Rightarrow> bool" where
  "wants M env sc =
     (if Type env \<noteq> MsgChat then True
      else case chat_channel (DecodePayload M (Payload env) (ChatPayload (zero_array 32) [] [])) of
        None \<Rightarrow> False
      | Some ch \<Rightarrow> if ch = zero_array 32 then True else ch \<in> set (subs sc))"

definition broadcast :: "msgpack \<Rightarrow> Envelope \<Rightarrow> byte \<Rightarrow> Server \<Rightarrow> Server" where
  "broadcast M env frameType s =
     s\<lparr>sconns := map (\<lambda>(i, sc).
         if frameType = IPCIncoming \<and> \<not> wants M env sc then (i, sc)
         else (i, sc_reply \<lparr>FType = frameType, RequestID = 0, FPayload = Encode env\<rparr> sc)) (sconns s)\<rparr>"

definition server_Push :: "msgpack \<Rightarrow> Envelope \<Rightarrow> Server \<Rightarrow> Server" where
  "server_Push M env s = broadcast M env IPCIncoming s"

definition server_Delivered :: "msgpack \<Rightarrow> Envelope \<Rightarrow> Server \<Rightarrow> Server" where
  "server_Delivered M env s = broadcast M env IPCDelivered s"

definition PushPeerUpdate :: "ipc_pack \<Rightarrow> PeerInfo list \<Rightarrow> Server \<Rightarrow> Server" where
  "PushPeerUpdate K peers s =
     (case MarshalPeers K peers of
        None \<Rightarrow> s
      | Some data \<Rightarrow>
          s\<lparr>sconns := map (\<lambda>(i, sc). (i, sc_reply \<lparr>FType = IPCPeerUpdate, RequestID = 0, FPayload = data\<rparr> sc)) (sconns s)\<rparr>)"

fun sink_step :: "msgpack \<Rightarrow> ipc_pack \<Rightarrow> Server \<Rightarrow> sink_call \<Rightarrow> Server" where
  "sink_step M K s (SinkPush env) = server_Push M env s"
| "sink_step M K s (SinkDelivered env) = server_Delivered M env s"
| "sink_step M K s (SinkPeerUpdate peers) = PushPeerUpdate K peers s"

definition on_conn :: "nat \<Rightarrow> (serverConn \<Rightarrow> serverConn) \<Rightarrow> Server \<Rightarrow> Server" where
  "on_conn i g s = s\<lparr>sconns := map (\<lambda>(j, sc). (j, if j = i then g sc else sc)) (sconns s)\<rparr>"

text \<open>What a handler call leaves: the sink calls are done, then the answer goes out.\<close>

definition answer ::
  "msgpack \<Rightarrow> ipc_pack \<Rightarrow> nat \<Rightarrow> 32 word \<Rightarrow> ('a \<Rightarrow> Frame) \<Rightarrow> 's \<times> sink_call list \<times> (gostring + 'a) \<Rightarrow> Server \<Rightarrow> Server \<times> 's" where
  "answer M K i reqID ok r s =
     (case r of (st, calls, res) \<Rightarrow>
        (on_conn i (case res of Inl msg \<Rightarrow> sc_sendError K reqID msg | Inr a \<Rightarrow> sc_reply (ok a))
           (foldl (sink_step M K) s calls), st))"

definition hide :: "gostring \<Rightarrow> 's \<times> sink_call list \<times> (gostring + 'a) \<Rightarrow> 's \<times> sink_call list \<times> (gostring + 'a)" where
  "hide msg r = (case r of (st, calls, Inl _) \<Rightarrow> (st, calls, Inl msg) | _ \<Rightarrow> r)"

definition dispatch ::
  "prims \<Rightarrow> msgpack \<Rightarrow> ipc_pack \<Rightarrow> 's Handler \<Rightarrow> nat \<Rightarrow> Frame \<Rightarrow> Server \<Rightarrow> 's \<Rightarrow> Server \<times> 's" where
  "dispatch P M K h i f s st =
     (let reqID = RequestID f;
          err = (\<lambda>msg. (on_conn i (sc_sendError K reqID (str msg)) s, st));
          empty = (\<lambda>_. \<lparr>FType = FType f, RequestID = reqID, FPayload = []\<rparr>);
          env_reply = (\<lambda>env. \<lparr>FType = FType f, RequestID = reqID, FPayload = Encode env\<rparr>)
      in
      if FType f = IPCSend then
        (case Decode P (FPayload f) of
           Inl _ \<Rightarrow> err ''invalid envelope''
         | Inr env \<Rightarrow> answer M K i reqID empty (HSend h env st) s)
      else if FType f = IPCSubscribe \<or> FType f = IPCUnsubscribe then
        (if length (FPayload f) \<noteq> 32 then err ''invalid channel id''
         else
           let ch = to_array 32 (FPayload f) in
           (on_conn i (\<lambda>sc. sc_reply (empty ())
              (sc\<lparr>subs := if FType f = IPCSubscribe then List.insert ch (subs sc) else removeAll ch (subs sc)\<rparr>)) s, st))
      else if FType f = IPCFetch then
        (if length (FPayload f) \<noteq> 32 then err ''invalid hash''
         else answer M K i reqID env_reply (hide (str ''not found'') (HFetch h (to_array 32 (FPayload f)) st)) s)
      else if FType f = IPCPeerList then
        (case MarshalPeers K (HPeerList h st) of
           None \<Rightarrow> err ''internal error''
         | Some data \<Rightarrow> (on_conn i (sc_reply \<lparr>FType = IPCPeerList, RequestID = reqID, FPayload = data\<rparr>) s, st))
      else if FType f = IPCProfile then
        (if length (FPayload f) \<noteq> 32 then err ''invalid pubkey''
         else answer M K i reqID env_reply (hide (str ''not found'') (HProfile h (to_array 32 (FPayload f)) st)) s)
      else if FType f = IPCTrust then
        (if length (FPayload f) \<noteq> 33 then err ''invalid trust request''
         else answer M K i reqID empty (HTrust h (to_array 32 (take 32 (FPayload f))) (FPayload f ! 32) st) s)
      else if FType f = IPCConnect then
        (if length (FPayload f) \<noteq> 32 then err ''invalid node key''
         else answer M K i reqID empty (HConnect h (to_array 32 (FPayload f)) st) s)
      else err ''unknown request type'')"

definition server_drop :: "nat \<Rightarrow> Server \<Rightarrow> Server" where
  "server_drop i s = s\<lparr>sconns := AList.delete i (sconns s)\<rparr>"

definition server_Close :: "Server \<Rightarrow> Server" where
  "server_Close s =
     (if srv_done s then s
      else s\<lparr>srv_done := True, sconns := map (\<lambda>(i, sc). (i, sc\<lparr>sc_conn := conn_shut (sc_conn sc)\<rparr>)) (sconns s)\<rparr>)"

lemma ReadFrame_shorter: "ReadFrame r = (rest, Inr f) \<Longrightarrow> length rest < length r"
  by (auto simp: ReadFrame_def Let_def split: if_splits)

text \<open>\<^verbatim>\<open>serve\<close>: all that arrives from one client, then the cleanup.\<close>

function serve ::
  "prims \<Rightarrow> msgpack \<Rightarrow> ipc_pack \<Rightarrow> 's Handler \<Rightarrow> nat \<Rightarrow> bytes \<Rightarrow> Server \<Rightarrow> 's \<Rightarrow> Server \<times> 's" where
  "serve P M K h i bs s st =
     (case ReadFrame bs of
        (rest, Inl _) \<Rightarrow> (server_drop i s, st)
      | (rest, Inr f) \<Rightarrow>
          (case dispatch P M K h i f s st of (s', st') \<Rightarrow> serve P M K h i rest s' st'))"
  by pat_completeness auto
termination
  by (relation "measure (\<lambda>(P, M, K, h, i, bs, s, st). length bs)") (auto dest: ReadFrame_shorter [OF sym])

declare serve.simps [simp del]

section \<open>The client\<close>

text \<open>
  The reply channel of one request has room for one frame. The three streams are lists of what is
  buffered, with the capacities of the source.
\<close>

datatype reply_chan = ChEmpty | ChFrame Frame | ChClosed

record Client =
  cl_conn :: writer
  nextID :: "32 word"
  waiting :: "(32 word \<times> nat) list"
  chans :: "reply_chan list"
  cl_closed :: bool
  cl_incoming :: "Envelope list"
  cl_delivered :: "Envelope list"
  cl_peerInfo :: "PeerInfo list list"

definition client_Dial :: "writer \<Rightarrow> Client" where
  "client_Dial w = \<lparr>cl_conn = w, nextID = 1, waiting = [], chans = [], cl_closed = False,
     cl_incoming = [], cl_delivered = [], cl_peerInfo = []\<rparr>"

text \<open>\<^verbatim>\<open>select { case ch <- x: default: }\<close> on a channel of the given capacity.\<close>

definition offer :: "nat \<Rightarrow> 'a \<Rightarrow> 'a list \<Rightarrow> 'a list" where
  "offer cap x buf = (if length buf < cap then buf @ [x] else buf)"

definition client_frame :: "prims \<Rightarrow> ipc_pack \<Rightarrow> Frame \<Rightarrow> Client \<Rightarrow> Client" where
  "client_frame P K f c =
     (if FType f = IPCIncoming \<or> FType f = IPCDelivered then
        (case Decode P (FPayload f) of
           Inl _ \<Rightarrow> c
         | Inr env \<Rightarrow>
             if FType f = IPCDelivered then c\<lparr>cl_delivered := offer 64 env (cl_delivered c)\<rparr>
             else c\<lparr>cl_incoming := offer 256 env (cl_incoming c)\<rparr>)
      else if FType f = IPCPeerUpdate then
        (case UnmarshalPeers K (FPayload f) of
           None \<Rightarrow> c
         | Some peers \<Rightarrow> c\<lparr>cl_peerInfo := offer 8 peers (cl_peerInfo c)\<rparr>)
      else
        (case map_of (waiting c) (RequestID f) of
           None \<Rightarrow> c
         | Some ch \<Rightarrow> c\<lparr>waiting := AList.delete (RequestID f) (waiting c), chans := (chans c)[ch := ChFrame f]\<rparr>))"

definition teardown :: "Client \<Rightarrow> Client" where
  "teardown c =
     (if cl_closed c then c
      else c\<lparr>cl_closed := True, waiting := [],
             chans := map (\<lambda>i. if i \<in> snd ` set (waiting c) then ChClosed else chans c ! i) [0..<length (chans c)],
             cl_conn := conn_shut (cl_conn c)\<rparr>)"

function client_readLoop :: "prims \<Rightarrow> ipc_pack \<Rightarrow> bytes \<Rightarrow> Client \<Rightarrow> Client" where
  "client_readLoop P K bs c =
     (case ReadFrame bs of
        (rest, Inl _) \<Rightarrow> teardown c
      | (rest, Inr f) \<Rightarrow> client_readLoop P K rest (client_frame P K f c))"
  by pat_completeness auto
termination
  by (relation "measure (\<lambda>(P, K, bs, c). length bs)") (auto dest: ReadFrame_shorter [OF sym])

declare client_readLoop.simps [simp del]

text \<open>
  A request: registration and writing, then waiting. In between, the other goroutines of the client run
  (\<open>others\<close>, any function of the state); \<open>ctxDone\<close> says which ready case of the select is taken when the
  context ends. With an empty channel and no end of the context the call still waits: \<^const>\<open>None\<close>.
\<close>

definition request_start :: "byte \<Rightarrow> bytes \<Rightarrow> Client \<Rightarrow> Client \<times> (ipc_error + 32 word \<times> nat)" where
  "request_start frameType payload c =
     (if cl_closed c then (c, Inl ErrClosed)
      else
        let reqID = nextID c; ch = length (chans c);
            c1 = c\<lparr>nextID := (if nextID c + 1 = 0 then 1 else nextID c + 1),
                   chans := chans c @ [ChEmpty], waiting := AList.update reqID ch (waiting c)\<rparr>
        in case WriteFrame \<lparr>FType = frameType, RequestID = reqID, FPayload = payload\<rparr> (cl_conn c1) of
             (w, Inl e) \<Rightarrow> (c1\<lparr>cl_conn := w, waiting := AList.delete reqID (waiting c1)\<rparr>, Inl e)
           | (w, Inr _) \<Rightarrow> (c1\<lparr>cl_conn := w\<rparr>, Inr (reqID, ch)))"

definition request_wait :: "ipc_pack \<Rightarrow> bool \<Rightarrow> 32 word \<Rightarrow> nat \<Rightarrow> Client \<Rightarrow> Client \<times> (ipc_error + Frame) option" where
  "request_wait K ctxDone reqID ch c =
     (if ctxDone then (c\<lparr>waiting := AList.delete reqID (waiting c)\<rparr>, Some (Inl ErrContext))
      else case chans c ! ch of
        ChEmpty \<Rightarrow> (c, None)
      | ChClosed \<Rightarrow> (c, Some (Inl ErrClosed))
      | ChFrame f \<Rightarrow>
          (c\<lparr>chans := (chans c)[ch := ChEmpty]\<rparr>,
           Some (if FType f = IPCError then
                   (case UnmarshalError K (FPayload f) of
                      None \<Rightarrow> Inl ErrDaemonUndecodable
                    | Some m \<Rightarrow> Inl (ErrDaemon m))
                 else Inr f)))"

definition request ::
  "ipc_pack \<Rightarrow> (Client \<Rightarrow> Client) \<Rightarrow> bool \<Rightarrow> byte \<Rightarrow> bytes \<Rightarrow> Client \<Rightarrow> Client \<times> (ipc_error + Frame) option" where
  "request K others ctxDone frameType payload c =
     (case request_start frameType payload c of
        (c1, Inl e) \<Rightarrow> (c1, Some (Inl e))
      | (c1, Inr (reqID, ch)) \<Rightarrow> request_wait K ctxDone reqID ch (others c1))"

definition no_result :: "Client \<times> (ipc_error + Frame) option \<Rightarrow> Client \<times> (ipc_error + unit) option" where
  "no_result r = (case r of (c, res) \<Rightarrow> (c, map_option (map_sum id (\<lambda>_. ())) res))"

definition env_result :: "prims \<Rightarrow> Client \<times> (ipc_error + Frame) option \<Rightarrow> Client \<times> (ipc_error + Envelope) option" where
  "env_result P r =
     (case r of (c, res) \<Rightarrow>
        (c, map_option (\<lambda>x. case x of
              Inl e \<Rightarrow> Inl e
            | Inr f \<Rightarrow> (case Decode P (FPayload f) of Inl e \<Rightarrow> Inl (ErrReplyDecode e) | Inr env \<Rightarrow> Inr env)) res))"

definition client_Send :: "ipc_pack \<Rightarrow> (Client \<Rightarrow> Client) \<Rightarrow> bool \<Rightarrow> Envelope \<Rightarrow> Client \<Rightarrow> Client \<times> (ipc_error + unit) option" where
  "client_Send K others ctxDone env c = no_result (request K others ctxDone IPCSend (Encode env) c)"

definition client_Subscribe :: "ipc_pack \<Rightarrow> (Client \<Rightarrow> Client) \<Rightarrow> bool \<Rightarrow> bytes \<Rightarrow> Client \<Rightarrow> Client \<times> (ipc_error + unit) option" where
  "client_Subscribe K others ctxDone channel c = no_result (request K others ctxDone IPCSubscribe channel c)"

definition client_Unsubscribe :: "ipc_pack \<Rightarrow> (Client \<Rightarrow> Client) \<Rightarrow> bool \<Rightarrow> bytes \<Rightarrow> Client \<Rightarrow> Client \<times> (ipc_error + unit) option" where
  "client_Unsubscribe K others ctxDone channel c = no_result (request K others ctxDone IPCUnsubscribe channel c)"

definition client_Fetch ::
  "prims \<Rightarrow> ipc_pack \<Rightarrow> (Client \<Rightarrow> Client) \<Rightarrow> bool \<Rightarrow> bytes \<Rightarrow> Client \<Rightarrow> Client \<times> (ipc_error + Envelope) option" where
  "client_Fetch P K others ctxDone hash c = env_result P (request K others ctxDone IPCFetch hash c)"

definition client_PeerList ::
  "ipc_pack \<Rightarrow> (Client \<Rightarrow> Client) \<Rightarrow> bool \<Rightarrow> Client \<Rightarrow> Client \<times> (ipc_error + PeerInfo list) option" where
  "client_PeerList K others ctxDone c =
     (case request K others ctxDone IPCPeerList [] c of
        (c', res) \<Rightarrow>
          (c', map_option (\<lambda>x. case x of
                 Inl e \<Rightarrow> Inl e
               | Inr f \<Rightarrow> (case UnmarshalPeers K (FPayload f) of None \<Rightarrow> Inl ErrPeerListDecode | Some ps \<Rightarrow> Inr ps)) res))"

definition client_Profile ::
  "prims \<Rightarrow> ipc_pack \<Rightarrow> (Client \<Rightarrow> Client) \<Rightarrow> bool \<Rightarrow> bytes \<Rightarrow> Client \<Rightarrow> Client \<times> (ipc_error + Envelope) option" where
  "client_Profile P K others ctxDone pubkey c = env_result P (request K others ctxDone IPCProfile pubkey c)"

definition client_SetTrust ::
  "ipc_pack \<Rightarrow> (Client \<Rightarrow> Client) \<Rightarrow> bool \<Rightarrow> bytes \<Rightarrow> byte \<Rightarrow> Client \<Rightarrow> Client \<times> (ipc_error + unit) option" where
  "client_SetTrust K others ctxDone identity level c =
     no_result (request K others ctxDone IPCTrust (to_array 32 identity @ [level]) c)"

definition client_Connect ::
  "ipc_pack \<Rightarrow> (Client \<Rightarrow> Client) \<Rightarrow> bool \<Rightarrow> bytes \<Rightarrow> Client \<Rightarrow> Client \<times> (ipc_error + unit) option" where
  "client_Connect K others ctxDone yggKey c = no_result (request K others ctxDone IPCConnect yggKey c)"

definition client_Close :: "Client \<Rightarrow> Client" where
  "client_Close c = teardown c"

section \<open>The framing is exact\<close>

definition frame_ok :: "Frame \<Rightarrow> bool" where
  "frame_ok f \<longleftrightarrow> length (FPayload f) \<le> maxFramePayload"

definition frame_enc :: "Frame \<Rightarrow> bytes" where
  "frame_enc f = frame_header f @ FPayload f"

lemma length_frame_header [simp, wire_simps]: "length (frame_header f) = 10"
  by (simp add: frame_header_def)

lemma WriteFrame_open:
  "room w = None \<Longrightarrow> frame_ok f \<Longrightarrow> WriteFrame f w = (w\<lparr>sent := sent w @ frame_enc f\<rparr>, Inr ())"
  by (simp add: WriteFrame_def io_Write_def frame_ok_def frame_enc_def)

lemma unat_frame_len: "n \<le> 1048576 \<Longrightarrow> unat (of_nat n :: 32 word) = n"
  by (simp add: unat_of_nat)

lemma ReadFrame_enc:
  assumes "frame_ok f"
  shows "ReadFrame (frame_enc f @ rest) = (rest, Inr f)"
proof -
  have n: "unat (of_nat (length (FPayload f)) :: 32 word) = length (FPayload f)"
    using assms by (intro unat_frame_len) (simp add: frame_ok_def)
  have h: "take 10 (frame_enc f @ rest) = frame_header f" "drop 10 (frame_enc f @ rest) = FPayload f @ rest"
    by (simp_all add: frame_enc_def)
  have fields: "frame_header f ! 0 = 73" "frame_header f ! 1 = FType f"
    "take 4 (drop 2 (frame_header f)) = PutUint32 (RequestID f)"
    "take 4 (drop 6 (frame_header f)) = PutUint32 (of_nat (length (FPayload f)))"
    by (simp_all add: frame_header_def)
  have "\<not> length (frame_enc f @ rest) < 10" by (simp add: frame_enc_def)
  then show ?thesis
    using assms unfolding ReadFrame_def h Let_def fields by (simp add: n frame_ok_def)
qed

lemma ReadFrame_Inr:
  assumes "ReadFrame r = (rest, Inr f)"
  shows "frame_ok f \<and> r = frame_enc f @ rest"
proof -
  define hdr where "hdr = take 10 r"
  define n where "n = unat (Uint32 (take 4 (drop 6 hdr)))"
  have len: "10 \<le> length r" using assms by (auto simp: ReadFrame_def split: if_splits)
  have f: "hdr ! 0 = 73" "n \<le> 1048576" "n \<le> length (drop 10 r)" "rest = drop n (drop 10 r)"
    "f = \<lparr>FType = hdr ! 1, RequestID = Uint32 (take 4 (drop 2 hdr)), FPayload = take n (drop 10 r)\<rparr>"
    using assms len unfolding ReadFrame_def hdr_def [symmetric] Let_def n_def [symmetric]
    by (auto split: if_splits)
  have lh: "length hdr = 10" using len by (simp add: hdr_def)
  have lp: "length (FPayload f) = n" using f by simp
  have "hdr = [hdr ! 0, hdr ! 1] @ take 4 (drop 2 hdr) @ take 4 (drop 6 hdr)"
  proof -
    have "hdr = take 2 hdr @ take 4 (drop 2 hdr) @ take 4 (drop 6 hdr)"
      using append_take_drop_id [of 2 hdr] append_take_drop_id [of 4 "drop 2 hdr"] lh by simp
    moreover have "take 2 hdr = [hdr ! 0, hdr ! 1]"
      using lh by (cases hdr; cases "tl hdr") (auto simp: numeral_2_eq_2)
    ultimately show ?thesis by simp
  qed
  moreover have "PutUint32 (RequestID f) = take 4 (drop 2 hdr)" using f(5) lh by (simp add: PutUint32_Uint32)
  moreover have "PutUint32 (of_nat (length (FPayload f))) = take 4 (drop 6 hdr)"
    unfolding lp n_def using lh by (simp add: PutUint32_Uint32)
  ultimately have "frame_header f = hdr" using f by (simp add: frame_header_def)
  moreover have "FPayload f @ rest = drop 10 r"
    using append_take_drop_id [of n "drop 10 r"] f(4,5) by simp
  ultimately have "r = frame_enc f @ rest"
    using append_take_drop_id [of 10 r] by (simp add: frame_enc_def hdr_def)
  then show ?thesis using f lp by (simp add: frame_ok_def)
qed

text \<open>
  Local framing is lossless and exact: the reader returns a frame and leaves the bytes behind it if
  and only if the bytes begin with what the writer sends for that frame, so frames never bleed into each
  other on the socket and nothing but a written frame, at most one mebibyte of payload, is read as one.
\<close>

theorem ReadFrame_iff:
  "ReadFrame r = (rest, Inr f) \<longleftrightarrow>
     (\<exists>w. WriteFrame f \<lparr>sent = [], room = None\<rparr> = (w, Inr ()) \<and> r = sent w @ rest)"
proof -
  have "(\<exists>w. WriteFrame f \<lparr>sent = [], room = None\<rparr> = (w, Inr ()) \<and> r = sent w @ rest) \<longleftrightarrow>
      frame_ok f \<and> r = frame_enc f @ rest"
    by (auto simp: WriteFrame_open) (auto simp: WriteFrame_def frame_ok_def frame_enc_def io_Write_def split: if_splits)
  then show ?thesis using ReadFrame_enc ReadFrame_Inr by metis
qed

section \<open>Requests and replies\<close>

text \<open>The frames the client treats as unsolicited.\<close>

definition push_type :: "byte \<Rightarrow> bool" where
  "push_type t \<longleftrightarrow> t = IPCIncoming \<or> t = IPCDelivered \<or> t = IPCPeerUpdate"

definition client_inv :: "Client \<Rightarrow> bool" where
  "client_inv c \<longleftrightarrow>
     nextID c \<noteq> 0 \<and> 0 \<notin> fst ` set (waiting c) \<and>
     distinct (map fst (waiting c)) \<and> distinct (map snd (waiting c)) \<and>
     (\<forall>ch \<in> snd ` set (waiting c). ch < length (chans c) \<and> chans c ! ch = ChEmpty) \<and>
     length (cl_incoming c) \<le> 256 \<and> length (cl_delivered c) \<le> 64 \<and> length (cl_peerInfo c) \<le> 8"

datatype client_op =
    OpStart byte bytes
  | OpFrame Frame
  | OpWait bool "32 word" nat
  | OpDrain
  | OpTeardown

text \<open>\<open>OpDrain\<close> is a reader taking the front of each stream.\<close>

fun client_step :: "prims \<Rightarrow> ipc_pack \<Rightarrow> Client \<Rightarrow> client_op \<Rightarrow> Client" where
  "client_step P K c (OpStart t p) = fst (request_start t p c)"
| "client_step P K c (OpFrame f) = client_frame P K f c"
| "client_step P K c (OpWait d i ch) = fst (request_wait K d i ch c)"
| "client_step P K c OpDrain =
     c\<lparr>cl_incoming := drop 1 (cl_incoming c), cl_delivered := drop 1 (cl_delivered c), cl_peerInfo := drop 1 (cl_peerInfo c)\<rparr>"
| "client_step P K c OpTeardown = teardown c"

lemma set_delete_subset: "set (AList.delete k xs) \<subseteq> set xs"
  by (auto simp: AList.delete_eq)

lemma distinct_snd_delete: "distinct (map snd xs) \<Longrightarrow> distinct (map snd (AList.delete k xs))"
  by (simp add: AList.delete_eq distinct_map_filter)

lemma snd_update_subset: "snd ` set (AList.update k v xs) \<subseteq> insert v (snd ` set xs)"
  by (induction xs) auto

lemma distinct_snd_update:
  "distinct (map snd xs) \<Longrightarrow> v \<notin> snd ` set xs \<Longrightarrow> distinct (map snd (AList.update k v xs))"
proof (induction xs)
  case Nil
  then show ?case by simp
next
  case (Cons a xs)
  then show ?case using snd_update_subset [of k v xs] by (auto simp: image_iff)
qed

lemma fst_update_set: "fst ` set (AList.update k v xs) = insert k (fst ` set xs)"
  by (induction xs) auto

lemma length_offer: "length buf \<le> cap \<Longrightarrow> length (offer cap x buf) \<le> cap"
  by (simp add: offer_def)

lemma waiting_delete_inv:
  assumes "client_inv c"
  shows "client_inv (c\<lparr>waiting := AList.delete i (waiting c)\<rparr>)"
  using assms set_delete_subset [of i "waiting c"]
  unfolding client_inv_def by (auto simp: distinct_delete distinct_snd_delete)

lemma client_frame_inv:
  assumes "client_inv c"
  shows "client_inv (client_frame P K f c)"
proof (cases "push_type (FType f)")
  case True
  then show ?thesis
    using assms by (auto simp: client_frame_def push_type_def client_inv_def length_offer split: sum.splits option.splits)
next
  case False
  show ?thesis
  proof (cases "map_of (waiting c) (RequestID f)")
    case None
    then show ?thesis using False assms by (simp add: client_frame_def push_type_def)
  next
    case (Some ch)
    let ?d = "AList.delete (RequestID f) (waiting c)"
    have dist: "distinct (map fst (waiting c))" "distinct (map snd (waiting c))"
      using assms by (auto simp: client_inv_def)
    have "inj_on snd (set (waiting c))" using dist(2) by (simp add: distinct_map)
    then have "ch \<notin> snd ` set ?d"
      using map_of_SomeD [OF Some] by (fastforce simp: AList.delete_eq inj_on_def)
    then show ?thesis
      using waiting_delete_inv [OF assms, of "RequestID f"] False Some
      unfolding client_inv_def by (force simp: client_frame_def push_type_def)
  qed
qed

lemma request_start_inv:
  assumes "client_inv c"
  shows "client_inv (fst (request_start t p c))"
proof -
  define c1 where "c1 = c\<lparr>nextID := (if nextID c + 1 = 0 then 1 else nextID c + 1),
                   chans := chans c @ [ChEmpty], waiting := AList.update (nextID c) (length (chans c)) (waiting c)\<rparr>"
  have new: "length (chans c) \<notin> snd ` set (waiting c)" using assms by (auto simp: client_inv_def)
  have "\<forall>ch \<in> insert (length (chans c)) (snd ` set (waiting c)). ch < length (chans c1) \<and> chans c1 ! ch = ChEmpty"
    using assms by (force simp: client_inv_def c1_def nth_append)
  moreover have "snd ` set (waiting c1) \<subseteq> insert (length (chans c)) (snd ` set (waiting c))"
    using snd_update_subset [of "nextID c" "length (chans c)" "waiting c"] by (simp add: c1_def)
  ultimately have "\<forall>ch \<in> snd ` set (waiting c1). ch < length (chans c1) \<and> chans c1 ! ch = ChEmpty"
    by (meson subsetD)
  then have "client_inv c1"
    using assms new unfolding client_inv_def
    by (simp add: c1_def distinct_update distinct_snd_update fst_update_set)
  then have "client_inv (c1\<lparr>cl_conn := w\<rparr>)" "client_inv (c1\<lparr>cl_conn := w, waiting := AList.delete i (waiting c1)\<rparr>)" for w i
    using waiting_delete_inv [of "c1\<lparr>cl_conn := w\<rparr>" i] by (simp_all add: client_inv_def)
  then show ?thesis
    using assms unfolding request_start_def Let_def c1_def [symmetric]
    by (simp split: prod.splits sum.splits)
qed

lemma request_wait_inv:
  assumes "client_inv c"
  shows "client_inv (fst (request_wait K d i ch c))"
proof -
  have "client_inv (c\<lparr>chans := (chans c)[ch := ChEmpty]\<rparr>)"
    using assms by (cases "ch < length (chans c)") (auto simp: client_inv_def nth_list_update)
  then show ?thesis using waiting_delete_inv [OF assms] assms by (simp add: request_wait_def split: reply_chan.splits)
qed

lemma teardown_inv: "client_inv c \<Longrightarrow> client_inv (teardown c)"
  by (simp add: teardown_def client_inv_def)

lemma client_step_inv: "client_inv c \<Longrightarrow> client_inv (client_step P K c op)"
proof (cases op)
  case OpDrain
  assume "client_inv c"
  then show ?thesis unfolding OpDrain client_inv_def by auto
qed (auto simp: client_frame_inv request_start_inv request_wait_inv teardown_inv)

interpretation clientrun: run_invariant "client_step P K" client_inv for P K
  by unfold_locales (rule client_step_inv)

text \<open>
  The client's bookkeeping, over any interleaving of requests, arriving frames, expired contexts,
  readers and shutdown: no request ever uses the identifier zero reserved for unsolicited frames, every
  waiting request has an empty reply channel of its own (so handing it a reply never blocks the read
  loop), and the three streams stay within 256, 64 and 8 entries.
\<close>

theorem client_bookkeeping:
  "let c = foldl (client_step P K) (client_Dial w) ops in
     nextID c \<noteq> 0 \<and> 0 \<notin> fst ` set (waiting c) \<and> distinct (map snd (waiting c)) \<and>
     list_all (\<lambda>(i, ch). ch < length (chans c) \<and> chans c ! ch = ChEmpty) (waiting c) \<and>
     length (cl_incoming c) \<le> 256 \<and> length (cl_delivered c) \<le> 64 \<and> length (cl_peerInfo c) \<le> 8"
proof -
  have "client_inv (client_Dial w)" by (simp add: client_inv_def client_Dial_def)
  from clientrun.run_inv [OF this, of P K ops] show ?thesis
    by (auto simp: client_inv_def Let_def list_all_iff)
qed

text \<open>What the caller makes of a reply frame.\<close>

definition reply_value :: "ipc_pack \<Rightarrow> Frame \<Rightarrow> ipc_error + Frame" where
  "reply_value K f =
     (if FType f = IPCError
      then (case UnmarshalError K (FPayload f) of None \<Rightarrow> Inl ErrDaemonUndecodable | Some m \<Rightarrow> Inl (ErrDaemon m))
      else Inr f)"

definition solicits :: "32 word \<Rightarrow> Frame \<Rightarrow> bool" where
  "solicits i f \<longleftrightarrow> \<not> push_type (FType f) \<and> RequestID f = i"

lemma client_readLoop_Nil: "client_readLoop P K [] c = teardown c"
  by (subst client_readLoop.simps) (simp add: ReadFrame_def)

lemma client_readLoop_Cons:
  "frame_ok f \<Longrightarrow> client_readLoop P K (frame_enc f @ bs) c = client_readLoop P K bs (client_frame P K f c)"
  by (subst client_readLoop.simps) (simp add: ReadFrame_enc)

lemma client_frame_push:
  "push_type (FType f) \<Longrightarrow> waiting (client_frame P K f c) = waiting c \<and> chans (client_frame P K f c) = chans c \<and>
     cl_closed (client_frame P K f c) = cl_closed c"
  by (auto simp: client_frame_def push_type_def split: sum.split option.split)

lemma client_frame_reply:
  "\<not> push_type (FType f) \<Longrightarrow> client_frame P K f c =
     (case map_of (waiting c) (RequestID f) of
        None \<Rightarrow> c
      | Some ch \<Rightarrow> c\<lparr>waiting := AList.delete (RequestID f) (waiting c), chans := (chans c)[ch := ChFrame f]\<rparr>)"
  by (simp add: client_frame_def push_type_def)

lemma client_frame_other:
  assumes "map_of (waiting c) i = Some ch" "\<not> solicits i f"
  shows "map_of (waiting (client_frame P K f c)) i = Some ch"
proof (cases "push_type (FType f)")
  case True
  then show ?thesis using assms(1) by (simp add: client_frame_push)
next
  case False
  then have "RequestID f \<noteq> i" using assms(2) by (simp add: solicits_def)
  then show ?thesis using False assms(1) by (simp add: client_frame_reply delete_conv split: option.split)
qed

lemma client_frame_keeps:
  assumes "ch \<notin> snd ` set (waiting c)" "ch < length (chans c)"
  shows "chans (client_frame P K f c) ! ch = chans c ! ch \<and> ch \<notin> snd ` set (waiting (client_frame P K f c))"
proof (cases "push_type (FType f)")
  case True
  then show ?thesis using assms by (simp add: client_frame_push)
next
  case False
  have "ch \<notin> snd ` set (AList.delete (RequestID f) (waiting c))"
    using assms(1) set_delete_subset [of "RequestID f" "waiting c"] by blast
  moreover have "ch' \<noteq> ch" if "map_of (waiting c) (RequestID f) = Some ch'" for ch'
    using map_of_SomeD [OF that] assms(1) by force
  ultimately show ?thesis using False assms by (simp add: client_frame_reply split: option.split)
qed

lemma length_frame_chans: "length (chans (client_frame P K f c)) = length (chans c)"
  by (cases "push_type (FType f)") (simp_all add: client_frame_push client_frame_reply split: option.split)

lemma client_frame_open: "cl_closed (client_frame P K f c) = cl_closed c"
  by (cases "push_type (FType f)") (simp_all add: client_frame_push client_frame_reply split: option.split)

lemma teardown_keeps: "ch \<notin> snd ` set (waiting c) \<Longrightarrow> ch < length (chans c) \<Longrightarrow> chans (teardown c) ! ch = chans c ! ch"
  by (simp add: teardown_def)

text \<open>A channel that has its reply keeps it, and a waiting one gets the first frame meant for it.\<close>

lemma readLoop_keeps:
  assumes "client_inv c" "ch \<notin> snd ` set (waiting c)" "ch < length (chans c)" "list_all frame_ok fs"
  shows "chans (client_readLoop P K (concat (map frame_enc fs)) c) ! ch = chans c ! ch"
  using assms
proof (induction fs arbitrary: c)
  case Nil
  then show ?case by (simp add: client_readLoop_Nil teardown_keeps)
next
  case (Cons f fs)
  then show ?case
    using client_frame_keeps [of ch c P K f] client_frame_inv [of c P K f]
    by (simp add: client_readLoop_Cons length_frame_chans)
qed

lemma readLoop_delivers:
  assumes "client_inv c" "\<not> cl_closed c" "map_of (waiting c) i = Some ch" "list_all frame_ok fs"
  shows "chans (client_readLoop P K (concat (map frame_enc fs)) c) ! ch =
    (case find (solicits i) fs of Some f \<Rightarrow> ChFrame f | None \<Rightarrow> ChClosed)"
  using assms
proof (induction fs arbitrary: c)
  case Nil
  then have "ch < length (chans c)" "ch \<in> snd ` set (waiting c)"
    using map_of_SomeD [OF Nil(3)] by (force simp: client_inv_def)+
  with Nil show ?case by (simp add: client_readLoop_Nil teardown_def)
next
  case (Cons f fs)
  have ch: "ch < length (chans c)" using map_of_SomeD [OF Cons.prems(3)] Cons.prems(1) by (force simp: client_inv_def)
  note inv = client_frame_inv [OF Cons.prems(1), of P K f]
  show ?case
  proof (cases "solicits i f")
    case True
    let ?c = "client_frame P K f c"
    have c: "?c = c\<lparr>waiting := AList.delete i (waiting c), chans := (chans c)[ch := ChFrame f]\<rparr>"
      using True Cons.prems(3) by (simp add: client_frame_def solicits_def push_type_def)
    have f: "chans ?c ! ch = ChFrame f" using c ch by simp
    then have "ch \<notin> snd ` set (waiting ?c)" using inv by (auto simp: client_inv_def)
    then show ?thesis
      using True Cons.prems(4) readLoop_keeps [OF inv, of ch fs] f ch
      by (simp add: client_readLoop_Cons length_frame_chans)
  next
    case False
    then show ?thesis
      using Cons.IH [OF inv] Cons.prems client_frame_other [OF Cons.prems(3) False]
      by (simp add: client_readLoop_Cons client_frame_open)
  qed
qed

lemma request_start_ok:
  assumes "client_inv c" "\<not> cl_closed c" "room (cl_conn c) = None" "length payload \<le> 1048576"
  shows "\<exists>c1. request_start t payload c = (c1, Inr (nextID c, length (chans c))) \<and> client_inv c1 \<and>
    \<not> cl_closed c1 \<and> map_of (waiting c1) (nextID c) = Some (length (chans c)) \<and>
    sent (cl_conn c1) = sent (cl_conn c) @ frame_enc \<lparr>FType = t, RequestID = nextID c, FPayload = payload\<rparr>"
  using assms request_start_inv [OF assms(1), of t payload]
  by (auto simp: request_start_def Let_def WriteFrame_open frame_ok_def update_conv)

text \<open>
  A request gets its own answer: whatever frames the daemon sends while a request waits (pushes,
  replies to other requests, duplicates) and whenever the connection then ends, the caller receives the
  first reply that carries its identifier, decoded, and is released with the connection-closed error
  when there is none; it never waits for ever.
\<close>

theorem request_gets_own_reply:
  assumes "client_inv c" "\<not> cl_closed c" "room (cl_conn c) = None" "length payload \<le> maxFramePayload"
    and "list_all frame_ok fs"
  shows "snd (request K (client_readLoop P K (concat (map frame_enc fs))) False t payload c) =
    Some (case find (solicits (nextID c)) fs of Some f \<Rightarrow> reply_value K f | None \<Rightarrow> Inl ErrClosed)"
proof -
  obtain c1 where c1: "request_start t payload c = (c1, Inr (nextID c, length (chans c)))" "client_inv c1"
    "\<not> cl_closed c1" "map_of (waiting c1) (nextID c) = Some (length (chans c))"
    using request_start_ok [OF assms(1-4)] by blast
  from readLoop_delivers [OF c1(2-4) assms(5), of P K] show ?thesis
    by (auto simp: request_def c1(1) request_wait_def reply_value_def split: option.splits)
qed

theorem request_gets_own_reply_witness:
  "snd (request demo_ipc_pack (client_readLoop demo_prims demo_ipc_pack (concat (map frame_enc
      [\<lparr>FType = IPCTrust, RequestID = 9, FPayload = []\<rparr>, \<lparr>FType = IPCFetch, RequestID = 1, FPayload = [5]\<rparr>])))
      False IPCFetch [7] (client_Dial \<lparr>sent = [], room = None\<rparr>)) =
     Some (Inr \<lparr>FType = IPCFetch, RequestID = 1, FPayload = [5]\<rparr>)"
proof -
  let ?c = "client_Dial \<lparr>sent = [], room = None\<rparr>"
  let ?fs = "[\<lparr>FType = IPCTrust, RequestID = 9, FPayload = []\<rparr>, \<lparr>FType = IPCFetch, RequestID = 1, FPayload = [5]\<rparr>]"
  have "client_inv ?c" "\<not> cl_closed ?c" "room (cl_conn ?c) = None" "length [7 :: byte] \<le> maxFramePayload"
    "list_all frame_ok ?fs"
    by (simp_all add: client_inv_def client_Dial_def frame_ok_def)
  from request_gets_own_reply [OF this, of demo_ipc_pack demo_prims IPCFetch] show ?thesis
    by (simp add: solicits_def push_type_def reply_value_def client_Dial_def)
qed

section \<open>The server answers every request once\<close>

definition wire :: "Frame list \<Rightarrow> bytes" where
  "wire fs = concat (map frame_enc fs)"

definition unsolicited :: "Frame \<Rightarrow> bool" where
  "unsolicited f \<longleftrightarrow> push_type (FType f) \<and> RequestID f = 0 \<and> frame_ok f"

definition extended :: "Frame list \<Rightarrow> serverConn \<Rightarrow> serverConn" where
  "extended fs sc = sc\<lparr>sc_conn := (sc_conn sc)\<lparr>sent := sent (sc_conn sc) @ wire fs\<rparr>\<rparr>"

lemma wire_simps' [simp]: "wire [] = []" "wire (f # fs) = frame_enc f @ wire fs" "wire (fs @ gs) = wire fs @ wire gs"
  by (simp_all add: wire_def)

lemma extended_simps [simp]:
  "extended [] sc = sc" "extended gs (extended fs sc) = extended (fs @ gs) sc"
  "room (sc_conn (extended fs sc)) = room (sc_conn sc)" "sent (sc_conn (extended fs sc)) = sent (sc_conn sc) @ wire fs"
  by (simp_all add: extended_def)

lemma sc_reply_open:
  "room (sc_conn sc) = None \<Longrightarrow> sc_reply f sc = extended (if frame_ok f then [f] else []) sc"
  by (cases "frame_ok f") (simp_all add: sc_reply_def extended_def WriteFrame_open, simp add: WriteFrame_def frame_ok_def)

lemma map_of_map_entries: "map_of (map (\<lambda>(j, x). (j, g j x)) xs) i = map_option (g i) (map_of xs i)"
  by (induction xs) auto

lemma map_of_on_conn: "map_of (sconns (on_conn i g s)) i = map_option g (map_of (sconns s) i)"
  by (simp add: on_conn_def map_of_map_entries [of "\<lambda>j sc. if j = i then g sc else sc"])

lemma map_of_broadcast:
  "map_of (sconns (broadcast M env t s)) i = map_option (\<lambda>sc. if t = IPCIncoming \<and> \<not> wants M env sc then sc
     else sc_reply \<lparr>FType = t, RequestID = 0, FPayload = Encode env\<rparr> sc) (map_of (sconns s) i)"
proof -
  have "(\<lambda>(j, sc). if t = IPCIncoming \<and> \<not> wants M env sc then (j, sc)
      else (j, sc_reply \<lparr>FType = t, RequestID = 0, FPayload = Encode env\<rparr> sc)) =
    (\<lambda>(j :: nat, sc). (j, if t = IPCIncoming \<and> \<not> wants M env sc then sc
      else sc_reply \<lparr>FType = t, RequestID = 0, FPayload = Encode env\<rparr> sc))" by auto
  then show ?thesis by (simp add: broadcast_def map_of_map_entries)
qed

lemma map_of_PushPeerUpdate:
  "map_of (sconns (PushPeerUpdate K ps s)) i = (case MarshalPeers K ps of
     None \<Rightarrow> map_of (sconns s) i
   | Some d \<Rightarrow> map_option (sc_reply \<lparr>FType = IPCPeerUpdate, RequestID = 0, FPayload = d\<rparr>) (map_of (sconns s) i))"
  by (simp add: PushPeerUpdate_def map_of_map_entries split: option.split)

lemma reply_pushes:
  assumes "room (sc_conn sc) = None" "push_type t"
  shows "\<exists>fs. list_all unsolicited fs \<and> sc_reply \<lparr>FType = t, RequestID = 0, FPayload = d\<rparr> sc = extended fs sc"
  using assms
  by (intro exI [of _ "if frame_ok \<lparr>FType = t, RequestID = 0, FPayload = d\<rparr> then [\<lparr>FType = t, RequestID = 0, FPayload = d\<rparr>] else []"])
    (simp add: sc_reply_open unsolicited_def)

lemma sink_step_pushes:
  assumes "map_of (sconns s) i = Some sc" "room (sc_conn sc) = None"
  shows "\<exists>fs. list_all unsolicited fs \<and> map_of (sconns (sink_step M K s call)) i = Some (extended fs sc)"
proof -
  have kept: "\<exists>fs. list_all unsolicited fs \<and> Some sc = Some (extended fs sc)" by (rule exI [of _ "[]"]) simp
  have sent: "\<exists>fs. list_all unsolicited fs \<and>
      Some (sc_reply \<lparr>FType = t, RequestID = 0, FPayload = d\<rparr> sc) = Some (extended fs sc)" if "push_type t" for t d
    using reply_pushes [OF assms(2) that, of d] by simp
  have types: "push_type IPCIncoming" "push_type IPCDelivered" "push_type IPCPeerUpdate" by (simp_all add: push_type_def)
  show ?thesis
  proof (cases call)
    case (SinkPush env)
    then show ?thesis
      using kept sent [OF types(1)] assms(1) by (cases "wants M env sc") (simp_all only: sink_step.simps server_Push_def map_of_broadcast option.map simp_thms if_True if_False)
  next
    case (SinkDelivered env)
    then show ?thesis using sent [OF types(2)] assms(1) by (simp add: server_Delivered_def map_of_broadcast)
  next
    case (SinkPeerUpdate ps)
    then show ?thesis
      using kept sent [OF types(3)] assms(1)
      by (cases "MarshalPeers K ps") (simp_all only: sink_step.simps map_of_PushPeerUpdate option.map option.case)
  qed
qed

lemma sink_pushes:
  assumes "map_of (sconns s) i = Some sc" "room (sc_conn sc) = None"
  shows "\<exists>fs. list_all unsolicited fs \<and> map_of (sconns (foldl (sink_step M K) s calls)) i = Some (extended fs sc)"
  using assms
proof (induction calls arbitrary: s sc)
  case Nil
  then show ?case by (intro exI [of _ "[]"]) simp
next
  case (Cons call calls)
  obtain fs where fs: "list_all unsolicited fs" "map_of (sconns (sink_step M K s call)) i = Some (extended fs sc)"
    using sink_step_pushes [OF Cons.prems] by blast
  obtain gs where "list_all unsolicited gs"
    "map_of (sconns (foldl (sink_step M K) (sink_step M K s call) calls)) i = Some (extended gs (extended fs sc))"
    using Cons.IH [OF fs(2)] Cons.prems(2) by auto
  with fs(1) show ?case by (intro exI [of _ "fs @ gs"]) simp
qed

text \<open>What the local client needs of the encoder of error texts: short texts fit into a frame.\<close>

definition errors_fit :: "ipc_pack \<Rightarrow> bool" where
  "errors_fit K \<longleftrightarrow> (\<forall>m. length m \<le> 1000 \<longrightarrow> (\<exists>b. MarshalError K m = Some b \<and> length b \<le> maxFramePayload))"

definition answered :: "nat \<Rightarrow> Frame \<Rightarrow> serverConn \<Rightarrow> Server \<Rightarrow> bool" where
  "answered i f sc s \<longleftrightarrow>
     (\<exists>sc' fs r. map_of (sconns s) i = Some sc' \<and> sent (sc_conn sc') = sent (sc_conn sc) @ wire (fs @ [r]) \<and>
        room (sc_conn sc') = None \<and> list_all unsolicited fs \<and> frame_ok r \<and> RequestID r = RequestID f \<and>
        (FType r = FType f \<or> FType r = IPCError))"

lemma answered_reply:
  assumes "map_of (sconns s) i = Some (extended fs sc)" "room (sc_conn sc) = None" "list_all unsolicited fs"
    and "frame_ok r" "RequestID r = RequestID f" "FType r = FType f \<or> FType r = IPCError"
    and "sc_conn (g (extended fs sc)) = sc_conn (sc_reply r (extended fs sc))"
  shows "answered i f sc (on_conn i g s)"
  unfolding answered_def using assms
  by (intro exI [of _ "g (extended fs sc)"] exI [of _ fs] exI [of _ r]) (simp add: map_of_on_conn sc_reply_open)

lemma answered_error:
  assumes "errors_fit K" "length m \<le> 1000" "map_of (sconns s) i = Some (extended fs sc)"
    and "room (sc_conn sc) = None" "list_all unsolicited fs"
  shows "answered i f sc (on_conn i (sc_sendError K (RequestID f) m) s)"
proof -
  obtain b where "MarshalError K m = Some b" "length b \<le> maxFramePayload"
    using assms(1,2) by (auto simp: errors_fit_def)
  then show ?thesis
    by (intro answered_reply [OF assms(3-5), of "\<lparr>FType = IPCError, RequestID = RequestID f, FPayload = b\<rparr>"])
      (simp_all add: frame_ok_def sc_sendError_def)
qed

lemma answered_answer:
  assumes "errors_fit K" "map_of (sconns s) i = Some sc" "room (sc_conn sc) = None"
    and "\<And>st calls m. r = (st, calls, Inl m) \<Longrightarrow> length m \<le> 1000"
    and "\<And>st calls a. r = (st, calls, Inr a) \<Longrightarrow> frame_ok (ok a) \<and> RequestID (ok a) = RequestID f \<and> FType (ok a) = FType f"
  shows "answered i f sc (fst (answer M K i (RequestID f) ok r s))"
proof -
  obtain st calls res where r: "r = (st, calls, res)" by (cases r) auto
  obtain fs where fs: "list_all unsolicited fs" "map_of (sconns (foldl (sink_step M K) s calls)) i = Some (extended fs sc)"
    using sink_pushes [OF assms(2,3)] by blast
  show ?thesis
  proof (cases res)
    case (Inl m)
    then show ?thesis using answered_error [OF assms(1) assms(4) fs(2) assms(3) fs(1)] by (simp add: answer_def r)
  next
    case (Inr a)
    then show ?thesis
      using answered_reply [OF fs(2) assms(3) fs(1), of "ok a" f "sc_reply (ok a)"] assms(5) by (simp add: answer_def r)
  qed
qed

text \<open>
  The interface the server relies on: handlers keep an invariant of the daemon, their error texts are
  short, and the envelopes they serve are acceptable ones.
\<close>

locale ipc_handler =
  fixes P :: prims and h :: "'s Handler" and inv :: "'s \<Rightarrow> bool"
  assumes send_ok: "inv st \<Longrightarrow> acceptable P env \<Longrightarrow> HSend h env st = (st', calls, res) \<Longrightarrow>
      inv st' \<and> (\<forall>m. res = Inl m \<longrightarrow> length m \<le> 1000)"
    and fetch_ok: "inv st \<Longrightarrow> length hash = 32 \<Longrightarrow> HFetch h hash st = (st', calls, res') \<Longrightarrow>
      inv st' \<and> (\<forall>e. res' = Inr e \<longrightarrow> acceptable P e)"
    and profile_ok: "inv st \<Longrightarrow> length pk = 32 \<Longrightarrow> HProfile h pk st = (st', calls, res') \<Longrightarrow>
      inv st' \<and> (\<forall>e. res' = Inr e \<longrightarrow> acceptable P e)"
    and trust_ok: "inv st \<Longrightarrow> length peer = 32 \<Longrightarrow> HTrust h peer level st = (st', calls, res) \<Longrightarrow>
      inv st' \<and> (\<forall>m. res = Inl m \<longrightarrow> length m \<le> 1000)"
    and connect_ok: "inv st \<Longrightarrow> length key = 32 \<Longrightarrow> HConnect h key st = (st', calls, res) \<Longrightarrow>
      inv st' \<and> (\<forall>m. res = Inl m \<longrightarrow> length m \<le> 1000)"
begin

lemma envelope_fits: "acceptable P e \<Longrightarrow> frame_ok \<lparr>FType = t, RequestID = i, FPayload = Encode e\<rparr>"
  by (simp add: acceptable_def frame_ok_def length_Encode)

lemma answered_served:
  assumes "errors_fit K" "map_of (sconns s) i = Some sc" "room (sc_conn sc) = None" "length m \<le> 1000"
    and "\<And>st' calls res. r = (st', calls, res) \<Longrightarrow> \<forall>e. res = Inr e \<longrightarrow> acceptable P e"
  shows "answered i f sc (fst (answer M K i (RequestID f)
    (\<lambda>e. \<lparr>FType = FType f, RequestID = RequestID f, FPayload = Encode e\<rparr>) (hide (str m) r) s))"
  using assms by (intro answered_answer) (auto simp: hide_def envelope_fits split: prod.splits sum.splits)

lemma dispatch_answers:
  assumes "inv st" "map_of (sconns s) i = Some sc" "room (sc_conn sc) = None" "errors_fit K"
    and "\<And>b. MarshalPeers K (HPeerList h st) = Some b \<Longrightarrow> length b \<le> maxFramePayload"
  shows "answered i f sc (fst (dispatch P M K h i f s st))"
proof -
  have idle: "map_of (sconns s) i = Some (extended [] sc)" "list_all unsolicited []" using assms(2) by simp_all
  have err: "answered i f sc (on_conn i (sc_sendError K (RequestID f) (str m)) s)" if "length m \<le> 1000" for m
    using answered_error [OF assms(4) _ idle(1) assms(3) idle(2)] that by simp
  have empty: "frame_ok \<lparr>FType = t, RequestID = j, FPayload = []\<rparr>" for t j by (simp add: frame_ok_def)
  note ans = answered_answer [OF assms(4,2,3)]
  have arr: "length (to_array 32 b) = 32" for b by simp
  consider "FType f = IPCSend" | "FType f = IPCSubscribe \<or> FType f = IPCUnsubscribe" | "FType f = IPCFetch"
    | "FType f = IPCPeerList" | "FType f = IPCProfile" | "FType f = IPCTrust" | "FType f = IPCConnect"
    | "FType f \<notin> {1, 2, 3, 4, 5, 6, 7, 8}" by auto
  then show ?thesis
  proof cases
    case 1
    show ?thesis
    proof (cases "Decode P (FPayload f)")
      case (Inl a)
      then show ?thesis using 1 err by (simp add: dispatch_def Let_def)
    next
      case (Inr env)
      have a: "acceptable P env" using Decode_Inr [OF Inr] by simp
      show ?thesis
        using ans [of "HSend h env st" "\<lambda>_. \<lparr>FType = FType f, RequestID = RequestID f, FPayload = []\<rparr>" f] 1 Inr
          send_ok [OF assms(1) a] empty
        by (auto simp: dispatch_def Let_def)
    qed
  next
    case 2
    then show ?thesis
      using err answered_reply [OF idle(1) assms(3) idle(2), of "\<lparr>FType = FType f, RequestID = RequestID f, FPayload = []\<rparr>" f] empty
      by (auto simp: dispatch_def Let_def sc_reply_def)
  next
    case 3
    then show ?thesis
      using err answered_served [OF assms(4,2,3), of "''not found''" "HFetch h (to_array 32 (FPayload f)) st" f M]
        fetch_ok [OF assms(1) arr, of "FPayload f"]
      by (auto simp: dispatch_def Let_def)
  next
    case 4
    then show ?thesis
      using err answered_reply [OF idle(1) assms(3) idle(2), of "\<lparr>FType = IPCPeerList, RequestID = RequestID f, FPayload = b\<rparr>" f for b] assms(5)
      by (auto simp: dispatch_def Let_def frame_ok_def split: option.split)
  next
    case 5
    then show ?thesis
      using err answered_served [OF assms(4,2,3), of "''not found''" "HProfile h (to_array 32 (FPayload f)) st" f M]
        profile_ok [OF assms(1) arr, of "FPayload f"]
      by (auto simp: dispatch_def Let_def)
  next
    case 6
    then show ?thesis
      using err ans [of "HTrust h (to_array 32 (take 32 (FPayload f))) (FPayload f ! 32) st"
          "\<lambda>_. \<lparr>FType = FType f, RequestID = RequestID f, FPayload = []\<rparr>" f] trust_ok [OF assms(1) arr] empty
      by (auto simp: dispatch_def Let_def)
  next
    case 7
    then show ?thesis
      using err ans [of "HConnect h (to_array 32 (FPayload f)) st"
          "\<lambda>_. \<lparr>FType = FType f, RequestID = RequestID f, FPayload = []\<rparr>" f] connect_ok [OF assms(1) arr] empty
      by (auto simp: dispatch_def Let_def)
  next
    case 8
    then show ?thesis using err by (simp add: dispatch_def Let_def)
  qed
qed

end

section \<open>Channel subscriptions\<close>

definition sub_frame :: "bool \<Rightarrow> 32 word \<Rightarrow> bytes \<Rightarrow> Frame" where
  "sub_frame on i ch = \<lparr>FType = if on then IPCSubscribe else IPCUnsubscribe, RequestID = i, FPayload = ch\<rparr>"

lemma dispatch_sub_frame:
  assumes "map_of (sconns s) i = Some sc" "length ch = 32" "room (sc_conn sc) = None"
  shows "map_of (sconns (fst (dispatch P M K h i (sub_frame on q ch) s st))) i =
    Some (extended [\<lparr>FType = if on then IPCSubscribe else IPCUnsubscribe, RequestID = q, FPayload = []\<rparr>]
      (sc\<lparr>subs := if on then List.insert ch (subs sc) else removeAll ch (subs sc)\<rparr>))"
  using assms by (simp add: dispatch_def sub_frame_def Let_def map_of_on_conn sc_reply_open frame_ok_def)

text \<open>
  Channel traffic reaches a client exactly while it is subscribed: after a subscribe or unsubscribe
  request for a channel, an envelope of that channel that the daemon pushes is written to the client's
  socket, as one frame, after a subscribe and not at all after an unsubscribe, whatever the client's
  other subscriptions are.
\<close>

theorem channel_filter:
  assumes "map_of (sconns s) i = Some sc" "room (sc_conn sc) = None" "length ch = 32" "ch \<noteq> zero_array 32"
    and "acceptable P env" "Type env = MsgChat"
    and "DecodePayload M (Payload env) (ChatPayload (zero_array 32) [] []) = Inr (ChatPayload ch content replyTo)"
  shows "\<exists>sc1. map_of (sconns (fst (dispatch P M K h i (sub_frame on q ch) s st))) i = Some sc1 \<and>
    map_of (sconns (server_Push M env (fst (dispatch P M K h i (sub_frame on q ch) s st)))) i =
      Some (extended (if on then [\<lparr>FType = IPCIncoming, RequestID = 0, FPayload = Encode env\<rparr>] else []) sc1)"
proof -
  define sc1 where "sc1 = extended [\<lparr>FType = if on then IPCSubscribe else IPCUnsubscribe, RequestID = q, FPayload = []\<rparr>]
      (sc\<lparr>subs := if on then List.insert ch (subs sc) else removeAll ch (subs sc)\<rparr>)"
  have d: "map_of (sconns (fst (dispatch P M K h i (sub_frame on q ch) s st))) i = Some sc1"
    unfolding sc1_def by (rule dispatch_sub_frame [OF assms(1,3,2)])
  have "wants M env sc1 \<longleftrightarrow> on"
    using assms(4,6,7) by (simp add: wants_def chat_channel_def sc1_def extended_def)
  moreover have "frame_ok \<lparr>FType = t, RequestID = 0, FPayload = Encode env\<rparr>" for t
    using assms(5) by (simp add: frame_ok_def acceptable_def length_Encode)
  moreover have "room (sc_conn sc1) = None" using assms(2) by (simp add: sc1_def)
  ultimately show ?thesis using d by (auto simp: server_Push_def map_of_broadcast sc_reply_open)
qed

theorem channel_filter_witness:
  "\<exists>env h sc1. Type env = MsgChat \<and>
     map_of (sconns (server_Push (demo_msgpack (ChatPayload (replicate 32 1) [] []) [1, 2, 3]) env
       (fst (dispatch demo_prims (demo_msgpack (ChatPayload (replicate 32 1) [] []) [1, 2, 3]) demo_ipc_pack (h :: unit Handler) 4
          (sub_frame True 6 (replicate 32 1)) \<lparr>sconns = [(4, \<lparr>sc_conn = \<lparr>sent = [], room = None\<rparr>, subs = []\<rparr>)], srv_done = False\<rparr> ())))) 4 =
       Some (extended [\<lparr>FType = IPCIncoming, RequestID = 0, FPayload = Encode env\<rparr>] sc1)"
proof -
  let ?s = "\<lparr>sconns = [(4, \<lparr>sc_conn = \<lparr>sent = [], room = None\<rparr>, subs = []\<rparr>)], srv_done = False\<rparr>"
  let ?M = "demo_msgpack (ChatPayload (replicate 32 1) [] []) [1, 2, 3]"
  obtain env where new: "NewEnvelope demo_prims 7 (demo_key 3) MsgChat Broadcast [1, 2, 3] = Inr env"
    and ok: "acceptable demo_prims env" by (rule demo_envelope)
  have e: "Type env = MsgChat" "Payload env = [1, 2, 3]"
    by (subst NewEnvelope_Inr(4) [OF new], simp)+
  have s: "map_of (sconns ?s) 4 = Some \<lparr>sc_conn = \<lparr>sent = [], room = None\<rparr>, subs = []\<rparr>" by simp
  have ch: "length (replicate 32 (1 :: byte)) = 32" "replicate 32 (1 :: byte) \<noteq> zero_array 32"
    by (simp_all add: zero_array_def)
  have d: "DecodePayload ?M (Payload env) (ChatPayload (zero_array 32) [] []) = Inr (ChatPayload (replicate 32 1) [] [])"
    by (simp add: DecodePayload_def demo_msgpack_def e and_then_def validateString_def validateHash_def)
  have "room (sc_conn \<lparr>sc_conn = \<lparr>sent = [], room = None\<rparr>, subs = []\<rparr>) = None" by simp
  from channel_filter [OF s this ch ok e(1) d, where on = True and st = "()"] e(1) show ?thesis
    by (simp only: if_True) blast
qed

end
