(* ===== verification/Gandr_Daemon.thy ===== *)
theory Gandr_Daemon
  imports Gandr_Peers Gandr_Ipc
begin

text \<open>
  \<^verbatim>\<open>pkg/daemon/daemon.go\<close>: the node daemon, which connects the peer table, the object store and the local
  clients. Its state is one record; the goroutines' atomic sections (a received envelope, an adopted or
  ended session, a pruning tick, a seed pass, a local request) are the steps. What a step does outside
  the daemon is recorded in the state: the \<open>relayed\<close> sends (session pointer and envelope), the \<open>sunk\<close>
  calls on the event sink, the sessions it closes and the node keys it starts dialling. The record
  \<open>world\<close> has, for one step, the readings of the clock in the order the code takes them and the I/O
  faults of the store. \<^verbatim>\<open>address.AddrForKey\<close> (yggdrasil) is the parameter \<open>A\<close>. Debug logging is left
  out: it changes no state. A received envelope is handled in one step; in Go the sessions' goroutines handle theirs without a common lock,
  so that two deliveries of one envelope that overlap may both find it missing and both relay it, which the steps here leave out.
\<close>

section \<open>Options and state\<close>

record Options =
  OUserAgent :: gostring
  OCapabilities :: "32 word"
  ORelay :: bool
  OMaxPeers :: int
  ODefaultTrust :: byte
  OMaxMessageAge :: "32 word"
  OMaxPayloadSize :: "32 word"
  ORateLimitRPM :: int
  OSeeds :: "bytes list"
  ODebug :: bool

definition fp :: "bytes \<Rightarrow> gostring" where
  "fp b = (let s = EncodeToString b in if length s > 8 then take 8 s else s)"

record profileEntry =
  phash :: bytes
  plastSeen :: instant

abbreviation (input) profileTTL :: duration where "profileTTL \<equiv> 7 * 24 * Hour"
abbreviation (input) rateWindowTTL :: duration where "rateWindowTTL \<equiv> 10 * Minute"

record rateWindow =
  rw_start :: instant
  rw_count :: int

record Daemon =
  opts :: Options
  did :: bytes
  table :: Table
  dobjects :: Store
  disk :: fs
  fedCfg :: Config
  sink :: bool
  profiles :: "(bytes \<times> profileEntry) list"
  rates :: "(bytes \<times> rateWindow) list"
  relayed :: "(nat \<times> Envelope) list"
  sunk :: "sink_call list"
  closed :: "nat list"
  dialling :: "bytes list"

definition daemon_New :: "Options \<Rightarrow> bytes \<Rightarrow> Store \<Rightarrow> fs \<Rightarrow> table_error + Daemon" where
  "daemon_New o' identity objs d =
     (case NewTable (OMaxPeers o') (ODefaultTrust o') of
        Inl e \<Rightarrow> Inl e
      | Inr t \<Rightarrow>
          Inr \<lparr>opts = o', did = identity, table = t, dobjects = objs, disk = d,
               fedCfg = \<lparr>Identity = identity, Capabilities = OCapabilities o', UserAgent = OUserAgent o',
                         Policy = PeerPolicyPayload (OMaxMessageAge o') (OMaxPayloadSize o')
                                    (of_int (ORateLimitRPM o')) (ODefaultTrust o')\<rparr>,
               sink = False, profiles = [], rates = [], relayed = [], sunk = [], closed = [], dialling = []\<rparr>)"

definition SetEventSink :: "bool \<Rightarrow> Daemon \<Rightarrow> Daemon" where
  "SetEventSink attached d = d\<lparr>sink := attached\<rparr>"

record world =
  w_check :: instant
  w_rate :: instant
  w_touch :: instant
  w_profile :: instant
  w_tmp :: gostring
  w_put :: put_fault
  w_get :: bool
  w_del :: bool

section \<open>Addresses for display\<close>

text \<open>\<^verbatim>\<open>net.IP.String\<close> of the standard library, for 16-byte addresses.\<close>

fun base_digits :: "nat \<Rightarrow> nat \<Rightarrow> gostring" where
  "base_digits b n = (if n < b \<or> b < 2 then [hex_digit n] else base_digits b (n div b) @ [hex_digit (n mod b)])"

declare base_digits.simps [simp del]

fun sep_join :: "gostring \<Rightarrow> gostring list \<Rightarrow> gostring" where
  "sep_join sep [] = []"
| "sep_join sep [x] = x"
| "sep_join sep (x # xs) = x @ sep @ sep_join sep xs"

fun groups16 :: "bytes \<Rightarrow> nat list" where
  "groups16 (a # b # r) = (unat a * 256 + unat b) # groups16 r"
| "groups16 _ = []"

definition zero_run :: "nat list \<Rightarrow> nat \<Rightarrow> nat" where
  "zero_run gs i = length (takeWhile (\<lambda>g. g = 0) (drop i gs))"

definition best_run :: "nat list \<Rightarrow> nat \<times> nat" where
  "best_run gs = foldl (\<lambda>(s, n) i. if zero_run gs i \<ge> 2 \<and> zero_run gs i > n then (i, zero_run gs i) else (s, n)) (0, 0) [0..<8]"

definition IP_String :: "bytes \<Rightarrow> gostring" where
  "IP_String ip =
     (if take 12 ip = replicate 10 0 @ [0xff, 0xff]
      then sep_join (str ''.'') (map (\<lambda>b. base_digits 10 (unat b)) (drop 12 ip))
      else
        let gs = groups16 ip; (s, n) = best_run gs; hexs = map (base_digits 16) in
        if n = 0 then sep_join (str '':'') (hexs gs)
        else sep_join (str '':'') (hexs (take s gs)) @ str ''::'' @ sep_join (str '':'') (hexs (drop (s + n) gs)))"

definition unix_seconds :: "instant \<Rightarrow> 64 word" where
  "unix_seconds t = of_int (t div Second)"

definition peerInfo_of :: "(bytes \<Rightarrow> bytes option) \<Rightarrow> Peer \<Rightarrow> PeerInfo" where
  "peerInfo_of A p =
     \<lparr>IIdentity = PIdentity p, ITrust = Trust p, ICapabilities = PCapabilities p, IUserAgent = PUserAgent p,
      IConnectedAt = unix_seconds (ConnectedAt p), ILastSeen = unix_seconds (LastSeen p),
      IAddr = (if length (YggKey (Addr p)) = 32
               then (case A (YggKey (Addr p)) of Some a \<Rightarrow> IP_String a | None \<Rightarrow> [])
               else [])\<rparr>"

definition peerInfos :: "(bytes \<Rightarrow> bytes option) \<Rightarrow> Daemon \<Rightarrow> PeerInfo list" where
  "peerInfos A d = map (peerInfo_of A) (table_List (table d))"

section \<open>Event sink, relay and rate limit\<close>

definition to_sink :: "sink_call \<Rightarrow> Daemon \<Rightarrow> Daemon" where
  "to_sink call d = (if sink d then d\<lparr>sunk := sunk d @ [call]\<rparr> else d)"

definition push :: "Envelope \<Rightarrow> Daemon \<Rightarrow> Daemon" where
  "push env d = to_sink (SinkPush env) d"

definition delivered :: "Envelope \<Rightarrow> Daemon \<Rightarrow> Daemon" where
  "delivered env d = to_sink (SinkDelivered env) d"

definition notifyPeerUpdate :: "(bytes \<Rightarrow> bytes option) \<Rightarrow> Daemon \<Rightarrow> Daemon" where
  "notifyPeerUpdate A d = to_sink (SinkPeerUpdate (peerInfos A d)) d"

definition relay_target :: "bytes option \<Rightarrow> Peer \<Rightarrow> nat option" where
  "relay_target except p =
     (case PSession p of
        None \<Rightarrow> None
      | Some sid \<Rightarrow>
          if Trust p < TrustNeutral then None
          else if except = Some (PIdentity p) then None
          else Some sid)"

definition relay :: "Envelope \<Rightarrow> bytes option \<Rightarrow> Daemon \<Rightarrow> Daemon" where
  "relay env except d =
     (if \<not> ORelay (opts d) then d
      else d\<lparr>relayed := relayed d @ map (\<lambda>sid. (sid, env)) (List.map_filter (relay_target except) (table_List (table d)))\<rparr>)"

definition allowRate :: "instant \<Rightarrow> bytes \<Rightarrow> Daemon \<Rightarrow> Daemon \<times> bool" where
  "allowRate now pid d =
     (let limit = ORateLimitRPM (opts d) in
      if limit \<le> 0 then (d, True)
      else case map_of (rates d) pid of
        Some w \<Rightarrow>
          if time_sub now (rw_start w) > Minute
          then (d\<lparr>rates := AList.update pid \<lparr>rw_start = now, rw_count = 1\<rparr> (rates d)\<rparr>, True)
          else (d\<lparr>rates := AList.update pid (w\<lparr>rw_count := rw_count w + 1\<rparr>) (rates d)\<rparr>, rw_count w + 1 \<le> limit)
      | None \<Rightarrow> (d\<lparr>rates := AList.update pid \<lparr>rw_start = now, rw_count = 1\<rparr> (rates d)\<rparr>, True))"

section \<open>Envelopes\<close>

definition validatePayload :: "msgpack \<Rightarrow> Envelope \<Rightarrow> bool" where
  "validatePayload M env =
     (case NewPayload (Type env) of
        Inl _ \<Rightarrow> False
      | Inr p \<Rightarrow> (case DecodePayload M (Payload env) p of Inl _ \<Rightarrow> False | Inr _ \<Rightarrow> True))"

definition delete_target :: "payload_error + Payload \<Rightarrow> gostring option" where
  "delete_target r = (case r of Inr (DeletePayload h reason) \<Rightarrow> Some h | _ \<Rightarrow> None)"

definition guestbook_owner :: "payload_error + Payload \<Rightarrow> bytes option" where
  "guestbook_owner r = (case r of Inr (GuestbookPayload pk msg) \<Rightarrow> Some pk | _ \<Rightarrow> None)"

definition may_delete :: "msgpack \<Rightarrow> Envelope \<Rightarrow> Envelope \<Rightarrow> bool" where
  "may_delete M env target =
     (if Sender target = Sender env then True
      else if Type target = MsgGuestbook
      then guestbook_owner (DecodePayload M (Payload target) (GuestbookPayload (zero_array 32) [])) = Some (Sender env)
      else False)"

definition handleDelete :: "prims \<Rightarrow> msgpack \<Rightarrow> world \<Rightarrow> Envelope \<Rightarrow> Daemon \<Rightarrow> Daemon \<times> bool" where
  "handleDelete P M w env d =
     (case delete_target (DecodePayload M (Payload env) (DeletePayload [] [])) of
        None \<Rightarrow> (d, False)
      | Some ref \<Rightarrow>
          (case ParseHash ref of
             Inl _ \<Rightarrow> (d, False)
           | Inr hash \<Rightarrow>
               (case Get P (dobjects d) (w_get w) hash (disk d) of
                  (disk1, Inl _) \<Rightarrow> (d\<lparr>disk := disk1\<rparr>, False)
                | (disk1, Inr target) \<Rightarrow>
                    if \<not> may_delete M env target then (d\<lparr>disk := disk1\<rparr>, False)
                    else (case Delete (dobjects d) (w_del w) hash disk1 of
                            (disk2, Inl _) \<Rightarrow> (d\<lparr>disk := disk2\<rparr>, False)
                          | (disk2, Inr _) \<Rightarrow> (d\<lparr>disk := disk2\<rparr>, True)))))"

definition recordProfile :: "prims \<Rightarrow> world \<Rightarrow> Envelope \<Rightarrow> Daemon \<Rightarrow> Daemon" where
  "recordProfile P w env d =
     (let hash = ContentID P env;
          fresh = (\<lambda>d. d\<lparr>profiles := AList.update (Sender env) \<lparr>phash = hash, plastSeen = w_profile w\<rparr> (profiles d)\<rparr>)
      in case map_of (profiles d) (Sender env) of
           None \<Rightarrow> fresh d
         | Some existing \<Rightarrow>
             (case Get P (dobjects d) (w_get w) (phash existing) (disk d) of
                (disk1, Inl _) \<Rightarrow> fresh (d\<lparr>disk := disk1\<rparr>)
              | (disk1, Inr cur) \<Rightarrow>
                  if sint (Timestamp cur) \<ge> sint (Timestamp env)
                  then d\<lparr>disk := disk1,
                         profiles := AList.update (Sender env) (existing\<lparr>plastSeen := w_profile w\<rparr>) (profiles d)\<rparr>
                  else fresh (d\<lparr>disk := disk1\<rparr>)))"

definition storable :: "byte \<Rightarrow> bool" where
  "storable t \<longleftrightarrow> t = MsgChat \<or> t = MsgPost \<or> t = MsgThread \<or> t = MsgReply \<or> t = MsgProfile \<or>
     t = MsgGuestbook \<or> t = MsgStatus \<or> t = MsgSealed"

text \<open>The branches of the type switch of \<^verbatim>\<open>handleEnvelope\<close>.\<close>

definition accept_content :: "prims \<Rightarrow> msgpack \<Rightarrow> world \<Rightarrow> Envelope \<Rightarrow> bytes \<Rightarrow> Daemon \<Rightarrow> Daemon" where
  "accept_content P M w env pid d =
     (if \<not> validatePayload M env then d
      else case Put P (dobjects d) (w_tmp w) (w_put w) env (disk d) of
        (disk1, hash, res) \<Rightarrow>
          (case res of
             Inl _ \<Rightarrow> d\<lparr>disk := disk1\<rparr>
           | Inr existed \<Rightarrow>
               if existed then d\<lparr>disk := disk1\<rparr>
               else
                 let d1 = d\<lparr>disk := disk1\<rparr>;
                     d2 = (if Type env = MsgProfile then recordProfile P w env d1 else d1)
                 in push env (relay env (Some pid) d2)))"

definition accept_ack :: "msgpack \<Rightarrow> Envelope \<Rightarrow> bytes \<Rightarrow> Daemon \<Rightarrow> Daemon" where
  "accept_ack M env pid d =
     (if \<not> validatePayload M env then d else delivered env (relay env (Some pid) d))"

definition accept_delete :: "prims \<Rightarrow> msgpack \<Rightarrow> world \<Rightarrow> Envelope \<Rightarrow> bytes \<Rightarrow> Daemon \<Rightarrow> Daemon" where
  "accept_delete P M w env pid d =
     (case handleDelete P M w env d of
        (d1, ok) \<Rightarrow> if \<not> ok then d1 else push env (relay env (Some pid) d1))"

definition handleEnvelope :: "prims \<Rightarrow> msgpack \<Rightarrow> world \<Rightarrow> Envelope \<Rightarrow> Session \<Rightarrow> Daemon \<Rightarrow> Daemon" where
  "handleEnvelope P M w env sess d =
     (case ValidateTimestamp (Timestamp env) (w_check w) of
        Inl _ \<Rightarrow> d
      | Inr _ \<Rightarrow>
          if length (Payload env) > unat (OMaxPayloadSize (opts d)) then d
          else
            (case allowRate (w_rate w) (PeerIdentity sess) d of
               (d1, ok) \<Rightarrow>
                 if \<not> ok then d1
                 else
                   let d2 = d1\<lparr>table := Touch (w_touch w) (PeerIdentity sess) (table d1)\<rparr> in
                   if storable (Type env) then accept_content P M w env (PeerIdentity sess) d2
                   else if Type env = MsgAck \<or> Type env = MsgSealedAck then accept_ack M env (PeerIdentity sess) d2
                   else if Type env = MsgDelete then accept_delete P M w env (PeerIdentity sess) d2
                   else d2))"

section \<open>Sessions, seeds and pruning\<close>

text \<open>A session pointer \<open>sid\<close> with its session and transport address.\<close>

definition adoptSession :: "(bytes \<Rightarrow> bytes option) \<Rightarrow> instant \<Rightarrow> nat \<Rightarrow> Session \<Rightarrow> PeerAddr \<Rightarrow> Daemon \<Rightarrow> Daemon" where
  "adoptSession A now sid sess adr d =
     (case Add now sid sess adr (table d) of
        (t, closes, Inl _) \<Rightarrow> d\<lparr>table := t, closed := closed d @ closes @ [sid]\<rparr>
      | (t, closes, Inr _) \<Rightarrow> notifyPeerUpdate A (d\<lparr>table := t, closed := closed d @ closes\<rparr>))"

definition endSession :: "(bytes \<Rightarrow> bytes option) \<Rightarrow> nat \<Rightarrow> Session \<Rightarrow> Daemon \<Rightarrow> Daemon" where
  "endSession A sid sess d =
     (case RemoveSession (PeerIdentity sess) sid (table d) of
        (t, closes) \<Rightarrow> notifyPeerUpdate A (d\<lparr>table := t, closed := closed d @ closes\<rparr>))"

definition seedConnected :: "bytes \<Rightarrow> Daemon \<Rightarrow> bool" where
  "seedConnected key d = list_ex (\<lambda>p. YggKey (Addr p) = key) (table_List (table d))"

text \<open>The outcome of one dial and handshake: \<^const>\<open>None\<close> where either failed.\<close>

type_synonym dial_outcome = "(instant \<times> nat \<times> Session \<times> PeerAddr) option"

definition dialSeed :: "(bytes \<Rightarrow> bytes option) \<Rightarrow> dial_outcome \<Rightarrow> bytes \<Rightarrow> Daemon \<Rightarrow> Daemon" where
  "dialSeed A outcome key d =
     (case outcome of
        None \<Rightarrow> d\<lparr>dialling := dialling d @ [key]\<rparr>
      | Some (now, sid, sess, adr) \<Rightarrow> adoptSession A now sid sess adr (d\<lparr>dialling := dialling d @ [key]\<rparr>))"

definition seedLoop_pass :: "(bytes \<Rightarrow> bytes option) \<Rightarrow> (bytes \<Rightarrow> dial_outcome) \<Rightarrow> Daemon \<Rightarrow> Daemon" where
  "seedLoop_pass A outcome d =
     foldl (\<lambda>d key. if seedConnected key d then d else dialSeed A (outcome key) key d) d (OSeeds (opts d))"

definition pruneTrackedPeerState :: "instant \<Rightarrow> Daemon \<Rightarrow> Daemon" where
  "pruneTrackedPeerState now d =
     d\<lparr>profiles := filter (\<lambda>(pk, e). \<not> time_sub now (plastSeen e) > profileTTL) (profiles d),
       rates := filter (\<lambda>(pid, w). \<not> time_sub now (rw_start w) > rateWindowTTL) (rates d)\<rparr>"

definition pruneLoop_tick ::
  "prims \<Rightarrow> (gostring \<Rightarrow> walk_fault) \<Rightarrow> instant \<Rightarrow> instant \<Rightarrow> Daemon \<Rightarrow> Daemon" where
  "pruneLoop_tick P flt now1 now2 d =
     (let maxAge = uint (OMaxMessageAge (opts d)) * Second in
      pruneTrackedPeerState now2 (d\<lparr>disk := fst (fst (Prune P flt maxAge now1 (disk d)))\<rparr>))"

section \<open>Local requests\<close>

definition HandleSend :: "prims \<Rightarrow> msgpack \<Rightarrow> world \<Rightarrow> Envelope \<Rightarrow> Daemon \<Rightarrow> Daemon \<times> (gostring + unit)" where
  "HandleSend P M w env d =
     (case ValidateTimestamp (Timestamp env) (w_check w) of
        Inl _ \<Rightarrow> (d, Inl (str ''stale timestamp''))
      | Inr _ \<Rightarrow>
          if \<not> validatePayload M env then (d, Inl (str ''invalid payload''))
          else if storable (Type env) then
            (case Put P (dobjects d) (w_tmp w) (w_put w) env (disk d) of
               (disk1, hash, Inl _) \<Rightarrow> (d\<lparr>disk := disk1\<rparr>, Inl (str ''storage failure''))
             | (disk1, hash, Inr _) \<Rightarrow>
                 let d1 = d\<lparr>disk := disk1\<rparr>;
                     d2 = (if Type env = MsgProfile then recordProfile P w env d1 else d1)
                 in (relay env None d2, Inr ()))
          else if Type env = MsgAck \<or> Type env = MsgSealedAck then (relay env None d, Inr ())
          else if Type env = MsgDelete then
            (case handleDelete P M w env d of
               (d1, ok) \<Rightarrow> if \<not> ok then (d1, Inl (str ''delete rejected'')) else (relay env None d1, Inr ()))
          else (d, Inl (str ''unroutable message type'')))"

definition HandleFetch :: "prims \<Rightarrow> world \<Rightarrow> bytes \<Rightarrow> Daemon \<Rightarrow> Daemon \<times> (store_error + Envelope)" where
  "HandleFetch P w hash d =
     (case Get P (dobjects d) (w_get w) hash (disk d) of (disk1, res) \<Rightarrow> (d\<lparr>disk := disk1\<rparr>, res))"

definition HandlePeerList :: "(bytes \<Rightarrow> bytes option) \<Rightarrow> Daemon \<Rightarrow> PeerInfo list" where
  "HandlePeerList A d = peerInfos A d"

definition HandleTrust :: "(bytes \<Rightarrow> bytes option) \<Rightarrow> bytes \<Rightarrow> byte \<Rightarrow> Daemon \<Rightarrow> Daemon \<times> (table_error + unit)" where
  "HandleTrust A identity level d =
     (case SetTrust identity level (table d) of
        (t, Inl e) \<Rightarrow> (d\<lparr>table := t\<rparr>, Inl e)
      | (t, Inr _) \<Rightarrow> (notifyPeerUpdate A (d\<lparr>table := t\<rparr>), Inr ()))"

definition HandleConnect :: "bytes \<Rightarrow> Daemon \<Rightarrow> Daemon \<times> (gostring + unit)" where
  "HandleConnect yggKey d = (d\<lparr>dialling := dialling d @ [yggKey]\<rparr>, Inr ())"

definition HandleProfile :: "prims \<Rightarrow> world \<Rightarrow> bytes \<Rightarrow> Daemon \<Rightarrow> Daemon \<times> (store_error + Envelope)" where
  "HandleProfile P w pubkey d =
     (case map_of (profiles d) pubkey of
        None \<Rightarrow> (d, Inl ErrNotFound)
      | Some ent \<Rightarrow> HandleFetch P w (phash ent) d)"

text \<open>The daemon as the handler of the local server; error values become their texts.\<close>

fun table_error_text :: "table_error \<Rightarrow> gostring" where
  "table_error_text ErrTableFull = str ''federation: peer table full''"
| "table_error_text ErrUnknownPeer = str ''federation: unknown peer''"
| "table_error_text ErrBadTrust = str ''federation: invalid trust level''"

definition collect :: "(Daemon \<Rightarrow> Daemon \<times> 'r) \<Rightarrow> ('r \<Rightarrow> gostring + 'a) \<Rightarrow> Daemon \<Rightarrow> Daemon \<times> sink_call list \<times> (gostring + 'a)" where
  "collect f text d =
     (case f (d\<lparr>sunk := []\<rparr>) of (d1, r) \<Rightarrow> (d1\<lparr>sunk := sunk d @ sunk d1\<rparr>, sunk d1, text r))"

definition daemon_handler :: "prims \<Rightarrow> msgpack \<Rightarrow> (bytes \<Rightarrow> bytes option) \<Rightarrow> world \<Rightarrow> Daemon Handler" where
  "daemon_handler P M A w =
     \<lparr>HSend = (\<lambda>env. collect (HandleSend P M w env) id),
      HFetch = (\<lambda>hash. collect (HandleFetch P w hash) (map_sum (\<lambda>_. []) id)),
      HPeerList = HandlePeerList A,
      HProfile = (\<lambda>pk. collect (HandleProfile P w pk) (map_sum (\<lambda>_. []) id)),
      HTrust = (\<lambda>identity level. collect (HandleTrust A identity level) (map_sum table_error_text id)),
      HConnect = (\<lambda>key. collect (HandleConnect key) id)\<rparr>"

section \<open>Steps of the daemon and their invariant\<close>

text \<open>
  The events the daemon reacts to. Envelopes enter as the bytes that arrive: a frame of a session, or
  the payload of a local send request.
\<close>

datatype daemon_op =
    DFrame world Session bytes
  | DAdopt instant nat Session PeerAddr
  | DEnd nat Session
  | DSeeds "bytes \<Rightarrow> dial_outcome"
  | DTick "gostring \<Rightarrow> walk_fault" instant instant
  | DLocal world bytes
  | DFetch world bytes
  | DProfile world bytes
  | DTrust bytes byte
  | DConnect bytes
  | DSink bool

fun daemon_step :: "prims \<Rightarrow> msgpack \<Rightarrow> (bytes \<Rightarrow> bytes option) \<Rightarrow> Daemon \<Rightarrow> daemon_op \<Rightarrow> Daemon" where
  "daemon_step P M A d (DFrame w sess frame) =
     (case session_open P sess frame of None \<Rightarrow> d | Some env \<Rightarrow> handleEnvelope P M w env sess d)"
| "daemon_step P M A d (DAdopt now sid sess adr) = adoptSession A now sid sess adr d"
| "daemon_step P M A d (DEnd sid sess) = endSession A sid sess d"
| "daemon_step P M A d (DSeeds outcome) = seedLoop_pass A outcome d"
| "daemon_step P M A d (DTick flt now1 now2) = pruneLoop_tick P flt now1 now2 d"
| "daemon_step P M A d (DLocal w data) =
     (case Decode P data of Inl _ \<Rightarrow> d | Inr env \<Rightarrow> fst (HandleSend P M w env d))"
| "daemon_step P M A d (DFetch w hash) = fst (HandleFetch P w (to_array 32 hash) d)"
| "daemon_step P M A d (DProfile w pk) = fst (HandleProfile P w (to_array 32 pk) d)"
| "daemon_step P M A d (DTrust i level) = fst (HandleTrust A i level d)"
| "daemon_step P M A d (DConnect key) = fst (HandleConnect key d)"
| "daemon_step P M A d (DSink attached) = SetEventSink attached d"

definition daemon_inv :: "prims \<Rightarrow> Daemon \<Rightarrow> bool" where
  "daemon_inv P d \<longleftrightarrow>
     sound P (dobjects d) (disk d) \<and> distinct (map fst (disk d)) \<and> table_inv (table d) \<and>
     distinct (map fst (profiles d)) \<and> (\<forall>e \<in> snd ` set (profiles d). length (phash e) = 32) \<and>
     distinct (map fst (rates d))"

text \<open>What the reporting operations leave alone.\<close>

lemma to_sink_frame [simp]:
  "disk (to_sink c d) = disk d" "table (to_sink c d) = table d" "dobjects (to_sink c d) = dobjects d"
  "opts (to_sink c d) = opts d" "profiles (to_sink c d) = profiles d" "rates (to_sink c d) = rates d"
  "relayed (to_sink c d) = relayed d" "closed (to_sink c d) = closed d" "sink (to_sink c d) = sink d"
  "dialling (to_sink c d) = dialling d"
  by (simp_all add: to_sink_def)

lemma relay_frame [simp]:
  "disk (relay e x d) = disk d" "table (relay e x d) = table d" "dobjects (relay e x d) = dobjects d"
  "opts (relay e x d) = opts d" "profiles (relay e x d) = profiles d" "rates (relay e x d) = rates d"
  "sunk (relay e x d) = sunk d" "closed (relay e x d) = closed d" "sink (relay e x d) = sink d"
  "dialling (relay e x d) = dialling d"
  by (simp_all add: relay_def)

lemmas sink_defs = push_def delivered_def notifyPeerUpdate_def

lemma daemon_inv_to_sink [simp]: "daemon_inv P (to_sink c d) = daemon_inv P d"
  by (simp add: daemon_inv_def)

lemma daemon_inv_relay [simp]: "daemon_inv P (relay e x d) = daemon_inv P d"
  by (simp add: daemon_inv_def)

lemma distinct_disk_Put: "distinct (map fst dsk) \<Longrightarrow> distinct (map fst (fst (Put P s tmp flt e dsk)))"
  by (simp add: Put_disk Let_def distinct_update distinct_delete)

lemma Get_sound_disk:
  assumes "sound P s dsk" "length h = 32"
  shows "fst (Get P s rd h dsk) = dsk"
proof (cases rd)
  case True
  then show ?thesis by (simp add: Get_def path_unfold split: option.splits)
next
  case False
  then show ?thesis using sound_Get [OF assms] by simp
qed

lemma distinct_disk_Delete: "distinct (map fst dsk) \<Longrightarrow> distinct (map fst (fst (Delete s rm h dsk)))"
  by (simp add: Delete_def path_unfold distinct_delete)

lemma daemon_inv_disk:
  "daemon_inv P d \<Longrightarrow> sound P (dobjects d) x \<Longrightarrow> distinct (map fst x) \<Longrightarrow> daemon_inv P (d\<lparr>disk := x\<rparr>)"
  by (simp add: daemon_inv_def)

lemma daemon_inv_table: "daemon_inv P d \<Longrightarrow> table_inv t \<Longrightarrow> daemon_inv P (d\<lparr>table := t\<rparr>)"
  by (simp add: daemon_inv_def)

lemma daemon_inv_profile:
  assumes "daemon_inv P d" "length (phash e) = 32"
  shows "daemon_inv P (d\<lparr>profiles := AList.update k e (profiles d)\<rparr>)"
proof -
  have "\<forall>x \<in> insert e (snd ` set (profiles d)). length (phash x) = 32" using assms by (auto simp: daemon_inv_def)
  then have "\<forall>x \<in> snd ` set (AList.update k e (profiles d)). length (phash x) = 32"
    using snd_update_subset [of k e "profiles d"] by (meson subsetD)
  then show ?thesis using assms by (simp add: daemon_inv_def distinct_update)
qed

lemma daemon_inv_Put:
  "daemon_inv P d \<Longrightarrow> acceptable P env \<Longrightarrow> daemon_inv P (d\<lparr>disk := fst (Put P (dobjects d) tmp flt env (disk d))\<rparr>)"
  by (rule daemon_inv_disk) (simp_all add: daemon_inv_def Put_sound distinct_disk_Put)

lemma known_profile_hash:
  "daemon_inv P d \<Longrightarrow> map_of (profiles d) pk = Some e \<Longrightarrow> length (phash e) = 32"
  by (force simp: daemon_inv_def dest: map_of_SomeD)

lemma Get_keeps_disk:
  "daemon_inv P d \<Longrightarrow> length h = 32 \<Longrightarrow> fst (Get P (dobjects d) rd h (disk d)) = disk d"
  by (simp add: daemon_inv_def Get_sound_disk)

lemma recordProfile_eq:
  assumes inv: "daemon_inv P d"
  shows "\<exists>e. length (phash e) = 32 \<and> recordProfile P w env d = d\<lparr>profiles := AList.update (Sender env) e (profiles d)\<rparr>"
proof (cases "map_of (profiles d) (Sender env)")
  case None
  then show ?thesis
    by (intro exI [of _ "\<lparr>phash = ContentID P env, plastSeen = w_profile w\<rparr>"]) (simp add: recordProfile_def Let_def)
next
  case (Some old)
  note h = known_profile_hash [OF inv Some]
  obtain res where "Get P (dobjects d) (w_get w) (phash old) (disk d) = (disk d, res)"
    using Get_keeps_disk [OF inv h, of "w_get w"] by (metis prod.collapse)
  then show ?thesis
    using Some h
    by (intro exI [of _ "if (\<exists>cur. res = Inr cur \<and> sint (Timestamp cur) \<ge> sint (Timestamp env)) then old\<lparr>plastSeen := w_profile w\<rparr>
          else \<lparr>phash = ContentID P env, plastSeen = w_profile w\<rparr>"])
      (auto simp: recordProfile_def Let_def split: sum.splits)
qed

lemma recordProfile_inv: "daemon_inv P d \<Longrightarrow> daemon_inv P (recordProfile P w env d)"
  using recordProfile_eq [of P d w env] daemon_inv_profile by fastforce

lemma recordProfile_frame:
  "daemon_inv P d \<Longrightarrow> disk (recordProfile P w env d) = disk d \<and> dobjects (recordProfile P w env d) = dobjects d \<and>
     table (recordProfile P w env d) = table d \<and> opts (recordProfile P w env d) = opts d \<and>
     relayed (recordProfile P w env d) = relayed d \<and> sunk (recordProfile P w env d) = sunk d \<and>
     sink (recordProfile P w env d) = sink d"
  using recordProfile_eq [of P d w env] by fastforce

text \<open>
  A deletion either changes nothing on disk, or removes the one object it names, whose owner the sender
  is.
\<close>

lemma handleDelete_cases:
  assumes inv: "daemon_inv P d"
  obtains (rejected) "handleDelete P M w env d = (d, False)"
    | (deleted) ref reason hash target
      where "DecodePayload M (Payload env) (DeletePayload [] []) = Inr (DeletePayload ref reason)"
        "ParseHash ref = Inr hash" "length hash = 32" "lookup P (dobjects d) (disk d) hash = Some target"
        "may_delete M env target" "w_del w = False"
        "handleDelete P M w env d = (d\<lparr>disk := fst (Delete (dobjects d) False hash (disk d))\<rparr>, True)"
proof (cases "delete_target (DecodePayload M (Payload env) (DeletePayload [] []))")
  case None
  then show thesis using rejected by (simp add: handleDelete_def)
next
  case (Some ref)
  then obtain reason where dec: "DecodePayload M (Payload env) (DeletePayload [] []) = Inr (DeletePayload ref reason)"
    by (auto simp: delete_target_def split: sum.splits Payload.splits)
  show thesis
  proof (cases "ParseHash ref")
    case (Inl e)
    then show thesis using rejected Some by (simp add: handleDelete_def)
  next
    case (Inr hash)
    then have h: "length hash = 32" by (auto simp: ParseHash_def split: if_splits option.splits)
    note disk1 = Get_keeps_disk [OF inv h, of "w_get w"]
    obtain res where get: "Get P (dobjects d) (w_get w) hash (disk d) = (disk d, res)"
      using disk1 by (metis prod.collapse)
    show thesis
    proof (cases "\<exists>target. res = Inr target \<and> may_delete M env target")
      case False
      then show thesis
        using rejected Some Inr get by (auto simp: handleDelete_def split: sum.splits)
    next
      case True
      then obtain target where t: "res = Inr target" "may_delete M env target" by blast
      then have "lookup P (dobjects d) (disk d) hash = Some target"
        using get by (cases "w_get w") (auto simp: lookup_def Get_def path_unfold split: option.splits)
      then have stat: "Stat (disk d) (file_of (dobjects d) hash)"
        using lookup_None_iff [of P "dobjects d" "disk d" hash] inv h by (simp add: daemon_inv_def)
      show thesis
      proof (cases "w_del w")
        case True
        then have "Delete (dobjects d) (w_del w) hash (disk d) = (disk d, Inl ErrStoreDelete)"
          using stat by (simp add: Delete_def path_unfold)
        then show thesis using rejected Some Inr get t by (simp add: handleDelete_def)
      next
        case False
        then obtain dsk where "Delete (dobjects d) False hash (disk d) = (dsk, Inr ())"
          using stat by (simp add: Delete_def path_unfold)
        then show thesis
          using deleted [OF dec Inr h \<open>lookup P (dobjects d) (disk d) hash = Some target\<close> t(2)] False Some Inr get t
          by (simp add: handleDelete_def)
      qed
    qed
  qed
qed

lemma handleDelete_inv:
  assumes "daemon_inv P d"
  shows "daemon_inv P (fst (handleDelete P M w env d))"
  using assms
proof (cases rule: handleDelete_cases [OF assms, of M w env])
  case (2 ref reason hash target)
  have "daemon_inv P (d\<lparr>disk := fst (Delete (dobjects d) False hash (disk d))\<rparr>)"
    using assms by (intro daemon_inv_disk) (simp_all add: daemon_inv_def Delete_sound distinct_disk_Delete)
  then show ?thesis using 2 by simp
qed simp

text \<open>The content branch, with the store's result decided.\<close>

definition after_store :: "prims \<Rightarrow> world \<Rightarrow> Envelope \<Rightarrow> Daemon \<Rightarrow> Daemon" where
  "after_store P w env d =
     (let d1 = d\<lparr>disk := fst (Put P (dobjects d) (w_tmp w) (w_put w) env (disk d))\<rparr> in
      if Type env = MsgProfile then recordProfile P w env d1 else d1)"

lemma accept_content_eq:
  "accept_content P M w env pid d =
     (if \<not> validatePayload M env then d
      else if snd (snd (Put P (dobjects d) (w_tmp w) (w_put w) env (disk d))) = Inr False
      then push env (relay env (Some pid) (after_store P w env d))
      else d\<lparr>disk := fst (Put P (dobjects d) (w_tmp w) (w_put w) env (disk d))\<rparr>)"
  by (auto simp: accept_content_def after_store_def Let_def split: prod.splits sum.splits)

lemma after_store_inv: "daemon_inv P d \<Longrightarrow> acceptable P env \<Longrightarrow> daemon_inv P (after_store P w env d)"
  by (simp add: after_store_def Let_def daemon_inv_Put recordProfile_inv)

lemma after_store_frame:
  assumes "daemon_inv P d" "acceptable P env"
  shows "disk (after_store P w env d) = fst (Put P (dobjects d) (w_tmp w) (w_put w) env (disk d))"
    "dobjects (after_store P w env d) = dobjects d" "table (after_store P w env d) = table d"
    "opts (after_store P w env d) = opts d" "relayed (after_store P w env d) = relayed d"
    "sunk (after_store P w env d) = sunk d" "sink (after_store P w env d) = sink d"
  using recordProfile_frame [OF daemon_inv_Put [OF assms]] by (simp_all add: after_store_def Let_def)

lemma accept_content_inv: "daemon_inv P d \<Longrightarrow> acceptable P env \<Longrightarrow> daemon_inv P (accept_content P M w env pid d)"
  by (simp add: accept_content_eq sink_defs after_store_inv daemon_inv_Put)

lemma accept_ack_inv: "daemon_inv P d \<Longrightarrow> daemon_inv P (accept_ack M env pid d)"
  by (simp add: accept_ack_def sink_defs)

lemma accept_delete_inv: "daemon_inv P d \<Longrightarrow> daemon_inv P (accept_delete P M w env pid d)"
  using handleDelete_inv [of P d M w env] by (auto simp: accept_delete_def sink_defs split: prod.splits)

lemma allowRate_shape: "\<exists>r ok. allowRate now pid d = (d\<lparr>rates := r\<rparr>, ok) \<and> (distinct (map fst (rates d)) \<longrightarrow> distinct (map fst r))"
proof -
  have "d = d\<lparr>rates := rates d\<rparr>" by simp
  then show ?thesis
    by (auto simp: allowRate_def Let_def distinct_update intro: exI [of _ "rates d"] split: option.splits)
qed

lemma Touch_inv: "table_inv t \<Longrightarrow> table_inv (Touch now i t)"
  using table_step_inv [of t "OpTouch now i"] by simp

text \<open>
  What \<^verbatim>\<open>handleEnvelope\<close> may do: nothing beyond the rate counters, or the branch of the envelope's type on
  a state that differs only in counters and the peer's last-seen time.
\<close>

lemma handleEnvelope_cases:
  obtains (dropped) r where "handleEnvelope P M w env sess d = d\<lparr>rates := r\<rparr>"
      "distinct (map fst (rates d)) \<longrightarrow> distinct (map fst r)"
    | (handled) r d2 where "d2 = d\<lparr>rates := r, table := Touch (w_touch w) (PeerIdentity sess) (table d)\<rparr>"
      "distinct (map fst (rates d)) \<longrightarrow> distinct (map fst r)"
      "ValidateTimestamp (Timestamp env) (w_check w) = Inr ()"
      "handleEnvelope P M w env sess d =
         (if storable (Type env) then accept_content P M w env (PeerIdentity sess) d2
          else if Type env = MsgAck \<or> Type env = MsgSealedAck then accept_ack M env (PeerIdentity sess) d2
          else if Type env = MsgDelete then accept_delete P M w env (PeerIdentity sess) d2
          else d2)"
proof -
  obtain r ok where r: "allowRate (w_rate w) (PeerIdentity sess) d = (d\<lparr>rates := r\<rparr>, ok)"
    "distinct (map fst (rates d)) \<longrightarrow> distinct (map fst r)" using allowRate_shape by blast
  have same: "d = d\<lparr>rates := rates d\<rparr>" by simp
  show thesis
  proof (cases "ValidateTimestamp (Timestamp env) (w_check w)")
    case (Inl e)
    then show thesis using dropped [of "rates d"] by (simp add: handleEnvelope_def)
  next
    case (Inr u)
    show thesis
    proof (cases "length (Payload env) > unat (OMaxPayloadSize (opts d))")
      case True
      then show thesis using dropped [of "rates d"] Inr by (simp add: handleEnvelope_def)
    next
      case small: False
      show thesis
      proof (cases ok)
        case True
        then show thesis using small handled [OF refl r(2)] Inr r(1) by (simp add: handleEnvelope_def Let_def)
      next
        case False
        then show thesis using small dropped [OF _ r(2)] Inr r(1) by (simp add: handleEnvelope_def)
      qed
    qed
  qed
qed

lemma daemon_inv_rates: "daemon_inv P d \<Longrightarrow> distinct (map fst r) \<Longrightarrow> daemon_inv P (d\<lparr>rates := r\<rparr>)"
  by (simp add: daemon_inv_def)

lemma daemon_inv_touched:
  assumes "daemon_inv P d" "distinct (map fst (rates d)) \<longrightarrow> distinct (map fst r)"
  shows "daemon_inv P (d\<lparr>rates := r, table := Touch now i (table d)\<rparr>)"
  using assms Touch_inv by (simp add: daemon_inv_def)

lemma handleEnvelope_inv:
  assumes "daemon_inv P d" "acceptable P env"
  shows "daemon_inv P (handleEnvelope P M w env sess d)"
proof (cases rule: handleEnvelope_cases [of P M w env sess d])
  case (dropped r)
  then show ?thesis using assms by (simp add: daemon_inv_def)
next
  case (handled r d2)
  have "daemon_inv P d2" using daemon_inv_touched [OF assms(1) handled(2)] handled(1) by simp
  then show ?thesis
    using assms(2) handled(4) accept_content_inv accept_ack_inv accept_delete_inv by simp
qed

lemma adoptSession_inv: "daemon_inv P d \<Longrightarrow> daemon_inv P (adoptSession A now sid sess adr d)"
  using Add_inv [of "table d" now sid sess adr]
  by (auto simp: adoptSession_def notifyPeerUpdate_def daemon_inv_def split: prod.splits sum.splits)

lemma endSession_inv: "daemon_inv P d \<Longrightarrow> daemon_inv P (endSession A sid sess d)"
  using table_step_inv [of "table d" "OpRemoveSession (PeerIdentity sess) sid"]
  by (auto simp: endSession_def notifyPeerUpdate_def daemon_inv_def split: prod.splits)

lemma dialSeed_inv: "daemon_inv P d \<Longrightarrow> daemon_inv P (dialSeed A out key d)"
  by (auto simp: dialSeed_def split: option.splits intro!: adoptSession_inv) (simp_all add: daemon_inv_def)

lemma seedLoop_pass_inv: "daemon_inv P d \<Longrightarrow> daemon_inv P (seedLoop_pass A out d)"
proof -
  have "daemon_inv P d \<Longrightarrow> daemon_inv P (foldl (\<lambda>d key. if seedConnected key d then d else dialSeed A (out key) key d) d ks)" for ks
    by (induction ks arbitrary: d) (auto simp: dialSeed_inv)
  then show "daemon_inv P d \<Longrightarrow> daemon_inv P (seedLoop_pass A out d)" by (simp add: seedLoop_pass_def)
qed

lemma prune_walk_distinct:
  "distinct (map fst dsk) \<Longrightarrow> distinct (map fst (fst (fst (prune_walk P flt m now ents (dsk, n)))))"
  by (induction ents arbitrary: dsk n) (auto simp: distinct_delete split: walk_fault.splits sum.splits)

lemma pruneLoop_tick_inv: "daemon_inv P d \<Longrightarrow> daemon_inv P (pruneLoop_tick P flt n1 n2 d)"
  unfolding daemon_inv_def pruneLoop_tick_def pruneTrackedPeerState_def Prune_def Let_def
  by (auto simp: prune_walk_sound prune_walk_distinct distinct_map_filter)

lemma HandleSend_inv:
  assumes "daemon_inv P d" "acceptable P env"
  shows "daemon_inv P (fst (HandleSend P M w env d))"
proof -
  have "daemon_inv P (d\<lparr>disk := fst (Put P (dobjects d) (w_tmp w) (w_put w) env (disk d))\<rparr>)"
    using daemon_inv_Put [OF assms] .
  then show ?thesis
    using assms handleDelete_inv [OF assms(1), of M w env] recordProfile_inv
    by (auto simp: HandleSend_def Let_def split: sum.splits prod.splits)
qed

lemma HandleFetch_inv: "daemon_inv P d \<Longrightarrow> length h = 32 \<Longrightarrow> fst (HandleFetch P w h d) = d"
  using Get_keeps_disk [of P d h "w_get w"] by (auto simp: HandleFetch_def split: prod.splits)

lemma HandleProfile_inv: "daemon_inv P d \<Longrightarrow> fst (HandleProfile P w pk d) = d"
  using HandleFetch_inv known_profile_hash by (auto simp: HandleProfile_def split: option.splits)

lemma HandleTrust_inv: "daemon_inv P d \<Longrightarrow> daemon_inv P (fst (HandleTrust A i l d))"
  using table_step_inv [of "table d" "OpSetTrust i l"]
  by (auto simp: HandleTrust_def notifyPeerUpdate_def daemon_inv_def split: prod.splits sum.splits)

lemma session_open_acceptable: "session_open P sess frame = Some env \<Longrightarrow> acceptable P env"
  by (auto simp: session_open_def split: if_splits sum.splits dest!: Decode_Inr)

lemma daemon_step_inv:
  assumes "daemon_inv P d"
  shows "daemon_inv P (daemon_step P M A d op)"
proof (cases op)
  case (DFrame w sess frame)
  then show ?thesis
    using assms handleEnvelope_inv session_open_acceptable by (auto split: option.splits)
next
  case (DLocal w data)
  then show ?thesis using assms HandleSend_inv by (auto split: sum.splits dest!: Decode_Inr)
next
  case (DConnect key)
  then show ?thesis using assms by (simp add: HandleConnect_def daemon_inv_def)
next
  case (DSink b)
  then show ?thesis using assms by (simp add: SetEventSink_def daemon_inv_def)
qed (use assms in \<open>simp_all add: adoptSession_inv endSession_inv seedLoop_pass_inv pruneLoop_tick_inv
    HandleFetch_inv HandleProfile_inv HandleTrust_inv\<close>)

interpretation daemonrun: run_invariant "daemon_step P M A" "daemon_inv P" for P M A
  by unfold_locales (rule daemon_step_inv)

section \<open>Objects leave the store only by right\<close>

lemma Put_keeps:
  assumes "sound P s dsk" "acceptable P e" "length h = 32" "lookup P s dsk h = Some t"
  shows "lookup P s (fst (Put P s tmp flt e dsk)) h = Some t"
proof (cases "flt = PutOk")
  case True
  then show ?thesis using lookup_Put [OF assms(1-3)] assms(4) by simp
next
  case False
  then have "map_of (fst (Put P s tmp flt e dsk)) (file_of s h) = map_of dsk (file_of s h)"
    using assms(3) by (simp add: Put_disk Let_def map_of_paths)
  then show ?thesis using lookup_cong [OF Put_sound [OF assms(1,2)] assms(1,3)] assms(4) by metis
qed

text \<open>Age above the limit for its type, at the configured maximum age.\<close>

definition expired :: "Daemon \<Rightarrow> instant \<Rightarrow> Envelope \<Rightarrow> bool" where
  "expired d now e \<longleftrightarrow>
     time_sub now (unix_nano (Timestamp e)) >
       (if Type e = MsgStatus then min (24 * Hour) (uint (OMaxMessageAge (opts d)) * Second)
        else uint (OMaxMessageAge (opts d)) * Second)"

lemma prune_walk_keeps:
  assumes "Decode P data = Inr e" "\<not> time_sub now (unix_nano (Timestamp e)) > prune_limit m e"
    and "map_of dsk f = Some data" "\<forall>x. (f, x) \<in> set ents \<longrightarrow> x = data"
  shows "map_of (fst (fst (prune_walk P flt m now ents (dsk, n)))) f = Some data"
  using assms(3,4)
proof (induction ents arbitrary: dsk n)
  case Nil
  then show ?case by simp
next
  case (Cons a ents)
  obtain g x where a: "a = (g, x)" by (cases a)
  have "g = f \<Longrightarrow> x = data" using Cons.prems(2) a by simp
  then show ?case
    using Cons assms(1,2) by (cases "g = f") (auto simp: a delete_conv split: walk_fault.splits sum.splits)
qed

lemma pruneLoop_tick_keeps:
  assumes inv: "daemon_inv P d" and h: "length h = 32" and t: "lookup P (dobjects d) (disk d) h = Some t"
    and keep: "\<not> expired d n1 t"
  shows "lookup P (dobjects d) (disk (pruneLoop_tick P flt n1 n2 d)) h = Some t"
proof -
  let ?m = "uint (OMaxMessageAge (opts d)) * Second"
  let ?d = "fst (fst (prune_walk P flt ?m n1 (disk d) (disk d, 0)))"
  have snd: "sound P (dobjects d) (disk d)" "distinct (map fst (disk d))" using inv by (auto simp: daemon_inv_def)
  note l = lookup_Some [OF snd(1) h t]
  have "\<not> time_sub n1 (unix_nano (Timestamp t)) > prune_limit ?m t"
    using keep by (cases "Type t = MsgStatus") (auto simp: expired_def prune_limit_def min_def split: if_splits)
  moreover have "Decode P (Encode t) = Inr t" using l Decode_Encode_acceptable by blast
  moreover have "\<forall>x. (file_of (dobjects d) h, x) \<in> set (disk d) \<longrightarrow> x = Encode t"
    using l snd(2) map_of_SomeD eq_key_imp_eq_value by metis
  ultimately have "map_of ?d (file_of (dobjects d) h) = Some (Encode t)"
    using prune_walk_keeps l by blast
  then have "lookup P (dobjects d) ?d h = Some t"
    using lookup_Encode [OF prune_walk_sound [OF snd(1)] h] l by blast
  then show ?thesis by (simp add: pruneLoop_tick_def pruneTrackedPeerState_def Prune_def Let_def)
qed

definition may_remove :: "msgpack \<Rightarrow> Envelope \<Rightarrow> bytes \<Rightarrow> Envelope \<Rightarrow> bool" where
  "may_remove M env h t \<longleftrightarrow>
     Type env = MsgDelete \<and>
     (\<exists>ref reason. DecodePayload M (Payload env) (DeletePayload [] []) = Inr (DeletePayload ref reason) \<and> ParseHash ref = Inr h) \<and>
     (Sender env = Sender t \<or>
      Type t = MsgGuestbook \<and>
      (\<exists>msg. DecodePayload M (Payload t) (GuestbookPayload (zero_array 32) []) = Inr (GuestbookPayload (Sender env) msg)))"

lemma may_delete_iff:
  "may_delete M env t \<longleftrightarrow> Sender env = Sender t \<or> Type t = MsgGuestbook \<and>
     (\<exists>msg. DecodePayload M (Payload t) (GuestbookPayload (zero_array 32) []) = Inr (GuestbookPayload (Sender env) msg))"
  by (auto simp: may_delete_def guestbook_owner_def split: sum.splits Payload.splits)

lemma handleDelete_keeps:
  assumes inv: "daemon_inv P d" and h: "length h = 32" and t: "lookup P (dobjects d) (disk d) h = Some t"
    and ty: "Type env = MsgDelete" and no: "\<not> may_remove M env h t"
  shows "lookup P (dobjects d) (disk (fst (handleDelete P M w env d))) h = Some t"
proof (cases rule: handleDelete_cases [OF inv, of M w env])
  case 1
  then show ?thesis using t by simp
next
  case (2 ref reason hash target)
  have "hash \<noteq> h"
  proof
    assume "hash = h"
    then have "may_remove M env h t" using 2 t ty by (auto simp: may_remove_def may_delete_iff)
    then show False using no by blast
  qed
  then show ?thesis using 2 t h lookup_Delete [of P "dobjects d" "disk d" hash h] inv by (simp add: daemon_inv_def)
qed

lemma handleDelete_dobjects: "dobjects (fst (handleDelete P M w env d)) = dobjects d"
  by (auto simp: handleDelete_def split: option.splits sum.splits prod.splits)

lemma handleEnvelope_keeps:
  assumes inv: "daemon_inv P d" and acc: "acceptable P env" and h: "length h = 32"
    and t: "lookup P (dobjects d) (disk d) h = Some t" and no: "\<not> may_remove M env h t"
  shows "lookup P (dobjects d) (disk (handleEnvelope P M w env sess d)) h = Some t"
proof (cases rule: handleEnvelope_cases [of P M w env sess d])
  case (dropped r)
  then show ?thesis using t by simp
next
  case (handled r d2)
  have d2: "daemon_inv P d2" "dobjects d2 = dobjects d" "disk d2 = disk d"
    using daemon_inv_touched [OF inv handled(2)] handled(1) by simp_all
  have put: "lookup P (dobjects d) (fst (Put P (dobjects d) (w_tmp w) (w_put w) env (disk d))) h = Some t"
    using Put_keeps [OF _ acc h t] inv by (simp add: daemon_inv_def)
  have del: "lookup P (dobjects d) (disk (fst (handleDelete P M w env d2))) h = Some t" if "Type env = MsgDelete"
    using handleDelete_keeps [OF d2(1) h, of t env M w] t no that d2 by simp
  have "disk (accept_delete P M w env (PeerIdentity sess) d2) = disk (fst (handleDelete P M w env d2))"
    by (simp add: accept_delete_def sink_defs split: prod.splits)
  moreover have "disk (accept_content P M w env (PeerIdentity sess) d2) \<in>
      {disk d, fst (Put P (dobjects d) (w_tmp w) (w_put w) env (disk d))}"
    using after_store_frame [OF d2(1) acc] d2 by (simp add: accept_content_eq sink_defs)
  moreover have "disk (accept_ack M env (PeerIdentity sess) d2) = disk d"
    using d2 by (simp add: accept_ack_def sink_defs)
  ultimately show ?thesis using put t handled(4) d2 del by auto
qed

lemma HandleSend_keeps:
  assumes inv: "daemon_inv P d" and acc: "acceptable P env" and h: "length h = 32"
    and t: "lookup P (dobjects d) (disk d) h = Some t" and no: "\<not> may_remove M env h t"
  shows "lookup P (dobjects d) (disk (fst (HandleSend P M w env d))) h = Some t"
proof -
  have put: "lookup P (dobjects d) (fst (Put P (dobjects d) (w_tmp w) (w_put w) env (disk d))) h = Some t"
    using Put_keeps [OF _ acc h t] inv by (simp add: daemon_inv_def)
  have del: "lookup P (dobjects d) (disk (fst (handleDelete P M w env d))) h = Some t" if "Type env = MsgDelete"
    using handleDelete_keeps [OF inv h t that no] .
  have rec: "disk (recordProfile P w env (d\<lparr>disk := fst (Put P (dobjects d) (w_tmp w) (w_put w) env (disk d))\<rparr>)) =
      fst (Put P (dobjects d) (w_tmp w) (w_put w) env (disk d))"
    using recordProfile_frame [OF daemon_inv_Put [OF inv acc]] by simp
  show ?thesis using put del rec t by (auto simp: HandleSend_def Let_def split: sum.splits prod.splits)
qed

lemma table_steps_disk [simp]:
  "disk (adoptSession A now sid sess adr d) = disk d" "disk (endSession A sid sess d) = disk d"
  "dobjects (adoptSession A now sid sess adr d) = dobjects d"
  "disk (fst (HandleTrust A i l d)) = disk d" "disk (dialSeed A out key d) = disk d"
  by (auto simp: adoptSession_def endSession_def HandleTrust_def dialSeed_def notifyPeerUpdate_def
      split: prod.splits sum.splits option.splits)

lemma seedLoop_pass_disk [simp]: "disk (seedLoop_pass A out d) = disk d"
proof -
  have "disk (foldl (\<lambda>d key. if seedConnected key d then d else dialSeed A (out key) key d) d ks) = disk d" for ks
    by (induction ks arbitrary: d) auto
  then show ?thesis by (simp add: seedLoop_pass_def)
qed

text \<open>
  C1. Nobody can make a node forget another's content: if, after any step of the daemon (an envelope from
  a peer, a local request, a session change, a pruning tick, whatever the I/O faults), an object that
  could be fetched no longer can, then the step was a signed deletion request that names exactly this
  object and comes from its author, or from the profile owner of a guestbook entry, or it was a pruning
  tick and the object's age exceeds its limit.
\<close>

theorem only_authorised_removal:
  assumes "daemon_inv P d" "length h = 32" "lookup P (dobjects d) (disk d) h = Some t"
    and "lookup P (dobjects d) (disk (daemon_step P M A d op)) h \<noteq> Some t"
  shows "(\<exists>w sess frame env. op = DFrame w sess frame \<and> session_open P sess frame = Some env \<and>
            acceptable P env \<and> may_remove M env h t) \<or>
         (\<exists>w data env. op = DLocal w data \<and> Decode P data = Inr env \<and> acceptable P env \<and> may_remove M env h t) \<or>
         (\<exists>flt now1 now2. op = DTick flt now1 now2 \<and> expired d now1 t)"
proof (cases op)
  case (DFrame w sess frame)
  then obtain env where e: "session_open P sess frame = Some env" using assms(3,4) by (cases "session_open P sess frame") auto
  then have "acceptable P env" by (rule session_open_acceptable)
  then show ?thesis using DFrame e assms handleEnvelope_keeps [of P d env h t M w sess] by auto
next
  case (DLocal w data)
  then obtain env where e: "Decode P data = Inr env" using assms(3,4) by (cases "Decode P data") auto
  then have "acceptable P env" using Decode_Inr by blast
  then show ?thesis using DLocal e assms HandleSend_keeps [of P d env h t M w] by auto
next
  case (DTick flt n1 n2)
  then show ?thesis using assms pruneLoop_tick_keeps [OF assms(1-3), of n1 flt n2] by auto
qed (use assms in \<open>simp_all add: HandleFetch_inv HandleProfile_inv HandleConnect_def SetEventSink_def\<close>)

text \<open>A daemon with default options, an empty table and the given disk.\<close>

definition demo_options :: Options where
  "demo_options = \<lparr>OUserAgent = str ''gandrd'', OCapabilities = 0, ORelay = True, OMaxPeers = 8, ODefaultTrust = TrustNeutral,
     OMaxMessageAge = 0, OMaxPayloadSize = 65535, ORateLimitRPM = 2, OSeeds = [], ODebug = False\<rparr>"

definition demo_daemon :: "fs \<Rightarrow> Daemon" where
  "demo_daemon dsk =
     \<lparr>opts = demo_options, did = demo_key 1, table = \<lparr>tpeers = [], maxPeers = 8, defaultTrust = TrustNeutral\<rparr>,
      dobjects = \<lparr>objects = str ''o''\<rparr>, disk = dsk,
      fedCfg = \<lparr>Identity = demo_key 1, Capabilities = 0, UserAgent = str ''gandrd'', Policy = PeerPolicyPayload 0 65535 2 TrustNeutral\<rparr>,
      sink = False, profiles = [], rates = [], relayed = [], sunk = [], closed = [], dialling = []\<rparr>"

lemma demo_daemon_New: "daemon_New demo_options (demo_key 1) \<lparr>objects = str ''o''\<rparr> dsk = Inr (demo_daemon dsk)"
  by (simp add: daemon_New_def demo_daemon_def demo_options_def NewTable_def)

lemma demo_daemon_inv:
  "sound P \<lparr>objects = str ''o''\<rparr> dsk \<Longrightarrow> distinct (map fst dsk) \<Longrightarrow> daemon_inv P (demo_daemon dsk)"
  by (simp add: daemon_inv_def demo_daemon_def table_inv_def)

lemma sound_single: "acceptable P e \<Longrightarrow> sound P s [(file_of s (ContentID P e), Encode e)]"
  using sound_update_file [OF demo_sound_Nil, of P e s] by simp

theorem only_authorised_removal_witness:
  "\<exists>e. let d = demo_daemon [(file_of \<lparr>objects = str ''o''\<rparr> (ContentID demo_prims e), Encode e)] in
     lookup demo_prims (dobjects d) (disk d) (ContentID demo_prims e) = Some e \<and>
     lookup demo_prims (dobjects d) (disk (daemon_step demo_prims (demo_pack []) (\<lambda>_. None) d (DTick (\<lambda>_. WalkOk) 10 10))) (ContentID demo_prims e) = None \<and>
     expired d 10 e"
proof -
  obtain e where new: "NewEnvelope demo_prims 7 (demo_key 3) MsgChat Broadcast [1, 2, 3] = Inr e"
    and acc: "acceptable demo_prims e" by (rule demo_envelope)
  have e: "Type e = MsgChat" "Timestamp e = 7" by (subst NewEnvelope_Inr(4) [OF new], simp)+
  define s where "s = \<lparr>objects = str ''o''\<rparr>"
  define h where "h = ContentID demo_prims e"
  define d where "d = demo_daemon [(file_of s h, Encode e)]"
  have d: "disk d = [(file_of s h, Encode e)]" "dobjects d = s" "opts d = demo_options"
    by (simp_all add: d_def demo_daemon_def s_def)
  have snd: "sound demo_prims s (disk d)" using sound_single [OF acc, of s] by (simp add: d h_def)
  have inv: "daemon_inv demo_prims d" using snd demo_daemon_inv by (simp add: d_def demo_daemon_def s_def)
  have h: "length h = 32" by (simp add: h_def)
  have l: "lookup demo_prims (dobjects d) (disk d) h = Some e"
    using lookup_Encode [OF snd h _ acc] by (simp add: d)
  have dec: "Decode demo_prims (Encode e) = Inr e" using acc by (rule Decode_Encode_acceptable)
  have "disk (daemon_step demo_prims (demo_pack []) (\<lambda>_. None) d (DTick (\<lambda>_. WalkOk) 10 10)) = []"
    by (simp add: pruneLoop_tick_def pruneTrackedPeerState_def Prune_def d dec prune_limit_def e demo_options_def
        unix_nano_def time_defs)
  then have n: "lookup demo_prims (dobjects d) (disk (daemon_step demo_prims (demo_pack []) (\<lambda>_. None) d (DTick (\<lambda>_. WalkOk) 10 10))) h = None"
    by (simp add: lookup_def Get_def path_unfold)
  then have "expired d 10 e" using only_authorised_removal [OF inv h l, of "demo_pack []" "\<lambda>_. None" "DTick (\<lambda>_. WalkOk) 10 10"] by simp
  then show ?thesis using l n by (intro exI [of _ e]) (simp add: Let_def d_def h_def s_def del: daemon_step.simps)
qed

section \<open>Flooding\<close>

text \<open>
  C3. Floods end: an envelope whose content is already stored is neither relayed, nor pushed to local
  clients, nor does it change any stored object, whichever peer it comes from and however often.
\<close>

theorem flood_stops:
  assumes "daemon_inv P d" "acceptable P env" "storable (Type env)"
    and "lookup P (dobjects d) (disk d) (ContentID P env) \<noteq> None"
  shows "let d' = handleEnvelope P M w env sess d in
    relayed d' = relayed d \<and> sunk d' = sunk d \<and> disk d' = disk d \<and> profiles d' = profiles d"
proof (cases rule: handleEnvelope_cases [of P M w env sess d])
  case (dropped r)
  then show ?thesis by simp
next
  case (handled r d2)
  have "Stat (disk d) (file_of (dobjects d) (ContentID P env))"
    using assms(1,4) lookup_None_iff [of P "dobjects d" "disk d" "ContentID P env"] by (auto simp: daemon_inv_def)
  then have "snd (snd (Put P (dobjects d) (w_tmp w) (w_put w) env (disk d))) = Inr True"
    "fst (Put P (dobjects d) (w_tmp w) (w_put w) env (disk d)) = disk d"
    by (simp_all add: Put_result Put_disk Let_def)
  then show ?thesis using handled(1,4) assms(3) by (simp add: accept_content_eq)
qed

lemma map_filter_via_map: "List.map_filter f xs = map the (filter (\<lambda>y. y \<noteq> None) (map f xs))"
  by (induction xs) (simp_all add: map_filter_simps split: option.split)

lemma relay_target_seen: "relay_target x (p\<lparr>LastSeen := now\<rparr>) = relay_target x p"
  by (simp add: relay_target_def split: option.split)

lemma targets_update:
  "map_of ps i = Some p \<Longrightarrow>
     map (\<lambda>y. relay_target x (snd y)) (AList.update i (p\<lparr>LastSeen := now\<rparr>) ps) = map (\<lambda>y. relay_target x (snd y)) ps"
  by (induction ps) (auto simp: relay_target_seen split: if_splits)

lemma Touch_targets:
  "List.map_filter (relay_target x) (table_List (Touch now i t)) = List.map_filter (relay_target x) (table_List t)"
proof (cases "map_of (tpeers t) i")
  case None
  then show ?thesis by (simp add: Touch_def)
next
  case (Some p)
  from targets_update [OF this, of x now] have "map (relay_target x) (table_List (Touch now i t)) = map (relay_target x) (table_List t)"
    using Some by (simp add: Touch_def table_List_def comp_def)
  then show ?thesis unfolding map_filter_via_map by metis
qed

lemma at_least_neutral: "TrustNeutral \<le> x \<longleftrightarrow> \<not> x < TrustNeutral"
  by (rule linorder_not_less [symmetric])

definition forwards_to :: "bytes \<Rightarrow> Peer \<Rightarrow> bool" where
  "forwards_to origin p \<longleftrightarrow> PSession p \<noteq> None \<and> Trust p \<ge> TrustNeutral \<and> PIdentity p \<noteq> origin"

lemma relay_target_filter:
  "List.map_filter (relay_target (Some origin)) ps = map (\<lambda>p. the (PSession p)) (filter (forwards_to origin) ps)"
proof -
  have "relay_target (Some origin) p = (if forwards_to origin p then Some (the (PSession p)) else None)" for p
    unfolding relay_target_def forwards_to_def at_least_neutral
    by (cases "PSession p"; cases "Trust p < TrustNeutral") (auto simp del: word_less_1)
  then show ?thesis by (induction ps) (simp_all add: map_filter_simps)
qed

lemma content_spreads:
  assumes inv: "daemon_inv P d" and acc: "acceptable P env" and st: "storable (Type env)"
    and new: "lookup P (dobjects d) (disk d) (ContentID P env) = None"
    and time: "ValidateTimestamp (Timestamp env) (w_check w) = Inr ()"
    and len: "length (Payload env) \<le> unat (OMaxPayloadSize (opts d))"
    and rate: "snd (allowRate (w_rate w) (PeerIdentity sess) d)"
    and valid: "validatePayload M env" and io: "w_put w = PutOk"
  shows "let d' = handleEnvelope P M w env sess d in
    lookup P (dobjects d') (disk d') (ContentID P env) = Some env \<and>
    relayed d' = relayed d @ (if ORelay (opts d)
      then map (\<lambda>p. (the (PSession p), env)) (filter (forwards_to (PeerIdentity sess)) (table_List (table d))) else []) \<and>
    sunk d' = sunk d @ (if sink d then [SinkPush env] else [])"
proof -
  obtain r where r: "allowRate (w_rate w) (PeerIdentity sess) d = (d\<lparr>rates := r\<rparr>, True)"
    "distinct (map fst (rates d)) \<longrightarrow> distinct (map fst r)"
    using allowRate_shape [of "w_rate w" "PeerIdentity sess" d] rate by auto
  define d2 where "d2 = d\<lparr>rates := r, table := Touch (w_touch w) (PeerIdentity sess) (table d)\<rparr>"
  have d2: "daemon_inv P d2" "dobjects d2 = dobjects d" "disk d2 = disk d" "relayed d2 = relayed d" "sunk d2 = sunk d"
    "sink d2 = sink d" "opts d2 = opts d"
    using daemon_inv_touched [OF inv r(2)] by (simp_all add: d2_def)
  have h: "handleEnvelope P M w env sess d = accept_content P M w env (PeerIdentity sess) d2"
    using time len r(1) st by (simp add: handleEnvelope_def d2_def Let_def)
  have snd: "sound P (dobjects d) (disk d)" using inv by (simp add: daemon_inv_def)
  have "\<not> Stat (disk d) (file_of (dobjects d) (ContentID P env))"
    using new lookup_None_iff [OF snd, of "ContentID P env"] by simp
  then have "snd (snd (Put P (dobjects d) (w_tmp w) (w_put w) env (disk d))) = Inr False"
    by (simp add: Put_result io)
  then have a: "accept_content P M w env (PeerIdentity sess) d2 =
      push env (relay env (Some (PeerIdentity sess)) (after_store P w env d2))"
    using valid d2 by (simp add: accept_content_eq)
  note fr = after_store_frame [OF d2(1) acc, of w]
  have "lookup P (dobjects d) (fst (Put P (dobjects d) (w_tmp w) PutOk env (disk d))) (ContentID P env) = Some env"
    using lookup_Put [OF snd acc, of "ContentID P env"] new by simp
  moreover have "List.map_filter (relay_target (Some (PeerIdentity sess))) (table_List (table d2)) =
      map (\<lambda>p. the (PSession p)) (filter (forwards_to (PeerIdentity sess)) (table_List (table d)))"
    unfolding relay_target_filter [symmetric] by (simp add: d2_def Touch_targets)
  ultimately show ?thesis
    unfolding h a Let_def using fr d2 io by (simp add: push_def to_sink_def relay_def comp_def)
qed

text \<open>
  C2. New content spreads exactly as the relay rule says: an envelope that is new, fresh, within the size
  limit, within the sender's rate and well-formed is stored under its content id, handed to the local
  clients once, and, where the node relays, sent exactly once over the session of every peer other than
  its origin that has a live session and at least neutral trust, and to nobody else.
\<close>

theorem flood_forwards:
  assumes inv: "daemon_inv P d" and acc: "acceptable P env" and st: "storable (Type env)"
    and new: "lookup P (dobjects d) (disk d) (ContentID P env) = None"
    and time: "ValidateTimestamp (Timestamp env) (w_check w) = Inr ()"
    and len: "length (Payload env) \<le> unat (OMaxPayloadSize (opts d))"
    and rate: "snd (allowRate (w_rate w) (PeerIdentity sess) d)"
    and valid: "validatePayload M env" and io: "w_put w = PutOk"
  shows "let d' = handleEnvelope P M w env sess d in
    lookup P (dobjects d') (disk d') (ContentID P env) = Some env \<and>
    relayed d' = relayed d @ (if ORelay (opts d)
      then map (\<lambda>p. (the (PSession p), env)) (filter (forwards_to (PeerIdentity sess)) (table_List (table d))) else []) \<and>
    sunk d' = sunk d @ (if sink d then [SinkPush env] else [])"
  using assms by (rule content_spreads)

section \<open>Rate limit\<close>

fun rate_run :: "(bytes \<times> instant) list \<Rightarrow> Daemon \<Rightarrow> (bytes \<times> bool) list" where
  "rate_run [] d = []"
| "rate_run ((pid, now) # rest) d =
     (case allowRate now pid d of (d', ok) \<Rightarrow> (pid, ok) # rate_run rest d')"

lemma allowRate_opts: "opts (fst (allowRate now pid d)) = opts d"
  by (auto simp: allowRate_def Let_def split: option.splits)

lemma allowRate_other: "q \<noteq> pid \<Longrightarrow> map_of (rates (fst (allowRate now pid d))) q = map_of (rates d) q"
  by (auto simp: allowRate_def Let_def update_conv split: option.splits)

lemma rate_run_open:
  assumes "ORateLimitRPM (opts d) > 0" "map_of (rates d) q = Some w" "0 \<le> rw_count w"
    and "\<forall>(pid, now) \<in> set evs. pid = q \<longrightarrow> \<not> time_sub now (rw_start w) > Minute"
  shows "int (length (filter (\<lambda>(pid, ok). pid = q \<and> ok) (rate_run evs d))) =
    max 0 (min (ORateLimitRPM (opts d) - rw_count w) (int (length (filter (\<lambda>(pid, now). pid = q) evs))))"
  using assms
proof (induction evs arbitrary: d w)
  case Nil
  then show ?case by simp
next
  case (Cons ev evs)
  obtain pid now where ev: "ev = (pid, now)" by (cases ev)
  show ?case
  proof (cases "pid = q")
    case False
    then show ?thesis
      using Cons.IH [of "fst (allowRate now pid d)" w] Cons.prems allowRate_other [of q pid now d]
      by (auto simp: ev allowRate_opts split: prod.splits)
  next
    case True
    define d' where "d' = d\<lparr>rates := AList.update q (w\<lparr>rw_count := rw_count w + 1\<rparr>) (rates d)\<rparr>"
    have a: "allowRate now q d = (d', rw_count w + 1 \<le> ORateLimitRPM (opts d))"
      using True Cons.prems by (auto simp: allowRate_def ev d'_def)
    have "int (length (filter (\<lambda>(pid, ok). pid = q \<and> ok) (rate_run evs d'))) =
      max 0 (min (ORateLimitRPM (opts d) - (rw_count w + 1)) (int (length (filter (\<lambda>(pid, now). pid = q) evs))))"
      using Cons.IH [of d' "w\<lparr>rw_count := rw_count w + 1\<rparr>"] Cons.prems by (simp add: d'_def update_conv)
    then show ?thesis using True by (simp add: ev a) linarith
  qed
qed

text \<open>
  The rate limit is exact: of the messages a peer sends within one minute of its window's first one,
  exactly the configured number is accepted and the rest is refused, however the traffic of other peers
  is interleaved with it.
\<close>

theorem rate_limit_exact:
  assumes "ORateLimitRPM (opts d) > 0" "map_of (rates d) q = None"
    and "\<forall>(pid, now) \<in> set evs. pid = q \<longrightarrow> \<not> time_sub now start > Minute"
  shows "int (length (filter (\<lambda>(pid, ok). pid = q \<and> ok) (rate_run ((q, start) # evs) d))) =
    min (ORateLimitRPM (opts d)) (1 + int (length (filter (\<lambda>(pid, now). pid = q) evs)))"
proof -
  define d' where "d' = d\<lparr>rates := AList.update q \<lparr>rw_start = start, rw_count = 1\<rparr> (rates d)\<rparr>"
  have a: "allowRate start q d = (d', True)" using assms by (simp add: allowRate_def d'_def)
  have "map_of (rates d') q = Some \<lparr>rw_start = start, rw_count = 1\<rparr>" "opts d' = opts d"
    by (simp_all add: d'_def update_conv)
  then show ?thesis
    using rate_run_open [of d' q "\<lparr>rw_start = start, rw_count = 1\<rparr>" evs] assms by (simp add: a)
qed

theorem rate_limit_exact_witness:
  "int (length (filter (\<lambda>(pid, ok). pid = [1] \<and> ok) (rate_run [([1], 0), ([1], 5), ([2], 6), ([1], 7)] (demo_daemon [])))) = 2"
proof -
  let ?evs = "[([1], 5), ([2], 6), ([1], 7)] :: (bytes \<times> instant) list"
  have "ORateLimitRPM (opts (demo_daemon [])) > 0" "map_of (rates (demo_daemon [])) [1] = None"
    by (simp_all add: demo_daemon_def demo_options_def)
  moreover have "\<forall>(pid, now) \<in> set ?evs. pid = [1] \<longrightarrow> \<not> time_sub now 0 > Minute" by (simp add: time_defs)
  ultimately show ?thesis
    using rate_limit_exact [of "demo_daemon []" "[1]" ?evs 0] by (simp add: demo_daemon_def demo_options_def del: rate_run.simps)
qed

text \<open>A peer with a live session, and a chat envelope that validates.\<close>

definition demo_session :: "bytes \<Rightarrow> Session" where
  "demo_session i = \<lparr>skey = [], sendAAD = [], recvAAD = [], PeerIdentity = i, SCapabilities = 0, SUserAgent = [], SPolicy = zero_policy\<rparr>"

definition demo_world :: world where
  "demo_world = \<lparr>w_check = 9, w_rate = 9, w_touch = 9, w_profile = 9, w_tmp = [], w_put = PutOk, w_get = False, w_del = False\<rparr>"

definition demo_peer :: "bytes \<Rightarrow> nat \<Rightarrow> Peer" where
  "demo_peer i sid = \<lparr>PIdentity = i, Addr = \<lparr>YggKey = [], IPPort = []\<rparr>, Trust = TrustNeutral, PCapabilities = 0,
     PUserAgent = [], PPolicy = zero_policy, ConnectedAt = 0, LastSeen = 0, PSession = Some sid\<rparr>"

definition demo_node :: Daemon where
  "demo_node = (demo_daemon [])\<lparr>sink := True,
     table := \<lparr>tpeers = [([7], demo_peer [7] 1), ([8], demo_peer [8] 2)], maxPeers = 8, defaultTrust = TrustNeutral\<rparr>\<rparr>"

definition demo_chat_pack :: msgpack where
  "demo_chat_pack = demo_msgpack (ChatPayload (replicate 32 1) [] []) [1, 2, 3]"

lemma demo_node_inv: "daemon_inv P demo_node"
  using demo_daemon_inv [OF demo_sound_Nil]
  by (simp add: demo_node_def daemon_inv_def table_inv_def demo_peer_def)

lemma demo_chat:
  obtains e where "acceptable demo_prims e" "Type e = MsgChat" "Timestamp e = 7" "Payload e = [1, 2, 3]"
    "validatePayload demo_chat_pack e"
proof -
  obtain e where new: "NewEnvelope demo_prims 7 (demo_key 3) MsgChat Broadcast [1, 2, 3] = Inr e"
    and acc: "acceptable demo_prims e" by (rule demo_envelope)
  have e: "Type e = MsgChat" "Timestamp e = 7" "Payload e = [1, 2, 3]" by (subst NewEnvelope_Inr(4) [OF new], simp)+
  moreover have "validatePayload demo_chat_pack e"
    by (simp add: validatePayload_def demo_chat_pack_def demo_msgpack_def NewPayload_def DecodePayload_def and_then_def
        validateString_def validateHash_def e)
  ultimately show thesis using that acc by blast
qed

theorem flood_forwards_witness:
  "\<exists>e. Type e = MsgChat \<and>
     relayed (handleEnvelope demo_prims demo_chat_pack demo_world e (demo_session [7]) demo_node) = [(2, e)] \<and>
     sunk (handleEnvelope demo_prims demo_chat_pack demo_world e (demo_session [7]) demo_node) = [SinkPush e]"
proof -
  obtain e where e: "acceptable demo_prims e" "Type e = MsgChat" "Timestamp e = 7" "Payload e = [1, 2, 3]"
    "validatePayload demo_chat_pack e" by (rule demo_chat)
  have h: "storable (Type e)" "lookup demo_prims (dobjects demo_node) (disk demo_node) (ContentID demo_prims e) = None"
    "ValidateTimestamp (Timestamp e) (w_check demo_world) = Inr ()"
    "length (Payload e) \<le> unat (OMaxPayloadSize (opts demo_node))"
    "snd (allowRate (w_rate demo_world) (PeerIdentity (demo_session [7])) demo_node)" "w_put demo_world = PutOk"
    by (simp_all add: e storable_def lookup_def Get_def path_unfold demo_node_def demo_daemon_def demo_options_def
        ValidateTimestamp_window demo_world_def unix_nano_def allowRate_def)
  from flood_forwards [OF demo_node_inv e(1) h(1-5) e(5) h(6)] show ?thesis
    using e(2) unfolding Let_def
    by (intro exI [of _ e])
      (simp add: demo_node_def demo_daemon_def demo_options_def table_List_def forwards_to_def demo_peer_def demo_session_def)
qed

theorem flood_stops_witness:
  "\<exists>e d. Type e = MsgChat \<and> disk d \<noteq> [] \<and>
     relayed (handleEnvelope demo_prims demo_chat_pack demo_world e (demo_session [7]) d) = []"
proof -
  obtain e where e: "acceptable demo_prims e" "Type e = MsgChat" by (rule demo_chat)
  let ?s = "\<lparr>objects = str ''o''\<rparr>"
  define d where "d = demo_daemon [(file_of ?s (ContentID demo_prims e), Encode e)]"
  have snd: "sound demo_prims ?s [(file_of ?s (ContentID demo_prims e), Encode e)]" using e(1) by (rule sound_single)
  have inv: "daemon_inv demo_prims d" unfolding d_def by (rule demo_daemon_inv [OF snd]) simp
  have "lookup demo_prims ?s [(file_of ?s (ContentID demo_prims e), Encode e)] (ContentID demo_prims e) = Some e"
    using lookup_Encode [OF snd _ _ e(1)] by simp
  then have l: "lookup demo_prims (dobjects d) (disk d) (ContentID demo_prims e) \<noteq> None"
    by (simp add: d_def demo_daemon_def)
  have "storable (Type e)" by (simp add: e storable_def)
  from flood_stops [OF inv e(1) this l, of demo_chat_pack demo_world "demo_session [7]"] e(2) show ?thesis
    by (intro exI [of _ e] exI [of _ d]) (simp add: Let_def d_def demo_daemon_def)
qed

section \<open>Profiles\<close>

lemma Get_lookup: "sound P s dsk \<Longrightarrow> length h = 32 \<Longrightarrow> Get P s False h dsk =
    (dsk, case lookup P s dsk h of None \<Rightarrow> Inl ErrNotFound | Some e \<Rightarrow> Inr e)"
  by (simp add: sound_Get lookup_eq split: option.splits)

text \<open>
  The newest profile wins: once a node has stored a new profile envelope, asking it for the profile
  of that key returns an envelope whose signed timestamp is at least that of the stored one; and it is
  the stored one, unless the profile the node had recorded before is still present and not older.
\<close>

theorem newest_profile:
  assumes inv: "daemon_inv P d" and acc: "acceptable P env" and ty: "Type env = MsgProfile"
    and new: "lookup P (dobjects d) (disk d) (ContentID P env) = None"
    and io: "w_put w = PutOk" "w_get w = False" "w_get w' = False"
  shows "\<exists>cur. snd (HandleProfile P w' (Sender env) (after_store P w env d)) = Inr cur \<and>
    sint (Timestamp cur) \<ge> sint (Timestamp env) \<and>
    (cur = env \<or> (\<exists>old. map_of (profiles d) (Sender env) = Some old \<and> lookup P (dobjects d) (disk d) (phash old) = Some cur))"
proof -
  let ?dsk = "fst (Put P (dobjects d) (w_tmp w) (w_put w) env (disk d))"
  define d1 where "d1 = d\<lparr>disk := ?dsk\<rparr>"
  have snd: "sound P (dobjects d) (disk d)" using inv by (simp add: daemon_inv_def)
  have snd1: "sound P (dobjects d) ?dsk" using Put_sound [OF snd acc] .
  have put: "lookup P (dobjects d) ?dsk h = (if h = ContentID P env then Some env else lookup P (dobjects d) (disk d) h)"
    if "length h = 32" for h
    using lookup_Put [OF snd acc that] new io(1) by simp
  have d': "after_store P w env d = recordProfile P w env d1" by (simp add: after_store_def Let_def ty d1_def)
  have env: "lookup P (dobjects d) ?dsk (ContentID P env) = Some env" using put by simp
  have fetch: "snd (HandleProfile P w' (Sender env) (d1\<lparr>profiles := AList.update (Sender env) e (profiles d)\<rparr>)) =
      (case lookup P (dobjects d) ?dsk (phash e) of None \<Rightarrow> Inl ErrNotFound | Some x \<Rightarrow> Inr x)" if "length (phash e) = 32" for e
    using Get_lookup [OF snd1 that] io(3) by (simp add: HandleProfile_def HandleFetch_def d1_def update_conv)
  show ?thesis
  proof (cases "map_of (profiles d) (Sender env)")
    case None
    then show ?thesis
      using fetch [of "\<lparr>phash = ContentID P env, plastSeen = w_profile w\<rparr>"] env
      unfolding d' by (simp add: recordProfile_def Let_def d1_def)
  next
    case (Some old)
    note h = known_profile_hash [OF inv Some]
    note get = Get_lookup [OF snd1 h]
    show ?thesis
    proof (cases "\<exists>cur. lookup P (dobjects d) ?dsk (phash old) = Some cur \<and> sint (Timestamp cur) \<ge> sint (Timestamp env)")
      case True
      then obtain cur where c: "lookup P (dobjects d) ?dsk (phash old) = Some cur" "sint (Timestamp cur) \<ge> sint (Timestamp env)"
        by blast
      have "cur = env \<or> lookup P (dobjects d) (disk d) (phash old) = Some cur" using put [OF h] c(1) by (auto split: if_splits)
      then show ?thesis
        using fetch [of "old\<lparr>plastSeen := w_profile w\<rparr>"] h c Some get io(2)
        unfolding d' by (auto simp: recordProfile_def Let_def d1_def)
    next
      case False
      then have "recordProfile P w env d1 =
          d1\<lparr>profiles := AList.update (Sender env) \<lparr>phash = ContentID P env, plastSeen = w_profile w\<rparr> (profiles d)\<rparr>"
        using Some get io(2) by (auto simp: recordProfile_def Let_def d1_def split: option.splits)
      then show ?thesis using fetch [of "\<lparr>phash = ContentID P env, plastSeen = w_profile w\<rparr>"] env unfolding d' by simp
    qed
  qed
qed

theorem newest_profile_witness:
  "\<exists>env cur. Type env = MsgProfile \<and>
     snd (HandleProfile demo_prims demo_world (Sender env) (after_store demo_prims demo_world env (demo_daemon []))) = Inr cur \<and>
     sint (Timestamp cur) \<ge> sint (Timestamp env)"
proof -
  obtain e where new: "NewEnvelope demo_prims 7 (demo_key 3) MsgProfile Broadcast [1] = Inr e"
    using wf_priv_length [OF demo_key_wf] by (simp add: NewEnvelope_def LocalOnly_def Sign_def Let_def)
  have acc: "acceptable demo_prims e"
    by (rule NewEnvelope_acceptable [OF demo_sizes_ok demo_sign_ok demo_key_wf _ new]) (simp add: Broadcast_def)
  have ty: "Type e = MsgProfile" by (subst NewEnvelope_Inr(4) [OF new]) simp
  have inv: "daemon_inv demo_prims (demo_daemon [])" by (rule demo_daemon_inv [OF demo_sound_Nil]) simp
  have "lookup demo_prims (dobjects (demo_daemon [])) (disk (demo_daemon [])) (ContentID demo_prims e) = None"
    by (simp add: lookup_def Get_def path_unfold demo_daemon_def)
  from newest_profile [OF inv acc ty this, of demo_world demo_world] ty show ?thesis
    by (auto simp: demo_world_def)
qed

section \<open>Every reachable state\<close>

text \<open>What no step changes: the options, the key, the store's place and the limits of the table.\<close>

definition config :: "Daemon \<Rightarrow> Options \<times> bytes \<times> Store \<times> Config \<times> int \<times> byte" where
  "config d = (opts d, did d, dobjects d, fedCfg d, maxPeers (table d), defaultTrust (table d))"

lemma config_to_sink [simp]: "config (to_sink c d) = config d"
  by (simp add: config_def to_sink_def)

lemma config_relay [simp]: "config (relay e x d) = config d"
  by (simp add: config_def relay_def)

lemma config_updates [simp]:
  "config (d\<lparr>disk := x\<rparr>) = config d" "config (d\<lparr>profiles := ps\<rparr>) = config d" "config (d\<lparr>rates := r\<rparr>) = config d"
  "config (d\<lparr>dialling := k\<rparr>) = config d" "config (d\<lparr>sink := b\<rparr>) = config d" "config (d\<lparr>closed := cs\<rparr>) = config d"
  by (simp_all add: config_def)

lemma config_table:
  "maxPeers t = maxPeers (table d) \<Longrightarrow> defaultTrust t = defaultTrust (table d) \<Longrightarrow> config (d\<lparr>table := t\<rparr>) = config d"
  by (simp add: config_def)

lemma table_limits_kept:
  "maxPeers (fst (Add now sid sess adr t)) = maxPeers t" "defaultTrust (fst (Add now sid sess adr t)) = defaultTrust t"
  "maxPeers (fst (RemoveSession i sid t)) = maxPeers t" "defaultTrust (fst (RemoveSession i sid t)) = defaultTrust t"
  "maxPeers (fst (SetTrust i l t)) = maxPeers t" "defaultTrust (fst (SetTrust i l t)) = defaultTrust t"
  "maxPeers (Touch now i t) = maxPeers t" "defaultTrust (Touch now i t) = defaultTrust t"
  by (auto simp: Add_def RemoveSession_def SetTrust_def Touch_def Let_def split: option.splits)

lemma config_recordProfile [simp]: "config (recordProfile P w env d) = config d"
  by (auto simp: recordProfile_def Let_def split: option.splits prod.splits sum.splits)

lemma config_handleDelete: "handleDelete P M w env d = (d1, ok) \<Longrightarrow> config d1 = config d"
  by (auto simp: handleDelete_def split: option.splits sum.splits prod.splits if_splits)

lemma config_handleEnvelope [simp]: "config (handleEnvelope P M w env sess d) = config d"
proof (cases rule: handleEnvelope_cases [of P M w env sess d])
  case (dropped r)
  then show ?thesis by simp
next
  case (handled r d2)
  have "config d2 = config d" by (simp add: handled(1) config_def table_limits_kept)
  moreover have "config (accept_delete P M w env q d2) = config d2" for q
    by (auto simp: accept_delete_def sink_defs dest: config_handleDelete split: prod.splits)
  ultimately show ?thesis
    by (simp add: handled(4) accept_content_eq accept_ack_def after_store_def Let_def sink_defs)
qed

lemma config_HandleSend [simp]: "config (fst (HandleSend P M w env d)) = config d"
  by (auto simp: HandleSend_def Let_def dest: config_handleDelete split: sum.splits prod.splits)

lemma config_adoptSession [simp]: "config (adoptSession A now sid sess adr d) = config d"
  using table_limits_kept(1,2) [of now sid sess adr "table d"]
  by (auto simp: adoptSession_def notifyPeerUpdate_def config_table split: prod.splits sum.splits)

lemma config_sessions [simp]:
  "config (endSession A sid sess d) = config d" "config (dialSeed A out key d) = config d"
  "config (fst (HandleTrust A i l d)) = config d"
  using table_limits_kept(3,4) [of "PeerIdentity sess" sid "table d"] table_limits_kept(5,6) [of i l "table d"]
  by (auto simp: endSession_def dialSeed_def HandleTrust_def notifyPeerUpdate_def config_table
      split: prod.splits sum.splits option.splits)

lemma config_seedLoop_pass [simp]: "config (seedLoop_pass A out d) = config d"
proof -
  have "config (foldl (\<lambda>d key. if seedConnected key d then d else dialSeed A (out key) key d) d ks) = config d" for ks
    by (induction ks arbitrary: d) auto
  then show ?thesis by (simp add: seedLoop_pass_def)
qed

lemma config_step: "config (daemon_step P M A d op) = config d"
  by (cases op)
    (auto simp: pruneLoop_tick_def pruneTrackedPeerState_def Let_def HandleFetch_def HandleProfile_def HandleConnect_def
      SetEventSink_def split: option.splits sum.splits prod.splits)

interpretation daemonconf: run_relation "daemon_step P M A" "daemon_inv P" "\<lambda>d d'. config d' = config d" for P M A
  by unfold_locales (simp_all add: config_step)

text \<open>
  C4. The daemon's invariant, over any sequence of envelopes from any peers, local requests, session
  changes, seed passes and pruning ticks, with any clock readings and store faults: every object file on
  disk is the encoding of an acceptable, signed envelope under its own content id, the peer table holds
  at most the configured number of peers with valid trust levels, and there is one profile entry and one
  rate window per identity.
\<close>

theorem daemon_reachable:
  assumes "daemon_New o' identity objs dsk = Inr d0" "sound P objs dsk" "distinct (map fst dsk)"
  shows "let d = foldl (daemon_step P M A) d0 ops in
    sound P (dobjects d) (disk d) \<and> int (table_Count (table d)) \<le> max 0 (OMaxPeers o') \<and>
    list_all (\<lambda>p. Trust p \<le> TrustVouched) (table_List (table d)) \<and>
    distinct (map fst (profiles d)) \<and> distinct (map fst (rates d))"
proof -
  have "daemon_inv P d0"
    using assms by (auto simp: daemon_New_def NewTable_def daemon_inv_def table_inv_def split: sum.splits if_splits)
  then have inv: "daemon_inv P (foldl (daemon_step P M A) d0 ops)" and "config (foldl (daemon_step P M A) d0 ops) = config d0"
    by (rule daemonrun.run_inv, rule daemonconf.run_rel)
  moreover have "maxPeers (table d0) = OMaxPeers o'"
    using assms(1) by (auto simp: daemon_New_def NewTable_def split: sum.splits if_splits)
  ultimately have "maxPeers (table (foldl (daemon_step P M A) d0 ops)) = OMaxPeers o'" by (simp add: config_def)
  with inv show ?thesis
    by (auto simp: Let_def daemon_inv_def table_inv_def table_Count_def table_List_def list_all_iff)
qed

theorem daemon_reachable_witness:
  "sound demo_prims (dobjects (foldl (daemon_step demo_prims demo_chat_pack (\<lambda>_. None)) (demo_daemon []) [DSink True, DTrust [1] 2]))
     (disk (foldl (daemon_step demo_prims demo_chat_pack (\<lambda>_. None)) (demo_daemon []) [DSink True, DTrust [1] 2]))"
  using daemon_reachable [OF demo_daemon_New demo_sound_Nil, of "demo_prims" demo_chat_pack "\<lambda>_. None" "[DSink True, DTrust [1] 2]"]
  by (simp add: Let_def del: foldl.simps daemon_step.simps)

section \<open>The daemon behind its socket\<close>

lemma collect_inv:
  assumes "\<And>d'. daemon_inv P d' \<Longrightarrow> daemon_inv P (fst (f d'))" "daemon_inv P d" "collect f text d = (d', calls, res)"
  shows "daemon_inv P d' \<and> (\<exists>x. snd (f (d\<lparr>sunk := []\<rparr>)) = x \<and> res = text x)"
  using assms(1) [of "d\<lparr>sunk := []\<rparr>"] assms(2,3) by (auto simp: collect_def daemon_inv_def split: prod.splits)

lemma HandleSend_text: "snd (HandleSend P M w env d) = Inl m \<Longrightarrow> length m \<le> 1000"
  by (auto simp: HandleSend_def Let_def split: sum.splits prod.splits if_splits)

lemma table_error_text_short: "length (table_error_text e) \<le> 1000"
  by (cases e) simp_all

lemma Get_Inr: "Get P s rd h dsk = (dsk', Inr e) \<Longrightarrow> acceptable P e \<and> ContentID P e = h"
  by (auto simp: Get_def path_unfold split: option.splits sum.splits if_splits dest!: Decode_Inr)

lemma HandleFetch_Inr: "snd (HandleFetch P w h d) = Inr e \<Longrightarrow> acceptable P e"
  by (auto simp: HandleFetch_def dest: Get_Inr split: prod.splits)

lemma HandleProfile_Inr: "snd (HandleProfile P w pk d) = Inr e \<Longrightarrow> acceptable P e"
  by (auto simp: HandleProfile_def dest: HandleFetch_Inr split: option.splits)

interpretation node: ipc_handler P "daemon_handler P M A w" "daemon_inv P" for P M A w
proof
  fix st st' :: Daemon and env calls and res :: "gostring + unit"
  assume "daemon_inv P st" "acceptable P env" "HSend (daemon_handler P M A w) env st = (st', calls, res)"
  then show "daemon_inv P st' \<and> (\<forall>m. res = Inl m \<longrightarrow> length m \<le> 1000)"
    using collect_inv [of P "HandleSend P M w env" st id st' calls res] HandleSend_inv [of P _ env M w]
    by (auto simp: daemon_handler_def dest: HandleSend_text)
next
  fix st st' :: Daemon and hash calls and res :: "gostring + Envelope"
  assume "daemon_inv P st" "length hash = 32" "HFetch (daemon_handler P M A w) hash st = (st', calls, res)"
  then show "daemon_inv P st' \<and> (\<forall>e. res = Inr e \<longrightarrow> acceptable P e)"
    using collect_inv [of P "HandleFetch P w hash" st "map_sum (\<lambda>_. []) id" st' calls res] HandleFetch_inv [of P _ hash w]
    by (auto simp: daemon_handler_def map_sum_def split: sum.splits dest: HandleFetch_Inr)
next
  fix st st' :: Daemon and pk calls and res :: "gostring + Envelope"
  assume "daemon_inv P st" "length pk = 32" "HProfile (daemon_handler P M A w) pk st = (st', calls, res)"
  then show "daemon_inv P st' \<and> (\<forall>e. res = Inr e \<longrightarrow> acceptable P e)"
    using collect_inv [of P "HandleProfile P w pk" st "map_sum (\<lambda>_. []) id" st' calls res] HandleProfile_inv [of P _ w pk]
    by (auto simp: daemon_handler_def map_sum_def split: sum.splits dest: HandleProfile_Inr)
next
  fix st st' :: Daemon and i level calls and res :: "gostring + unit"
  assume "daemon_inv P st" "HTrust (daemon_handler P M A w) i level st = (st', calls, res)"
  then show "daemon_inv P st' \<and> (\<forall>m. res = Inl m \<longrightarrow> length m \<le> 1000)"
    using collect_inv [of P "HandleTrust A i level" st "map_sum table_error_text id" st' calls res] HandleTrust_inv [of P _ A i level]
    by (auto simp: daemon_handler_def map_sum_def table_error_text_short split: sum.splits)
next
  fix st st' :: Daemon and key calls and res :: "gostring + unit"
  assume "daemon_inv P st" "HConnect (daemon_handler P M A w) key st = (st', calls, res)"
  then show "daemon_inv P st' \<and> (\<forall>m. res = Inl m \<longrightarrow> length m \<le> 1000)"
    by (auto simp: daemon_handler_def collect_def HandleConnect_def daemon_inv_def)
qed

text \<open>
  C12. Every local request is answered exactly once: whatever frame a client sends, well-formed or not,
  the daemon's server writes to that client's socket some number of unsolicited notifications and then
  exactly one frame that carries the request's identifier, of the request's type or the error type.
\<close>

theorem requests_answered_once:
  assumes "daemon_inv P d" "map_of (sconns s) i = Some sc" "room (sc_conn sc) = None" "errors_fit K"
    and "\<And>b. MarshalPeers K (HandlePeerList A d) = Some b \<Longrightarrow> length b \<le> maxFramePayload"
  shows "\<exists>sc' fs r. map_of (sconns (fst (dispatch P M K (daemon_handler P M A w) i f s d))) i = Some sc' \<and>
    sent (sc_conn sc') = sent (sc_conn sc) @ wire (fs @ [r]) \<and> list_all unsolicited fs \<and> frame_ok r \<and>
    RequestID r = RequestID f \<and> (FType r = FType f \<or> FType r = IPCError)"
  using node.dispatch_answers [OF assms(1-4), where M = M and A = A and w = w and f = f and Ma = M] assms(5)
  by (auto simp: answered_def daemon_handler_def)

theorem requests_answered_once_witness:
  "\<exists>sc' fs r. map_of (sconns (fst (dispatch demo_prims demo_chat_pack demo_ipc_pack (daemon_handler demo_prims demo_chat_pack (\<lambda>_. None) demo_world) 4
        \<lparr>FType = IPCTrust, RequestID = 5, FPayload = []\<rparr>
        \<lparr>sconns = [(4, \<lparr>sc_conn = \<lparr>sent = [], room = None\<rparr>, subs = []\<rparr>)], srv_done = False\<rparr> (demo_daemon [])))) 4 = Some sc' \<and>
     sent (sc_conn sc') = wire (fs @ [r]) \<and> RequestID r = 5"
proof -
  let ?s = "\<lparr>sconns = [(4, \<lparr>sc_conn = \<lparr>sent = [], room = None\<rparr>, subs = []\<rparr>)], srv_done = False\<rparr>"
  have inv: "daemon_inv demo_prims (demo_daemon [])" by (rule demo_daemon_inv [OF demo_sound_Nil]) simp
  have s: "map_of (sconns ?s) 4 = Some \<lparr>sc_conn = \<lparr>sent = [], room = None\<rparr>, subs = []\<rparr>" by simp
  have r: "room (sc_conn \<lparr>sc_conn = \<lparr>sent = [], room = None\<rparr>, subs = []\<rparr>) = None" by simp
  have e: "errors_fit demo_ipc_pack" by (auto simp: errors_fit_def demo_ipc_pack_def)
  have p: "length b \<le> maxFramePayload" if "MarshalPeers demo_ipc_pack (HandlePeerList (\<lambda>_. None) (demo_daemon [])) = Some b" for b
    using that by (auto simp: demo_ipc_pack_def split: if_splits)
  from requests_answered_once [OF inv s r e p, where M = demo_chat_pack and w = demo_world and f = "\<lparr>FType = IPCTrust, RequestID = 5, FPayload = []\<rparr>"]
  show ?thesis by (simp del: wire_simps') blast
qed

end
