(* ===== verification/Gandr_Identity.thy ===== *)
theory Gandr_Identity
  imports Gandr_Store
begin

text \<open>
  \<^verbatim>\<open>pkg/identity/identity.go\<close>: the permanent identity key and its encrypted keyfile. The file system is
  the one of the object store, an association list from path to contents; \<^verbatim>\<open>Save\<close> yields the states it
  passes through. MessagePack for the keyfile's record is the parameter \<open>keyfile_pack\<close>, and the name
  that \<^verbatim>\<open>os.CreateTemp\<close> returns is an argument, a file that does not exist yet.
\<close>

record Identity =
  PrivateKey :: bytes
  PublicKey :: bytes
  IdDisplayName :: gostring
  CreatedAt :: "64 word"

record keyfileData =
  KSeed :: bytes
  KDisplayName :: gostring
  KCreatedAt :: "64 word"

record keyfile_pack =
  MarshalKeyfile :: "keyfileData \<Rightarrow> bytes option"
  UnmarshalKeyfile :: "bytes \<Rightarrow> keyfileData option"

definition keyfile_pack_ok :: "keyfile_pack \<Rightarrow> bool" where
  "keyfile_pack_ok N \<longleftrightarrow> (\<forall>k b. MarshalKeyfile N k = Some b \<longrightarrow> UnmarshalKeyfile N b = Some k)"

datatype identity_error =
    ErrNoKeyfile
  | ErrKeyfileRead
  | ErrKeyfileCrypto crypto_error
  | ErrKeyfileDeserialize
  | ErrKeyfileSeed nat
  | ErrKeyfileSerialize
  | ErrKeyfileRandom
  | ErrKeyfileMkdir
  | ErrKeyfileTemp
  | ErrKeyfileChmod
  | ErrKeyfileWrite
  | ErrKeyfileClose
  | ErrKeyfileCommit

text \<open>\<open>rnd\<close> is the randomness drawn, \<open>now\<close> the clock in seconds.\<close>

definition Generate :: "prims \<Rightarrow> bytes \<Rightarrow> 64 word \<Rightarrow> gostring \<Rightarrow> Identity" where
  "Generate P rnd now displayName =
     (case GenerateIdentity P rnd of
        (pub, priv) \<Rightarrow> \<lparr>PrivateKey = priv, PublicKey = pub, IdDisplayName = displayName, CreatedAt = now\<rparr>)"

definition Pubkey :: "Identity \<Rightarrow> bytes" where
  "Pubkey idt = to_array 32 (PublicKey idt)"

text \<open>What saving draws: the salt, the nonce and whether the random source gives it, and the temporary name.\<close>

record save_rnd =
  sr_salt :: bytes
  sr_nonce :: bytes
  sr_drawn :: bool
  sr_tmp :: gostring

text \<open>\<^verbatim>\<open>Save\<close> as the states of the disk and the result; the faults are those of the store's \<^verbatim>\<open>Put\<close>.\<close>

definition Save_run ::
  "prims \<Rightarrow> keyfile_pack \<Rightarrow> save_rnd \<Rightarrow> put_fault \<Rightarrow> gostring \<Rightarrow> bytes \<Rightarrow> Identity \<Rightarrow> fs \<Rightarrow> fs list \<times> (identity_error + unit)" where
  "Save_run P N r flt file passphrase idt disk =
     (case MarshalKeyfile N \<lparr>KSeed = Seed (PrivateKey idt), KDisplayName = IdDisplayName idt, KCreatedAt = CreatedAt idt\<rparr> of
        None \<Rightarrow> ([disk], Inl ErrKeyfileSerialize)
      | Some plain \<Rightarrow>
          if \<not> sr_drawn r then ([disk], Inl ErrKeyfileRandom)
          else
            let enc = EncryptKeyfile P (sr_salt r) (sr_nonce r) passphrase plain;
                t = sr_tmp r;
                created = [disk, AList.update t [] disk];
                writing = map (\<lambda>k. AList.update t (take k enc) disk) [0..<Suc (length enc)];
                written = AList.update t enc disk;
                renamed = AList.update file enc (AList.delete t written)
            in case flt of
                 FailMkdir \<Rightarrow> ([disk], Inl ErrKeyfileMkdir)
               | FailCreate \<Rightarrow> ([disk], Inl ErrKeyfileTemp)
               | FailChmod \<Rightarrow> (created @ [AList.delete t (AList.update t [] disk)], Inl ErrKeyfileChmod)
               | FailWrite n \<Rightarrow> (created @ writing @ [AList.delete t (AList.update t (take n enc) disk)], Inl ErrKeyfileWrite)
               | FailClose \<Rightarrow> (created @ writing @ [AList.delete t written], Inl ErrKeyfileClose)
               | FailRename \<Rightarrow> (created @ writing @ [AList.delete t written], Inl ErrKeyfileCommit)
               | PutOk \<Rightarrow> (created @ writing @ [renamed, AList.delete t renamed], Inr ()))"

definition Save ::
  "prims \<Rightarrow> keyfile_pack \<Rightarrow> save_rnd \<Rightarrow> put_fault \<Rightarrow> gostring \<Rightarrow> bytes \<Rightarrow> Identity \<Rightarrow> fs \<Rightarrow> fs \<times> (identity_error + unit)" where
  "Save P N r flt file passphrase idt disk =
     (case Save_run P N r flt file passphrase idt disk of (states, res) \<Rightarrow> (last states, res))"

definition Load :: "prims \<Rightarrow> keyfile_pack \<Rightarrow> bool \<Rightarrow> gostring \<Rightarrow> bytes \<Rightarrow> fs \<Rightarrow> identity_error + Identity" where
  "Load P N readErr file passphrase disk =
     (case map_of disk file of
        None \<Rightarrow> Inl ErrNoKeyfile
      | Some data \<Rightarrow>
          if readErr then Inl ErrKeyfileRead
          else (case DecryptKeyfile P passphrase data of
                  Inl e \<Rightarrow> Inl (ErrKeyfileCrypto e)
                | Inr plain \<Rightarrow>
                    (case UnmarshalKeyfile N plain of
                       None \<Rightarrow> Inl ErrKeyfileDeserialize
                     | Some kf \<Rightarrow>
                         if length (KSeed kf) \<noteq> SeedSize then Inl (ErrKeyfileSeed (length (KSeed kf)))
                         else
                           let priv = NewKeyFromSeed P (KSeed kf) in
                           Inr \<lparr>PrivateKey = priv, PublicKey = Public priv, IdDisplayName = KDisplayName kf,
                                CreatedAt = KCreatedAt kf\<rparr>)))"

definition LoadOrGenerate ::
  "prims \<Rightarrow> keyfile_pack \<Rightarrow> bytes \<Rightarrow> 64 word \<Rightarrow> save_rnd \<Rightarrow> put_fault \<Rightarrow> bool \<Rightarrow> gostring \<Rightarrow> bytes \<Rightarrow> gostring \<Rightarrow> fs \<Rightarrow>
     fs \<times> (identity_error + Identity \<times> bool)" where
  "LoadOrGenerate P N rnd now r flt readErr file passphrase displayName disk =
     (case Load P N readErr file passphrase disk of
        Inr idt \<Rightarrow> (disk, Inr (idt, False))
      | Inl e \<Rightarrow>
          if e \<noteq> ErrNoKeyfile then (disk, Inl e)
          else
            let idt = Generate P rnd now displayName in
            (case Save P N r flt file passphrase idt disk of
               (disk1, Inl e) \<Rightarrow> (disk1, Inl e)
             | (disk1, Inr _) \<Rightarrow> (disk1, Inr (idt, True))))"

section \<open>Keyfiles\<close>

definition wf_identity :: "prims \<Rightarrow> Identity \<Rightarrow> bool" where
  "wf_identity P idt \<longleftrightarrow> wf_priv P (PrivateKey idt) \<and> PublicKey idt = Public (PrivateKey idt)"

lemma Generate_wf: "sizes_ok P \<Longrightarrow> wf_identity P (Generate P rnd now nm)"
  by (simp add: Generate_def GenerateIdentity_def wf_identity_def Let_def wf_priv_NewKeyFromSeed)

lemma Save_file:
  assumes "Save P N r flt file pass idt disk = (disk', Inr ())" "sr_tmp r \<noteq> file"
  obtains plain where
    "MarshalKeyfile N \<lparr>KSeed = Seed (PrivateKey idt), KDisplayName = IdDisplayName idt, KCreatedAt = CreatedAt idt\<rparr> = Some plain"
    "map_of disk' file = Some (EncryptKeyfile P (sr_salt r) (sr_nonce r) pass plain)" "flt = PutOk"
  using assms
  by (auto simp: Save_def Save_run_def Let_def delete_conv update_conv simp del: upt_Suc split: option.splits put_fault.splits if_splits)

lemma Load_Save_ok:
  assumes "sizes_ok P" "aead_ok P" "keyfile_pack_ok N" "wf_identity P idt" "sr_tmp r \<noteq> file"
    and "Save P N r flt file pass idt disk = (disk', Inr ())"
  shows "Load P N False file pass disk' = Inr idt"
proof -
  obtain plain where m: "MarshalKeyfile N \<lparr>KSeed = Seed (PrivateKey idt), KDisplayName = IdDisplayName idt, KCreatedAt = CreatedAt idt\<rparr> = Some plain"
    and f: "map_of disk' file = Some (EncryptKeyfile P (sr_salt r) (sr_nonce r) pass plain)"
    using Save_file [OF assms(6,5)] .
  have "UnmarshalKeyfile N plain = Some \<lparr>KSeed = Seed (PrivateKey idt), KDisplayName = IdDisplayName idt, KCreatedAt = CreatedAt idt\<rparr>"
    using assms(3) m by (simp add: keyfile_pack_ok_def)
  moreover have "NewKeyFromSeed P (Seed (PrivateKey idt)) = PrivateKey idt" "length (Seed (PrivateKey idt)) = 32"
    using assms(4) by (auto simp: wf_identity_def wf_priv_def)
  moreover have "Public (PrivateKey idt) = PublicKey idt" using assms(4) by (simp add: wf_identity_def)
  ultimately show ?thesis
    using f DecryptKeyfile_EncryptKeyfile [OF assms(1,2)] by (simp add: Load_def Let_def)
qed

text \<open>
  C39. An identity survives its keyfile: when saving reports success, loading the file with the same
  passphrase returns the identity with the same private and public key, display name and creation time;
  and whatever call fails or wherever the process dies in between, the file at the keyfile's path is the
  old one, untouched, or the complete new one.
\<close>

theorem keyfile_survives:
  assumes "sizes_ok P" "aead_ok P" "keyfile_pack_ok N" "wf_identity P idt" "sr_tmp r \<noteq> file"
    and "Save_run P N r flt file pass idt disk = (states, res)"
  shows "(res = Inr () \<longrightarrow> Load P N False file pass (last states) = Inr idt) \<and>
    (\<forall>st \<in> set states. map_of st file = map_of disk file \<or> Load P N False file pass st = Inr idt)"
proof -
  have good: "Load P N False file pass (last states) = Inr idt" if "res = Inr ()"
    using Load_Save_ok [OF assms(1-5), of flt pass disk "last states"] assms(6) that by (simp add: Save_def)
  have same: "Load P N False file pass st = Load P N False file pass st'" if "map_of st file = map_of st' file" for st st'
    using that by (simp add: Load_def)
  have "map_of st file = map_of disk file \<or> (res = Inr () \<and> map_of st file = map_of (last states) file)"
    if "st \<in> set states" for st
    using that assms(5,6)
    by (auto simp: Save_run_def Let_def delete_conv update_conv simp del: upt_Suc split: option.splits put_fault.splits if_splits)
  then show ?thesis using good same by metis
qed

definition demo_keyfile_pack :: keyfile_pack where
  "demo_keyfile_pack =
     \<lparr>MarshalKeyfile = (\<lambda>k. if length (KSeed k) = 32 then Some (KSeed k @ PutUint64 (KCreatedAt k) @ KDisplayName k) else None),
      UnmarshalKeyfile = (\<lambda>b. Some \<lparr>KSeed = take 32 b, KDisplayName = drop 40 b, KCreatedAt = Uint64 (take 8 (drop 32 b))\<rparr>)\<rparr>"

lemma demo_keyfile_pack_ok: "keyfile_pack_ok demo_keyfile_pack"
  by (simp add: keyfile_pack_ok_def demo_keyfile_pack_def)

definition demo_save_rnd :: save_rnd where
  "demo_save_rnd = \<lparr>sr_salt = [1], sr_nonce = [2], sr_drawn = True, sr_tmp = str ''t''\<rparr>"

lemma demo_save_drawn [simp]: "sr_drawn demo_save_rnd"
  by (simp add: demo_save_rnd_def)

theorem keyfile_survives_witness:
  "Load demo_prims demo_keyfile_pack False (str ''k'') [9]
     (last (fst (Save_run demo_prims demo_keyfile_pack demo_save_rnd PutOk (str ''k'') [9] (Generate demo_prims [5] 3 [7]) []))) =
   Inr (Generate demo_prims [5] 3 [7])"
proof -
  let ?i = "Generate demo_prims [5] 3 [7]"
  have wf: "wf_identity demo_prims ?i" using demo_sizes_ok by (rule Generate_wf)
  then have "length (Seed (PrivateKey ?i)) = 32" using wf_priv_length length_Seed unfolding wf_identity_def by blast
  then obtain states where s: "Save_run demo_prims demo_keyfile_pack demo_save_rnd PutOk (str ''k'') [9] ?i [] = (states, Inr ())"
    by (simp add: Save_run_def demo_keyfile_pack_def Let_def)
  have "sr_tmp demo_save_rnd \<noteq> str ''k''" by (simp add: demo_save_rnd_def str_def)
  from keyfile_survives [OF demo_sizes_ok demo_aead_ok demo_keyfile_pack_ok wf this s] s show ?thesis by simp
qed

text \<open>
  Starting twice with the same passphrase is the same node: after a start that generated an identity,
  the next start loads that identity and generates nothing.
\<close>

theorem LoadOrGenerate_stable:
  assumes "sizes_ok P" "aead_ok P" "keyfile_pack_ok N" "sr_tmp r \<noteq> file"
    and "LoadOrGenerate P N rnd now r flt False file pass nm disk = (disk1, Inr (idt, True))"
  shows "LoadOrGenerate P N rnd' now' r' flt' False file pass nm' disk1 = (disk1, Inr (idt, False))"
proof -
  have "idt = Generate P rnd now nm" "Save P N r flt file pass idt disk = (disk1, Inr ())"
    using assms(5) by (auto simp: LoadOrGenerate_def Let_def split: sum.splits if_splits prod.splits)
  then have "Load P N False file pass disk1 = Inr idt"
    using Load_Save_ok [OF assms(1-3) Generate_wf [OF assms(1)] assms(4)] by simp
  then show ?thesis by (simp add: LoadOrGenerate_def)
qed

end
