(* ===== verification/Gandr_Config.thy ===== *)
theory Gandr_Config
  imports Gandr_Daemon Gandr_Identity
begin

text \<open>
  \<^verbatim>\<open>cmd/gandrd\<close>: the daemon's configuration (\<^verbatim>\<open>config.go\<close>) and its start (\<^verbatim>\<open>main.go\<close>), which composes
  identity, store, daemon and local server. TOML is the parameter \<open>T\<close>: from the file's bytes and the
  configuration with its defaults to the filled-in one, or \<^const>\<open>None\<close> for a parse error. The files of
  the system (configuration, passphrase, keyfiles) and the objects of the store are two disks.
\<close>

section \<open>Configuration\<close>

record IdentityConfig =
  Keyfile :: gostring
  PassphraseFile :: gostring
  CfgDisplayName :: gostring

record NetworkConfig =
  NetListen :: "gostring list"
  NetPeers :: "gostring list"
  CfgYggKeyfile :: gostring

record PeeringConfig =
  SeedNode :: bool
  MaxPeers :: int
  TrustNewPeers :: gostring
  Seeds :: "gostring list"

record CapabilitiesConfig =
  CChat :: bool
  CFeed :: bool
  CForum :: bool
  CStorage :: bool
  CRelay :: bool
  CSeed :: bool

record LimitsConfig =
  LMaxPayloadSize :: "32 word"
  LMaxMessageAge :: "32 word"
  LRateLimitRPM :: "16 word"
  LMaxConnections :: int

record GConfig =
  CfgIdentity :: IdentityConfig
  CfgNetwork :: NetworkConfig
  CfgPeering :: PeeringConfig
  CfgCapabilities :: CapabilitiesConfig
  CfgLimits :: LimitsConfig
  CfgSocket :: gostring
  CfgStoragePath :: gostring

abbreviation (input) CapChat :: "32 word" where "CapChat \<equiv> 0x01"
abbreviation (input) CapFeed :: "32 word" where "CapFeed \<equiv> 0x02"
abbreviation (input) CapForum :: "32 word" where "CapForum \<equiv> 0x04"
abbreviation (input) CapStorage :: "32 word" where "CapStorage \<equiv> 0x08"
abbreviation (input) CapRelay :: "32 word" where "CapRelay \<equiv> 0x10"
abbreviation (input) CapSeed :: "32 word" where "CapSeed \<equiv> 0x20"

unbundle bit_operations_syntax

definition Bitmask :: "CapabilitiesConfig \<Rightarrow> 32 word" where
  "Bitmask c =
     (let m = 0;
          m = (if CChat c then m OR CapChat else m);
          m = (if CFeed c then m OR CapFeed else m);
          m = (if CForum c then m OR CapForum else m);
          m = (if CStorage c then m OR CapStorage else m);
          m = (if CRelay c then m OR CapRelay else m)
      in if CSeed c then m OR CapSeed else m)"

definition defaultConfig :: GConfig where
  "defaultConfig =
     \<lparr>CfgIdentity = \<lparr>Keyfile = str ''/etc/gandrd/identity.key'', PassphraseFile = [], CfgDisplayName = []\<rparr>,
      CfgNetwork = \<lparr>NetListen = [str ''tcp://0.0.0.0:4242''], NetPeers = [], CfgYggKeyfile = []\<rparr>,
      CfgPeering = \<lparr>SeedNode = False, MaxPeers = 200, TrustNewPeers = str ''neutral'', Seeds = []\<rparr>,
      CfgCapabilities = \<lparr>CChat = True, CFeed = True, CForum = True, CStorage = False, CRelay = True, CSeed = False\<rparr>,
      CfgLimits = \<lparr>LMaxPayloadSize = 65535, LMaxMessageAge = 604800, LRateLimitRPM = 600, LMaxConnections = 500\<rparr>,
      CfgSocket = str ''/var/run/gandrd/gandr.sock'', CfgStoragePath = str ''/var/lib/gandrd''\<rparr>"

datatype config_error =
    ErrConfigRead
  | ErrConfigParse
  | ErrKeyfileRequired
  | ErrStorageRequired
  | ErrSocketRequired
  | ErrMaxPeers
  | ErrMaxPayload
  | ErrUnknownTrust gostring
  | ErrBadSeed gostring
  | ErrPassphraseFile
  | ErrNoPassphrase
  | ErrStartIdentity identity_error
  | ErrStartStore store_error
  | ErrStartTransport
  | ErrStartSocketDir
  | ErrStartTable table_error
  | ErrStartListen ipc_error

definition DefaultTrust :: "GConfig \<Rightarrow> config_error + byte" where
  "DefaultTrust c =
     (let t = TrustNewPeers (CfgPeering c) in
      if t = str ''untrusted'' then Inr TrustUntrusted
      else if t = [] \<or> t = str ''neutral'' then Inr TrustNeutral
      else if t = str ''trusted'' then Inr TrustTrusted
      else if t = str ''vouched'' then Inr TrustVouched
      else Inl (ErrUnknownTrust t))"

fun decode_seeds :: "gostring list \<Rightarrow> config_error + bytes list" where
  "decode_seeds [] = Inr []"
| "decode_seeds (s # rest) =
     (case DecodeString s of
        None \<Rightarrow> Inl (ErrBadSeed s)
      | Some k \<Rightarrow>
          if length k \<noteq> 32 then Inl (ErrBadSeed s)
          else (case decode_seeds rest of Inl e \<Rightarrow> Inl e | Inr ks \<Rightarrow> Inr (k # ks)))"

definition SeedKeys :: "GConfig \<Rightarrow> config_error + bytes list" where
  "SeedKeys c = decode_seeds (Seeds (CfgPeering c))"

definition YggKeyfile :: "GConfig \<Rightarrow> gostring" where
  "YggKeyfile c =
     (if CfgYggKeyfile (CfgNetwork c) \<noteq> [] then CfgYggKeyfile (CfgNetwork c)
      else CfgStoragePath c @ str ''/yggdrasil.key'')"

definition config_Validate :: "GConfig \<Rightarrow> config_error + unit" where
  "config_Validate c =
     (if Keyfile (CfgIdentity c) = [] then Inl ErrKeyfileRequired
      else if CfgStoragePath c = [] then Inl ErrStorageRequired
      else if CfgSocket c = [] then Inl ErrSocketRequired
      else if MaxPeers (CfgPeering c) \<le> 0 then Inl ErrMaxPeers
      else if unat (LMaxPayloadSize (CfgLimits c)) > MaxPayloadSize then Inl ErrMaxPayload
      else case DefaultTrust c of
        Inl e \<Rightarrow> Inl e
      | Inr _ \<Rightarrow> (case SeedKeys c of Inl e \<Rightarrow> Inl e | Inr _ \<Rightarrow> Inr ()))"

definition LoadConfig :: "(bytes \<Rightarrow> GConfig \<Rightarrow> GConfig option) \<Rightarrow> gostring \<Rightarrow> fs \<Rightarrow> config_error + GConfig" where
  "LoadConfig T file sys =
     (case map_of sys file of
        None \<Rightarrow> Inl ErrConfigRead
      | Some data \<Rightarrow>
          (case T data defaultConfig of
             None \<Rightarrow> Inl ErrConfigParse
           | Some cfg \<Rightarrow> (case config_Validate cfg of Inl e \<Rightarrow> Inl e | Inr _ \<Rightarrow> Inr cfg)))"

section \<open>Start\<close>

text \<open>\<^verbatim>\<open>strings.TrimRight(s, "\r\n")\<close>\<close>

definition TrimRight :: "gostring \<Rightarrow> gostring" where
  "TrimRight s = rev (dropWhile (\<lambda>b. b = 13 \<or> b = 10) (rev s))"

text \<open>The first line of the standard input with its newline, \<^const>\<open>None\<close> where it has none.\<close>

definition ReadLine :: "bytes \<Rightarrow> bytes option" where
  "ReadLine inp =
     (if 10 \<in> set inp then Some (takeWhile (\<lambda>b. b \<noteq> 10) inp @ [10]) else None)"

definition readPassphrase :: "GConfig \<Rightarrow> gostring \<Rightarrow> bytes \<Rightarrow> fs \<Rightarrow> config_error + bytes" where
  "readPassphrase cfg env inp sys =
     (if PassphraseFile (CfgIdentity cfg) \<noteq> [] then
        (case map_of sys (PassphraseFile (CfgIdentity cfg)) of
           None \<Rightarrow> Inl ErrPassphraseFile
         | Some data \<Rightarrow> Inr (TrimRight data))
      else if env \<noteq> [] then Inr env
      else case ReadLine inp of None \<Rightarrow> Inl ErrNoPassphrase | Some line \<Rightarrow> Inr (TrimRight line))"

text \<open>What the environment decides during a start.\<close>

record start_env =
  se_env :: gostring
  se_stdin :: bytes
  se_debug :: bool
  se_rnd1 :: bytes
  se_rnd2 :: bytes
  se_now1 :: "64 word"
  se_now2 :: "64 word"
  se_save1 :: save_rnd
  se_save2 :: save_rnd
  se_flt1 :: put_fault
  se_flt2 :: put_fault
  se_storeOk :: bool
  se_transportOk :: bool
  se_dirOk :: bool
  se_rm :: rm_result
  se_listenOk :: bool
  se_chmodOk :: bool

definition userAgent :: gostring where "userAgent = str ''gandrd/0.1.0''"

definition config_options :: "GConfig \<Rightarrow> byte \<Rightarrow> bytes list \<Rightarrow> bool \<Rightarrow> Options" where
  "config_options cfg trust seeds dbg =
     \<lparr>OUserAgent = userAgent, OCapabilities = Bitmask (CfgCapabilities cfg), ORelay = CRelay (CfgCapabilities cfg),
      OMaxPeers = MaxPeers (CfgPeering cfg), ODefaultTrust = trust, OMaxMessageAge = LMaxMessageAge (CfgLimits cfg),
      OMaxPayloadSize = LMaxPayloadSize (CfgLimits cfg), ORateLimitRPM = uint (LRateLimitRPM (CfgLimits cfg)),
      OSeeds = seeds, ODebug = dbg\<rparr>"

definition or_fail :: "('x \<Rightarrow> 'e) \<Rightarrow> 'x + 'a \<Rightarrow> ('a \<Rightarrow> 's \<times> ('e + 'b)) \<Rightarrow> 's \<Rightarrow> 's \<times> ('e + 'b)" where
  "or_fail wrap r k s = (case r of Inl e \<Rightarrow> (s, Inl (wrap e)) | Inr a \<Rightarrow> k a)"

text \<open>
  \<^verbatim>\<open>run\<close> up to the loops: the system's files afterwards, and the error or the daemon with its server.
\<close>

definition gandrd_run ::
  "prims \<Rightarrow> keyfile_pack \<Rightarrow> (bytes \<Rightarrow> GConfig \<Rightarrow> GConfig option) \<Rightarrow> start_env \<Rightarrow> gostring \<Rightarrow> fs \<Rightarrow> fs \<Rightarrow>
     fs \<times> (config_error + GConfig \<times> Identity \<times> Daemon \<times> Server)" where
  "gandrd_run P N T se file objs sys =
     or_fail id (LoadConfig T file sys) (\<lambda>cfg.
     or_fail id (readPassphrase cfg (se_env se) (se_stdin se) sys) (\<lambda>pass.
     case LoadOrGenerate P N (se_rnd1 se) (se_now1 se) (se_save1 se) (se_flt1 se) False
            (Keyfile (CfgIdentity cfg)) pass (CfgDisplayName (CfgIdentity cfg)) sys of
       (sys1, r1) \<Rightarrow>
     or_fail ErrStartIdentity r1 (\<lambda>(idt, created).
     case LoadOrGenerate P N (se_rnd2 se) (se_now2 se) (se_save2 se) (se_flt2 se) False (YggKeyfile cfg) pass [] sys1 of
       (sys2, r2) \<Rightarrow>
     or_fail ErrStartIdentity r2 (\<lambda>(ygg, created2).
     or_fail ErrStartStore (StoreOpen (CfgStoragePath cfg) (se_storeOk se)) (\<lambda>objects.
     if \<not> se_transportOk se then (sys2, Inl ErrStartTransport)
     else if \<not> se_dirOk se then (sys2, Inl ErrStartSocketDir)
     else
     or_fail id (DefaultTrust cfg) (\<lambda>trust.
     or_fail id (SeedKeys cfg) (\<lambda>seeds.
     or_fail ErrStartTable (daemon_New (config_options cfg trust seeds (se_debug se)) (PrivateKey idt) objects objs) (\<lambda>d.
     or_fail ErrStartListen (Listen (se_rm se) (se_listenOk se) (se_chmodOk se)) (\<lambda>srv.
       (sys2, Inr (cfg, idt, SetEventSink True d, srv))) sys2) sys2) sys2) sys2) sys2) sys2) sys1) sys) sys"

section \<open>What a started daemon relies on\<close>

lemma or_fail_Inr: "or_fail wrap r k s = (s', Inr b) \<longleftrightarrow> (\<exists>a. r = Inr a \<and> k a = (s', Inr b))"
  by (auto simp: or_fail_def split: sum.splits)

lemma DefaultTrust_range: "DefaultTrust c = Inr t \<Longrightarrow> t \<le> TrustVouched"
  by (auto simp: DefaultTrust_def Let_def split: if_splits)

lemma decode_seeds_keys: "decode_seeds ss = Inr ks \<Longrightarrow> list_all (\<lambda>k. length k = 32) ks \<and> map (\<lambda>k. Some k) ks = map DecodeString ss"
  by (induction ss arbitrary: ks) (auto split: option.splits if_splits sum.splits)

lemma config_Validate_Inr:
  "config_Validate c = Inr () \<Longrightarrow> 0 < MaxPeers (CfgPeering c) \<and> unat (LMaxPayloadSize (CfgLimits c)) \<le> MaxPayloadSize"
  by (auto simp: config_Validate_def split: if_splits)

lemma LoadConfig_Inr: "LoadConfig T file sys = Inr cfg \<Longrightarrow> config_Validate cfg = Inr ()"
  by (auto simp: LoadConfig_def split: option.splits sum.splits)

lemma daemon_New_Inr:
  assumes "daemon_New o' i s dsk = Inr d"
  shows "opts d = o'" "dobjects d = s" "disk d = dsk" "did d = i" "profiles d = []" "rates d = []"
    "table d = \<lparr>tpeers = [], maxPeers = OMaxPeers o', defaultTrust = ODefaultTrust o'\<rparr>" "ODefaultTrust o' \<le> TrustVouched"
    "fedCfg d = \<lparr>Identity = i, Capabilities = OCapabilities o', UserAgent = OUserAgent o',
       Policy = PeerPolicyPayload (OMaxMessageAge o') (OMaxPayloadSize o') (of_int (ORateLimitRPM o')) (ODefaultTrust o')\<rparr>"
  using assms by (auto simp: daemon_New_def NewTable_def split: sum.splits if_splits)

text \<open>
  A daemon that starts is configured soundly: whenever the start succeeds, the daemon satisfies its
  invariant on the objects found on disk, runs under the identity of the keyfile, has its event sink
  attached, allows at least one peer, never accepts a payload above the protocol's limit, dials only
  32-byte node keys, and announces a policy that passes the protocol's validation and states its real
  rate limit.
\<close>

theorem started_daemon:
  assumes "gandrd_run P N T se file objs sys = (sys', Inr (cfg, idt, d, srv))"
    and "sound P (dobjects d) objs" "distinct (map fst objs)"
  shows "daemon_inv P d \<and> did d = PrivateKey idt \<and> sink d \<and> 1 \<le> maxPeers (table d) \<and>
    unat (OMaxPayloadSize (opts d)) \<le> MaxPayloadSize \<and> list_all (\<lambda>k. length k = 32) (OSeeds (opts d)) \<and>
    Validate (Policy (fedCfg d)) = Inr () \<and>
    Policy (fedCfg d) = PeerPolicyPayload (LMaxMessageAge (CfgLimits cfg)) (LMaxPayloadSize (CfgLimits cfg))
      (LRateLimitRPM (CfgLimits cfg)) (ODefaultTrust (opts d))"
proof -
  obtain trust seeds objects d0 where *: "config_Validate cfg = Inr ()" "DefaultTrust cfg = Inr trust" "SeedKeys cfg = Inr seeds"
    "daemon_New (config_options cfg trust seeds (se_debug se)) (PrivateKey idt) objects objs = Inr d0" "d = SetEventSink True d0"
    using assms(1) by (auto simp: gandrd_run_def or_fail_Inr case_prod_unfold split: if_splits dest: LoadConfig_Inr)
  note n = daemon_New_Inr [OF *(4)]
  have "daemon_inv P d"
    using assms(2,3) n *(5) by (simp add: daemon_inv_def SetEventSink_def table_inv_def)
  moreover have "(of_int (uint (LRateLimitRPM (CfgLimits cfg))) :: 16 word) = LRateLimitRPM (CfgLimits cfg)" by simp
  moreover have "list_all (\<lambda>k. length k = 32) seeds" using decode_seeds_keys *(3) by (simp add: SeedKeys_def)
  ultimately show ?thesis
    using n *(5) config_Validate_Inr [OF *(1)] DefaultTrust_range [OF *(2)]
    by (simp add: SetEventSink_def config_options_def)
qed

lemma LoadOrGenerate_new:
  assumes "map_of sys file = None" "sizes_ok P" "sr_drawn r"
  shows "\<exists>sys1. LoadOrGenerate P demo_keyfile_pack rnd now r PutOk False file pass nm sys = (sys1, Inr (Generate P rnd now nm, True)) \<and>
    (\<forall>g. g \<noteq> file \<longrightarrow> g \<noteq> sr_tmp r \<longrightarrow> map_of sys1 g = map_of sys g)"
proof -
  have "wf_priv P (PrivateKey (Generate P rnd now nm))" using Generate_wf [OF assms(2)] by (simp add: wf_identity_def)
  then have "length (Seed (PrivateKey (Generate P rnd now nm))) = 32" using wf_priv_length length_Seed by blast
  then show ?thesis
    using assms(1,3)
    by (auto simp: LoadOrGenerate_def Load_def Save_def Save_run_def demo_keyfile_pack_def Let_def update_conv delete_conv
        simp del: upt_Suc)
qed

definition demo_start :: start_env where
  "demo_start = \<lparr>se_env = str ''pw'', se_stdin = [], se_debug = False, se_rnd1 = [1], se_rnd2 = [2], se_now1 = 0, se_now2 = 0,
     se_save1 = demo_save_rnd, se_save2 = demo_save_rnd, se_flt1 = PutOk, se_flt2 = PutOk, se_storeOk = True,
     se_transportOk = True, se_dirOk = True, se_rm = RmNotExist, se_listenOk = True, se_chmodOk = True\<rparr>"

lemma default_config_valid: "config_Validate defaultConfig = Inr ()"
  by (simp add: config_Validate_def defaultConfig_def DefaultTrust_def SeedKeys_def Let_def str_def)

theorem started_daemon_witness:
  "\<exists>sys' idt d srv. gandrd_run demo_prims demo_keyfile_pack (\<lambda>b c. Some c) demo_start (str ''c'') [] [(str ''c'', [])] =
     (sys', Inr (defaultConfig, idt, d, srv)) \<and> daemon_inv demo_prims d \<and> sink d \<and> 1 \<le> maxPeers (table d)"
proof -
  define T :: "bytes \<Rightarrow> GConfig \<Rightarrow> GConfig option" where "T = (\<lambda>b c. Some c)"
  define sys where "sys = [(str ''c'', [] :: bytes)]"
  define k where "k = Keyfile (CfgIdentity defaultConfig)"
  define i where "i = Generate demo_prims [1] 0 []"
  have cfg: "LoadConfig T (str ''c'') sys = Inr defaultConfig"
    by (simp add: LoadConfig_def sys_def T_def default_config_valid)
  have pass: "readPassphrase defaultConfig (str ''pw'') [] sys = Inr (str ''pw'')"
    by (simp add: readPassphrase_def defaultConfig_def) (simp add: str_def)
  have "map_of sys k = None" by (simp add: sys_def k_def defaultConfig_def str_def)
  then obtain sys1 where s1: "LoadOrGenerate demo_prims demo_keyfile_pack [1] 0 demo_save_rnd PutOk False k (str ''pw'') [] sys = (sys1, Inr (i, True))"
    "\<forall>g. g \<noteq> k \<longrightarrow> g \<noteq> sr_tmp demo_save_rnd \<longrightarrow> map_of sys1 g = map_of sys g"
    using LoadOrGenerate_new [OF _ demo_sizes_ok demo_save_drawn] unfolding i_def by blast
  have "map_of sys1 (YggKeyfile defaultConfig) = None"
    using s1(2) by (simp add: YggKeyfile_def defaultConfig_def k_def sys_def demo_save_rnd_def str_def)
  then obtain sys2 where s2: "LoadOrGenerate demo_prims demo_keyfile_pack [2] 0 demo_save_rnd PutOk False (YggKeyfile defaultConfig) (str ''pw'') [] sys1 =
      (sys2, Inr (Generate demo_prims [2] 0 [], True))"
    using LoadOrGenerate_new [OF _ demo_sizes_ok demo_save_drawn] by blast
  have trust: "DefaultTrust defaultConfig = Inr TrustNeutral" "SeedKeys defaultConfig = Inr []"
    by (simp_all add: DefaultTrust_def SeedKeys_def defaultConfig_def Let_def str_def)
  have nm: "CfgDisplayName (CfgIdentity defaultConfig) = []" by (simp add: defaultConfig_def)
  obtain d0 where d0: "daemon_New (config_options defaultConfig TrustNeutral [] False) (PrivateKey i)
      \<lparr>objects = Join (CfgStoragePath defaultConfig) (str ''objects'')\<rparr> [] = Inr d0"
    by (simp add: daemon_New_def config_options_def NewTable_def)
  have run: "gandrd_run demo_prims demo_keyfile_pack T demo_start (str ''c'') [] sys =
      (sys2, Inr (defaultConfig, i, SetEventSink True d0, \<lparr>sconns = [], srv_done = False\<rparr>))"
    using cfg pass s1(1) s2 trust nm d0
    by (simp add: gandrd_run_def or_fail_def demo_start_def k_def [symmetric] StoreOpen_def Listen_def Let_def)
  from started_daemon [OF run demo_sound_Nil] run show ?thesis unfolding T_def sys_def by auto
qed

end
