(* ===== verification/Mesh_Store.thy ===== *)
theory Mesh_Store
  imports Gandr_Store "HOL-Library.List_Lexorder"
begin

text \<open>
  \<^verbatim>\<open>internal/mesh/object.go\<close> and \<^verbatim>\<open>store.go\<close>: the public cache objects and the directory that keeps one
  JSON file per payload hash, with the in-memory index from resource to hash. The files of the directory
  are an association list from path to contents, as in the object store of the node. \<^verbatim>\<open>encoding/json\<close> for
  the object's record is the parameter \<open>object_json\<close>; what the code relies on is that marshalled text
  reads back as the same object, when its strings are valid UTF-8 (others are altered), and that a value
  read has valid strings and a hash of 32 bytes, the length its type fixes.

  The locale \<open>object_cache\<close> is what the node relies on; the directory with its index implements it.
\<close>

section \<open>Cache objects\<close>

definition ForumSnapshot :: gostring where "ForumSnapshot = str ''forum_snapshot''"
definition ThreadListingSnapshot :: gostring where "ThreadListingSnapshot = str ''thread_listing_snapshot''"
definition ThreadPageSnapshot :: gostring where "ThreadPageSnapshot = str ''thread_page_snapshot''"

definition OriginVerified :: gostring where "OriginVerified = str ''ORIGIN_VERIFIED''"
definition LocalObserved :: gostring where "LocalObserved = str ''LOCAL_OBSERVED''"
definition MultiPeerAgreement :: gostring where "MultiPeerAgreement = str ''MULTI_PEER_AGREEMENT''"
definition PeerOnly :: gostring where "PeerOnly = str ''PEER_ONLY''"
definition Stale :: gostring where "Stale = str ''STALE''"

abbreviation (input) MaxObjectSize :: nat where "MaxObjectSize \<equiv> 16777216"

record CacheObject =
  ObjType :: gostring
  ObjSource :: gostring
  ObjResourceID :: gostring
  ObjFetchedAt :: instant
  ObjPayload :: bytes
  ObjHash :: bytes
  ObjProvenance :: gostring

definition NewObject ::
  "prims \<Rightarrow> gostring \<Rightarrow> gostring \<Rightarrow> gostring \<Rightarrow> instant \<Rightarrow> bytes \<Rightarrow> gostring \<Rightarrow> CacheObject" where
  "NewObject P typ source resourceID fetchedAt payload provenance =
     \<lparr>ObjType = typ, ObjSource = source, ObjResourceID = resourceID, ObjFetchedAt = fetchedAt,
      ObjPayload = payload, ObjHash = sha256 P payload, ObjProvenance = provenance\<rparr>"

definition HashString :: "CacheObject \<Rightarrow> gostring" where
  "HashString ob = EncodeToString (ObjHash ob)"

datatype mesh_error =
    ErrObjectFields
  | ErrObjectSize nat
  | ErrObjectHash
  | ErrMeshNoPath
  | ErrMeshMkdir
  | ErrMeshReadDir
  | ErrMeshMarshal
  | ErrMeshTemp
  | ErrMeshChmod
  | ErrMeshWrite
  | ErrMeshSync
  | ErrMeshClose
  | ErrMeshRename
  | ErrMeshAddress
  | ErrNotExist
  | ErrMeshRead
  | ErrMeshUnmarshal
  | ErrMeshAddressMismatch
  | ErrMeshNoStore
  | ErrMeshUnknownRequest gostring
  | ErrHaveUnmarshal
  | ErrHaveHash
  | ErrHaveResource
  | ErrMeshNoPeer
  | ErrMeshPeerNotFound gostring
  | ErrPeerAddress
  | ErrPeerHash
  | ErrPeerResource
  | ErrMeshNoHandler
  | ErrMeshNoConn
  | ErrMeshRequestSize
  | ErrMeshResponseSize
  | ErrMeshIO
  | ErrCtxDone
  | ErrIdentityPath
  | ErrIdentitySize
  | ErrIdentityRandom
  | ErrInviteKey
  | ErrInviteEndpoints

definition object_Validate :: "prims \<Rightarrow> CacheObject \<Rightarrow> mesh_error + unit" where
  "object_Validate P ob =
     (if ObjType ob = [] \<or> ObjSource ob = [] \<or> ObjResourceID ob = [] then Inl ErrObjectFields
      else if length (ObjPayload ob) = 0 \<or> length (ObjPayload ob) > MaxObjectSize
        then Inl (ErrObjectSize (length (ObjPayload ob)))
      else if sha256 P (ObjPayload ob) \<noteq> ObjHash ob then Inl ErrObjectHash
      else Inr ())"

section \<open>JSON\<close>

record object_json =
  MarshalObject :: "CacheObject \<Rightarrow> bytes option"
  UnmarshalObject :: "bytes \<Rightarrow> CacheObject option"

definition json_object :: "CacheObject \<Rightarrow> bool" where
  "json_object ob \<longleftrightarrow> ValidString (ObjType ob) \<and> ValidString (ObjSource ob) \<and> ValidString (ObjResourceID ob) \<and>
     ValidString (ObjProvenance ob) \<and> length (ObjHash ob) = 32"

definition object_json_ok :: "object_json \<Rightarrow> bool" where
  "object_json_ok J \<longleftrightarrow>
     (\<forall>ob b. json_object ob \<longrightarrow> MarshalObject J ob = Some b \<longrightarrow> UnmarshalObject J b = Some ob) \<and>
     (\<forall>b ob. UnmarshalObject J b = Some ob \<longrightarrow> json_object ob)"

lemma json_written: "object_json_ok J \<Longrightarrow> json_object ob \<Longrightarrow> MarshalObject J ob = Some b \<Longrightarrow> UnmarshalObject J b = Some ob"
  unfolding object_json_ok_def by blast

lemma json_read: "object_json_ok J \<Longrightarrow> UnmarshalObject J b = Some ob \<Longrightarrow> json_object ob"
  unfolding object_json_ok_def by blast

section \<open>Replacing a file\<close>

text \<open>
  The sequence \<^verbatim>\<open>CreateTemp\<close>, \<^verbatim>\<open>Chmod\<close>, \<^verbatim>\<open>Write\<close>, (\<^verbatim>\<open>Sync\<close>,) \<^verbatim>\<open>Close\<close>, \<^verbatim>\<open>Rename\<close> with the deferred removal of the
  temporary file: the states the disk passes through and the error, if any. A failing write leaves the
  given number of bytes; a fault of a call that is not made has no effect.
\<close>

datatype tmp_fault =
    TmpOk
  | TmpCreate
  | TmpChmod
  | TmpWrite nat
  | TmpSync
  | TmpClose
  | TmpRename

definition replace_file ::
  "bool \<Rightarrow> tmp_fault \<Rightarrow> gostring \<Rightarrow> gostring \<Rightarrow> bytes \<Rightarrow> fs \<Rightarrow> fs list \<times> (mesh_error + unit)" where
  "replace_file syncs flt t file data disk =
     (let created = [disk, AList.update t [] disk];
          writing = map (\<lambda>k. AList.update t (take k data) disk) [0..<Suc (length data)];
          written = AList.update t data disk;
          renamed = AList.update file data (AList.delete t written)
      in if flt = TmpCreate then ([disk], Inl ErrMeshTemp)
         else case flt of
             TmpChmod \<Rightarrow> (created @ [AList.delete t (AList.update t [] disk)], Inl ErrMeshChmod)
           | TmpWrite n \<Rightarrow> (created @ writing @ [AList.delete t (AList.update t (take n data) disk)], Inl ErrMeshWrite)
           | TmpClose \<Rightarrow> (created @ writing @ [AList.delete t written], Inl ErrMeshClose)
           | TmpRename \<Rightarrow> (created @ writing @ [AList.delete t written], Inl ErrMeshRename)
           | _ \<Rightarrow>
               if flt = TmpSync \<and> syncs then (created @ writing @ [AList.delete t written], Inl ErrMeshSync)
               else (created @ writing @ [renamed, AList.delete t renamed], Inr ()))"

section \<open>The object directory\<close>

record ObjectStore =
  mroot :: gostring
  resourceIndex :: "(gostring \<times> gostring) list"
  mfiles :: fs

definition resourceKey :: "gostring \<Rightarrow> gostring \<Rightarrow> gostring \<Rightarrow> gostring" where
  "resourceKey source resourceID typ = source @ [0] @ resourceID @ [0] @ typ"

definition object_path :: "gostring \<Rightarrow> gostring \<Rightarrow> gostring" where
  "object_path root hash = Join root (hash @ str ''.json'')"

definition validHash :: "gostring \<Rightarrow> bool" where
  "validHash hash = (if length hash \<noteq> 64 then False else DecodeString hash \<noteq> None)"

definition object_key :: "CacheObject \<Rightarrow> gostring" where
  "object_key ob = resourceKey (ObjSource ob) (ObjResourceID ob) (ObjType ob)"

text \<open>
  \<^verbatim>\<open>Put\<close> as the states of the directory, the new store and the result; \<open>tmp\<close> is the random part of the
  temporary name.
\<close>

definition mesh_Put_run ::
  "prims \<Rightarrow> object_json \<Rightarrow> gostring \<Rightarrow> tmp_fault \<Rightarrow> CacheObject \<Rightarrow> ObjectStore \<Rightarrow>
     fs list \<times> ObjectStore \<times> (mesh_error + unit)" where
  "mesh_Put_run P J tmp flt ob s =
     (case object_Validate P ob of
        Inl e \<Rightarrow> ([mfiles s], s, Inl e)
      | Inr _ \<Rightarrow>
          (case MarshalObject J ob of
             None \<Rightarrow> ([mfiles s], s, Inl ErrMeshMarshal)
           | Some b \<Rightarrow>
               (case replace_file False flt (Join (mroot s) (str ''.object-'' @ tmp))
                       (object_path (mroot s) (HashString ob)) b (mfiles s) of
                  (states, Inl e) \<Rightarrow> (states, s\<lparr>mfiles := last states\<rparr>, Inl e)
                | (states, Inr _) \<Rightarrow>
                    (states,
                     s\<lparr>mfiles := last states,
                       resourceIndex := AList.update (object_key ob) (HashString ob) (resourceIndex s)\<rparr>,
                     Inr ()))))"

definition mesh_Put ::
  "prims \<Rightarrow> object_json \<Rightarrow> gostring \<Rightarrow> tmp_fault \<Rightarrow> CacheObject \<Rightarrow> ObjectStore \<Rightarrow> ObjectStore \<times> (mesh_error + unit)" where
  "mesh_Put P J tmp flt ob s = snd (mesh_Put_run P J tmp flt ob s)"

text \<open>\<open>rd\<close>: reading the file fails for another reason than absence.\<close>

definition mesh_Get :: "prims \<Rightarrow> object_json \<Rightarrow> bool \<Rightarrow> ObjectStore \<Rightarrow> gostring \<Rightarrow> mesh_error + CacheObject" where
  "mesh_Get P J rd s hash =
     (if \<not> validHash hash then Inl ErrMeshAddress
      else case map_of (mfiles s) (object_path (mroot s) hash) of
             None \<Rightarrow> Inl ErrNotExist
           | Some b \<Rightarrow>
               if rd then Inl ErrMeshRead
               else (case UnmarshalObject J b of
                       None \<Rightarrow> Inl ErrMeshUnmarshal
                     | Some ob \<Rightarrow>
                         if HashString ob \<noteq> hash then Inl ErrMeshAddressMismatch
                         else (case object_Validate P ob of Inl e \<Rightarrow> Inl e | Inr _ \<Rightarrow> Inr ob)))"

text \<open>
  \<^verbatim>\<open>os.ReadDir\<close>: the names of the files directly under a directory, sorted. Subdirectories are left out:
  both users skip them.
\<close>

definition ReadDir :: "gostring \<Rightarrow> fs \<Rightarrow> gostring list" where
  "ReadDir root disk =
     sort (remdups (filter (\<lambda>name. slash \<notin> set name)
       (map (drop (Suc (length root))) (filter (\<lambda>p. take (Suc (length root)) p = root @ [slash]) (map fst disk)))))"

text \<open>\<^verbatim>\<open>filepath.Ext\<close> of a name and \<^verbatim>\<open>strings.TrimSuffix\<close>.\<close>

definition Ext :: "gostring \<Rightarrow> gostring" where
  "Ext name = (if 46 \<in> set name then 46 # rev (takeWhile (\<lambda>c. c \<noteq> 46) (rev name)) else [])"

definition TrimSuffix :: "gostring \<Rightarrow> gostring \<Rightarrow> gostring" where
  "TrimSuffix s suf =
     (if length suf \<le> length s \<and> drop (length s - length suf) s = suf then take (length s - length suf) s else s)"

definition index_entry :: "prims \<Rightarrow> object_json \<Rightarrow> (gostring \<Rightarrow> bool) \<Rightarrow> ObjectStore \<Rightarrow> gostring \<Rightarrow> ObjectStore" where
  "index_entry P J rd s name =
     (if Ext name \<noteq> str ''.json'' then s
      else let hash = TrimSuffix name (str ''.json'') in
        case mesh_Get P J (rd hash) s hash of
          Inl _ \<Rightarrow> s
        | Inr ob \<Rightarrow> s\<lparr>resourceIndex := AList.update (object_key ob) hash (resourceIndex s)\<rparr>)"

definition OpenObjectStore ::
  "prims \<Rightarrow> object_json \<Rightarrow> bool \<Rightarrow> bool \<Rightarrow> (gostring \<Rightarrow> bool) \<Rightarrow> gostring \<Rightarrow> fs \<Rightarrow> mesh_error + ObjectStore" where
  "OpenObjectStore P J mkdirOk readDirOk rd root disk =
     (if root = [] then Inl ErrMeshNoPath
      else if \<not> mkdirOk then Inl ErrMeshMkdir
      else if \<not> readDirOk then Inl ErrMeshReadDir
      else Inr (foldl (index_entry P J rd) \<lparr>mroot = root, resourceIndex = [], mfiles = disk\<rparr> (ReadDir root disk)))"

definition mesh_Count :: "bool \<Rightarrow> ObjectStore \<Rightarrow> mesh_error + nat" where
  "mesh_Count readDirOk s =
     (if \<not> readDirOk then Inl ErrMeshReadDir
      else Inr (length (filter (\<lambda>name. Ext name = str ''.json'') (ReadDir (mroot s) (mfiles s)))))"

text \<open>\<^verbatim>\<open>strings.SplitN\<close> with a separator of one byte.\<close>

fun SplitN :: "byte \<Rightarrow> nat \<Rightarrow> gostring \<Rightarrow> gostring list" where
  "SplitN sep 0 s = []"
| "SplitN sep (Suc 0) s = [s]"
| "SplitN sep (Suc (Suc n)) s =
     (if sep \<in> set s
      then takeWhile (\<lambda>c. c \<noteq> sep) s # SplitN sep (Suc n) (tl (dropWhile (\<lambda>c. c \<noteq> sep) s))
      else [s])"

definition index_match :: "gostring \<Rightarrow> gostring \<Rightarrow> gostring \<times> gostring \<Rightarrow> bool" where
  "index_match source resourceID kc =
     (let parts = SplitN 0 3 (fst kc) in length parts = 3 \<and> parts ! 0 = source \<and> parts ! 1 = resourceID)"

text \<open>\<open>order\<close> is the order in which the range over the index visits it.\<close>

definition Find ::
  "prims \<Rightarrow> object_json \<Rightarrow> ((gostring \<times> gostring) list \<Rightarrow> (gostring \<times> gostring) list) \<Rightarrow> bool \<Rightarrow> ObjectStore \<Rightarrow>
     gostring \<Rightarrow> gostring \<Rightarrow> gostring \<Rightarrow> mesh_error + CacheObject" where
  "Find P J order rd s source resourceID typ =
     (if typ \<noteq> [] then
        (let hash = (case map_of (resourceIndex s) (resourceKey source resourceID typ) of None \<Rightarrow> [] | Some h \<Rightarrow> h) in
         if hash = [] then Inl ErrNotExist else mesh_Get P J rd s hash)
      else
        (let hash =
           (case find (index_match source resourceID) (order (resourceIndex s)) of
              None \<Rightarrow> [] | Some (_, candidate) \<Rightarrow> candidate) in
         if hash \<noteq> [] then mesh_Get P J rd s hash else Inl ErrNotExist))"

section \<open>Paths and files\<close>

lemma validHash_HashString [simp]: "length (ObjHash ob) = 32 \<Longrightarrow> validHash (HashString ob)"
  by (simp add: validHash_def HashString_def)

lemma object_path_inj: "object_path r a = object_path r b \<Longrightarrow> a = b"
  by (simp add: object_path_def Join_def)

lemma validHash_not_tmp: "validHash h \<Longrightarrow> Join r (str ''.object-'' @ t) \<noteq> object_path r h"
proof
  assume v: "validHash h" and "Join r (str ''.object-'' @ t) = object_path r h"
  then obtain h' where h: "h = 46 # h'" by (cases h) (auto simp: object_path_def Join_def str_def validHash_def)
  then obtain c h'' where "h = 46 # c # h''" using v by (cases h') (auto simp: validHash_def)
  then show False using v by (simp add: validHash_def from_hex_def Let_def split: if_splits)
qed

text \<open>At every moment the file is the old one or, if the rename happened, the complete new one.\<close>

lemma replace_file_states:
  assumes "replace_file syncs flt t file data disk = (states, res)" "d \<in> set states" "f \<noteq> t"
  shows "map_of d f = map_of disk f \<or> f = file \<and> res = Inr () \<and> map_of d f = Some data"
  using assms
  by (auto simp: replace_file_def Let_def delete_conv update_conv simp del: upt_Suc split: if_splits tmp_fault.splits)

lemma replace_file_last:
  assumes "replace_file syncs flt t file data disk = (states, res)" "f \<noteq> t"
  shows "map_of (last states) f = (if f = file \<and> res = Inr () then Some data else map_of disk f)"
  using assms
  by (auto simp: replace_file_def Let_def delete_conv update_conv simp del: upt_Suc split: if_splits tmp_fault.splits)

lemma replace_file_ok: "replace_file syncs TmpOk t file data disk = (states, res) \<Longrightarrow> res = Inr ()"
  by (auto simp: replace_file_def Let_def)

lemma replace_file_nonempty: "replace_file syncs flt t file data disk = (states, res) \<Longrightarrow> states \<noteq> []"
  by (auto simp: replace_file_def Let_def split: if_splits tmp_fault.splits)

section \<open>Reading and writing objects\<close>

lemma object_Validate_iff:
  "object_Validate P ob = Inr () \<longleftrightarrow>
     ObjType ob \<noteq> [] \<and> ObjSource ob \<noteq> [] \<and> ObjResourceID ob \<noteq> [] \<and> ObjPayload ob \<noteq> [] \<and>
     length (ObjPayload ob) \<le> MaxObjectSize \<and> ObjHash ob = sha256 P (ObjPayload ob)"
  by (auto simp: object_Validate_def)

text \<open>What \<^verbatim>\<open>Get\<close> returns has the payload its address names.\<close>

lemma mesh_Get_Inr:
  assumes "mesh_Get P J rd s h = Inr ob"
  shows "object_Validate P ob = Inr ()" "HashString ob = h" "validHash h" "h = EncodeToString (sha256 P (ObjPayload ob))"
proof -
  show v: "object_Validate P ob = Inr ()" and h: "HashString ob = h" and "validHash h"
    using assms by (auto simp: mesh_Get_def split: if_splits option.splits sum.splits)
  then show "h = EncodeToString (sha256 P (ObjPayload ob))"
    by (auto simp: object_Validate_iff HashString_def)
qed

text \<open>An object that can be written: it passes \<^verbatim>\<open>Validate\<close> and JSON can carry it.\<close>

definition cacheable :: "prims \<Rightarrow> object_json \<Rightarrow> CacheObject \<Rightarrow> bool" where
  "cacheable P J ob \<longleftrightarrow> object_Validate P ob = Inr () \<and> json_object ob \<and> MarshalObject J ob \<noteq> None"

definition look :: "prims \<Rightarrow> object_json \<Rightarrow> ObjectStore \<Rightarrow> gostring \<Rightarrow> CacheObject option" where
  "look P J s h = some_of (mesh_Get P J False s h)"

lemma mesh_Get_files:
  "mroot s' = mroot s \<Longrightarrow> map_of (mfiles s') (object_path (mroot s) h) = map_of (mfiles s) (object_path (mroot s) h) \<Longrightarrow>
     mesh_Get P J rd s' h = mesh_Get P J rd s h"
  by (simp add: mesh_Get_def)

lemma mesh_Get_same: "mroot s' = mroot s \<Longrightarrow> mfiles s' = mfiles s \<Longrightarrow> mesh_Get P J rd s' h = mesh_Get P J rd s h"
  by (simp add: mesh_Get_def)

lemma mesh_Get_written:
  assumes "object_json_ok J" "cacheable P J ob" "MarshalObject J ob = Some b"
    and "map_of (mfiles s) (object_path (mroot s) (HashString ob)) = Some b"
  shows "mesh_Get P J False s (HashString ob) = Inr ob"
proof -
  have ok: "object_Validate P ob = Inr ()" "json_object ob" using assms(2) by (simp_all add: cacheable_def)
  have "UnmarshalObject J b = Some ob" using assms(1) ok(2) assms(3) by (rule json_written)
  moreover have "validHash (HashString ob)" using ok(2) by (simp add: json_object_def)
  ultimately show ?thesis using assms(4) ok(1) by (simp add: mesh_Get_def)
qed

lemma mesh_Put_cases:
  assumes "mesh_Put_run P J tmp flt ob s = (states, s', res)"
  obtains (refused) e where "states = [mfiles s]" "s' = s" "res = Inl e"
      "object_Validate P ob \<noteq> Inr () \<or> MarshalObject J ob = None"
  | (failed) b e where "object_Validate P ob = Inr ()" "MarshalObject J ob = Some b" "res = Inl e" "s' = s\<lparr>mfiles := last states\<rparr>"
      "replace_file False flt (Join (mroot s) (str ''.object-'' @ tmp)) (object_path (mroot s) (HashString ob)) b (mfiles s) = (states, res)"
  | (written) b where "object_Validate P ob = Inr ()" "MarshalObject J ob = Some b" "res = Inr ()"
      "s' = s\<lparr>mfiles := last states, resourceIndex := AList.update (object_key ob) (HashString ob) (resourceIndex s)\<rparr>"
      "replace_file False flt (Join (mroot s) (str ''.object-'' @ tmp)) (object_path (mroot s) (HashString ob)) b (mfiles s) = (states, res)"
proof (cases "object_Validate P ob")
  case (Inl e)
  then have "states = [mfiles s]" "s' = s" "res = Inl e" using assms by (auto simp: mesh_Put_run_def)
  then show thesis using Inl by (intro refused) simp_all
next
  case (Inr u)
  then have v: "object_Validate P ob = Inr ()" by simp
  show thesis
  proof (cases "MarshalObject J ob")
    case None
    then have "states = [mfiles s]" "s' = s" "res = Inl ErrMeshMarshal" using assms v by (auto simp: mesh_Put_run_def)
    then show thesis using None by (intro refused) simp_all
  next
    case (Some b)
    obtain ss r where rf: "replace_file False flt (Join (mroot s) (str ''.object-'' @ tmp))
        (object_path (mroot s) (HashString ob)) b (mfiles s) = (ss, r)" by (metis surj_pair)
    show thesis
    proof (cases r)
      case (Inl e)
      then have "states = ss" "s' = s\<lparr>mfiles := last ss\<rparr>" "res = r" using assms v Some rf by (auto simp: mesh_Put_run_def)
      then show thesis using failed [OF v Some] Inl rf by simp
    next
      case (Inr u)
      then have "states = ss" "res = r"
        "s' = s\<lparr>mfiles := last ss, resourceIndex := AList.update (object_key ob) (HashString ob) (resourceIndex s)\<rparr>"
        using assms v Some rf by (auto simp: mesh_Put_run_def)
      then show thesis using written [OF v Some] Inr rf by simp
    qed
  qed
qed

lemma mesh_Put_mroot [simp]: "mroot (fst (mesh_Put P J tmp flt ob s)) = mroot s"
proof -
  obtain states s' res where r: "mesh_Put_run P J tmp flt ob s = (states, s', res)" by (metis prod_cases3)
  from r show ?thesis by (cases rule: mesh_Put_cases) (simp_all add: mesh_Put_def r)
qed

lemma mesh_Put_cacheable:
  assumes "cacheable P J ob"
  shows "snd (mesh_Put P J tmp TmpOk ob s) = Inr ()"
proof -
  obtain states s' res where r: "mesh_Put_run P J tmp TmpOk ob s = (states, s', res)" by (metis prod_cases3)
  from r show ?thesis
    using assms by (cases rule: mesh_Put_cases) (auto simp: mesh_Put_def r cacheable_def dest: replace_file_ok)
qed

lemma mesh_Get_Put:
  assumes "object_json_ok J" "cacheable P J ob" "snd (mesh_Put P J tmp flt ob s) = Inr ()"
  shows "mesh_Get P J False (fst (mesh_Put P J tmp flt ob s)) h =
    (if h = HashString ob then Inr ob else mesh_Get P J False s h)"
proof -
  obtain states s' res where r: "mesh_Put_run P J tmp flt ob s = (states, s', res)" by (metis prod_cases3)
  then have s': "fst (mesh_Put P J tmp flt ob s) = s'" and res: "res = Inr ()" using assms(3) by (simp_all add: mesh_Put_def)
  from r show ?thesis
  proof (cases rule: mesh_Put_cases)
    case (written b)
    have f: "map_of (mfiles s') (object_path (mroot s) h') =
        (if h' = HashString ob then Some b else map_of (mfiles s) (object_path (mroot s) h'))" if "validHash h'" for h'
      using replace_file_last [OF written(5) validHash_not_tmp [OF that, symmetric]] written(3,4)
      by (auto dest: object_path_inj)
    have "mesh_Get P J False s' (HashString ob) = Inr ob"
      using assms(1,2) written(2,4) f [of "HashString ob"]
      by (intro mesh_Get_written) (auto simp: cacheable_def json_object_def)
    moreover have "mesh_Get P J False s' h = mesh_Get P J False s h" if "h \<noteq> HashString ob"
    proof (cases "validHash h")
      case True
      then show ?thesis using f [of h] that written(4) by (intro mesh_Get_files) auto
    qed (simp add: mesh_Get_def)
    ultimately show ?thesis by (simp add: s')
  qed (use res in auto)
qed

lemma mesh_Get_Put_failed:
  assumes "snd (mesh_Put P J tmp flt ob s) = Inl e"
  shows "mesh_Get P J rd (fst (mesh_Put P J tmp flt ob s)) h = mesh_Get P J rd s h"
    "resourceIndex (fst (mesh_Put P J tmp flt ob s)) = resourceIndex s"
proof -
  obtain states s' res where r: "mesh_Put_run P J tmp flt ob s = (states, s', res)" by (metis prod_cases3)
  then have s': "fst (mesh_Put P J tmp flt ob s) = s'" and res: "res = Inl e" using assms by (simp_all add: mesh_Put_def)
  have "resourceIndex s' = resourceIndex s \<and> mesh_Get P J rd s' h = mesh_Get P J rd s h"
    using r
  proof (cases rule: mesh_Put_cases)
    case (failed b e)
    have "mesh_Get P J rd s' h = mesh_Get P J rd s h"
    proof (cases "validHash h")
      case True
      then show ?thesis
        using replace_file_last [OF failed(5) validHash_not_tmp [OF True, symmetric]] failed(3,4)
        by (intro mesh_Get_files) auto
    qed (simp add: mesh_Get_def)
    then show ?thesis using failed by simp
  qed (use res in auto)
  then show "mesh_Get P J rd (fst (mesh_Put P J tmp flt ob s)) h = mesh_Get P J rd s h"
    "resourceIndex (fst (mesh_Put P J tmp flt ob s)) = resourceIndex s"
    by (simp_all add: s')
qed

section \<open>The interface of the cache\<close>

text \<open>
  Objects are read by their hash, and by resource through an index from resource key to hash. \<open>ok\<close> are
  the objects that can be written.
\<close>

locale object_cache =
  fixes inv :: "'s \<Rightarrow> bool"
    and get :: "'s \<Rightarrow> gostring \<Rightarrow> 'o option"
    and idx :: "'s \<Rightarrow> gostring \<Rightarrow> gostring option"
    and fnd :: "'s \<Rightarrow> gostring \<Rightarrow> 'o option"
    and put :: "'o \<Rightarrow> 's \<Rightarrow> 's"
    and hash :: "'o \<Rightarrow> gostring"
    and key :: "'o \<Rightarrow> gostring"
    and ok :: "'o \<Rightarrow> bool"
  assumes inv_put: "inv s \<Longrightarrow> ok a \<Longrightarrow> inv (put a s)"
    and get_put: "inv s \<Longrightarrow> ok a \<Longrightarrow> get (put a s) h = (if h = hash a then Some a else get s h)"
    and idx_put: "inv s \<Longrightarrow> ok a \<Longrightarrow> idx (put a s) k = (if k = key a then Some (hash a) else idx s k)"
    and fnd_idx: "inv s \<Longrightarrow> fnd s k = (case idx s k of None \<Rightarrow> None | Some h \<Rightarrow> get s h)"
    and idx_get: "inv s \<Longrightarrow> idx s k = Some h \<Longrightarrow> get s h \<noteq> None"
begin

lemma indexed_found: "inv s \<Longrightarrow> idx s k \<noteq> None \<Longrightarrow> fnd s k \<noteq> None"
  using idx_get by (auto simp: fnd_idx)

lemma fnd_put: "inv s \<Longrightarrow> ok a \<Longrightarrow> fnd (put a s) (key a) = Some a"
  by (simp add: fnd_idx inv_put idx_put get_put)

lemma fnd_put_other:
  "inv s \<Longrightarrow> ok a \<Longrightarrow> k \<noteq> key a \<Longrightarrow> fnd (put a s) k = (if idx s k = Some (hash a) then Some a else fnd s k)"
  by (auto simp: fnd_idx inv_put idx_put get_put split: option.splits)

text \<open>Every resource is found as itself.\<close>

definition matching :: "'s \<Rightarrow> bool" where
  "matching s \<longleftrightarrow> (\<forall>k a. fnd s k = Some a \<longrightarrow> key a = k)"

lemma matching_put:
  assumes "inv s" "ok a" "matching s" "\<And>k. idx s k = Some (hash a) \<Longrightarrow> k = key a"
  shows "matching (put a s)"
  unfolding matching_def
proof (intro allI impI)
  fix k b assume f: "fnd (put a s) k = Some b"
  show "key b = k"
  proof (cases "k = key a")
    case True
    then show ?thesis using f fnd_put [OF assms(1,2)] by simp
  next
    case False
    then have "fnd s k = Some b" using f fnd_put_other [OF assms(1,2) False] assms(4) [of k] by (auto split: if_splits)
    then show ?thesis using assms(3) by (simp add: matching_def)
  qed
qed

lemma puts_inv: "inv s \<Longrightarrow> list_all ok os \<Longrightarrow> inv (foldl (\<lambda>s a. put a s) s os)"
  by (induction os arbitrary: s) (auto intro: inv_put)

lemma puts_get:
  "inv s \<Longrightarrow> list_all ok os \<Longrightarrow>
     get (foldl (\<lambda>s a. put a s) s os) h = (case find (\<lambda>a. hash a = h) (rev os) of Some a \<Rightarrow> Some a | None \<Rightarrow> get s h)"
proof (induction os rule: rev_induct)
  case Nil
  then show ?case by simp
next
  case (snoc a os)
  then have "inv (foldl (\<lambda>s a. put a s) s os)" "ok a" by (simp_all add: puts_inv)
  with snoc show ?case by (auto simp: get_put)
qed

end

definition mesh_inv :: "prims \<Rightarrow> object_json \<Rightarrow> ObjectStore \<Rightarrow> bool" where
  "mesh_inv P J s \<longleftrightarrow>
     object_json_ok J \<and> (\<forall>k h. map_of (resourceIndex s) k = Some h \<longrightarrow> look P J s h \<noteq> None)"

definition found :: "prims \<Rightarrow> object_json \<Rightarrow> ObjectStore \<Rightarrow> gostring \<Rightarrow> CacheObject option" where
  "found P J s k = (case map_of (resourceIndex s) k of None \<Rightarrow> None | Some h \<Rightarrow> look P J s h)"

lemma look_Some: "look P J s h = Some ob \<longleftrightarrow> mesh_Get P J False s h = Inr ob"
  by (cases "mesh_Get P J False s h") (simp_all add: look_def)

lemma validHash_nonempty: "validHash h \<Longrightarrow> h \<noteq> []"
  by (auto simp: validHash_def)

lemma Find_found:
  assumes "mesh_inv P J s" "typ \<noteq> []"
  shows "Find P J order False s source resourceID typ =
    (case found P J s (resourceKey source resourceID typ) of None \<Rightarrow> Inl ErrNotExist | Some ob \<Rightarrow> Inr ob)"
proof (cases "map_of (resourceIndex s) (resourceKey source resourceID typ)")
  case None
  then show ?thesis using assms(2) by (simp add: Find_def found_def)
next
  case (Some h)
  then obtain ob where g: "mesh_Get P J False s h = Inr ob" using assms(1) unfolding mesh_inv_def by (metis look_Some not_None_eq)
  then have "h \<noteq> []" using mesh_Get_Inr(3) validHash_nonempty by blast
  then show ?thesis using Some g assms(2) by (simp add: Find_def found_def look_def)
qed

lemma mesh_Put_index:
  "snd (mesh_Put P J tmp flt ob s) = Inr () \<Longrightarrow>
     resourceIndex (fst (mesh_Put P J tmp flt ob s)) = AList.update (object_key ob) (HashString ob) (resourceIndex s)"
proof -
  assume ok: "snd (mesh_Put P J tmp flt ob s) = Inr ()"
  obtain states s' res where r: "mesh_Put_run P J tmp flt ob s = (states, s', res)" by (metis prod_cases3)
  from r show ?thesis using ok by (cases rule: mesh_Put_cases) (auto simp: mesh_Put_def r)
qed

lemma mesh_Put_look:
  assumes "object_json_ok J" "cacheable P J ob"
  shows "look P J (fst (mesh_Put P J tmp TmpOk ob s)) h = (if h = HashString ob then Some ob else look P J s h)"
  using mesh_Get_Put [OF assms mesh_Put_cacheable [OF assms(2)], of tmp s h] by (simp add: look_def)

lemma mesh_Put_inv:
  assumes "mesh_inv P J s" "cacheable P J ob"
  shows "mesh_inv P J (fst (mesh_Put P J tmp flt ob s))"
proof (cases "snd (mesh_Put P J tmp flt ob s)")
  case (Inl e)
  then show ?thesis using assms mesh_Get_Put_failed [OF Inl] by (simp add: mesh_inv_def look_def)
next
  case (Inr u)
  then have ok: "snd (mesh_Put P J tmp flt ob s) = Inr ()" by simp
  have "look P J (fst (mesh_Put P J tmp flt ob s)) h = (if h = HashString ob then Some ob else look P J s h)" for h
    using assms mesh_Get_Put [OF _ assms(2) ok, of h] by (simp add: look_def mesh_inv_def)
  then show ?thesis using assms by (simp add: mesh_inv_def mesh_Put_index [OF ok] update_conv)
qed

interpretation mcache: object_cache "mesh_inv P J" "look P J" "\<lambda>s. map_of (resourceIndex s)" "found P J"
  "\<lambda>ob s. fst (mesh_Put P J tmp TmpOk ob s)" HashString object_key "cacheable P J" for P J tmp
proof unfold_locales
  fix s :: ObjectStore and ob k h
  assume inv: "mesh_inv P J s"
  then have j: "object_json_ok J" by (simp add: mesh_inv_def)
  show "found P J s k = (case map_of (resourceIndex s) k of None \<Rightarrow> None | Some h \<Rightarrow> look P J s h)"
    by (simp add: found_def)
  show "look P J s h \<noteq> None" if "map_of (resourceIndex s) k = Some h"
    using inv that by (auto simp: mesh_inv_def)
  assume ok: "cacheable P J ob"
  show "mesh_inv P J (fst (mesh_Put P J tmp TmpOk ob s))" using inv ok by (rule mesh_Put_inv)
  show "look P J (fst (mesh_Put P J tmp TmpOk ob s)) h = (if h = HashString ob then Some ob else look P J s h)"
    using j ok by (rule mesh_Put_look)
  show "map_of (resourceIndex (fst (mesh_Put P J tmp TmpOk ob s))) k =
      (if k = object_key ob then Some (HashString ob) else map_of (resourceIndex s) k)"
    by (simp add: mesh_Put_index [OF mesh_Put_cacheable [OF ok]] update_conv)
qed

section \<open>Opening a directory\<close>

lemma mesh_Get_index [simp]: "mesh_Get P J rd (s\<lparr>resourceIndex := i\<rparr>) h = mesh_Get P J rd s h"
  by (simp add: mesh_Get_def)

lemma index_entry_frame [simp]:
  "mfiles (index_entry P J rd s name) = mfiles s" "mroot (index_entry P J rd s name) = mroot s"
  "mesh_Get P J rd' (index_entry P J rd s name) h = mesh_Get P J rd' s h"
  by (simp_all add: index_entry_def Let_def split: sum.splits)

lemma index_entries_frame [simp]:
  "mfiles (foldl (index_entry P J rd) s names) = mfiles s" "mroot (foldl (index_entry P J rd) s names) = mroot s"
  "mesh_Get P J rd' (foldl (index_entry P J rd) s names) h = mesh_Get P J rd' s h"
  by (induction names arbitrary: s) auto

lemma json_name: "Ext (h @ str ''.json'') = str ''.json''" "TrimSuffix (h @ str ''.json'') (str ''.json'') = h"
  by (simp_all add: Ext_def TrimSuffix_def str_def)

lemma index_entry_json:
  assumes "mesh_Get P J False s h = Inr ob"
  shows "resourceIndex (index_entry P J (\<lambda>_. False) s (h @ str ''.json'')) =
    AList.update (object_key ob) h (resourceIndex s)"
  using assms by (simp add: index_entry_def json_name)

text \<open>
  A name is indexed only for the object it holds, and the entries of other resources stay.
\<close>

lemma TrimSuffix_json: "Ext n = str ''.json'' \<Longrightarrow> TrimSuffix n (str ''.json'') @ str ''.json'' = n"
proof -
  assume e: "Ext n = str ''.json''"
  then have "46 \<in> set n" and r: "rev (takeWhile (\<lambda>c. c \<noteq> 46) (rev n)) = str ''json''"
    by (auto simp: Ext_def str_def split: if_splits)
  then have "46 \<in> set (rev n)" by simp
  then obtain y where "dropWhile (\<lambda>c. c \<noteq> 46) (rev n) = 46 # y"
    by (metis (mono_tags, lifting) dropWhile_eq_Nil_conv hd_dropWhile list.exhaust_sel)
  moreover have "rev n = takeWhile (\<lambda>c. c \<noteq> 46) (rev n) @ dropWhile (\<lambda>c. c \<noteq> 46) (rev n)" by simp
  moreover have "takeWhile (\<lambda>c. c \<noteq> 46) (rev n) = rev (str ''json'')" using r by (metis rev_rev_ident)
  ultimately have "rev n = rev (str ''json'') @ 46 # y" by simp
  then have "n = rev (rev (str ''json'') @ 46 # y)" by (metis rev_rev_ident)
  then have n: "n = rev y @ str ''.json''" by (simp add: str_def)
  show ?thesis unfolding n by (simp add: json_name)
qed

lemma index_entry_cases:
  obtains (kept) "index_entry P J (\<lambda>_. False) s n = s" "\<And>h ob. mesh_Get P J False s h = Inr ob \<Longrightarrow> n \<noteq> h @ str ''.json''"
  | (indexed) h ob where "mesh_Get P J False s h = Inr ob" "n = h @ str ''.json''"
      "resourceIndex (index_entry P J (\<lambda>_. False) s n) = AList.update (object_key ob) h (resourceIndex s)"
proof (cases "\<exists>h ob. mesh_Get P J False s h = Inr ob \<and> n = h @ str ''.json''")
  case True
  then show thesis using indexed index_entry_json by blast
next
  case False
  have "index_entry P J (\<lambda>_. False) s n = s"
  proof (cases "Ext n = str ''.json''")
    case True
    then have "\<nexists>ob. mesh_Get P J False s (TrimSuffix n (str ''.json'')) = Inr ob"
      using False TrimSuffix_json by metis
    then show ?thesis by (auto simp: index_entry_def Let_def split: sum.splits)
  qed (simp add: index_entry_def)
  then show thesis using kept False by blast
qed

text \<open>After indexing a sorted list of names the entry of a resource is its object with the greatest name.\<close>

definition indexed_by :: "prims \<Rightarrow> object_json \<Rightarrow> ObjectStore \<Rightarrow> gostring list \<Rightarrow> (gostring \<times> gostring) list \<Rightarrow> bool" where
  "indexed_by P J s names i \<longleftrightarrow>
     (\<forall>k h. map_of i k = Some h \<longrightarrow> (\<exists>ob. mesh_Get P J False s h = Inr ob \<and> object_key ob = k \<and> h @ str ''.json'' \<in> set names)) \<and>
     (\<forall>h ob. mesh_Get P J False s h = Inr ob \<longrightarrow> h @ str ''.json'' \<in> set names \<longrightarrow>
        (\<exists>h'. map_of i (object_key ob) = Some h' \<and> h @ str ''.json'' \<le> h' @ str ''.json''))"

lemma index_entries:
  "resourceIndex s = [] \<Longrightarrow> sorted names \<Longrightarrow>
     indexed_by P J s names (resourceIndex (foldl (index_entry P J (\<lambda>_. False)) s names))"
proof (induction names rule: rev_induct)
  case Nil
  then show ?case by (simp add: indexed_by_def)
next
  case (snoc n names)
  let ?s = "foldl (index_entry P J (\<lambda>_. False)) s names"
  have IH: "indexed_by P J s names (resourceIndex ?s)" and le: "\<forall>m \<in> set names. m \<le> n"
    using snoc by (simp_all add: sorted_append)
  show ?case
  proof (cases rule: index_entry_cases [of P J ?s n])
    case kept
    then show ?thesis using IH by (fastforce simp: indexed_by_def)
  next
    case (indexed h ob)
    then have g: "mesh_Get P J False s h = Inr ob" by simp
    have r: "resourceIndex (foldl (index_entry P J (\<lambda>_. False)) s (names @ [n])) =
        AList.update (object_key ob) h (resourceIndex ?s)" using indexed(3) by simp
    show ?thesis
      unfolding r indexed_by_def update_conv
    proof (intro conjI allI impI)
      fix k h' assume "((map_of (resourceIndex ?s)) (object_key ob \<mapsto> h)) k = Some h'"
      then show "\<exists>ob. mesh_Get P J False s h' = Inr ob \<and> object_key ob = k \<and> h' @ str ''.json'' \<in> set (names @ [n])"
        using IH g indexed(2) unfolding indexed_by_def by (fastforce split: if_splits)
    next
      fix h' ob' assume g': "mesh_Get P J False s h' = Inr ob'" and m: "h' @ str ''.json'' \<in> set (names @ [n])"
      show "\<exists>h''. ((map_of (resourceIndex ?s)) (object_key ob \<mapsto> h)) (object_key ob') = Some h'' \<and> h' @ str ''.json'' \<le> h'' @ str ''.json''"
      proof (cases "object_key ob' = object_key ob")
        case True
        have "h' @ str ''.json'' \<le> n" using m le by auto
        then show ?thesis using True indexed(2) by simp
      next
        case False
        then have "h' \<noteq> h" using g g' by auto
        then have "h' @ str ''.json'' \<in> set names" using m indexed(2) by simp
        then show ?thesis using IH g' False unfolding indexed_by_def by simp
      qed
    qed
  qed
qed

lemma validHash_no_slash: "validHash h \<Longrightarrow> slash \<notin> set h"
proof -
  have "slash \<notin> set h" if "DecodeString h = Some b" for h b
    using that
    by (induction h arbitrary: b rule: DecodeString.induct)
      (auto simp: slash_def from_hex_def Let_def split: option.splits if_splits)
  then show "validHash h \<Longrightarrow> slash \<notin> set h" by (auto simp: validHash_def split: if_splits)
qed

lemma ReadDir_object:
  assumes "mesh_Get P J rd s h = Inr ob"
  shows "h @ str ''.json'' \<in> set (ReadDir (mroot s) (mfiles s))"
proof -
  have v: "validHash h" using assms by (rule mesh_Get_Inr)
  obtain b where "map_of (mfiles s) (object_path (mroot s) h) = Some b"
    using assms by (auto simp: mesh_Get_def split: if_splits option.splits)
  then have "object_path (mroot s) h \<in> set (map fst (mfiles s))" by (force dest: map_of_SomeD)
  moreover have "slash \<notin> set (h @ str ''.json'')" using validHash_no_slash [OF v] by (simp add: slash_def str_def)
  ultimately show ?thesis by (force simp: ReadDir_def object_path_def Join_def)
qed

lemma append_le_append: "length a = length b \<Longrightarrow> a @ c \<le> b @ c \<Longrightarrow> a \<le> (b :: gostring)"
  by (induction a b rule: list_induct2) auto

text \<open>A sample JSON codec: fields with their length in unary, for objects fetched at the epoch.\<close>

definition demo_field :: "bytes \<Rightarrow> bytes" where
  "demo_field b = replicate (length b) 1 @ 0 # b"

definition demo_unfield :: "bytes \<Rightarrow> bytes \<times> bytes" where
  "demo_unfield b = (let n = length (takeWhile (\<lambda>x. x = 1) b); r = drop (Suc n) b in (take n r, drop n r))"

lemma demo_unfield_field: "demo_unfield (demo_field b @ r) = (b, r)"
  by (simp add: demo_field_def demo_unfield_def Let_def takeWhile_append)

lemma demo_unfield_last: "demo_unfield (demo_field b) = (b, [])"
  using demo_unfield_field [of b "[]"] by simp

definition demo_object_json :: object_json where
  "demo_object_json =
     \<lparr>MarshalObject = (\<lambda>ob. if ObjFetchedAt ob = 0 then
          Some (demo_field (ObjType ob) @ demo_field (ObjSource ob) @ demo_field (ObjResourceID ob) @ demo_field (ObjPayload ob) @
                demo_field (ObjHash ob) @ demo_field (ObjProvenance ob) @ []) else None),
      UnmarshalObject = (\<lambda>b.
        let (t, b1) = demo_unfield b; (sr, b2) = demo_unfield b1; (ri, b3) = demo_unfield b2; (pl, b4) = demo_unfield b3;
            (hs, b5) = demo_unfield b4; (pv, b6) = demo_unfield b5;
            ob = \<lparr>ObjType = t, ObjSource = sr, ObjResourceID = ri, ObjFetchedAt = 0, ObjPayload = pl, ObjHash = hs, ObjProvenance = pv\<rparr>
        in if json_object ob then Some ob else None)\<rparr>"

lemma demo_object_json_ok: "object_json_ok demo_object_json"
  by (auto simp: object_json_ok_def demo_object_json_def Let_def demo_unfield_field demo_unfield_last case_prod_unfold
      json_object_def split: if_splits)

definition demo_object :: "byte \<Rightarrow> byte \<Rightarrow> CacheObject" where
  "demo_object r p = NewObject demo_prims ThreadPageSnapshot [115] [r] 0 [p] OriginVerified"

lemma demo_object_cacheable: "unat r < 128 \<Longrightarrow> cacheable demo_prims demo_object_json (demo_object r p)"
  using demo_sizes_ok
  by (auto simp: cacheable_def demo_object_def NewObject_def object_Validate_def json_object_def demo_object_json_def
      sizes_ok_def ThreadPageSnapshot_def OriginVerified_def str_def intro!: ValidString_ascii)

definition demo_store :: ObjectStore where
  "demo_store = \<lparr>mroot = [100], resourceIndex = [], mfiles = []\<rparr>"

lemma demo_store_inv: "mesh_inv demo_prims demo_object_json demo_store"
  by (simp add: mesh_inv_def demo_store_def demo_object_json_ok)

section \<open>Properties of the object directory\<close>

text \<open>
  A cached object reads back. When \<^verbatim>\<open>Put\<close> reports success, the object is returned by its hash and by
  its resource, every other address reads as before, and another resource reads as before unless its
  index entry names the hash just written. When it reports an error, every address and the whole index
  read as before.
\<close>

theorem mesh_Put_contract:
  assumes "mesh_inv P J s" "cacheable P J ob" "mesh_Put P J tmp flt ob s = (s', res)"
  shows "mesh_inv P J s' \<and>
    (res = Inr () \<longrightarrow>
       mesh_Get P J False s' (HashString ob) = Inr ob \<and>
       Find P J ordr False s' (ObjSource ob) (ObjResourceID ob) (ObjType ob) = Inr ob \<and>
       (\<forall>h. h \<noteq> HashString ob \<longrightarrow> mesh_Get P J False s' h = mesh_Get P J False s h) \<and>
       (\<forall>k. k \<noteq> object_key ob \<longrightarrow> map_of (resourceIndex s) k \<noteq> Some (HashString ob) \<longrightarrow> found P J s' k = found P J s k)) \<and>
    (res \<noteq> Inr () \<longrightarrow> resourceIndex s' = resourceIndex s \<and> (\<forall>h. mesh_Get P J False s' h = mesh_Get P J False s h))"
proof -
  have inv: "mesh_inv P J s'" using mesh_Put_inv [OF assms(1,2), of tmp flt] assms(3) by simp
  have j: "object_json_ok J" using assms(1) by (simp add: mesh_inv_def)
  have ok: "mesh_Get P J False s' h = (if h = HashString ob then Inr ob else mesh_Get P J False s h)"
    "map_of (resourceIndex s') k = (if k = object_key ob then Some (HashString ob) else map_of (resourceIndex s) k)"
    if "res = Inr ()" for h k
    using mesh_Get_Put [OF j assms(2), of tmp flt s h] mesh_Put_index [of P J tmp flt ob s] assms(3) that
    by (simp_all add: update_conv)
  have ty: "ObjType ob \<noteq> []" using assms(2) by (simp add: cacheable_def object_Validate_iff)
  have "Find P J ordr False s' (ObjSource ob) (ObjResourceID ob) (ObjType ob) = Inr ob" if r: "res = Inr ()"
    using Find_found [OF inv ty, of ordr "ObjSource ob" "ObjResourceID ob"] ok [OF r]
    by (simp add: found_def object_key_def look_def)
  moreover have "found P J s' k = found P J s k"
    if "res = Inr ()" "k \<noteq> object_key ob" "map_of (resourceIndex s) k \<noteq> Some (HashString ob)" for k
    using ok [OF that(1)] that by (auto simp: found_def look_def split: option.splits)
  moreover have "resourceIndex s' = resourceIndex s \<and> mesh_Get P J False s' h = mesh_Get P J False s h" if ne: "res \<noteq> Inr ()" for h
  proof -
    obtain e where "res = Inl e" using ne by (cases res) auto
    then show ?thesis using mesh_Get_Put_failed [of P J tmp flt ob s e] assms(3) by simp
  qed
  ultimately show ?thesis using inv ok(1) by auto
qed

theorem mesh_Put_contract_witness:
  "Find demo_prims demo_object_json id False (fst (mesh_Put demo_prims demo_object_json [] TmpOk (demo_object 7 9) demo_store))
     [115] [7] ThreadPageSnapshot = Inr (demo_object 7 9)"
proof -
  have st: "cacheable demo_prims demo_object_json (demo_object 7 9)" by (rule demo_object_cacheable) simp
  obtain s' res where p: "mesh_Put demo_prims demo_object_json [] TmpOk (demo_object 7 9) demo_store = (s', res)" by (metis surj_pair)
  have "res = Inr ()" using mesh_Put_cacheable [OF st, of "[]" demo_store] p by simp
  moreover have "ObjSource (demo_object 7 9) = [115]" "ObjResourceID (demo_object 7 9) = [7]" "ObjType (demo_object 7 9) = ThreadPageSnapshot"
    by (simp_all add: demo_object_def NewObject_def)
  ultimately show ?thesis using mesh_Put_contract [OF demo_store_inv st p, of id] p by simp
qed

text \<open>
  No torn object: at every moment of a \<^verbatim>\<open>Put\<close>, whatever call fails, every address reads as before or,
  for the address being written, as the complete new object.
\<close>

theorem mesh_Put_crash_atomic:
  assumes "object_json_ok J" "cacheable P J ob" "mesh_Put_run P J tmp flt ob s = (states, s', res)" "d \<in> set states"
  shows "mesh_Get P J False (s\<lparr>mfiles := d\<rparr>) h = mesh_Get P J False s h \<or>
    h = HashString ob \<and> mesh_Get P J False (s\<lparr>mfiles := d\<rparr>) h = Inr ob"
proof (cases "validHash h")
  case False
  then show ?thesis by (simp add: mesh_Get_def)
next
  case True
  have key: "map_of d (object_path (mroot s) h) = map_of (mfiles s) (object_path (mroot s) h) \<or>
      h = HashString ob \<and> (\<exists>b. MarshalObject J ob = Some b \<and> map_of d (object_path (mroot s) h) = Some b)"
    using assms(3)
  proof (cases rule: mesh_Put_cases)
    case (failed b e)
    then show ?thesis
      using replace_file_states [OF failed(5) assms(4) validHash_not_tmp [OF True, symmetric]] by auto
  next
    case (written b)
    then show ?thesis
      using replace_file_states [OF written(5) assms(4) validHash_not_tmp [OF True, symmetric]] by (auto dest: object_path_inj)
  qed (use assms(4) in simp)
  then show ?thesis
  proof (elim disjE conjE exE)
    assume "map_of d (object_path (mroot s) h) = map_of (mfiles s) (object_path (mroot s) h)"
    then have "mesh_Get P J False (s\<lparr>mfiles := d\<rparr>) h = mesh_Get P J False s h" by (intro mesh_Get_files) simp_all
    then show ?thesis by simp
  next
    fix b assume h: "h = HashString ob" and b: "MarshalObject J ob = Some b" "map_of d (object_path (mroot s) h) = Some b"
    then have "mesh_Get P J False (s\<lparr>mfiles := d\<rparr>) (HashString ob) = Inr ob"
      by (intro mesh_Get_written [OF assms(1,2)]) simp_all
    then show ?thesis using h by simp
  qed
qed

theorem mesh_Put_crash_atomic_witness:
  "list_all (\<lambda>d. mesh_Get demo_prims demo_object_json False (demo_store\<lparr>mfiles := d\<rparr>) [1] = mesh_Get demo_prims demo_object_json False demo_store [1])
     (fst (mesh_Put_run demo_prims demo_object_json [] (TmpWrite 3) (demo_object 7 9) demo_store))"
  unfolding list_all_iff
proof
  fix d assume d: "d \<in> set (fst (mesh_Put_run demo_prims demo_object_json [] (TmpWrite 3) (demo_object 7 9) demo_store))"
  obtain states s' res where r: "mesh_Put_run demo_prims demo_object_json [] (TmpWrite 3) (demo_object 7 9) demo_store = (states, s', res)"
    by (metis prod_cases3)
  have st: "cacheable demo_prims demo_object_json (demo_object 7 9)" by (rule demo_object_cacheable) simp
  have "HashString (demo_object 7 9) \<noteq> [1]" using st by (auto simp: cacheable_def json_object_def HashString_def dest: arg_cong [of _ _ length])
  then show "mesh_Get demo_prims demo_object_json False (demo_store\<lparr>mfiles := d\<rparr>) [1] = mesh_Get demo_prims demo_object_json False demo_store [1]"
    using mesh_Put_crash_atomic [OF demo_object_json_ok st r, of d "[1]"] d r by auto
qed

lemma OpenObjectStore_Inr:
  assumes "OpenObjectStore P J True True (\<lambda>_. False) root disk = Inr s"
  shows "mroot s = root" "mfiles s = disk" "indexed_by P J s (ReadDir root disk) (resourceIndex s)"
proof -
  let ?s = "\<lparr>mroot = root, resourceIndex = [], mfiles = disk\<rparr>"
  have s: "s = foldl (index_entry P J (\<lambda>_. False)) ?s (ReadDir root disk)"
    using assms by (simp add: OpenObjectStore_def split: if_splits)
  then show "mroot s = root" "mfiles s = disk" by simp_all
  have "sorted (ReadDir root disk)" by (simp add: ReadDir_def)
  then have "indexed_by P J ?s (ReadDir root disk) (resourceIndex s)" unfolding s by (intro index_entries) simp_all
  moreover have "mesh_Get P J False s h = mesh_Get P J False ?s h" for h unfolding s by simp
  ultimately show "indexed_by P J s (ReadDir root disk) (resourceIndex s)" by (simp add: indexed_by_def)
qed

lemma reopened_index:
  assumes "object_json_ok J" "OpenObjectStore P J True True (\<lambda>_. False) root disk = Inr s"
  shows "mesh_inv P J s \<and> mfiles s = disk \<and>
    (\<forall>k ob. found P J s k = Some ob \<longrightarrow> object_key ob = k) \<and>
    (\<forall>h ob. mesh_Get P J False s h = Inr ob \<longrightarrow>
       (\<exists>ob'. found P J s (object_key ob) = Some ob' \<and> h \<le> HashString ob'))"
proof -
  note o = OpenObjectStore_Inr [OF assms(2)]
  have ent: "\<exists>ob. mesh_Get P J False s h = Inr ob \<and> object_key ob = k" if "map_of (resourceIndex s) k = Some h" for k h
    using o(3) that unfolding indexed_by_def by blast
  then have inv: "mesh_inv P J s" using assms(1) unfolding mesh_inv_def look_def by fastforce
  have "object_key ob = k" if "found P J s k = Some ob" for k ob
    using that ent by (fastforce simp: found_def look_Some split: option.splits)
  moreover have "\<exists>ob'. found P J s (object_key ob) = Some ob' \<and> h \<le> HashString ob'" if g: "mesh_Get P J False s h = Inr ob" for h ob
  proof -
    have "h @ str ''.json'' \<in> set (ReadDir root disk)" using ReadDir_object [OF g] o(1,2) by simp
    then obtain h' where i: "map_of (resourceIndex s) (object_key ob) = Some h'" and le: "h @ str ''.json'' \<le> h' @ str ''.json''"
      using o(3) g unfolding indexed_by_def by blast
    obtain ob' where g': "mesh_Get P J False s h' = Inr ob'" using ent [OF i] by blast
    have "length h = length h'" using mesh_Get_Inr(3) [OF g] mesh_Get_Inr(3) [OF g'] by (simp add: validHash_def split: if_splits)
    then have "h \<le> h'" using le by (rule append_le_append)
    moreover have "found P J s (object_key ob) = Some ob'" using i g' by (simp add: found_def look_Some)
    ultimately show ?thesis using mesh_Get_Inr(2) [OF g'] by auto
  qed
  ultimately show ?thesis using inv o(2) by blast
qed

text \<open>
  Opening an object directory rebuilds the index: every object that reads back is found by its
  resource, every resource is found as itself, and among the objects of one resource the index takes the
  one with the greatest hash.
\<close>

theorem reopened_store:
  assumes "object_json_ok J" "OpenObjectStore P J True True (\<lambda>_. False) root disk = Inr s"
  shows "mesh_inv P J s \<and> mfiles s = disk \<and>
    (\<forall>k ob. found P J s k = Some ob \<longrightarrow> object_key ob = k) \<and>
    (\<forall>h ob. mesh_Get P J False s h = Inr ob \<longrightarrow>
       (\<exists>ob'. found P J s (object_key ob) = Some ob' \<and> h \<le> HashString ob'))"
  using assms by (rule reopened_index)

definition demo_files :: "byte \<Rightarrow> fs" where
  "demo_files p = mfiles (fst (mesh_Put demo_prims demo_object_json [] TmpOk (demo_object 7 p) demo_store))"

theorem reopened_store_witness:
  "\<exists>s ob. OpenObjectStore demo_prims demo_object_json True True (\<lambda>_. False) [100] (demo_files 9) = Inr s \<and>
     found demo_prims demo_object_json s (object_key (demo_object 7 9)) = Some ob"
proof -
  let ?P = "demo_prims" and ?J = "demo_object_json"
  let ?s1 = "fst (mesh_Put ?P ?J [] TmpOk (demo_object 7 9) demo_store)"
  obtain s where s: "OpenObjectStore ?P ?J True True (\<lambda>_. False) [100] (demo_files 9) = Inr s"
    by (simp add: OpenObjectStore_def)
  have st: "cacheable ?P ?J (demo_object 7 9)" by (rule demo_object_cacheable) simp
  have "look ?P ?J ?s1 (HashString (demo_object 7 9)) = Some (demo_object 7 9)"
    using mesh_Put_look [OF demo_object_json_ok st] by simp
  moreover have "mroot s = mroot ?s1" "mfiles s = mfiles ?s1"
    using OpenObjectStore_Inr(1,2) [OF s] by (simp_all add: demo_files_def demo_store_def)
  ultimately have "mesh_Get ?P ?J False s (HashString (demo_object 7 9)) = Inr (demo_object 7 9)"
    using mesh_Get_same by (metis look_Some)
  then show ?thesis using reopened_store [OF demo_object_json_ok s] s by blast
qed

text \<open>
  A restart may lose the newest snapshot. When a resource is cached twice with different contents and the
  newer one has the smaller hash, \<^verbatim>\<open>Find\<close> returns the newer one until the store is opened again, and an
  object with another hash from then on.
\<close>

theorem reopen_serves_older:
  assumes "mesh_inv P J s" "cacheable P J old" "cacheable P J new"
    and "object_key old = object_key new" "HashString new < HashString old"
    and "s1 = fst (mesh_Put P J tmp TmpOk old s)" "s2 = fst (mesh_Put P J tmp' TmpOk new s1)"
    and "OpenObjectStore P J True True (\<lambda>_. False) (mroot s2) (mfiles s2) = Inr s3"
  shows "found P J s2 (object_key new) = Some new \<and>
    (\<exists>ob. found P J s3 (object_key new) = Some ob \<and> HashString ob \<noteq> HashString new)"
proof -
  have j: "object_json_ok J" using assms(1) by (simp add: mesh_inv_def)
  have i1: "mesh_inv P J s1" unfolding assms(6) using assms(1,2) by (rule mcache.inv_put)
  have f2: "found P J s2 (object_key new) = Some new" unfolding assms(7) using i1 assms(3) by (rule mcache.fnd_put)
  have "look P J s2 (HashString old) = Some old"
    unfolding assms(6,7) using assms(5) mesh_Put_look [OF j assms(2)] mesh_Put_look [OF j assms(3)] by auto
  then have "mesh_Get P J False s3 (HashString old) = Inr old"
    using mesh_Get_same [OF OpenObjectStore_Inr(1,2) [OF assms(8)]] by (simp add: look_Some)
  then have "\<exists>ob'. found P J s3 (object_key old) = Some ob' \<and> HashString old \<le> HashString ob'"
    using reopened_index [OF j assms(8)] by blast
  then show ?thesis using f2 assms(4,5) by auto
qed

lemma HashString_demo: "HashString (demo_object r p) = EncodeToString (to_array 32 [p])"
  by (simp add: HashString_def demo_object_def NewObject_def demo_prims_def)

theorem reopen_serves_older_witness:
  "\<exists>s2 s3 ob. found demo_prims demo_object_json s2 (object_key (demo_object 7 1)) = Some (demo_object 7 1) \<and>
     found demo_prims demo_object_json s3 (object_key (demo_object 7 1)) = Some ob \<and>
     HashString ob \<noteq> HashString (demo_object 7 1)"
proof -
  let ?P = "demo_prims" and ?J = "demo_object_json"
  define s2 where "s2 = fst (mesh_Put ?P ?J [] TmpOk (demo_object 7 1) (fst (mesh_Put ?P ?J [] TmpOk (demo_object 7 9) demo_store)))"
  have st: "cacheable ?P ?J (demo_object 7 9)" "cacheable ?P ?J (demo_object 7 1)" by (rule demo_object_cacheable, simp)+
  have k: "object_key (demo_object 7 9) = object_key (demo_object 7 1)" by (simp add: object_key_def demo_object_def NewObject_def)
  have l: "HashString (demo_object 7 1) < HashString (demo_object 7 9)"
    by (simp add: HashString_demo to_array_def hex_digit_def)
  have "mroot s2 \<noteq> []" by (simp add: s2_def demo_store_def)
  then obtain s3 where "OpenObjectStore ?P ?J True True (\<lambda>_. False) (mroot s2) (mfiles s2) = Inr s3"
    by (simp add: OpenObjectStore_def)
  from reopen_serves_older [OF demo_store_inv st k l refl s2_def this] show ?thesis by blast
qed

text \<open>
  One payload, two resources. The file of an object is named by its payload's hash alone, so caching
  the same payload for a second resource replaces the first object: \<^verbatim>\<open>Find\<close> for the first resource then
  returns the second one's object, which names another resource.
\<close>

theorem shared_payload_misfiled:
  assumes "mesh_inv P J s" "cacheable P J a" "cacheable P J b" "ObjPayload a = ObjPayload b" "object_key a \<noteq> object_key b"
    and "s1 = fst (mesh_Put P J tmp TmpOk a s)" "s2 = fst (mesh_Put P J tmp' TmpOk b s1)"
  shows "Find P J ordr False s1 (ObjSource a) (ObjResourceID a) (ObjType a) = Inr a \<and>
    Find P J ordr False s2 (ObjSource a) (ObjResourceID a) (ObjType a) = Inr b"
proof -
  have i1: "mesh_inv P J s1" unfolding assms(6) using assms(1,2) by (rule mcache.inv_put)
  have i2: "mesh_inv P J s2" unfolding assms(7) using i1 assms(3) by (rule mcache.inv_put)
  have ty: "ObjType a \<noteq> []" using assms(2) by (simp add: cacheable_def object_Validate_iff)
  have h: "HashString a = HashString b"
    using assms(2-4) by (auto simp: cacheable_def object_Validate_iff HashString_def)
  have f1: "found P J s1 (object_key a) = Some a" unfolding assms(6) using assms(1,2) by (rule mcache.fnd_put)
  have "map_of (resourceIndex s1) (object_key a) = Some (HashString b)"
    unfolding assms(6) using mcache.idx_put [OF assms(1,2), of tmp "object_key a"] h by simp
  then have "found P J s2 (object_key a) = Some b"
    unfolding assms(7) using mcache.fnd_put_other [OF i1 assms(3,5), of tmp'] by simp
  then show ?thesis using f1 Find_found [OF i1 ty] Find_found [OF i2 ty] by (simp add: object_key_def)
qed

theorem shared_payload_misfiled_witness:
  "\<exists>s2. Find demo_prims demo_object_json id False s2 [115] [7] ThreadPageSnapshot = Inr (demo_object 8 9)"
proof -
  let ?P = "demo_prims" and ?J = "demo_object_json"
  have st: "cacheable ?P ?J (demo_object 7 9)" "cacheable ?P ?J (demo_object 8 9)" by (rule demo_object_cacheable, simp)+
  have "ObjPayload (demo_object 7 9) = ObjPayload (demo_object 8 9)" "object_key (demo_object 7 9) \<noteq> object_key (demo_object 8 9)"
    by (simp_all add: object_key_def resourceKey_def demo_object_def NewObject_def)
  from shared_payload_misfiled [OF demo_store_inv st this refl refl, where ordr = id] show ?thesis
    by (auto simp: demo_object_def NewObject_def)
qed

section \<open>Resource keys\<close>

lemma takeWhile_sep: "sep \<notin> set a \<Longrightarrow> takeWhile (\<lambda>c. c \<noteq> sep) (a @ sep # b) = a"
  "sep \<notin> set a \<Longrightarrow> dropWhile (\<lambda>c. c \<noteq> sep) (a @ sep # b) = sep # b"
  by (auto simp: takeWhile_append dropWhile_append)

lemma SplitN_resourceKey:
  "0 \<notin> set source \<Longrightarrow> 0 \<notin> set rid \<Longrightarrow> SplitN 0 3 (resourceKey source rid typ) = [source, rid, typ]"
  by (simp add: resourceKey_def numeral_3_eq_3 takeWhile_sep)

text \<open>
  With the wildcard type, \<^verbatim>\<open>Find\<close> returns an object whose index entry carries the requested source and
  resource, whatever order the map is visited in, and reports absence exactly when there is none.
\<close>

definition plain_keys :: "ObjectStore \<Rightarrow> bool" where
  "plain_keys s \<longleftrightarrow>
     (\<forall>k \<in> fst ` set (resourceIndex s). \<exists>sr ri ty. k = resourceKey sr ri ty \<and> 0 \<notin> set sr \<and> 0 \<notin> set ri) \<and>
     distinct (map fst (resourceIndex s))"

lemma Find_wildcard:
  assumes "mesh_inv P J s" "plain_keys s" "set (ordr (resourceIndex s)) = set (resourceIndex s)"
  shows "case Find P J ordr False s source rid [] of
      Inr ob \<Rightarrow> \<exists>ty. found P J s (resourceKey source rid ty) = Some ob
    | Inl e \<Rightarrow> e = ErrNotExist \<and> (0 \<in> set source \<or> 0 \<in> set rid \<or> (\<forall>ty. found P J s (resourceKey source rid ty) = None))"
proof -
  let ?p = "index_match source rid"
  have p: "?p (k, h) \<longleftrightarrow> 0 \<notin> set source \<and> 0 \<notin> set rid \<and> (\<exists>ty. k = resourceKey source rid ty)" if "(k, h) \<in> set (resourceIndex s)" for k h
  proof -
    obtain sr ri ty where "k = resourceKey sr ri ty" "0 \<notin> set sr" "0 \<notin> set ri"
      using assms(2) \<open>(k, h) \<in> set (resourceIndex s)\<close> unfolding plain_keys_def by force
    then show ?thesis
      using SplitN_resourceKey [of sr ri ty] SplitN_resourceKey [of source rid] by (auto simp: index_match_def Let_def)
  qed
  show ?thesis
  proof (cases "find ?p (ordr (resourceIndex s))")
    case None
    then have no: "\<not> ?p (k, h)" if "(k, h) \<in> set (resourceIndex s)" for k h
      using that assms(3) by (simp add: find_None_iff)
    have "0 \<in> set source \<or> 0 \<in> set rid \<or> map_of (resourceIndex s) (resourceKey source rid ty) = None" for ty
    proof (cases "map_of (resourceIndex s) (resourceKey source rid ty)")
      case (Some h)
      then have "(resourceKey source rid ty, h) \<in> set (resourceIndex s)" by (rule map_of_SomeD)
      then show ?thesis using no p by blast
    qed simp
    then have "0 \<in> set source \<or> 0 \<in> set rid \<or> (\<forall>ty. found P J s (resourceKey source rid ty) = None)"
      by (cases "0 \<in> set source \<or> 0 \<in> set rid") (auto simp: found_def)
    moreover have "Find P J ordr False s source rid [] = Inl ErrNotExist" by (simp add: Find_def None Let_def)
    ultimately show ?thesis by simp
  next
    case (Some kh)
    obtain k h where kh: "kh = (k, h)" by (cases kh)
    have "?p kh" "kh \<in> set (ordr (resourceIndex s))" using Some by (auto simp: find_Some_iff)
    then have m: "(k, h) \<in> set (resourceIndex s)" and "?p (k, h)" using assms(3) kh by simp_all
    then obtain ty where k: "k = resourceKey source rid ty" using p by blast
    have i: "map_of (resourceIndex s) k = Some h" using m assms(2) by (simp add: plain_keys_def)
    then obtain ob where g: "mesh_Get P J False s h = Inr ob" using assms(1) unfolding mesh_inv_def by (metis look_Some not_None_eq)
    have "h \<noteq> []" using mesh_Get_Inr(3) [OF g] by (rule validHash_nonempty)
    then have "Find P J ordr False s source rid [] = Inr ob" using g by (simp add: Find_def Some kh Let_def)
    moreover have "found P J s (resourceKey source rid ty) = Some ob" using i k g by (simp add: found_def look_Some)
    ultimately show ?thesis by auto
  qed
qed

end
