(* ===== verification/Mesh_Node.thy ===== *)
theory Mesh_Node
  imports Mesh_Store
begin

text \<open>
  \<^verbatim>\<open>internal/mesh/protocol.go\<close>, \<^verbatim>\<open>node.go\<close>, \<^verbatim>\<open>conn.go\<close> and \<^verbatim>\<open>reliable.go\<close>: the cache protocol between two
  nodes. A peer is a function from a request and the state of the world behind it to a response and the
  new state. \<^verbatim>\<open>encoding/json\<close> for the message's record is the parameter \<open>message_json\<close>. The calls that may
  fail, and the names and orders the program does not choose, are the fields of \<open>mesh_io\<close>.

  The goroutines that share one node through its \<^verbatim>\<open>busy\<close> map are the steps of the machine
  \<open>flight_step\<close>.
\<close>

section \<open>Messages\<close>

definition MHello :: gostring where "MHello = str ''HELLO''"
definition MHave :: gostring where "MHave = str ''HAVE''"
definition MGet :: gostring where "MGet = str ''GET''"
definition MObject :: gostring where "MObject = str ''OBJECT''"
definition MNotFound :: gostring where "MNotFound = str ''NOT_FOUND''"
definition MManifest :: gostring where "MManifest = str ''MANIFEST''"

record Message =
  MType :: gostring
  MID :: gostring
  MHash :: gostring
  MSource :: gostring
  MResourceID :: gostring
  MObjectType :: gostring
  MBody :: bytes

definition no_message :: Message where
  "no_message = \<lparr>MType = [], MID = [], MHash = [], MSource = [], MResourceID = [], MObjectType = [], MBody = []\<rparr>"

record message_json =
  MarshalMessage :: "Message \<Rightarrow> bytes option"
  UnmarshalMessage :: "bytes \<Rightarrow> Message option"

definition json_message :: "Message \<Rightarrow> bool" where
  "json_message m \<longleftrightarrow> ValidString (MType m) \<and> ValidString (MID m) \<and> ValidString (MHash m) \<and> ValidString (MSource m) \<and>
     ValidString (MResourceID m) \<and> ValidString (MObjectType m)"

definition message_json_ok :: "message_json \<Rightarrow> bool" where
  "message_json_ok K \<longleftrightarrow> (\<forall>m b. json_message m \<longrightarrow> MarshalMessage K m = Some b \<longrightarrow> UnmarshalMessage K b = Some m)"

section \<open>The node\<close>

record Node =
  NStore :: "ObjectStore option"
  DenyGet :: bool

record mesh_io =
  io_tmp :: gostring
  io_flt :: tmp_fault
  io_rd :: bool
  io_order :: "(gostring \<times> gostring) list \<Rightarrow> (gostring \<times> gostring) list"

type_synonym 'w peer = "Message \<Rightarrow> 'w \<Rightarrow> (mesh_error + Message) \<times> 'w"

text \<open>A handler returns a message and an error, if any, as the Go function does.\<close>

definition acceptAnnouncement ::
  "prims \<Rightarrow> object_json \<Rightarrow> mesh_io \<Rightarrow> Node \<Rightarrow> Message \<Rightarrow> Node \<times> Message \<times> mesh_error option" where
  "acceptAnnouncement P J io n request =
     (case NStore n of
        None \<Rightarrow> (n, no_message, Some ErrMeshNoStore)
      | Some s \<Rightarrow>
          (case UnmarshalObject J (MBody request) of
             None \<Rightarrow> (n, no_message, Some ErrHaveUnmarshal)
           | Some object \<Rightarrow>
               if MHash request = [] \<or> HashString object \<noteq> MHash request then (n, no_message, Some ErrHaveHash)
               else if MSource request \<noteq> [] \<and>
                  (ObjSource object \<noteq> MSource request \<or> ObjResourceID object \<noteq> MResourceID request \<or>
                   ObjType object \<noteq> MObjectType request) then (n, no_message, Some ErrHaveResource)
               else
                 let object1 = object\<lparr>ObjProvenance := PeerOnly\<rparr> in
                 (case mesh_Put P J (io_tmp io) (io_flt io) object1 s of
                    (s1, Inl e) \<Rightarrow> (n\<lparr>NStore := Some s1\<rparr>, no_message, Some e)
                  | (s1, Inr _) \<Rightarrow>
                      (n\<lparr>NStore := Some s1\<rparr>, no_message\<lparr>MType := MHave, MHash := HashString object1\<rparr>, None))))"

definition Serve ::
  "prims \<Rightarrow> object_json \<Rightarrow> mesh_io \<Rightarrow> Node \<Rightarrow> Message \<Rightarrow> Node \<times> Message \<times> mesh_error option" where
  "Serve P J io n request =
     (if MType request = MHave then acceptAnnouncement P J io n request
      else if MType request \<noteq> MGet then (n, no_message\<lparr>MType := MNotFound\<rparr>, Some (ErrMeshUnknownRequest (MType request)))
      else
        case NStore n of
          None \<Rightarrow> (n, no_message\<lparr>MType := MNotFound\<rparr>, Some ErrMeshNoStore)
        | Some s \<Rightarrow>
            if DenyGet n then (n, no_message\<lparr>MType := MNotFound\<rparr>, Some ErrMeshNoStore)
            else
              (case (if MHash request \<noteq> [] then mesh_Get P J (io_rd io) s (MHash request)
                     else Find P J (io_order io) (io_rd io) s (MSource request) (MResourceID request) (MObjectType request)) of
                 Inl _ \<Rightarrow> (n, no_message\<lparr>MType := MNotFound, MHash := MHash request\<rparr>, None)
               | Inr ob \<Rightarrow>
                   (case MarshalObject J ob of
                      None \<Rightarrow> (n, no_message\<lparr>MType := MNotFound\<rparr>, Some ErrMeshMarshal)
                    | Some b \<Rightarrow> (n, no_message\<lparr>MType := MObject, MHash := HashString ob, MBody := b\<rparr>, None))))"

text \<open>\<open>publisher\<close>: the peer has the optional \<^verbatim>\<open>Publish\<close>; the last component is the announcement started.\<close>

definition PutLocal ::
  "prims \<Rightarrow> object_json \<Rightarrow> mesh_io \<Rightarrow> bool \<Rightarrow> Node \<Rightarrow> CacheObject \<Rightarrow> Node \<times> (mesh_error + unit) \<times> Message option" where
  "PutLocal P J io publisher n object =
     (case NStore n of
        None \<Rightarrow> (n, Inl ErrMeshNoStore, None)
      | Some s \<Rightarrow>
          (case mesh_Put P J (io_tmp io) (io_flt io) object s of
             (s1, Inl e) \<Rightarrow> (n\<lparr>NStore := Some s1\<rparr>, Inl e, None)
           | (s1, Inr _) \<Rightarrow>
               (n\<lparr>NStore := Some s1\<rparr>, Inr (),
                if publisher then
                  (case MarshalObject J object of
                     None \<Rightarrow> None
                   | Some body \<Rightarrow>
                       Some (no_message\<lparr>MType := MHave, MHash := HashString object, MSource := ObjSource object,
                               MResourceID := ObjResourceID object, MObjectType := ObjType object, MBody := body\<rparr>))
                else None)))"

definition acceptPeerObject ::
  "prims \<Rightarrow> object_json \<Rightarrow> mesh_io \<Rightarrow> ObjectStore \<Rightarrow> Message \<Rightarrow> gostring \<Rightarrow> gostring \<Rightarrow> gostring \<Rightarrow> gostring \<Rightarrow>
     ObjectStore \<times> (mesh_error + CacheObject)" where
  "acceptPeerObject P J io s response expectedHash source resourceID typ =
     (case UnmarshalObject J (MBody response) of
        None \<Rightarrow> (s, Inl ErrMeshUnmarshal)
      | Some ob \<Rightarrow>
          if MHash response \<noteq> [] \<and> MHash response \<noteq> HashString ob then (s, Inl ErrPeerAddress)
          else if expectedHash \<noteq> [] \<and> HashString ob \<noteq> expectedHash then (s, Inl ErrPeerHash)
          else if source \<noteq> [] \<and> (ObjSource ob \<noteq> source \<or> ObjResourceID ob \<noteq> resourceID \<or> ObjType ob \<noteq> typ)
            then (s, Inl ErrPeerResource)
          else
            let ob1 = ob\<lparr>ObjProvenance := PeerOnly\<rparr> in
            (case mesh_Put P J (io_tmp io) (io_flt io) ob1 s of
               (s1, Inl e) \<Rightarrow> (s1, Inl e)
             | (s1, Inr _) \<Rightarrow> (s1, Inr ob1)))"

definition fetchResource ::
  "prims \<Rightarrow> object_json \<Rightarrow> mesh_io \<Rightarrow> 'w peer option \<Rightarrow> gostring \<Rightarrow> gostring \<Rightarrow> gostring \<Rightarrow> ObjectStore \<Rightarrow> 'w \<Rightarrow>
     ObjectStore \<times> 'w \<times> (mesh_error + CacheObject)" where
  "fetchResource P J io pr source resourceID typ s w =
     (case pr of
        None \<Rightarrow> (s, w, Inl ErrMeshNoPeer)
      | Some req \<Rightarrow>
          (case req (no_message\<lparr>MType := MGet, MSource := source, MResourceID := resourceID, MObjectType := typ\<rparr>) w of
             (Inl e, w1) \<Rightarrow> (s, w1, Inl e)
           | (Inr response, w1) \<Rightarrow>
               (case acceptPeerObject P J io s response [] source resourceID typ of (s1, r) \<Rightarrow> (s1, w1, r))))"

definition fetchContext ::
  "prims \<Rightarrow> object_json \<Rightarrow> mesh_io \<Rightarrow> 'w peer option \<Rightarrow> gostring \<Rightarrow> ObjectStore \<Rightarrow> 'w \<Rightarrow>
     ObjectStore \<times> 'w \<times> (mesh_error + CacheObject)" where
  "fetchContext P J io pr hash s w =
     (case pr of
        None \<Rightarrow> (s, w, Inl ErrMeshNoPeer)
      | Some req \<Rightarrow>
          (case req (no_message\<lparr>MType := MGet, MHash := hash\<rparr>) w of
             (Inl e, w1) \<Rightarrow> (s, w1, Inl e)
           | (Inr response, w1) \<Rightarrow>
               if MType response \<noteq> MObject then (s, w1, Inl (ErrMeshPeerNotFound (MType response)))
               else (case acceptPeerObject P J io s response hash [] [] [] of (s1, r) \<Rightarrow> (s1, w1, r))))"

text \<open>\<^verbatim>\<open>GetContext\<close> and \<^verbatim>\<open>GetResource\<close> of a caller that finds no call for its key under way.\<close>

definition GetContext ::
  "prims \<Rightarrow> object_json \<Rightarrow> mesh_io \<Rightarrow> 'w peer option \<Rightarrow> gostring \<Rightarrow> Node \<Rightarrow> 'w \<Rightarrow> Node \<times> 'w \<times> (mesh_error + CacheObject)" where
  "GetContext P J io pr hash n w =
     (case NStore n of
        None \<Rightarrow> (n, w, Inl ErrMeshNoStore)
      | Some s \<Rightarrow>
          (case mesh_Get P J (io_rd io) s hash of
             Inr ob \<Rightarrow> (n, w, Inr ob)
           | Inl _ \<Rightarrow>
               (case fetchContext P J io pr hash s w of (s1, w1, r) \<Rightarrow> (n\<lparr>NStore := Some s1\<rparr>, w1, r))))"

definition GetResource ::
  "prims \<Rightarrow> object_json \<Rightarrow> mesh_io \<Rightarrow> 'w peer option \<Rightarrow> gostring \<Rightarrow> gostring \<Rightarrow> gostring \<Rightarrow> Node \<Rightarrow> 'w \<Rightarrow>
     Node \<times> 'w \<times> (mesh_error + CacheObject)" where
  "GetResource P J io pr source resourceID typ n w =
     (case NStore n of
        None \<Rightarrow> (n, w, Inl ErrMeshNoStore)
      | Some s \<Rightarrow>
          (case Find P J (io_order io) (io_rd io) s source resourceID typ of
             Inr ob \<Rightarrow> (n, w, Inr ob)
           | Inl _ \<Rightarrow>
               (case fetchResource P J io pr source resourceID typ s w of (s1, w1, r) \<Rightarrow> (n\<lparr>NStore := Some s1\<rparr>, w1, r))))"

text \<open>\<^verbatim>\<open>HandlerTransport\<close>: the peer is another node in the same process; an error replaces the message.\<close>

definition HandlerTransport :: "(Message \<Rightarrow> 'w \<Rightarrow> 'w \<times> Message \<times> mesh_error option) option \<Rightarrow> 'w peer" where
  "HandlerTransport h m w =
     (case h of
        None \<Rightarrow> (Inl ErrMeshNoHandler, w)
      | Some f \<Rightarrow> (case f m w of (w1, r, None) \<Rightarrow> (Inr r, w1) | (w1, _, Some e) \<Rightarrow> (Inl e, w1)))"

section \<open>Connections\<close>

abbreviation (input) maxMessageBody :: nat where "maxMessageBody \<equiv> MaxObjectSize + 1048576"

text \<open>
  A connection to a peer: writing bytes and reading the next value, with the state of the world behind
  it. \<^verbatim>\<open>ConnTransport\<close> writes a line and decodes the next value; \<^verbatim>\<open>ReliableTransport\<close> sends and receives
  one message.
\<close>

record 'w wire =
  wire_send :: "bytes \<Rightarrow> 'w \<Rightarrow> bool \<times> 'w"
  wire_recv :: "'w \<Rightarrow> bytes option \<times> 'w"

definition conn_Request :: "message_json \<Rightarrow> 'w wire option \<Rightarrow> 'w peer" where
  "conn_Request K conn request w =
     (case conn of
        None \<Rightarrow> (Inl ErrMeshNoConn, w)
      | Some c \<Rightarrow>
          if length (MBody request) > maxMessageBody then (Inl ErrMeshRequestSize, w)
          else (case MarshalMessage K request of
                  None \<Rightarrow> (Inl ErrMeshMarshal, w)
                | Some b \<Rightarrow>
                    (case wire_send c (b @ [10]) w of
                       (False, w1) \<Rightarrow> (Inl ErrMeshIO, w1)
                     | (True, w1) \<Rightarrow>
                         (case wire_recv c w1 of
                            (None, w2) \<Rightarrow> (Inl ErrMeshIO, w2)
                          | (Some line, w2) \<Rightarrow>
                              (case UnmarshalMessage K line of
                                 None \<Rightarrow> (Inl ErrMeshUnmarshal, w2)
                               | Some response \<Rightarrow>
                                   if length (MBody response) > maxMessageBody then (Inl ErrMeshResponseSize, w2)
                                   else (Inr response, w2))))))"

definition reliable_RequestContext :: "message_json \<Rightarrow> 'w wire option \<Rightarrow> 'w peer" where
  "reliable_RequestContext K conn request w =
     (case conn of
        None \<Rightarrow> (Inl ErrMeshNoConn, w)
      | Some c \<Rightarrow>
          (case MarshalMessage K request of
             None \<Rightarrow> (Inl ErrMeshMarshal, w)
           | Some b \<Rightarrow>
               (case wire_send c b w of
                  (False, w1) \<Rightarrow> (Inl ErrMeshIO, w1)
                | (True, w1) \<Rightarrow>
                    (case wire_recv c w1 of
                       (None, w2) \<Rightarrow> (Inl ErrMeshIO, w2)
                     | (Some b2, w2) \<Rightarrow>
                         (case UnmarshalMessage K b2 of
                            None \<Rightarrow> (Inl ErrMeshUnmarshal, w2)
                          | Some out \<Rightarrow>
                              if length (MBody out) > maxMessageBody then (Inl ErrMeshResponseSize, w2)
                              else (Inr out, w2))))))"

text \<open>
  One turn of \<^verbatim>\<open>ServeConn\<close>: the node, and the line to write or the error that ends the connection. The
  whole loop runs over the lines that arrive (with their newline), the environment of each turn and
  whether its write succeeds; at the end the reader reports \<^verbatim>\<open>io.EOF\<close>, which is no error, or another one.
\<close>

definition serve_line ::
  "prims \<Rightarrow> object_json \<Rightarrow> message_json \<Rightarrow> mesh_io \<Rightarrow> Node \<Rightarrow> bytes \<Rightarrow> Node \<times> (mesh_error + bytes)" where
  "serve_line P J K io n line =
     (if length line > maxMessageBody + 4096 then (n, Inl ErrMeshRequestSize)
      else case UnmarshalMessage K line of
             None \<Rightarrow> (n, Inl ErrMeshUnmarshal)
           | Some request \<Rightarrow>
               if length (MBody request) > maxMessageBody then (n, Inl ErrMeshRequestSize)
               else (case Serve P J io n request of
                       (n1, resp, err) \<Rightarrow>
                         let response = (if err \<noteq> None then no_message\<lparr>MType := MNotFound, MHash := MHash request\<rparr> else resp) in
                         if length (MBody response) > maxMessageBody then (n1, Inl ErrMeshResponseSize)
                         else (case MarshalMessage K response of
                                 None \<Rightarrow> (n1, Inl ErrMeshMarshal)
                               | Some b \<Rightarrow> (n1, Inr (b @ [10])))))"

fun ServeConn ::
  "prims \<Rightarrow> object_json \<Rightarrow> message_json \<Rightarrow> bool \<Rightarrow> (bytes \<times> mesh_io \<times> bool) list \<Rightarrow> Node \<Rightarrow>
     Node \<times> bytes list \<times> (mesh_error + unit)" where
  "ServeConn P J K eof [] n = (n, [], if eof then Inr () else Inl ErrMeshIO)"
| "ServeConn P J K eof ((line, io, wok) # rest) n =
     (case serve_line P J K io n line of
        (n1, Inl e) \<Rightarrow> (n1, [], Inl e)
      | (n1, Inr out) \<Rightarrow>
          if \<not> wok then (n1, [], Inl ErrMeshIO)
          else (case ServeConn P J K eof rest n1 of (n2, outs, r) \<Rightarrow> (n2, out # outs, r)))"

section \<open>What a node accepts from others\<close>

lemma PeerOnly_valid [simp]: "ValidString PeerOnly"
  by (rule ValidString_ascii) (simp add: PeerOnly_def str_def)

lemma json_object_peer [simp]: "json_object ob \<Longrightarrow> json_object (ob\<lparr>ObjProvenance := PeerOnly\<rparr>)"
  by (simp add: json_object_def)

lemma HashString_peer [simp]: "HashString (ob\<lparr>ObjProvenance := pv\<rparr>) = HashString ob"
  by (simp add: HashString_def)

lemma object_key_peer [simp]: "object_key (ob\<lparr>ObjProvenance := pv\<rparr>) = object_key ob"
  by (simp add: object_key_def)

lemma object_Validate_peer [simp]: "object_Validate P (ob\<lparr>ObjProvenance := pv\<rparr>) = object_Validate P ob"
  by (simp add: object_Validate_def)

lemma mesh_Put_Inr_cacheable:
  assumes "snd (mesh_Put P J tmp flt ob s) = Inr ()" "json_object ob"
  shows "cacheable P J ob"
proof -
  obtain states s' res where r: "mesh_Put_run P J tmp flt ob s = (states, s', res)" by (metis prod_cases3)
  then have "res = Inr ()" using assms(1) by (simp add: mesh_Put_def)
  with r show ?thesis by (cases rule: mesh_Put_cases) (auto simp: cacheable_def assms(2))
qed

lemma mesh_Put_json_inv:
  assumes "mesh_inv P J s" "json_object ob"
  shows "mesh_inv P J (fst (mesh_Put P J tmp flt ob s))"
proof (cases "snd (mesh_Put P J tmp flt ob s)")
  case (Inl e)
  then show ?thesis using assms(1) mesh_Get_Put_failed [OF Inl] by (simp add: mesh_inv_def look_def)
next
  case (Inr u)
  then show ?thesis using mesh_Put_inv [OF assms(1) mesh_Put_Inr_cacheable] assms(2) by simp
qed

text \<open>Storing an object received as JSON: the new store reads the object, or as before.\<close>

lemma mesh_Put_received:
  assumes "mesh_inv P J s" "json_object ob" "mesh_Put P J tmp flt ob s = (s', res)"
  shows "mesh_inv P J s'"
    "res = Inr () \<Longrightarrow> object_Validate P ob = Inr () \<and>
       (\<forall>h. mesh_Get P J False s' h = (if h = HashString ob then Inr ob else mesh_Get P J False s h))"
    "res = Inl e \<Longrightarrow> mesh_Get P J rd s' h = mesh_Get P J rd s h"
proof -
  have j: "object_json_ok J" using assms(1) by (simp add: mesh_inv_def)
  show "mesh_inv P J s'" using mesh_Put_json_inv [OF assms(1,2), of tmp flt] assms(3) by simp
  show "res = Inl e \<Longrightarrow> mesh_Get P J rd s' h = mesh_Get P J rd s h"
    using mesh_Get_Put_failed(1) [of P J tmp flt ob s] assms(3) by simp
  assume r: "res = Inr ()"
  then have st: "cacheable P J ob" using mesh_Put_Inr_cacheable [of P J tmp flt ob s] assms(2,3) by simp
  then show "object_Validate P ob = Inr () \<and>
       (\<forall>h. mesh_Get P J False s' h = (if h = HashString ob then Inr ob else mesh_Get P J False s h))"
    using mesh_Get_Put [OF j st, of tmp flt s] assms(3) r by (simp add: cacheable_def)
qed

lemma acceptPeerObject_effect:
  assumes "mesh_inv P J s" "acceptPeerObject P J io s response eh source rid typ = (s', r)"
  shows "mesh_inv P J s' \<and>
    (case r of
       Inl e \<Rightarrow> \<forall>h. mesh_Get P J False s' h = mesh_Get P J False s h
     | Inr ob \<Rightarrow> object_Validate P ob = Inr () \<and> ObjProvenance ob = PeerOnly \<and>
         (eh \<noteq> [] \<longrightarrow> HashString ob = eh) \<and>
         (source \<noteq> [] \<longrightarrow> ObjSource ob = source \<and> ObjResourceID ob = rid \<and> ObjType ob = typ) \<and>
         (\<forall>h. mesh_Get P J False s' h = (if h = HashString ob then Inr ob else mesh_Get P J False s h)))"
proof -
  have j: "object_json_ok J" using assms(1) by (simp add: mesh_inv_def)
  consider (rejected) e where "s' = s" "r = Inl e"
    | (stored) ob res where "UnmarshalObject J (MBody response) = Some ob" "eh \<noteq> [] \<longrightarrow> HashString ob = eh"
        "source \<noteq> [] \<longrightarrow> ObjSource ob = source \<and> ObjResourceID ob = rid \<and> ObjType ob = typ"
        "mesh_Put P J (io_tmp io) (io_flt io) (ob\<lparr>ObjProvenance := PeerOnly\<rparr>) s = (s', res)"
        "r = (case res of Inl e \<Rightarrow> Inl e | Inr _ \<Rightarrow> Inr (ob\<lparr>ObjProvenance := PeerOnly\<rparr>))"
    using assms(2) unfolding acceptPeerObject_def Let_def
    by (cases "UnmarshalObject J (MBody response)") (auto split: if_splits sum.splits prod.splits)
  then show ?thesis
  proof cases
    case rejected
    then show ?thesis using assms(1) by simp
  next
    case (stored ob res)
    have js: "json_object (ob\<lparr>ObjProvenance := PeerOnly\<rparr>)" using json_read [OF j stored(1)] by simp
    note p = mesh_Put_received [OF assms(1) js stored(4)]
    show ?thesis
    proof (cases res)
      case (Inl e)
      then show ?thesis using p(1) p(3) [OF Inl] stored(5) by simp
    next
      case (Inr u)
      then show ?thesis using p(1,2) stored(2,3,5) by simp
    qed
  qed
qed

lemma acceptAnnouncement_effect:
  assumes "mesh_inv P J s" "NStore n = Some s" "acceptAnnouncement P J io n m = (n', reply, err)"
  shows "\<exists>s'. NStore n' = Some s' \<and> mesh_inv P J s' \<and> DenyGet n' = DenyGet n \<and>
    (if err = None then
       (\<exists>ob. UnmarshalObject J (MBody m) = Some ob \<and> HashString ob = MHash m \<and> object_Validate P ob = Inr () \<and>
          reply = no_message\<lparr>MType := MHave, MHash := MHash m\<rparr> \<and>
          (\<forall>h. mesh_Get P J False s' h = (if h = MHash m then Inr (ob\<lparr>ObjProvenance := PeerOnly\<rparr>) else mesh_Get P J False s h)))
     else \<forall>h. mesh_Get P J False s' h = mesh_Get P J False s h)"
proof -
  have j: "object_json_ok J" using assms(1) by (simp add: mesh_inv_def)
  consider (rejected) e where "n' = n" "err = Some e"
    | (stored) ob s' res where "UnmarshalObject J (MBody m) = Some ob" "HashString ob = MHash m"
        "mesh_Put P J (io_tmp io) (io_flt io) (ob\<lparr>ObjProvenance := PeerOnly\<rparr>) s = (s', res)"
        "n' = n\<lparr>NStore := Some s'\<rparr>" "err = (case res of Inl e \<Rightarrow> Some e | Inr _ \<Rightarrow> None)"
        "res = Inr () \<longrightarrow> reply = no_message\<lparr>MType := MHave, MHash := MHash m\<rparr>"
    using assms(2,3) unfolding acceptAnnouncement_def Let_def
    by (cases "UnmarshalObject J (MBody m)") (auto split: if_splits sum.splits prod.splits)
  then show ?thesis
  proof cases
    case rejected
    then show ?thesis using assms(1,2) by simp
  next
    case (stored ob s' res)
    have js: "json_object (ob\<lparr>ObjProvenance := PeerOnly\<rparr>)" using json_read [OF j stored(1)] by simp
    note p = mesh_Put_received [OF assms(1) js stored(3)]
    show ?thesis
    proof (cases res)
      case (Inl e)
      then show ?thesis using p(1) p(3) [OF Inl] stored by simp
    next
      case (Inr u)
      then show ?thesis using p(1,2) stored by simp
    qed
  qed
qed

lemma Serve_effect:
  assumes "mesh_inv P J s" "NStore n = Some s" "Serve P J io n m = (n', reply, err)"
  shows "\<exists>s'. NStore n' = Some s' \<and> mesh_inv P J s' \<and> DenyGet n' = DenyGet n"
proof (cases "MType m = MHave")
  case True
  then show ?thesis using acceptAnnouncement_effect [OF assms(1,2)] assms(3) by (fastforce simp: Serve_def)
next
  case False
  then have "n' = n" using assms(2,3) by (auto simp: Serve_def split: if_splits sum.splits option.splits)
  then show ?thesis using assms by simp
qed

section \<open>Properties of the cache protocol\<close>

definition demo_io :: mesh_io where
  "demo_io = \<lparr>io_tmp = [], io_flt = TmpOk, io_rd = False, io_order = id\<rparr>"

lemma demo_io_simps [simp]: "io_tmp demo_io = []" "io_flt demo_io = TmpOk" "io_rd demo_io = False" "io_order demo_io = id"
  by (simp_all add: demo_io_def)

text \<open>
  C17. Whatever the peer answers, an object that \<^verbatim>\<open>GetContext\<close> returns for a hash is a valid object whose
  payload has that hash, it is in the local store afterwards, and it is marked \<^verbatim>\<open>PEER_ONLY\<close> unless it was
  there before; every other address of the store reads as before, and after an error all of them do.
\<close>

theorem fetched_object_authentic:
  assumes "NStore n = Some s" "mesh_inv P J s" "hash \<noteq> []" "io_rd io = False" "GetContext P J io pr hash n w = (n', w', r)"
  shows "\<exists>s'. NStore n' = Some s' \<and> mesh_inv P J s' \<and>
    (case r of
       Inr ob \<Rightarrow> hash = EncodeToString (sha256 P (ObjPayload ob)) \<and> object_Validate P ob = Inr () \<and>
         mesh_Get P J False s' hash = Inr ob \<and>
         (mesh_Get P J False s hash = Inr ob \<or> ObjProvenance ob = PeerOnly) \<and>
         (\<forall>h. h \<noteq> hash \<longrightarrow> mesh_Get P J False s' h = mesh_Get P J False s h)
     | Inl e \<Rightarrow> \<forall>h. mesh_Get P J False s' h = mesh_Get P J False s h)"
proof (cases "mesh_Get P J False s hash")
  case (Inr ob)
  then have "n' = n" "r = Inr ob" using assms(1,4,5) by (simp_all add: GetContext_def)
  then show ?thesis using assms(1,2) Inr mesh_Get_Inr [OF Inr] by simp
next
  case (Inl e)
  obtain s' where f: "fetchContext P J io pr hash s w = (s', w', r)" and n': "n' = n\<lparr>NStore := Some s'\<rparr>"
    using assms(1,4,5) Inl by (auto simp: GetContext_def split: prod.splits)
  consider (none) e where "s' = s" "r = Inl e"
    | (some) response where "acceptPeerObject P J io s response hash [] [] [] = (s', r)"
    using f by (auto simp: fetchContext_def split: option.splits prod.splits sum.splits if_splits)
  then have "mesh_inv P J s' \<and>
    (case r of
       Inl e \<Rightarrow> \<forall>h. mesh_Get P J False s' h = mesh_Get P J False s h
     | Inr ob \<Rightarrow> object_Validate P ob = Inr () \<and> ObjProvenance ob = PeerOnly \<and> HashString ob = hash \<and>
         (\<forall>h. mesh_Get P J False s' h = (if h = HashString ob then Inr ob else mesh_Get P J False s h)))"
  proof cases
    case none
    then show ?thesis using assms(2) by simp
  next
    case (some response)
    then show ?thesis using acceptPeerObject_effect [OF assms(2) some] assms(3) by (cases r) simp_all
  qed
  then show ?thesis
    using n' by (cases r) (auto simp: object_Validate_iff HashString_def)
qed

text \<open>
  C18. Two nodes exchange objects. A node that lacks an object gets it from a peer that has it and serves
  its cache: the same object, marked \<^verbatim>\<open>PEER_ONLY\<close>, which the local store then holds; the serving node is
  unchanged.
\<close>

theorem peer_exchange:
  assumes "NStore a = Some sa" "DenyGet a = False" "mesh_Get P J False sa h = Inr ob" "io_rd ioa = False"
    and "NStore b = Some sb" "mesh_inv P J sb" "mesh_Get P J False sb h = Inl e" "io_rd iob = False" "io_flt iob = TmpOk"
    and "json_object ob" "MarshalObject J ob \<noteq> None" "MarshalObject J (ob\<lparr>ObjProvenance := PeerOnly\<rparr>) \<noteq> None"
  shows "\<exists>b' sb'. GetContext P J iob (Some (HandlerTransport (Some (\<lambda>m a. Serve P J ioa a m)))) h b a =
      (b', a, Inr (ob\<lparr>ObjProvenance := PeerOnly\<rparr>)) \<and>
    NStore b' = Some sb' \<and> mesh_Get P J False sb' h = Inr (ob\<lparr>ObjProvenance := PeerOnly\<rparr>)"
proof -
  let ?pr = "HandlerTransport (Some (\<lambda>m a. Serve P J ioa a m))"
  let ?ob = "ob\<lparr>ObjProvenance := PeerOnly\<rparr>"
  have j: "object_json_ok J" using assms(6) by (simp add: mesh_inv_def)
  note ob = mesh_Get_Inr [OF assms(3)]
  obtain body where body: "MarshalObject J ob = Some body" using assms(11) by auto
  have h: "h \<noteq> []" "HashString ob = h" using ob(2,3) validHash_nonempty by auto
  have "Serve P J ioa a (no_message\<lparr>MType := MGet, MHash := h\<rparr>) =
      (a, no_message\<lparr>MType := MObject, MHash := h, MBody := body\<rparr>, None)"
    using assms(1-4) body h by (simp add: Serve_def MHave_def MGet_def str_def)
  then have req: "?pr (no_message\<lparr>MType := MGet, MHash := h\<rparr>) a = (Inr (no_message\<lparr>MType := MObject, MHash := h, MBody := body\<rparr>), a)"
    by (simp add: HandlerTransport_def)
  have u: "UnmarshalObject J body = Some ob" using j assms(10) body by (rule json_written)
  have st: "cacheable P J ?ob" using assms(10,12) ob(1) by (simp add: cacheable_def)
  obtain s' where put: "mesh_Put P J (io_tmp iob) TmpOk ?ob sb = (s', Inr ())"
    using mesh_Put_cacheable [OF st, of "io_tmp iob" sb] by (metis prod.collapse)
  have "acceptPeerObject P J iob sb (no_message\<lparr>MType := MObject, MHash := h, MBody := body\<rparr>) h [] [] [] = (s', Inr ?ob)"
    using u h put assms(9) by (simp add: acceptPeerObject_def)
  then have "GetContext P J iob (Some ?pr) h b a = (b\<lparr>NStore := Some s'\<rparr>, a, Inr ?ob)"
    using assms(5,7,8) req by (simp add: GetContext_def fetchContext_def)
  moreover have "mesh_Get P J False s' h = Inr ?ob"
    using mesh_Get_Put [OF j st, of "io_tmp iob" TmpOk sb h] put h by simp
  ultimately show ?thesis by auto
qed

definition demo_cache_node :: "Node" where
  "demo_cache_node = \<lparr>NStore = Some (fst (mesh_Put demo_prims demo_object_json [] TmpOk (demo_object 7 9) demo_store)), DenyGet = False\<rparr>"

definition demo_empty :: "Node" where
  "demo_empty = \<lparr>NStore = Some demo_store, DenyGet = False\<rparr>"

lemma demo_cache_node_facts:
  "mesh_Get demo_prims demo_object_json False (the (NStore demo_cache_node)) (HashString (demo_object 7 9)) = Inr (demo_object 7 9)"
  "mesh_inv demo_prims demo_object_json (the (NStore demo_cache_node))"
  "\<exists>e. mesh_Get demo_prims demo_object_json False demo_store h = Inl e"
proof -
  have st: "cacheable demo_prims demo_object_json (demo_object 7 9)" by (rule demo_object_cacheable) simp
  show "mesh_Get demo_prims demo_object_json False (the (NStore demo_cache_node)) (HashString (demo_object 7 9)) = Inr (demo_object 7 9)"
    using mesh_Put_look [OF demo_object_json_ok st] by (simp add: demo_cache_node_def look_Some [symmetric])
  show "mesh_inv demo_prims demo_object_json (the (NStore demo_cache_node))"
    using mesh_Put_inv [OF demo_store_inv st] by (simp add: demo_cache_node_def)
  show "\<exists>e. mesh_Get demo_prims demo_object_json False demo_store h = Inl e"
    by (simp add: mesh_Get_def demo_store_def)
qed

lemma demo_object_json_facts:
  "json_object (demo_object 7 9)" "MarshalObject demo_object_json (demo_object 7 9) \<noteq> None"
  "MarshalObject demo_object_json (demo_object 7 9\<lparr>ObjProvenance := PeerOnly\<rparr>) \<noteq> None"
  using demo_object_cacheable [of 7 9] by (simp_all add: cacheable_def demo_object_json_def demo_object_def NewObject_def)

theorem peer_exchange_witness:
  "\<exists>b' sb'. GetContext demo_prims demo_object_json demo_io
      (Some (HandlerTransport (Some (\<lambda>m a. Serve demo_prims demo_object_json demo_io a m)))) (HashString (demo_object 7 9)) demo_empty demo_cache_node =
      (b', demo_cache_node, Inr (demo_object 7 9\<lparr>ObjProvenance := PeerOnly\<rparr>)) \<and>
    NStore b' = Some sb' \<and>
    mesh_Get demo_prims demo_object_json False sb' (HashString (demo_object 7 9)) = Inr (demo_object 7 9\<lparr>ObjProvenance := PeerOnly\<rparr>)"
proof -
  have a: "NStore demo_cache_node = Some (the (NStore demo_cache_node))" "DenyGet demo_cache_node = False" by (simp_all add: demo_cache_node_def)
  have b: "NStore demo_empty = Some demo_store" by (simp add: demo_empty_def)
  obtain e where e: "mesh_Get demo_prims demo_object_json False demo_store (HashString (demo_object 7 9)) = Inl e"
    using demo_cache_node_facts(3) by blast
  show ?thesis
    using peer_exchange [OF a demo_cache_node_facts(1) demo_io_simps(3) b demo_store_inv e demo_io_simps(3,2) demo_object_json_facts] .
qed

theorem fetched_object_authentic_witness:
  "\<exists>n' w' r s'. GetContext demo_prims demo_object_json demo_io (Some (\<lambda>m (w :: unit). (Inr no_message, w))) [1] demo_empty () = (n', w', r) \<and>
     NStore n' = Some s' \<and> mesh_inv demo_prims demo_object_json s'"
proof -
  obtain n' w' r where g: "GetContext demo_prims demo_object_json demo_io (Some (\<lambda>m (w :: unit). (Inr no_message, w))) [1] demo_empty () = (n', w', r)"
    by (metis prod_cases3)
  have b: "NStore demo_empty = Some demo_store" by (simp add: demo_empty_def)
  show ?thesis using fetched_object_authentic [OF b demo_store_inv _ demo_io_simps(3) g] g by blast
qed

text \<open>
  An announcement replaces what the node knew. A \<^verbatim>\<open>HAVE\<close> for an object the node already holds is
  accepted and the stored copy becomes \<^verbatim>\<open>PEER_ONLY\<close>, also when the node had verified the object at its
  origin.
\<close>

theorem announcement_demotes:
  assumes "NStore n = Some s" "mesh_inv P J s" "mesh_Get P J False s h = Inr ob" "MarshalObject J ob = Some body" "json_object ob"
    and "MarshalObject J (ob\<lparr>ObjProvenance := PeerOnly\<rparr>) \<noteq> None" "io_flt io = TmpOk"
    and "Serve P J io n (no_message\<lparr>MType := MHave, MHash := h, MBody := body\<rparr>) = (n', reply, err)"
  shows "err = None \<and> reply = no_message\<lparr>MType := MHave, MHash := h\<rparr> \<and>
    (\<exists>s'. NStore n' = Some s' \<and> mesh_Get P J False s' h = Inr (ob\<lparr>ObjProvenance := PeerOnly\<rparr>))"
proof -
  let ?m = "no_message\<lparr>MType := MHave, MHash := h, MBody := body\<rparr>" and ?ob = "ob\<lparr>ObjProvenance := PeerOnly\<rparr>"
  have j: "object_json_ok J" using assms(2) by (simp add: mesh_inv_def)
  note ob = mesh_Get_Inr [OF assms(3)]
  have u: "UnmarshalObject J body = Some ob" using j assms(5,4) by (rule json_written)
  have a: "acceptAnnouncement P J io n ?m = (n', reply, err)" using assms(8) by (simp add: Serve_def)
  have st: "cacheable P J ?ob" using assms(5,6) ob(1) by (simp add: cacheable_def)
  obtain s' where put: "mesh_Put P J (io_tmp io) TmpOk ?ob s = (s', Inr ())"
    using mesh_Put_cacheable [OF st, of "io_tmp io" s] by (metis prod.collapse)
  have "h \<noteq> []" using ob(3) by (rule validHash_nonempty)
  then have "err = None" using a u put ob(2) assms(1,7) by (auto simp: acceptAnnouncement_def no_message_def)
  then show ?thesis
    using acceptAnnouncement_effect [OF assms(2,1) a] u by auto
qed

theorem announcement_demotes_witness:
  "\<exists>n' reply err s'. Serve demo_prims demo_object_json demo_io demo_cache_node
      (no_message\<lparr>MType := MHave, MHash := HashString (demo_object 7 9), MBody := the (MarshalObject demo_object_json (demo_object 7 9))\<rparr>) =
      (n', reply, err) \<and> NStore n' = Some s' \<and>
    mesh_Get demo_prims demo_object_json False s' (HashString (demo_object 7 9)) = Inr (demo_object 7 9\<lparr>ObjProvenance := PeerOnly\<rparr>)"
proof -
  let ?m = "no_message\<lparr>MType := MHave, MHash := HashString (demo_object 7 9), MBody := the (MarshalObject demo_object_json (demo_object 7 9))\<rparr>"
  obtain n' reply err where s: "Serve demo_prims demo_object_json demo_io demo_cache_node ?m = (n', reply, err)" by (metis prod_cases3)
  have n: "NStore demo_cache_node = Some (the (NStore demo_cache_node))" by (simp add: demo_cache_node_def)
  have b: "MarshalObject demo_object_json (demo_object 7 9) = Some (the (MarshalObject demo_object_json (demo_object 7 9)))"
    using demo_object_json_facts(2) by simp
  show ?thesis
    using announcement_demotes [OF n demo_cache_node_facts(2,1) b demo_object_json_facts(1,3) demo_io_simps(2) s] s by blast
qed

section \<open>Connections\<close>

text \<open>
  Two ends of a connection in one process: what the client writes is served at once and the reply waits
  to be read.
\<close>

definition pipe :: "prims \<Rightarrow> object_json \<Rightarrow> message_json \<Rightarrow> mesh_io \<Rightarrow> (Node \<times> bytes option) wire" where
  "pipe P J K io =
     \<lparr>wire_send = (\<lambda>b (n, _). case serve_line P J K io n b of (n1, Inl e) \<Rightarrow> (True, (n1, None)) | (n1, Inr out) \<Rightarrow> (True, (n1, Some out))),
      wire_recv = (\<lambda>(n, out). (out, (n, None)))\<rparr>"

text \<open>JSON text may be followed by a newline.\<close>

definition json_line_ok :: "message_json \<Rightarrow> bool" where
  "json_line_ok K \<longleftrightarrow> (\<forall>b m. UnmarshalMessage K b = Some m \<longrightarrow> UnmarshalMessage K (b @ [10]) = Some m)"

text \<open>What the connection makes of a handler's result.\<close>

definition reply_message :: "Message \<Rightarrow> Message \<times> mesh_error option \<Rightarrow> Message" where
  "reply_message request re = (if snd re \<noteq> None then no_message\<lparr>MType := MNotFound, MHash := MHash request\<rparr> else fst re)"

definition carried :: "message_json \<Rightarrow> Message \<Rightarrow> bool" where
  "carried K m \<longleftrightarrow> length (MBody m) \<le> maxMessageBody \<and> json_message m \<and> (\<exists>b. MarshalMessage K m = Some b)"

lemma json_message_read: "message_json_ok K \<Longrightarrow> json_line_ok K \<Longrightarrow> json_message m \<Longrightarrow> MarshalMessage K m = Some b \<Longrightarrow>
    UnmarshalMessage K (b @ [10]) = Some m"
  unfolding message_json_ok_def json_line_ok_def by blast

text \<open>
  C34. The connection is transparent: a request that fits is answered with exactly what the other node's
  handler returns, an error becoming \<^verbatim>\<open>NOT_FOUND\<close> for the requested hash, and the other node is left as the
  handler leaves it.
\<close>

theorem conn_transparent:
  assumes "message_json_ok K" "json_line_ok K" "carried K request" "MarshalMessage K request = Some b"
    and "length b \<le> maxMessageBody + 4095"
    and "Serve P J io n request = (n', re)" "carried K (reply_message request re)"
  shows "conn_Request K (Some (pipe P J K io)) request (n, None) = (Inr (reply_message request re), (n', None))"
proof -
  obtain b' where b': "MarshalMessage K (reply_message request re) = Some b'" using assms(7) by (auto simp: carried_def)
  have u: "UnmarshalMessage K (b @ [10]) = Some request" "UnmarshalMessage K (b' @ [10]) = Some (reply_message request re)"
    using assms b' by (auto simp: carried_def intro: json_message_read)
  obtain resp err where re: "re = (resp, err)" by (cases re)
  have "serve_line P J K io n (b @ [10]) = (n', Inr (b' @ [10]))"
    using u(1) assms(3,5,6,7) b' unfolding re
    by (cases err) (simp_all add: serve_line_def carried_def reply_message_def Let_def)
  then show ?thesis
    using assms(3,4,7) u(2) by (simp add: conn_Request_def pipe_def carried_def)
qed

definition demo_message_bytes :: "Message \<Rightarrow> bytes" where
  "demo_message_bytes m = demo_field (MType m) @ demo_field (MID m) @ demo_field (MHash m) @ demo_field (MSource m) @
     demo_field (MResourceID m) @ demo_field (MObjectType m) @ demo_field (MBody m)"

definition demo_message_json :: message_json where
  "demo_message_json =
     \<lparr>MarshalMessage = (\<lambda>m. Some (demo_message_bytes m)),
      UnmarshalMessage = (\<lambda>b.
        let (t, b1) = demo_unfield b; (i, b2) = demo_unfield b1; (h, b3) = demo_unfield b2; (sr, b4) = demo_unfield b3;
            (ri, b5) = demo_unfield b4; (ot, b6) = demo_unfield b5; (bd, b7) = demo_unfield b6;
            m = \<lparr>MType = t, MID = i, MHash = h, MSource = sr, MResourceID = ri, MObjectType = ot, MBody = bd\<rparr>
        in if b = demo_message_bytes m @ b7 \<and> (\<forall>x \<in> set b7. x = 10) then Some m else None)\<rparr>"

lemma demo_unmarshal:
  "UnmarshalMessage demo_message_json b = Some m \<longleftrightarrow> (\<exists>z. b = demo_message_bytes m @ z \<and> (\<forall>x \<in> set z. x = 10))"
proof
  show "\<exists>z. b = demo_message_bytes m @ z \<and> (\<forall>x \<in> set z. x = 10)" if "UnmarshalMessage demo_message_json b = Some m"
    using that by (auto simp: demo_message_json_def Let_def case_prod_unfold split: if_splits)
  assume "\<exists>z. b = demo_message_bytes m @ z \<and> (\<forall>x \<in> set z. x = 10)"
  then obtain z where b: "b = demo_message_bytes m @ z" and z: "\<forall>x \<in> set z. x = 10" by blast
  show "UnmarshalMessage demo_message_json b = Some m"
    using z unfolding b by (simp add: demo_message_json_def demo_message_bytes_def demo_unfield_field)
qed

lemma demo_message_json_ok: "message_json_ok demo_message_json" "json_line_ok demo_message_json"
proof -
  show "message_json_ok demo_message_json"
    unfolding message_json_ok_def demo_unmarshal by (auto simp: demo_message_json_def intro: exI [of _ "[]"])
  show "json_line_ok demo_message_json"
    unfolding json_line_ok_def demo_unmarshal by (metis append.assoc rotate1.simps(2) set_ConsD set_rotate1)
qed

theorem conn_transparent_witness:
  "\<exists>n'. conn_Request demo_message_json (Some (pipe demo_prims demo_object_json demo_message_json demo_io))
     (no_message\<lparr>MType := MHello\<rparr>) (demo_cache_node, None) = (Inr (no_message\<lparr>MType := MNotFound\<rparr>), (n', None))"
proof -
  let ?m = "no_message\<lparr>MType := MHello\<rparr>" and ?K = demo_message_json
  let ?r = "(no_message\<lparr>MType := MNotFound\<rparr>, Some (ErrMeshUnknownRequest MHello))"
  have v: "ValidString MHello" "ValidString MNotFound" by (rule ValidString_ascii, simp add: MHello_def MNotFound_def str_def)+
  have c: "carried ?K ?m" "carried ?K (reply_message ?m ?r)"
    using v by (simp_all add: carried_def reply_message_def json_message_def no_message_def demo_message_json_def)
  have b: "MarshalMessage ?K ?m = Some (demo_message_bytes ?m)" by (simp add: demo_message_json_def)
  have l: "length (demo_message_bytes ?m) \<le> maxMessageBody + 4095"
    by (simp add: demo_message_bytes_def demo_field_def no_message_def MHello_def str_def)
  have s: "Serve demo_prims demo_object_json demo_io demo_cache_node ?m = (demo_cache_node, ?r)"
    by (simp add: Serve_def MHello_def MHave_def MGet_def str_def)
  show ?thesis
    using conn_transparent [OF demo_message_json_ok c(1) b l s c(2)] by (simp add: reply_message_def no_message_def)
qed

text \<open>
  An object near the size limit can be stored but not served over a connection. JSON carries the payload
  in base 64, four characters for every three bytes, and the limit is on the encoded body: a request for
  a stored object whose payload exceeds 13369344 bytes ends the connection without a reply.
\<close>

theorem large_object_not_served:
  assumes "NStore n = Some s" "DenyGet n = False" "io_rd io = False" "mesh_Get P J False s h = Inr ob"
    and "MarshalObject J ob = Some body" "4 * ((length (ObjPayload ob) + 2) div 3) \<le> length body"
    and "13369344 < length (ObjPayload ob)"
    and "UnmarshalMessage K line = Some (no_message\<lparr>MType := MGet, MHash := h\<rparr>)" "length line \<le> maxMessageBody"
  shows "ServeConn P J K eof ((line, io, wok) # rest) n = (n, [], Inl ErrMeshResponseSize)"
proof -
  have "h \<noteq> []" using mesh_Get_Inr(3) [OF assms(4)] by (rule validHash_nonempty)
  moreover have "HashString ob = h" using assms(4) by (rule mesh_Get_Inr)
  ultimately have s: "Serve P J io n (no_message\<lparr>MType := MGet, MHash := h\<rparr>) =
      (n, no_message\<lparr>MType := MObject, MHash := h, MBody := body\<rparr>, None)"
    using assms(1-5) by (simp add: Serve_def MGet_def MHave_def str_def)
  have "length body > maxMessageBody" using assms(6,7) by linarith
  then have "serve_line P J K io n line = (n, Inl ErrMeshResponseSize)"
    using assms(8,9) s by (simp add: serve_line_def no_message_def)
  then show ?thesis by simp
qed

lemma serve_line_inv:
  assumes "NStore n = Some s" "mesh_inv P J s" "serve_line P J K io n line = (n', r)"
  shows "\<exists>s'. NStore n' = Some s' \<and> mesh_inv P J s'"
proof (cases "n' = n")
  case True
  then show ?thesis using assms by simp
next
  case False
  then obtain request re where "Serve P J io n request = (n', re)"
    using assms(3) by (auto simp: serve_line_def Let_def split: if_splits option.splits prod.splits)
  then show ?thesis using Serve_effect [OF assms(2,1)] by (cases re) blast
qed

text \<open>
  \<^verbatim>\<open>ServeConn\<close> answers the requests of a connection in order, one line each: it returns without an error
  exactly when the peer closes after requests that were all answered, it never sends more lines than it
  received, and it leaves the cache in its invariant whatever the peer sends.
\<close>

theorem ServeConn_answers:
  "NStore n = Some s \<Longrightarrow> mesh_inv P J s \<Longrightarrow> ServeConn P J K eof reqs n = (n', outs, res) \<Longrightarrow>
     (\<exists>s'. NStore n' = Some s' \<and> mesh_inv P J s') \<and> length outs \<le> length reqs \<and>
     (res = Inr () \<longrightarrow> eof \<and> length outs = length reqs)"
proof (induction reqs arbitrary: n s outs)
  case Nil
  then show ?case by (auto split: if_splits)
next
  case (Cons rq reqs)
  obtain line io wok where rq: "rq = (line, io, wok)" by (cases rq)
  obtain n1 r where l: "serve_line P J K io n line = (n1, r)" by (metis surj_pair)
  obtain s1 where s1: "NStore n1 = Some s1" "mesh_inv P J s1" using serve_line_inv [OF Cons.prems(1,2) l] by blast
  show ?case
  proof (cases "\<exists>out. r = Inr out \<and> wok")
    case False
    then have "n' = n1 \<and> outs = [] \<and> res \<noteq> Inr ()" using Cons.prems(3) l rq by (cases r) auto
    then show ?thesis using s1 by simp
  next
    case True
    then obtain out n2 outs' r' where o: "ServeConn P J K eof reqs n1 = (n2, outs', r')" "n' = n2" "res = r'" "outs = out # outs'"
      using Cons.prems(3) l rq by (auto split: prod.splits)
    show ?thesis using Cons.IH [OF s1] o by simp
  qed
qed

theorem ServeConn_answers_witness:
  "\<exists>n' s'. ServeConn demo_prims demo_object_json demo_message_json True [([0], demo_io, True)] demo_empty = (n', [], Inl ErrMeshUnmarshal) \<and>
     NStore n' = Some s' \<and> mesh_inv demo_prims demo_object_json s'"
proof -
  have "UnmarshalMessage demo_message_json [0] = None"
    using demo_unmarshal [of "[0]"] by (cases "UnmarshalMessage demo_message_json [0]") (auto simp: demo_message_bytes_def demo_field_def append_eq_Cons_conv)
  then have s: "ServeConn demo_prims demo_object_json demo_message_json True [([0], demo_io, True)] demo_empty = (demo_empty, [], Inl ErrMeshUnmarshal)"
    by (simp add: serve_line_def)
  have "NStore demo_empty = Some demo_store" by (simp add: demo_empty_def)
  from ServeConn_answers [OF this demo_store_inv s] show ?thesis using s by blast
qed

text \<open>A resource fetched from the peer is the one asked for.\<close>

lemma fetchResource_matches:
  assumes "mesh_inv P J s" "fetchResource P J io pr source rid ty s w = (s', w', r)" "source \<noteq> []"
  shows "mesh_inv P J s' \<and>
    (\<forall>ob. r = Inr ob \<longrightarrow> ObjSource ob = source \<and> ObjResourceID ob = rid \<and> ObjType ob = ty \<and> ObjProvenance ob = PeerOnly \<and>
       object_Validate P ob = Inr () \<and> mesh_Get P J False s' (HashString ob) = Inr ob)"
proof -
  consider (none) e where "s' = s" "r = Inl e"
    | (some) response where "acceptPeerObject P J io s response [] source rid ty = (s', r)"
    using assms(2) by (auto simp: fetchResource_def split: option.splits prod.splits sum.splits)
  then show ?thesis
  proof cases
    case none
    then show ?thesis using assms(1) by simp
  next
    case (some response)
    then show ?thesis using acceptPeerObject_effect [OF assms(1) some] assms(3) by (cases r) simp_all
  qed
qed

end
