(* ===== verification/Mesh_Flight.thy ===== *)
theory Mesh_Flight
  imports Mesh_Node
begin

text \<open>
  \<^verbatim>\<open>internal/mesh/node.go\<close>, \<^verbatim>\<open>GetContext\<close> and \<^verbatim>\<open>GetResource\<close> called from many goroutines: callers that ask for
  the same key while a call for it is under way wait for that call instead of asking the peer again. A
  caller goes through the atomic sections of the code, one event each: the local lookup, the section
  under the mutex that joins or starts a call, the exchange with the peer, the section under the mutex
  that publishes the result, and, for those that wait, the wake-up or the end of their context. The peer's
  answer is part of the event, so that it is arbitrary. Only a caller whose context can end is woken by its
  end: \<^verbatim>\<open>Get\<close> calls \<^verbatim>\<open>GetContext\<close> with \<^verbatim>\<open>context.Background()\<close>, which never does.
\<close>

datatype job = ByHash gostring | ByResource gostring gostring gostring

fun job_key :: "job \<Rightarrow> gostring" where
  "job_key (ByHash h) = h"
| "job_key (ByResource source resourceID typ) = str ''resource:'' @ resourceKey source resourceID typ"

type_synonym get_result = "mesh_error + CacheObject"

datatype caller =
    Idle
  | Missed job
  | Waiting job nat
  | Fetching job nat
  | Fetched job nat get_result
  | Returned job get_result

text \<open>\<open>outcome\<close> holds, by call, the result that its \<^verbatim>\<open>done\<close> channel guards; \<open>busy\<close> is the map of the node; \<open>endable\<close> says which callers have a context that can end.\<close>

record flight =
  fstore :: ObjectStore
  endable :: "bool list"
  busy :: "(gostring \<times> nat) list"
  outcome :: "get_result option list"
  callers :: "caller list"

datatype flight_event =
    FLook nat job mesh_io
  | FJoin nat
  | FAnswer nat mesh_io "mesh_error + Message"
  | FPublish nat
  | FWake nat
  | FCancel nat

definition local_lookup :: "prims \<Rightarrow> object_json \<Rightarrow> mesh_io \<Rightarrow> ObjectStore \<Rightarrow> job \<Rightarrow> get_result" where
  "local_lookup P J io s jb =
     (case jb of
        ByHash h \<Rightarrow> mesh_Get P J (io_rd io) s h
      | ByResource source rid typ \<Rightarrow> Find P J (io_order io) (io_rd io) s source rid typ)"

definition remote_fetch ::
  "prims \<Rightarrow> object_json \<Rightarrow> mesh_io \<Rightarrow> mesh_error + Message \<Rightarrow> ObjectStore \<Rightarrow> job \<Rightarrow> ObjectStore \<times> get_result" where
  "remote_fetch P J io resp s jb =
     (case (case jb of
              ByHash h \<Rightarrow> fetchContext P J io (Some (\<lambda>_ w. (resp, w))) h s ()
            | ByResource source rid typ \<Rightarrow> fetchResource P J io (Some (\<lambda>_ w. (resp, w))) source rid typ s ()) of
        (s1, _, r) \<Rightarrow> (s1, r))"

fun flight_caller :: "prims \<Rightarrow> object_json \<Rightarrow> flight \<Rightarrow> flight_event \<Rightarrow> nat \<Rightarrow> caller \<Rightarrow> flight" where
  "flight_caller P J f (FLook _ jb io) i Idle =
     (case local_lookup P J io (fstore f) jb of
        Inr ob \<Rightarrow> f\<lparr>callers := (callers f)[i := Returned jb (Inr ob)]\<rparr>
      | Inl _ \<Rightarrow> f\<lparr>callers := (callers f)[i := Missed jb]\<rparr>)"
| "flight_caller P J f (FJoin _) i (Missed jb) =
     (case map_of (busy f) (job_key jb) of
        Some c \<Rightarrow> f\<lparr>callers := (callers f)[i := Waiting jb c]\<rparr>
      | None \<Rightarrow>
          let c = length (outcome f) in
          f\<lparr>outcome := outcome f @ [None], busy := AList.update (job_key jb) c (busy f),
            callers := (callers f)[i := Fetching jb c]\<rparr>)"
| "flight_caller P J f (FAnswer _ io resp) i (Fetching jb c) =
     (case remote_fetch P J io resp (fstore f) jb of
        (s1, r) \<Rightarrow> f\<lparr>fstore := s1, callers := (callers f)[i := Fetched jb c r]\<rparr>)"
| "flight_caller P J f (FPublish _) i (Fetched jb c r) =
     f\<lparr>outcome := (outcome f)[c := Some r], busy := AList.delete (job_key jb) (busy f),
       callers := (callers f)[i := Returned jb r]\<rparr>"
| "flight_caller P J f (FWake _) i (Waiting jb c) =
     (case outcome f ! c of
        Some r \<Rightarrow> f\<lparr>callers := (callers f)[i := Returned jb r]\<rparr>
      | None \<Rightarrow> f)"
| "flight_caller P J f (FCancel _) i (Waiting jb c) =
     (if endable f ! i then f\<lparr>callers := (callers f)[i := Returned jb (Inl ErrCtxDone)]\<rparr> else f)"
| "flight_caller P J f _ i _ = f"

fun event_caller :: "flight_event \<Rightarrow> nat" where
  "event_caller (FLook i _ _) = i"
| "event_caller (FJoin i) = i"
| "event_caller (FAnswer i _ _) = i"
| "event_caller (FPublish i) = i"
| "event_caller (FWake i) = i"
| "event_caller (FCancel i) = i"

definition flight_step :: "prims \<Rightarrow> object_json \<Rightarrow> flight \<Rightarrow> flight_event \<Rightarrow> flight" where
  "flight_step P J f ev =
     (let i = event_caller ev in
      if i < length (callers f) then flight_caller P J f ev i (callers f ! i) else f)"

section \<open>Single flight\<close>

text \<open>The call a caller leads, and what a caller may be given.\<close>

fun leads :: "caller \<Rightarrow> (gostring \<times> nat) option" where
  "leads (Fetching jb c) = Some (job_key jb, c)"
| "leads (Fetched jb c r) = Some (job_key jb, c)"
| "leads _ = None"

fun right_object :: "gostring \<Rightarrow> get_result \<Rightarrow> bool" where
  "right_object k (Inr ob) \<longleftrightarrow> validHash k \<longrightarrow> HashString ob = k"
| "right_object k (Inl e) \<longleftrightarrow> True"

fun caller_ok :: "flight \<Rightarrow> caller \<Rightarrow> bool" where
  "caller_ok f (Waiting jb c) \<longleftrightarrow>
     c < length (outcome f) \<and>
     (case outcome f ! c of Some r \<Rightarrow> right_object (job_key jb) r | None \<Rightarrow> map_of (busy f) (job_key jb) = Some c)"
| "caller_ok f (Fetching jb c) \<longleftrightarrow> map_of (busy f) (job_key jb) = Some c"
| "caller_ok f (Fetched jb c r) \<longleftrightarrow> map_of (busy f) (job_key jb) = Some c \<and> right_object (job_key jb) r"
| "caller_ok f (Returned jb r) \<longleftrightarrow> right_object (job_key jb) r"
| "caller_ok f _ \<longleftrightarrow> True"

definition flight_inv :: "prims \<Rightarrow> object_json \<Rightarrow> flight \<Rightarrow> bool" where
  "flight_inv P J f \<longleftrightarrow>
     mesh_inv P J (fstore f) \<and> (\<forall>cl \<in> set (callers f). caller_ok f cl) \<and>
     (\<forall>k c. map_of (busy f) k = Some c \<longrightarrow>
        c < length (outcome f) \<and> outcome f ! c = None \<and> (\<exists>i < length (callers f). leads (callers f ! i) = Some (k, c))) \<and>
     (\<forall>i < length (callers f). \<forall>j < length (callers f). \<forall>k c k'.
        leads (callers f ! i) = Some (k, c) \<longrightarrow> leads (callers f ! j) = Some (k', c) \<longrightarrow> i = j)"

lemma resource_key_no_hash: "\<not> validHash (str ''resource:'' @ x)"
  by (cases x) (auto simp: validHash_def str_def from_hex_def Let_def)

lemma local_lookup_right: "local_lookup P J io s jb = Inr ob \<Longrightarrow> right_object (job_key jb) (Inr ob)"
  using mesh_Get_Inr(2) by (cases jb) (auto simp: local_lookup_def resource_key_no_hash)

lemma remote_fetch_effect:
  assumes "mesh_inv P J s" "remote_fetch P J io resp s jb = (s', r)"
  shows "mesh_inv P J s'" "right_object (job_key jb) r"
proof -
  consider (none) e where "s' = s" "r = Inl e"
    | (hash) h response where "jb = ByHash h" "acceptPeerObject P J io s response h [] [] [] = (s', r)"
    | (resource) sr rid ty response where "jb = ByResource sr rid ty" "acceptPeerObject P J io s response [] sr rid ty = (s', r)"
    using assms(2)
    by (cases jb) (auto simp: remote_fetch_def fetchContext_def fetchResource_def split: prod.splits sum.splits if_splits)
  then have "mesh_inv P J s' \<and> right_object (job_key jb) r"
  proof cases
    case none
    then show ?thesis using assms(1) by simp
  next
    case (hash h response)
    then show ?thesis
      using acceptPeerObject_effect [OF assms(1) hash(2)] validHash_nonempty by (cases r) auto
  next
    case (resource sr rid ty response)
    then show ?thesis
      using acceptPeerObject_effect [OF assms(1) resource(2)] by (cases r) (simp_all add: resource_key_no_hash)
  qed
  then show "mesh_inv P J s'" "right_object (job_key jb) r" by blast+
qed

lemma caller_ok_frame [simp]: "caller_ok (f\<lparr>callers := cs\<rparr>) cl = caller_ok f cl"
  by (cases cl) (simp_all split: option.split)

lemma caller_ok_frame_store [simp]: "caller_ok (f\<lparr>fstore := s\<rparr>) cl = caller_ok f cl"
  by (cases cl) (simp_all split: option.split)

lemma flight_inv_D:
  assumes "flight_inv P J f"
  shows "mesh_inv P J (fstore f)"
    "i < length (callers f) \<Longrightarrow> caller_ok f (callers f ! i)"
    "map_of (busy f) k = Some c \<Longrightarrow> c < length (outcome f) \<and> outcome f ! c = None"
    "map_of (busy f) k = Some c \<Longrightarrow> \<exists>i < length (callers f). leads (callers f ! i) = Some (k, c)"
    "i < length (callers f) \<Longrightarrow> j < length (callers f) \<Longrightarrow> leads (callers f ! i) = Some (k, c) \<Longrightarrow>
       leads (callers f ! j) = Some (k', c) \<Longrightarrow> i = j"
proof -
  show "mesh_inv P J (fstore f)" using assms unfolding flight_inv_def by (elim conjE)
  show "i < length (callers f) \<Longrightarrow> caller_ok f (callers f ! i)" using assms nth_mem unfolding flight_inv_def by blast
  show "map_of (busy f) k = Some c \<Longrightarrow> c < length (outcome f) \<and> outcome f ! c = None"
    using assms unfolding flight_inv_def by blast
  show "map_of (busy f) k = Some c \<Longrightarrow> \<exists>i < length (callers f). leads (callers f ! i) = Some (k, c)"
    using assms unfolding flight_inv_def by blast
  show "i < length (callers f) \<Longrightarrow> j < length (callers f) \<Longrightarrow> leads (callers f ! i) = Some (k, c) \<Longrightarrow>
       leads (callers f ! j) = Some (k', c) \<Longrightarrow> i = j"
    using assms unfolding flight_inv_def by blast
qed

lemma flight_invI:
  assumes "mesh_inv P J (fstore f)"
    and "\<And>i. i < length (callers f) \<Longrightarrow> caller_ok f (callers f ! i)"
    and "\<And>k c. map_of (busy f) k = Some c \<Longrightarrow> c < length (outcome f) \<and> outcome f ! c = None"
    and "\<And>k c. map_of (busy f) k = Some c \<Longrightarrow> \<exists>i < length (callers f). leads (callers f ! i) = Some (k, c)"
    and "\<And>i j k c k'. i < length (callers f) \<Longrightarrow> j < length (callers f) \<Longrightarrow> leads (callers f ! i) = Some (k, c) \<Longrightarrow>
       leads (callers f ! j) = Some (k', c) \<Longrightarrow> i = j"
  shows "flight_inv P J f"
  unfolding flight_inv_def
proof (intro conjI)
  show "\<forall>cl \<in> set (callers f). caller_ok f cl" using assms(2) by (metis in_set_conv_nth)
  show "\<forall>k c. map_of (busy f) k = Some c \<longrightarrow>
        c < length (outcome f) \<and> outcome f ! c = None \<and> (\<exists>i < length (callers f). leads (callers f ! i) = Some (k, c))"
    using assms(3,4) by blast
  show "\<forall>i < length (callers f). \<forall>j < length (callers f). \<forall>k c k'.
        leads (callers f ! i) = Some (k, c) \<longrightarrow> leads (callers f ! j) = Some (k', c) \<longrightarrow> i = j"
    using assms(5) by blast
qed (rule assms(1))

lemma leads_busy: "caller_ok f cl \<Longrightarrow> leads cl = Some (k, c) \<Longrightarrow> map_of (busy f) k = Some c"
  by (cases cl) auto

text \<open>A caller that keeps what it leads.\<close>

lemma flight_inv_caller:
  assumes "flight_inv P J f" "mesh_inv P J s1" "i < length (callers f)" "leads cl = leads (callers f ! i)" "caller_ok f cl"
  shows "flight_inv P J (f\<lparr>fstore := s1, callers := (callers f)[i := cl]\<rparr>)" (is "flight_inv P J ?f")
proof -
  note D = flight_inv_D [OF assms(1)]
  have l: "leads ((callers f)[i := cl] ! j) = leads (callers f ! j)" if "j < length (callers f)" for j
    using assms(3,4) that by (cases "j = i") simp_all
  show ?thesis
  proof (rule flight_invI)
    show "mesh_inv P J (fstore ?f)" using assms(2) by simp
    show "caller_ok ?f (callers ?f ! j)" if "j < length (callers ?f)" for j
      using D(2) [of j] assms(3,5) that by (cases "j = i") simp_all
    fix k c assume "map_of (busy ?f) k = Some c"
    then have b: "map_of (busy f) k = Some c" by simp
    show "c < length (outcome ?f) \<and> outcome ?f ! c = None" using D(3) [OF b] by simp
    obtain j where "j < length (callers f)" "leads (callers f ! j) = Some (k, c)" using D(4) [OF b] by blast
    then show "\<exists>j < length (callers ?f). leads (callers ?f ! j) = Some (k, c)" using l [of j] by auto
  next
    fix a b k c k' assume "a < length (callers ?f)" "b < length (callers ?f)"
      "leads (callers ?f ! a) = Some (k, c)" "leads (callers ?f ! b) = Some (k', c)"
    then show "a = b" using D(5) [of a b k c k'] l by simp
  qed
qed

lemma flight_inv_caller':
  assumes "flight_inv P J f" "i < length (callers f)" "leads cl = leads (callers f ! i)" "caller_ok f cl"
  shows "flight_inv P J (f\<lparr>callers := (callers f)[i := cl]\<rparr>)"
proof -
  have "f\<lparr>callers := (callers f)[i := cl]\<rparr> = f\<lparr>fstore := fstore f, callers := (callers f)[i := cl]\<rparr>" by simp
  then show ?thesis using flight_inv_caller [OF assms(1) flight_inv_D(1) [OF assms(1)] assms(2-4)] by metis
qed

text \<open>Starting a call, and publishing its result.\<close>

lemma flight_inv_start:
  assumes "flight_inv P J f" "i < length (callers f)" "callers f ! i = Missed jb" "map_of (busy f) (job_key jb) = None"
  shows "flight_inv P J (f\<lparr>outcome := outcome f @ [None], busy := AList.update (job_key jb) (length (outcome f)) (busy f),
            callers := (callers f)[i := Fetching jb (length (outcome f))]\<rparr>)" (is "flight_inv P J ?f")
proof -
  note D = flight_inv_D [OF assms(1)]
  have b: "map_of (busy ?f) k = (if k = job_key jb then Some (length (outcome f)) else map_of (busy f) k)" for k
    by (simp add: update_conv)
  have ok: "caller_ok ?f cl" if "caller_ok f cl" for cl
    using that assms(4) by (cases cl) (auto simp: update_conv nth_append split: option.splits)
  have old: "c < length (outcome f)" if "j < length (callers f)" "leads (callers f ! j) = Some (k, c)" for j k c
    using D(3) [OF leads_busy [OF D(2) [OF that(1)] that(2)]] by simp
  have l: "leads (callers ?f ! j) = (if j = i then Some (job_key jb, length (outcome f)) else leads (callers f ! j))"
    if "j < length (callers f)" for j
    using assms(2) that by simp
  show ?thesis
  proof (rule flight_invI)
    show "mesh_inv P J (fstore ?f)" using D(1) by simp
    show "caller_ok ?f (callers ?f ! j)" if "j < length (callers ?f)" for j
    proof (cases "j = i")
      case True
      then show ?thesis using assms(2) by (simp add: update_conv)
    next
      case False
      then have "callers ?f ! j = callers f ! j" by simp
      then show ?thesis using ok [OF D(2) [of j]] that by simp
    qed
  next
    fix k c assume k: "map_of (busy ?f) k = Some c"
    show "c < length (outcome ?f) \<and> outcome ?f ! c = None"
      using k D(3) [of k c] unfolding b by (auto simp: nth_append split: if_splits)
    show "\<exists>j < length (callers ?f). leads (callers ?f ! j) = Some (k, c)"
    proof (cases "k = job_key jb")
      case True
      then show ?thesis using k assms(2) l [of i] unfolding b by (intro exI [of _ i]) simp
    next
      case False
      then have "map_of (busy f) k = Some c" using k unfolding b by simp
      then obtain j where j: "j < length (callers f)" "leads (callers f ! j) = Some (k, c)" using D(4) by blast
      then have "j \<noteq> i" using assms(3) by auto
      then show ?thesis using j l [OF j(1)] by (intro exI [of _ j]) simp
    qed
  next
    fix a d k c k' assume "a < length (callers ?f)" "d < length (callers ?f)"
      "leads (callers ?f ! a) = Some (k, c)" "leads (callers ?f ! d) = Some (k', c)"
    then show "a = d"
      using l [of a] l [of d] old [of a k c] old [of d k' c] D(5) [of a d k c k'] by (auto split: if_splits)
  qed
qed

lemma flight_inv_publish:
  assumes "flight_inv P J f" "i < length (callers f)" "callers f ! i = Fetched jb c r"
  shows "flight_inv P J (f\<lparr>outcome := (outcome f)[c := Some r], busy := AList.delete (job_key jb) (busy f),
       callers := (callers f)[i := Returned jb r]\<rparr>)" (is "flight_inv P J ?f")
proof -
  note D = flight_inv_D [OF assms(1)]
  have me: "map_of (busy f) (job_key jb) = Some c" "right_object (job_key jb) r" using D(2) [OF assms(2)] assms(3) by simp_all
  have ic: "leads (callers f ! i) = Some (job_key jb, c)" using assms(3) by simp
  have uniq: "k = job_key jb" if kc: "map_of (busy f) k = Some c" for k
  proof -
    obtain j where j: "j < length (callers f)" "leads (callers f ! j) = Some (k, c)" using D(4) [OF kc] by blast
    have "i = j" using assms(2) j(1) ic j(2) by (rule D(5))
    then show ?thesis using ic j(2) by simp
  qed
  have b: "map_of (busy ?f) k = (if k = job_key jb then None else map_of (busy f) k)" for k
    by (simp add: delete_conv)
  have l: "leads (callers ?f ! j) = (if j = i then None else leads (callers f ! j))" if "j < length (callers f)" for j
    using assms(2) that by simp
  have ok: "caller_ok ?f (callers f ! j)" if j: "j < length (callers f)" "j \<noteq> i" for j
  proof (cases "callers f ! j")
    case (Waiting jb' c')
    then have w: "c' < length (outcome f)"
      "case outcome f ! c' of Some r \<Rightarrow> right_object (job_key jb') r | None \<Rightarrow> map_of (busy f) (job_key jb') = Some c'"
      using D(2) [OF j(1)] by simp_all
    show ?thesis
    proof (cases "c' = c")
      case True
      then have "job_key jb' = job_key jb" using w(2) D(3) [OF me(1)] by (intro uniq) simp
      then show ?thesis using Waiting True w(1) me(2) by simp
    next
      case False
      then show ?thesis using Waiting w me(1) unfolding Waiting by (auto simp: delete_conv split: option.splits)
    qed
  next
    case (Fetching jb' c')
    then have lj: "leads (callers f ! j) = Some (job_key jb', c')" by simp
    have "c' \<noteq> c" using D(5) [OF j(1) assms(2) lj] ic j(2) by blast
    then show ?thesis using Fetching D(2) [OF j(1)] me by (auto simp: delete_conv)
  next
    case (Fetched jb' c' r')
    then have lj: "leads (callers f ! j) = Some (job_key jb', c')" by simp
    have "c' \<noteq> c" using D(5) [OF j(1) assms(2) lj] ic j(2) by blast
    then show ?thesis using Fetched D(2) [OF j(1)] me by (auto simp: delete_conv)
  qed (use D(2) [OF j(1)] in simp_all)
  show ?thesis
  proof (rule flight_invI)
    show "mesh_inv P J (fstore ?f)" using D(1) by simp
    show "caller_ok ?f (callers ?f ! j)" if "j < length (callers ?f)" for j
      using ok [of j] assms(2) me that by (cases "j = i") simp_all
  next
    fix k d assume k: "map_of (busy ?f) k = Some d"
    then have kf: "map_of (busy f) k = Some d" "k \<noteq> job_key jb" unfolding b by (auto split: if_splits)
    then have "d \<noteq> c" using uniq by auto
    then show "d < length (outcome ?f) \<and> outcome ?f ! d = None" using D(3) [OF kf(1)] by simp
    obtain j where j: "j < length (callers f)" "leads (callers f ! j) = Some (k, d)" using D(4) [OF kf(1)] by blast
    then have "j \<noteq> i" using ic kf(2) by auto
    then show "\<exists>j < length (callers ?f). leads (callers ?f ! j) = Some (k, d)" using j l [OF j(1)] by (intro exI [of _ j]) simp
  next
    fix a d k e k' assume "a < length (callers ?f)" "d < length (callers ?f)"
      "leads (callers ?f ! a) = Some (k, e)" "leads (callers ?f ! d) = Some (k', e)"
    then show "a = d" using l [of a] l [of d] D(5) [of a d k e k'] by (auto split: if_splits)
  qed
qed

lemma flight_caller_inv:
  "flight_inv P J f \<Longrightarrow> i < length (callers f) \<Longrightarrow> callers f ! i = cl \<Longrightarrow> flight_inv P J (flight_caller P J f ev i cl)"
proof (induction P J f ev i cl rule: flight_caller.induct)
  case (1 P J f u jb io i)
  then show ?case
    using flight_inv_caller' [OF 1(1,2)] local_lookup_right [of P J io "fstore f" jb] by (simp split: sum.split)
next
  case (2 P J f u i jb)
  show ?case
  proof (cases "map_of (busy f) (job_key jb)")
    case None
    then show ?thesis using flight_inv_start [OF 2(1,2,3)] by (simp add: Let_def)
  next
    case (Some c)
    then show ?thesis using flight_inv_caller' [OF 2(1,2), of "Waiting jb c"] 2(3) flight_inv_D(3) [OF 2(1) Some] by simp
  qed
next
  case (3 P J f u io resp i jb c)
  obtain s1 r where r: "remote_fetch P J io resp (fstore f) jb = (s1, r)" by (metis surj_pair)
  note e = remote_fetch_effect [OF flight_inv_D(1) [OF 3(1)] r]
  have "caller_ok f (Fetched jb c r)" using flight_inv_D(2) [OF 3(1,2)] 3(3) e(2) by simp
  then show ?case using flight_inv_caller [OF 3(1) e(1) 3(2), of "Fetched jb c r"] 3(3) r by simp
next
  case (4 P J f u i jb c r)
  then show ?case using flight_inv_publish [OF 4] by simp
next
  case (5 P J f u i jb c)
  then show ?case
    using flight_inv_caller' [OF 5(1,2)] flight_inv_D(2) [OF 5(1,2)] by (simp split: option.splits)
next
  case (6 P J f u i jb c)
  then show ?case using flight_inv_caller' [OF 6(1,2), of "Returned jb (Inl ErrCtxDone)"] 6(1) by simp
qed simp_all

lemma flight_step_inv: "flight_inv P J f \<Longrightarrow> flight_inv P J (flight_step P J f ev)"
  by (simp add: flight_step_def Let_def flight_caller_inv)

interpretation flightrun: run_invariant "flight_step P J" "flight_inv P J" for P J
  by unfold_locales (rule flight_step_inv)

definition flight_start :: "ObjectStore \<Rightarrow> bool list \<Rightarrow> flight" where
  "flight_start s ends =
     \<lparr>fstore = s, endable = ends, busy = [], outcome = [], callers = replicate (length ends) Idle\<rparr>"

lemma flight_start_inv: "mesh_inv P J s \<Longrightarrow> flight_inv P J (flight_start s ends)"
  by (rule flight_invI) (simp_all add: flight_start_def)

lemma flight_same_key:
  assumes "flight_inv P J f" "i < length (callers f)" "j < length (callers f)"
    and "leads (callers f ! i) = Some (k, c)" "leads (callers f ! j) = Some (k, c')"
  shows "i = j"
proof -
  note D = flight_inv_D [OF assms(1)]
  have "map_of (busy f) k = Some c" "map_of (busy f) k = Some c'"
    using leads_busy [OF D(2) [OF assms(2)] assms(4)] leads_busy [OF D(2) [OF assms(3)] assms(5)] by simp_all
  then have "leads (callers f ! j) = Some (k, c)" using assms(5) by simp
  then show ?thesis using D(5) [OF assms(2,3,4)] by blast
qed

text \<open>
  A published result stays: only the leader of a call writes its outcome, and a call whose outcome is written
  has no leader any more.
\<close>

lemma outcome_kept_step:
  assumes "flight_inv P J f" "c < length (outcome f)" "outcome f ! c = Some r"
  shows "c < length (outcome (flight_step P J f ev)) \<and> outcome (flight_step P J f ev) ! c = Some r"
proof (cases "event_caller ev < length (callers f)")
  case True
  let ?i = "event_caller ev"
  have "c' \<noteq> c" if "leads (callers f ! ?i) = Some (k, c')" for k c'
    using flight_inv_D(3) [OF assms(1) leads_busy [OF flight_inv_D(2) [OF assms(1) True] that]] assms(3) by auto
  then have "c < length (outcome (flight_caller P J f ev ?i (callers f ! ?i))) \<and>
      outcome (flight_caller P J f ev ?i (callers f ! ?i)) ! c = Some r"
    using assms(2,3)
    by (cases ev; cases "callers f ! ?i") (auto simp: Let_def nth_append split: sum.split option.split prod.split)
  then show ?thesis using True by (simp add: flight_step_def Let_def)
qed (use assms in \<open>simp add: flight_step_def Let_def\<close>)

lemma outcome_kept:
  "flight_inv P J f \<Longrightarrow> c < length (outcome f) \<Longrightarrow> outcome f ! c = Some r \<Longrightarrow>
     outcome (foldl (flight_step P J) f evs) ! c = Some r"
proof (induction evs arbitrary: f)
  case (Cons ev evs)
  then show ?case using outcome_kept_step [OF Cons.prems] flight_step_inv by simp
qed simp

lemma callers_length [simp]: "length (callers (flight_step P J f ev)) = length (callers f)"
  by (cases ev; cases "callers f ! event_caller ev")
    (auto simp: flight_step_def Let_def split: sum.split option.split prod.split)

lemma callers_length_run [simp]: "length (callers (foldl (flight_step P J) f evs)) = length (callers f)"
  by (induction evs arbitrary: f) simp_all

lemma wake_returns:
  "i < length (callers f) \<Longrightarrow> callers f ! i = Waiting jb c \<Longrightarrow> outcome f ! c = Some r \<Longrightarrow>
     callers (flight_step P J f (FWake i)) ! i = Returned jb r"
  by (simp add: flight_step_def)

lemma publish_wakes:
  assumes "i < length (callers f)" "callers f ! i = Waiting jb c" "j < length (callers f)" "callers f ! j = Fetched jb' c r"
    and "c < length (outcome f)"
  shows "callers (foldl (flight_step P J) f [FPublish j, FWake i]) ! i = Returned jb r \<and>
    callers (foldl (flight_step P J) f [FPublish j, FWake i]) ! j = Returned jb' r"
proof -
  have "i \<noteq> j" using assms(2,4) by auto
  then show ?thesis using assms by (simp add: flight_step_def)
qed

text \<open>The leader's answer, whatever it is, reaches the caller that waits for it.\<close>

lemma answer_wakes:
  assumes "flight_inv P J f" "i < length (callers f)" "callers f ! i = Waiting jb c"
    and "j < length (callers f)" "leads (callers f ! j) = Some (k, c)" "c < length (outcome f)"
  shows "\<exists>jb' r. job_key jb' = k \<and> callers (foldl (flight_step P J) f [FAnswer j io resp, FPublish j, FWake i]) ! j = Returned jb' r \<and>
    callers (foldl (flight_step P J) f [FAnswer j io resp, FPublish j, FWake i]) ! i = Returned jb r"
proof (cases "callers f ! j")
  case (Fetched jb' c' r)
  then have "flight_step P J f (FAnswer j io resp) = f" "c' = c" "job_key jb' = k"
    using assms(4,5) by (simp_all add: flight_step_def)
  then show ?thesis using publish_wakes [of i f jb c j jb' r P J] Fetched assms by (intro exI [of _ jb'] exI [of _ r]) simp
next
  case (Fetching jb' c')
  then have ne: "i \<noteq> j" "c' = c" "job_key jb' = k" using assms(3,5) by auto
  let ?f = "flight_step P J f (FAnswer j io resp)"
  have "callers ?f ! i = Waiting jb c" "i < length (callers ?f)" "j < length (callers ?f)" "outcome ?f = outcome f"
    "\<exists>r. callers ?f ! j = Fetched jb' c r"
    using Fetching ne assms(2-4) by (simp_all add: flight_step_def case_prod_unfold)
  then obtain r where "callers (foldl (flight_step P J) ?f [FPublish j, FWake i]) ! i = Returned jb r \<and>
      callers (foldl (flight_step P J) ?f [FPublish j, FWake i]) ! j = Returned jb' r"
    using publish_wakes [of i ?f jb c j jb' _ P J] assms(6) by metis
  then show ?thesis using ne(3) by (metis foldl_Cons)
qed (use assms(5) in simp_all)

lemma waiting_served:
  assumes "flight_inv P J f" "i < length (callers f)" "callers f ! i = Waiting jb c"
  shows "(\<exists>r. \<forall>evs'. callers (foldl (flight_step P J) f evs') ! i = Waiting jb c \<longrightarrow>
       callers (flight_step P J (foldl (flight_step P J) f evs') (FWake i)) ! i = Returned jb r) \<or>
    (\<exists>j < length (callers f). leads (callers f ! j) = Some (job_key jb, c) \<and>
       (\<forall>io resp. \<exists>jb' r. job_key jb' = job_key jb \<and>
          callers (foldl (flight_step P J) f [FAnswer j io resp, FPublish j, FWake i]) ! j = Returned jb' r \<and>
          callers (foldl (flight_step P J) f [FAnswer j io resp, FPublish j, FWake i]) ! i = Returned jb r))"
proof -
  note D = flight_inv_D [OF assms(1)]
  have c: "c < length (outcome f)" using D(2) [OF assms(2)] assms(3) by simp
  show ?thesis
  proof (cases "outcome f ! c")
    case (Some r)
    then have "outcome (foldl (flight_step P J) f evs') ! c = Some r" for evs' using outcome_kept [OF assms(1) c] by blast
    then show ?thesis using wake_returns [of i _ jb c r P J] assms(2) by (intro disjI1 exI [of _ r]) simp
  next
    case None
    then have "map_of (busy f) (job_key jb) = Some c" using D(2) [OF assms(2)] assms(3) by simp
    then obtain j where j: "j < length (callers f)" "leads (callers f ! j) = Some (job_key jb, c)" using D(4) by blast
    then show ?thesis using answer_wakes [OF assms j c] by (intro disjI2 exI [of _ j]) blast
  qed
qed

text \<open>
  C16. Many callers, one request. However the callers' sections interleave and whatever the peer answers, at
  most one caller per key is talking to the peer. A caller that waits is served: either the result of the
  call it waits for is published, and then whatever else happens its wake-up returns that result; or one
  caller leads that call, and whatever the peer answers that caller, once it has published, the two return
  the same result, without a second request. A caller that asked for a valid hash gets an object with that
  hash or an error.
\<close>

theorem single_flight:
  assumes "mesh_inv P J s" "f = foldl (flight_step P J) (flight_start s ends) evs"
  shows "(\<forall>i < length (callers f). \<forall>j < length (callers f). \<forall>k c c'.
      leads (callers f ! i) = Some (k, c) \<and> leads (callers f ! j) = Some (k, c') \<longrightarrow> i = j) \<and>
    (\<forall>i < length (callers f). \<forall>jb c. callers f ! i = Waiting jb c \<longrightarrow>
       (\<exists>r. \<forall>evs'. callers (foldl (flight_step P J) f evs') ! i = Waiting jb c \<longrightarrow>
          callers (flight_step P J (foldl (flight_step P J) f evs') (FWake i)) ! i = Returned jb r) \<or>
       (\<exists>j < length (callers f). leads (callers f ! j) = Some (job_key jb, c) \<and>
          (\<forall>io resp. \<exists>jb' r. job_key jb' = job_key jb \<and>
             callers (foldl (flight_step P J) f [FAnswer j io resp, FPublish j, FWake i]) ! j = Returned jb' r \<and>
             callers (foldl (flight_step P J) f [FAnswer j io resp, FPublish j, FWake i]) ! i = Returned jb r))) \<and>
    (\<forall>i < length (callers f). \<forall>h ob. validHash h \<and> callers f ! i = Returned (ByHash h) (Inr ob) \<longrightarrow> HashString ob = h)"
proof -
  have inv: "flight_inv P J f" unfolding assms(2) by (rule flightrun.run_inv [OF flight_start_inv [OF assms(1)]])
  have "HashString ob = h" if "i < length (callers f)" "validHash h" "callers f ! i = Returned (ByHash h) (Inr ob)" for i h ob
    using flight_inv_D(2) [OF inv that(1)] that by simp
  then show ?thesis using flight_same_key [OF inv] waiting_served [OF inv] by blast
qed

text \<open>
  Two callers of \<^verbatim>\<open>Get\<close> for one hash: the first leads, the second waits and cannot be cancelled, and with any
  answer of the peer to the first one both return the same result.
\<close>

theorem single_flight_witness:
  "\<forall>resp. \<exists>f r. f = foldl (flight_step demo_prims demo_object_json) (flight_start demo_store [False, False])
       [FLook 0 (ByHash [1]) demo_io, FLook 1 (ByHash [1]) demo_io, FJoin 0, FJoin 1, FCancel 1] \<and>
     callers f = [Fetching (ByHash [1]) 0, Waiting (ByHash [1]) 0] \<and>
     callers (foldl (flight_step demo_prims demo_object_json) f [FAnswer 0 demo_io resp, FPublish 0, FWake 1]) ! 1 =
       Returned (ByHash [1]) r"
proof
  fix resp
  let ?evs = "[FLook 0 (ByHash [1]) demo_io, FLook 1 (ByHash [1]) demo_io, FJoin 0, FJoin 1, FCancel 1]"
  let ?f = "foldl (flight_step demo_prims demo_object_json) (flight_start demo_store [False, False]) ?evs"
  have "mesh_Get demo_prims demo_object_json False demo_store [1] = Inl ErrMeshAddress" by (simp add: mesh_Get_def validHash_def)
  then have c: "callers ?f = [Fetching (ByHash [1]) 0, Waiting (ByHash [1]) 0]" and o: "outcome ?f = [None]"
    by (simp_all add: flight_step_def flight_start_def local_lookup_def)
  note T = single_flight [OF demo_store_inv refl, of "[False, False]" ?evs]
  have w: "callers ?f ! 1 = Waiting (ByHash [1]) 0" "1 < length (callers ?f)" unfolding c by simp_all
  from T w have "(\<exists>r. callers (flight_step demo_prims demo_object_json ?f (FWake 1)) ! 1 = Returned (ByHash [1]) r) \<or>
     (\<exists>j < length (callers ?f). leads (callers ?f ! j) = Some (job_key (ByHash [1]), 0) \<and>
        (\<exists>r. callers (foldl (flight_step demo_prims demo_object_json) ?f [FAnswer j demo_io resp, FPublish j, FWake 1]) ! 1 =
          Returned (ByHash [1]) r))"
    by (metis foldl_Nil)
  moreover have "callers (flight_step demo_prims demo_object_json ?f (FWake 1)) ! 1 = Waiting (ByHash [1]) 0"
    using c o by (simp only: flight_step_def) simp
  moreover have "j = 0" if "j < length (callers ?f)" "leads (callers ?f ! j) \<noteq> None" for j
    using that unfolding c by (cases j) (auto simp: less_Suc_eq)
  ultimately show "\<exists>f r. f = ?f \<and> callers f = [Fetching (ByHash [1]) 0, Waiting (ByHash [1]) 0] \<and>
     callers (foldl (flight_step demo_prims demo_object_json) f [FAnswer 0 demo_io resp, FPublish 0, FWake 1]) ! 1 =
       Returned (ByHash [1]) r"
    using c by (metis caller.distinct(23) option.distinct(1))
qed

end
