(* ===== verification/Go_Strings.thy ===== *)
theory Go_Strings
  imports Gandr_Prelude
begin

text \<open>
  Functions of Go's \<^verbatim>\<open>strings\<close>, \<^verbatim>\<open>path/filepath\<close>, \<^verbatim>\<open>strconv\<close> and \<^verbatim>\<open>encoding/base64\<close> packages that the analyzer's
  own packages use, on byte strings, with the facts their callers rely on.
\<close>

section \<open>strings.TrimSpace\<close>

text \<open>
  The number of bytes of the white space character at the front of a string, 0 if there is none; at the
  end, the same on the reversed string. The characters are those of \<^verbatim>\<open>unicode.IsSpace\<close>.
\<close>

definition space1 :: "byte \<Rightarrow> bool" where
  "space1 a \<longleftrightarrow> a = 32 \<or> 9 \<le> unat a \<and> unat a \<le> 13"

definition space2 :: "byte \<Rightarrow> byte \<Rightarrow> bool" where
  "space2 a b \<longleftrightarrow> a = 194 \<and> (b = 133 \<or> b = 160)"

definition space3 :: "byte \<Rightarrow> byte \<Rightarrow> byte \<Rightarrow> bool" where
  "space3 a b c \<longleftrightarrow>
     a = 225 \<and> b = 154 \<and> c = 128 \<or>
     a = 226 \<and> b = 128 \<and> (128 \<le> unat c \<and> unat c \<le> 138 \<or> c = 168 \<or> c = 169 \<or> c = 175) \<or>
     a = 226 \<and> b = 129 \<and> c = 159 \<or>
     a = 227 \<and> b = 128 \<and> c = 128"

definition space_front :: "gostring \<Rightarrow> nat" where
  "space_front s =
     (case s of
        a # r \<Rightarrow>
          if space1 a then 1
          else (case r of
                  b # r2 \<Rightarrow>
                    if space2 a b then 2
                    else (case r2 of c # _ \<Rightarrow> if space3 a b c then 3 else 0 | [] \<Rightarrow> 0)
                | [] \<Rightarrow> 0)
      | [] \<Rightarrow> 0)"

definition space_back :: "gostring \<Rightarrow> nat" where
  "space_back s =
     (case s of
        c # r \<Rightarrow>
          if space1 c then 1
          else (case r of
                  b # r2 \<Rightarrow>
                    if space2 b c then 2
                    else (case r2 of a # _ \<Rightarrow> if space3 a b c then 3 else 0 | [] \<Rightarrow> 0)
                | [] \<Rightarrow> 0)
      | [] \<Rightarrow> 0)"

function trim_with :: "(gostring \<Rightarrow> nat) \<Rightarrow> gostring \<Rightarrow> gostring" where
  "trim_with w s = (if w s = 0 \<or> s = [] then s else trim_with w (drop (w s) s))"
  by pat_completeness auto
termination
  by (relation "measure (length \<circ> snd)") auto

declare trim_with.simps [simp del]

definition TrimSpace :: "gostring \<Rightarrow> gostring" where
  "TrimSpace s = rev (trim_with space_back (rev (trim_with space_front s)))"

lemma trim_with_Nil [simp]: "trim_with w [] = []"
  by (simp add: trim_with.simps)

lemma TrimSpace_Nil [simp]: "TrimSpace [] = []"
  by (simp add: TrimSpace_def)

lemma trim_with_fix: "w s = 0 \<Longrightarrow> trim_with w s = s"
  by (simp add: trim_with.simps)

lemma trim_with_done: "w [] = 0 \<Longrightarrow> w (trim_with w s) = 0"
proof (induction w s rule: trim_with.induct)
  case (1 w s)
  then show ?case by (cases "w s = 0 \<or> s = []") (auto simp: trim_with.simps [of w s])
qed

lemma trim_with_suffix: "\<exists>p. s = p @ trim_with w s"
proof (induction w s rule: trim_with.induct)
  case (1 w s)
  show ?case
  proof (cases "w s = 0 \<or> s = []")
    case True
    then show ?thesis by (auto simp: trim_with.simps [of w s])
  next
    case False
    then obtain p where "drop (w s) s = p @ trim_with w (drop (w s) s)" using 1 by blast
    then have "s = (take (w s) s @ p) @ trim_with w (drop (w s) s)" by (metis append.assoc append_take_drop_id)
    then show ?thesis using False trim_with.simps [of w s] by metis
  qed
qed

lemma space_front_append: "space_front t \<noteq> 0 \<Longrightarrow> space_front (t @ z) = space_front t"
  by (auto simp: space_front_def split: list.splits if_splits)

lemma space_front_trim: "space_front (TrimSpace s) = 0" "space_back (rev (TrimSpace s)) = 0"
proof -
  let ?u = "trim_with space_front s"
  show "space_back (rev (TrimSpace s)) = 0"
    by (simp add: TrimSpace_def trim_with_done space_back_def [of "[]"])
  obtain p where "rev ?u = p @ trim_with space_back (rev ?u)" using trim_with_suffix by blast
  then have "?u = TrimSpace s @ rev p" by (metis TrimSpace_def rev_append rev_rev_ident)
  moreover have "space_front ?u = 0" by (simp add: trim_with_done space_front_def [of "[]"])
  ultimately show "space_front (TrimSpace s) = 0" using space_front_append by metis
qed

lemma TrimSpace_idem [simp]: "TrimSpace (TrimSpace s) = TrimSpace s"
proof -
  have "trim_with space_front (TrimSpace s) = TrimSpace s" using space_front_trim(1) by (rule trim_with_fix)
  moreover have "trim_with space_back (rev (TrimSpace s)) = rev (TrimSpace s)" using space_front_trim(2) by (rule trim_with_fix)
  ultimately show ?thesis unfolding TrimSpace_def [of "TrimSpace s"] by simp
qed

lemma TrimSpace_id: "space_front s = 0 \<Longrightarrow> space_back (rev s) = 0 \<Longrightarrow> TrimSpace s = s"
  by (simp add: TrimSpace_def trim_with_fix)

section \<open>Prefixes, separators and numbers\<close>

definition HasPrefix :: "gostring \<Rightarrow> gostring \<Rightarrow> bool" where
  "HasPrefix s p \<longleftrightarrow> take (length p) s = p"

definition TrimPrefix :: "gostring \<Rightarrow> gostring \<Rightarrow> gostring" where
  "TrimPrefix s p = (if HasPrefix s p then drop (length p) s else s)"

lemma HasPrefix_append [simp]: "HasPrefix (p @ s) p" "TrimPrefix (p @ s) p = s"
  by (simp_all add: HasPrefix_def TrimPrefix_def)

text \<open>\<^verbatim>\<open>strings.Split\<close> with a separator of one byte.\<close>

fun Split :: "byte \<Rightarrow> gostring \<Rightarrow> gostring list" where
  "Split sep [] = [[]]"
| "Split sep (c # s) =
     (if c = sep then [] # Split sep s
      else case Split sep s of [] \<Rightarrow> [[c]] | w # ws \<Rightarrow> (c # w) # ws)"

lemma Split_nonempty [simp]: "Split sep s \<noteq> []"
  by (induction s) (auto split: list.split)

definition ascii_lower :: "gostring \<Rightarrow> gostring" where
  "ascii_lower s = map (\<lambda>c. if 65 \<le> unat c \<and> unat c \<le> 90 then c + 32 else c) s"

definition ParseBool :: "gostring \<Rightarrow> bool option" where
  "ParseBool s =
     (if s \<in> set (map str [''1'', ''t'', ''T'', ''true'', ''TRUE'', ''True'']) then Some True
      else if s \<in> set (map str [''0'', ''f'', ''F'', ''false'', ''FALSE'', ''False'']) then Some False
      else None)"

section \<open>filepath\<close>

definition path_sep :: byte where "path_sep = 47"

definition intercalate :: "gostring list \<Rightarrow> gostring" where
  "intercalate ws = (case ws of [] \<Rightarrow> [] | w # r \<Rightarrow> w @ concat (map (\<lambda>x. path_sep # x) r))"

text \<open>One element of a path, on the elements kept so far (the last one first).\<close>

definition clean_elem :: "bool \<Rightarrow> gostring list \<Rightarrow> gostring \<Rightarrow> gostring list" where
  "clean_elem rooted out w =
     (if w = [] \<or> w = str ''.'' then out
      else if w = str ''..'' then
        (case out of
           [] \<Rightarrow> if rooted then [] else [w]
         | l # r \<Rightarrow> if l = str ''..'' then w # out else r)
      else w # out)"

definition Clean :: "gostring \<Rightarrow> gostring" where
  "Clean p =
     (if p = [] then str ''.''
      else
        let rooted = (hd p = path_sep);
            out = rev (foldl (clean_elem rooted) [] (Split path_sep p))
        in if rooted then path_sep # intercalate out
           else if out = [] then str ''.'' else intercalate out)"

text \<open>\<^verbatim>\<open>filepath.Join\<close> and \<^verbatim>\<open>filepath.Dir\<close>.\<close>

definition JoinPath :: "gostring list \<Rightarrow> gostring" where
  "JoinPath ws =
     (let rest = dropWhile (\<lambda>w. w = []) ws in
      if rest = [] then [] else Clean (intercalate rest))"

definition Dir :: "gostring \<Rightarrow> gostring" where
  "Dir p = Clean (rev (dropWhile (\<lambda>c. c \<noteq> path_sep) (rev p)))"

section \<open>encoding/base64\<close>

definition b64_char :: "bool \<Rightarrow> nat \<Rightarrow> byte" where
  "b64_char url n =
     (if n < 26 then of_nat (65 + n) else if n < 52 then of_nat (71 + n) else if n < 62 then of_nat (n - 4)
      else if n = 62 then (if url then 45 else 43) else (if url then 95 else 47))"

definition b64_value :: "bool \<Rightarrow> byte \<Rightarrow> nat option" where
  "b64_value url c =
     (let n = unat c in
      if 65 \<le> n \<and> n \<le> 90 then Some (n - 65) else if 97 \<le> n \<and> n \<le> 122 then Some (n - 71)
      else if 48 \<le> n \<and> n \<le> 57 then Some (n + 4)
      else if n = (if url then 45 else 43) then Some 62 else if n = (if url then 95 else 47) then Some 63 else None)"

text \<open>
  \<^verbatim>\<open>StdEncoding\<close> pads and has its own alphabet, \<^verbatim>\<open>RawURLEncoding\<close> does not pad; the flag says which.
\<close>

fun b64_encode :: "bool \<Rightarrow> bytes \<Rightarrow> gostring" where
  "b64_encode url [] = []"
| "b64_encode url [a] =
     b64_char url (unat a div 4) # b64_char url (unat a mod 4 * 16) # (if url then [] else [61, 61])"
| "b64_encode url [a, b] =
     b64_char url (unat a div 4) # b64_char url (unat a mod 4 * 16 + unat b div 16) # b64_char url (unat b mod 16 * 4) #
     (if url then [] else [61])"
| "b64_encode url (a # b # c # r) =
     b64_char url (unat a div 4) # b64_char url (unat a mod 4 * 16 + unat b div 16) #
     b64_char url (unat b mod 16 * 4 + unat c div 64) # b64_char url (unat c mod 64) # b64_encode url r"

definition b64_1 :: "nat \<Rightarrow> nat \<Rightarrow> byte" where "b64_1 x y = of_nat (x * 4 + y div 16)"
definition b64_2 :: "nat \<Rightarrow> nat \<Rightarrow> byte" where "b64_2 y z = of_nat (y mod 16 * 16 + z div 4)"
definition b64_3 :: "nat \<Rightarrow> nat \<Rightarrow> byte" where "b64_3 z w = of_nat (z mod 4 * 64 + w)"

fun b64_quanta :: "bool \<Rightarrow> gostring \<Rightarrow> bytes option" where
  "b64_quanta url [] = Some []"
| "b64_quanta url [x] = None"
| "b64_quanta url [x, y] =
     (if \<not> url then None
      else case (b64_value url x, b64_value url y) of (Some a, Some b) \<Rightarrow> Some [b64_1 a b] | _ \<Rightarrow> None)"
| "b64_quanta url [x, y, z] =
     (if \<not> url then None
      else case (b64_value url x, b64_value url y, b64_value url z) of
             (Some a, Some b, Some c) \<Rightarrow> Some [b64_1 a b, b64_2 b c] | _ \<Rightarrow> None)"
| "b64_quanta url (x # y # z # w # r) =
     (case (b64_value url x, b64_value url y) of
        (Some a, Some b) \<Rightarrow>
          if \<not> url \<and> r = [] \<and> w = 61 then
            (if z = 61 then Some [b64_1 a b]
             else case b64_value url z of Some c \<Rightarrow> Some [b64_1 a b, b64_2 b c] | None \<Rightarrow> None)
          else
            (case (b64_value url z, b64_value url w, b64_quanta url r) of
               (Some c, Some d, Some bs) \<Rightarrow> Some (b64_1 a b # b64_2 b c # b64_3 c d # bs) | _ \<Rightarrow> None)
      | _ \<Rightarrow> None)"

text \<open>The decoder skips line breaks.\<close>

definition b64_decode :: "bool \<Rightarrow> gostring \<Rightarrow> bytes option" where
  "b64_decode url s = b64_quanta url (filter (\<lambda>c. c \<noteq> 10 \<and> c \<noteq> 13) s)"

lemma b64_value_char [simp]: "n < 64 \<Longrightarrow> b64_value url (b64_char url n) = Some n"
  by (auto simp: b64_value_def b64_char_def Let_def simp del: of_nat_add of_nat_diff)

lemma b64_char_plain: "n < 64 \<Longrightarrow> b64_char url n \<noteq> 10 \<and> b64_char url n \<noteq> 13 \<and> b64_char url n \<noteq> 61"
proof -
  assume "n < 64"
  then have "b64_value url (b64_char url n) = Some n" by simp
  then show ?thesis by (auto simp: b64_value_def Let_def split: if_splits)
qed

lemma byte_bounds [simp]: "unat (a :: byte) div 4 < 64" "unat a mod 4 * 16 + unat (b :: byte) div 16 < 64"
  "unat b mod 16 * 4 + unat (c :: byte) div 64 < 64" "unat c mod 64 < 64" "unat a mod 4 * 16 < 64" "unat b mod 16 * 4 < 64"
  using unsigned_less [of a, where ?'a = nat] unsigned_less [of b, where ?'a = nat] unsigned_less [of c, where ?'a = nat]
  by simp_all

lemma b64_bytes [simp]:
  "b64_1 (unat a div 4) (unat (a :: byte) mod 4 * 16 + unat (b :: byte) div 16) = a"
  "b64_1 (unat a div 4) (unat a mod 4 * 16) = a"
  "b64_2 (unat a mod 4 * 16 + unat b div 16) (unat b mod 16 * 4 + unat (c :: byte) div 64) = b"
  "b64_2 (unat a mod 4 * 16 + unat b div 16) (unat b mod 16 * 4) = b"
  "b64_3 (unat b mod 16 * 4 + unat c div 64) (unat c mod 64) = c"
proof -
  have l: "unat a < 256" "unat b < 256" "unat c < 256"
    using unsigned_less [of a, where ?'a = nat] unsigned_less [of b, where ?'a = nat] unsigned_less [of c, where ?'a = nat] by simp_all
  have a: "unat a div 4 * 4 + (unat a mod 4 * 16 + unat b div 16) div 16 = unat a" using l by simp
  show "b64_1 (unat a div 4) (unat a mod 4 * 16 + unat b div 16) = a"
    unfolding b64_1_def a by simp
  have a': "unat a div 4 * 4 + unat a mod 4 * 16 div 16 = unat a" by simp
  show "b64_1 (unat a div 4) (unat a mod 4 * 16) = a"
    unfolding b64_1_def a' by simp
  have m: "(unat a mod 4 * 16 + unat b div 16) mod 16 = unat b div 16" using l by simp
  have b: "unat b div 16 * 16 + (unat b mod 16 * 4 + unat c div 64) div 4 = unat b" using l by simp
  show "b64_2 (unat a mod 4 * 16 + unat b div 16) (unat b mod 16 * 4 + unat c div 64) = b"
    unfolding b64_2_def m b by simp
  have b': "unat b div 16 * 16 + unat b mod 16 * 4 div 4 = unat b" by simp
  show "b64_2 (unat a mod 4 * 16 + unat b div 16) (unat b mod 16 * 4) = b"
    unfolding b64_2_def m b' by simp
  have n: "(unat b mod 16 * 4 + unat c div 64) mod 4 = unat c div 64" using l by simp
  have c: "unat c div 64 * 64 + unat c mod 64 = unat c" by simp
  show "b64_3 (unat b mod 16 * 4 + unat c div 64) (unat c mod 64) = c"
    unfolding b64_3_def n c by simp
qed

lemma b64_encode_plain: "\<forall>x \<in> set (b64_encode url bs). x \<noteq> 10 \<and> x \<noteq> 13"
  by (induction url bs rule: b64_encode.induct) (auto simp: b64_char_plain)

lemma b64_quanta_encode: "b64_quanta url (b64_encode url bs) = Some bs"
  by (induction url bs rule: b64_encode.induct) (auto simp: b64_char_plain)

lemma b64_roundtrip [simp]: "b64_decode url (b64_encode url bs) = Some bs"
proof -
  have "filter (\<lambda>c. c \<noteq> 10 \<and> c \<noteq> 13) (b64_encode url bs) = b64_encode url bs"
    using b64_encode_plain by (simp add: filter_id_conv)
  then show ?thesis by (simp add: b64_decode_def b64_quanta_encode)
qed

lemma length_b64_std: "length (b64_encode False bs) = 4 * ((length bs + 2) div 3)"
proof (induction False bs rule: b64_encode.induct)
  case (4 a b c r)
  have "(length (a # b # c # r) + 2) div 3 = Suc ((length r + 2) div 3)" by simp
  with 4 show ?case by simp
qed simp_all

interpretation b64: encoder "b64_encode url" "b64_decode url" "\<lambda>_. True" for url
  by unfold_locales simp

end
