(* ===== verification/Mesh_Config.thy ===== *)
theory Mesh_Config
  imports Mesh_Store Go_Strings
begin

text \<open>
  \<^verbatim>\<open>internal/mesh/config.go\<close>, \<^verbatim>\<open>identity.go\<close> and \<^verbatim>\<open>invite.go\<close>: the configuration of the cache mesh from a file
  and the environment, its transport key on disk, and the connection invite. The TOML decoder and
  \<^verbatim>\<open>time.ParseDuration\<close> (whose fractions are floating point) are parameters, as is \<^verbatim>\<open>encoding/json\<close> for the
  invite; the process environment is a partial map, the files are those of the object store.
\<close>

abbreviation (input) PublicKeySize :: nat where "PublicKeySize \<equiv> 32"

section \<open>Configuration\<close>

record MConfig =
  Enabled :: bool
  ShareCache :: bool
  IdentityPath :: gostring
  ObjectPath :: gostring
  Listen :: "gostring list"
  Advertise :: "gostring list"
  Peers :: "gostring list"
  PeerKey :: bytes
  OriginEnabled :: bool
  OriginForums :: "gostring list"
  OriginInterval :: duration
  OriginMaxPages :: int
  OriginDiscoverSubforums :: bool
  OriginMaxForums :: int
  OriginBatchSize :: int

record fileMeshConfig =
  fm_enabled :: bool
  fm_share_cache :: bool
  fm_listen :: "gostring list"
  fm_advertise :: "gostring list"
  fm_peers :: "gostring list"
  fm_peer_key :: gostring

record fileOriginConfig =
  fo_enabled :: bool
  fo_forums :: "gostring list"
  fo_interval :: gostring
  fo_max_pages :: int
  fo_discover_subforums :: bool
  fo_max_forums :: int
  fo_batch_size :: int

record fileConfig =
  file_mesh :: fileMeshConfig
  file_origin :: fileOriginConfig

type_synonym environ = "gostring \<Rightarrow> gostring option"

text \<open>\<^verbatim>\<open>os.Getenv\<close>, and \<^verbatim>\<open>os.UserHomeDir\<close> with its error ignored.\<close>

definition Getenv :: "environ \<Rightarrow> gostring \<Rightarrow> gostring" where
  "Getenv env name = (case env name of None \<Rightarrow> [] | Some v \<Rightarrow> v)"

definition UserHome :: "environ \<Rightarrow> gostring" where
  "UserHome env = Getenv env (str ''HOME'')"

definition cleanList :: "gostring list \<Rightarrow> gostring list" where
  "cleanList values = filter (\<lambda>v. v \<noteq> []) (map TrimSpace values)"

definition splitList :: "gostring \<Rightarrow> gostring list" where
  "splitList value = cleanList (Split 44 value)"

definition parseKey :: "gostring \<Rightarrow> bytes" where
  "parseKey value =
     (case DecodeString (TrimSpace value) of
        None \<Rightarrow> []
      | Some b \<Rightarrow> if length b \<noteq> PublicKeySize then [] else b)"

text \<open>The second component says whether the variable decides.\<close>

definition envBool :: "environ \<Rightarrow> gostring \<Rightarrow> bool \<times> bool" where
  "envBool env name =
     (case env name of
        None \<Rightarrow> (False, False)
      | Some value \<Rightarrow>
          if TrimSpace value = [] then (False, False)
          else (case ParseBool (TrimSpace value) of
                  Some parsed \<Rightarrow> (parsed, True)
                | None \<Rightarrow>
                    let l = ascii_lower (TrimSpace value) in
                    if l = str ''1'' \<or> l = str ''on'' \<or> l = str ''yes'' then (True, True)
                    else if l = str ''0'' \<or> l = str ''off'' \<or> l = str ''no'' then (False, True)
                    else (False, False)))"

definition defaultConfigPath :: "environ \<Rightarrow> gostring" where
  "defaultConfigPath env =
     (let configHome0 = Getenv env (str ''XDG_CONFIG_HOME'');
          configHome = (if configHome0 = [] then JoinPath [UserHome env, str ''.config''] else configHome0)
      in JoinPath [configHome, str ''backflash'', str ''config.toml''])"

definition base_config :: "environ \<Rightarrow> MConfig" where
  "base_config env =
     (let dataHome0 = Getenv env (str ''XDG_DATA_HOME'');
          dataHome = (if dataHome0 = [] then JoinPath [UserHome env, str ''.local'', str ''share''] else dataHome0);
          base = JoinPath [dataHome, str ''backflash'', str ''mesh'']
      in \<lparr>Enabled = False, ShareCache = False, IdentityPath = JoinPath [base, str ''identity.key''],
          ObjectPath = JoinPath [base, str ''objects''], Listen = [], Advertise = [], Peers = [], PeerKey = [],
          OriginEnabled = False, OriginForums = [], OriginInterval = 30 * Minute, OriginMaxPages = 1,
          OriginDiscoverSubforums = False, OriginMaxForums = 200, OriginBatchSize = 10\<rparr>)"

datatype config_read_error = ErrConfigRead | ErrConfigDecode

definition LoadFrom ::
  "(bytes \<Rightarrow> fileConfig option) \<Rightarrow> (gostring \<Rightarrow> duration option) \<Rightarrow> environ \<Rightarrow> bool \<Rightarrow> fs \<Rightarrow> gostring \<Rightarrow>
     MConfig \<times> config_read_error option" where
  "LoadFrom toml parseDuration env readErr disk file =
     (let cfg = base_config env in
      if TrimSpace file = [] then (cfg, None)
      else case map_of disk file of
        None \<Rightarrow> (cfg, None)
      | Some data \<Rightarrow>
          if readErr then (cfg, Some ErrConfigRead)
          else (case toml data of
                  None \<Rightarrow> (cfg, Some ErrConfigDecode)
                | Some f \<Rightarrow>
                    let m = file_mesh f; q = file_origin f in
                    (cfg\<lparr>Enabled := fm_enabled m, ShareCache := fm_share_cache m, Listen := cleanList (fm_listen m),
                         Advertise := cleanList (fm_advertise m), Peers := cleanList (fm_peers m),
                         PeerKey := parseKey (fm_peer_key m), OriginEnabled := fo_enabled q,
                         OriginForums := cleanList (fo_forums q),
                         OriginInterval :=
                           (if fo_interval q \<noteq> [] then
                              (case parseDuration (fo_interval q) of
                                 Some interval \<Rightarrow> if interval \<ge> Minute then interval else OriginInterval cfg
                               | None \<Rightarrow> OriginInterval cfg)
                            else OriginInterval cfg),
                         OriginMaxPages :=
                           (if fo_max_pages q > 0 \<and> fo_max_pages q \<le> 10 then fo_max_pages q else OriginMaxPages cfg),
                         OriginDiscoverSubforums := fo_discover_subforums q,
                         OriginMaxForums :=
                           (if fo_max_forums q > 0 \<and> fo_max_forums q \<le> 5000 then fo_max_forums q else OriginMaxForums cfg),
                         OriginBatchSize :=
                           (if fo_batch_size q > 0 \<and> fo_batch_size q \<le> 100 then fo_batch_size q else OriginBatchSize cfg)\<rparr>,
                     None)))"

definition applyEnvOverrides :: "environ \<Rightarrow> MConfig \<Rightarrow> MConfig" where
  "applyEnvOverrides env cfg =
     (let cfg1 = (case envBool env (str ''BACKFLASH_MESH_ENABLED'') of (v, ok) \<Rightarrow> if ok then cfg\<lparr>Enabled := v\<rparr> else cfg);
          cfg2 = (case envBool env (str ''BACKFLASH_MESH_SHARE_CACHE'') of (v, ok) \<Rightarrow> if ok then cfg1\<lparr>ShareCache := v\<rparr> else cfg1);
          cfg3 = (case env (str ''BACKFLASH_MESH_LISTEN'') of Some v \<Rightarrow> cfg2\<lparr>Listen := splitList v\<rparr> | None \<Rightarrow> cfg2);
          cfg4 = (case env (str ''BACKFLASH_MESH_PEERS'') of Some v \<Rightarrow> cfg3\<lparr>Peers := splitList v\<rparr> | None \<Rightarrow> cfg3)
      in case env (str ''BACKFLASH_MESH_PEER_KEY'') of Some v \<Rightarrow> cfg4\<lparr>PeerKey := parseKey v\<rparr> | None \<Rightarrow> cfg4)"

definition mesh_Load ::
  "(bytes \<Rightarrow> fileConfig option) \<Rightarrow> (gostring \<Rightarrow> duration option) \<Rightarrow> environ \<Rightarrow> bool \<Rightarrow> fs \<Rightarrow> MConfig" where
  "mesh_Load toml parseDuration env readErr disk =
     (let path0 = Getenv env (str ''BACKFLASH_CONFIG'');
          file = (if path0 = [] then defaultConfigPath env else path0)
      in applyEnvOverrides env (fst (LoadFrom toml parseDuration env readErr disk file)))"

section \<open>The transport key\<close>

definition LoadIdentity :: "prims \<Rightarrow> bool \<Rightarrow> gostring \<Rightarrow> fs \<Rightarrow> mesh_error + bytes" where
  "LoadIdentity P readErr file disk =
     (if file = [] then Inl ErrIdentityPath
      else case map_of disk file of
             None \<Rightarrow> Inl ErrNotExist
           | Some data \<Rightarrow>
               if readErr then Inl ErrMeshRead
               else if length data \<noteq> SeedSize then Inl ErrIdentitySize
               else Inr (NewKeyFromSeed P data))"

text \<open>\<open>seed\<close> is the randomness drawn (\<^const>\<open>None\<close> when that fails), \<open>tmp\<close> the random part of the temporary name.\<close>

definition LoadOrCreate_run ::
  "prims \<Rightarrow> bytes option \<Rightarrow> gostring \<Rightarrow> bool \<Rightarrow> tmp_fault \<Rightarrow> bool \<Rightarrow> gostring \<Rightarrow> fs \<Rightarrow> fs list \<times> (mesh_error + bytes)" where
  "LoadOrCreate_run P seed tmp mkdirOk flt readErr file disk =
     (if file = [] then ([disk], Inl ErrIdentityPath)
      else case map_of disk file of
        Some data \<Rightarrow>
          if readErr then ([disk], Inl ErrMeshRead)
          else if length data \<noteq> SeedSize then ([disk], Inl ErrIdentitySize)
          else ([disk], Inr (NewKeyFromSeed P data))
      | None \<Rightarrow>
          (case seed of
             None \<Rightarrow> ([disk], Inl ErrIdentityRandom)
           | Some sd \<Rightarrow>
               if \<not> mkdirOk then ([disk], Inl ErrMeshMkdir)
               else (case replace_file True flt (JoinPath [Dir file, str ''.identity-'' @ tmp]) file (to_array SeedSize sd) disk of
                       (states, Inl e) \<Rightarrow> (states, Inl e)
                     | (states, Inr _) \<Rightarrow> (states, Inr (NewKeyFromSeed P (to_array SeedSize sd))))))"

definition LoadOrCreateIdentity ::
  "prims \<Rightarrow> bytes option \<Rightarrow> gostring \<Rightarrow> bool \<Rightarrow> tmp_fault \<Rightarrow> bool \<Rightarrow> gostring \<Rightarrow> fs \<Rightarrow> fs \<times> (mesh_error + bytes)" where
  "LoadOrCreateIdentity P seed tmp mkdirOk flt readErr file disk =
     (case LoadOrCreate_run P seed tmp mkdirOk flt readErr file disk of (states, r) \<Rightarrow> (last states, r))"

section \<open>Invites\<close>

record NetworkInvite =
  NIVersion :: int
  NINetwork :: gostring
  NIPeerKey :: gostring
  NIEndpoints :: "gostring list"
  NICreatedAt :: instant

definition hexKey :: "bytes \<Rightarrow> gostring" where
  "hexKey key =
     (let hex = str ''0123456789abcdef'' in
      concat (map (\<lambda>value. [hex ! (unat (drop_bit 4 value)), hex ! (unat (and value 15))]) key))"

definition EncodeInvite ::
  "(NetworkInvite \<Rightarrow> bytes option) \<Rightarrow> instant \<Rightarrow> bytes \<Rightarrow> gostring list \<Rightarrow> mesh_error + gostring" where
  "EncodeInvite marshal now publicKey endpoints =
     (if length publicKey \<noteq> PublicKeySize then Inl ErrInviteKey
      else
        let clean = cleanList endpoints in
        if clean = [] then Inl ErrInviteEndpoints
        else case marshal \<lparr>NIVersion = 1, NINetwork = str ''backflash-public-cache'', NIPeerKey = hexKey publicKey,
                           NIEndpoints = clean, NICreatedAt = now\<rparr> of
               None \<Rightarrow> Inl ErrMeshMarshal
             | Some payload \<Rightarrow> Inr (str ''BFM1.'' @ b64_encode True payload))"

section \<open>Properties\<close>

lemma cleanList_clean: "v \<in> set (cleanList vs) \<Longrightarrow> v \<noteq> [] \<and> TrimSpace v = v"
  by (auto simp: cleanList_def)

lemma cleanList_idem: "cleanList (cleanList vs) = cleanList vs"
proof -
  have "map TrimSpace (cleanList vs) = cleanList vs" using cleanList_clean [of _ vs] by (simp add: map_idI)
  then show ?thesis by (simp add: cleanList_def)
qed

lemma parseKey_length: "length (parseKey v) = 32 \<or> parseKey v = []"
  by (simp add: parseKey_def split: option.split)

text \<open>The limits of the configuration the runtime is started with.\<close>

definition config_within :: "MConfig \<Rightarrow> bool" where
  "config_within c \<longleftrightarrow>
     Minute \<le> OriginInterval c \<and> 1 \<le> OriginMaxPages c \<and> OriginMaxPages c \<le> 10 \<and>
     1 \<le> OriginMaxForums c \<and> OriginMaxForums c \<le> 5000 \<and> 1 \<le> OriginBatchSize c \<and> OriginBatchSize c \<le> 100 \<and>
     (PeerKey c = [] \<or> length (PeerKey c) = 32) \<and>
     cleanList (Listen c) = Listen c \<and> cleanList (Advertise c) = Advertise c \<and> cleanList (Peers c) = Peers c \<and>
     cleanList (OriginForums c) = OriginForums c"

lemma base_config_within: "config_within (base_config env)"
  by (simp add: config_within_def base_config_def Let_def cleanList_def)

lemma LoadFrom_within: "config_within (fst (LoadFrom toml pd env rd disk file))"
proof (cases "TrimSpace file = [] \<or> map_of disk file = None \<or> rd \<or> (\<exists>data. map_of disk file = Some data \<and> toml data = None)")
  case True
  then have "fst (LoadFrom toml pd env rd disk file) = base_config env"
    by (auto simp: LoadFrom_def Let_def split: option.splits)
  then show ?thesis by (simp add: base_config_within)
next
  case False
  then obtain data f where f: "map_of disk file = Some data" "toml data = Some f" by auto
  show ?thesis
    using False base_config_within [of env] parseKey_length [of "fm_peer_key (file_mesh f)"]
    by (auto simp: LoadFrom_def Let_def f config_within_def cleanList_idem split: option.splits)
qed

lemma applyEnvOverrides_within: "config_within c \<Longrightarrow> config_within (applyEnvOverrides env c)"
  using parseKey_length
  by (auto simp: applyEnvOverrides_def Let_def config_within_def splitList_def cleanList_idem split: option.splits prod.splits)

lemma applyEnvOverrides_Enabled:
  "Enabled (applyEnvOverrides env c) =
     (case envBool env (str ''BACKFLASH_MESH_ENABLED'') of (v, ok) \<Rightarrow> if ok then v else Enabled c)"
  by (simp add: applyEnvOverrides_def Let_def split: option.splits prod.splits)

lemma LoadFrom_Enabled:
  "Enabled (fst (LoadFrom toml pd env rd disk file)) \<longleftrightarrow>
     TrimSpace file \<noteq> [] \<and> \<not> rd \<and> (\<exists>data f. map_of disk file = Some data \<and> toml data = Some f \<and> fm_enabled (file_mesh f))"
  by (auto simp: LoadFrom_def Let_def base_config_def split: option.splits)

text \<open>
  C40. The mesh configuration is safe and opt-in. Whatever the file and the environment hold, the limits of
  the origin sync are within their ranges, every address list is clean and the peer key is absent or of
  key size; and the mesh is enabled exactly when the environment variable says so or, when that does not
  decide, the configuration file could be read and says so.
\<close>

theorem mesh_config_safe:
  fixes env :: environ
  defines "file \<equiv> (if Getenv env (str ''BACKFLASH_CONFIG'') = [] then defaultConfigPath env else Getenv env (str ''BACKFLASH_CONFIG''))"
  shows "config_within (mesh_Load toml pd env rd disk) \<and>
    (Enabled (mesh_Load toml pd env rd disk) \<longleftrightarrow>
       envBool env (str ''BACKFLASH_MESH_ENABLED'') = (True, True) \<or>
       snd (envBool env (str ''BACKFLASH_MESH_ENABLED'')) = False \<and> TrimSpace file \<noteq> [] \<and> \<not> rd \<and>
         (\<exists>data f. map_of disk file = Some data \<and> toml data = Some f \<and> fm_enabled (file_mesh f)))"
proof -
  have l: "mesh_Load toml pd env rd disk = applyEnvOverrides env (fst (LoadFrom toml pd env rd disk file))"
    by (simp add: mesh_Load_def file_def Let_def)
  have "config_within (mesh_Load toml pd env rd disk)"
    unfolding l by (rule applyEnvOverrides_within [OF LoadFrom_within])
  moreover obtain v ok where "envBool env (str ''BACKFLASH_MESH_ENABLED'') = (v, ok)" by (metis surj_pair)
  ultimately show ?thesis
    unfolding l applyEnvOverrides_Enabled using LoadFrom_Enabled [of toml pd env rd disk "file"] by auto
qed

text \<open>
  The transport key persists. When \<^verbatim>\<open>LoadOrCreateIdentity\<close> returns a key, loading the file afterwards
  returns the same key, and a further call returns it without writing; an existing file is never
  changed; and at every crash point the file is absent as before or complete.
\<close>

theorem mesh_identity_persistent:
  assumes "LoadOrCreate_run P seed tmp mk flt False file disk = (states, r)"
    and "JoinPath [Dir file, str ''.identity-'' @ tmp] \<noteq> file"
  shows "(\<forall>key. r = Inr key \<longrightarrow> LoadIdentity P False file (last states) = Inr key \<and>
       LoadOrCreateIdentity P seed' tmp' mk' flt' False file (last states) = (last states, Inr key)) \<and>
    (\<forall>st \<in> set states. map_of st file = map_of disk file \<or>
       map_of disk file = None \<and> (\<exists>key. r = Inr key \<and> LoadIdentity P False file st = Inr key))"
proof (cases "file = [] \<or> map_of disk file \<noteq> None \<or> seed = None \<or> \<not> mk")
  case True
  then have "states = [disk]" using assms(1) by (auto simp: LoadOrCreate_run_def split: option.splits if_splits)
  moreover have "LoadIdentity P False file disk = Inr key \<and>
      LoadOrCreateIdentity P seed' tmp' mk' flt' False file disk = (disk, Inr key)" if "r = Inr key" for key
    using assms(1) True that
    by (auto simp: LoadOrCreate_run_def LoadOrCreateIdentity_def LoadIdentity_def split: option.splits if_splits)
  ultimately show ?thesis by simp
next
  case False
  then obtain sd where n: "file \<noteq> []" "map_of disk file = None" "seed = Some sd" by auto
  let ?d = "to_array SeedSize sd"
  obtain res where rf: "replace_file True flt (JoinPath [Dir file, str ''.identity-'' @ tmp]) file ?d disk = (states, res)"
    and r: "r = (case res of Inl e \<Rightarrow> Inl e | Inr _ \<Rightarrow> Inr (NewKeyFromSeed P ?d))"
    using assms(1) n False by (auto simp: LoadOrCreate_run_def split: prod.splits sum.splits)
  have load: "LoadIdentity P False file st = Inr (NewKeyFromSeed P ?d)" "LoadOrCreateIdentity P seed' tmp' mk' flt' False file st = (st, Inr (NewKeyFromSeed P ?d))"
    if "map_of st file = Some ?d" for st
    using that n(1) by (simp_all add: LoadIdentity_def LoadOrCreateIdentity_def LoadOrCreate_run_def)
  show ?thesis
  proof (cases res)
    case (Inl e)
    have "map_of st file = map_of disk file" if "st \<in> set states" for st
      using replace_file_states [OF rf that assms(2) [symmetric]] Inl by simp
    then show ?thesis using r Inl by simp
  next
    case (Inr u)
    have "map_of (last states) file = Some ?d" using replace_file_last [OF rf assms(2) [symmetric]] Inr by simp
    moreover have "map_of st file = map_of disk file \<or> map_of st file = Some ?d" if "st \<in> set states" for st
      using replace_file_states [OF rf that assms(2) [symmetric]] by auto
    moreover have "r = Inr (NewKeyFromSeed P ?d)" using r Inr by simp
    ultimately show ?thesis using load n(2) by blast
  qed
qed

theorem mesh_identity_persistent_witness:
  "LoadIdentity demo_prims False (str ''k'') (last (fst (LoadOrCreate_run demo_prims (Some [5]) [] True TmpOk False (str ''k'') []))) =
   Inr (NewKeyFromSeed demo_prims (to_array 32 [5]))"
proof -
  obtain states r where r: "LoadOrCreate_run demo_prims (Some [5]) [] True TmpOk False (str ''k'') [] = (states, r)" by (metis surj_pair)
  then have "r = Inr (NewKeyFromSeed demo_prims (to_array 32 [5]))"
    by (auto simp: LoadOrCreate_run_def str_def replace_file_def Let_def)
  moreover have "JoinPath [Dir (str ''k''), str ''.identity-'' @ []] \<noteq> str ''k''"
    by (simp add: JoinPath_def Dir_def Clean_def intercalate_def clean_elem_def str_def path_sep_def)
  ultimately show ?thesis using mesh_identity_persistent [OF r] r by simp
qed

text \<open>The invite carries the key in hexadecimal, readable back.\<close>

lemma hexKey_EncodeToString: "hexKey key = EncodeToString key"
proof -
  have d: "str ''0123456789abcdef'' ! n = hex_digit n" if "n < 16" for n
  proof -
    have "n \<in> {0, 1, 2, 3, 4, 5, 6, 7, 8, 9, 10, 11, 12, 13, 14, 15}" using that by (simp only: insert_iff empty_iff) presburger
    then show ?thesis by (auto simp: str_def hex_digit_def)
  qed
  have "[str ''0123456789abcdef'' ! unat (drop_bit 4 v), str ''0123456789abcdef'' ! unat (and v 15)] =
      [hex_digit (unat v div 16), hex_digit (unat v mod 16)]" for v :: byte
  proof -
    have "unat (drop_bit 4 v) = unat v div 16" 
      unfolding unsigned_drop_bit_eq using unsigned_less [of v, where ?'a = nat] by (simp add: drop_bit_eq_div take_bit_eq_mod)
    moreover have "unat (and v 15) = and (unat v) 15" by (simp add: unsigned_and_eq)
    then have "unat (and v 15) = unat v mod 16"
      using take_bit_eq_mask [of 4 "unat v"] by (simp add: take_bit_eq_mod mask_eq_exp_minus_1)
    moreover have "unat v div 16 < 16" using unsigned_less [of v, where ?'a = nat] by simp
    ultimately show ?thesis using d by simp
  qed
  then show ?thesis by (simp add: hexKey_def EncodeToString_def Let_def)
qed

lemma EncodeInvite_readable:
  assumes "EncodeInvite marshal now key eps = Inr token" "\<And>i b. marshal i = Some b \<Longrightarrow> unmarshal b = Some i"
  shows "\<exists>payload i. HasPrefix token (str ''BFM1.'') \<and> b64_decode True (TrimPrefix token (str ''BFM1.'')) = Some payload \<and>
    unmarshal payload = Some i \<and> DecodeString (NIPeerKey i) = Some key \<and> length key = 32 \<and>
    NIEndpoints i \<noteq> [] \<and> set (NIEndpoints i) \<subseteq> TrimSpace ` set eps"
proof -
  let ?i = "\<lparr>NIVersion = 1, NINetwork = str ''backflash-public-cache'', NIPeerKey = hexKey key,
             NIEndpoints = cleanList eps, NICreatedAt = now\<rparr>"
  obtain payload where m: "marshal ?i = Some payload" and t: "token = str ''BFM1.'' @ b64_encode True payload"
    and l: "length key = 32" "cleanList eps \<noteq> []"
    using assms(1) by (auto simp: EncodeInvite_def Let_def split: if_splits option.splits)
  moreover have "set (cleanList eps) \<subseteq> TrimSpace ` set eps" by (auto simp: cleanList_def)
  ultimately show ?thesis
    using assms(2) [OF m] by (intro exI [of _ payload] exI [of _ ?i]) (simp add: hexKey_EncodeToString)
qed

end
