(* ===== verification/Mesh_Runtime.thy ===== *)
theory Mesh_Runtime
  imports Mesh_Flight Mesh_Config "HOL-Library.Signed_Division"
begin

text \<open>
  \<^verbatim>\<open>internal/mesh/ygg/ygg.go\<close>: the datagram transport of the cache mesh (the overlay node behind it is a
  library: what it reads and whether it writes are arguments), and \<^verbatim>\<open>internal/mesh/runtime/runtime.go\<close>: the
  life cycle of the mesh. The runtime is a step relation between the sections of \<^verbatim>\<open>Start\<close> and \<^verbatim>\<open>Stop\<close>, called
  by any number of goroutines (the terminal starts the mesh in one and stops it from another), the end of a
  start's parent context, and the sections of the two goroutines each start leaves behind, \<^verbatim>\<open>serve\<close> and
  \<^verbatim>\<open>monitor\<close>. A section is what runs under the mutex, or between two such sections.
\<close>

section \<open>The datagram transport\<close>

record ygg =
  ypeer :: "bytes option"
  looping :: bool
  yhandler :: bool
  ypending :: "(gostring \<times> Message option) list"
  bytesSent :: "64 word"
  bytesRecv :: "64 word"
  served :: "64 word"
  received :: "64 word"
  lastOK :: instant
  lastFailed :: instant

datatype ygg_error = ErrYggNoPeer | ErrYggMarshal | ErrYggSize | ErrYggWrite | ErrYggRead | ErrYggCtx | ErrYggKey nat

text \<open>\<^verbatim>\<open>New\<close>, as far as it does not configure the overlay: the length checks and the peer's address.\<close>

definition ygg_New :: "bytes \<Rightarrow> bytes \<Rightarrow> ygg_error + ygg" where
  "ygg_New priv peerKey =
     (if length priv \<noteq> PrivateKeySize then Inl (ErrYggKey (length priv))
      else Inr \<lparr>ypeer = (if length peerKey = PublicKeySize then Some peerKey else None), looping = False, yhandler = False,
                ypending = [], bytesSent = 0, bytesRecv = 0, served = 0, received = 0, lastOK = 0, lastFailed = 0\<rparr>)"

definition startLoop :: "bool \<Rightarrow> ygg \<Rightarrow> ygg" where
  "startLoop handler y = (if looping y then y else y\<lparr>looping := True, ypending := [], yhandler := handler\<rparr>)"

definition retryDelay :: "byte option \<Rightarrow> int \<Rightarrow> duration" where
  "retryDelay sample attempt0 =
     (let attempt = (if attempt0 > 3 then 3 else attempt0);
          delay = 250 * Millisecond * 2 ^ nat attempt
      in case sample of
           None \<Rightarrow> delay
         | Some b \<Rightarrow> delay + ((int (unat b) - 128) * (delay sdiv 5)) sdiv 128)"

text \<open>
  \<^verbatim>\<open>RequestContext\<close> in two parts: the preparation, which returns the datagram and the request's identifier,
  and the loop. Each turn of the loop writes the datagram and then sees one of four things: the end of its
  context, an error of the reader, the response, or the end of the retry delay. \<open>rid\<close> is the identifier
  drawn.
\<close>

definition request_prepare ::
  "message_json \<Rightarrow> gostring \<Rightarrow> ygg \<Rightarrow> Message \<Rightarrow> ygg \<times> (ygg_error + bytes \<times> gostring)" where
  "request_prepare K rid y request =
     (if ypeer y = None then (y, Inl ErrYggNoPeer)
      else case MarshalMessage K request of
        None \<Rightarrow> (y, Inl ErrYggMarshal)
      | Some b \<Rightarrow>
          if length b > maxMessageBody then (y, Inl ErrYggSize)
          else
            let request1 = (if MID request = [] then request\<lparr>MID := rid\<rparr> else request) in
            (case (if MID request = [] then MarshalMessage K request1 else Some b) of
               None \<Rightarrow> (y, Inl ErrYggMarshal)
             | Some b1 \<Rightarrow>
                 let y1 = startLoop False y in
                 (y1\<lparr>ypending := AList.update (MID request1) None (ypending y1)\<rparr>, Inr (b1, MID request1))))"

datatype turn = TWriteFails instant | TCtxDone | TReadError | TResponse Message instant | TRetry

fun request_loop :: "bytes \<Rightarrow> turn list \<Rightarrow> ygg \<Rightarrow> ygg \<times> (ygg_error + Message) option" where
  "request_loop b [] y = (y, None)"
| "request_loop b (t # ts) y =
     (case t of
        TWriteFails now \<Rightarrow> (y\<lparr>lastFailed := now\<rparr>, Some (Inl ErrYggWrite))
      | _ \<Rightarrow>
          let y1 = y\<lparr>bytesSent := bytesSent y + of_nat (length b)\<rparr> in
          (case t of
             TCtxDone \<Rightarrow> (y1, Some (Inl ErrYggCtx))
           | TReadError \<Rightarrow> (y1, Some (Inl ErrYggRead))
           | TResponse response now \<Rightarrow>
               ((if MType response = MObject then y1\<lparr>received := received y1 + 1\<rparr> else y1)\<lparr>lastOK := now\<rparr>, Some (Inr response))
           | _ \<Rightarrow> request_loop b ts y1))"

definition request_finish :: "gostring \<Rightarrow> ygg \<Rightarrow> ygg" where
  "request_finish rid y = y\<lparr>ypending := AList.delete rid (ypending y)\<rparr>"

text \<open>\<^verbatim>\<open>Publish\<close>: at most four writes; \<open>writes\<close> are their outcomes with the time of a failure.\<close>

fun publish_loop :: "nat \<Rightarrow> bytes \<Rightarrow> (bool \<times> instant) list \<Rightarrow> nat \<Rightarrow> ygg \<Rightarrow> ygg \<times> nat \<times> bool" where
  "publish_loop 0 b ws n y = (y, n, False)"
| "publish_loop (Suc k) b [] n y = (y, n, False)"
| "publish_loop (Suc k) b ((ok, now) # ws) n y =
     (if ok then (y\<lparr>bytesSent := bytesSent y + of_nat (length b)\<rparr>, Suc n, True)
      else publish_loop k b ws (Suc n) (y\<lparr>lastFailed := now\<rparr>))"

definition Publish ::
  "message_json \<Rightarrow> (bool \<times> instant) list \<Rightarrow> ygg \<Rightarrow> Message \<Rightarrow> ygg \<times> nat \<times> ygg_error option" where
  "Publish K writes y message =
     (if ypeer y = None then (y, 0, Some ErrYggNoPeer)
      else case MarshalMessage K message of
        None \<Rightarrow> (y, 0, Some ErrYggMarshal)
      | Some b \<Rightarrow>
          if length b > maxMessageBody then (y, 0, Some ErrYggSize)
          else (case publish_loop 4 b writes 0 y of
                  (y1, n, ok) \<Rightarrow> (y1, n, if ok then None else Some ErrYggWrite)))"

text \<open>
  One datagram in the reader goroutine: the new transport and node, and the datagram sent back. A full
  response channel drops the message.
\<close>

definition loop_packet ::
  "prims \<Rightarrow> object_json \<Rightarrow> message_json \<Rightarrow> mesh_io \<Rightarrow> instant \<Rightarrow> bool \<Rightarrow> bytes \<Rightarrow> ygg \<Rightarrow> Node \<Rightarrow> ygg \<times> Node \<times> bytes option" where
  "loop_packet P J K io now writeOk buf y0 n =
     (let y = y0\<lparr>bytesRecv := bytesRecv y0 + of_nat (length buf)\<rparr> in
      case UnmarshalMessage K buf of
        None \<Rightarrow> (y, n, None)
      | Some request \<Rightarrow>
          if (MType request = MGet \<or> MType request = MHave) \<and> yhandler y then
            (case Serve P J io n request of
               (n1, response0, err) \<Rightarrow>
                 if MType request = MHave then
                   (if err = None then (y\<lparr>received := received y + 1, lastOK := now\<rparr>, n1, None) else (y, n1, None))
                 else
                   let response =
                     (if err \<noteq> None then no_message\<lparr>MType := MNotFound, MHash := MHash request, MID := MID request\<rparr>
                      else response0\<lparr>MID := MID request\<rparr>) in
                   (case MarshalMessage K response of
                      None \<Rightarrow> (y, n1, None)
                    | Some body \<Rightarrow>
                        if \<not> writeOk then (y, n1, None)
                        else
                          let y1 = y\<lparr>bytesSent := bytesSent y + of_nat (length body)\<rparr>;
                              y2 = (if MType response = MObject then y1\<lparr>served := served y1 + 1\<rparr> else y1)
                          in (y2\<lparr>lastOK := now\<rparr>, n1, Some body)))
          else if MID request = [] then (y, n, None)
          else
            (case map_of (ypending y) (MID request) of
               Some None \<Rightarrow> (y\<lparr>ypending := AList.update (MID request) (Some request) (ypending y)\<rparr>, n, None)
             | _ \<Rightarrow> (y, n, None)))"

section \<open>The life cycle\<close>

datatype rt_state = Disabled | Configured | Starting | Running | Degraded | Stopping | RError

datatype monitor = MonWait | MonSaw rt_state | MonExit

datatype server = ServeRunning | ServeFailed | ServeEnding | ServeEnded

text \<open>
  What one start leaves behind: whether its context is cancelled, whether its \<^verbatim>\<open>done\<close> channel is closed, and
  its goroutines.
\<close>

record gen =
  cancelled :: bool
  doneClosed :: bool
  gserve :: server
  gmon :: monitor

text \<open>
  Where a goroutine is in \<^verbatim>\<open>Start\<close> (it has seen that nothing is active; it has set the state; it has installed
  what it started) or in \<^verbatim>\<open>Stop\<close> (it has taken the cancel function; it has called it and waits; it is about to
  set the state of a runtime that was not active).
\<close>

datatype control = CIdle | CPassed | CChecked | CInstalled | CStopTook nat | CStopping nat | CStopSet

text \<open>
  \<open>ractive\<close> is \<^verbatim>\<open>r.cancel != nil\<close>; the cancel function and the \<^verbatim>\<open>done\<close> channel in the fields are those of the last
  start. \<open>rcontrol\<close> gives the place of every calling goroutine.
\<close>

record Runtime =
  rcfg :: MConfig
  rstate :: rt_state
  ractive :: bool
  rcache :: bool
  rgens :: "gen list"
  rcontrol :: "nat \<Rightarrow> control"
  rpanic :: bool

definition runtime_New :: "MConfig \<Rightarrow> Runtime" where
  "runtime_New cfg =
     \<lparr>rcfg = cfg, rstate = (if Enabled cfg then Configured else Disabled), ractive = False, rcache = False, rgens = [],
      rcontrol = (\<lambda>_. CIdle), rpanic = False\<rparr>"

definition new_gen :: gen where
  "new_gen = \<lparr>cancelled = False, doneClosed = False, gserve = ServeRunning, gmon = MonWait\<rparr>"

definition peers_state :: "nat \<Rightarrow> rt_state" where
  "peers_state peers = (if peers > 0 then Running else Degraded)"

definition upd_gen :: "nat \<Rightarrow> (gen \<Rightarrow> gen) \<Rightarrow> Runtime \<Rightarrow> Runtime" where
  "upd_gen i f r = r\<lparr>rgens := (rgens r)[i := f (rgens r ! i)]\<rparr>"

definition ctl :: "nat \<Rightarrow> control \<Rightarrow> Runtime \<Rightarrow> Runtime" where
  "ctl k c r = r\<lparr>rcontrol := (rcontrol r)(k := c)\<rparr>"

text \<open>\<^verbatim>\<open>close(r.done)\<close> closes the channel the field holds at that moment, that of the last start.\<close>

definition close_done :: "Runtime \<Rightarrow> Runtime" where
  "close_done r =
     (let i = length (rgens r) - 1 in
      if doneClosed (rgens r ! i) then r\<lparr>rpanic := True\<rparr> else upd_gen i (doneClosed_update (\<lambda>_. True)) r)"

inductive rt_step :: "Runtime \<Rightarrow> Runtime \<Rightarrow> bool" where
  start_disabled: "rcontrol r k = CIdle \<Longrightarrow> \<not> Enabled (rcfg r) \<Longrightarrow> rt_step r (r\<lparr>rstate := Disabled\<rparr>)"
| start_active: "rcontrol r k = CIdle \<Longrightarrow> Enabled (rcfg r) \<Longrightarrow> ractive r \<Longrightarrow> rt_step r r"
| start_passes: "rcontrol r k = CIdle \<Longrightarrow> Enabled (rcfg r) \<Longrightarrow> \<not> ractive r \<Longrightarrow> rt_step r (ctl k CPassed r)"
| start_begin: "rcontrol r k = CPassed \<Longrightarrow> rt_step r ((ctl k CChecked r)\<lparr>rstate := Starting\<rparr>)"
| start_fails: "rcontrol r k = CChecked \<Longrightarrow> rt_step r ((ctl k CIdle r)\<lparr>rstate := RError\<rparr>)"
| start_install: "rcontrol r k = CChecked \<Longrightarrow>
    rt_step r ((ctl k CInstalled r)\<lparr>ractive := True, rcache := True, rgens := rgens r @ [new_gen]\<rparr>)"
| start_finish: "rcontrol r k = CInstalled \<Longrightarrow> rt_step r ((ctl k CIdle r)\<lparr>rstate := peers_state peers\<rparr>)"
| parent_ends: "i < length (rgens r) \<Longrightarrow> rt_step r (upd_gen i (cancelled_update (\<lambda>_. True)) r)"
| serve_cancelled: "i < length (rgens r) \<Longrightarrow> gserve (rgens r ! i) = ServeRunning \<Longrightarrow> cancelled (rgens r ! i) \<Longrightarrow>
    rt_step r (upd_gen i (gserve_update (\<lambda>_. ServeEnding)) r)"
| serve_fails: "i < length (rgens r) \<Longrightarrow> gserve (rgens r ! i) = ServeRunning \<Longrightarrow> \<not> cancelled (rgens r ! i) \<Longrightarrow>
    rt_step r (upd_gen i (gserve_update (\<lambda>_. ServeFailed)) r)"
| serve_reports: "i < length (rgens r) \<Longrightarrow> gserve (rgens r ! i) = ServeFailed \<Longrightarrow>
    rt_step r ((upd_gen i (gserve_update (\<lambda>_. ServeEnding)) r)\<lparr>rstate := RError\<rparr>)"
| serve_closes: "i < length (rgens r) \<Longrightarrow> gserve (rgens r ! i) = ServeEnding \<Longrightarrow>
    rt_step r (close_done (upd_gen i (gserve_update (\<lambda>_. ServeEnded)) r))"
| monitor_exits: "i < length (rgens r) \<Longrightarrow> gmon (rgens r ! i) = MonWait \<Longrightarrow> cancelled (rgens r ! i) \<Longrightarrow>
    rt_step r (upd_gen i (gmon_update (\<lambda>_. MonExit)) r)"
| monitor_reads: "i < length (rgens r) \<Longrightarrow> gmon (rgens r ! i) = MonWait \<Longrightarrow>
    rt_step r (upd_gen i (gmon_update (\<lambda>_. MonSaw (rstate r))) r)"
| monitor_skips: "i < length (rgens r) \<Longrightarrow> gmon (rgens r ! i) = MonSaw RError \<Longrightarrow>
    rt_step r (upd_gen i (gmon_update (\<lambda>_. MonWait)) r)"
| monitor_sets: "i < length (rgens r) \<Longrightarrow> gmon (rgens r ! i) = MonSaw st \<Longrightarrow> st \<noteq> RError \<Longrightarrow>
    rt_step r ((upd_gen i (gmon_update (\<lambda>_. MonWait)) r)\<lparr>rstate := peers_state peers\<rparr>)"
| stop_inactive: "rcontrol r k = CIdle \<Longrightarrow> \<not> ractive r \<Longrightarrow>
    rt_step r (ctl k (if rstate r = Configured then CStopSet else CIdle) r)"
| stop_sets: "rcontrol r k = CStopSet \<Longrightarrow> rt_step r ((ctl k CIdle r)\<lparr>rstate := Configured\<rparr>)"
| stop_takes: "rcontrol r k = CIdle \<Longrightarrow> ractive r \<Longrightarrow>
    rt_step r ((ctl k (CStopTook (length (rgens r) - 1)) r)\<lparr>rstate := Stopping, ractive := False\<rparr>)"
| stop_cancels: "rcontrol r k = CStopTook i \<Longrightarrow> rt_step r (ctl k (CStopping i) (upd_gen i (cancelled_update (\<lambda>_. True)) r))"
| stop_done: "rcontrol r k = CStopping i \<Longrightarrow> doneClosed (rgens r ! i) \<Longrightarrow>
    rt_step r ((ctl k CIdle r)\<lparr>rstate := (if Enabled (rcfg r) then Configured else Disabled)\<rparr>)"
| stop_timeout: "rcontrol r k = CStopping i \<Longrightarrow> rt_step r ((ctl k CIdle r)\<lparr>rstate := RError\<rparr>)"

text \<open>The gate of \<^verbatim>\<open>Runtime.GetContext\<close> and \<^verbatim>\<open>GetResource\<close>: the call reaches the cache.\<close>

definition lookup_allowed :: "Runtime \<Rightarrow> bool" where
  "lookup_allowed r \<longleftrightarrow> rcache r \<and> (rstate r = Running \<or> rstate r = Degraded)"

definition shortFingerprint :: "bytes \<Rightarrow> gostring" where
  "shortFingerprint key =
     (if length key = 0 then [226, 128, 148]
      else let encoded = EncodeToString key in str ''~'' @ (if length encoded > 8 then take 8 encoded else encoded))"

section \<open>Properties of the transport\<close>

text \<open>
  The retry delay grows from a quarter of a second to two seconds, with at most a fifth added or taken
  away, so that a request waits between 200 milliseconds and 2.4 seconds before it is repeated.
\<close>

theorem retryDelay_bounds:
  "200 * Millisecond \<le> retryDelay sample attempt \<and> retryDelay sample attempt \<le> 2400 * Millisecond \<and>
   \<bar>retryDelay sample attempt - 250 * Millisecond * 2 ^ nat (min 3 attempt)\<bar> * 5 \<le> 250 * Millisecond * 2 ^ nat (min 3 attempt)"
proof -
  let ?a = "nat (min 3 attempt)"
  have m: "(if attempt > 3 then 3 else attempt) = min 3 attempt" by simp
  have p: "(2 :: int) ^ ?a \<in> {1, 2, 4, 8}"
  proof -
    have "(2 :: int) ^ k \<in> {1, 2, 4, 8}" if "k \<le> 3" for k :: nat
    proof -
      have "k = 0 \<or> k = 1 \<or> k = 2 \<or> k = 3" using that by linarith
      then show ?thesis by auto
    qed
    moreover have "?a \<le> 3" by simp
    ultimately show ?thesis by blast
  qed
  show ?thesis
  proof (cases sample)
    case None
    then show ?thesis using p by (auto simp: retryDelay_def Let_def m)
  next
    case (Some b)
    have b: "0 \<le> int (unat b)" "int (unat b) \<le> 255" using unsigned_less [of b, where ?'a = int] by simp_all
    have d: "(250 * Millisecond * 2 ^ ?a) sdiv 5 = 128 * (390625 * 2 ^ ?a)" using p by (auto simp: signed_divide_int_def)
    have e: "((int (unat b) - 128) * (128 * (390625 * 2 ^ ?a))) sdiv 128 = (int (unat b) - 128) * (390625 * 2 ^ ?a)"
    proof -
      have "((x :: int) * 128) sdiv 128 = x" for x by (simp add: signed_divide_int_def sgn_mult abs_mult mult_sgn_abs)
      moreover have "i * (128 * z) = i * z * 128" for i z :: int by simp
      ultimately show ?thesis by (simp only:)
    qed
    have "retryDelay sample attempt = 250 * Millisecond * 2 ^ ?a + (int (unat b) - 128) * (390625 * 2 ^ ?a)"
      unfolding retryDelay_def Let_def m Some by (simp only: option.case d e)
    moreover obtain i where "i = int (unat b)" "0 \<le> i" "i \<le> 255" using b by blast
    ultimately show ?thesis using p by (auto simp del: of_nat_unat simp: abs_le_iff)
  qed
qed

text \<open>
  A response reaches the request it answers. A datagram that is not for the handler changes no entry of
  the table of waiting requests but the one with its identifier, which takes the first response and no
  later one; a datagram without an identifier, or with an unknown one, changes none.
\<close>

theorem response_routing:
  assumes "UnmarshalMessage K buf = Some m" "\<not> ((MType m = MGet \<or> MType m = MHave) \<and> yhandler y)"
    and "loop_packet P J K io now wok buf y n = (y', n', reply)"
  shows "n' = n \<and> reply = None \<and>
    (\<forall>rid. map_of (ypending y') rid =
       (if rid = MID m \<and> rid \<noteq> [] \<and> map_of (ypending y) rid = Some None then Some (Some m) else map_of (ypending y) rid))"
  using assms by (auto simp: loop_packet_def Let_def update_conv split: option.splits if_splits)

definition demo_response :: Message where
  "demo_response = no_message\<lparr>MType := MObject, MID := [1]\<rparr>"

definition demo_ygg :: ygg where
  "demo_ygg = \<lparr>ypeer = Some [9], looping = True, yhandler = False, ypending = [([1], None)], bytesSent = 0, bytesRecv = 0,
     served = 0, received = 0, lastOK = 0, lastFailed = 0\<rparr>"

theorem response_routing_witness:
  "\<exists>y' n' reply. loop_packet demo_prims demo_object_json demo_message_json demo_io 0 True (demo_message_bytes demo_response) demo_ygg demo_empty =
     (y', n', reply) \<and> map_of (ypending y') [1] = Some (Some demo_response)"
proof -
  obtain y' n' reply where l: "loop_packet demo_prims demo_object_json demo_message_json demo_io 0 True (demo_message_bytes demo_response)
      demo_ygg demo_empty = (y', n', reply)" by (metis prod_cases3)
  have "UnmarshalMessage demo_message_json (demo_message_bytes demo_response) = Some demo_response"
    unfolding demo_unmarshal by (intro exI [of _ "[]"]) simp
  moreover have "\<not> ((MType demo_response = MGet \<or> MType demo_response = MHave) \<and> yhandler demo_ygg)" by (simp add: demo_ygg_def)
  ultimately have "\<forall>rid. map_of (ypending y') rid =
       (if rid = MID demo_response \<and> rid \<noteq> [] \<and> map_of (ypending demo_ygg) rid = Some None then Some (Some demo_response)
        else map_of (ypending demo_ygg) rid)"
    using response_routing l by blast
  then show ?thesis using l by (auto simp: demo_response_def demo_ygg_def)
qed

lemma publish_loop_attempts: "publish_loop k b ws n y = (y', m, ok) \<Longrightarrow> m \<le> n + k \<and> n \<le> m"
  by (induction k b ws n y arbitrary: m rule: publish_loop.induct) (force split: if_splits)+

lemma Publish_bounded: "Publish K ws y msg = (y', n, e) \<Longrightarrow> n \<le> 4"
  using publish_loop_attempts [of 4] by (fastforce simp: Publish_def split: if_splits option.splits prod.splits)

section \<open>Properties of the life cycle\<close>

text \<open>
  A start between its check and the installation. \<^verbatim>\<open>Start\<close> checks and installs in two sections; two starts that
  overlap there can both install, and the second one overwrites the first one's cancel function (see
  \<open>overlapping_starts_leak\<close>). In a serial run no two do.
\<close>

definition starting :: "control \<Rightarrow> bool" where
  "starting c \<longleftrightarrow> c = CPassed \<or> c = CChecked"

definition serial_starts :: "Runtime \<Rightarrow> bool" where
  "serial_starts r \<longleftrightarrow> (\<forall>k l. starting (rcontrol r k) \<and> starting (rcontrol r l) \<longrightarrow> k = l)"

definition rt_serial_step :: "Runtime \<Rightarrow> Runtime \<Rightarrow> bool" where
  "rt_serial_step r r' \<longleftrightarrow> rt_step r r' \<and> serial_starts r'"

definition disabled_inv :: "MConfig \<Rightarrow> Runtime \<Rightarrow> bool" where
  "disabled_inv cfg r \<longleftrightarrow>
     rcfg r = cfg \<and>
     (\<not> Enabled cfg \<longrightarrow> rgens r = [] \<and> rcontrol r = (\<lambda>_. CIdle) \<and> \<not> ractive r \<and> \<not> rcache r \<and> rstate r = Disabled)"

text \<open>
  A start that is not cancelled is the last one, its cancel function in the runtime's field, or a \<^verbatim>\<open>Stop\<close> has
  taken its cancel function and is about to call it.
\<close>

definition rt_inv :: "Runtime \<Rightarrow> bool" where
  "rt_inv r \<longleftrightarrow>
     (\<forall>i < length (rgens r). \<not> cancelled (rgens r ! i) \<longrightarrow>
        ractive r \<and> Suc i = length (rgens r) \<or> (\<exists>k. rcontrol r k = CStopTook i)) \<and>
     (ractive r \<longrightarrow> rgens r \<noteq> [] \<and> (\<forall>k. \<not> starting (rcontrol r k))) \<and>
     (\<forall>k i. rcontrol r k = CStopTook i \<longrightarrow> i < length (rgens r)) \<and>
     (\<forall>k i. rcontrol r k = CStopping i \<longrightarrow> i < length (rgens r) \<and> cancelled (rgens r ! i)) \<and>
     serial_starts r"

lemma upd_gen_simps [simp]:
  "rcfg (upd_gen i f r) = rcfg r" "rstate (upd_gen i f r) = rstate r" "ractive (upd_gen i f r) = ractive r"
  "rcache (upd_gen i f r) = rcache r" "rcontrol (upd_gen i f r) = rcontrol r"
  "length (rgens (upd_gen i f r)) = length (rgens r)" "rgens (upd_gen i f r) = [] \<longleftrightarrow> rgens r = []"
  by (simp_all add: upd_gen_def)

lemma upd_gen_nth: "j < length (rgens r) \<Longrightarrow> rgens (upd_gen i f r) ! j = (if j = i then f (rgens r ! i) else rgens r ! j)"
  by (simp add: upd_gen_def)

lemma ctl_simps [simp]:
  "rcfg (ctl k c r) = rcfg r" "rstate (ctl k c r) = rstate r" "ractive (ctl k c r) = ractive r"
  "rcache (ctl k c r) = rcache r" "rcontrol (ctl k c r) = (rcontrol r)(k := c)" "rgens (ctl k c r) = rgens r"
  by (simp_all add: ctl_def)

lemma close_done_simps [simp]:
  "rcfg (close_done r) = rcfg r" "rstate (close_done r) = rstate r" "ractive (close_done r) = ractive r"
  "rcache (close_done r) = rcache r" "rcontrol (close_done r) = rcontrol r"
  "length (rgens (close_done r)) = length (rgens r)" "rgens (close_done r) = [] \<longleftrightarrow> rgens r = []"
  by (simp_all add: close_done_def Let_def)

lemma close_done_cancelled: "j < length (rgens r) \<Longrightarrow> cancelled (rgens (close_done r) ! j) = cancelled (rgens r ! j)"
  by (simp add: close_done_def Let_def upd_gen_nth)

lemma disabled_step: "rt_step r r' \<Longrightarrow> disabled_inv cfg r \<Longrightarrow> disabled_inv cfg r'"
  by (induction rule: rt_step.induct) (auto simp: disabled_inv_def fun_eq_iff)

lemma disabled_reach: "rt_step\<^sup>*\<^sup>* (runtime_New cfg) r \<Longrightarrow> disabled_inv cfg r"
proof (induction rule: rtranclp_induct)
  case base
  show ?case by (simp add: disabled_inv_def runtime_New_def)
qed (rule disabled_step)

text \<open>What the runtime's goroutines leave alone: the places of the callers, and which starts are cancelled.\<close>

lemma rt_inv_D:
  assumes "rt_inv r"
  shows "i < length (rgens r) \<Longrightarrow> \<not> cancelled (rgens r ! i) \<Longrightarrow>
       ractive r \<and> Suc i = length (rgens r) \<or> (\<exists>k. rcontrol r k = CStopTook i)"
    "ractive r \<Longrightarrow> rgens r \<noteq> []" "ractive r \<Longrightarrow> \<not> starting (rcontrol r k)"
    "rcontrol r k = CStopTook i \<Longrightarrow> i < length (rgens r)"
    "rcontrol r k = CStopping i \<Longrightarrow> i < length (rgens r) \<and> cancelled (rgens r ! i)"
    "starting (rcontrol r k) \<Longrightarrow> starting (rcontrol r l) \<Longrightarrow> k = l"
  using assms unfolding rt_inv_def serial_starts_def by blast+

lemma rt_inv_I:
  assumes "\<And>i. i < length (rgens r) \<Longrightarrow> \<not> cancelled (rgens r ! i) \<Longrightarrow>
       ractive r \<and> Suc i = length (rgens r) \<or> (\<exists>k. rcontrol r k = CStopTook i)"
    "ractive r \<Longrightarrow> rgens r \<noteq> []" "\<And>k. ractive r \<Longrightarrow> \<not> starting (rcontrol r k)"
    "\<And>k i. rcontrol r k = CStopTook i \<Longrightarrow> i < length (rgens r)"
    "\<And>k i. rcontrol r k = CStopping i \<Longrightarrow> i < length (rgens r) \<and> cancelled (rgens r ! i)"
    "serial_starts r"
  shows "rt_inv r"
  using assms unfolding rt_inv_def by blast

lemma rt_inv_frame:
  assumes "rt_inv r" "rcontrol r' = rcontrol r" "ractive r' = ractive r" "length (rgens r') = length (rgens r)"
    and "\<And>i. i < length (rgens r) \<Longrightarrow> cancelled (rgens r ! i) \<Longrightarrow> cancelled (rgens r' ! i)"
  shows "rt_inv r'"
proof -
  have "rgens r' = [] \<longleftrightarrow> rgens r = []" using assms(4) by (metis length_0_conv)
  moreover note D = rt_inv_D [OF assms(1)]
  ultimately show ?thesis
    using assms(2-4) D(1) assms(5) D(2-6) by (intro rt_inv_I) (simp_all add: serial_starts_def, blast+)
qed

text \<open>A caller that moves to a place which neither starts nor holds a cancel function.\<close>

lemma rt_inv_move:
  assumes "rt_inv r" "rgens r' = rgens r" "ractive r' = ractive r" "rcontrol r' = (rcontrol r)(k := c)"
    and "\<not> starting c" "\<And>i. rcontrol r k \<noteq> CStopTook i" "\<forall>i. c \<noteq> CStopTook i \<and> c \<noteq> CStopping i"
  shows "rt_inv r'"
proof -
  note D = rt_inv_D [OF assms(1)]
  show ?thesis
  proof (rule rt_inv_I)
    fix i assume i: "i < length (rgens r')" "\<not> cancelled (rgens r' ! i)"
    then consider "ractive r" "Suc i = length (rgens r)" | l where "rcontrol r l = CStopTook i" using D(1) [of i] assms(2) by auto
    then show "ractive r' \<and> Suc i = length (rgens r') \<or> (\<exists>l. rcontrol r' l = CStopTook i)"
    proof cases
      case (2 l)
      then have "l \<noteq> k" using assms(6) by auto
      then show ?thesis using 2 assms(4) by auto
    qed (use assms in simp)
  next
    fix l i assume "rcontrol r' l = CStopTook i"
    then have "rcontrol r l = CStopTook i" using assms(4,7) by (auto split: if_splits)
    then show "i < length (rgens r')" using D(4) assms(2) by simp
  next
    fix l i assume "rcontrol r' l = CStopping i"
    then have "rcontrol r l = CStopping i" using assms(4,7) by (auto split: if_splits)
    then show "i < length (rgens r') \<and> cancelled (rgens r' ! i)" using D(5) assms(2) by simp
  next
    show "serial_starts r'" using D(6) assms(4,5) by (auto simp: serial_starts_def)
  next
    assume "ractive r'"
    then show "rgens r' \<noteq> []" using D(2) assms(2,3) by simp
  next
    fix l assume "ractive r'"
    then show "\<not> starting (rcontrol r' l)" using D(3) assms(3,4,5) by simp
  qed
qed

lemma rt_inv_install:
  assumes "rt_inv r" "rcontrol r k = CChecked"
  shows "rt_inv ((ctl k CInstalled r)\<lparr>ractive := True, rcache := True, rgens := rgens r @ [new_gen]\<rparr>)" (is "rt_inv ?r")
proof -
  note D = rt_inv_D [OF assms(1)]
  have n: "\<not> ractive r" using D(3) [of k] assms(2) by (auto simp: starting_def)
  have o: "\<not> starting (rcontrol r l)" if "l \<noteq> k" for l using D(6) [of l k] assms(2) that by (auto simp: starting_def)
  show ?thesis
  proof (rule rt_inv_I)
    fix i assume i: "i < length (rgens ?r)" "\<not> cancelled (rgens ?r ! i)"
    show "ractive ?r \<and> Suc i = length (rgens ?r) \<or> (\<exists>l. rcontrol ?r l = CStopTook i)"
    proof (cases "i = length (rgens r)")
      case False
      then obtain l where l: "rcontrol r l = CStopTook i" using i D(1) [of i] n by (auto simp: nth_append)
      then have "l \<noteq> k" using assms(2) by auto
      then show ?thesis using l by (auto intro!: exI [of _ l])
    qed simp
  next
    fix l i assume "rcontrol ?r l = CStopTook i"
    then have "rcontrol r l = CStopTook i" by (simp split: if_splits)
    then show "i < length (rgens ?r)" using D(4) by fastforce
  next
    fix l i assume "rcontrol ?r l = CStopping i"
    then have "rcontrol r l = CStopping i" by (simp split: if_splits)
    then show "i < length (rgens ?r) \<and> cancelled (rgens ?r ! i)" using D(5) by (fastforce simp: nth_append)
  next
    show "serial_starts ?r" using o by (auto simp: serial_starts_def starting_def)
  qed (use o in \<open>auto simp: starting_def\<close>)
qed

lemma rt_inv_takes:
  assumes "rt_inv r" "rcontrol r k = CIdle" "ractive r"
  shows "rt_inv ((ctl k (CStopTook (length (rgens r) - 1)) r)\<lparr>rstate := Stopping, ractive := False\<rparr>)" (is "rt_inv ?r")
proof -
  note D = rt_inv_D [OF assms(1)]
  have o: "\<not> starting (rcontrol r l)" for l using D(3) assms(3) .
  show ?thesis
  proof (rule rt_inv_I)
    fix i assume i: "i < length (rgens ?r)" "\<not> cancelled (rgens ?r ! i)"
    show "ractive ?r \<and> Suc i = length (rgens ?r) \<or> (\<exists>l. rcontrol ?r l = CStopTook i)"
    proof (cases "Suc i = length (rgens r)")
      case True
      then have "i = length (rgens r) - 1" by simp
      then show ?thesis by (intro disjI2 exI [of _ k]) simp
    next
      case False
      then obtain l where l: "rcontrol r l = CStopTook i" using i D(1) [of i] by auto
      then have "l \<noteq> k" using assms(2) by auto
      then show ?thesis using l by (auto intro!: exI [of _ l])
    qed
  next
    fix l i assume t: "rcontrol ?r l = CStopTook i"
    show "i < length (rgens ?r)"
    proof (cases "l = k")
      case True
      then show ?thesis using t D(2) [OF assms(3)] by (cases "rgens r") auto
    next
      case False
      then show ?thesis using t D(4) by simp
    qed
  next
    fix l i assume "rcontrol ?r l = CStopping i"
    then have "rcontrol r l = CStopping i" by (simp split: if_splits)
    then show "i < length (rgens ?r) \<and> cancelled (rgens ?r ! i)" using D(5) by fastforce
  next
    show "serial_starts ?r" using o by (auto simp: serial_starts_def starting_def)
  qed simp_all
qed

lemma rt_inv_cancels:
  assumes "rt_inv r" "rcontrol r k = CStopTook i"
  shows "rt_inv (ctl k (CStopping i) (upd_gen i (cancelled_update (\<lambda>_. True)) r))" (is "rt_inv ?r")
proof -
  note D = rt_inv_D [OF assms(1)]
  have il: "i < length (rgens r)" using D(4) [OF assms(2)] .
  show ?thesis
  proof (rule rt_inv_I)
    fix j assume j: "j < length (rgens ?r)" "\<not> cancelled (rgens ?r ! j)"
    then have ne: "j \<noteq> i" "\<not> cancelled (rgens r ! j)" by (auto simp: upd_gen_nth split: if_splits)
    then consider "ractive r" "Suc j = length (rgens r)" | l where "rcontrol r l = CStopTook j" using D(1) [of j] j by auto
    then show "ractive ?r \<and> Suc j = length (rgens ?r) \<or> (\<exists>l. rcontrol ?r l = CStopTook j)"
    proof cases
      case (2 l)
      then have "l \<noteq> k" using assms(2) ne(1) by auto
      then show ?thesis using 2 by (auto intro!: exI [of _ l])
    qed simp
  next
    fix l j assume "rcontrol ?r l = CStopTook j"
    then have "rcontrol r l = CStopTook j" by (simp split: if_splits)
    then show "j < length (rgens ?r)" using D(4) by simp
  next
    fix l j assume "rcontrol ?r l = CStopping j"
    then have "j = i \<or> rcontrol r l = CStopping j" by (simp split: if_splits)
    then show "j < length (rgens ?r) \<and> cancelled (rgens ?r ! j)" using D(5) il by (auto simp: upd_gen_nth)
  next
    show "serial_starts ?r" using D(6) by (auto simp: serial_starts_def starting_def)
  next
    assume "ractive ?r"
    then show "rgens ?r \<noteq> []" using D(2) by simp
  next
    fix l assume "ractive ?r"
    then show "\<not> starting (rcontrol ?r l)" using D(3) by (simp add: starting_def)
  qed
qed

lemma rt_inv_starts:
  assumes "rt_inv r" "\<not> ractive r" "starting c" "\<And>i. rcontrol r k \<noteq> CStopTook i"
    and "rgens r' = rgens r" "ractive r' = ractive r" "rcontrol r' = (rcontrol r)(k := c)" "serial_starts r'"
  shows "rt_inv r'"
proof -
  note D = rt_inv_D [OF assms(1)]
  have c: "\<forall>i. c \<noteq> CStopTook i \<and> c \<noteq> CStopping i" using assms(3) by (auto simp: starting_def)
  show ?thesis
  proof (rule rt_inv_I)
    fix i assume i: "i < length (rgens r')" "\<not> cancelled (rgens r' ! i)"
    obtain l where l: "rcontrol r l = CStopTook i" using D(1) [of i] i assms(2,5) by auto
    then have "l \<noteq> k" using assms(4) by auto
    then show "ractive r' \<and> Suc i = length (rgens r') \<or> (\<exists>l. rcontrol r' l = CStopTook i)" using l assms(7) by auto
  next
    fix l i assume "rcontrol r' l = CStopTook i"
    then have "rcontrol r l = CStopTook i" using c assms(7) by (auto split: if_splits)
    then show "i < length (rgens r')" using D(4) assms(5) by simp
  next
    fix l i assume "rcontrol r' l = CStopping i"
    then have "rcontrol r l = CStopping i" using c assms(7) by (auto split: if_splits)
    then show "i < length (rgens r') \<and> cancelled (rgens r' ! i)" using D(5) assms(5) by simp
  qed (use assms in simp_all)
qed

lemma rt_step_inv: "rt_step r r' \<Longrightarrow> serial_starts r' \<Longrightarrow> rt_inv r \<Longrightarrow> rt_inv r'"
proof (induction rule: rt_step.induct)
  case (start_disabled r k)
  then show ?case by - (rule rt_inv_frame [of r], simp_all)
next
  case (start_passes r k)
  then show ?case by - (rule rt_inv_starts [of r CPassed k], simp_all add: starting_def)
next
  case (start_begin r k)
  then have "\<not> ractive r" using rt_inv_D(3) [of r k] by (auto simp: starting_def)
  then show ?case using start_begin by - (rule rt_inv_starts [of r CChecked k], simp_all add: starting_def)
next
  case (start_fails r k)
  then show ?case by - (rule rt_inv_move [of r _ k CIdle], simp_all add: starting_def)
next
  case (start_install r k)
  from this(3,1) show ?case by (rule rt_inv_install)
next
  case (start_finish r k peers)
  then show ?case by - (rule rt_inv_move [of r _ k CIdle], simp_all add: starting_def)
next
  case (parent_ends i r)
  then show ?case by - (rule rt_inv_frame [of r], auto simp: upd_gen_nth)
next
  case (serve_cancelled i r)
  then show ?case by - (rule rt_inv_frame [of r], auto simp: upd_gen_nth)
next
  case (serve_fails i r)
  then show ?case by - (rule rt_inv_frame [of r], auto simp: upd_gen_nth)
next
  case (serve_reports i r)
  then show ?case by - (rule rt_inv_frame [of r], auto simp: upd_gen_nth)
next
  case (serve_closes i r)
  then show ?case by - (rule rt_inv_frame [of r], auto simp: upd_gen_nth close_done_cancelled)
next
  case (monitor_exits i r)
  then show ?case by - (rule rt_inv_frame [of r], auto simp: upd_gen_nth)
next
  case (monitor_reads i r)
  then show ?case by - (rule rt_inv_frame [of r], auto simp: upd_gen_nth)
next
  case (monitor_skips i r)
  then show ?case by - (rule rt_inv_frame [of r], auto simp: upd_gen_nth)
next
  case (monitor_sets i r st peers)
  then show ?case by - (rule rt_inv_frame [of r], auto simp: upd_gen_nth)
next
  case (stop_inactive r k)
  then show ?case
    by - (rule rt_inv_move [of r _ k "if rstate r = Configured then CStopSet else CIdle"], simp_all add: starting_def)
next
  case (stop_sets r k)
  then show ?case by - (rule rt_inv_move [of r _ k CIdle], simp_all add: starting_def)
next
  case (stop_takes r k)
  from this(4,1,2) show ?case by (rule rt_inv_takes)
next
  case (stop_cancels r k i)
  from this(3,1) show ?case by (rule rt_inv_cancels)
next
  case (stop_done r k i)
  then show ?case by - (rule rt_inv_move [of r _ k CIdle], simp_all add: starting_def)
next
  case (stop_timeout r k i)
  then show ?case by - (rule rt_inv_move [of r _ k CIdle], simp_all add: starting_def)
qed

lemma rt_reach_inv: "rt_serial_step\<^sup>*\<^sup>* (runtime_New cfg) r \<Longrightarrow> rt_inv r"
proof (induction rule: rtranclp_induct)
  case base
  show ?case by (simp add: rt_inv_def runtime_New_def serial_starts_def starting_def)
qed (auto intro: rt_step_inv simp: rt_serial_step_def)

definition demo_config :: "bool \<Rightarrow> MConfig" where
  "demo_config on = (base_config (\<lambda>_. None))\<lparr>Enabled := on\<rparr>"

lemma demo_config_Enabled [simp]: "Enabled (demo_config on) = on"
  by (simp add: demo_config_def)

definition rt :: "MConfig \<Rightarrow> rt_state \<Rightarrow> bool \<Rightarrow> bool \<Rightarrow> gen list \<Rightarrow> (nat \<Rightarrow> control) \<Rightarrow> bool \<Rightarrow> Runtime" where
  "rt cfg st act ca gs cs p =
     \<lparr>rcfg = cfg, rstate = st, ractive = act, rcache = ca, rgens = gs, rcontrol = cs, rpanic = p\<rparr>"

definition gn :: "bool \<Rightarrow> bool \<Rightarrow> server \<Rightarrow> monitor \<Rightarrow> gen" where
  "gn c d sv m = \<lparr>cancelled = c, doneClosed = d, gserve = sv, gmon = m\<rparr>"

lemmas rt_defs = rt_def gn_def upd_gen_def ctl_def new_gen_def close_done_def peers_state_def Let_def

text \<open>One goroutine's place, the others idle.\<close>

abbreviation only :: "nat \<Rightarrow> control \<Rightarrow> nat \<Rightarrow> control" where
  "only k c \<equiv> (\<lambda>_. CIdle)(k := c)"

lemma rt_serial_run: "rt_serial_step\<^sup>*\<^sup>* r r' \<Longrightarrow> rt_step\<^sup>*\<^sup>* r r'"
  by (induction rule: rtranclp_induct) (auto simp: rt_serial_step_def)

lemma rt_serial_extend: "rt_serial_step\<^sup>*\<^sup>* a b \<Longrightarrow> rt_step b c \<Longrightarrow> serial_starts c \<Longrightarrow> rt_serial_step\<^sup>*\<^sup>* a c"
  by (simp add: rt_serial_step_def rtranclp.rtrancl_into_rtrancl)

lemma serial_one: "(\<And>l. l \<noteq> k \<Longrightarrow> \<not> starting (rcontrol r l)) \<Longrightarrow> serial_starts r"
  unfolding serial_starts_def by metis

lemma rt_started:
  assumes "Enabled cfg"
  shows "rt_serial_step\<^sup>*\<^sup>* (runtime_New cfg) (rt cfg Degraded True True [gn False False ServeRunning MonWait] (\<lambda>_. CIdle) False)"
proof -
  have s: "serial_starts (rt cfg st act ca gs (only 0 c) p)" for st act ca gs c p
    by (rule serial_one [of 0]) (simp add: rt_def starting_def)
  have s0: "serial_starts (rt cfg st act ca gs (\<lambda>_. CIdle) p)" for st act ca gs p
    by (rule serial_one [of 0]) (simp add: rt_def starting_def)
  have "rt_step (runtime_New cfg) (rt cfg Configured False False [] (only 0 CPassed) False)"
    using start_passes [of "runtime_New cfg" 0] assms by (simp add: runtime_New_def rt_defs)
  note R = rt_serial_extend [OF rtranclp.rtrancl_refl this s]
  have "rt_step (rt cfg Configured False False [] (only 0 CPassed) False) (rt cfg Starting False False [] (only 0 CChecked) False)"
    using start_begin [of "rt cfg Configured False False [] (only 0 CPassed) False" 0] by (simp add: rt_defs)
  note R = rt_serial_extend [OF R this s]
  have "rt_step (rt cfg Starting False False [] (only 0 CChecked) False)
      (rt cfg Starting True True [gn False False ServeRunning MonWait] (only 0 CInstalled) False)"
    using start_install [of "rt cfg Starting False False [] (only 0 CChecked) False" 0] by (simp add: rt_defs)
  note R = rt_serial_extend [OF R this s]
  have "rt_step (rt cfg Starting True True [gn False False ServeRunning MonWait] (only 0 CInstalled) False)
      (rt cfg Degraded True True [gn False False ServeRunning MonWait] (\<lambda>_. CIdle) False)"
    using start_finish [of "rt cfg Starting True True [gn False False ServeRunning MonWait] (only 0 CInstalled) False" 0 0]
    by (simp add: rt_defs fun_upd_idem)
  then show ?thesis by (rule rt_serial_extend [OF R _ s0])
qed

text \<open>
  C35. Whoever calls \<^verbatim>\<open>Start\<close> and \<^verbatim>\<open>Stop\<close>, and whenever parent contexts end, a
  runtime whose configuration does not enable the mesh never leaves the disabled state and starts nothing;
  and if no two starts overlap between their check and their installation, then of two starts that are
  alive the older one has been taken by a \<^verbatim>\<open>Stop\<close> that is about to cancel it, a start whose \<^verbatim>\<open>Stop\<close> waits
  for its end is cancelled, and when no call is under way at most one start is alive: the last, and only
  while the runtime counts as active.
\<close>

theorem runtime_one_active:
  assumes "rt_step\<^sup>*\<^sup>* (runtime_New cfg) r"
  shows "(\<not> Enabled cfg \<longrightarrow> rstate r = Disabled \<and> rgens r = [] \<and> \<not> rcache r \<and> \<not> lookup_allowed r) \<and>
    (rt_serial_step\<^sup>*\<^sup>* (runtime_New cfg) r \<longrightarrow>
      (\<forall>i < length (rgens r). \<not> cancelled (rgens r ! i) \<longrightarrow>
         ractive r \<and> Suc i = length (rgens r) \<or> (\<exists>k. rcontrol r k = CStopTook i)) \<and>
      (\<forall>i j. i < j \<and> j < length (rgens r) \<and> \<not> cancelled (rgens r ! i) \<and> \<not> cancelled (rgens r ! j) \<longrightarrow>
         (\<exists>k. rcontrol r k = CStopTook i)) \<and>
      (\<forall>k i. rcontrol r k = CStopping i \<longrightarrow> i < length (rgens r) \<and> cancelled (rgens r ! i)) \<and>
      ((\<forall>k. rcontrol r k = CIdle) \<longrightarrow>
         (\<forall>i < length (rgens r). \<not> cancelled (rgens r ! i) \<longrightarrow> ractive r \<and> Suc i = length (rgens r))))"
proof -
  have d: "\<not> Enabled cfg \<longrightarrow> rstate r = Disabled \<and> rgens r = [] \<and> \<not> rcache r \<and> \<not> lookup_allowed r"
    using disabled_reach [OF assms] by (simp add: disabled_inv_def lookup_allowed_def)
  show ?thesis
  proof (intro conjI d impI)
    assume "rt_serial_step\<^sup>*\<^sup>* (runtime_New cfg) r"
    then have I: "rt_inv r" by (rule rt_reach_inv)
    show live: "\<forall>i < length (rgens r). \<not> cancelled (rgens r ! i) \<longrightarrow>
         ractive r \<and> Suc i = length (rgens r) \<or> (\<exists>k. rcontrol r k = CStopTook i)"
      and "\<forall>k i. rcontrol r k = CStopping i \<longrightarrow> i < length (rgens r) \<and> cancelled (rgens r ! i)"
      using I unfolding rt_inv_def by blast+
    show "\<forall>i j. i < j \<and> j < length (rgens r) \<and> \<not> cancelled (rgens r ! i) \<and> \<not> cancelled (rgens r ! j) \<longrightarrow>
         (\<exists>k. rcontrol r k = CStopTook i)"
      using live by (metis Suc_leI leD less_trans)
    show "\<forall>i < length (rgens r). \<not> cancelled (rgens r ! i) \<longrightarrow> ractive r \<and> Suc i = length (rgens r)"
      if "\<forall>k. rcontrol r k = CIdle"
      using live that by simp
  qed
qed

text \<open>
  A runtime that is started, whose monitor runs, and that a second goroutine stops: when the cancel function
  is taken and not yet called, the runtime is not active and its start is alive, and a third goroutine can
  start it anew.
\<close>

theorem runtime_one_active_witness:
  "\<exists>r. rt_step\<^sup>*\<^sup>* (runtime_New (demo_config True)) r \<and> length (rgens r) = 2 \<and> ractive r \<and>
     \<not> cancelled (rgens r ! 0) \<and> \<not> cancelled (rgens r ! 1) \<and> rcontrol r 1 = CStopTook 0 \<and>
     (\<exists>k. rcontrol r k = CStopTook 0)"
proof -
  let ?cfg = "demo_config True" and ?g = "gn False False ServeRunning MonWait"
  let ?t = "(\<lambda>_. CIdle)(1 := CStopTook 0)"
  have S: "rt_serial_step\<^sup>*\<^sup>* (runtime_New ?cfg) (rt ?cfg Degraded True True [?g] (\<lambda>_. CIdle) False)"
    by (rule rt_started) simp
  have "rt_step (rt ?cfg Degraded True True [?g] (\<lambda>_. CIdle) False) (rt ?cfg Stopping False True [?g] ?t False)"
    using stop_takes [of "rt ?cfg Degraded True True [?g] (\<lambda>_. CIdle) False" 1] by (simp add: rt_defs)
  note S = rt_serial_extend [OF S this]
  have "rt_step (rt ?cfg Stopping False True [?g] ?t False) (rt ?cfg Stopping False True [?g] (?t(2 := CPassed)) False)"
    using start_passes [of "rt ?cfg Stopping False True [?g] ?t False" 2] by (simp add: rt_defs)
  note S = rt_serial_extend [OF S this]
  have "rt_step (rt ?cfg Stopping False True [?g] (?t(2 := CPassed)) False) (rt ?cfg Starting False True [?g] (?t(2 := CChecked)) False)"
    using start_begin [of "rt ?cfg Stopping False True [?g] (?t(2 := CPassed)) False" 2] by (simp add: rt_defs)
  note S = rt_serial_extend [OF S this]
  have "rt_step (rt ?cfg Starting False True [?g] (?t(2 := CChecked)) False) (rt ?cfg Starting True True [?g, ?g] (?t(2 := CInstalled)) False)"
    using start_install [of "rt ?cfg Starting False True [?g] (?t(2 := CChecked)) False" 2] by (simp add: rt_defs)
  note S = rt_serial_extend [OF S this]
  let ?r = "rt ?cfg Starting True True [?g, ?g] (?t(2 := CInstalled)) False"
  have S': "rt_serial_step\<^sup>*\<^sup>* (runtime_New ?cfg) ?r" by (rule S) (simp_all add: rt_defs serial_starts_def starting_def)
  have r: "rt_step\<^sup>*\<^sup>* (runtime_New ?cfg) ?r" by (rule rt_serial_run [OF S'])
  have live: "length (rgens ?r) = 2" "\<not> cancelled (rgens ?r ! 0)" "\<not> cancelled (rgens ?r ! 1)" by (simp_all add: rt_defs)
  have "\<exists>k. rcontrol ?r k = CStopTook 0"
    using runtime_one_active [OF r] S' live by (metis less_numeral_extra(1) one_less_numeral_iff semiring_norm(76))
  then show ?thesis using r live by (intro exI [of _ ?r]) (simp add: rt_defs)
qed

text \<open>
  A stopped runtime can come back to life in its state. When the monitor has read the state just
  before \<^verbatim>\<open>Stop\<close> and writes after it, the runtime is stopped, with its transport closed, and yet in a state
  in which lookups are let through.
\<close>

theorem monitor_revives_stopped:
  assumes "Enabled cfg"
  shows "\<exists>r. rt_step\<^sup>*\<^sup>* (runtime_New cfg) r \<and> (\<forall>k. rcontrol r k = CIdle) \<and> \<not> ractive r \<and>
    (\<forall>g \<in> set (rgens r). cancelled g \<and> gserve g = ServeEnded) \<and> lookup_allowed r"
proof -
  let ?r = "\<lambda>st act c d sv m ctl. rt cfg st act True [gn c d sv m] (only 0 ctl) False"
  have R: "rt_step\<^sup>*\<^sup>* (runtime_New cfg) (?r Degraded True False False ServeRunning MonWait CIdle)"
    using rt_serial_run [OF rt_started [OF assms]] by (simp add: fun_upd_idem)
  have "rt_step (?r Degraded True False False ServeRunning MonWait CIdle) (?r Degraded True False False ServeRunning (MonSaw Degraded) CIdle)"
    using monitor_reads [of 0 "?r Degraded True False False ServeRunning MonWait CIdle"] by (simp add: rt_defs)
  note R = rtranclp.rtrancl_into_rtrancl [OF R this]
  have "rt_step (?r Degraded True False False ServeRunning (MonSaw Degraded) CIdle) (?r Stopping False False False ServeRunning (MonSaw Degraded) (CStopTook 0))"
    using stop_takes [of "?r Degraded True False False ServeRunning (MonSaw Degraded) CIdle" 0] by (simp add: rt_defs)
  note R = rtranclp.rtrancl_into_rtrancl [OF R this]
  have "rt_step (?r Stopping False False False ServeRunning (MonSaw Degraded) (CStopTook 0)) (?r Stopping False True False ServeRunning (MonSaw Degraded) (CStopping 0))"
    using stop_cancels [of "?r Stopping False False False ServeRunning (MonSaw Degraded) (CStopTook 0)" 0 0] by (simp add: rt_defs)
  note R = rtranclp.rtrancl_into_rtrancl [OF R this]
  have "rt_step (?r Stopping False True False ServeRunning (MonSaw Degraded) (CStopping 0)) (?r Stopping False True False ServeEnding (MonSaw Degraded) (CStopping 0))"
    using serve_cancelled [of 0 "?r Stopping False True False ServeRunning (MonSaw Degraded) (CStopping 0)"] by (simp add: rt_defs)
  note R = rtranclp.rtrancl_into_rtrancl [OF R this]
  have "rt_step (?r Stopping False True False ServeEnding (MonSaw Degraded) (CStopping 0)) (?r Stopping False True True ServeEnded (MonSaw Degraded) (CStopping 0))"
    using serve_closes [of 0 "?r Stopping False True False ServeEnding (MonSaw Degraded) (CStopping 0)"] by (simp add: rt_defs)
  note R = rtranclp.rtrancl_into_rtrancl [OF R this]
  have "rt_step (?r Stopping False True True ServeEnded (MonSaw Degraded) (CStopping 0)) (?r Configured False True True ServeEnded (MonSaw Degraded) CIdle)"
    using stop_done [of "?r Stopping False True True ServeEnded (MonSaw Degraded) (CStopping 0)" 0 0] assms by (simp add: rt_defs)
  note R = rtranclp.rtrancl_into_rtrancl [OF R this]
  have "rt_step (?r Configured False True True ServeEnded (MonSaw Degraded) CIdle) (?r Degraded False True True ServeEnded MonWait CIdle)"
    using monitor_sets [of 0 "?r Configured False True True ServeEnded (MonSaw Degraded) CIdle" Degraded 0] by (simp add: rt_defs)
  note R = rtranclp.rtrancl_into_rtrancl [OF R this]
  show ?thesis using R by (intro exI conjI) (assumption, simp_all add: rt_defs lookup_allowed_def)
qed

theorem monitor_revives_stopped_witness:
  "\<exists>r. rt_step\<^sup>*\<^sup>* (runtime_New (demo_config True)) r \<and> \<not> ractive r \<and> lookup_allowed r"
  using monitor_revives_stopped [of "demo_config True"] by auto

text \<open>
  A second start after a \<^verbatim>\<open>Stop\<close> that timed out can make the program panic: the goroutine of the first
  start closes the channel of the second one, which its own goroutine then closes again.
\<close>

theorem done_closed_twice:
  assumes "Enabled cfg"
  shows "\<exists>r. rt_step\<^sup>*\<^sup>* (runtime_New cfg) r \<and> rpanic r"
proof -
  let ?a = "gn False False ServeRunning MonWait" and ?b = "gn True False ServeRunning MonWait"
  let ?r = "\<lambda>st act gs c. rt cfg st act True gs (only 0 c) False"
  have R: "rt_step\<^sup>*\<^sup>* (runtime_New cfg) (?r Degraded True [?a] CIdle)"
    using rt_serial_run [OF rt_started [OF assms]] by (simp add: fun_upd_idem)
  have "rt_step (?r Degraded True [?a] CIdle) (?r Stopping False [?a] (CStopTook 0))"
    using stop_takes [of "?r Degraded True [?a] CIdle" 0] by (simp add: rt_defs)
  note R = rtranclp.rtrancl_into_rtrancl [OF R this]
  have "rt_step (?r Stopping False [?a] (CStopTook 0)) (?r Stopping False [?b] (CStopping 0))"
    using stop_cancels [of "?r Stopping False [?a] (CStopTook 0)" 0 0] by (simp add: rt_defs)
  note R = rtranclp.rtrancl_into_rtrancl [OF R this]
  have "rt_step (?r Stopping False [?b] (CStopping 0)) (?r RError False [?b] CIdle)"
    using stop_timeout [of "?r Stopping False [?b] (CStopping 0)" 0 0] by (simp add: rt_defs)
  note R = rtranclp.rtrancl_into_rtrancl [OF R this]
  have "rt_step (?r RError False [?b] CIdle) (?r RError False [?b] CPassed)"
    using start_passes [of "?r RError False [?b] CIdle" 0] assms by (simp add: rt_defs)
  note R = rtranclp.rtrancl_into_rtrancl [OF R this]
  have "rt_step (?r RError False [?b] CPassed) (?r Starting False [?b] CChecked)"
    using start_begin [of "?r RError False [?b] CPassed" 0] by (simp add: rt_defs)
  note R = rtranclp.rtrancl_into_rtrancl [OF R this]
  have "rt_step (?r Starting False [?b] CChecked) (?r Starting True [?b, ?a] CInstalled)"
    using start_install [of "?r Starting False [?b] CChecked" 0] by (simp add: rt_defs)
  note R = rtranclp.rtrancl_into_rtrancl [OF R this]
  have "rt_step (?r Starting True [?b, ?a] CInstalled) (?r Starting True [gn True False ServeEnding MonWait, ?a] CInstalled)"
    using serve_cancelled [of 0 "?r Starting True [?b, ?a] CInstalled"] by (simp add: rt_defs)
  note R = rtranclp.rtrancl_into_rtrancl [OF R this]
  let ?c = "gn True False ServeEnded MonWait"
  have "rt_step (?r Starting True [gn True False ServeEnding MonWait, ?a] CInstalled)
      (?r Starting True [?c, gn False True ServeRunning MonWait] CInstalled)"
    using serve_closes [of 0 "?r Starting True [gn True False ServeEnding MonWait, ?a] CInstalled"] by (simp add: rt_defs)
  note R = rtranclp.rtrancl_into_rtrancl [OF R this]
  have "rt_step (?r Starting True [?c, gn False True ServeRunning MonWait] CInstalled)
      (?r Starting True [?c, gn False True ServeFailed MonWait] CInstalled)"
    using serve_fails [of 1 "?r Starting True [?c, gn False True ServeRunning MonWait] CInstalled"] by (simp add: rt_defs)
  note R = rtranclp.rtrancl_into_rtrancl [OF R this]
  have "rt_step (?r Starting True [?c, gn False True ServeFailed MonWait] CInstalled)
      (?r RError True [?c, gn False True ServeEnding MonWait] CInstalled)"
    using serve_reports [of 1 "?r Starting True [?c, gn False True ServeFailed MonWait] CInstalled"] by (simp add: rt_defs)
  note R = rtranclp.rtrancl_into_rtrancl [OF R this]
  have "rt_step (?r RError True [?c, gn False True ServeEnding MonWait] CInstalled)
      (rt cfg RError True True [?c, gn False True ServeEnded MonWait] (only 0 CInstalled) True)"
    using serve_closes [of 1 "?r RError True [?c, gn False True ServeEnding MonWait] CInstalled"] by (simp add: rt_defs)
  note R = rtranclp.rtrancl_into_rtrancl [OF R this]
  show ?thesis using R by (intro exI conjI) (assumption, simp add: rt_defs)
qed

theorem done_closed_twice_witness:
  "\<exists>r. rt_step\<^sup>*\<^sup>* (runtime_New (demo_config True)) r \<and> rpanic r"
  using done_closed_twice [of "demo_config True"] by simp

text \<open>
  Two starts that overlap both install. The runtime keeps the second one's cancel function only, and when
  all calls have returned the first start is alive and nothing can stop it. Without the hypothesis on
  overlapping starts the theorem above is false.
\<close>

theorem overlapping_starts_leak:
  assumes "Enabled cfg"
  shows "\<exists>r. rt_step\<^sup>*\<^sup>* (runtime_New cfg) r \<and> (\<forall>k. rcontrol r k = CIdle) \<and> length (rgens r) = 2 \<and>
    \<not> cancelled (rgens r ! 0) \<and> \<not> cancelled (rgens r ! 1)"
proof -
  let ?a = "gn False False ServeRunning MonWait"
  let ?r = "\<lambda>st act gs c d. rt cfg st act act gs ((\<lambda>_. CIdle)(0 := c, 1 := d)) False"
  have "runtime_New cfg = ?r Configured False [] CIdle CIdle" using assms by (simp add: runtime_New_def rt_def fun_upd_idem)
  then have R: "rt_step\<^sup>*\<^sup>* (runtime_New cfg) (?r Configured False [] CIdle CIdle)" by simp
  have "rt_step (?r Configured False [] CIdle CIdle) (?r Configured False [] CPassed CIdle)"
    using start_passes [of "?r Configured False [] CIdle CIdle" 0] assms by (simp add: rt_defs fun_upd_twist)
  note R = rtranclp.rtrancl_into_rtrancl [OF R this]
  have "rt_step (?r Configured False [] CPassed CIdle) (?r Configured False [] CPassed CPassed)"
    using start_passes [of "?r Configured False [] CPassed CIdle" 1] assms by (simp add: rt_defs)
  note R = rtranclp.rtrancl_into_rtrancl [OF R this]
  have "rt_step (?r Configured False [] CPassed CPassed) (?r Starting False [] CChecked CPassed)"
    using start_begin [of "?r Configured False [] CPassed CPassed" 0] by (simp add: rt_defs fun_upd_twist)
  note R = rtranclp.rtrancl_into_rtrancl [OF R this]
  have "rt_step (?r Starting False [] CChecked CPassed) (?r Starting False [] CChecked CChecked)"
    using start_begin [of "?r Starting False [] CChecked CPassed" 1] by (simp add: rt_defs)
  note R = rtranclp.rtrancl_into_rtrancl [OF R this]
  have "rt_step (?r Starting False [] CChecked CChecked) (?r Starting True [?a] CInstalled CChecked)"
    using start_install [of "?r Starting False [] CChecked CChecked" 0] by (simp add: rt_defs fun_upd_twist)
  note R = rtranclp.rtrancl_into_rtrancl [OF R this]
  have "rt_step (?r Starting True [?a] CInstalled CChecked) (?r Starting True [?a, ?a] CInstalled CInstalled)"
    using start_install [of "?r Starting True [?a] CInstalled CChecked" 1] by (simp add: rt_defs)
  note R = rtranclp.rtrancl_into_rtrancl [OF R this]
  have "rt_step (?r Starting True [?a, ?a] CInstalled CInstalled) (?r Degraded True [?a, ?a] CIdle CInstalled)"
    using start_finish [of "?r Starting True [?a, ?a] CInstalled CInstalled" 0 0] by (simp add: rt_defs fun_upd_twist)
  note R = rtranclp.rtrancl_into_rtrancl [OF R this]
  have "rt_step (?r Degraded True [?a, ?a] CIdle CInstalled) (?r Degraded True [?a, ?a] CIdle CIdle)"
    using start_finish [of "?r Degraded True [?a, ?a] CIdle CInstalled" 1 0] by (simp add: rt_defs)
  note R = rtranclp.rtrancl_into_rtrancl [OF R this]
  show ?thesis using R by (intro exI conjI) (assumption, simp_all add: rt_defs)
qed

theorem overlapping_starts_leak_witness:
  "\<exists>r. rt_step\<^sup>*\<^sup>* (runtime_New (demo_config True)) r \<and> (\<forall>k. rcontrol r k = CIdle) \<and>
     \<not> cancelled (rgens r ! 0) \<and> \<not> cancelled (rgens r ! 1)"
  using overlapping_starts_leak [of "demo_config True"] by auto

end
