(* ===== verification/Gandr_Clientdb.thy ===== *)
theory Gandr_Clientdb
  imports Gandr_Store "HOL-Library.Multiset"
begin

text \<open>
  \<^verbatim>\<open>pkg/clientdb/clientdb.go\<close>: the client's local store. A table of the SQLite schema is the list of its
  rows by primary key, in the order of insertion; the statements of the source are functions on these
  lists. The order SQLite gives rows that compare equal under \<^verbatim>\<open>ORDER BY\<close> is not fixed, so a listing
  takes the sorting function as an argument, any function that returns the rows in the order the
  statement asks for. \<open>io\<close> says that the statement is executed; where it is false the call fails and
  the tables are unchanged. \<open>rnd\<close> is the randomness of an encryption.
\<close>

record nick_row =
  nk_name :: bytes
  nk_note :: bytes
  nk_added :: "64 word"
  nk_trust :: byte

record chat_row =
  ch_channel :: bytes
  ch_sender :: bytes
  ch_content :: bytes
  ch_at :: "64 word"
  ch_local :: bool

record group_row =
  gr_name :: bytes
  gr_created :: "64 word"
  gr_peer :: "bytes option"

record gmsg_row =
  gm_group :: bytes
  gm_sender :: bytes
  gm_ct :: bytes
  gm_at :: "64 word"

record sealed_row =
  sl_data :: bytes
  sl_sender :: bytes
  sl_at :: "64 word"
  sl_read :: bool

record block_row =
  bl_added :: "64 word"
  bl_reason :: bytes

record chan_row =
  cn_name :: bytes
  cn_joined :: "64 word"

record profile_row =
  pr_data :: bytes
  pr_at :: "64 word"
  pr_hash :: gostring

record DB =
  db_key :: bytes
  nicknames :: "(bytes \<times> nick_row) list"
  chat_messages :: "(bytes \<times> chat_row) list"
  private_groups :: "(bytes \<times> group_row) list"
  private_group_messages :: "(bytes \<times> gmsg_row) list"
  sealed_inbox :: "(gostring \<times> sealed_row) list"
  blocklist :: "(bytes \<times> block_row) list"
  channels :: "(bytes \<times> chan_row) list"
  profile_cache :: "(bytes \<times> profile_row) list"
  settings :: "(gostring \<times> bytes) list"

datatype db_error =
    ErrDbNotFound
  | ErrDbStatement
  | ErrDbValueShort
  | ErrDbCrypto crypto_error
  | ErrDbKeyLength nat
  | ErrDbOpen
  | ErrDbSchema
  | ErrDbMigrate gostring

record Nickname =
  NPubkey :: bytes
  NName :: gostring
  NNote :: gostring
  NAddedAt :: "64 word"
  NTrustHint :: byte

record SealedMessage =
  MsgHash :: bytes
  SData :: bytes
  SSender :: bytes
  ReceivedAt :: "64 word"
  SRead :: bool

record Channel =
  ChID :: bytes
  ChName :: gostring
  JoinedAt :: "64 word"

record ChatMessage =
  CmHash :: bytes
  CmChannelID :: bytes
  CmSender :: bytes
  CmContent :: gostring
  CmAt :: "64 word"
  CmLocal :: bool

record PrivateGroup =
  GID :: bytes
  GName :: gostring
  GCreatedAt :: "64 word"
  PeerPubkey :: "bytes option"

text \<open>A nil ciphertext is \<^const>\<open>None\<close>.\<close>

record PrivateGroupMessage =
  GmHash :: bytes
  GmGroupID :: bytes
  GmSender :: bytes
  GmCiphertext :: "bytes option"
  GmMessageAt :: "64 word"

section \<open>Statements\<close>

text \<open>\<^verbatim>\<open>INSERT ... ON CONFLICT(key) DO UPDATE\<close>, \<^verbatim>\<open>INSERT OR IGNORE\<close>\<close>

definition upsert :: "'k \<Rightarrow> 'r \<Rightarrow> ('r \<Rightarrow> 'r) \<Rightarrow> ('k \<times> 'r) list \<Rightarrow> ('k \<times> 'r) list" where
  "upsert k r f t = AList.update k (case map_of t k of None \<Rightarrow> r | Some old \<Rightarrow> f old) t"

definition insert_ignore :: "'k \<Rightarrow> 'r \<Rightarrow> ('k \<times> 'r) list \<Rightarrow> ('k \<times> 'r) list" where
  "insert_ignore k r t = (if map_of t k = None then t @ [(k, r)] else t)"

text \<open>The \<^verbatim>\<open>rows.Next\<close> loop: an error ends it, \<^const>\<open>None\<close> skips the row.\<close>

fun scan_rows :: "('r \<Rightarrow> 'e + 'a option) \<Rightarrow> 'r list \<Rightarrow> 'e + 'a list" where
  "scan_rows f [] = Inr []"
| "scan_rows f (r # rs) =
     (case f r of
        Inl e \<Rightarrow> Inl e
      | Inr x \<Rightarrow> (case scan_rows f rs of Inl e \<Rightarrow> Inl e | Inr out \<Rightarrow> Inr (case x of None \<Rightarrow> out | Some a \<Rightarrow> a # out)))"

definition contains :: "gostring \<Rightarrow> gostring \<Rightarrow> bool" where
  "contains hay needle \<longleftrightarrow> list_ex (\<lambda>i. take (length needle) (drop i hay) = needle) [0..<Suc (length hay)]"

definition storageKeyInfo :: gostring where "storageKeyInfo = str ''gandr-clientdb-v1''"

text \<open>\<open>altErr\<close> is the error text of the migration's statement, if it fails.\<close>

definition migrate :: "gostring option \<Rightarrow> db_error + unit" where
  "migrate altErr =
     (case altErr of
        None \<Rightarrow> Inr ()
      | Some e \<Rightarrow> if contains e (str ''duplicate column'') then Inr () else Inl (ErrDbMigrate e))"

text \<open>\<open>stored\<close> are the tables found in the file.\<close>

definition db_Open :: "prims \<Rightarrow> bool \<Rightarrow> bool \<Rightarrow> gostring option \<Rightarrow> DB \<Rightarrow> bytes \<Rightarrow> db_error + DB" where
  "db_Open P openOk schemaOk altErr stored identityKey =
     (if length identityKey \<noteq> PrivateKeySize then Inl (ErrDbKeyLength (length identityKey))
      else
        let key = to_array KeySize (hkdf_sha256 P (Seed identityKey) storageKeyInfo) in
        if \<not> openOk then Inl ErrDbOpen
        else if \<not> schemaOk then Inl ErrDbSchema
        else (case migrate altErr of Inl e \<Rightarrow> Inl e | Inr _ \<Rightarrow> Inr (stored\<lparr>db_key := key\<rparr>)))"

section \<open>Encrypted cells\<close>

definition cell_aad :: "string \<Rightarrow> bytes \<Rightarrow> bytes" where
  "cell_aad tbl rowKey = str tbl @ str '':'' @ rowKey"

definition db_seal :: "prims \<Rightarrow> bytes \<Rightarrow> DB \<Rightarrow> string \<Rightarrow> bytes \<Rightarrow> bytes \<Rightarrow> bytes" where
  "db_seal P rnd d tbl rowKey value =
     (case Encrypt P rnd (db_key d) value (cell_aad tbl rowKey) of (nonce, ct) \<Rightarrow> nonce @ ct)"

definition db_open :: "prims \<Rightarrow> DB \<Rightarrow> string \<Rightarrow> bytes \<Rightarrow> bytes \<Rightarrow> db_error + bytes" where
  "db_open P d tbl rowKey blob =
     (if length blob < NonceSize + Overhead then Inl ErrDbValueShort
      else case Decrypt P (db_key d) (to_array NonceSize (take NonceSize blob)) (drop NonceSize blob) (cell_aad tbl rowKey) of
        Inl e \<Rightarrow> Inl (ErrDbCrypto e)
      | Inr v \<Rightarrow> Inr v)"

section \<open>Nicknames\<close>

definition SetNickname :: "prims \<Rightarrow> bool \<Rightarrow> 64 word \<Rightarrow> bytes \<Rightarrow> bytes \<Rightarrow> Nickname \<Rightarrow> DB \<Rightarrow> DB \<times> (db_error + unit)" where
  "SetNickname P io now rnd1 rnd2 n d =
     (let added = (if NAddedAt n = 0 then now else NAddedAt n);
          name = db_seal P rnd1 d ''nicknames'' (NPubkey n) (NName n);
          note = db_seal P rnd2 d ''nicknames'' (NPubkey n) (NNote n)
      in if \<not> io then (d, Inl ErrDbStatement)
         else (d\<lparr>nicknames := upsert (NPubkey n) \<lparr>nk_name = name, nk_note = note, nk_added = added, nk_trust = NTrustHint n\<rparr>
                   (\<lambda>old. old\<lparr>nk_name := name, nk_note := note, nk_trust := NTrustHint n\<rparr>) (nicknames d)\<rparr>, Inr ()))"

definition nick_of_row :: "prims \<Rightarrow> DB \<Rightarrow> bytes \<Rightarrow> nick_row \<Rightarrow> db_error + Nickname" where
  "nick_of_row P d pk r =
     (case db_open P d ''nicknames'' pk (nk_name r) of
        Inl e \<Rightarrow> Inl e
      | Inr name \<Rightarrow>
          (case db_open P d ''nicknames'' pk (nk_note r) of
             Inl e \<Rightarrow> Inl e
           | Inr note \<Rightarrow>
               Inr \<lparr>NPubkey = to_array 32 pk, NName = name, NNote = note, NAddedAt = nk_added r, NTrustHint = nk_trust r\<rparr>))"

definition GetNickname :: "prims \<Rightarrow> bool \<Rightarrow> bytes \<Rightarrow> DB \<Rightarrow> db_error + Nickname" where
  "GetNickname P io pubkey d =
     (if \<not> io then Inl ErrDbStatement
      else case map_of (nicknames d) pubkey of
        None \<Rightarrow> Inl ErrDbNotFound
      | Some r \<Rightarrow> nick_of_row P d pubkey r)"

definition DeleteNickname :: "bool \<Rightarrow> bytes \<Rightarrow> DB \<Rightarrow> DB \<times> (db_error + unit)" where
  "DeleteNickname io pubkey d =
     (if \<not> io then (d, Inl ErrDbStatement) else (d\<lparr>nicknames := AList.delete pubkey (nicknames d)\<rparr>, Inr ()))"

definition ListNicknames :: "prims \<Rightarrow> bool \<Rightarrow> DB \<Rightarrow> db_error + Nickname list" where
  "ListNicknames P io d =
     (if \<not> io then Inl ErrDbStatement
      else scan_rows (\<lambda>(pk, r). case nick_of_row P d pk r of Inl e \<Rightarrow> Inl e | Inr n \<Rightarrow> Inr (Some n)) (nicknames d))"

text \<open>
  \<^verbatim>\<open>strings.ToLower\<close>: on ASCII strings the ASCII letters; beyond, the Unicode tables, which are the
  argument \<open>U\<close>.
\<close>

definition ToLower :: "(gostring \<Rightarrow> gostring) \<Rightarrow> gostring \<Rightarrow> gostring" where
  "ToLower U s =
     (if list_all (\<lambda>b. unat b < 128) s then map (\<lambda>b. if 65 \<le> unat b \<and> unat b \<le> 90 then b + 32 else b) s else U s)"

definition SearchNicknames :: "prims \<Rightarrow> (gostring \<Rightarrow> gostring) \<Rightarrow> bool \<Rightarrow> gostring \<Rightarrow> DB \<Rightarrow> db_error + Nickname list" where
  "SearchNicknames P U io query d =
     (case ListNicknames P io d of
        Inl e \<Rightarrow> Inl e
      | Inr all \<Rightarrow>
          let q = ToLower U query in
          Inr (filter (\<lambda>n. contains (ToLower U (NName n)) q \<or> contains (ToLower U (NNote n)) q) all))"

section \<open>Chat messages\<close>

definition SaveChatMessage :: "prims \<Rightarrow> bool \<Rightarrow> bytes \<Rightarrow> ChatMessage \<Rightarrow> DB \<Rightarrow> DB \<times> (db_error + unit)" where
  "SaveChatMessage P io rnd m d =
     (let content = db_seal P rnd d ''chat_messages'' (CmHash m) (CmContent m) in
      if \<not> io then (d, Inl ErrDbStatement)
      else (d\<lparr>chat_messages := insert_ignore (CmHash m)
                \<lparr>ch_channel = CmChannelID m, ch_sender = CmSender m, ch_content = content, ch_at = CmAt m, ch_local = CmLocal m\<rparr>
                (chat_messages d)\<rparr>, Inr ()))"

definition chat_of_row :: "prims \<Rightarrow> DB \<Rightarrow> bytes \<times> chat_row \<Rightarrow> db_error + ChatMessage option" where
  "chat_of_row P d hr =
     (case hr of (hash, r) \<Rightarrow>
        (case db_open P d ''chat_messages'' hash (ch_content r) of
           Inl e \<Rightarrow> Inl e
         | Inr opened \<Rightarrow>
             Inr (Some \<lparr>CmHash = to_array 32 hash, CmChannelID = to_array 32 (ch_channel r), CmSender = to_array 32 (ch_sender r),
                        CmContent = opened, CmAt = ch_at r, CmLocal = ch_local r\<rparr>)))"

definition limited :: "int \<Rightarrow> 'r list \<Rightarrow> 'r list" where
  "limited limit rows = (if limit > 0 then take (nat limit) rows else rows)"

definition ListChatMessages ::
  "prims \<Rightarrow> bool \<Rightarrow> ((bytes \<times> chat_row) list \<Rightarrow> (bytes \<times> chat_row) list) \<Rightarrow> bytes \<Rightarrow> int \<Rightarrow> DB \<Rightarrow> db_error + ChatMessage list" where
  "ListChatMessages P io srt channelID limit d =
     (if \<not> io then Inl ErrDbStatement
      else
        case scan_rows (chat_of_row P d)
               (limited limit (srt (filter (\<lambda>(h, r). ch_channel r = channelID) (chat_messages d)))) of
          Inl e \<Rightarrow> Inl e
        | Inr newest \<Rightarrow> Inr (rev newest))"

text \<open>The cutoff is an int64 of nanoseconds.\<close>

definition PruneChatMessages :: "bool \<Rightarrow> duration \<Rightarrow> instant \<Rightarrow> DB \<Rightarrow> DB \<times> (db_error + nat)" where
  "PruneChatMessages io maxAge now d =
     (let cutoff = (of_int (now - maxAge) :: 64 word) in
      if \<not> io then (d, Inl ErrDbStatement)
      else
        let old = filter (\<lambda>(h, r). sint (ch_at r) < sint cutoff) (chat_messages d) in
        (d\<lparr>chat_messages := filter (\<lambda>(h, r). \<not> sint (ch_at r) < sint cutoff) (chat_messages d)\<rparr>, Inr (length old)))"

section \<open>Private groups\<close>

definition SavePrivateGroup :: "prims \<Rightarrow> bool \<Rightarrow> bytes \<Rightarrow> PrivateGroup \<Rightarrow> DB \<Rightarrow> DB \<times> (db_error + unit)" where
  "SavePrivateGroup P io rnd g d =
     (let name = db_seal P rnd d ''private_groups'' (GID g) (GName g) in
      if \<not> io then (d, Inl ErrDbStatement)
      else (d\<lparr>private_groups := upsert (GID g) \<lparr>gr_name = name, gr_created = GCreatedAt g, gr_peer = PeerPubkey g\<rparr>
                (\<lambda>old. old\<lparr>gr_name := name\<rparr>) (private_groups d)\<rparr>, Inr ()))"

definition group_of_row :: "prims \<Rightarrow> DB \<Rightarrow> bytes \<times> group_row \<Rightarrow> db_error + PrivateGroup option" where
  "group_of_row P d gr =
     (case gr of (i, r) \<Rightarrow>
        (case db_open P d ''private_groups'' i (gr_name r) of
           Inl e \<Rightarrow> Inl e
         | Inr opened \<Rightarrow>
             Inr (Some \<lparr>GID = to_array 32 i, GName = opened, GCreatedAt = gr_created r,
                        PeerPubkey = (case gr_peer r of Some p \<Rightarrow> if length p = 32 then Some p else None | None \<Rightarrow> None)\<rparr>)))"

definition ListPrivateGroups ::
  "prims \<Rightarrow> bool \<Rightarrow> ((bytes \<times> group_row) list \<Rightarrow> (bytes \<times> group_row) list) \<Rightarrow> DB \<Rightarrow> db_error + PrivateGroup list" where
  "ListPrivateGroups P io srt d =
     (if \<not> io then Inl ErrDbStatement else scan_rows (group_of_row P d) (srt (private_groups d)))"

text \<open>A NULL ciphertext violates the column's constraint, which \<^verbatim>\<open>OR IGNORE\<close> skips silently.\<close>

definition SavePrivateGroupMessage :: "bool \<Rightarrow> PrivateGroupMessage \<Rightarrow> DB \<Rightarrow> DB \<times> (db_error + unit)" where
  "SavePrivateGroupMessage io m d =
     (if \<not> io then (d, Inl ErrDbStatement)
      else case GmCiphertext m of
        None \<Rightarrow> (d, Inr ())
      | Some ct \<Rightarrow>
          (d\<lparr>private_group_messages := insert_ignore (GmHash m)
               \<lparr>gm_group = GmGroupID m, gm_sender = GmSender m, gm_ct = ct, gm_at = GmMessageAt m\<rparr>
               (private_group_messages d)\<rparr>, Inr ()))"

definition ListPrivateGroupMessages ::
  "bool \<Rightarrow> ((bytes \<times> gmsg_row) list \<Rightarrow> (bytes \<times> gmsg_row) list) \<Rightarrow> bytes \<Rightarrow> int \<Rightarrow> DB \<Rightarrow> db_error + PrivateGroupMessage list" where
  "ListPrivateGroupMessages io srt groupID limit d =
     (if \<not> io then Inl ErrDbStatement
      else Inr (rev (map (\<lambda>(h, r). \<lparr>GmHash = to_array 32 h, GmGroupID = to_array 32 (gm_group r), GmSender = to_array 32 (gm_sender r),
                                     GmCiphertext = (if gm_ct r = [] then None else Some (gm_ct r)), GmMessageAt = gm_at r\<rparr>)
                  (limited limit (srt (filter (\<lambda>(h, r). gm_group r = groupID) (private_group_messages d)))))))"

section \<open>Blocklist and channels\<close>

definition Block :: "prims \<Rightarrow> bool \<Rightarrow> 64 word \<Rightarrow> bytes \<Rightarrow> bytes \<Rightarrow> gostring \<Rightarrow> DB \<Rightarrow> DB \<times> (db_error + unit)" where
  "Block P io now rnd pubkey reason d =
     (let enc = db_seal P rnd d ''blocklist'' pubkey reason in
      if \<not> io then (d, Inl ErrDbStatement)
      else (d\<lparr>blocklist := upsert pubkey \<lparr>bl_added = now, bl_reason = enc\<rparr> (\<lambda>old. old\<lparr>bl_reason := enc\<rparr>) (blocklist d)\<rparr>, Inr ()))"

definition Unblock :: "bool \<Rightarrow> bytes \<Rightarrow> DB \<Rightarrow> DB \<times> (db_error + unit)" where
  "Unblock io pubkey d =
     (if \<not> io then (d, Inl ErrDbStatement) else (d\<lparr>blocklist := AList.delete pubkey (blocklist d)\<rparr>, Inr ()))"

definition IsBlocked :: "bool \<Rightarrow> bytes \<Rightarrow> DB \<Rightarrow> db_error + bool" where
  "IsBlocked io pubkey d =
     (if \<not> io then Inl ErrDbStatement else Inr (map_of (blocklist d) pubkey \<noteq> None))"

definition JoinChannel :: "prims \<Rightarrow> bool \<Rightarrow> 64 word \<Rightarrow> bytes \<Rightarrow> bytes \<Rightarrow> gostring \<Rightarrow> DB \<Rightarrow> DB \<times> (db_error + unit)" where
  "JoinChannel P io now rnd i name d =
     (let enc = db_seal P rnd d ''channels'' i name in
      if \<not> io then (d, Inl ErrDbStatement)
      else (d\<lparr>channels := upsert i \<lparr>cn_name = enc, cn_joined = now\<rparr> (\<lambda>old. old\<lparr>cn_name := enc\<rparr>) (channels d)\<rparr>, Inr ()))"

definition LeaveChannel :: "bool \<Rightarrow> bytes \<Rightarrow> DB \<Rightarrow> DB \<times> (db_error + unit)" where
  "LeaveChannel io i d =
     (if \<not> io then (d, Inl ErrDbStatement) else (d\<lparr>channels := AList.delete i (channels d)\<rparr>, Inr ()))"

definition chan_of_row :: "prims \<Rightarrow> DB \<Rightarrow> bytes \<times> chan_row \<Rightarrow> db_error + Channel option" where
  "chan_of_row P d cr =
     (case cr of (i, r) \<Rightarrow>
        (case db_open P d ''channels'' i (cn_name r) of
           Inl e \<Rightarrow> Inl e
         | Inr name \<Rightarrow> Inr (Some \<lparr>ChID = to_array 32 i, ChName = name, JoinedAt = cn_joined r\<rparr>)))"

definition ListChannels ::
  "prims \<Rightarrow> bool \<Rightarrow> ((bytes \<times> chan_row) list \<Rightarrow> (bytes \<times> chan_row) list) \<Rightarrow> DB \<Rightarrow> db_error + Channel list" where
  "ListChannels P io srt d =
     (if \<not> io then Inl ErrDbStatement else scan_rows (chan_of_row P d) (srt (channels d)))"

section \<open>Profile cache, sealed inbox and settings\<close>

definition CacheProfile :: "prims \<Rightarrow> bool \<Rightarrow> 64 word \<Rightarrow> bytes \<Rightarrow> bytes \<Rightarrow> bytes \<Rightarrow> gostring \<Rightarrow> DB \<Rightarrow> DB \<times> (db_error + unit)" where
  "CacheProfile P io now rnd pubkey data msgHash d =
     (let enc = db_seal P rnd d ''profile_cache'' pubkey data;
          row = \<lparr>pr_data = enc, pr_at = now, pr_hash = msgHash\<rparr>
      in if \<not> io then (d, Inl ErrDbStatement)
         else (d\<lparr>profile_cache := upsert pubkey row (\<lambda>old. row) (profile_cache d)\<rparr>, Inr ()))"

definition GetProfile :: "prims \<Rightarrow> bool \<Rightarrow> bytes \<Rightarrow> DB \<Rightarrow> db_error + bytes" where
  "GetProfile P io pubkey d =
     (if \<not> io then Inl ErrDbStatement
      else case map_of (profile_cache d) pubkey of
        None \<Rightarrow> Inl ErrDbNotFound
      | Some r \<Rightarrow> db_open P d ''profile_cache'' pubkey (pr_data r))"

definition PutSealed :: "prims \<Rightarrow> bool \<Rightarrow> 64 word \<Rightarrow> bytes \<Rightarrow> SealedMessage \<Rightarrow> DB \<Rightarrow> DB \<times> (db_error + unit)" where
  "PutSealed P io now rnd m d =
     (let received = (if ReceivedAt m = 0 then now else ReceivedAt m);
          enc = db_seal P rnd d ''sealed_inbox'' (MsgHash m) (SData m);
          hashHex = EncodeToString (MsgHash m)
      in if \<not> io then (d, Inl ErrDbStatement)
         else (d\<lparr>sealed_inbox := insert_ignore hashHex
                   \<lparr>sl_data = enc, sl_sender = SSender m, sl_at = received, sl_read = SRead m\<rparr> (sealed_inbox d)\<rparr>, Inr ()))"

definition sealed_of_row :: "prims \<Rightarrow> DB \<Rightarrow> gostring \<times> sealed_row \<Rightarrow> db_error + SealedMessage option" where
  "sealed_of_row P d sr =
     (case sr of (hashHex, r) \<Rightarrow>
        (case DecodeString hashHex of
           None \<Rightarrow> Inr None
         | Some hb \<Rightarrow>
             if length hb \<noteq> 32 then Inr None
             else (case db_open P d ''sealed_inbox'' (to_array 32 hb) (sl_data r) of
                     Inl e \<Rightarrow> Inl e
                   | Inr data \<Rightarrow>
                       Inr (Some \<lparr>MsgHash = to_array 32 hb, SData = data, SSender = to_array 32 (sl_sender r),
                                  ReceivedAt = sl_at r, SRead = sl_read r\<rparr>))))"

definition ListSealed ::
  "prims \<Rightarrow> bool \<Rightarrow> ((gostring \<times> sealed_row) list \<Rightarrow> (gostring \<times> sealed_row) list) \<Rightarrow> DB \<Rightarrow> db_error + SealedMessage list" where
  "ListSealed P io srt d =
     (if \<not> io then Inl ErrDbStatement else scan_rows (sealed_of_row P d) (srt (sealed_inbox d)))"

definition MarkSealedRead :: "bool \<Rightarrow> bytes \<Rightarrow> DB \<Rightarrow> DB \<times> (db_error + unit)" where
  "MarkSealedRead io hash d =
     (if \<not> io then (d, Inl ErrDbStatement)
      else (d\<lparr>sealed_inbox := map (\<lambda>(h, r). if h = EncodeToString hash then (h, r\<lparr>sl_read := True\<rparr>) else (h, r)) (sealed_inbox d)\<rparr>, Inr ()))"

definition UnreadSealedCount :: "bool \<Rightarrow> DB \<Rightarrow> db_error + nat" where
  "UnreadSealedCount io d =
     (if \<not> io then Inl ErrDbStatement else Inr (length (filter (\<lambda>(h, r). \<not> sl_read r) (sealed_inbox d))))"

definition SetSetting :: "prims \<Rightarrow> bool \<Rightarrow> bytes \<Rightarrow> gostring \<Rightarrow> gostring \<Rightarrow> DB \<Rightarrow> DB \<times> (db_error + unit)" where
  "SetSetting P io rnd key value d =
     (let blob = db_seal P rnd d ''settings'' key value in
      if \<not> io then (d, Inl ErrDbStatement)
      else (d\<lparr>settings := upsert key blob (\<lambda>old. blob) (settings d)\<rparr>, Inr ()))"

definition GetSetting :: "prims \<Rightarrow> bool \<Rightarrow> gostring \<Rightarrow> DB \<Rightarrow> db_error + gostring" where
  "GetSetting P io key d =
     (if \<not> io then Inl ErrDbStatement
      else case map_of (settings d) key of
        None \<Rightarrow> Inl ErrDbNotFound
      | Some blob \<Rightarrow> db_open P d ''settings'' key blob)"

section \<open>Cells\<close>

lemma db_open_seal:
  assumes "sizes_ok P" "aead_ok P" "db_key d' = db_key d"
  shows "db_open P d' tbl k (db_seal P rnd d tbl k v) = Inr v"
proof -
  obtain nonce ct where e: "Encrypt P rnd (db_key d) v (cell_aad tbl k) = (nonce, ct)" by (cases "Encrypt P rnd (db_key d) v (cell_aad tbl k)")
  have "length nonce = 24 \<and> length ct = length v + 16" using length_Encrypt [OF assms(1) e] .
  then show ?thesis using Decrypt_Encrypt [OF assms(2) e] assms(3) by (simp add: db_open_def db_seal_def e)
qed

text \<open>
  A ciphertext belongs to its cell: table and row are bound into the associated data, and no two cells
  share it, since no table name contains the separator.
\<close>

lemma byte_of_char_inj: "(of_char c :: byte) = of_char c' \<longleftrightarrow> c = c'"
proof
  assume "(of_char c :: byte) = of_char c'"
  then have "unat (of_nat (of_char c) :: byte) = unat (of_nat (of_char c') :: byte)"
    by (simp only: of_nat_of_char)
  then show "c = c'" by (simp only: unat_of_nat_byte of_char_mod_256 of_char_eq_iff)
qed simp

lemma str_inj: "str s = str t \<longleftrightarrow> s = t"
  by (simp add: str_def inj_map_eq_map inj_on_def byte_of_char_inj)

lemma append_sep_eq:
  "x \<notin> set a \<Longrightarrow> x \<notin> set c \<Longrightarrow> a @ x # b = c @ x # d \<Longrightarrow> a = c \<and> b = d"
  by (induction a arbitrary: c) (case_tac c; auto)+

lemma cell_aad_inj:
  assumes "CHR '':'' \<notin> set t" "CHR '':'' \<notin> set t'" "cell_aad t k = cell_aad t' k'"
  shows "t = t' \<and> k = k'"
proof -
  have "str t @ of_char (CHR '':'') # k = str t' @ of_char (CHR '':'') # k'"
    using assms(3) unfolding cell_aad_def str_def by (simp del: of_char_Char)
  moreover have "of_char (CHR '':'') \<notin> set (str t)" if "CHR '':'' \<notin> set t" for t
    using that unfolding str_def set_map by (metis byte_of_char_inj imageE)
  ultimately have "str t = str t' \<and> k = k'" using append_sep_eq assms(1,2) by metis
  then show ?thesis by (simp add: str_inj)
qed

text \<open>Copied into another cell, a ciphertext opens only where the cipher accepts foreign associated data.\<close>

lemma db_open_transplant:
  assumes "sizes_ok P" "CHR '':'' \<notin> set t" "CHR '':'' \<notin> set t'" "(t, k) \<noteq> (t', k')"
    and "db_open P d t' k' (db_seal P rnd d t k v) = Inr v'"
  shows "cell_aad t k \<noteq> cell_aad t' k' \<and>
    aead_open P (db_key d) (to_array 24 rnd) (aead_seal P (db_key d) (to_array 24 rnd) v (cell_aad t k)) (cell_aad t' k') = Some v'"
proof -
  have "cell_aad t k \<noteq> cell_aad t' k'" using cell_aad_inj [OF assms(2,3)] assms(4) by blast
  moreover have "aead_open P (db_key d) (to_array 24 rnd) (aead_seal P (db_key d) (to_array 24 rnd) v (cell_aad t k)) (cell_aad t' k') = Some v'"
    using assms(1,5) by (auto simp: db_open_def db_seal_def Encrypt_def Decrypt_def Let_def split: if_splits option.splits)
  ultimately show ?thesis ..
qed

section \<open>Values by key\<close>

text \<open>
  A store of single values: what is written under a key is read back under it and nowhere else. \<open>inv\<close>
  carries what the cells rely on of the cipher.
\<close>

locale value_store =
  fixes inv :: "'s \<Rightarrow> bool"
    and put :: "'r \<Rightarrow> 'k \<Rightarrow> 'v \<Rightarrow> 's \<Rightarrow> 's"
    and get :: "'k \<Rightarrow> 's \<Rightarrow> 'v option"
  assumes put_inv: "inv s \<Longrightarrow> inv (put r k v s)"
    and get_put: "inv s \<Longrightarrow> get k' (put r k v s) = (if k' = k then Some v else get k' s)"
begin

lemma last_write:
  "inv s \<Longrightarrow> get k (foldl (\<lambda>s (r, k, v). put r k v s) s ws) =
     (case map_of (rev (map (\<lambda>(r, k, v). (k, v)) ws)) k of Some v \<Rightarrow> Some v | None \<Rightarrow> get k s)"
proof (induction ws arbitrary: s)
  case Nil
  then show ?case by simp
next
  case (Cons w ws)
  obtain r k' v where w: "w = (r, k', v)" by (cases w)
  show ?case
    using Cons.IH [OF put_inv [OF Cons.prems, of r k' v]] Cons.prems
    by (auto simp: w get_put map_add_def split: option.splits)
qed

end

lemma map_of_upsert:
  "map_of (upsert k r f t) k' = (if k' = k then Some (case map_of t k of None \<Rightarrow> r | Some old \<Rightarrow> f old) else map_of t k')"
  by (simp add: upsert_def update_conv)

lemma db_key_frame [simp]:
  "db_key (fst (SetSetting P io rnd k v d)) = db_key d" "db_key (fst (CacheProfile P io now rnd pk v h d)) = db_key d"
  "db_key (fst (SetNickname P io now r1 r2 n d)) = db_key d" "db_key (fst (SaveChatMessage P io rnd m d)) = db_key d"
  "db_key (fst (PruneChatMessages io age tm d)) = db_key d" "db_key (fst (PutSealed P io now rnd sm d)) = db_key d"
  "db_key (fst (MarkSealedRead io hash d)) = db_key d"
  by (simp_all add: SetSetting_def CacheProfile_def SetNickname_def SaveChatMessage_def PruneChatMessages_def PutSealed_def
      MarkSealedRead_def Let_def)

lemma db_open_key: "db_key d' = db_key d \<Longrightarrow> db_open P d' t k b = db_open P d t k b"
  by (simp add: db_open_def)

lemma db_open_fun: "db_key d' = db_key d \<Longrightarrow> db_open P d' = db_open P d"
  by (intro ext) (simp add: db_open_def)

lemma nick_of_row_key: "db_key d' = db_key d \<Longrightarrow> nick_of_row P d' pk r = nick_of_row P d pk r"
  unfolding nick_of_row_def by (simp only: db_open_fun [of d' d P])

lemma nick_of_row_sealed:
  assumes "sizes_ok P" "aead_ok P" "length pk = 32" "nk_name r = db_seal P r1 d ''nicknames'' pk name" "nk_note r = db_seal P r2 d ''nicknames'' pk note"
  shows "nick_of_row P d pk r = Inr \<lparr>NPubkey = pk, NName = name, NNote = note, NAddedAt = nk_added r, NTrustHint = nk_trust r\<rparr>"
  using assms(3-5) db_open_seal [OF assms(1,2), of d d] by (simp add: nick_of_row_def)

lemma GetSetting_SetSetting:
  assumes "sizes_ok P" "aead_ok P"
  shows "GetSetting P True k' (fst (SetSetting P True rnd k v d)) = (if k' = k then Inr v else GetSetting P True k' d)"
proof -
  let ?d = "fst (SetSetting P True rnd k v d)"
  have "settings ?d = upsert k (db_seal P rnd d ''settings'' k v) (\<lambda>old. db_seal P rnd d ''settings'' k v) (settings d)"
    by (simp add: SetSetting_def Let_def)
  then show ?thesis
    using db_open_seal [OF assms, of ?d d] db_open_key [of ?d d]
    by (auto simp: GetSetting_def map_of_upsert split: option.splits)
qed

lemma GetProfile_CacheProfile:
  assumes "sizes_ok P" "aead_ok P"
  shows "GetProfile P True k' (fst (CacheProfile P True now rnd k v h d)) = (if k' = k then Inr v else GetProfile P True k' d)"
proof -
  let ?d = "fst (CacheProfile P True now rnd k v h d)"
  define row where "row = \<lparr>pr_data = db_seal P rnd d ''profile_cache'' k v, pr_at = now, pr_hash = h\<rparr>"
  have "profile_cache ?d = upsert k row (\<lambda>old. row) (profile_cache d)"
    by (simp add: CacheProfile_def Let_def row_def)
  then show ?thesis
    using db_open_seal [OF assms, of ?d d] db_open_key [of ?d d]
    by (auto simp: GetProfile_def map_of_upsert row_def split: option.splits)
qed

interpretation settings_store: value_store "\<lambda>_. sizes_ok P \<and> aead_ok P"
    "\<lambda>rnd k v d. fst (SetSetting P True rnd k v d)" "\<lambda>k d. some_of (GetSetting P True k d)" for P
  by unfold_locales (auto simp: GetSetting_SetSetting)

interpretation profile_store: value_store "\<lambda>_. sizes_ok P \<and> aead_ok P"
    "\<lambda>(now, rnd, h) k v d. fst (CacheProfile P True now rnd k v h d)" "\<lambda>k d. some_of (GetProfile P True k d)" for P
  by unfold_locales (auto simp: GetProfile_CacheProfile)

text \<open>
  Settings and cached profiles are what was written last: after any sequence of writes, reading a
  key returns the value of the last write to that key, decrypted, and the earlier state's value where
  there was none, whatever randomness the encryptions drew.
\<close>

theorem last_write_wins:
  assumes "sizes_ok P" "aead_ok P"
  shows "some_of (GetSetting P True k (foldl (\<lambda>d (rnd, k, v). fst (SetSetting P True rnd k v d)) d ws)) =
      (case map_of (rev (map (\<lambda>(rnd, k, v). (k, v)) ws)) k of Some v \<Rightarrow> Some v | None \<Rightarrow> some_of (GetSetting P True k d)) \<and>
    some_of (GetProfile P True pk (foldl (\<lambda>d ((now, rnd, h), k, v). fst (CacheProfile P True now rnd k v h d)) d ps)) =
      (case map_of (rev (map (\<lambda>(r, k, v). (k, v)) ps)) pk of Some v \<Rightarrow> Some v | None \<Rightarrow> some_of (GetProfile P True pk d))"
  using settings_store.last_write [where P = P and s = d and k = k and ws = ws]
    profile_store.last_write [where P = P and s = d and k = pk and ws = ps] assms
  by (simp add: case_prod_unfold)

definition demo_db :: DB where
  "demo_db = \<lparr>db_key = replicate 32 1, nicknames = [], chat_messages = [], private_groups = [], private_group_messages = [],
     sealed_inbox = [], blocklist = [], channels = [], profile_cache = [], settings = []\<rparr>"

theorem last_write_wins_witness:
  "some_of (GetSetting demo_prims True [1] (foldl (\<lambda>d (rnd, k, v). fst (SetSetting demo_prims True rnd k v d)) demo_db
     [([], [1], [5]), ([], [2], [6]), ([], [1], [7])])) = Some [7]"
  using last_write_wins [OF demo_sizes_ok demo_aead_ok, of "[1]" demo_db "[([], [1], [5]), ([], [2], [6]), ([], [1], [7])]" "[]" "[]"]
  by (simp del: foldl.simps)

section \<open>Nicknames\<close>

text \<open>
  A petname is a local upsert: after setting the name of a key, reading that key returns the new
  name, note and trust hint, with the time of the first entry kept when there was one, and every other
  key reads as before; deleting a key removes exactly that entry.
\<close>

theorem nickname_upsert:
  assumes "sizes_ok P" "aead_ok P" "length (NPubkey n) = 32"
  shows "GetNickname P True pk (fst (SetNickname P True now r1 r2 n d)) =
      (if pk = NPubkey n
       then Inr (n\<lparr>NAddedAt := (case map_of (nicknames d) pk of Some old \<Rightarrow> nk_added old
                                | None \<Rightarrow> if NAddedAt n = 0 then now else NAddedAt n)\<rparr>)
       else GetNickname P True pk d) \<and>
    GetNickname P True pk (fst (DeleteNickname True (NPubkey n) d)) =
      (if pk = NPubkey n then Inl ErrDbNotFound else GetNickname P True pk d)"
proof -
  let ?d = "fst (SetNickname P True now r1 r2 n d)"
  have rows: "nicknames ?d = upsert (NPubkey n)
      \<lparr>nk_name = db_seal P r1 d ''nicknames'' (NPubkey n) (NName n), nk_note = db_seal P r2 d ''nicknames'' (NPubkey n) (NNote n),
       nk_added = if NAddedAt n = 0 then now else NAddedAt n, nk_trust = NTrustHint n\<rparr>
      (\<lambda>old. old\<lparr>nk_name := db_seal P r1 d ''nicknames'' (NPubkey n) (NName n), nk_note := db_seal P r2 d ''nicknames'' (NPubkey n) (NNote n),
                 nk_trust := NTrustHint n\<rparr>) (nicknames d)"
    by (simp add: SetNickname_def Let_def)
  have set: "nick_of_row P ?d k r = nick_of_row P d k r" for k r by (rule nick_of_row_key) simp
  have del: "nick_of_row P (fst (DeleteNickname True (NPubkey n) d)) k r = nick_of_row P d k r" for k r
    by (rule nick_of_row_key) (simp add: DeleteNickname_def)
  have del_rows: "nicknames (fst (DeleteNickname True (NPubkey n) d)) = AList.delete (NPubkey n) (nicknames d)"
    by (simp add: DeleteNickname_def)
  note row = nick_of_row_sealed [OF assms, of _ r1 d "NName n" r2 "NNote n"]
  have "GetNickname P True (NPubkey n) ?d = Inr (n\<lparr>NAddedAt := (case map_of (nicknames d) (NPubkey n) of Some old \<Rightarrow> nk_added old
          | None \<Rightarrow> if NAddedAt n = 0 then now else NAddedAt n)\<rparr>)"
    by (cases "map_of (nicknames d) (NPubkey n)") (simp_all add: GetNickname_def rows map_of_upsert set row)
  moreover have "GetNickname P True pk ?d = GetNickname P True pk d" if "pk \<noteq> NPubkey n"
    using that by (simp add: GetNickname_def rows map_of_upsert set split: option.split)
  moreover have "GetNickname P True pk (fst (DeleteNickname True (NPubkey n) d)) =
      (if pk = NPubkey n then Inl ErrDbNotFound else GetNickname P True pk d)"
    by (simp add: GetNickname_def del_rows delete_conv del split: option.split)
  ultimately show ?thesis by simp
qed

theorem nickname_upsert_witness:
  "GetNickname demo_prims True (replicate 32 4) (fst (SetNickname demo_prims True 9 [] []
     \<lparr>NPubkey = replicate 32 4, NName = [1], NNote = [], NAddedAt = 0, NTrustHint = 1\<rparr> demo_db)) =
   Inr \<lparr>NPubkey = replicate 32 4, NName = [1], NNote = [], NAddedAt = 9, NTrustHint = 1\<rparr>"
  using nickname_upsert [OF demo_sizes_ok demo_aead_ok, of "\<lparr>NPubkey = replicate 32 4, NName = [1], NNote = [], NAddedAt = 0, NTrustHint = 1\<rparr>"
      "replicate 32 4" 9 "[]" "[]" demo_db]
  by (simp add: demo_db_def)

section \<open>Chat history\<close>

definition row_order :: "((bytes \<times> chat_row) list \<Rightarrow> (bytes \<times> chat_row) list) \<Rightarrow> bool" where
  "row_order srt \<longleftrightarrow> (\<forall>rows. mset (srt rows) = mset rows \<and> sorted_wrt (\<lambda>a b. sint (ch_at (snd a)) \<ge> sint (ch_at (snd b))) (srt rows))"

definition chat_ok :: "prims \<Rightarrow> DB \<Rightarrow> bool" where
  "chat_ok P d \<longleftrightarrow> distinct (map fst (chat_messages d)) \<and>
     (\<forall>(h, r) \<in> set (chat_messages d). \<exists>v. db_open P d ''chat_messages'' h (ch_content r) = Inr v)"

text \<open>The message a row stands for.\<close>

definition chat_msg :: "prims \<Rightarrow> DB \<Rightarrow> bytes \<times> chat_row \<Rightarrow> ChatMessage" where
  "chat_msg P d hr = \<lparr>CmHash = to_array 32 (fst hr), CmChannelID = to_array 32 (ch_channel (snd hr)), CmSender = to_array 32 (ch_sender (snd hr)),
     CmContent = (case db_open P d ''chat_messages'' (fst hr) (ch_content (snd hr)) of Inr v \<Rightarrow> v | Inl _ \<Rightarrow> []),
     CmAt = ch_at (snd hr), CmLocal = ch_local (snd hr)\<rparr>"

definition chat_view :: "prims \<Rightarrow> DB \<Rightarrow> ChatMessage list" where
  "chat_view P d = map (chat_msg P d) (chat_messages d)"

lemma scan_rows_total:
  "\<forall>r \<in> set rs. f r = Inr (Some (g r)) \<Longrightarrow> scan_rows f rs = Inr (map g rs)"
  by (induction rs) auto

lemma chat_of_row_ok: "chat_ok P d \<Longrightarrow> hr \<in> set (chat_messages d) \<Longrightarrow> chat_of_row P d hr = Inr (Some (chat_msg P d hr))"
  by (cases hr) (force simp: chat_ok_def chat_of_row_def chat_msg_def)

lemma set_limited: "set (limited l rows) \<subseteq> set rows"
  by (auto simp: limited_def dest: in_set_takeD)

lemma ListChatMessages_eq:
  assumes "chat_ok P d" "row_order srt"
  shows "ListChatMessages P True srt ch limit d =
    Inr (rev (map (chat_msg P d) (limited limit (srt (filter (\<lambda>(h, r). ch_channel r = ch) (chat_messages d))))))"
proof -
  let ?rows = "limited limit (srt (filter (\<lambda>(h, r). ch_channel r = ch) (chat_messages d)))"
  have "set (srt rows) = set rows" for rows using assms(2) mset_eq_setD unfolding row_order_def by blast
  then have "set ?rows \<subseteq> set (chat_messages d)"
    using set_limited [of limit "srt (filter (\<lambda>(h, r). ch_channel r = ch) (chat_messages d))"] by auto
  then have "scan_rows (chat_of_row P d) ?rows = Inr (map (chat_msg P d) ?rows)"
    using chat_of_row_ok [OF assms(1)] by (intro scan_rows_total) blast
  then show ?thesis by (simp add: ListChatMessages_def)
qed

text \<open>
  The history a client shows is the newest part of what it stored, in order: listing a channel
  returns messages of that channel only, oldest first, all of them when no positive limit is given and
  otherwise as many as the limit allows, and no message left out is newer than one that is shown.
\<close>

theorem chat_history:
  assumes "chat_ok P d" "row_order srt"
  shows "\<exists>ms rest. ListChatMessages P True srt ch limit d = Inr ms \<and>
    mset (rest @ ms) = mset (map (chat_msg P d) (filter (\<lambda>(h, r). ch_channel r = ch) (chat_messages d))) \<and>
    sorted_wrt (\<lambda>a b. sint (CmAt a) \<le> sint (CmAt b)) (rest @ ms) \<and>
    (if limit > 0 then length ms = min (nat limit) (length (rest @ ms)) else rest = [])"
proof -
  let ?all = "srt (filter (\<lambda>(h, r). ch_channel r = ch) (chat_messages d))"
  define shown where "shown = limited limit ?all"
  define left where "left = (if limit > 0 then drop (nat limit) ?all else [])"
  have split: "?all = shown @ left" by (simp add: shown_def left_def limited_def)
  have "mset ?all = mset (filter (\<lambda>(h, r). ch_channel r = ch) (chat_messages d))"
    "sorted_wrt (\<lambda>a b. sint (ch_at (snd a)) \<ge> sint (ch_at (snd b))) ?all"
    using assms(2) by (auto simp: row_order_def)
  then have m: "mset (map (chat_msg P d) ?all) = mset (map (chat_msg P d) (filter (\<lambda>(h, r). ch_channel r = ch) (chat_messages d)))"
    and o: "sorted_wrt (\<lambda>a b. sint (CmAt a) \<le> sint (CmAt b)) (rev (map (chat_msg P d) ?all))"
    by (simp_all add: sorted_wrt_rev sorted_wrt_map chat_msg_def)
  have r: "rev (map (chat_msg P d) ?all) = rev (map (chat_msg P d) left) @ rev (map (chat_msg P d) shown)"
    unfolding split by simp
  show ?thesis
  proof (intro exI conjI)
    show "ListChatMessages P True srt ch limit d = Inr (rev (map (chat_msg P d) shown))"
      using ListChatMessages_eq [OF assms] by (simp add: shown_def)
    show "mset (rev (map (chat_msg P d) left) @ rev (map (chat_msg P d) shown)) =
        mset (map (chat_msg P d) (filter (\<lambda>(h, r). ch_channel r = ch) (chat_messages d)))"
      using m unfolding r [symmetric] by simp
    show "sorted_wrt (\<lambda>a b. sint (CmAt a) \<le> sint (CmAt b)) (rev (map (chat_msg P d) left) @ rev (map (chat_msg P d) shown))"
      using o unfolding r .
    show "if limit > 0 then length (rev (map (chat_msg P d) shown)) =
          min (nat limit) (length (rev (map (chat_msg P d) left) @ rev (map (chat_msg P d) shown)))
        else rev (map (chat_msg P d) left) = []"
      by (auto simp: shown_def left_def limited_def min_def)
  qed
qed

text \<open>Storing and pruning keep the rows readable and act on the stored messages as on a list.\<close>

lemma chat_ok_save:
  assumes "sizes_ok P" "aead_ok P" "chat_ok P d"
  shows "chat_ok P (fst (SaveChatMessage P io rnd m d))"
proof -
  let ?d = "fst (SaveChatMessage P io rnd m d)"
  have o: "db_open P ?d t k b = db_open P d t k b" for t k b by (rule db_open_key) simp
  have "db_open P d ''chat_messages'' (CmHash m) (db_seal P rnd d ''chat_messages'' (CmHash m) (CmContent m)) = Inr (CmContent m)"
    using db_open_seal [OF assms(1,2)] by simp
  then show ?thesis
    using assms(3) unfolding chat_ok_def o
    by (auto simp: SaveChatMessage_def insert_ignore_def Let_def map_of_eq_None_iff)
qed

lemma chat_ok_prune: "chat_ok P d \<Longrightarrow> chat_ok P (fst (PruneChatMessages io age now d))"
proof -
  assume a: "chat_ok P d"
  have o: "db_open P (fst (PruneChatMessages io age now d)) t k b = db_open P d t k b" for t k b by (rule db_open_key) simp
  show ?thesis
    using a unfolding chat_ok_def o by (auto simp: PruneChatMessages_def Let_def distinct_map_filter)
qed

lemma chat_view_save:
  assumes "sizes_ok P" "aead_ok P" "length (CmHash m) = 32" "length (CmChannelID m) = 32" "length (CmSender m) = 32"
  shows "chat_view P (fst (SaveChatMessage P True rnd m d)) =
    (if CmHash m \<in> fst ` set (chat_messages d) then chat_view P d else chat_view P d @ [m])"
proof -
  let ?d = "fst (SaveChatMessage P True rnd m d)"
  have o: "chat_msg P ?d hr = chat_msg P d hr" for hr by (simp add: chat_msg_def db_open_key [of ?d d])
  have new: "chat_msg P d (CmHash m, \<lparr>ch_channel = CmChannelID m, ch_sender = CmSender m,
      ch_content = db_seal P rnd d ''chat_messages'' (CmHash m) (CmContent m), ch_at = CmAt m, ch_local = CmLocal m\<rparr>) = m"
    using assms db_open_seal [OF assms(1,2), of d d] by (simp add: chat_msg_def)
  show ?thesis
    unfolding chat_view_def o
    using new by (auto simp: SaveChatMessage_def insert_ignore_def Let_def map_of_eq_None_iff)
qed

lemma chat_view_prune:
  "chat_view P (fst (PruneChatMessages True age now d)) =
     filter (\<lambda>m. sint (of_int (now - age) :: 64 word) \<le> sint (CmAt m)) (chat_view P d)"
proof -
  let ?d = "fst (PruneChatMessages True age now d)"
  have "db_open P ?d = db_open P d" by (rule db_open_fun) simp
  then have m: "chat_msg P ?d = chat_msg P d" by (intro ext) (simp add: chat_msg_def)
  have rows: "chat_messages ?d = filter (\<lambda>hr. sint (of_int (now - age) :: 64 word) \<le> sint (ch_at (snd hr))) (chat_messages d)"
    by (simp add: PruneChatMessages_def Let_def not_less case_prod_unfold)
  show ?thesis unfolding chat_view_def m rows filter_map comp_def by (simp add: chat_msg_def)
qed

definition demo_order :: "(bytes \<times> chat_row) list \<Rightarrow> (bytes \<times> chat_row) list" where
  "demo_order rows = rev (sort_key (\<lambda>hr. sint (ch_at (snd hr))) rows)"

lemma demo_row_order: "row_order demo_order"
proof -
  have "sorted_wrt (\<lambda>a b. sint (ch_at (snd a)) \<le> sint (ch_at (snd b))) (sort_key (\<lambda>hr. sint (ch_at (snd hr))) rows)"
    for rows :: "(bytes \<times> chat_row) list"
    using sorted_sort_key [of "\<lambda>hr. sint (ch_at (snd hr))" rows] unfolding sorted_map .
  then show ?thesis unfolding row_order_def demo_order_def sorted_wrt_rev mset_rev mset_sort by blast
qed

theorem chat_history_witness:
  "\<exists>d ms. ListChatMessages demo_prims True demo_order [2] 1 d = Inr ms \<and> length ms = 1"
proof -
  define m where "m = \<lparr>CmHash = [1], CmChannelID = [2], CmSender = [3], CmContent = [9], CmAt = 5, CmLocal = False\<rparr>"
  define d where "d = fst (SaveChatMessage demo_prims True [] m demo_db)"
  have "chat_ok demo_prims demo_db" by (simp add: chat_ok_def demo_db_def)
  then have ok: "chat_ok demo_prims d" unfolding d_def by (rule chat_ok_save [OF demo_sizes_ok demo_aead_ok])
  have "chat_messages demo_db = []" by (simp add: demo_db_def)
  then have rows: "chat_messages d = [(CmHash m, \<lparr>ch_channel = CmChannelID m, ch_sender = CmSender m,
      ch_content = db_seal demo_prims [] demo_db ''chat_messages'' (CmHash m) (CmContent m), ch_at = CmAt m, ch_local = CmLocal m\<rparr>)]"
    by (simp add: d_def SaveChatMessage_def insert_ignore_def Let_def)
  have "CmChannelID m = [2]" by (simp add: m_def)
  then have n: "length (filter (\<lambda>(h, r). ch_channel r = [2]) (chat_messages d)) = 1" by (simp add: rows)
  obtain ms rest where r: "ListChatMessages demo_prims True demo_order [2] 1 d = Inr ms"
    "mset (rest @ ms) = mset (map (chat_msg demo_prims d) (filter (\<lambda>(h, r). ch_channel r = [2]) (chat_messages d)))"
    "(if (0 :: int) < 1 then length ms = min (nat 1) (length (rest @ ms)) else rest = [])"
    using chat_history [OF ok demo_row_order, of "[2]" 1] by (elim exE conjE) (rule that)
  have "length (rest @ ms) = 1" using mset_eq_length [OF r(2)] n by (simp only: length_map)
  moreover have "length ms = min (nat 1) (length (rest @ ms))" using r(3) by (simp only: zero_less_one if_True)
  ultimately have "length ms = 1" by (simp only: nat_one_as_int nat_int min.idem of_nat_1)
  with r(1) show ?thesis by (intro exI conjI)
qed

section \<open>Sealed inbox and blocklist\<close>

text \<open>
  Reading a sealed message removes it from the unread count exactly once, and storing one again changes
  nothing.
\<close>

lemma unread_after_read:
  assumes "distinct (map fst (sealed_inbox d))"
  shows "UnreadSealedCount True (fst (MarkSealedRead True h d)) =
    Inr (length (filter (\<lambda>(k, r). \<not> sl_read r \<and> k \<noteq> EncodeToString h) (sealed_inbox d)))"
proof -
  have "length (filter (\<lambda>(k, r). \<not> sl_read r) (map (\<lambda>(k, r). if k = x then (k, r\<lparr>sl_read := True\<rparr>) else (k, r)) rows)) =
      length (filter (\<lambda>(k, r). \<not> sl_read r \<and> k \<noteq> x) rows)" for x and rows :: "(gostring \<times> sealed_row) list"
    by (induction rows) (auto split: if_splits)
  then show ?thesis by (simp add: UnreadSealedCount_def MarkSealedRead_def)
qed

lemma PutSealed_again: "MsgHash m' = MsgHash m \<Longrightarrow>
    fst (PutSealed P True t2 r2 m' (fst (PutSealed P True t1 r1 m d))) = fst (PutSealed P True t1 r1 m d)"
  by (simp add: PutSealed_def insert_ignore_def Let_def)

lemma IsBlocked_Block: "IsBlocked True k (fst (Block P True now rnd pk reason d)) = (if k = pk then Inr True else IsBlocked True k d)"
  by (simp add: IsBlocked_def Block_def Let_def map_of_upsert)

lemma IsBlocked_Unblock: "IsBlocked True k (fst (Unblock True pk d)) = (if k = pk then Inr False else IsBlocked True k d)"
  by (simp add: IsBlocked_def Unblock_def delete_conv)

end
