(* ===== verification/App_Vault.thy ===== *)
theory App_Vault
  imports Gandr_Identity Go_Strings
begin

text \<open>
  \<^verbatim>\<open>internal/gandr/boundary.go\<close>: the analyzer's boundary to the private subsystem, which holds the decrypted
  identity between an explicit unlock and the next lock. The files are those of the object store. The
  arguments of the operations are what the calls draw or meet: randomness, the clock, the fault of a
  file operation.
\<close>

datatype vault_state = Locked | Unlocked | UnlockErr | Missing

record Subsystem =
  vpath :: gostring
  videntity :: "Identity option"
  vstate :: vault_state
  verror :: "identity_error option"

datatype vault_error =
    ErrVault identity_error
  | ErrVaultPassphraseEmpty
  | ErrVaultExists
  | ErrVaultUnlocked
  | ErrVaultRemove

definition NewAt :: "gostring \<Rightarrow> Subsystem" where
  "NewAt file = \<lparr>vpath = file, videntity = None, vstate = Locked, verror = None\<rparr>"

definition Unlock :: "prims \<Rightarrow> keyfile_pack \<Rightarrow> bool \<Rightarrow> gostring \<Rightarrow> fs \<Rightarrow> Subsystem \<Rightarrow> Subsystem \<times> (vault_error + unit)" where
  "Unlock P N readErr passphrase disk v =
     (case Load P N readErr (vpath v) passphrase disk of
        Inl e \<Rightarrow>
          if e = ErrNoKeyfile then (v\<lparr>videntity := None, vstate := Missing, verror := None\<rparr>, Inl (ErrVault e))
          else (v\<lparr>videntity := None, vstate := UnlockErr, verror := Some e\<rparr>, Inl (ErrVault e))
      | Inr idt \<Rightarrow> (v\<lparr>videntity := Some idt, vstate := Unlocked, verror := None\<rparr>, Inr ()))"

text \<open>\<open>statErr\<close>: the file's status cannot be read.\<close>

definition HasVault :: "bool \<Rightarrow> fs \<Rightarrow> Subsystem \<Rightarrow> bool" where
  "HasVault statErr disk v \<longleftrightarrow> Stat disk (vpath v) \<and> \<not> statErr"

definition Create ::
  "prims \<Rightarrow> keyfile_pack \<Rightarrow> bytes \<Rightarrow> 64 word \<Rightarrow> save_rnd \<Rightarrow> put_fault \<Rightarrow> bool \<Rightarrow> gostring \<Rightarrow> fs \<Rightarrow> Subsystem \<Rightarrow>
     fs \<times> Subsystem \<times> (vault_error + unit)" where
  "Create P N rnd now r flt statErr passphrase disk v =
     (if passphrase = [] then (disk, v, Inl ErrVaultPassphraseEmpty)
      else if HasVault statErr disk v then (disk, v, Inl ErrVaultExists)
      else
        let idt = Generate P rnd now [] in
        (case Save P N r flt (vpath v) passphrase idt disk of
           (disk1, Inl e) \<Rightarrow> (disk1, v, Inl (ErrVault e))
         | (disk1, Inr _) \<Rightarrow> (disk1, v\<lparr>videntity := Some idt, vstate := Unlocked, verror := None\<rparr>, Inr ())))"

definition Lock :: "Subsystem \<Rightarrow> Subsystem" where
  "Lock v = v\<lparr>videntity := None, vstate := Locked, verror := None\<rparr>"

text \<open>\<^verbatim>\<open>os.Remove\<close> with an absent file ignored; \<open>rm1\<close> and \<open>rm2\<close>: the removal fails otherwise.\<close>

definition clientDB :: "Subsystem \<Rightarrow> gostring" where
  "clientDB v = JoinPath [Dir (vpath v), str ''client.db'']"

definition DeleteVault :: "bool \<Rightarrow> bool \<Rightarrow> fs \<Rightarrow> Subsystem \<Rightarrow> fs \<times> Subsystem \<times> (vault_error + unit)" where
  "DeleteVault rm1 rm2 disk v =
     (if videntity v \<noteq> None then (disk, v, Inl ErrVaultUnlocked)
      else if rm1 \<and> Stat disk (vpath v) then (disk, v, Inl ErrVaultRemove)
      else
        let disk1 = AList.delete (vpath v) disk in
        if rm2 \<and> Stat disk1 (clientDB v) then (disk1, v, Inl ErrVaultRemove)
        else (AList.delete (clientDB v) disk1, v\<lparr>vstate := Missing, verror := None\<rparr>, Inr ()))"

record VSummary =
  sum_state :: vault_state
  sum_fingerprint :: gostring
  sum_error :: "identity_error option"

definition Summary :: "Subsystem \<Rightarrow> VSummary" where
  "Summary v =
     \<lparr>sum_state = vstate v,
      sum_fingerprint = (case videntity v of None \<Rightarrow> [] | Some idt \<Rightarrow> take 8 (EncodeToString (PublicKey idt))),
      sum_error = verror v\<rparr>"

section \<open>Runs of the boundary\<close>

datatype vault_event =
    VUnlock bool gostring
  | VCreate bytes "64 word" save_rnd put_fault bool gostring
  | VLock
  | VDelete bool bool

fun vault_step :: "prims \<Rightarrow> keyfile_pack \<Rightarrow> fs \<times> Subsystem \<Rightarrow> vault_event \<Rightarrow> fs \<times> Subsystem" where
  "vault_step P N (disk, v) (VUnlock rd pass) = (disk, fst (Unlock P N rd pass disk v))"
| "vault_step P N (disk, v) (VCreate rnd now r flt se pass) =
     (case Create P N rnd now r flt se pass disk v of (disk1, v1, _) \<Rightarrow> (disk1, v1))"
| "vault_step P N (disk, v) VLock = (disk, Lock v)"
| "vault_step P N (disk, v) (VDelete a b) = (case DeleteVault a b disk v of (disk1, v1, _) \<Rightarrow> (disk1, v1))"

text \<open>An identity is held exactly in the unlocked state, and it is a proper key pair.\<close>

definition vault_inv :: "prims \<Rightarrow> fs \<times> Subsystem \<Rightarrow> bool" where
  "vault_inv P dv \<longleftrightarrow>
     sizes_ok P \<and> (videntity (snd dv) \<noteq> None \<longleftrightarrow> vstate (snd dv) = Unlocked) \<and>
     (\<forall>idt. videntity (snd dv) = Some idt \<longrightarrow> wf_identity P idt)"

lemma Load_wf: "sizes_ok P \<Longrightarrow> Load P N rd file pass disk = Inr idt \<Longrightarrow> wf_identity P idt"
  by (auto simp: Load_def Let_def wf_identity_def wf_priv_NewKeyFromSeed split: option.splits if_splits sum.splits)

lemma vault_step_inv: "vault_inv P dv \<Longrightarrow> vault_inv P (vault_step P N dv e)"
proof (induction P N dv e rule: vault_step.induct)
  case (1 P N disk v rd pass)
  then show ?case
    using Load_wf [of P N rd "vpath v" pass disk] by (auto simp: vault_inv_def Unlock_def split: sum.splits)
next
  case (2 P N disk v rnd now r flt se pass)
  then show ?case
    by (auto simp: vault_inv_def Create_def Let_def Generate_wf split: sum.splits prod.splits)
next
  case (3 P N disk v)
  then show ?case by (simp add: vault_inv_def Lock_def)
next
  case (4 P N disk v a b)
  then show ?case by (auto simp: vault_inv_def DeleteVault_def Let_def)
qed

interpretation vaultrun: run_invariant "vault_step P N" "vault_inv P" for P N
  by unfold_locales (rule vault_step_inv)

text \<open>
  After any sequence of unlocks, creations, locks and deletions the boundary holds an identity exactly
  when it reports the unlocked state, and the identity is a proper key pair; locking clears it.
\<close>

theorem vault_holds_iff_unlocked:
  assumes "sizes_ok P" "(disk', v) = foldl (vault_step P N) (disk, NewAt file) evs"
  shows "(videntity v \<noteq> None \<longleftrightarrow> vstate v = Unlocked) \<and> (\<forall>idt. videntity v = Some idt \<longrightarrow> wf_identity P idt) \<and>
    videntity (Lock v) = None"
proof -
  have "vault_inv P (disk, NewAt file)" using assms(1) by (simp add: vault_inv_def NewAt_def)
  from vaultrun.run_inv [OF this, of N evs] show ?thesis
    unfolding assms(2) [symmetric] by (simp add: vault_inv_def Lock_def)
qed

theorem vault_holds_iff_unlocked_witness:
  "videntity (snd (foldl (vault_step demo_prims demo_keyfile_pack) ([], NewAt (str ''k'')) [VLock])) = None"
proof -
  obtain d v where f: "(d, v) = foldl (vault_step demo_prims demo_keyfile_pack) ([], NewAt (str ''k'')) [VLock]"
    by (metis surj_pair)
  have "vstate v = Locked" using f by (simp add: Lock_def)
  then show ?thesis using vault_holds_iff_unlocked [OF demo_sizes_ok f] f by (metis snd_conv vault_state.distinct(1))
qed

text \<open>
  A vault is created once. When a keyfile can be seen, creating fails and changes nothing; when creating
  succeeds, unlocking the new file with the same passphrase, now or later, yields the identity created.
\<close>

theorem Create_once:
  assumes "sizes_ok P" "aead_ok P" "keyfile_pack_ok N" "sr_tmp r \<noteq> vpath v"
    and "Create P N rnd now r flt False pass disk v = (disk', v', res)"
  shows "(Stat disk (vpath v) \<longrightarrow> res \<noteq> Inr () \<and> disk' = disk \<and> v' = v) \<and>
    (res = Inr () \<longrightarrow> (\<exists>idt. videntity v' = Some idt \<and> Load P N False (vpath v) pass disk' = Inr idt \<and>
       videntity (fst (Unlock P N False pass disk' (Lock v'))) = Some idt))"
proof -
  have "res \<noteq> Inr () \<and> disk' = disk \<and> v' = v" if "Stat disk (vpath v)"
    using assms(5) that by (auto simp: Create_def HasVault_def split: if_splits)
  moreover have "\<exists>idt. videntity v' = Some idt \<and> Load P N False (vpath v) pass disk' = Inr idt \<and>
       videntity (fst (Unlock P N False pass disk' (Lock v'))) = Some idt" if ok: "res = Inr ()"
  proof -
    let ?i = "Generate P rnd now []"
    have s: "Save P N r flt (vpath v) pass ?i disk = (disk', Inr ())" "v' = v\<lparr>videntity := Some ?i, vstate := Unlocked, verror := None\<rparr>"
      using assms(5) ok by (auto simp: Create_def Let_def split: if_splits sum.splits prod.splits)
    have "Load P N False (vpath v) pass disk' = Inr ?i"
      using assms(1-3) Generate_wf [OF assms(1)] assms(4) s(1) by (rule Load_Save_ok)
    then show ?thesis by (simp add: s(2) Unlock_def Lock_def)
  qed
  ultimately show ?thesis by blast
qed

theorem Create_once_witness:
  "\<exists>disk' v' idt. Create demo_prims demo_keyfile_pack [5] 3 demo_save_rnd PutOk False [9] [] (NewAt (str ''k'')) = (disk', v', Inr ()) \<and>
     videntity v' = Some idt \<and> Load demo_prims demo_keyfile_pack False (str ''k'') [9] disk' = Inr idt"
proof -
  let ?v = "NewAt (str ''k'')" and ?i = "Generate demo_prims [5] 3 []"
  have wf: "wf_identity demo_prims ?i" using demo_sizes_ok by (rule Generate_wf)
  then have "length (Seed (PrivateKey ?i)) = 32" using wf_priv_length length_Seed unfolding wf_identity_def by blast
  then obtain disk' where "Save demo_prims demo_keyfile_pack demo_save_rnd PutOk (str ''k'') [9] ?i [] = (disk', Inr ())"
    by (simp add: Save_def Save_run_def demo_keyfile_pack_def Let_def)
  then obtain v' where c: "Create demo_prims demo_keyfile_pack [5] 3 demo_save_rnd PutOk False [9] [] ?v = (disk', v', Inr ())"
    by (simp add: Create_def HasVault_def Stat_def NewAt_def)
  have "sr_tmp demo_save_rnd \<noteq> vpath ?v" by (simp add: demo_save_rnd_def str_def NewAt_def)
  from Create_once [OF demo_sizes_ok demo_aead_ok demo_keyfile_pack_ok this c] c show ?thesis by (auto simp: NewAt_def)
qed

text \<open>Deleting a vault needs it locked, removes its two files and touches no other.\<close>

lemma DeleteVault_effect:
  assumes "DeleteVault rm1 rm2 disk v = (disk', v', res)"
  shows "videntity v \<noteq> None \<Longrightarrow> disk' = disk \<and> v' = v \<and> res = Inl ErrVaultUnlocked"
    "f \<noteq> vpath v \<Longrightarrow> f \<noteq> clientDB v \<Longrightarrow> map_of disk' f = map_of disk f"
    "res = Inr () \<Longrightarrow> map_of disk' (vpath v) = None \<and> map_of disk' (clientDB v) = None"
  using assms by (auto simp: DeleteVault_def Let_def delete_conv split: if_splits)

end
