(* ===== verification/App_Session.thy ===== *)
theory App_Session
  imports Gandr_Clientdb Gandr_Ipc App_Vault
begin

text \<open>
  \<^verbatim>\<open>internal/gandr/session.go\<close>: the analyzer's handle to the private chat, over the encrypted client database
  and a client of the daemon. The client is the interface \<^verbatim>\<open>daemonClient\<close> of the source: a record of
  functions on the state behind it, which the embedded daemon and the local socket both implement. An
  offline session has no client. What a call draws or meets (clock, randomness, whether the database
  statements succeed, the order of equal rows) is the record \<open>app_env\<close>.
\<close>

record 'w daemonClient =
  dc_subscribe :: "bytes \<Rightarrow> 'w \<Rightarrow> 'w \<times> bool"
  dc_unsubscribe :: "bytes \<Rightarrow> 'w \<Rightarrow> 'w \<times> bool"
  dc_send :: "Envelope \<Rightarrow> 'w \<Rightarrow> 'w \<times> bool"
  dc_connect :: "bytes \<Rightarrow> 'w \<Rightarrow> 'w \<times> bool"
  dc_peers :: "'w \<Rightarrow> PeerInfo list option"

record ChatSession =
  sdb :: DB
  sid :: Identity
  sgroups :: "(bytes \<times> bytes) list"

record app_env =
  ae_now :: "64 word"
  ae_rnd :: bytes
  ae_seal :: bytes
  ae_seal2 :: bytes
  ae_save :: bool
  ae_list :: bool
  ae_group_order :: "(bytes \<times> group_row) list \<Rightarrow> (bytes \<times> group_row) list"
  ae_chan_order :: "(bytes \<times> chan_row) list \<Rightarrow> (bytes \<times> chan_row) list"

datatype app_error =
    ErrAppLocked
  | ErrAppDb db_error
  | ErrAppDial
  | ErrAppSubscribe
  | ErrAppPayload payload_error
  | ErrAppEnvelope proto_error
  | ErrAppSend
  | ErrAppGroupName
  | ErrAppCrypto crypto_error
  | ErrAppGroupLocked
  | ErrAppNotChat
  | ErrAppKeyLength
  | ErrAppKeyHex
  | ErrAppNotConnected
  | ErrAppConnect
  | ErrAppPeers

section \<open>Sessions and channels\<close>

text \<open>\<open>opened\<close> is the outcome of opening the database, \<open>dial\<close> that of dialling the socket, if one is named.\<close>

definition Connect :: "prims \<Rightarrow> bool \<Rightarrow> bool \<Rightarrow> gostring option \<Rightarrow> DB \<Rightarrow> gostring \<Rightarrow> bool \<Rightarrow> Subsystem \<Rightarrow> app_error + ChatSession \<times> bool" where
  "Connect P openOk schemaOk altErr stored socketPath dial v =
     (case videntity v of
        None \<Rightarrow> Inl ErrAppLocked
      | Some idt \<Rightarrow>
          (case db_Open P openOk schemaOk altErr stored (PrivateKey idt) of
             Inl e \<Rightarrow> Inl (ErrAppDb e)
           | Inr d \<Rightarrow>
               if socketPath \<noteq> [] \<and> \<not> dial then Inl ErrAppDial
               else Inr (\<lparr>sdb = d, sid = idt, sgroups = []\<rparr>, socketPath \<noteq> [])))"

record AppChannel =
  AcID :: bytes
  AcName :: gostring

definition ListAppChannels :: "prims \<Rightarrow> app_env \<Rightarrow> ChatSession \<Rightarrow> app_error + AppChannel list" where
  "ListAppChannels P ae s =
     (case ListChannels P (ae_list ae) (ae_chan_order ae) (sdb s) of
        Inl e \<Rightarrow> Inl (ErrAppDb e)
      | Inr chs \<Rightarrow> Inr (map (\<lambda>ch. \<lparr>AcID = ChID ch, AcName = ChName ch\<rparr>) chs))"

definition AppSubscribe :: "'w daemonClient option \<Rightarrow> bytes \<Rightarrow> 'w \<Rightarrow> 'w \<times> (app_error + unit)" where
  "AppSubscribe C i w =
     (case C of
        None \<Rightarrow> (w, Inr ())
      | Some c \<Rightarrow> (case dc_subscribe c i w of (w1, ok) \<Rightarrow> (w1, if ok then Inr () else Inl ErrAppSubscribe)))"

definition ChannelID :: "prims \<Rightarrow> gostring \<Rightarrow> bytes" where
  "ChannelID P name = sha256 P (str ''gandr-channel:'' @ name)"

definition JoinNamed ::
  "prims \<Rightarrow> app_env \<Rightarrow> 'w daemonClient option \<Rightarrow> gostring \<Rightarrow> ChatSession \<Rightarrow> 'w \<Rightarrow> ChatSession \<times> 'w \<times> (app_error + AppChannel list)" where
  "JoinNamed P ae C name s w =
     (let i = ChannelID P name in
      case JoinChannel P (ae_save ae) (ae_now ae) (ae_seal ae) i name (sdb s) of
        (d1, Inl e) \<Rightarrow> (s\<lparr>sdb := d1\<rparr>, w, Inl (ErrAppDb e))
      | (d1, Inr _) \<Rightarrow>
          let s1 = s\<lparr>sdb := d1\<rparr> in
          (case AppSubscribe C i w of
             (w1, Inl e) \<Rightarrow> (s1, w1, Inl e)
           | (w1, Inr _) \<Rightarrow> (s1, w1, ListAppChannels P ae s1)))"

definition Leave ::
  "prims \<Rightarrow> app_env \<Rightarrow> 'w daemonClient option \<Rightarrow> bytes \<Rightarrow> ChatSession \<Rightarrow> 'w \<Rightarrow> ChatSession \<times> 'w \<times> (app_error + AppChannel list)" where
  "Leave P ae C i s w =
     (let w1 = (case C of None \<Rightarrow> w | Some c \<Rightarrow> fst (dc_unsubscribe c i w)) in
      case LeaveChannel (ae_save ae) i (sdb s) of
        (d1, Inl e) \<Rightarrow> (s\<lparr>sdb := d1\<rparr>, w1, Inl (ErrAppDb e))
      | (d1, Inr _) \<Rightarrow> (s\<lparr>sdb := d1\<rparr>, w1, ListAppChannels P ae (s\<lparr>sdb := d1\<rparr>)))"

definition DefaultChannels :: "gostring list" where
  "DefaultChannels = map str [''general'', ''support'', ''backflash'', ''offtopic'']"

fun join_all ::
  "prims \<Rightarrow> 'w daemonClient option \<Rightarrow> (app_env \<times> gostring) list \<Rightarrow> ChatSession \<Rightarrow> 'w \<Rightarrow> ChatSession \<times> 'w \<times> (app_error + unit)" where
  "join_all P C [] s w = (s, w, Inr ())"
| "join_all P C ((ae, name) # r) s w =
     (case JoinNamed P ae C name s w of
        (s1, w1, Inl e) \<Rightarrow> (s1, w1, Inl e)
      | (s1, w1, Inr _) \<Rightarrow> join_all P C r s1 w1)"

fun subscribe_all :: "'w daemonClient option \<Rightarrow> bytes list \<Rightarrow> 'w \<Rightarrow> 'w \<times> (app_error + unit)" where
  "subscribe_all C [] w = (w, Inr ())"
| "subscribe_all C (i # r) w =
     (case AppSubscribe C i w of
        (w1, Inl e) \<Rightarrow> (w1, Inl e)
      | (w1, Inr _) \<Rightarrow> subscribe_all C r w1)"

text \<open>\<open>aes\<close> are the environments of the joins, one for each default channel.\<close>

definition EnsureDefaultChannels ::
  "prims \<Rightarrow> app_env \<Rightarrow> app_env list \<Rightarrow> 'w daemonClient option \<Rightarrow> ChatSession \<Rightarrow> 'w \<Rightarrow>
     ChatSession \<times> 'w \<times> (app_error + AppChannel list)" where
  "EnsureDefaultChannels P ae aes C s w =
     (case ListAppChannels P ae s of
        Inl e \<Rightarrow> (s, w, Inl e)
      | Inr chs \<Rightarrow>
          if chs = [] then
            (case join_all P C (zip aes DefaultChannels) s w of
               (s1, w1, Inl e) \<Rightarrow> (s1, w1, Inl e)
             | (s1, w1, Inr _) \<Rightarrow> (s1, w1, ListAppChannels P ae s1))
          else
            (case subscribe_all C (map AcID chs) w of
               (w1, Inl e) \<Rightarrow> (s, w1, Inl e)
             | (w1, Inr _) \<Rightarrow> (s, w1, Inr chs)))"

definition SaveMessage :: "prims \<Rightarrow> app_env \<Rightarrow> ChatMessage \<Rightarrow> ChatSession \<Rightarrow> ChatSession \<times> (app_error + unit)" where
  "SaveMessage P ae m s =
     (case SaveChatMessage P (ae_save ae) (ae_seal ae) m (sdb s) of
        (d1, Inl e) \<Rightarrow> (s\<lparr>sdb := d1\<rparr>, Inl (ErrAppDb e))
      | (d1, Inr _) \<Rightarrow> (s\<lparr>sdb := d1\<rparr>, Inr ()))"

text \<open>The client's \<^verbatim>\<open>Send\<close>, skipped when the session is offline.\<close>

definition client_send :: "'w daemonClient option \<Rightarrow> Envelope \<Rightarrow> 'w \<Rightarrow> 'w \<times> (app_error + unit)" where
  "client_send C env w =
     (case C of
        None \<Rightarrow> (w, Inr ())
      | Some c \<Rightarrow> (case dc_send c env w of (w1, ok) \<Rightarrow> (w1, if ok then Inr () else Inl ErrAppSend)))"

definition SendChannel ::
  "prims \<Rightarrow> msgpack \<Rightarrow> app_env \<Rightarrow> 'w daemonClient option \<Rightarrow> bytes \<Rightarrow> gostring \<Rightarrow> ChatSession \<Rightarrow> 'w \<Rightarrow>
     ChatSession \<times> 'w \<times> (app_error + unit)" where
  "SendChannel P M ae C i content s w =
     (case EncodePayload M (ChatPayload i content []) of
        Inl e \<Rightarrow> (s, w, Inl (ErrAppPayload e))
      | Inr payload \<Rightarrow>
          (case NewEnvelope P (ae_now ae) (PrivateKey (sid s)) MsgChat i payload of
             Inl e \<Rightarrow> (s, w, Inl (ErrAppEnvelope e))
           | Inr env \<Rightarrow>
               (case client_send C env w of
                  (w1, Inl e) \<Rightarrow> (s, w1, Inl e)
                | (w1, Inr _) \<Rightarrow>
                    (case SaveMessage P ae \<lparr>CmHash = ContentID P env, CmChannelID = i, CmSender = Sender env,
                                            CmContent = content, CmAt = Timestamp env, CmLocal = True\<rparr> s of
                       (s1, r) \<Rightarrow> (s1, w1, r)))))"

definition DecodeChat :: "prims \<Rightarrow> msgpack \<Rightarrow> Envelope \<Rightarrow> app_error + ChatMessage" where
  "DecodeChat P M env =
     (if Type env \<noteq> MsgChat then Inl ErrAppNotChat
      else case DecodePayload M (Payload env) (ChatPayload (zero_array 32) [] []) of
        Inl e \<Rightarrow> Inl (ErrAppPayload e)
      | Inr (ChatPayload ch c r) \<Rightarrow>
          Inr \<lparr>CmHash = ContentID P env, CmChannelID = ch, CmSender = Sender env, CmContent = c, CmAt = Timestamp env,
               CmLocal = False\<rparr>
      | Inr _ \<Rightarrow> Inl (ErrAppPayload ErrUnmarshal))"

definition AddContact :: "prims \<Rightarrow> app_env \<Rightarrow> bytes \<Rightarrow> gostring \<Rightarrow> gostring \<Rightarrow> ChatSession \<Rightarrow> ChatSession \<times> (app_error + unit)" where
  "AddContact P ae pubkey name note s =
     (case SetNickname P (ae_save ae) (ae_now ae) (ae_seal ae) (ae_seal2 ae)
             \<lparr>NPubkey = pubkey, NName = name, NNote = note, NAddedAt = 0, NTrustHint = 0\<rparr> (sdb s) of
        (d1, Inl e) \<Rightarrow> (s\<lparr>sdb := d1\<rparr>, Inl (ErrAppDb e))
      | (d1, Inr _) \<Rightarrow> (s\<lparr>sdb := d1\<rparr>, Inr ()))"

record Contact =
  KtPubkey :: bytes
  KtName :: gostring
  KtNote :: gostring
  KtTrustHint :: byte

definition Contacts :: "prims \<Rightarrow> app_env \<Rightarrow> ChatSession \<Rightarrow> app_error + Contact list" where
  "Contacts P ae s =
     (case ListNicknames P (ae_list ae) (sdb s) of
        Inl e \<Rightarrow> Inl (ErrAppDb e)
      | Inr items \<Rightarrow>
          Inr (map (\<lambda>n. \<lparr>KtPubkey = NPubkey n, KtName = NName n, KtNote = NNote n, KtTrustHint = NTrustHint n\<rparr>) items))"

text \<open>\<open>srt\<close> is the order in which the database returns the rows of a query.\<close>

definition ChannelMessages ::
  "prims \<Rightarrow> app_env \<Rightarrow> ((bytes \<times> chat_row) list \<Rightarrow> (bytes \<times> chat_row) list) \<Rightarrow> bytes \<Rightarrow> int \<Rightarrow> ChatSession \<Rightarrow>
     app_error + ChatMessage list" where
  "ChannelMessages P ae srt i limit s =
     (case ListChatMessages P (ae_list ae) srt i limit (sdb s) of Inl e \<Rightarrow> Inl (ErrAppDb e) | Inr items \<Rightarrow> Inr items)"

definition PruneOldMessages :: "app_env \<Rightarrow> duration \<Rightarrow> instant \<Rightarrow> ChatSession \<Rightarrow> ChatSession \<times> (app_error + unit)" where
  "PruneOldMessages ae maxAge now s =
     (case PruneChatMessages (ae_save ae) maxAge now (sdb s) of
        (d1, Inl e) \<Rightarrow> (s\<lparr>sdb := d1\<rparr>, Inl (ErrAppDb e))
      | (d1, Inr _) \<Rightarrow> (s\<lparr>sdb := d1\<rparr>, Inr ()))"

definition BlockKey :: "prims \<Rightarrow> app_env \<Rightarrow> bytes \<Rightarrow> gostring \<Rightarrow> ChatSession \<Rightarrow> ChatSession \<times> (app_error + unit)" where
  "BlockKey P ae pubkey reason s =
     (case Block P (ae_save ae) (ae_now ae) (ae_seal ae) pubkey reason (sdb s) of
        (d1, Inl e) \<Rightarrow> (s\<lparr>sdb := d1\<rparr>, Inl (ErrAppDb e))
      | (d1, Inr _) \<Rightarrow> (s\<lparr>sdb := d1\<rparr>, Inr ()))"

section \<open>Private groups\<close>

text \<open>\<^verbatim>\<open>subscribeGroup\<close> ignores errors.\<close>

definition subscribeGroup :: "'w daemonClient option \<Rightarrow> bytes \<Rightarrow> 'w \<Rightarrow> 'w" where
  "subscribeGroup C i w = (case C of None \<Rightarrow> w | Some c \<Rightarrow> fst (dc_subscribe c i w))"

definition CreatePrivateGroup ::
  "prims \<Rightarrow> app_env \<Rightarrow> 'w daemonClient option \<Rightarrow> gostring \<Rightarrow> gostring \<Rightarrow> ChatSession \<Rightarrow> 'w \<Rightarrow>
     ChatSession \<times> 'w \<times> (app_error + PrivateGroup)" where
  "CreatePrivateGroup P ae C name password s w =
     (if TrimSpace name = [] then (s, w, Inl ErrAppGroupName)
      else
        let i = to_array 32 (ae_rnd ae) in
        (case DeriveGroupKey P password i of
           Inl e \<Rightarrow> (s, w, Inl (ErrAppCrypto e))
         | Inr key \<Rightarrow>
             let g = \<lparr>GID = i, GName = TrimSpace name, GCreatedAt = ae_now ae, PeerPubkey = None\<rparr> in
             (case SavePrivateGroup P (ae_save ae) (ae_seal ae) g (sdb s) of
                (d1, Inl e) \<Rightarrow> (s\<lparr>sdb := d1\<rparr>, w, Inl (ErrAppDb e))
              | (d1, Inr _) \<Rightarrow>
                  (s\<lparr>sdb := d1, sgroups := AList.update i key (sgroups s)\<rparr>, subscribeGroup C i w, Inr g))))"

text \<open>\<^verbatim>\<open>bytes.Compare\<close> is the lexicographic order.\<close>

fun bytes_less :: "bytes \<Rightarrow> bytes \<Rightarrow> bool" where
  "bytes_less [] (_ # _) = True"
| "bytes_less _ [] = False"
| "bytes_less (x # xs) (y # ys) = (unat x < unat y \<or> x = y \<and> bytes_less xs ys)"

definition dmGroupID :: "prims \<Rightarrow> bytes \<Rightarrow> bytes \<Rightarrow> bytes" where
  "dmGroupID P a b =
     (let (first, second) = (if bytes_less b a then (b, a) else (a, b)) in
      to_array 32 (sha256 P (str ''gandr-dm-id-v1:'' @ first @ second)))"

definition session_PublicKey :: "ChatSession \<Rightarrow> bytes" where
  "session_PublicKey s = to_array 32 (PublicKey (sid s))"

definition dm_key :: "prims \<Rightarrow> bytes \<Rightarrow> bytes \<Rightarrow> app_error + bytes" where
  "dm_key P priv peerPubkey =
     (case PrivateKeyToX25519 P priv of
        Inl e \<Rightarrow> Inl (ErrAppCrypto e)
      | Inr myX \<Rightarrow>
          (case PublicKeyToX25519 P peerPubkey of
             Inl e \<Rightarrow> Inl (ErrAppCrypto e)
           | Inr theirX \<Rightarrow>
               (case DeriveSharedKey P myX theirX (str ''gandr-dm-v1'') of
                  Inl e \<Rightarrow> Inl (ErrAppCrypto e)
                | Inr key \<Rightarrow> Inr key)))"

text \<open>\<^verbatim>\<open>fmt.Sprintf("~%x", k[:4])\<close>\<close>

definition short_name :: "bytes \<Rightarrow> gostring" where
  "short_name k = str ''~'' @ EncodeToString (take 4 k)"

definition StartDirectMessage ::
  "prims \<Rightarrow> app_env \<Rightarrow> 'w daemonClient option \<Rightarrow> bytes \<Rightarrow> gostring \<Rightarrow> ChatSession \<Rightarrow> 'w \<Rightarrow>
     ChatSession \<times> 'w \<times> (app_error + PrivateGroup)" where
  "StartDirectMessage P ae C peerPubkey peerName s w =
     (let i = dmGroupID P (session_PublicKey s) peerPubkey in
      case (if map_of (sgroups s) i \<noteq> None then Inr s
            else case dm_key P (PrivateKey (sid s)) peerPubkey of
                   Inl e \<Rightarrow> Inl e
                 | Inr key \<Rightarrow> Inr (s\<lparr>sgroups := AList.update i key (sgroups s)\<rparr>)) of
        Inl e \<Rightarrow> (s, w, Inl e)
      | Inr s1 \<Rightarrow>
          let name = (if TrimSpace peerName = [] then short_name peerPubkey else TrimSpace peerName) in
          (case ListPrivateGroups P (ae_list ae) (ae_group_order ae) (sdb s1) of
             Inl e \<Rightarrow> (s1, w, Inl (ErrAppDb e))
           | Inr existing \<Rightarrow>
               (case find (\<lambda>g. GID g = i) existing of
                  Some g \<Rightarrow> (s1, subscribeGroup C i w, Inr (g\<lparr>PeerPubkey := Some peerPubkey\<rparr>))
                | None \<Rightarrow>
                    let g = \<lparr>GID = i, GName = name, GCreatedAt = ae_now ae, PeerPubkey = Some peerPubkey\<rparr> in
                    (case SavePrivateGroup P (ae_save ae) (ae_seal ae) g (sdb s1) of
                       (d1, Inl e) \<Rightarrow> (s1\<lparr>sdb := d1\<rparr>, w, Inl (ErrAppDb e))
                     | (d1, Inr _) \<Rightarrow> (s1\<lparr>sdb := d1\<rparr>, subscribeGroup C i w, Inr g)))))"

definition PrivateGroups :: "prims \<Rightarrow> app_env \<Rightarrow> ChatSession \<Rightarrow> app_error + PrivateGroup list" where
  "PrivateGroups P ae s =
     (case ListPrivateGroups P (ae_list ae) (ae_group_order ae) (sdb s) of Inl e \<Rightarrow> Inl (ErrAppDb e) | Inr items \<Rightarrow> Inr items)"

definition UnlockPrivateGroup ::
  "prims \<Rightarrow> app_env \<Rightarrow> 'w daemonClient option \<Rightarrow> bytes \<Rightarrow> gostring \<Rightarrow> gostring \<Rightarrow> ChatSession \<Rightarrow> 'w \<Rightarrow>
     ChatSession \<times> 'w \<times> (app_error + unit)" where
  "UnlockPrivateGroup P ae C i password name s w =
     (case DeriveGroupKey P password i of
        Inl e \<Rightarrow> (s, w, Inl (ErrAppCrypto e))
      | Inr key \<Rightarrow>
          let s1 = s\<lparr>sgroups := AList.update i key (sgroups s)\<rparr>; w1 = subscribeGroup C i w in
          (case ListPrivateGroups P (ae_list ae) (ae_group_order ae) (sdb s1) of
             Inl e \<Rightarrow> (s1, w1, Inl (ErrAppDb e))
           | Inr items \<Rightarrow>
               if \<exists>g \<in> set items. GID g = i then (s1, w1, Inr ())
               else
                 let name1 = (if TrimSpace name = [] then short_name i else name) in
                 (case SavePrivateGroup P (ae_save ae) (ae_seal ae)
                         \<lparr>GID = i, GName = TrimSpace name1, GCreatedAt = ae_now ae, PeerPubkey = None\<rparr> (sdb s1) of
                    (d1, Inl e) \<Rightarrow> (s1\<lparr>sdb := d1\<rparr>, w1, Inl (ErrAppDb e))
                  | (d1, Inr _) \<Rightarrow> (s1\<lparr>sdb := d1\<rparr>, w1, Inr ()))))"

definition IsGroupUnlocked :: "bytes \<Rightarrow> ChatSession \<Rightarrow> bool" where
  "IsGroupUnlocked i s \<longleftrightarrow> map_of (sgroups s) i \<noteq> None"

definition VerifyGroupPassword :: "prims \<Rightarrow> bytes \<Rightarrow> gostring \<Rightarrow> ChatSession \<Rightarrow> bool" where
  "VerifyGroupPassword P i password s =
     (case map_of (sgroups s) i of
        None \<Rightarrow> False
      | Some cached \<Rightarrow> (case DeriveGroupKey P password i of Inl _ \<Rightarrow> False | Inr got \<Rightarrow> got = cached))"

record GroupMessage =
  AmHash :: bytes
  AmGroupID :: bytes
  AmSender :: bytes
  AmContent :: gostring
  AmAt :: "64 word"

definition SendPrivateGroup ::
  "prims \<Rightarrow> msgpack \<Rightarrow> app_env \<Rightarrow> 64 word \<Rightarrow> 'w daemonClient option \<Rightarrow> bytes \<Rightarrow> gostring \<Rightarrow> ChatSession \<Rightarrow> 'w \<Rightarrow>
     ChatSession \<times> 'w \<times> (app_error + GroupMessage)" where
  "SendPrivateGroup P M ae savedAt C i content s w =
     (case map_of (sgroups s) i of
        None \<Rightarrow> (s, w, Inl ErrAppGroupLocked)
      | Some key \<Rightarrow>
          let blob = EncryptGroup P (ae_rnd ae) key i content in
          (case (case C of
                   None \<Rightarrow> (w, Inr ())
                 | Some c \<Rightarrow>
                     (case EncodePayload M (ChatPayload i (b64_encode False blob) []) of
                        Inl e \<Rightarrow> (w, Inl (ErrAppPayload e))
                      | Inr payload \<Rightarrow>
                          (case NewEnvelope P (ae_now ae) (PrivateKey (sid s)) MsgChat i payload of
                             Inl e \<Rightarrow> (w, Inl (ErrAppEnvelope e))
                           | Inr env \<Rightarrow> client_send C env w))) of
             (w1, Inl e) \<Rightarrow> (s, w1, Inl e)
           | (w1, Inr _) \<Rightarrow>
               let hash = Digest P [i, blob]; sender = session_PublicKey s in
               (case SavePrivateGroupMessage (ae_save ae)
                       \<lparr>GmHash = hash, GmGroupID = i, GmSender = sender, GmCiphertext = Some blob, GmMessageAt = savedAt\<rparr> (sdb s) of
                  (d1, Inl e) \<Rightarrow> (s\<lparr>sdb := d1\<rparr>, w1, Inl (ErrAppDb e))
                | (d1, Inr _) \<Rightarrow>
                    (s\<lparr>sdb := d1\<rparr>, w1, Inr \<lparr>AmHash = hash, AmGroupID = i, AmSender = sender, AmContent = content, AmAt = savedAt\<rparr>))))"

definition DecryptGroupMessage :: "prims \<Rightarrow> msgpack \<Rightarrow> Envelope \<Rightarrow> ChatSession \<Rightarrow> GroupMessage option" where
  "DecryptGroupMessage P M env s =
     (if Type env \<noteq> MsgChat then None
      else case DecodePayload M (Payload env) (ChatPayload (zero_array 32) [] []) of
        Inr (ChatPayload ch c r) \<Rightarrow>
          (case map_of (sgroups s) ch of
             None \<Rightarrow> None
           | Some key \<Rightarrow>
               (case b64_decode False c of
                  None \<Rightarrow> None
                | Some raw \<Rightarrow>
                    (case DecryptGroup P key ch raw of
                       Inl _ \<Rightarrow> None
                     | Inr plain \<Rightarrow>
                         Some \<lparr>AmHash = ContentID P env, AmGroupID = ch, AmSender = Sender env, AmContent = plain,
                               AmAt = Timestamp env\<rparr>)))
      | _ \<Rightarrow> None)"

definition SaveReceivedPrivateGroupMessage ::
  "prims \<Rightarrow> app_env \<Rightarrow> GroupMessage \<Rightarrow> ChatSession \<Rightarrow> ChatSession \<times> (app_error + unit)" where
  "SaveReceivedPrivateGroupMessage P ae m s =
     (case map_of (sgroups s) (AmGroupID m) of
        None \<Rightarrow> (s, Inl ErrAppGroupLocked)
      | Some key \<Rightarrow>
          (case SavePrivateGroupMessage (ae_save ae)
                  \<lparr>GmHash = AmHash m, GmGroupID = AmGroupID m, GmSender = AmSender m,
                   GmCiphertext = Some (EncryptGroup P (ae_rnd ae) key (AmGroupID m) (AmContent m)), GmMessageAt = AmAt m\<rparr> (sdb s) of
             (d1, Inl e) \<Rightarrow> (s\<lparr>sdb := d1\<rparr>, Inl (ErrAppDb e))
           | (d1, Inr _) \<Rightarrow> (s\<lparr>sdb := d1\<rparr>, Inr ())))"

text \<open>A nil ciphertext is shorter than the nonce.\<close>

fun decrypt_items :: "prims \<Rightarrow> bytes \<Rightarrow> bytes \<Rightarrow> PrivateGroupMessage list \<Rightarrow> app_error + GroupMessage list" where
  "decrypt_items P key i [] = Inr []"
| "decrypt_items P key i (m # ms) =
     (case DecryptGroup P key i (case GmCiphertext m of None \<Rightarrow> [] | Some b \<Rightarrow> b) of
        Inl e \<Rightarrow> Inl (ErrAppCrypto e)
      | Inr plain \<Rightarrow>
          (case decrypt_items P key i ms of
             Inl e \<Rightarrow> Inl e
           | Inr out \<Rightarrow>
               Inr (\<lparr>AmHash = GmHash m, AmGroupID = GmGroupID m, AmSender = GmSender m, AmContent = plain, AmAt = GmMessageAt m\<rparr> # out)))"

definition PrivateGroupMessages ::
  "prims \<Rightarrow> bool \<Rightarrow> ((bytes \<times> gmsg_row) list \<Rightarrow> (bytes \<times> gmsg_row) list) \<Rightarrow> bytes \<Rightarrow> int \<Rightarrow> ChatSession \<Rightarrow>
     app_error + GroupMessage list" where
  "PrivateGroupMessages P io srt i limit s =
     (case map_of (sgroups s) i of
        None \<Rightarrow> Inl ErrAppGroupLocked
      | Some key \<Rightarrow>
          (case ListPrivateGroupMessages io srt i limit (sdb s) of
             Inl e \<Rightarrow> Inl (ErrAppDb e)
           | Inr items \<Rightarrow> decrypt_items P key i items))"

section \<open>Peers\<close>

definition parseYggKey :: "gostring \<Rightarrow> app_error + bytes" where
  "parseYggKey hexKey0 =
     (let hexKey = TrimSpace hexKey0 in
      if length hexKey \<noteq> 64 then Inl ErrAppKeyLength
      else case DecodeString hexKey of None \<Rightarrow> Inl ErrAppKeyHex | Some b \<Rightarrow> Inr (to_array 32 b))"

definition ConnectPeer :: "'w daemonClient option \<Rightarrow> gostring \<Rightarrow> 'w \<Rightarrow> 'w \<times> (app_error + unit)" where
  "ConnectPeer C yggKeyHex w =
     (case parseYggKey yggKeyHex of
        Inl e \<Rightarrow> (w, Inl e)
      | Inr key \<Rightarrow>
          (case C of
             None \<Rightarrow> (w, Inl ErrAppNotConnected)
           | Some c \<Rightarrow> (case dc_connect c key w of (w1, ok) \<Rightarrow> (w1, if ok then Inr () else Inl ErrAppConnect))))"

definition AppPeers :: "'w daemonClient option \<Rightarrow> 'w \<Rightarrow> app_error + (bytes \<times> gostring) list" where
  "AppPeers C w =
     (case C of
        None \<Rightarrow> Inr []
      | Some c \<Rightarrow> (case dc_peers c w of None \<Rightarrow> Inl ErrAppPeers | Some ps \<Rightarrow> Inr (map (\<lambda>p. (IIdentity p, IAddr p)) ps)))"

section \<open>Sending and receiving\<close>

lemma chat_payload_decodes:
  assumes "msgpack_ok M" "EncodePayload M (ChatPayload i c r) = Inr b"
  shows "DecodePayload M b (ChatPayload (zero_array 32) [] []) = Inr (ChatPayload i c r)"
proof -
  have e: "Validate (ChatPayload i c r) = Inr ()" "Marshal M (ChatPayload i c r) = Some b" "length b \<le> 65535"
    using assms(2) unfolding EncodePayload_def by (auto simp del: Validate.simps split: sum.splits option.splits if_splits)
  have "NewPayload (payload_type (ChatPayload i c r)) = Inr (ChatPayload (zero_array 32) [] [])" by (simp add: NewPayload_def)
  then have "Unmarshal M b (ChatPayload (zero_array 32) [] []) = UnmarshalOk (ChatPayload i c r)"
    using assms(1) e(2) unfolding msgpack_ok_def by blast
  then show ?thesis using e by (simp add: DecodePayload_def del: Validate.simps)
qed

lemma NewEnvelope_fields:
  assumes "NewEnvelope P now priv t rcp pl = Inr e"
  shows "Type e = t" "Timestamp e = now" "Sender e = Public priv" "Payload e = pl"
  by (subst NewEnvelope_Inr(4) [OF assms], simp)+

lemma client_send_Some: "client_send (Some c) env w = (w1, Inr ()) \<longleftrightarrow> dc_send c env w = (w1, True)"
  by (auto simp: client_send_def split: prod.splits if_splits)

lemma SendChannel_Inr:
  assumes "SendChannel P M ae (Some c) i content s w = (s', w', Inr ())"
  obtains payload env where "EncodePayload M (ChatPayload i content []) = Inr payload"
    "NewEnvelope P (ae_now ae) (PrivateKey (sid s)) MsgChat i payload = Inr env" "dc_send c env w = (w', True)"
    "SaveMessage P ae \<lparr>CmHash = ContentID P env, CmChannelID = i, CmSender = Sender env, CmContent = content,
       CmAt = Timestamp env, CmLocal = True\<rparr> s = (s', Inr ())"
proof -
  obtain payload where p: "EncodePayload M (ChatPayload i content []) = Inr payload"
    using assms by (auto simp: SendChannel_def split: sum.splits)
  obtain env where e: "NewEnvelope P (ae_now ae) (PrivateKey (sid s)) MsgChat i payload = Inr env"
    using assms p by (auto simp: SendChannel_def split: sum.splits)
  obtain w1 r where c: "client_send (Some c) env w = (w1, r)" by (metis surj_pair)
  have r: "r = Inr ()" using assms p e c by (cases r) (simp_all add: SendChannel_def)
  let ?m = "\<lparr>CmHash = ContentID P env, CmChannelID = i, CmSender = Sender env, CmContent = content,
       CmAt = Timestamp env, CmLocal = True\<rparr>"
  obtain s1 r1 where v: "SaveMessage P ae ?m s = (s1, r1)" by (metis surj_pair)
  have "(s', w', Inr ()) = (s1, w1, r1)" using assms unfolding SendChannel_def p e sum.case c r prod.case v by (rule sym)
  then have "w1 = w'" "SaveMessage P ae ?m s = (s', Inr ())" using v by simp_all
  moreover have "dc_send c env w = (w1, True)" using c unfolding r client_send_Some .
  ultimately show thesis using that [OF p e] by simp
qed

text \<open>
  A channel message is the same for its sender and its readers: when sending succeeds, the daemon
  accepted an envelope that every reader decodes to the message the sender saved, with the same hash,
  channel, sender, text and time, and only the mark of the own message differs.
\<close>

theorem channel_message_same:
  assumes "msgpack_ok M" "SendChannel P M ae (Some c) i content s w = (s', w', Inr ())"
  shows "\<exists>env m. dc_send c env w = (w', True) \<and> DecodeChat P M env = Inr m \<and>
    CmContent m = content \<and> CmChannelID m = i \<and> CmSender m = Public (PrivateKey (sid s)) \<and>
    SaveMessage P ae (m\<lparr>CmLocal := True\<rparr>) s = (s', Inr ())"
proof -
  obtain payload env where e: "EncodePayload M (ChatPayload i content []) = Inr payload"
    "NewEnvelope P (ae_now ae) (PrivateKey (sid s)) MsgChat i payload = Inr env" "dc_send c env w = (w', True)"
    "SaveMessage P ae \<lparr>CmHash = ContentID P env, CmChannelID = i, CmSender = Sender env, CmContent = content,
       CmAt = Timestamp env, CmLocal = True\<rparr> s = (s', Inr ())"
    using SendChannel_Inr [OF assms(2)] .
  note f = NewEnvelope_fields [OF e(2)]
  have "DecodeChat P M env = Inr \<lparr>CmHash = ContentID P env, CmChannelID = i, CmSender = Sender env, CmContent = content,
       CmAt = Timestamp env, CmLocal = False\<rparr>"
    using chat_payload_decodes [OF assms(1) e(1)] f by (simp add: DecodeChat_def)
  then show ?thesis using e(3,4) f by (intro exI conjI) (assumption+, simp_all)
qed

text \<open>Concrete sessions, and a client that keeps what it is sent.\<close>

definition demo_client :: "Envelope list daemonClient" where
  "demo_client = \<lparr>dc_subscribe = (\<lambda>_ w. (w, True)), dc_unsubscribe = (\<lambda>_ w. (w, True)), dc_send = (\<lambda>env w. (w @ [env], True)),
     dc_connect = (\<lambda>_ w. (w, True)), dc_peers = (\<lambda>_. Some [])\<rparr>"

definition demo_chat_session :: "byte \<Rightarrow> ChatSession" where
  "demo_chat_session b = \<lparr>sdb = demo_db, sid = \<lparr>PrivateKey = demo_key b, PublicKey = Public (demo_key b), IdDisplayName = [], CreatedAt = 0\<rparr>,
     sgroups = []\<rparr>"

definition demo_env :: app_env where
  "demo_env = \<lparr>ae_now = 7, ae_rnd = [5], ae_seal = [], ae_seal2 = [], ae_save = True, ae_list = True,
     ae_group_order = (\<lambda>rows. rows), ae_chan_order = (\<lambda>rows. rows)\<rparr>"

lemma demo_sends:
  "\<exists>env. NewEnvelope demo_prims 7 (demo_key b) MsgChat i [1, 2, 3] = Inr env \<and> Payload env = [1, 2, 3]"
  using demo_key_wf [of b] by (simp add: NewEnvelope_def wf_priv_def Sign_def LocalOnly_def Let_def)

lemma demo_encodes: "Validate p = Inr () \<Longrightarrow> EncodePayload (demo_msgpack p [1, 2, 3]) p = Inr [1, 2, 3]"
  by (simp add: EncodePayload_def demo_msgpack_def del: Validate.simps)

theorem channel_message_same_witness:
  "\<exists>env m. snd (dc_send demo_client env []) \<and>
     DecodeChat demo_prims (demo_msgpack (ChatPayload [9] (str ''hi'') []) [1, 2, 3]) env = Inr m \<and> CmContent m = str ''hi''"
proof -
  let ?M = "demo_msgpack (ChatPayload [9] (str ''hi'') []) [1, 2, 3]"
  obtain env where e: "NewEnvelope demo_prims 7 (demo_key 3) MsgChat [9] [1, 2, 3] = Inr env" using demo_sends by blast
  have p: "EncodePayload ?M (ChatPayload [9] (str ''hi'') []) = Inr [1, 2, 3]"
    by (rule demo_encodes) (simp add: Validate_limits text_ok_def str_def ValidString_ascii RuneCountInString_ascii)
  have "\<exists>s'. SendChannel demo_prims ?M demo_env (Some demo_client) [9] (str ''hi'') (demo_chat_session 3) [] = (s', [env], Inr ())"
    using e unfolding SendChannel_def p sum.case
    by (simp add: demo_env_def demo_chat_session_def demo_client_def client_send_def SaveMessage_def SaveChatMessage_def)
  then obtain s' where "SendChannel demo_prims ?M demo_env (Some demo_client) [9] (str ''hi'') (demo_chat_session 3) [] = (s', [env], Inr ())" ..
  from channel_message_same [OF demo_msgpack_ok this] show ?thesis by (metis snd_conv)
qed

section \<open>Private groups and direct messages\<close>

lemma bytes_less_total: "length a = length b \<Longrightarrow> a \<noteq> b \<Longrightarrow> bytes_less a b \<noteq> bytes_less b a"
proof (induction a b rule: list_induct2)
  case (Cons x xs y ys)
  have "x \<noteq> y \<Longrightarrow> unat x < unat y \<or> unat y < unat x" by (metis linorder_neqE_nat word_unat_eqI)
  then show ?case using Cons by auto
qed simp

lemma bytes_less_irrefl: "\<not> bytes_less a a"
  by (induction a) auto

lemma dmGroupID_sym: "length a = length b \<Longrightarrow> dmGroupID P a b = dmGroupID P b a"
  using bytes_less_total [of a b] by (cases "a = b") (auto simp: dmGroupID_def Let_def)

lemma dm_key_agree:
  assumes "sizes_ok P" "dh_ok P" "conv_ok P" "wf_priv P a" "wf_priv P b"
  shows "dm_key P a (Public b) = dm_key P b (Public a)"
proof -
  have l: "length a = 64" "length b = 64" using assms(4,5) by (simp_all add: wf_priv_def)
  then have lp: "length (Public a) = 32" "length (Public b) = 32" by (simp_all add: Public_def)
  obtain xa where xa: "PrivateKeyToX25519 P a = Inr xa" using l by (simp add: PrivateKeyToX25519_def Let_def)
  obtain xb where xb: "PrivateKeyToX25519 P b = Inr xb" using l by (simp add: PrivateKeyToX25519_def Let_def)
  obtain ma where ma: "ed25519_montgomery P (Public a) = Some ma" "x25519 P xa (x25519_base P) = Some ma"
    using assms(3,4) xa unfolding conv_ok_def by (metis option.exhaust)
  obtain mb where mb: "ed25519_montgomery P (Public b) = Some mb" "x25519 P xb (x25519_base P) = Some mb"
    using assms(3,5) xb unfolding conv_ok_def by (metis option.exhaust)
  have "length ma = 32" "length mb = 32" using assms(1) ma(1) mb(1) by (auto simp: sizes_ok_def)
  moreover have "x25519 P xa mb = x25519 P xb ma" using assms(2) ma(2) mb(2) by (rule dh_okD)
  ultimately show ?thesis
    using xa xb ma(1) mb(1) lp by (simp add: dm_key_def PublicKeyToX25519_def DeriveSharedKey_def)
qed

lemma length_EncryptGroup:
  "sizes_ok P \<Longrightarrow> length (EncryptGroup P rnd key i p) = length p + 40"
  using length_Encrypt [of P rnd key p i] by (cases "Encrypt P rnd key p i") (auto simp: EncryptGroup_def)

lemma b64_ascii: "\<forall>x \<in> set (b64_encode False bs). unat x < 128"
proof -
  have "unat (b64_char False n) < 128" if "n < 64" for n
    using that by (auto simp: b64_char_def simp del: of_nat_add of_nat_diff)
  then show ?thesis by (induction False bs rule: b64_encode.induct) auto
qed

lemma quarter_limit: "4 * ((n + 42) div 3) \<le> (2000::nat) \<longleftrightarrow> n \<le> 1460"
proof -
  have "4 * ((n + 42) div 3) \<le> 2000 \<longleftrightarrow> (n + 42) div 3 < 501" by linarith
  also have "\<dots> \<longleftrightarrow> n + 42 < 501 * 3" by (rule div_less_iff_less_mult) simp
  finally show ?thesis by linarith
qed

text \<open>
  A private message is limited to 1460 bytes. The chat payload admits 2000 characters; the encrypted
  form of a group or direct message adds forty bytes and is written in base 64, so that validation admits
  exactly the texts of at most 1460 bytes.
\<close>

lemma group_message_limit:
  assumes "sizes_ok P"
  shows "Validate (ChatPayload i (b64_encode False (EncryptGroup P rnd key i content)) []) = Inr () \<longleftrightarrow> length content \<le> 1460"
proof -
  let ?b = "b64_encode False (EncryptGroup P rnd key i content)"
  have "ValidString ?b" "RuneCountInString ?b = length ?b"
    using b64_ascii by (simp_all add: ValidString_ascii RuneCountInString_ascii)
  moreover have "length ?b = 4 * ((length content + 42) div 3)"
    using length_EncryptGroup [OF assms, of rnd key i content] by (simp add: length_b64_std)
  moreover have "4 * ((length content + 42) div 3) \<le> 2000 \<longleftrightarrow> length content \<le> 1460" by (rule quarter_limit)
  ultimately show ?thesis unfolding Validate_limits by (simp add: text_ok_def)
qed

lemma SendPrivateGroup_Inr:
  assumes "SendPrivateGroup P M ae at (Some c) i content s w = (s', w', Inr m)"
  obtains key payload env where "map_of (sgroups s) i = Some key"
    "EncodePayload M (ChatPayload i (b64_encode False (EncryptGroup P (ae_rnd ae) key i content)) []) = Inr payload"
    "NewEnvelope P (ae_now ae) (PrivateKey (sid s)) MsgChat i payload = Inr env" "dc_send c env w = (w', True)"
    "m = \<lparr>AmHash = Digest P [i, EncryptGroup P (ae_rnd ae) key i content], AmGroupID = i, AmSender = session_PublicKey s,
         AmContent = content, AmAt = at\<rparr>"
proof -
  obtain key where k: "map_of (sgroups s) i = Some key"
    using assms by (cases "map_of (sgroups s) i") (auto simp: SendPrivateGroup_def)
  let ?b = "EncryptGroup P (ae_rnd ae) key i content"
  obtain payload where p: "EncodePayload M (ChatPayload i (b64_encode False ?b) []) = Inr payload"
  proof (cases "EncodePayload M (ChatPayload i (b64_encode False ?b) [])")
    case (Inl e)
    have "SendPrivateGroup P M ae at (Some c) i content s w = (s, w, Inl (ErrAppPayload e))"
      unfolding SendPrivateGroup_def k option.case Let_def Inl sum.case prod.case ..
    then show thesis using assms by simp
  qed
  obtain env where e: "NewEnvelope P (ae_now ae) (PrivateKey (sid s)) MsgChat i payload = Inr env"
  proof (cases "NewEnvelope P (ae_now ae) (PrivateKey (sid s)) MsgChat i payload")
    case (Inl e)
    have "SendPrivateGroup P M ae at (Some c) i content s w = (s, w, Inl (ErrAppEnvelope e))"
      unfolding SendPrivateGroup_def k option.case Let_def p Inl sum.case prod.case ..
    then show thesis using assms by simp
  qed
  obtain w1 r0 where c0: "client_send (Some c) env w = (w1, r0)" by (metis surj_pair)
  have r: "r0 = Inr ()"
  proof (cases r0)
    case (Inl e')
    have "SendPrivateGroup P M ae at (Some c) i content s w = (s, w1, Inl e')"
      unfolding SendPrivateGroup_def k option.case Let_def p e sum.case c0 Inl prod.case ..
    then show ?thesis using assms by simp
  qed simp
  note c = c0 [unfolded r]
  let ?g = "\<lparr>GmHash = Digest P [i, ?b], GmGroupID = i, GmSender = session_PublicKey s, GmCiphertext = Some ?b, GmMessageAt = at\<rparr>"
  obtain d1 r1 where v: "SavePrivateGroupMessage (ae_save ae) ?g (sdb s) = (d1, r1)" by (metis surj_pair)
  have eq: "SendPrivateGroup P M ae at (Some c) i content s w =
      (case r1 of Inl e \<Rightarrow> (s\<lparr>sdb := d1\<rparr>, w1, Inl (ErrAppDb e))
       | Inr _ \<Rightarrow> (s\<lparr>sdb := d1\<rparr>, w1, Inr \<lparr>AmHash = Digest P [i, ?b], AmGroupID = i, AmSender = session_PublicKey s,
           AmContent = content, AmAt = at\<rparr>))"
    unfolding SendPrivateGroup_def k option.case Let_def p e sum.case c prod.case v ..
  have "w1 = w'" "m = \<lparr>AmHash = Digest P [i, ?b], AmGroupID = i, AmSender = session_PublicKey s, AmContent = content, AmAt = at\<rparr>"
    using assms unfolding eq by (auto split: sum.splits)
  moreover have "dc_send c env w = (w1, True)" using c unfolding client_send_Some .
  ultimately show thesis using that [OF k p e] by simp
qed

lemma group_message_opens:
  assumes "sizes_ok P" "aead_ok P" "msgpack_ok M" "map_of (sgroups s2) i = Some key"
    and "EncodePayload M (ChatPayload i (b64_encode False (EncryptGroup P rnd key i content)) []) = Inr payload"
    and "NewEnvelope P now priv MsgChat i payload = Inr env"
  shows "DecryptGroupMessage P M env s2 =
    Some \<lparr>AmHash = ContentID P env, AmGroupID = i, AmSender = Public priv, AmContent = content, AmAt = now\<rparr>"
  using chat_payload_decodes [OF assms(3,5)] NewEnvelope_fields [OF assms(6)] DecryptGroup_EncryptGroup [OF assms(1,2)] assms(4)
  by (simp add: DecryptGroupMessage_def)

lemma sent_message_opens:
  assumes "sizes_ok P" "aead_ok P" "msgpack_ok M"
    and "map_of (sgroups s) i = Some key" "map_of (sgroups t) i = Some key"
    and "SendPrivateGroup P M ae at (Some c) i content s w = (s', w', Inr m)"
  shows "\<exists>env m2. dc_send c env w = (w', True) \<and> DecryptGroupMessage P M env t = Some m2 \<and>
    AmContent m2 = content \<and> AmGroupID m2 = i \<and> AmSender m2 = Public (PrivateKey (sid s)) \<and> AmContent m = content"
proof -
  obtain key' payload env where e: "map_of (sgroups s) i = Some key'"
    "EncodePayload M (ChatPayload i (b64_encode False (EncryptGroup P (ae_rnd ae) key' i content)) []) = Inr payload"
    "NewEnvelope P (ae_now ae) (PrivateKey (sid s)) MsgChat i payload = Inr env" "dc_send c env w = (w', True)"
    "m = \<lparr>AmHash = Digest P [i, EncryptGroup P (ae_rnd ae) key' i content], AmGroupID = i, AmSender = session_PublicKey s,
         AmContent = content, AmAt = at\<rparr>"
    using SendPrivateGroup_Inr [OF assms(6)] .
  have "key' = key" using e(1) assms(4) by simp
  then have "DecryptGroupMessage P M env t = Some \<lparr>AmHash = ContentID P env, AmGroupID = i, AmSender = Public (PrivateKey (sid s)),
      AmContent = content, AmAt = ae_now ae\<rparr>"
    using group_message_opens [OF assms(1-3,5)] e(2,3) by blast
  then show ?thesis using e(4,5) by (intro exI conjI) (assumption+, simp_all)
qed

lemma SendPrivateGroup_ok:
  assumes "map_of (sgroups s) i = Some key" "ae_save ae" "dc_send c env w = (w', True)"
    and "EncodePayload M (ChatPayload i (b64_encode False (EncryptGroup P (ae_rnd ae) key i content)) []) = Inr payload"
    and "NewEnvelope P (ae_now ae) (PrivateKey (sid s)) MsgChat i payload = Inr env"
  shows "\<exists>s' m. SendPrivateGroup P M ae at (Some c) i content s w = (s', w', Inr m)"
  unfolding SendPrivateGroup_def assms(1) option.case Let_def assms(4,5) sum.case
  using assms(2,3) by (simp add: client_send_def SavePrivateGroupMessage_def)

lemma demo_group_sends:
  assumes "map_of (sgroups s) i = Some key" "PrivateKey (sid s) = demo_key b" "length content \<le> 1460"
  shows "\<exists>env s' m. SendPrivateGroup demo_prims
    (demo_msgpack (ChatPayload i (b64_encode False (EncryptGroup demo_prims [5] key i content)) []) [1, 2, 3])
    demo_env 7 (Some demo_client) i content s [] = (s', [env], Inr m)"
proof -
  obtain env where e: "NewEnvelope demo_prims 7 (demo_key b) MsgChat i [1, 2, 3] = Inr env" using demo_sends by blast
  have "EncodePayload (demo_msgpack (ChatPayload i (b64_encode False (EncryptGroup demo_prims [5] key i content)) []) [1, 2, 3])
      (ChatPayload i (b64_encode False (EncryptGroup demo_prims [5] key i content)) []) = Inr [1, 2, 3]"
    by (rule demo_encodes) (use group_message_limit [OF demo_sizes_ok] assms(3) in blast)
  with SendPrivateGroup_ok [of s i key demo_env demo_client env "[]" "[env]"] show ?thesis
    using assms(1,2) e by (simp add: demo_env_def demo_client_def) blast
qed

lemma CreatePrivateGroup_key:
  assumes "CreatePrivateGroup P ae C name password s w = (s', w', Inr g)"
  shows "\<exists>key. DeriveGroupKey P password (GID g) = Inr key \<and> map_of (sgroups s') (GID g) = Some key \<and> sid s' = sid s"
  using assms unfolding CreatePrivateGroup_def Let_def
  by (auto simp: update_conv' split: if_splits sum.splits prod.splits)

lemma UnlockPrivateGroup_key:
  assumes "UnlockPrivateGroup P ae C i password name s w = (s', w', Inr ())" "DeriveGroupKey P password i = Inr key"
  shows "map_of (sgroups s') i = Some key"
  using assms unfolding UnlockPrivateGroup_def Let_def
  by (auto simp: update_conv' split: if_splits sum.splits prod.splits)

text \<open>
  A group message arrives. When one session creates a group and another unlocks it with the same
  password, whatever the first sends through its daemon is an envelope that the second decrypts to the same
  text, group and sender.
\<close>

theorem group_message_roundtrip:
  assumes "sizes_ok P" "aead_ok P" "msgpack_ok M"
    and "CreatePrivateGroup P ae0 C0 name password s0 w0 = (s, w1, Inr g)"
    and "UnlockPrivateGroup P ae2 C2 (GID g) password name2 t0 v0 = (t, v1, Inr ())"
    and "SendPrivateGroup P M ae at (Some c) (GID g) content s w = (s', w', Inr m)"
  shows "\<exists>env m2. dc_send c env w = (w', True) \<and> DecryptGroupMessage P M env t = Some m2 \<and>
    AmContent m2 = content \<and> AmGroupID m2 = GID g \<and> AmSender m2 = Public (PrivateKey (sid s0)) \<and> AmContent m = content"
proof -
  obtain key where k: "DeriveGroupKey P password (GID g) = Inr key" "map_of (sgroups s) (GID g) = Some key" "sid s = sid s0"
    using CreatePrivateGroup_key [OF assms(4)] by blast
  show ?thesis using sent_message_opens [OF assms(1-3) k(2) UnlockPrivateGroup_key [OF assms(5) k(1)] assms(6)] k(3) by simp
qed

lemma demo_creates:
  "\<exists>s g. CreatePrivateGroup demo_prims demo_env (Some demo_client) (str ''team'') (str ''pw'') (demo_chat_session 1) [] = (s, [], Inr g)"
proof -
  have "TrimSpace (str ''team'') = str ''team''" by code_simp
  then show ?thesis
    by (simp add: CreatePrivateGroup_def DeriveGroupKey_def SavePrivateGroup_def demo_env_def demo_client_def subscribeGroup_def str_def Let_def)
qed

lemma demo_unlocks:
  "\<exists>t. UnlockPrivateGroup demo_prims demo_env (Some demo_client) i (str ''pw'') nm (demo_chat_session 2) [] = (t, [], Inr ())"
  by (simp add: UnlockPrivateGroup_def DeriveGroupKey_def SavePrivateGroup_def ListPrivateGroups_def demo_chat_session_def demo_db_def
      demo_env_def demo_client_def subscribeGroup_def str_def Let_def)

theorem group_message_roundtrip_witness:
  "\<exists>M g s env t m2. CreatePrivateGroup demo_prims demo_env (Some demo_client) (str ''team'') (str ''pw'') (demo_chat_session 1) [] = (s, [], Inr g) \<and>
     UnlockPrivateGroup demo_prims demo_env (Some demo_client) (GID g) (str ''pw'') (str ''team'') (demo_chat_session 2) [] = (t, [], Inr ()) \<and>
     DecryptGroupMessage demo_prims M env t = Some m2 \<and> AmContent m2 = str ''hi''"
proof -
  obtain s g where a: "CreatePrivateGroup demo_prims demo_env (Some demo_client) (str ''team'') (str ''pw'') (demo_chat_session 1) [] = (s, [], Inr g)"
    using demo_creates by blast
  obtain t where b: "UnlockPrivateGroup demo_prims demo_env (Some demo_client) (GID g) (str ''pw'') (str ''team'') (demo_chat_session 2) [] = (t, [], Inr ())"
    using demo_unlocks by blast
  obtain key where k: "map_of (sgroups s) (GID g) = Some key" "sid s = sid (demo_chat_session 1)"
    using CreatePrivateGroup_key [OF a] by blast
  obtain env s' m where c: "SendPrivateGroup demo_prims
      (demo_msgpack (ChatPayload (GID g) (b64_encode False (EncryptGroup demo_prims [5] key (GID g) (str ''hi''))) []) [1, 2, 3])
      demo_env 7 (Some demo_client) (GID g) (str ''hi'') s [] = (s', [env], Inr m)"
    using demo_group_sends [OF k(1), of 1 "str ''hi''"] k(2) by (auto simp: demo_chat_session_def str_def)
  from group_message_roundtrip [OF demo_sizes_ok demo_aead_ok demo_msgpack_ok a b c] show ?thesis using a b by blast
qed

lemma StartDirectMessage_key:
  assumes "StartDirectMessage P ae C peer nm s w = (s', w', Inr g)"
    and "map_of (sgroups s) (dmGroupID P (session_PublicKey s) peer) = None"
  shows "GID g = dmGroupID P (session_PublicKey s) peer \<and> sid s' = sid s \<and>
    (\<exists>key. dm_key P (PrivateKey (sid s)) peer = Inr key \<and> map_of (sgroups s') (GID g) = Some key)"
proof (cases "dm_key P (PrivateKey (sid s)) peer")
  case (Inl e)
  then show ?thesis using assms by (simp add: StartDirectMessage_def)
next
  case (Inr key)
  let ?i = "dmGroupID P (session_PublicKey s) peer"
  let ?s1 = "s\<lparr>sgroups := AList.update ?i key (sgroups s)\<rparr>"
  let ?n = "if TrimSpace nm = [] then short_name peer else TrimSpace nm"
  have start: "StartDirectMessage P ae C peer nm s w =
     (case ListPrivateGroups P (ae_list ae) (ae_group_order ae) (sdb ?s1) of
        Inl e \<Rightarrow> (?s1, w, Inl (ErrAppDb e))
      | Inr existing \<Rightarrow>
          (case find (\<lambda>g. GID g = ?i) existing of
             Some g \<Rightarrow> (?s1, subscribeGroup C ?i w, Inr (g\<lparr>PeerPubkey := Some peer\<rparr>))
           | None \<Rightarrow>
               (case SavePrivateGroup P (ae_save ae) (ae_seal ae) \<lparr>GID = ?i, GName = ?n, GCreatedAt = ae_now ae, PeerPubkey = Some peer\<rparr> (sdb ?s1) of
                  (d1, Inl e) \<Rightarrow> (?s1\<lparr>sdb := d1\<rparr>, w, Inl (ErrAppDb e))
                | (d1, Inr _) \<Rightarrow> (?s1\<lparr>sdb := d1\<rparr>, subscribeGroup C ?i w,
                    Inr \<lparr>GID = ?i, GName = ?n, GCreatedAt = ae_now ae, PeerPubkey = Some peer\<rparr>))))"
    unfolding StartDirectMessage_def Let_def using assms(2) Inr by (simp only: sum.case if_False not_not simp_thms)
  have found: "GID x = i" if "find (\<lambda>g. GID g = i) gs = Some x" for x i and gs :: "PrivateGroup list"
    using that by (auto simp: find_Some_iff)
  have "GID g = ?i" "sid s' = sid s" "sgroups s' = AList.update ?i key (sgroups s)"
    using assms(1) unfolding start by (auto dest: found split: sum.splits prod.splits option.splits)
  then show ?thesis using Inr by (simp add: update_conv')
qed

text \<open>
  C21. Direct messages need no password. When two sessions open a direct conversation with each other's
  public key for the first time, both get the same group identifier and the same key, and whatever one sends
  through its daemon is decrypted by the other to the same text and sender.
\<close>

theorem direct_message_roundtrip:
  assumes "sizes_ok P" "aead_ok P" "dh_ok P" "conv_ok P" "msgpack_ok M"
    and "wf_identity P (sid s0)" "wf_identity P (sid t0)"
    and "map_of (sgroups s0) (dmGroupID P (session_PublicKey s0) (session_PublicKey t0)) = None"
    and "map_of (sgroups t0) (dmGroupID P (session_PublicKey t0) (session_PublicKey s0)) = None"
    and "StartDirectMessage P ae1 C1 (session_PublicKey t0) nm1 s0 w0 = (s, w1, Inr g)"
    and "StartDirectMessage P ae2 C2 (session_PublicKey s0) nm2 t0 v0 = (t, v1, Inr h)"
    and "SendPrivateGroup P M ae at (Some c) (GID g) content s w = (s', w', Inr m)"
  shows "GID h = GID g \<and> (\<exists>env m2. dc_send c env w = (w', True) \<and> DecryptGroupMessage P M env t = Some m2 \<and>
    AmContent m2 = content \<and> AmGroupID m2 = GID h \<and> AmSender m2 = session_PublicKey s0)"
proof -
  have pk: "session_PublicKey s0 = Public (PrivateKey (sid s0))" "session_PublicKey t0 = Public (PrivateKey (sid t0))"
    "wf_priv P (PrivateKey (sid s0))" "wf_priv P (PrivateKey (sid t0))" "length (session_PublicKey s0) = length (session_PublicKey t0)"
    using assms(6,7) by (auto simp: wf_identity_def session_PublicKey_def wf_priv_def Public_def)
  note a = StartDirectMessage_key [OF assms(10,8)] and b = StartDirectMessage_key [OF assms(11,9)]
  have "GID h = GID g" using a b dmGroupID_sym [OF pk(5)] by simp
  moreover have "dm_key P (PrivateKey (sid s0)) (session_PublicKey t0) = dm_key P (PrivateKey (sid t0)) (session_PublicKey s0)"
    unfolding pk(1,2) using assms(1,3,4) pk(3,4) by (rule dm_key_agree)
  ultimately obtain key where k: "map_of (sgroups s) (GID g) = Some key" "map_of (sgroups t) (GID g) = Some key"
    using a b by auto
  show ?thesis using sent_message_opens [OF assms(1,2,5) k assms(12)] \<open>GID h = GID g\<close> a pk(1) by metis
qed

lemma demo_direct:
  "\<exists>s g. StartDirectMessage demo_prims demo_env (Some demo_client) (session_PublicKey (demo_chat_session y)) [] (demo_chat_session x) [] = (s, [], Inr g)"
proof -
  have "length (demo_key x) = 64" "length (demo_key y) = 64" using demo_key_wf by (simp_all add: wf_priv_def)
  then obtain key where "dm_key demo_prims (demo_key x) (session_PublicKey (demo_chat_session y)) = Inr key"
    by (simp add: dm_key_def PrivateKeyToX25519_def PublicKeyToX25519_def DeriveSharedKey_def session_PublicKey_def
        demo_chat_session_def demo_prims_def Public_def Let_def)
  then show ?thesis
    by (simp add: StartDirectMessage_def SavePrivateGroup_def ListPrivateGroups_def demo_chat_session_def demo_db_def
        demo_env_def demo_client_def subscribeGroup_def Let_def)
qed

theorem direct_message_roundtrip_witness:
  "\<exists>M g h env s t m2. StartDirectMessage demo_prims demo_env (Some demo_client) (session_PublicKey (demo_chat_session 2)) [] (demo_chat_session 1) [] = (s, [], Inr g) \<and>
     StartDirectMessage demo_prims demo_env (Some demo_client) (session_PublicKey (demo_chat_session 1)) [] (demo_chat_session 2) [] = (t, [], Inr h) \<and>
     GID h = GID g \<and> DecryptGroupMessage demo_prims M env t = Some m2 \<and> AmContent m2 = str ''hi''"
proof -
  have w: "wf_identity demo_prims (sid (demo_chat_session b))" "sgroups (demo_chat_session b) = []" for b
    by (simp_all add: wf_identity_def demo_chat_session_def demo_key_wf)
  obtain s g where a: "StartDirectMessage demo_prims demo_env (Some demo_client) (session_PublicKey (demo_chat_session 2)) [] (demo_chat_session 1) [] = (s, [], Inr g)"
    using demo_direct by blast
  obtain t h where b: "StartDirectMessage demo_prims demo_env (Some demo_client) (session_PublicKey (demo_chat_session 1)) [] (demo_chat_session 2) [] = (t, [], Inr h)"
    using demo_direct by blast
  have n: "map_of (sgroups (demo_chat_session b)) i = None" for b i by (simp add: w)
  obtain key where k: "map_of (sgroups s) (GID g) = Some key" "sid s = sid (demo_chat_session 1)"
    using StartDirectMessage_key [OF a n] by blast
  obtain env s' m where c: "SendPrivateGroup demo_prims
      (demo_msgpack (ChatPayload (GID g) (b64_encode False (EncryptGroup demo_prims [5] key (GID g) (str ''hi''))) []) [1, 2, 3])
      demo_env 7 (Some demo_client) (GID g) (str ''hi'') s [] = (s', [env], Inr m)"
    using demo_group_sends [OF k(1), of 1 "str ''hi''"] k(2) by (auto simp: demo_chat_session_def str_def)
  from direct_message_roundtrip [OF demo_ok(1,3,4,5) demo_msgpack_ok w(1) w(1) n n a b c] show ?thesis using a b by blast
qed

end
