(* ===== verification/App_Embedded.thy ===== *)
theory App_Embedded
  imports App_Session Gandr_Daemon
begin

text \<open>
  \<^verbatim>\<open>internal/gandr/embedded.go\<close>: the daemon run inside the analyzer and its only client. The client is the
  daemon's event sink: what the daemon reports while it runs is handed to \<^verbatim>\<open>Push\<close> at once. Its stream of
  incoming envelopes is the list of what is buffered. Starting the overlay transport is an argument that
  says whether it succeeded; stopping the daemon's goroutines is not modelled, so \<^verbatim>\<open>Close\<close> marks the client
  as closed.
\<close>

section \<open>Starting\<close>

record EmbeddedOptions =
  SeedYggdrasilKey :: gostring
  BootstrapPeers :: "gostring list"
  EListen :: "gostring list"

record embeddedClient =
  edaemon :: Daemon
  esubs :: "bytes list"
  eincoming :: "Envelope list"
  eclosed :: bool

datatype embedded_error =
    ErrEmbLocked
  | ErrEmbDb db_error
  | ErrEmbTransport
  | ErrEmbStore store_error
  | ErrEmbTable table_error

definition embeddedUserAgent :: gostring where
  "embeddedUserAgent = str ''backflash-e2e-chatt/0.1.0''"

definition embeddedTransportSeed :: "prims \<Rightarrow> bytes \<Rightarrow> bytes" where
  "embeddedTransportSeed P priv =
     NewKeyFromSeed P (to_array 32 (hkdf_sha256 P (Seed priv) (str ''backflash-embedded-ygg-transport-v1'')))"

definition embedded_seeds :: "gostring \<Rightarrow> bytes list" where
  "embedded_seeds key =
     (if key = [] then []
      else case DecodeString key of Some k \<Rightarrow> if length k = 32 then [k] else [] | None \<Rightarrow> [])"

definition embedded_options :: "bool \<Rightarrow> EmbeddedOptions \<Rightarrow> Options" where
  "embedded_options debug eo =
     \<lparr>OUserAgent = embeddedUserAgent, OCapabilities = 0x01, ORelay = True, OMaxPeers = 32, ODefaultTrust = TrustNeutral,
      OMaxMessageAge = 604800, OMaxPayloadSize = 65535, ORateLimitRPM = 600,
      OSeeds = embedded_seeds (SeedYggdrasilKey eo), ODebug = debug\<rparr>"

text \<open>
  The two flags are the outcomes of starting the transport and of creating the object directory; \<open>objs\<close>
  holds the objects already on disk.
\<close>

definition newEmbeddedClient ::
  "bool \<Rightarrow> bool \<Rightarrow> bool \<Rightarrow> Identity \<Rightarrow> gostring \<Rightarrow> EmbeddedOptions \<Rightarrow> fs \<Rightarrow> embedded_error + embeddedClient" where
  "newEmbeddedClient transportOk storeOk debug idt dataDir eo objs =
     (if \<not> transportOk then Inl ErrEmbTransport
      else case StoreOpen (JoinPath [dataDir, str ''objects'']) storeOk of
        Inl e \<Rightarrow> Inl (ErrEmbStore e)
      | Inr st \<Rightarrow>
          (case daemon_New (embedded_options debug eo) (PrivateKey idt) st objs of
             Inl e \<Rightarrow> Inl (ErrEmbTable e)
           | Inr d \<Rightarrow> Inr \<lparr>edaemon = SetEventSink True d, esubs = [], eincoming = [], eclosed = False\<rparr>))"

definition ConnectEmbedded ::
  "prims \<Rightarrow> bool \<Rightarrow> bool \<Rightarrow> gostring option \<Rightarrow> DB \<Rightarrow> bool \<Rightarrow> bool \<Rightarrow> bool \<Rightarrow> EmbeddedOptions \<Rightarrow> fs \<Rightarrow> Subsystem \<Rightarrow>
     embedded_error + ChatSession \<times> embeddedClient" where
  "ConnectEmbedded P openOk schemaOk altErr stored transportOk storeOk debug eo objs v =
     (case videntity v of
        None \<Rightarrow> Inl ErrEmbLocked
      | Some idt \<Rightarrow>
          (case db_Open P openOk schemaOk altErr stored (PrivateKey idt) of
             Inl e \<Rightarrow> Inl (ErrEmbDb e)
           | Inr d \<Rightarrow>
               (case newEmbeddedClient transportOk storeOk debug idt (Dir (vpath v)) eo objs of
                  Inl e \<Rightarrow> Inl e
                | Inr c \<Rightarrow> Inr (\<lparr>sdb = d, sid = idt, sgroups = []\<rparr>, c))))"

section \<open>The client\<close>

definition embedded_wants :: "msgpack \<Rightarrow> Envelope \<Rightarrow> embeddedClient \<Rightarrow> bool" where
  "embedded_wants M env e =
     (if Type env \<noteq> MsgChat then True
      else case chat_channel (DecodePayload M (Payload env) (ChatPayload (zero_array 32) [] [])) of
        None \<Rightarrow> False
      | Some ch \<Rightarrow> if ch = zero_array 32 then True else ch \<in> set (esubs e))"

definition embedded_Push :: "msgpack \<Rightarrow> Envelope \<Rightarrow> embeddedClient \<Rightarrow> embeddedClient" where
  "embedded_Push M env e =
     (if \<not> embedded_wants M env e then e else e\<lparr>eincoming := offer 32 env (eincoming e)\<rparr>)"

text \<open>\<^verbatim>\<open>Delivered\<close> and \<^verbatim>\<open>PushPeerUpdate\<close> do nothing.\<close>

fun embedded_sink :: "msgpack \<Rightarrow> embeddedClient \<Rightarrow> sink_call \<Rightarrow> embeddedClient" where
  "embedded_sink M e (SinkPush env) = embedded_Push M env e"
| "embedded_sink M e (SinkDelivered env) = e"
| "embedded_sink M e (SinkPeerUpdate ps) = e"

text \<open>A call of the daemon, with what it reports on the way.\<close>

definition in_daemon :: "msgpack \<Rightarrow> (Daemon \<Rightarrow> Daemon \<times> 'r) \<Rightarrow> embeddedClient \<Rightarrow> embeddedClient \<times> 'r" where
  "in_daemon M f e =
     (case f ((edaemon e)\<lparr>sunk := []\<rparr>) of
        (d, r) \<Rightarrow> (foldl (embedded_sink M) (e\<lparr>edaemon := d\<lparr>sunk := []\<rparr>\<rparr>) (sunk d), r))"

definition embedded_Subscribe :: "bytes \<Rightarrow> embeddedClient \<Rightarrow> embeddedClient \<times> bool" where
  "embedded_Subscribe ch e = (e\<lparr>esubs := List.insert ch (esubs e)\<rparr>, True)"

definition embedded_Unsubscribe :: "bytes \<Rightarrow> embeddedClient \<Rightarrow> embeddedClient \<times> bool" where
  "embedded_Unsubscribe ch e = (e\<lparr>esubs := removeAll ch (esubs e)\<rparr>, True)"

definition embedded_Send :: "prims \<Rightarrow> msgpack \<Rightarrow> world \<Rightarrow> Envelope \<Rightarrow> embeddedClient \<Rightarrow> embeddedClient \<times> bool" where
  "embedded_Send P M w env e =
     (case in_daemon M (HandleSend P M w env) e of (e1, r) \<Rightarrow> (e1, case r of Inl _ \<Rightarrow> False | Inr _ \<Rightarrow> True))"

definition embedded_Connect :: "msgpack \<Rightarrow> bytes \<Rightarrow> embeddedClient \<Rightarrow> embeddedClient \<times> bool" where
  "embedded_Connect M key e =
     (case in_daemon M (HandleConnect key) e of (e1, r) \<Rightarrow> (e1, case r of Inl _ \<Rightarrow> False | Inr _ \<Rightarrow> True))"

definition embedded_PeerList :: "(bytes \<Rightarrow> bytes option) \<Rightarrow> embeddedClient \<Rightarrow> PeerInfo list" where
  "embedded_PeerList A e = HandlePeerList A (edaemon e)"

definition embedded_Close :: "embeddedClient \<Rightarrow> embeddedClient" where
  "embedded_Close e = e\<lparr>eclosed := True\<rparr>"

text \<open>The implementation of the interface, and an event of the daemon's loops.\<close>

definition embedded_client :: "prims \<Rightarrow> msgpack \<Rightarrow> (bytes \<Rightarrow> bytes option) \<Rightarrow> world \<Rightarrow> embeddedClient daemonClient" where
  "embedded_client P M A w =
     \<lparr>dc_subscribe = embedded_Subscribe, dc_unsubscribe = embedded_Unsubscribe,
      dc_send = embedded_Send P M w, dc_connect = embedded_Connect M,
      dc_peers = (\<lambda>e. Some (embedded_PeerList A e))\<rparr>"

definition embedded_event ::
  "prims \<Rightarrow> msgpack \<Rightarrow> (bytes \<Rightarrow> bytes option) \<Rightarrow> daemon_op \<Rightarrow> embeddedClient \<Rightarrow> embeddedClient" where
  "embedded_event P M A op e = fst (in_daemon M (\<lambda>d. (daemon_step P M A d op, ())) e)"

lemma embedded_sink_frame [simp]:
  "edaemon (embedded_sink M e c) = edaemon e" "esubs (embedded_sink M e c) = esubs e" "eclosed (embedded_sink M e c) = eclosed e"
  by (cases c; simp add: embedded_Push_def)+

lemma embedded_sinks_frame [simp]:
  "edaemon (foldl (embedded_sink M) e cs) = edaemon e" "esubs (foldl (embedded_sink M) e cs) = esubs e"
  "eclosed (foldl (embedded_sink M) e cs) = eclosed e"
  by (induction cs arbitrary: e) simp_all

lemma in_daemon_frame:
  assumes "in_daemon M f e = (e', r)"
  shows "esubs e' = esubs e" "edaemon e' = (fst (f ((edaemon e)\<lparr>sunk := []\<rparr>)))\<lparr>sunk := []\<rparr>" "r = snd (f ((edaemon e)\<lparr>sunk := []\<rparr>))"
  using assms by (auto simp: in_daemon_def split: prod.splits)

section \<open>What sessions rely on of a client\<close>

text \<open>
  The contract of \<^verbatim>\<open>daemonClient\<close> about subscriptions: subscribing and unsubscribing change exactly the
  channel named, sending and connecting change none.
\<close>

locale daemon_client =
  fixes C :: "'w daemonClient" and subscribed :: "'w \<Rightarrow> bytes set"
  assumes subscribe: "dc_subscribe C i w = (w', True) \<Longrightarrow> subscribed w' = insert i (subscribed w)"
    and subscribe_keeps: "dc_subscribe C i w = (w', ok) \<Longrightarrow> subscribed w \<subseteq> subscribed w'"
    and unsubscribe: "dc_unsubscribe C i w = (w', True) \<Longrightarrow> subscribed w' = subscribed w - {i}"
    and sent: "dc_send C env w = (w', ok) \<Longrightarrow> subscribed w' = subscribed w"
    and connected: "dc_connect C key w = (w', ok) \<Longrightarrow> subscribed w' = subscribed w"
begin

lemma AppSubscribe_subscribes:
  "AppSubscribe (Some C) i w = (w', Inr ()) \<Longrightarrow> subscribed w' = insert i (subscribed w)"
  using subscribe by (auto simp: AppSubscribe_def split: prod.splits if_splits)

lemma subscribe_all_subscribes:
  "subscribe_all (Some C) is w = (w', Inr ()) \<Longrightarrow> subscribed w' = set is \<union> subscribed w"
proof (induction "is" arbitrary: w)
  case (Cons i r)
  then obtain w1 where s: "AppSubscribe (Some C) i w = (w1, Inr ())" "subscribe_all (Some C) r w1 = (w', Inr ())"
    by (auto split: prod.splits sum.splits)
  then show ?case using Cons.IH [OF s(2)] AppSubscribe_subscribes [OF s(1)] by auto
qed simp

lemma JoinNamed_subscribes:
  assumes "JoinNamed P ae (Some C) name s w = (s', w', Inr chs)"
  shows "subscribed w' = insert (ChannelID P name) (subscribed w)"
  using assms AppSubscribe_subscribes by (auto simp: JoinNamed_def Let_def split: prod.splits sum.splits)

lemma join_all_subscribes:
  "join_all P (Some C) jobs s w = (s', w', Inr ()) \<Longrightarrow> subscribed w' = ChannelID P ` snd ` set jobs \<union> subscribed w"
proof (induction jobs arbitrary: s w)
  case (Cons j r)
  obtain ae name where j: "j = (ae, name)" by (cases j)
  obtain s1 w1 chs where s: "JoinNamed P ae (Some C) name s w = (s1, w1, Inr chs)" "join_all P (Some C) r s1 w1 = (s', w', Inr ())"
    using Cons.prems unfolding j by (auto split: prod.splits sum.splits)
  then show ?case using Cons.IH [OF s(2)] JoinNamed_subscribes [OF s(1)] j by auto
qed simp

lemma ensured_channels:
  assumes "EnsureDefaultChannels P ae aes (Some C) s w = (s', w', Inr chs)" "length aes = length DefaultChannels"
  shows "(\<exists>known. ListAppChannels P ae s = Inr known \<and> (known \<noteq> [] \<longrightarrow> s' = s \<and> chs = known \<and> AcID ` set chs \<subseteq> subscribed w') \<and>
    (known = [] \<longrightarrow> ChannelID P ` set DefaultChannels \<subseteq> subscribed w' \<and> ListAppChannels P ae s' = Inr chs))"
proof -
  obtain known where k: "ListAppChannels P ae s = Inr known"
    using assms(1) by (auto simp: EnsureDefaultChannels_def split: sum.splits)
  have z: "snd ` set (zip aes DefaultChannels) = set DefaultChannels" using assms(2) by (metis map_snd_zip set_map)
  show ?thesis
  proof (cases "known = []")
    case True
    then show ?thesis using assms(1) k join_all_subscribes [of P "zip aes DefaultChannels" s w] z
      by (auto simp: EnsureDefaultChannels_def split: prod.splits sum.splits)
  next
    case False
    then show ?thesis using assms(1) k subscribe_all_subscribes [of "map AcID known" w]
      by (auto simp: EnsureDefaultChannels_def split: prod.splits sum.splits)
  qed
qed

end

lemma set_removeAll_eq: "set (removeAll x xs) = set xs - {x}"
  by auto

interpretation embedded: daemon_client "embedded_client P M A w" "\<lambda>e. set (esubs e)" for P M A w
  by unfold_locales
    (auto simp: embedded_client_def embedded_Subscribe_def embedded_Unsubscribe_def embedded_Send_def embedded_Connect_def
      dest!: in_daemon_frame(1) split: prod.splits)

text \<open>
  A restarted session hears its channels. When \<^verbatim>\<open>EnsureDefaultChannels\<close> succeeds on an embedded client, every
  channel it returns from the local database is subscribed, however few subscriptions the client started
  with; when the database knew no channel, the default channels are joined and subscribed.
\<close>

theorem default_channels_subscribed:
  assumes "EnsureDefaultChannels P ae aes (Some (embedded_client P M A w)) s e = (s', e', Inr chs)" "length aes = length DefaultChannels"
  shows "\<exists>known. ListAppChannels P ae s = Inr known \<and>
    (known \<noteq> [] \<longrightarrow> s' = s \<and> chs = known \<and> AcID ` set chs \<subseteq> set (esubs e')) \<and>
    (known = [] \<longrightarrow> ChannelID P ` set DefaultChannels \<subseteq> set (esubs e') \<and> ListAppChannels P ae s' = Inr chs)"
  using embedded.ensured_channels [OF assms] .

definition demo_embedded :: "Daemon \<Rightarrow> bytes list \<Rightarrow> embeddedClient" where
  "demo_embedded d chs = \<lparr>edaemon = d, esubs = chs, eincoming = [], eclosed = False\<rparr>"

lemma demo_ensures:
  "\<exists>s e chs. EnsureDefaultChannels demo_prims demo_env (replicate 4 demo_env) (Some (embedded_client demo_prims demo_chat_pack (\<lambda>_. None) demo_world))
     (demo_chat_session 1) (demo_embedded (demo_daemon []) []) = (s, e, Inr chs)"
proof -
  have "case EnsureDefaultChannels demo_prims demo_env (replicate 4 demo_env) (Some (embedded_client demo_prims demo_chat_pack (\<lambda>_. None) demo_world))
     (demo_chat_session 1) (demo_embedded (demo_daemon []) []) of (s, e, r) \<Rightarrow> (case r of Inr chs \<Rightarrow> length chs = 4 | _ \<Rightarrow> False)"
    by code_simp
  then show ?thesis by (auto split: prod.splits sum.splits)
qed

theorem default_channels_subscribed_witness:
  "\<exists>s e chs. EnsureDefaultChannels demo_prims demo_env (replicate 4 demo_env) (Some (embedded_client demo_prims demo_chat_pack (\<lambda>_. None) demo_world))
     (demo_chat_session 1) (demo_embedded (demo_daemon []) []) = (s, e, Inr chs) \<and>
     ChannelID demo_prims (str ''general'') \<in> set (esubs e)"
proof -
  obtain s e chs where r: "EnsureDefaultChannels demo_prims demo_env (replicate 4 demo_env)
      (Some (embedded_client demo_prims demo_chat_pack (\<lambda>_. None) demo_world)) (demo_chat_session 1) (demo_embedded (demo_daemon []) []) = (s, e, Inr chs)"
    using demo_ensures by blast
  have k: "ListAppChannels demo_prims demo_env (demo_chat_session 1) = Inr []"
    by (simp add: ListAppChannels_def ListChannels_def demo_env_def demo_chat_session_def demo_db_def)
  have "length (replicate 4 demo_env) = length DefaultChannels" by (simp add: DefaultChannels_def)
  from default_channels_subscribed [OF r this] k show ?thesis using r by (auto simp: DefaultChannels_def)
qed

section \<open>The embedded client and the socket\<close>

text \<open>What a front end sees of a daemon: its own requests about channels, and the daemon's reports.\<close>

datatype front_op = FrSub bytes | FrUnsub bytes | FrReport sink_call

fun embedded_front :: "msgpack \<Rightarrow> embeddedClient \<Rightarrow> front_op \<Rightarrow> embeddedClient" where
  "embedded_front M e (FrSub ch) = fst (embedded_Subscribe ch e)"
| "embedded_front M e (FrUnsub ch) = fst (embedded_Unsubscribe ch e)"
| "embedded_front M e (FrReport call) = embedded_sink M e call"

text \<open>The same through connection \<open>i\<close> of the server, each request under identifier \<open>q\<close>.\<close>

fun socket_front :: "prims \<Rightarrow> msgpack \<Rightarrow> ipc_pack \<Rightarrow> 's Handler \<Rightarrow> 's \<Rightarrow> nat \<Rightarrow> 32 word \<Rightarrow> Server \<Rightarrow> front_op \<Rightarrow> Server" where
  "socket_front P M K h st i q s (FrSub ch) = fst (dispatch P M K h i (sub_frame True q ch) s st)"
| "socket_front P M K h st i q s (FrUnsub ch) = fst (dispatch P M K h i (sub_frame False q ch) s st)"
| "socket_front P M K h st i q s (FrReport call) = sink_step M K s call"

fun front_ok :: "prims \<Rightarrow> front_op \<Rightarrow> bool" where
  "front_ok P (FrSub ch) = (length ch = 32)"
| "front_ok P (FrUnsub ch) = (length ch = 32)"
| "front_ok P (FrReport (SinkPush env)) = acceptable P env"
| "front_ok P (FrReport call) = True"

definition incoming_frame :: "Envelope \<Rightarrow> Frame" where
  "incoming_frame env = \<lparr>FType = IPCIncoming, RequestID = 0, FPayload = Encode env\<rparr>"

definition incoming_frames :: "Frame list \<Rightarrow> Frame list" where
  "incoming_frames fs = filter (\<lambda>f. FType f = IPCIncoming) fs"

lemma incoming_frames_simps [simp]:
  "incoming_frames [] = []" "incoming_frames (fs @ gs) = incoming_frames fs @ incoming_frames gs"
  "incoming_frames [incoming_frame env] = [incoming_frame env]"
  "incoming_frames [f] = (if FType f = IPCIncoming then [f] else [])"
  by (simp_all add: incoming_frames_def incoming_frame_def)

lemma wants_mirror: "set (subs sc) = set (esubs e) \<Longrightarrow> wants M env sc = embedded_wants M env e"
  by (simp add: wants_def embedded_wants_def split: option.split)

lemma front_step:
  assumes "map_of (sconns s) i = Some sc" "room (sc_conn sc) = None" "set (subs sc) = set (esubs e)" "front_ok P op"
  shows "\<exists>sc' fs new. map_of (sconns (socket_front P M K h st i q s op)) i = Some sc' \<and> room (sc_conn sc') = None \<and>
    set (subs sc') = set (esubs (embedded_front M e op)) \<and> sent (sc_conn sc') = sent (sc_conn sc) @ wire fs \<and>
    incoming_frames fs = map incoming_frame new \<and> eincoming (embedded_front M e op) = foldl (\<lambda>buf x. offer 32 x buf) (eincoming e) new"
  (is "\<exists>sc' fs new. ?Q op sc' fs new")
proof -
  have sub: "?Q (if on then FrSub ch else FrUnsub ch)
      (extended [\<lparr>FType = if on then IPCSubscribe else IPCUnsubscribe, RequestID = q, FPayload = []\<rparr>]
        (sc\<lparr>subs := if on then List.insert ch (subs sc) else removeAll ch (subs sc)\<rparr>))
      [\<lparr>FType = if on then IPCSubscribe else IPCUnsubscribe, RequestID = q, FPayload = []\<rparr>] []" if "length ch = 32" for on ch
    using dispatch_sub_frame [OF assms(1) that assms(2), of P M K h on q st] assms(2,3)
    by (cases on) (simp_all add: embedded_Subscribe_def embedded_Unsubscribe_def extended_def)
  have report: "?Q (FrReport call) (sc_reply f sc) (if frame_ok f then [f] else []) []"
    if "map_of (sconns (sink_step M K s call)) i = Some (sc_reply f sc)" "FType f \<noteq> IPCIncoming" "embedded_sink M e call = e" for call f
    using that assms(2,3) by (auto simp: sc_reply_open extended_def)
  have quiet: "?Q (FrReport call) sc [] []"
    if "map_of (sconns (sink_step M K s call)) i = Some sc" "embedded_sink M e call = e" for call
    using that assms(2,3) by simp
  show ?thesis
  proof (cases op)
    case (FrSub ch)
    then show ?thesis using sub [of ch True] assms(4) by (simp only: if_True front_ok.simps) blast
  next
    case (FrUnsub ch)
    then show ?thesis using sub [of ch False] assms(4) by (simp only: if_False front_ok.simps) blast
  next
    case (FrReport call)
    then show ?thesis
    proof (cases call)
      case (SinkPush env)
      have f: "frame_ok (incoming_frame env)" using assms(4) FrReport SinkPush
        by (simp add: frame_ok_def incoming_frame_def acceptable_def length_Encode)
      show ?thesis
      proof (cases "embedded_wants M env e")
        case True
        then have "?Q op (sc_reply (incoming_frame env) sc) [incoming_frame env] [env]"
          using FrReport SinkPush f assms(1-3) wants_mirror [OF assms(3), of M env]
          by (simp add: server_Push_def map_of_broadcast sc_reply_open extended_def embedded_Push_def incoming_frame_def)
        then show ?thesis by blast
      next
        case False
        then have "map_of (sconns (sink_step M K s call)) i = Some sc" "embedded_sink M e call = e"
          using SinkPush assms(1) wants_mirror [OF assms(3), of M env]
          by (simp_all add: server_Push_def map_of_broadcast embedded_Push_def)
        from quiet [OF this] show ?thesis unfolding FrReport by blast
      qed
    next
      case (SinkDelivered env)
      then have *: "map_of (sconns (sink_step M K s call)) i = Some (sc_reply \<lparr>FType = IPCDelivered, RequestID = 0, FPayload = Encode env\<rparr> sc)"
        "embedded_sink M e call = e"
        using assms(1) by (simp_all add: server_Delivered_def map_of_broadcast)
      have other: "FType \<lparr>FType = IPCDelivered, RequestID = 0, FPayload = Encode env\<rparr> \<noteq> IPCIncoming" by simp
      from report [OF *(1) other *(2)] show ?thesis unfolding FrReport by blast
    next
      case (SinkPeerUpdate ps)
      show ?thesis
      proof (cases "MarshalPeers K ps")
        case None
        then have "map_of (sconns (sink_step M K s call)) i = Some sc" "embedded_sink M e call = e"
          using SinkPeerUpdate assms(1) by (simp_all add: map_of_PushPeerUpdate)
        from quiet [OF this] show ?thesis unfolding FrReport by blast
      next
        case (Some b)
        then have *: "map_of (sconns (sink_step M K s call)) i = Some (sc_reply \<lparr>FType = IPCPeerUpdate, RequestID = 0, FPayload = b\<rparr> sc)"
          "embedded_sink M e call = e"
          using SinkPeerUpdate assms(1) by (simp_all add: map_of_PushPeerUpdate)
        have other: "FType \<lparr>FType = IPCPeerUpdate, RequestID = 0, FPayload = b\<rparr> \<noteq> IPCIncoming" by simp
        from report [OF *(1) other *(2)] show ?thesis unfolding FrReport by blast
      qed
    qed
  qed
qed

lemma front_run:
  assumes "map_of (sconns s) i = Some sc" "room (sc_conn sc) = None" "set (subs sc) = set (esubs e)" "list_all (front_ok P) ops"
  shows "\<exists>sc' fs new. map_of (sconns (foldl (socket_front P M K h st i q) s ops)) i = Some sc' \<and> room (sc_conn sc') = None \<and>
    set (subs sc') = set (esubs (foldl (embedded_front M) e ops)) \<and> sent (sc_conn sc') = sent (sc_conn sc) @ wire fs \<and>
    incoming_frames fs = map incoming_frame new \<and>
    eincoming (foldl (embedded_front M) e ops) = foldl (\<lambda>buf x. offer 32 x buf) (eincoming e) new"
  using assms
proof (induction ops arbitrary: s sc e)
  case Nil
  then show ?case by (intro exI [of _ sc] exI [of _ "[]"]) simp
next
  case (Cons op ops)
  obtain sc1 fs1 new1 where a: "map_of (sconns (socket_front P M K h st i q s op)) i = Some sc1" "room (sc_conn sc1) = None"
    "set (subs sc1) = set (esubs (embedded_front M e op))" "sent (sc_conn sc1) = sent (sc_conn sc) @ wire fs1"
    "incoming_frames fs1 = map incoming_frame new1" "eincoming (embedded_front M e op) = foldl (\<lambda>buf x. offer 32 x buf) (eincoming e) new1"
    using front_step [OF Cons.prems(1-3), of P op M K h st q] Cons.prems(4) by auto
  have "list_all (front_ok P) ops" using Cons.prems(4) by simp
  from Cons.IH [OF a(1-3) this] obtain sc' fs new where
    b: "map_of (sconns (foldl (socket_front P M K h st i q) (socket_front P M K h st i q s op) ops)) i = Some sc'"
    "room (sc_conn sc') = None" "set (subs sc') = set (esubs (foldl (embedded_front M) (embedded_front M e op) ops))"
    "sent (sc_conn sc') = sent (sc_conn sc1) @ wire fs" "incoming_frames fs = map incoming_frame new"
    "eincoming (foldl (embedded_front M) (embedded_front M e op) ops) = foldl (\<lambda>buf x. offer 32 x buf) (eincoming (embedded_front M e op)) new"
    by blast
  show ?case using b a(4-6) by (intro exI [of _ sc'] exI [of _ "fs1 @ fs"] exI [of _ "new1 @ new"]) simp
qed

lemma offers_take: "length buf \<le> n \<Longrightarrow> foldl (\<lambda>buf x. offer n x buf) buf new = take n (buf @ new)"
proof (induction new arbitrary: buf)
  case (Cons x new)
  show ?case
  proof (cases "length buf < n")
    case True
    then show ?thesis using Cons.IH [of "buf @ [x]"] by (simp add: offer_def)
  next
    case False
    then show ?thesis using Cons by (simp add: offer_def)
  qed
qed simp

text \<open>
  An embedded client sees what a socket client sees. Start an embedded client and a connection of the
  socket server with the same subscriptions; after any sequence of channel requests and reports of the
  daemon both have the same subscriptions, and the incoming envelopes written to the socket are, in order,
  those offered to the embedded client's buffer, which keeps the first thirty-two.
\<close>

theorem embedded_mirrors_socket:
  assumes "map_of (sconns s) i = Some sc" "room (sc_conn sc) = None" "set (subs sc) = set (esubs e)"
    and "list_all (front_ok P) ops" "length (eincoming e) \<le> 32"
  shows "\<exists>sc' fs new. map_of (sconns (foldl (socket_front P M K h st i q) s ops)) i = Some sc' \<and>
    set (subs sc') = set (esubs (foldl (embedded_front M) e ops)) \<and> sent (sc_conn sc') = sent (sc_conn sc) @ wire fs \<and>
    incoming_frames fs = map incoming_frame new \<and>
    eincoming (foldl (embedded_front M) e ops) = take 32 (eincoming e @ new)"
  using front_run [OF assms(1-4), of M K h st q] offers_take [OF assms(5)] by metis

theorem embedded_mirrors_socket_witness:
  "\<exists>env h sc' fs new. Type env = MsgChat \<and>
     map_of (sconns (foldl (socket_front demo_prims demo_chat_pack demo_ipc_pack (h :: unit Handler) () 4 6)
       \<lparr>sconns = [(4, \<lparr>sc_conn = \<lparr>sent = [], room = None\<rparr>, subs = []\<rparr>)], srv_done = False\<rparr>
       [FrSub (replicate 32 1), FrReport (SinkPush env)])) 4 = Some sc' \<and> sent (sc_conn sc') = wire fs \<and>
     incoming_frames fs = map incoming_frame new \<and>
     eincoming (foldl (embedded_front demo_chat_pack) (demo_embedded (demo_daemon []) []) [FrSub (replicate 32 1), FrReport (SinkPush env)]) = take 32 new"
proof -
  obtain env where e: "acceptable demo_prims env" "Type env = MsgChat" by (rule demo_chat)
  let ?s = "\<lparr>sconns = [(4, \<lparr>sc_conn = \<lparr>sent = [], room = None\<rparr>, subs = []\<rparr>)], srv_done = False\<rparr>"
  let ?e = "demo_embedded (demo_daemon []) []"
  have h: "map_of (sconns ?s) 4 = Some \<lparr>sc_conn = \<lparr>sent = [], room = None\<rparr>, subs = []\<rparr>"
    "room (sc_conn \<lparr>sc_conn = \<lparr>sent = [], room = None\<rparr>, subs = []\<rparr>) = None"
    "set (subs \<lparr>sc_conn = \<lparr>sent = [], room = None\<rparr>, subs = []\<rparr>) = set (esubs ?e)"
    "list_all (front_ok demo_prims) [FrSub (replicate 32 1), FrReport (SinkPush env)]" "length (eincoming ?e) \<le> 32"
    using e by (simp_all add: demo_embedded_def)
  from embedded_mirrors_socket [OF h, where M = demo_chat_pack and K = demo_ipc_pack and st = "()" and q = 6] e(2) show ?thesis
    by (simp only: demo_embedded_def embeddedClient.select_convs serverConn.select_convs append_Nil) (simp, blast)
qed

section \<open>From one analyzer to another\<close>

lemma relayed_to:
  assumes "HandleSend P M w env d = (d', Inr ())" "Type env = MsgChat" "ORelay (opts d)"
    and "p \<in> set (table_List (table d))" "PSession p = Some n" "\<not> Trust p < TrustNeutral"
  shows "(n, env) \<in> set (relayed d')"
proof -
  have "relay_target None p = Some n" using assms(5,6) by (simp add: relay_target_def)
  then have "n \<in> set (List.map_filter (relay_target None) (table_List (table d)))"
    using assms(4) by (force simp: map_filter_def)
  moreover have "storable (Type env)" "Type env \<noteq> MsgProfile" using assms(2) by (simp_all add: storable_def)
  ultimately show ?thesis using assms(1,3) by (auto simp: HandleSend_def relay_def split: sum.splits prod.splits if_splits)
qed

lemma embedded_Send_relays:
  assumes "dc_send (embedded_client P M A w) env a = (a', True)" "Type env = MsgChat" "ORelay (opts (edaemon a))"
    and "p \<in> set (table_List (table (edaemon a)))" "PSession p = Some n" "\<not> Trust p < TrustNeutral"
  shows "(n, env) \<in> set (relayed (edaemon a'))"
proof -
  obtain r where r: "in_daemon M (HandleSend P M w env) a = (a', r)" "r = Inr ()"
    using assms(1) by (auto simp: embedded_client_def embedded_Send_def split: prod.splits sum.splits)
  note f = in_daemon_frame [OF r(1)]
  let ?d = "(edaemon a)\<lparr>sunk := []\<rparr>"
  have "HandleSend P M w env ?d = (fst (HandleSend P M w env ?d), Inr ())" using f(3) r(2) by (metis prod.collapse)
  from relayed_to [OF this assms(2)] show ?thesis using assms(3-6) f(2) by simp
qed

lemma daemon_inv_sunk [simp]: "daemon_inv P (d\<lparr>sunk := x\<rparr>) = daemon_inv P d"
  by (simp add: daemon_inv_def)

lemma allowRate_sunk: "snd (allowRate now pid (d\<lparr>sunk := x\<rparr>)) = snd (allowRate now pid d)"
  by (simp add: allowRate_def Let_def split: option.split)

lemma embedded_wants_daemon [simp]: "embedded_wants M env (e\<lparr>edaemon := d\<rparr>) = embedded_wants M env e"
  unfolding embedded_wants_def by (simp split: option.split)

lemma embedded_receives:
  assumes "daemon_inv P (edaemon b)" "acceptable P env" "Type env = MsgChat" "session_open P sb frame = Some env"
    and "lookup P (dobjects (edaemon b)) (disk (edaemon b)) (ContentID P env) = None"
    and "ValidateTimestamp (Timestamp env) (w_check wb) = Inr ()" "length (Payload env) \<le> unat (OMaxPayloadSize (opts (edaemon b)))"
    and "snd (allowRate (w_rate wb) (PeerIdentity sb) (edaemon b))" "validatePayload M env" "w_put wb = PutOk"
    and "sink (edaemon b)" "embedded_wants M env b" "length (eincoming b) < 32"
  shows "eincoming (embedded_event P M A (DFrame wb sb frame) b) = eincoming b @ [env]"
proof -
  let ?d = "(edaemon b)\<lparr>sunk := []\<rparr>"
  have "sunk (handleEnvelope P M wb env sb ?d) = [SinkPush env]"
    using content_spreads [of P ?d env wb sb M] assms allowRate_sunk [of "w_rate wb" "PeerIdentity sb" "[]" "edaemon b"]
    by (simp add: Let_def storable_def)
  then show ?thesis using assms(4,12,13)
    by (simp add: embedded_event_def in_daemon_def embedded_Push_def offer_def)
qed

text \<open>
  C5. From one analyzer to another. A session sends a message to a channel through its embedded daemon, which
  relays. Then the daemon hands one envelope to the session of every peer with a live session and at
  least neutral trust; and when the frame of that session arrives at the peer's analyzer, which is
  subscribed to the channel, within its limits and has not seen the envelope, the envelope enters its
  stream and decodes to the text, channel and sender that were sent.
\<close>

theorem message_reaches_reader:
  assumes "sizes_ok P" "sign_ok P" "aead_ok P" "msgpack_ok M" "wf_identity P (sid s)" "length i = 32"
    and send: "SendChannel P M ae (Some (embedded_client P M A w)) i content s a = (s', a', Inr ())"
    and peer: "ORelay (opts (edaemon a))" "p \<in> set (table_List (table (edaemon a)))" "PSession p = Some n" "\<not> Trust p < TrustNeutral"
    and link: "skey sb = skey sa" "recvAAD sb = sendAAD sa"
    and reader: "daemon_inv P (edaemon b)" "sink (edaemon b)" "i \<in> set (esubs b)" "length (eincoming b) < 32"
    and limits: "ValidateTimestamp (ae_now ae) (w_check wb) = Inr ()" "MaxPayloadSize \<le> unat (OMaxPayloadSize (opts (edaemon b)))"
      "snd (allowRate (w_rate wb) (PeerIdentity sb) (edaemon b))" "w_put wb = PutOk"
  shows "\<exists>env m. (n, env) \<in> set (relayed (edaemon a')) \<and> DecodeChat P M env = Inr m \<and>
    CmContent m = content \<and> CmChannelID m = i \<and> CmSender m = Public (PrivateKey (sid s)) \<and>
    (lookup P (dobjects (edaemon b)) (disk (edaemon b)) (ContentID P env) = None \<longrightarrow>
       eincoming (embedded_event P M A (DFrame wb sb (session_frame P rnd sa env)) b) = eincoming b @ [env])"
proof -
  obtain payload env where e: "EncodePayload M (ChatPayload i content []) = Inr payload"
    "NewEnvelope P (ae_now ae) (PrivateKey (sid s)) MsgChat i payload = Inr env" "dc_send (embedded_client P M A w) env a = (a', True)"
    using SendChannel_Inr [OF send] by blast
  note f = NewEnvelope_fields [OF e(2)] and dec = chat_payload_decodes [OF assms(4) e(1)]
  have acc: "acceptable P env" using assms(1,2,5,6) e(2) by (intro NewEnvelope_acceptable) (auto simp: wf_identity_def)
  have d: "DecodeChat P M env = Inr \<lparr>CmHash = ContentID P env, CmChannelID = i, CmSender = Sender env, CmContent = content,
      CmAt = Timestamp env, CmLocal = False\<rparr>"
    using dec f by (simp add: DecodeChat_def)
  have w: "embedded_wants M env b" "validatePayload M env"
    using dec f reader(3) by (simp_all add: embedded_wants_def validatePayload_def chat_channel_def NewPayload_def)
  have "length (Payload env) \<le> MaxPayloadSize" using NewEnvelope_Inr [OF e(2)] f by simp
  then have len: "length (Payload env) \<le> unat (OMaxPayloadSize (opts (edaemon b)))" using limits(2) by simp
  have "eincoming (embedded_event P M A (DFrame wb sb (session_frame P rnd sa env)) b) = eincoming b @ [env]"
    if new: "lookup P (dobjects (edaemon b)) (disk (edaemon b)) (ContentID P env) = None"
    using embedded_receives [OF reader(1) acc f(1) session_open_frame [OF assms(1,3) acc link] new _ len limits(3) w(2) limits(4) reader(2) w(1) reader(4)]
      limits(1) f(2) by simp
  moreover have "(n, env) \<in> set (relayed (edaemon a'))" using embedded_Send_relays [OF e(3) f(1) peer] .
  ultimately show ?thesis using d f(3) by (intro exI conjI) (assumption, assumption, simp_all)
qed

lemma demo_message:
  "\<exists>s' a'. SendChannel demo_prims demo_chat_pack demo_env (Some (embedded_client demo_prims demo_chat_pack (\<lambda>_. None) demo_world)) (replicate 32 1) []
     (demo_chat_session 3) (demo_embedded demo_node []) = (s', a', Inr ())"
proof -
  obtain env where e: "NewEnvelope demo_prims 7 (demo_key 3) MsgChat (replicate 32 1) [1, 2, 3] = Inr env" using demo_sends by blast
  have env: "Type env = MsgChat" "Timestamp env = 7" "Payload env = [1, 2, 3]" using NewEnvelope_fields [OF e] by simp_all
  have p: "EncodePayload demo_chat_pack (ChatPayload (replicate 32 1) [] []) = Inr [1, 2, 3]"
    unfolding demo_chat_pack_def by (rule demo_encodes) (simp add: Validate_limits text_ok_def)
  have h: "snd (HandleSend demo_prims demo_chat_pack demo_world env d) = Inr ()" if "disk d = []" for d
  proof -
    have "validatePayload demo_chat_pack env"
      by (simp add: validatePayload_def demo_chat_pack_def demo_msgpack_def NewPayload_def DecodePayload_def and_then_def
          validateString_def validateHash_def env)
    moreover have "ValidateTimestamp (Timestamp env) (w_check demo_world) = Inr ()"
      by (simp add: env ValidateTimestamp_window demo_world_def unix_nano_def)
    moreover have "snd (snd (Put demo_prims (dobjects d) (w_tmp demo_world) (w_put demo_world) env (disk d))) = Inr False"
      by (simp add: Put_result that Stat_def demo_world_def)
    ultimately show ?thesis using env by (auto simp: HandleSend_def storable_def split: prod.splits)
  qed
  have "disk ((edaemon (demo_embedded demo_node []))\<lparr>sunk := []\<rparr>) = []" by (simp add: demo_embedded_def demo_node_def demo_daemon_def)
  from h [OF this] obtain a' where "dc_send (embedded_client demo_prims demo_chat_pack (\<lambda>_. None) demo_world) env (demo_embedded demo_node []) = (a', True)"
    by (cases "HandleSend demo_prims demo_chat_pack demo_world env ((edaemon (demo_embedded demo_node []))\<lparr>sunk := []\<rparr>)")
      (auto simp: embedded_client_def embedded_Send_def in_daemon_def)
  then show ?thesis using e unfolding SendChannel_def p sum.case
    by (simp add: demo_env_def demo_chat_session_def client_send_def SaveMessage_def SaveChatMessage_def)
qed

theorem message_reaches_reader_witness:
  "\<exists>env m. DecodeChat demo_prims demo_chat_pack env = Inr m \<and> CmChannelID m = replicate 32 1 \<and>
     eincoming (embedded_event demo_prims demo_chat_pack (\<lambda>_. None) (DFrame demo_world (demo_session [7])
       (session_frame demo_prims [] (demo_session [8]) env)) (demo_embedded demo_node [replicate 32 1])) = [env]"
proof -
  obtain s' a' where s: "SendChannel demo_prims demo_chat_pack demo_env (Some (embedded_client demo_prims demo_chat_pack (\<lambda>_. None) demo_world)) (replicate 32 1) []
     (demo_chat_session 3) (demo_embedded demo_node []) = (s', a', Inr ())" using demo_message by blast
  have w: "wf_identity demo_prims (sid (demo_chat_session 3))" "length (replicate 32 (1 :: byte)) = 32"
    by (simp_all add: wf_identity_def demo_chat_session_def demo_key_wf)
  have p: "ORelay (opts (edaemon (demo_embedded demo_node [])))"
    "demo_peer [8] 2 \<in> set (table_List (table (edaemon (demo_embedded demo_node []))))"
    "PSession (demo_peer [8] 2) = Some 2" "\<not> Trust (demo_peer [8] 2) < TrustNeutral"
    by (simp_all add: demo_embedded_def demo_node_def demo_daemon_def demo_options_def table_List_def demo_peer_def)
  have l: "skey (demo_session [7]) = skey (demo_session [8])" "recvAAD (demo_session [7]) = sendAAD (demo_session [8])"
    by (simp_all add: demo_session_def)
  let ?b = "demo_embedded demo_node [replicate 32 1]"
  have v: "daemon_inv demo_prims (edaemon ?b)" by (simp add: demo_embedded_def demo_node_inv)
  have r: "sink (edaemon ?b)" "replicate 32 1 \<in> set (esubs ?b)" "length (eincoming ?b) < 32"
    "ValidateTimestamp (ae_now demo_env) (w_check demo_world) = Inr ()" "MaxPayloadSize \<le> unat (OMaxPayloadSize (opts (edaemon ?b)))"
    "snd (allowRate (w_rate demo_world) (PeerIdentity (demo_session [7])) (edaemon ?b))" "w_put demo_world = PutOk"
    by (simp_all add: demo_embedded_def demo_node_def demo_daemon_def demo_options_def demo_env_def demo_world_def ValidateTimestamp_window unix_nano_def
        allowRate_def)
  have n: "lookup demo_prims (dobjects (edaemon ?b)) (disk (edaemon ?b)) h = None" for h
    by (simp add: demo_embedded_def demo_node_def demo_daemon_def lookup_def Get_def path_unfold)
  have m: "msgpack_ok demo_chat_pack" unfolding demo_chat_pack_def by (rule demo_msgpack_ok)
  from message_reaches_reader [OF demo_ok(1-3) m w s p l v r, where rnd = "[]"] n show ?thesis
    by (auto simp: demo_embedded_def)
qed

end
