(* ===== verification/Go_Json.thy ===== *)
theory Go_Json
  imports Go_Strings
begin

text \<open>
  What the source uses of \<^verbatim>\<open>encoding/json\<close>: the compact form of strings, integers and structs that \<^verbatim>\<open>Marshal\<close>
  writes, with its HTML-safe escapes, and the values that \<^verbatim>\<open>Unmarshal\<close> reads, with white space, escapes,
  surrogate pairs, the replacement of invalid UTF-8 and the limit on nesting. The round trip covers every
  value whose strings are valid UTF-8.
\<close>

datatype json =
    JNull
  | JBool bool
  | JNum gostring
  | JStr gostring
  | JArr "json list"
  | JObj "(gostring \<times> json) list"

section \<open>Strings\<close>

abbreviation (input) quote_mark :: byte where "quote_mark \<equiv> 34"
abbreviation (input) backslash :: byte where "backslash \<equiv> 92"

definition replacement :: bytes where "replacement = [0xEF, 0xBF, 0xBD]"

text \<open>The letters of the short escapes, and the other way round.\<close>

definition short_escape :: "byte \<Rightarrow> byte option" where
  "short_escape b =
     (if b = 8 then Some 98 else if b = 12 then Some 102 else if b = 10 then Some 110
      else if b = 13 then Some 114 else if b = 9 then Some 116
      else if b = quote_mark \<or> b = backslash then Some b else None)"

definition escaped :: "byte \<Rightarrow> byte option" where
  "escaped c =
     (if c = quote_mark \<or> c = backslash \<or> c = 47 then Some c
      else if c = 98 then Some 8 else if c = 102 then Some 12 else if c = 110 then Some 10
      else if c = 114 then Some 13 else if c = 116 then Some 9 else None)"

definition html_safe :: "byte \<Rightarrow> bool" where
  "html_safe b \<longleftrightarrow> 32 \<le> unat b \<and> unat b < 128 \<and> b \<notin> {quote_mark, backslash, 60, 62, 38}"

definition quote_ascii :: "byte \<Rightarrow> bytes" where
  "quote_ascii b =
     (if html_safe b then [b]
      else case short_escape b of
        Some c \<Rightarrow> [backslash, c]
      | None \<Rightarrow> [backslash, 117, 48, 48, hex_digit (unat b div 16), hex_digit (unat b mod 16)])"

function quote_body :: "gostring \<Rightarrow> bytes" where
  "quote_body s =
     (case s of
        [] \<Rightarrow> []
      | b # r \<Rightarrow>
          if unat b < 128 then quote_ascii b @ quote_body r
          else case rune_width s of
            None \<Rightarrow> [backslash, 117, 102, 102, 102, 100] @ quote_body r
          | Some n \<Rightarrow>
              (if take n s = [0xE2, 0x80, 0xA8] then [backslash, 117, 50, 48, 50, 56]
               else if take n s = [0xE2, 0x80, 0xA9] then [backslash, 117, 50, 48, 50, 57]
               else take n s) @ quote_body (drop n s))"
  by pat_completeness auto
termination
  by (relation "measure length") (auto dest: rune_width_pos)

definition quote :: "gostring \<Rightarrow> bytes" where
  "quote s = quote_mark # quote_body s @ [quote_mark]"

definition hex4 :: "bytes \<Rightarrow> (nat \<times> bytes) option" where
  "hex4 s =
     (case s of
        a # b # c # d # r \<Rightarrow>
          (case (from_hex a, from_hex b, from_hex c, from_hex d) of
             (Some h3, Some h2, Some h1, Some h0) \<Rightarrow> Some (4096 * h3 + 256 * h2 + 16 * h1 + h0, r)
           | _ \<Rightarrow> None)
      | _ \<Rightarrow> None)"

lemma hex4_shorter: "hex4 s = Some (u, r) \<Longrightarrow> length r < length s"
  by (auto simp: hex4_def split: list.splits option.splits)

definition EncodeRune :: "nat \<Rightarrow> bytes" where
  "EncodeRune n =
     (if n < 128 then [of_nat n]
      else if n < 2048 then [of_nat (192 + n div 64), of_nat (128 + n mod 64)]
      else if n > 0x10FFFF \<or> 0xD800 \<le> n \<and> n \<le> 0xDFFF then replacement
      else if n < 65536 then [of_nat (224 + n div 4096), of_nat (128 + n div 64 mod 64), of_nat (128 + n mod 64)]
      else [of_nat (240 + n div 262144), of_nat (128 + n div 4096 mod 64), of_nat (128 + n div 64 mod 64), of_nat (128 + n mod 64)])"

text \<open>The rune of an escape \<^verbatim>\<open>\uXXXX\<close> and what remains: a surrogate needs its partner right behind it.\<close>

definition escape_rune :: "nat \<Rightarrow> bytes \<Rightarrow> bytes \<times> bytes" where
  "escape_rune u r =
     (if 0xD800 \<le> u \<and> u \<le> 0xDFFF then
        (case r of
           x # y # r2 \<Rightarrow>
             (if x = backslash \<and> y = 117 then
                (case hex4 r2 of
                   Some (v, r3) \<Rightarrow>
                     if u \<le> 0xDBFF \<and> 0xDC00 \<le> v \<and> v \<le> 0xDFFF
                     then (EncodeRune (0x10000 + (u - 0xD800) * 1024 + (v - 0xDC00)), r3) else (replacement, r)
                 | None \<Rightarrow> (replacement, r))
              else (replacement, r))
         | _ \<Rightarrow> (replacement, r))
      else (EncodeRune u, r))"

lemma escape_rune_shorter: "length (snd (escape_rune u r)) \<le> length r"
  by (auto simp: escape_rune_def dest: hex4_shorter split: list.splits option.splits)

lemma escape_shorter: "hex4 s = Some (u, r) \<Longrightarrow> length (snd (escape_rune u r)) < length s"
  using escape_rune_shorter hex4_shorter by (rule le_less_trans)

definition prepend :: "bytes \<Rightarrow> (bytes \<times> 'a) option \<Rightarrow> (bytes \<times> 'a) option" where
  "prepend p x = map_option (\<lambda>(b, r). (p @ b, r)) x"

lemma prepend_simps [simp]: "prepend p (Some (b, r)) = Some (p @ b, r)" "prepend p None = None"
  by (simp_all add: prepend_def)

text \<open>The rest of a string after its opening quote.\<close>

function parse_string :: "bytes \<Rightarrow> (gostring \<times> bytes) option" where
  "parse_string s =
     (case s of
        [] \<Rightarrow> None
      | c # r \<Rightarrow>
          if c = quote_mark then Some ([], r)
          else if c = backslash then
            (case r of
               [] \<Rightarrow> None
             | e # r2 \<Rightarrow>
                 (case escaped e of
                    Some b \<Rightarrow> prepend [b] (parse_string r2)
                  | None \<Rightarrow>
                      if e = 117 then
                        (case hex4 r2 of
                           None \<Rightarrow> None
                         | Some (u, r3) \<Rightarrow> prepend (fst (escape_rune u r3)) (parse_string (snd (escape_rune u r3))))
                      else None))
          else if unat c < 32 then None
          else if unat c < 128 then prepend [c] (parse_string r)
          else case rune_width s of
            None \<Rightarrow> prepend replacement (parse_string r)
          | Some n \<Rightarrow> prepend (take n s) (parse_string (drop n s)))"
  by pat_completeness auto
termination
  by (relation "measure length") (auto dest: rune_width_pos escape_shorter)

declare quote_body.simps [simp del] parse_string.simps [simp del]

lemma quote_body_simps [simp]:
  "quote_body [] = []"
  "unat b < 128 \<Longrightarrow> quote_body (b # r) = quote_ascii b @ quote_body r"
  by (simp_all add: quote_body.simps)

lemma quote_body_rune:
  assumes "rune_width (b # r) = Some n" "\<not> unat b < 128"
  shows "quote_body (b # r) =
     (if take n (b # r) = [0xE2, 0x80, 0xA8] then [backslash, 117, 50, 48, 50, 56]
      else if take n (b # r) = [0xE2, 0x80, 0xA9] then [backslash, 117, 50, 48, 50, 57]
      else take n (b # r)) @ quote_body (drop n (b # r))"
  using assms by (subst quote_body.simps) simp

lemma parse_string_quote [simp]: "parse_string (quote_mark # r) = Some ([], r)"
  by (simp add: parse_string.simps)

lemma parse_string_plain:
  "32 \<le> unat c \<Longrightarrow> unat c < 128 \<Longrightarrow> c \<noteq> quote_mark \<Longrightarrow> c \<noteq> backslash \<Longrightarrow> parse_string (c # r) = prepend [c] (parse_string r)"
  by (subst parse_string.simps) simp

lemma parse_string_escape: "escaped e = Some b \<Longrightarrow> parse_string (backslash # e # r) = prepend [b] (parse_string r)"
  by (subst parse_string.simps) simp

lemma parse_string_u:
  "hex4 r = Some (u, r2) \<Longrightarrow> \<not> (0xD800 \<le> u \<and> u \<le> 0xDFFF) \<Longrightarrow>
     parse_string (backslash # 117 # r) = prepend (EncodeRune u) (parse_string r2)"
proof -
  assume h: "hex4 r = Some (u, r2)" and u: "\<not> (0xD800 \<le> u \<and> u \<le> 0xDFFF)"
  have "escape_rune u r2 = (EncodeRune u, r2)" unfolding escape_rune_def if_not_P [OF u] ..
  then show ?thesis using h by (subst parse_string.simps) (simp add: escaped_def)
qed

lemma escaped_short: "short_escape b = Some c \<Longrightarrow> escaped c = Some b"
  by (auto simp: short_escape_def escaped_def split: if_splits)

lemma hex4_low: "n < 128 \<Longrightarrow> hex4 (48 # 48 # hex_digit (n div 16) # hex_digit (n mod 16) # r) = Some (n, r)"
  by (simp add: hex4_def from_hex_def [of 48])

lemma parse_string_ascii: "unat b < 128 \<Longrightarrow> parse_string (quote_ascii b @ r) = prepend [b] (parse_string r)"
proof (cases "html_safe b")
  case True
  then show ?thesis by (simp add: quote_ascii_def html_safe_def parse_string_plain)
next
  case False
  assume b: "unat b < 128"
  show ?thesis
  proof (cases "short_escape b")
    case None
    then show ?thesis using False b parse_string_u [OF hex4_low [OF b, of r]] by (simp add: quote_ascii_def EncodeRune_def)
  next
    case (Some c)
    then show ?thesis using False parse_string_escape [OF escaped_short] by (simp add: quote_ascii_def)
  qed
qed

lemma rune_width_prefix:
  assumes "rune_width s = Some n"
  shows "n \<le> length s \<and> rune_width (take n s @ r) = Some n"
proof -
  obtain b t where s: "s = b # t" using assms by (cases s) (simp_all add: rune_width_def)
  define c lo hi where "c = unat b" and "lo = (if c = 224 then 160 else if c = 240 then 144 else 128 :: nat)"
    and "hi = (if c = 237 then 159 else if c = 244 then 143 else 191 :: nat)"
  have w: "rune_width (b # u) =
      (if c < 128 then Some 1
       else if 194 \<le> c \<and> c \<le> 223 then (case u of b1 # _ \<Rightarrow> if cont lo hi b1 then Some 2 else None | _ \<Rightarrow> None)
       else if 224 \<le> c \<and> c \<le> 239 then
         (case u of b1 # b2 # _ \<Rightarrow> if cont lo hi b1 \<and> cont 128 191 b2 then Some 3 else None | _ \<Rightarrow> None)
       else if 240 \<le> c \<and> c \<le> 244 then
         (case u of b1 # b2 # b3 # _ \<Rightarrow> if cont lo hi b1 \<and> cont 128 191 b2 \<and> cont 128 191 b3 then Some 4 else None | _ \<Rightarrow> None)
       else None)" for u
    unfolding rune_width_def Let_def c_def lo_def hi_def list.case ..
  show ?thesis using assms unfolding s w by (auto simp: w split: list.splits if_splits)
qed

lemma parse_string_rune:
  assumes "rune_width (b # s) = Some n" "\<not> unat b < 128"
  shows "parse_string (take n (b # s) @ r) = prepend (take n (b # s)) (parse_string r)"
proof -
  have n: "0 < n" "n \<le> length (b # s)" "rune_width (take n (b # s) @ r) = Some n"
    using rune_width_pos [OF assms(1)] rune_width_prefix [OF assms(1)] by simp_all
  then obtain t where t: "take n (b # s) @ r = b # t" by (cases n) auto
  have "unat quote_mark < 128" "unat backslash < 128" by simp_all
  then have "b \<noteq> quote_mark" "b \<noteq> backslash" using assms(2) by auto
  then have "parse_string (b # t) = prepend (take n (b # t)) (parse_string (drop n (b # t)))"
    using n(3) assms(2) unfolding t by (subst parse_string.simps) simp
  then show ?thesis using n(2) unfolding t [symmetric] by simp
qed

lemma parse_string_quote_body: "ValidString s \<Longrightarrow> parse_string (quote_body s @ quote_mark # r) = Some (s, r)"
proof (induction s rule: quote_body.induct)
  case (1 s)
  show ?case
  proof (cases s)
    case Nil
    then show ?thesis by simp
  next
    case (Cons b t)
    show ?thesis
    proof (cases "unat b < 128")
      case True
      then have "ValidString t" using 1(4) Cons by (simp add: ValidString.simps [of "b # t"] rune_width_ascii)
      then show ?thesis using 1(1) [OF Cons True] Cons True by (simp add: parse_string_ascii)
    next
      case False
      then obtain n where n: "rune_width (b # t) = Some n" "ValidString (drop n s)"
        using 1(4) Cons by (auto simp: ValidString.simps [of "b # t"] split: option.splits)
      have ih: "parse_string (quote_body (drop n (b # t)) @ quote_mark # r) = Some (drop n (b # t), r)"
        using 1(3) [OF Cons False _ n(2)] n Cons by simp
      have u: "parse_string (backslash # 117 # 50 # 48 # 50 # x # z) = prepend [0xE2, 0x80, 0xA8 + (x - 56)] (parse_string z)"
        if "x = 56 \<or> x = 57" for x z
        using that parse_string_u [of "50 # 48 # 50 # x # z"] by (auto simp: hex4_def from_hex_def EncodeRune_def)
      obtain x y where xy: "take n (b # t) = x" "drop n (b # t) = y" "b # t = x @ y" using append_take_drop_id by metis
      note q = quote_body_rune [OF n(1) False, unfolded xy(1,2)] and p = parse_string_rune [OF n(1) False, unfolded xy(1)]
      have "parse_string (quote_body (b # t) @ quote_mark # r) = Some (x @ y, r)"
        unfolding q using p ih [unfolded xy(2)] u [of 56] u [of 57] by simp
      then show ?thesis unfolding Cons xy(3) .
    qed
  qed
qed

section \<open>Numbers\<close>

text \<open>The decimal digits of a number, as \<^verbatim>\<open>strconv\<close> writes them.\<close>

fun FormatNat :: "nat \<Rightarrow> gostring" where
  "FormatNat n = (if n < 10 then [of_nat (48 + n)] else FormatNat (n div 10) @ [of_nat (48 + n mod 10)])"

declare FormatNat.simps [simp del]

definition FormatInt :: "int \<Rightarrow> gostring" where
  "FormatInt i = (if i < 0 then 45 # FormatNat (nat (- i)) else FormatNat (nat i))"

definition digit :: "byte \<Rightarrow> bool" where
  "digit c \<longleftrightarrow> 48 \<le> unat c \<and> unat c \<le> 57"

definition digits_value :: "gostring \<Rightarrow> nat" where
  "digits_value ds = foldl (\<lambda>v c. 10 * v + (unat c - 48)) 0 ds"

text \<open>\<^verbatim>\<open>strconv.ParseInt(s, 10, 64)\<close> on a literal of the JSON grammar.\<close>

definition ParseInt :: "gostring \<Rightarrow> int option" where
  "ParseInt s =
     (let neg = (s \<noteq> [] \<and> hd s = 45); ds = (if neg then tl s else s);
          v = (if neg then - int (digits_value ds) else int (digits_value ds)) in
      if ds \<noteq> [] \<and> list_all digit ds \<and> - (2 ^ 63) \<le> v \<and> v < 2 ^ 63 then Some v else None)"

text \<open>The literal at the front: sign, digits without a leading zero, fraction, exponent.\<close>

definition take_digits :: "bytes \<Rightarrow> (bytes \<times> bytes) option" where
  "take_digits s = (if s \<noteq> [] \<and> digit (hd s) then Some (takeWhile digit s, dropWhile digit s) else None)"

definition number_sign :: "bytes \<Rightarrow> bytes \<times> bytes" where
  "number_sign s = (case s of c # r \<Rightarrow> if c = 45 then ([c], r) else ([], s) | [] \<Rightarrow> ([], s))"

definition number_int :: "bytes \<Rightarrow> (bytes \<times> bytes) option" where
  "number_int s = (case s of c # r \<Rightarrow> if c = 48 then Some ([c], r) else take_digits s | [] \<Rightarrow> None)"

definition number_frac :: "bytes \<Rightarrow> (bytes \<times> bytes) option" where
  "number_frac s = (case s of c # r \<Rightarrow> if c = 46 then prepend [c] (take_digits r) else Some ([], s) | [] \<Rightarrow> Some ([], s))"

definition number_exp :: "bytes \<Rightarrow> (bytes \<times> bytes) option" where
  "number_exp s =
     (case s of
        c # r \<Rightarrow>
          if c = 101 \<or> c = 69 then
            (case r of
               x # r2 \<Rightarrow> if x = 43 \<or> x = 45 then prepend [c, x] (take_digits r2) else prepend [c] (take_digits r)
             | [] \<Rightarrow> None)
          else Some ([], s)
      | [] \<Rightarrow> Some ([], s))"

definition parse_number :: "bytes \<Rightarrow> (bytes \<times> bytes) option" where
  "parse_number s =
     (case number_sign s of (sg, r0) \<Rightarrow>
        (case number_int r0 of
           None \<Rightarrow> None
         | Some (i, r1) \<Rightarrow>
             (case number_frac r1 of
                None \<Rightarrow> None
              | Some (f, r2) \<Rightarrow> (case number_exp r2 of None \<Rightarrow> None | Some (e, r3) \<Rightarrow> Some (sg @ i @ f @ e, r3)))))"

lemma FormatNat_digits: "FormatNat n \<noteq> [] \<and> list_all digit (FormatNat n) \<and> (0 < n \<longrightarrow> hd (FormatNat n) \<noteq> 48) \<and> hd (FormatNat n) \<noteq> 45"
proof (induction n rule: FormatNat.induct)
  case (1 n)
  have d: "digit (of_nat (48 + k))" "(of_nat (48 + k) :: byte) \<noteq> 45" "0 < k \<Longrightarrow> (of_nat (48 + k) :: byte) \<noteq> 48" if "k < 10" for k
  proof -
    have "unat (of_nat (48 + k) :: byte) = 48 + k" using that by (simp add: unat_of_nat_byte del: of_nat_add)
    then show "digit (of_nat (48 + k))" "(of_nat (48 + k) :: byte) \<noteq> 45" "0 < k \<Longrightarrow> (of_nat (48 + k) :: byte) \<noteq> 48"
      using that by (auto simp: digit_def simp del: of_nat_add dest: arg_cong [of _ _ unat])
  qed
  show ?case
  proof (cases "n < 10")
    case True
    then show ?thesis using d by (simp add: FormatNat.simps [of n] del: of_nat_add)
  next
    case False
    then show ?thesis using 1 d(1) [of "n mod 10"] by (simp add: FormatNat.simps [of n] del: of_nat_add)
  qed
qed

lemma digits_value_FormatNat: "digits_value (FormatNat n) = n"
proof (induction n rule: FormatNat.induct)
  case (1 n)
  have d: "unat (of_nat (48 + k) :: byte) - 48 = k" if "k < 10" for k
    using that by (simp add: unat_of_nat_byte del: of_nat_add)
  show ?case
  proof (cases "n < 10")
    case True
    then show ?thesis using d by (simp add: FormatNat.simps [of n] digits_value_def del: of_nat_add)
  next
    case False
    then show ?thesis using 1 d [of "n mod 10"] by (simp add: FormatNat.simps [of n] digits_value_def del: of_nat_add)
  qed
qed

lemma ParseInt_FormatInt: "- (2 ^ 63) \<le> i \<Longrightarrow> i < 2 ^ 63 \<Longrightarrow> ParseInt (FormatInt i) = Some i"
  using FormatNat_digits [of "nat i"] FormatNat_digits [of "nat (- i)"]
  by (simp add: ParseInt_def FormatInt_def Let_def digits_value_FormatNat nat_le_iff nat_less_iff)

text \<open>A byte that cannot continue a number.\<close>

definition ends_number :: "bytes \<Rightarrow> bool" where
  "ends_number r \<longleftrightarrow> (case r of [] \<Rightarrow> True | c # _ \<Rightarrow> \<not> digit c \<and> c \<notin> {46, 101, 69})"

lemma parse_number_nat:
  assumes "ends_number r"
  shows "number_int (FormatNat n @ r) = Some (FormatNat n, r)"
proof (cases "n = 0")
  case True
  then show ?thesis by (simp add: number_int_def FormatNat.simps)
next
  case False
  obtain c t where c: "FormatNat n = c # t" using FormatNat_digits [of n] by (cases "FormatNat n") auto
  have "list_all digit (FormatNat n)" "c \<noteq> 48" using FormatNat_digits [of n] False c by auto
  moreover have "takeWhile digit (FormatNat n @ r) = FormatNat n" "dropWhile digit (FormatNat n @ r) = r"
    using calculation(1) assms by (auto simp: ends_number_def list_all_iff takeWhile_append dropWhile_append split: list.splits)
  ultimately show ?thesis using c by (simp add: number_int_def take_digits_def)
qed

lemma parse_number_FormatInt:
  assumes "ends_number r"
  shows "parse_number (FormatInt i @ r) = Some (FormatInt i, r)"
proof -
  have e: "number_frac r = Some ([], r)" "number_exp r = Some ([], r)"
    using assms by (auto simp: number_frac_def number_exp_def ends_number_def split: list.splits)
  have "number_sign (FormatNat n @ r) = ([], FormatNat n @ r)" for n
    using FormatNat_digits [of n] by (cases "FormatNat n") (auto simp: number_sign_def)
  then show ?thesis
    by (simp add: parse_number_def FormatInt_def number_sign_def [of "45 # _"] parse_number_nat [OF assms] e)
qed

section \<open>Values\<close>

definition json_space :: "byte \<Rightarrow> bool" where
  "json_space c \<longleftrightarrow> c \<in> {32, 9, 10, 13}"

definition skip :: "bytes \<Rightarrow> bytes" where
  "skip s = dropWhile json_space s"

lemma length_skip: "length (skip s) \<le> length s"
  by (simp add: skip_def length_dropWhile_le)

definition word_at :: "string \<Rightarrow> json \<Rightarrow> bytes \<Rightarrow> (json \<times> bytes) option" where
  "word_at w v s = (if take (length w) s = str w then Some (v, drop (length w) s) else None)"

lemma parse_string_shorter: "parse_string s = Some (k, r) \<Longrightarrow> length r < length s"
proof (induction s arbitrary: k r rule: length_induct)
  case (1 s)
  have step: "length r < length s" if "prepend p (parse_string t) = Some (k, r)" "length t < length s" for p t
    using 1 that by (cases "parse_string t") (auto intro: less_trans)
  have "length (snd (escape_rune u x)) < length s" if "hex4 t = Some (u, x)" "s = c # e # t" for t u x c e
    using escape_shorter [OF that(1)] that(2) by simp
  moreover have "length (drop n s) < length s" if "rune_width s = Some n" for n
    using rune_width_pos [OF that] that by (cases s) (auto simp: rune_width_def)
  ultimately show ?case
    using 1(2) step by (subst (asm) parse_string.simps) (force split: list.splits if_splits option.splits)
qed

text \<open>
  \<open>d\<close> is the number of levels that may still be opened; the decoder allows 10000. What a value leaves is
  always shorter than what it was read from (the tests on the length, which never fail, show it to the
  recursion).
\<close>

function parse_value :: "nat \<Rightarrow> bytes \<Rightarrow> (json \<times> bytes) option"
  and parse_elems :: "nat \<Rightarrow> bytes \<Rightarrow> (json list \<times> bytes) option"
  and parse_members :: "nat \<Rightarrow> bytes \<Rightarrow> ((gostring \<times> json) list \<times> bytes) option" where
  "parse_value d s =
     (case s of
        [] \<Rightarrow> None
      | c # r \<Rightarrow>
          if c = quote_mark then map_option (map_prod JStr id) (parse_string r)
          else if c = 116 then word_at ''true'' (JBool True) s
          else if c = 102 then word_at ''false'' (JBool False) s
          else if c = 110 then word_at ''null'' JNull s
          else if c = 91 then
            (if d = 0 then None
             else if skip r \<noteq> [] \<and> hd (skip r) = 93 then Some (JArr [], tl (skip r))
             else map_option (map_prod JArr id) (parse_elems (d - 1) (skip r)))
          else if c = 123 then
            (if d = 0 then None
             else if skip r \<noteq> [] \<and> hd (skip r) = 125 then Some (JObj [], tl (skip r))
             else map_option (map_prod JObj id) (parse_members (d - 1) (skip r)))
          else map_option (map_prod JNum id) (parse_number s))"
| "parse_elems d s =
     (case parse_value d s of
        None \<Rightarrow> None
      | Some (v, r) \<Rightarrow>
          if length r < length s then
            (case skip r of
               [] \<Rightarrow> None
             | c # r2 \<Rightarrow>
                 if c = 93 then Some ([v], r2)
                 else if c = 44 then map_option (map_prod (\<lambda>vs. v # vs) id) (parse_elems d (skip r2))
                 else None)
          else None)"
| "parse_members d s =
     (case s of
        [] \<Rightarrow> None
      | q # r \<Rightarrow>
          if q \<noteq> quote_mark then None
          else case parse_string r of
            None \<Rightarrow> None
          | Some (k, r1) \<Rightarrow>
              (case skip r1 of
                 [] \<Rightarrow> None
               | c # r2 \<Rightarrow>
                   if c \<noteq> 58 then None
                   else case parse_value d (skip r2) of
                     None \<Rightarrow> None
                   | Some (v, r3) \<Rightarrow>
                       if length r3 < length (skip r2) then
                         (case skip r3 of
                            [] \<Rightarrow> None
                          | e # r4 \<Rightarrow>
                              if e = 125 then Some ([(k, v)], r4)
                              else if e = 44 then map_option (map_prod (\<lambda>ms. (k, v) # ms) id) (parse_members d (skip r4))
                              else None)
                       else None))"
  by pat_completeness auto

lemma skip_Cons_shorter: "skip s = c # r \<Longrightarrow> length (skip r) < length s"
  using length_skip [of s] length_skip [of r] by simp

termination parse_value
proof (relation "measure (\<lambda>x. case x of Inl (d, s) \<Rightarrow> 2 * length s | Inr (Inl (d, s)) \<Rightarrow> Suc (2 * length s) | Inr (Inr (d, s)) \<Rightarrow> Suc (2 * length s))", goal_cases)
  case 1
  then show ?case by simp
next
  case (2 d s c r)
  then show ?case using length_skip [of r] by simp
next
  case (3 d s c r)
  then show ?case using length_skip [of r] by simp
next
  case (4 d s)
  then show ?case by simp
next
  case (5 d s a v r c r2)
  then show ?case using skip_Cons_shorter [of r c r2] by simp
next
  case (6 d s q r a k r1 c r2)
  then show ?case using skip_Cons_shorter [of r1 c r2] parse_string_shorter [of r k r1] by simp
next
  case (7 d s q r a k r1 c r2 a' v r3 e r4)
  then show ?case using skip_Cons_shorter [of r1 c r2] skip_Cons_shorter [of r3 e r4] parse_string_shorter [of r k r1] by simp
qed

declare parse_value.simps [simp del] parse_elems.simps [simp del] parse_members.simps [simp del]

text \<open>A whole document.\<close>

definition json_parse :: "bytes \<Rightarrow> json option" where
  "json_parse s =
     (case parse_value 10000 (skip s) of
        Some (v, r) \<Rightarrow> if skip r = [] then Some v else None
      | None \<Rightarrow> None)"

text \<open>The compact form.\<close>

fun render :: "json \<Rightarrow> bytes"
  and render_elems :: "json list \<Rightarrow> bytes"
  and render_members :: "(gostring \<times> json) list \<Rightarrow> bytes" where
  "render JNull = str ''null''"
| "render (JBool b) = str (if b then ''true'' else ''false'')"
| "render (JNum n) = n"
| "render (JStr s) = quote s"
| "render (JArr vs) = 91 # render_elems vs @ [93]"
| "render (JObj ms) = 123 # render_members ms @ [125]"
| "render_elems [] = []"
| "render_elems [v] = render v"
| "render_elems (v # v2 # vs) = render v @ 44 # render_elems (v2 # vs)"
| "render_members [] = []"
| "render_members [(k, v)] = quote k @ 58 # render v"
| "render_members ((k, v) # m2 # ms) = quote k @ 58 # render v @ 44 # render_members (m2 # ms)"

text \<open>Values that the encoder writes and the decoder reads back: valid strings, integers, limited nesting.\<close>

fun readable :: "nat \<Rightarrow> json \<Rightarrow> bool" where
  "readable d JNull = True"
| "readable d (JBool b) = True"
| "readable d (JNum n) = (\<exists>i. n = FormatInt i)"
| "readable d (JStr s) = ValidString s"
| "readable d (JArr vs) = (0 < d \<and> (\<forall>v \<in> set vs. readable (d - 1) v))"
| "readable d (JObj ms) = (0 < d \<and> (\<forall>m \<in> set ms. ValidString (fst m) \<and> readable (d - 1) (snd m)))"

lemma FormatInt_start: "\<exists>c t. FormatInt i = c # t \<and> (digit c \<or> c = 45)"
  using FormatNat_digits [of "nat i"] by (cases "FormatNat (nat i)") (auto simp: FormatInt_def)

lemma render_start:
  assumes "readable d v"
  shows "\<exists>c t. render v = c # t \<and> \<not> json_space c \<and> c \<noteq> 93 \<and> c \<noteq> 125"
proof (cases v)
  case (JNum n)
  then obtain i where "n = FormatInt i" using assms by auto
  then show ?thesis using FormatInt_start [of i] JNum by (auto simp: digit_def json_space_def)
qed (auto simp: str_def json_space_def quote_def)

lemma skip_render: "readable d v \<Longrightarrow> skip (render v @ r) = render v @ r"
  using render_start [of d v] by (auto simp: skip_def)

lemma skip_quote: "skip (quote k @ r) = quote k @ r"
  by (simp add: skip_def quote_def json_space_def)

lemma ends_number_simps [simp]: "ends_number []" "ends_number (93 # r)" "ends_number (125 # r)" "ends_number (44 # r)"
  by (simp_all add: ends_number_def digit_def)

lemma skip_simps [simp]: "skip (93 # r) = 93 # r" "skip (125 # r) = 125 # r" "skip (44 # r) = 44 # r" "skip (58 # r) = 58 # r" "skip [] = []"
  by (simp_all add: skip_def json_space_def)

lemma parse_value_num: "ends_number r \<Longrightarrow> parse_value d (FormatInt i @ r) = Some (JNum (FormatInt i), r)"
proof -
  assume r: "ends_number r"
  obtain c t where c: "FormatInt i = c # t" "digit c \<or> c = 45" using FormatInt_start by blast
  have "c \<noteq> quote_mark" "c \<noteq> 116" "c \<noteq> 102" "c \<noteq> 110" "c \<noteq> 91" "c \<noteq> 123" using c(2) by (auto simp: digit_def)
  then show ?thesis using parse_number_FormatInt [OF r, of i] unfolding c(1) by (subst parse_value.simps) simp
qed

lemma parse_value_str: "ValidString s \<Longrightarrow> parse_value d (quote s @ r) = Some (JStr s, r)"
  by (subst parse_value.simps) (simp add: quote_def parse_string_quote_body)

lemma parse_render:
  "readable d v \<Longrightarrow> ends_number r \<Longrightarrow> parse_value d (render v @ r) = Some (v, r)"
  "vs \<noteq> [] \<Longrightarrow> (\<forall>v \<in> set vs. readable d v) \<Longrightarrow> parse_elems d (render_elems vs @ 93 # r) = Some (vs, r)"
  "ms \<noteq> [] \<Longrightarrow> (\<forall>m \<in> set ms. ValidString (fst m) \<and> readable d (snd m)) \<Longrightarrow>
     parse_members d (render_members ms @ 125 # r) = Some (ms, r)"
proof (induction v and vs and ms arbitrary: d r and d r and d r rule: render_render_elems_render_members.induct)
  case 1
  then show ?case by (subst parse_value.simps) (simp add: word_at_def str_def)
next
  case (2 b)
  then show ?case by (subst parse_value.simps) (simp add: word_at_def str_def)
next
  case (3 n)
  then show ?case using parse_value_num by auto
next
  case (4 s)
  then show ?case by (simp add: parse_value_str)
next
  case (5 vs)
  show ?case
  proof (cases vs)
    case Nil
    then show ?thesis using 5 by (subst parse_value.simps) simp
  next
    case (Cons v vs')
    have s: "skip (render_elems vs @ 93 # r) = render_elems vs @ 93 # r" "hd (render_elems vs @ 93 # r) \<noteq> 93"
      using render_start [of "d - 1" v] 5(2) Cons by (cases vs'; auto simp: skip_def)+
    have "parse_elems (d - 1) (render_elems vs @ 93 # r) = Some (vs, r)" using 5(1) [of "d - 1" r] 5(2) Cons by simp
    then show ?thesis using 5(2) s by (subst parse_value.simps) simp
  qed
next
  case (6 ms)
  show ?case
  proof (cases ms)
    case Nil
    then show ?thesis using 6 by (subst parse_value.simps) simp
  next
    case (Cons m ms')
    obtain k v where m: "m = (k, v)" by (cases m)
    obtain t where t: "render_members ms @ 125 # r = quote k @ t" unfolding Cons m by (cases ms') auto
    have s: "skip (render_members ms @ 125 # r) = render_members ms @ 125 # r" "hd (render_members ms @ 125 # r) \<noteq> 125"
      unfolding t by (simp_all add: skip_quote, simp add: quote_def)
    have "parse_members (d - 1) (render_members ms @ 125 # r) = Some (ms, r)" using 6(1) [of "d - 1" r] 6(2) Cons by simp
    then show ?thesis using 6(2) s by (subst parse_value.simps) simp
  qed
next
  case 7
  then show ?case by simp
next
  case (8 v)
  have "length (93 # r) < length (render v @ 93 # r)" using render_start [of d v] 8(3) by auto
  then show ?case using 8(1) [of d "93 # r"] 8(3) by (subst parse_elems.simps) simp
next
  case (9 v v2 vs)
  have "length (44 # x) < length (render v @ 44 # x)" for x using render_start [of d v] 9(4) by auto
  moreover have "skip (render_elems (v2 # vs) @ 93 # r) = render_elems (v2 # vs) @ 93 # r"
    using render_start [of d v2] 9(4) by (cases vs) (auto simp: skip_def)
  ultimately show ?case
    using 9(1) [of d "44 # render_elems (v2 # vs) @ 93 # r"] 9(2) [of d r] 9(4) by (subst parse_elems.simps) simp
next
  case 10
  then show ?case by simp
next
  case (11 k v)
  have "length (125 # r) < length (render v @ 125 # r)" using render_start [of d v] 11(3) by auto
  then show ?case using 11(1) [of d "125 # r"] 11(3) skip_render [of d v "125 # r"]
    by (subst parse_members.simps) (simp add: quote_def parse_string_quote_body)
next
  case (12 k v m2 ms)
  have "length (44 # x) < length (render v @ 44 # x)" for x using render_start [of d v] 12(4) by auto
  moreover have "skip (render_members (m2 # ms) @ 125 # r) = render_members (m2 # ms) @ 125 # r"
    by (cases m2; cases ms) (simp_all add: skip_quote)
  ultimately show ?case
    using 12(1) [of d "44 # render_members (m2 # ms) @ 125 # r"] 12(2) [of d r] 12(4)
      skip_render [of d v "44 # render_members (m2 # ms) @ 125 # r"]
    by (subst parse_members.simps) (simp add: quote_def parse_string_quote_body)
qed

theorem json_roundtrip: "readable 10000 v \<Longrightarrow> json_parse (render v) = Some v"
  using parse_render(1) [of 10000 v "[]"] skip_render [of 10000 v "[]"] by (simp add: json_parse_def)

end
