(* ===== verification/App_Invites.thy ===== *)
theory App_Invites
  imports Go_Json App_Session
begin

text \<open>
  \<^verbatim>\<open>internal/gandr/invite.go\<close> and \<^verbatim>\<open>internal/gandr/invitation.go\<close>: invitations to a private group, which carry
  its password, and signed invitations of a contact. Both are JSON structs in URL-safe base 64.
\<close>

section \<open>Decoding into a struct\<close>

text \<open>
  \<^verbatim>\<open>Unmarshal\<close> into a struct: a member belongs to the field of its exact name, else to the field whose name is
  equal up to case folding (besides the ASCII letters, the long s and the Kelvin sign fold to ASCII);
  others are skipped. A null leaves the field, a value of another type is an error.
\<close>

fun foldName :: "gostring \<Rightarrow> gostring" where
  "foldName [] = []"
| "foldName (c # r) =
     (if c = 0xC5 \<and> take 1 r = [0xBF] then 83 # foldName (drop 1 r)
      else if c = 0xE2 \<and> take 2 r = [0x84, 0xAA] then 75 # foldName (drop 2 r)
      else (if 97 \<le> unat c \<and> unat c \<le> 122 then c - 32 else c) # foldName r)"

definition field_of :: "gostring list \<Rightarrow> gostring \<Rightarrow> gostring option" where
  "field_of names k = (if k \<in> set names then Some k else find (\<lambda>n. foldName n = foldName k) names)"

definition into_string :: "json \<Rightarrow> gostring \<Rightarrow> gostring option" where
  "into_string v old = (case v of JStr s \<Rightarrow> Some s | JNull \<Rightarrow> Some old | _ \<Rightarrow> None)"

definition into_int :: "json \<Rightarrow> int \<Rightarrow> int option" where
  "into_int v old = (case v of JNum n \<Rightarrow> ParseInt n | JNull \<Rightarrow> Some old | _ \<Rightarrow> None)"

fun decode_fields :: "('s \<Rightarrow> gostring \<Rightarrow> json \<Rightarrow> 's option) \<Rightarrow> gostring list \<Rightarrow> (gostring \<times> json) list \<Rightarrow> 's \<Rightarrow> 's option" where
  "decode_fields upd names [] st = Some st"
| "decode_fields upd names ((k, v) # ms) st =
     (case field_of names k of
        None \<Rightarrow> decode_fields upd names ms st
      | Some n \<Rightarrow> (case upd st n v of None \<Rightarrow> None | Some st' \<Rightarrow> decode_fields upd names ms st'))"

definition unmarshal_struct :: "('s \<Rightarrow> gostring \<Rightarrow> json \<Rightarrow> 's option) \<Rightarrow> gostring list \<Rightarrow> 's \<Rightarrow> bytes \<Rightarrow> 's option" where
  "unmarshal_struct upd names zero b =
     (case json_parse b of
        Some (JObj ms) \<Rightarrow> decode_fields upd names ms zero
      | Some JNull \<Rightarrow> Some zero
      | _ \<Rightarrow> None)"

lemma ValidString_hex: "ValidString (EncodeToString b)"
proof (rule ValidString_ascii)
  have h: "unat (hex_digit n) < 128" if "n < 16" for n
    using that by (auto simp: hex_digit_def unat_of_nat_byte simp del: of_nat_add)
  have "unat b div 16 < 16" for b :: byte using unsigned_less [of b, where ?'a = nat] by simp
  then show "\<forall>x \<in> set (EncodeToString b). unat x < 128" using h by (auto simp: EncodeToString_def)
qed

lemma graphic_no_space:
  assumes "32 < unat c \<and> unat c < 127"
  shows "space_front (c # r) = 0" "space_back (c # r) = 0"
proof -
  have n: "\<not> space1 c" "\<not> space2 c x" "\<not> space2 x c" "\<not> space3 c x y" "\<not> space3 x y c" for x y
    using assms by (auto simp: space1_def space2_def space3_def)
  show "space_front (c # r) = 0" "space_back (c # r) = 0" by (simp_all add: space_front_def space_back_def n split: list.split)
qed

lemma trim_replicate:
  assumes "\<And>r. w (x # r) = 1" "w s = 0"
  shows "trim_with w (replicate a x @ s) = s"
  using assms by (induction a) (simp_all add: trim_with_fix trim_with.simps [of w "x # _"])

lemma TrimSpace_around:
  assumes "\<forall>c \<in> set s. 32 < unat c \<and> unat c < 127" "s \<noteq> []"
  shows "TrimSpace (replicate a 32 @ s @ replicate b 10) = s"
proof -
  have front: "space_front (s @ r) = 0" for r using assms by (cases s) (auto simp: graphic_no_space)
  have rear: "space_back (rev s) = 0" using assms by (cases s rule: rev_cases) (auto simp: graphic_no_space)
  have "trim_with space_front (replicate a 32 @ s @ replicate b 10) = s @ replicate b 10"
    using front by (intro trim_replicate) (simp_all add: space_front_def space1_def)
  moreover have "trim_with space_back (replicate b 10 @ rev s) = rev s"
    using rear by (intro trim_replicate) (simp_all add: space_back_def space1_def)
  ultimately show ?thesis by (simp add: TrimSpace_def)
qed

lemma TrimSpace_plain:
  assumes "\<forall>c \<in> set s. 32 < unat c \<and> unat c < 127"
  shows "TrimSpace s = s"
  using TrimSpace_around [OF assms, of 0 0] by (cases "s = []") simp_all

lemma b64_graphic: "\<forall>x \<in> set (b64_encode url bs). 32 < unat x \<and> unat x < 127"
proof -
  have "32 < unat (b64_char url n) \<and> unat (b64_char url n) < 127" if "n < 64" for n
    using that by (auto simp: b64_char_def simp del: of_nat_add of_nat_diff)
  then show ?thesis by (induction url bs rule: b64_encode.induct) auto
qed

section \<open>Group invitations\<close>

record GroupInvite =
  GiVersion :: int
  GiGroupID :: gostring
  GiName :: gostring
  GiPassword :: gostring

datatype invite_error =
    ErrInvitePassword
  | ErrInviteFormat
  | ErrInviteBase64
  | ErrInviteJson
  | ErrInviteGroup
  | ErrInviteTime
  | ErrInviteKey
  | ErrInviteSignature
  | ErrInviteContact app_error
  | ErrInviteSession

definition groupInvitePrefix :: gostring where
  "groupInvitePrefix = str ''BFG1.''"

definition group_fields :: "gostring list" where
  "group_fields = map str [''version'', ''group_id'', ''name'', ''password'']"

definition marshal_group :: "GroupInvite \<Rightarrow> bytes" where
  "marshal_group g =
     render (JObj (zip group_fields [JNum (FormatInt (GiVersion g)), JStr (GiGroupID g), JStr (GiName g), JStr (GiPassword g)]))"

definition set_group :: "GroupInvite \<Rightarrow> gostring \<Rightarrow> json \<Rightarrow> GroupInvite option" where
  "set_group g n v =
     (if n = str ''version'' then map_option (\<lambda>x. g\<lparr>GiVersion := x\<rparr>) (into_int v (GiVersion g))
      else if n = str ''group_id'' then map_option (\<lambda>x. g\<lparr>GiGroupID := x\<rparr>) (into_string v (GiGroupID g))
      else if n = str ''name'' then map_option (\<lambda>x. g\<lparr>GiName := x\<rparr>) (into_string v (GiName g))
      else map_option (\<lambda>x. g\<lparr>GiPassword := x\<rparr>) (into_string v (GiPassword g)))"

definition unmarshal_group :: "bytes \<Rightarrow> GroupInvite option" where
  "unmarshal_group = unmarshal_struct set_group group_fields \<lparr>GiVersion = 0, GiGroupID = [], GiName = [], GiPassword = []\<rparr>"

definition EncodeGroupInvite :: "bytes \<Rightarrow> gostring \<Rightarrow> gostring \<Rightarrow> invite_error + gostring" where
  "EncodeGroupInvite i name password =
     (if TrimSpace password = [] then Inl ErrInvitePassword
      else Inr (groupInvitePrefix @
        b64_encode True (marshal_group \<lparr>GiVersion = 1, GiGroupID = EncodeToString i, GiName = name, GiPassword = password\<rparr>)))"

definition DecodeGroupInvite :: "gostring \<Rightarrow> invite_error + bytes \<times> gostring \<times> gostring" where
  "DecodeGroupInvite invite0 =
     (let invite = TrimSpace invite0 in
      if \<not> HasPrefix invite groupInvitePrefix then Inl ErrInviteFormat
      else case b64_decode True (TrimPrefix invite groupInvitePrefix) of
        None \<Rightarrow> Inl ErrInviteBase64
      | Some raw \<Rightarrow>
          (case unmarshal_group raw of
             None \<Rightarrow> Inl ErrInviteJson
           | Some parsed \<Rightarrow>
               (case DecodeString (GiGroupID parsed) of
                  None \<Rightarrow> Inl ErrInviteGroup
                | Some decoded \<Rightarrow>
                    if length decoded \<noteq> 32 then Inl ErrInviteGroup
                    else if TrimSpace (GiPassword parsed) = [] then Inl ErrInvitePassword
                    else Inr (to_array 32 decoded, GiName parsed, GiPassword parsed))))"

definition IsGroupInvite :: "gostring \<Rightarrow> bool" where
  "IsGroupInvite value = HasPrefix (TrimSpace value) groupInvitePrefix"

lemma group_fields_eq: "group_fields = [str ''version'', str ''group_id'', str ''name'', str ''password'']"
  by (simp add: group_fields_def)

lemma unmarshal_marshal_group:
  assumes "- (2 ^ 63) \<le> GiVersion g" "GiVersion g < 2 ^ 63" "ValidString (GiGroupID g)" "ValidString (GiName g)" "ValidString (GiPassword g)"
  shows "unmarshal_group (marshal_group g) = Some g"
proof -
  let ?ms = "zip group_fields [JNum (FormatInt (GiVersion g)), JStr (GiGroupID g), JStr (GiName g), JStr (GiPassword g)]"
  have "\<forall>f \<in> set group_fields. ValidString f" by (simp add: group_fields_eq str_def ValidString_ascii)
  then have "readable 10000 (JObj ?ms)" using assms(3-5) by (auto simp: group_fields_eq)
  then have p: "json_parse (marshal_group g) = Some (JObj ?ms)" unfolding marshal_group_def by (rule json_roundtrip)
  have d: "str ''version'' \<noteq> str ''group_id''" "str ''version'' \<noteq> str ''name''" "str ''version'' \<noteq> str ''password''"
    "str ''group_id'' \<noteq> str ''name''" "str ''group_id'' \<noteq> str ''password''" "str ''name'' \<noteq> str ''password''"
    by (simp_all add: str_def)
  show ?thesis
    unfolding unmarshal_group_def unmarshal_struct_def p
    using d ParseInt_FormatInt [OF assms(1,2)]
    by (simp add: group_fields_eq field_of_def set_group_def into_int_def into_string_def del: length_str)
qed

lemma group_invite_decodes:
  assumes "length i = 32" "ValidString name" "ValidString password" "EncodeGroupInvite i name password = Inr token"
  shows "IsGroupInvite token \<and> DecodeGroupInvite token = Inr (i, name, password) \<and>
    DecodeGroupInvite (replicate a 32 @ token @ replicate b 10) = Inr (i, name, password)"
proof -
  let ?g = "\<lparr>GiVersion = 1, GiGroupID = EncodeToString i, GiName = name, GiPassword = password\<rparr>"
  have p: "TrimSpace password \<noteq> []" and token: "token = groupInvitePrefix @ b64_encode True (marshal_group ?g)"
    using assms(4) by (auto simp: EncodeGroupInvite_def split: if_splits)
  have plain: "\<forall>c \<in> set token. 32 < unat c \<and> unat c < 127" "token \<noteq> []"
    using b64_graphic unfolding token by (auto simp: groupInvitePrefix_def str_def)
  then have t: "TrimSpace token = token" by (simp add: TrimSpace_plain)
  have u: "unmarshal_group (marshal_group ?g) = Some ?g"
    using assms(2,3) ValidString_hex by (intro unmarshal_marshal_group) simp_all
  have "DecodeGroupInvite v = Inr (i, name, password)" if "TrimSpace v = token" for v
    unfolding DecodeGroupInvite_def that Let_def token using u p assms(1) by simp
  moreover have "TrimSpace (replicate a 32 @ token @ replicate b 10) = token" using plain by (rule TrimSpace_around)
  ultimately show ?thesis using t unfolding IsGroupInvite_def by (simp add: token)
qed

text \<open>
  A group invitation carries what it takes to join. Whatever valid text the name and the password are, the
  invitation of a group is recognised as one and decodes, also with white space around it, to the same
  identifier, name and password.
\<close>

theorem group_invite_roundtrip:
  assumes "length i = 32" "ValidString name" "ValidString password" "EncodeGroupInvite i name password = Inr token"
  shows "IsGroupInvite token \<and> DecodeGroupInvite token = Inr (i, name, password) \<and>
    DecodeGroupInvite (replicate a 32 @ token @ replicate b 10) = Inr (i, name, password)"
  using assms by (rule group_invite_decodes)

theorem group_invite_roundtrip_witness:
  "\<exists>token. EncodeGroupInvite (replicate 32 7) (str ''team'') (str ''pw'') = Inr token \<and>
     DecodeGroupInvite token = Inr (replicate 32 7, str ''team'', str ''pw'')"
proof -
  have "TrimSpace (str ''pw'') = str ''pw''" by (rule TrimSpace_plain) (simp add: str_def)
  then obtain token where e: "EncodeGroupInvite (replicate 32 7) (str ''team'') (str ''pw'') = Inr token"
    by (simp add: EncodeGroupInvite_def) (simp add: str_def)
  have "length (replicate 32 (7 :: byte)) = 32" "ValidString (str ''team'')" "ValidString (str ''pw'')"
    by (simp_all add: str_def ValidString_ascii)
  from group_invite_roundtrip [OF this e] e show ?thesis by blast
qed

section \<open>Contact invitations\<close>

record contactInvitation =
  CiVersion :: int
  CiPublicKey :: gostring
  CiCreatedAt :: int
  CiExpiresAt :: int
  CiSignature :: gostring

definition contact_fields :: "gostring list" where
  "contact_fields = map str [''v'', ''p'', ''c'', ''e'', ''s'']"

text \<open>The signature is left out when it is empty.\<close>

definition marshal_contact :: "contactInvitation \<Rightarrow> bytes" where
  "marshal_contact c =
     render (JObj (zip contact_fields
       ([JNum (FormatInt (CiVersion c)), JStr (CiPublicKey c), JNum (FormatInt (CiCreatedAt c)), JNum (FormatInt (CiExpiresAt c))] @
        (if CiSignature c = [] then [] else [JStr (CiSignature c)]))))"

definition set_contact :: "contactInvitation \<Rightarrow> gostring \<Rightarrow> json \<Rightarrow> contactInvitation option" where
  "set_contact c n v =
     (if n = str ''v'' then map_option (\<lambda>x. c\<lparr>CiVersion := x\<rparr>) (into_int v (CiVersion c))
      else if n = str ''p'' then map_option (\<lambda>x. c\<lparr>CiPublicKey := x\<rparr>) (into_string v (CiPublicKey c))
      else if n = str ''c'' then map_option (\<lambda>x. c\<lparr>CiCreatedAt := x\<rparr>) (into_int v (CiCreatedAt c))
      else if n = str ''e'' then map_option (\<lambda>x. c\<lparr>CiExpiresAt := x\<rparr>) (into_int v (CiExpiresAt c))
      else map_option (\<lambda>x. c\<lparr>CiSignature := x\<rparr>) (into_string v (CiSignature c)))"

definition unmarshal_contact :: "bytes \<Rightarrow> contactInvitation option" where
  "unmarshal_contact = unmarshal_struct set_contact contact_fields
     \<lparr>CiVersion = 0, CiPublicKey = [], CiCreatedAt = 0, CiExpiresAt = 0, CiSignature = []\<rparr>"

definition invitationPayload :: "contactInvitation \<Rightarrow> bytes" where
  "invitationPayload c = marshal_contact (c\<lparr>CiSignature := []\<rparr>)"

text \<open>\<^verbatim>\<open>time.Time.Unix\<close>: whole seconds of an instant in nanoseconds; int64 sums wrap.\<close>

definition Unix :: "instant \<Rightarrow> int" where
  "Unix t = t div 1000000000"

definition CreateInvitation :: "prims \<Rightarrow> instant \<Rightarrow> ChatSession \<Rightarrow> gostring" where
  "CreateInvitation P t s =
     (let now = Unix t;
          c = \<lparr>CiVersion = 1, CiPublicKey = EncodeToString (PublicKey (sid s)), CiCreatedAt = now,
               CiExpiresAt = sint (of_int (now + 604800) :: 64 word), CiSignature = []\<rparr>;
          signature = ed25519_sign P (PrivateKey (sid s)) (invitationPayload c)
      in str ''BFI1.'' @ b64_encode True (marshal_contact (c\<lparr>CiSignature := EncodeToString signature\<rparr>)))"

text \<open>
  \<open>t1\<close> and \<open>t2\<close> are the two readings of the clock. The session is \<open>None\<close> when it is nil or its database is
  closed.
\<close>

definition AcceptInvitation ::
  "prims \<Rightarrow> app_env \<Rightarrow> instant \<Rightarrow> instant \<Rightarrow> gostring \<Rightarrow> gostring \<Rightarrow> ChatSession option \<Rightarrow>
     ChatSession option \<times> (invite_error + bytes)" where
  "AcceptInvitation P ae t1 t2 token name session =
     (case session of
        None \<Rightarrow> (None, Inl ErrInviteSession)
      | Some s \<Rightarrow>
          if \<not> HasPrefix token (str ''BFI1.'') then (Some s, Inl ErrInviteFormat)
          else case b64_decode True (TrimPrefix token (str ''BFI1.'')) of
            None \<Rightarrow> (Some s, Inl ErrInviteBase64)
          | Some b \<Rightarrow>
              (case unmarshal_contact b of
                 None \<Rightarrow> (Some s, Inl ErrInviteJson)
               | Some c \<Rightarrow>
                   if CiVersion c \<noteq> 1 then (Some s, Inl ErrInviteJson)
                   else if CiExpiresAt c < Unix t1 \<or> CiCreatedAt c > Unix (t2 + 120 * 1000000000) then (Some s, Inl ErrInviteTime)
                   else
                     (case DecodeString (CiPublicKey c) of
                        None \<Rightarrow> (Some s, Inl ErrInviteKey)
                      | Some pub \<Rightarrow>
                          if length pub \<noteq> 32 then (Some s, Inl ErrInviteKey)
                          else
                            (case DecodeString (CiSignature c) of
                               None \<Rightarrow> (Some s, Inl ErrInviteSignature)
                             | Some sig \<Rightarrow>
                                 if length sig \<noteq> 64 \<or> \<not> ed25519_verify P pub (invitationPayload c) sig then (Some s, Inl ErrInviteSignature)
                                 else
                                   let name1 = (if TrimSpace name = [] then short_name pub else name) in
                                   (case AddContact P ae (to_array 32 pub) name1 (str ''via signerad E2E-CHATT-inbjudan'') s of
                                      (s1, Inl e) \<Rightarrow> (Some s1, Inl (ErrInviteContact e))
                                    | (s1, Inr _) \<Rightarrow> (Some s1, Inr (to_array 32 pub)))))))"

lemma contact_fields_eq: "contact_fields = [str ''v'', str ''p'', str ''c'', str ''e'', str ''s'']"
  by (simp add: contact_fields_def)

definition int64 :: "int \<Rightarrow> bool" where
  "int64 i \<longleftrightarrow> - (2 ^ 63) \<le> i \<and> i < 2 ^ 63"

lemma unmarshal_marshal_contact:
  assumes "int64 (CiVersion c)" "int64 (CiCreatedAt c)" "int64 (CiExpiresAt c)" "ValidString (CiPublicKey c)" "ValidString (CiSignature c)"
  shows "unmarshal_contact (marshal_contact c) = Some c"
proof -
  let ?ms = "zip contact_fields
       ([JNum (FormatInt (CiVersion c)), JStr (CiPublicKey c), JNum (FormatInt (CiCreatedAt c)), JNum (FormatInt (CiExpiresAt c))] @
        (if CiSignature c = [] then [] else [JStr (CiSignature c)]))"
  have "\<forall>f \<in> set contact_fields. ValidString f" by (simp add: contact_fields_eq str_def ValidString_ascii)
  then have "readable 10000 (JObj ?ms)" using assms(4,5) by (auto simp: contact_fields_eq)
  then have p: "json_parse (marshal_contact c) = Some (JObj ?ms)" unfolding marshal_contact_def by (rule json_roundtrip)
  have d: "str ''v'' \<noteq> str ''p''" "str ''v'' \<noteq> str ''c''" "str ''v'' \<noteq> str ''e''" "str ''v'' \<noteq> str ''s''" "str ''p'' \<noteq> str ''c''"
    "str ''p'' \<noteq> str ''e''" "str ''p'' \<noteq> str ''s''" "str ''c'' \<noteq> str ''e''" "str ''c'' \<noteq> str ''s''" "str ''e'' \<noteq> str ''s''"
    by (simp_all add: str_def)
  have i: "ParseInt (FormatInt (CiVersion c)) = Some (CiVersion c)" "ParseInt (FormatInt (CiCreatedAt c)) = Some (CiCreatedAt c)"
    "ParseInt (FormatInt (CiExpiresAt c)) = Some (CiExpiresAt c)"
    using assms(1-3) by (simp_all add: int64_def ParseInt_FormatInt)
  show ?thesis
    unfolding unmarshal_contact_def unmarshal_struct_def p
    using d i by (cases "CiSignature c = []") (simp_all add: contact_fields_eq field_of_def set_contact_def into_int_def into_string_def)
qed

lemma sint_int64: "0 \<le> i \<Longrightarrow> i < 2 ^ 63 \<Longrightarrow> sint (of_int i :: 64 word) = i"
  by (simp add: signed_of_int signed_take_bit_int_eq_self)

lemma AddContact_saved:
  assumes "ae_save ae" "sizes_ok P" "aead_ok P" "length pk = 32"
  obtains s1 n where "AddContact P ae pk name note s = (s1, Inr ())" "sid s1 = sid s"
    "GetNickname P True pk (sdb s1) = Inr n" "NName n = name"
proof -
  let ?n = "\<lparr>NPubkey = pk, NName = name, NNote = note, NAddedAt = 0, NTrustHint = 0\<rparr>"
  let ?r = "SetNickname P True (ae_now ae) (ae_seal ae) (ae_seal2 ae) ?n (sdb s)"
  obtain d1 where d: "?r = (d1, Inr ())" by (auto simp: SetNickname_def Let_def)
  show thesis
  proof (rule that)
    show "AddContact P ae pk name note s = (s\<lparr>sdb := d1\<rparr>, Inr ())" using assms(1) d by (simp add: AddContact_def)
    show "GetNickname P True pk (sdb (s\<lparr>sdb := d1\<rparr>)) = Inr (?n\<lparr>NAddedAt := (case map_of (nicknames (sdb s)) pk of Some old \<Rightarrow> nk_added old
        | None \<Rightarrow> ae_now ae)\<rparr>)"
      using nickname_upsert [OF assms(2,3), of ?n pk "ae_now ae" "ae_seal ae" "ae_seal2 ae" "sdb s"] assms(4) d by simp
  qed simp_all
qed

lemma AcceptInvitation_step:
  assumes "HasPrefix token (str ''BFI1.'')" "b64_decode True (TrimPrefix token (str ''BFI1.'')) = Some b" "unmarshal_contact b = Some c"
    and "CiVersion c = 1" "CiCreatedAt c \<le> Unix (t2 + 120 * 1000000000)" "DecodeString (CiPublicKey c) = Some pub" "length pub = 32"
    and "DecodeString (CiSignature c) = Some sig" "length sig = 64" "ed25519_verify P pub (invitationPayload c) sig"
  shows "AcceptInvitation P ae t1 t2 token name (Some r) =
    (if CiExpiresAt c < Unix t1 then (Some r, Inl ErrInviteTime)
     else (case AddContact P ae pub (if TrimSpace name = [] then short_name pub else name) (str ''via signerad E2E-CHATT-inbjudan'') r of
        (s1, Inl e) \<Rightarrow> (Some s1, Inl (ErrInviteContact e)) | (s1, Inr _) \<Rightarrow> (Some s1, Inr pub)))"
  using assms unfolding AcceptInvitation_def Let_def by simp

lemma created_invitation:
  assumes "sizes_ok P" "sign_ok P" "aead_ok P" "wf_identity P (sid s)" "0 \<le> t" "Unix t + 604800 < 2 ^ 63" "ae_save ae"
    and "Unix t \<le> Unix (t2 + 120 * 1000000000)"
  shows "(Unix t1 \<le> Unix t + 604800 \<longrightarrow>
      (\<exists>r' n. AcceptInvitation P ae t1 t2 (CreateInvitation P t s) name (Some r) = (Some r', Inr (PublicKey (sid s))) \<and>
         GetNickname P True (PublicKey (sid s)) (sdb r') = Inr n \<and>
         NName n = (if TrimSpace name = [] then short_name (PublicKey (sid s)) else name))) \<and>
    (Unix t1 > Unix t + 604800 \<longrightarrow> AcceptInvitation P ae t1 t2 (CreateInvitation P t s) name (Some r) = (Some r, Inl ErrInviteTime))"
proof -
  let ?pub = "PublicKey (sid s)" and ?priv = "PrivateKey (sid s)"
  let ?c = "\<lparr>CiVersion = 1, CiPublicKey = EncodeToString ?pub, CiCreatedAt = Unix t, CiExpiresAt = Unix t + 604800, CiSignature = []\<rparr>"
  let ?sig = "ed25519_sign P ?priv (invitationPayload ?c)"
  let ?i = "?c\<lparr>CiSignature := EncodeToString ?sig\<rparr>"
  have u: "0 \<le> Unix t" using assms(5) by (simp add: Unix_def)
  then have week: "sint (of_int (Unix t + 604800) :: 64 word) = Unix t + 604800"
    using assms(6) by (intro sint_int64) simp_all
  have tok: "CreateInvitation P t s = str ''BFI1.'' @ b64_encode True (marshal_contact ?i)"
    unfolding CreateInvitation_def Let_def week ..
  have wf: "wf_priv P ?priv" "?pub = Public ?priv" using assms(4) by (simp_all add: wf_identity_def)
  have len: "length ?pub = 32" "length ?sig = 64" using assms(1) wf by (simp_all add: wf_priv_length length_Public sizes_okD)
  have ver: "ed25519_verify P ?pub (invitationPayload ?i) ?sig"
    using Verify_sign [OF assms(1,2) wf(1), of "invitationPayload ?c"] wf(2) by (simp add: Verify_def invitationPayload_def)
  have un: "unmarshal_contact (marshal_contact ?i) = Some ?i"
    using u assms(6) by (intro unmarshal_marshal_contact) (simp_all add: int64_def ValidString_hex)
  have accept: "AcceptInvitation P ae t1 t2 (CreateInvitation P t s) name (Some r) =
     (if Unix t + 604800 < Unix t1 then (Some r, Inl ErrInviteTime)
      else (case AddContact P ae ?pub (if TrimSpace name = [] then short_name ?pub else name) (str ''via signerad E2E-CHATT-inbjudan'') r of
         (s1, Inl e) \<Rightarrow> (Some s1, Inl (ErrInviteContact e)) | (s1, Inr _) \<Rightarrow> (Some s1, Inr ?pub)))"
    unfolding tok by (subst AcceptInvitation_step [OF _ _ un _ _ _ len(1) _ len(2) ver]) (use assms(8) in simp_all)
  obtain s1 n where "AddContact P ae ?pub (if TrimSpace name = [] then short_name ?pub else name) (str ''via signerad E2E-CHATT-inbjudan'') r = (s1, Inr ())"
    "sid s1 = sid r" "GetNickname P True ?pub (sdb s1) = Inr n" "NName n = (if TrimSpace name = [] then short_name ?pub else name)"
    by (rule AddContact_saved [OF assms(7,1,3) len(1)])
  then show ?thesis unfolding accept by simp
qed

text \<open>
  C24. An invitation introduces its maker for a week. Within its time an invitation that a session created is
  accepted by every other session, which returns the maker's public key and stores it under the name the
  recipient chose, or a name made from the key; after a week it is refused and nothing is stored.
\<close>

theorem invitation_accepted:
  assumes "sizes_ok P" "sign_ok P" "aead_ok P" "wf_identity P (sid s)" "0 \<le> t" "Unix t + 604800 < 2 ^ 63" "ae_save ae"
    and "Unix t \<le> Unix (t2 + 120 * 1000000000)"
  shows "(Unix t1 \<le> Unix t + 604800 \<longrightarrow>
      (\<exists>r' n. AcceptInvitation P ae t1 t2 (CreateInvitation P t s) name (Some r) = (Some r', Inr (PublicKey (sid s))) \<and>
         GetNickname P True (PublicKey (sid s)) (sdb r') = Inr n \<and>
         NName n = (if TrimSpace name = [] then short_name (PublicKey (sid s)) else name))) \<and>
    (Unix t1 > Unix t + 604800 \<longrightarrow> AcceptInvitation P ae t1 t2 (CreateInvitation P t s) name (Some r) = (Some r, Inl ErrInviteTime))"
  using assms by (rule created_invitation)

lemma demo_chat_session_wf: "wf_identity demo_prims (sid (demo_chat_session b))"
  by (simp add: wf_identity_def demo_chat_session_def demo_key_wf)

theorem invitation_accepted_witness:
  "\<exists>r' n. AcceptInvitation demo_prims demo_env 0 0 (CreateInvitation demo_prims 0 (demo_chat_session 3)) (str ''friend'') (Some (demo_chat_session 4)) =
       (Some r', Inr (PublicKey (sid (demo_chat_session 3)))) \<and>
     GetNickname demo_prims True (PublicKey (sid (demo_chat_session 3))) (sdb r') = Inr n \<and> NName n = str ''friend''"
proof -
  have "TrimSpace (str ''friend'') = str ''friend''" by (rule TrimSpace_plain) (simp add: str_def)
  moreover have "str ''friend'' \<noteq> []" by (simp add: str_def)
  moreover have "(0 :: int) \<le> 0" "Unix 0 + 604800 < 2 ^ 63" "ae_save demo_env" "Unix 0 \<le> Unix (0 + 120 * 1000000000)" "Unix 0 \<le> Unix 0 + 604800"
    by (simp_all add: Unix_def demo_env_def)
  note w = this
  ultimately show ?thesis
    using invitation_accepted [OF demo_ok(1-3) demo_chat_session_wf w(1-4), of 0 3 "str ''friend''" "demo_chat_session 4"] by simp
qed

lemma AddContact_effect:
  assumes "AddContact P ae pub name note s = (s', r)"
  shows "\<forall>e. r = Inl e \<longrightarrow> s' = s" "pk \<noteq> pub \<Longrightarrow> map_of (nicknames (sdb s')) pk = map_of (nicknames (sdb s)) pk"
  using assms by (auto simp: AddContact_def SetNickname_def Let_def map_of_upsert split: if_splits)

text \<open>
  C20. Only a signed invitation makes a contact. Whatever the token is, when accepting it returns a key, the
  token decodes to an invitation of version 1 for that key, neither expired nor from the future, with a
  signature of that invitation's payload that the key verifies; the key is stored as a contact under the
  name the recipient chose, or one made from the key, and no other contact is touched. When the token is
  refused, nothing changes.
\<close>

theorem invitation_authentic:
  assumes "AcceptInvitation P ae t1 t2 token name s = (s', res)"
  shows "(\<forall>pub. res = Inr pub \<longrightarrow> (\<exists>b c sig s0 s1.
       HasPrefix token (str ''BFI1.'') \<and> b64_decode True (TrimPrefix token (str ''BFI1.'')) = Some b \<and>
       unmarshal_contact b = Some c \<and> CiVersion c = 1 \<and>
       DecodeString (CiPublicKey c) = Some pub \<and> length pub = 32 \<and>
       DecodeString (CiSignature c) = Some sig \<and> length sig = 64 \<and> ed25519_verify P pub (invitationPayload c) sig \<and>
       Unix t1 \<le> CiExpiresAt c \<and> CiCreatedAt c \<le> Unix (t2 + 120 * 1000000000) \<and>
       s = Some s0 \<and> s' = Some s1 \<and>
       AddContact P ae pub (if TrimSpace name = [] then short_name pub else name) (str ''via signerad E2E-CHATT-inbjudan'') s0 =
         (s1, Inr ()) \<and>
       (\<forall>pk. pk \<noteq> pub \<longrightarrow> map_of (nicknames (sdb s1)) pk = map_of (nicknames (sdb s0)) pk))) \<and>
    (\<forall>e. res = Inl e \<longrightarrow> s' = s)"
proof -
  have same: "s1 = s0" if "AddContact P ae pk nm nt s0 = (s1, Inl e)" for pk nm nt s0 s1 e
    using AddContact_effect(1) [OF that] by simp
  have others: "\<forall>pk'. pk' \<noteq> pk \<longrightarrow> map_of (nicknames (sdb s1)) pk' = map_of (nicknames (sdb s0)) pk'"
    if "AddContact P ae pk nm nt s0 = (s1, r)" for pk nm nt s0 s1 r
    using AddContact_effect(2) [OF that] by blast
  have ok: "\<exists>b c sig s0 s1.
       HasPrefix token (str ''BFI1.'') \<and> b64_decode True (TrimPrefix token (str ''BFI1.'')) = Some b \<and>
       unmarshal_contact b = Some c \<and> CiVersion c = 1 \<and>
       DecodeString (CiPublicKey c) = Some pub \<and> length pub = 32 \<and>
       DecodeString (CiSignature c) = Some sig \<and> length sig = 64 \<and> ed25519_verify P pub (invitationPayload c) sig \<and>
       Unix t1 \<le> CiExpiresAt c \<and> CiCreatedAt c \<le> Unix (t2 + 120 * 1000000000) \<and>
       s = Some s0 \<and> s' = Some s1 \<and>
       AddContact P ae pub (if TrimSpace name = [] then short_name pub else name) (str ''via signerad E2E-CHATT-inbjudan'') s0 =
         (s1, Inr ())" if "res = Inr pub" for pub
    using assms that
    by (cases s) (simp_all add: AcceptInvitation_def Let_def not_less
        split: if_split_asm option.split_asm prod.split_asm sum.split_asm)
  moreover have "s' = s" if "res = Inl e" for e
    using assms that
    apply (cases s)
     apply (simp_all add: AcceptInvitation_def Let_def split: if_split_asm option.split_asm prod.split_asm sum.split_asm)
     apply (drule same, simp)+
    done
  ultimately show ?thesis
    apply (intro conjI allI impI)
    subgoal for pub
      apply (drule meta_spec, drule (1) meta_mp, elim exE)
      subgoal for b c sig s0 s1
        by (rule exI [of _ b], rule exI [of _ c], rule exI [of _ sig], rule exI [of _ s0], rule exI [of _ s1])
          (elim conjE, intro conjI, (assumption | erule others)+)
      done
    subgoal by simp
    done
qed

theorem invitation_authentic_witness:
  "\<exists>token r' pub b c sig. token = CreateInvitation demo_prims 0 (demo_chat_session 3) \<and>
     AcceptInvitation demo_prims demo_env 0 0 token [] (Some (demo_chat_session 4)) = (Some r', Inr pub) \<and>
     b64_decode True (TrimPrefix token (str ''BFI1.'')) = Some b \<and> unmarshal_contact b = Some c \<and>
     DecodeString (CiPublicKey c) = Some pub \<and> ed25519_verify demo_prims pub (invitationPayload c) sig"
proof -
  have w: "(0 :: int) \<le> 0" "Unix 0 + 604800 < 2 ^ 63" "ae_save demo_env" "Unix 0 \<le> Unix (0 + 120 * 1000000000)" "Unix 0 \<le> Unix 0 + 604800"
    by (simp_all add: Unix_def demo_env_def)
  obtain r' pub where a: "AcceptInvitation demo_prims demo_env 0 0 (CreateInvitation demo_prims 0 (demo_chat_session 3)) []
      (Some (demo_chat_session 4)) = (Some r', Inr pub)"
    using created_invitation [OF demo_ok(1-3) demo_chat_session_wf w(1-4), of 0 3 "[]" "demo_chat_session 4"] w(5) by blast
  show ?thesis
    using invitation_authentic [THEN conjunct1, rule_format, OF a refl] a by (elim exE conjE) (intro exI conjI, (rule refl | assumption)+)
qed

section \<open>Joining by invitation\<close>

text \<open>
  C19. An invited member reads the group. One session creates a group and hands out its invitation; another decodes
  the token and unlocks the group with what it found. Then whatever the first sends to the group through its
  daemon is an envelope that the second decrypts to the same text, group and sender.
\<close>

theorem invited_member_reads:
  assumes "sizes_ok P" "aead_ok P" "msgpack_ok M" "ValidString (GName g)" "ValidString password"
    and "CreatePrivateGroup P ae0 C0 name password s0 w0 = (s, w1, Inr g)"
    and "EncodeGroupInvite (GID g) (GName g) password = Inr token"
    and "DecodeGroupInvite token = Inr (i, name2, password2)"
    and "UnlockPrivateGroup P ae2 C2 i password2 name2 t0 v0 = (t, v1, Inr ())"
    and "SendPrivateGroup P M ae at (Some c) (GID g) content s w = (s', w', Inr m)"
  shows "name2 = GName g \<and> (\<exists>env m2. dc_send c env w = (w', True) \<and> DecryptGroupMessage P M env t = Some m2 \<and>
    AmContent m2 = content \<and> AmGroupID m2 = GID g \<and> AmSender m2 = Public (PrivateKey (sid s0)))"
proof -
  obtain key where k: "DeriveGroupKey P password (GID g) = Inr key" "map_of (sgroups s) (GID g) = Some key" "sid s = sid s0"
    using CreatePrivateGroup_key [OF assms(6)] by blast
  have "length (GID g) = 32"
    using assms(6) unfolding CreatePrivateGroup_def Let_def by (auto split: if_splits sum.splits prod.splits)
  then have d: "i = GID g" "name2 = GName g" "password2 = password"
    using group_invite_decodes [OF _ assms(4,5,7)] assms(8) by simp_all
  have "map_of (sgroups t) (GID g) = Some key" using UnlockPrivateGroup_key [OF assms(9)] k(1) d by simp
  from sent_message_opens [OF assms(1-3) k(2) this assms(10)] d(2) k(3) show ?thesis by simp metis
qed

theorem invited_member_reads_witness:
  "\<exists>M g s token i nm pw t env m2.
     CreatePrivateGroup demo_prims demo_env (Some demo_client) (str ''team'') (str ''pw'') (demo_chat_session 1) [] = (s, [], Inr g) \<and>
     EncodeGroupInvite (GID g) (GName g) (str ''pw'') = Inr token \<and> DecodeGroupInvite token = Inr (i, nm, pw) \<and>
     UnlockPrivateGroup demo_prims demo_env (Some demo_client) i pw nm (demo_chat_session 2) [] = (t, [], Inr ()) \<and>
     DecryptGroupMessage demo_prims M env t = Some m2 \<and> AmContent m2 = str ''hi''"
proof -
  have tr: "TrimSpace (str ''team'') = str ''team''" "TrimSpace (str ''pw'') = str ''pw''" by (rule TrimSpace_plain, simp add: str_def)+
  obtain s g where a: "CreatePrivateGroup demo_prims demo_env (Some demo_client) (str ''team'') (str ''pw'') (demo_chat_session 1) [] = (s, [], Inr g)"
    using demo_creates by blast
  have g: "length (GID g) = 32" "GName g = str ''team''"
    using a tr unfolding CreatePrivateGroup_def Let_def by (auto split: if_splits sum.splits prod.splits)
  have v: "ValidString (GName g)" "ValidString (str ''pw'')" unfolding g by (simp_all add: str_def ValidString_ascii)
  obtain token where tok: "EncodeGroupInvite (GID g) (GName g) (str ''pw'') = Inr token"
    by (simp add: EncodeGroupInvite_def tr) (simp add: str_def)
  have dec: "DecodeGroupInvite token = Inr (GID g, GName g, str ''pw'')" using group_invite_decodes [OF g(1) v tok] by simp
  obtain t where b: "UnlockPrivateGroup demo_prims demo_env (Some demo_client) (GID g) (str ''pw'') (GName g) (demo_chat_session 2) [] = (t, [], Inr ())"
    using demo_unlocks [of "GID g" "GName g"] by blast
  obtain key where k: "map_of (sgroups s) (GID g) = Some key" "sid s = sid (demo_chat_session 1)"
    using CreatePrivateGroup_key [OF a] by blast
  obtain env s' m where c: "SendPrivateGroup demo_prims
      (demo_msgpack (ChatPayload (GID g) (b64_encode False (EncryptGroup demo_prims [5] key (GID g) (str ''hi''))) []) [1, 2, 3])
      demo_env 7 (Some demo_client) (GID g) (str ''hi'') s [] = (s', [env], Inr m)"
    using demo_group_sends [OF k(1), of 1 "str ''hi''"] k(2) by (auto simp: demo_chat_session_def str_def)
  from invited_member_reads [OF demo_sizes_ok demo_aead_ok demo_msgpack_ok v a tok dec b c] show ?thesis using a tok dec b by blast
qed

end
