(* ===== verification/App_Chat_View.thy ===== *)
theory App_Chat_View
  imports App_Session
begin

text \<open>
  \<^verbatim>\<open>internal/tui/app.go\<close>, the chat of the analyzer: what the program does with the messages of a session, which of them
  tot as unread, and which are on the screen. Colours, sounds' playback and the input line are left to the rendering. A Go map
  is a function with the zero value where it has no entry; a nil map reads in the same way. The cursor is never negative.
\<close>

section \<open>The state\<close>

record ChatView =
  CvSession :: "ChatSession option"
  CvShown :: bool
  CvCursor :: nat
  CvChannels :: "AppChannel list"
  CvMessages :: "bytes \<Rightarrow> ChatMessage list"
  CvContacts :: "Contact list"
  CvGroups :: "PrivateGroup list"
  CvActive :: "bytes option"
  CvGroupMessages :: "bytes \<Rightarrow> GroupMessage list"
  CvRead :: "bytes \<Rightarrow> int"
  CvScroll :: int

datatype chat_cmd = ChatWait | ChatSound

definition gandrMaxMessagesPerConversation :: nat where "gandrMaxMessagesPerConversation = 1000"
definition gandrVisibleWindowSize :: int where "gandrVisibleWindowSize = 18"
definition gandrScrollPageSize :: int where "gandrScrollPageSize = 10"

definition gandrMarkChannelRead :: "bytes \<Rightarrow> ChatView \<Rightarrow> ChatView" where
  "gandrMarkChannelRead i v = v\<lparr>CvRead := (CvRead v)(i := int (length (CvMessages v i)))\<rparr>"

definition gandrMarkGroupRead :: "bytes \<Rightarrow> ChatView \<Rightarrow> ChatView" where
  "gandrMarkGroupRead i v = v\<lparr>CvRead := (CvRead v)(i := int (length (CvGroupMessages v i)))\<rparr>"

definition gandrUnreadCount :: "ChatView \<Rightarrow> bytes \<Rightarrow> nat \<Rightarrow> int" where
  "gandrUnreadCount v i tot = (let n = int tot - CvRead v i in if n > 0 then n else 0)"

definition gandrTrimAndAdjustReadCount :: "bytes \<Rightarrow> 'm list \<Rightarrow> ChatView \<Rightarrow> ChatView \<times> 'm list" where
  "gandrTrimAndAdjustReadCount i ms v =
     (let trimmed = int (length ms) - int gandrMaxMessagesPerConversation in
      if trimmed \<le> 0 then (v, ms)
      else (v\<lparr>CvRead := (CvRead v)(i := (if CvRead v i - trimmed > 0 then CvRead v i - trimmed else 0))\<rparr>, drop (nat trimmed) ms))"

definition appendGandrMessage :: "ChatMessage \<Rightarrow> ChatView \<Rightarrow> ChatView" where
  "appendGandrMessage m v =
     (let ch = CmChannelID m in
      if CmHash m \<noteq> replicate 32 0 \<and> CmHash m \<in> CmHash ` set (CvMessages v ch) then v
      else case gandrTrimAndAdjustReadCount ch (CvMessages v ch @ [m]) v of
        (v1, ms) \<Rightarrow> v1\<lparr>CvMessages := (CvMessages v1)(ch := ms)\<rparr>)"

text \<open>The channel whose transcript is on the screen.\<close>

definition shown_channel :: "ChatView \<Rightarrow> bytes option" where
  "shown_channel v =
     (if CvShown v \<and> CvActive v = None \<and> CvCursor v < length (CvChannels v) then Some (AcID (CvChannels v ! CvCursor v)) else None)"

definition wait_again :: "ChatView \<Rightarrow> chat_cmd list" where
  "wait_again v = (if CvSession v = None then [] else [ChatWait])"

definition on_gandrIncoming :: "prims \<Rightarrow> app_env \<Rightarrow> ChatMessage \<Rightarrow> ChatView \<Rightarrow> ChatView \<times> chat_cmd list" where
  "on_gandrIncoming P ae m v0 =
     (let v1 = v0\<lparr>CvSession := map_option
                    (\<lambda>s. fst (SaveMessage P ae \<lparr>CmHash = CmHash m, CmChannelID = CmChannelID m, CmSender = CmSender m, CmContent = CmContent m,
                       CmAt = CmAt m, CmLocal = False\<rparr> s)) (CvSession v0)\<rparr>;
          v2 = appendGandrMessage m v1;
          v3 = (if shown_channel v2 = Some (CmChannelID m) then gandrMarkChannelRead (CmChannelID m) v2 else v2)
      in (v3, (if CmLocal m then [] else [ChatSound]) @ wait_again v3))"

definition on_gandrGroupIncoming :: "prims \<Rightarrow> app_env \<Rightarrow> GroupMessage \<Rightarrow> ChatView \<Rightarrow> ChatView \<times> chat_cmd list" where
  "on_gandrGroupIncoming P ae m v0 =
     (let i = AmGroupID m;
          v1 = v0\<lparr>CvSession := map_option (\<lambda>s. fst (SaveReceivedPrivateGroupMessage P ae m s)) (CvSession v0)\<rparr>;
          own = (case CvSession v1 of None \<Rightarrow> False | Some s \<Rightarrow> AmSender m = session_PublicKey s)
      in case gandrTrimAndAdjustReadCount i (CvGroupMessages v1 i @ [m]) v1 of
        (v2, ms) \<Rightarrow>
          let v3 = v2\<lparr>CvGroupMessages := (CvGroupMessages v2)(i := ms)\<rparr>;
              v4 = (if CvShown v3 \<and> CvActive v3 = Some i then gandrMarkGroupRead i v3 else v3)
          in (v4, (if own then [] else [ChatSound]) @ wait_again v4))"

text \<open>\<open>srt\<close> is the order of the rows of a query. The histories are loaded one channel after the other.\<close>

definition load_history :: "prims \<Rightarrow> app_env \<Rightarrow> ((bytes \<times> chat_row) list \<Rightarrow> (bytes \<times> chat_row) list) \<Rightarrow> ChatSession \<Rightarrow> AppChannel \<Rightarrow>
    (bytes \<Rightarrow> ChatMessage list) \<Rightarrow> bytes \<Rightarrow> ChatMessage list" where
  "load_history P ae srt s c ms =
     (case ChannelMessages P ae srt (AcID c) 200 s of
        Inl _ \<Rightarrow> ms
      | Inr history \<Rightarrow> ms(AcID c := ms (AcID c) @ history))"

definition on_gandrSession ::
  "prims \<Rightarrow> app_env \<Rightarrow> ((bytes \<times> chat_row) list \<Rightarrow> (bytes \<times> chat_row) list) \<Rightarrow> ChatSession \<Rightarrow> AppChannel list \<Rightarrow> PrivateGroup list \<Rightarrow>
     ChatView \<Rightarrow> ChatView" where
  "on_gandrSession P ae srt s chs groups v0 =
     (let v = v0\<lparr>CvSession := Some s, CvChannels := chs, CvGroups := groups, CvActive := None, CvGroupMessages := (\<lambda>_. []),
                 CvContacts := (case Contacts P ae s of Inl _ \<Rightarrow> [] | Inr cs \<Rightarrow> cs),
                 CvMessages := fold (load_history P ae srt s) chs (\<lambda>_. []), CvRead := (\<lambda>_. 0)\<rparr>
      in fold (\<lambda>c v. gandrMarkChannelRead (AcID c) v) chs v)"

text \<open>\<open>messages\<close> is None where the command fetched none.\<close>

definition on_gandrGroup :: "PrivateGroup list \<Rightarrow> bytes option \<Rightarrow> GroupMessage list option \<Rightarrow> ChatView \<Rightarrow> ChatView" where
  "on_gandrGroup groups active messages v0 =
     (let v = v0\<lparr>CvGroups := groups, CvActive := active, CvScroll := 0\<rparr> in
      case active of
        None \<Rightarrow> v
      | Some i \<Rightarrow>
          gandrMarkGroupRead i
            (case messages of None \<Rightarrow> v | Some ms \<Rightarrow> v\<lparr>CvGroupMessages := (CvGroupMessages v)(i := ms)\<rparr>))"

definition on_gandrChannels :: "AppChannel list \<Rightarrow> ChatView \<Rightarrow> ChatView" where
  "on_gandrChannels chs v = v\<lparr>CvChannels := chs, CvCursor := min (CvCursor v) (length chs - 1)\<rparr>"

definition closeGandrSession :: "ChatView \<Rightarrow> ChatView" where
  "closeGandrSession v =
     (case CvSession v of
        None \<Rightarrow> v
      | Some _ \<Rightarrow> v\<lparr>CvSession := None, CvChannels := [], CvMessages := (\<lambda>_. []), CvContacts := [], CvGroups := [], CvActive := None,
                    CvGroupMessages := (\<lambda>_. [])\<rparr>)"

text \<open>The arrow keys of the chat view, and the page keys. \<open>n\<close> is the number of rows of the view.\<close>

definition chat_move :: "int \<Rightarrow> nat \<Rightarrow> ChatView \<Rightarrow> ChatView" where
  "chat_move delta n v0 =
     (let v = v0\<lparr>CvScroll := 0, CvCursor := (if n = 0 then CvCursor v0 else nat ((int (CvCursor v0) + delta + int n) mod int n))\<rparr> in
      if CvActive v = None \<and> CvCursor v < length (CvChannels v) then gandrMarkChannelRead (AcID (CvChannels v ! CvCursor v)) v else v)"

definition chat_pgdown :: "ChatView \<Rightarrow> ChatView" where
  "chat_pgdown v = v\<lparr>CvScroll := max 0 (CvScroll v - gandrScrollPageSize)\<rparr>"

definition chat_pgup :: "ChatView \<Rightarrow> ChatView" where
  "chat_pgup v = v\<lparr>CvScroll := CvScroll v + gandrScrollPageSize\<rparr>"

section \<open>Receiving\<close>

datatype chat_event = ChatIncoming ChatMessage | ChatGroupIncoming GroupMessage | ChatClosed

text \<open>The loop of \<^verbatim>\<open>waitGandrIncoming\<close>, over what the channel delivers until it is closed.\<close>

fun waitGandrIncoming :: "prims \<Rightarrow> msgpack \<Rightarrow> ChatSession \<Rightarrow> Envelope list \<Rightarrow> chat_event \<times> Envelope list" where
  "waitGandrIncoming P M s [] = (ChatClosed, [])"
| "waitGandrIncoming P M s (env # envs) =
     (case DecryptGroupMessage P M env s of
        Some g \<Rightarrow> (ChatGroupIncoming g, envs)
      | None \<Rightarrow>
          (case DecodeChat P M env of
             Inr m \<Rightarrow> (ChatIncoming m, envs)
           | Inl _ \<Rightarrow> waitGandrIncoming P M s envs))"

section \<open>The screen\<close>

definition gandrMessageWindow :: "int \<Rightarrow> int \<Rightarrow> int \<times> int \<times> bool" where
  "gandrMessageWindow tot scrollBack0 =
     (let s1 = (if scrollBack0 < 0 then 0 else scrollBack0);
          scrollBack = (if s1 > tot then tot else s1);
          end' = tot - scrollBack;
          start = (if end' - gandrVisibleWindowSize < 0 then 0 else end' - gandrVisibleWindowSize)
      in (start, end', end' < tot))"

record gandrVisibleMessage =
  VmSender :: bytes
  VmSelf :: bool
  VmAt :: "64 word"
  VmContent :: gostring

definition window_of :: "'m list \<Rightarrow> int \<Rightarrow> 'm list \<times> bool" where
  "window_of ms back =
     (case gandrMessageWindow (int (length ms)) back of (start, end', sc) \<Rightarrow> (drop (nat start) (take (nat end') ms), sc))"

definition gandrVisibleMessages :: "ChatView \<Rightarrow> gandrVisibleMessage list \<times> nat \<times> bool" where
  "gandrVisibleMessages v =
     (case CvActive v of
        Some i \<Rightarrow>
          (case window_of (CvGroupMessages v i) (CvScroll v) of
             (raw, sc) \<Rightarrow>
               (map (\<lambda>m. \<lparr>VmSender = AmSender m,
                          VmSelf = (case CvSession v of None \<Rightarrow> False | Some s \<Rightarrow> AmSender m = session_PublicKey s),
                          VmAt = AmAt m, VmContent = AmContent m\<rparr>) raw, 2, sc))
      | None \<Rightarrow>
          if CvChannels v = [] then ([], 0, False)
          else
            let channel = CvChannels v ! min (CvCursor v) (length (CvChannels v) - 1) in
            (case window_of (CvMessages v (AcID channel)) (CvScroll v) of
               (raw, sc) \<Rightarrow>
                 (map (\<lambda>m. \<lparr>VmSender = CmSender m, VmSelf = (CmLocal m \<or> CmSender m = replicate 32 0), VmAt = CmAt m, VmContent = CmContent m\<rparr>) raw,
                  3, sc)))"

definition gandrContactName :: "Contact list \<Rightarrow> bytes \<Rightarrow> gostring" where
  "gandrContactName contacts pubkey = (case find (\<lambda>c. KtPubkey c = pubkey) contacts of None \<Rightarrow> [] | Some c \<Rightarrow> KtName c)"

definition gandrUnknownOnlinePeers :: "(bytes \<times> gostring) list \<Rightarrow> Contact list \<Rightarrow> bytes list" where
  "gandrUnknownOnlinePeers peers contacts = filter (\<lambda>i. i \<notin> KtPubkey ` set contacts) (map fst peers)"

definition gandrPeerOnline :: "(bytes \<times> gostring) list \<Rightarrow> bytes \<Rightarrow> bool" where
  "gandrPeerOnline peers i \<longleftrightarrow> i \<in> fst ` set peers"

definition hasGandrDMs :: "PrivateGroup list \<Rightarrow> bool" where
  "hasGandrDMs groups \<longleftrightarrow> list_ex (\<lambda>g. PeerPubkey g \<noteq> None) groups"

definition hasGandrRealGroups :: "PrivateGroup list \<Rightarrow> bool" where
  "hasGandrRealGroups groups \<longleftrightarrow> list_ex (\<lambda>g. PeerPubkey g = None) groups"

section \<open>What is unread\<close>

lemma trim_spec:
  "gandrTrimAndAdjustReadCount i ms v =
     (v\<lparr>CvRead := (CvRead v)(i := (if length ms \<le> 1000 then CvRead v i else max 0 (CvRead v i - (int (length ms) - 1000))))\<rparr>,
      drop (length ms - 1000) ms)"
  by (simp add: gandrTrimAndAdjustReadCount_def gandrMaxMessagesPerConversation_def Let_def max_def nat_diff_distrib)

text \<open>A channel that is not on the screen: its lines, and the number of them that were read.\<close>

lemma append_other: "CmChannelID m \<noteq> ch \<Longrightarrow> CvMessages (appendGandrMessage m v) ch = CvMessages v ch \<and> CvRead (appendGandrMessage m v) ch = CvRead v ch"
  by (simp add: appendGandrMessage_def trim_spec Let_def)

lemma append_new:
  assumes "CmChannelID m = ch" "CmHash m \<notin> CmHash ` set (CvMessages v ch)"
  shows "CvMessages (appendGandrMessage m v) ch = drop (length (CvMessages v ch) - 999) (CvMessages v ch @ [m]) \<and>
    CvRead (appendGandrMessage m v) ch =
      (if length (CvMessages v ch) < 1000 then CvRead v ch else max 0 (CvRead v ch - (int (length (CvMessages v ch)) - 999)))"
  using assms by (simp add: appendGandrMessage_def trim_spec Let_def)

lemma append_frame [simp]:
  "shown_channel (appendGandrMessage m v) = shown_channel v" "CvSession (appendGandrMessage m v) = CvSession v"
  "CvScroll (appendGandrMessage m v) = CvScroll v" "CvActive (appendGandrMessage m v) = CvActive v"
  "CvChannels (appendGandrMessage m v) = CvChannels v" "CvCursor (appendGandrMessage m v) = CvCursor v" "CvShown (appendGandrMessage m v) = CvShown v"
  by (simp_all add: appendGandrMessage_def trim_spec shown_channel_def Let_def)

lemma session_frame [simp]:
  "appendGandrMessage m (v\<lparr>CvSession := s\<rparr>) = (appendGandrMessage m v)\<lparr>CvSession := s\<rparr>" "shown_channel (v\<lparr>CvSession := s\<rparr>) = shown_channel v"
  by (simp_all add: appendGandrMessage_def trim_spec shown_channel_def Let_def)

lemma mark_frame [simp]:
  "shown_channel (gandrMarkChannelRead ch v) = shown_channel v" "CvMessages (gandrMarkChannelRead ch v) = CvMessages v"
  "CvRead (gandrMarkChannelRead ch v) = (CvRead v)(ch := int (length (CvMessages v ch)))"
  by (simp_all add: gandrMarkChannelRead_def shown_channel_def)

definition incoming_run :: "prims \<Rightarrow> (app_env \<times> ChatMessage) list \<Rightarrow> ChatView \<Rightarrow> ChatView" where
  "incoming_run P ms v = foldl (\<lambda>v (ae, m). fst (on_gandrIncoming P ae m v)) v ms"

lemma incoming_run_simps [simp]:
  "incoming_run P [] v = v" "incoming_run P ((ae, m) # ms) v = incoming_run P ms (fst (on_gandrIncoming P ae m v))"
  by (simp_all add: incoming_run_def)

lemma incoming_off_screen:
  assumes "shown_channel v \<noteq> Some ch"
  shows "CvMessages (fst (on_gandrIncoming P ae m v)) ch = CvMessages (appendGandrMessage m v) ch \<and>
    CvRead (fst (on_gandrIncoming P ae m v)) ch = CvRead (appendGandrMessage m v) ch \<and>
    shown_channel (fst (on_gandrIncoming P ae m v)) = shown_channel v"
  using assms by (auto simp: on_gandrIncoming_def Let_def)

text \<open>The lines of a channel among some messages.\<close>

definition lines_for :: "bytes \<Rightarrow> (app_env \<times> ChatMessage) list \<Rightarrow> ChatMessage list" where
  "lines_for ch ms = filter (\<lambda>m. CmChannelID m = ch) (map snd ms)"

lemma lines_for_simps [simp]:
  "lines_for ch [] = []" "lines_for ch ((ae, m) # ms) = (if CmChannelID m = ch then m # lines_for ch ms else lines_for ch ms)"
  by (simp_all add: lines_for_def)

text \<open>
  The state of a channel after some arrivals: the newest thousand lines of \<open>old @ new\<close>, of which the lines of \<open>old\<close> that
  are left are read.
\<close>

definition tracks :: "ChatMessage list \<Rightarrow> ChatMessage list \<Rightarrow> bytes \<Rightarrow> ChatView \<Rightarrow> bool" where
  "tracks old new ch v \<longleftrightarrow>
     CvMessages v ch = drop (length old + length new - 1000) (old @ new) \<and>
     CvRead v ch = max 0 (int (length old) - int (length old + length new - 1000))"

lemma tracks_step:
  assumes "tracks old new ch v" "CmChannelID m = ch" "CmHash m \<notin> CmHash ` set (old @ new)"
  shows "tracks old (new @ [m]) ch (appendGandrMessage m v)"
proof -
  let ?n = "length old + length new"
  have l: "CvMessages v ch = drop (?n - 1000) (old @ new)" and r: "CvRead v ch = max 0 (int (length old) - int (?n - 1000))"
    using assms(1) by (simp_all add: tracks_def)
  have "set (CvMessages v ch) \<subseteq> set (old @ new)" unfolding l by (rule set_drop_subset)
  then have "CmHash m \<notin> CmHash ` set (CvMessages v ch)" using assms(3) by blast
  note a = append_new [OF assms(2) this]
  have "length (CvMessages v ch) = ?n - (?n - 1000)" unfolding l length_drop by simp
  then have len: "length (CvMessages v ch) = min ?n 1000" by arith
  have "drop (length (CvMessages v ch) - 999) (CvMessages v ch @ [m]) = drop (Suc ?n - 1000) (old @ new @ [m])"
  proof (cases "?n < 1000")
    case True
    then show ?thesis by (simp add: l)
  next
    case False
    have d: "drop (?n - 1000) (old @ new) @ [m] = drop (?n - 1000) (old @ new @ [m])" by simp
    have "drop 1 (drop (?n - 1000) (old @ new @ [m])) = drop (Suc ?n - 1000) (old @ new @ [m])"
      using False unfolding drop_drop by (intro arg_cong [of _ _ "\<lambda>k. drop k _"]) simp
    moreover have "length (CvMessages v ch) - 999 = 1" using False len by simp
    ultimately show ?thesis using d l by (metis)
  qed
  moreover have "CvRead (appendGandrMessage m v) ch = max 0 (int (length old) - int (Suc ?n - 1000))"
    using a r len by auto
  ultimately show ?thesis using a by (simp add: tracks_def)
qed

lemma tracks_run:
  assumes "shown_channel v \<noteq> Some ch" "tracks old new ch v" "distinct (map CmHash (old @ new @ lines_for ch ms))"
  shows "tracks old (new @ lines_for ch ms) ch (incoming_run P ms v)"
  using assms
proof (induction ms arbitrary: v new)
  case (Cons x ms)
  obtain ae m where x: "x = (ae, m)" by (cases x)
  let ?v = "fst (on_gandrIncoming P ae m v)"
  note off = incoming_off_screen [OF Cons.prems(1), of P ae m]
  show ?case
  proof (cases "CmChannelID m = ch")
    case True
    have "tracks old (new @ [m]) ch (appendGandrMessage m v)"
      using tracks_step [OF Cons.prems(2) True] Cons.prems(3) True by (simp add: x image_Un)
    then have "tracks old (new @ [m]) ch ?v" using off by (simp add: tracks_def)
    from Cons.IH [OF _ this] show ?thesis using Cons.prems(1,3) True off by (simp add: x)
  next
    case False
    then have "tracks old new ch ?v" using off append_other [OF False, of v] Cons.prems(2) by (simp add: tracks_def)
    from Cons.IH [OF _ this] show ?thesis using Cons.prems(1,3) False off by (simp add: x)
  qed
qed simp

lemma unread_arith:
  "a \<le> 1000 \<Longrightarrow>
    (if int (a + b - (a + b - 1000)) - max 0 (int a - int (a + b - 1000)) > 0
     then int (a + b - (a + b - 1000)) - max 0 (int a - int (a + b - 1000)) else 0) = min 1000 (int b)"
  by (cases "a + b \<le> 1000") (auto simp: max_def min_def of_nat_diff)

text \<open>
  C29. The unread count is the number of new messages. Of a channel that was read and is not on the screen, after any
  arrivals on any channels, the badge counts exactly the messages that arrived on it, up to the thousand lines that are
  kept, and those lines are the newest, in the order of arrival.
\<close>

theorem unread_exact:
  assumes "shown_channel v \<noteq> Some ch" "length (CvMessages v ch) \<le> 1000"
    and "distinct (map CmHash (CvMessages v ch @ lines_for ch ms))" "v' = incoming_run P ms (gandrMarkChannelRead ch v)"
  shows "gandrUnreadCount v' ch (length (CvMessages v' ch)) = min 1000 (int (length (lines_for ch ms))) \<and>
    CvMessages v' ch = drop (length (CvMessages v ch) + length (lines_for ch ms) - 1000) (CvMessages v ch @ lines_for ch ms)"
proof -
  have "shown_channel (gandrMarkChannelRead ch v) \<noteq> Some ch" "tracks (CvMessages v ch) [] ch (gandrMarkChannelRead ch v)"
    using assms(1,2) by (simp_all add: tracks_def)
  from tracks_run [OF this, of ms P] assms(3,4) have "tracks (CvMessages v ch) (lines_for ch ms) ch v'" by simp
  then have l: "CvMessages v' ch = drop (length (CvMessages v ch) + length (lines_for ch ms) - 1000) (CvMessages v ch @ lines_for ch ms)"
    and r: "CvRead v' ch = max 0 (int (length (CvMessages v ch)) - int (length (CvMessages v ch) + length (lines_for ch ms) - 1000))"
    by (simp_all add: tracks_def)
  have "length (CvMessages v' ch) =
      length (CvMessages v ch) + length (lines_for ch ms) - (length (CvMessages v ch) + length (lines_for ch ms) - 1000)"
    unfolding l length_drop by simp
  then have "gandrUnreadCount v' ch (length (CvMessages v' ch)) = min 1000 (int (length (lines_for ch ms)))"
    using unread_arith [OF assms(2)] r by (simp add: gandrUnreadCount_def Let_def del: of_nat_diff)
  then show ?thesis using l by simp
qed

section \<open>The window\<close>

lemma window_bounds:
  assumes "0 \<le> n" "gandrMessageWindow n back = (s, e, sc)"
  shows "0 \<le> s" "s \<le> e" "e \<le> n" "e - s \<le> 18" "sc \<longleftrightarrow> 0 < n \<and> 0 < back"
  using assms by (auto simp: gandrMessageWindow_def gandrVisibleWindowSize_def Let_def split: if_splits)

lemma decoded_not_local: "DecodeChat P M env = Inr m \<Longrightarrow> \<not> CmLocal m"
  by (auto simp: DecodeChat_def split: sum.splits if_splits Payload.splits)

lemma wait_not_local: "waitGandrIncoming P M s envs = (ChatIncoming m, r) \<Longrightarrow> \<not> CmLocal m"
  by (induction envs) (auto split: option.splits sum.splits dest: decoded_not_local)

text \<open>
  A message that arrives is seen. When the daemon delivers a message of the channel on the screen and the
  transcript is not scrolled back, the message is the last visible line, it counts as read, it is stored in the client's
  database under its hash, and the program waits for the next one; at most eighteen lines are visible.
\<close>

theorem incoming_is_shown:
  assumes "waitGandrIncoming P M s envs = (ChatIncoming m, rest)" "shown_channel v = Some (CmChannelID m)" "CvScroll v = 0"
    and "CvSession v = Some s" "CmHash m \<notin> CmHash ` set (CvMessages v (CmChannelID m))" "ae_save ae"
    and "on_gandrIncoming P ae m v = (v', cmds)" "gandrVisibleMessages v' = (rows, h, sc)"
  shows "rows \<noteq> [] \<and> VmSender (last rows) = CmSender m \<and> VmContent (last rows) = CmContent m \<and> VmAt (last rows) = CmAt m \<and>
    gandrUnreadCount v' (CmChannelID m) (length (CvMessages v' (CmChannelID m))) = 0 \<and>
    (\<exists>s'. CvSession v' = Some s' \<and> CmHash m \<in> fst ` set (chat_messages (sdb s'))) \<and> ChatWait \<in> set cmds \<and>
    length rows \<le> 18"
proof -
  let ?ch = "CmChannelID m"
  have dec: "CmLocal m = False" using wait_not_local [OF assms(1)] by simp
  let ?s = "fst (SaveMessage P ae m s)"
  let ?a = "appendGandrMessage m (v\<lparr>CvSession := Some ?s\<rparr>)"
  have m: "\<lparr>CmHash = CmHash m, CmChannelID = ?ch, CmSender = CmSender m, CmContent = CmContent m, CmAt = CmAt m, CmLocal = False\<rparr> = m"
    using dec by (cases m) simp
  have v': "v' = gandrMarkChannelRead ?ch ?a" "cmds = [ChatSound, ChatWait]"
    using assms(2,4,7) dec m by (auto simp: on_gandrIncoming_def wait_again_def gandrMarkChannelRead_def Let_def)
  have line: "CvMessages v' ?ch = drop (length (CvMessages v ?ch) - 999) (CvMessages v ?ch @ [m])"
    using append_new [OF refl assms(5)] by (simp add: v'(1) gandrMarkChannelRead_def)
  then obtain ms where ms: "CvMessages v' ?ch = ms @ [m]" by (cases "length (CvMessages v ?ch) \<le> 999") auto
  have scr: "CvActive v' = None" "CvScroll v' = 0" "CvChannels v' \<noteq> []" "AcID (CvChannels v' ! min (CvCursor v') (length (CvChannels v') - 1)) = ?ch"
    using assms(2,3) by (auto simp: v'(1) gandrMarkChannelRead_def shown_channel_def split: if_splits)
  have "window_of (ms @ [m]) 0 = (drop (Suc (length ms) - 18) (ms @ [m]), False)"
    by (simp add: window_of_def gandrMessageWindow_def gandrVisibleWindowSize_def Let_def nat_diff_distrib)
  then have rows: "rows = map (\<lambda>m. \<lparr>VmSender = CmSender m, VmSelf = (CmLocal m \<or> CmSender m = replicate 32 0), VmAt = CmAt m, VmContent = CmContent m\<rparr>)
      (drop (Suc (length ms) - 18) (ms @ [m]))"
    using assms(8) scr ms by (simp add: gandrVisibleMessages_def Let_def)
  have "drop (Suc (length ms) - 18) (ms @ [m]) = drop (Suc (length ms) - 18) ms @ [m]" by simp
  moreover have "CmHash m \<in> fst ` set (chat_messages (sdb ?s))"
    using assms(6) by (auto simp: SaveMessage_def SaveChatMessage_def insert_ignore_def map_of_eq_None_iff Let_def)
  ultimately show ?thesis using v' by (simp add: rows gandrUnreadCount_def gandrMarkChannelRead_def)
qed

text \<open>
  A scrolled transcript does not stay where it is: each message that arrives moves the window by one. And a page up in a
  transcript shorter than a page leaves no line on the screen.
\<close>

theorem scrolled_window_moves:
  assumes "gandrMessageWindow n back = (s, e, sc)" "0 < back" "back \<le> n"
  shows "fst (snd (gandrMessageWindow (n + 1) back)) = e + 1"
  using assms by (auto simp: gandrMessageWindow_def Let_def)

theorem page_up_past_start:
  assumes "int (length ms) \<le> 10"
  shows "fst (window_of ms (0 + gandrScrollPageSize)) = []"
  using assms by (auto simp: window_of_def gandrMessageWindow_def gandrScrollPageSize_def gandrVisibleWindowSize_def Let_def)

section \<open>Concrete runs\<close>

definition demo_view :: "ChatSession option \<Rightarrow> bool \<Rightarrow> ChatView" where
  "demo_view s shown = \<lparr>CvSession = s, CvShown = shown, CvCursor = 0, CvChannels = [\<lparr>AcID = replicate 32 1, AcName = []\<rparr>], CvMessages = (\<lambda>_. []),
     CvContacts = [], CvGroups = [], CvActive = None, CvGroupMessages = (\<lambda>_. []), CvRead = (\<lambda>_. 0), CvScroll = 0\<rparr>"

definition demo_line :: "byte \<Rightarrow> ChatMessage" where
  "demo_line b = \<lparr>CmHash = replicate 32 b, CmChannelID = replicate 32 1, CmSender = replicate 32 7, CmContent = [b], CmAt = 5, CmLocal = False\<rparr>"

theorem unread_exact_witness:
  "gandrUnreadCount (incoming_run demo_prims [(demo_env, demo_line 1), (demo_env, demo_line 2)] (gandrMarkChannelRead (replicate 32 1) (demo_view None False)))
     (replicate 32 1) (length (CvMessages (incoming_run demo_prims [(demo_env, demo_line 1), (demo_env, demo_line 2)]
        (gandrMarkChannelRead (replicate 32 1) (demo_view None False))) (replicate 32 1))) = 2"
proof (rule trans)
  let ?ms = "[(demo_env, demo_line 1), (demo_env, demo_line 2)]"
  have h: "shown_channel (demo_view None False) \<noteq> Some (replicate 32 1)" "length (CvMessages (demo_view None False) (replicate 32 1)) \<le> 1000"
    "distinct (map CmHash (CvMessages (demo_view None False) (replicate 32 1) @ lines_for (replicate 32 1) ?ms))"
    by (simp_all add: demo_view_def demo_line_def shown_channel_def)
  show "gandrUnreadCount (incoming_run demo_prims ?ms (gandrMarkChannelRead (replicate 32 1) (demo_view None False))) (replicate 32 1)
      (length (CvMessages (incoming_run demo_prims ?ms (gandrMarkChannelRead (replicate 32 1) (demo_view None False))) (replicate 32 1))) =
    min 1000 (int (length (lines_for (replicate 32 1) ?ms)))"
    by (rule unread_exact [OF h refl, THEN conjunct1])
  show "min 1000 (int (length (lines_for (replicate 32 1) ?ms))) = 2" by (simp add: demo_line_def)
qed

definition demo_chat :: Envelope where
  "demo_chat = \<lparr>Version = 1, Type = MsgChat, Timestamp = 5, Sender = replicate 32 7, Recipient = replicate 32 1, Payload = [9], Signature = []\<rparr>"

theorem incoming_is_shown_witness:
  "\<exists>m. waitGandrIncoming demo_prims (demo_pack [(ChatPayload (replicate 32 1) [104] [], [9])]) (demo_chat_session 3) [demo_chat] = (ChatIncoming m, []) \<and>
     (\<exists>rows h sc. gandrVisibleMessages (fst (on_gandrIncoming demo_prims demo_env m (demo_view (Some (demo_chat_session 3)) True))) = (rows, h, sc) \<and>
        rows \<noteq> [] \<and> VmContent (last rows) = [104])"
proof -
  let ?M = "demo_pack [(ChatPayload (replicate 32 1) [104] [], [9])]"
  let ?m = "\<lparr>CmHash = ContentID demo_prims demo_chat, CmChannelID = replicate 32 1, CmSender = replicate 32 7, CmContent = [104], CmAt = 5, CmLocal = False\<rparr>"
  have "Validate (ChatPayload (replicate 32 1) [104] []) = Inr ()" by code_simp
  then have d: "DecodePayload ?M [9] (ChatPayload (zero_array 32) [] []) = Inr (ChatPayload (replicate 32 1) [104] [])"
    by (simp add: DecodePayload_def demo_pack_def del: Validate.simps)
  have f: "Payload demo_chat = [9]" "Type demo_chat = MsgChat" "Sender demo_chat = replicate 32 7" "Timestamp demo_chat = 5" by (simp_all add: demo_chat_def)
  have "DecryptGroupMessage demo_prims ?M demo_chat (demo_chat_session 3) = None" using d f by (simp add: DecryptGroupMessage_def demo_chat_session_def)
  moreover have "DecodeChat demo_prims ?M demo_chat = Inr ?m" using d f by (simp add: DecodeChat_def)
  ultimately have w: "waitGandrIncoming demo_prims ?M (demo_chat_session 3) [demo_chat] = (ChatIncoming ?m, [])" by simp
  obtain v' cmds where o: "on_gandrIncoming demo_prims demo_env ?m (demo_view (Some (demo_chat_session 3)) True) = (v', cmds)" by (cases "on_gandrIncoming demo_prims demo_env ?m (demo_view (Some (demo_chat_session 3)) True)")
  obtain rows h sc where r: "gandrVisibleMessages v' = (rows, h, sc)" by (cases "gandrVisibleMessages v'")
  have "rows \<noteq> [] \<and> VmContent (last rows) = [104]"
    using incoming_is_shown [OF w _ _ _ _ _ o r] by (simp add: demo_view_def shown_channel_def demo_env_def)
  then show ?thesis using w o r by (intro exI [of _ ?m]) simp
qed

end
