(* ===== verification/Flashback_Links.thy ===== *)
theory Flashback_Links
  imports Go_Strings
begin

text \<open>
  \<^verbatim>\<open>internal/flashback/models.go\<close> and \<^verbatim>\<open>links.go\<close>: the records of the forum reader, and which addresses of the forum are forums, threads, posts and users, and the
  identifiers in them. The regular expressions are matched by hand, with the case folding of \<^verbatim>\<open>(?i)\<close>:
  a letter, its capital and, for s, the long s U+017F. \<^verbatim>\<open>net/url\<close> and the Unicode lower case of
  \<^verbatim>\<open>strings.ToLower\<close> are the parameter \<open>net_url\<close>; \<open>net_url_ok\<close> is what the code relies on, stated for absolute
  addresses of plain characters.
\<close>

record ForumNode =
  FID :: gostring
  FTitle :: gostring
  FURL :: gostring
  FParentID :: gostring
  FDepth :: int
  FSortOrder :: int
  FHasChildren :: bool
  FBrowsable :: bool

record ThreadSummary =
  TID :: gostring
  TTitle :: gostring
  TURL :: gostring
  TForumID :: gostring
  TAuthor :: gostring
  TReplies :: int
  TViews :: int
  TLastPostAt :: instant
  TLastPostAuthor :: gostring
  TSticky :: bool
  TPageCount :: int

record Quote =
  QPostID :: gostring
  QAuthor :: gostring
  QText :: gostring

record Post =
  PID :: gostring
  PThreadID :: gostring
  PAuthor :: gostring
  PTimestamp :: instant
  PPage :: int
  PPosition :: int
  PText :: gostring
  PRawText :: gostring
  PSourceURL :: gostring
  PQuotes :: "Quote list"

record ParsedPage =
  PgThreadID :: gostring
  PgTitle :: gostring
  PgPage :: int
  PgMaxPage :: int
  PgSourceURL :: gostring
  PgPosts :: "Post list"

datatype LinkType = LinkOther | LinkForum | LinkThread | LinkPost | LinkUser

record url =
  Scheme :: gostring
  Host :: gostring
  Path :: gostring
  RawQuery :: gostring
  Fragment :: gostring

record net_url =
  url_Parse :: "gostring \<Rightarrow> url option"
  ResolveReference :: "url \<Rightarrow> url \<Rightarrow> url"
  url_String :: "url \<Rightarrow> gostring"
  Query_Get :: "gostring \<Rightarrow> gostring \<Rightarrow> gostring"
  ToLower :: "gostring \<Rightarrow> gostring"

section \<open>The patterns\<close>

definition ascii_digit :: "byte \<Rightarrow> bool" where
  "ascii_digit c \<longleftrightarrow> 48 \<le> unat c \<and> unat c \<le> 57"

fun fold_match :: "gostring \<Rightarrow> gostring \<Rightarrow> gostring option" where
  "fold_match [] s = Some s"
| "fold_match (p # ps) [] = None"
| "fold_match (p # ps) (c # s) =
     (if c = p \<or> (97 \<le> unat p \<and> unat p \<le> 122 \<and> c + 32 = p) then fold_match ps s
      else if p = 115 \<and> c = 197 \<and> s \<noteq> [] \<and> hd s = 191 then fold_match ps (tl s)
      else None)"

definition dash_tail :: "gostring \<Rightarrow> bool" where
  "dash_tail t \<longleftrightarrow> t = [] \<or> hd t = 45 \<and> 47 \<notin> set t"

text \<open>A prefix, digits and a tail; the digits are the group of the pattern.\<close>

definition number_path :: "gostring \<Rightarrow> (gostring \<Rightarrow> bool) \<Rightarrow> gostring \<Rightarrow> gostring option" where
  "number_path prefix tail path =
     (case fold_match prefix path of
        None \<Rightarrow> None
      | Some r \<Rightarrow> if takeWhile ascii_digit r \<noteq> [] \<and> tail (dropWhile ascii_digit r) then Some (takeWhile ascii_digit r) else None)"

definition forumPath :: "gostring \<Rightarrow> gostring option" where
  "forumPath = number_path (str ''/f'') dash_tail"

definition sitemapForumPath :: "gostring \<Rightarrow> gostring option" where
  "sitemapForumPath = number_path (str ''/sitemap/index.php/f-'') (\<lambda>t. fold_match (str ''.html'') t = Some [])"

definition thread_tail :: "gostring \<Rightarrow> bool" where
  "thread_tail t \<longleftrightarrow>
     dash_tail t \<or>
     (case fold_match (str ''p'') t of None \<Rightarrow> False | Some r \<Rightarrow> takeWhile ascii_digit r \<noteq> [] \<and> dash_tail (dropWhile ascii_digit r)) \<or>
     list_ex (\<lambda>p. case fold_match p t of None \<Rightarrow> False | Some r \<Rightarrow> dash_tail r) [str ''n'', str ''s'', str ''lp'']"

definition threadPath :: "gostring \<Rightarrow> gostring option" where
  "threadPath = number_path (str ''/t'') thread_tail"

definition postPath :: "gostring \<Rightarrow> gostring option" where
  "postPath = number_path (str ''/p'') (\<lambda>t. t = [])"

definition userPath :: "gostring \<Rightarrow> gostring option" where
  "userPath = number_path (str ''/u'') (\<lambda>t. t = [])"

section \<open>Addresses\<close>

definition BaseURL :: gostring where "BaseURL = str ''https://www.flashback.org/''"

definition HasSuffix :: "gostring \<Rightarrow> gostring \<Rightarrow> bool" where
  "HasSuffix s t \<longleftrightarrow> length t \<le> length s \<and> drop (length s - length t) s = t"

definition trim_char :: "byte \<Rightarrow> gostring \<Rightarrow> gostring" where
  "trim_char c s = rev (dropWhile (\<lambda>x. x = c) (rev s))"

definition NormalizeURL :: "net_url \<Rightarrow> gostring \<Rightarrow> gostring \<Rightarrow> gostring" where
  "NormalizeURL N href base0 =
     (let base = (if base0 = [] then BaseURL else base0) in
      case url_Parse N base of
        None \<Rightarrow> TrimSpace href
      | Some b \<Rightarrow>
          (case url_Parse N (TrimSpace href) of
             None \<Rightarrow> []
           | Some ref \<Rightarrow>
               let r0 = ResolveReference N b ref;
                   r1 = r0\<lparr>Scheme := ToLower N (Scheme r0), Host := ToLower N (Host r0), Fragment := []\<rparr>;
                   r2 = (if HasSuffix (ToLower N (Host r1)) (str ''flashback.org'') then r1\<lparr>RawQuery := []\<rparr> else r1);
                   r3 = (if Path r2 \<noteq> [47] then r2\<lparr>Path := trim_char 47 (Path r2)\<rparr> else r2)
               in url_String N r3))"

definition ClassifyURL :: "net_url \<Rightarrow> gostring \<Rightarrow> gostring \<Rightarrow> LinkType" where
  "ClassifyURL N href base =
     (case url_Parse N (NormalizeURL N href base) of
        None \<Rightarrow> LinkOther
      | Some u \<Rightarrow>
          let path = Path u in
          if forumPath path \<noteq> None \<or> sitemapForumPath path \<noteq> None \<or> Query_Get N (RawQuery u) (str ''f'') \<noteq> [] then LinkForum
          else if HasSuffix (ToLower N path) (str ''lp'') \<and> HasPrefix (ToLower N path) (str ''/f'') \<or> userPath path \<noteq> None then LinkUser
          else if threadPath path \<noteq> None then LinkThread
          else if postPath path \<noteq> None \<or> HasSuffix path (str ''/showpost.php'') \<and> Query_Get N (RawQuery u) (str ''p'') \<noteq> [] then LinkPost
          else LinkOther)"

definition ForumID :: "net_url \<Rightarrow> gostring \<Rightarrow> gostring" where
  "ForumID N raw =
     (case url_Parse N raw of
        None \<Rightarrow> []
      | Some u \<Rightarrow>
          (case forumPath (Path u) of
             Some d \<Rightarrow> d
           | None \<Rightarrow>
               (case sitemapForumPath (Path u) of
                  Some d \<Rightarrow> d
                | None \<Rightarrow> Query_Get N (RawQuery u) (str ''f''))))"

definition CanonicalForumURL :: "net_url \<Rightarrow> gostring \<Rightarrow> gostring" where
  "CanonicalForumURL N rawURL =
     (case url_Parse N (NormalizeURL N rawURL BaseURL) of
        None \<Rightarrow> rawURL
      | Some u \<Rightarrow>
          (case sitemapForumPath (Path u) of
             Some d \<Rightarrow> url_String N (u\<lparr>Path := str ''/f'' @ d, RawQuery := [], Fragment := []\<rparr>)
           | None \<Rightarrow> url_String N u))"

definition ThreadID :: "net_url \<Rightarrow> gostring \<Rightarrow> gostring" where
  "ThreadID N raw =
     (case url_Parse N raw of None \<Rightarrow> [] | Some u \<Rightarrow> (case threadPath (Path u) of Some d \<Rightarrow> d | None \<Rightarrow> []))"

definition PostID :: "net_url \<Rightarrow> gostring \<Rightarrow> gostring" where
  "PostID N raw =
     (case url_Parse N raw of None \<Rightarrow> [] | Some u \<Rightarrow> (case postPath (Path u) of Some d \<Rightarrow> d | None \<Rightarrow> []))"

section \<open>What the code relies on\<close>

definition url_char :: "byte \<Rightarrow> bool" where
  "url_char c \<longleftrightarrow> 97 \<le> unat c \<and> unat c \<le> 122 \<or> ascii_digit c \<or> c = 45 \<or> c = 46"

text \<open>
  Absolute, of small letters, digits, dots, dashes and slashes, with no dot segment, no trailing slash and neither query
  nor fragment.
\<close>

definition plain_url :: "url \<Rightarrow> bool" where
  "plain_url u \<longleftrightarrow>
     Scheme u \<in> {str ''http'', str ''https''} \<and> Host u \<noteq> [] \<and> list_all url_char (Host u) \<and>
     Path u \<noteq> [] \<and> hd (Path u) = 47 \<and> last (Path u) \<noteq> 47 \<and> list_all (\<lambda>c. url_char c \<or> c = 47) (Path u) \<and>
     successively (\<lambda>a b. \<not> (a = 47 \<and> (b = 46 \<or> b = 47))) (Path u) \<and> RawQuery u = [] \<and> Fragment u = []"

definition net_url_ok :: "net_url \<Rightarrow> bool" where
  "net_url_ok N \<longleftrightarrow>
     url_Parse N BaseURL \<noteq> None \<and>
     (\<forall>u. plain_url u \<longrightarrow> url_Parse N (url_String N u) = Some u \<and> (\<forall>b. ResolveReference N b u = u) \<and>
        TrimSpace (url_String N u) = url_String N u) \<and>
     (\<forall>s. list_all url_char s \<longrightarrow> ToLower N s = s) \<and>
     (\<forall>k. Query_Get N [] k = [])"

section \<open>Properties\<close>

lemma number_path_digits: "number_path pre tail s = Some d \<Longrightarrow> d \<noteq> [] \<and> list_all ascii_digit d"
  by (auto simp: number_path_def list_all_iff dest: set_takeWhileD split: option.splits if_splits)

lemma ascii_digit_url_char: "ascii_digit c \<Longrightarrow> url_char c"
  by (simp add: url_char_def)

lemma takeWhile_digits: "list_all ascii_digit d \<Longrightarrow> takeWhile ascii_digit d = d \<and> dropWhile ascii_digit d = []"
  by (simp add: list_all_iff takeWhile_eq_all_conv)

lemma forumPath_canonical: "d \<noteq> [] \<Longrightarrow> list_all ascii_digit d \<Longrightarrow> forumPath (str ''/f'' @ d) = Some d"
  by (simp add: forumPath_def number_path_def str_def takeWhile_digits dash_tail_def)

lemma fold_match_Cons:
  assumes "fold_match (p # ps) s = Some r"
  obtains c t where "s = c # t" "c = p \<or> 97 \<le> unat p \<and> c + 32 = p \<or> c = 197" "c \<noteq> 197 \<Longrightarrow> fold_match ps t = Some r"
proof (cases s)
  case (Cons c t)
  then show thesis using that [of c t] assms by (auto split: if_splits)
qed (use assms in simp)

text \<open>What follows the first slash of a sitemap address is no f.\<close>

lemma sitemap_start:
  assumes "sitemapForumPath s = Some d"
  obtains c r where "s = 47 # c # r" "c = 115 \<or> c = 83 \<or> c = 197"
proof -
  obtain r where f: "fold_match (47 # 115 # str ''itemap/index.php/f-'') s = Some r"
    using assms by (auto simp: sitemapForumPath_def number_path_def str_def split: option.splits)
  show thesis
  proof (cases s)
    case (Cons a t)
    then have a: "a = 47" "fold_match (115 # str ''itemap/index.php/f-'') t = Some r"
      using f by (simp_all add: if_split_asm del: fold_match.simps(3)) (simp_all split: if_splits)
    from fold_match_Cons [OF a(2)] obtain c u where c: "t = c # u" "c = 115 \<or> c + 32 = 115 \<or> c = 197" by blast
    have "c + 32 = 115 \<Longrightarrow> c = 115 - 32" by (simp add: eq_diff_eq)
    then have "c = 115 \<or> c = 83 \<or> c = 197" using c(2) by auto
    then show thesis using that Cons a(1) c(1) by blast
  qed (use f in simp)
qed

lemma sitemap_not_forum: "sitemapForumPath s = Some d \<Longrightarrow> forumPath s = None"
  by (erule sitemap_start) (auto simp: forumPath_def number_path_def str_def)

lemma canonical_not_sitemap: "sitemapForumPath (str ''/f'' @ d) = None"
proof (cases "sitemapForumPath (str ''/f'' @ d)")
  case (Some x)
  then show ?thesis by (rule sitemap_start) (simp add: str_def)
qed

lemma digits_path:
  assumes "d \<noteq> []" "list_all ascii_digit d"
  shows "successively (\<lambda>a b. \<not> (a = 47 \<and> (b = 46 \<or> b = 47))) (str ''/f'' @ d)" "last (str ''/f'' @ d) \<noteq> 47"
proof -
  have "last d \<in> set d" using assms(1) by simp
  then have "ascii_digit (last d)" using assms(2) by (simp add: list_all_iff)
  then show "last (str ''/f'' @ d) \<noteq> 47" using assms(1) by (auto simp: ascii_digit_def)
  have "successively (\<lambda>a b. \<not> (a = 47 \<and> (b = 46 \<or> b = 47))) d" using assms(2)
    by (induction d) (auto simp: ascii_digit_def successively_Cons)
  then show "successively (\<lambda>a b. \<not> (a = 47 \<and> (b = 46 \<or> b = 47))) (str ''/f'' @ d)"
    using assms by (cases d) (auto simp: str_def successively_Cons)
qed

lemma plain_canonical:
  assumes "plain_url u" "d \<noteq> []" "list_all ascii_digit d"
  shows "plain_url (u\<lparr>Path := str ''/f'' @ d, RawQuery := [], Fragment := []\<rparr>)"
  using assms digits_path [OF assms(2,3)]
  by (auto simp: plain_url_def list_all_iff ascii_digit_url_char str_def url_char_def)

lemma plain_lower:
  assumes "net_url_ok N" "plain_url u"
  shows "ToLower N (Scheme u) = Scheme u" "ToLower N (Host u) = Host u"
  using assms by (auto simp: net_url_ok_def plain_url_def str_def url_char_def)

lemma NormalizeURL_plain:
  assumes "net_url_ok N" "plain_url u" "url_Parse N b \<noteq> None" "b \<noteq> []"
  shows "NormalizeURL N (url_String N u) b = url_String N u"
proof -
  have "hd (rev (Path u)) \<noteq> 47" using assms(2) by (simp add: plain_url_def hd_rev)
  then have "dropWhile (\<lambda>x. x = 47) (rev (Path u)) = rev (Path u)" by (simp add: dropWhile_eq_self_iff)
  then have "trim_char 47 (Path u) = Path u" by (simp add: trim_char_def)
  moreover have "url_Parse N (TrimSpace (url_String N u)) = Some u" "ResolveReference N v u = u" for v
    using assms(1,2) by (simp_all add: net_url_ok_def)
  moreover have "u\<lparr>Scheme := Scheme u, Host := Host u, Fragment := []\<rparr> = u" "u\<lparr>RawQuery := []\<rparr> = u"
    using assms(2) by (simp_all add: plain_url_def)
  ultimately show ?thesis using assms(3,4) plain_lower [OF assms(1,2)]
    by (auto simp: NormalizeURL_def Let_def)
qed

text \<open>
  A sitemap address is turned into an address for browsing without losing the forum: the canonical address has
  the path \<^verbatim>\<open>/f\<close> and the identifier, it names the same forum as the sitemap address, both count as forum links,
  and canonicalising it again changes nothing.
\<close>

theorem canonical_forum:
  assumes "net_url_ok N" "plain_url u" "sitemapForumPath (Path u) = Some d"
  shows "CanonicalForumURL N (url_String N u) = url_String N (u\<lparr>Path := str ''/f'' @ d\<rparr>) \<and>
    ForumID N (url_String N u) = d \<and> ForumID N (CanonicalForumURL N (url_String N u)) = d \<and>
    ClassifyURL N (url_String N u) BaseURL = LinkForum \<and>
    ClassifyURL N (CanonicalForumURL N (url_String N u)) BaseURL = LinkForum \<and>
    CanonicalForumURL N (CanonicalForumURL N (url_String N u)) = CanonicalForumURL N (url_String N u)"
proof -
  let ?v = "u\<lparr>Path := str ''/f'' @ d, RawQuery := [], Fragment := []\<rparr>"
  have d: "d \<noteq> []" "list_all ascii_digit d"
    using assms(3) number_path_digits unfolding sitemapForumPath_def by blast+
  have v: "plain_url ?v" "?v = u\<lparr>Path := str ''/f'' @ d\<rparr>"
    using plain_canonical [OF assms(2) d] assms(2) by (simp_all add: plain_url_def)
  have b: "url_Parse N BaseURL \<noteq> None" "BaseURL \<noteq> []" using assms(1) by (simp_all add: net_url_ok_def BaseURL_def str_def)
  have p: "url_Parse N (url_String N w) = Some w" if "plain_url w" for w using assms(1) that by (simp add: net_url_ok_def)
  note n = NormalizeURL_plain [OF assms(1) _ b]
  have c: "CanonicalForumURL N (url_String N u) = url_String N ?v"
    using assms(3) by (simp add: CanonicalForumURL_def n [OF assms(2)] p [OF assms(2)])
  have "CanonicalForumURL N (url_String N ?v) = url_String N ?v"
    unfolding CanonicalForumURL_def n [OF v(1)] p [OF v(1)] by (simp add: canonical_not_sitemap)
  moreover have "ForumID N (url_String N u) = d" "ForumID N (url_String N ?v) = d"
    unfolding ForumID_def p [OF v(1)] p [OF assms(2)] using assms(3)
    by (simp_all add: forumPath_canonical [OF d] sitemap_not_forum)
  moreover have "ClassifyURL N (url_String N u) BaseURL = LinkForum" "ClassifyURL N (url_String N ?v) BaseURL = LinkForum"
    unfolding ClassifyURL_def n [OF v(1)] p [OF v(1)] n [OF assms(2)] p [OF assms(2)] using assms(3)
    by (simp_all add: forumPath_canonical [OF d])
  ultimately show ?thesis using c v(2) by simp
qed

text \<open>The address as the code writes it, and reading it back.\<close>

definition demo_net_url :: net_url where
  "demo_net_url =
     \<lparr>url_Parse = (\<lambda>s. let r = drop 3 (dropWhile (\<lambda>c. c \<noteq> 58) s) in
        Some \<lparr>Scheme = takeWhile (\<lambda>c. c \<noteq> 58) s, Host = takeWhile (\<lambda>c. c \<noteq> 47) r, Path = dropWhile (\<lambda>c. c \<noteq> 47) r, RawQuery = [], Fragment = []\<rparr>),
      ResolveReference = (\<lambda>b r. r),
      url_String = (\<lambda>u. Scheme u @ str ''://'' @ Host u @ Path u),
      Query_Get = (\<lambda>q k. []),
      ToLower = ascii_lower\<rparr>"

lemma demo_parse:
  assumes "plain_url u"
  shows "url_Parse demo_net_url (url_String demo_net_url u) = Some u"
proof -
  have s: "Scheme u = str ''http'' \<or> Scheme u = str ''https''" using assms by (auto simp: plain_url_def)
  have h: "\<forall>c \<in> set (Host u). c \<noteq> 47" using assms by (auto simp: plain_url_def list_all_iff url_char_def ascii_digit_def)
  obtain r where r: "Path u = 47 # r" using assms by (cases "Path u") (auto simp: plain_url_def)
  have "takeWhile (\<lambda>c. c \<noteq> 58) (Scheme u @ 58 # t) = Scheme u" "dropWhile (\<lambda>c. c \<noteq> 58) (Scheme u @ 58 # t) = 58 # t" for t
    using s by (auto simp: str_def)
  moreover have "takeWhile (\<lambda>c. c \<noteq> 47) (Host u @ 47 # r) = Host u" "dropWhile (\<lambda>c. c \<noteq> 47) (Host u @ 47 # r) = 47 # r"
    using h by (simp_all add: takeWhile_append2 dropWhile_append2)
  moreover have "RawQuery u = []" "Fragment u = []" using assms by (simp_all add: plain_url_def)
  ultimately show ?thesis by (simp add: demo_net_url_def str_def r Let_def)
qed

lemma space_back_ascii: "unat c < 128 \<Longrightarrow> \<not> space1 c \<Longrightarrow> space_back (c # r) = 0"
  by (auto simp: space_back_def space2_def space3_def split: list.split)

lemma demo_TrimSpace:
  assumes "plain_url u"
  shows "TrimSpace (url_String demo_net_url u) = url_String demo_net_url u"
proof (rule TrimSpace_id)
  show "space_front (url_String demo_net_url u) = 0"
    using assms by (auto simp: plain_url_def demo_net_url_def str_def space_front_def space1_def space2_def space3_def)
  have l: "last (Path u) \<in> set (Path u)" "Path u \<noteq> []" using assms by (simp_all add: plain_url_def)
  then have "url_char (last (Path u)) \<or> last (Path u) = 47" using assms by (auto simp: plain_url_def list_all_iff)
  then have c: "unat (last (Path u)) < 128 \<and> \<not> space1 (last (Path u))" by (auto simp: url_char_def ascii_digit_def space1_def)
  have "rev (Path u) = last (Path u) # tl (rev (Path u))" using l by (metis hd_rev list.collapse rev_is_Nil_conv)
  then have "rev (url_String demo_net_url u) = last (Path u) # tl (rev (Path u)) @ rev (Scheme u @ str ''://'' @ Host u)"
    by (simp add: demo_net_url_def)
  then show "space_back (rev (url_String demo_net_url u)) = 0"
    using c by (simp add: space_back_ascii)
qed

lemma demo_net_url_ok: "net_url_ok demo_net_url"
proof -
  have "ascii_lower s = s" if "list_all url_char s" for s
    using that by (induction s) (auto simp: ascii_lower_def url_char_def ascii_digit_def)
  then show ?thesis
    by (simp add: net_url_ok_def demo_parse demo_TrimSpace) (simp add: demo_net_url_def Let_def)
qed

definition demo_sitemap_url :: url where
  "demo_sitemap_url =
     \<lparr>Scheme = str ''https'', Host = str ''www.flashback.org'', Path = str ''/sitemap/index.php/f-21.html'', RawQuery = [], Fragment = []\<rparr>"

theorem canonical_forum_witness:
  "CanonicalForumURL demo_net_url (str ''https://www.flashback.org/sitemap/index.php/f-21.html'') = str ''https://www.flashback.org/f21'' \<and>
   ForumID demo_net_url (str ''https://www.flashback.org/f21'') = str ''21''"
proof -
  have "plain_url demo_sitemap_url"
    by (simp add: demo_sitemap_url_def plain_url_def str_def url_char_def ascii_digit_def)
  moreover have "sitemapForumPath (Path demo_sitemap_url) = Some (str ''21'')"
    by (simp add: demo_sitemap_url_def sitemapForumPath_def number_path_def str_def ascii_digit_def)
  moreover have "url_String demo_net_url demo_sitemap_url = str ''https://www.flashback.org/sitemap/index.php/f-21.html''"
    "url_String demo_net_url (demo_sitemap_url\<lparr>Path := str ''/f'' @ str ''21''\<rparr>) = str ''https://www.flashback.org/f21''"
    by (simp_all add: demo_sitemap_url_def demo_net_url_def str_def)
  ultimately show ?thesis using canonical_forum [OF demo_net_url_ok, of demo_sitemap_url "str ''21''"] by metis
qed

text \<open>
  The host of a link is not looked at: an address of any other site whose path has the form of a forum's counts as a
  forum link, and the crawl that follows such links leaves the forum's site.
\<close>

theorem forum_link_any_host:
  assumes "net_url_ok N" "plain_url u" "forumPath (Path u) = Some d"
  shows "ClassifyURL N (url_String N u) BaseURL = LinkForum \<and> ForumID N (url_String N u) = d"
proof -
  have b: "url_Parse N BaseURL \<noteq> None" "BaseURL \<noteq> []" using assms(1) by (simp_all add: net_url_ok_def BaseURL_def str_def)
  have p: "url_Parse N (url_String N u) = Some u" using assms(1,2) by (simp add: net_url_ok_def)
  show ?thesis unfolding ClassifyURL_def ForumID_def NormalizeURL_plain [OF assms(1,2) b] p using assms(3) by simp
qed

theorem forum_link_any_host_witness:
  "ClassifyURL demo_net_url (str ''http://elsewhere.example/f1'') BaseURL = LinkForum"
proof -
  define u where "u = \<lparr>Scheme = str ''http'', Host = str ''elsewhere.example'', Path = str ''/f1'', RawQuery = [], Fragment = []\<rparr>"
  have "plain_url u" by (simp add: u_def plain_url_def str_def url_char_def ascii_digit_def)
  moreover have "forumPath (Path u) = Some (str ''1'')"
    by (simp add: u_def forumPath_def number_path_def str_def ascii_digit_def dash_tail_def)
  moreover have "url_String demo_net_url u = str ''http://elsewhere.example/f1''" by (simp add: u_def demo_net_url_def str_def)
  ultimately show ?thesis using forum_link_any_host [OF demo_net_url_ok] by metis
qed

end
