(* ===== verification/Reader_Cache.thy ===== *)
theory Reader_Cache
  imports Flashback_Links Gandr_Crypto "HOL-Library.AList" "HOL-Library.List_Lexorder" "HOL-Library.Product_Lexorder"
begin

text \<open>
  \<^verbatim>\<open>internal/store/sqlite.go\<close> and \<^verbatim>\<open>external_events.go\<close>: the reader's cache in SQLite. A table is the list of its rows
  by primary key, in the order of insertion; the statements of the source are functions on these lists,
  with the constraints of the schema (\<^verbatim>\<open>UNIQUE\<close>, foreign keys with \<^verbatim>\<open>ON DELETE CASCADE\<close>) and the
  \<^verbatim>\<open>ON CONFLICT\<close> clauses written out. A statement that violates a constraint is \<^const>\<open>None\<close> and rolls the transaction
  back, as does any other fault, which is the argument \<open>io\<close>. \<open>now\<close> is \<^verbatim>\<open>CURRENT_TIMESTAMP\<close>. A column of times
  holds the time that was written; what the driver hands over when it is read is the parameter \<open>driver\<close>.
\<close>

abbreviation (input) zero_time :: instant where "zero_time \<equiv> -62135596800000000000"

record forum_row =
  FrTitle :: gostring
  FrURL :: gostring
  FrParent :: "gostring option"
  FrDepth :: int
  FrOrder :: int
  FrChildren :: bool
  FrBrowsable :: bool
  FrSeen :: instant

record thread_row =
  TrTitle :: gostring
  TrURL :: gostring
  TrForum :: "gostring option"
  TrReplies :: int
  TrViews :: int
  TrLastAt :: "instant option"
  TrLastAuthor :: "gostring option"
  TrSticky :: bool
  TrPages :: int
  TrSeen :: instant

record post_row =
  PoThread :: gostring
  PoAuthor :: gostring
  PoAt :: "instant option"
  PoPage :: int
  PoPosition :: int
  PoText :: gostring
  PoRaw :: gostring
  PoSource :: gostring
  PoSeen :: instant

record search_row =
  SeThread :: gostring
  SeAuthor :: gostring
  SeText :: gostring

record event_row =
  EvTime :: instant
  EvTitle :: gostring
  EvSummary :: gostring
  EvType :: gostring
  EvLocation :: gostring
  EvLatitude :: "64 word option"
  EvLongitude :: "64 word option"
  EvURL :: gostring
  EvFirstSeen :: instant
  EvLastSeen :: instant
  EvHash :: gostring

record SyncState =
  SyAt :: instant
  SyStatus :: gostring

record cache =
  cforums :: "(gostring \<times> forum_row) list"
  cthreads :: "(gostring \<times> thread_row) list"
  clisting :: "((gostring \<times> gostring) \<times> int) list"
  cposts :: "(gostring \<times> post_row) list"
  csearch :: "(gostring \<times> search_row) list"
  cevents :: "((gostring \<times> gostring) \<times> event_row) list"
  csync :: "(gostring \<times> SyncState) list"

text \<open>
  Reading a time. \<open>DrValue\<close> is the value the driver hands to \<^verbatim>\<open>Scan\<close> for a time that was written into a column of the
  declared type. \<^verbatim>\<open>Scan\<close> of \<^verbatim>\<open>database/sql\<close> into a \<^verbatim>\<open>time.Time\<close> takes a time and refuses a text and a NULL. The columns
  that \<^verbatim>\<open>Migrate\<close> declares for times are all \<^verbatim>\<open>TEXT\<close>, and of these the SQLite driver hands over the text
  (\<open>text_columns\<close>; it parses those declared \<^verbatim>\<open>DATE\<close>, \<^verbatim>\<open>DATETIME\<close> or \<^verbatim>\<open>TIMESTAMP\<close> only). \<open>DrSync\<close> is
  \<^verbatim>\<open>time.Parse(time.RFC3339Nano, _)\<close> of the text of a column that was given a \<^verbatim>\<open>time.Time\<close>, None where it reports an error.
\<close>

datatype driver_value = DvNull | DvText | DvTime instant

record driver =
  DrValue :: "gostring \<Rightarrow> instant \<Rightarrow> driver_value"
  DrSync :: "instant \<Rightarrow> instant option"

definition text_columns :: "driver \<Rightarrow> bool" where
  "text_columns D \<longleftrightarrow> (\<forall>t. DrValue D (str ''TEXT'') t = DvText)"

definition column_value :: "driver \<Rightarrow> instant option \<Rightarrow> driver_value" where
  "column_value D at = (case at of None \<Rightarrow> DvNull | Some t \<Rightarrow> DrValue D (str ''TEXT'') t)"

fun scan_time :: "driver_value \<Rightarrow> instant option" where
  "scan_time (DvTime t) = Some t"
| "scan_time _ = None"

lemma text_column_refused: "text_columns D \<Longrightarrow> scan_time (column_value D at) = None"
  by (simp add: column_value_def text_columns_def split: option.split)

datatype cache_error = ErrCache | ErrConstraint

definition empty_cache :: cache where
  "empty_cache = \<lparr>cforums = [], cthreads = [], clisting = [], cposts = [], csearch = [], cevents = [], csync = []\<rparr>"

section \<open>Transactions\<close>

fun each :: "('a \<Rightarrow> 'c \<Rightarrow> 'c option) \<Rightarrow> 'a list \<Rightarrow> 'c \<Rightarrow> 'c option" where
  "each f [] c = Some c"
| "each f (x # xs) c = (case f x c of None \<Rightarrow> None | Some c1 \<Rightarrow> each f xs c1)"

definition transaction :: "bool \<Rightarrow> (cache \<Rightarrow> cache option) \<Rightarrow> cache \<Rightarrow> cache \<times> (cache_error + unit)" where
  "transaction io f c =
     (if \<not> io then (c, Inl ErrCache)
      else case f c of None \<Rightarrow> (c, Inl ErrConstraint) | Some c1 \<Rightarrow> (c1, Inr ()))"

text \<open>\<^verbatim>\<open>UNIQUE\<close>: another row has this value.\<close>

definition taken :: "('r \<Rightarrow> gostring) \<Rightarrow> gostring \<Rightarrow> gostring \<Rightarrow> (gostring \<times> 'r) list \<Rightarrow> bool" where
  "taken col k v tbl \<longleftrightarrow> list_ex (\<lambda>(k', r). k' \<noteq> k \<and> col r = v) tbl"

section \<open>Forums\<close>

definition forum_row_of :: "instant \<Rightarrow> ForumNode \<Rightarrow> forum_row" where
  "forum_row_of now n =
     \<lparr>FrTitle = FTitle n, FrURL = FURL n, FrParent = (if FParentID n = [] then None else Some (FParentID n)), FrDepth = FDepth n,
      FrOrder = FSortOrder n, FrChildren = FHasChildren n, FrBrowsable = FBrowsable n, FrSeen = now\<rparr>"

text \<open>\<^verbatim>\<open>DELETE FROM forums WHERE\<close>, with the cascade to the listings.\<close>

definition delete_forums :: "(gostring \<Rightarrow> forum_row \<Rightarrow> bool) \<Rightarrow> cache \<Rightarrow> cache" where
  "delete_forums p c =
     c\<lparr>cforums := filter (\<lambda>(i, r). \<not> p i r) (cforums c),
       clisting := filter (\<lambda>((f, t), pos). case map_of (cforums c) f of None \<Rightarrow> True | Some r \<Rightarrow> \<not> p f r) (clisting c)\<rparr>"

definition save_forum :: "instant \<Rightarrow> ForumNode \<Rightarrow> cache \<Rightarrow> cache option" where
  "save_forum now n c =
     (let c1 = delete_forums (\<lambda>i r. FrURL r = FURL n \<and> i \<noteq> FID n) c in
      if taken FrURL (FID n) (FURL n) (cforums c1) then None
      else Some (c1\<lparr>cforums := AList.update (FID n) (forum_row_of now n) (cforums c1)\<rparr>))"

definition SaveForums :: "bool \<Rightarrow> instant \<Rightarrow> ForumNode list \<Rightarrow> cache \<Rightarrow> cache \<times> (cache_error + unit)" where
  "SaveForums io now nodes = transaction io (each (save_forum now) nodes)"

definition insert_forum :: "instant \<Rightarrow> ForumNode \<Rightarrow> cache \<Rightarrow> cache option" where
  "insert_forum now n c =
     (if map_of (cforums c) (FID n) \<noteq> None \<or> taken FrURL (FID n) (FURL n) (cforums c) then None
      else Some (c\<lparr>cforums := cforums c @ [(FID n, forum_row_of now n)]\<rparr>))"

definition ReplaceForumSnapshot :: "bool \<Rightarrow> instant \<Rightarrow> ForumNode list \<Rightarrow> cache \<Rightarrow> cache \<times> (cache_error + unit)" where
  "ReplaceForumSnapshot io now nodes = transaction io (\<lambda>c. each (insert_forum now) nodes (delete_forums (\<lambda>i r. True) c))"

definition node_of_row :: "gostring \<times> forum_row \<Rightarrow> ForumNode" where
  "node_of_row = (\<lambda>(i, r). \<lparr>FID = i, FTitle = FrTitle r, FURL = FrURL r, FParentID = [], FDepth = 0, FSortOrder = 0,
     FHasChildren = FrChildren r, FBrowsable = FrBrowsable r\<rparr>)"

text \<open>\<^verbatim>\<open>Forums\<close> with the scan its callers make; rows of equal order come in the order of insertion, as the index has them.\<close>

definition ForumsOf :: "gostring \<Rightarrow> cache \<Rightarrow> ForumNode list" where
  "ForumsOf parent c =
     map node_of_row (sort_key (\<lambda>(i, r). FrOrder r)
       (filter (\<lambda>(i, r). if parent = [] then FrParent r = None \<and> FrDepth r = 0 else FrParent r = Some parent) (cforums c)))"

section \<open>Threads and posts\<close>

definition thread_row_of :: "instant \<Rightarrow> gostring \<Rightarrow> ThreadSummary \<Rightarrow> int \<Rightarrow> thread_row" where
  "thread_row_of now forumID r pages =
     \<lparr>TrTitle = TTitle r, TrURL = TURL r, TrForum = Some forumID, TrReplies = TReplies r, TrViews = TViews r,
      TrLastAt = Some (TLastPostAt r), TrLastAuthor = Some (TLastPostAuthor r), TrSticky = TSticky r, TrPages = pages, TrSeen = now\<rparr>"

definition save_thread :: "instant \<Rightarrow> gostring \<Rightarrow> int \<times> ThreadSummary \<Rightarrow> cache \<Rightarrow> cache option" where
  "save_thread now forumID = (\<lambda>(i, r) c.
     if TrimSpace (TTitle r) = [] then Some c
     else if taken TrURL (TID r) (TURL r) (cthreads c) then None
     else
       let pages = (case map_of (cthreads c) (TID r) of
                      None \<Rightarrow> TPageCount r
                    | Some old \<Rightarrow> if TPageCount r > 0 then TPageCount r else TrPages old);
           c1 = c\<lparr>cthreads := AList.update (TID r) (thread_row_of now forumID r pages) (cthreads c)\<rparr>
       in if map_of (cforums c1) forumID = None then None
          else Some (c1\<lparr>clisting := AList.update (forumID, TID r) i (clisting c1)\<rparr>))"

definition SaveThreads :: "bool \<Rightarrow> instant \<Rightarrow> gostring \<Rightarrow> ThreadSummary list \<Rightarrow> cache \<Rightarrow> cache \<times> (cache_error + unit)" where
  "SaveThreads io now forumID rows =
     transaction io (each (save_thread now forumID) (zip (map int [0..<length rows]) rows))"

definition page_row :: "instant \<Rightarrow> ParsedPage \<Rightarrow> thread_row option \<Rightarrow> thread_row" where
  "page_row now page prev =
     (case prev of
        Some old \<Rightarrow> old\<lparr>TrTitle := (if PgTitle page \<noteq> [] then PgTitle page else TrTitle old), TrPages := max (TrPages old) (PgMaxPage page), TrSeen := now\<rparr>
      | None \<Rightarrow> \<lparr>TrTitle = PgTitle page, TrURL = PgSourceURL page, TrForum = None, TrReplies = 0, TrViews = 0, TrLastAt = None, TrLastAuthor = None,
           TrSticky = False, TrPages = PgMaxPage page, TrSeen = now\<rparr>)"

definition save_page_thread :: "instant \<Rightarrow> ParsedPage \<Rightarrow> cache \<Rightarrow> cache option" where
  "save_page_thread now page c =
     (let prev = map_of (cthreads c) (PgThreadID page) in
      if prev = None \<and> taken TrURL (PgThreadID page) (PgSourceURL page) (cthreads c) then None
      else Some (c\<lparr>cthreads := AList.update (PgThreadID page) (page_row now page prev) (cthreads c)\<rparr>))"

definition post_row_of :: "instant \<Rightarrow> Post \<Rightarrow> post_row option \<Rightarrow> post_row" where
  "post_row_of now p prev =
     \<lparr>PoThread = (case prev of None \<Rightarrow> PThreadID p | Some old \<Rightarrow> PoThread old), PoAuthor = PAuthor p,
      PoAt = (if PTimestamp p = zero_time then None else Some (PTimestamp p)), PoPage = PPage p, PoPosition = PPosition p,
      PoText = PText p, PoRaw = PRawText p, PoSource = PSourceURL p, PoSeen = now\<rparr>"

definition save_post :: "instant \<Rightarrow> Post \<Rightarrow> cache \<Rightarrow> cache option" where
  "save_post now p c =
     Some (c\<lparr>cposts := AList.update (PID p) (post_row_of now p (map_of (cposts c) (PID p))) (cposts c),
             csearch := filter (\<lambda>(i, _). i \<noteq> PID p) (csearch c) @
               [(PID p, \<lparr>SeThread = PThreadID p, SeAuthor = PAuthor p, SeText = PText p\<rparr>)]\<rparr>)"

definition SavePage :: "bool \<Rightarrow> instant \<Rightarrow> ParsedPage \<Rightarrow> cache \<Rightarrow> cache \<times> (cache_error + unit)" where
  "SavePage io now page =
     transaction io (\<lambda>c. case save_page_thread now page c of None \<Rightarrow> None | Some c1 \<Rightarrow> each (save_post now) (PgPosts page) c1)"

text \<open>\<^verbatim>\<open>Posts\<close> with the scan its caller makes: a row that \<^verbatim>\<open>Scan\<close> refuses is skipped.\<close>

definition scan_post :: "driver \<Rightarrow> gostring \<Rightarrow> gostring \<times> post_row \<Rightarrow> Post option" where
  "scan_post D tid = (\<lambda>(i, r). (case scan_time (column_value D (PoAt r)) of None \<Rightarrow> None | Some t \<Rightarrow>
     Some \<lparr>PID = i, PThreadID = tid, PAuthor = PoAuthor r, PTimestamp = t, PPage = 0, PPosition = 0, PText = PoText r, PRawText = [],
       PSourceURL = [], PQuotes = []\<rparr>))"

definition PostsOf :: "driver \<Rightarrow> gostring \<Rightarrow> cache \<Rightarrow> Post list" where
  "PostsOf D tid c =
     List.map_filter (scan_post D tid)
       (sort_key (\<lambda>(i, r). (PoPage r, PoPosition r, i)) (filter (\<lambda>(i, r). PoThread r = tid) (cposts c)))"

text \<open>The listing of a forum: \<^verbatim>\<open>forum_threads\<close> joined with \<^verbatim>\<open>threads\<close>, by position.\<close>

definition untitled :: "gostring \<Rightarrow> bool" where
  "untitled t \<longleftrightarrow> (let s = rev (dropWhile (\<lambda>c. c = 32) (rev (dropWhile (\<lambda>c. c = 32) t))) in
     s = [] \<or> HasPrefix (ascii_lower s) (str ''utan titel''))"

definition listing :: "gostring \<Rightarrow> cache \<Rightarrow> (gostring \<times> thread_row) list" where
  "listing forumID c =
     concat (map (\<lambda>((f, t), pos). case map_of (cthreads c) t of None \<Rightarrow> [] | Some r \<Rightarrow> if untitled (TrTitle r) then [] else [(t, r)])
       (sort_key (\<lambda>((f, t), pos). pos) (filter (\<lambda>((f, t), pos). f = forumID) (clisting c))))"

definition scan_thread :: "driver \<Rightarrow> gostring \<times> thread_row \<Rightarrow> ThreadSummary option" where
  "scan_thread D = (\<lambda>(t, r).
     (case scan_time (column_value D (TrLastAt r)) of None \<Rightarrow> None | Some at \<Rightarrow>
     (case TrLastAuthor r of None \<Rightarrow> None | Some a \<Rightarrow>
       Some \<lparr>TID = t, TTitle = TrTitle r, TURL = TrURL r, TForumID = [], TAuthor = [], TReplies = TrReplies r, TViews = TrViews r,
         TLastPostAt = at, TLastPostAuthor = a, TSticky = TrSticky r, TPageCount = TrPages r\<rparr>)))"

text \<open>\<^verbatim>\<open>cachedThreads\<close> of \<^verbatim>\<open>internal/tui/app.go\<close> gives up at the first row that cannot be scanned.\<close>

definition cachedThreads :: "driver \<Rightarrow> gostring \<Rightarrow> cache \<Rightarrow> ThreadSummary list option" where
  "cachedThreads D forumID c = those (map (scan_thread D) (listing forumID c))"

section \<open>Events\<close>

record ExternalEvent =
  XSource :: gostring
  XID :: gostring
  XTimestamp :: instant
  XTitle :: gostring
  XSummary :: gostring
  XType :: gostring
  XLocation :: gostring
  XLatitude :: "64 word option"
  XLongitude :: "64 word option"
  XURL :: gostring
  XFirstSeen :: instant
  XLastSeen :: instant

text \<open>\<open>T\<close> is \<^verbatim>\<open>Time.String\<close>.\<close>

definition ContentHash :: "prims \<Rightarrow> (instant \<Rightarrow> gostring) \<Rightarrow> ExternalEvent \<Rightarrow> gostring" where
  "ContentHash P T e =
     EncodeToString (sha256 P (XID e @ [0] @ T (XTimestamp e) @ [0] @ XTitle e @ [0] @ XSummary e @ [0] @ XLocation e))"

definition save_event :: "prims \<Rightarrow> (instant \<Rightarrow> gostring) \<Rightarrow> ExternalEvent \<Rightarrow> cache \<Rightarrow> cache option" where
  "save_event P T e c =
     (let new = \<lparr>EvTime = XTimestamp e, EvTitle = XTitle e, EvSummary = XSummary e, EvType = XType e, EvLocation = XLocation e,
            EvLatitude = XLatitude e, EvLongitude = XLongitude e, EvURL = XURL e, EvFirstSeen = XFirstSeen e, EvLastSeen = XLastSeen e,
            EvHash = ContentHash P T e\<rparr>;
          row = (case map_of (cevents c) (XSource e, XID e) of None \<Rightarrow> new | Some old \<Rightarrow> new\<lparr>EvFirstSeen := EvFirstSeen old\<rparr>)
      in Some (c\<lparr>cevents := AList.update (XSource e, XID e) row (cevents c)\<rparr>))"

definition SaveExternalEvents ::
  "prims \<Rightarrow> (instant \<Rightarrow> gostring) \<Rightarrow> bool \<Rightarrow> ExternalEvent list \<Rightarrow> cache \<Rightarrow> cache \<times> (cache_error + unit)" where
  "SaveExternalEvents P T io events = transaction io (each (save_event P T) events)"

definition SetExternalSyncState :: "bool \<Rightarrow> gostring \<Rightarrow> SyncState \<Rightarrow> cache \<Rightarrow> cache" where
  "SetExternalSyncState io source st c = (if io then c\<lparr>csync := AList.update source st (csync c)\<rparr> else c)"

definition ExternalSyncState :: "driver \<Rightarrow> bool \<Rightarrow> gostring \<Rightarrow> cache \<Rightarrow> SyncState option" where
  "ExternalSyncState D io source c =
     (if \<not> io then None
      else map_option (\<lambda>st. st\<lparr>SyAt := (case DrSync D (SyAt st) of None \<Rightarrow> zero_time | Some t \<Rightarrow> t)\<rparr>) (map_of (csync c) source))"

text \<open>\<^verbatim>\<open>internal/service/external_events.go\<close>; an error of the provider is its text and whether it is permanent.\<close>

definition mark_seen :: "instant \<Rightarrow> ExternalEvent \<Rightarrow> ExternalEvent" where
  "mark_seen now e = e\<lparr>XFirstSeen := (if XFirstSeen e = zero_time then now else XFirstSeen e), XLastSeen := now\<rparr>"

datatype refresh_error = FetchFailed gostring bool | SaveFailed cache_error

definition RefreshEvents ::
  "prims \<Rightarrow> (instant \<Rightarrow> gostring) \<Rightarrow> bool \<Rightarrow> bool \<Rightarrow> gostring \<Rightarrow> instant \<Rightarrow> (gostring \<times> bool) + ExternalEvent list \<Rightarrow> cache \<Rightarrow>
     cache \<times> (refresh_error + ExternalEvent list)" where
  "RefreshEvents P T io1 io2 source now fetched c =
     (case fetched of
        Inl (msg, permanent) \<Rightarrow>
          (SetExternalSyncState io2 source \<lparr>SyAt = now, SyStatus = (if permanent then str ''permanent'' else str ''fel: '' @ msg)\<rparr> c,
           Inl (FetchFailed msg permanent))
      | Inr events0 \<Rightarrow>
          let events = map (mark_seen now) events0 in
          (case SaveExternalEvents P T io1 events c of
             (c1, Inl e) \<Rightarrow> (c1, Inl (SaveFailed e))
           | (c1, Inr _) \<Rightarrow> (SetExternalSyncState io2 source \<lparr>SyAt = now, SyStatus = str ''ok''\<rparr> c1, Inr events)))"

text \<open>\<open>io1\<close> and \<open>io2\<close>: the two queries are executed; a failed count leaves zero. Year-one times are those the driver writes as 0001.\<close>

definition StaleEvents :: "driver \<Rightarrow> bool \<Rightarrow> bool \<Rightarrow> duration \<Rightarrow> gostring \<Rightarrow> instant \<Rightarrow> cache \<Rightarrow> bool" where
  "StaleEvents D io1 io2 after source now c =
     (case ExternalSyncState D io1 source c of
        None \<Rightarrow> True
      | Some st \<Rightarrow>
          if SyStatus st = str ''permanent'' then False
          else if io2 \<and> list_ex (\<lambda>((s, i), r). s = source \<and> zero_time \<le> EvTime r \<and> EvTime r < -62104060800000000000) (cevents c) then True
          else SyAt st = zero_time \<or> time_sub now (SyAt st) \<ge> after)"

section \<open>The integrity of the tables\<close>

definition keyed :: "('k \<times> 'r) list \<Rightarrow> bool" where
  "keyed tbl \<longleftrightarrow> distinct (map fst tbl)"

definition unique_col :: "('r \<Rightarrow> 'v) \<Rightarrow> ('k \<times> 'r) list \<Rightarrow> bool" where
  "unique_col col tbl \<longleftrightarrow> distinct (map (\<lambda>x. col (snd x)) tbl)"

definition indexed :: "(gostring \<times> search_row) list \<Rightarrow> (gostring \<times> post_row) list \<Rightarrow> bool" where
  "indexed se po \<longleftrightarrow> keyed se \<and> fst ` set se = fst ` set po \<and>
     (\<forall>(i, s) \<in> set se. \<exists>r. map_of po i = Some r \<and> SeAuthor s = PoAuthor r \<and> SeText s = PoText r)"

definition cache_ok :: "cache \<Rightarrow> bool" where
  "cache_ok c \<longleftrightarrow>
     keyed (cforums c) \<and> unique_col FrURL (cforums c) \<and> keyed (cthreads c) \<and> unique_col TrURL (cthreads c) \<and>
     keyed (clisting c) \<and> (\<forall>((f, t), pos) \<in> set (clisting c). map_of (cforums c) f \<noteq> None \<and> map_of (cthreads c) t \<noteq> None) \<and>
     keyed (cposts c) \<and> indexed (csearch c) (cposts c) \<and> keyed (cevents c)"

lemma keyed_update [simp]: "keyed tbl \<Longrightarrow> keyed (AList.update k r tbl)"
  by (simp add: keyed_def distinct_update)

lemma keyed_filter [simp]: "keyed tbl \<Longrightarrow> keyed (filter p tbl)"
  by (simp add: keyed_def distinct_map_filter)

lemma unique_col_filter [simp]: "unique_col col tbl \<Longrightarrow> unique_col col (filter p tbl)"
  by (simp add: unique_col_def distinct_map_filter)

lemma keyed_snoc: "keyed tbl \<Longrightarrow> map_of tbl k = None \<Longrightarrow> keyed (tbl @ [(k, r)])"
  by (auto simp: keyed_def map_of_eq_None_iff)

lemma update_member: "(a, b) \<in> set (AList.update k r tbl) \<Longrightarrow> (a, b) = (k, r) \<or> (a, b) \<in> set tbl"
  by (induction tbl) (auto split: if_splits)

lemma taken_iff: "taken col k v tbl \<longleftrightarrow> (\<exists>k' r. (k', r) \<in> set tbl \<and> k' \<noteq> k \<and> col r = v)"
  by (auto simp: taken_def list_ex_iff)

lemma unique_col_iff: "unique_col col (x # tbl) \<longleftrightarrow> (\<forall>k r. (k, r) \<in> set tbl \<longrightarrow> col r \<noteq> col (snd x)) \<and> unique_col col tbl"
proof -
  have "(\<forall>y \<in> set tbl. col (snd x) \<noteq> col (snd y)) \<longleftrightarrow> (\<forall>k r. (k, r) \<in> set tbl \<longrightarrow> col r \<noteq> col (snd x))"
    by (metis prod.collapse snd_conv)
  then have "col (snd x) \<notin> (\<lambda>x. col (snd x)) ` set tbl \<longleftrightarrow> (\<forall>k r. (k, r) \<in> set tbl \<longrightarrow> col r \<noteq> col (snd x))"
    by (simp add: image_iff)
  then show ?thesis by (simp add: unique_col_def)
qed

lemma unique_col_update:
  "keyed tbl \<Longrightarrow> unique_col col tbl \<Longrightarrow> \<not> taken col k (col r) tbl \<Longrightarrow> unique_col col (AList.update k r tbl)"
proof (induction tbl)
  case (Cons x tbl)
  obtain k' r' where x: "x = (k', r')" by (cases x)
  have u: "\<forall>k r. (k, r) \<in> set tbl \<longrightarrow> col r \<noteq> col r'" "unique_col col tbl" using Cons.prems(2) by (simp_all add: unique_col_iff x)
  have f: "\<forall>j s. (j, s) \<in> set tbl \<longrightarrow> j \<noteq> k \<longrightarrow> col s \<noteq> col r" "k' \<noteq> k \<longrightarrow> col r' \<noteq> col r"
    using Cons.prems(3) by (auto simp: taken_iff x)
  have d: "\<forall>s. (k', s) \<notin> set tbl" "keyed tbl" using Cons.prems(1) by (auto simp: keyed_def x rev_image_eqI)
  show ?case
  proof (cases "k' = k")
    case True
    then have "\<forall>j s. (j, s) \<in> set tbl \<longrightarrow> col s \<noteq> col r" using f(1) d(1) by blast
    then show ?thesis using True u(2) by (simp add: x unique_col_iff)
  next
    case False
    then have "\<forall>j s. (j, s) \<in> set (AList.update k r tbl) \<longrightarrow> col s \<noteq> col r'"
      using u(1) f(2) update_member [of _ _ k r tbl] by (metis prod.inject)
    moreover have "unique_col col (AList.update k r tbl)" by (rule Cons.IH [OF d(2) u(2)]) (use f(1) in \<open>auto simp: taken_iff\<close>)
    ultimately show ?thesis using False by (simp add: x unique_col_iff)
  qed
qed (simp add: unique_col_def)

lemma unique_col_snoc:
  assumes "unique_col col tbl" "map_of tbl k = None" "\<not> taken col k (col r) tbl"
  shows "unique_col col (tbl @ [(k, r)])"
proof -
  have "(k, s) \<notin> set tbl" for s using assms(2) by (auto simp: map_of_eq_None_iff rev_image_eqI)
  then have "(j, s) \<in> set tbl \<Longrightarrow> col s \<noteq> col r" for j s using assms(3) by (auto simp: taken_iff)
  then have "col r \<notin> set (map (\<lambda>x. col (snd x)) tbl)" by fastforce
  then show ?thesis using assms(1) by (simp add: unique_col_def)
qed

text \<open>A row that keeps its unique value.\<close>

lemma taken_same:
  assumes "keyed tbl" "unique_col col tbl" "map_of tbl k = Some r"
  shows "\<not> taken col k (col r) tbl"
proof
  assume "taken col k (col r) tbl"
  then obtain j s where j: "(j, s) \<in> set tbl" "j \<noteq> k" "col s = col r" by (auto simp: taken_iff)
  have "inj_on (\<lambda>x. col (snd x)) (set tbl)" using assms(2) by (simp add: unique_col_def distinct_map)
  then have "(j, s) = (k, r)" using j(1,3) map_of_SomeD [OF assms(3)] unfolding inj_on_def by fastforce
  then show False using j(2) by simp
qed

lemma each_keeps:
  assumes "\<And>x c c'. x \<in> set xs \<Longrightarrow> I c \<Longrightarrow> f x c = Some c' \<Longrightarrow> I c'" "I c" "each f xs c = Some c'"
  shows "I c'"
  using assms by (induction xs arbitrary: c) (auto split: option.splits)

lemma transaction_keeps:
  assumes "\<And>c'. f c = Some c' \<Longrightarrow> I c'" "I c"
  shows "I (fst (transaction io f c))"
  using assms by (simp add: transaction_def split: option.split)

lemma map_of_filter_key: "keyed tbl \<Longrightarrow> map_of (filter (\<lambda>(k, r). p k r) tbl) k = (case map_of tbl k of None \<Rightarrow> None | Some r \<Rightarrow> if p k r then Some r else None)"
  by (induction tbl) (auto simp: keyed_def map_of_eq_None_iff split: option.split)

lemma cache_ok_delete: "cache_ok c \<Longrightarrow> cache_ok (delete_forums p c)"
  by (auto simp: cache_ok_def delete_forums_def map_of_filter_key split: option.splits)

lemma cache_ok_forum:
  assumes "cache_ok c" "save_forum now n c = Some c'"
  shows "cache_ok c'"
proof -
  let ?c = "delete_forums (\<lambda>i r. FrURL r = FURL n \<and> i \<noteq> FID n) c"
  have ok: "cache_ok ?c" using assms(1) by (rule cache_ok_delete)
  have t: "\<not> taken FrURL (FID n) (FrURL (forum_row_of now n)) (cforums ?c)" and c': "c' = ?c\<lparr>cforums := AList.update (FID n) (forum_row_of now n) (cforums ?c)\<rparr>"
    using assms(2) by (auto simp: save_forum_def Let_def forum_row_of_def split: if_splits)
  have "unique_col FrURL (AList.update (FID n) (forum_row_of now n) (cforums ?c))" using ok t by (auto simp: cache_ok_def intro: unique_col_update)
  then show ?thesis using ok unfolding c' by (auto simp: cache_ok_def update_conv)
qed

lemma cache_ok_insert:
  assumes "cache_ok c" "insert_forum now n c = Some c'"
  shows "cache_ok c'"
proof -
  have t: "map_of (cforums c) (FID n) = None" "\<not> taken FrURL (FID n) (FrURL (forum_row_of now n)) (cforums c)"
    and c': "c' = c\<lparr>cforums := cforums c @ [(FID n, forum_row_of now n)]\<rparr>"
    using assms(2) by (auto simp: insert_forum_def forum_row_of_def split: if_splits)
  have "unique_col FrURL (cforums c @ [(FID n, forum_row_of now n)])" using assms(1) t by (auto simp: cache_ok_def intro: unique_col_snoc)
  then show ?thesis using assms(1) t(1) unfolding c' by (force simp: cache_ok_def intro: keyed_snoc)
qed

lemma cache_ok_thread:
  assumes "cache_ok c" "save_thread now f ir c = Some c'"
  shows "cache_ok c'"
proof -
  obtain i r where ir: "ir = (i, r)" by (cases ir)
  show ?thesis
  proof (cases "TrimSpace (TTitle r) = []")
    case True
    then show ?thesis using assms ir by (simp add: save_thread_def)
  next
    case False
    then obtain pages where t: "\<not> taken TrURL (TID r) (TrURL (thread_row_of now f r pages)) (cthreads c)" "map_of (cforums c) f \<noteq> None"
      and c': "c' = c\<lparr>cthreads := AList.update (TID r) (thread_row_of now f r pages) (cthreads c), clisting := AList.update (f, TID r) i (clisting c)\<rparr>"
      using assms(2) ir by (auto simp: save_thread_def Let_def thread_row_of_def split: if_splits)
    have u: "unique_col TrURL (AList.update (TID r) (thread_row_of now f r pages) (cthreads c))"
      using assms(1) t(1) by (auto simp: cache_ok_def intro: unique_col_update)
    have "\<forall>((g, th), pos) \<in> set (AList.update (f, TID r) i (clisting c)). map_of (cforums c) g \<noteq> None \<and>
      map_of (AList.update (TID r) (thread_row_of now f r pages) (cthreads c)) th \<noteq> None"
      using assms(1) t(2) by (fastforce simp: cache_ok_def update_conv dest!: update_member)
    then show ?thesis using assms(1) u unfolding c' by (simp add: cache_ok_def)
  qed
qed

lemma cache_ok_page_thread:
  assumes "cache_ok c" "save_page_thread now page c = Some c'"
  shows "cache_ok c'"
proof -
  let ?row = "page_row now page (map_of (cthreads c) (PgThreadID page))"
  have c': "c' = c\<lparr>cthreads := AList.update (PgThreadID page) ?row (cthreads c)\<rparr>"
    using assms(2) by (auto simp: save_page_thread_def Let_def split: if_splits)
  have "\<not> taken TrURL (PgThreadID page) (TrURL ?row) (cthreads c)"
  proof (cases "map_of (cthreads c) (PgThreadID page)")
    case None
    then show ?thesis using assms(2) by (auto simp: save_page_thread_def page_row_def split: if_splits)
  next
    case (Some old)
    have "keyed (cthreads c)" "unique_col TrURL (cthreads c)" using assms(1) by (simp_all add: cache_ok_def)
    from taken_same [OF this Some] have "\<not> taken TrURL (PgThreadID page) (TrURL old) (cthreads c)" .
    then show ?thesis using Some by (simp add: page_row_def)
  qed
  then have "unique_col TrURL (AList.update (PgThreadID page) ?row (cthreads c))" using assms(1) by (auto simp: cache_ok_def intro: unique_col_update)
  then show ?thesis using assms(1) unfolding c' by (fastforce simp: cache_ok_def update_conv)
qed

lemma keys_update: "fst ` set (AList.update k r tbl) = insert k (fst ` set tbl)"
  by (induction tbl) auto

lemma cache_ok_post:
  assumes "cache_ok c" "save_post now p c = Some c'"
  shows "cache_ok c'"
proof -
  let ?row = "post_row_of now p (map_of (cposts c) (PID p))"
  have r: "PoAuthor ?row = PAuthor p" "PoText ?row = PText p" by (simp_all add: post_row_of_def)
  have c': "c' = c\<lparr>cposts := AList.update (PID p) ?row (cposts c),
      csearch := filter (\<lambda>(i, _). i \<noteq> PID p) (csearch c) @ [(PID p, \<lparr>SeThread = PThreadID p, SeAuthor = PAuthor p, SeText = PText p\<rparr>)]\<rparr>"
    using assms(2) by (simp add: save_post_def)
  have ix: "indexed (csearch c) (cposts c)" using assms(1) by (simp add: cache_ok_def)
  let ?f = "filter (\<lambda>(i, _). i \<noteq> PID p) (csearch c)"
  have k: "fst ` set ?f = fst ` set (csearch c) - {PID p}" by force
  have "keyed (?f @ [(PID p, e)])" for e using ix k by (auto simp: indexed_def keyed_def distinct_map_filter)
  moreover have "fst ` set (?f @ [(PID p, e)]) = fst ` set (AList.update (PID p) ?row (cposts c))" for e
    using ix k by (auto simp: indexed_def keys_update)
  ultimately have "indexed (csearch c') (cposts c')"
    using ix r by (auto simp: indexed_def c' update_conv)
  then show ?thesis using assms(1) unfolding c' by (simp add: cache_ok_def)
qed

lemma cache_ok_event: "cache_ok c \<Longrightarrow> save_event P T e c = Some c' \<Longrightarrow> cache_ok c'"
  by (auto simp: save_event_def Let_def cache_ok_def)

datatype cache_op =
    OpForums bool instant "ForumNode list"
  | OpSnapshot bool instant "ForumNode list"
  | OpThreads bool instant gostring "ThreadSummary list"
  | OpPage bool instant ParsedPage
  | OpRefresh bool bool gostring instant "(gostring \<times> bool) + ExternalEvent list"
  | OpSync bool gostring SyncState

fun cache_step :: "prims \<Rightarrow> (instant \<Rightarrow> gostring) \<Rightarrow> cache \<Rightarrow> cache_op \<Rightarrow> cache" where
  "cache_step P T c (OpForums io now nodes) = fst (SaveForums io now nodes c)"
| "cache_step P T c (OpSnapshot io now nodes) = fst (ReplaceForumSnapshot io now nodes c)"
| "cache_step P T c (OpThreads io now f rows) = fst (SaveThreads io now f rows c)"
| "cache_step P T c (OpPage io now page) = fst (SavePage io now page c)"
| "cache_step P T c (OpRefresh io1 io2 source now fetched) = fst (RefreshEvents P T io1 io2 source now fetched c)"
| "cache_step P T c (OpSync io source st) = SetExternalSyncState io source st c"

lemma cache_ok_sync: "cache_ok (SetExternalSyncState io source st c) = cache_ok c"
  by (simp add: SetExternalSyncState_def cache_ok_def)

lemma cache_ok_step: "cache_ok c \<Longrightarrow> cache_ok (cache_step P T c op)"
proof (induction P T c op rule: cache_step.induct)
  case (1 P T c io now nodes)
  then show ?case by (auto simp: SaveForums_def intro!: transaction_keeps [where I = cache_ok] elim: each_keeps [rotated 2] cache_ok_forum)
next
  case (2 P T c io now nodes)
  then have "cache_ok (delete_forums (\<lambda>i r. True) c)" by (rule cache_ok_delete)
  then show ?case using 2 by (auto simp: ReplaceForumSnapshot_def intro!: transaction_keeps [where I = cache_ok] elim: each_keeps [rotated 2] cache_ok_insert)
next
  case (3 P T c io now f rows)
  then show ?case by (auto simp: SaveThreads_def intro!: transaction_keeps [where I = cache_ok] elim: each_keeps [rotated 2] cache_ok_thread)
next
  case (4 P T c io now page)
  have "cache_ok c'" if h: "save_page_thread now page c = Some c1" "each (save_post now) (PgPosts page) c1 = Some c'" for c1 c'
  proof (rule each_keeps [of "PgPosts page" cache_ok, OF _ _ h(2)])
    show "cache_ok c1" using cache_ok_page_thread [OF 4 h(1)] .
  qed (rule cache_ok_post)
  then show ?case using 4
    unfolding cache_step.simps SavePage_def by (intro transaction_keeps [where I = cache_ok]) (auto split: option.splits)
next
  case (5 P T c io1 io2 source now fetched)
  have "cache_ok (fst (SaveExternalEvents P T io1 es c))" for es
    using 5 by (auto simp: SaveExternalEvents_def intro!: transaction_keeps [where I = cache_ok] elim: each_keeps [rotated 2] cache_ok_event)
  then show ?case using 5 by (auto simp: RefreshEvents_def Let_def cache_ok_sync split: sum.splits prod.splits) (metis fst_conv)+
next
  case (6 P T c io source st)
  then show ?case by (simp add: cache_ok_sync)
qed

interpretation cacherun: run_invariant "cache_step P T" cache_ok for P T
  by unfold_locales (rule cache_ok_step)

section \<open>Properties of the cache\<close>

lemma cache_ok_empty: "cache_ok empty_cache"
  by (simp add: cache_ok_def empty_cache_def keyed_def unique_col_def indexed_def)

text \<open>
  C33. The tables of the cache stay consistent. After any sequence of saves of forums, snapshots, listings,
  pages and events, with any failures, identifiers and addresses are unique, every entry of a listing has
  its forum and its thread, and the search index has exactly one row for each post, with the author and
  the text of the post.
\<close>

theorem cache_integrity:
  assumes "c = foldl (cache_step P T) empty_cache ops"
  shows "distinct (map fst (cforums c)) \<and> distinct (map (\<lambda>x. FrURL (snd x)) (cforums c)) \<and>
    distinct (map fst (cthreads c)) \<and> distinct (map (\<lambda>x. TrURL (snd x)) (cthreads c)) \<and>
    (\<forall>((f, t), pos) \<in> set (clisting c). f \<in> fst ` set (cforums c) \<and> t \<in> fst ` set (cthreads c)) \<and>
    distinct (map fst (csearch c)) \<and> fst ` set (csearch c) = fst ` set (cposts c) \<and>
    (\<forall>(i, s) \<in> set (csearch c). \<exists>r. map_of (cposts c) i = Some r \<and> SeAuthor s = PoAuthor r \<and> SeText s = PoText r)"
proof -
  have "cache_ok c" unfolding assms by (rule cacherun.run_inv) (rule cache_ok_empty)
  then show ?thesis
    unfolding cache_ok_def keyed_def unique_col_def indexed_def map_of_eq_None_iff not_not by (elim conjE) (intro conjI)
qed

lemma save_forum_total: "\<exists>c'. save_forum now n c = Some c'"
  by (auto simp: save_forum_def Let_def delete_forums_def taken_iff)

lemma each_total: "(\<And>x c. \<exists>c'. f x c = Some c') \<Longrightarrow> \<exists>c'. each f xs c = Some c'"
proof (induction xs arbitrary: c)
  case (Cons x xs)
  obtain c1 where "f x c = Some c1" using Cons.prems by blast
  then show ?case using Cons by simp
qed simp

lemma save_threads_unknown:
  assumes "map_of (cforums c) f = None" "\<exists>ir \<in> set irs. TrimSpace (TTitle (snd ir)) \<noteq> []"
  shows "each (save_thread now f) irs c = None"
  using assms(2)
proof (induction irs)
  case (Cons ir irs)
  show ?case
  proof (cases "TrimSpace (TTitle (snd ir)) = []")
    case True
    then have "save_thread now f ir c = Some c" by (cases ir) (simp add: save_thread_def)
    then show ?thesis using Cons True by simp
  next
    case False
    then have "save_thread now f ir c = None" using assms(1) by (cases ir) (simp add: save_thread_def Let_def)
    then show ?thesis by simp
  qed
qed simp

lemma save_threads_refused:
  assumes "map_of (cforums c) f = None" "list_ex (\<lambda>r. TrimSpace (TTitle r) \<noteq> []) rows"
  shows "each (save_thread now f) (zip (map int [0..<length rows]) rows) c = None"
proof -
  obtain r where r: "r \<in> set rows" "TrimSpace (TTitle r) \<noteq> []" using assms(2) by (auto simp: list_ex_iff)
  have "set (map snd (zip (map int [0..<length rows]) rows)) = set rows" by (simp add: map_snd_zip)
  then obtain ir where "ir \<in> set (zip (map int [0..<length rows]) rows)" "snd ir = r" using r(1) by (metis imageE set_map)
  then show ?thesis using save_threads_unknown [OF assms(1)] r(2) by blast
qed

text \<open>
  A save happens entirely or not at all. A save that reports an error leaves the cache as it was; saving forums
  never violates a constraint, whatever was stored under their identifiers and addresses before; and the
  listing of a forum the cache does not know is refused.
\<close>

theorem save_all_or_nothing:
  "(snd (SaveForums io now nodes c) \<noteq> Inr () \<longrightarrow> fst (SaveForums io now nodes c) = c) \<and>
   (snd (ReplaceForumSnapshot io now nodes c) \<noteq> Inr () \<longrightarrow> fst (ReplaceForumSnapshot io now nodes c) = c) \<and>
   (snd (SaveThreads io now f rows c) \<noteq> Inr () \<longrightarrow> fst (SaveThreads io now f rows c) = c) \<and>
   (snd (SavePage io now page c) \<noteq> Inr () \<longrightarrow> fst (SavePage io now page c) = c) \<and>
   (io \<longrightarrow> snd (SaveForums io now nodes c) = Inr ()) \<and>
   (io \<and> map_of (cforums c) f = None \<and> list_ex (\<lambda>r. TrimSpace (TTitle r) \<noteq> []) rows \<longrightarrow>
      SaveThreads io now f rows c = (c, Inl ErrConstraint))"
proof (intro conjI impI)
  show "snd (SaveForums io now nodes c) = Inr ()" if io
    using each_total [of "save_forum now" nodes c, OF save_forum_total] that by (auto simp: SaveForums_def transaction_def)
  show "SaveThreads io now f rows c = (c, Inl ErrConstraint)"
    if h: "io \<and> map_of (cforums c) f = None \<and> list_ex (\<lambda>r. TrimSpace (TTitle r) \<noteq> []) rows"
    using save_threads_refused h by (simp add: SaveThreads_def transaction_def)
qed (auto simp: SaveForums_def ReplaceForumSnapshot_def SaveThreads_def SavePage_def transaction_def split: option.splits)

lemma update_new: "map_of tbl k = None \<Longrightarrow> AList.update k r tbl = tbl @ [(k, r)]"
  by (induction tbl) (auto split: if_splits)

text \<open>A row of the listing that holds what was fetched; the cache keeps an older page count when the new one is unknown.\<close>

definition row_holds :: "instant \<Rightarrow> gostring \<Rightarrow> gostring \<times> thread_row \<Rightarrow> ThreadSummary \<Rightarrow> bool" where
  "row_holds now f x r \<longleftrightarrow> fst x = TID r \<and> (\<exists>pages. snd x = thread_row_of now f r pages)"

lemma each_threads:
  assumes "each (save_thread now f) irs c = Some c'" "distinct (map (\<lambda>x. TID (snd x)) irs)"
    and "\<forall>x \<in> set irs. TrimSpace (TTitle (snd x)) \<noteq> [] \<and> map_of (clisting c) (f, TID (snd x)) = None"
  shows "clisting c' = clisting c @ map (\<lambda>(i, r). ((f, TID r), i)) irs \<and>
    (\<forall>x \<in> set irs. \<exists>row. map_of (cthreads c') (TID (snd x)) = Some row \<and> row_holds now f (TID (snd x), row) (snd x)) \<and>
    (\<forall>t. t \<notin> (\<lambda>x. TID (snd x)) ` set irs \<longrightarrow> map_of (cthreads c') t = map_of (cthreads c) t)"
  using assms
proof (induction irs arbitrary: c)
  case (Cons x irs)
  obtain i r where x: "x = (i, r)" by (cases x)
  obtain c1 where c1: "save_thread now f x c = Some c1" "each (save_thread now f) irs c1 = Some c'"
    using Cons.prems(1) by (auto split: option.splits)
  have tr: "TrimSpace (TTitle r) \<noteq> []" "map_of (clisting c) (f, TID r) = None" using Cons.prems(3) x by auto
  from c1(1) tr obtain pages where
    e: "c1 = c\<lparr>cthreads := AList.update (TID r) (thread_row_of now f r pages) (cthreads c), clisting := clisting c @ [((f, TID r), i)]\<rparr>"
    by (auto simp: save_thread_def Let_def x update_new split: if_splits)
  have d: "TID r \<notin> (\<lambda>x. TID (snd x)) ` set irs" using Cons.prems(2) x by simp
  then have dx: "y \<in> set irs \<Longrightarrow> TID (snd y) \<noteq> TID r" for y by (metis imageI)
  have "\<forall>y \<in> set irs. TrimSpace (TTitle (snd y)) \<noteq> [] \<and> map_of (clisting c1) (f, TID (snd y)) = None"
  proof
    fix y assume y: "y \<in> set irs"
    then have "TrimSpace (TTitle (snd y)) \<noteq> []" "map_of (clisting c) (f, TID (snd y)) = None" using Cons.prems(3) by auto
    then show "TrimSpace (TTitle (snd y)) \<noteq> [] \<and> map_of (clisting c1) (f, TID (snd y)) = None"
      using dx [OF y] by (simp add: e map_add_def)
  qed
  note ih = Cons.IH [OF c1(2) _ this]
  have row: "map_of (cthreads c1) (TID r) = Some (thread_row_of now f r pages)" "row_holds now f (TID r, thread_row_of now f r pages) r"
    by (auto simp: e update_conv row_holds_def)
  have other: "t \<noteq> TID r \<Longrightarrow> map_of (cthreads c1) t = map_of (cthreads c) t" for t by (simp add: e update_conv)
  have l: "clisting c' = clisting c @ map (\<lambda>(i, r). ((f, TID r), i)) (x # irs)" using ih Cons.prems(2) by (simp add: e x)
  have rest: "\<forall>t. t \<notin> (\<lambda>x. TID (snd x)) ` set irs \<longrightarrow> map_of (cthreads c') t = map_of (cthreads c1) t" using ih Cons.prems(2) by simp
  have "map_of (cthreads c') (TID r) = Some (thread_row_of now f r pages)" using rest d row(1) by simp
  then have "\<forall>y \<in> set (x # irs). \<exists>row. map_of (cthreads c') (TID (snd y)) = Some row \<and> row_holds now f (TID (snd y), row) (snd y)"
    using ih Cons.prems(2) row(2) x by simp
  moreover have "\<forall>t. t \<notin> (\<lambda>x. TID (snd x)) ` set (x # irs) \<longrightarrow> map_of (cthreads c') t = map_of (cthreads c) t"
    using rest other x by simp
  ultimately show ?case using l by blast
qed simp

lemma row_of_title [simp]: "TrTitle (thread_row_of now f r pages) = TTitle r"
  by (simp add: thread_row_of_def)

lemma listing_rows:
  assumes "\<forall>x \<in> set irs. \<exists>row. map_of m (TID (snd x)) = Some row \<and> row_holds now f (TID (snd x), row) (snd x)"
    and "\<forall>x \<in> set irs. \<not> untitled (TTitle (snd x))"
  shows "list_all2 (row_holds now f) (concat (map (\<lambda>((f, t), pos). case map_of m t of None \<Rightarrow> [] | Some r \<Rightarrow> if untitled (TrTitle r) then [] else [(t, r)])
      (map (\<lambda>(i, r). ((f, TID r), i)) irs))) (map snd irs)"
  using assms
proof (induction irs)
  case (Cons x irs)
  obtain i r where x: "x = (i, r)" by (cases x)
  obtain pages where r: "map_of m (TID r) = Some (thread_row_of now f r pages)"
    using Cons.prems(1) x by (auto simp: row_holds_def)
  have "\<not> untitled (TTitle r)" using Cons.prems(2) x by simp
  moreover have "row_holds now f (TID r, thread_row_of now f r pages) r" by (auto simp: row_holds_def)
  ultimately show ?case using Cons r by (simp add: x)
qed simp

lemma transaction_ok: "transaction io f c = (c', Inr ()) \<Longrightarrow> io \<and> f c = Some c'"
  by (auto simp: transaction_def split: if_splits option.splits)

text \<open>
  A saved listing is listed. When a listing of threads with distinct identifiers and displayable titles has been
  saved for a forum that had none, the forum's listing in the cache has the same threads in the same order, with
  what was fetched of each.
\<close>

theorem listing_saved:
  assumes "SaveThreads io now f rows c = (c', Inr ())" "distinct (map TID rows)"
    and "filter (\<lambda>((g, t), pos). g = f) (clisting c) = []"
    and "list_all (\<lambda>r. TrimSpace (TTitle r) \<noteq> [] \<and> \<not> untitled (TTitle r)) rows"
  shows "list_all2 (row_holds now f) (listing f c') rows"
proof -
  let ?irs = "zip (map int [0..<length rows]) rows"
  have e: "each (save_thread now f) ?irs c = Some c'" using transaction_ok assms(1) unfolding SaveThreads_def by blast
  have snds: "map snd ?irs = rows" by simp
  have "map (\<lambda>x. TID (snd x)) ?irs = map TID (map snd ?irs)" by (simp only: map_map comp_def)
  then have d: "distinct (map (\<lambda>x. TID (snd x)) ?irs)" using assms(2) by (simp only: snds)
  have none: "map_of (clisting c) (f, t) = None" for t using assms(3) by (auto simp: filter_empty_conv map_of_eq_None_iff)
  have all: "\<forall>x \<in> set ?irs. TrimSpace (TTitle (snd x)) \<noteq> [] \<and> \<not> untitled (TTitle (snd x))"
    using assms(4) by (auto simp: list_all_iff dest: set_zip_rightD)
  have h: "\<forall>x \<in> set ?irs. TrimSpace (TTitle (snd x)) \<noteq> [] \<and> map_of (clisting c) (f, TID (snd x)) = None" using all none by blast
  note eff = each_threads [OF e d h]
  have g: "filter (\<lambda>((g, t), pos). g = f) (clisting c') = map (\<lambda>(i, r). ((f, TID r), i)) ?irs"
    using eff assms(3) by (simp add: filter_map comp_def case_prod_beta)
  have "map (\<lambda>((f, t), pos). pos) (map (\<lambda>(i, r). ((f, TID r), i)) ?irs) = map fst ?irs" by (simp add: case_prod_beta comp_def)
  then have "sorted (map (\<lambda>((f, t), pos). pos) (map (\<lambda>(i, r). ((f, TID r), i)) ?irs))" by (simp add: sorted_map del: upt_Suc)
  then have "sort_key (\<lambda>((f, t), pos). pos) (map (\<lambda>(i, r). ((f, TID r), i)) ?irs) = map (\<lambda>(i, r). ((f, TID r), i)) ?irs"
    by (rule sort_key_id_if_sorted)
  then have "list_all2 (row_holds now f) (listing f c') (map snd ?irs)"
    using listing_rows [of ?irs "cthreads c'" now f] eff all unfolding listing_def g by simp
  then show ?thesis by (simp only: snds)
qed

lemma those_refused: "(\<And>x. f x = None) \<Longrightarrow> xs \<noteq> [] \<Longrightarrow> those (map f xs) = None"
  by (cases xs) simp_all

text \<open>
  And yet it is not read: the time of the last post is in a \<^verbatim>\<open>TEXT\<close> column, so that \<^verbatim>\<open>Scan\<close> refuses every row, and the
  cached listing of a forum with threads never counts as one.
\<close>

theorem cached_listing_unreadable:
  assumes "text_columns D" "SaveThreads io now f rows c = (c', Inr ())" "distinct (map TID rows)" "rows \<noteq> []"
    and "filter (\<lambda>((g, t), pos). g = f) (clisting c) = []"
    and "list_all (\<lambda>r. TrimSpace (TTitle r) \<noteq> [] \<and> \<not> untitled (TTitle r)) rows"
  shows "length (listing f c') = length rows \<and> cachedThreads D f c' = None \<and> List.map_filter (scan_thread D) (listing f c') = []"
proof -
  have l: "length (listing f c') = length rows"
    using listing_saved [OF assms(2,3,5,6)] by (rule list_all2_lengthD)
  have n: "scan_thread D x = None" for x by (simp add: scan_thread_def text_column_refused [OF assms(1)] split: prod.split)
  have "listing f c' \<noteq> []" using l assms(4) by auto
  then have "cachedThreads D f c' = None" unfolding cachedThreads_def by (rule those_refused [OF n])
  moreover have "List.map_filter (scan_thread D) (listing f c') = []" by (simp add: List.map_filter_def n)
  ultimately show ?thesis using l by blast
qed

lemma each_insert_forum: "each (insert_forum now) nodes c = Some c' \<Longrightarrow> clisting c' = clisting c"
  by (induction nodes arbitrary: c) (auto simp: insert_forum_def split: option.splits if_splits)

text \<open>A new snapshot of the navigation drops every cached listing, also those of forums that it contains.\<close>

theorem snapshot_forgets_listings:
  assumes "cache_ok c" "ReplaceForumSnapshot io now nodes c = (c', Inr ())"
  shows "clisting c' = [] \<and> cachedThreads D f c' = Some []"
proof -
  have "each (insert_forum now) nodes (delete_forums (\<lambda>i r. True) c) = Some c'"
    using transaction_ok assms(2) unfolding ReplaceForumSnapshot_def by blast
  then have "clisting c' = clisting (delete_forums (\<lambda>i r. True) c)" by (rule each_insert_forum)
  moreover have "clisting (delete_forums (\<lambda>i r. True) c) = []"
    using assms(1) by (fastforce simp: cache_ok_def delete_forums_def filter_empty_conv)
  ultimately show ?thesis by (simp add: cachedThreads_def listing_def)
qed

lemma each_posts_other:
  "each (save_post now) ps c = Some c' \<Longrightarrow> i \<notin> PID ` set ps \<Longrightarrow> map_of (cposts c') i = map_of (cposts c) i"
  by (induction ps arbitrary: c) (auto simp: save_post_def update_conv)

definition saved_row :: "instant \<Rightarrow> Post \<Rightarrow> post_row" where
  "saved_row now p = post_row_of now p None"

lemma each_posts:
  assumes "each (save_post now) ps c = Some c'" "distinct (map PID ps)" "p \<in> set ps" "map_of (cposts c) (PID p) = None"
  shows "map_of (cposts c') (PID p) = Some (saved_row now p)"
  using assms
proof (induction ps arbitrary: c)
  case (Cons q ps)
  obtain c1 where c1: "save_post now q c = Some c1" "each (save_post now) ps c1 = Some c'"
    using Cons.prems(1) by (auto split: option.splits)
  show ?case
  proof (cases "p = q")
    case True
    have "PID q \<notin> PID ` set ps" using Cons.prems(2) by simp
    then have "map_of (cposts c') (PID q) = map_of (cposts c1) (PID q)" by (rule each_posts_other [OF c1(2)])
    then show ?thesis using c1(1) Cons.prems(4) True by (auto simp: save_post_def update_conv saved_row_def)
  next
    case False
    then have p: "p \<in> set ps" using Cons.prems(3) by simp
    then have "PID p \<noteq> PID q" using Cons.prems(2) by (metis distinct.simps(2) image_eqI list.set_map list.simps(9))
    then have "map_of (cposts c1) (PID p) = None" using c1(1) Cons.prems(4) by (auto simp: save_post_def update_conv)
    then show ?thesis using Cons.IH [OF c1(2)] Cons.prems(2) p by simp
  qed
qed simp

lemma page_posts:
  assumes "SavePage io now page c = (c', Inr ())"
  obtains c1 where "each (save_post now) (PgPosts page) c1 = Some c'" "cposts c1 = cposts c"
proof -
  have h: "(case save_page_thread now page c of None \<Rightarrow> None | Some c1 \<Rightarrow> each (save_post now) (PgPosts page) c1) = Some c'"
    using transaction_ok assms unfolding SavePage_def by blast
  then obtain c1 where c1: "save_page_thread now page c = Some c1" "each (save_post now) (PgPosts page) c1 = Some c'"
    by (auto split: option.splits)
  then have "cposts c1 = cposts c" by (auto simp: save_page_thread_def Let_def split: if_splits)
  with c1(2) show thesis by (rule that)
qed

lemma posts_of_iff:
  "q \<in> set (PostsOf D tid c) \<longleftrightarrow> (\<exists>i r. (i, r) \<in> set (cposts c) \<and> PoThread r = tid \<and> scan_post D tid (i, r) = Some q)"
proof
  assume "q \<in> set (PostsOf D tid c)"
  then obtain x where x: "x \<in> set (cposts c)" "PoThread (snd x) = tid" "scan_post D tid x = Some q"
    by (auto simp: PostsOf_def List.map_filter_def)
  then show "\<exists>i r. (i, r) \<in> set (cposts c) \<and> PoThread r = tid \<and> scan_post D tid (i, r) = Some q" by (metis prod.collapse)
next
  assume "\<exists>i r. (i, r) \<in> set (cposts c) \<and> PoThread r = tid \<and> scan_post D tid (i, r) = Some q"
  then obtain x where x: "x \<in> set (cposts c)" "PoThread (snd x) = tid" "scan_post D tid x = Some q" by auto
  then have "x \<in> set (filter (\<lambda>x. scan_post D tid x \<noteq> None)
      (sort_key (\<lambda>(i, r). (PoPage r, PoPosition r, i)) (filter (\<lambda>(i, r). PoThread r = tid) (cposts c))))"
    by (simp add: case_prod_beta)
  then have "(the \<circ> scan_post D tid) x \<in> set (PostsOf D tid c)" unfolding PostsOf_def List.map_filter_def set_map by (rule imageI)
  then show "q \<in> set (PostsOf D tid c)" using x(3) by simp
qed

text \<open>
  The posts of a saved page are in the cache with their authors, texts and times, and none is read from it: their
  times are in a \<^verbatim>\<open>TEXT\<close> column.
\<close>

lemma text_posts: "text_columns D \<Longrightarrow> PostsOf D tid c = []"
  by (simp add: PostsOf_def List.map_filter_def scan_post_def text_column_refused case_prod_unfold)

lemma posts_saved:
  assumes "SavePage io now page c = (c', Inr ())" "distinct (map PID (PgPosts page))" "p \<in> set (PgPosts page)"
    and "map_of (cposts c) (PID p) = None"
  shows "map_of (cposts c') (PID p) = Some (saved_row now p)"
proof -
  obtain c1 where c1: "each (save_post now) (PgPosts page) c1 = Some c'" "cposts c1 = cposts c" using page_posts [OF assms(1)] .
  show ?thesis using each_posts [OF c1(1) assms(2,3)] assms(4) c1(2) by simp
qed

theorem cached_posts_unreadable:
  assumes "text_columns D" "SavePage io now page c = (c', Inr ())" "distinct (map PID (PgPosts page))" "p \<in> set (PgPosts page)"
    and "map_of (cposts c) (PID p) = None"
  shows "(\<exists>r. map_of (cposts c') (PID p) = Some r \<and> PoThread r = PThreadID p \<and> PoAuthor r = PAuthor p \<and> PoText r = PText p) \<and>
    PostsOf D (PThreadID p) c' = []"
  using posts_saved [OF assms(2-5)] text_posts [OF assms(1)] by (simp add: saved_row_def post_row_of_def)

text \<open>A post that is already cached keeps the thread it was first seen in; the search index has the new one.\<close>

theorem moved_post_split:
  assumes "map_of (cposts c) (PID p) = Some old" "save_post now p c = Some c'"
  shows "map_option PoThread (map_of (cposts c') (PID p)) = Some (PoThread old) \<and>
    (PID p, \<lparr>SeThread = PThreadID p, SeAuthor = PAuthor p, SeText = PText p\<rparr>) \<in> set (csearch c')"
  using assms by (auto simp: save_post_def post_row_of_def update_conv)

text \<open>A time of the last synchronisation that cannot be parsed back makes a source stale at once.\<close>

theorem unread_sync_is_stale:
  assumes "map_of (csync c) source = Some st" "SyStatus st \<noteq> str ''permanent''" "DrSync D (SyAt st) = None"
  shows "StaleEvents D io1 io2 after source now c"
  using assms by (simp add: StaleEvents_def ExternalSyncState_def)

definition seen_kept :: "cache \<Rightarrow> cache \<Rightarrow> bool" where
  "seen_kept c c' \<longleftrightarrow> (\<forall>k r. map_of (cevents c) k = Some r \<longrightarrow> (\<exists>r'. map_of (cevents c') k = Some r' \<and> EvFirstSeen r' = EvFirstSeen r))"

lemma seen_same: "cevents c' = cevents c \<Longrightarrow> seen_kept c c'"
  by (simp add: seen_kept_def)

lemma seen_trans: "seen_kept a b \<Longrightarrow> seen_kept b c \<Longrightarrow> seen_kept a c"
  unfolding seen_kept_def by metis

lemma seen_event: "save_event P T e c = Some c' \<Longrightarrow> seen_kept c c'"
  by (auto simp: save_event_def Let_def seen_kept_def update_conv split: option.splits)

lemma each_seen: "each (save_event P T) es c = Some c' \<Longrightarrow> seen_kept c c'"
proof (induction es arbitrary: c)
  case (Cons e es)
  then obtain c1 where "save_event P T e c = Some c1" "each (save_event P T) es c1 = Some c'" by (auto split: option.splits)
  then show ?case using Cons.IH seen_event seen_trans by blast
qed (simp add: seen_same)

lemma each_same: "(\<And>x c c'. f x c = Some c' \<Longrightarrow> g c' = g c) \<Longrightarrow> each f xs c = Some c' \<Longrightarrow> g c' = g c"
  by (induction xs arbitrary: c) (auto split: option.splits)

lemma events_save_forum: "save_forum now n c = Some c' \<Longrightarrow> cevents c' = cevents c"
  by (auto simp: save_forum_def Let_def delete_forums_def split: if_splits)

lemma events_insert_forum: "insert_forum now n c = Some c' \<Longrightarrow> cevents c' = cevents c"
  by (auto simp: insert_forum_def split: if_splits)

lemma events_save_thread: "save_thread now f x c = Some c' \<Longrightarrow> cevents c' = cevents c"
  by (cases x) (auto simp: save_thread_def Let_def split: if_splits)

lemma events_save_post: "save_post now p c = Some c' \<Longrightarrow> cevents c' = cevents c"
  by (auto simp: save_post_def)

lemma seen_refresh: "seen_kept c (fst (RefreshEvents P T io1 io2 source now fetched c))"
proof -
  have sync: "seen_kept c (SetExternalSyncState io source st c1)" if "seen_kept c c1" for io source st c1
    using that seen_trans seen_same [of "SetExternalSyncState io source st c1" c1] by (auto simp: SetExternalSyncState_def)
  have "seen_kept c (fst (SaveExternalEvents P T io1 es c))" for es
    using each_seen by (auto simp: SaveExternalEvents_def transaction_def seen_same split: option.splits)
  then show ?thesis
    using sync seen_same [of c c] by (auto simp: RefreshEvents_def Let_def split: sum.splits prod.splits) (metis fst_conv)+
qed

lemma transaction_same:
  assumes "\<And>c'. f c = Some c' \<Longrightarrow> cevents c' = cevents c"
  shows "seen_kept c (fst (transaction io f c))"
  by (rule transaction_keeps) (use assms in \<open>auto intro: seen_same\<close>)

lemma seen_forums: "seen_kept c (fst (SaveForums io now nodes c))"
  unfolding SaveForums_def by (rule transaction_same, erule each_same [where g = cevents, rotated]) (rule events_save_forum)

lemma seen_threads: "seen_kept c (fst (SaveThreads io now f rows c))"
  unfolding SaveThreads_def by (rule transaction_same, erule each_same [where g = cevents, rotated]) (rule events_save_thread)

lemma seen_snapshot: "seen_kept c (fst (ReplaceForumSnapshot io now nodes c))"
  unfolding ReplaceForumSnapshot_def
proof (rule transaction_same)
  fix c' assume "each (insert_forum now) nodes (delete_forums (\<lambda>i r. True) c) = Some c'"
  then have "cevents c' = cevents (delete_forums (\<lambda>i r. True) c)"
    by (rule each_same [where g = cevents, rotated]) (rule events_insert_forum)
  then show "cevents c' = cevents c" by (simp add: delete_forums_def)
qed

lemma seen_page: "seen_kept c (fst (SavePage io now page c))"
  unfolding SavePage_def
proof (rule transaction_same)
  fix c' assume "(case save_page_thread now page c of None \<Rightarrow> None | Some c1 \<Rightarrow> each (save_post now) (PgPosts page) c1) = Some c'"
  then obtain c1 where c1: "save_page_thread now page c = Some c1" "each (save_post now) (PgPosts page) c1 = Some c'"
    by (auto split: option.splits)
  then have "cevents c1 = cevents c" by (auto simp: save_page_thread_def Let_def split: if_splits)
  moreover have "cevents c' = cevents c1" using c1(2) by (rule each_same [where g = cevents, rotated]) (rule events_save_post)
  ultimately show "cevents c' = cevents c" by simp
qed

lemma seen_step: "seen_kept c (cache_step P T c op)"
  by (cases op) (simp_all add: seen_forums seen_threads seen_snapshot seen_page seen_refresh SetExternalSyncState_def seen_same)

interpretation seenrun: run_relation "cache_step P T" "\<lambda>_. True" seen_kept for P T
  by unfold_locales (auto simp: seen_same seen_step intro: seen_trans)

text \<open>
  The time an event was first seen never changes: whatever is saved later, and however often the event
  is fetched again, a cached event stays cached with the first-seen time it got.
\<close>

theorem first_seen_kept:
  "\<forall>k r. map_of (cevents c) k = Some r \<longrightarrow>
     (\<exists>r'. map_of (cevents (foldl (cache_step P T) c ops)) k = Some r' \<and> EvFirstSeen r' = EvFirstSeen r)"
  using seenrun.run_rel [of c P T ops] by (simp add: seen_kept_def)

section \<open>Concrete runs\<close>

definition sample_forum :: ForumNode where
  "sample_forum = \<lparr>FID = [7], FTitle = [70], FURL = [71], FParentID = [], FDepth = 0, FSortOrder = 0, FHasChildren = False, FBrowsable = True\<rparr>"

definition sample_thread :: "byte \<Rightarrow> ThreadSummary" where
  "sample_thread i = \<lparr>TID = [i], TTitle = [65, i], TURL = [66, i], TForumID = [], TAuthor = [], TReplies = 3, TViews = 9, TLastPostAt = 5,
     TLastPostAuthor = [97], TSticky = False, TPageCount = 2\<rparr>"

definition sample_post :: Post where
  "sample_post = \<lparr>PID = [50], PThreadID = [65], PAuthor = [97], PTimestamp = 5, PPage = 1, PPosition = 0, PText = [98], PRawText = [99],
     PSourceURL = [66], PQuotes = []\<rparr>"

definition sample_page :: ParsedPage where
  "sample_page = \<lparr>PgThreadID = [65], PgTitle = [], PgPage = 1, PgMaxPage = 4, PgSourceURL = [66], PgPosts = [sample_post]\<rparr>"

definition sample_event :: ExternalEvent where
  "sample_event = \<lparr>XSource = [1], XID = [2], XTimestamp = 5, XTitle = [], XSummary = [], XType = [], XLocation = [], XLatitude = None,
     XLongitude = None, XURL = [], XFirstSeen = 3, XLastSeen = 3\<rparr>"

definition sample_driver :: driver where
  "sample_driver = \<lparr>DrValue = (\<lambda>ty t. if ty = str ''TEXT'' then DvText else DvTime t), DrSync = (\<lambda>t. None)\<rparr>"

lemma sample_text [simp]: "text_columns sample_driver"
  by (simp add: text_columns_def sample_driver_def)

definition sample_cache :: cache where
  "sample_cache = fst (SaveForums True 1 [sample_forum] empty_cache)"

definition sample_ops :: "cache_op list" where
  "sample_ops = [OpForums True 1 [sample_forum], OpThreads True 2 [7] [sample_thread 65, sample_thread 66], OpPage True 3 sample_page]"

lemmas sample_defs = sample_forum_def sample_thread_def sample_post_def sample_page_def sample_event_def sample_driver_def

lemma sample_cache_forum: "sample_cache = empty_cache\<lparr>cforums := [([7], forum_row_of 1 sample_forum)]\<rparr>"
  by (simp add: sample_cache_def SaveForums_def transaction_def save_forum_def delete_forums_def taken_def empty_cache_def sample_forum_def)

lemma sample_trim: "TrimSpace [65, i] \<noteq> []" if "i = 65 \<or> i = 66" for i :: byte
proof -
  have "TrimSpace [65, 65 :: byte] = [65, 65]" "TrimSpace [65, 66 :: byte] = [65, 66]" by code_simp+
  then show ?thesis using that by auto
qed

lemma sample_titled: "\<not> untitled [65, 65]" "\<not> untitled [65, 66]"
  by code_simp+

lemma sample_threads_saved:
  "SaveThreads True 2 [7] [sample_thread 65, sample_thread 66] sample_cache =
     (sample_cache\<lparr>cthreads := [([65], thread_row_of 2 [7] (sample_thread 65) 2), ([66], thread_row_of 2 [7] (sample_thread 66) 2)],
        clisting := [(([7], [65]), 0), (([7], [66]), 1)]\<rparr>, Inr ())"
  by (simp add: SaveThreads_def transaction_def save_thread_def sample_cache_forum sample_thread_def taken_def empty_cache_def thread_row_of_def
      sample_trim Let_def)

theorem listing_saved_witness:
  "length (listing [7] (fst (SaveThreads True 2 [7] [sample_thread 65, sample_thread 66] sample_cache))) = 2 \<and>
   cachedThreads sample_driver [7] (fst (SaveThreads True 2 [7] [sample_thread 65, sample_thread 66] sample_cache)) = None"
proof -
  have "list_all (\<lambda>r. TrimSpace (TTitle r) \<noteq> [] \<and> \<not> untitled (TTitle r)) [sample_thread 65, sample_thread 66]"
    by (simp add: sample_defs sample_trim sample_titled)
  moreover have "distinct (map TID [sample_thread 65, sample_thread 66])" by (simp add: sample_thread_def)
  moreover have "filter (\<lambda>((g, t), pos). g = [7]) (clisting sample_cache) = []" by (simp add: sample_cache_forum empty_cache_def)
  moreover have "[sample_thread 65, sample_thread 66] \<noteq> []" by simp
  ultimately show ?thesis
    using cached_listing_unreadable [OF sample_text sample_threads_saved] list_all2_lengthD [OF listing_saved [OF sample_threads_saved]]
    by (simp only: sample_threads_saved fst_conv) simp
qed

theorem save_all_or_nothing_witness:
  "SaveThreads True 2 [8] [sample_thread 65] sample_cache = (sample_cache, Inl ErrConstraint) \<and>
   snd (SaveForums True 2 [sample_forum] sample_cache) = Inr ()"
proof -
  have "map_of (cforums sample_cache) [8] = None" "list_ex (\<lambda>r. TrimSpace (TTitle r) \<noteq> []) [sample_thread 65]"
    by (simp_all add: sample_cache_forum empty_cache_def sample_thread_def sample_trim)
  then show ?thesis using save_all_or_nothing [of True 2 "[sample_forum]" sample_cache "[8]" "[sample_thread 65]"] by simp
qed

lemma sample_run: "clisting (foldl (cache_step demo_prims (\<lambda>_. [])) empty_cache sample_ops) = [(([7], [65]), 0), (([7], [66]), 1)] \<and>
  map fst (csearch (foldl (cache_step demo_prims (\<lambda>_. [])) empty_cache sample_ops)) = [[50]]"
proof -
  have "foldl (cache_step demo_prims (\<lambda>_. [])) empty_cache sample_ops =
      fst (SavePage True 3 sample_page (fst (SaveThreads True 2 [7] [sample_thread 65, sample_thread 66] sample_cache)))"
    by (simp add: sample_ops_def sample_cache_def)
  also have "\<dots> = fst (SavePage True 3 sample_page
      (sample_cache\<lparr>cthreads := [([65], thread_row_of 2 [7] (sample_thread 65) 2), ([66], thread_row_of 2 [7] (sample_thread 66) 2)],
        clisting := [(([7], [65]), 0), (([7], [66]), 1)]\<rparr>))"
    by (simp only: sample_threads_saved fst_conv)
  finally show ?thesis
    by (simp add: SavePage_def transaction_def save_page_thread_def sample_page_def save_post_def sample_post_def sample_cache_forum empty_cache_def)
qed

theorem cache_integrity_witness:
  "list_ex (\<lambda>((f, t), pos). f \<in> fst ` set (cforums (foldl (cache_step demo_prims (\<lambda>_. [])) empty_cache sample_ops)))
     (clisting (foldl (cache_step demo_prims (\<lambda>_. [])) empty_cache sample_ops)) \<and>
   [50] \<in> fst ` set (cposts (foldl (cache_step demo_prims (\<lambda>_. [])) empty_cache sample_ops))"
proof -
  let ?c = "foldl (cache_step demo_prims (\<lambda>_. [])) empty_cache sample_ops"
  note h = cache_integrity [OF refl, where P = demo_prims and T = "\<lambda>_. []" and ops = sample_ops]
  have "[50] \<in> set (map fst (csearch ?c))" by (simp add: sample_run)
  then have "[50] \<in> fst ` set (csearch ?c)" by (simp only: set_map)
  then have "[50] \<in> fst ` set (cposts ?c)" using h by (elim conjE) (simp only:)
  moreover have "[7] \<in> fst ` set (cforums ?c)" using h by (simp add: sample_run)
  ultimately show ?thesis by (simp add: sample_run)
qed

theorem cached_posts_unreadable_witness:
  "\<exists>r. map_of (cposts (fst (SavePage True 3 sample_page empty_cache))) [50] = Some r \<and> PoText r = [98] \<and>
     PostsOf sample_driver [65] (fst (SavePage True 3 sample_page empty_cache)) = []"
proof -
  obtain c' where c': "SavePage True 3 sample_page empty_cache = (c', Inr ())"
    by (simp add: SavePage_def transaction_def save_page_thread_def save_post_def sample_page_def taken_def empty_cache_def)
  have "distinct (map PID (PgPosts sample_page))" "sample_post \<in> set (PgPosts sample_page)" "map_of (cposts empty_cache) (PID sample_post) = None"
    by (simp_all add: sample_defs empty_cache_def)
  from cached_posts_unreadable [OF sample_text c' this] show ?thesis unfolding c' fst_conv by (auto simp: sample_post_def)
qed

theorem first_seen_kept_witness:
  "\<exists>r. map_of (cevents (foldl (cache_step demo_prims (\<lambda>_. [])) (cache_step demo_prims (\<lambda>_. []) empty_cache (OpRefresh True True [1] 4 (Inr [sample_event])))
      [OpRefresh True True [1] 8 (Inr [sample_event\<lparr>XFirstSeen := 7\<rparr>]), OpSnapshot True 9 []])) ([1], [2]) = Some r \<and> EvFirstSeen r = 3"
proof -
  have "\<exists>r. map_of (cevents (cache_step demo_prims (\<lambda>_. []) empty_cache (OpRefresh True True [1] 4 (Inr [sample_event])))) ([1], [2]) = Some r \<and>
      EvFirstSeen r = 3"
    by (simp add: RefreshEvents_def SaveExternalEvents_def transaction_def save_event_def mark_seen_def sample_event_def empty_cache_def
        SetExternalSyncState_def Let_def)
  then obtain r where r: "map_of (cevents (cache_step demo_prims (\<lambda>_. []) empty_cache (OpRefresh True True [1] 4 (Inr [sample_event])))) ([1], [2]) = Some r"
      "EvFirstSeen r = 3" by blast
  show ?thesis using first_seen_kept [rule_format, OF r(1)] r(2) by metis
qed

end
