(* ===== verification/Svc_RateLimiter.thy ===== *)
theory Svc_RateLimiter
  imports Gandr_Prelude
begin

text \<open>
  \<^verbatim>\<open>internal/external/ratelimit.go\<close>: the pacing of requests to public servers, with a minimum gap and rolling
  ceilings of an hour and a day. A turn is what one caller does while it holds the mutex; the loop of
  \<^verbatim>\<open>Wait\<close> sleeps between turns. Durations stay far below the range of int64 except where \<^verbatim>\<open>Sub\<close> saturates.
\<close>

abbreviation (input) Day :: duration where "Day \<equiv> 86400000000000"

record RateLimiter =
  minimumGap :: duration
  perHour :: int
  perDay :: int
  requests :: "instant list"

definition NewRateLimiterWithClock :: "duration \<Rightarrow> int \<Rightarrow> int \<Rightarrow> RateLimiter" where
  "NewRateLimiterWithClock gap h d = \<lparr>minimumGap = gap, perHour = h, perDay = d, requests = []\<rparr>"

definition NewRateLimiter :: RateLimiter where
  "NewRateLimiter = NewRateLimiterWithClock (10 * Second) 60 1440"

definition limiter_prune :: "instant \<Rightarrow> RateLimiter \<Rightarrow> RateLimiter" where
  "limiter_prune now r = r\<lparr>requests := dropWhile (\<lambda>q. q < now - Day) (requests r)\<rparr>"

definition requestDelay :: "instant list \<Rightarrow> instant \<Rightarrow> duration \<Rightarrow> duration" where
  "requestDelay qs now window =
     (case find (\<lambda>q. q > now - window \<and> time_sub (q + window) now > 0) qs of
        None \<Rightarrow> 0
      | Some q \<Rightarrow> time_sub (q + window) now)"

definition gap_left :: "instant \<Rightarrow> RateLimiter \<Rightarrow> duration" where
  "gap_left now r = (if requests r = [] then 0 else max 0 (minimumGap r - time_sub now (last (requests r))))"

definition wait_time :: "instant \<Rightarrow> RateLimiter \<Rightarrow> duration" where
  "wait_time now r =
     (let w0 = gap_left now r;
          hourCount = length (filter (\<lambda>q. q > now - Hour) (requests r));
          w1 = (if int hourCount \<ge> perHour r then max w0 (requestDelay (requests r) now Hour) else w0)
      in if int (length (requests r)) \<ge> perDay r then max w1 (requestDelay (requests r) now Day) else w1)"

definition wait_turn :: "instant \<Rightarrow> RateLimiter \<Rightarrow> RateLimiter \<times> duration" where
  "wait_turn now r =
     (let r1 = limiter_prune now r; w = wait_time now r1 in
      if w = 0 then (r1\<lparr>requests := requests r1 @ [now]\<rparr>, 0) else (r1, w))"

text \<open>
  \<open>slp t d\<close> is the reading of the clock after sleeping for \<open>d\<close> from \<open>t\<close> on, \<^const>\<open>None\<close> when the context ended the
  sleep. The result is the time of the grant, or that of the last turn.
\<close>

partial_function (option) limiter_Wait ::
  "(instant \<Rightarrow> duration \<Rightarrow> instant option) \<Rightarrow> instant \<Rightarrow> RateLimiter \<Rightarrow> (RateLimiter \<times> (instant + instant)) option" where
  "limiter_Wait slp now r =
     (case wait_turn now r of (r1, w) \<Rightarrow>
        if w = 0 then Some (r1, Inr now)
        else (case slp now w of None \<Rightarrow> Some (r1, Inl now) | Some now' \<Rightarrow> limiter_Wait slp now' r1))"

text \<open>The turns of all callers at the given readings of the clock, and the times of the grants.\<close>

fun turns :: "instant list \<Rightarrow> RateLimiter \<Rightarrow> instant list \<times> RateLimiter" where
  "turns [] r = ([], r)"
| "turns (t # ts) r =
     (case wait_turn t r of (r1, w) \<Rightarrow>
        (case turns ts r1 of (g, r2) \<Rightarrow> (if w = 0 then t # g else g, r2)))"

section \<open>The ceilings\<close>

definition in_window :: "duration \<Rightarrow> instant \<Rightarrow> instant list \<Rightarrow> nat" where
  "in_window d x qs = length (filter (\<lambda>q. x - d < q \<and> q \<le> x) qs)"

lemma in_window_append [simp]: "in_window d x (qs @ rs) = in_window d x qs + in_window d x rs"
  by (simp add: in_window_def)

lemma in_window_later:
  assumes "t \<le> x" "\<forall>q \<in> set qs. q \<le> t"
  shows "in_window d x qs \<le> in_window d t qs"
  using assms by (induction qs) (auto simp: in_window_def)

text \<open>What the limiter knows of the grants \<open>g\<close> up to \<open>now\<close>: all but those older than a day.\<close>

definition limiter_inv :: "instant \<Rightarrow> instant list \<Rightarrow> RateLimiter \<Rightarrow> bool" where
  "limiter_inv now g r \<longleftrightarrow>
     (\<exists>b \<le> now. requests r = dropWhile (\<lambda>q. q < b - Day) g) \<and> sorted g \<and> (\<forall>q \<in> set g. q \<le> now) \<and>
     successively (\<lambda>a b. minimumGap r \<le> b - a) g \<and>
     (\<forall>x. int (in_window Hour x g) \<le> perHour r) \<and> (\<forall>x. int (in_window Day x g) \<le> perDay r)"

lemma dropWhile_dropWhile_le:
  "(a :: int) \<le> b \<Longrightarrow> dropWhile (\<lambda>q. q < b) (dropWhile (\<lambda>q. q < a) qs) = dropWhile (\<lambda>q. q < b) qs"
  by (induction qs) auto

lemma in_window_dropWhile:
  assumes "sorted qs" "\<forall>q \<in> set qs. q \<le> now" "d \<le> Day"
  shows "in_window d now (dropWhile (\<lambda>q. q < now - Day) qs) = in_window d now qs"
  using assms by (induction qs) (auto simp: in_window_def)

lemma hour_count:
  assumes "\<forall>q \<in> set qs. q \<le> now"
  shows "length (filter (\<lambda>q. q > now - d) qs) = in_window d now qs"
  using assms unfolding in_window_def by (metis (mono_tags, lifting) filter_cong)

lemma requestDelay_none:
  assumes "requestDelay qs now d = 0" "\<forall>q \<in> set qs. q \<le> now"
  shows "in_window d now qs = 0"
proof -
  have "\<not> (q > now - d \<and> time_sub (q + d) now > 0)" if "q \<in> set qs" for q
    using assms(1) that by (auto simp: requestDelay_def find_None_iff find_Some_iff split: option.splits)
  then have "\<not> q > now - d" if "q \<in> set qs" for q
    using that by (fastforce simp: time_sub_def min_duration_def max_duration_def)
  then show ?thesis by (auto simp: in_window_def filter_empty_conv)
qed

lemma requestDelay_nonneg: "0 \<le> requestDelay qs now d"
  by (auto simp: requestDelay_def find_Some_iff split: option.split)

lemma wait_time_zero:
  assumes "wait_time now r = 0" "\<forall>q \<in> set (requests r). q \<le> now" "0 < perHour r" "0 < perDay r"
  shows "gap_left now r = 0" "int (in_window Hour now (requests r)) < perHour r" "int (in_window Day now (requests r)) < perDay r"
proof -
  let ?h = "requestDelay (requests r) now Hour" and ?d = "requestDelay (requests r) now Day"
  have n: "0 \<le> ?h" "0 \<le> ?d" "0 \<le> gap_left now r" by (simp_all add: requestDelay_nonneg gap_left_def)
  note w = assms(1) [unfolded wait_time_def Let_def hour_count [OF assms(2)]]
  have z: "gap_left now r = 0" "perHour r \<le> int (in_window Hour now (requests r)) \<Longrightarrow> ?h = 0" "perDay r \<le> int (length (requests r)) \<Longrightarrow> ?d = 0"
    using w n by (auto simp: max_def split: if_splits)
  show "gap_left now r = 0" by (rule z(1))
  show "int (in_window Hour now (requests r)) < perHour r"
  proof (rule ccontr)
    assume a: "\<not> int (in_window Hour now (requests r)) < perHour r"
    then have "?h = 0" by (intro z(2)) simp
    from requestDelay_none [OF this assms(2)] show False using a assms(3) by simp
  qed
  show "int (in_window Day now (requests r)) < perDay r"
  proof (rule ccontr)
    assume a: "\<not> int (in_window Day now (requests r)) < perDay r"
    have "in_window Day now (requests r) \<le> length (requests r)" by (simp add: in_window_def)
    then have "?d = 0" using a by (intro z(3)) simp
    from requestDelay_none [OF this assms(2)] show False using a assms(4) by simp
  qed
qed

lemma gap_kept:
  assumes "gap_left now r = 0" "\<forall>q \<in> set (requests r). q \<le> now" "requests r \<noteq> []"
  shows "minimumGap r \<le> now - last (requests r)"
proof -
  have "last (requests r) \<le> now" using assms(2,3) by simp
  then show ?thesis using assms(1,3) by (auto simp: gap_left_def time_sub_def min_duration_def max_duration_def split: if_splits)
qed

lemma last_dropWhile_old:
  assumes "dropWhile (\<lambda>q. q < b) g \<noteq> ([] :: int list)"
  shows "last (dropWhile (\<lambda>q. q < b) g) = last g"
  using assms by (induction g) auto

lemma dropWhile_snoc_keep: "\<not> P x \<Longrightarrow> dropWhile P (g @ [x]) = dropWhile P g @ [x]"
  by (induction g) auto

lemma limiter_inv_requests: "limiter_inv now g r \<Longrightarrow> \<forall>q \<in> set (requests r). q \<le> now"
  unfolding limiter_inv_def by (metis set_dropWhileD)

lemma limiter_inv_later: "limiter_inv now g r \<Longrightarrow> now \<le> now' \<Longrightarrow> limiter_inv now' g r"
  unfolding limiter_inv_def by (meson order_trans)

lemma limiter_inv_new: "0 < h \<Longrightarrow> 0 < d \<Longrightarrow> limiter_inv now [] (NewRateLimiterWithClock gap h d)"
  by (auto simp: limiter_inv_def NewRateLimiterWithClock_def in_window_def)

lemma limiter_inv_turn:
  assumes "limiter_inv now0 g r" "now0 \<le> now" "wait_turn now r = (r1, w)"
    and "0 < perHour r" "0 < perDay r" "minimumGap r \<le> Day"
  shows "limiter_inv now (if w = 0 then g @ [now] else g) r1 \<and> perHour r1 = perHour r \<and> perDay r1 = perDay r \<and> minimumGap r1 = minimumGap r"
proof -
  let ?p = "limiter_prune now r"
  note i = assms(1) [unfolded limiter_inv_def]
  have old: "\<forall>q \<in> set g. q \<le> now" using i assms(2) by force
  obtain b where b: "b \<le> now0" "requests r = dropWhile (\<lambda>q. q < b - Day) g" using i by blast
  have p: "requests ?p = dropWhile (\<lambda>q. q < now - Day) g" "perHour ?p = perHour r" "perDay ?p = perDay r" "minimumGap ?p = minimumGap r"
    using b assms(2) by (simp_all add: limiter_prune_def dropWhile_dropWhile_le)
  then have kept: "limiter_inv now g ?p" using i old by (auto simp: limiter_inv_def)
  show ?thesis
  proof (cases "wait_time now ?p = 0")
    case False
    then show ?thesis using assms(3) kept p by (auto simp: wait_turn_def Let_def)
  next
    case True
    then have r1: "r1 = ?p\<lparr>requests := requests ?p @ [now]\<rparr>" "w = 0" using assms(3) by (auto simp: wait_turn_def Let_def)
    have le: "\<forall>q \<in> set (requests ?p). q \<le> now" using old unfolding p by (auto dest: set_dropWhileD)
    note z = wait_time_zero [OF True le, unfolded p(2,3), OF assms(4,5)]
    have win: "int (in_window Hour now g) < perHour r" "int (in_window Day now g) < perDay r"
      using z(2,3) i old unfolding p(1) by (simp_all add: in_window_dropWhile)
    have gap: "g = [] \<or> minimumGap r \<le> now - last g"
    proof (cases "requests ?p = []")
      case True
      then have "g \<noteq> [] \<Longrightarrow> last g < now - Day" unfolding p by simp
      then show ?thesis using assms(6) by fastforce
    next
      case False
      then show ?thesis using gap_kept [OF z(1) le False] last_dropWhile_old unfolding p by metis
    qed
    have "int (in_window d x (g @ [now])) \<le> m" if "\<forall>x. int (in_window d x g) \<le> m" "int (in_window d now g) < m" for d x m
    proof (cases "now \<le> x")
      case True
      then show ?thesis using in_window_later [OF True old, of d] that(2) by (auto simp: in_window_def)
    next
      case False
      then show ?thesis using that(1) by (simp add: in_window_def)
    qed
    then have "\<forall>x. int (in_window Hour x (g @ [now])) \<le> perHour r" "\<forall>x. int (in_window Day x (g @ [now])) \<le> perDay r"
      using i win by blast+
    moreover have "requests r1 = dropWhile (\<lambda>q. q < now - Day) (g @ [now])"
      unfolding r1 by (simp add: p(1) dropWhile_snoc_keep)
    ultimately show ?thesis using i old gap p r1
      by (auto simp: limiter_inv_def sorted_append successively_append_iff)
  qed
qed

lemma limiter_inv_turns:
  assumes "limiter_inv now0 g r" "sorted (now0 # ts)" "0 < perHour r" "0 < perDay r" "minimumGap r \<le> Day"
  shows "\<exists>now. limiter_inv now (g @ fst (turns ts r)) (snd (turns ts r)) \<and> perHour (snd (turns ts r)) = perHour r \<and>
    perDay (snd (turns ts r)) = perDay r \<and> minimumGap (snd (turns ts r)) = minimumGap r"
  using assms
proof (induction ts arbitrary: now0 g r)
  case (Cons t ts)
  obtain r1 w where w: "wait_turn t r = (r1, w)" by (cases "wait_turn t r")
  have s: "now0 \<le> t" "sorted (t # ts)" using Cons.prems(2) by auto
  note i = limiter_inv_turn [OF Cons.prems(1) s(1) w Cons.prems(3-5)]
  obtain g2 r2 where g: "turns ts r1 = (g2, r2)" by (cases "turns ts r1")
  show ?case using Cons.IH [of t "if w = 0 then g @ [t] else g" r1] i s(2) Cons.prems(3-5) w g by auto
qed auto

text \<open>
  The ceilings hold. However many callers share a fresh limiter and however their turns interleave, as long as
  the clock does not run backwards the grants are at least the minimum gap apart, and no hour and no day,
  wherever it begins, contains more grants than allowed.
\<close>

theorem ceilings_hold:
  assumes "sorted ts" "0 < h" "0 < d" "gap \<le> Day" "g = fst (turns ts (NewRateLimiterWithClock gap h d))"
  shows "successively (\<lambda>a b. gap \<le> b - a) g \<and> int (in_window Hour x g) \<le> h \<and> int (in_window Day x g) \<le> d"
proof -
  let ?r = "NewRateLimiterWithClock gap h d"
  let ?t0 = "case ts of [] \<Rightarrow> 0 | t # _ \<Rightarrow> t"
  have "limiter_inv ?t0 [] ?r" using assms(2,3) by (rule limiter_inv_new)
  moreover have "sorted (?t0 # ts)" using assms(1) by (cases ts) auto
  ultimately obtain now where "limiter_inv now g (snd (turns ts ?r))" "perHour (snd (turns ts ?r)) = h" "perDay (snd (turns ts ?r)) = d"
    "minimumGap (snd (turns ts ?r)) = gap"
    using limiter_inv_turns [of ?t0 "[]" ?r ts] assms(2-5) by (auto simp: NewRateLimiterWithClock_def)
  then show ?thesis by (simp add: limiter_inv_def)
qed

theorem ceilings_hold_witness:
  "fst (turns [0, 5, 12, 30] (NewRateLimiterWithClock 10 2 5)) = [0, 12] \<and> int (in_window Hour 30 [0, 12]) \<le> 2"
proof -
  have g: "[0, 12] = fst (turns [0, 5, 12, 30] (NewRateLimiterWithClock 10 2 5))"
    by (simp add: wait_turn_def wait_time_def limiter_prune_def gap_left_def requestDelay_def NewRateLimiterWithClock_def Let_def
        time_sub_def min_duration_def max_duration_def)
  have "sorted [0, 5, 12, 30 :: int]" "(0 :: int) < 2" "(0 :: int) < 5" "(10 :: int) \<le> Day" by simp_all
  from ceilings_hold [OF this g, of 30] g show ?thesis by simp
qed

section \<open>The loop ends\<close>

text \<open>What a sleeper has left to wait for: requests in the two windows, and the gap.\<close>

definition waits_left :: "instant \<Rightarrow> RateLimiter \<Rightarrow> nat" where
  "waits_left now r =
     length (filter (\<lambda>q. now - Day < q) (requests r)) + length (filter (\<lambda>q. now - Hour < q) (requests r)) +
     (if gap_left now r = 0 then 0 else 1)"

lemma filter_later: "(now :: int) \<le> now' \<Longrightarrow> length (filter (\<lambda>q. now' - d < q) qs) \<le> length (filter (\<lambda>q. now - d < q) qs)"
  by (induction qs) auto

lemma filter_gone:
  assumes "q \<in> set qs" "now - d < q" "q + d \<le> now'"
  shows "length (filter (\<lambda>q. now' - d < q) qs) < length (filter (\<lambda>q. now - d < (q :: int)) qs)"
  using assms
proof (induction qs)
  case (Cons a qs)
  have "now \<le> now'" using Cons.prems by linarith
  then show ?case using Cons filter_later [of now now' d qs] by auto
qed simp

lemma requestDelay_first:
  assumes "requestDelay qs now d \<noteq> 0" "\<forall>q \<in> set qs. q \<le> now" "d \<le> Day"
  obtains q where "q \<in> set qs" "now - d < q" "q + d = now + requestDelay qs now d"
proof -
  obtain q where q: "find (\<lambda>q. q > now - d \<and> time_sub (q + d) now > 0) qs = Some q"
    using assms(1) by (auto simp: requestDelay_def split: option.splits)
  then have m: "q \<in> set qs" "now - d < q" "0 < time_sub (q + d) now" by (auto simp: find_Some_iff)
  moreover have "time_sub (q + d) now = q + d - now"
    using m assms(2,3) by (auto simp: time_sub_def min_duration_def max_duration_def)
  ultimately show thesis using that q by (simp add: requestDelay_def)
qed

lemma Hour_le: "Hour \<le> Day"
  by simp

lemma gap_left_later:
  assumes "\<forall>q \<in> set (requests r). q \<le> now" "now + gap_left now r \<le> now'" "minimumGap r \<le> Day"
  shows "gap_left now' r = 0"
proof (cases "requests r = []")
  case False
  then have "last (requests r) \<le> now" using assms(1) by simp
  then show ?thesis using assms(2,3) False
    by (auto simp: gap_left_def time_sub_def min_duration_def max_duration_def split: if_splits)
qed (simp add: gap_left_def)

lemma dropWhile_filter_le: "length (filter P (dropWhile Q qs)) \<le> length (filter P qs)"
  by (induction qs) auto

lemma gap_left_prune: "gap_left now r = 0 \<Longrightarrow> gap_left now (limiter_prune now' r) = 0"
  using last_dropWhile_old [of "now' - Day" "requests r"]
  by (cases "requests r = []") (auto simp: gap_left_def limiter_prune_def)

lemma waits_left_prune: "waits_left now (limiter_prune now' r) \<le> waits_left now r"
proof -
  have "(if gap_left now (limiter_prune now' r) = 0 then 0 else 1) \<le> (if gap_left now r = 0 then 0 else 1 :: nat)"
    using gap_left_prune [of now r now'] by auto
  then show ?thesis unfolding waits_left_def
    by (intro add_mono) (simp_all add: limiter_prune_def dropWhile_filter_le)
qed

lemma waits_left_turn:
  assumes "wait_time now r \<noteq> 0" "\<forall>q \<in> set (requests r). q \<le> now" "now + wait_time now r \<le> now'" "minimumGap r \<le> Day"
  shows "waits_left now' r < waits_left now r"
proof -
  let ?h = "requestDelay (requests r) now Hour" and ?d = "requestDelay (requests r) now Day" and ?g = "gap_left now r"
  have n: "0 \<le> ?h" "0 \<le> ?d" "0 \<le> ?g" by (simp_all add: requestDelay_nonneg gap_left_def)
  have part: "now \<le> now'" "now + ?g \<le> now'"
    "(?g \<noteq> 0) \<or> (?h \<noteq> 0 \<and> now + ?h \<le> now') \<or> (?d \<noteq> 0 \<and> now + ?d \<le> now')"
    using assms(1,3) n by (auto simp: wait_time_def Let_def max_def split: if_splits)
  have g: "gap_left now' r = 0" using gap_left_later [OF assms(2) part(2) assms(4)] .
  note le = filter_later [OF part(1), of Day "requests r"] filter_later [OF part(1), of Hour "requests r"]
  have h: "length (filter (\<lambda>q. now' - Hour < q) (requests r)) < length (filter (\<lambda>q. now - Hour < q) (requests r))"
    if x: "?h \<noteq> 0" "now + ?h \<le> now'"
    using requestDelay_first [OF x(1) assms(2)] filter_gone [of _ "requests r" now Hour now'] x(2) by (metis Hour_le)
  have d: "length (filter (\<lambda>q. now' - Day < q) (requests r)) < length (filter (\<lambda>q. now - Day < q) (requests r))"
    if x: "?d \<noteq> 0" "now + ?d \<le> now'"
    using requestDelay_first [OF x(1) assms(2)] filter_gone [of _ "requests r" now Day now'] x(2) by (metis order_refl)
  show ?thesis using part(3) le h d g by (auto simp: waits_left_def)
qed

lemma limiter_prune_requests: "\<forall>q \<in> set (requests r). q \<le> now \<Longrightarrow> \<forall>q \<in> set (requests (limiter_prune now' r)). q \<le> now"
  by (auto simp: limiter_prune_def dest: set_dropWhileD)

text \<open>A whole call is a sequence of turns; what the limiter knows stays right.\<close>

lemma limiter_Wait_inv:
  assumes "limiter_Wait slp now r = Some (r1, res)" "limiter_inv now g r" "\<And>t d t'. slp t d = Some t' \<Longrightarrow> t \<le> t'"
    and "0 < perHour r" "0 < perDay r" "minimumGap r \<le> Day"
  shows "perHour r1 = perHour r \<and> perDay r1 = perDay r \<and> minimumGap r1 = minimumGap r \<and>
    (case res of Inl t \<Rightarrow> now \<le> t \<and> limiter_inv t g r1 | Inr t \<Rightarrow> now \<le> t \<and> limiter_inv t (g @ [t]) r1)"
proof -
  define Q where "Q now r y \<longleftrightarrow> (limiter_inv now g r \<longrightarrow> 0 < perHour r \<longrightarrow> 0 < perDay r \<longrightarrow> minimumGap r \<le> Day \<longrightarrow>
    perHour (fst y) = perHour r \<and> perDay (fst y) = perDay r \<and> minimumGap (fst y) = minimumGap r \<and>
    (case snd y of Inl t \<Rightarrow> now \<le> t \<and> limiter_inv t g (fst y) | Inr t \<Rightarrow> now \<le> t \<and> limiter_inv t (g @ [t]) (fst y)))"
    for now r and y :: "RateLimiter \<times> (instant + instant)"
  have "slp = slp \<longrightarrow> Q now r (r1, res)"
  proof (rule limiter_Wait.raw_induct [OF _ assms(1), of "\<lambda>s now r y. s = slp \<longrightarrow> Q now r y"], rule impI)
    fix rec s now r y
    assume ih: "\<And>s now r y. rec s now r = Some y \<Longrightarrow> s = slp \<longrightarrow> Q now r y" and s: "s = slp"
      and body: "(case wait_turn now r of (r1, w) \<Rightarrow>
        if w = 0 then Some (r1, Inr now) else (case s now w of None \<Rightarrow> Some (r1, Inl now) | Some now' \<Rightarrow> rec s now' r1)) = Some y"
    obtain r1 w where w: "wait_turn now r = (r1, w)" by (cases "wait_turn now r")
    show "Q now r y" unfolding Q_def
    proof (intro impI)
      assume i: "limiter_inv now g r" "0 < perHour r" "0 < perDay r" "minimumGap r \<le> Day"
      note t = limiter_inv_turn [OF i(1) order_refl w i(2-4)]
      show "perHour (fst y) = perHour r \<and> perDay (fst y) = perDay r \<and> minimumGap (fst y) = minimumGap r \<and>
        (case snd y of Inl t \<Rightarrow> now \<le> t \<and> limiter_inv t g (fst y) | Inr t \<Rightarrow> now \<le> t \<and> limiter_inv t (g @ [t]) (fst y))"
      proof (cases "w = 0 \<or> slp now w = None")
        case True
        then show ?thesis using body w t s by (auto split: if_splits)
      next
        case False
        then obtain now' where n: "slp now w = Some now'" by auto
        then have "rec slp now' r1 = Some y" using False body w s by simp
        then have q: "Q now' r1 y" using ih by blast
        have le: "now \<le> now'" using assms(3) n .
        have "limiter_inv now' g r1" using t False le limiter_inv_later by auto
        then show ?thesis using q le t i False by (auto simp: Q_def split: sum.splits)
      qed
    qed
  qed
  then show ?thesis using assms by (simp add: Q_def split: sum.splits)
qed

lemma limiter_Wait_total:
  assumes "\<forall>t d t'. 0 < d \<longrightarrow> slp t d = Some t' \<longrightarrow> t + d \<le> t'"
    and "\<forall>q \<in> set (requests r). q \<le> now" "minimumGap r \<le> Day"
  shows "\<exists>r1 res. limiter_Wait slp now r = Some (r1, res) \<and>
    ((\<forall>t d. slp t d \<noteq> None) \<longrightarrow> (\<exists>t \<ge> now. res = Inr t \<and> last (requests r1) = t))"
  using assms(2,3)
proof (induction "waits_left now r" arbitrary: now r rule: less_induct)
  case less
  let ?p = "limiter_prune now r"
  let ?w = "wait_time now ?p"
  have le: "\<forall>q \<in> set (requests ?p). q \<le> now" using limiter_prune_requests less.prems(1) .
  have gap: "minimumGap ?p \<le> Day" using less.prems(2) by (simp add: limiter_prune_def)
  have nn: "0 \<le> ?w" by (simp add: wait_time_def gap_left_def Let_def le_max_iff_disj)
  show ?case
  proof (cases "?w = 0")
    case True
    then show ?thesis by (subst limiter_Wait.simps) (simp add: wait_turn_def Let_def)
  next
    case wait: False
    show ?thesis
    proof (cases "slp now ?w")
      case None
      then show ?thesis using wait by (subst limiter_Wait.simps) (auto simp: wait_turn_def Let_def)
    next
      case (Some now')
      then have later: "now + ?w \<le> now'" using assms(1) wait nn by simp
      have "waits_left now' ?p < waits_left now r"
        using waits_left_turn [OF wait le later gap] waits_left_prune [of now now r] by linarith
      moreover have "\<forall>q \<in> set (requests ?p). q \<le> now'"
      proof
        fix q assume "q \<in> set (requests ?p)"
        then have "q \<le> now" using le by blast
        then show "q \<le> now'" using later nn by linarith
      qed
      ultimately have "\<exists>r1 res. limiter_Wait slp now' ?p = Some (r1, res) \<and>
        ((\<forall>t d. slp t d \<noteq> None) \<longrightarrow> (\<exists>t \<ge> now'. res = Inr t \<and> last (requests r1) = t))"
        by (intro less.hyps gap)
      then obtain r1 res where ih: "limiter_Wait slp now' ?p = Some (r1, res)"
        "(\<forall>t d. slp t d \<noteq> None) \<longrightarrow> (\<exists>t \<ge> now'. res = Inr t \<and> last (requests r1) = t)"
        by blast
      have "limiter_Wait slp now r = Some (r1, res)"
        using wait Some ih(1) by (subst limiter_Wait.simps) (simp add: wait_turn_def Let_def)
      moreover have "now \<le> now'" using later nn by linarith
      ultimately show ?thesis using ih(2) by (metis order_trans)
    qed
  qed
qed

text \<open>
  C37. A caller is served. If every completed sleep lasts at least as long as was asked and the recorded requests do
  not lie in the future, \<^verbatim>\<open>Wait\<close> returns: after finitely many sleeps it has a grant, or the context has ended.
  If the context never ends, it is a grant, recorded as the newest request, at or after the time of the call.
\<close>

theorem Wait_returns:
  assumes "\<forall>t d t'. 0 < d \<longrightarrow> slp t d = Some t' \<longrightarrow> t + d \<le> t'"
    and "\<forall>q \<in> set (requests r). q \<le> now" "minimumGap r \<le> Day"
  shows "\<exists>r1 res. limiter_Wait slp now r = Some (r1, res) \<and>
    ((\<forall>t d. slp t d \<noteq> None) \<longrightarrow> (\<exists>t \<ge> now. res = Inr t \<and> last (requests r1) = t))"
  using assms by (rule limiter_Wait_total)

theorem Wait_returns_witness:
  "\<exists>r1 res. limiter_Wait (\<lambda>t d. Some (t + d)) 25 \<lparr>minimumGap = 10, perHour = 2, perDay = 5, requests = [0, 20]\<rparr> = Some (r1, res) \<and>
     (\<exists>t \<ge> 25. res = Inr t \<and> last (requests r1) = t)"
  using Wait_returns [of "\<lambda>t d. Some (t + d)" "\<lparr>minimumGap = 10, perHour = 2, perDay = 5, requests = [0, 20]\<rparr>" 25] by simp

end
