(* ===== verification/Svc_OriginSync.thy ===== *)
theory Svc_OriginSync
  imports Svc_RateLimiter Flashback_Links Mesh_Node
begin

text \<open>
  \<^verbatim>\<open>internal/service/origin_sync.go\<close>: the refresh of public forums into the object store, paced by the rate limiter.
  The forum's server and the parsing of its pages are the fields \<open>ForumPage\<close> and \<open>ThreadsPage\<close> of the parameter
  \<open>origin\<close>, functions of the world \<open>'w\<close> and the time, which answer with the results, the time after and the new
  world; \<open>snapshot_json\<close> is \<^verbatim>\<open>json.Marshal\<close> of a snapshot, \<open>slept\<close> the limiter's sleep and \<open>put_io\<close> the file
  system's behaviour during the next write. \<^verbatim>\<open>Runtime.PutLocal\<close> is taken with the store and the cache
  the runtime holds.
\<close>

record Snapshot =
  SForum :: ForumNode
  SChildren :: "ForumNode list"
  SThreads :: "ThreadSummary list"
  SFetchedAt :: instant

datatype sync_error =
    ErrSyncIncomplete
  | ErrSyncNoForums
  | ErrSyncWait
  | WaitForever
  | PanicNilLimiter
  | ErrSyncFetch gostring gostring
  | ErrSyncMarshal
  | ErrRuntimeStore
  | ErrRuntimeCache
  | ErrRuntimePut mesh_error
  | ErrSyncStore gostring sync_error

record 'w origin =
  ForumPage :: "ForumNode \<Rightarrow> instant \<Rightarrow> 'w \<Rightarrow> (gostring + ForumNode list \<times> ThreadSummary list) \<times> instant \<times> 'w"
  ThreadsPage :: "ForumNode \<Rightarrow> int \<Rightarrow> instant \<Rightarrow> 'w \<Rightarrow> (gostring + ThreadSummary list) \<times> instant \<times> 'w"
  slept :: "instant \<Rightarrow> duration \<Rightarrow> instant option"
  put_io :: "'w \<Rightarrow> mesh_io"
  publishes :: bool
  snapshot_json :: "Snapshot \<Rightarrow> bytes option"

record sync_runtime =
  rt_store :: bool
  rt_cache :: "Node option"

text \<open>The state of a syncer, with the clock, the runtime and the world it acts on.\<close>

record 'w OriginSync =
  SClient :: bool
  SRuntime :: "sync_runtime option"
  Forums :: "gostring list"
  Limiter :: "RateLimiter option"
  MaxPages :: int
  DiscoverSubforums :: bool
  MaxForums :: int
  BatchSize :: int
  known :: "(gostring \<times> ForumNode) list"
  squeue :: "ForumNode list"
  started :: bool
  clock :: instant
  world :: 'w

definition Runtime_PutLocal ::
  "prims \<Rightarrow> object_json \<Rightarrow> mesh_io \<Rightarrow> bool \<Rightarrow> sync_runtime \<Rightarrow> CacheObject \<Rightarrow> sync_runtime \<times> (sync_error + unit)" where
  "Runtime_PutLocal P J io pub r object =
     (if \<not> rt_store r then (r, Inl ErrRuntimeStore)
      else case rt_cache r of
        None \<Rightarrow> (r, Inl ErrRuntimeCache)
      | Some n \<Rightarrow>
          (case PutLocal P J io pub n object of
             (n1, Inl e, _) \<Rightarrow> (r\<lparr>rt_cache := Some n1\<rparr>, Inl (ErrRuntimePut e))
           | (n1, Inr _, _) \<Rightarrow> (r\<lparr>rt_cache := Some n1\<rparr>, Inr ())))"

text \<open>
  \<^verbatim>\<open>s.Limiter.Wait(ctx)\<close>: the clock is that of the grant, or of the last turn. \<open>WaitForever\<close> stands for a call that does not return and
  \<open>PanicNilLimiter\<close> for the panic of a call on a missing limiter; neither happens in a run from \<^verbatim>\<open>SyncOnce\<close> whose
  sleeps last as long as asked.
\<close>

definition sync_wait :: "'w origin \<Rightarrow> 'w OriginSync \<Rightarrow> 'w OriginSync \<times> (sync_error + unit)" where
  "sync_wait E s =
     (case Limiter s of
        None \<Rightarrow> (s, Inl PanicNilLimiter)
      | Some l \<Rightarrow>
          (case limiter_Wait (slept E) (clock s) l of
             None \<Rightarrow> (s, Inl WaitForever)
           | Some (l1, Inl t) \<Rightarrow> (s\<lparr>Limiter := Some l1, clock := t\<rparr>, Inl ErrSyncWait)
           | Some (l1, Inr t) \<Rightarrow> (s\<lparr>Limiter := Some l1, clock := t\<rparr>, Inr ())))"

function more_pages ::
  "'w origin \<Rightarrow> ForumNode \<Rightarrow> int \<Rightarrow> ThreadSummary list \<Rightarrow> 'w OriginSync \<Rightarrow> 'w OriginSync \<times> (sync_error + ThreadSummary list)" where
  "more_pages E forum page threads s =
     (if page > MaxPages s then (s, Inr threads)
      else case sync_wait E s of
        (s1, Inl e) \<Rightarrow> (s1, Inl e)
      | (s1, Inr _) \<Rightarrow>
          (case ThreadsPage E forum page (clock s1) (world s1) of
             (res, t, w) \<Rightarrow>
               let s2 = s1\<lparr>clock := t, world := w\<rparr> in
               (case res of
                  Inl _ \<Rightarrow> (s2, Inr threads)
                | Inr further \<Rightarrow> if further = [] then (s2, Inr threads) else more_pages E forum (page + 1) (threads @ further) s2)))"
  by pat_completeness auto

lemma sync_wait_MaxPages: "sync_wait E s = (s1, r) \<Longrightarrow> MaxPages s1 = MaxPages s"
  by (auto simp: sync_wait_def split: option.splits prod.splits sum.splits)

termination more_pages
  by (relation "measure (\<lambda>(E, forum, page, threads, s). nat (MaxPages s + 1 - page))") (auto dest!: sync_wait_MaxPages [OF sym])

declare more_pages.simps [simp del]

definition syncForumWithChildren ::
  "prims \<Rightarrow> object_json \<Rightarrow> 'w origin \<Rightarrow> ForumNode \<Rightarrow> 'w OriginSync \<Rightarrow> 'w OriginSync \<times> (sync_error + nat \<times> ForumNode list)" where
  "syncForumWithChildren P J E forum s =
     (case sync_wait E s of
        (s1, Inl e) \<Rightarrow> (s1, Inl e)
      | (s1, Inr _) \<Rightarrow>
          (case ForumPage E forum (clock s1) (world s1) of
             (Inl e, t, w) \<Rightarrow> (s1\<lparr>clock := t, world := w\<rparr>, Inl (ErrSyncFetch (FURL forum) e))
           | (Inr (children, threads0), t, w) \<Rightarrow>
               (case more_pages E forum 2 threads0 (s1\<lparr>clock := t, world := w\<rparr>) of
                  (s2, Inl e) \<Rightarrow> (s2, Inl e)
                | (s2, Inr threads) \<Rightarrow>
                    let now = clock s2;
                        snapshot = \<lparr>SForum = forum, SChildren = children, SThreads = threads, SFetchedAt = now\<rparr>
                    in (case snapshot_json E snapshot of
                          None \<Rightarrow> (s2, Inl ErrSyncMarshal)
                        | Some payload \<Rightarrow>
                            let object = NewObject P Mesh_Store.ForumSnapshot (str ''flashback'') (str ''forum:'' @ FID forum) now payload OriginVerified in
                            (case SRuntime s2 of
                               None \<Rightarrow> (s2, Inl ErrSyncIncomplete)
                             | Some r \<Rightarrow>
                                 (case Runtime_PutLocal P J (put_io E (world s2)) (publishes E) r object of
                                    (r1, Inl e) \<Rightarrow> (s2\<lparr>SRuntime := Some r1\<rparr>, Inl (ErrSyncStore (FURL forum) e))
                                  | (r1, Inr _) \<Rightarrow> (s2\<lparr>SRuntime := Some r1\<rparr>, Inr (1, children))))))))"

definition syncForum ::
  "prims \<Rightarrow> object_json \<Rightarrow> 'w origin \<Rightarrow> ForumNode \<Rightarrow> 'w OriginSync \<Rightarrow> 'w OriginSync \<times> (sync_error + nat)" where
  "syncForum P J E forum s =
     (case syncForumWithChildren P J E forum s of (s1, Inl e) \<Rightarrow> (s1, Inl e) | (s1, Inr (n, _)) \<Rightarrow> (s1, Inr n))"

text \<open>The node of a configured address.\<close>

definition seed :: "net_url \<Rightarrow> gostring \<Rightarrow> ForumNode" where
  "seed N rawURL =
     \<lparr>FID = ForumID N rawURL, FTitle = [], FURL = rawURL, FParentID = [], FDepth = 0, FSortOrder = 0, FHasChildren = False, FBrowsable = True\<rparr>"

text \<open>The children of a page enter the known forums and the queue. The map is an association list with distinct keys.\<close>

definition learn :: "ForumNode \<Rightarrow> 'w OriginSync \<Rightarrow> 'w OriginSync" where
  "learn forum s = s\<lparr>known := AList.update (FURL forum) forum (known s), squeue := squeue s @ [forum]\<rparr>"

fun discover :: "ForumNode list \<Rightarrow> 'w OriginSync \<Rightarrow> 'w OriginSync" where
  "discover [] s = s"
| "discover (child # children) s =
     (if int (length (known s)) \<ge> MaxForums s \<and> MaxForums s > 0 then s
      else if map_of (known s) (FURL child) \<noteq> None then discover children s
      else discover children (learn child s))"

definition begin_crawl :: "net_url \<Rightarrow> 'w OriginSync \<Rightarrow> 'w OriginSync" where
  "begin_crawl N s =
     (if started s then s
      else (foldl (\<lambda>s u. learn (seed N u) s) (s\<lparr>known := []\<rparr>) (Forums s))\<lparr>started := True\<rparr>)"

definition refill :: "'w OriginSync \<Rightarrow> 'w OriginSync" where
  "refill s = (if squeue s = [] then s\<lparr>squeue := sort_key FURL (map snd (known s))\<rparr> else s)"

text \<open>One turn of the crawl stores a snapshot or ends it.\<close>

function crawl ::
  "prims \<Rightarrow> object_json \<Rightarrow> 'w origin \<Rightarrow> int \<Rightarrow> int \<Rightarrow> 'w OriginSync \<Rightarrow> 'w OriginSync \<times> int \<times> sync_error option" where
  "crawl P J E batch stored s =
     (if squeue s = [] \<or> stored \<ge> batch then (s, stored, None)
      else case syncForumWithChildren P J E (hd (squeue s)) (s\<lparr>squeue := tl (squeue s)\<rparr>) of
        (s1, Inl e) \<Rightarrow> (s1, stored, Some e)
      | (s1, Inr (count, children)) \<Rightarrow> crawl P J E batch (stored + int count) (discover children s1))"
  by pat_completeness auto

lemma syncForum_count:
  "syncForumWithChildren P J E forum s = (s1, Inr (count, children)) \<Longrightarrow> count = 1"
  by (auto simp: syncForumWithChildren_def Let_def split: prod.splits sum.splits option.splits)

termination crawl
  by (relation "measure (\<lambda>(P, J, E, batch, stored, s). nat (batch - stored))") (auto dest!: syncForum_count [OF sym])

declare crawl.simps [simp del]

definition syncDiscovered ::
  "prims \<Rightarrow> object_json \<Rightarrow> net_url \<Rightarrow> 'w origin \<Rightarrow> 'w OriginSync \<Rightarrow> 'w OriginSync \<times> int \<times> sync_error option" where
  "syncDiscovered P J N E s =
     (let s1 = refill (begin_crawl N s);
          batch = (if BatchSize s1 < 1 then 10 else BatchSize s1)
      in crawl P J E batch 0 s1)"

fun sync_list ::
  "prims \<Rightarrow> object_json \<Rightarrow> net_url \<Rightarrow> 'w origin \<Rightarrow> gostring list \<Rightarrow> int \<Rightarrow> 'w OriginSync \<Rightarrow> 'w OriginSync \<times> int \<times> sync_error option" where
  "sync_list P J N E [] stored s = (s, stored, None)"
| "sync_list P J N E (rawURL # us) stored s =
     (case syncForum P J E (seed N rawURL) s of
        (s1, Inl e) \<Rightarrow> (s1, stored, Some e)
      | (s1, Inr count) \<Rightarrow> sync_list P J N E us (stored + int count) s1)"

definition with_limiter :: "'w OriginSync \<Rightarrow> 'w OriginSync" where
  "with_limiter s = (if Limiter s = None then s\<lparr>Limiter := Some NewRateLimiter\<rparr> else s)"

definition SyncOnce ::
  "prims \<Rightarrow> object_json \<Rightarrow> net_url \<Rightarrow> 'w origin \<Rightarrow> 'w OriginSync \<Rightarrow> 'w OriginSync \<times> int \<times> sync_error option" where
  "SyncOnce P J N E s =
     (if \<not> SClient s \<or> SRuntime s = None then (s, 0, Some ErrSyncIncomplete)
      else if Forums s = [] then (s, 0, Some ErrSyncNoForums)
      else
        let s1 = with_limiter s in
        if DiscoverSubforums s1 then syncDiscovered P J N E s1
        else sync_list P J N E (Forums s1) 0 s1)"

definition batch_of :: "'w OriginSync \<Rightarrow> int" where
  "batch_of s = (if BatchSize s < 1 then 10 else BatchSize s)"

lemma with_limiter_frame [simp]:
  "DiscoverSubforums (with_limiter s) = DiscoverSubforums s" "Forums (with_limiter s) = Forums s" "BatchSize (with_limiter s) = BatchSize s"
  "MaxForums (with_limiter s) = MaxForums s" "known (with_limiter s) = known s" "squeue (with_limiter s) = squeue s"
  "started (with_limiter s) = started s" "clock (with_limiter s) = clock s" "world (with_limiter s) = world s"
  "SRuntime (with_limiter s) = SRuntime s" "SClient (with_limiter s) = SClient s"
  by (simp_all add: with_limiter_def)

lemma SyncOnce_cases:
  obtains (refused) "fst (SyncOnce P J N E s) = s" "fst (snd (SyncOnce P J N E s)) = 0" "SRuntime s = None \<or> \<not> SClient s \<or> Forums s = []"
  | (crawled) "SyncOnce P J N E s = crawl P J E (batch_of (refill (begin_crawl N (with_limiter s)))) 0 (refill (begin_crawl N (with_limiter s)))"
      "DiscoverSubforums s" "SRuntime s \<noteq> None"
  | (listed) "SyncOnce P J N E s = sync_list P J N E (Forums s) 0 (with_limiter s)" "\<not> DiscoverSubforums s" "SRuntime s \<noteq> None"
proof (cases "\<not> SClient s \<or> SRuntime s = None \<or> Forums s = []")
  case True
  then show thesis using refused by (auto simp: SyncOnce_def)
next
  case False
  then show thesis using crawled listed
    by (cases "DiscoverSubforums s") (auto simp: SyncOnce_def syncDiscovered_def batch_of_def Let_def)
qed

section \<open>What a fetch leaves alone\<close>

definition crawl_part :: "'w OriginSync \<Rightarrow> _" where
  "crawl_part s = (known s, squeue s, started s, Forums s, MaxForums s, BatchSize s, MaxPages s, DiscoverSubforums s, SClient s)"

lemma sync_wait_part: "sync_wait E s = (s1, r) \<Longrightarrow> crawl_part s1 = crawl_part s \<and> SRuntime s1 = SRuntime s \<and> world s1 = world s"
  by (auto simp: sync_wait_def crawl_part_def split: option.splits prod.splits sum.splits)

text \<open>What waits and fetches keep, the loop over the pages keeps.\<close>

lemma more_pages_keeps:
  assumes "more_pages E forum page threads s = (s1, r)" "I s"
    and wait: "\<And>s t e. I s \<Longrightarrow> sync_wait E s = (t, Inl e) \<Longrightarrow> I t"
    and fetch: "\<And>s t p res u v. I s \<Longrightarrow> sync_wait E s = (t, Inr ()) \<Longrightarrow> ThreadsPage E forum p (clock t) (world t) = (res, u, v) \<Longrightarrow>
      I (t\<lparr>clock := u, world := v\<rparr>)"
  shows "I s1"
  using assms(1,2)
proof (induction "nat (MaxPages s + 1 - page)" arbitrary: page threads s rule: less_induct)
  case less
  obtain t x where w: "sync_wait E s = (t, x)" by (cases "sync_wait E s")
  obtain res u v where f: "ThreadsPage E forum page (clock t) (world t) = (res, u, v)" by (metis prod_cases3)
  let ?t = "t\<lparr>clock := u, world := v\<rparr>"
  have t: "I t" if "x = Inl e" for e using wait less.prems(2) w that by blast
  have ft: "I ?t" if "x = Inr ()" using fetch [OF less.prems(2) _ f] w that by simp
  have m: "more_pages E forum page threads s =
      (if page > MaxPages s then (s, Inr threads)
       else case x of Inl e \<Rightarrow> (t, Inl e)
       | Inr _ \<Rightarrow> (case res of Inl _ \<Rightarrow> (?t, Inr threads)
           | Inr further \<Rightarrow> if further = [] then (?t, Inr threads) else more_pages E forum (page + 1) (threads @ further) ?t))"
    by (subst more_pages.simps) (simp add: w f Let_def split: sum.split)
  have ih: "I s1" if "\<not> page > MaxPages s" "x = Inr ()" "more_pages E forum (page + 1) ths ?t = (s1, r)" for ths
    using less.hyps [OF _ that(3) ft] that(1,2) sync_wait_MaxPages [OF w] by simp
  show ?case using less.prems m t ft ih by (auto split: if_splits sum.splits)
qed

lemma more_pages_part:
  assumes "more_pages E forum page threads s = (s1, r)"
  shows "crawl_part s1 = crawl_part s \<and> SRuntime s1 = SRuntime s"
  by (rule more_pages_keeps [OF assms, where I = "\<lambda>s'. crawl_part s' = crawl_part s \<and> SRuntime s' = SRuntime s"])
    (auto dest!: sync_wait_part simp: crawl_part_def)

lemma syncForum_part: "syncForumWithChildren P J E forum s = (s1, r) \<Longrightarrow> crawl_part s1 = crawl_part s"
  by (auto simp: syncForumWithChildren_def Let_def crawl_part_def dest!: sync_wait_part more_pages_part split: prod.splits sum.splits option.splits)

text \<open>What a fetch and changes of the queue keep, a whole crawl keeps.\<close>

lemma crawl_keeps:
  assumes "crawl P J E batch stored s = (s1, n, e)" "I s"
    and one: "\<And>s f q s1 r. I s \<Longrightarrow> squeue s = f # q \<Longrightarrow> syncForumWithChildren P J E f (s\<lparr>squeue := q\<rparr>) = (s1, Inl r) \<Longrightarrow> I s1"
    and two: "\<And>s f q s1 cs. I s \<Longrightarrow> squeue s = f # q \<Longrightarrow> syncForumWithChildren P J E f (s\<lparr>squeue := q\<rparr>) = (s1, Inr (1, cs)) \<Longrightarrow>
      I (discover cs s1)"
  shows "I s1"
  using assms(1,2)
proof (induction "nat (batch - stored)" arbitrary: stored s rule: less_induct)
  case less
  show ?case
  proof (cases "squeue s = [] \<or> stored \<ge> batch")
    case True
    then show ?thesis using less.prems by (simp add: crawl.simps)
  next
    case False
    then obtain f q where q: "squeue s = f # q" by (cases "squeue s") auto
    obtain t x where r: "syncForumWithChildren P J E f (s\<lparr>squeue := q\<rparr>) = (t, x)"
      by (cases "syncForumWithChildren P J E f (s\<lparr>squeue := q\<rparr>)")
    show ?thesis
    proof (cases x)
      case (Inl err)
      then show ?thesis using less.prems False q r one by (auto simp: crawl.simps)
    next
      case (Inr p)
      then obtain c cs where p: "p = (c, cs)" by (cases p)
      have c: "c = 1" using syncForum_count r Inr p by blast
      then have "crawl P J E batch (stored + 1) (discover cs t) = (s1, n, e)"
        using less.prems(1) False q r Inr p by (subst (asm) crawl.simps) simp
      then show ?thesis using less.hyps [of "stored + 1"] False two [OF less.prems(2) q] r Inr p c by simp
    qed
  qed
qed

lemma sync_list_keeps:
  assumes "sync_list P J N E us stored s = (s1, n, e)" "I s"
    and "\<And>s f s1 r. I s \<Longrightarrow> syncForumWithChildren P J E f s = (s1, r) \<Longrightarrow> I s1"
  shows "I s1"
  using assms(1,2)
proof (induction us arbitrary: stored s)
  case (Cons u us)
  obtain t x where r: "syncForumWithChildren P J E (seed N u) s = (t, x)" by (cases "syncForumWithChildren P J E (seed N u) s")
  have "I t" using assms(3) [OF Cons.prems(2) r] .
  then show ?case using Cons r by (auto simp: syncForum_def split: sum.splits)
qed simp

fun sync_rounds :: "prims \<Rightarrow> object_json \<Rightarrow> net_url \<Rightarrow> 'w origin \<Rightarrow> nat \<Rightarrow> 'w OriginSync \<Rightarrow> 'w OriginSync" where
  "sync_rounds P J N E 0 s = s"
| "sync_rounds P J N E (Suc k) s = sync_rounds P J N E k (fst (SyncOnce P J N E s))"

section \<open>The pace of the requests\<close>

text \<open>The server keeps a log of the times at which it is asked.\<close>

definition logs_times :: "'w origin \<Rightarrow> ('w \<Rightarrow> instant list) \<Rightarrow> bool" where
  "logs_times E lg \<longleftrightarrow>
     (\<forall>f t w. t \<le> fst (snd (ForumPage E f t w)) \<and> lg (snd (snd (ForumPage E f t w))) = lg w @ [t]) \<and>
     (\<forall>f p t w. t \<le> fst (snd (ThreadsPage E f p t w)) \<and> lg (snd (snd (ThreadsPage E f p t w))) = lg w @ [t]) \<and>
     (\<forall>t d t'. slept E t d = Some t' \<longrightarrow> t \<le> t')"

definition paced :: "('w \<Rightarrow> instant list) \<Rightarrow> instant list \<Rightarrow> 'w OriginSync \<Rightarrow> bool" where
  "paced lg new s \<longleftrightarrow>
     (\<exists>l. Limiter s = Some l \<and> limiter_inv (clock s) (lg (world s) @ new) l \<and>
        minimumGap l = 10 * Second \<and> perHour l = 60 \<and> perDay l = 1440)"

lemma paced_wait:
  assumes "logs_times E lg" "paced lg [] s" "sync_wait E s = (s1, r)"
  shows "paced lg (case r of Inl _ \<Rightarrow> [] | Inr _ \<Rightarrow> [clock s1]) s1"
proof -
  obtain l where l: "Limiter s = Some l" "limiter_inv (clock s) (lg (world s)) l" "minimumGap l = 10 * Second" "perHour l = 60" "perDay l = 1440"
    using assms(2) by (auto simp: paced_def)
  have mono: "slept E t d = Some t' \<Longrightarrow> t \<le> t'" for t d t' using assms(1) by (simp add: logs_times_def)
  show ?thesis
  proof (cases "limiter_Wait (slept E) (clock s) l")
    case None
    then show ?thesis using assms(2,3) l(1) by (auto simp: sync_wait_def)
  next
    case (Some y)
    then obtain l1 x where y: "limiter_Wait (slept E) (clock s) l = Some (l1, x)" by (cases y) simp
    have "perHour l1 = perHour l \<and> perDay l1 = perDay l \<and> minimumGap l1 = minimumGap l \<and>
      (case x of Inl t \<Rightarrow> clock s \<le> t \<and> limiter_inv t (lg (world s)) l1 | Inr t \<Rightarrow> clock s \<le> t \<and> limiter_inv t (lg (world s) @ [t]) l1)"
      by (rule limiter_Wait_inv [OF y l(2) mono]) (simp_all add: l)
    then show ?thesis using assms(3) l y by (auto simp: sync_wait_def paced_def split: sum.splits)
  qed
qed

lemma paced_fetch:
  assumes "paced lg [clock s] s" "clock s \<le> t" "lg w = lg (world s) @ [clock s]"
  shows "paced lg [] (s\<lparr>clock := t, world := w\<rparr>)"
  using assms limiter_inv_later by (fastforce simp: paced_def)

lemma paced_frame:
  "Limiter s1 = Limiter s \<Longrightarrow> clock s1 = clock s \<Longrightarrow> world s1 = world s \<Longrightarrow> paced lg new s1 = paced lg new s"
  by (simp add: paced_def)

lemma paced_pages:
  assumes "logs_times E lg" "paced lg [] s" "more_pages E forum page threads s = (s1, r)"
  shows "paced lg [] s1"
proof (rule more_pages_keeps [OF assms(3), where I = "paced lg []"])
  fix s t e assume "paced lg [] s" "sync_wait E s = (t, Inl e)"
  from paced_wait [OF assms(1) this] show "paced lg [] t" by simp
next
  fix s t p res u v
  assume "paced lg [] s" "sync_wait E s = (t, Inr ())" and f: "ThreadsPage E forum p (clock t) (world t) = (res, u, v)"
  then have "paced lg [clock t] t" using paced_wait [OF assms(1)] by fastforce
  then show "paced lg [] (t\<lparr>clock := u, world := v\<rparr>)"
    using paced_fetch assms(1) f unfolding logs_times_def by (metis fst_conv snd_conv)
qed (rule assms(2))

lemma paced_forum:
  assumes "logs_times E lg" "paced lg [] s" "syncForumWithChildren P J E forum s = (s1, r)"
  shows "paced lg [] s1"
proof -
  obtain t x where w: "sync_wait E s = (t, x)" by (cases "sync_wait E s")
  note pw = paced_wait [OF assms(1,2) w]
  show ?thesis
  proof (cases x)
    case (Inl e)
    then show ?thesis using pw assms(3) w by (simp add: syncForumWithChildren_def)
  next
    case (Inr z)
    obtain res u v where f: "ForumPage E forum (clock t) (world t) = (res, u, v)" by (metis prod_cases3)
    let ?t = "t\<lparr>clock := u, world := v\<rparr>"
    have ft: "paced lg [] ?t" using paced_fetch pw Inr assms(1) f unfolding logs_times_def by (metis fst_conv snd_conv sum.case(2))
    show ?thesis
    proof (cases res)
      case (Inl e)
      then show ?thesis using ft assms(3) w f Inr by (simp add: syncForumWithChildren_def)
    next
      case r: (Inr p)
      obtain cs ths where p: "p = (cs, ths)" by (cases p)
      obtain s2 y where m: "more_pages E forum 2 ths ?t = (s2, y)" by (cases "more_pages E forum 2 ths ?t")
      have "paced lg [] s2" using paced_pages [OF assms(1) ft m] .
      moreover have "Limiter s1 = Limiter s2 \<and> clock s1 = clock s2 \<and> world s1 = world s2"
        using assms(3) unfolding syncForumWithChildren_def w prod.case Inr sum.case f r p m
        by (auto simp: Let_def split: sum.splits option.splits prod.splits)
      ultimately show ?thesis using paced_frame by blast
    qed
  qed
qed

lemma learn_frame [simp]:
  "Limiter (learn c s) = Limiter s" "clock (learn c s) = clock s" "world (learn c s) = world s" "MaxForums (learn c s) = MaxForums s"
  "BatchSize (learn c s) = BatchSize s" "Forums (learn c s) = Forums s" "started (learn c s) = started s" "SRuntime (learn c s) = SRuntime s"
  "DiscoverSubforums (learn c s) = DiscoverSubforums s" "SClient (learn c s) = SClient s" "MaxPages (learn c s) = MaxPages s"
  "squeue (learn c s) = squeue s @ [c]" "known (learn c s) = AList.update (FURL c) c (known s)"
  by (simp_all add: learn_def)

lemma discover_frame [simp]:
  "Limiter (discover cs s) = Limiter s" "clock (discover cs s) = clock s" "world (discover cs s) = world s" "MaxForums (discover cs s) = MaxForums s"
  "BatchSize (discover cs s) = BatchSize s" "Forums (discover cs s) = Forums s" "started (discover cs s) = started s"
  "SRuntime (discover cs s) = SRuntime s" "DiscoverSubforums (discover cs s) = DiscoverSubforums s" "SClient (discover cs s) = SClient s"
  by (induction cs s rule: discover.induct) simp_all

lemma seeds_frame [simp]:
  "Limiter (foldl (\<lambda>s u. learn (seed N u) s) s us) = Limiter s" "clock (foldl (\<lambda>s u. learn (seed N u) s) s us) = clock s"
  "world (foldl (\<lambda>s u. learn (seed N u) s) s us) = world s" "Forums (foldl (\<lambda>s u. learn (seed N u) s) s us) = Forums s"
  "MaxForums (foldl (\<lambda>s u. learn (seed N u) s) s us) = MaxForums s" "BatchSize (foldl (\<lambda>s u. learn (seed N u) s) s us) = BatchSize s"
  "SRuntime (foldl (\<lambda>s u. learn (seed N u) s) s us) = SRuntime s" "SClient (foldl (\<lambda>s u. learn (seed N u) s) s us) = SClient s"
  "DiscoverSubforums (foldl (\<lambda>s u. learn (seed N u) s) s us) = DiscoverSubforums s"
  by (induction us arbitrary: s) simp_all

lemma prepare_frame [simp]:
  "Limiter (refill (begin_crawl N s)) = Limiter s" "clock (refill (begin_crawl N s)) = clock s" "world (refill (begin_crawl N s)) = world s"
  "Forums (refill (begin_crawl N s)) = Forums s" "MaxForums (refill (begin_crawl N s)) = MaxForums s" "BatchSize (refill (begin_crawl N s)) = BatchSize s"
  "SRuntime (refill (begin_crawl N s)) = SRuntime s" "SClient (refill (begin_crawl N s)) = SClient s"
  "DiscoverSubforums (refill (begin_crawl N s)) = DiscoverSubforums s" "started (refill (begin_crawl N s))"
  by (simp_all add: refill_def begin_crawl_def)

lemma paced_queue [simp]: "paced lg new (s\<lparr>squeue := q\<rparr>) = paced lg new s" "paced lg new (discover cs s) = paced lg new s"
  by (simp_all add: paced_def)

lemma paced_crawl:
  assumes "logs_times E lg" "paced lg [] s" "crawl P J E batch stored s = (s1, n, e)"
  shows "paced lg [] s1"
proof (rule crawl_keeps [OF assms(3), where I = "paced lg []"])
  fix s s1 f q r assume "paced lg [] s" "syncForumWithChildren P J E f (s\<lparr>squeue := q\<rparr>) = (s1, Inl r)"
  then show "paced lg [] s1" using paced_forum [OF assms(1)] paced_queue(1) by blast
next
  fix s s1 f q cs assume "paced lg [] s" "syncForumWithChildren P J E f (s\<lparr>squeue := q\<rparr>) = (s1, Inr (1, cs))"
  then show "paced lg [] (discover cs s1)" using paced_forum [OF assms(1)] paced_queue by blast
qed (rule assms(2))

lemma paced_round:
  assumes "logs_times E lg" "Limiter s = None \<and> lg (world s) = [] \<or> paced lg [] s"
  shows "Limiter (fst (SyncOnce P J N E s)) = None \<and> lg (world (fst (SyncOnce P J N E s))) = [] \<or> paced lg [] (fst (SyncOnce P J N E s))"
proof -
  have "limiter_inv (clock s) [] NewRateLimiter" unfolding NewRateLimiter_def by (rule limiter_inv_new) simp_all
  then have p: "paced lg [] (with_limiter s)"
    using assms(2) by (auto simp: with_limiter_def paced_def) (simp_all add: NewRateLimiter_def NewRateLimiterWithClock_def)
  obtain s1 n e where o: "SyncOnce P J N E s = (s1, n, e)" by (metis prod_cases3)
  show ?thesis
  proof (cases rule: SyncOnce_cases [where P = P and J = J and N = N and E = E and s = s])
    case refused
    then show ?thesis using assms(2) by simp
  next
    case crawled
    have "paced lg [] (refill (begin_crawl N (with_limiter s)))" using p by (simp add: paced_def)
    from paced_crawl [OF assms(1) this crawled(1) [symmetric, unfolded o]] o show ?thesis by simp
  next
    case listed
    have "sync_list P J N E (Forums s) 0 (with_limiter s) = (s1, n, e)" using listed(1) o by simp
    from sync_list_keeps [OF this, where I = "paced lg []", OF p] paced_forum [OF assms(1)] o show ?thesis by simp
  qed
qed

abbreviation (input) refresh where "refresh P J N E \<equiv> \<lambda>s (_ :: unit). fst (SyncOnce P J N E s)"

lemma sync_rounds_run: "sync_rounds P J N E k s = foldl (refresh P J N E) s (replicate k ())"
  by (induction k arbitrary: s) simp_all

interpretation pacedrun: run_invariant "refresh P J N E"
  "\<lambda>s. logs_times E lg \<and> (Limiter s = None \<and> lg (world s) = [] \<or> paced lg [] s)" for P J N E lg
  by unfold_locales (simp add: paced_round)

text \<open>
  C22. The crawl is gentle. Over any number of refreshes with the default limiter, whatever the server answers and
  whichever calls fail, the requests the server sees are at least ten seconds apart, at most sixty in any hour and
  at most 1440 in any day.
\<close>

theorem origin_paced:
  assumes "logs_times E lg" "Limiter s = None" "lg (world s) = []"
  shows "successively (\<lambda>a b. 10 * Second \<le> b - a) (lg (world (sync_rounds P J N E k s))) \<and>
    in_window Hour x (lg (world (sync_rounds P J N E k s))) \<le> 60 \<and>
    in_window Day x (lg (world (sync_rounds P J N E k s))) \<le> 1440"
proof -
  let ?s = "sync_rounds P J N E k s"
  have "Limiter ?s = None \<and> lg (world ?s) = [] \<or> paced lg [] ?s" using pacedrun.run_inv [of E lg s] assms unfolding sync_rounds_run by blast
  then show ?thesis
  proof
    assume "paced lg [] ?s"
    then obtain l where "limiter_inv (clock ?s) (lg (world ?s)) l" "minimumGap l = 10 * Second" "perHour l = 60" "perDay l = 1440"
      by (auto simp: paced_def)
    then have "successively (\<lambda>a b. 10 * Second \<le> b - a) (lg (world ?s))" "int (in_window Hour x (lg (world ?s))) \<le> 60"
      "int (in_window Day x (lg (world ?s))) \<le> 1440" unfolding limiter_inv_def by metis+
    then show ?thesis by simp
  qed (simp add: in_window_def)
qed

definition demo_origin :: "instant list origin" where
  "demo_origin =
     \<lparr>ForumPage = (\<lambda>f t w. (if FURL f = [9] then Inl [] else
        Inr ([\<lparr>FID = [7], FTitle = [7], FURL = [7], FParentID = [], FDepth = 1, FSortOrder = 0, FHasChildren = False, FBrowsable = True\<rparr>], []), t + 1, w @ [t])),
      ThreadsPage = (\<lambda>f p t w. (Inr [], t + 1, w @ [t])),
      slept = (\<lambda>t d. Some (t + max 0 d)),
      put_io = (\<lambda>w. demo_io), publishes = False,
      snapshot_json = (\<lambda>s. Some [1])\<rparr>"

definition demo_syncer :: "gostring list \<Rightarrow> bool \<Rightarrow> instant list OriginSync" where
  "demo_syncer us discovers =
     \<lparr>SClient = True, SRuntime = Some \<lparr>rt_store = True, rt_cache = Some demo_empty\<rparr>, Forums = us, Limiter = None, MaxPages = 1,
      DiscoverSubforums = discovers, MaxForums = 3, BatchSize = 5, known = [], squeue = [], started = False, clock = 0, world = []\<rparr>"

lemma demo_logs: "logs_times demo_origin id"
  by (auto simp: logs_times_def demo_origin_def)

theorem origin_paced_witness:
  "in_window Hour 0 (world (sync_rounds demo_prims demo_object_json demo_net_url demo_origin 4 (demo_syncer [[5], [6]] True))) \<le> 60 \<and>
   successively (\<lambda>a b. 10 * Second \<le> b - a)
     (world (sync_rounds demo_prims demo_object_json demo_net_url demo_origin 4 (demo_syncer [[5], [6]] True)))"
  using origin_paced [OF demo_logs, of "demo_syncer [[5], [6]] True"] by (simp add: demo_syncer_def)

section \<open>The forums it knows\<close>

definition crawl_inv :: "'w OriginSync \<Rightarrow> bool" where
  "crawl_inv s \<longleftrightarrow>
     distinct (map fst (known s)) \<and> (\<forall>u f. (u, f) \<in> set (known s) \<longrightarrow> FURL f = u) \<and>
     (\<forall>f \<in> set (squeue s). map_of (known s) (FURL f) = Some f) \<and>
     (distinct (Forums s) \<longrightarrow> distinct (squeue s)) \<and>
     (MaxForums s > 0 \<longrightarrow> int (length (known s)) \<le> max (int (length (Forums s))) (MaxForums s)) \<and>
     (\<not> started s \<longrightarrow> known s = [] \<and> squeue s = [])"

lemma update_fresh: "k \<notin> fst ` set xs \<Longrightarrow> AList.update k v xs = xs @ [(k, v)]"
  by (induction xs) auto

lemma crawl_inv_discover: "crawl_inv s \<Longrightarrow> started s \<Longrightarrow> crawl_inv (discover cs s)"
proof (induction cs s rule: discover.induct)
  case (2 c cs s)
  show ?case
  proof (cases "MaxForums s \<le> int (length (known s)) \<and> 0 < MaxForums s \<or> map_of (known s) (FURL c) \<noteq> None")
    case True
    then show ?thesis using 2 by auto
  next
    case False
    then have new: "FURL c \<notin> fst ` set (known s)" by (simp add: map_of_eq_None_iff)
    have q: "c \<notin> set (squeue s)" using 2(3) False by (auto simp: crawl_inv_def)
    note i = 2(3) [unfolded crawl_inv_def]
    have "map_of (known s) (FURL c) = None" using False by simp
    then have "map_of (known s @ [(FURL c, c)]) (FURL f) = Some f" if "f \<in> set (squeue s @ [c])" for f
      using that i by (cases "f = c") (simp_all add: map_add_def)
    moreover have "distinct (map fst (known s @ [(FURL c, c)]))" using i new by simp
    moreover have "distinct (Forums s) \<longrightarrow> distinct (squeue s @ [c])" using i q by simp
    moreover have "\<forall>u f. (u, f) \<in> set (known s @ [(FURL c, c)]) \<longrightarrow> FURL f = u" using i by auto
    moreover have "0 < MaxForums s \<longrightarrow> int (length (known s @ [(FURL c, c)])) \<le> max (int (length (Forums s))) (MaxForums s)"
      using False by auto
    ultimately have "crawl_inv (learn c s)" using 2(4) unfolding crawl_inv_def learn_frame update_fresh [OF new] by blast
    then show ?thesis using 2 False by simp
  qed
qed simp

lemma update_same: "distinct (map fst xs) \<Longrightarrow> (k, v) \<in> set xs \<Longrightarrow> AList.update k v xs = xs"
  by (induction xs) (auto simp: rev_image_eqI)

lemma FURL_seed [simp]: "FURL (seed N u) = u"
  by (simp add: seed_def)

lemma crawl_inv_seeds:
  assumes "\<not> started s" "crawl_inv s"
  shows "crawl_inv (begin_crawl N s)"
proof -
  let ?t = "\<lambda>us. foldl (\<lambda>s u. learn (seed N u) s) (s\<lparr>known := []\<rparr>) us"
  have e: "squeue s = []" using assms by (simp add: crawl_inv_def)
  have k: "squeue (?t us) = map (seed N) us \<and> distinct (map fst (known (?t us))) \<and> set (known (?t us)) = (\<lambda>u. (u, seed N u)) ` set us \<and>
    length (known (?t us)) \<le> length us" for us
  proof (induction us rule: rev_induct)
    case (snoc u us)
    show ?case
    proof (cases "u \<in> set us")
      case True
      then have "AList.update u (seed N u) (known (?t us)) = known (?t us)" using snoc by (intro update_same) auto
      then show ?thesis using snoc True by auto
    next
      case False
      then have "u \<notin> fst ` set (known (?t us))" using snoc by auto
      then show ?thesis using snoc by (simp add: update_fresh)
    qed
  qed (simp add: e)
  have "map_of (known (?t (Forums s))) u = Some (seed N u)" if "u \<in> set (Forums s)" for u
    using k [of "Forums s"] that by (auto intro: map_of_is_SomeI)
  moreover have "distinct (Forums s) \<longrightarrow> distinct (map (seed N) (Forums s))"
    by (metis FURL_seed distinct_map inj_on_def)
  ultimately show ?thesis using assms(1) k [of "Forums s"] by (auto simp: begin_crawl_def crawl_inv_def)
qed

lemma crawl_inv_prepare: "crawl_inv s \<Longrightarrow> crawl_inv (refill (begin_crawl N s))"
proof -
  assume "crawl_inv s"
  then have b: "crawl_inv (begin_crawl N s)" using crawl_inv_seeds [of s N] by (cases "started s") (auto simp: begin_crawl_def)
  let ?k = "known (begin_crawl N s)"
  have k: "distinct (map fst ?k)" "\<And>u f. (u, f) \<in> set ?k \<Longrightarrow> FURL f = u" using b by (auto simp: crawl_inv_def)
  have "map_of ?k (FURL f) = Some f" if "f \<in> snd ` set ?k" for f using that k by (auto intro: map_of_is_SomeI)
  moreover have "map fst ?k = map FURL (map snd ?k)" using k(2) by auto
  then have "distinct (map snd ?k)" using k(1) by (metis distinct_map)
  ultimately show ?thesis using b by (auto simp: refill_def crawl_inv_def begin_crawl_def)
qed

lemma crawl_inv_part: "crawl_part s1 = crawl_part s \<Longrightarrow> crawl_inv s1 = crawl_inv s"
  by (simp add: crawl_inv_def crawl_part_def)

lemma crawl_inv_pop: "crawl_inv s \<Longrightarrow> squeue s = f # q \<Longrightarrow> crawl_inv (s\<lparr>squeue := q\<rparr>) \<and> started s"
  by (auto simp: crawl_inv_def)

lemma crawl_inv_crawl:
  assumes "crawl P J E batch stored s = (s1, n, e)" "crawl_inv s"
  shows "crawl_inv s1 \<and> Forums s1 = Forums s \<and> MaxForums s1 = MaxForums s"
proof (rule crawl_keeps [OF assms(1), where I = "\<lambda>t. crawl_inv t \<and> Forums t = Forums s \<and> MaxForums t = MaxForums s"])
  fix t f q s1 r
  assume i: "crawl_inv t \<and> Forums t = Forums s \<and> MaxForums t = MaxForums s" "squeue t = f # q"
    and r: "syncForumWithChildren P J E f (t\<lparr>squeue := q\<rparr>) = (s1, Inl r)"
  show "crawl_inv s1 \<and> Forums s1 = Forums s \<and> MaxForums s1 = MaxForums s"
    using crawl_inv_pop [of t f q] crawl_inv_part [OF syncForum_part [OF r]] syncForum_part [OF r] i by (simp add: crawl_part_def)
next
  fix t f q s1 cs
  assume i: "crawl_inv t \<and> Forums t = Forums s \<and> MaxForums t = MaxForums s" "squeue t = f # q"
    and r: "syncForumWithChildren P J E f (t\<lparr>squeue := q\<rparr>) = (s1, Inr (1, cs))"
  have "crawl_inv s1" "started s1" "Forums s1 = Forums s" "MaxForums s1 = MaxForums s"
    using crawl_inv_pop [of t f q] crawl_inv_part [OF syncForum_part [OF r]] syncForum_part [OF r] i by (auto simp: crawl_part_def)
  then show "crawl_inv (discover cs s1) \<and> Forums (discover cs s1) = Forums s \<and> MaxForums (discover cs s1) = MaxForums s"
    using crawl_inv_discover by simp
qed (simp add: assms(2))

lemma crawl_inv_round:
  assumes "crawl_inv s" "s1 = fst (SyncOnce P J N E s)"
  shows "crawl_inv s1 \<and> Forums s1 = Forums s \<and> MaxForums s1 = MaxForums s"
proof (cases rule: SyncOnce_cases [where P = P and J = J and N = N and E = E and s = s])
  case refused
  then show ?thesis using assms by simp
next
  case crawled
  have "crawl_inv (with_limiter s)" using assms(1) by (simp add: crawl_inv_def)
  from crawl_inv_crawl [OF _ crawl_inv_prepare [OF this, of N]] crawled(1) assms(2) show ?thesis by (metis prod.collapse prepare_frame(4,5) with_limiter_frame(2,4))
next
  case listed
  have "crawl_part s1 = crawl_part (with_limiter s)"
    using sync_list_keeps [where I = "\<lambda>t. crawl_part t = crawl_part (with_limiter s)"] syncForum_part listed(1) assms(2)
    by (metis prod.collapse)
  moreover have "crawl_part (with_limiter s) = crawl_part s" by (simp add: crawl_part_def with_limiter_def)
  ultimately show ?thesis using crawl_inv_part [of s1 s] assms(1) by (simp add: crawl_part_def)
qed

interpretation crawlrun: run_relation "refresh P J N E" crawl_inv "\<lambda>s t. Forums t = Forums s \<and> MaxForums t = MaxForums s" for P J N E
  by unfold_locales (simp_all add: crawl_inv_round [OF _ refl])

text \<open>
  The crawl stays bounded. Over any number of refreshes from a fresh start, whatever links the pages
  contain, a positive \<^verbatim>\<open>MaxForums\<close> bounds the forums remembered (the configured ones are always
  remembered), every queued forum is a remembered one, and none is queued twice if none is configured twice.
\<close>

theorem crawl_bounded:
  assumes "\<not> started s" "known s = []" "squeue s = []"
  shows "(MaxForums s > 0 \<longrightarrow> int (length (known (sync_rounds P J N E k s))) \<le> max (int (length (Forums s))) (MaxForums s)) \<and>
    (\<forall>f \<in> set (squeue (sync_rounds P J N E k s)). map_of (known (sync_rounds P J N E k s)) (FURL f) = Some f) \<and>
    (distinct (Forums s) \<longrightarrow> distinct (squeue (sync_rounds P J N E k s)))"
proof -
  have "crawl_inv s" using assms by (simp add: crawl_inv_def le_max_iff_disj)
  then have inv: "crawl_inv (sync_rounds P J N E k s)" by (simp only: sync_rounds_run crawlrun.run_inv)
  have "Forums (sync_rounds P J N E k s) = Forums s \<and> MaxForums (sync_rounds P J N E k s) = MaxForums s"
    using crawlrun.run_rel [OF \<open>crawl_inv s\<close>] by (simp only: sync_rounds_run)
  then show ?thesis using inv unfolding crawl_inv_def by simp
qed

theorem crawl_bounded_witness:
  "length (known (sync_rounds demo_prims demo_object_json demo_net_url demo_origin 4 (demo_syncer [[5], [6]] True))) \<le> 3"
proof -
  have "\<not> started (demo_syncer [[5], [6]] True)" "known (demo_syncer [[5], [6]] True) = []" "squeue (demo_syncer [[5], [6]] True) = []"
    by (simp_all add: demo_syncer_def)
  from crawl_bounded [OF this, of demo_prims demo_object_json demo_net_url demo_origin 4] show ?thesis by (simp add: demo_syncer_def)
qed

section \<open>What a refresh stores\<close>

lemma mesh_Put_found:
  assumes "mesh_inv P J st" "json_object ob" "mesh_Put P J tmp flt ob st = (st1, Inr ())"
  shows "mesh_inv P J st1 \<and> Find P J ordr False st1 (ObjSource ob) (ObjResourceID ob) (ObjType ob) = Inr ob"
proof -
  obtain states s' res where r: "mesh_Put_run P J tmp flt ob st = (states, s', res)" by (metis prod_cases3)
  then have "res = Inr ()" using assms(3) by (simp add: mesh_Put_def)
  with r have c: "cacheable P J ob"
    by (cases rule: mesh_Put_cases) (simp_all add: cacheable_def assms(2))
  have j: "object_json_ok J" using assms(1) by (simp add: mesh_inv_def)
  have inv: "mesh_inv P J st1" using mesh_Put_inv [OF assms(1) c, of tmp flt] assms(3) by simp
  have ty: "ObjType ob \<noteq> []" using c by (simp add: cacheable_def object_Validate_iff)
  have "mesh_Get P J False st1 (HashString ob) = Inr ob" "map_of (resourceIndex st1) (object_key ob) = Some (HashString ob)"
    using mesh_Get_Put [OF j c, of tmp flt st "HashString ob"] mesh_Put_index [of P J tmp flt ob st] assms(3) by (simp_all add: update_conv)
  then show ?thesis using inv Find_found [OF inv ty] by (simp add: found_def object_key_def look_def)
qed

lemma Runtime_PutLocal_stored:
  assumes "Runtime_PutLocal P J io pub r ob = (r1, Inr ())" "rt_cache r = Some n" "NStore n = Some st"
  obtains st1 where "mesh_Put P J (io_tmp io) (io_flt io) ob st = (st1, Inr ())" "rt_cache r1 = Some (n\<lparr>NStore := Some st1\<rparr>)"
  using assms that by (auto simp: Runtime_PutLocal_def PutLocal_def split: if_splits prod.splits sum.splits option.splits)

lemma syncForum_stored:
  assumes "syncForumWithChildren P J E forum s = (s1, Inr (c, children))" "SRuntime s = Some r"
  obtains r1 threads now payload io where "SRuntime s1 = Some r1"
    "snapshot_json E \<lparr>SForum = forum, SChildren = children, SThreads = threads, SFetchedAt = now\<rparr> = Some payload"
    "Runtime_PutLocal P J io (publishes E) r
       (NewObject P Mesh_Store.ForumSnapshot (str ''flashback'') (str ''forum:'' @ FID forum) now payload OriginVerified) = (r1, Inr ())"
  using assms
  by (auto simp: syncForumWithChildren_def Let_def dest!: sync_wait_part more_pages_part split: prod.splits sum.splits option.splits)

text \<open>
  A refreshed forum is in the cache. When the refresh of a forum reports success, the runtime's store holds a
  snapshot of the forum with the children of its page under the forum's resource name, marked
  \<^verbatim>\<open>ORIGIN_VERIFIED\<close>, and looking the resource up returns it.
\<close>

theorem snapshot_stored:
  assumes "sizes_ok P" "SRuntime s = Some r" "rt_cache r = Some n" "NStore n = Some st" "mesh_inv P J st"
    and "ValidString (str ''forum:'' @ FID forum)" "syncForumWithChildren P J E forum s = (s1, Inr (c, children))"
  shows "\<exists>r1 n1 st1 threads now payload. SRuntime s1 = Some r1 \<and> rt_cache r1 = Some n1 \<and> NStore n1 = Some st1 \<and> mesh_inv P J st1 \<and>
    snapshot_json E \<lparr>SForum = forum, SChildren = children, SThreads = threads, SFetchedAt = now\<rparr> = Some payload \<and>
    Find P J ordr False st1 (str ''flashback'') (str ''forum:'' @ FID forum) Mesh_Store.ForumSnapshot =
      Inr (NewObject P Mesh_Store.ForumSnapshot (str ''flashback'') (str ''forum:'' @ FID forum) now payload OriginVerified)"
proof -
  from syncForum_stored [OF assms(7,2)] obtain r1 threads now payload io where r: "SRuntime s1 = Some r1"
    "snapshot_json E \<lparr>SForum = forum, SChildren = children, SThreads = threads, SFetchedAt = now\<rparr> = Some payload"
    "Runtime_PutLocal P J io (publishes E) r
       (NewObject P Mesh_Store.ForumSnapshot (str ''flashback'') (str ''forum:'' @ FID forum) now payload OriginVerified) = (r1, Inr ())" by blast
  let ?ob = "NewObject P Mesh_Store.ForumSnapshot (str ''flashback'') (str ''forum:'' @ FID forum) now payload OriginVerified"
  obtain st1 where st1: "mesh_Put P J (io_tmp io) (io_flt io) ?ob st = (st1, Inr ())" "rt_cache r1 = Some (n\<lparr>NStore := Some st1\<rparr>)"
    using Runtime_PutLocal_stored [OF r(3) assms(3,4)] .
  have "json_object ?ob" using assms(1,6)
    by (auto simp: json_object_def NewObject_def sizes_ok_def Mesh_Store.ForumSnapshot_def OriginVerified_def str_def intro!: ValidString_ascii)
  from mesh_Put_found [OF assms(5) this st1(1)] have "mesh_inv P J st1"
    "Find P J ordr False st1 (str ''flashback'') (str ''forum:'' @ FID forum) Mesh_Store.ForumSnapshot = Inr ?ob"
    by (simp_all add: NewObject_def)
  then show ?thesis using r(1,2) st1(2) by fastforce
qed

definition demo_forum :: ForumNode where
  "demo_forum = seed demo_net_url [5]\<lparr>FID := [53]\<rparr>"

text \<open>A server that answers at once.\<close>

definition demo_still :: "instant list origin" where
  "demo_still = demo_origin\<lparr>ForumPage := \<lambda>f t w. (Inr ([], []), t, w @ [t])\<rparr>"

lemma demo_wait:
  "sync_wait E (with_limiter (demo_syncer us b)) =
     ((demo_syncer us b)\<lparr>Limiter := Some (NewRateLimiter\<lparr>requests := [0]\<rparr>)\<rparr>, Inr ())"
proof -
  have "limiter_Wait slp 0 NewRateLimiter = Some (NewRateLimiter\<lparr>requests := [0]\<rparr>, Inr 0)" for slp
    by (subst limiter_Wait.simps)
      (simp add: wait_turn_def wait_time_def limiter_prune_def gap_left_def NewRateLimiter_def NewRateLimiterWithClock_def Let_def)
  then show ?thesis by (simp add: sync_wait_def with_limiter_def demo_syncer_def)
qed

lemma demo_syncs:
  "\<exists>s1. syncForumWithChildren demo_prims demo_object_json demo_still demo_forum (with_limiter (demo_syncer us b)) = (s1, Inr (1, []))"
proof -
  let ?ob = "NewObject demo_prims Mesh_Store.ForumSnapshot (str ''flashback'') (str ''forum:'' @ FID demo_forum) 0 [1] OriginVerified"
  have "cacheable demo_prims demo_object_json ?ob"
    using demo_sizes_ok
    by (auto simp: cacheable_def demo_forum_def NewObject_def object_Validate_def json_object_def demo_object_json_def
        sizes_ok_def Mesh_Store.ForumSnapshot_def OriginVerified_def str_def intro!: ValidString_ascii)
  then obtain st1 where "mesh_Put demo_prims demo_object_json [] TmpOk ?ob demo_store = (st1, Inr ())"
    using mesh_Put_cacheable by (metis prod.collapse)
  then show ?thesis unfolding syncForumWithChildren_def demo_wait
    by (simp add: demo_still_def demo_origin_def demo_syncer_def more_pages.simps Let_def
        Runtime_PutLocal_def PutLocal_def demo_empty_def)
qed

theorem snapshot_stored_witness:
  "\<exists>s1 r1 n1 st1 now payload.
     syncForumWithChildren demo_prims demo_object_json demo_still demo_forum (with_limiter (demo_syncer [[5]] True)) = (s1, Inr (1, [])) \<and>
     SRuntime s1 = Some r1 \<and> rt_cache r1 = Some n1 \<and> NStore n1 = Some st1 \<and>
     Find demo_prims demo_object_json id False st1 (str ''flashback'') (str ''forum:5'') Mesh_Store.ForumSnapshot =
       Inr (NewObject demo_prims Mesh_Store.ForumSnapshot (str ''flashback'') (str ''forum:5'') now payload OriginVerified)"
proof -
  let ?s = "with_limiter (demo_syncer [[5]] True)"
  obtain s1 where s1: "syncForumWithChildren demo_prims demo_object_json demo_still demo_forum ?s = (s1, Inr (1, []))"
    using demo_syncs by blast
  have r: "SRuntime ?s = Some \<lparr>rt_store = True, rt_cache = Some demo_empty\<rparr>"
    "rt_cache \<lparr>rt_store = True, rt_cache = Some demo_empty\<rparr> = Some demo_empty" "NStore demo_empty = Some demo_store"
    by (simp_all add: demo_syncer_def demo_empty_def)
  have v: "ValidString (str ''forum:'' @ FID demo_forum)" by (rule ValidString_ascii) (simp add: demo_forum_def str_def)
  have f: "str ''forum:'' @ FID demo_forum = str ''forum:5''" by (simp add: demo_forum_def str_def)
  from snapshot_stored [OF demo_sizes_ok r demo_store_inv v s1, of id] show ?thesis unfolding f using s1 by blast
qed

section \<open>Which forums are reached\<close>

text \<open>
  In the fixed mode a refresh starts over at the first forum and ends at the first error: a forum whose page always
  fails keeps all forums listed after it from ever being refreshed.
\<close>

theorem failing_forum_blocks:
  assumes "Forums s = u # us" "\<not> DiscoverSubforums s" "\<forall>t w. \<exists>e. fst (ForumPage E (seed N u) t w) = Inl e"
  shows "SRuntime (sync_rounds P J N E k s) = SRuntime s \<and> fst (snd (SyncOnce P J N E (sync_rounds P J N E k s))) = 0"
  using assms(1,2)
proof (induction k arbitrary: s)
  have one: "crawl_part (fst (SyncOnce P J N E s)) = crawl_part s \<and> SRuntime (fst (SyncOnce P J N E s)) = SRuntime s \<and> fst (snd (SyncOnce P J N E s)) = 0"
    if s: "Forums s = u # us" "\<not> DiscoverSubforums s" for s
  proof (cases rule: SyncOnce_cases [where P = P and J = J and N = N and E = E and s = s])
    case listed
    obtain s1 x where r: "syncForumWithChildren P J E (seed N u) (with_limiter s) = (s1, x)"
      by (cases "syncForumWithChildren P J E (seed N u) (with_limiter s)")
    have "\<exists>e. x = Inl e \<and> SRuntime s1 = SRuntime s"
    proof (cases "sync_wait E (with_limiter s)")
      case (Pair t y)
      obtain e tt ww where "ForumPage E (seed N u) (clock t) (world t) = (Inl e, tt, ww)" using assms(3) by (metis prod.collapse)
      then show ?thesis using r Pair sync_wait_part [OF Pair] by (auto simp: syncForumWithChildren_def split: sum.splits)
    qed
    moreover have "crawl_part s1 = crawl_part s" using syncForum_part [OF r] by (simp add: crawl_part_def with_limiter_def split: if_splits)
    ultimately show ?thesis using listed(1) s r by (auto simp: syncForum_def)
  qed (use s in simp_all)
  case 0
  then show ?case using one by simp
  case (Suc k)
  let ?s = "fst (SyncOnce P J N E s)"
  have "Forums ?s = u # us" "\<not> DiscoverSubforums ?s" using one [OF Suc.prems] Suc.prems by (auto simp: crawl_part_def)
  then show ?case using Suc.IH [of ?s] one [OF Suc.prems] by simp
qed

text \<open>The server's log names the forum of each request. No sleep is cut short.\<close>

definition logs_forums :: "'w origin \<Rightarrow> ('w \<Rightarrow> (instant \<times> ForumNode) list) \<Rightarrow> bool" where
  "logs_forums E lg \<longleftrightarrow>
     (\<forall>f t w. t \<le> fst (snd (ForumPage E f t w)) \<and> lg (snd (snd (ForumPage E f t w))) = lg w @ [(t, f)]) \<and>
     (\<forall>f p t w. t \<le> fst (snd (ThreadsPage E f p t w)) \<and> lg (snd (snd (ThreadsPage E f p t w))) = lg w @ [(t, f)]) \<and>
     (\<forall>t d. \<exists>t'. slept E t d = Some t' \<and> t \<le> t' \<and> t + d \<le> t')"

definition asked :: "('w \<Rightarrow> (instant \<times> ForumNode) list) \<Rightarrow> 'w OriginSync \<Rightarrow> ForumNode set" where
  "asked lg s = snd ` set (lg (world s))"

lemma logs_forums_times: "logs_forums E lg \<Longrightarrow> logs_times E (\<lambda>w. map fst (lg w))"
  unfolding logs_forums_def logs_times_def by (metis (no_types, lifting) fst_conv list.simps(8,9) map_append option.sel)

lemma wait_granted:
  assumes "logs_forums E lg" "paced (\<lambda>w. map fst (lg w)) [] s"
  shows "\<exists>s1. sync_wait E s = (s1, Inr ())"
proof -
  obtain l where l: "Limiter s = Some l" "limiter_inv (clock s) (map fst (lg (world s))) l" "minimumGap l = 10 * Second"
    using assms(2) by (auto simp: paced_def)
  have slp: "\<exists>t'. slept E t d = Some t' \<and> t \<le> t' \<and> t + d \<le> t'" for t d using assms(1) by (simp add: logs_forums_def)
  have "\<forall>q \<in> set (requests l). q \<le> clock s" using limiter_inv_requests [OF l(2)] .
  moreover have "\<forall>t d t'. 0 < d \<longrightarrow> slept E t d = Some t' \<longrightarrow> t + d \<le> t'" using slp by (metis option.sel)
  moreover have "\<forall>t d. slept E t d \<noteq> None" using slp by (metis option.distinct(1))
  ultimately obtain r1 t where "limiter_Wait (slept E) (clock s) l = Some (r1, Inr t)"
    using limiter_Wait_total [of "slept E" l "clock s"] l(3) by auto
  then show ?thesis using l(1) by (simp add: sync_wait_def)
qed

lemma asked_pages:
  assumes "logs_forums E lg" "more_pages E forum page threads s = (s1, r)"
  shows "asked lg s \<subseteq> asked lg s1"
proof (rule more_pages_keeps [OF assms(2), where I = "\<lambda>t. asked lg s \<subseteq> asked lg t"])
  fix t u e assume "asked lg s \<subseteq> asked lg t" "sync_wait E t = (u, Inl e)"
  then show "asked lg s \<subseteq> asked lg u" using sync_wait_part [of E t u] by (simp add: asked_def)
next
  fix t u p res v w
  assume i: "asked lg s \<subseteq> asked lg t" and wt: "sync_wait E t = (u, Inr ())" and f: "ThreadsPage E forum p (clock u) (world u) = (res, v, w)"
  have "lg w = lg (world t) @ [(clock u, forum)]" using assms(1) f sync_wait_part [OF wt] unfolding logs_forums_def by (metis snd_conv)
  then show "asked lg s \<subseteq> asked lg (u\<lparr>clock := v, world := w\<rparr>)" using i by (auto simp: asked_def)
qed simp

lemma asked_forum:
  assumes "logs_forums E lg" "paced (\<lambda>w. map fst (lg w)) [] s" "syncForumWithChildren P J E forum s = (s1, r)"
  shows "insert forum (asked lg s) \<subseteq> asked lg s1"
proof -
  obtain t where w: "sync_wait E s = (t, Inr ())" using wait_granted [OF assms(1,2)] by blast
  obtain res u v where f: "ForumPage E forum (clock t) (world t) = (res, u, v)" by (metis prod_cases3)
  let ?t = "t\<lparr>clock := u, world := v\<rparr>"
  have "lg v = lg (world s) @ [(clock t, forum)]" using assms(1) f sync_wait_part [OF w] unfolding logs_forums_def by (metis snd_conv)
  then have ft: "insert forum (asked lg s) \<subseteq> asked lg ?t" by (auto simp: asked_def)
  show ?thesis
  proof (cases res)
    case (Inl e)
    then show ?thesis using ft assms(3) w f by (auto simp: syncForumWithChildren_def)
  next
    case (Inr p)
    obtain cs ths where p: "p = (cs, ths)" by (cases p)
    obtain s2 y where m: "more_pages E forum 2 ths ?t = (s2, y)" by (cases "more_pages E forum 2 ths ?t")
    have "world s1 = world s2"
      using assms(3) unfolding syncForumWithChildren_def w prod.case Inr sum.case f p m
      by (auto simp: Let_def split: sum.splits option.splits prod.splits)
    then have "asked lg s1 = asked lg s2" by (simp add: asked_def)
    then show ?thesis using asked_pages [OF assms(1) m] ft by auto
  qed
qed

lemma discover_queue: "\<exists>r. squeue (discover cs s) = squeue s @ r"
proof (induction cs s rule: discover.induct)
  case (2 c cs s)
  show ?case
  proof (cases "MaxForums s \<le> int (length (known s)) \<and> 0 < MaxForums s")
    case False
    then show ?thesis using 2 by (cases "map_of (known s) (FURL c) = None") auto
  qed simp
qed simp

text \<open>
  Of the queue \<open>q\<close> at some moment a part \<open>a\<close> has been asked for and the rest leads the queue.
\<close>

definition drained :: "('w \<Rightarrow> (instant \<times> ForumNode) list) \<Rightarrow> ForumNode list \<Rightarrow> nat \<Rightarrow> 'w OriginSync \<Rightarrow> bool" where
  "drained lg q n s \<longleftrightarrow>
     paced (\<lambda>w. map fst (lg w)) [] s \<and> SRuntime s \<noteq> None \<and>
     (\<exists>a b r. q = a @ b \<and> set a \<subseteq> asked lg s \<and> squeue s = b @ r \<and> min n (length q) \<le> length a)"

lemma syncForum_runtime:
  "syncForumWithChildren P J E forum s = (s1, r) \<Longrightarrow> SRuntime s \<noteq> None \<Longrightarrow> SRuntime s1 \<noteq> None"
  by (auto simp: syncForumWithChildren_def Let_def dest!: sync_wait_part more_pages_part split: prod.splits sum.splits option.splits)

text \<open>An attempt at the head of the queue, whatever comes of it.\<close>

lemma drained_attempt:
  assumes "logs_forums E lg" "drained lg q n s" "squeue s = f # tail" "syncForumWithChildren P J E f (s\<lparr>squeue := tail\<rparr>) = (s1, x)"
  shows "drained lg q (Suc n) s1 \<and> drained lg q (Suc n) (discover cs s1)"
proof -
  let ?s = "s\<lparr>squeue := tail\<rparr>"
  obtain a b r where ab: "q = a @ b" "set a \<subseteq> asked lg s" "squeue s = b @ r" "min n (length q) \<le> length a"
    using assms(2) by (auto simp: drained_def)
  have p: "paced (\<lambda>w. map fst (lg w)) [] ?s" "SRuntime ?s \<noteq> None" using assms(2) by (simp_all add: drained_def)
  have p1: "paced (\<lambda>w. map fst (lg w)) [] s1" using paced_forum [OF logs_forums_times [OF assms(1)] p(1) assms(4)] .
  have r1: "SRuntime s1 \<noteq> None" using syncForum_runtime [OF assms(4) p(2)] .
  have q1: "squeue s1 = tail" using syncForum_part [OF assms(4)] by (simp add: crawl_part_def)
  have "insert f (asked lg s) \<subseteq> asked lg s1" using asked_forum [OF assms(1) p(1) assms(4)] by (simp add: asked_def)
  then have ask: "set a \<subseteq> asked lg s1" "f \<in> asked lg s1" using ab(2) by auto
  have "\<exists>a b r. q = a @ b \<and> set a \<subseteq> asked lg s1 \<and> tail = b @ r \<and> min (Suc n) (length q) \<le> length a"
  proof (cases b)
    case Nil
    then have "q = a @ [] \<and> set a \<subseteq> asked lg s1 \<and> tail = [] @ tail \<and> min (Suc n) (length q) \<le> length a" using ab ask by simp
    then show ?thesis by blast
  next
    case (Cons c b')
    then have "q = (a @ [f]) @ b' \<and> set (a @ [f]) \<subseteq> asked lg s1 \<and> tail = b' @ r \<and> min (Suc n) (length q) \<le> length (a @ [f])"
      using ab ask assms(3) by simp
    then show ?thesis by blast
  qed
  then obtain a' b' r' where k: "q = a' @ b'" "set a' \<subseteq> asked lg s1" "tail = b' @ r'" "min (Suc n) (length q) \<le> length a'" by blast
  obtain y where y: "squeue (discover cs s1) = tail @ y" using discover_queue [of cs s1] q1 by auto
  have d: "asked lg (discover cs s1) = asked lg s1" by (simp add: asked_def)
  have "squeue (discover cs s1) = b' @ (r' @ y)" using y k(3) by simp
  then have "drained lg q (Suc n) (discover cs s1)"
    unfolding drained_def using k(1,2,4) p1 r1 by (simp only: d paced_queue discover_frame) blast
  moreover have "drained lg q (Suc n) s1" unfolding drained_def q1 using k p1 r1 by blast
  ultimately show ?thesis by blast
qed

lemma drained_weaken:
  assumes "drained lg q (Suc n) s"
  shows "drained lg q n s"
proof -
  obtain a b r where d: "paced (\<lambda>w. map fst (lg w)) [] s" "SRuntime s \<noteq> None" "q = a @ b" "set a \<subseteq> asked lg s" "squeue s = b @ r"
    "min (Suc n) (length q) \<le> length a"
    using assms unfolding drained_def by blast
  have "min n (length q) \<le> length a" using d(6) by linarith
  then show ?thesis using d(1-5) unfolding drained_def by blast
qed

lemma drained_crawl:
  assumes "logs_forums E lg" "drained lg q n s" "0 < batch" "crawl P J E batch 0 s = (s1, k, e)"
  shows "drained lg q (Suc n) s1"
proof (cases "squeue s")
  case Nil
  then have "s1 = s" using assms(4) by (simp add: crawl.simps)
  moreover have "length q \<le> length a" if "q = a @ b" "squeue s = b @ r" for a b r using that Nil by simp
  ultimately show ?thesis using assms(2) Nil unfolding drained_def by (metis min.cobounded2 order_trans)
next
  case (Cons f tail)
  obtain t x where r: "syncForumWithChildren P J E f (s\<lparr>squeue := tail\<rparr>) = (t, x)"
    by (cases "syncForumWithChildren P J E f (s\<lparr>squeue := tail\<rparr>)")
  note d = drained_attempt [OF assms(1,2) Cons r]
  show ?thesis
  proof (cases x)
    case (Inl err)
    then show ?thesis using assms(3,4) Cons r d by (simp add: crawl.simps)
  next
    case (Inr p)
    obtain c cs where p: "p = (c, cs)" by (cases p)
    have rest: "crawl P J E batch (0 + int c) (discover cs t) = (s1, k, e)"
      using assms(3,4) Cons r Inr p by (subst (asm) crawl.simps) simp
    show ?thesis
    proof (rule crawl_keeps [OF rest, where I = "drained lg q (Suc n)"])
      fix s2 g tl2 s3 y
      assume "drained lg q (Suc n) s2" "squeue s2 = g # tl2" "syncForumWithChildren P J E g (s2\<lparr>squeue := tl2\<rparr>) = (s3, Inl y)"
      from drained_attempt [OF assms(1) this] show "drained lg q (Suc n) s3" using drained_weaken by blast
    next
      fix s2 g tl2 s3 ds
      assume "drained lg q (Suc n) s2" "squeue s2 = g # tl2" "syncForumWithChildren P J E g (s2\<lparr>squeue := tl2\<rparr>) = (s3, Inr (1, ds))"
      from drained_attempt [OF assms(1) this] show "drained lg q (Suc n) (discover ds s3)" using drained_weaken by blast
    qed (use d in blast)
  qed
qed

lemma crawl_config:
  assumes "crawl P J E batch stored s = (s1, n, e)"
  shows "Forums s1 = Forums s \<and> SClient s1 = SClient s \<and> DiscoverSubforums s1 = DiscoverSubforums s \<and> started s1 = started s"
  by (rule crawl_keeps [OF assms, where I = "\<lambda>t. Forums t = Forums s \<and> SClient t = SClient s \<and> DiscoverSubforums t = DiscoverSubforums s \<and> started t = started s"])
    (auto dest!: syncForum_part simp: crawl_part_def)

definition crawling :: "'w OriginSync \<Rightarrow> bool" where
  "crawling s \<longleftrightarrow> SClient s \<and> Forums s \<noteq> [] \<and> DiscoverSubforums s"

lemma refused_not_crawling:
  assumes "crawling s" "SRuntime s \<noteq> None"
  shows "SyncOnce P J N E s = crawl P J E (batch_of (refill (begin_crawl N (with_limiter s)))) 0 (refill (begin_crawl N (with_limiter s)))"
  by (cases rule: SyncOnce_cases [where P = P and J = J and N = N and E = E and s = s]) (use assms in \<open>simp_all add: crawling_def\<close>)

lemma drained_round:
  assumes "logs_forums E lg" "drained lg q n s" "crawling s" "started s"
  shows "drained lg q (Suc n) (fst (SyncOnce P J N E s)) \<and> crawling (fst (SyncOnce P J N E s)) \<and> started (fst (SyncOnce P J N E s))"
proof -
  have l: "with_limiter s = s" using assms(2) by (auto simp: drained_def paced_def with_limiter_def)
  have b: "begin_crawl N s = s" using assms(4) by (simp add: begin_crawl_def)
  have "drained lg q n (refill s)"
  proof (cases "squeue s = []")
    case True
    then have "set q \<subseteq> asked lg s" using assms(2) unfolding drained_def by (metis Nil_is_append_conv append_Nil2)
    then have "q = q @ [] \<and> set q \<subseteq> asked lg (refill s) \<and> squeue (refill s) = [] @ squeue (refill s) \<and> min n (length q) \<le> length q"
      by (simp add: asked_def refill_def)
    moreover have "paced (\<lambda>w. map fst (lg w)) [] (refill s)" "SRuntime (refill s) \<noteq> None"
      using assms(2) by (simp_all add: drained_def refill_def)
    ultimately show ?thesis unfolding drained_def by blast
  qed (use assms(2) in \<open>simp add: refill_def\<close>)
  moreover obtain s1 k e where c: "crawl P J E (batch_of (refill s)) 0 (refill s) = (s1, k, e)" by (metis prod_cases3)
  moreover have "0 < batch_of (refill s)" by (simp add: batch_of_def)
  ultimately have "drained lg q (Suc n) s1" using drained_crawl [OF assms(1)] by blast
  moreover have "crawling s1 \<and> started s1" using crawl_config [OF c] assms(3,4) by (simp add: crawling_def refill_def split: if_splits)
  moreover have "SyncOnce P J N E s = (s1, k, e)"
    using refused_not_crawling [OF assms(3)] assms(2) l b c by (simp add: drained_def)
  ultimately show ?thesis by simp
qed

lemma drained_rounds:
  assumes "logs_forums E lg" "drained lg q n s" "crawling s" "started s"
  shows "drained lg q (n + k) (sync_rounds P J N E k s)"
  using assms(2-)
proof (induction k arbitrary: n s)
  case (Suc k)
  from Suc.IH [of "Suc n" "fst (SyncOnce P J N E s)"] drained_round [OF assms(1) Suc.prems] show ?case by simp
qed simp

lemma drained_all: "drained lg q (length q) s \<Longrightarrow> set q \<subseteq> asked lg s"
  unfolding drained_def by (metis append_Nil2 append_eq_conv_conj min.idem take_all)

lemma drained_start:
  assumes "paced (\<lambda>w. map fst (lg w)) [] s" "SRuntime s \<noteq> None"
  shows "drained lg (squeue s) 0 s"
proof -
  have "squeue s = [] @ squeue s \<and> set [] \<subseteq> asked lg s \<and> squeue s = squeue s @ [] \<and> min 0 (length (squeue s)) \<le> length ([] :: ForumNode list)" by simp
  then show ?thesis using assms unfolding drained_def by blast
qed

lemma crawl_mode_reaches:
  assumes "logs_forums E lg" "Limiter s = None" "lg (world s) = []" "\<not> started s" "squeue s = []" "known s = []"
    and "SClient s" "SRuntime s \<noteq> None" "DiscoverSubforums s" "u \<in> set (Forums s)"
  shows "seed N u \<in> asked lg (sync_rounds P J N E (length (Forums s)) s)"
proof -
  let ?s = "refill (begin_crawl N (with_limiter s))"
  obtain m where m: "length (Forums s) = Suc m" using assms(10) by (cases "Forums s") auto
  have "paced (\<lambda>w. map fst (lg w)) [] (with_limiter s)"
    using assms(2,3) limiter_inv_new [of 60 1440 "clock s" "10 * Second"]
    by (auto simp: with_limiter_def paced_def NewRateLimiter_def) (simp_all add: NewRateLimiterWithClock_def)
  then have p: "paced (\<lambda>w. map fst (lg w)) [] ?s" by (simp add: paced_def)
  have q: "squeue ?s = map (seed N) (Forums s)"
  proof -
    have "squeue (foldl (\<lambda>s u. learn (seed N u) s) t us) = squeue t @ map (seed N) us" for us and t :: "'a OriginSync"
      by (induction us arbitrary: t) simp_all
    then show ?thesis using assms(4,5) m by (simp add: begin_crawl_def refill_def)
  qed
  have d: "drained lg (map (seed N) (Forums s)) 0 ?s" using drained_start [OF p] assms(8) q by simp
  obtain s1 k e where c: "crawl P J E (batch_of ?s) 0 ?s = (s1, k, e)" by (metis prod_cases3)
  have d1: "drained lg (map (seed N) (Forums s)) (Suc 0) s1" by (rule drained_crawl [OF assms(1) d _ c]) (simp add: batch_of_def)
  have cr: "crawling s" using assms(7,9,10) by (auto simp: crawling_def)
  have "crawling s1" "started s1" using crawl_config [OF c] cr by (simp_all add: crawling_def)
  from drained_rounds [OF assms(1) d1 this, of m P J N] have "drained lg (map (seed N) (Forums s)) (length (Forums s)) (sync_rounds P J N E m s1)"
    using m by simp
  moreover have "sync_rounds P J N E (length (Forums s)) s = sync_rounds P J N E m s1"
    using m refused_not_crawling [OF cr assms(8)] c by simp
  ultimately show ?thesis using drained_all [of lg "map (seed N) (Forums s)"] assms(10) by auto
qed

text \<open>In the fixed mode the forums up to and including the first that fails are asked for, in their order.\<close>

lemma sync_list_asks:
  assumes "logs_forums E lg" "paced (\<lambda>w. map fst (lg w)) [] s" "sync_list P J N E us stored s = (s1, n, e)"
  shows "asked lg s \<subseteq> asked lg s1 \<and> stored \<le> n \<and> (if e = None then n = stored + int (length us) else n < stored + int (length us)) \<and>
    (\<forall>k < length us. int k \<le> n - stored \<longrightarrow> seed N (us ! k) \<in> asked lg s1)"
  using assms(2,3)
proof (induction us arbitrary: stored s)
  case (Cons u us)
  obtain t x where r: "syncForumWithChildren P J E (seed N u) s = (t, x)" by (cases "syncForumWithChildren P J E (seed N u) s")
  have a: "insert (seed N u) (asked lg s) \<subseteq> asked lg t" using asked_forum [OF assms(1) Cons.prems(1) r] .
  have p: "paced (\<lambda>w. map fst (lg w)) [] t" using paced_forum [OF logs_forums_times [OF assms(1)] Cons.prems(1) r] .
  show ?case
  proof (cases x)
    case (Inl err)
    then have "s1 = t" "n = stored" "e = Some err" using Cons.prems(2) r by (simp_all add: syncForum_def)
    then show ?thesis using a by (auto simp: less_Suc_eq_0_disj)
  next
    case (Inr y)
    then obtain c cs where y: "y = (c, cs)" by (cases y)
    have "c = 1" using syncForum_count r Inr y by blast
    then have "sync_list P J N E us (stored + 1) t = (s1, n, e)" using Cons.prems(2) r Inr y by (simp add: syncForum_def)
    from Cons.IH [OF p this] have ih: "asked lg t \<subseteq> asked lg s1" "stored + 1 \<le> n"
      "if e = None then n = stored + 1 + int (length us) else n < stored + 1 + int (length us)"
      "\<forall>k < length us. int k \<le> n - (stored + 1) \<longrightarrow> seed N (us ! k) \<in> asked lg s1" by blast+
    have "seed N ((u # us) ! k) \<in> asked lg s1" if "k < length (u # us)" "int k \<le> n - stored" for k
    proof (cases k)
      case 0
      then show ?thesis using a ih(1) by auto
    next
      case (Suc j)
      then show ?thesis using ih(4) that by auto
    qed
    then show ?thesis using a ih(1-3) by (auto split: if_splits)
  qed
qed simp

text \<open>
  C23. Which forums are asked for, when no sleep is cut short. When the crawl follows subforums, every
  configured forum has been asked for after as many refreshes as there are configured forums, however many
  of the requests fail: a failing page ends a refresh, but its forum has left the queue. In the fixed mode a
  refresh asks for the configured forums in their order up to and including the first that fails, so for all
  of them when it reports no error; with an error it has stored fewer snapshots than there are forums, and a
  forum after the failing one is not reached (\<open>failing_forum_blocks\<close>).
\<close>

theorem crawl_reaches:
  assumes "logs_forums E lg" "Limiter s = None" "lg (world s) = []" "\<not> started s" "squeue s = []" "known s = []"
    and "SClient s" "SRuntime s \<noteq> None" "u \<in> set (Forums s)"
  shows "(DiscoverSubforums s \<longrightarrow> seed N u \<in> asked lg (sync_rounds P J N E (length (Forums s)) s)) \<and>
    (\<not> DiscoverSubforums s \<longrightarrow> (\<forall>s1 n e. SyncOnce P J N E s = (s1, n, e) \<longrightarrow>
       (\<forall>k < length (Forums s). int k \<le> n \<longrightarrow> seed N (Forums s ! k) \<in> asked lg s1) \<and>
       (if e = None then n = int (length (Forums s)) \<and> seed N u \<in> asked lg s1 else 0 \<le> n \<and> n < int (length (Forums s)))))"
proof (rule conjI; intro impI allI)
  assume "DiscoverSubforums s"
  then show "seed N u \<in> asked lg (sync_rounds P J N E (length (Forums s)) s)" using crawl_mode_reaches [OF assms(1-8) _ assms(9)] by blast
next
  fix s1 n e assume m: "\<not> DiscoverSubforums s" "SyncOnce P J N E s = (s1, n, e)"
  have "paced (\<lambda>w. map fst (lg w)) [] (with_limiter s)"
    using assms(2,3) limiter_inv_new [of 60 1440 "clock s" "10 * Second"]
    by (auto simp: with_limiter_def paced_def NewRateLimiter_def) (simp_all add: NewRateLimiterWithClock_def)
  moreover have "sync_list P J N E (Forums s) 0 (with_limiter s) = (s1, n, e)"
    using m assms(7-9) length_pos_if_in_set [OF assms(9)] by (simp add: SyncOnce_def Let_def)
  ultimately have a: "asked lg (with_limiter s) \<subseteq> asked lg s1 \<and> 0 \<le> n \<and>
      (if e = None then n = 0 + int (length (Forums s)) else n < 0 + int (length (Forums s))) \<and>
      (\<forall>k < length (Forums s). int k \<le> n - 0 \<longrightarrow> seed N (Forums s ! k) \<in> asked lg s1)"
    by (rule sync_list_asks [OF assms(1)])
  obtain k where "k < length (Forums s)" "Forums s ! k = u" using assms(9) by (metis in_set_conv_nth)
  then show "(\<forall>k < length (Forums s). int k \<le> n \<longrightarrow> seed N (Forums s ! k) \<in> asked lg s1) \<and>
      (if e = None then n = int (length (Forums s)) \<and> seed N u \<in> asked lg s1 else 0 \<le> n \<and> n < int (length (Forums s)))"
    using a by (auto split: if_splits)
qed

definition demo_logged :: "(instant \<times> ForumNode) list origin" where
  "demo_logged =
     \<lparr>ForumPage = (\<lambda>f t w. (if FURL f = [9] then Inl [] else Inr ([], []), t + 1, w @ [(t, f)])),
      ThreadsPage = (\<lambda>f p t w. (Inr [], t + 1, w @ [(t, f)])),
      slept = (\<lambda>t d. Some (t + max 0 d)),
      put_io = (\<lambda>w. demo_io), publishes = False,
      snapshot_json = (\<lambda>s. Some [1])\<rparr>"

lemma demo_logs_forums: "logs_forums demo_logged id"
  by (auto simp: logs_forums_def demo_logged_def)

definition demo_crawler :: "gostring list \<Rightarrow> bool \<Rightarrow> (instant \<times> ForumNode) list OriginSync" where
  "demo_crawler us discovers =
     \<lparr>SClient = True, SRuntime = Some \<lparr>rt_store = True, rt_cache = Some demo_empty\<rparr>, Forums = us, Limiter = None, MaxPages = 1,
      DiscoverSubforums = discovers, MaxForums = 3, BatchSize = 5, known = [], squeue = [], started = False, clock = 0, world = []\<rparr>"

theorem crawl_reaches_witness:
  "seed demo_net_url [6] \<in> asked id (sync_rounds demo_prims demo_object_json demo_net_url demo_logged 2 (demo_crawler [[9], [6]] True)) \<and>
   (\<exists>s1 n e. SyncOnce demo_prims demo_object_json demo_net_url demo_logged (demo_crawler [[6], [9], [5]] False) = (s1, n, e) \<and>
      (if e = None then n = 3 \<and> seed demo_net_url [6] \<in> asked id s1 else 0 \<le> n \<and> n < 3))"
proof
  show "seed demo_net_url [6] \<in> asked id (sync_rounds demo_prims demo_object_json demo_net_url demo_logged 2 (demo_crawler [[9], [6]] True))"
    using crawl_reaches [OF demo_logs_forums, of "demo_crawler [[9], [6]] True" "[6]" demo_net_url demo_prims demo_object_json]
    by (simp add: demo_crawler_def numeral_2_eq_2)
  let ?s = "demo_crawler [[6], [9], [5]] False"
  obtain s1 n e where r: "SyncOnce demo_prims demo_object_json demo_net_url demo_logged ?s = (s1, n, e)"
    by (metis prod_cases3)
  have d: "Limiter ?s = None" "id (world ?s) = []" "\<not> started ?s" "squeue ?s = []" "known ?s = []" "SClient ?s" "SRuntime ?s \<noteq> None"
    "[6] \<in> set (Forums ?s)" "\<not> DiscoverSubforums ?s" "length (Forums ?s) = 3"
    by (simp_all add: demo_crawler_def)
  show "\<exists>s1 n e. SyncOnce demo_prims demo_object_json demo_net_url demo_logged (demo_crawler [[6], [9], [5]] False) = (s1, n, e) \<and>
      (if e = None then n = 3 \<and> seed demo_net_url [6] \<in> asked id s1 else 0 \<le> n \<and> n < 3)"
    using crawl_reaches [OF demo_logs_forums d(1-8), THEN conjunct2, rule_format, OF d(9) r, THEN conjunct2] r
    unfolding d(10) by auto
qed

theorem failing_forum_blocks_witness:
  "fst (snd (SyncOnce demo_prims demo_object_json demo_net_url demo_logged
     (sync_rounds demo_prims demo_object_json demo_net_url demo_logged 7 (demo_crawler [[9], [6]] False)))) = 0"
proof -
  have "Forums (demo_crawler [[9], [6]] False) = [9] # [[6]]" "\<not> DiscoverSubforums (demo_crawler [[9], [6]] False)"
    by (simp_all add: demo_crawler_def)
  moreover have "\<forall>t w. \<exists>e. fst (ForumPage demo_logged (seed demo_net_url [9]) t w) = Inl e" by (simp add: demo_logged_def)
  ultimately show ?thesis using failing_forum_blocks by blast
qed

end
