(* ===== verification/Flashback_Client.thy ===== *)
theory Flashback_Client
  imports Flashback_Links Go_Json
begin

text \<open>
  \<^verbatim>\<open>internal/flashback/client.go\<close>: the requests to the forum. The server with its transport is \<open>HttpDo\<close>, a function of the
  world \<open>'w\<close>; the readers of HTML (\<^verbatim>\<open>parser.go\<close>, written over \<^verbatim>\<open>goquery\<close>) are the fields \<open>ParseNavigation\<close> to \<open>ParseThreadPage\<close>,
  functions of the body and its address; \<open>embeddedSitemap\<close> is the file built into the program. \<open>WebURL\<close> is \<^verbatim>\<open>net/url\<close>.
\<close>

section \<open>The address of a page of a forum\<close>

text \<open>\<^verbatim>\<open>(?i)(/f[0-9]+)(p[0-9]+)?(-[^/?#]*)?$\<close>, anchored at the front; the result has the first and the third group.\<close>

definition page_tail :: "gostring \<Rightarrow> bool" where
  "page_tail t \<longleftrightarrow> t = [] \<or> hd t = 45 \<and> list_all (\<lambda>c. c \<noteq> 47 \<and> c \<noteq> 63 \<and> c \<noteq> 35) t"

definition after_page :: "gostring \<Rightarrow> gostring" where
  "after_page t = (case fold_match (str ''p'') t of
     None \<Rightarrow> t
   | Some r \<Rightarrow> if takeWhile ascii_digit r \<noteq> [] then dropWhile ascii_digit r else t)"

definition forum_page_match :: "gostring \<Rightarrow> (gostring \<times> gostring) option" where
  "forum_page_match s = (case fold_match (str ''/f'') s of
     None \<Rightarrow> None
   | Some r \<Rightarrow>
       if takeWhile ascii_digit r \<noteq> [] \<and> page_tail (after_page (dropWhile ascii_digit r))
       then Some (take 2 s @ takeWhile ascii_digit r, after_page (dropWhile ascii_digit r)) else None)"

text \<open>\<^verbatim>\<open>FindStringSubmatch\<close> takes the leftmost match.\<close>

fun forumPathPattern :: "gostring \<Rightarrow> (gostring \<times> gostring) option" where
  "forumPathPattern [] = None"
| "forumPathPattern (c # s) = (case forum_page_match (c # s) of Some g \<Rightarrow> Some g | None \<Rightarrow> forumPathPattern s)"

definition ForumPageURL :: "net_url \<Rightarrow> gostring \<Rightarrow> int \<Rightarrow> gostring" where
  "ForumPageURL N rawURL page =
     (if page \<le> 1 then rawURL
      else case url_Parse N rawURL of
        None \<Rightarrow> rawURL
      | Some u \<Rightarrow>
          (case forumPathPattern (Path u) of
             None \<Rightarrow> rawURL
           | Some (m1, m3) \<Rightarrow> url_String N (u\<lparr>Path := m1 @ str ''p'' @ FormatInt page @ m3\<rparr>)))"

section \<open>The client\<close>

record http_response =
  StatusCode :: int
  ReadAll :: "gostring option"

datatype client_error = ErrHttp gostring | ErrHttpStatus int | ErrHttpBody | ErrHtml gostring

record 'w web =
  HttpDo :: "gostring \<Rightarrow> 'w \<Rightarrow> (gostring + http_response) \<times> 'w"
  ParseNavigation :: "gostring \<Rightarrow> gostring \<Rightarrow> gostring + ForumNode list"
  ParseSitemapNavigation :: "gostring \<Rightarrow> gostring \<Rightarrow> gostring + ForumNode list"
  ParseThreadListing :: "gostring \<Rightarrow> gostring \<Rightarrow> gostring \<Rightarrow> gostring + ThreadSummary list"
  ParseThreadPage :: "gostring \<Rightarrow> gostring \<Rightarrow> gostring \<Rightarrow> int \<Rightarrow> gostring + ParsedPage"
  embeddedSitemap :: gostring
  WebURL :: net_url
  WebBase :: gostring

definition sitemapSourceURL :: gostring where
  "sitemapSourceURL = BaseURL @ str ''sitemap/index.php/''"

definition html :: "gostring + 'a \<Rightarrow> client_error + 'a" where
  "html r = (case r of Inl e \<Rightarrow> Inl (ErrHtml e) | Inr x \<Rightarrow> Inr x)"

definition Client_Fetch :: "'w web \<Rightarrow> gostring \<Rightarrow> 'w \<Rightarrow> (client_error + gostring) \<times> 'w" where
  "Client_Fetch W rawURL w =
     (case HttpDo W rawURL w of
        (Inl e, w1) \<Rightarrow> (Inl (ErrHttp e), w1)
      | (Inr res, w1) \<Rightarrow>
          if StatusCode res < 200 \<or> StatusCode res \<ge> 300 then (Inl (ErrHttpStatus (StatusCode res)), w1)
          else (case ReadAll res of None \<Rightarrow> (Inl ErrHttpBody, w1) | Some body \<Rightarrow> (Inr body, w1)))"

definition fetch_parse :: "'w web \<Rightarrow> gostring \<Rightarrow> (gostring \<Rightarrow> gostring + 'a) \<Rightarrow> 'w \<Rightarrow> (client_error + 'a) \<times> 'w" where
  "fetch_parse W rawURL parse w =
     (case Client_Fetch W rawURL w of
        (Inl e, w1) \<Rightarrow> (Inl e, w1)
      | (Inr body, w1) \<Rightarrow> (html (parse body), w1))"

definition Client_Forum :: "'w web \<Rightarrow> gostring \<Rightarrow> 'w \<Rightarrow> (client_error + ForumNode list) \<times> 'w" where
  "Client_Forum W rawURL w =
     (let live = fetch_parse W rawURL (\<lambda>body. ParseNavigation W body rawURL) w in
      if NormalizeURL (WebURL W) rawURL BaseURL = BaseURL then
        (case ParseSitemapNavigation W (embeddedSitemap W) sitemapSourceURL of
           Inr nodes \<Rightarrow> if nodes \<noteq> [] then (Inr nodes, w) else live
         | Inl _ \<Rightarrow> live)
      else live)"

definition Client_ThreadsPage :: "'w web \<Rightarrow> ForumNode \<Rightarrow> int \<Rightarrow> 'w \<Rightarrow> (client_error + ThreadSummary list) \<times> 'w" where
  "Client_ThreadsPage W forum page w =
     (let rawURL = (if page > 1 then ForumPageURL (WebURL W) (FURL forum) page else FURL forum)
      in fetch_parse W rawURL (\<lambda>body. ParseThreadListing W body rawURL (FID forum)) w)"

definition Client_Threads :: "'w web \<Rightarrow> ForumNode \<Rightarrow> 'w \<Rightarrow> (client_error + ThreadSummary list) \<times> 'w" where
  "Client_Threads W forum w = Client_ThreadsPage W forum 1 w"

definition Client_ForumPage :: "'w web \<Rightarrow> ForumNode \<Rightarrow> 'w \<Rightarrow> (client_error + ForumNode list \<times> ThreadSummary list) \<times> 'w" where
  "Client_ForumPage W forum w =
     fetch_parse W (FURL forum) (\<lambda>body.
       case ParseNavigation W body (FURL forum) of
         Inl e \<Rightarrow> Inl e
       | Inr forums \<Rightarrow>
           (case ParseThreadListing W body (FURL forum) (FID forum) of
              Inl e \<Rightarrow> Inl e
            | Inr threads \<Rightarrow> Inr (forums, threads))) w"

definition Client_Thread :: "'w web \<Rightarrow> gostring \<Rightarrow> int \<Rightarrow> 'w \<Rightarrow> (client_error + ParsedPage) \<times> 'w" where
  "Client_Thread W threadID page w =
     (let path = WebBase W @ str ''t'' @ threadID @ (if page > 1 then str ''p'' @ FormatInt page else [])
      in fetch_parse W path (\<lambda>body. ParseThreadPage W body path threadID page) w)"

section \<open>Properties\<close>

lemma fold_match_forum: "fold_match (str ''/f'') s = Some r \<Longrightarrow> \<exists>c. s = 47 # c # r \<and> (c = 102 \<or> c + 32 = 102)"
  by (cases s; cases "tl s") (auto simp: str_def split: if_splits)

lemma fold_match_p: "fold_match (str ''p'') t = Some r \<Longrightarrow> \<exists>c. t = c # r"
  by (cases t) (auto simp: str_def split: if_splits)

lemma after_page_suffix: "\<exists>x. t = x @ after_page t"
proof (cases "fold_match (str ''p'') t")
  case (Some r)
  then obtain c where "t = c # r" using fold_match_p by blast
  then have "t = (if takeWhile ascii_digit r \<noteq> [] then c # takeWhile ascii_digit r else []) @ after_page t"
    using Some by (simp add: after_page_def)
  then show ?thesis by blast
qed (simp add: after_page_def)

lemma forum_page_parts:
  assumes "forum_page_match s = Some (a, b)"
  shows "\<exists>c d x. a = 47 # c # d \<and> (c = 102 \<or> c + 32 = 102) \<and> d \<noteq> [] \<and> list_all ascii_digit d \<and> page_tail b \<and> s = a @ x @ b"
proof -
  obtain r where r: "fold_match (str ''/f'') s = Some r" "takeWhile ascii_digit r \<noteq> []" "page_tail b"
      "a = take 2 s @ takeWhile ascii_digit r" "b = after_page (dropWhile ascii_digit r)"
    using assms by (auto simp: forum_page_match_def split: option.splits if_splits)
  obtain c where c: "s = 47 # c # r" "c = 102 \<or> c + 32 = 102" using fold_match_forum [OF r(1)] by blast
  obtain x where x: "dropWhile ascii_digit r = x @ b" using after_page_suffix r(5) by blast
  have "list_all ascii_digit (takeWhile ascii_digit r)" by (auto simp: list_all_iff dest: set_takeWhileD)
  moreover have "s = a @ x @ b" using c(1) r(4) x by (metis append.assoc append_Cons append_Nil numeral_2_eq_2 take0 take_Suc_Cons takeWhile_dropWhile_id)
  moreover have "a = 47 # c # takeWhile ascii_digit r" using c(1) r(4) by (simp add: numeral_2_eq_2)
  ultimately show ?thesis using c(2) r(2,3) by blast
qed

lemma forumPathPattern_parts:
  "forumPathPattern s = Some (a, b) \<Longrightarrow> \<exists>c d x y. a = 47 # c # d \<and> (c = 102 \<or> c + 32 = 102) \<and> d \<noteq> [] \<and> list_all ascii_digit d \<and> page_tail b \<and> s = y @ a @ x @ b"
proof (induction s)
  case (Cons k s)
  show ?case
  proof (cases "forum_page_match (k # s)")
    case (Some g)
    then show ?thesis using forum_page_parts [of "k # s" a b] Cons.prems by (metis append_Nil forumPathPattern.simps(2) option.inject option.simps(5))
  next
    case None
    then have "forumPathPattern s = Some (a, b)" using Cons.prems by simp
    from Cons.IH [OF this] obtain c d x y where "a = 47 # c # d" "c = 102 \<or> c + 32 = 102" "d \<noteq> []" "list_all ascii_digit d" "page_tail b" "s = y @ a @ x @ b"
      by blast
    then show ?thesis by (metis append_Cons)
  qed
qed simp

lemma digit_same: "digit = ascii_digit"
  by (auto simp: digit_def ascii_digit_def)

lemma page_digits: "1 < q \<Longrightarrow> FormatInt q \<noteq> [] \<and> list_all ascii_digit (FormatInt q)"
  using FormatNat_digits [of "nat q"] by (simp add: FormatInt_def digit_same)

lemma digits_then:
  assumes "list_all ascii_digit d" "t = [] \<or> \<not> ascii_digit (hd t)"
  shows "takeWhile ascii_digit (d @ t) = d \<and> dropWhile ascii_digit (d @ t) = t"
  using assms by (cases t) (auto simp: list_all_iff takeWhile_append dropWhile_append takeWhile_eq_all_conv)

lemma page_tail_no_digit: "page_tail b \<Longrightarrow> b = [] \<or> \<not> ascii_digit (hd b)"
  by (auto simp: page_tail_def ascii_digit_def)

lemma paged_match:
  assumes "d \<noteq> []" "list_all ascii_digit d" "e \<noteq> []" "list_all ascii_digit e" "page_tail b"
  shows "forumPathPattern (47 # 102 # d @ 112 # e @ b) = Some (47 # 102 # d, b)"
proof -
  have "\<not> ascii_digit 112" by (simp add: ascii_digit_def)
  then have d: "takeWhile ascii_digit (d @ 112 # e @ b) = d" "dropWhile ascii_digit (d @ 112 # e @ b) = 112 # e @ b"
    using digits_then [OF assms(2), of "112 # e @ b"] by simp_all
  have "takeWhile ascii_digit (e @ b) = e" "dropWhile ascii_digit (e @ b) = b"
    using digits_then [OF assms(4) page_tail_no_digit [OF assms(5)]] by simp_all
  then have "after_page (112 # e @ b) = b" using assms(3) by (simp add: after_page_def str_def)
  then show ?thesis using d assms(1,5) by (simp add: forum_page_match_def str_def numeral_2_eq_2)
qed

lemma plain_paged:
  assumes "plain_url u" "Path u = y @ (47 # c # d) @ x @ b" "c = 102 \<or> c + 32 = 102" "list_all ascii_digit d" "list_all ascii_digit e" "page_tail b"
  shows "c = 102 \<and> plain_url (u\<lparr>Path := 47 # 102 # d @ 112 # e @ b\<rparr>)"
proof -
  have ch: "list_all (\<lambda>c. url_char c \<or> c = 47) (Path u)" using assms(1) by (simp add: plain_url_def)
  have c: "c = 102"
  proof (rule ccontr)
    assume "c \<noteq> 102"
    then have "c = 102 - 32" using assms(3) by (metis add_diff_cancel)
    then show False using ch assms(2) by (simp add: url_char_def ascii_digit_def)
  qed
  have b: "list_all (\<lambda>c. url_char c \<and> c \<noteq> 47) b"
    using ch assms(2,6) by (auto simp: page_tail_def list_all_iff)
  have de: "list_all (\<lambda>c. url_char c \<and> c \<noteq> 47) d" "list_all (\<lambda>c. url_char c \<and> c \<noteq> 47) e"
    using assms(4,5) by (auto simp: list_all_iff ascii_digit_url_char ascii_digit_def)
  let ?t = "102 # d @ 112 # e @ b"
  have t: "list_all (\<lambda>c. url_char c \<and> c \<noteq> 47) ?t" using b de by (simp add: url_char_def)
  have "successively (\<lambda>a b. \<not> (a = 47 \<and> (b = 46 \<or> b = 47))) s" if "list_all (\<lambda>c. url_char c \<and> c \<noteq> 47) s" for s :: gostring
    using that by (induction s rule: induct_list012) auto
  from this [OF t] have "successively (\<lambda>a b. \<not> (a = 47 \<and> (b = 46 \<or> b = 47))) (47 # ?t)" by simp
  moreover have "last ?t \<noteq> 47" using t last_in_set [of ?t] unfolding list_all_iff by blast
  ultimately show ?thesis using c assms(1) t unfolding plain_url_def by (auto simp: list_all_iff)
qed

text \<open>
  Paging through a forum. From the address of any page of a forum, the address of page \<open>q\<close> replaces the page number and keeps
  the forum's number and the title in the address; asking again for the page it has changes nothing.
\<close>

theorem page_address:
  assumes "net_url_ok N" "plain_url u" "forumPathPattern (Path u) = Some (a, b)" "1 < p" "1 < q"
  shows "ForumPageURL N (url_String N u) p = url_String N (u\<lparr>Path := a @ str ''p'' @ FormatInt p @ b\<rparr>) \<and>
    ForumPageURL N (ForumPageURL N (url_String N u) p) q = ForumPageURL N (url_String N u) q"
proof -
  have P: "url_Parse N (url_String N w) = Some w" if "plain_url w" for w using assms(1) that by (simp add: net_url_ok_def)
  obtain c d x y where s: "a = 47 # c # d" "c = 102 \<or> c + 32 = 102" "d \<noteq> []" "list_all ascii_digit d" "page_tail b" "Path u = y @ a @ x @ b"
    using forumPathPattern_parts [OF assms(3)] by blast
  have e: "FormatInt p \<noteq> []" "list_all ascii_digit (FormatInt p)" using page_digits [OF assms(4)] by simp_all
  let ?v = "u\<lparr>Path := a @ str ''p'' @ FormatInt p @ b\<rparr>"
  have c: "c = 102" "plain_url (u\<lparr>Path := 47 # 102 # d @ 112 # FormatInt p @ b\<rparr>)"
    using plain_paged [OF assms(2) _ s(2,4) e(2) s(5)] s(1,6) by blast+
  then have v: "plain_url ?v" "a = 47 # 102 # d" using s(1) by (simp_all add: str_def)
  have one: "ForumPageURL N (url_String N u) r = url_String N (u\<lparr>Path := a @ str ''p'' @ FormatInt r @ b\<rparr>)" if "1 < r" for r
    using that assms(3) by (simp add: ForumPageURL_def P [OF assms(2)])
  have "forumPathPattern (Path ?v) = Some (a, b)" using paged_match [OF s(3,4) e s(5)] v(2) by (simp add: str_def)
  then have "ForumPageURL N (url_String N ?v) q = url_String N (u\<lparr>Path := a @ str ''p'' @ FormatInt q @ b\<rparr>)"
    using assms(5) by (simp add: ForumPageURL_def P [OF v(1)])
  then show ?thesis using one assms(4,5) by simp
qed

theorem page_address_witness:
  "ForumPageURL demo_net_url (str ''https://www.flashback.org/f21-data'') 2 = str ''https://www.flashback.org/f21p2-data'' \<and>
   ForumPageURL demo_net_url (str ''https://www.flashback.org/f21p2-data'') 3 = str ''https://www.flashback.org/f21p3-data''"
proof -
  let ?u = "\<lparr>Scheme = str ''https'', Host = str ''www.flashback.org'', Path = str ''/f21-data'', RawQuery = [], Fragment = []\<rparr>"
  have u: "plain_url ?u" by (simp add: plain_url_def str_def url_char_def ascii_digit_def)
  have m: "forumPathPattern (Path ?u) = Some (str ''/f21'', str ''-data'')"
    unfolding url.simps by code_simp
  have i: "FormatInt 2 = str ''2''" "FormatInt 3 = str ''3''" by (simp_all add: FormatInt_def FormatNat.simps str_def)
  have s: "url_String demo_net_url ?u = str ''https://www.flashback.org/f21-data''"
    "url_String demo_net_url (?u\<lparr>Path := str ''/f21'' @ str ''p'' @ str ''2'' @ str ''-data''\<rparr>) = str ''https://www.flashback.org/f21p2-data''"
    "url_String demo_net_url (?u\<lparr>Path := str ''/f21'' @ str ''p'' @ str ''3'' @ str ''-data''\<rparr>) = str ''https://www.flashback.org/f21p3-data''"
    by (simp_all add: demo_net_url_def str_def)
  have l: "1 < (2 :: int)" "1 < (3 :: int)" by simp_all
  note two = page_address [OF demo_net_url_ok u m l, unfolded i s]
  note three = page_address [OF demo_net_url_ok u m l(2,1), unfolded i s]
  show ?thesis using two three by (elim conjE) (simp only:)
qed

end
