(* ===== verification/Reader_Load.thy ===== *)
theory Reader_Load
  imports Reader_Cache Svc_OriginSync Flashback_Client
begin

text \<open>
  \<^verbatim>\<open>internal/tui/app.go\<close>, \<^verbatim>\<open>loadRoot\<close> to \<^verbatim>\<open>firstNonEmpty\<close>: the commands of the terminal program that fetch what a view shows. Each
  looks into the cache, asks the forum when the cache has nothing, saves what it got and answers with a \<^verbatim>\<open>dataMsg\<close>;
  \<^verbatim>\<open>loadPosts\<close> also publishes to the mesh and falls back on it. The environment \<open>env\<close> has the client, the driver, the
  outcome of each access to the database, the times read, and the parts of the mesh runtime; \<open>MarshalPage\<close> and
  \<open>UnmarshalPage\<close> are \<^verbatim>\<open>encoding/json\<close> for a page. The database is present, as \<^verbatim>\<open>New\<close> has it.
\<close>

datatype access = ReadForums | ReadForumsAgain | ReadSync | ReadListing | ReadThread | ReadPosts | SaveRows | SaveSync

record 'w env =
  EnWeb :: "'w web"
  EnDriver :: driver
  EnIo :: "access \<Rightarrow> bool"
  EnRead :: instant
  EnSaved :: instant
  EnAfter :: instant
  EnPrims :: prims
  EnJson :: object_json
  EnPut :: mesh_io
  EnFind :: mesh_io
  EnPublishes :: bool
  EnPeer :: "'w peer option"
  EnRunning :: bool
  MarshalPage :: "ParsedPage \<Rightarrow> bytes option"
  UnmarshalPage :: "bytes \<Rightarrow> ParsedPage option"

record 'w reader =
  RdCache :: cache
  RdMesh :: "sync_runtime option"
  RdWorld :: 'w

datatype load_error = LoadClient client_error | LoadCache cache_error | LoadQuery

record dataMsg =
  MgKind :: gostring
  MgForums :: "ForumNode list"
  MgThreads :: "ThreadSummary list"
  MgPosts :: "Post list"
  MgThreadID :: gostring
  MgThreadTitle :: gostring
  MgRefresh :: bool
  MgRefreshURL :: gostring
  MgRefreshParent :: gostring
  MgPage :: int
  MgPageCount :: int
  MgErr :: "load_error option"

definition msg :: "string \<Rightarrow> dataMsg" where
  "msg kind = \<lparr>MgKind = str kind, MgForums = [], MgThreads = [], MgPosts = [], MgThreadID = [], MgThreadTitle = [], MgRefresh = False,
     MgRefreshURL = [], MgRefreshParent = [], MgPage = 0, MgPageCount = 0, MgErr = None\<rparr>"

definition failed :: "string \<Rightarrow> load_error \<Rightarrow> dataMsg" where
  "failed kind e = (msg kind)\<lparr>MgErr := Some e\<rparr>"

definition navigationSource :: gostring where
  "navigationSource = str ''flashback:navigation:v6-sitemap-parent-ancestors''"

definition threadsSource :: "gostring \<Rightarrow> gostring" where
  "threadsSource forumID = str ''flashback:threads:'' @ forumID"

abbreviation (input) ten_minutes :: duration where "ten_minutes \<equiv> 600000000000"
abbreviation (input) one_day :: duration where "one_day \<equiv> 86400000000000"

text \<open>\<^verbatim>\<open>state.LastSyncedAt.IsZero() || time.Since(state.LastSyncedAt) >= limit\<close>; the error of the read is not looked at.\<close>

definition due :: "'w env \<Rightarrow> gostring \<Rightarrow> duration \<Rightarrow> cache \<Rightarrow> bool" where
  "due E source limit c =
     (case ExternalSyncState (EnDriver E) (EnIo E ReadSync) source c of
        None \<Rightarrow> True
      | Some st \<Rightarrow> SyAt st = zero_time \<or> time_sub (EnRead E) (SyAt st) \<ge> limit)"

definition synced :: "'w env \<Rightarrow> gostring \<Rightarrow> cache \<Rightarrow> cache" where
  "synced E source c = SetExternalSyncState (EnIo E SaveSync) source \<lparr>SyAt = EnAfter E, SyStatus = str ''ok''\<rparr> c"

definition isCategory :: "ForumNode \<Rightarrow> bool" where
  "isCategory n \<longleftrightarrow> \<not> FBrowsable n"

definition needsThreadMetadata :: "ThreadSummary list \<Rightarrow> bool" where
  "needsThreadMetadata rows = list_ex (\<lambda>row. TPageCount row < 1) rows"

section \<open>Navigation\<close>

definition loadRoot :: "'w env \<Rightarrow> 'w reader \<Rightarrow> 'w reader \<times> dataMsg" where
  "loadRoot E s =
     (let c = RdCache s;
          out = (if EnIo E ReadForums then ForumsOf [] c else []) in
      if out \<noteq> [] then
        (s, (msg ''forums'')\<lparr>MgForums := out, MgRefresh := due E navigationSource one_day c, MgRefreshURL := BaseURL\<rparr>)
      else case Client_Forum (EnWeb E) BaseURL (RdWorld s) of
        (Inl e, w) \<Rightarrow> (s\<lparr>RdWorld := w\<rparr>, failed ''forums'' (LoadClient e))
      | (Inr nodes, w) \<Rightarrow>
          let c1 = fst (ReplaceForumSnapshot (EnIo E SaveRows) (EnSaved E) nodes c) in
          (s\<lparr>RdCache := synced E navigationSource c1, RdWorld := w\<rparr>, (msg ''forums'')\<lparr>MgForums := nodes\<rparr>))"

definition loadChildren :: "'w env \<Rightarrow> ForumNode list \<Rightarrow> 'w reader \<Rightarrow> 'w reader \<times> dataMsg" where
  "loadChildren E stack s =
     (let parent = (if stack \<noteq> [] then FID (last stack) else []) in
      if \<not> EnIo E ReadForums then (s, failed ''forums'' LoadQuery)
      else (s, (msg ''forums'')\<lparr>MgForums := ForumsOf parent (RdCache s)\<rparr>))"

definition refreshNavigation :: "'w env \<Rightarrow> gostring \<Rightarrow> 'w reader \<Rightarrow> 'w reader \<times> dataMsg" where
  "refreshNavigation E rawURL s =
     (case Client_Forum (EnWeb E) rawURL (RdWorld s) of
        (Inl e, w) \<Rightarrow> (s\<lparr>RdWorld := w\<rparr>, failed ''forums'' (LoadClient e))
      | (Inr nodes, w) \<Rightarrow>
          (case ReplaceForumSnapshot (EnIo E SaveRows) (EnSaved E) nodes (RdCache s) of
             (c1, Inl e) \<Rightarrow> (s\<lparr>RdCache := c1, RdWorld := w\<rparr>, failed ''forums'' (LoadCache e))
           | (c1, Inr _) \<Rightarrow>
               (s\<lparr>RdCache := synced E navigationSource c1, RdWorld := w\<rparr>,
                (msg ''forums'')\<lparr>MgForums := filter (\<lambda>n. FParentID n = []) nodes\<rparr>)))"

definition refreshCategoryNavigation :: "'w env \<Rightarrow> ForumNode \<Rightarrow> 'w reader \<Rightarrow> 'w reader \<times> dataMsg" where
  "refreshCategoryNavigation E category s =
     (case Client_Forum (EnWeb E) BaseURL (RdWorld s) of
        (Inl e, w) \<Rightarrow> (s\<lparr>RdWorld := w\<rparr>, failed ''forums'' (LoadClient e))
      | (Inr nodes, w) \<Rightarrow>
          (case ReplaceForumSnapshot (EnIo E SaveRows) (EnSaved E) nodes (RdCache s) of
             (c1, Inl e) \<Rightarrow> (s\<lparr>RdCache := c1, RdWorld := w\<rparr>, failed ''forums'' (LoadCache e))
           | (c1, Inr _) \<Rightarrow>
               let s1 = s\<lparr>RdCache := c1, RdWorld := w\<rparr> in
               if \<not> EnIo E ReadForumsAgain then (s1, failed ''forums'' LoadQuery)
               else (s1, (msg ''forums'')\<lparr>MgForums := ForumsOf (FID category) c1\<rparr>)))"

definition refreshForumNavigation :: "'w env \<Rightarrow> gostring \<Rightarrow> gostring \<Rightarrow> 'w reader \<Rightarrow> 'w reader \<times> dataMsg" where
  "refreshForumNavigation E rawURL parentID s =
     (case Client_Forum (EnWeb E) rawURL (RdWorld s) of
        (Inl e, w) \<Rightarrow> (s\<lparr>RdWorld := w\<rparr>, failed ''forums'' (LoadClient e))
      | (Inr nodes, w) \<Rightarrow>
          (case SaveForums (EnIo E SaveRows) (EnSaved E) nodes (RdCache s) of
             (c1, Inl e) \<Rightarrow> (s\<lparr>RdCache := c1, RdWorld := w\<rparr>, failed ''forums'' (LoadCache e))
           | (c1, Inr _) \<Rightarrow>
               let c2 = synced E (navigationSource @ str '':'' @ parentID) c1; s1 = s\<lparr>RdCache := c2, RdWorld := w\<rparr> in
               if \<not> EnIo E ReadForumsAgain then (s1, failed ''forums'' LoadQuery)
               else (s1, (msg ''forums'')\<lparr>MgForums := ForumsOf parentID c2\<rparr>)))"

definition loadForumChildren :: "'w env \<Rightarrow> ForumNode \<Rightarrow> 'w reader \<Rightarrow> 'w reader \<times> dataMsg" where
  "loadForumChildren E n s =
     (let c = RdCache s;
          out = (if EnIo E ReadForums then ForumsOf (FID n) c else []);
          cached = (if EnIo E ReadListing then cachedThreads (EnDriver E) (FID n) c else None);
          source = navigationSource @ str '':'' @ FID n in
      if out \<noteq> [] then
        (if isCategory n then (s, (msg ''forums'')\<lparr>MgForums := out\<rparr>)
         else (s, (msg ''forums'')\<lparr>MgForums := out, MgRefresh := due E source one_day c, MgRefreshURL := FURL n, MgRefreshParent := FID n\<rparr>))
      else if isCategory n then refreshCategoryNavigation E n s
      else if cached \<noteq> None \<and> the cached \<noteq> [] then
        (s, (msg ''threads'')\<lparr>MgThreads := the cached,
           MgRefresh := needsThreadMetadata (the cached) \<or> due E (threadsSource (FID n)) ten_minutes c, MgRefreshURL := FURL n\<rparr>)
      else case Client_ForumPage (EnWeb E) n (RdWorld s) of
        (Inl e, w) \<Rightarrow> (s\<lparr>RdWorld := w\<rparr>, failed ''forums'' (LoadClient e))
      | (Inr (forums, threads), w) \<Rightarrow>
          if forums \<noteq> [] then
            (s\<lparr>RdCache := synced E source (fst (SaveForums (EnIo E SaveRows) (EnSaved E) forums c)), RdWorld := w\<rparr>,
             (msg ''forums'')\<lparr>MgForums := forums\<rparr>)
          else (case SaveThreads (EnIo E SaveRows) (EnSaved E) (FID n) threads c of
             (c1, Inl e) \<Rightarrow> (s\<lparr>RdCache := c1, RdWorld := w\<rparr>, failed ''threads'' (LoadCache e))
           | (c1, Inr _) \<Rightarrow>
               (s\<lparr>RdCache := synced E (threadsSource (FID n)) c1, RdWorld := w\<rparr>, (msg ''threads'')\<lparr>MgThreads := threads\<rparr>)))"

section \<open>Threads\<close>

text \<open>\<^verbatim>\<open>loadForum\<close> skips the rows that cannot be scanned.\<close>

definition loadForum :: "'w env \<Rightarrow> ForumNode \<Rightarrow> 'w reader \<Rightarrow> 'w reader \<times> dataMsg" where
  "loadForum E n s =
     (let c = RdCache s;
          out = (if EnIo E ReadListing then List.map_filter (scan_thread (EnDriver E)) (listing (FID n) c) else []) in
      if out \<noteq> [] then
        (s, (msg ''threads'')\<lparr>MgThreads := out,
           MgRefresh := needsThreadMetadata out \<or> due E (threadsSource (FID n)) ten_minutes c, MgRefreshURL := FURL n\<rparr>)
      else case Client_Threads (EnWeb E) n (RdWorld s) of
        (Inl e, w) \<Rightarrow> (s\<lparr>RdWorld := w\<rparr>, failed ''threads'' (LoadClient e))
      | (Inr threads, w) \<Rightarrow>
          (s\<lparr>RdCache := synced E (threadsSource (FID n)) (fst (SaveThreads (EnIo E SaveRows) (EnSaved E) (FID n) threads c)), RdWorld := w\<rparr>,
           (msg ''threads'')\<lparr>MgThreads := threads\<rparr>))"

definition refreshThreads :: "'w env \<Rightarrow> gostring \<Rightarrow> gostring \<Rightarrow> int \<Rightarrow> 'w reader \<Rightarrow> 'w reader \<times> dataMsg" where
  "refreshThreads E rawURL forumID page s =
     (let forum = \<lparr>FID = forumID, FTitle = [], FURL = rawURL, FParentID = [], FDepth = 0, FSortOrder = 0, FHasChildren = False, FBrowsable = False\<rparr> in
      case Client_ThreadsPage (EnWeb E) forum page (RdWorld s) of
        (Inl e, w) \<Rightarrow> (s\<lparr>RdWorld := w\<rparr>, failed ''threads'' (LoadClient e))
      | (Inr threads, w) \<Rightarrow>
          (case SaveThreads (EnIo E SaveRows) (EnSaved E) forumID threads (RdCache s) of
             (c1, Inl e) \<Rightarrow> (s\<lparr>RdCache := c1, RdWorld := w\<rparr>, failed ''threads'' (LoadCache e))
           | (c1, Inr _) \<Rightarrow>
               (s\<lparr>RdCache := synced E (threadsSource forumID) c1, RdWorld := w\<rparr>, (msg ''threads'')\<lparr>MgThreads := threads, MgPage := page\<rparr>)))"

section \<open>Posts\<close>

fun firstNonEmpty :: "gostring list \<Rightarrow> gostring" where
  "firstNonEmpty [] = []"
| "firstNonEmpty (v # vs) = (if TrimSpace v \<noteq> [] then TrimSpace v else firstNonEmpty vs)"

text \<open>\<^verbatim>\<open>Runtime.GetResource\<close>; \<open>running\<close>: the state of the runtime is Running or Degraded.\<close>

definition Runtime_GetResource ::
  "'w env \<Rightarrow> sync_runtime \<Rightarrow> gostring \<Rightarrow> gostring \<Rightarrow> gostring \<Rightarrow> 'w \<Rightarrow> sync_runtime \<times> 'w \<times> CacheObject option" where
  "Runtime_GetResource E r source resourceID typ w =
     (case rt_cache r of
        None \<Rightarrow> (r, w, None)
      | Some n \<Rightarrow>
          if \<not> EnRunning E then (r, w, None)
          else (case GetResource (EnPrims E) (EnJson E) (EnFind E) (EnPeer E) source resourceID typ n w of
             (n1, w1, Inl _) \<Rightarrow> (r\<lparr>rt_cache := Some n1\<rparr>, w1, None)
           | (n1, w1, Inr object) \<Rightarrow> (r\<lparr>rt_cache := Some n1\<rparr>, w1, Some object)))"

definition publish_page :: "'w env \<Rightarrow> gostring \<Rightarrow> ParsedPage \<Rightarrow> sync_runtime \<Rightarrow> sync_runtime" where
  "publish_page E tid p r =
     (case MarshalPage E p of
        None \<Rightarrow> r
      | Some payload \<Rightarrow>
          fst (Runtime_PutLocal (EnPrims E) (EnJson E) (EnPut E) (EnPublishes E) r
            (NewObject (EnPrims E) ThreadPageSnapshot (str ''flashback'') (tid @ str '':1'') (EnAfter E) payload OriginVerified)))"

definition posts_msg :: "gostring \<Rightarrow> gostring \<Rightarrow> ParsedPage \<Rightarrow> dataMsg" where
  "posts_msg tid title p =
     (msg ''posts'')\<lparr>MgPosts := PgPosts p, MgThreadID := tid, MgThreadTitle := firstNonEmpty [PgTitle p, title], MgPage := 1, MgPageCount := PgMaxPage p\<rparr>"

definition loadPosts :: "'w env \<Rightarrow> gostring \<Rightarrow> 'w reader \<Rightarrow> 'w reader \<times> dataMsg" where
  "loadPosts E tid s =
     (let c = RdCache s;
          row = (if EnIo E ReadThread then map_of (cthreads c) tid else None);
          threadTitle = (case row of None \<Rightarrow> [] | Some r \<Rightarrow> TrTitle r);
          pageCount = (case row of None \<Rightarrow> 0 | Some r \<Rightarrow> TrPages r);
          threadURL = (case row of None \<Rightarrow> [] | Some r \<Rightarrow> TrURL r);
          out = (if EnIo E ReadPosts then PostsOf (EnDriver E) tid c else []);
          save = (\<lambda>p. fst (SavePage (EnIo E SaveRows) (EnSaved E) p c)) in
      if out \<noteq> [] then
        (s, (msg ''posts'')\<lparr>MgPosts := out, MgThreadID := tid, MgThreadTitle := threadTitle, MgPage := 1, MgPageCount := pageCount,
           MgRefresh := pageCount < 1, MgRefreshURL := threadURL\<rparr>)
      else case Client_Thread (EnWeb E) tid 1 (RdWorld s) of
        (Inr p, w) \<Rightarrow> (s\<lparr>RdCache := save p, RdMesh := map_option (publish_page E tid p) (RdMesh s), RdWorld := w\<rparr>, posts_msg tid threadTitle p)
      | (Inl e, w) \<Rightarrow>
          let no = (failed ''posts'' (LoadClient e))\<lparr>MgThreadID := tid, MgThreadTitle := threadTitle\<rparr> in
          (case RdMesh s of
             None \<Rightarrow> (s\<lparr>RdWorld := w\<rparr>, no)
           | Some r \<Rightarrow>
               (case Runtime_GetResource E r (str ''flashback'') (tid @ str '':1'') ThreadPageSnapshot w of
                  (r1, w1, None) \<Rightarrow> (s\<lparr>RdMesh := Some r1, RdWorld := w1\<rparr>, no)
                | (r1, w1, Some object) \<Rightarrow>
                    (case UnmarshalPage E (ObjPayload object) of
                       None \<Rightarrow> (s\<lparr>RdMesh := Some r1, RdWorld := w1\<rparr>, no)
                     | Some p \<Rightarrow> (s\<lparr>RdCache := save p, RdMesh := Some r1, RdWorld := w1\<rparr>, posts_msg tid threadTitle p)))))"

definition loadThreadPage :: "'w env \<Rightarrow> gostring \<Rightarrow> int \<Rightarrow> 'w reader \<Rightarrow> 'w reader \<times> dataMsg" where
  "loadThreadPage E tid page s =
     (case Client_Thread (EnWeb E) tid page (RdWorld s) of
        (Inl e, w) \<Rightarrow> (s\<lparr>RdWorld := w\<rparr>, (failed ''posts'' (LoadClient e))\<lparr>MgThreadID := tid, MgPage := page\<rparr>)
      | (Inr parsed, w) \<Rightarrow>
          (case SavePage (EnIo E SaveRows) (EnSaved E) parsed (RdCache s) of
             (c1, Inl e) \<Rightarrow> (s\<lparr>RdCache := c1, RdWorld := w\<rparr>, (failed ''posts'' (LoadCache e))\<lparr>MgThreadID := tid, MgPage := page\<rparr>)
           | (c1, Inr _) \<Rightarrow>
               (s\<lparr>RdCache := c1, RdWorld := w\<rparr>,
                (msg ''posts'')\<lparr>MgPosts := PgPosts parsed, MgThreadID := tid, MgPage := page, MgPageCount := PgMaxPage parsed, MgThreadTitle := PgTitle parsed\<rparr>)))"

section \<open>All commands\<close>

datatype load_cmd =
    LoadRoot
  | LoadChildren "ForumNode list"
  | LoadForumChildren ForumNode
  | RefreshNavigation gostring
  | RefreshForum gostring gostring
  | LoadForum ForumNode
  | RefreshThreads gostring gostring int
  | LoadPosts gostring
  | LoadThreadPage gostring int

fun load :: "'w env \<Rightarrow> load_cmd \<Rightarrow> 'w reader \<Rightarrow> 'w reader \<times> dataMsg" where
  "load E LoadRoot s = loadRoot E s"
| "load E (LoadChildren stack) s = loadChildren E stack s"
| "load E (LoadForumChildren n) s = loadForumChildren E n s"
| "load E (RefreshNavigation u) s = refreshNavigation E u s"
| "load E (RefreshForum u parent) s = refreshForumNavigation E u parent s"
| "load E (LoadForum n) s = loadForum E n s"
| "load E (RefreshThreads u forumID page) s = refreshThreads E u forumID page s"
| "load E (LoadPosts tid) s = loadPosts E tid s"
| "load E (LoadThreadPage tid page) s = loadThreadPage E tid page s"

text \<open>What a save leaves, whether it succeeds or not.\<close>

lemma ok_SaveForums: "cache_ok c \<Longrightarrow> cache_ok (fst (SaveForums io now ns c))"
  using cache_ok_step [of c undefined undefined "OpForums io now ns"] by simp

lemma ok_Replace: "cache_ok c \<Longrightarrow> cache_ok (fst (ReplaceForumSnapshot io now ns c))"
  using cache_ok_step [of c undefined undefined "OpSnapshot io now ns"] by simp

lemma ok_SaveThreads: "cache_ok c \<Longrightarrow> cache_ok (fst (SaveThreads io now f rows c))"
  using cache_ok_step [of c undefined undefined "OpThreads io now f rows"] by simp

lemma ok_SavePage: "cache_ok c \<Longrightarrow> cache_ok (fst (SavePage io now p c))"
  using cache_ok_step [of c undefined undefined "OpPage io now p"] by simp

lemma ok_synced: "cache_ok (synced E source c) = cache_ok c"
  by (simp add: synced_def cache_ok_sync)

lemmas ok_saves = ok_SaveForums ok_Replace ok_SaveThreads ok_SavePage ok_synced

lemma ok_pair: "cache_ok (fst x) \<Longrightarrow> x = (c1, r) \<Longrightarrow> cache_ok c1"
  by simp

lemma load_cache_ok: "cache_ok (RdCache s) \<Longrightarrow> cache_ok (RdCache (fst (load E cmd s)))"
proof (induction E cmd s rule: load.induct)
  case (1 E s)
  then show ?case by (auto simp: loadRoot_def Let_def ok_saves split: sum.split prod.split)
next
  case (2 E stack s)
  then show ?case by (simp add: loadChildren_def Let_def)
next
  case (3 E n s)
  have r: "cache_ok (RdCache (fst (refreshCategoryNavigation E n s)))"
    unfolding refreshCategoryNavigation_def Let_def
    by (auto split: sum.split prod.split intro: 3 ok_pair [OF ok_Replace [OF 3]])
  show ?case
    by (auto simp: loadForumChildren_def Let_def r ok_saves 3 split: sum.split prod.split intro: ok_pair [OF ok_SaveThreads [OF 3]])
next
  case (4 E u s)
  then show ?case unfolding load.simps refreshNavigation_def
    by (auto simp: ok_synced split: sum.split prod.split intro: ok_pair [OF ok_Replace [OF 4]])
next
  case (5 E u parent s)
  then show ?case unfolding load.simps refreshForumNavigation_def Let_def
    by (auto simp: ok_synced split: sum.split prod.split intro: ok_pair [OF ok_SaveForums [OF 5]])
next
  case (6 E n s)
  then show ?case by (auto simp: loadForum_def Let_def ok_saves split: sum.split prod.split)
next
  case (7 E u f page s)
  then show ?case unfolding load.simps refreshThreads_def Let_def
    by (auto simp: ok_synced split: sum.split prod.split intro: ok_pair [OF ok_SaveThreads [OF 7]])
next
  case (8 E tid s)
  then show ?case by (auto simp: loadPosts_def Let_def ok_saves split: sum.split prod.split option.split)
next
  case (9 E tid page s)
  then show ?case unfolding load.simps loadThreadPage_def
    by (auto split: sum.split prod.split intro: ok_pair [OF ok_SavePage [OF 9]])
qed

interpretation readerrun: run_invariant "\<lambda>s (E, cmd). fst (load E cmd s)" "\<lambda>s. cache_ok (RdCache s)"
  by unfold_locales (auto simp: load_cache_ok)

section \<open>Properties\<close>

text \<open>
  The views never corrupt the cache. Whatever sequence of loads and refreshes the views issue, against any answers of
  the forum and the mesh and any database faults, the cache stays consistent: unique keys and addresses, listings of
  known forums and threads only, and one search entry for each post.
\<close>

theorem reader_cache_consistent:
  assumes "cache_ok (RdCache s)" "s' = foldl (\<lambda>s (E, cmd). fst (load E cmd s)) s cmds"
  shows "cache_ok (RdCache s')"
  unfolding assms(2) by (rule readerrun.run_inv) (rule assms(1))

text \<open>A save that reports an error left the cache alone.\<close>

lemma unsaved:
  "SaveForums io now ns c = (c1, Inl e) \<Longrightarrow> c1 = c" "ReplaceForumSnapshot io now ns c = (c1, Inl e) \<Longrightarrow> c1 = c"
  "SaveThreads io now f rows c = (c1, Inl e) \<Longrightarrow> c1 = c" "SavePage io now p c = (c1, Inl e) \<Longrightarrow> c1 = c"
  by (auto simp: SaveForums_def ReplaceForumSnapshot_def SaveThreads_def SavePage_def transaction_def split: if_splits option.splits)


text \<open>
  A category of the forum's map is never requested from the forum. It has no page of its own; opening
  one, whatever is cached, makes no request at all as long as the built-in map of the forum can be read.
\<close>

theorem category_not_requested:
  assumes "\<not> FBrowsable n" "NormalizeURL (WebURL (EnWeb E)) BaseURL BaseURL = BaseURL"
    and "ParseSitemapNavigation (EnWeb E) (embeddedSitemap (EnWeb E)) sitemapSourceURL = Inr nodes" "nodes \<noteq> []"
  shows "RdWorld (fst (loadForumChildren E n s)) = RdWorld s"
proof -
  have f: "Client_Forum (EnWeb E) BaseURL w = (Inr nodes, w)" for w using assms(2-4) by (simp add: Client_Forum_def Let_def)
  have "RdWorld (fst (refreshCategoryNavigation E n s)) = RdWorld s"
    by (auto simp: refreshCategoryNavigation_def f Let_def split: sum.split prod.split)
  then show ?thesis using assms(1) by (simp add: loadForumChildren_def Let_def isCategory_def)
qed

text \<open>
  A thread that was opened is not readable without the forum. After its first page has been fetched and
  saved, its posts are in the cache; but opening the thread again asks the forum once more, and when that fails and
  there is no mesh, the answer is an error without posts.
\<close>

theorem cached_thread_unreadable:
  assumes "text_columns (EnDriver E)" "text_columns (EnDriver E')" "Client_Thread (EnWeb E) tid 1 (RdWorld s) = (Inr pg, w)"
    and "snd (SavePage (EnIo E SaveRows) (EnSaved E) pg (RdCache s)) = Inr ()" "distinct (map PID (PgPosts pg))"
    and "p \<in> set (PgPosts pg)" "map_of (cposts (RdCache s)) (PID p) = None" "RdMesh s = None"
    and "s1 = fst (loadPosts E tid s)" "Client_Thread (EnWeb E') tid 1 w = (Inl e, w')"
  shows "(\<exists>r. map_of (cposts (RdCache s1)) (PID p) = Some r \<and> PoThread r = PThreadID p \<and> PoAuthor r = PAuthor p \<and> PoText r = PText p) \<and>
    RdWorld (fst (loadPosts E' tid s1)) = w' \<and> MgErr (snd (loadPosts E' tid s1)) = Some (LoadClient e) \<and>
    MgPosts (snd (loadPosts E' tid s1)) = []"
proof -
  let ?c1 = "fst (SavePage (EnIo E SaveRows) (EnSaved E) pg (RdCache s))"
  note none = text_posts [OF assms(1)] text_posts [OF assms(2)]
  have s1: "RdCache s1 = ?c1" "RdMesh s1 = None" "RdWorld s1 = w"
    using assms(3,8,9) none by (simp_all add: loadPosts_def Let_def)
  have save: "SavePage (EnIo E SaveRows) (EnSaved E) pg (RdCache s) = (?c1, Inr ())" using assms(4) by (metis prod.collapse)
  have "\<exists>r. map_of (cposts ?c1) (PID p) = Some r \<and> PoThread r = PThreadID p \<and> PoAuthor r = PAuthor p \<and> PoText r = PText p"
    using cached_posts_unreadable [OF assms(1) save assms(5-7)] by blast
  then show ?thesis using s1 assms(10) none by (simp add: loadPosts_def failed_def msg_def Let_def)
qed

text \<open>A page that was published is in the node's store under its resource.\<close>

lemma published:
  assumes "publish_page E tid p r = r1" "MarshalPage E p = Some payload" "rt_store r" "rt_cache r = Some n" "NStore n = Some st"
    and "mesh_inv (EnPrims E) (EnJson E) st" "io_flt (EnPut E) = TmpOk"
    and "cacheable (EnPrims E) (EnJson E) (NewObject (EnPrims E) ThreadPageSnapshot (str ''flashback'') (tid @ str '':1'') (EnAfter E) payload OriginVerified)"
  shows "\<exists>st1. rt_cache r1 = Some (n\<lparr>NStore := Some st1\<rparr>) \<and> mesh_inv (EnPrims E) (EnJson E) st1 \<and>
    (\<forall>ordr. Find (EnPrims E) (EnJson E) ordr False st1 (str ''flashback'') (tid @ str '':1'') ThreadPageSnapshot =
      Inr (NewObject (EnPrims E) ThreadPageSnapshot (str ''flashback'') (tid @ str '':1'') (EnAfter E) payload OriginVerified))"
proof -
  let ?ob = "NewObject (EnPrims E) ThreadPageSnapshot (str ''flashback'') (tid @ str '':1'') (EnAfter E) payload OriginVerified"
  obtain st1 where put: "mesh_Put (EnPrims E) (EnJson E) (io_tmp (EnPut E)) TmpOk ?ob st = (st1, Inr ())"
    using mesh_Put_cacheable [OF assms(8)] by (metis prod.collapse)
  have js: "json_object ?ob" using assms(8) by (simp add: cacheable_def)
  have f: "mesh_inv (EnPrims E) (EnJson E) st1" "\<And>ordr. Find (EnPrims E) (EnJson E) ordr False st1 (str ''flashback'') (tid @ str '':1'') ThreadPageSnapshot = Inr ?ob"
    using mesh_Put_found [OF assms(6) js put] by (simp_all add: NewObject_def)
  have "rt_cache r1 = Some (n\<lparr>NStore := Some st1\<rparr>)"
    using assms(1-5,7) put by (auto simp: publish_page_def Runtime_PutLocal_def PutLocal_def)
  then show ?thesis using f by blast
qed

text \<open>A peer that has the resource gives it.\<close>

lemma fetched_from:
  assumes "NStore a = Some sa" "DenyGet a = False" "Find P J (io_order ioa) False sa src rid ty = Inr ob" "io_rd ioa = False"
    and "mesh_inv P J sb" "io_flt iob = TmpOk" "json_object ob" "MarshalObject J ob = Some body"
    and "cacheable P J (ob\<lparr>ObjProvenance := PeerOnly\<rparr>)" "ObjSource ob = src" "ObjResourceID ob = rid" "ObjType ob = ty"
  shows "\<exists>sb1. fetchResource P J iob (Some (HandlerTransport (Some (\<lambda>m a. Serve P J ioa a m)))) src rid ty sb a =
    (sb1, a, Inr (ob\<lparr>ObjProvenance := PeerOnly\<rparr>))"
proof -
  let ?pr = "HandlerTransport (Some (\<lambda>m a. Serve P J ioa a m))"
  let ?m = "no_message\<lparr>MType := MGet, MSource := src, MResourceID := rid, MObjectType := ty\<rparr>"
  have "Serve P J ioa a ?m = (a, no_message\<lparr>MType := MObject, MHash := HashString ob, MBody := body\<rparr>, None)"
    using assms(1-4,8) by (simp add: Serve_def MHave_def MGet_def str_def no_message_def)
  then have req: "?pr ?m a = (Inr (no_message\<lparr>MType := MObject, MHash := HashString ob, MBody := body\<rparr>), a)"
    by (simp add: HandlerTransport_def)
  have u: "UnmarshalObject J body = Some ob" using assms(5,7,8) by (intro json_written) (simp_all add: mesh_inv_def)
  obtain sb1 where put: "mesh_Put P J (io_tmp iob) TmpOk (ob\<lparr>ObjProvenance := PeerOnly\<rparr>) sb = (sb1, Inr ())"
    using mesh_Put_cacheable [OF assms(9)] by (metis prod.collapse)
  have "acceptPeerObject P J iob sb (no_message\<lparr>MType := MObject, MHash := HashString ob, MBody := body\<rparr>) [] src rid ty =
      (sb1, Inr (ob\<lparr>ObjProvenance := PeerOnly\<rparr>))"
    using u put assms(6,10-12) by (simp add: acceptPeerObject_def)
  then show ?thesis using req by (simp add: fetchResource_def)
qed

text \<open>
  C25. A thread opened by one user opens for another when the forum is down. A reader that fetches the first page of
  a thread publishes it to its mesh node; a second reader without the page, whose forum cannot be reached
  and whose peer is that node, shows the same posts without an error, and saves them in its own cache.
\<close>

theorem thread_shared_by_mesh:
  assumes "PostsOf (EnDriver A) tid (RdCache s) = []" "Client_Thread (EnWeb A) tid 1 (RdWorld s) = (Inr pg, w)"
    and "RdMesh s = Some r" "rt_store r" "rt_cache r = Some n" "NStore n = Some st" "DenyGet n = False" "mesh_inv P J st"
    and "EnPrims A = P" "EnJson A = J" "io_flt (EnPut A) = TmpOk" "MarshalPage A pg = Some payload"
    and "ob = NewObject P ThreadPageSnapshot (str ''flashback'') (tid @ str '':1'') (EnAfter A) payload OriginVerified"
    and "cacheable P J ob" "cacheable P J (ob\<lparr>ObjProvenance := PeerOnly\<rparr>)"
    and "Some n1 = rt_cache (the (RdMesh (fst (loadPosts A tid s))))"
    and "RdWorld t = n1" "RdMesh t = Some rb" "rt_cache rb = Some nb" "NStore nb = Some sb" "mesh_inv P J sb"
    and "PostsOf (EnDriver B) tid (RdCache t) = []" "Client_Thread (EnWeb B) tid 1 n1 = (Inl e, n1)"
    and "EnPrims B = P" "EnJson B = J" "EnRunning B" "io_flt (EnFind B) = TmpOk" "io_rd ioa = False"
    and "EnPeer B = Some (HandlerTransport (Some (\<lambda>m a. Serve P J ioa a m)))" "UnmarshalPage B payload = Some pg"
    and "Find P J (io_order (EnFind B)) (io_rd (EnFind B)) sb (str ''flashback'') (tid @ str '':1'') ThreadPageSnapshot = Inl e1"
  shows "MgErr (snd (loadPosts B tid t)) = None \<and> MgPosts (snd (loadPosts B tid t)) = PgPosts pg \<and>
    RdCache (fst (loadPosts B tid t)) = fst (SavePage (EnIo B SaveRows) (EnSaved B) pg (RdCache t))"
proof -
  have a: "RdMesh (fst (loadPosts A tid s)) = Some (publish_page A tid pg r)" using assms(1-3) by (simp add: loadPosts_def Let_def)
  have inv: "mesh_inv (EnPrims A) (EnJson A) st" using assms(8-10) by simp
  have c: "cacheable (EnPrims A) (EnJson A)
      (NewObject (EnPrims A) ThreadPageSnapshot (str ''flashback'') (tid @ str '':1'') (EnAfter A) payload OriginVerified)"
    using assms(9,10,13,14) by simp
  obtain st1 where st1: "rt_cache (publish_page A tid pg r) = Some (n\<lparr>NStore := Some st1\<rparr>)"
      "\<And>ordr. Find P J ordr False st1 (str ''flashback'') (tid @ str '':1'') ThreadPageSnapshot = Inr ob"
    using published [OF refl assms(12,4-6) inv assms(11) c] unfolding assms(9,10) assms(13) [symmetric] by blast
  then have n1: "NStore n1 = Some st1" "DenyGet n1 = False" using a assms(7,16) by simp_all
  have ob: "ObjSource ob = str ''flashback''" "ObjResourceID ob = tid @ str '':1''" "ObjType ob = ThreadPageSnapshot" "ObjPayload ob = payload"
    using assms(13) by (simp_all add: NewObject_def)
  obtain body where body: "json_object ob" "MarshalObject J ob = Some body" using assms(14) by (auto simp: cacheable_def)
  obtain sb1 where sb1: "fetchResource P J (EnFind B) (EnPeer B) (str ''flashback'') (tid @ str '':1'') ThreadPageSnapshot sb n1 =
      (sb1, n1, Inr (ob\<lparr>ObjProvenance := PeerOnly\<rparr>))"
    using fetched_from [OF n1 st1(2) assms(28,21,27) body assms(15) ob(1-3)] assms(29) by auto
  have "Runtime_GetResource B rb (str ''flashback'') (tid @ str '':1'') ThreadPageSnapshot n1 =
      (rb\<lparr>rt_cache := Some (nb\<lparr>NStore := Some sb1\<rparr>)\<rparr>, n1, Some (ob\<lparr>ObjProvenance := PeerOnly\<rparr>))"
    using assms(19,20,24-26,31) sb1 by (simp add: Runtime_GetResource_def GetResource_def)
  then show ?thesis
    using assms(17,18,22,23,30) ob(4) by (simp add: loadPosts_def posts_msg_def msg_def Let_def)
qed

text \<open>
  C26. What the mesh fallback shows comes from a verified object. When the forum fails and posts are shown all
  the same, they are decoded from the payload of a valid object, whose hash is that of its payload, and either the local
  index has it under the thread's resource, or the peer gave it under exactly that resource and
  it is marked as the word of a peer.
\<close>

theorem fallback_verified:
  assumes "PostsOf (EnDriver E) tid (RdCache s) = []" "Client_Thread (EnWeb E) tid 1 (RdWorld s) = (Inl e, w)"
    and "RdMesh s = Some r" "rt_cache r = Some n" "NStore n = Some st" "mesh_inv (EnPrims E) (EnJson E) st" "\<not> io_rd (EnFind E)"
    and "loadPosts E tid s = (s1, m)" "MgErr m = None"
  shows "\<exists>ob p. object_Validate (EnPrims E) ob = Inr () \<and> ObjHash ob = sha256 (EnPrims E) (ObjPayload ob) \<and>
    UnmarshalPage E (ObjPayload ob) = Some p \<and> MgPosts m = PgPosts p \<and>
    (found (EnPrims E) (EnJson E) st (resourceKey (str ''flashback'') (tid @ str '':1'') ThreadPageSnapshot) = Some ob \<or>
     ObjSource ob = str ''flashback'' \<and> ObjResourceID ob = tid @ str '':1'' \<and> ObjType ob = ThreadPageSnapshot \<and> ObjProvenance ob = PeerOnly)"
proof -
  let ?g = "Runtime_GetResource E r (str ''flashback'') (tid @ str '':1'') ThreadPageSnapshot w"
  obtain r1 w1 o1 where g1: "?g = (r1, w1, o1)" by (cases ?g)
  have m: "m = snd (loadPosts E tid s)" using assms(8) by simp
  have "o1 \<noteq> None"
  proof
    assume "o1 = None"
    then have "MgErr (snd (loadPosts E tid s)) \<noteq> None" using assms(1-3) g1 by (simp add: loadPosts_def failed_def msg_def Let_def)
    then show False using assms(9) m by simp
  qed
  then obtain ob where ob: "o1 = Some ob" by auto
  have "UnmarshalPage E (ObjPayload ob) \<noteq> None"
  proof
    assume "UnmarshalPage E (ObjPayload ob) = None"
    then have "MgErr (snd (loadPosts E tid s)) \<noteq> None" using assms(1-3) g1 ob by (simp add: loadPosts_def failed_def msg_def Let_def)
    then show False using assms(9) m by simp
  qed
  then obtain p where p: "UnmarshalPage E (ObjPayload ob) = Some p" by auto
  have "MgPosts m = PgPosts p" using assms(1-3) g1 ob p by (simp add: m loadPosts_def posts_msg_def msg_def Let_def)
  then have g: "?g = (r1, w1, Some ob)" "UnmarshalPage E (ObjPayload ob) = Some p" "MgPosts m = PgPosts p"
    using g1 ob p by simp_all
  then obtain n1 where g2: "GetResource (EnPrims E) (EnJson E) (EnFind E) (EnPeer E) (str ''flashback'') (tid @ str '':1'') ThreadPageSnapshot n w = (n1, w1, Inr ob)"
    using assms(4) by (auto simp: Runtime_GetResource_def split: if_splits prod.splits sum.splits)
  have ty: "ThreadPageSnapshot \<noteq> []" by (simp add: ThreadPageSnapshot_def str_def)
  note ff = Find_found [OF assms(6) ty, of "io_order (EnFind E)" "str ''flashback''" "tid @ str '':1''"]
  consider (here) "found (EnPrims E) (EnJson E) st (resourceKey (str ''flashback'') (tid @ str '':1'') ThreadPageSnapshot) = Some ob"
    | (peer) st1 where "fetchResource (EnPrims E) (EnJson E) (EnFind E) (EnPeer E) (str ''flashback'') (tid @ str '':1'') ThreadPageSnapshot st w = (st1, w1, Inr ob)"
    using g2 assms(5,7) ff by (auto simp: GetResource_def split: sum.splits prod.splits option.splits)
  then have "object_Validate (EnPrims E) ob = Inr () \<and>
    (found (EnPrims E) (EnJson E) st (resourceKey (str ''flashback'') (tid @ str '':1'') ThreadPageSnapshot) = Some ob \<or>
     ObjSource ob = str ''flashback'' \<and> ObjResourceID ob = tid @ str '':1'' \<and> ObjType ob = ThreadPageSnapshot \<and> ObjProvenance ob = PeerOnly)"
  proof cases
    case here
    then obtain h where "mesh_Get (EnPrims E) (EnJson E) False st h = Inr ob" by (auto simp: found_def look_Some split: option.splits)
    then show ?thesis using here mesh_Get_Inr by blast
  next
    case (peer st1)
    then show ?thesis using fetchResource_matches [OF assms(6) peer] by (simp add: str_def)
  qed
  then show ?thesis using g(2,3) by (auto simp: object_Validate_iff)
qed

text \<open>
  The identifier inside a page that a peer sent is not compared with the thread that was asked for: the page
  is saved under whatever thread it names.
\<close>

theorem peer_page_saved_unchecked:
  assumes "PostsOf (EnDriver E) tid (RdCache s) = []" "Client_Thread (EnWeb E) tid 1 (RdWorld s) = (Inl e, w)"
    and "RdMesh s = Some r" "Runtime_GetResource E r (str ''flashback'') (tid @ str '':1'') ThreadPageSnapshot w = (r1, w1, Some ob)"
    and "UnmarshalPage E (ObjPayload ob) = Some p"
    and "SavePage (EnIo E SaveRows) (EnSaved E) p (RdCache s) = (c1, Inr ())"
  shows "RdCache (fst (loadPosts E tid s)) = c1 \<and> MgErr (snd (loadPosts E tid s)) = None \<and> MgThreadID (snd (loadPosts E tid s)) = tid"
  using assms by (simp add: loadPosts_def posts_msg_def msg_def Let_def)

text \<open>
  The outcome of saving a fetched listing is not looked at: for a forum the cache does not know, nothing is saved, and the
  forum's threads count as synchronised all the same.
\<close>

theorem unsaved_listing_synced:
  assumes "listing (FID n) (RdCache s) = []" "Client_Threads (EnWeb E) n (RdWorld s) = (Inr rows, w)"
    and "map_of (cforums (RdCache s)) (FID n) = None" "list_ex (\<lambda>r. TrimSpace (TTitle r) \<noteq> []) rows" "EnIo E SaveSync"
  shows "cthreads (RdCache (fst (loadForum E n s))) = cthreads (RdCache s) \<and>
    map_of (csync (RdCache (fst (loadForum E n s)))) (threadsSource (FID n)) = Some \<lparr>SyAt = EnAfter E, SyStatus = str ''ok''\<rparr>"
proof -
  have "SaveThreads (EnIo E SaveRows) (EnSaved E) (FID n) rows (RdCache s) = (RdCache s, Inl (if EnIo E SaveRows then ErrConstraint else ErrCache))"
    using save_threads_refused [OF assms(3,4)] by (simp add: SaveThreads_def transaction_def)
  then show ?thesis using assms(1,2,5) by (simp add: loadForum_def synced_def SetExternalSyncState_def Let_def update_conv)
qed

section \<open>Concrete runs\<close>

text \<open>A forum whose requests are counted, one that is down, and an environment over either.\<close>

definition sample_web :: "(gostring \<Rightarrow> 'w \<Rightarrow> (gostring + http_response) \<times> 'w) \<Rightarrow> 'w web" where
  "sample_web h = \<lparr>HttpDo = h, ParseNavigation = (\<lambda>b u. Inr []), ParseSitemapNavigation = (\<lambda>b u. Inr [sample_forum]),
     ParseThreadListing = (\<lambda>b u f. Inr [sample_thread 65]), ParseThreadPage = (\<lambda>b u t p. Inr sample_page), embeddedSitemap = [],
     WebURL = demo_net_url, WebBase = BaseURL\<rparr>"

definition site_up :: "gostring \<Rightarrow> 'w \<Rightarrow> (gostring + http_response) \<times> 'w" where
  "site_up u w = (Inr \<lparr>StatusCode = 200, ReadAll = Some []\<rparr>, w)"

definition site_down :: "gostring \<Rightarrow> 'w \<Rightarrow> (gostring + http_response) \<times> 'w" where
  "site_down u w = (Inl [], w)"

definition site_counted :: "gostring \<Rightarrow> nat \<Rightarrow> (gostring + http_response) \<times> nat" where
  "site_counted u w = (Inl [], w + 1)"

definition sample_env :: "'w web \<Rightarrow> 'w peer option \<Rightarrow> 'w env" where
  "sample_env W pr = \<lparr>EnWeb = W, EnDriver = sample_driver, EnIo = (\<lambda>_. True), EnRead = 1, EnSaved = 2, EnAfter = 0, EnPrims = demo_prims,
     EnJson = demo_object_json, EnPut = demo_io, EnFind = demo_io, EnPublishes = False, EnPeer = pr, EnRunning = True,
     MarshalPage = (\<lambda>p. Some [1]), UnmarshalPage = (\<lambda>b. Some sample_page)\<rparr>"

definition reader_at :: "Node \<Rightarrow> 'w \<Rightarrow> 'w reader" where
  "reader_at n w = \<lparr>RdCache = empty_cache, RdMesh = Some \<lparr>rt_store = True, rt_cache = Some n\<rparr>, RdWorld = w\<rparr>"

lemma sample_env_simps [simp]:
  "EnWeb (sample_env W pr) = W" "EnDriver (sample_env W pr) = sample_driver" "EnIo (sample_env W pr) = (\<lambda>_. True)"
  "EnPrims (sample_env W pr) = demo_prims" "EnJson (sample_env W pr) = demo_object_json" "EnPut (sample_env W pr) = demo_io"
  "EnFind (sample_env W pr) = demo_io" "EnPeer (sample_env W pr) = pr" "EnRunning (sample_env W pr) = True"
  "MarshalPage (sample_env W pr) p = Some [1]" "UnmarshalPage (sample_env W pr) b = Some sample_page"
  "EnSaved (sample_env W pr) = 2" "EnAfter (sample_env W pr) = 0"
  by (simp_all add: sample_env_def)

lemma up_thread [simp]: "Client_Thread (sample_web site_up) tid 1 w = (Inr sample_page, w)"
  by (simp add: Client_Thread_def fetch_parse_def Client_Fetch_def sample_web_def site_up_def html_def Let_def)

lemma down_thread [simp]: "Client_Thread (sample_web site_down) tid 1 w = (Inl (ErrHttp []), w)"
  by (simp add: Client_Thread_def fetch_parse_def Client_Fetch_def sample_web_def site_down_def Let_def)

lemma no_posts [simp]: "PostsOf D tid empty_cache = []"
  by (simp add: PostsOf_def empty_cache_def List.map_filter_def)

lemma sample_saved: "snd (SavePage True 2 sample_page empty_cache) = Inr ()"
  by (simp add: SavePage_def transaction_def save_page_thread_def save_post_def sample_page_def taken_def empty_cache_def)

theorem reader_cache_consistent_witness:
  "cache_ok (RdCache (foldl (\<lambda>s (E, cmd). fst (load E cmd s)) (reader_at demo_empty ())
     [(sample_env (sample_web site_up) None, LoadPosts [65]), (sample_env (sample_web site_down) None, LoadRoot)]))"
  by (rule reader_cache_consistent [OF _ refl]) (simp add: reader_at_def cache_ok_empty)


theorem category_not_requested_witness:
  "RdWorld (fst (loadForumChildren (sample_env (sample_web site_counted) None) (sample_forum\<lparr>FBrowsable := False\<rparr>) (reader_at demo_empty 0))) = 0"
proof -
  have "NormalizeURL demo_net_url BaseURL BaseURL = BaseURL" by code_simp
  then show ?thesis
    using category_not_requested [of "sample_forum\<lparr>FBrowsable := False\<rparr>" "sample_env (sample_web site_counted) None" "[sample_forum]" "reader_at demo_empty 0"]
    by (simp add: sample_web_def reader_at_def)
qed

theorem cached_thread_unreadable_witness:
  "let s1 = fst (loadPosts (sample_env (sample_web site_up) None) [65] ((reader_at demo_empty ())\<lparr>RdMesh := None\<rparr>));
       m = snd (loadPosts (sample_env (sample_web site_down) None) [65] s1)
   in map_of (cposts (RdCache s1)) [50] \<noteq> None \<and> MgErr m \<noteq> None \<and> MgPosts m = []"
proof -
  let ?s = "(reader_at demo_empty ())\<lparr>RdMesh := None\<rparr>"
  have c: "RdCache ?s = empty_cache" by (simp add: reader_at_def)
  have "distinct (map PID (PgPosts sample_page))" "sample_post \<in> set (PgPosts sample_page)"
    "map_of (cposts (RdCache ?s)) (PID sample_post) = None" "RdMesh ?s = None"
    by (simp_all add: sample_defs c empty_cache_def)
  note h = this
  show ?thesis
    using cached_thread_unreadable [OF _ _ _ _ h refl, where E = "sample_env (sample_web site_up) None" and tid = "[65]" and w = "()" and
        E' = "sample_env (sample_web site_down) None"]
    by (auto simp: c sample_saved sample_post_def Let_def)
qed

definition sample_object :: CacheObject where
  "sample_object = NewObject demo_prims ThreadPageSnapshot (str ''flashback'') ([65] @ str '':1'') 0 [1] OriginVerified"

lemma sample_cacheable: "cacheable demo_prims demo_object_json sample_object"
  "cacheable demo_prims demo_object_json (sample_object\<lparr>ObjProvenance := PeerOnly\<rparr>)"
  using demo_sizes_ok
  by (auto simp: cacheable_def sample_object_def NewObject_def object_Validate_def json_object_def demo_object_json_def
      sizes_ok_def ThreadPageSnapshot_def OriginVerified_def PeerOnly_def str_def intro!: ValidString_ascii)

lemma sample_object_here: "NewObject demo_prims ThreadPageSnapshot (str ''flashback'') (65 # str '':1'') 0 [1] OriginVerified = sample_object"
  by (simp add: sample_object_def)

lemma sample_put:
  obtains st1 where "mesh_Put demo_prims demo_object_json [] TmpOk sample_object demo_store = (st1, Inr ())" "mesh_inv demo_prims demo_object_json st1"
    "\<And>ordr. Find demo_prims demo_object_json ordr False st1 (str ''flashback'') ([65] @ str '':1'') ThreadPageSnapshot = Inr sample_object"
proof -
  obtain st1 where st1: "mesh_Put demo_prims demo_object_json [] TmpOk sample_object demo_store = (st1, Inr ())"
    using mesh_Put_cacheable [OF sample_cacheable(1)] by (metis prod.collapse)
  have "json_object sample_object" using sample_cacheable(1) by (simp add: cacheable_def)
  note f = mesh_Put_found [OF demo_store_inv this st1]
  have "ObjSource sample_object = str ''flashback''" "ObjResourceID sample_object = [65] @ str '':1''" "ObjType sample_object = ThreadPageSnapshot"
    by (simp_all add: sample_object_def NewObject_def)
  then have "\<And>ordr. Find demo_prims demo_object_json ordr False st1 (str ''flashback'') ([65] @ str '':1'') ThreadPageSnapshot = Inr sample_object"
    using f by simp
  then show thesis using that st1 f by blast
qed

lemma empty_find: "Find P J ordr rd demo_store src rid ThreadPageSnapshot = Inl ErrNotExist"
  by (simp add: Find_def demo_store_def ThreadPageSnapshot_def str_def)

text \<open>The second reader's world is the first reader's node.\<close>

definition node_after :: "Node" where
  "node_after = the (rt_cache (the (RdMesh (fst (loadPosts (sample_env (sample_web site_up) (None :: unit peer option)) [65] (reader_at demo_empty ()))))))"

theorem thread_shared_by_mesh_witness:
  "let m = snd (loadPosts (sample_env (sample_web site_down) (Some (HandlerTransport (Some (\<lambda>m a. Serve demo_prims demo_object_json demo_io a m)))))
      [65] (reader_at demo_empty node_after))
   in MgErr m = None \<and> MgPosts m = [sample_post]"
proof -
  let ?A = "sample_env (sample_web site_up) (None :: unit peer option)"
  let ?B = "sample_env (sample_web site_down) (Some (HandlerTransport (Some (\<lambda>m a. Serve demo_prims demo_object_json demo_io a m))))"
  let ?s = "reader_at demo_empty ()"
  let ?r = "\<lparr>rt_store = True, rt_cache = Some demo_empty\<rparr>"
  have n: "NStore demo_empty = Some demo_store" "DenyGet demo_empty = False" by (simp_all add: demo_empty_def)
  have a: "RdMesh (fst (loadPosts ?A [65] ?s)) = Some (publish_page ?A [65] sample_page ?r)"
    by (simp add: loadPosts_def reader_at_def Let_def)
  have ob: "sample_object = NewObject demo_prims ThreadPageSnapshot (str ''flashback'') ([65] @ str '':1'') (EnAfter ?A) [1] OriginVerified"
    by (simp add: sample_object_def)
  have "\<exists>st1. rt_cache (publish_page ?A [65] sample_page ?r) = Some (demo_empty\<lparr>NStore := Some st1\<rparr>)"
    using published [of ?A "[65]" sample_page ?r, OF refl, of "[1]" demo_empty demo_store] sample_cacheable(1) demo_store_inv n ob by auto
  then have na: "Some node_after = rt_cache (the (RdMesh (fst (loadPosts ?A [65] ?s))))" by (auto simp: node_after_def a)
  have "MgErr (snd (loadPosts ?B [65] (reader_at demo_empty node_after))) = None \<and>
      MgPosts (snd (loadPosts ?B [65] (reader_at demo_empty node_after))) = PgPosts sample_page \<and>
      RdCache (fst (loadPosts ?B [65] (reader_at demo_empty node_after))) = fst (SavePage (EnIo ?B SaveRows) (EnSaved ?B) sample_page (RdCache (reader_at demo_empty node_after)))"
    by (rule thread_shared_by_mesh [where A = ?A and s = ?s and r = ?r and n = demo_empty and st = demo_store and P = demo_prims and
          J = demo_object_json and payload = "[1]" and ob = sample_object and w = "()" and ?n1.0 = node_after and rb = ?r and nb = demo_empty and
          sb = demo_store and e = "ErrHttp []" and ioa = demo_io and ?e1.0 = ErrNotExist])
      (simp_all add: reader_at_def n na sample_object_here sample_cacheable demo_store_inv empty_find)
  then show ?thesis by (simp add: Let_def sample_page_def)
qed

theorem fallback_verified_witness:
  "\<exists>st1. (let m = snd (loadPosts (sample_env (sample_web site_down) None) [65] (reader_at \<lparr>NStore = Some st1, DenyGet = False\<rparr> ()))
     in \<exists>ob. object_Validate demo_prims ob = Inr () \<and> ObjHash ob = sha256 demo_prims (ObjPayload ob) \<and> MgPosts m = [sample_post])"
proof -
  let ?E = "sample_env (sample_web site_down) None"
  obtain st1 where st1: "mesh_inv demo_prims demo_object_json st1"
    "\<And>ordr. Find demo_prims demo_object_json ordr False st1 (str ''flashback'') ([65] @ str '':1'') ThreadPageSnapshot = Inr sample_object"
    using sample_put by metis
  let ?n = "\<lparr>NStore = Some st1, DenyGet = False\<rparr>"
  let ?r = "\<lparr>rt_store = True, rt_cache = Some ?n\<rparr>"
  let ?s = "reader_at ?n ()"
  have "Runtime_GetResource ?E ?r (str ''flashback'') ([65] @ str '':1'') ThreadPageSnapshot () = (?r, (), Some sample_object)"
    using st1(2) by (simp add: Runtime_GetResource_def GetResource_def)
  then have m: "MgErr (snd (loadPosts ?E [65] ?s)) = None" by (simp add: loadPosts_def reader_at_def posts_msg_def msg_def Let_def)
  have r: "RdMesh ?s = Some ?r" "rt_cache ?r = Some ?n" "NStore ?n = Some st1" by (simp_all add: reader_at_def)
  have "PostsOf (EnDriver ?E) [65] (RdCache ?s) = []" by (simp add: reader_at_def)
  note h = fallback_verified [where E = ?E and s = ?s and w = "()" and e = "ErrHttp []" and r = ?r and n = ?n and st = st1 and
      ?s1.0 = "fst (loadPosts ?E [65] ?s)" and m = "snd (loadPosts ?E [65] ?s)", OF this]
  have "\<exists>ob p. object_Validate demo_prims ob = Inr () \<and> ObjHash ob = sha256 demo_prims (ObjPayload ob) \<and>
      UnmarshalPage ?E (ObjPayload ob) = Some p \<and> MgPosts (snd (loadPosts ?E [65] ?s)) = PgPosts p"
    using h st1(1) m r by auto
  then obtain ob p where "object_Validate demo_prims ob = Inr ()" "ObjHash ob = sha256 demo_prims (ObjPayload ob)"
      "UnmarshalPage ?E (ObjPayload ob) = Some p" "MgPosts (snd (loadPosts ?E [65] ?s)) = PgPosts p" by blast
  moreover from this have "p = sample_page" by simp
  then have "PgPosts p = [sample_post]" by (simp add: sample_page_def)
  ultimately show ?thesis unfolding Let_def by (intro exI [of _ st1] exI [of _ ob] conjI) simp_all
qed

end
