(* ===== verification/Gandr_Tui.thy ===== *)
theory Gandr_Tui
  imports Gandr_Clientdb Gandr_Payloads Gandr_Ipc Gandr_Identity Go_Strings
begin

text \<open>
  \<^verbatim>\<open>pkg/tui/model.go\<close> and \<^verbatim>\<open>overlay.go\<close>: the state of the terminal client and what messages from the daemon, timers and the
  compose overlays do to it. An update returns the new model and the commands to run; a command is a value of
  \<open>ui_cmd\<close>, with the message texts of the source without the details of errors. A Go map is a function, with the zero value
  where it has no entry. An index or a slice that is out of range sets \<open>mpanic\<close>. Mouse zones, the texts of labels and the
  animation are left to the rendering; a rate of the traffic gauge is kept as the bytes of the interval it is computed from.

  The environment \<open>ui_env\<close> has the primitives, the codec, the time, the randomness, the outcome of each database call by its
  name, the sorting functions and \<^verbatim>\<open>strings.EqualFold\<close> outside ASCII. The package's theme variable is a field of the model.
\<close>

section \<open>The state\<close>

datatype Tab = TabMessages | TabPeople | TabFeed | TabForum | TabNetwork | TabSettings

datatype msgView = MsgViewChat | MsgViewSealed

datatype Overlay =
    OverlayNone | OverlayHelp | OverlayQuit | OverlayNick | OverlaySeal | OverlayGuestbook | OverlayPostNew | OverlayThreadNew
  | OverlayProfileEdit | OverlayPeerConnect

record ui_message =
  UId :: bytes
  USender :: bytes
  UContent :: gostring
  UAt :: instant

record feedPost =
  FpId :: bytes
  FpSender :: bytes
  FpContent :: gostring
  FpAt :: instant

record forumThread =
  FtId :: bytes
  FtSender :: bytes
  FtTitle :: gostring
  FtCategory :: gostring
  FtContent :: gostring
  FtAt :: instant
  FtRead :: bool

record gbEntry =
  GbFrom :: bytes
  GbMsg :: gostring
  GbAt :: instant

datatype ui_cmd =
    CmdSend Envelope string
  | CmdStatus string
  | CmdSubscribe bytes
  | CmdUnsubscribe bytes
  | CmdSetTrust bytes byte string
  | CmdConnect bytes
  | CmdRequestPeers nat
  | CmdListen nat
  | CmdWaitIncoming nat
  | CmdWaitDelivered nat
  | CmdWaitPeers nat
  | CmdSubscribeAll "bytes list"
  | CmdRetryTick
  | CmdPulseTick
  | CmdStatsTick
  | CmdReconnect
  | CmdQuit

record ui_theme =
  ThemeName :: gostring
  Fg1 :: gostring
  Fg2 :: gostring
  Fg3 :: gostring
  Fg4 :: gostring
  Fg5 :: gostring
  Dark :: gostring
  Dark2 :: gostring
  Accent :: gostring
  Bright :: gostring
  BGActive :: gostring

definition themes :: "ui_theme list" where
  "themes =
     [\<lparr>ThemeName = str ''classic'', Fg1 = str ''#00ff41'', Fg2 = str ''#00cc33'', Fg3 = str ''#009926'', Fg4 = str ''#006619'', Fg5 = str ''#004d14'',
        Dark = str ''#003300'', Dark2 = str ''#002200'', Accent = str ''#ffb000'', Bright = str ''#66ff88'', BGActive = str ''#001a00''\<rparr>,
      \<lparr>ThemeName = str ''midnight'', Fg1 = str ''#ffffff'', Fg2 = str ''#d8e0f0'', Fg3 = str ''#9aa8c0'', Fg4 = str ''#5a6b85'', Fg5 = str ''#3b4a63'',
        Dark = str ''#1c2840'', Dark2 = str ''#131c30'', Accent = str ''#00d7ff'', Bright = str ''#9be8ff'', BGActive = str ''#0a1530''\<rparr>,
      \<lparr>ThemeName = str ''paper'', Fg1 = str ''#000000'', Fg2 = str ''#1a1a1a'', Fg3 = str ''#404040'', Fg4 = str ''#6e6e6e'', Fg5 = str ''#8e8e8e'',
        Dark = str ''#c0b8a8'', Dark2 = str ''#d8d0c0'', Accent = str ''#8b0000'', Bright = str ''#5c1010'', BGActive = str ''#e8e0d0''\<rparr>,
      \<lparr>ThemeName = str ''ice'', Fg1 = str ''#ffffff'', Fg2 = str ''#dde4ea'', Fg3 = str ''#aab4be'', Fg4 = str ''#6e7a86'', Fg5 = str ''#4d565f'',
        Dark = str ''#2a3138'', Dark2 = str ''#1e2429'', Accent = str ''#4da6ff'', Bright = str ''#b3d9ff'', BGActive = str ''#16202a''\<rparr>]"

definition themeByName :: "gostring \<Rightarrow> ui_theme option" where
  "themeByName name = find (\<lambda>t. ThemeName t = name) themes"

record Model =
  mtheme :: ui_theme
  mcli :: nat
  mdb :: DB
  mid :: Identity
  mtab :: Tab
  showSidebar :: bool
  moverlay :: Overlay
  gateActive :: bool
  gateBtn :: nat
  gateView :: bool
  gateScroll :: int
  mview :: msgView
  peopleDetail :: bool
  settingsSec :: int
  settingsIn :: bool
  settingsItem :: int
  mwidth :: int
  mheight :: int
  inTotal :: "64 word"
  outTotal :: "64 word"
  lastIn :: "64 word"
  lastOut :: "64 word"
  rateIn :: "64 word"
  rateOut :: "64 word"
  sparkHistory :: "(64 word \<times> 64 word) list"
  mchannels :: "Channel list"
  channelSel :: int
  mmessages :: "bytes \<Rightarrow> ui_message list"
  msgSel :: int
  follow :: bool
  chatUnread :: "bytes \<Rightarrow> int"
  minput :: gostring
  inputFocused :: bool
  people :: "(bytes \<times> instant) list"
  peopleSel :: int
  posts :: "feedPost list"
  postSel :: int
  postExpanded :: bool
  feedUnread :: int
  threads :: "forumThread list"
  threadSel :: int
  openThread :: int
  forumUnread :: int
  replies :: "gostring \<Rightarrow> ui_message list"
  sealedMsgs :: "SealedMessage list"
  sealedSel :: int
  sealedOpen :: "bytes \<Rightarrow> bool"
  sealedUnread :: int
  peerList :: "PeerInfo list"
  peerSel :: int
  profileTarget :: bytes
  profiles :: "bytes \<Rightarrow> ProfileBody option"
  guestbook :: "bytes \<Rightarrow> gbEntry list"
  ovLabels :: nat
  ovFields :: "gostring list"
  ovField :: int
  ovTarget :: bytes
  ovDeniable :: bool
  connected :: bool
  retryDelay :: int
  retryIn :: int
  pulse :: bool
  mstatus :: string
  quitting :: bool
  mpanic :: bool

record ui_env =
  UeP :: prims
  UeM :: msgpack
  UeNow :: instant
  UeRnd :: bytes
  UeRnd2 :: bytes
  UeDb :: "string \<Rightarrow> bool"
  UeChanSort :: "(bytes \<times> chan_row) list \<Rightarrow> (bytes \<times> chan_row) list"
  UeSealSort :: "(gostring \<times> sealed_row) list \<Rightarrow> (gostring \<times> sealed_row) list"
  UePeerSort :: "PeerInfo list \<Rightarrow> PeerInfo list"
  UePeopleSort :: "(bytes \<Rightarrow> gostring) \<Rightarrow> (bytes \<times> instant) list \<Rightarrow> (bytes \<times> instant) list"
  UeEqualFold :: "gostring \<Rightarrow> gostring \<Rightarrow> bool"

definition ui_nano :: "ui_env \<Rightarrow> 64 word" where
  "ui_nano E = of_int (UeNow E)"

definition ui_unix :: "ui_env \<Rightarrow> 64 word" where
  "ui_unix E = of_int (UeNow E div Second)"

definition zero32 :: bytes where
  "zero32 = replicate 32 0"

text \<open>The element at an index, None where Go panics.\<close>

definition at :: "'a list \<Rightarrow> int \<Rightarrow> 'a option" where
  "at xs i = (if 0 \<le> i \<and> i < int (length xs) then Some (xs ! nat i) else None)"

definition clamp :: "int \<Rightarrow> int \<Rightarrow> int \<Rightarrow> int" where
  "clamp v lo hi = (if hi < lo then lo else if v < lo then lo else if v > hi then hi else v)"

definition last_index :: "'a list \<Rightarrow> int" where
  "last_index xs = int (length xs) - 1"

text \<open>The slice at two positions, None where Go panics.\<close>

definition slice_at :: "'a list \<Rightarrow> int \<Rightarrow> int \<Rightarrow> 'a list option" where
  "slice_at xs lo hi = (if lo < 0 \<or> hi < 0 then None else go_slice xs (nat lo) (nat hi))"

text \<open>The saved theme, if it is a built-in one; the package starts with the first.\<close>

definition saved_theme :: "ui_env \<Rightarrow> DB \<Rightarrow> ui_theme" where
  "saved_theme E d =
     (case GetSetting (UeP E) (UeDb E ''GetSetting'') (str ''theme'') d of
        Inl _ \<Rightarrow> hd themes
      | Inr v \<Rightarrow> (case themeByName v of None \<Rightarrow> hd themes | Some t \<Rightarrow> t))"

definition ui_New :: "ui_env \<Rightarrow> nat \<Rightarrow> DB \<Rightarrow> Identity \<Rightarrow> db_error + Model" where
  "ui_New E cli d i =
     (case ListChannels (UeP E) (UeDb E ''ListChannels'') (UeChanSort E) d of
        Inl e \<Rightarrow> Inl e
      | Inr chs \<Rightarrow> Inr
          \<lparr>mtheme = saved_theme E d, mcli = cli, mdb = d, mid = i, mtab = TabMessages, showSidebar = True, moverlay = OverlayNone,
           gateActive = (case GetSetting (UeP E) (UeDb E ''GetSetting'') (str ''entry_accepted'') d of Inl _ \<Rightarrow> True | Inr _ \<Rightarrow> False),
           gateBtn = 0, gateView = False, gateScroll = 0, mview = MsgViewChat, peopleDetail = False, settingsSec = 0, settingsIn = False,
           settingsItem = 0, mwidth = 0, mheight = 0, inTotal = 0, outTotal = 0, lastIn = 0, lastOut = 0, rateIn = 0, rateOut = 0,
           sparkHistory = [], mchannels = chs, channelSel = 0, mmessages = (\<lambda>_. []), msgSel = 0, follow = True,
           chatUnread = (\<lambda>_. 0), minput = [], inputFocused = True, people = [], peopleSel = 0, posts = [], postSel = 0, postExpanded = False,
           feedUnread = 0, threads = [], threadSel = 0, openThread = -1, forumUnread = 0, replies = (\<lambda>_. []),
           sealedMsgs = (case ListSealed (UeP E) (UeDb E ''ListSealed'') (UeSealSort E) d of Inl _ \<Rightarrow> [] | Inr sm \<Rightarrow> sm),
           sealedSel = 0, sealedOpen = (\<lambda>_. False),
           sealedUnread = (case UnreadSealedCount (UeDb E ''UnreadSealedCount'') d of Inl _ \<Rightarrow> 0 | Inr n \<Rightarrow> int n),
           peerList = [], peerSel = 0, profileTarget = Pubkey i, profiles = (\<lambda>_. None), guestbook = (\<lambda>_. []), ovLabels = 0, ovFields = [], ovField = 0,
           ovTarget = zero32, ovDeniable = False, connected = True, retryDelay = 1, retryIn = 0, pulse = False, mstatus = [], quitting = False,
           mpanic = False\<rparr>)"

definition activeChannel :: "Model \<Rightarrow> Channel option" where
  "activeChannel m = (if mchannels m = [] \<or> channelSel m \<ge> int (length (mchannels m)) then None else at (mchannels m) (channelSel m))"

text \<open>\<^verbatim>\<open>activeChannel\<close> indexes without a lower check.\<close>

definition channel_panic :: "Model \<Rightarrow> bool" where
  "channel_panic m \<longleftrightarrow> mchannels m \<noteq> [] \<and> channelSel m < 0"

definition clientCmds :: "Model \<Rightarrow> nat \<Rightarrow> ui_cmd list" where
  "clientCmds m cli =
     [CmdListen cli, CmdWaitIncoming cli, CmdWaitDelivered cli, CmdWaitPeers cli, CmdSubscribeAll (map ChID (mchannels m)), CmdRequestPeers cli]"

text \<open>What a failed index leaves: the client has panicked.\<close>

definition ui_panic :: "Model \<Rightarrow> Model" where
  "ui_panic m = m\<lparr>mpanic := True\<rparr>"

text \<open>\<^verbatim>\<open>activeChannel\<close> was called.\<close>

definition touch_channel :: "Model \<Rightarrow> Model" where
  "touch_channel m = (if channel_panic m then ui_panic m else m)"

section \<open>People\<close>

text \<open>\<^verbatim>\<open>displayName\<close> puts a profile it reads from the database into the map.\<close>

definition cached_profile :: "ui_env \<Rightarrow> bytes \<Rightarrow> Model \<Rightarrow> ProfileBody option" where
  "cached_profile E pk m =
     (case GetProfile (UeP E) (UeDb E ''GetProfile'') pk (mdb m) of
        Inl _ \<Rightarrow> None
      | Inr data \<Rightarrow> (case DecodePayload (UeM E) data (ProfilePayload empty_profile) of Inr (ProfilePayload p) \<Rightarrow> Some p | _ \<Rightarrow> None))"

definition nick_of :: "ui_env \<Rightarrow> bytes \<Rightarrow> Model \<Rightarrow> gostring" where
  "nick_of E pk m = (case GetNickname (UeP E) (UeDb E ''GetNickname'') pk (mdb m) of Inl _ \<Rightarrow> [] | Inr n \<Rightarrow> NName n)"

definition announced :: "bytes \<Rightarrow> Model \<Rightarrow> gostring" where
  "announced pk m = (case profiles m pk of None \<Rightarrow> [] | Some p \<Rightarrow> DisplayName p)"

definition displayName :: "ui_env \<Rightarrow> bytes \<Rightarrow> Model \<Rightarrow> Model \<times> gostring" where
  "displayName E pk m =
     (let own = (if pk = Pubkey (mid m) \<and> IdDisplayName (mid m) \<noteq> [] then IdDisplayName (mid m) else 126 # take 4 (EncodeToString pk)) in
      if nick_of E pk m \<noteq> [] then (m, nick_of E pk m)
      else if announced pk m \<noteq> [] then (m, announced pk m)
      else case cached_profile E pk m of
        None \<Rightarrow> (m, own)
      | Some p \<Rightarrow> (m\<lparr>profiles := (profiles m)(pk := Some p)\<rparr>, if DisplayName p \<noteq> [] then DisplayName p else own))"

text \<open>The comparisons of the sort look every name up, if there are two.\<close>

definition name_all :: "ui_env \<Rightarrow> Model \<Rightarrow> Model" where
  "name_all E m = (if length (people m) \<ge> 2 then fold (\<lambda>pk m. fst (displayName E pk m)) (map fst (people m)) m else m)"

definition trackPerson :: "ui_env \<Rightarrow> bytes \<Rightarrow> Model \<Rightarrow> Model" where
  "trackPerson E pk m =
     (if pk = Pubkey (mid m) then m
      else if pk \<in> fst ` set (people m) then m\<lparr>people := AList.update pk (UeNow E) (people m)\<rparr>
      else
        let m1 = name_all E (m\<lparr>people := people m @ [(pk, UeNow E)]\<rparr>) in
        m1\<lparr>people := UePeopleSort E (\<lambda>pk. snd (displayName E pk m1)) (people m1)\<rparr>)"

section \<open>Sending\<close>

definition countOut :: "Envelope \<Rightarrow> Model \<Rightarrow> Model" where
  "countOut env m = m\<lparr>outTotal := outTotal m + of_nat (length (Payload env) + MinMessageSize)\<rparr>"

definition countIn :: "Envelope \<Rightarrow> Model \<Rightarrow> Model" where
  "countIn env m = m\<lparr>inTotal := inTotal m + of_nat (length (Payload env) + MinMessageSize)\<rparr>"

definition signed_envelope :: "ui_env \<Rightarrow> byte \<Rightarrow> bytes \<Rightarrow> Payload \<Rightarrow> Model \<Rightarrow> string + Envelope" where
  "signed_envelope E t recipient p m =
     (case EncodePayload (UeM E) p of
        Inl _ \<Rightarrow> Inl ''invalid message''
      | Inr data \<Rightarrow>
          (case NewEnvelope (UeP E) (ui_nano E) (PrivateKey (mid m)) t recipient data of Inl _ \<Rightarrow> Inl ''signing failed'' | Inr env \<Rightarrow> Inr env))"

definition sendPayload :: "ui_env \<Rightarrow> byte \<Rightarrow> bytes \<Rightarrow> Payload \<Rightarrow> string \<Rightarrow> Model \<Rightarrow> Model \<times> ui_cmd list" where
  "sendPayload E t recipient p ok m =
     (case signed_envelope E t recipient p m of
        Inl s \<Rightarrow> (m, [CmdStatus s])
      | Inr env \<Rightarrow> (countOut env m, [CmdSend env ok]))"

definition sendChat :: "ui_env \<Rightarrow> gostring \<Rightarrow> Model \<Rightarrow> Model \<times> ui_cmd list" where
  "sendChat E content m =
     (case activeChannel m of
        None \<Rightarrow> (m\<lparr>mpanic := mpanic m \<or> channel_panic m\<rparr>, [CmdStatus ''no channel joined''])
      | Some ch \<Rightarrow>
          (case signed_envelope E MsgChat (ChID ch) (ChatPayload (ChID ch) content []) m of
             Inl s \<Rightarrow> (m, [CmdStatus s])
           | Inr env \<Rightarrow>
               let ms = mmessages m (ChID ch) @
                     [\<lparr>UId = ContentID (UeP E) env, USender = Pubkey (mid m), UContent = content, UAt = UeNow E\<rparr>];
                   m1 = m\<lparr>mmessages := (mmessages m)(ChID ch := ms)\<rparr>;
                   m2 = (if follow m1 then m1\<lparr>msgSel := last_index ms\<rparr> else m1)
               in (countOut env m2, [CmdSend env []])))"

text \<open>The sample of the traffic gauge, with the history that the sparkline shows.\<close>

definition sparkWidth :: int where "sparkWidth = 12"

definition sample :: "Model \<Rightarrow> Model" where
  "sample m =
     (let i = inTotal m - lastIn m; j = outTotal m - lastOut m; h = sparkHistory m @ [(i, j)]; n = int (length h);
          m1 = m\<lparr>rateIn := i, rateOut := j, lastIn := inTotal m, lastOut := outTotal m, sparkHistory := h\<rparr>
      in if n > sparkWidth then
           (case slice_at h (n - sparkWidth) n of None \<Rightarrow> ui_panic m1 | Some h' \<Rightarrow> m1\<lparr>sparkHistory := h'\<rparr>)
         else m1)"

lemma sample_same:
  "\<exists>h. sample m = m\<lparr>rateIn := inTotal m - lastIn m, rateOut := outTotal m - lastOut m, lastIn := inTotal m, lastOut := outTotal m,
     sparkHistory := h\<rparr> \<and> (length (sparkHistory m) \<le> 12 \<longrightarrow> length h \<le> 12)"
  by (cases "int (length (sparkHistory m)) + 1 > sparkWidth") (auto simp: sample_def slice_at_def sparkWidth_def Let_def)

section \<open>Receiving\<close>

fun remove_first :: "('a \<Rightarrow> bool) \<Rightarrow> 'a list \<Rightarrow> 'a list" where
  "remove_first p [] = []"
| "remove_first p (x # xs) = (if p x then xs else x # remove_first p xs)"

definition applyDelete :: "ui_env \<Rightarrow> Envelope \<Rightarrow> Model \<Rightarrow> Model" where
  "applyDelete E env m =
     (case DecodePayload (UeM E) (Payload env) (DeletePayload [] []) of
        Inr (DeletePayload targetHash _) \<Rightarrow>
          (case DecodeString targetHash of
             None \<Rightarrow> m
           | Some hash \<Rightarrow>
               if length hash \<noteq> 32 then m
               else m\<lparr>mmessages := (\<lambda>ch. remove_first (\<lambda>x. UId x = hash) (mmessages m ch)),
                      posts := remove_first (\<lambda>x. FpId x = hash) (posts m),
                      threads := remove_first (\<lambda>x. FtId x = hash) (threads m)\<rparr>)
      | _ \<Rightarrow> m)"

definition is_blocked :: "ui_env \<Rightarrow> bytes \<Rightarrow> Model \<Rightarrow> bool" where
  "is_blocked E pk m \<longleftrightarrow> IsBlocked (UeDb E ''IsBlocked'') pk (mdb m) = Inr True"

definition openSealed :: "ui_env \<Rightarrow> Envelope \<Rightarrow> Model \<Rightarrow> Model \<times> ui_cmd list" where
  "openSealed E env m =
     (case DecodePayload (UeM E) (Payload env) (SealedPayload (zero_array 32) (zero_array 24) False []) of
        Inr (SealedPayload eph nonce deniable ct) \<Rightarrow>
          (case Open (UeP E) (PrivateKey (mid m)) (Some \<lparr>EphemeralPubkey = eph, Nonce = nonce, Deniable = deniable, Ciphertext = ct\<rparr>) of
             Inl _ \<Rightarrow> (m, [])
           | Inr content \<Rightarrow>
               if is_blocked E (SenderPubkey content) m then (m, [])
               else
                 let sm = \<lparr>MsgHash = ContentID (UeP E) env, SData = Content content, SSender = SenderPubkey content, ReceivedAt = 0, SRead = False\<rparr>;
                     d1 = fst (PutSealed (UeP E) (UeDb E ''PutSealed'') (ui_unix E) (UeRnd E) sm (mdb m));
                     m1 = m\<lparr>mdb := d1, sealedMsgs := sm\<lparr>ReceivedAt := ui_unix E\<rparr> # sealedMsgs m, sealedUnread := sealedUnread m + 1\<rparr>;
                     m2 = trackPerson E (SenderPubkey content) m1
                 in sendPayload E MsgSealedAck (Sender env) (SealedAckPayload (ContentID (UeP E) env)) [] m2)
      | _ \<Rightarrow> (m, []))"

definition line_of :: "ui_env \<Rightarrow> Envelope \<Rightarrow> gostring \<Rightarrow> ui_message" where
  "line_of E env content = \<lparr>UId = ContentID (UeP E) env, USender = Sender env, UContent = content, UAt = sint (Timestamp env)\<rparr>"

definition add_reply :: "ui_env \<Rightarrow> Envelope \<Rightarrow> gostring \<Rightarrow> gostring \<Rightarrow> Model \<Rightarrow> Model" where
  "add_reply E env parent content m = m\<lparr>replies := (replies m)(parent := replies m parent @ [line_of E env content])\<rparr>"

definition handle_chat :: "ui_env \<Rightarrow> Envelope \<Rightarrow> bytes \<Rightarrow> gostring \<Rightarrow> Model \<Rightarrow> Model" where
  "handle_chat E env channel content m0 =
     (let m = trackPerson E (Sender env) m0;
          ms = mmessages m channel @ [line_of E env content];
          m1 = m\<lparr>mmessages := (mmessages m)(channel := ms), mpanic := mpanic m \<or> channel_panic m\<rparr>
      in if mtab m1 = TabMessages \<and> mview m1 = MsgViewChat \<and> map_option ChID (activeChannel m1) = Some channel
         then (if follow m1 then m1\<lparr>msgSel := last_index ms\<rparr> else m1)
         else m1\<lparr>chatUnread := (chatUnread m1)(channel := chatUnread m1 channel + 1)\<rparr>)"

definition handleIncoming :: "ui_env \<Rightarrow> Envelope \<Rightarrow> Model \<Rightarrow> Model \<times> ui_cmd list" where
  "handleIncoming E env m =
     (let t = Type env; payload = Payload env; at = sint (Timestamp env) in
      if is_blocked E (Sender env) m then (m, [])
      else if t = MsgChat then
        (case DecodePayload (UeM E) payload (ChatPayload (zero_array 32) [] []) of
           Inr (ChatPayload channel content _) \<Rightarrow> (handle_chat E env channel content m, [])
         | _ \<Rightarrow> (m, []))
      else if t = MsgPost then
        (case DecodePayload (UeM E) payload (PostPayload [] [] []) of
           Inr (PostPayload content replyTo _) \<Rightarrow>
             let m1 = trackPerson E (Sender env) m in
             if replyTo \<noteq> [] then (add_reply E env replyTo content m1, [])
             else
               (m1\<lparr>posts := \<lparr>FpId = ContentID (UeP E) env, FpSender = Sender env, FpContent = content, FpAt = at\<rparr> # posts m1,
                   feedUnread := (if mtab m1 \<noteq> TabFeed then feedUnread m1 + 1 else feedUnread m1)\<rparr>, [])
         | _ \<Rightarrow> (m, []))
      else if t = MsgThread then
        (case DecodePayload (UeM E) payload (ThreadPayload [] [] [] []) of
           Inr (ThreadPayload title content category _) \<Rightarrow>
             let m1 = trackPerson E (Sender env) m in
             (m1\<lparr>threads := \<lparr>FtId = ContentID (UeP E) env, FtSender = Sender env, FtTitle = title, FtCategory = category, FtContent = content,
                   FtAt = at, FtRead = False\<rparr> # threads m1,
                 forumUnread := (if mtab m1 \<noteq> TabForum then forumUnread m1 + 1 else forumUnread m1)\<rparr>, [])
         | _ \<Rightarrow> (m, []))
      else if t = MsgReply then
        (case DecodePayload (UeM E) payload (ReplyPayload [] []) of
           Inr (ReplyPayload parent content) \<Rightarrow> (add_reply E env parent content (trackPerson E (Sender env) m), [])
         | _ \<Rightarrow> (m, []))
      else if t = MsgProfile then
        (case DecodePayload (UeM E) payload (ProfilePayload empty_profile) of
           Inr (ProfilePayload p) \<Rightarrow>
             (m\<lparr>profiles := (profiles m)(Sender env := Some p),
                mdb := fst (CacheProfile (UeP E) (UeDb E ''CacheProfile'') (ui_unix E) (UeRnd E) (Sender env) payload
                         (EncodeToString (ContentID (UeP E) env)) (mdb m))\<rparr>, [])
         | _ \<Rightarrow> (m, []))
      else if t = MsgGuestbook then
        (case DecodePayload (UeM E) payload (GuestbookPayload (zero_array 32) []) of
           Inr (GuestbookPayload target content) \<Rightarrow>
             (m\<lparr>guestbook := (guestbook m)(target := guestbook m target @ [\<lparr>GbFrom = Sender env, GbMsg = content, GbAt = at\<rparr>])\<rparr>, [])
         | _ \<Rightarrow> (m, []))
      else if t = MsgStatus then (trackPerson E (Sender env) m, [])
      else if t = MsgSealed then (if Recipient env \<noteq> Pubkey (mid m) then (m, []) else openSealed E env m)
      else if t = MsgDelete then (applyDelete E env m, [])
      else (m, []))"

section \<open>Messages\<close>

datatype ui_msg =
    WindowSizeMsg int int
  | IncomingMsg Envelope
  | DeliveredMsg Envelope
  | StatsTickMsg
  | PeerUpdateMsg "PeerInfo list"
  | DaemonGoneMsg
  | RetryTickMsg
  | RetryFailMsg
  | ReconnectMsg nat
  | PulseTickMsg
  | StatusMsg string

definition maxRetry :: int where "maxRetry = 30"

fun ui_Update :: "ui_env \<Rightarrow> ui_msg \<Rightarrow> Model \<Rightarrow> Model \<times> ui_cmd list" where
  "ui_Update E (WindowSizeMsg w h) m = (m\<lparr>mwidth := w, mheight := h\<rparr>, [])"
| "ui_Update E (IncomingMsg env) m =
     (case handleIncoming E env (countIn env m) of (m1, cmds) \<Rightarrow> (m1, CmdWaitIncoming (mcli m1) # cmds))"
| "ui_Update E (DeliveredMsg env) m = (countIn env m, [CmdWaitDelivered (mcli m)])"
| "ui_Update E StatsTickMsg m = (sample m, [CmdStatsTick])"
| "ui_Update E (PeerUpdateMsg peers) m =
     (m\<lparr>peerList := UePeerSort E peers, peerSel := clamp (peerSel m) 0 (last_index (UePeerSort E peers))\<rparr>, [CmdWaitPeers (mcli m)])"
| "ui_Update E DaemonGoneMsg m =
     (if \<not> connected m then (m, [])
      else (m\<lparr>connected := False, retryDelay := 1, retryIn := 1\<rparr>, [CmdRetryTick, CmdPulseTick]))"
| "ui_Update E RetryTickMsg m =
     (if connected m then (m, [])
      else
        let m1 = m\<lparr>retryIn := retryIn m - 1\<rparr> in
        if retryIn m1 > 0 then (m1, [CmdRetryTick]) else (m1, [CmdReconnect]))"
| "ui_Update E RetryFailMsg m =
     (let d = (if retryDelay m * 2 > maxRetry then maxRetry else retryDelay m * 2) in
      (m\<lparr>retryDelay := d, retryIn := d\<rparr>, [CmdRetryTick]))"
| "ui_Update E (ReconnectMsg cli) m =
     (let m1 = m\<lparr>mcli := cli, connected := True, retryDelay := 1, mstatus := ''reconnected''\<rparr> in (m1, clientCmds m1 cli))"
| "ui_Update E PulseTickMsg m = (if connected m then (m, []) else (m\<lparr>pulse := \<not> pulse m\<rparr>, [CmdPulseTick]))"
| "ui_Update E (StatusMsg s) m = (m\<lparr>mstatus := s\<rparr>, [])"

section \<open>Overlays\<close>

definition openCompose :: "Overlay \<Rightarrow> nat \<Rightarrow> bytes \<Rightarrow> Model \<Rightarrow> Model" where
  "openCompose kind labels target m = m\<lparr>moverlay := kind, ovTarget := target, ovLabels := labels, ovFields := replicate labels [], ovField := 0\<rparr>"

definition openNickOverlay :: "ui_env \<Rightarrow> bytes \<Rightarrow> Model \<Rightarrow> Model" where
  "openNickOverlay E pk m =
     m\<lparr>moverlay := OverlayNick, ovTarget := pk, ovLabels := 2, ovField := 0,
       ovFields := (case GetNickname (UeP E) (UeDb E ''GetNickname'') pk (mdb m) of Inl _ \<Rightarrow> [[], []] | Inr n \<Rightarrow> [NName n, NNote n])\<rparr>"

definition openSealOverlay :: "bytes \<Rightarrow> Model \<Rightarrow> Model" where
  "openSealOverlay pk m = m\<lparr>moverlay := OverlaySeal, ovTarget := pk, ovLabels := 1, ovFields := [[]], ovField := 0, ovDeniable := False\<rparr>"

definition closeOverlay :: "Model \<Rightarrow> Model" where
  "closeOverlay m = m\<lparr>moverlay := OverlayNone, ovLabels := 0, ovFields := [], ovField := 0, ovDeniable := False\<rparr>"

definition ownProfile :: "Model \<Rightarrow> ProfileBody" where
  "ownProfile m = (case profiles m (Pubkey (mid m)) of Some p \<Rightarrow> p | None \<Rightarrow> empty_profile\<lparr>DisplayName := IdDisplayName (mid m)\<rparr>)"

definition publish_profile :: "ui_env \<Rightarrow> ProfileBody \<Rightarrow> Model \<Rightarrow> Model \<times> ui_cmd list" where
  "publish_profile E p0 m =
     (let p = p0\<lparr>UpdatedAt := ui_unix E\<rparr> in
      case Validate (ProfilePayload p) of
        Inl _ \<Rightarrow> (m, [CmdStatus ''invalid profile''])
      | Inr _ \<Rightarrow> sendPayload E MsgProfile Broadcast (ProfilePayload p) ''profile updated'' (m\<lparr>profiles := (profiles m)(Pubkey (mid m) := Some p)\<rparr>))"

definition sendSealed :: "ui_env \<Rightarrow> bytes \<Rightarrow> gostring \<Rightarrow> bool \<Rightarrow> Model \<Rightarrow> Model \<times> ui_cmd list" where
  "sendSealed E target content deniable m =
     (case Seal (UeP E) (UeRnd E) (UeRnd2 E) (PrivateKey (mid m)) target MsgChat content deniable of
        Inl _ \<Rightarrow> (m, [CmdStatus ''seal failed''])
      | Inr box \<Rightarrow>
          sendPayload E MsgSealed target (SealedPayload (EphemeralPubkey box) (Nonce box) (Deniable box) (Ciphertext box)) ''sealed''
            (fst (displayName E target m)))"

text \<open>A missing nickname has the zero trust hint.\<close>

definition trust_hint :: "ui_env \<Rightarrow> bytes \<Rightarrow> Model \<Rightarrow> byte" where
  "trust_hint E pk m = (case GetNickname (UeP E) (UeDb E ''GetNickname'') pk (mdb m) of Inl _ \<Rightarrow> 0 | Inr n \<Rightarrow> NTrustHint n)"

definition save_nickname :: "ui_env \<Rightarrow> Nickname \<Rightarrow> string \<Rightarrow> string \<Rightarrow> Model \<Rightarrow> Model \<times> ui_cmd list" where
  "save_nickname E n bad ok m =
     (case SetNickname (UeP E) (UeDb E ''SetNickname'') (ui_unix E) (UeRnd E) (UeRnd2 E) n (mdb m) of
        (d, Inl _) \<Rightarrow> (m\<lparr>mdb := d\<rparr>, [CmdStatus bad])
      | (d, Inr _) \<Rightarrow> (m\<lparr>mdb := d\<rparr>, [CmdStatus ok]))"

definition set_name :: "ui_env \<Rightarrow> bytes \<Rightarrow> gostring \<Rightarrow> gostring \<Rightarrow> string \<Rightarrow> Model \<Rightarrow> Model \<times> ui_cmd list" where
  "set_name E pk name note bad m =
     save_nickname E \<lparr>NPubkey = pk, NName = name, NNote = note, NAddedAt = 0,
       NTrustHint = (if trust_hint E pk m = 0 then TrustNeutral else trust_hint E pk m)\<rparr> bad ''nickname set'' m"

definition field :: "gostring list \<Rightarrow> nat \<Rightarrow> gostring" where
  "field fs i = (if i < length fs then TrimSpace (fs ! i) else [])"

definition submit_post :: "ui_env \<Rightarrow> bytes \<Rightarrow> gostring \<Rightarrow> Model \<Rightarrow> Model \<times> ui_cmd list" where
  "submit_post E target content m =
     (if content = [] then (m, [])
      else if target = zero32 then
        (case signed_envelope E MsgPost Broadcast (PostPayload content [] []) m of
           Inl s \<Rightarrow> (m, [CmdStatus s])
         | Inr env \<Rightarrow>
             (countOut env (m\<lparr>posts := \<lparr>FpId = ContentID (UeP E) env, FpSender = Pubkey (mid m), FpContent = content, FpAt = UeNow E\<rparr> # posts m\<rparr>),
              [CmdSend env ''posted'']))
      else
        let ref = EncodeToString target in
        sendPayload E MsgPost Broadcast (PostPayload content ref []) ''reply sent''
          (m\<lparr>replies := (replies m)(ref := replies m ref @
             [\<lparr>UId = zero32, USender = Pubkey (mid m), UContent = content, UAt = UeNow E\<rparr>])\<rparr>))"

definition submit_thread :: "ui_env \<Rightarrow> gostring \<Rightarrow> gostring \<Rightarrow> gostring \<Rightarrow> Model \<Rightarrow> Model \<times> ui_cmd list" where
  "submit_thread E title category0 body m =
     (if title = [] \<or> body = [] then (m, [CmdStatus ''thread needs a title and a body''])
      else
        let category = (if category0 = [] then str ''general'' else category0) in
        (case signed_envelope E MsgThread Broadcast (ThreadPayload title body category []) m of
           Inl s \<Rightarrow> (m, [CmdStatus s])
         | Inr env \<Rightarrow>
             (countOut env (m\<lparr>threads := \<lparr>FtId = ContentID (UeP E) env, FtSender = Pubkey (mid m), FtTitle = title, FtCategory = category,
                FtContent = body, FtAt = UeNow E, FtRead = True\<rparr> # threads m\<rparr>),
              [CmdSend env ''thread posted''])))"

text \<open>The number of fields that an overlay's form has.\<close>

definition form_size :: "Overlay \<Rightarrow> nat" where
  "form_size k = (case k of OverlayNick \<Rightarrow> 2 | OverlaySeal \<Rightarrow> 1 | OverlayGuestbook \<Rightarrow> 1 | OverlayPostNew \<Rightarrow> 1 | OverlayThreadNew \<Rightarrow> 3
     | OverlayProfileEdit \<Rightarrow> 5 | OverlayPeerConnect \<Rightarrow> 1 | _ \<Rightarrow> 0)"

definition submitOverlay :: "ui_env \<Rightarrow> Model \<Rightarrow> Model \<times> ui_cmd list" where
  "submitOverlay E m0 =
     (let kind = moverlay m0; fields = ovFields m0; target = ovTarget m0; deniable = ovDeniable m0;
          m1 = closeOverlay m0;
          m = m1\<lparr>mpanic := mpanic m1 \<or> length fields < form_size kind\<rparr>
      in case kind of
           OverlayNick \<Rightarrow>
             (let name = field fields 0; note = field fields 1 in
              if name = [] then
                (m\<lparr>mdb := fst (DeleteNickname (UeDb E ''DeleteNickname'') target (mdb m))\<rparr>, [CmdStatus ''nickname cleared''])
              else set_name E target name note ''nickname save failed'' m)
         | OverlaySeal \<Rightarrow> (let content = field fields 0 in if content = [] then (m, []) else sendSealed E target content deniable m)
         | OverlayGuestbook \<Rightarrow>
             (let content = field fields 0 in
              if content = [] then (m, [])
              else sendPayload E MsgGuestbook target (GuestbookPayload target content) ''guestbook entry signed''
                (m\<lparr>guestbook := (guestbook m)(target := guestbook m target @ [\<lparr>GbFrom = Pubkey (mid m), GbMsg = content, GbAt = UeNow E\<rparr>])\<rparr>))
         | OverlayPostNew \<Rightarrow> submit_post E target (field fields 0) m
         | OverlayThreadNew \<Rightarrow> submit_thread E (field fields 0) (field fields 1) (field fields 2) m
         | OverlayProfileEdit \<Rightarrow>
             publish_profile E ((ownProfile m)\<lparr>DisplayName := field fields 0, Bio := field fields 1, Status := field fields 2,
               Mood := field fields 3, NowPlaying := field fields 4\<rparr>) m
         | OverlayPeerConnect \<Rightarrow>
             (case DecodeString (field fields 0) of
                None \<Rightarrow> (m, [CmdStatus ''not a 64-char hex node key''])
              | Some b \<Rightarrow> if length b \<noteq> 32 then (m, [CmdStatus ''not a 64-char hex node key'']) else (m, [CmdConnect b]))
         | _ \<Rightarrow> (m, []))"

section \<open>Blocking\<close>

text \<open>
  C32. A blocked sender leaves no trace. An envelope of a sender that the local list blocks, and a sealed message whose
  inner sender is blocked, change nothing in the client but the traffic counter, and no acknowledgement is sent.
\<close>

theorem blocked_leaves_no_trace:
  assumes "is_blocked E (Sender env) m \<or>
    Type env = MsgSealed \<and> Recipient env = Pubkey (mid m) \<and>
      (\<exists>eph nonce den ct c. DecodePayload (UeM E) (Payload env) (SealedPayload (zero_array 32) (zero_array 24) False []) = Inr (SealedPayload eph nonce den ct) \<and>
        Open (UeP E) (PrivateKey (mid m)) (Some \<lparr>EphemeralPubkey = eph, Nonce = nonce, Deniable = den, Ciphertext = ct\<rparr>) = Inr c \<and>
        is_blocked E (SenderPubkey c) m)"
  shows "ui_Update E (IncomingMsg env) m = (countIn env m, [CmdWaitIncoming (mcli m)])"
proof -
  have b: "is_blocked E pk (countIn env m) = is_blocked E pk m" "mid (countIn env m) = mid m" for pk
    by (simp_all add: is_blocked_def countIn_def)
  from assms show ?thesis
  proof (elim disjE conjE exE)
    assume "is_blocked E (Sender env) m"
    then show ?thesis using b by (simp add: handleIncoming_def Let_def) (simp add: countIn_def)
  next
    fix eph nonce den ct c
    assume h: "Type env = MsgSealed" "Recipient env = Pubkey (mid m)"
      "DecodePayload (UeM E) (Payload env) (SealedPayload (zero_array 32) (zero_array 24) False []) = Inr (SealedPayload eph nonce den ct)"
      "Open (UeP E) (PrivateKey (mid m)) (Some \<lparr>EphemeralPubkey = eph, Nonce = nonce, Deniable = den, Ciphertext = ct\<rparr>) = Inr c"
      "is_blocked E (SenderPubkey c) m"
    then have "handleIncoming E env (countIn env m) = (countIn env m, [])"
      using b by (simp add: handleIncoming_def openSealed_def Let_def)
    then show ?thesis by (simp add: countIn_def)
  qed
qed

section \<open>Sealed messages from client to client\<close>

text \<open>What tracking a person leaves alone.\<close>

lemma displayName_same: "fst (displayName E pk m) = m\<lparr>profiles := profiles (fst (displayName E pk m))\<rparr>"
  by (simp add: displayName_def Let_def split: option.split)

lemma name_fold: "\<exists>p. fold (\<lambda>pk m. fst (displayName E pk m)) pks m = m\<lparr>profiles := p\<rparr>"
proof (induction pks arbitrary: m)
  case Nil
  show ?case by (rule exI [of _ "profiles m"]) simp
next
  case (Cons pk pks)
  obtain p where p: "fst (displayName E pk m) = m\<lparr>profiles := p\<rparr>" using displayName_same by blast
  obtain q where "fold (\<lambda>pk m. fst (displayName E pk m)) pks (m\<lparr>profiles := p\<rparr>) = m\<lparr>profiles := p, profiles := q\<rparr>" using Cons by blast
  then have "fold (\<lambda>pk m. fst (displayName E pk m)) (pk # pks) m = m\<lparr>profiles := q\<rparr>" by (simp add: p)
  then show ?case by blast
qed

lemma trackPerson_same: "\<exists>ps p. trackPerson E pk m = m\<lparr>people := ps, profiles := p\<rparr>"
proof -
  have id: "m = m\<lparr>people := people m, profiles := profiles m\<rparr>" by simp
  have n: "\<exists>p. name_all E k = k\<lparr>profiles := p\<rparr>" for k
  proof (cases "length (people k) \<ge> 2")
    case True
    then show ?thesis using name_fold by (simp add: name_all_def)
  next
    case False
    then have "name_all E k = k\<lparr>profiles := profiles k\<rparr>" by (simp add: name_all_def)
    then show ?thesis by blast
  qed
  show ?thesis
  proof (cases "pk = Pubkey (mid m)")
    case True
    then have "trackPerson E pk m = m" by (simp add: trackPerson_def)
    then show ?thesis using id by metis
  next
    case False
    note own = this
    show ?thesis
    proof (cases "pk \<in> fst ` set (people m)")
      case True
      then have "trackPerson E pk m = m\<lparr>people := AList.update pk (UeNow E) (people m), profiles := profiles m\<rparr>"
        using own by (simp add: trackPerson_def)
      then show ?thesis by blast
    next
      case False
      obtain p where p: "name_all E (m\<lparr>people := people m @ [(pk, UeNow E)]\<rparr>) = m\<lparr>people := people m @ [(pk, UeNow E)], profiles := p\<rparr>"
        using n by blast
      then have "trackPerson E pk m = m\<lparr>people := UePeopleSort E
          (\<lambda>pk'. snd (displayName E pk' (m\<lparr>people := people m @ [(pk, UeNow E)], profiles := p\<rparr>))) (people m @ [(pk, UeNow E)]), profiles := p\<rparr>"
        using own False by (simp add: trackPerson_def Let_def)
      then show ?thesis by blast
    qed
  qed
qed

lemma trackPerson_simps [simp]:
  "sealedMsgs (trackPerson E pk m) = sealedMsgs m" "sealedUnread (trackPerson E pk m) = sealedUnread m"
  "mid (trackPerson E pk m) = mid m" "mdb (trackPerson E pk m) = mdb m" "connected (trackPerson E pk m) = connected m"
  "retryIn (trackPerson E pk m) = retryIn m" "retryDelay (trackPerson E pk m) = retryDelay m" "openThread (trackPerson E pk m) = openThread m"
  "threads (trackPerson E pk m) = threads m" "mcli (trackPerson E pk m) = mcli m" "posts (trackPerson E pk m) = posts m"
  using trackPerson_same [of E pk m] by auto

lemma sendPayload_sent:
  assumes "sendPayload E t rcp p ok m = (m', [CmdSend env st])"
  shows "m' = countOut env m \<and> st = ok \<and> (\<exists>data. EncodePayload (UeM E) p = Inr data \<and>
    NewEnvelope (UeP E) (ui_nano E) (PrivateKey (mid m)) t rcp data = Inr env)"
  using assms by (auto simp: sendPayload_def signed_envelope_def split: sum.splits)

lemma sendPayload_keeps [simp]:
  "sealedMsgs (fst (sendPayload E t rcp p ok m)) = sealedMsgs m" "sealedUnread (fst (sendPayload E t rcp p ok m)) = sealedUnread m"
  "connected (fst (sendPayload E t rcp p ok m)) = connected m" "retryIn (fst (sendPayload E t rcp p ok m)) = retryIn m"
  "retryDelay (fst (sendPayload E t rcp p ok m)) = retryDelay m" "mcli (fst (sendPayload E t rcp p ok m)) = mcli m"
  "mdb (fst (sendPayload E t rcp p ok m)) = mdb m"
  by (simp_all add: sendPayload_def countOut_def split: sum.split)

text \<open>
  C28. A sealed message arrives. What one client seals to another's key and hands to its daemon, the other client, when the
  envelope reaches it, opens and puts at the top of its inbox, unread, with the text and the sender's key, unless it blocks the
  sender.
\<close>

theorem sealed_message_arrives:
  assumes "sizes_ok P" "sign_ok P" "aead_ok P" "dh_ok P" "conv_ok P" "msgpack_ok M"
    and "UeP A = P" "UeM A = M" "UeP B = P" "UeM B = M"
    and "wf_identity P (mid a)" "wf_identity P (mid b)"
    and "sendSealed A (Pubkey (mid b)) content deniable a = (a', [CmdSend env st])"
    and "\<not> is_blocked B (Pubkey (mid a)) b" "handleIncoming B env b = (b', cmds)"
  shows "sealedMsgs b' = \<lparr>MsgHash = ContentID P env, SData = content, SSender = Pubkey (mid a), ReceivedAt = ui_unix B, SRead = False\<rparr> # sealedMsgs b \<and>
    sealedUnread b' = sealedUnread b + 1"
proof -
  have ka: "wf_priv P (PrivateKey (mid a))" "length (PrivateKey (mid a)) = 64" "PublicKey (mid a) = Public (PrivateKey (mid a))"
    and kb: "wf_priv P (PrivateKey (mid b))" "length (PrivateKey (mid b)) = 64" "PublicKey (mid b) = Public (PrivateKey (mid b))"
    using assms(11,12) by (auto simp: wf_identity_def dest: wf_priv_length)
  have pa: "Pubkey (mid a) = Public (PrivateKey (mid a))" and pb: "Pubkey (mid b) = Public (PrivateKey (mid b))"
    using ka(2,3) kb(2,3) by (simp_all add: Pubkey_def Public_def)
  obtain box where box: "Seal P (UeRnd A) (UeRnd2 A) (PrivateKey (mid a)) (Public (PrivateKey (mid b))) MsgChat content deniable = Inr box"
    and snd: "sendPayload A MsgSealed (Pubkey (mid b)) (SealedPayload (EphemeralPubkey box) (Nonce box) (Deniable box) (Ciphertext box)) ''sealed''
      (fst (displayName A (Pubkey (mid b)) a)) = (a', [CmdSend env st])"
    using assms(7,13) pb by (auto simp: sendSealed_def split: sum.splits)
  have "mid (fst (displayName A (Pubkey (mid b)) a)) = mid a" by (simp add: displayName_def Let_def split: option.split)
  then obtain data where enc: "EncodePayload M (SealedPayload (EphemeralPubkey box) (Nonce box) (Deniable box) (Ciphertext box)) = Inr data"
    and new: "NewEnvelope P (ui_nano A) (PrivateKey (mid a)) MsgSealed (Pubkey (mid b)) data = Inr env"
    using sendPayload_sent [OF snd] assms(7,8) by auto
  have e: "Type env = MsgSealed" "Sender env = Pubkey (mid a)" "Recipient env = Pubkey (mid b)" "Payload env = data"
    by (subst NewEnvelope_Inr(4) [OF new], simp add: pa)+
  have dec: "DecodePayload M data (SealedPayload (zero_array 32) (zero_array 24) False []) =
      Inr (SealedPayload (EphemeralPubkey box) (Nonce box) (Deniable box) (Ciphertext box))"
    using DecodePayload_EncodePayload [OF assms(6) enc] by (simp add: NewPayload_def)
  have op: "Open P (PrivateKey (mid b)) (Some \<lparr>EphemeralPubkey = EphemeralPubkey box, Nonce = Nonce box, Deniable = Deniable box, Ciphertext = Ciphertext box\<rparr>) =
      Inr \<lparr>SenderPubkey = Pubkey (mid a), MessageType = MsgChat, Content = content, ContentDeniable = deniable\<rparr>"
    using Open_opens [OF assms(1-5) ka(1) kb(1) box] pa by (cases box) simp
  have "handleIncoming B env b = openSealed B env b" using e assms(14) by (simp add: handleIncoming_def Let_def)
  then have "b' = fst (openSealed B env b)" using assms(15) by (metis fst_conv)
  then show ?thesis using e dec op assms(9,10,14) by (simp add: openSealed_def Let_def)
qed

section \<open>Reconnecting\<close>

text \<open>What the connection loop reads.\<close>

definition link :: "Model \<Rightarrow> bool \<times> int \<times> int" where
  "link m = (connected m, retryIn m, retryDelay m)"

lemma link_trackPerson [simp]: "link (trackPerson E pk m) = link m"
  by (simp add: link_def)

lemma link_openSealed: "link (fst (openSealed E env m)) = link m"
  by (simp add: openSealed_def link_def Let_def split: sum.split Payload.split)

lemma link_sample [simp]: "link (sample m) = link m" "connected (sample m) = connected m" "retryIn (sample m) = retryIn m"
  "retryDelay (sample m) = retryDelay m"
  using sample_same [of m] by (auto simp: link_def)

lemma link_handleIncoming: "link (fst (handleIncoming E env m)) = link m"
proof (cases "is_blocked E (Sender env) m")
  case True
  then show ?thesis by (simp add: handleIncoming_def)
next
  case False
  note nb = this
  consider "Type env = MsgChat" | "Type env = MsgPost" | "Type env = MsgThread" | "Type env = MsgReply" | "Type env = MsgProfile"
    | "Type env = MsgGuestbook" | "Type env = MsgStatus" | "Type env = MsgSealed" | "Type env = MsgDelete"
    | "Type env \<notin> {MsgChat, MsgPost, MsgThread, MsgReply, MsgProfile, MsgGuestbook, MsgStatus, MsgSealed, MsgDelete}" by blast
  then show ?thesis
  proof cases
    case 1
    then show ?thesis using nb by (simp add: handleIncoming_def handle_chat_def link_def Let_def split: sum.split Payload.split)
  next
    case 2
    then show ?thesis using nb by (simp add: handleIncoming_def add_reply_def link_def Let_def split: sum.split Payload.split)
  next
    case 3
    then show ?thesis using nb by (simp add: handleIncoming_def link_def Let_def split: sum.split Payload.split)
  next
    case 4
    then show ?thesis using nb by (simp add: handleIncoming_def add_reply_def link_def Let_def split: sum.split Payload.split)
  next
    case 5
    then show ?thesis using nb by (simp add: handleIncoming_def link_def Let_def split: sum.split Payload.split)
  next
    case 6
    then show ?thesis using nb by (simp add: handleIncoming_def link_def Let_def split: sum.split Payload.split)
  next
    case 7
    then show ?thesis using nb by (simp add: handleIncoming_def link_def Let_def)
  next
    case 8
    then show ?thesis using nb link_openSealed [of E env m] by (simp add: handleIncoming_def Let_def)
  next
    case 9
    then show ?thesis using nb by (simp add: handleIncoming_def applyDelete_def link_def Let_def split: sum.split Payload.split option.split)
  next
    case 10
    then show ?thesis using nb by (simp add: handleIncoming_def Let_def)
  qed
qed

text \<open>
  Messages that leave the loop alone, and the retry tick.
\<close>

fun quiet :: "ui_msg \<Rightarrow> bool" where
  "quiet (RetryFailMsg) = False"
| "quiet (ReconnectMsg _) = False"
| "quiet _ = True"

lemma quiet_step:
  assumes "quiet u" "\<not> connected m"
  shows "link (fst (ui_Update E u m)) = (False, if u = RetryTickMsg then retryIn m - 1 else retryIn m, retryDelay m)"
proof (cases u)
  case (IncomingMsg env)
  have "link (fst (handleIncoming E env (countIn env m))) = link (countIn env m)" by (rule link_handleIncoming)
  then show ?thesis using IncomingMsg assms(2) by (simp add: case_prod_beta) (simp add: link_def countIn_def)
qed (use assms in \<open>simp_all add: link_def countIn_def Let_def\<close>)

fun ui_run :: "(ui_env \<times> ui_msg) list \<Rightarrow> Model \<Rightarrow> Model \<times> ui_cmd list" where
  "ui_run [] m = (m, [])"
| "ui_run ((E, u) # us) m =
     (case ui_Update E u m of (m1, cmds) \<Rightarrow> (case ui_run us m1 of (m2, more_cmds) \<Rightarrow> (m2, cmds @ more_cmds)))"

lemma retry_bounds_step:
  assumes "1 \<le> retryDelay m \<and> retryDelay m \<le> 30"
  shows "1 \<le> retryDelay (fst (ui_Update E u m)) \<and> retryDelay (fst (ui_Update E u m)) \<le> 30"
proof (cases u)
  case (IncomingMsg env)
  have "link (fst (handleIncoming E env (countIn env m))) = link (countIn env m)" by (rule link_handleIncoming)
  then show ?thesis using IncomingMsg assms by (simp add: case_prod_beta) (simp add: link_def countIn_def)
qed (use assms in \<open>simp_all add: countIn_def maxRetry_def Let_def\<close>)

interpretation retryrun: run_invariant "\<lambda>m (E, u). fst (ui_Update E u m)" "\<lambda>m. 1 \<le> retryDelay m \<and> retryDelay m \<le> 30"
  by unfold_locales (auto simp: retry_bounds_step)

lemma reconnects:
  assumes "\<not> connected m" "list_all (\<lambda>(E, u). quiet u) us" "1 \<le> retryIn m"
    and "retryIn m \<le> int (length (filter (\<lambda>(E, u). u = RetryTickMsg) us))"
  shows "CmdReconnect \<in> set (snd (ui_run us m))"
  using assms
proof (induction us arbitrary: m)
  case (Cons x us)
  obtain E u where x: "x = (E, u)" by (cases x)
  let ?m1 = "fst (ui_Update E u m)"
  have r: "snd (ui_run (x # us) m) = snd (ui_Update E u m) @ snd (ui_run us ?m1)" by (simp add: x case_prod_beta)
  have l: "link ?m1 = (False, if u = RetryTickMsg then retryIn m - 1 else retryIn m, retryDelay m)"
    using quiet_step Cons.prems(1,2) by (simp add: x)
  then have m1: "\<not> connected ?m1" "retryIn ?m1 = (if u = RetryTickMsg then retryIn m - 1 else retryIn m)" by (simp_all add: link_def)
  show ?case
  proof (cases "u = RetryTickMsg \<and> retryIn m = 1")
    case True
    then have "CmdReconnect \<in> set (snd (ui_Update E u m))" using Cons.prems(1) by (simp add: Let_def)
    then show ?thesis unfolding r by simp
  next
    case False
    then have "1 \<le> retryIn ?m1" "retryIn ?m1 \<le> int (length (filter (\<lambda>(E, u). u = RetryTickMsg) us))"
      using m1(2) Cons.prems(3,4) x by (auto split: if_splits)
    then have "CmdReconnect \<in> set (snd (ui_run us ?m1))" using Cons.IH [OF m1(1)] Cons.prems(2) by simp
    then show ?thesis unfolding r by simp
  qed
qed simp

text \<open>
  A lost daemon is dialled again. The delay between attempts stays between one and thirty seconds whatever
  arrives; and while the client is disconnected and the countdown runs, a reconnection is attempted by the time that
  many ticks have passed, whatever else the daemon and the other timers deliver in between.
\<close>

theorem daemon_redialled:
  "(1 \<le> retryDelay m \<and> retryDelay m \<le> 30 \<longrightarrow>
     1 \<le> retryDelay (foldl (\<lambda>m (E, u). fst (ui_Update E u m)) m us) \<and> retryDelay (foldl (\<lambda>m (E, u). fst (ui_Update E u m)) m us) \<le> 30) \<and>
   (\<not> connected m \<and> list_all (\<lambda>(E, u). quiet u) us \<and> 1 \<le> retryIn m \<and>
     retryIn m \<le> int (length (filter (\<lambda>(E, u). u = RetryTickMsg) us)) \<longrightarrow> CmdReconnect \<in> set (snd (ui_run us m)))"
  using retryrun.run_inv [of m us] reconnects [of m us] by blast

section \<open>Deleting\<close>

lemma remove_first_set: "distinct (map f xs) \<Longrightarrow> set (remove_first (\<lambda>x. f x = v) xs) = {x \<in> set xs. f x \<noteq> v}"
  by (induction xs) (auto, metis image_eqI)

text \<open>
  Deleted content leaves the views. When the daemon passes on the deletion of an identifier, no
  chat line, post or thread has it afterwards, and all others stay.
\<close>

theorem deleted_content_gone:
  assumes "DecodePayload (UeM E) (Payload env) (DeletePayload [] []) = Inr (DeletePayload (EncodeToString h) r)" "length h = 32"
    and "\<forall>ch. distinct (map UId (mmessages m ch))" "distinct (map FpId (posts m))" "distinct (map FtId (threads m))"
  shows "set (mmessages (applyDelete E env m) ch) = {x \<in> set (mmessages m ch). UId x \<noteq> h} \<and>
    set (posts (applyDelete E env m)) = {x \<in> set (posts m). FpId x \<noteq> h} \<and>
    set (threads (applyDelete E env m)) = {x \<in> set (threads m). FtId x \<noteq> h}"
  using assms remove_first_set [of UId "mmessages m ch" h] remove_first_set [of FpId "posts m" h] remove_first_set [of FtId "threads m" h]
  by (simp add: applyDelete_def)

text \<open>Replies are no part of it: a deleted reply stays.\<close>

theorem deleted_reply_stays: "replies (applyDelete E env m) = replies m"
  by (simp add: applyDelete_def split: sum.split Payload.split option.split)

section \<open>Concrete runs\<close>

definition ui_demo :: "msgpack \<Rightarrow> ui_env" where
  "ui_demo M = \<lparr>UeP = demo_prims, UeM = M, UeNow = 7, UeRnd = [1], UeRnd2 = [2], UeDb = (\<lambda>_. True), UeChanSort = id, UeSealSort = id,
     UePeerSort = id, UePeopleSort = (\<lambda>f ps. ps), UeEqualFold = (=)\<rparr>"

definition demo_client :: "byte \<Rightarrow> Model" where
  "demo_client b = (case ui_New (ui_demo (demo_pack [])) 0 demo_db
      \<lparr>PrivateKey = demo_key b, PublicKey = Public (demo_key b), IdDisplayName = [], CreatedAt = 0\<rparr> of Inr m \<Rightarrow> m | Inl _ \<Rightarrow> undefined)"

lemma ui_demo_simps [simp]:
  "UeP (ui_demo M) = demo_prims" "UeM (ui_demo M) = M" "UeDb (ui_demo M) = (\<lambda>_. True)" "UeRnd (ui_demo M) = [1]" "UeRnd2 (ui_demo M) = [2]"
  by (simp_all add: ui_demo_def)

lemma demo_client_simps [simp]:
  "mid (demo_client b) = \<lparr>PrivateKey = demo_key b, PublicKey = Public (demo_key b), IdDisplayName = [], CreatedAt = 0\<rparr>"
  "mdb (demo_client b) = demo_db" "sealedMsgs (demo_client b) = []" "connected (demo_client b)" "retryDelay (demo_client b) = 1"
  "mmessages (demo_client b) = (\<lambda>_. [])" "posts (demo_client b) = []" "threads (demo_client b) = []" "sealedUnread (demo_client b) = 0"
  "mcli (demo_client b) = 0"
  by (simp_all add: demo_client_def ui_New_def ui_demo_def ListChannels_def ListSealed_def UnreadSealedCount_def demo_db_def)

lemma demo_client_wf: "wf_identity demo_prims (mid (demo_client b))"
  by (simp add: wf_identity_def demo_key_wf)

lemma demo_unblocked: "mdb m = demo_db \<Longrightarrow> \<not> is_blocked E pk m"
  by (simp add: is_blocked_def IsBlocked_def demo_db_def)

lemma demo_sealed_sent:
  obtains M a' env where "msgpack_ok M"
    "sendSealed (ui_demo M) (Pubkey (mid (demo_client 4))) (str ''hej'') False (demo_client 3) = (a', [CmdSend env ''sealed''])"
proof -
  obtain box where box: "Seal demo_prims [1] [2] (demo_key 3) (Public (demo_key 4)) MsgChat (str ''hej'') False = Inr box"
    using demo_Seal_total [of "str ''hej''" "[1]" "[2]" 3 4 MsgChat False] by (auto simp: MaxSealedContent_def)
  let ?p = "SealedPayload (EphemeralPubkey box) (Nonce box) (Deniable box) (Ciphertext box)"
  let ?M = "demo_pack [(?p, [1, 2, 3])]"
  have "Validate ?p = Inr ()"
    using sealed_payload_limit [OF demo_sizes_ok _ box, of "\<lparr>Marshal = \<lambda>_. None, Unmarshal = \<lambda>_ _. UnmarshalErr\<rparr>"] by simp
  then have enc: "EncodePayload ?M ?p = Inr [1, 2, 3]" by (simp add: EncodePayload_def demo_pack_def del: Validate.simps)
  have pk: "Pubkey (mid (demo_client 4)) = Public (demo_key 4)"
    using wf_priv_length [OF demo_key_wf, of 4] by (simp add: Pubkey_def Public_def)
  obtain env where new: "NewEnvelope demo_prims (ui_nano (ui_demo ?M)) (demo_key 3) MsgSealed (Public (demo_key 4)) [1, 2, 3] = Inr env"
    using wf_priv_length [OF demo_key_wf] by (simp add: NewEnvelope_def LocalOnly_def Sign_def Let_def)
  have mid: "mid (fst (displayName E pk m)) = mid m" for E pk m by (simp add: displayName_def Let_def split: option.split)
  have "\<exists>a'. sendSealed (ui_demo ?M) (Pubkey (mid (demo_client 4))) (str ''hej'') False (demo_client 3) = (a', [CmdSend env ''sealed''])"
    using box enc new pk by (simp add: sendSealed_def sendPayload_def signed_envelope_def mid)
  then show thesis using that demo_pack_ok [of "[(?p, [1, 2, 3])]"] by auto
qed

theorem sealed_message_arrives_witness:
  "\<exists>M env a' b' cmds. sendSealed (ui_demo M) (Pubkey (mid (demo_client 4))) (str ''hej'') False (demo_client 3) = (a', [CmdSend env ''sealed'']) \<and>
     handleIncoming (ui_demo M) env (demo_client 4) = (b', cmds) \<and> map SData (sealedMsgs b') = [str ''hej''] \<and> sealedUnread b' = 1"
proof -
  obtain M a' env where s: "msgpack_ok M"
    "sendSealed (ui_demo M) (Pubkey (mid (demo_client 4))) (str ''hej'') False (demo_client 3) = (a', [CmdSend env ''sealed''])"
    by (rule demo_sealed_sent)
  obtain b' cmds where b: "handleIncoming (ui_demo M) env (demo_client 4) = (b', cmds)" by (cases "handleIncoming (ui_demo M) env (demo_client 4)")
  have "\<not> is_blocked (ui_demo M) (Pubkey (mid (demo_client 3))) (demo_client 4)" by (rule demo_unblocked) simp
  from sealed_message_arrives [OF demo_ok s(1) _ _ _ _ demo_client_wf demo_client_wf s(2) this b]
  have t: "map SData (sealedMsgs b') = [str ''hej'']" "sealedUnread b' = 1" by auto
  show ?thesis by (rule exI [of _ M], rule exI [of _ env], rule exI [of _ a'], rule exI [of _ b'], rule exI [of _ cmds]) (intro conjI s(2) b t)
qed

theorem daemon_redialled_witness:
  "CmdReconnect \<in> set (snd (ui_run [(ui_demo (demo_pack []), PulseTickMsg), (ui_demo (demo_pack []), RetryTickMsg)]
     (fst (ui_Update (ui_demo (demo_pack [])) DaemonGoneMsg (demo_client 3)))))"
  using daemon_redialled [of "fst (ui_Update (ui_demo (demo_pack [])) DaemonGoneMsg (demo_client 3))"
      "[(ui_demo (demo_pack []), PulseTickMsg), (ui_demo (demo_pack []), RetryTickMsg)]"] by simp

definition demo_delete :: Envelope where
  "demo_delete = \<lparr>Version = 1, Type = MsgDelete, Timestamp = 7, Sender = replicate 32 5, Recipient = Broadcast, Payload = [9], Signature = []\<rparr>"

definition demo_posts :: Model where
  "demo_posts = (demo_client 3)\<lparr>posts := [\<lparr>FpId = replicate 32 1, FpSender = [], FpContent = [], FpAt = 0\<rparr>,
     \<lparr>FpId = replicate 32 2, FpSender = [], FpContent = [], FpAt = 0\<rparr>]\<rparr>"

theorem deleted_content_gone_witness:
  "map FpId (posts (applyDelete (ui_demo (demo_pack [(DeletePayload (EncodeToString (replicate 32 1)) [], [9])])) demo_delete demo_posts)) = [replicate 32 2] \<and>
   replicate 32 1 \<notin> FpId ` set (posts (applyDelete (ui_demo (demo_pack [(DeletePayload (EncodeToString (replicate 32 1)) [], [9])])) demo_delete demo_posts))"
proof -
  let ?E = "ui_demo (demo_pack [(DeletePayload (EncodeToString (replicate 32 1)) [], [9])])"
  have v: "Validate (DeletePayload (EncodeToString (replicate 32 1)) []) = Inr ()" by code_simp
  have d: "DecodePayload (UeM ?E) (Payload demo_delete) (DeletePayload [] []) = Inr (DeletePayload (EncodeToString (replicate 32 1)) [])"
    using v by (simp add: DecodePayload_def demo_pack_def demo_delete_def del: Validate.simps)
  have dist: "distinct (map FpId (posts demo_posts))" "distinct (map FtId (threads demo_posts))" "\<forall>ch. distinct (map UId (mmessages demo_posts ch))"
    by (simp_all add: demo_posts_def)
  from deleted_content_gone [OF d _ dist(3,1,2)]
  have "set (posts (applyDelete ?E demo_delete demo_posts)) = {x \<in> set (posts demo_posts). FpId x \<noteq> replicate 32 1}" by simp
  moreover have "map FpId (posts (applyDelete ?E demo_delete demo_posts)) = [replicate 32 2]"
    using d by (simp add: applyDelete_def demo_posts_def)
  ultimately show ?thesis by auto
qed

theorem blocked_leaves_no_trace_witness:
  "ui_Update (ui_demo (demo_pack [])) (IncomingMsg demo_delete) ((demo_client 3)\<lparr>mdb := demo_db\<lparr>blocklist := [(replicate 32 5, \<lparr>bl_added = 0, bl_reason = []\<rparr>)]\<rparr>\<rparr>) =
     (countIn demo_delete ((demo_client 3)\<lparr>mdb := demo_db\<lparr>blocklist := [(replicate 32 5, \<lparr>bl_added = 0, bl_reason = []\<rparr>)]\<rparr>\<rparr>), [CmdWaitIncoming 0])"
proof -
  let ?m = "(demo_client 3)\<lparr>mdb := demo_db\<lparr>blocklist := [(replicate 32 5, \<lparr>bl_added = 0, bl_reason = []\<rparr>)]\<rparr>\<rparr>"
  have "is_blocked (ui_demo (demo_pack [])) (Sender demo_delete) ?m" by (simp add: is_blocked_def IsBlocked_def demo_delete_def)
  from blocked_leaves_no_trace [OF disjI1, OF this] show ?thesis by simp
qed

end
