(* ===== verification/Gandr_View.thy ===== *)
theory Gandr_View
  imports Gandr_Tui
begin

text \<open>
  \<^verbatim>\<open>View\<close> of \<^verbatim>\<open>pkg/tui/render.go\<close> with \<^verbatim>\<open>views.go\<close>, \<^verbatim>\<open>overlay_view.go\<close>, \<^verbatim>\<open>settings.go\<close> and \<^verbatim>\<open>banner.go\<close>: what drawing
  reads by an index, cuts by a position and repeats by a count, and what it leaves in the model: the clamped scroll position of the
  banner and the profiles that \<^verbatim>\<open>displayName\<close> caches. The text is not modelled: how many lines it has, where its cursor line
  and the rows of its header are, and whose names it shows are arguments. The index of the sparkline is computed in floating point and is
  left out.
\<close>

section \<open>Sizes\<close>

datatype layoutMode = layoutFull | layoutCompact | layoutMini | layoutNarrow

definition layout :: "Model \<Rightarrow> layoutMode" where
  "layout m =
     (if mwidth m \<ge> 120 then layoutFull else if mwidth m \<ge> 80 then layoutCompact else if mwidth m \<ge> 40 then layoutMini else layoutNarrow)"

definition sidebar_width :: "Model \<Rightarrow> int" where
  "sidebar_width m =
     (if showSidebar m \<and> layout m = layoutFull then 20 else if showSidebar m \<and> layout m = layoutCompact then 14 else 0)"

definition content_width :: "int \<Rightarrow> Model \<Rightarrow> int" where
  "content_width w m = (let c = w - sidebar_width m in if sidebar_width m > 0 then c - 1 else c)"

section \<open>Cutting lines\<close>

text \<open>Where \<^verbatim>\<open>windowLines\<close> is called, the height is at least one, so its half is not negative.\<close>

definition windowLines :: "'a list \<Rightarrow> int \<Rightarrow> int \<Rightarrow> 'a list option" where
  "windowLines ls cursorLine h =
     (let n = int (length ls) in
      if n \<le> h then Some ls
      else
        let start0 = cursorLine - h div 2; start1 = (if start0 < 0 then 0 else start0); start = (if start1 + h > n then n - h else start1) in
        slice_at ls start (start + h))"

definition clipLines :: "'a list \<Rightarrow> int \<Rightarrow> 'a list option" where
  "clipLines ls h = (if int (length ls) > h then slice_at ls 0 h else Some ls)"

lemma slice_at_Some:
  "0 \<le> lo \<Longrightarrow> lo \<le> hi \<Longrightarrow> hi \<le> int (length xs) \<Longrightarrow> slice_at xs lo hi = Some (take (nat hi - nat lo) (drop (nat lo) xs))"
  by (simp add: slice_at_def nat_le_iff nat_mono)

text \<open>The window: its start, with the cursor line in it if there is one.\<close>

lemma window_start:
  fixes c h k n :: int
  assumes "0 \<le> k" "k < h" "h < n"
    and "start = (if (if c - k < 0 then 0 else c - k) + h > n then n - h else (if c - k < 0 then 0 else c - k))"
  shows "0 \<le> start" "start + h \<le> n" "0 \<le> c \<Longrightarrow> start \<le> c" "c < n \<Longrightarrow> c < start + h"
  using assms by (auto split: if_splits)

lemma windowLines_cut:
  assumes "1 \<le> h" "h < int (length ls)"
  obtains start where "0 \<le> start" "start + h \<le> int (length ls)" "0 \<le> c \<Longrightarrow> start \<le> c" "c < int (length ls) \<Longrightarrow> c < start + h"
    and "windowLines ls c h = Some (take (nat (start + h) - nat start) (drop (nat start) ls))"
proof -
  have k: "0 \<le> h div 2" "h div 2 < h" using assms(1) by simp_all
  define start where "start = (if (if c - h div 2 < 0 then 0 else c - h div 2) + h > int (length ls) then int (length ls) - h
    else (if c - h div 2 < 0 then 0 else c - h div 2))"
  note w = window_start [OF k assms(2) start_def]
  have "windowLines ls c h = slice_at ls start (start + h)"
    using assms(2) unfolding windowLines_def Let_def start_def by simp
  then show thesis using that [OF w] w(1,2) assms(1) by (simp add: slice_at_Some)
qed

lemma windowLines_Some: "1 \<le> h \<Longrightarrow> windowLines ls c h \<noteq> None"
proof (cases "int (length ls) \<le> h")
  case False
  assume "1 \<le> h"
  with False show ?thesis using windowLines_cut [of h ls c] by auto
qed (simp add: windowLines_def)

lemma clipLines_Some: "0 \<le> h \<Longrightarrow> clipLines ls h \<noteq> None"
  by (simp add: clipLines_def slice_at_Some)

text \<open>The cursor line is among the lines that are left.\<close>

lemma windowLines_cursor:
  assumes "1 \<le> h" "0 \<le> c" "c < int (length ls)"
  shows "\<exists>r. windowLines ls c h = Some r \<and> ls ! nat c \<in> set r"
proof (cases "int (length ls) \<le> h")
  case True
  then show ?thesis using assms by (simp add: windowLines_def)
next
  case False
  then obtain start where s: "0 \<le> start" "start + h \<le> int (length ls)" "start \<le> c" "c < start + h"
    and r: "windowLines ls c h = Some (take (nat (start + h) - nat start) (drop (nat start) ls))"
    using windowLines_cut [OF assms(1), of ls c] assms(2,3) by auto
  have k: "nat c - nat start < nat (start + h) - nat start" "nat start + (nat c - nat start) = nat c" "nat c < length ls" "nat start \<le> nat c"
    using s assms by linarith+
  have l: "nat c - nat start < length (take (nat (start + h) - nat start) (drop (nat start) ls))" using k(1,3,4) by (simp add: diff_less_mono)
  have "take (nat (start + h) - nat start) (drop (nat start) ls) ! (nat c - nat start) = ls ! nat c"
    using k by simp
  then show ?thesis using r nth_mem [OF l] by simp
qed

section \<open>Drawing\<close>

record drawing =
  DLines :: "gostring list"
  DCursor :: int
  DHeader :: int
  DInput :: int
  DShown :: "gostring list"
  DNames :: "bytes list"

text \<open>An index, a slice or a count that fails is a panic.\<close>

definition needs :: "bool \<Rightarrow> Model \<Rightarrow> Model" where
  "needs b m = (if b then m else ui_panic m)"

definition peopleCount :: "Model \<Rightarrow> int" where
  "peopleCount m = int (length (people m)) + 1"

text \<open>\<^verbatim>\<open>personAt\<close>, None if its index is out of range.\<close>

definition personAt :: "int \<Rightarrow> Model \<Rightarrow> bytes option" where
  "personAt i m =
     (if i \<le> 0 then Some (Pubkey (mid m))
      else if i - 1 < int (length (people m)) then map_option fst (at (people m) (i - 1))
      else Some (Pubkey (mid m)))"

definition person_row :: "Model \<Rightarrow> int \<Rightarrow> bool" where
  "person_row m i \<longleftrightarrow> personAt i m \<noteq> None \<and> (i = 0 \<or> i - 1 \<ge> int (length (people m)) \<or> at (people m) (i - 1) \<noteq> None)"

definition settingsSections :: "string list" where
  "settingsSections = [''Appearance'', ''Network'', ''Identity'', ''Notifications'', ''Storage'', ''Keybindings'', ''Advanced'', ''About'']"

definition renderChat :: "drawing \<Rightarrow> int \<Rightarrow> int \<Rightarrow> Model \<Rightarrow> Model" where
  "renderChat D w h m =
     (case activeChannel m of
        None \<Rightarrow> touch_channel m
      | Some ch \<Rightarrow>
          let msgH0 = h - 2 - DInput D; msgH = (if msgH0 < 1 then 1 else msgH0) in
          needs (w \<ge> 0 \<and> windowLines (DLines D) (DCursor D) msgH \<noteq> None) m)"

definition renderForum :: "drawing \<Rightarrow> int \<Rightarrow> int \<Rightarrow> Model \<Rightarrow> Model" where
  "renderForum D w h m =
     (if openThread m \<ge> 0 \<and> openThread m < int (length (threads m)) then
        needs (at (threads m) (openThread m) \<noteq> None \<and> w - 2 \<ge> 0 \<and> clipLines (DLines D) h \<noteq> None) m
      else needs (windowLines (DLines D) (DCursor D) h \<noteq> None) m)"

definition renderContent :: "drawing \<Rightarrow> int \<Rightarrow> int \<Rightarrow> Model \<Rightarrow> Model" where
  "renderContent D w h m =
     (let window = (windowLines (DLines D) (DCursor D) h \<noteq> None); clip = (clipLines (DLines D) h \<noteq> None) in
      case mtab m of
        TabMessages \<Rightarrow> if mview m = MsgViewSealed then needs window m else renderChat D w h m
      | TabPeople \<Rightarrow> needs ((peopleDetail m \<or> list_all (person_row m) [0 .. peopleCount m - 1]) \<and> clip) m
      | TabFeed \<Rightarrow> needs window m
      | TabForum \<Rightarrow> renderForum D w h m
      | TabNetwork \<Rightarrow> needs ((peerSel m < int (length (peerList m)) \<longrightarrow> at (peerList m) (peerSel m) \<noteq> None) \<and> clip) m
      | TabSettings \<Rightarrow> needs ((settingsIn m \<longrightarrow> at settingsSections (settingsSec m) \<noteq> None) \<and> clip) m)"

text \<open>The fields of an open form are drawn with its labels.\<close>

definition fieldLines :: "Model \<Rightarrow> Model" where
  "fieldLines m = needs (list_all (\<lambda>i. at (ovFields m) (int i) \<noteq> None) [0 ..< ovLabels m]) m"

definition renderOverlay :: "Model \<Rightarrow> Model" where
  "renderOverlay m = (if moverlay m \<in> {OverlayNone, OverlayHelp, OverlayQuit} then m else fieldLines m)"

definition renderGate :: "drawing \<Rightarrow> int \<Rightarrow> Model \<Rightarrow> Model" where
  "renderGate D h m =
     (let n = int (length (DLines D)); bodyH0 = h - 3; bodyH = (if bodyH0 < 5 then 5 else bodyH0);
          maxScroll = (if n - bodyH < 0 then 0 else n - bodyH);
          m1 = m\<lparr>gateScroll := clamp (gateScroll m) 0 maxScroll\<rparr>
      in needs (n > bodyH \<longrightarrow> slice_at (DLines D) (gateScroll m1) (gateScroll m1 + bodyH) \<noteq> None) m1)"

definition View :: "ui_env \<Rightarrow> drawing \<Rightarrow> Model \<Rightarrow> Model" where
  "View E D m0 =
     (if quitting m0 then m0
      else
        let w = (if mwidth m0 \<le> 0 then 80 else mwidth m0); h = (if mwidth m0 \<le> 0 then 24 else mheight m0) in
        if layout m0 = layoutNarrow then m0
        else if gateActive m0 then renderGate D h m0
        else
          let bodyH0 = h - DHeader D; bodyH = (if bodyH0 < 3 then 3 else bodyH0);
              m = renderOverlay (renderContent D (content_width w m0) bodyH m0);
              m1 = needs (connected m \<or> clipLines (DShown D) bodyH \<noteq> None) m
          in fold (\<lambda>pk m. fst (displayName E pk m)) (DNames D) m1)"

section \<open>What drawing changes\<close>

lemma needs_same: "\<exists>b. needs c m = m\<lparr>mpanic := b\<rparr>"
proof -
  have "needs c m = m\<lparr>mpanic := mpanic m \<or> \<not> c\<rparr>" by (simp add: needs_def ui_panic_def)
  then show ?thesis by blast
qed

lemma renderChat_same: "\<exists>b. renderChat D w h m = m\<lparr>mpanic := b\<rparr>"
proof (cases "activeChannel m")
  case None
  have "touch_channel m = needs (\<not> channel_panic m) m" by (simp add: touch_channel_def needs_def)
  then show ?thesis using needs_same None by (simp add: renderChat_def)
qed (use needs_same in \<open>simp add: renderChat_def Let_def\<close>)

lemma renderContent_same: "\<exists>b. renderContent D w h m = m\<lparr>mpanic := b\<rparr>"
  using needs_same renderChat_same by (simp add: renderContent_def renderForum_def Let_def split: Tab.split)

lemma renderOverlay_same: "\<exists>b. renderOverlay m = m\<lparr>mpanic := b\<rparr>"
proof -
  have "m = m\<lparr>mpanic := mpanic m\<rparr>" by simp
  then show ?thesis unfolding renderOverlay_def fieldLines_def using needs_same by metis
qed

lemma renderGate_same: "\<exists>j b. renderGate D h m = m\<lparr>gateScroll := j, mpanic := b\<rparr>"
  unfolding renderGate_def Let_def using needs_same [of _ "m\<lparr>gateScroll := _\<rparr>"] by metis

lemma View_same: "\<exists>p j b. View E D m = m\<lparr>profiles := p, gateScroll := j, mpanic := b\<rparr>"
proof -
  have id: "m = m\<lparr>profiles := profiles m, gateScroll := gateScroll m, mpanic := mpanic m\<rparr>" by simp
  consider "View E D m = m" | h where "View E D m = renderGate D h m"
    | w h c where "View E D m = fold (\<lambda>pk m. fst (displayName E pk m)) (DNames D) (needs c (renderOverlay (renderContent D w h m)))"
    unfolding View_def Let_def by (cases "quitting m"; cases "layout m = layoutNarrow"; cases "gateActive m") auto
  then show ?thesis
  proof cases
    case 1
    then show ?thesis using id by metis
  next
    case (2 h)
    obtain j b where "renderGate D h m = m\<lparr>gateScroll := j, mpanic := b\<rparr>" using renderGate_same by blast
    then have "View E D m = m\<lparr>profiles := profiles m, gateScroll := j, mpanic := b\<rparr>" using 2 by simp
    then show ?thesis by blast
  next
    case (3 w h c)
    obtain b1 where r1: "renderContent D w h m = m\<lparr>mpanic := b1\<rparr>" using renderContent_same by blast
    obtain b2 where r2: "renderOverlay (m\<lparr>mpanic := b1\<rparr>) = m\<lparr>mpanic := b1, mpanic := b2\<rparr>" using renderOverlay_same by blast
    obtain b3 where r3: "needs c (m\<lparr>mpanic := b1, mpanic := b2\<rparr>) = m\<lparr>mpanic := b1, mpanic := b2, mpanic := b3\<rparr>" using needs_same by blast
    obtain p where "fold (\<lambda>pk m. fst (displayName E pk m)) (DNames D) (m\<lparr>mpanic := b3\<rparr>) = m\<lparr>mpanic := b3, profiles := p\<rparr>"
      using name_fold by blast
    then have "View E D m = m\<lparr>profiles := p, gateScroll := gateScroll m, mpanic := b3\<rparr>" using 3 r1 r2 r3 by simp
    then show ?thesis by blast
  qed
qed

section \<open>What drawing needs\<close>

lemma layout_width: "layout m \<noteq> layoutNarrow \<Longrightarrow> 40 \<le> content_width (if mwidth m \<le> 0 then 80 else mwidth m) m"
  by (auto simp: layout_def content_width_def sidebar_width_def Let_def split: if_splits)

lemma person_rows: "list_all (person_row m) [0 .. peopleCount m - 1]"
  by (auto simp: list_all_iff person_row_def personAt_def peopleCount_def at_def)

text \<open>
  Drawing does not fail: at any size of the window, with any text, the selections that are not negative, a valid section of the settings and
  an open form with as many fields as labels are enough.
\<close>

lemma renderContent_ok:
  assumes "3 \<le> h" "2 \<le> w" "\<not> channel_panic m" "0 \<le> peerSel m" "0 \<le> settingsSec m" "settingsSec m < 8"
  shows "renderContent D w h m = m"
proof -
  have "at settingsSections (settingsSec m) \<noteq> None" using assms(5,6) by (simp add: at_def settingsSections_def)
  moreover have "at (peerList m) (peerSel m) \<noteq> None" if "peerSel m < int (length (peerList m))" using that assms(4) by (simp add: at_def)
  moreover have "at (threads m) (openThread m) \<noteq> None" if "0 \<le> openThread m" "openThread m < int (length (threads m))"
    using that by (simp add: at_def)
  moreover have "renderChat D w h m = m"
    using assms(2,3) windowLines_Some [of 1 "DLines D" "DCursor D"] windowLines_Some [of "h - 2 - DInput D" "DLines D" "DCursor D"]
    by (auto simp: renderChat_def touch_channel_def needs_def Let_def split: option.split)
  ultimately show ?thesis
    using assms(1,2) windowLines_Some [of h "DLines D" "DCursor D"] clipLines_Some [of h "DLines D"] person_rows [of m]
    by (simp add: renderContent_def renderForum_def needs_def Let_def del: not_None_eq split: Tab.split)
qed

lemma renderOverlay_ok: "(moverlay m \<notin> {OverlayNone, OverlayHelp, OverlayQuit} \<Longrightarrow> length (ovFields m) = ovLabels m) \<Longrightarrow> renderOverlay m = m"
  by (auto simp: renderOverlay_def fieldLines_def needs_def list_all_iff at_def)

lemma renderGate_ok: "mpanic (renderGate D h m) = mpanic m"
  by (auto simp: renderGate_def needs_def slice_at_Some clamp_def Let_def)

lemma View_ok:
  assumes "\<not> mpanic m" "\<not> channel_panic m" "0 \<le> peerSel m" "0 \<le> settingsSec m" "settingsSec m < 8"
    and "moverlay m \<notin> {OverlayNone, OverlayHelp, OverlayQuit} \<Longrightarrow> length (ovFields m) = ovLabels m"
  shows "\<not> mpanic (View E D m)"
proof -
  let ?w = "if mwidth m \<le> 0 then 80 else mwidth m"
  have c: "renderOverlay (renderContent D (content_width ?w m) (if h < 3 then 3 else h) m) = m"
    "needs (connected m \<or> clipLines (DShown D) (if h < 3 then 3 else h) \<noteq> None) m = m" if "layout m \<noteq> layoutNarrow" for h
    using layout_width [OF that] assms renderContent_ok [of _ _ m D] renderOverlay_ok [of m]
      clipLines_Some [of 3 "DShown D"] clipLines_Some [of h "DShown D"] by (auto simp: needs_def)
  obtain p where p: "fold (\<lambda>pk m. fst (displayName E pk m)) (DNames D) m = m\<lparr>profiles := p\<rparr>" using name_fold by blast
  show ?thesis unfolding View_def Let_def using assms(1) by (simp add: c p renderGate_ok del: not_None_eq)
qed

end
