(* ===== verification/Gandr_Keys.thy ===== *)
theory Gandr_Keys
  imports Gandr_View
begin

text \<open>
  \<^verbatim>\<open>pkg/tui/keys.go\<close>, \<^verbatim>\<open>commands.go\<close>, \<^verbatim>\<open>mouse.go\<close> and the keys of \<^verbatim>\<open>overlay.go\<close>: what a key, a typed
  command or a click does to the terminal client. A key has the name that Bubble Tea gives it and, where it is printable, its
  text. A click is resolved against the zones of the last rendering, \<open>uiGeometry\<close>, an argument here. The operands of
  \<^verbatim>\<open>%\<close> are never negative. Every index and slice of the source is one here that can fail, also where a check
  precedes it, and a failed one is a panic.
\<close>

section \<open>Text\<close>

text \<open>
  \<^verbatim>\<open>trimLastRune\<close>: the runes of a string, each re-encoded, an invalid byte as \<^verbatim>\<open>RuneError\<close>; None where the slice
  is out of range.
\<close>

function go_runes :: "gostring \<Rightarrow> gostring list" where
  "go_runes s =
     (if s = [] then []
      else case rune_width s of
        Some w \<Rightarrow> take w s # go_runes (drop w s)
      | None \<Rightarrow> [239, 191, 189] # go_runes (tl s))"
  by pat_completeness auto
termination
  by (relation "measure length") (auto dest: rune_width_pos)

declare go_runes.simps [simp del]

definition trimLastRune :: "gostring \<Rightarrow> gostring option" where
  "trimLastRune s =
     (let r = go_runes s in if r = [] then Some [] else map_option concat (slice_at r 0 (int (length r) - 1)))"

lemma trimLastRune_Some [simp]: "trimLastRune s = Some (concat (butlast (go_runes s)))"
proof -
  have "nat (int n - 1) = n - Suc 0" for n by linarith
  then show ?thesis by (simp add: trimLastRune_def slice_at_Some butlast_conv_take Let_def)
qed

text \<open>\<^verbatim>\<open>strings.Fields\<close>, with the field read so far, and \<^verbatim>\<open>strings.Join\<close> with a space.\<close>

function fields_from :: "gostring \<Rightarrow> gostring \<Rightarrow> gostring list" where
  "fields_from cur s =
     (let done = (if cur = [] then [] else [cur]) in
      if s = [] then done
      else if space_front s > 0 then done @ fields_from [] (drop (space_front s) s)
      else fields_from (cur @ [hd s]) (tl s))"
  by pat_completeness auto
termination
  by (relation "measure (length \<circ> snd)") auto

declare fields_from.simps [simp del]

definition Fields :: "gostring \<Rightarrow> gostring list" where
  "Fields s = fields_from [] s"

fun join_space :: "gostring list \<Rightarrow> gostring" where
  "join_space [] = []"
| "join_space [s] = s"
| "join_space (s # t # ts) = s @ str '' '' @ join_space (t # ts)"

text \<open>\<^verbatim>\<open>strings.EqualFold\<close>.\<close>

definition EqualFold :: "ui_env \<Rightarrow> gostring \<Rightarrow> gostring \<Rightarrow> bool" where
  "EqualFold E s t =
     (if list_all (\<lambda>b. unat b < 128) (s @ t) then ascii_lower s = ascii_lower t else UeEqualFold E s t)"

definition ui_ChannelID :: "prims \<Rightarrow> gostring \<Rightarrow> bytes" where
  "ui_ChannelID P name = sha256 P (str ''gandr-channel:'' @ name)"

section \<open>Views\<close>

record ui_key =
  KName :: string
  KRunes :: "gostring option"

text \<open>\<^verbatim>\<open>if sel < len(xs) { ... xs[sel] ... }\<close>.\<close>

definition with_sel :: "'a list \<Rightarrow> int \<Rightarrow> ('a \<Rightarrow> Model \<times> ui_cmd list) \<Rightarrow> Model \<Rightarrow> Model \<times> ui_cmd list" where
  "with_sel xs i f m =
     (if i < int (length xs) then (case at xs i of None \<Rightarrow> (ui_panic m, []) | Some x \<Rightarrow> f x) else (m, []))"

definition tabs :: "Tab list" where
  "tabs = [TabMessages, TabPeople, TabFeed, TabForum, TabNetwork, TabSettings]"

definition tab_index :: "Tab \<Rightarrow> nat" where
  "tab_index t = length (takeWhile (\<lambda>u. u \<noteq> t) tabs)"

definition clear_unread :: "bytes \<Rightarrow> Model \<Rightarrow> Model" where
  "clear_unread ch m = m\<lparr>chatUnread := (chatUnread m)(ch := 0)\<rparr>"

definition switchTab :: "Tab \<Rightarrow> Model \<Rightarrow> Model" where
  "switchTab t m0 =
     (let m = m0\<lparr>mtab := t\<rparr> in
      case t of
        TabFeed \<Rightarrow> m\<lparr>feedUnread := 0\<rparr>
      | TabForum \<Rightarrow> m\<lparr>forumUnread := 0\<rparr>
      | TabMessages \<Rightarrow>
          if mview m = MsgViewChat then
            (case activeChannel m of None \<Rightarrow> touch_channel m | Some ch \<Rightarrow> clear_unread (ChID ch) m)
          else m
      | _ \<Rightarrow> m)"

definition typing :: "Model \<Rightarrow> bool" where
  "typing m \<longleftrightarrow> mtab m = TabMessages \<and> mview m = MsgViewChat \<and> inputFocused m \<and> minput m \<noteq> []"

definition openSealedView :: "Model \<Rightarrow> Model" where
  "openSealedView m = m\<lparr>mtab := TabMessages, mview := MsgViewSealed\<rparr>"

definition showProfile :: "bytes \<Rightarrow> Model \<Rightarrow> Model" where
  "showProfile pk m = switchTab TabPeople (m\<lparr>profileTarget := pk, peopleDetail := True\<rparr>)"

definition moveChatSel :: "int \<Rightarrow> Model \<Rightarrow> Model" where
  "moveChatSel delta m =
     (case activeChannel m of
        None \<Rightarrow> touch_channel m
      | Some ch \<Rightarrow>
          let last = last_index (mmessages m (ChID ch)); sel = clamp (msgSel m + delta) 0 last in
          m\<lparr>msgSel := sel, follow := (sel = last)\<rparr>)"

definition chatSelEnd :: "Model \<Rightarrow> Model" where
  "chatSelEnd m =
     (case activeChannel m of
        None \<Rightarrow> touch_channel m
      | Some ch \<Rightarrow> m\<lparr>msgSel := last_index (mmessages m (ChID ch)), follow := True\<rparr>)"

text \<open>\<^verbatim>\<open>chatCursor\<close> panics, has no message or has one.\<close>

definition chatCursor :: "Model \<Rightarrow> unit + ui_message option" where
  "chatCursor m =
     (case activeChannel m of
        None \<Rightarrow> if channel_panic m then Inl () else Inr None
      | Some ch \<Rightarrow>
          let msgs = mmessages m (ChID ch) in
          if msgSel m < 0 \<or> msgSel m \<ge> int (length msgs) then Inr None
          else (case at msgs (msgSel m) of None \<Rightarrow> Inl () | Some x \<Rightarrow> Inr (Some x)))"

text \<open>An action on the message under the cursor, and one on the selected person.\<close>

definition at_cursor :: "(ui_message \<Rightarrow> Model \<times> ui_cmd list) \<Rightarrow> Model \<Rightarrow> Model \<times> ui_cmd list" where
  "at_cursor f m = (case chatCursor m of Inl _ \<Rightarrow> (ui_panic m, []) | Inr None \<Rightarrow> (m, []) | Inr (Some x) \<Rightarrow> f x)"

definition with_person :: "(bytes \<Rightarrow> Model \<times> ui_cmd list) \<Rightarrow> Model \<Rightarrow> Model \<times> ui_cmd list" where
  "with_person f m = (case personAt (peopleSel m) m of None \<Rightarrow> (ui_panic m, []) | Some pk \<Rightarrow> f pk)"

definition setPeerTrust :: "bytes \<Rightarrow> byte \<Rightarrow> string \<Rightarrow> ui_cmd list" where
  "setPeerTrust i level ok = [CmdSetTrust i level ok]"

section \<open>Commands\<close>

text \<open>\<^verbatim>\<open>args[i]\<close> and \<^verbatim>\<open>strings.Join(args[1:], " ")\<close>.\<close>

definition with_arg :: "gostring list \<Rightarrow> int \<Rightarrow> (gostring \<Rightarrow> Model \<times> ui_cmd list) \<Rightarrow> Model \<Rightarrow> Model \<times> ui_cmd list" where
  "with_arg args i f m = (case at args i of None \<Rightarrow> (ui_panic m, []) | Some a \<Rightarrow> f a)"

definition with_rest :: "gostring list \<Rightarrow> (gostring \<Rightarrow> Model \<times> ui_cmd list) \<Rightarrow> Model \<Rightarrow> Model \<times> ui_cmd list" where
  "with_rest args f m = (case slice_at args 1 (int (length args)) of None \<Rightarrow> (ui_panic m, []) | Some as \<Rightarrow> f (join_space as))"

definition resolveTarget :: "ui_env \<Rightarrow> gostring \<Rightarrow> Model \<Rightarrow> bytes option" where
  "resolveTarget E ref m =
     (let nicks = (case ListNicknames (UeP E) (UeDb E ''ListNicknames'') (mdb m) of Inl _ \<Rightarrow> [] | Inr ns \<Rightarrow> ns) in
      case find (\<lambda>n. EqualFold E (NName n) ref) nicks of
        Some n \<Rightarrow> Some (NPubkey n)
      | None \<Rightarrow>
          (case DecodeString (TrimPrefix ref (str ''~'')) of
             Some b \<Rightarrow> if length b = 32 then Some b else None
           | None \<Rightarrow> None))"

definition with_target :: "ui_env \<Rightarrow> gostring \<Rightarrow> (bytes \<Rightarrow> Model \<times> ui_cmd list) \<Rightarrow> Model \<Rightarrow> Model \<times> ui_cmd list" where
  "with_target E ref f m = (case resolveTarget E ref m of None \<Rightarrow> (m, [CmdStatus ''unknown person'']) | Some pk \<Rightarrow> f pk)"

text \<open>Both callers of \<^verbatim>\<open>ListChannels\<close> ignore its error and are left without channels.\<close>

definition listed_channels :: "ui_env \<Rightarrow> DB \<Rightarrow> Channel list" where
  "listed_channels E d =
     (case ListChannels (UeP E) (UeDb E ''ListChannels'') (UeChanSort E) d of Inl _ \<Rightarrow> [] | Inr chs \<Rightarrow> chs)"

text \<open>The loop over the channels: the last with the identifier is selected.\<close>

fun select_channel :: "bytes \<Rightarrow> int \<Rightarrow> Channel list \<Rightarrow> int \<Rightarrow> int" where
  "select_channel i j [] sel = sel"
| "select_channel i j (c # cs) sel = select_channel i (j + 1) cs (if ChID c = i then j else sel)"

definition cmd_join :: "ui_env \<Rightarrow> gostring \<Rightarrow> Model \<Rightarrow> Model \<times> ui_cmd list" where
  "cmd_join E arg m =
     (let name = TrimPrefix arg (str ''#''); i = ui_ChannelID (UeP E) name in
      case JoinChannel (UeP E) (UeDb E ''JoinChannel'') (ui_unix E) (UeRnd E) i name (mdb m) of
        (d, Inl _) \<Rightarrow> (m\<lparr>mdb := d\<rparr>, [CmdStatus ''join failed''])
      | (d, Inr _) \<Rightarrow>
          let chs = listed_channels E d in
          (chatSelEnd (m\<lparr>mdb := d, mchannels := chs, channelSel := select_channel i 0 chs (channelSel m)\<rparr>), [CmdSubscribe i]))"

definition cmd_leave :: "ui_env \<Rightarrow> Model \<Rightarrow> Model \<times> ui_cmd list" where
  "cmd_leave E m =
     (case activeChannel m of
        None \<Rightarrow> (touch_channel m, [CmdStatus ''no channel selected''])
      | Some ch \<Rightarrow>
          let d = fst (LeaveChannel (UeDb E ''LeaveChannel'') (ChID ch) (mdb m)); chs = listed_channels E d in
          (m\<lparr>mdb := d, mchannels := chs, channelSel := clamp (channelSel m) 0 (last_index chs)\<rparr>, [CmdUnsubscribe (ChID ch)]))"

definition cmd_note :: "ui_env \<Rightarrow> bytes \<Rightarrow> gostring \<Rightarrow> Model \<Rightarrow> Model \<times> ui_cmd list" where
  "cmd_note E pk note m =
     (case GetNickname (UeP E) (UeDb E ''GetNickname'') pk (mdb m) of
        Inr n \<Rightarrow> save_nickname E (n\<lparr>NNote := note\<rparr>) ''note failed'' ''note saved'' m
      | Inl _ \<Rightarrow>
          (case displayName E pk m of
             (m1, name) \<Rightarrow>
               save_nickname E \<lparr>NPubkey = pk, NName = name, NNote = note, NAddedAt = 0, NTrustHint = TrustNeutral\<rparr> ''note failed'' ''note saved'' m1))"

definition cmd_block :: "ui_env \<Rightarrow> bytes \<Rightarrow> gostring \<Rightarrow> Model \<Rightarrow> Model \<times> ui_cmd list" where
  "cmd_block E pk reason m =
     (case Block (UeP E) (UeDb E ''Block'') (ui_unix E) (UeRnd E) pk reason (mdb m) of
        (d, Inl _) \<Rightarrow> (m\<lparr>mdb := d\<rparr>, [CmdStatus ''block failed''])
      | (d, Inr _) \<Rightarrow> (m\<lparr>mdb := d\<rparr>, [CmdStatus ''blocked locally'']))"

definition cmd_unblock :: "ui_env \<Rightarrow> bytes \<Rightarrow> Model \<Rightarrow> Model \<times> ui_cmd list" where
  "cmd_unblock E pk m =
     (case Unblock (UeDb E ''Unblock'') pk (mdb m) of
        (d, Inl _) \<Rightarrow> (m\<lparr>mdb := d\<rparr>, [CmdStatus ''unblock failed''])
      | (d, Inr _) \<Rightarrow> (m\<lparr>mdb := d\<rparr>, [CmdStatus ''unblocked'']))"

definition trust_level :: "gostring \<Rightarrow> byte option" where
  "trust_level s =
     (if s = str ''untrusted'' then Some TrustUntrusted
      else if s = str ''neutral'' then Some TrustNeutral
      else if s = str ''trusted'' then Some TrustTrusted
      else if s = str ''vouched'' then Some TrustVouched
      else None)"

text \<open>The changes of \<^verbatim>\<open>runSet\<close> to the profile; None where an index is out of range.\<close>

definition set_theme_field :: "gostring \<Rightarrow> (gostring \<Rightarrow> ProfileBody \<Rightarrow> ProfileBody) option" where
  "set_theme_field f =
     (if f = str ''bg'' then Some (\<lambda>v p. p\<lparr>Theme := (Theme p)\<lparr>BgColor := v\<rparr>\<rparr>)
      else if f = str ''fg'' then Some (\<lambda>v p. p\<lparr>Theme := (Theme p)\<lparr>FgColor := v\<rparr>\<rparr>)
      else if f = str ''accent'' then Some (\<lambda>v p. p\<lparr>Theme := (Theme p)\<lparr>AccentColor := v\<rparr>\<rparr>)
      else if f = str ''font'' then Some (\<lambda>v p. p\<lparr>Theme := (Theme p)\<lparr>Font := v\<rparr>\<rparr>)
      else if f = str ''layout'' then Some (\<lambda>v p. p\<lparr>Theme := (Theme p)\<lparr>Layout := v\<rparr>\<rparr>)
      else None)"

definition set_theme :: "gostring list \<Rightarrow> ProfileBody \<Rightarrow> (string + ProfileBody) option" where
  "set_theme args p =
     (if length args < 3 then Some (Inl ''usage'')
      else case at args 1 of
        None \<Rightarrow> None
      | Some f \<Rightarrow>
          (case set_theme_field f of
             None \<Rightarrow> Some (Inl ''unknown theme field'')
           | Some upd \<Rightarrow> (case at args 2 of None \<Rightarrow> None | Some v \<Rightarrow> Some (Inr (upd v p)))))"

definition set_profile_field :: "gostring list \<Rightarrow> ProfileBody \<Rightarrow> (string + ProfileBody) option" where
  "set_profile_field args p =
     (case slice_at args 1 (int (length args)) of
        None \<Rightarrow> None
      | Some rest \<Rightarrow>
          (case at args 0 of
             None \<Rightarrow> None
           | Some f \<Rightarrow>
               let value = join_space rest in
               if f = str ''name'' then Some (Inr (p\<lparr>DisplayName := value\<rparr>))
               else if f = str ''status'' then Some (Inr (p\<lparr>Status := value\<rparr>))
               else if f = str ''mood'' then Some (Inr (p\<lparr>Mood := value\<rparr>))
               else if f = str ''np'' then Some (Inr (p\<lparr>NowPlaying := value\<rparr>))
               else if f = str ''bio'' then Some (Inr (p\<lparr>Bio := value\<rparr>))
               else if f = str ''theme'' then set_theme args p
               else Some (Inl ''unknown field'')))"

definition runSet :: "ui_env \<Rightarrow> gostring list \<Rightarrow> Model \<Rightarrow> Model \<times> ui_cmd list" where
  "runSet E args m =
     (if length args < 2 then (m, [CmdStatus ''usage''])
      else case set_profile_field args (ownProfile m) of
        None \<Rightarrow> (ui_panic m, [])
      | Some (Inl s) \<Rightarrow> (m, [CmdStatus s])
      | Some (Inr p) \<Rightarrow> publish_profile E p m)"

text \<open>The check of the number of arguments, and the commands that have one.\<close>

definition usage :: "nat \<Rightarrow> gostring list \<Rightarrow> Model \<times> ui_cmd list \<Rightarrow> Model \<Rightarrow> Model \<times> ui_cmd list" where
  "usage n args r m = (if length args < n then (m, [CmdStatus ''usage'']) else r)"

definition cmd_nick :: "ui_env \<Rightarrow> bytes \<Rightarrow> gostring \<Rightarrow> Model \<Rightarrow> Model \<times> ui_cmd list" where
  "cmd_nick E pk name m =
     set_name E pk name (case GetNickname (UeP E) (UeDb E ''GetNickname'') pk (mdb m) of Inl _ \<Rightarrow> [] | Inr n \<Rightarrow> NNote n) ''nick failed'' m"

definition cmd_trust :: "bytes \<Rightarrow> gostring \<Rightarrow> Model \<Rightarrow> Model \<times> ui_cmd list" where
  "cmd_trust pk level m =
     (case trust_level level of
        None \<Rightarrow> (m, [CmdStatus ''unknown trust level''])
      | Some l \<Rightarrow> (m, setPeerTrust pk l ''trust set''))"

definition cmd_connect :: "ui_env \<Rightarrow> gostring \<Rightarrow> Model \<Rightarrow> Model \<times> ui_cmd list" where
  "cmd_connect E key m0 =
     (let m = openCompose OverlayPeerConnect 1 zero32 m0 in
      case at (ovFields m) 0 of
        None \<Rightarrow> (ui_panic m, [])
      | Some _ \<Rightarrow> submitOverlay E (m\<lparr>ovFields := (ovFields m)[0 := key]\<rparr>))"

definition runCommand :: "ui_env \<Rightarrow> gostring \<Rightarrow> Model \<Rightarrow> Model \<times> ui_cmd list" where
  "runCommand E line m =
     (case Fields line of
        [] \<Rightarrow> (ui_panic m, [])
      | cmd # args \<Rightarrow>
          let target = (\<lambda>f. with_arg args 0 (\<lambda>ref. with_target E ref f m) m) in
          if cmd = str ''/help'' then (m\<lparr>moverlay := OverlayHelp\<rparr>, [])
          else if cmd = str ''/join'' then usage 1 args (with_arg args 0 (\<lambda>name. cmd_join E name m) m) m
          else if cmd = str ''/leave'' then cmd_leave E m
          else if cmd = str ''/nick'' then usage 2 args (target (\<lambda>pk. with_rest args (\<lambda>name. cmd_nick E pk name m) m)) m
          else if cmd = str ''/note'' then usage 2 args (target (\<lambda>pk. with_rest args (\<lambda>note. cmd_note E pk note m) m)) m
          else if cmd = str ''/block'' then usage 1 args (target (\<lambda>pk. with_rest args (\<lambda>reason. cmd_block E pk reason m) m)) m
          else if cmd = str ''/unblock'' then usage 1 args (target (\<lambda>pk. cmd_unblock E pk m)) m
          else if cmd = str ''/trust'' then usage 2 args (target (\<lambda>pk. with_arg args 1 (\<lambda>level. cmd_trust pk level m) m)) m
          else if cmd = str ''/connect'' then usage 1 args (with_arg args 0 (\<lambda>key. cmd_connect E key m) m) m
          else if cmd = str ''/seal'' then usage 1 args (target (\<lambda>pk. (openSealOverlay pk m, []))) m
          else if cmd = str ''/sealed'' then (openSealedView m, [])
          else if cmd = str ''/profile'' then
            (if length args = 0 then (showProfile (Pubkey (mid m)) m, []) else target (\<lambda>pk. (showProfile pk m, [])))
          else if cmd = str ''/people'' then (switchTab TabPeople (m\<lparr>peopleDetail := False\<rparr>), [])
          else if cmd = str ''/peers'' then (let m1 = switchTab TabNetwork m in (m1, [CmdRequestPeers (mcli m1)]))
          else if cmd = str ''/set'' then runSet E args m
          else (m, [CmdStatus ''unknown command'']))"

section \<open>Overlay keys\<close>

definition ov_edit :: "(gostring \<Rightarrow> gostring option) \<Rightarrow> Model \<Rightarrow> Model" where
  "ov_edit f m =
     (case at (ovFields m) (ovField m) of
        None \<Rightarrow> ui_panic m
      | Some s \<Rightarrow> (case f s of None \<Rightarrow> ui_panic m | Some t \<Rightarrow> m\<lparr>ovFields := (ovFields m)[nat (ovField m) := t]\<rparr>))"

definition handleOverlayKey :: "ui_env \<Rightarrow> ui_key \<Rightarrow> Model \<Rightarrow> Model \<times> ui_cmd list" where
  "handleOverlayKey E key m =
     (let k = KName key; n = int (length (ovFields m)) in
      if moverlay m = OverlayHelp then (if k \<in> {''esc'', ''q'', ''?''} then closeOverlay m else m, [])
      else if moverlay m = OverlayQuit then
        (if k \<in> {''y'', ''Y''} then (m\<lparr>quitting := True\<rparr>, [CmdQuit]) else (closeOverlay m, []))
      else if k = ''esc'' then (closeOverlay m, [])
      else if k \<in> {''tab'', ''down''} then (if n > 1 then m\<lparr>ovField := (ovField m + 1) mod n\<rparr> else m, [])
      else if k \<in> {''shift+tab'', ''up''} then (if n > 1 then m\<lparr>ovField := (ovField m + n - 1) mod n\<rparr> else m, [])
      else if k = ''backspace'' then (ov_edit trimLastRune m, [])
      else if k = ''ctrl+d'' then (if moverlay m = OverlaySeal then m\<lparr>ovDeniable := \<not> ovDeniable m\<rparr> else m, [])
      else if k = ''enter'' then (if ovField m < n - 1 then (m\<lparr>ovField := ovField m + 1\<rparr>, []) else submitOverlay E m)
      else if k \<in> {'' '', ''space''} then (ov_edit (\<lambda>s. Some (s @ str '' '')) m, [])
      else (case KRunes key of None \<Rightarrow> m | Some r \<Rightarrow> ov_edit (\<lambda>s. Some (s @ r)) m, []))"

section \<open>Keys of the views\<close>

definition handleGateKey :: "ui_env \<Rightarrow> ui_key \<Rightarrow> Model \<Rightarrow> Model \<times> ui_cmd list" where
  "handleGateKey E key m =
     (let k = KName key in
      if gateView m then (m\<lparr>gateActive := False, gateView := False\<rparr>, [])
      else if k \<in> {''j'', ''down''} then (m\<lparr>gateScroll := gateScroll m + 1\<rparr>, [])
      else if k \<in> {''k'', ''up''} then (m\<lparr>gateScroll := max 0 (gateScroll m - 1)\<rparr>, [])
      else if k \<in> {''left'', ''h'', ''shift+tab''} then (m\<lparr>gateBtn := 0\<rparr>, [])
      else if k \<in> {''right'', ''l'', ''tab''} then (m\<lparr>gateBtn := 1\<rparr>, [])
      else if k = ''enter'' then
        (if gateBtn m = 1 then (m\<lparr>quitting := True\<rparr>, [CmdQuit])
         else (m\<lparr>mdb := fst (SetSetting (UeP E) (UeDb E ''SetSetting'') (UeRnd E) (str ''entry_accepted'') (str ''1'') (mdb m)),
                 gateActive := False\<rparr>, []))
      else if k \<in> {''q'', ''esc''} then (m\<lparr>quitting := True\<rparr>, [CmdQuit])
      else (m, []))"

definition input_enter :: "ui_env \<Rightarrow> Model \<Rightarrow> Model \<times> ui_cmd list" where
  "input_enter E m0 =
     (let line = TrimSpace (minput m0); m = m0\<lparr>minput := []\<rparr> in
      if line = [] then (m, [])
      else if HasPrefix line (str ''/'') then runCommand E line m
      else sendChat E line m)"

definition handle_input_key :: "ui_env \<Rightarrow> ui_key \<Rightarrow> Model \<Rightarrow> Model \<times> ui_cmd list" where
  "handle_input_key E key m =
     (let k = KName key in
      if k = ''enter'' then input_enter E m
      else if k = ''esc'' then (if minput m \<noteq> [] then m\<lparr>minput := []\<rparr> else m\<lparr>inputFocused := False\<rparr>, [])
      else if k = ''backspace'' then (case trimLastRune (minput m) of None \<Rightarrow> ui_panic m | Some s \<Rightarrow> m\<lparr>minput := s\<rparr>, [])
      else if k = ''up'' then (moveChatSel (-1) m, [])
      else if k = ''down'' then (moveChatSel 1 m, [])
      else if k \<in> {'' '', ''space''} then (m\<lparr>minput := minput m @ str '' ''\<rparr>, [])
      else (case KRunes key of None \<Rightarrow> m | Some r \<Rightarrow> m\<lparr>minput := minput m @ r\<rparr>, []))"

definition handle_list_key :: "ui_env \<Rightarrow> ui_key \<Rightarrow> Model \<Rightarrow> Model \<times> ui_cmd list" where
  "handle_list_key E key m =
     (let k = KName key in
      if k \<in> {''j'', ''down''} then (moveChatSel 1 m, [])
      else if k \<in> {''k'', ''up''} then (moveChatSel (-1) m, [])
      else if k = ''g'' then (m\<lparr>msgSel := 0, follow := False\<rparr>, [])
      else if k = ''G'' then (chatSelEnd m, [])
      else if k = ''i'' then (openSealedView m, [])
      else if k \<in> {''/'', ''enter'', ''esc''} then (m\<lparr>inputFocused := True\<rparr>, [])
      else if k = ''n'' then at_cursor (\<lambda>x. (openNickOverlay E (USender x) m, [])) m
      else if k = ''p'' then at_cursor (\<lambda>x. (showProfile (USender x) m, [])) m
      else if k = ''s'' then at_cursor (\<lambda>x. (openSealOverlay (USender x) m, [])) m
      else if k = ''r'' then
        at_cursor (\<lambda>x. case displayName E (USender x) (m\<lparr>inputFocused := True\<rparr>) of
          (m1, name) \<Rightarrow> (m1\<lparr>minput := str ''@'' @ name @ str '' ''\<rparr>, [])) m
      else (case KRunes key of None \<Rightarrow> m | Some r \<Rightarrow> m\<lparr>inputFocused := True, minput := minput m @ r\<rparr>, []))"

definition handleChatKey :: "ui_env \<Rightarrow> ui_key \<Rightarrow> Model \<Rightarrow> Model \<times> ui_cmd list" where
  "handleChatKey E key m = (if inputFocused m then handle_input_key E key m else handle_list_key E key m)"

definition handleProfileKey :: "ui_env \<Rightarrow> ui_key \<Rightarrow> Model \<Rightarrow> Model \<times> ui_cmd list" where
  "handleProfileKey E key m =
     (let k = KName key; own = (profileTarget m = Pubkey (mid m)) in
      if k = ''s'' then (if own then m else openSealOverlay (profileTarget m) m, [])
      else if k = ''g'' then (if own then m else openCompose OverlayGuestbook 1 (profileTarget m) m, [])
      else if k = ''n'' then (if own then m else openNickOverlay E (profileTarget m) m, [])
      else if k = ''e'' then
        (if own then
           let p = ownProfile m in
           m\<lparr>moverlay := OverlayProfileEdit, ovLabels := 5, ovFields := [DisplayName p, Bio p, Status p, Mood p, NowPlaying p], ovField := 0\<rparr>
         else m, [])
      else if k = ''esc'' then (m\<lparr>peopleDetail := False, profileTarget := Pubkey (mid m)\<rparr>, [])
      else (m, []))"

definition handlePeopleKey :: "ui_env \<Rightarrow> ui_key \<Rightarrow> Model \<Rightarrow> Model \<times> ui_cmd list" where
  "handlePeopleKey E key m =
     (let k = KName key in
      if peopleDetail m then handleProfileKey E key m
      else if k \<in> {''j'', ''down''} then (m\<lparr>peopleSel := clamp (peopleSel m + 1) 0 (peopleCount m - 1)\<rparr>, [])
      else if k \<in> {''k'', ''up''} then (m\<lparr>peopleSel := clamp (peopleSel m - 1) 0 (peopleCount m - 1)\<rparr>, [])
      else if k = ''g'' then (m\<lparr>peopleSel := 0\<rparr>, [])
      else if k = ''G'' then (m\<lparr>peopleSel := peopleCount m - 1\<rparr>, [])
      else if k \<in> {''enter'', ''p''} then with_person (\<lambda>pk. (m\<lparr>profileTarget := pk, peopleDetail := True\<rparr>, [])) m
      else if k = ''n'' then (if peopleSel m > 0 then with_person (\<lambda>pk. (openNickOverlay E pk m, [])) m else (m, []))
      else if k = ''s'' then (if peopleSel m > 0 then with_person (\<lambda>pk. (openSealOverlay pk m, [])) m else (m, []))
      else if k = ''b'' then
        (if peopleSel m > 0 then with_person (\<lambda>pk.
            if is_blocked E pk m then (m\<lparr>mdb := fst (Unblock (UeDb E ''Unblock'') pk (mdb m))\<rparr>, [CmdStatus ''unblocked''])
            else (m\<lparr>mdb := fst (Block (UeP E) (UeDb E ''Block'') (ui_unix E) (UeRnd E) pk [] (mdb m))\<rparr>, [CmdStatus ''blocked locally''])) m
         else (m, []))
      else if k = ''e'' then
        (if peopleSel m = 0 then handleProfileKey E key (m\<lparr>profileTarget := Pubkey (mid m), peopleDetail := True\<rparr>) else (m, []))
      else (m, []))"

definition handleFeedKey :: "ui_key \<Rightarrow> Model \<Rightarrow> Model \<times> ui_cmd list" where
  "handleFeedKey key m =
     (let k = KName key; last = last_index (posts m) in
      if k \<in> {''j'', ''down''} then (m\<lparr>postSel := clamp (postSel m + 1) 0 last\<rparr>, [])
      else if k \<in> {''k'', ''up''} then (m\<lparr>postSel := clamp (postSel m - 1) 0 last\<rparr>, [])
      else if k = ''g'' then (m\<lparr>postSel := 0\<rparr>, [])
      else if k = ''G'' then (m\<lparr>postSel := clamp last 0 last\<rparr>, [])
      else if k = ''enter'' then (m\<lparr>postExpanded := \<not> postExpanded m\<rparr>, [])
      else if k = ''esc'' then (m\<lparr>postExpanded := False\<rparr>, [])
      else if k = ''n'' then (openCompose OverlayPostNew 1 zero32 m, [])
      else if k = ''r'' then with_sel (posts m) (postSel m) (\<lambda>p. (openCompose OverlayPostNew 1 (FpId p) m, [])) m
      else if k = ''p'' then with_sel (posts m) (postSel m) (\<lambda>p. (showProfile (FpSender p) m, [])) m
      else if k = ''s'' then with_sel (posts m) (postSel m) (\<lambda>p. (openSealOverlay (FpSender p) m, [])) m
      else (m, []))"

definition handleForumKey :: "ui_env \<Rightarrow> ui_key \<Rightarrow> Model \<Rightarrow> Model \<times> ui_cmd list" where
  "handleForumKey E key m =
     (let k = KName key; last = last_index (threads m) in
      if openThread m \<ge> 0 then
        (if k = ''esc'' then (m\<lparr>openThread := -1\<rparr>, [])
         else if k = ''r'' then with_sel (threads m) (openThread m) (\<lambda>t. (openCompose OverlayPostNew 1 (FtId t) m, [])) m
         else if k = ''n'' then with_sel (threads m) (openThread m) (\<lambda>t. (openNickOverlay E (FtSender t) m, [])) m
         else (m, []))
      else if k \<in> {''j'', ''down''} then (m\<lparr>threadSel := clamp (threadSel m + 1) 0 last\<rparr>, [])
      else if k \<in> {''k'', ''up''} then (m\<lparr>threadSel := clamp (threadSel m - 1) 0 last\<rparr>, [])
      else if k = ''g'' then (m\<lparr>threadSel := 0\<rparr>, [])
      else if k = ''G'' then (m\<lparr>threadSel := clamp last 0 last\<rparr>, [])
      else if k = ''enter'' then
        with_sel (threads m) (threadSel m) (\<lambda>t.
          (m\<lparr>openThread := threadSel m, threads := (threads m)[nat (threadSel m) := t\<lparr>FtRead := True\<rparr>]\<rparr>, [])) m
      else if k = ''n'' then (openCompose OverlayThreadNew 3 zero32 m, [])
      else if k = ''p'' then with_sel (threads m) (threadSel m) (\<lambda>t. (showProfile (FtSender t) m, [])) m
      else (m, []))"

definition reveal :: "ui_env \<Rightarrow> string \<Rightarrow> SealedMessage \<Rightarrow> Model \<Rightarrow> Model" where
  "reveal E k sm m =
     (if \<not> sealedOpen m (MsgHash sm) then
        let m1 = m\<lparr>sealedOpen := (sealedOpen m)(MsgHash sm := True)\<rparr> in
        if \<not> SRead sm then
          m1\<lparr>mdb := fst (MarkSealedRead (UeDb E ''MarkSealedRead'') (MsgHash sm) (mdb m1)),
             sealedMsgs := (sealedMsgs m1)[nat (sealedSel m1) := sm\<lparr>SRead := True\<rparr>],
             sealedUnread := (if sealedUnread m1 > 0 then sealedUnread m1 - 1 else sealedUnread m1)\<rparr>
        else m1
      else if k = ''s'' then openSealOverlay (SSender sm) m
      else m)"

definition handleSealedKey :: "ui_env \<Rightarrow> ui_key \<Rightarrow> Model \<Rightarrow> Model \<times> ui_cmd list" where
  "handleSealedKey E key m =
     (let k = KName key; last = last_index (sealedMsgs m); sel = with_sel (sealedMsgs m) (sealedSel m) in
      if k \<in> {''esc'', ''i''} then (m\<lparr>mview := MsgViewChat\<rparr>, [])
      else if k \<in> {''j'', ''down''} then (m\<lparr>sealedSel := clamp (sealedSel m + 1) 0 last\<rparr>, [])
      else if k \<in> {''k'', ''up''} then (m\<lparr>sealedSel := clamp (sealedSel m - 1) 0 last\<rparr>, [])
      else if k \<in> {''enter'', ''s''} then sel (\<lambda>sm. (reveal E k sm m, [])) m
      else if k = ''d'' then sel (\<lambda>sm. ((openSealOverlay (SSender sm) m)\<lparr>ovDeniable := True\<rparr>, [])) m
      else if k = ''n'' then sel (\<lambda>sm. (openNickOverlay E (SSender sm) m, [])) m
      else if k = ''p'' then sel (\<lambda>sm. (showProfile (SSender sm) m, [])) m
      else (m, []))"

definition handlePeersKey :: "ui_env \<Rightarrow> ui_key \<Rightarrow> Model \<Rightarrow> Model \<times> ui_cmd list" where
  "handlePeersKey E key m =
     (let k = KName key; last = last_index (peerList m); sel = with_sel (peerList m) (peerSel m) in
      if k \<in> {''j'', ''down''} then (m\<lparr>peerSel := clamp (peerSel m + 1) 0 last\<rparr>, [])
      else if k \<in> {''k'', ''up''} then (m\<lparr>peerSel := clamp (peerSel m - 1) 0 last\<rparr>, [])
      else if k = ''c'' then (openCompose OverlayPeerConnect 1 zero32 m, [])
      else if k = ''v'' then sel (\<lambda>p. (m, setPeerTrust (IIdentity p) 3 ''vouched for peer'')) m
      else if k = ''b'' then sel (\<lambda>p. (m, setPeerTrust (IIdentity p) 0 ''peer set to untrusted'')) m
      else if k = ''n'' then sel (\<lambda>p. (openNickOverlay E (IIdentity p) m, [])) m
      else (m, []))"

text \<open>The sections with keys of their own; there are eight.\<close>

abbreviation (input) secAppearance :: int where "secAppearance \<equiv> 0"
abbreviation (input) secAdvanced :: int where "secAdvanced \<equiv> 6"
abbreviation (input) secAbout :: int where "secAbout \<equiv> 7"
abbreviation (input) secCount :: int where "secCount \<equiv> 8"

text \<open>The last theme with the name of the current one, as the loop leaves it.\<close>

definition theme_item :: "ui_theme \<Rightarrow> int" where
  "theme_item t = (case filter (\<lambda>i. ThemeName (themes ! i) = ThemeName t) [0..<length themes] of [] \<Rightarrow> 0 | is \<Rightarrow> int (last is))"

definition handle_appearance_key :: "ui_env \<Rightarrow> string \<Rightarrow> Model \<Rightarrow> Model \<times> ui_cmd list" where
  "handle_appearance_key E k m =
     (if k \<in> {''j'', ''down''} then (m\<lparr>settingsItem := clamp (settingsItem m + 1) 0 (last_index themes)\<rparr>, [])
      else if k \<in> {''k'', ''up''} then (m\<lparr>settingsItem := clamp (settingsItem m - 1) 0 (last_index themes)\<rparr>, [])
      else if k = ''enter'' then
        (case at themes (settingsItem m) of
           None \<Rightarrow> (ui_panic m, [])
         | Some t \<Rightarrow>
             (case SetSetting (UeP E) (UeDb E ''SetSetting'') (UeRnd E) (str ''theme'') (ThemeName t) (mdb m) of
                (d, Inl _) \<Rightarrow> (m\<lparr>mtheme := t, mdb := d\<rparr>, [CmdStatus ''theme save failed''])
              | (d, Inr _) \<Rightarrow> (m\<lparr>mtheme := t, mdb := d\<rparr>, [CmdStatus ''theme''])))
      else (m, []))"

definition handleSettingsKey :: "ui_env \<Rightarrow> ui_key \<Rightarrow> Model \<Rightarrow> Model \<times> ui_cmd list" where
  "handleSettingsKey E key m =
     (let k = KName key in
      if \<not> settingsIn m then
        (if k \<in> {''j'', ''down''} then (m\<lparr>settingsSec := clamp (settingsSec m + 1) 0 (secCount - 1)\<rparr>, [])
         else if k \<in> {''k'', ''up''} then (m\<lparr>settingsSec := clamp (settingsSec m - 1) 0 (secCount - 1)\<rparr>, [])
         else if k \<in> {''enter'', ''l'', ''right''} then
           (m\<lparr>settingsIn := True, settingsItem := (if settingsSec m = secAppearance then theme_item (mtheme m) else 0)\<rparr>, [])
         else (m, []))
      else if k \<in> {''esc'', ''h'', ''left''} then (m\<lparr>settingsIn := False\<rparr>, [])
      else if settingsSec m = secAppearance then handle_appearance_key E k m
      else if settingsSec m = secAbout then (if k = ''enter'' then m\<lparr>gateActive := True, gateView := True\<rparr> else m, [])
      else if settingsSec m = secAdvanced then
        (if k = ''enter'' \<and> settingsItem m = 0 then m\<lparr>gateActive := True, gateView := True\<rparr> else m, [])
      else (m, []))"

section \<open>The dispatcher\<close>

definition handle_tab_key :: "ui_env \<Rightarrow> ui_key \<Rightarrow> Model \<Rightarrow> Model \<times> ui_cmd list" where
  "handle_tab_key E key m =
     (case mtab m of
        TabMessages \<Rightarrow> if mview m = MsgViewSealed then handleSealedKey E key m else handleChatKey E key m
      | TabPeople \<Rightarrow> handlePeopleKey E key m
      | TabFeed \<Rightarrow> handleFeedKey key m
      | TabForum \<Rightarrow> handleForumKey E key m
      | TabNetwork \<Rightarrow> handlePeersKey E key m
      | TabSettings \<Rightarrow> handleSettingsKey E key m)"

definition digit_tab :: "string \<Rightarrow> Tab option" where
  "digit_tab k = map_of (zip [''1'', ''2'', ''3'', ''4'', ''5'', ''6''] tabs) k"

definition handleKey :: "ui_env \<Rightarrow> ui_key \<Rightarrow> Model \<Rightarrow> Model \<times> ui_cmd list" where
  "handleKey E key m =
     (let k = KName key; i = tab_index (mtab m); n = length tabs in
      if k = ''ctrl+c'' then (m\<lparr>quitting := True\<rparr>, [CmdQuit])
      else if gateActive m then handleGateKey E key m
      else if moverlay m \<noteq> OverlayNone then handleOverlayKey E key m
      else if \<not> connected m \<and> k = ''r'' \<and> \<not> typing m then (m\<lparr>retryIn := 0\<rparr>, [CmdReconnect])
      else if k = ''tab'' then (switchTab (tabs ! ((i + 1) mod n)) m, [])
      else if k = ''shift+tab'' then (switchTab (tabs ! ((i + n - 1) mod n)) m, [])
      else if k = [CHR 0x5C] then (m\<lparr>showSidebar := \<not> showSidebar m\<rparr>, [])
      else if k = ''?'' \<and> \<not> typing m then (m\<lparr>moverlay := OverlayHelp\<rparr>, [])
      else if k = ''q'' \<and> \<not> typing m then (m\<lparr>moverlay := OverlayQuit\<rparr>, [])
      else if \<not> typing m then
        (case digit_tab k of Some t \<Rightarrow> (switchTab t m, []) | None \<Rightarrow> handle_tab_key E key m)
      else handle_tab_key E key m)"

section \<open>The mouse\<close>

datatype ui_button = WheelUp | WheelDown | LeftPress | OtherMouse

datatype side_kind = SideChannel | SideSealed | SidePerson

record tabZone =
  zX0 :: int
  zX1 :: int
  zTab :: Tab

record sideRow =
  rY :: int
  rKind :: side_kind
  rIndex :: int

record uiGeometry =
  tabRow :: int
  tabZones :: "tabZone list"
  bodyTop :: int
  sidebarW :: int
  sideRows :: "sideRow list"

definition scrollBy :: "int \<Rightarrow> Model \<Rightarrow> Model" where
  "scrollBy delta m =
     (case mtab m of
        TabMessages \<Rightarrow>
          if mview m = MsgViewSealed then m\<lparr>sealedSel := clamp (sealedSel m + delta) 0 (last_index (sealedMsgs m))\<rparr> else moveChatSel delta m
      | TabPeople \<Rightarrow> if peopleDetail m then m else m\<lparr>peopleSel := clamp (peopleSel m + delta) 0 (peopleCount m - 1)\<rparr>
      | TabFeed \<Rightarrow> m\<lparr>postSel := clamp (postSel m + delta) 0 (last_index (posts m))\<rparr>
      | TabForum \<Rightarrow> if openThread m < 0 then m\<lparr>threadSel := clamp (threadSel m + delta) 0 (last_index (threads m))\<rparr> else m
      | TabNetwork \<Rightarrow> m\<lparr>peerSel := clamp (peerSel m + delta) 0 (last_index (peerList m))\<rparr>
      | TabSettings \<Rightarrow>
          if settingsIn m \<and> settingsSec m = secAppearance then
            m\<lparr>settingsItem := clamp (settingsItem m + delta) 0 (last_index themes)\<rparr>
          else if \<not> settingsIn m then m\<lparr>settingsSec := clamp (settingsSec m + delta) 0 (secCount - 1)\<rparr>
          else m)"

definition click_side :: "sideRow \<Rightarrow> Model \<Rightarrow> Model" where
  "click_side r m =
     (case rKind r of
        SideChannel \<Rightarrow>
          if rIndex r < int (length (mchannels m)) then
            let m1 = chatSelEnd (m\<lparr>channelSel := rIndex r, mtab := TabMessages, mview := MsgViewChat\<rparr>) in
            (case at (mchannels m1) (rIndex r) of None \<Rightarrow> ui_panic m1 | Some ch \<Rightarrow> clear_unread (ChID ch) m1)
          else m
      | SideSealed \<Rightarrow> openSealedView m
      | SidePerson \<Rightarrow> switchTab TabPeople (m\<lparr>peopleSel := rIndex r + 1, peopleDetail := False\<rparr>))"

definition handleMouse :: "uiGeometry \<Rightarrow> ui_button \<Rightarrow> int \<Rightarrow> int \<Rightarrow> Model \<Rightarrow> Model" where
  "handleMouse g btn x y m =
     (if gateActive m \<or> moverlay m \<noteq> OverlayNone then m
      else case btn of
        WheelUp \<Rightarrow> scrollBy (-1) m
      | WheelDown \<Rightarrow> scrollBy 1 m
      | OtherMouse \<Rightarrow> m
      | LeftPress \<Rightarrow>
          if y = tabRow g then
            (case find (\<lambda>z. zX0 z \<le> x \<and> x \<le> zX1 z) (tabZones g) of None \<Rightarrow> m | Some z \<Rightarrow> switchTab (zTab z) m)
          else if sidebarW g > 0 \<and> x < sidebarW g \<and> y \<ge> bodyTop g then
            (case find (\<lambda>r. rY r = y) (sideRows g) of None \<Rightarrow> m | Some r \<Rightarrow> click_side r m)
          else m)"

text \<open>What the program does: an update by a key, the mouse or another message, or drawing.\<close>

datatype ui_event = KeyMsg ui_key | MouseMsg uiGeometry ui_button int int | OtherMsg ui_msg | Drawn drawing

fun tui_Update :: "ui_env \<Rightarrow> ui_event \<Rightarrow> Model \<Rightarrow> Model \<times> ui_cmd list" where
  "tui_Update E (KeyMsg key) m = handleKey E key m"
| "tui_Update E (MouseMsg g btn x y) m = (handleMouse g btn x y m, [])"
| "tui_Update E (OtherMsg u) m = ui_Update E u m"
| "tui_Update E (Drawn D) m = (View E D m, [])"

section \<open>No index is out of range\<close>

text \<open>
  What the indexing relies on: selections are not negative, the settings' selections are in range, an open form has its
  labels and fields and its cursor on one of them; and the sparkline keeps its width.
\<close>

definition ui_ok :: "Model \<Rightarrow> bool" where
  "ui_ok m \<longleftrightarrow> \<not> mpanic m \<and> 0 \<le> channelSel m \<and> 0 \<le> postSel m \<and> 0 \<le> threadSel m \<and> 0 \<le> sealedSel m \<and> 0 \<le> peerSel m \<and>
     0 \<le> settingsItem m \<and> settingsItem m < int (length themes) \<and> 0 \<le> settingsSec m \<and> settingsSec m < secCount \<and>
     length (sparkHistory m) \<le> 12 \<and>
     (form_size (moverlay m) > 0 \<longrightarrow>
        length (ovFields m) = form_size (moverlay m) \<and> ovLabels m = form_size (moverlay m) \<and> 0 \<le> ovField m \<and> ovField m < int (form_size (moverlay m)))"

lemma clamp_range [simp]: "0 \<le> clamp v 0 hi" "0 < n \<Longrightarrow> hi = n - 1 \<Longrightarrow> clamp v 0 hi < n"
  by (auto simp: clamp_def)

lemma length_themes [simp]: "length themes = 4" "last_index themes = 3"
  by (simp_all add: themes_def last_index_def)

lemma at_Some [simp]: "0 \<le> i \<Longrightarrow> i < int (length xs) \<Longrightarrow> at xs i = Some (xs ! nat i)"
  by (simp add: at_def)

lemma ok_channel [simp]: "ui_ok m \<Longrightarrow> \<not> channel_panic m" "ui_ok m \<Longrightarrow> touch_channel m = m"
  by (simp_all add: ui_ok_def channel_panic_def touch_channel_def)

lemma ok_if: "ui_ok (fst a) \<Longrightarrow> ui_ok (fst b) \<Longrightarrow> ui_ok (fst (if c then a else b))"
  by simp

lemma ok_cond: "(c \<Longrightarrow> ui_ok (fst a)) \<Longrightarrow> (\<not> c \<Longrightarrow> ui_ok (fst b)) \<Longrightarrow> ui_ok (fst (if c then a else b))"
  by simp

lemma ok_with_sel: "ui_ok m \<Longrightarrow> 0 \<le> i \<Longrightarrow> (\<And>x. ui_ok (fst (f x))) \<Longrightarrow> ui_ok (fst (with_sel xs i f m))"
  by (simp add: with_sel_def)

lemma ok_at_cursor: "ui_ok m \<Longrightarrow> (\<And>x. ui_ok (fst (f x))) \<Longrightarrow> ui_ok (fst (at_cursor f m))"
  by (auto simp: at_cursor_def chatCursor_def Let_def split: option.split)

lemma ok_with_person: "ui_ok m \<Longrightarrow> (\<And>pk. ui_ok (fst (f pk))) \<Longrightarrow> ui_ok (fst (with_person f m))"
  by (simp add: with_person_def personAt_def)

lemma ok_with_arg: "ui_ok m \<Longrightarrow> 0 \<le> i \<Longrightarrow> i < int (length as) \<Longrightarrow> (\<And>a. ui_ok (fst (f a))) \<Longrightarrow> ui_ok (fst (with_arg as i f m))"
  by (simp add: with_arg_def)

lemma ok_with_rest: "ui_ok m \<Longrightarrow> 1 \<le> length as \<Longrightarrow> (\<And>a. ui_ok (fst (f a))) \<Longrightarrow> ui_ok (fst (with_rest as f m))"
  by (simp add: with_rest_def slice_at_Some)

lemma ok_displayName [simp]: "ui_ok (fst (displayName E pk m)) = ui_ok m"
  by (subst displayName_same) (simp add: ui_ok_def)

lemma ok_trackPerson [simp]: "ui_ok (trackPerson E pk m) = ui_ok m"
proof -
  obtain ps p where "trackPerson E pk m = m\<lparr>people := ps, profiles := p\<rparr>" using trackPerson_same by blast
  then show ?thesis by (simp add: ui_ok_def)
qed

lemma ok_frame [simp]:
  "ui_ok (countIn env m) = ui_ok m" "ui_ok (countOut env m) = ui_ok m" "ui_ok (m\<lparr>mdb := d\<rparr>) = ui_ok m" "ui_ok (m\<lparr>profiles := p\<rparr>) = ui_ok m"
  "ui_ok (m\<lparr>inputFocused := b\<rparr>) = ui_ok m" "ui_ok (m\<lparr>minput := s\<rparr>) = ui_ok m" "ui_ok (m\<lparr>follow := b\<rparr>) = ui_ok m"
  "ui_ok (m\<lparr>msgSel := j\<rparr>) = ui_ok m" "ui_ok (m\<lparr>mtab := t\<rparr>) = ui_ok m" "ui_ok (m\<lparr>mview := v\<rparr>) = ui_ok m" "ui_ok (m\<lparr>quitting := b\<rparr>) = ui_ok m"
  "ui_ok (m\<lparr>peopleDetail := b\<rparr>) = ui_ok m" "ui_ok (m\<lparr>profileTarget := pk\<rparr>) = ui_ok m" "ui_ok (m\<lparr>peopleSel := j\<rparr>) = ui_ok m"
  "ui_ok (m\<lparr>mmessages := ms\<rparr>) = ui_ok m" "ui_ok (m\<lparr>mchannels := cs\<rparr>) = ui_ok m" "ui_ok (m\<lparr>posts := po\<rparr>) = ui_ok m"
  "ui_ok (m\<lparr>threads := ts\<rparr>) = ui_ok m" "ui_ok (m\<lparr>replies := rs\<rparr>) = ui_ok m" "ui_ok (m\<lparr>guestbook := gb\<rparr>) = ui_ok m"
  "ui_ok (m\<lparr>sealedMsgs := sm\<rparr>) = ui_ok m" "ui_ok (m\<lparr>sealedUnread := j\<rparr>) = ui_ok m" "ui_ok (m\<lparr>sealedOpen := so\<rparr>) = ui_ok m"
  "ui_ok (m\<lparr>feedUnread := j\<rparr>) = ui_ok m" "ui_ok (m\<lparr>forumUnread := j\<rparr>) = ui_ok m" "ui_ok (m\<lparr>chatUnread := cu\<rparr>) = ui_ok m"
  "ui_ok (m\<lparr>postExpanded := b\<rparr>) = ui_ok m" "ui_ok (m\<lparr>openThread := j\<rparr>) = ui_ok m" "ui_ok (m\<lparr>settingsIn := b\<rparr>) = ui_ok m"
  "ui_ok (m\<lparr>gateActive := b\<rparr>) = ui_ok m" "ui_ok (m\<lparr>gateView := b\<rparr>) = ui_ok m" "ui_ok (m\<lparr>gateScroll := j\<rparr>) = ui_ok m"
  "ui_ok (m\<lparr>gateBtn := k\<rparr>) = ui_ok m" "ui_ok (m\<lparr>ovDeniable := b\<rparr>) = ui_ok m" "ui_ok (m\<lparr>showSidebar := b\<rparr>) = ui_ok m"
  "ui_ok (m\<lparr>retryIn := j\<rparr>) = ui_ok m" "ui_ok (m\<lparr>mtheme := th\<rparr>) = ui_ok m" "ui_ok (m\<lparr>peerList := pl\<rparr>) = ui_ok m" "ui_ok (m\<lparr>mstatus := st\<rparr>) = ui_ok m"
  "ui_ok (m\<lparr>connected := b\<rparr>) = ui_ok m" "ui_ok (m\<lparr>retryDelay := j\<rparr>) = ui_ok m" "ui_ok (m\<lparr>pulse := b\<rparr>) = ui_ok m" "ui_ok (m\<lparr>mcli := k\<rparr>) = ui_ok m"
  "ui_ok (m\<lparr>mwidth := j\<rparr>) = ui_ok m" "ui_ok (m\<lparr>mheight := j\<rparr>) = ui_ok m" "ui_ok (m\<lparr>rateIn := w\<rparr>) = ui_ok m" "ui_ok (m\<lparr>rateOut := w\<rparr>) = ui_ok m"
  "ui_ok (m\<lparr>lastIn := w\<rparr>) = ui_ok m" "ui_ok (m\<lparr>lastOut := w\<rparr>) = ui_ok m"
  by (simp_all add: ui_ok_def countIn_def countOut_def)

lemma ok_sel [simp]:
  "ui_ok m \<Longrightarrow> 0 \<le> i \<Longrightarrow> ui_ok (m\<lparr>channelSel := i\<rparr>)" "ui_ok m \<Longrightarrow> 0 \<le> i \<Longrightarrow> ui_ok (m\<lparr>postSel := i\<rparr>)"
  "ui_ok m \<Longrightarrow> 0 \<le> i \<Longrightarrow> ui_ok (m\<lparr>threadSel := i\<rparr>)" "ui_ok m \<Longrightarrow> 0 \<le> i \<Longrightarrow> ui_ok (m\<lparr>sealedSel := i\<rparr>)"
  "ui_ok m \<Longrightarrow> 0 \<le> i \<Longrightarrow> ui_ok (m\<lparr>peerSel := i\<rparr>)"
  "ui_ok m \<Longrightarrow> 0 \<le> i \<Longrightarrow> i < 4 \<Longrightarrow> ui_ok (m\<lparr>settingsItem := i\<rparr>)" "ui_ok m \<Longrightarrow> 0 \<le> i \<Longrightarrow> i < secCount \<Longrightarrow> ui_ok (m\<lparr>settingsSec := i\<rparr>)"
  by (simp_all add: ui_ok_def)

lemma ok_overlay [simp]:
  "ui_ok m \<Longrightarrow> ui_ok (m\<lparr>moverlay := OverlayHelp\<rparr>)" "ui_ok m \<Longrightarrow> ui_ok (m\<lparr>moverlay := OverlayQuit\<rparr>)" "ui_ok m \<Longrightarrow> ui_ok (closeOverlay m)"
  "ui_ok m \<Longrightarrow> ui_ok (openNickOverlay E pk m)" "ui_ok m \<Longrightarrow> ui_ok (openSealOverlay pk m)"
  "ui_ok m \<Longrightarrow> n = form_size k \<Longrightarrow> ui_ok (openCompose k n pk m)"
  by (auto simp: ui_ok_def closeOverlay_def openNickOverlay_def openSealOverlay_def openCompose_def form_size_def
      split: sum.split Overlay.splits)

lemma ok_views [simp]:
  "ui_ok m \<Longrightarrow> ui_ok (switchTab t m)" "ui_ok m \<Longrightarrow> ui_ok (openSealedView m)" "ui_ok m \<Longrightarrow> ui_ok (moveChatSel j m)" "ui_ok m \<Longrightarrow> ui_ok (chatSelEnd m)"
  "ui_ok m \<Longrightarrow> ui_ok (clear_unread ch m)"
  by (simp_all add: switchTab_def openSealedView_def moveChatSel_def chatSelEnd_def clear_unread_def Let_def split: Tab.split option.split)

lemma ok_showProfile [simp]: "ui_ok m \<Longrightarrow> ui_ok (showProfile pk m)"
  by (simp add: showProfile_def)

lemma ok_sends [simp]:
  "ui_ok (fst (sendPayload E t rcp p ok m)) = ui_ok m" "ui_ok m \<Longrightarrow> ui_ok (fst (sendChat E s m))"
  "ui_ok m \<Longrightarrow> ui_ok (fst (publish_profile E pb m))" "ui_ok m \<Longrightarrow> ui_ok (fst (save_nickname E n bad good m))"
  "ui_ok m \<Longrightarrow> ui_ok (fst (submit_post E pk s m))" "ui_ok m \<Longrightarrow> ui_ok (fst (submit_thread E s c b m))"
  by (simp_all add: sendPayload_def sendChat_def publish_profile_def save_nickname_def submit_post_def submit_thread_def Let_def
      split: sum.split option.split prod.split)

lemma ok_set_name [simp]: "ui_ok m \<Longrightarrow> ui_ok (fst (set_name E pk n note bad m))"
  by (simp add: set_name_def)

lemma ok_sendSealed [simp]: "ui_ok m \<Longrightarrow> ui_ok (fst (sendSealed E pk s b m))"
  by (simp add: sendSealed_def split: sum.split)

lemma ok_submit: "ui_ok m \<Longrightarrow> ui_ok (fst (submitOverlay E m))"
proof -
  assume ok: "ui_ok m"
  have nopanic: "(closeOverlay m)\<lparr>mpanic := mpanic (closeOverlay m) \<or> length (ovFields m) < form_size (moverlay m)\<rparr> = closeOverlay m"
    using ok by (cases "form_size (moverlay m)") (simp_all add: ui_ok_def closeOverlay_def)
  have c: "ui_ok (closeOverlay m)" using ok by simp
  show ?thesis
    unfolding submitOverlay_def Let_def nopanic
    by (cases "moverlay m") (simp_all add: c split: option.split)
qed

text \<open>Messages from the daemon and the timers.\<close>

lemma ok_openSealed: "ui_ok m \<Longrightarrow> ui_ok (fst (openSealed E env m))"
  by (simp add: openSealed_def Let_def split: sum.split Payload.split)

lemma ok_handle_chat: "ui_ok m \<Longrightarrow> ui_ok (handle_chat E env ch s m)"
proof -
  assume ok: "ui_ok m"
  then have "\<not> channel_panic (trackPerson E (Sender env) m)" using ok_trackPerson ok_channel(1) by blast
  moreover have "\<not> mpanic (trackPerson E (Sender env) m)" using ok by (metis ok_trackPerson ui_ok_def)
  ultimately have "(trackPerson E (Sender env) m)\<lparr>mmessages := ms, mpanic := mpanic (trackPerson E (Sender env) m) \<or> channel_panic (trackPerson E (Sender env) m)\<rparr> =
      (trackPerson E (Sender env) m)\<lparr>mmessages := ms\<rparr>" for ms by simp
  then show ?thesis using ok by (simp add: handle_chat_def Let_def)
qed

lemma ok_applyDelete: "ui_ok m \<Longrightarrow> ui_ok (applyDelete E env m)"
  by (simp add: applyDelete_def split: sum.split Payload.split option.split)

lemma ok_add_reply: "ui_ok m \<Longrightarrow> ui_ok (add_reply E env parent s m)"
  by (simp add: add_reply_def)

lemma ok_handleIncoming: "ui_ok m \<Longrightarrow> ui_ok (fst (handleIncoming E env m))"
  unfolding handleIncoming_def Let_def
  by (intro ok_if; simp add: ok_openSealed ok_handle_chat ok_applyDelete ok_add_reply split: sum.split Payload.split)

lemma ok_sample: "ui_ok m \<Longrightarrow> ui_ok (sample m)"
proof -
  assume ok: "ui_ok m"
  obtain h where h: "sample m = m\<lparr>rateIn := inTotal m - lastIn m, rateOut := outTotal m - lastOut m, lastIn := inTotal m, lastOut := outTotal m,
      sparkHistory := h\<rparr>" "length (sparkHistory m) \<le> 12 \<longrightarrow> length h \<le> 12"
    using sample_same by blast
  then show ?thesis using ok by (simp add: ui_ok_def)
qed

lemma ok_ui_Update: "ui_ok m \<Longrightarrow> ui_ok (fst (ui_Update E u m))"
  by (cases u) (simp_all add: ok_handleIncoming ok_sample Let_def case_prod_beta)

text \<open>Typed commands.\<close>

lemma fields_from_cur: "cur \<noteq> [] \<Longrightarrow> fields_from cur s \<noteq> []"
proof (induction cur s rule: fields_from.induct)
  case (1 cur s)
  then show ?case by (subst fields_from.simps) (simp add: Let_def)
qed

lemma Fields_command: "HasPrefix line (str ''/'') \<Longrightarrow> Fields line \<noteq> []"
proof -
  assume "HasPrefix line (str ''/'')"
  then obtain r where l: "line = 47 # r" by (cases line) (auto simp: HasPrefix_def str_def)
  have "space_front line = 0" by (simp add: l space_front_def space1_def space2_def space3_def split: list.split)
  then show ?thesis unfolding Fields_def by (subst fields_from.simps) (simp add: l Let_def fields_from_cur)
qed

lemma select_channel_nonneg: "0 \<le> j \<Longrightarrow> 0 \<le> sel \<Longrightarrow> 0 \<le> select_channel i j cs sel"
  by (induction i j cs sel rule: select_channel.induct) auto

lemma ok_nonneg: "ui_ok m \<Longrightarrow> 0 \<le> channelSel m"
  by (simp add: ui_ok_def)

lemma ok_commands:
  assumes "ui_ok m"
  shows "ui_ok (fst (cmd_join E a m))" "ui_ok (fst (cmd_leave E m))" "ui_ok (fst (cmd_note E pk a m))" "ui_ok (fst (cmd_block E pk a m))"
    "ui_ok (fst (cmd_unblock E pk m))" "ui_ok (fst (cmd_nick E pk a m))" "ui_ok (fst (cmd_trust pk a m))"
  using assms ok_nonneg [OF assms] ok_displayName [of E pk m]
  by (auto simp: cmd_join_def cmd_leave_def cmd_note_def cmd_block_def cmd_unblock_def cmd_nick_def cmd_trust_def select_channel_nonneg Let_def
      simp del: ok_displayName split: sum.split option.split prod.split)

lemma ok_connect: "ui_ok m \<Longrightarrow> ui_ok (fst (cmd_connect E s m))"
proof -
  assume "ui_ok m"
  then have "ui_ok ((openCompose OverlayPeerConnect 1 zero32 m)\<lparr>ovFields := [s]\<rparr>)" by (simp add: ui_ok_def openCompose_def form_size_def)
  from ok_submit [OF this] show ?thesis by (simp add: cmd_connect_def openCompose_def at_def Let_def)
qed

lemma set_profile_field_Some: "2 \<le> length args \<Longrightarrow> set_profile_field args p \<noteq> None"
  by (cases args) (auto simp: set_profile_field_def set_theme_def slice_at_Some at_def Let_def split: option.split)

lemma ok_runSet: "ui_ok m \<Longrightarrow> ui_ok (fst (runSet E args m))"
  using set_profile_field_Some [of args "ownProfile m"] by (auto simp: runSet_def split: sum.split option.split)

lemma ok_usage: "ui_ok m \<Longrightarrow> (n \<le> length args \<Longrightarrow> ui_ok (fst r)) \<Longrightarrow> ui_ok (fst (usage n args r m))"
  by (simp add: usage_def)

lemma ok_with_target: "ui_ok m \<Longrightarrow> (\<And>pk. ui_ok (fst (f pk))) \<Longrightarrow> ui_ok (fst (with_target E a f m))"
  by (simp add: with_target_def split: option.split)

lemma ok_runCommand: "ui_ok m \<Longrightarrow> Fields line \<noteq> [] \<Longrightarrow> ui_ok (fst (runCommand E line m))"
  by (cases "Fields line", simp, simp only: runCommand_def list.case Let_def,
      intro ok_cond ok_usage ok_with_arg ok_with_rest ok_with_target ok_commands ok_connect ok_runSet; auto)

text \<open>Keys.\<close>

lemma ok_ov_edit:
  assumes "ui_ok m" "form_size (moverlay m) > 0" "\<And>s. f s \<noteq> None"
  shows "ui_ok (ov_edit f m)"
proof -
  obtain t where t: "f (ovFields m ! nat (ovField m)) = Some t" using assms(3) by blast
  have "0 \<le> ovField m" "ovField m < int (length (ovFields m))" using assms by (simp_all add: ui_ok_def)
  then show ?thesis using assms by (simp add: ov_edit_def t) (simp add: ui_ok_def)
qed

lemma ok_ovField: "ui_ok m \<Longrightarrow> 0 \<le> j \<Longrightarrow> j < int (length (ovFields m)) \<Longrightarrow> ui_ok (m\<lparr>ovField := j\<rparr>)"
  by (auto simp: ui_ok_def)

lemma form_open: "k \<noteq> OverlayNone \<Longrightarrow> k \<noteq> OverlayHelp \<Longrightarrow> k \<noteq> OverlayQuit \<Longrightarrow> form_size k > 0"
  by (cases k) (simp_all add: form_size_def)

lemma ok_handleOverlayKey:
  assumes "ui_ok m" "moverlay m \<noteq> OverlayNone"
  shows "ui_ok (fst (handleOverlayKey E key m))"
proof (cases "moverlay m = OverlayHelp \<or> moverlay m = OverlayQuit")
  case True
  then show ?thesis using assms(1) by (auto simp: handleOverlayKey_def Let_def)
next
  case False
  then have f: "form_size (moverlay m) > 0" using form_open assms(2) by blast
  then have n: "int (length (ovFields m)) > 0" "0 \<le> ovField m" using assms(1) by (simp_all add: ui_ok_def)
  show ?thesis
    using False assms(1) f n unfolding handleOverlayKey_def Let_def
    by (auto intro!: ok_ov_edit ok_ovField ok_submit split: option.split)
qed

lemma ok_handleGateKey: "ui_ok m \<Longrightarrow> ui_ok (fst (handleGateKey E key m))"
  by (simp add: handleGateKey_def Let_def)

lemma ok_input_enter: "ui_ok m \<Longrightarrow> ui_ok (fst (input_enter E m))"
  by (simp add: input_enter_def Let_def ok_runCommand Fields_command)

lemma ok_handleChatKey: "ui_ok m \<Longrightarrow> ui_ok (fst (handleChatKey E key m))"
proof -
  assume ok: "ui_ok m"
  have d: "ui_ok m1" if "displayName E pk (m\<lparr>inputFocused := True\<rparr>) = (m1, name)" for pk m1 name
    using ok_displayName [of E pk "m\<lparr>inputFocused := True\<rparr>"] that ok by simp
  show ?thesis
    using ok unfolding handleChatKey_def handle_input_key_def handle_list_key_def Let_def
    by (auto intro!: ok_at_cursor ok_input_enter simp: d split: option.split prod.split)
qed

lemma ok_handleProfileKey: "ui_ok m \<Longrightarrow> ui_ok (fst (handleProfileKey E key m))"
  by (auto simp: handleProfileKey_def Let_def form_size_def) (simp_all add: ui_ok_def form_size_def)

lemma ok_handlePeopleKey: "ui_ok m \<Longrightarrow> ui_ok (fst (handlePeopleKey E key m))"
  by (auto intro!: ok_with_person simp: handlePeopleKey_def Let_def ok_handleProfileKey)

lemma ok_handleFeedKey: "ui_ok m \<Longrightarrow> ui_ok (fst (handleFeedKey key m))"
  using ok_with_sel [of m "postSel m"]
  by (auto intro!: ok_with_sel simp: handleFeedKey_def Let_def form_size_def) (simp_all add: ui_ok_def)

lemma ok_handleForumKey: "ui_ok m \<Longrightarrow> ui_ok (fst (handleForumKey E key m))"
  by (auto intro!: ok_with_sel simp: handleForumKey_def Let_def form_size_def) (simp_all add: ui_ok_def)

lemma ok_handleSealedKey: "ui_ok m \<Longrightarrow> ui_ok (fst (handleSealedKey E key m))"
proof -
  assume ok: "ui_ok m"
  have r: "ui_ok (reveal E k sm m)" for k sm using ok by (simp add: reveal_def Let_def)
  have "0 \<le> sealedSel m" using ok by (simp add: ui_ok_def)
  then show ?thesis using ok by (auto intro!: ok_with_sel simp: handleSealedKey_def Let_def r)
qed

lemma ok_handlePeersKey: "ui_ok m \<Longrightarrow> ui_ok (fst (handlePeersKey E key m))"
proof -
  assume ok: "ui_ok m"
  then have "0 \<le> peerSel m" by (simp add: ui_ok_def)
  then show ?thesis using ok by (auto intro!: ok_with_sel simp: handlePeersKey_def Let_def form_size_def setPeerTrust_def)
qed

lemma theme_item_range [simp]: "0 \<le> theme_item t" "theme_item t < 4"
proof -
  let ?is = "filter (\<lambda>i. ThemeName (themes ! i) = ThemeName t) [0..<length themes]"
  have "last ?is < 4" if "?is \<noteq> []" using last_in_set [OF that] by simp
  then show "0 \<le> theme_item t" "theme_item t < 4" unfolding theme_item_def by (auto split: list.split)
qed

lemma ok_handleSettingsKey: "ui_ok m \<Longrightarrow> ui_ok (fst (handleSettingsKey E key m))"
proof -
  assume ok: "ui_ok m"
  then have i: "0 \<le> settingsItem m" "settingsItem m < int (length themes)" by (simp_all add: ui_ok_def)
  have "ui_ok (fst (handle_appearance_key E k m))" for k
    unfolding handle_appearance_key_def using ok i by (simp split: sum.split prod.split)
  then show ?thesis using ok by (simp add: handleSettingsKey_def Let_def)
qed

lemma ok_handleKey: "ui_ok m \<Longrightarrow> ui_ok (fst (handleKey E key m))"
  by (simp add: handleKey_def handle_tab_key_def Let_def ok_handleGateKey ok_handleOverlayKey ok_handleSealedKey ok_handleChatKey
      ok_handlePeopleKey ok_handleFeedKey ok_handleForumKey ok_handlePeersKey ok_handleSettingsKey split: Tab.split option.split)

definition event_ok :: "ui_event \<Rightarrow> bool" where
  "event_ok u = (case u of MouseMsg g _ _ _ \<Rightarrow> list_all (\<lambda>r. 0 \<le> rIndex r) (sideRows g) | _ \<Rightarrow> True)"

lemma ok_scrollBy: "ui_ok m \<Longrightarrow> ui_ok (scrollBy j m)"
  by (simp add: scrollBy_def split: Tab.split)

lemma ok_click_side: "ui_ok m \<Longrightarrow> 0 \<le> rIndex r \<Longrightarrow> ui_ok (click_side r m)"
proof -
  assume a: "ui_ok m" "0 \<le> rIndex r"
  let ?m = "chatSelEnd (m\<lparr>channelSel := rIndex r, mtab := TabMessages, mview := MsgViewChat\<rparr>)"
  have "mchannels ?m = mchannels m" by (simp add: chatSelEnd_def touch_channel_def ui_panic_def split: option.split)
  then show ?thesis using a by (simp add: click_side_def Let_def split: side_kind.split)
qed

lemma ok_handleMouse: "ui_ok m \<Longrightarrow> event_ok (MouseMsg g b x y) \<Longrightarrow> ui_ok (handleMouse g b x y m)"
proof -
  assume a: "ui_ok m" "event_ok (MouseMsg g b x y)"
  have "0 \<le> rIndex r" if "find (\<lambda>r. rY r = y) (sideRows g) = Some r" for r
    using a(2) that by (auto simp: event_ok_def list_all_iff find_Some_iff)
  then show ?thesis using a(1) by (simp add: handleMouse_def ok_scrollBy ok_click_side split: ui_button.split option.split)
qed

text \<open>Drawing.\<close>

lemma ok_View: "ui_ok m \<Longrightarrow> ui_ok (View E D m)"
proof -
  assume ok: "ui_ok m"
  have "form_size (moverlay m) > 0" if "moverlay m \<notin> {OverlayNone, OverlayHelp, OverlayQuit}" using that form_open by simp
  then have "\<not> mpanic (View E D m)" using ok by (intro View_ok) (simp_all add: ui_ok_def channel_panic_def)
  moreover obtain p j b where "View E D m = m\<lparr>profiles := p, gateScroll := j, mpanic := b\<rparr>" using View_same by blast
  ultimately show ?thesis using ok by (simp add: ui_ok_def)
qed

lemma ok_tui_Update: "ui_ok m \<Longrightarrow> event_ok u \<Longrightarrow> ui_ok (fst (tui_Update E u m))"
  by (cases u) (simp_all add: ok_handleKey ok_handleMouse ok_ui_Update ok_View)

definition tui_run :: "(ui_env \<times> ui_event) list \<Rightarrow> Model \<Rightarrow> Model" where
  "tui_run us m = foldl (\<lambda>m (E, u). fst (tui_Update E u m)) m us"

lemma tui_run_simps [simp]: "tui_run [] m = m" "tui_run ((E, u) # us) m = tui_run us (fst (tui_Update E u m))"
  by (simp_all add: tui_run_def)

lemma ok_tui_run: "ui_ok m \<Longrightarrow> list_all (\<lambda>(E, u). event_ok u) us \<Longrightarrow> ui_ok (tui_run us m)"
  by (induction us arbitrary: m) (auto simp: ok_tui_Update)

lemma ok_New: "ui_New E cli d i = Inr m \<Longrightarrow> ui_ok m"
  by (auto simp: ui_New_def ui_ok_def form_size_def split: sum.splits)


section \<open>The entry banner\<close>

text \<open>
  Nobody gets past the banner unasked. While the banner of the first run is shown, a key sends nothing, a click does
  nothing, and only confirming the entry button opens the client; the next start shows the banner again unless it was
  accepted.
\<close>

theorem entry_gate:
  assumes "sizes_ok P" "aead_ok P" "UeP E = P" "UeDb E ''SetSetting''" "UeP E' = P" "UeDb E' ''GetSetting''"
    and "gateActive m" "\<not> gateView m" "GetSetting P True (str ''entry_accepted'') (mdb m) = Inl e"
    and "handleKey E key m = (m', cmds)" "ui_New E' cli (mdb m') i = Inr m2"
  shows "set cmds \<subseteq> {CmdQuit} \<and> (gateActive m' \<or> KName key = ''enter'' \<and> gateBtn m \<noteq> 1) \<and> gateActive m2 = gateActive m' \<and>
    handleMouse g b x y m = m"
proof -
  have new: "gateActive m2 = (case GetSetting P True (str ''entry_accepted'') (mdb m') of Inl _ \<Rightarrow> True | Inr _ \<Rightarrow> False)"
    using assms(5,6,11) by (auto simp: ui_New_def split: sum.splits)
  have P: "P = UeP E" using assms(3) by simp
  have set: "GetSetting (UeP E) True (str ''entry_accepted'') (fst (SetSetting (UeP E) True (UeRnd E) (str ''entry_accepted'') (str ''1'') (mdb m))) = Inr (str ''1'')"
    using GetSetting_SetSetting [OF assms(1,2)] P by simp
  have io: "UeDb E ''SetSetting'' = True" using assms(4) by simp
  show ?thesis
    using assms(3,7-10) unfolding new
    by (auto simp: handleKey_def handleGateKey_def handleMouse_def Let_def set io split: if_splits)
qed

section \<open>Joining\<close>

definition channels_ok :: "prims \<Rightarrow> DB \<Rightarrow> bool" where
  "channels_ok P d \<longleftrightarrow> distinct (map fst (channels d)) \<and>
     (\<forall>(i, r) \<in> set (channels d). length i = 32 \<and> (\<exists>n. db_open P d ''channels'' i (cn_name r) = Inr n))"

lemma select_channel_found:
  "c \<in> set cs \<Longrightarrow> ChID c = i \<Longrightarrow> \<exists>k < length cs. select_channel i j cs sel = j + int k \<and> ChID (cs ! k) = i"
proof (induction i j cs sel arbitrary: c rule: select_channel.induct)
  case (2 i j c' cs sel)
  show ?case
  proof (cases "\<exists>c \<in> set cs. ChID c = i")
    case True
    then obtain k where "k < length cs" "select_channel i (j + 1) cs (if ChID c' = i then j else sel) = j + 1 + int k" "ChID (cs ! k) = i"
      using 2(1) by blast
    then show ?thesis by (intro exI [of _ "Suc k"]) simp
  next
    case False
    have keep: "select_channel i j cs sel = sel" if "\<forall>c \<in> set cs. ChID c \<noteq> i" for j sel
      using that by (induction cs arbitrary: j) auto
    from False 2(2,3) have "c' = c" by auto
    then show ?thesis using False 2(3) keep by (intro exI [of _ 0]) simp
  qed
qed simp

lemma channels_ok_join:
  assumes "sizes_ok P" "aead_ok P" "channels_ok P d" "length i = 32"
  shows "channels_ok P (fst (JoinChannel P True now rnd i name d)) \<and>
    (\<exists>r. (i, r) \<in> set (channels (fst (JoinChannel P True now rnd i name d))) \<and>
       db_open P (fst (JoinChannel P True now rnd i name d)) ''channels'' i (cn_name r) = Inr name)"
proof -
  let ?d = "fst (JoinChannel P True now rnd i name d)"
  let ?enc = "db_seal P rnd d ''channels'' i name"
  have key: "db_key ?d = db_key d" by (simp add: JoinChannel_def Let_def)
  then have o: "db_open P ?d t k b = db_open P d t k b" for t k b by (rule db_open_key)
  have sealed: "db_open P d ''channels'' i ?enc = Inr name" using db_open_seal [OF assms(1,2)] by simp
  define row where "row = (case map_of (channels d) i of None \<Rightarrow> \<lparr>cn_name = ?enc, cn_joined = now\<rparr> | Some old \<Rightarrow> old\<lparr>cn_name := ?enc\<rparr>)"
  have rows: "channels ?d = AList.update i row (channels d)" by (simp add: JoinChannel_def Let_def upsert_def row_def)
  have row: "cn_name row = ?enc" by (simp add: row_def split: option.split)
  have dist: "distinct (map fst (channels ?d))" using assms(3) unfolding rows channels_ok_def by (simp add: distinct_update)
  have "i' = i \<and> r = row \<or> (i', r) \<in> set (channels d)" if "(i', r) \<in> set (channels ?d)" for i' r
  proof -
    have "map_of (channels ?d) i' = Some r" using map_of_is_SomeI [OF dist that] .
    then show ?thesis using rows by (auto simp: update_conv split: if_splits dest: map_of_SomeD)
  qed
  then have "length i' = 32 \<and> (\<exists>n. db_open P ?d ''channels'' i' (cn_name r) = Inr n)" if "(i', r) \<in> set (channels ?d)" for i' r
    using that assms(3,4) sealed row unfolding o channels_ok_def by fastforce
  moreover have "(i, row) \<in> set (channels ?d)" by (rule map_of_SomeD) (simp add: rows update_conv)
  ultimately show ?thesis using dist sealed row o by (fastforce simp: channels_ok_def)
qed

text \<open>The channel that a readable row stands for.\<close>

definition chan_of :: "prims \<Rightarrow> DB \<Rightarrow> bytes \<times> chan_row \<Rightarrow> Channel" where
  "chan_of P d cr = \<lparr>ChID = to_array 32 (fst cr), ChName = (case db_open P d ''channels'' (fst cr) (cn_name (snd cr)) of Inr n \<Rightarrow> n | Inl _ \<Rightarrow> []),
     JoinedAt = cn_joined (snd cr)\<rparr>"

lemma listed_channels_eq:
  assumes "channels_ok (UeP E) d" "UeDb E ''ListChannels''" "\<And>rows. mset (UeChanSort E rows) = mset rows"
  shows "listed_channels E d = map (chan_of (UeP E) d) (UeChanSort E (channels d))"
proof -
  have "set (UeChanSort E (channels d)) = set (channels d)" using assms(3) mset_eq_setD by blast
  then have "\<forall>cr \<in> set (UeChanSort E (channels d)). chan_of_row (UeP E) d cr = Inr (Some (chan_of (UeP E) d cr))"
    using assms(1) by (force simp: channels_ok_def chan_of_row_def chan_of_def)
  then show ?thesis using scan_rows_total [of _ "chan_of_row (UeP E) d" "chan_of (UeP E) d"] assms(2)
    by (simp add: listed_channels_def ListChannels_def)
qed

lemma chatSelEnd_channel [simp]: "activeChannel (chatSelEnd m) = activeChannel m"
proof -
  have "mchannels (chatSelEnd m) = mchannels m \<and> channelSel (chatSelEnd m) = channelSel m"
    by (simp add: chatSelEnd_def touch_channel_def ui_panic_def split: option.split)
  then show ?thesis by (simp add: activeChannel_def)
qed

text \<open>
  Joining a channel opens it. After a join command the channel is subscribed at the daemon and is the active one,
  under the name that was typed, with the cursor on its last line; every other readable channel of the
  database is still listed.
\<close>

theorem joined_channel_active:
  assumes "sizes_ok P" "aead_ok P" "UeP E = P" "UeDb E ''JoinChannel''" "UeDb E ''ListChannels''"
    and "channels_ok P (mdb m)" "\<And>rows. mset (UeChanSort E rows) = mset rows"
    and "Fields line = str ''/join'' # name # rest" "\<not> HasPrefix name (str ''#'')"
    and "runCommand E line m = (m', cmds)"
  shows "\<exists>ch. activeChannel m' = Some ch \<and> ChID ch = ui_ChannelID P name \<and> ChName ch = name \<and> cmds = [CmdSubscribe (ui_ChannelID P name)] \<and>
    msgSel m' = last_index (mmessages m (ui_ChannelID P name)) \<and> follow m' \<and>
    set (map ChID (mchannels m')) = insert (ui_ChannelID P name) (fst ` set (channels (mdb m)))"
proof -
  let ?i = "ui_ChannelID P name"
  let ?d = "fst (JoinChannel P True (ui_unix E) (UeRnd E) ?i name (mdb m))"
  have li: "length ?i = 32" using assms(1) by (simp add: ui_ChannelID_def sizes_ok_def)
  note j = channels_ok_join [OF assms(1,2,6) li, of "ui_unix E" "UeRnd E" name]
  obtain r where r: "(?i, r) \<in> set (channels ?d)" "db_open P ?d ''channels'' ?i (cn_name r) = Inr name" using j by blast
  have lst: "listed_channels E ?d = map (chan_of P ?d) (UeChanSort E (channels ?d))"
    using listed_channels_eq [of E ?d] j assms(3,5,7) by simp
  have sorted: "set (UeChanSort E (channels ?d)) = set (channels ?d)" using assms(7) mset_eq_setD by blast
  have arr: "to_array 32 k = k" if "length k = 32" for k :: bytes using that by (simp add: to_array_def)
  have unique: "c = chan_of P ?d (?i, r)" if c: "c \<in> set (listed_channels E ?d)" "ChID c = ?i" for c
  proof -
    obtain k q where kq: "(k, q) \<in> set (channels ?d)" "c = chan_of P ?d (k, q)" using c(1) unfolding lst by (auto simp: sorted)
    then have "k = ?i" using j c(2) arr by (auto simp: chan_of_def channels_ok_def)
    then have "q = r" using kq(1) r(1) j eq_key_imp_eq_value [of "channels ?d" ?i q r] by (simp add: channels_ok_def)
    then show ?thesis using kq \<open>k = ?i\<close> by simp
  qed
  have mem: "chan_of P ?d (?i, r) \<in> set (listed_channels E ?d)" unfolding lst set_map sorted by (rule imageI [OF r(1)])
  have new: "ChID (chan_of P ?d (?i, r)) = ?i" "ChName (chan_of P ?d (?i, r)) = name" using r arr [OF li] by (simp_all add: chan_of_def)
  obtain k where k: "k < length (listed_channels E ?d)" "select_channel ?i 0 (listed_channels E ?d) (channelSel m) = int k"
      "ChID (listed_channels E ?d ! k) = ?i"
    using select_channel_found [OF mem new(1), of 0 "channelSel m"] by auto
  then have ch: "listed_channels E ?d ! k = chan_of P ?d (?i, r)" using unique nth_mem by blast
  have strip: "TrimPrefix name (str ''#'') = name" using assms(9) by (simp add: TrimPrefix_def)
  have io: "UeDb E ''JoinChannel'' = True" using assms(4) by simp
  have ne: "str ''/join'' \<noteq> str ''/help''" by (simp add: str_inj)
  have step: "runCommand E line m = cmd_join E name m" by (simp add: runCommand_def assms(8) ne usage_def with_arg_def)
  obtain d where d: "JoinChannel P True (ui_unix E) (UeRnd E) ?i name (mdb m) = (d, Inr ())" by (simp add: JoinChannel_def Let_def)
  then have m': "m' = chatSelEnd (m\<lparr>mdb := ?d, mchannels := listed_channels E ?d, channelSel := int k\<rparr>)" "cmds = [CmdSubscribe ?i]"
    using assms(10) k(2) unfolding step by (auto simp: cmd_join_def assms(3) strip io Let_def d)
  have act: "activeChannel (m\<lparr>mdb := ?d, mchannels := listed_channels E ?d, channelSel := int k\<rparr>) = Some (chan_of P ?d (?i, r))"
    using k(1) ch by (auto simp: activeChannel_def)
  have ids: "fst ` set (channels ?d) = insert ?i (fst ` set (channels (mdb m)))"
    by (simp add: JoinChannel_def Let_def upsert_def dom_map_of_conv_image_fst [symmetric] update_conv')
  have all: "ChID ` set (listed_channels E ?d) = fst ` set (channels ?d)"
  proof -
    have "ChID (chan_of P ?d x) = fst x" if "x \<in> set (channels ?d)" for x
      using that j arr by (auto simp: chan_of_def channels_ok_def)
    then show ?thesis by (simp add: lst sorted image_image)
  qed
  have "activeChannel m' = activeChannel (m\<lparr>mdb := ?d, mchannels := listed_channels E ?d, channelSel := int k\<rparr>)"
    unfolding m'(1) by simp
  moreover have "msgSel m' = last_index (mmessages m ?i) \<and> follow m' \<and> mchannels m' = listed_channels E ?d"
    using act new(1) by (simp add: m'(1) chatSelEnd_def)
  ultimately show ?thesis using act new m'(2) all ids by simp
qed

section \<open>Answering\<close>

text \<open>What an open form has; messages from the daemon and the timers leave it alone.\<close>

definition form :: "Model \<Rightarrow> Overlay \<times> gostring list \<times> int \<times> bytes \<times> bool \<times> bool \<times> Identity" where
  "form m = (moverlay m, ovFields m, ovField m, ovTarget m, ovDeniable m, gateActive m, mid m)"

lemma form_displayName [simp]: "form (fst (displayName E pk m)) = form m"
  by (subst displayName_same) (simp add: form_def)

lemma form_trackPerson [simp]: "form (trackPerson E pk m) = form m"
proof -
  obtain ps p where "trackPerson E pk m = m\<lparr>people := ps, profiles := p\<rparr>" using trackPerson_same by blast
  then show ?thesis by (simp add: form_def)
qed

lemma form_frame [simp]:
  "form (m\<lparr>mdb := d\<rparr>) = form m" "form (m\<lparr>sealedMsgs := sm\<rparr>) = form m" "form (m\<lparr>sealedUnread := j\<rparr>) = form m"
  "form (m\<lparr>posts := po\<rparr>) = form m" "form (m\<lparr>feedUnread := j\<rparr>) = form m" "form (m\<lparr>threads := ts\<rparr>) = form m" "form (m\<lparr>forumUnread := j\<rparr>) = form m"
  "form (m\<lparr>profiles := p\<rparr>) = form m" "form (m\<lparr>guestbook := gb\<rparr>) = form m" "form (m\<lparr>mmessages := ms\<rparr>) = form m" "form (m\<lparr>msgSel := j\<rparr>) = form m"
  "form (m\<lparr>chatUnread := cu\<rparr>) = form m" "form (m\<lparr>mpanic := b\<rparr>) = form m" "form (m\<lparr>replies := rs\<rparr>) = form m" "form (countIn env m) = form m"
  "form (countOut env m) = form m"
  by (simp_all add: form_def countIn_def countOut_def)

lemma form_parts:
  "form (fst (sendPayload E t rcp p ok m)) = form m" "form (handle_chat E env ch s m) = form m" "form (applyDelete E env m) = form m"
  "form (add_reply E env parent s m) = form m"
  by (simp_all add: sendPayload_def handle_chat_def applyDelete_def add_reply_def Let_def split: sum.split Payload.split option.split)

lemma form_openSealed: "form (fst (openSealed E env m)) = form m"
  by (simp add: openSealed_def Let_def form_parts split: sum.split Payload.split)

lemma form_if: "form (fst a) = x \<Longrightarrow> form (fst b) = x \<Longrightarrow> form (fst (if c then a else b)) = x"
  by simp

lemma form_handleIncoming: "form (fst (handleIncoming E env m)) = form m"
  unfolding handleIncoming_def Let_def
  by (intro form_if; simp add: form_openSealed form_parts split: sum.split Payload.split)

lemma form_ui_Update: "form (fst (ui_Update E u m)) = form m"
proof (cases u)
  case (IncomingMsg env)
  then show ?thesis by (simp add: case_prod_beta form_handleIncoming)
next
  case StatsTickMsg
  obtain h where "sample m = m\<lparr>rateIn := inTotal m - lastIn m, rateOut := outTotal m - lastOut m, lastIn := inTotal m, lastOut := outTotal m,
      sparkHistory := h\<rparr>" using sample_same by blast
  then show ?thesis using StatsTickMsg by (simp add: form_def)
qed (simp_all add: form_def countIn_def Let_def)

lemma form_View: "form (View E D m) = form m"
proof -
  obtain p j b where "View E D m = m\<lparr>profiles := p, gateScroll := j, mpanic := b\<rparr>" using View_same by blast
  then show ?thesis by (simp add: form_def)
qed

text \<open>A key that edits a form of one field, and what the field has after it.\<close>

definition edits :: "ui_key \<Rightarrow> bool" where
  "edits key \<longleftrightarrow> KName key \<notin> {''ctrl+c'', ''esc'', ''enter''}"

definition edited :: "ui_key \<Rightarrow> gostring \<Rightarrow> gostring" where
  "edited key s =
     (if KName key \<in> {''tab'', ''down'', ''shift+tab'', ''up'', ''ctrl+d''} then s
      else if KName key = ''backspace'' then concat (butlast (go_runes s))
      else if KName key \<in> {'' '', ''space''} then s @ str '' ''
      else (case KRunes key of None \<Rightarrow> s | Some r \<Rightarrow> s @ r))"

definition text_event :: "ui_event \<Rightarrow> bool" where
  "text_event u = (case u of KeyMsg key \<Rightarrow> edits key | _ \<Rightarrow> True)"

definition typed :: "(ui_env \<times> ui_event) list \<Rightarrow> gostring" where
  "typed us = foldl (\<lambda>s (E, u). case u of KeyMsg key \<Rightarrow> edited key s | _ \<Rightarrow> s) [] us"

lemma editing_key:
  assumes "form m = (OverlayPostNew, [s], 0, pk, b, False, i)" "edits key"
  shows "form (fst (handleKey E key m)) = (OverlayPostNew, [edited key s], 0, pk, b, False, i)"
proof -
  have f: "moverlay m = OverlayPostNew" "ovFields m = [s]" "ovField m = 0" "ovTarget m = pk" "ovDeniable m = b" "\<not> gateActive m" "mid m = i"
    using assms(1) by (simp_all add: form_def)
  have e: "form (ov_edit (\<lambda>s. Some (g s)) m) = (OverlayPostNew, [g s], 0, pk, b, False, i)" for g
    using f by (simp add: ov_edit_def at_def form_def)
  have "handleKey E key m = handleOverlayKey E key m" using assms(2) f by (simp add: handleKey_def edits_def)
  then show ?thesis
    using assms e f unfolding handleOverlayKey_def Let_def
    by (simp add: edits_def edited_def trimLastRune_Some [abs_def] split: option.split)
qed

lemma typing_run:
  assumes "form m = (OverlayPostNew, [s], 0, pk, b, False, i)" "list_all (\<lambda>(E, u). text_event u) us"
  shows "form (tui_run us m) =
    (OverlayPostNew, [foldl (\<lambda>s (E, u). case u of KeyMsg key \<Rightarrow> edited key s | _ \<Rightarrow> s) s us], 0, pk, b, False, i)"
  using assms
proof (induction us arbitrary: m s)
  case Nil
  then show ?case by simp
next
  case (Cons x us)
  obtain E u where x: "x = (E, u)" by (cases x)
  have "form (fst (tui_Update E u m)) = (OverlayPostNew, [case u of KeyMsg key \<Rightarrow> edited key s | _ \<Rightarrow> s], 0, pk, b, False, i)"
  proof (cases u)
    case (KeyMsg key)
    then show ?thesis using Cons.prems editing_key by (simp add: x text_event_def)
  next
    case (MouseMsg g btn xx yy)
    then show ?thesis using Cons.prems(1) by (simp add: handleMouse_def) (simp add: form_def)
  next
    case (OtherMsg w)
    then show ?thesis using Cons.prems(1) form_ui_Update [of E w m] by simp
  next
    case (Drawn D)
    then show ?thesis using Cons.prems(1) form_View [of E D m] by simp
  qed
  from Cons.IH [OF this] Cons.prems(2) show ?case by (simp add: x)
qed

text \<open>
  C31. A reply goes to the post it was written for. The reply key on a post of the feed, any typing with spaces and
  corrections, and the confirmation hand one envelope to the daemon: the typed text, without space around it, as an answer to that post,
  whatever else arrives in between, posts that shift the feed included. The form is closed and the reply is listed under the post.
\<close>

theorem reply_reaches_post:
  assumes "mtab m = TabFeed" "moverlay m = OverlayNone" "\<not> gateActive m" "connected m"
    and "at (posts m) (postSel m) = Some p" "FpId p \<noteq> zero32"
    and "list_all (\<lambda>(E, u). text_event u) us" "TrimSpace (typed us) \<noteq> []"
    and "m1 = tui_run us (fst (handleKey E \<lparr>KName = ''r'', KRunes = Some (str ''r'')\<rparr> m))"
    and "EncodePayload (UeM E') (PostPayload (TrimSpace (typed us)) (EncodeToString (FpId p)) []) = Inr data"
    and "NewEnvelope (UeP E') (ui_nano E') (PrivateKey (mid m)) MsgPost Broadcast data = Inr env"
  shows "\<exists>m2. handleKey E' \<lparr>KName = ''enter'', KRunes = None\<rparr> m1 = (m2, [CmdSend env ''reply sent'']) \<and> moverlay m2 = OverlayNone \<and>
    replies m2 (EncodeToString (FpId p)) = replies m1 (EncodeToString (FpId p)) @
      [\<lparr>UId = zero32, USender = Pubkey (mid m), UContent = TrimSpace (typed us), UAt = UeNow E'\<rparr>]"
proof -
  have sel: "0 \<le> postSel m" "postSel m < int (length (posts m))" using assms(5) by (auto simp: at_def split: if_splits)
  have d: "digit_tab ''r'' = None" by (simp add: digit_tab_def tabs_def)
  have "handleKey E \<lparr>KName = ''r'', KRunes = Some (str ''r'')\<rparr> m = (openCompose OverlayPostNew 1 (FpId p) m, [])"
    using assms(1-5) sel d by (simp add: handleKey_def handle_tab_key_def handleFeedKey_def with_sel_def typing_def Let_def)
  then have "form (fst (handleKey E \<lparr>KName = ''r'', KRunes = Some (str ''r'')\<rparr> m)) =
      (OverlayPostNew, [[]], 0, FpId p, ovDeniable m, False, mid m)"
    using assms(3) by (simp add: openCompose_def form_def)
  from typing_run [OF this assms(7)] have f: "form m1 = (OverlayPostNew, [typed us], 0, FpId p, ovDeniable m, False, mid m)"
    using assms(9) by (simp add: typed_def)
  then have g: "moverlay m1 = OverlayPostNew" "ovFields m1 = [typed us]" "ovField m1 = 0" "ovTarget m1 = FpId p" "\<not> gateActive m1" "mid m1 = mid m"
    by (simp_all add: form_def)
  have sz: "form_size OverlayPostNew = 1" by (simp add: form_size_def)
  let ?c = "closeOverlay m1"
  have c: "?c\<lparr>mpanic := mpanic m1\<rparr> = ?c" "mid ?c = mid m" "moverlay ?c = OverlayNone" "replies ?c = replies m1"
    using g(6) by (simp_all add: closeOverlay_def)
  have mp: "mpanic ?c = mpanic m1" by (simp add: closeOverlay_def)
  have fld: "field [typed us] 0 = TrimSpace (typed us)" by (simp add: field_def)
  have "handleKey E' \<lparr>KName = ''enter'', KRunes = None\<rparr> m1 = submit_post E' (FpId p) (TrimSpace (typed us)) (?c\<lparr>mpanic := mpanic m1\<rparr>)"
    using g mp fld sz by (simp add: handleKey_def handleOverlayKey_def submitOverlay_def Let_def)
  also have "\<dots> = submit_post E' (FpId p) (TrimSpace (typed us)) ?c" by (simp only: c(1))
  finally show ?thesis using assms(6,8,10,11) c by (simp add: submit_post_def sendPayload_def signed_envelope_def countOut_def Let_def)
qed

text \<open>
  A reply to a thread of the forum does not have this before the key is pressed: the open thread is remembered by its
  position, and a thread that arrives meanwhile takes its place.
\<close>

theorem reply_to_wrong_thread:
  assumes "mtab m = TabForum" "moverlay m = OverlayNone" "\<not> gateActive m" "connected m" "openThread m = 0"
    and "Type env = MsgThread" "\<not> is_blocked E (Sender env) m"
    and "DecodePayload (UeM E) (Payload env) (ThreadPayload [] [] [] []) = Inr (ThreadPayload title content category tags)"
  shows "ovTarget (fst (handleKey E \<lparr>KName = ''r'', KRunes = Some (str ''r'')\<rparr> (fst (handleIncoming E env m)))) = ContentID (UeP E) env"
proof -
  have d: "digit_tab ''r'' = None" by (simp add: digit_tab_def tabs_def)
  obtain ps p where t: "trackPerson E (Sender env) m = m\<lparr>people := ps, profiles := p\<rparr>" using trackPerson_same by blast
  show ?thesis
    using assms d by (simp add: handleIncoming_def t handleKey_def handle_tab_key_def handleForumKey_def with_sel_def typing_def openCompose_def at_def Let_def)
qed

text \<open>
  The retry key starts a second attempt without ending the countdown: its next tick dials again, and when both succeed
  there are two connections, the first of which is never closed.
\<close>

theorem retry_key_dials_twice:
  assumes "\<not> connected m" "moverlay m = OverlayNone" "\<not> gateActive m" "\<not> typing m"
    and "handleKey E \<lparr>KName = ''r'', KRunes = Some (str ''r'')\<rparr> m = (m1, c1)" "ui_Update E1 RetryTickMsg m1 = (m2, c2)"
  shows "c1 = [CmdReconnect] \<and> c2 = [CmdReconnect] \<and>
    mcli (fst (ui_Update E3 (ReconnectMsg b) (fst (ui_Update E2 (ReconnectMsg a) m2)))) = b \<and>
    CmdListen a \<in> set (snd (ui_Update E2 (ReconnectMsg a) m2))"
  using assms by (auto simp: handleKey_def clientCmds_def Let_def)

section \<open>Concrete runs\<close>

lemma demo_client_new:
  "ui_New (ui_demo (demo_pack [])) 0 demo_db \<lparr>PrivateKey = demo_key b, PublicKey = Public (demo_key b), IdDisplayName = [], CreatedAt = 0\<rparr> =
     Inr (demo_client b)"
  by (simp add: demo_client_def ui_New_def ui_demo_def ListChannels_def ListSealed_def UnreadSealedCount_def demo_db_def)

lemma demo_client_more [simp]:
  "postSel (demo_client b) = 0" "mpanic (demo_client b) = False" "gateActive (demo_client b) = True" "gateView (demo_client b) = False"
  "gateBtn (demo_client b) = 0" "moverlay (demo_client b) = OverlayNone"
  by (simp_all add: demo_client_def ui_New_def ui_demo_def ListChannels_def ListSealed_def UnreadSealedCount_def GetSetting_def demo_db_def)

definition demo_keys :: "string list \<Rightarrow> (ui_env \<times> ui_event) list" where
  "demo_keys ks = map (\<lambda>k. (ui_demo (demo_pack []), KeyMsg \<lparr>KName = k, KRunes = Some (str k)\<rparr>)) ks"

text \<open>Keys, a window size, ticks, drawing, and commands with and without their arguments.\<close>

definition demo_events :: "(ui_env \<times> ui_event) list" where
  "demo_events = demo_keys [''enter'', ''/join'', ''enter'', ''/set theme bg'', ''enter'', ''backspace''] @
     map (Pair (ui_demo (demo_pack []))) [OtherMsg (WindowSizeMsg 100 30), OtherMsg StatsTickMsg, OtherMsg StatsTickMsg,
       Drawn \<lparr>DLines = replicate 50 [], DCursor = 49, DHeader = 3, DInput = 3, DShown = replicate 50 [], DNames = []\<rparr>] @
     demo_keys [''esc'', ''3'', ''r'', ''j'', ''6'', ''enter'', ''k'', ''enter'', ''2'', ''G'', ''p'']"


text \<open>The check is needed: without an argument, the index of a command that has none would be a panic.\<close>

lemma missing_argument_panics: "mpanic (fst (with_arg [] 0 f m)) \<and> mpanic (fst (with_rest [] f m))"
  by (simp add: with_arg_def with_rest_def at_def slice_at_def go_slice_def ui_panic_def)

text \<open>The feed of the demonstration with its first post selected, and the reply to it.\<close>

definition demo_feed :: Model where
  "demo_feed = demo_posts\<lparr>mtab := TabFeed, gateActive := False\<rparr>"

definition demo_reply :: Payload where
  "demo_reply = PostPayload (str ''hej du'') (EncodeToString (replicate 32 1)) []"

definition demo_typing :: "(ui_env \<times> ui_event) list" where
  "demo_typing = map (Pair (ui_demo (demo_pack [])))
     [KeyMsg \<lparr>KName = ''hejx'', KRunes = Some (str ''hejx'')\<rparr>, Drawn \<lparr>DLines = [], DCursor = 0, DHeader = 2, DInput = 2, DShown = [], DNames = []\<rparr>,
      KeyMsg \<lparr>KName = ''backspace'', KRunes = None\<rparr>, OtherMsg (StatusMsg ''joined''), KeyMsg \<lparr>KName = '' '', KRunes = Some (str '' '')\<rparr>,
      KeyMsg \<lparr>KName = ''tab'', KRunes = None\<rparr>, KeyMsg \<lparr>KName = ''du'', KRunes = Some (str ''du'')\<rparr>]"

lemma demo_typing_text: "list_all (\<lambda>(E, u). text_event u) demo_typing" "typed demo_typing = str ''hej du''"
proof -
  show "list_all (\<lambda>(E, u). text_event u) demo_typing" by (simp add: demo_typing_def text_event_def edits_def)
  have "concat (butlast (go_runes (str ''hejx''))) = str ''hej''" by code_simp
  then have "typed demo_typing = str ''hej'' @ str '' '' @ str ''du''" by (simp add: demo_typing_def typed_def edited_def)
  then show "typed demo_typing = str ''hej du''" by (simp add: str_def)
qed

theorem reply_reaches_post_witness:
  "\<exists>m2 env. handleKey (ui_demo (demo_pack [(demo_reply, [1, 2, 3])])) \<lparr>KName = ''enter'', KRunes = None\<rparr>
     (tui_run demo_typing (fst (handleKey (ui_demo (demo_pack [])) \<lparr>KName = ''r'', KRunes = Some (str ''r'')\<rparr> demo_feed))) =
       (m2, [CmdSend env ''reply sent'']) \<and> moverlay m2 = OverlayNone"
proof -
  let ?M = "demo_pack [(demo_reply, [1, 2, 3])]"
  have "TrimSpace (str ''hej du'') = str ''hej du''" by code_simp
  then have t: "TrimSpace (typed demo_typing) = str ''hej du''" "str ''hej du'' \<noteq> []" by (simp_all add: demo_typing_text(2)) (simp add: str_def)
  have f: "mtab demo_feed = TabFeed" "moverlay demo_feed = OverlayNone" "\<not> gateActive demo_feed" "connected demo_feed"
    "at (posts demo_feed) (postSel demo_feed) = Some \<lparr>FpId = replicate 32 1, FpSender = [], FpContent = [], FpAt = 0\<rparr>"
    by (simp_all add: demo_feed_def demo_posts_def at_def)
  have mid: "mid demo_feed = \<lparr>PrivateKey = demo_key 3, PublicKey = Public (demo_key 3), IdDisplayName = [], CreatedAt = 0\<rparr>"
    by (simp add: demo_feed_def demo_posts_def)
  have "Validate demo_reply = Inr ()" by code_simp
  then have enc: "EncodePayload ?M demo_reply = Inr [1, 2, 3]" by (simp add: EncodePayload_def demo_pack_def del: Validate.simps)
  obtain env where new: "NewEnvelope demo_prims (ui_nano (ui_demo ?M)) (demo_key 3) MsgPost Broadcast [1, 2, 3] = Inr env"
    using wf_priv_length [OF demo_key_wf] by (simp add: NewEnvelope_def LocalOnly_def Sign_def Let_def)
  have "replicate 32 1 \<noteq> zero32" by (simp add: zero32_def)
  then have "\<exists>m2. handleKey (ui_demo ?M) \<lparr>KName = ''enter'', KRunes = None\<rparr>
     (tui_run demo_typing (fst (handleKey (ui_demo (demo_pack [])) \<lparr>KName = ''r'', KRunes = Some (str ''r'')\<rparr> demo_feed))) =
       (m2, [CmdSend env ''reply sent'']) \<and> moverlay m2 = OverlayNone"
    using reply_reaches_post [OF f _ demo_typing_text(1) _ refl, of "ui_demo ?M" "[1, 2, 3]" env "ui_demo (demo_pack [])"] t enc new mid
    by (auto simp: demo_reply_def)
  then show ?thesis by blast
qed

end
