(* ===== verification/Spec2Isabelle.thy ===== *)
theory Spec2Isabelle
  imports Gandr_Transport Gandr_Config Mesh_Runtime App_Embedded App_Invites App_Chat_View Reader_Load Gandr_Keys
begin

text \<open>
  \<^bold>\<open>The program.\<close> The repository holds two Go modules. \<^verbatim>\<open>src/src/gandr\<close> is a federation node: a daemon
  (\<^verbatim>\<open>gandrd\<close>) that exchanges signed envelopes with its peers over encrypted sessions on an overlay network,
  keeps them in a content-addressed store and serves local clients over a socket. \<^verbatim>\<open>src/internal\<close> and
  \<^verbatim>\<open>src/cmd\<close> are an analyzer for a public forum: a reader with a cache, a mesh of nodes that share public
  cache objects, a crawler that fills the cache, and a private chat that embeds the daemon of the first module.

  A message goes through the parts as follows. A session (\<open>App_Session\<close>) encodes a payload
  (\<open>Gandr_Payloads\<close>) into a signed envelope (\<open>Gandr_Proto\<close>) and hands it to a client of the daemon: the
  socket client (\<open>Gandr_Ipc\<close>) or the embedded one (\<open>App_Embedded\<close>). The daemon (\<open>Gandr_Daemon\<close>) checks
  it, stores it (\<open>Gandr_Store\<close>), pushes it to its local clients and relays it through the sessions
  (\<open>Gandr_Federation\<close>) of its peer table (\<open>Gandr_Peers\<close>), whose frames travel in fragments over the packet
  multiplexer (\<open>Gandr_Mux\<close>, \<open>Gandr_Transport\<close>). What a recipient reads is decrypted with the primitives of
  \<open>Gandr_Crypto\<close> and \<open>Gandr_Sealed\<close> and kept in the client database (\<open>Gandr_Clientdb\<close>).

  \<^bold>\<open>Conventions.\<close> Definitions keep the names of the Go functions, prefixed by the receiver where Go has
  several functions of one name. A byte slice or a string is a list of bytes, a struct a record, an
  interface with its implementations a datatype or a record of functions, a Go map an association list
  with distinct keys (or a partial map), a time the number of nanoseconds since the epoch, a
  machine integer a word or, where the code stays inside its range, an integer. An operation that may
  fail returns a sum with the error on the left; a panic is an error value of its own. State is passed
  explicitly. Clock readings, random bytes, faults of the disk and of the network are arguments, so that
  every theorem holds for all of them. Goroutines are the steps of a machine, one step per section under a lock; the daemon's handling of
  one received envelope, which Go runs without a lock in the goroutine of each session, is one step.

  \<^bold>\<open>Theories of the node\<close> (paths under \<^verbatim>\<open>src/src/gandr\<close>).
  \<^item> \<open>Gandr_Prelude\<close>: Go's \<^verbatim>\<open>encoding/binary\<close>, \<^verbatim>\<open>encoding/hex\<close>, \<^verbatim>\<open>unicode/utf8\<close> and \<^verbatim>\<open>time\<close>; the locales
    \<open>encoder\<close> and \<open>canonical_codec\<close> (round trips of codecs), \<open>run_invariant\<close> and \<open>run_relation\<close> (what one step
    keeps, a run keeps).
  \<^item> \<open>Gandr_Crypto\<close>, \<open>Gandr_Sealed\<close> (\<^verbatim>\<open>pkg/crypto\<close>): the wrappers around the primitives, group messages, keyfiles,
    sealed messages. Decrypting inverts encrypting; an opened signed box proves its sender.
  \<^item> \<open>Gandr_Proto\<close>, \<open>Gandr_Payloads\<close> (\<^verbatim>\<open>pkg/proto\<close>): the envelope, its codec (accepts exactly the canonical
    encodings of signed envelopes), payload schemas and their validation (exactly the documented limits).
  \<^item> \<open>Gandr_Store\<close> (\<^verbatim>\<open>pkg/store\<close>): the object store; \<^verbatim>\<open>Put\<close> as the sequence of its file operations. It refines
    a finite map and is atomic at every crash point. The locale \<open>content_store\<close> is what the daemon uses.
  \<^item> \<open>Gandr_Mux\<close>, \<open>Gandr_Transport\<close> (\<^verbatim>\<open>pkg/network/mux.go\<close>): fragments, duplicate filter, retransmission,
    connection table and restart detection. Exactly-once delivery, bounded memory, one connection per peer.
  \<^item> \<open>Gandr_Federation\<close>, \<open>Gandr_Peers\<close> (\<^verbatim>\<open>pkg/federation\<close>): the handshake of both sides, message by message, the
    session ciphers and the peer table. Agreement, authenticity, limits of the table.
  \<^item> \<open>Gandr_Daemon\<close> (\<^verbatim>\<open>pkg/daemon\<close>): every handler as a step of one record, with its invariant over all runs,
    the spreading and the end of floods, deletion by the owner only, rate limits.
  \<^item> \<open>Gandr_Ipc\<close> (\<^verbatim>\<open>pkg/ipc\<close>): frames, the server and its subscriptions, the client's requests and streams.
  \<^item> \<open>Gandr_Identity\<close>, \<open>Gandr_Config\<close>, \<open>Gandr_Clientdb\<close> (\<^verbatim>\<open>pkg/identity\<close>, \<^verbatim>\<open>cmd/gandrd\<close>, \<^verbatim>\<open>pkg/clientdb\<close>): keyfiles on disk,
    configuration and start-up, the client's encrypted tables.
  \<^item> \<open>Gandr_Tui\<close>, \<open>Gandr_View\<close>, \<open>Gandr_Keys\<close> (\<^verbatim>\<open>pkg/tui\<close>): the terminal client as an update function over its state: messages
    of the daemon, timers and forms; the indices, windows and sizes that drawing uses; keys, typed commands and the mouse. Each index and
    slice of the source can fail in the model, and none does in any run, drawing included; sealed messages arrive, a blocked sender leaves no trace, a lost daemon is dialled again, an answer, however it is typed, goes to the post it was
    written for.

  \<^bold>\<open>Theories of the analyzer\<close> (paths under \<^verbatim>\<open>src/internal\<close>).
  \<^item> \<open>Go_Strings\<close>, \<open>Go_Json\<close>: what it uses of \<^verbatim>\<open>strings\<close>, \<^verbatim>\<open>path/filepath\<close>, \<^verbatim>\<open>encoding/base64\<close> and \<^verbatim>\<open>encoding/json\<close>.
  \<^item> \<open>Mesh_Store\<close>, \<open>Mesh_Node\<close>, \<open>Mesh_Flight\<close>, \<open>Mesh_Config\<close>, \<open>Mesh_Runtime\<close> (\<^verbatim>\<open>mesh\<close>): the directory of cache objects
    (locale \<open>object_cache\<close>), the request protocol and its line connection, the sharing of one request
    between concurrent callers as a step relation, configuration, and the runtime's life cycle under any number of callers of its
    \<^verbatim>\<open>Start\<close> and \<^verbatim>\<open>Stop\<close>, section by section.
  \<^item> \<open>App_Vault\<close>, \<open>App_Session\<close>, \<open>App_Embedded\<close>, \<open>App_Invites\<close> (\<^verbatim>\<open>gandr\<close>): the boundary that holds the private
    identity, chat sessions, the embedded daemon (locale \<open>daemon_client\<close>), invitations, which are accepted for a week and only with the
    signature of the key they introduce.
  \<^item> \<open>App_Chat_View\<close> (\<^verbatim>\<open>tui/app.go\<close>): what the screen of the chat keeps of a session's messages, what of it is unread and
    what is visible. The unread count is exact over any arrivals; a message of the open channel is shown and stored.
  \<^item> \<open>Flashback_Links\<close>, \<open>Flashback_Client\<close> (\<^verbatim>\<open>flashback\<close>): the records of the reader, the classification of addresses,
    the requests to the forum.
  \<^item> \<open>Svc_RateLimiter\<close>, \<open>Svc_OriginSync\<close> (\<^verbatim>\<open>external/ratelimit.go\<close>, \<^verbatim>\<open>service/origin_sync.go\<close>): the pacing of requests
    and the crawler it paces.
  \<^item> \<open>Reader_Cache\<close> (\<^verbatim>\<open>store\<close>, \<^verbatim>\<open>service/external_events.go\<close>, \<^verbatim>\<open>external\<close>): the tables of the reader's database with their
    constraints, the transactions on them and the refresh of events. The tables stay consistent under any sequence of
    saves and faults. What is saved is in the rows; but the columns of times are \<^verbatim>\<open>TEXT\<close>, and \<^verbatim>\<open>Scan\<close> refuses them.
  \<^item> \<open>Reader_Load\<close> (\<^verbatim>\<open>tui/app.go\<close>, \<^verbatim>\<open>loadRoot\<close> to \<^verbatim>\<open>firstNonEmpty\<close>): the commands behind the views, over the cache, the
    client and the mesh. A failure costs nothing cached, a page one reader opened reaches another over the mesh; what was
    opened is not shown from the cache, for the reason above.

  \<^bold>\<open>Parameters and what is assumed of them.\<close> Code that is not in the repository is an argument. The cryptographic
  primitives are the record \<open>prims\<close> with the laws \<open>sizes_ok\<close>, \<open>sign_ok\<close>, \<open>aead_ok\<close>, \<open>dh_ok\<close>, \<open>conv_ok\<close>; MessagePack is
  \<open>msgpack\<close>, \<open>ipc_pack\<close>, \<open>keyfile_pack\<close>; the JSON of the mesh records is \<open>object_json\<close>, \<open>message_json\<close>; TOML and
  \<^verbatim>\<open>time.ParseDuration\<close> are functions; \<^verbatim>\<open>net/url\<close> is \<open>net_url\<close>; the forum's server
  and the readers of its HTML are the record \<open>web\<close>; the value that the database driver returns for a column that holds a time is \<open>driver\<close>
  (\<open>text_columns\<close>: a string); the overlay's addressing is \<open>addrCodec\<close>. Each law is
  shown to hold of a concrete instance, which the witnesses use.

  \<^bold>\<open>Bounds and termination.\<close> All loops are total functions with a termination proof, except \<^verbatim>\<open>Wait\<close> of the rate
  limiter, a partial function that is proved to return whenever its sleeps last as long as asked. The one fixed
  depth is the 10000 levels of nesting of the JSON reader, which is the limit of the Go decoder itself.

  \<^bold>\<open>Not modelled.\<close> The text that terminals show and the sparkline, sound and clipboard, and, of the analyzer's terminal program, the screens, keys and
  mouse beside its chat (third-party widget libraries); the scraping of HTML (a third-party document library); search and
  dashboard, which count and match in SQL; the reading of police events (HTTP, JSON, time formats); the start and stop of
  the overlay core; process start-up, signals and logging; floating-point map geometry.
\<close>

end
